(* ===== verification/Roost_Prelude.thy ===== *)
theory Roost_Prelude
  imports Main "HOL-Library.List_Lexorder" "HOL-Library.Char_ord"
begin

text \<open>
  Shared vocabulary of the development: the Rust standard-library operations the sources use
  (results and the question-mark operator, fallible loops, checked and saturating arithmetic at a
  fixed width, byte classes, decimal rendering), the in-place update of a map entry, and two
  generic interfaces: a left fold over an event log and a machine with an invariant.

  Unsigned integers are \<^typ>\<open>nat\<close> with their width written out wherever the source can reach it
  (\<open>checked_add64\<close>, \<open>saturating_add64\<close>); signed ones are \<^typ>\<open>int\<close>. A Rust \<open>String\<close> is the
  \<^typ>\<open>string\<close> of its UTF-8 bytes, except for painted text, which the cell theories keep as a list
  of Unicode scalar values because the source walks it by scalar.
\<close>

named_theorems res_simps \<open>elimination equations for results\<close>

section \<open>Results\<close>

type_synonym ('e, 'a) result = "'e + 'a"

abbreviation Ok :: "'a \<Rightarrow> ('e, 'a) result" where "Ok \<equiv> Inr"
abbreviation Err :: "'e \<Rightarrow> ('e, 'a) result" where "Err \<equiv> Inl"

definition res_bind :: "('e, 'a) result \<Rightarrow> ('a \<Rightarrow> ('e, 'b) result) \<Rightarrow> ('e, 'b) result" where
  "res_bind m f = (case m of Inl e \<Rightarrow> Inl e | Inr x \<Rightarrow> f x)"

definition map_err :: "('e \<Rightarrow> 'f) \<Rightarrow> ('e, 'a) result \<Rightarrow> ('f, 'a) result" where
  "map_err g m = (case m of Inl e \<Rightarrow> Inl (g e) | Inr x \<Rightarrow> Inr x)"

definition ensure :: "bool \<Rightarrow> 'e \<Rightarrow> ('e, unit) result" where
  "ensure b e = (if b then Inr () else Inl e)"

fun map_res :: "('a \<Rightarrow> ('e, 'b) result) \<Rightarrow> 'a list \<Rightarrow> ('e, 'b list) result" where
  "map_res f [] = Inr []"
| "map_res f (x # xs) = res_bind (f x) (\<lambda>y. res_bind (map_res f xs) (\<lambda>ys. Inr (y # ys)))"

fun fold_res :: "('s \<Rightarrow> 'a \<Rightarrow> ('e, 's) result) \<Rightarrow> 's \<Rightarrow> 'a list \<Rightarrow> ('e, 's) result" where
  "fold_res f s [] = Inr s"
| "fold_res f s (x # xs) = res_bind (f s x) (\<lambda>s'. fold_res f s' xs)"

lemma res_bind_simps [simp]:
  "res_bind (Inl e) f = Inl e"
  "res_bind (Inr x) f = f x"
  by (simp_all add: res_bind_def)

lemma res_bind_Inr_iff [res_simps]:
  "res_bind m f = Inr y \<longleftrightarrow> (\<exists>x. m = Inr x \<and> f x = Inr y)"
  by (cases m) auto

lemma res_bind_Inl_iff [res_simps]:
  "res_bind m f = Inl e \<longleftrightarrow> m = Inl e \<or> (\<exists>x. m = Inr x \<and> f x = Inl e)"
  by (cases m) auto

lemma map_err_Inr_iff [res_simps]: "map_err g m = Inr x \<longleftrightarrow> m = Inr x"
  by (cases m) (auto simp: map_err_def)

lemma map_err_simps [simp]:
  "map_err g (Inl e) = Inl (g e)"
  "map_err g (Inr x) = Inr x"
  by (simp_all add: map_err_def)

lemma ensure_Inr_iff [res_simps]: "ensure b e = Inr u \<longleftrightarrow> b"
  by (simp add: ensure_def)

lemma ensure_Inl_iff [res_simps]: "ensure b e = Inl e' \<longleftrightarrow> \<not> b \<and> e' = e"
  by (auto simp: ensure_def)

lemma ensure_simps [simp]:
  "ensure True e = Inr ()"
  "ensure False e = Inl e"
  by (simp_all add: ensure_def)

lemma map_res_Inr_iff:
  "map_res f xs = Inr ys \<longleftrightarrow> list_all2 (\<lambda>x y. f x = Inr y) xs ys"
  by (induction xs arbitrary: ys) (auto simp: res_simps list_all2_Cons1)

lemma map_res_all_Inr: "(\<And>x. x \<in> set xs \<Longrightarrow> f x = Inr (g x)) \<Longrightarrow> map_res f xs = Inr (map g xs)"
  by (induction xs) auto

lemma map_res_from: "map_res f xs = Inr ys \<Longrightarrow> y \<in> set ys \<Longrightarrow> \<exists>x \<in> set xs. f x = Inr y"
  by (induction xs arbitrary: ys) (auto simp: res_simps)

lemma map_res_length: "map_res f xs = Inr ys \<Longrightarrow> length ys = length xs"
  by (auto simp: map_res_Inr_iff dest: list_all2_lengthD)

lemma fold_res_append [simp]:
  "fold_res f s (xs @ ys) = res_bind (fold_res f s xs) (\<lambda>s'. fold_res f s' ys)"
proof (induction xs arbitrary: s)
  case (Cons x xs)
  then show ?case by (cases "f s x") auto
qed simp

text \<open>
  A fallible walk whose state stands for the items already taken: it accepts exactly the lists that are
  good, when badness of a prefix is never repaired by what follows.
\<close>

lemma fold_res_prefix:
  assumes step: "\<And>s xs x. R s xs \<Longrightarrow>
      (if good (xs @ [x]) then \<exists>s'. f s x = Inr s' \<and> R s' (xs @ [x]) else \<exists>e. f s x = Inl e)"
    and prefix: "\<And>xs ys. good (xs @ ys) \<Longrightarrow> good xs"
    and start: "R s xs" and good: "good xs"
  shows "if good (xs @ ys) then \<exists>s'. fold_res f s ys = Inr s' \<and> R s' (xs @ ys) else \<exists>e. fold_res f s ys = Inl e"
  using start good
proof (induction ys arbitrary: s xs)
  case (Cons y ys)
  note one = step [OF Cons.prems(1), of y]
  show ?case
  proof (cases "good (xs @ [y])")
    case True
    then obtain s' where "f s y = Inr s'" "R s' (xs @ [y])" using one by auto
    with Cons.IH [of s' "xs @ [y]"] True show ?thesis by (auto split: if_splits)
  next
    case False
    then have "\<not> good (xs @ y # ys)" using prefix [of "xs @ [y]" ys] by auto
    with False one show ?thesis by auto
  qed
qed simp

lemma enumerate_all_snd: "(\<forall>(i, x) \<in> set (List.enumerate n xs). P x) \<longleftrightarrow> (\<forall>x \<in> set xs. P x)"
  by (induction xs arbitrary: n) auto

section \<open>Machine arithmetic\<close>

definition u16_max :: nat where "u16_max = 2 ^ 16 - 1"
definition u32_max :: nat where "u32_max = 2 ^ 32 - 1"
definition u64_max :: nat where "u64_max = 2 ^ 64 - 1"
definition i64_max :: int where "i64_max = 2 ^ 63 - 1"

definition checked_add64 :: "nat \<Rightarrow> nat \<Rightarrow> nat option" where
  "checked_add64 a b = (if a + b \<le> u64_max then Some (a + b) else None)"

definition saturating_add64 :: "nat \<Rightarrow> nat \<Rightarrow> nat" where
  "saturating_add64 a b = min (a + b) u64_max"

text \<open>
  A plain \<open>n += 1\<close> on a \<open>u64\<close>: the release profile keeps no overflow checks, so the counter wraps.
\<close>

definition bump64 :: "nat \<Rightarrow> nat" where
  "bump64 n = (if n = u64_max then 0 else n + 1)"

definition saturating_add32 :: "nat \<Rightarrow> nat \<Rightarrow> nat" where
  "saturating_add32 a b = min (a + b) u32_max"

definition try_u16 :: "nat \<Rightarrow> nat option" where
  "try_u16 n = (if n \<le> u16_max then Some n else None)"

lemma checked_add64_Some_iff: "checked_add64 a b = Some c \<longleftrightarrow> c = a + b \<and> a + b \<le> u64_max"
  by (auto simp: checked_add64_def)

lemma saturating_add64_exact: "a + b \<le> u64_max \<Longrightarrow> saturating_add64 a b = a + b"
  by (simp add: saturating_add64_def)

lemma saturating_add64_le: "saturating_add64 a b \<le> a + b"
  by (simp add: saturating_add64_def)

lemma saturating_add64_mono: "a \<le> a' \<Longrightarrow> saturating_add64 a b \<le> saturating_add64 a' b"
  by (simp add: saturating_add64_def)

lemma bump64_exact [simp]: "n < u64_max \<Longrightarrow> bump64 n = n + 1"
  by (simp add: bump64_def)

lemma bump64_mod: "n \<le> u64_max \<Longrightarrow> bump64 n = (n + 1) mod 2 ^ 64"
  by (auto simp: bump64_def u64_max_def)

section \<open>Bytes and decimal rendering\<close>

abbreviation byte_of :: "char \<Rightarrow> nat" where "byte_of c \<equiv> of_char c"

definition is_ascii_digit :: "char \<Rightarrow> bool" where
  "is_ascii_digit c \<longleftrightarrow> 48 \<le> byte_of c \<and> byte_of c \<le> 57"

definition is_lower_hex_alpha :: "char \<Rightarrow> bool" where
  "is_lower_hex_alpha c \<longleftrightarrow> 97 \<le> byte_of c \<and> byte_of c \<le> 102"

definition is_ascii_hexdigit :: "char \<Rightarrow> bool" where
  "is_ascii_hexdigit c \<longleftrightarrow>
     is_ascii_digit c \<or> is_lower_hex_alpha c \<or> (65 \<le> byte_of c \<and> byte_of c \<le> 70)"

fun show_nat :: "nat \<Rightarrow> string" where
  "show_nat n =
     (if n < 10 then [char_of (48 + n)] else show_nat (n div 10) @ [char_of (48 + n mod 10)])"

declare show_nat.simps [simp del]

lemma show_nat_digits: "c \<in> set (show_nat n) \<Longrightarrow> is_ascii_digit c"
proof (induction n rule: show_nat.induct)
  case (1 n)
  have d: "is_ascii_digit (char_of (48 + k))" if "k < 10" for k :: nat
    using that by (simp add: is_ascii_digit_def)
  show ?case
  proof (cases "n < 10")
    case True
    with 1 d show ?thesis by (simp add: show_nat.simps [of n])
  next
    case False
    with 1 d [of "n mod 10"] show ?thesis by (auto simp: show_nat.simps [of n])
  qed
qed

lemma show_nat_value: "foldl (\<lambda>a c. 10 * a + (byte_of c - 48)) 0 (show_nat n) = n"
proof (induction n rule: show_nat.induct)
  case (1 n)
  show ?case
  proof (cases "n < 10")
    case True
    then show ?thesis by (simp add: show_nat.simps [of n])
  next
    case False
    with 1 show ?thesis by (simp add: show_nat.simps [of n])
  qed
qed

lemma show_nat_inject [simp]: "show_nat m = show_nat n \<longleftrightarrow> m = n"
  by (metis show_nat_value)

lemma split_at_first:
  "c \<notin> set xs \<Longrightarrow> c \<notin> set xs' \<Longrightarrow> xs @ c # ys = xs' @ c # ys' \<longleftrightarrow> xs = xs' \<and> ys = ys'"
proof (induction xs arbitrary: xs')
  case Nil
  then show ?case by (cases xs') auto
next
  case (Cons x xs)
  then show ?case by (cases xs') auto
qed

section \<open>Updating one entry of a map in place\<close>

definition update_entry :: "'k \<Rightarrow> ('v \<Rightarrow> 'v) \<Rightarrow> ('k \<rightharpoonup> 'v) \<Rightarrow> ('k \<rightharpoonup> 'v)" where
  "update_entry k f m = (case m k of None \<Rightarrow> m | Some v \<Rightarrow> m(k \<mapsto> f v))"

lemma update_entry_same [simp]: "update_entry k f m k = map_option f (m k)"
  by (simp add: update_entry_def split: option.split)

lemma update_entry_other [simp]: "j \<noteq> k \<Longrightarrow> update_entry k f m j = m j"
  by (simp add: update_entry_def split: option.split)

lemma update_entry_apply: "update_entry k f m j = (if j = k then map_option f (m k) else m j)"
  by simp

lemma dom_update_entry [simp]: "dom (update_entry k f m) = dom m"
  by (auto simp: update_entry_def split: option.split)

section \<open>An ordered log and its reducer\<close>

text \<open>
  The contract a projection relies on: one reducer, a starting value, and a notion of which keys
  of the state an event may touch. Everything a consumer may conclude about replay is proved here
  once, over any reducer with these laws.
\<close>

locale event_log =
  fixes step :: "('k \<rightharpoonup> 'v) \<Rightarrow> 'e \<Rightarrow> ('k \<rightharpoonup> 'v)"
    and touches :: "'e \<Rightarrow> 'k \<Rightarrow> bool"
  assumes step_frame: "\<not> touches e k \<Longrightarrow> step m e k = m k"
    and step_local: "m k = m' k \<Longrightarrow> step m e k = step m' e k"
begin

lemma replay_append: "foldl step m (xs @ ys) = foldl step (foldl step m xs) ys"
  by simp

lemma replay_local: "m k = m' k \<Longrightarrow> foldl step m es k = foldl step m' es k"
proof (induction es arbitrary: m m')
  case (Cons e es)
  have "step m e k = step m' e k" by (rule step_local) (rule Cons.prems)
  then have "foldl step (step m e) es k = foldl step (step m' e) es k" by (rule Cons.IH)
  then show ?case by simp
qed simp

lemma replay_relevant: "foldl step m es k = foldl step m (filter (\<lambda>e. touches e k) es) k"
proof (induction es arbitrary: m)
  case (Cons e es)
  show ?case
  proof (cases "touches e k")
    case True
    with Cons.IH [of "step m e"] show ?thesis by simp
  next
    case False
    have "foldl step (step m e) es k = foldl step m es k"
      by (rule replay_local) (rule step_frame [OF False])
    with False Cons.IH [of m] show ?thesis by simp
  qed
qed simp

lemma step_commute:
  assumes "\<And>k. \<not> (touches e k \<and> touches e' k)"
  shows "step (step m e) e' = step (step m e') e"
proof
  fix k
  show "step (step m e) e' k = step (step m e') e k"
  proof (cases "touches e' k")
    case True
    with assms have "\<not> touches e k" by blast
    then show ?thesis
      by (metis step_frame step_local)
  next
    case False
    then show ?thesis
      by (metis step_frame step_local)
  qed
qed

end

section \<open>Machines with an invariant\<close>

text \<open>
  The contract between a stateful component and its host: every operation the host may call keeps
  the invariant. The client's conclusion, that no sequence of calls breaks it, is proved once.
\<close>

locale invariant_machine =
  fixes invar :: "'s \<Rightarrow> bool"
    and admissible :: "'op \<Rightarrow> bool"
    and exec :: "'op \<Rightarrow> 's \<Rightarrow> 's"
  assumes exec_invar: "invar s \<Longrightarrow> admissible p \<Longrightarrow> invar (exec p s)"
begin

lemma run_invar: "invar s \<Longrightarrow> list_all admissible ps \<Longrightarrow> invar (fold exec ps s)"
  by (induction ps arbitrary: s) (auto intro: exec_invar)

end

text \<open>
  Where a call may be made depends on the state it meets, the run is guarded: each call's guard holds in
  the state the calls before it left.
\<close>

fun guarded_run :: "('op \<Rightarrow> 's \<Rightarrow> bool) \<Rightarrow> ('op \<Rightarrow> 's \<Rightarrow> 's) \<Rightarrow> 'op list \<Rightarrow> 's \<Rightarrow> bool" where
  "guarded_run guard exec [] s \<longleftrightarrow> True"
| "guarded_run guard exec (x # xs) s \<longleftrightarrow> guard x s \<and> guarded_run guard exec xs (exec x s)"

lemma guarded_project:
  assumes "\<And>x s. f (exec x s) = exec' x (f s)"
  shows "guarded_run (\<lambda>x s. guard x (f s)) exec xs s \<longleftrightarrow> guarded_run guard exec' xs (f s)"
    and "f (fold exec xs s) = fold exec' xs (f s)"
  by (induction xs arbitrary: s) (auto simp: assms)

locale guarded_machine =
  fixes invar :: "'s \<Rightarrow> bool"
    and guard :: "'op \<Rightarrow> 's \<Rightarrow> bool"
    and exec :: "'op \<Rightarrow> 's \<Rightarrow> 's"
  assumes guarded_exec: "invar s \<Longrightarrow> guard x s \<Longrightarrow> invar (exec x s)"
begin

lemma guarded_invar: "invar s \<Longrightarrow> guarded_run guard exec xs s \<Longrightarrow> invar (fold exec xs s)"
  by (induction xs arbitrary: s) (auto intro: guarded_exec)

end

sublocale invariant_machine \<subseteq> guarded_machine invar "\<lambda>x s. admissible x" exec
  by unfold_locales (rule exec_invar)

section \<open>Functional refinement\<close>

text \<open>
  The contract between a detailed step function and the abstract one it implements: one step commutes
  with the abstraction. Then whole runs do.
\<close>

locale functional_refinement =
  fixes abs :: "'c \<Rightarrow> 'a"
    and cstep :: "'c \<Rightarrow> 'x \<Rightarrow> 'c"
    and astep :: "'a \<Rightarrow> 'x \<Rightarrow> 'a"
  assumes step_refines: "abs (cstep s x) = astep (abs s) x"
begin

lemma run_refines: "abs (foldl cstep s xs) = foldl astep (abs s) xs"
  by (induction xs arbitrary: s) (simp_all add: step_refines)

end

end
