(* ===== verification/Branded_Ids.thy ===== *)
theory Branded_Ids
  imports Roost_Prelude
begin

text \<open>
  The contract checks every wire value goes through (\<open>validate.rs\<close>, \<open>error.rs\<close>), the rendering
  of a machine fingerprint (\<open>fingerprint.rs\<close>) and the branded identities built on them
  (\<open>brand.rs\<close>). A brand is a datatype of its own, so two kinds of id never unify, and its only
  constructor function is the shape-checking \<open>try_from\<close>.

  An error keeps the dotted path of the offending field; the free-text reason that goes into a log
  line is not part of the model.
\<close>

section \<open>The error every contract check returns\<close>

datatype protocol_error = ProtocolError (error_field: string)

type_synonym 'a protocol_result = "(protocol_error, 'a) result"

definition within :: "string \<Rightarrow> protocol_error \<Rightarrow> protocol_error" where
  "within prefix e = ProtocolError (prefix @ ''.'' @ error_field e)"

section \<open>Validators\<close>

definition is_uuid_dash_position :: "nat \<Rightarrow> bool" where
  "is_uuid_dash_position i \<longleftrightarrow> i \<in> {8, 13, 18, 23}"

definition uuid_shape :: "string \<Rightarrow> bool" where
  "uuid_shape value \<longleftrightarrow>
     length value = 36 \<and>
     list_all (\<lambda>(index, byte).
       if is_uuid_dash_position index then byte = CHR ''-'' else is_ascii_hexdigit byte)
       (List.enumerate 0 value)"

definition uuid :: "string \<Rightarrow> string \<Rightarrow> unit protocol_result" where
  "uuid field value = (if uuid_shape value then Ok () else Err (ProtocolError field))"

definition hex_of_len :: "string \<Rightarrow> string \<Rightarrow> nat \<Rightarrow> unit protocol_result" where
  "hex_of_len field value len =
     (if length value = len \<and> list_all is_ascii_hexdigit value then Ok ()
      else Err (ProtocolError field))"

definition integer_in_range :: "string \<Rightarrow> int \<Rightarrow> int \<Rightarrow> int \<Rightarrow> unit protocol_result" where
  "integer_in_range field value low high =
     (if low \<le> value \<and> value \<le> high then Ok () else Err (ProtocolError field))"

definition nonnegative :: "string \<Rightarrow> int \<Rightarrow> unit protocol_result" where
  "nonnegative field value = integer_in_range field value 0 i64_max"

definition non_empty :: "string \<Rightarrow> string \<Rightarrow> unit protocol_result" where
  "non_empty field value = (if value = [] then Err (ProtocolError field) else Ok ())"

definition max_utf8_bytes :: "string \<Rightarrow> string \<Rightarrow> nat \<Rightarrow> unit protocol_result" where
  "max_utf8_bytes field value limit =
     (if length value \<le> limit then Ok () else Err (ProtocolError field))"

definition one_of :: "string \<Rightarrow> string \<Rightarrow> string list \<Rightarrow> string protocol_result" where
  "one_of field value allowed =
     (case List.find (\<lambda>candidate. candidate = value) allowed of
        Some candidate \<Rightarrow> Ok candidate | None \<Rightarrow> Err (ProtocolError field))"

definition all_or_none :: "string \<Rightarrow> bool \<times> bool \<times> bool \<Rightarrow> unit protocol_result" where
  "all_or_none field present =
     (case present of (a, b, c) \<Rightarrow>
        let some_present = (a \<or> b \<or> c); all_present = (a \<and> b \<and> c)
        in if some_present = all_present then Ok () else Err (ProtocolError field))"

section \<open>Fingerprints\<close>

definition FINGERPRINT_INPUT_BYTES :: nat where "FINGERPRINT_INPUT_BYTES = 32"
definition FINGERPRINT_HEX_LEN :: nat where "FINGERPRINT_HEX_LEN = FINGERPRINT_INPUT_BYTES * 2"

definition from_digit16 :: "nat \<Rightarrow> char" where
  "from_digit16 d = (if d < 10 then char_of (48 + d) else if d < 16 then char_of (87 + d) else CHR ''0'')"

definition fingerprint_hex :: "nat list \<Rightarrow> string" where
  "fingerprint_hex digest =
     concat (map (\<lambda>byte. [from_digit16 (byte div 16), from_digit16 (byte mod 16)]) digest)"

definition is_fingerprint_hex :: "string \<Rightarrow> bool" where
  "is_fingerprint_hex value \<longleftrightarrow>
     length value = FINGERPRINT_HEX_LEN \<and>
     list_all (\<lambda>byte. is_ascii_digit byte \<or> is_lower_hex_alpha byte) value"

section \<open>Brands\<close>

datatype worker_fp = WorkerFp (worker_fp_str: string)
datatype session_id = SessionId (session_id_str: string)
datatype channel_id = ChannelId (channel_id_u32: nat)
datatype workspace_id = WorkspaceId (workspace_id_str: string)
datatype task_id = TaskId (task_id_str: string)
datatype mcp_relay_id = McpRelayId (mcp_relay_id_str: string)
datatype trace_id = TraceId (trace_id_str: string)

definition worker_fp_check :: "worker_fp \<Rightarrow> unit protocol_result" where
  "worker_fp_check fp =
     (if is_fingerprint_hex (worker_fp_str fp) then Ok () else Err (ProtocolError ''worker_fp''))"

definition worker_fp_try_from :: "string \<Rightarrow> worker_fp protocol_result" where
  "worker_fp_try_from value = res_bind (worker_fp_check (WorkerFp value)) (\<lambda>_. Ok (WorkerFp value))"

definition session_id_check :: "session_id \<Rightarrow> unit protocol_result" where
  "session_id_check sid = uuid ''session_id'' (session_id_str sid)"

definition session_id_try_from :: "string \<Rightarrow> session_id protocol_result" where
  "session_id_try_from value = res_bind (session_id_check (SessionId value)) (\<lambda>_. Ok (SessionId value))"

definition channel_id_try_from :: "int \<Rightarrow> channel_id protocol_result" where
  "channel_id_try_from value =
     (if 0 \<le> value \<and> value \<le> int u32_max then Ok (ChannelId (nat value))
      else Err (ProtocolError ''channel''))"

definition workspace_id_check :: "workspace_id \<Rightarrow> unit protocol_result" where
  "workspace_id_check w = uuid ''workspace_id'' (workspace_id_str w)"

definition workspace_id_try_from :: "string \<Rightarrow> workspace_id protocol_result" where
  "workspace_id_try_from value =
     res_bind (workspace_id_check (WorkspaceId value)) (\<lambda>_. Ok (WorkspaceId value))"

definition task_id_check :: "task_id \<Rightarrow> unit protocol_result" where
  "task_id_check t = uuid ''task_id'' (task_id_str t)"

definition task_id_try_from :: "string \<Rightarrow> task_id protocol_result" where
  "task_id_try_from value = res_bind (task_id_check (TaskId value)) (\<lambda>_. Ok (TaskId value))"

definition mcp_relay_id_check :: "mcp_relay_id \<Rightarrow> unit protocol_result" where
  "mcp_relay_id_check r = uuid ''mcp_relay_id'' (mcp_relay_id_str r)"

definition mcp_relay_id_try_from :: "string \<Rightarrow> mcp_relay_id protocol_result" where
  "mcp_relay_id_try_from value =
     res_bind (mcp_relay_id_check (McpRelayId value)) (\<lambda>_. Ok (McpRelayId value))"

definition trace_id_check :: "trace_id \<Rightarrow> unit protocol_result" where
  "trace_id_check t =
     (if 8 \<le> length (trace_id_str t) \<and> list_all is_ascii_hexdigit (trace_id_str t) then Ok ()
      else Err (ProtocolError ''trace_id''))"

definition trace_id_try_from :: "string \<Rightarrow> trace_id protocol_result" where
  "trace_id_try_from value = res_bind (trace_id_check (TraceId value)) (\<lambda>_. Ok (TraceId value))"

section \<open>The brand interface\<close>

text \<open>
  What a consumer may rely on for every branded identity: the constructor function accepts exactly
  the strings of the brand's shape and rendering the accepted value gives the string back. One
  locale, interpreted on each brand of the source.
\<close>

locale brand =
  fixes try_from :: "string \<Rightarrow> 'b protocol_result"
    and as_str :: "'b \<Rightarrow> string"
    and shape :: "string \<Rightarrow> bool"
    and field :: string
  assumes accepts: "shape s \<Longrightarrow> \<exists>b. try_from s = Inr b \<and> as_str b = s"
    and refuses: "\<not> shape s \<Longrightarrow> try_from s = Inl (ProtocolError field)"
begin

lemma try_from_Inr_iff: "(\<exists>b. try_from s = Inr b) \<longleftrightarrow> shape s"
  using accepts refuses by (metis Inl_Inr_False)

lemma as_str_try_from: "try_from s = Inr b \<Longrightarrow> as_str b = s"
  using accepts refuses by (metis Inl_Inr_False Inr_inject)

lemma try_from_inject: "try_from s = Inr b \<Longrightarrow> try_from s' = Inr b \<Longrightarrow> s = s'"
  using as_str_try_from by metis

end

interpretation worker_fp_brand: brand worker_fp_try_from worker_fp_str is_fingerprint_hex "''worker_fp''"
  by unfold_locales (auto simp: worker_fp_try_from_def worker_fp_check_def)

interpretation session_id_brand: brand session_id_try_from session_id_str uuid_shape "''session_id''"
  by unfold_locales (auto simp: session_id_try_from_def session_id_check_def uuid_def)

interpretation workspace_id_brand:
  brand workspace_id_try_from workspace_id_str uuid_shape "''workspace_id''"
  by unfold_locales (auto simp: workspace_id_try_from_def workspace_id_check_def uuid_def)

interpretation task_id_brand: brand task_id_try_from task_id_str uuid_shape "''task_id''"
  by unfold_locales (auto simp: task_id_try_from_def task_id_check_def uuid_def)

interpretation mcp_relay_id_brand:
  brand mcp_relay_id_try_from mcp_relay_id_str uuid_shape "''mcp_relay_id''"
  by unfold_locales (auto simp: mcp_relay_id_try_from_def mcp_relay_id_check_def uuid_def)

lemma session_id_try_from_eq:
  "session_id_try_from s = (if uuid_shape s then Inr (SessionId s) else Inl (ProtocolError ''session_id''))"
  by (simp add: session_id_try_from_def session_id_check_def uuid_def)

section \<open>Rendered fingerprints\<close>

lemma from_digit16_hex:
  assumes "d < 16"
  shows "is_ascii_digit (from_digit16 d) \<or> is_lower_hex_alpha (from_digit16 d)"
  using assms by (auto simp: from_digit16_def is_ascii_digit_def is_lower_hex_alpha_def)

lemma from_digit16_inject:
  assumes "d < 16" "e < 16" "from_digit16 d = from_digit16 e"
  shows "d = e"
proof -
  have "byte_of (from_digit16 d) = byte_of (from_digit16 e)" using assms by simp
  then show ?thesis using assms(1,2) by (auto simp: from_digit16_def split: if_splits)
qed

lemma length_fingerprint_hex: "length (fingerprint_hex digest) = 2 * length digest"
  by (induction digest) (auto simp: fingerprint_hex_def)

lemma fingerprint_hex_chars:
  assumes "\<forall>b \<in> set digest. b < 256"
  shows "list_all (\<lambda>c. is_ascii_digit c \<or> is_lower_hex_alpha c) (fingerprint_hex digest)"
  using assms
proof (induction digest)
  case (Cons b digest)
  then have "b div 16 < 16" "b mod 16 < 16" by auto
  with Cons show ?case by (auto simp: fingerprint_hex_def from_digit16_hex)
qed (simp add: fingerprint_hex_def)

lemma fingerprint_hex_inject:
  assumes "length d = length d'" "\<forall>b \<in> set d. b < 256" "\<forall>b \<in> set d'. b < 256"
    "fingerprint_hex d = fingerprint_hex d'"
  shows "d = d'"
  using assms
proof (induction d d' rule: list_induct2)
  case (Cons b bs b' bs')
  then have "b div 16 < 16" "b mod 16 < 16" "b' div 16 < 16" "b' mod 16 < 16" by auto
  moreover have "from_digit16 (b div 16) = from_digit16 (b' div 16)"
    "from_digit16 (b mod 16) = from_digit16 (b' mod 16)" "fingerprint_hex bs = fingerprint_hex bs'"
    using Cons.prems by (simp_all add: fingerprint_hex_def)
  ultimately have "b div 16 = b' div 16" "b mod 16 = b' mod 16" "bs = bs'"
    using from_digit16_inject Cons by auto
  then show ?case by (metis div_mult_mod_eq)
qed simp

text \<open>
  The digest check of the keeper-update contract: the source's comment and its own message promise
  lowercase hexadecimal, the code takes either case.
\<close>

lemma hex_of_len_accepts_uppercase: "hex_of_len f (replicate n (CHR ''A'')) n = Ok ()"
  by (simp add: hex_of_len_def list_all_iff is_ascii_hexdigit_def)

text \<open>
  The rendering of a 32-byte digest is always an accepted worker fingerprint, and it is
  injective: two different digests never share a fingerprint string.
\<close>

theorem fingerprint_render:
  assumes "length d = FINGERPRINT_INPUT_BYTES" "\<forall>b \<in> set d. b < 256"
    and "length d' = FINGERPRINT_INPUT_BYTES" "\<forall>b \<in> set d'. b < 256"
  shows "worker_fp_try_from (fingerprint_hex d) = Ok (WorkerFp (fingerprint_hex d))
    \<and> (fingerprint_hex d = fingerprint_hex d' \<longrightarrow> d = d')"
  using assms fingerprint_hex_chars [of d] fingerprint_hex_inject [of d d']
  by (simp add: worker_fp_try_from_def worker_fp_check_def is_fingerprint_hex_def
      length_fingerprint_hex FINGERPRINT_HEX_LEN_def)

theorem fingerprint_render_witness:
  "worker_fp_try_from (fingerprint_hex (replicate 32 171)) = Ok (WorkerFp (fingerprint_hex (replicate 32 171)))
    \<and> fingerprint_hex (replicate 32 171) \<noteq> fingerprint_hex (replicate 32 205)"
  using fingerprint_render [of "replicate 32 171" "replicate 32 205"]
  by (auto simp: FINGERPRINT_INPUT_BYTES_def)

end
