(* ===== verification/Session_Events.thy ===== *)
theory Session_Events
  imports Branded_Ids
begin

text \<open>
  The append-only session log: the row every client renders (\<open>wire/session.rs\<close>), the event union
  (\<open>wire/event/variants.rs\<close>) and the one fold of the workspace (\<open>wire/event.rs\<close>), shared by the
  coordinator's projector, the browser's store and the worker's reconciliation. The projection is a
  map from session ids to rows; an in-place edit of a row the projection may not hold is
  \<^const>\<open>update_entry\<close>.
\<close>

section \<open>The session row\<close>

datatype session_kind = Shell
datatype session_status = StatusOpen | StatusClosed
datatype pull_request_state = PrOpen | PrMerged | PrClosed | PrDraft
datatype pull_request_checks = ChecksPassing | ChecksFailing | ChecksPending | ChecksNone

fun session_kind_as_str :: "session_kind \<Rightarrow> string" where
  "session_kind_as_str Shell = ''shell''"

fun session_status_as_str :: "session_status \<Rightarrow> string" where
  "session_status_as_str StatusOpen = ''open''"
| "session_status_as_str StatusClosed = ''closed''"

fun pull_request_state_as_str :: "pull_request_state \<Rightarrow> string" where
  "pull_request_state_as_str PrOpen = ''open''"
| "pull_request_state_as_str PrMerged = ''merged''"
| "pull_request_state_as_str PrClosed = ''closed''"
| "pull_request_state_as_str PrDraft = ''draft''"

fun pull_request_checks_as_str :: "pull_request_checks \<Rightarrow> string" where
  "pull_request_checks_as_str ChecksPassing = ''passing''"
| "pull_request_checks_as_str ChecksFailing = ''failing''"
| "pull_request_checks_as_str ChecksPending = ''pending''"
| "pull_request_checks_as_str ChecksNone = ''none''"

definition find_by_str :: "('a \<Rightarrow> string) \<Rightarrow> 'a list \<Rightarrow> string \<Rightarrow> string \<Rightarrow> 'a protocol_result" where
  "find_by_str as_str members field value =
     (case List.find (\<lambda>x. as_str x = value) members of
        Some x \<Rightarrow> Ok x | None \<Rightarrow> Err (ProtocolError field))"

definition session_kind_from_str :: "string \<Rightarrow> session_kind protocol_result" where
  "session_kind_from_str = find_by_str session_kind_as_str [Shell] ''session_kind''"

definition session_status_from_str :: "string \<Rightarrow> session_status protocol_result" where
  "session_status_from_str =
     find_by_str session_status_as_str [StatusOpen, StatusClosed] ''session_status''"

definition pull_request_state_from_str :: "string \<Rightarrow> pull_request_state protocol_result" where
  "pull_request_state_from_str =
     find_by_str pull_request_state_as_str [PrOpen, PrMerged, PrClosed, PrDraft] ''pr_state''"

definition pull_request_checks_from_str :: "string \<Rightarrow> pull_request_checks protocol_result" where
  "pull_request_checks_from_str =
     find_by_str pull_request_checks_as_str
       [ChecksPassing, ChecksFailing, ChecksPending, ChecksNone] ''pr_checks''"

record session =
  sess_id :: session_id
  sess_worker_fp :: worker_fp
  sess_channel :: channel_id
  sess_kind :: session_kind
  sess_cwd :: string
  sess_spawn_cwd :: "string option"
  sess_workspace_id :: "workspace_id option"
  sess_status :: session_status
  sess_created_at :: int
  sess_closed_at :: "int option"
  sess_custom_title :: "string option"
  sess_git_branch :: "string option"
  sess_git_remote :: "string option option"
  sess_pr_number :: "int option"
  sess_pr_state :: "pull_request_state option"
  sess_pr_checks :: "pull_request_checks option"
  sess_pr_url :: "string option"
  sess_ports :: "int list option"

definition session_check :: "session \<Rightarrow> unit protocol_result" where
  "session_check s =
     res_bind (integer_in_range ''created_at'' (sess_created_at s) 1 i64_max) (\<lambda>_.
       case sess_closed_at s of
         Some closed_at \<Rightarrow> integer_in_range ''closed_at'' closed_at 1 i64_max
       | None \<Rightarrow> Ok ())"

section \<open>The event union\<close>

datatype session_event =
    Opened session_id worker_fp channel_id session_kind string int "trace_id option"
  | Closed session_id "int option" int "trace_id option"
  | Attached session_id int "trace_id option"
  | Detached session_id int "trace_id option"
  | Cwd session_id string int "trace_id option"
  | WorkspaceAssigned session_id "workspace_id option" int "trace_id option"
  | Snapshot worker_fp "session list" int "trace_id option"
  | Respawned session_id channel_id int "trace_id option"
  | Renamed session_id string int "trace_id option"
  | Git session_id "string option" "string option" int "trace_id option"
  | Pr session_id "int option" "pull_request_state option" "pull_request_checks option"
      "string option" int "trace_id option"
  | Ports session_id "int list" int "trace_id option"

fun event_ts :: "session_event \<Rightarrow> int" where
  "event_ts (Opened _ _ _ _ _ ts _) = ts"
| "event_ts (Closed _ _ ts _) = ts"
| "event_ts (Attached _ ts _) = ts"
| "event_ts (Detached _ ts _) = ts"
| "event_ts (Cwd _ _ ts _) = ts"
| "event_ts (WorkspaceAssigned _ _ ts _) = ts"
| "event_ts (Snapshot _ _ ts _) = ts"
| "event_ts (Respawned _ _ ts _) = ts"
| "event_ts (Renamed _ _ ts _) = ts"
| "event_ts (Git _ _ _ ts _) = ts"
| "event_ts (Pr _ _ _ _ _ ts _) = ts"
| "event_ts (Ports _ _ ts _) = ts"

fun event_session_id :: "session_event \<Rightarrow> session_id option" where
  "event_session_id (Snapshot _ _ _ _) = None"
| "event_session_id (Opened sid _ _ _ _ _ _) = Some sid"
| "event_session_id (Closed sid _ _ _) = Some sid"
| "event_session_id (Attached sid _ _) = Some sid"
| "event_session_id (Detached sid _ _) = Some sid"
| "event_session_id (Cwd sid _ _ _) = Some sid"
| "event_session_id (WorkspaceAssigned sid _ _ _) = Some sid"
| "event_session_id (Respawned sid _ _ _) = Some sid"
| "event_session_id (Renamed sid _ _ _) = Some sid"
| "event_session_id (Git sid _ _ _ _) = Some sid"
| "event_session_id (Pr sid _ _ _ _ _ _) = Some sid"
| "event_session_id (Ports sid _ _ _) = Some sid"

fun kind_name :: "session_event \<Rightarrow> string" where
  "kind_name (Opened _ _ _ _ _ _ _) = ''opened''"
| "kind_name (Closed _ _ _ _) = ''closed''"
| "kind_name (Attached _ _ _) = ''attached''"
| "kind_name (Detached _ _ _) = ''detached''"
| "kind_name (Cwd _ _ _ _) = ''cwd''"
| "kind_name (WorkspaceAssigned _ _ _ _) = ''workspace_assigned''"
| "kind_name (Snapshot _ _ _ _) = ''snapshot''"
| "kind_name (Respawned _ _ _ _) = ''respawned''"
| "kind_name (Renamed _ _ _ _) = ''renamed''"
| "kind_name (Git _ _ _ _ _) = ''git''"
| "kind_name (Pr _ _ _ _ _ _ _) = ''pr''"
| "kind_name (Ports _ _ _ _) = ''ports''"

definition check_sessions :: "(nat \<times> session) list \<Rightarrow> unit protocol_result" where
  "check_sessions indexed =
     fold_res (\<lambda>_ (index, s).
       map_err (within (''session_event.sessions['' @ show_nat index @ '']'')) (session_check s))
       () indexed"

definition event_parse :: "('v \<Rightarrow> session_event option) \<Rightarrow> 'v \<Rightarrow> session_event protocol_result" where
  "event_parse decode value =
     (case decode value of
        None \<Rightarrow> Err (ProtocolError ''session_event'')
      | Some event \<Rightarrow>
          res_bind (integer_in_range ''session_event.ts'' (event_ts event) 1 i64_max) (\<lambda>_.
          res_bind (case event of
              Snapshot _ sessions _ _ \<Rightarrow> check_sessions (List.enumerate 0 sessions)
            | _ \<Rightarrow> Ok ()) (\<lambda>_. Ok event)))"

section \<open>The fold\<close>

type_synonym session_map = "session_id \<rightharpoonup> session"

definition opened_row ::
  "session_id \<Rightarrow> worker_fp \<Rightarrow> channel_id \<Rightarrow> session_kind \<Rightarrow> string \<Rightarrow> int \<Rightarrow> session" where
  "opened_row sid fp ch kind cwd ts =
     \<lparr>sess_id = sid, sess_worker_fp = fp, sess_channel = ch, sess_kind = kind, sess_cwd = cwd,
      sess_spawn_cwd = Some cwd, sess_workspace_id = None, sess_status = StatusOpen,
      sess_created_at = ts, sess_closed_at = None, sess_custom_title = None,
      sess_git_branch = None, sess_git_remote = None, sess_pr_number = None, sess_pr_state = None,
      sess_pr_checks = None, sess_pr_url = None, sess_ports = None\<rparr>"

definition announced_row :: "session_map \<Rightarrow> session \<Rightarrow> session" where
  "announced_row prev announced =
     (case prev (sess_id announced) of
        None \<Rightarrow> announced
      | Some before \<Rightarrow> announced\<lparr>sess_created_at := sess_created_at before,
          sess_workspace_id := sess_workspace_id before,
          sess_custom_title := sess_custom_title before,
          sess_spawn_cwd := sess_spawn_cwd before\<rparr>)"

fun fold_event :: "session_map \<Rightarrow> session_event \<Rightarrow> session_map" where
  "fold_event prev (Attached _ _ _) = prev"
| "fold_event prev (Detached _ _ _) = prev"
| "fold_event prev (Opened sid fp ch kind cwd ts _) =
     prev(sid \<mapsto> opened_row sid fp ch kind cwd ts)"
| "fold_event prev (Closed sid _ _ _) = prev(sid := None)"
| "fold_event prev (Cwd sid cwd _ _) = update_entry sid (\<lambda>s. s\<lparr>sess_cwd := cwd\<rparr>) prev"
| "fold_event prev (WorkspaceAssigned sid ws _ _) =
     update_entry sid (\<lambda>s. s\<lparr>sess_workspace_id := ws\<rparr>) prev"
| "fold_event prev (Snapshot _ sessions _ _) =
     foldl (\<lambda>next announced. next(sess_id announced \<mapsto> announced_row prev announced)) prev sessions"
| "fold_event prev (Respawned sid ch _ _) =
     update_entry sid (\<lambda>s. s\<lparr>sess_channel := ch, sess_status := StatusOpen, sess_closed_at := None\<rparr>) prev"
| "fold_event prev (Renamed sid title _ _) =
     update_entry sid (\<lambda>s. s\<lparr>sess_custom_title := (if title = [] then None else Some title)\<rparr>) prev"
| "fold_event prev (Git sid branch remote _ _) =
     update_entry sid (\<lambda>s. let s' = s\<lparr>sess_git_branch := branch\<rparr> in
       case remote of None \<Rightarrow> s' | Some r \<Rightarrow> s'\<lparr>sess_git_remote := Some (Some r)\<rparr>) prev"
| "fold_event prev (Pr sid number state checks url _ _) =
     update_entry sid (\<lambda>s. s\<lparr>sess_pr_number := number, sess_pr_state := state,
       sess_pr_checks := checks, sess_pr_url := url\<rparr>) prev"
| "fold_event prev (Ports sid ports _ _) =
     update_entry sid (\<lambda>s. s\<lparr>sess_ports := Some ports\<rparr>) prev"

fun fold_all :: "session_event list \<Rightarrow> session_map" where
  "fold_all events = foldl fold_event Map.empty events"

section \<open>Which rows an event may touch\<close>

fun event_touches :: "session_event \<Rightarrow> session_id \<Rightarrow> bool" where
  "event_touches (Attached _ _ _) i = False"
| "event_touches (Detached _ _ _) i = False"
| "event_touches (Snapshot _ sessions _ _) i = (i \<in> sess_id ` set sessions)"
| "event_touches e i = (event_session_id e = Some i)"

lemma snapshot_lookup:
  "foldl (\<lambda>next a. next(sess_id a \<mapsto> announced_row prev a)) m ss i =
     (case List.find (\<lambda>a. sess_id a = i) (rev ss) of None \<Rightarrow> m i | Some a \<Rightarrow> Some (announced_row prev a))"
proof (induction ss rule: rev_induct)
  case (snoc a ss)
  then show ?case by (auto split: option.split)
qed simp

lemma find_Some_mem: "List.find P xs = Some x \<Longrightarrow> x \<in> set xs \<and> P x"
  by (auto simp: find_Some_iff)

lemma announced_row_id [simp]: "sess_id (announced_row prev a) = sess_id a"
  by (simp add: announced_row_def split: option.split)

lemma announced_row_local:
  "prev (sess_id a) = prev' (sess_id a) \<Longrightarrow> announced_row prev a = announced_row prev' a"
  by (simp add: announced_row_def)

lemma fold_event_frame: "\<not> event_touches e i \<Longrightarrow> fold_event m e i = m i"
proof (cases e)
  case (Snapshot fp ss ts tr)
  assume "\<not> event_touches e i"
  with Snapshot have "List.find (\<lambda>a. sess_id a = i) (rev ss) = None"
    by (auto simp: find_None_iff)
  with Snapshot show ?thesis by (simp add: snapshot_lookup)
qed (auto simp: update_entry_apply)

lemma fold_event_local: "m i = m' i \<Longrightarrow> fold_event m e i = fold_event m' e i"
proof (cases e)
  case (Snapshot fp ss ts tr)
  assume "m i = m' i"
  with Snapshot show ?thesis
    by (auto simp: snapshot_lookup split: option.split dest!: find_Some_mem
        intro!: announced_row_local)
qed (auto simp: update_entry_apply)

interpretation session_log: event_log fold_event event_touches
  by unfold_locales (auto intro: fold_event_frame fold_event_local)


section \<open>What the fold guarantees\<close>

lemma update_entry_eq_None_iff [simp]: "update_entry k f m j = None \<longleftrightarrow> m j = None"
  by (simp add: update_entry_apply)

lemma fold_event_deletes: "m i \<noteq> None \<Longrightarrow> fold_event m e i = None \<longleftrightarrow> (\<exists>x ts tr. e = Closed i x ts tr)"
  by (cases e) (auto simp: snapshot_lookup split: option.split)

definition rows_filed :: "session_map \<Rightarrow> bool" where
  "rows_filed m \<longleftrightarrow> (\<forall>i s. m i = Some s \<longrightarrow> sess_id s = i)"

lemma fold_event_rows_filed: "rows_filed m \<Longrightarrow> rows_filed (fold_event m e)"
  unfolding rows_filed_def
  by (cases e) (auto simp: snapshot_lookup update_entry_apply opened_row_def Let_def
      split: option.splits if_splits dest: find_Some_mem)

definition rows_checked :: "session_map \<Rightarrow> bool" where
  "rows_checked m \<longleftrightarrow> (\<forall>i s. m i = Some s \<longrightarrow> session_check s = Ok ())"

fun event_checked :: "session_event \<Rightarrow> bool" where
  "event_checked (Snapshot fp ss ts tr) =
     (1 \<le> ts \<and> ts \<le> i64_max \<and> list_all (\<lambda>s. session_check s = Ok ()) ss)"
| "event_checked e = (1 \<le> event_ts e \<and> event_ts e \<le> i64_max)"

lemma session_check_iff:
  "session_check s = Ok () \<longleftrightarrow>
     1 \<le> sess_created_at s \<and> sess_created_at s \<le> i64_max \<and>
     (\<forall>c. sess_closed_at s = Some c \<longrightarrow> 1 \<le> c \<and> c \<le> i64_max)"
  by (auto simp: session_check_def integer_in_range_def res_simps split: option.splits if_splits)

lemma check_sessions_iff:
  "check_sessions indexed = Ok () \<longleftrightarrow> (\<forall>(n, s) \<in> set indexed. session_check s = Ok ())"
  by (induction indexed) (auto simp: check_sessions_def res_simps)

lemma integer_in_range_iff: "integer_in_range f v lo hi = Ok () \<longleftrightarrow> lo \<le> v \<and> v \<le> hi"
  by (simp add: integer_in_range_def)

lemma event_parse_iff:
  "event_parse decode v = Ok e \<longleftrightarrow> decode v = Some e \<and> event_checked e"
  by (cases "decode v"; cases e)
    (auto simp: event_parse_def res_simps integer_in_range_iff check_sessions_iff list_all_iff
      enumerate_all_snd split: session_event.splits)

lemma announced_row_checked:
  "rows_checked m \<Longrightarrow> session_check a = Ok () \<Longrightarrow> session_check (announced_row m a) = Ok ()"
  unfolding rows_checked_def announced_row_def
  by (auto simp: session_check_iff split: option.split)

lemma fold_event_rows_checked:
  assumes "rows_checked m" "event_checked e"
  shows "rows_checked (fold_event m e)"
proof (cases e)
  case (Snapshot fp ss ts tr)
  show ?thesis
    unfolding rows_checked_def
  proof (intro allI impI)
    fix i s
    assume s: "fold_event m e i = Some s"
    show "session_check s = Ok ()"
    proof (cases "List.find (\<lambda>a. sess_id a = i) (rev ss)")
      case None
      with s Snapshot assms(1) show ?thesis by (simp add: snapshot_lookup rows_checked_def)
    next
      case (Some a)
      with s Snapshot have "s = announced_row m a" by (simp add: snapshot_lookup)
      moreover have "session_check a = Ok ()"
        using find_Some_mem [OF Some] assms(2) Snapshot by (auto simp: list_all_iff)
      ultimately show ?thesis using announced_row_checked [OF assms(1)] by simp
    qed
  qed
qed (use assms in \<open>auto simp: rows_checked_def update_entry_apply session_check_iff opened_row_def Let_def
      split: option.splits if_splits\<close>)

definition reopens :: "session_id \<Rightarrow> session_event \<Rightarrow> bool" where
  "reopens i e \<longleftrightarrow> (\<exists>fp ch k cwd ts tr. e = Opened i fp ch k cwd ts tr)
     \<or> (\<exists>x ts tr. e = Closed i x ts tr)"

lemma fold_event_creation_facts:
  assumes "m i = Some s" "\<not> reopens i e"
  shows "\<exists>s'. fold_event m e i = Some s' \<and> sess_spawn_cwd s' = sess_spawn_cwd s
    \<and> sess_created_at s' = sess_created_at s"
proof (cases e)
  case (Snapshot fp ss ts tr)
  show ?thesis
  proof (cases "List.find (\<lambda>a. sess_id a = i) (rev ss)")
    case None
    with Snapshot assms show ?thesis by (simp add: snapshot_lookup)
  next
    case (Some a)
    then have "sess_id a = i" using find_Some_mem by fastforce
    with Some Snapshot assms(1) have "fold_event m e i = Some (announced_row m a)"
      by (simp add: snapshot_lookup)
    with \<open>sess_id a = i\<close> assms(1) show ?thesis by (simp add: announced_row_def)
  qed
next
  case (Git sid branch remote ts tr)
  with assms show ?thesis by (cases remote) (auto simp: update_entry_apply)
qed (use assms in \<open>auto simp: reopens_def update_entry_apply\<close>)

lemma announced_row_again:
  assumes "m' (sess_id a) = Some (announced_row m a)"
  shows "announced_row m' a = announced_row m a"
  using assms by (simp add: announced_row_def split: option.splits)

interpretation row_identity: invariant_machine rows_filed "\<lambda>_. True" "\<lambda>e m. fold_event m e"
  by unfold_locales (rule fold_event_rows_filed)

interpretation row_limits: invariant_machine rows_checked event_checked "\<lambda>e m. fold_event m e"
  by unfold_locales (rule fold_event_rows_checked)

lemma foldl_as_fold: "foldl f s xs = fold (\<lambda>x s. f s x) xs s"
  by (simp add: foldl_conv_fold)

text \<open>
  C30: The row a replayed log gives a session depends only on the events of the log that touch that
  session, in their order: dropping or interleaving other sessions' events never changes it.
\<close>

theorem replay_per_session:
  "fold_all events i = fold_all (filter (\<lambda>e. event_touches e i) events) i"
  by (simp add: session_log.replay_relevant [symmetric])

text \<open>
  Two events whose touched sessions are disjoint commute, from any projection: only the order
  of events about one session matters.
\<close>

theorem independent_events_commute:
  assumes "\<And>i. \<not> (event_touches e i \<and> event_touches e' i)"
  shows "fold_event (fold_event m e) e' = fold_event (fold_event m e') e"
  using assms by (rule session_log.step_commute)

definition sid_a :: session_id where "sid_a = SessionId ''00000000-0000-4000-8000-00000000000a''"
definition sid_b :: session_id where "sid_b = SessionId ''00000000-0000-4000-8000-00000000000b''"

lemma sid_neq [simp]: "sid_a \<noteq> sid_b" "sid_b \<noteq> sid_a"
  by (simp_all add: sid_a_def sid_b_def)

theorem independent_events_commute_witness:
  "fold_event (fold_event Map.empty (Cwd sid_a ''/x'' 1 None)) (Closed sid_b None 2 None) =
   fold_event (fold_event Map.empty (Closed sid_b None 2 None)) (Cwd sid_a ''/x'' 1 None)"
  by (rule independent_events_commute) auto

text \<open>
  Replaying any log from nothing files every row under its own session id, and when every event
  passed the decoder's checks every row of the projection meets the row limits too.
\<close>

theorem projection_well_formed:
  assumes "\<And>e. e \<in> set events \<Longrightarrow> event_parse decode (encode e) = Ok e"
  shows "rows_filed (fold_all events) \<and> rows_checked (fold_all events)"
proof -
  have "list_all event_checked events"
    using assms by (auto simp: list_all_iff event_parse_iff)
  moreover have "rows_filed Map.empty" "rows_checked Map.empty"
    by (simp_all add: rows_filed_def rows_checked_def)
  ultimately show ?thesis
    using row_identity.run_invar [of Map.empty events] row_limits.run_invar [of Map.empty events]
    by (simp add: foldl_as_fold list_all_iff)
qed

theorem projection_well_formed_witness:
  "rows_filed (fold_all [Opened sid_a (WorkerFp ''w'') (ChannelId 1) Shell ''/tmp'' 7 None])
   \<and> rows_checked (fold_all [Opened sid_a (WorkerFp ''w'') (ChannelId 1) Shell ''/tmp'' 7 None])"
  by (rule projection_well_formed [where decode = Some and encode = "\<lambda>e. e"])
    (simp add: event_parse_iff i64_max_def)

text \<open>
  Closing is the only way a row the projection holds can leave it, and a close removes exactly
  that row; no snapshot, rename or workspace change ever deletes one.
\<close>

theorem only_close_deletes:
  assumes "m i \<noteq> None"
  shows "fold_event m e i = None \<longleftrightarrow> (\<exists>exit_code ts trace. e = Closed i exit_code ts trace)"
  using assms by (rule fold_event_deletes)

theorem only_close_deletes_witness:
  "fold_event [sid_a \<mapsto> opened_row sid_a (WorkerFp ''w'') (ChannelId 1) Shell ''/tmp'' 7]
     (Snapshot (WorkerFp ''w'') [] 9 None) sid_a = None \<longleftrightarrow>
   (\<exists>exit_code ts trace. Snapshot (WorkerFp ''w'') [] 9 None = Closed sid_a exit_code ts trace)"
  by (rule only_close_deletes) simp

text \<open>
  A session's creation facts, its spawn folder and creation time, never move: whatever events
  follow, short of a close or a fresh open of the same session, the row survives with both
  unchanged, through snapshots, respawns and directory changes alike.
\<close>

theorem creation_facts_stable:
  assumes "m i = Some s" "\<forall>e \<in> set events. \<not> reopens i e"
  shows "\<exists>s'. foldl fold_event m events i = Some s' \<and> sess_spawn_cwd s' = sess_spawn_cwd s
    \<and> sess_created_at s' = sess_created_at s"
  using assms
proof (induction events arbitrary: m s)
  case (Cons e es)
  then obtain s1 where s1: "fold_event m e i = Some s1" "sess_spawn_cwd s1 = sess_spawn_cwd s"
    "sess_created_at s1 = sess_created_at s"
    using fold_event_creation_facts [of m i s e] by auto
  with Cons.IH [of "fold_event m e" s1] Cons.prems show ?case by auto
qed simp

theorem creation_facts_stable_witness:
  "\<exists>s'. foldl fold_event [sid_a \<mapsto> opened_row sid_a (WorkerFp ''w'') (ChannelId 1) Shell ''/tmp'' 7]
       [Cwd sid_a ''/x'' 8 None, Closed sid_b None 9 None] sid_a = Some s'
     \<and> sess_spawn_cwd s' = sess_spawn_cwd (opened_row sid_a (WorkerFp ''w'') (ChannelId 1) Shell ''/tmp'' 7)
     \<and> sess_created_at s' = sess_created_at (opened_row sid_a (WorkerFp ''w'') (ChannelId 1) Shell ''/tmp'' 7)"
  by (rule creation_facts_stable) (auto simp: reopens_def)

text \<open>
  Re-announcing the same sessions is harmless: folding one worker snapshot a second time, which
  is what a reconnect does, changes nothing.
\<close>

theorem snapshot_idempotent:
  "fold_event (fold_event m (Snapshot fp ss ts tr)) (Snapshot fp ss ts' tr') =
   fold_event m (Snapshot fp ss ts tr)"
proof
  fix i
  show "fold_event (fold_event m (Snapshot fp ss ts tr)) (Snapshot fp ss ts' tr') i =
    fold_event m (Snapshot fp ss ts tr) i"
  proof (cases "List.find (\<lambda>a. sess_id a = i) (rev ss)")
    case (Some a)
    then have "sess_id a = i" using find_Some_mem by fastforce
    with Some show ?thesis
      by (auto simp: snapshot_lookup intro!: announced_row_again)
  qed (simp add: snapshot_lookup)
qed

text \<open>
  A respawn that lands after its session's close is lost: the close deletes the row, so there is
  no row left for the respawn to force open again.
\<close>

theorem respawn_after_close_is_lost:
  "fold_event (fold_event m (Closed i x ts tr)) (Respawned i ch ts' tr') =
   fold_event m (Closed i x ts tr)"
  by (rule ext) (simp add: update_entry_apply)

end
