(* ===== verification/Viewport.thy ===== *)
theory Viewport
  imports Complex_Main Branded_Ids
begin

text \<open>
  Terminal geometry and the lease policy (\<open>viewport.rs\<close>): the core limits, the identifier shape of
  views, streams and snapshots, the clamp of a browser measurement, and the one per-axis minimum of
  the workspace. A browser measurement is an \<open>f64\<close>: either not finite or a rational.
\<close>

section \<open>Limits and intervals\<close>

definition TERMINAL_MAX_COLS :: nat where "TERMINAL_MAX_COLS = 256"
definition TERMINAL_MAX_ROWS :: nat where "TERMINAL_MAX_ROWS = 256"
definition TERMINAL_VIEW_LEASE_MS :: nat where "TERMINAL_VIEW_LEASE_MS = 15000"
definition TERMINAL_VIEW_HEARTBEAT_MS :: nat where "TERMINAL_VIEW_HEARTBEAT_MS = 5000"
definition TERMINAL_VIEW_SWEEP_MS :: nat where "TERMINAL_VIEW_SWEEP_MS = 1000"
definition TERMINAL_VIEW_PARK_GRACE_MS :: nat where "TERMINAL_VIEW_PARK_GRACE_MS = 2000"
definition TERMINAL_FOREGROUND_IDLE_PROBE_MS :: nat where "TERMINAL_FOREGROUND_IDLE_PROBE_MS = 5000"
definition TERMINAL_FOREGROUND_IDLE_PROBE_MAX_MS :: nat where "TERMINAL_FOREGROUND_IDLE_PROBE_MAX_MS = 30000"
definition TERMINAL_FOREGROUND_PROBE_DEADLINE_MS :: nat where "TERMINAL_FOREGROUND_PROBE_DEADLINE_MS = 3000"
definition TERMINAL_SOCKET_VIEW_CAP :: nat where "TERMINAL_SOCKET_VIEW_CAP = 64"

lemmas viewport_limits = TERMINAL_MAX_COLS_def TERMINAL_MAX_ROWS_def

record terminal_geometry =
  geo_cols :: nat
  geo_rows :: nat

section \<open>Identifiers\<close>

definition UUID_LEN :: nat where "UUID_LEN = 36"

definition is_uuid_version :: "char \<Rightarrow> bool" where
  "is_uuid_version c \<longleftrightarrow> 49 \<le> byte_of c \<and> byte_of c \<le> 56"

definition is_uuid_variant :: "char \<Rightarrow> bool" where
  "is_uuid_variant c \<longleftrightarrow> c \<in> {CHR ''8'', CHR ''9'', CHR ''a'', CHR ''A'', CHR ''b'', CHR ''B''}"

definition is_terminal_uuid :: "string \<Rightarrow> bool" where
  "is_terminal_uuid value \<longleftrightarrow>
     (if length value \<noteq> UUID_LEN then False
      else list_all (\<lambda>(position, byte).
             if position \<in> {8, 13, 18, 23} then byte = CHR ''-'' else is_ascii_hexdigit byte)
             (List.enumerate 0 value)
        \<and> is_uuid_version (value ! 14) \<and> is_uuid_variant (value ! 19))"

section \<open>Geometry\<close>

definition is_terminal_geometry :: "terminal_geometry \<Rightarrow> bool" where
  "is_terminal_geometry value \<longleftrightarrow>
     1 \<le> geo_cols value \<and> geo_cols value \<le> TERMINAL_MAX_COLS
     \<and> 1 \<le> geo_rows value \<and> geo_rows value \<le> TERMINAL_MAX_ROWS"

definition assert_terminal_geometry :: "terminal_geometry \<Rightarrow> terminal_geometry protocol_result" where
  "assert_terminal_geometry value =
     (if \<not> is_terminal_geometry value then Err (ProtocolError ''terminal_geometry'') else Ok value)"

datatype f64 = NonFinite | Finite rat

definition clamp_axis :: "f64 \<Rightarrow> nat \<Rightarrow> nat" where
  "clamp_axis measured limit =
     (case measured of
        NonFinite \<Rightarrow> 1
      | Finite x \<Rightarrow> nat (min (max \<lfloor>x\<rfloor> 1) (int limit)))"

definition clamp_terminal_geometry :: "f64 \<Rightarrow> f64 \<Rightarrow> terminal_geometry" where
  "clamp_terminal_geometry cols rows =
     \<lparr>geo_cols = clamp_axis cols TERMINAL_MAX_COLS, geo_rows = clamp_axis rows TERMINAL_MAX_ROWS\<rparr>"

fun minimum_loop ::
  "nat \<Rightarrow> nat \<Rightarrow> bool \<Rightarrow> terminal_geometry list \<Rightarrow> terminal_geometry option protocol_result" where
  "minimum_loop cols rows seen [] =
     Ok (if seen then Some \<lparr>geo_cols = cols, geo_rows = rows\<rparr> else None)"
| "minimum_loop cols rows seen (g # gs) =
     res_bind (assert_terminal_geometry g) (\<lambda>_.
       minimum_loop (min cols (geo_cols g)) (min rows (geo_rows g)) True gs)"

definition minimum_terminal_geometry ::
  "terminal_geometry list \<Rightarrow> terminal_geometry option protocol_result" where
  "minimum_terminal_geometry geometries =
     minimum_loop (TERMINAL_MAX_COLS + 1) (TERMINAL_MAX_ROWS + 1) False geometries"

section \<open>Lemmas\<close>

lemma is_terminal_uuid_shape: "is_terminal_uuid v \<Longrightarrow> uuid_shape v"
  by (auto simp: is_terminal_uuid_def uuid_shape_def UUID_LEN_def is_uuid_dash_position_def list_all_iff
      split: if_splits)

lemma assert_terminal_geometry_Inr_iff:
  "assert_terminal_geometry g = Inr h \<longleftrightarrow> is_terminal_geometry g \<and> h = g"
  by (auto simp: assert_terminal_geometry_def)

lemma clamp_axis_range: "1 \<le> limit \<Longrightarrow> 1 \<le> clamp_axis x limit \<and> clamp_axis x limit \<le> limit"
  by (cases x) (auto simp: clamp_axis_def)

lemma minimum_loop_Inr:
  assumes "list_all is_terminal_geometry gs"
  shows "minimum_loop c r seen gs = Inr (if seen \<or> gs \<noteq> []
    then Some \<lparr>geo_cols = fold min (map geo_cols gs) c, geo_rows = fold min (map geo_rows gs) r\<rparr>
    else None)"
  using assms
proof (induction gs arbitrary: c r seen)
  case (Cons g gs)
  then have "assert_terminal_geometry g = Inr g" by (simp add: assert_terminal_geometry_Inr_iff)
  with Cons show ?case by (simp add: min.commute)
qed simp

lemma minimum_loop_Inl:
  "\<not> list_all is_terminal_geometry gs \<Longrightarrow> \<exists>e. minimum_loop c r seen gs = Inl e"
proof (induction gs arbitrary: c r seen)
  case (Cons g gs)
  then show ?case
    by (cases "is_terminal_geometry g") (auto simp: assert_terminal_geometry_def)
qed simp

lemma fold_min_eq_Min:
  fixes xs :: "nat list"
  assumes "xs \<noteq> []" "\<forall>x \<in> set xs. x < c"
  shows "fold min xs c = Min (set xs)"
proof -
  have "fold min xs c = Min (insert c (set xs))"
    using Min.set_eq_fold [of c xs] by simp
  also have "\<dots> = min c (Min (set xs))" using assms(1) by simp
  also have "\<dots> = Min (set xs)"
    using assms Min_in [of "set xs"] by (intro min_absorb2) (auto intro: order_less_imp_le)
  finally show ?thesis .
qed

lemma minimum_terminal_geometry_eq:
  assumes "gs \<noteq> []" "list_all is_terminal_geometry gs"
  shows "minimum_terminal_geometry gs =
    Inr (Some \<lparr>geo_cols = Min (geo_cols ` set gs), geo_rows = Min (geo_rows ` set gs)\<rparr>)"
proof -
  have "\<forall>x \<in> set (map geo_cols gs). x < TERMINAL_MAX_COLS + 1"
    "\<forall>x \<in> set (map geo_rows gs). x < TERMINAL_MAX_ROWS + 1"
    using assms(2) by (auto simp: list_all_iff is_terminal_geometry_def)
  then show ?thesis
    using assms fold_min_eq_Min [of "map geo_cols gs" "TERMINAL_MAX_COLS + 1"]
      fold_min_eq_Min [of "map geo_rows gs" "TERMINAL_MAX_ROWS + 1"]
    by (simp add: minimum_terminal_geometry_def minimum_loop_Inr)
qed

text \<open>
  The aggregated geometry is the per-axis minimum of the constraining views and depends only on
  the set of geometries: it is refused exactly when some input is outside the core limits, absent
  exactly when there is no input, and otherwise legal, no larger than any view, and attained on
  each axis by one.
\<close>

theorem minimum_geometry_correct:
  "case minimum_terminal_geometry gs of
     Inl e \<Rightarrow> \<not> list_all is_terminal_geometry gs
   | Inr None \<Rightarrow> gs = []
   | Inr (Some m) \<Rightarrow> list_all is_terminal_geometry gs \<and> is_terminal_geometry m
       \<and> (\<forall>g \<in> set gs. geo_cols m \<le> geo_cols g \<and> geo_rows m \<le> geo_rows g)
       \<and> (\<exists>g \<in> set gs. geo_cols m = geo_cols g) \<and> (\<exists>g \<in> set gs. geo_rows m = geo_rows g)"
proof (cases "gs = [] \<or> \<not> list_all is_terminal_geometry gs")
  case True
  then show ?thesis
    using minimum_loop_Inl [of gs "TERMINAL_MAX_COLS + 1" "TERMINAL_MAX_ROWS + 1" False]
    by (auto simp: minimum_terminal_geometry_def)
next
  case False
  then have gs: "gs \<noteq> []" "list_all is_terminal_geometry gs" by simp_all
  have "Min (geo_cols ` set gs) \<in> geo_cols ` set gs" "Min (geo_rows ` set gs) \<in> geo_rows ` set gs"
    using gs(1) by (intro Min_in; simp)+
  then obtain g h where g: "g \<in> set gs" "Min (geo_cols ` set gs) = geo_cols g"
    and h: "h \<in> set gs" "Min (geo_rows ` set gs) = geo_rows h" by auto
  from g(1) h(1) gs(2) have "is_terminal_geometry g" "is_terminal_geometry h" by (auto simp: list_all_iff)
  then have "is_terminal_geometry \<lparr>geo_cols = geo_cols g, geo_rows = geo_rows h\<rparr>"
    by (simp add: is_terminal_geometry_def)
  moreover have "\<forall>x \<in> set gs. geo_cols g \<le> geo_cols x \<and> geo_rows h \<le> geo_rows x"
    using g(2) [symmetric] h(2) [symmetric] by simp
  ultimately show ?thesis
    using gs g h by (auto simp: minimum_terminal_geometry_eq)
qed

theorem minimum_geometry_correct_witness:
  "minimum_terminal_geometry [\<lparr>geo_cols = 100, geo_rows = 10\<rparr>, \<lparr>geo_cols = 80, geo_rows = 20\<rparr>] =
     Ok (Some \<lparr>geo_cols = 80, geo_rows = 10\<rparr>)
   \<and> (case minimum_terminal_geometry [\<lparr>geo_cols = 100, geo_rows = 10\<rparr>, \<lparr>geo_cols = 80, geo_rows = 20\<rparr>] of
        Inr (Some m) \<Rightarrow> is_terminal_geometry m | _ \<Rightarrow> False)"
  using minimum_geometry_correct [of "[\<lparr>geo_cols = 100, geo_rows = 10\<rparr>, \<lparr>geo_cols = 80, geo_rows = 20\<rparr>]"]
  by (simp add: minimum_terminal_geometry_def assert_terminal_geometry_def is_terminal_geometry_def
      viewport_limits)

text \<open>
  A clamped browser measurement is always a geometry every later trust boundary accepts,
  whatever the browser measured, and an in-range whole measurement is kept exactly.
\<close>

theorem clamp_is_admissible:
  "is_terminal_geometry (clamp_terminal_geometry c r)
   \<and> (is_terminal_geometry g \<longrightarrow>
      clamp_terminal_geometry (Finite (of_nat (geo_cols g))) (Finite (of_nat (geo_rows g))) = g)"
  using clamp_axis_range [of TERMINAL_MAX_COLS c] clamp_axis_range [of TERMINAL_MAX_ROWS r]
  by (auto simp: is_terminal_geometry_def clamp_terminal_geometry_def clamp_axis_def viewport_limits)

theorem clamp_is_admissible_witness:
  "clamp_terminal_geometry (Finite (of_nat 80)) (Finite (of_nat 24)) = \<lparr>geo_cols = 80, geo_rows = 24\<rparr>"
  using clamp_is_admissible [of NonFinite NonFinite "\<lparr>geo_cols = 80, geo_rows = 24\<rparr>"]
  by (simp add: is_terminal_geometry_def viewport_limits)

end
