(* ===== verification/View_Record.thy ===== *)
theory View_Record
  imports Viewport
begin

text \<open>
  One terminal view record and the pure projections over them (\<open>terminal_view/record.rs\<close>): what a
  client declared, the trust boundary of a view command, the single predicate that decides which
  records bind the PTY, and the per-session and per-device aggregations. Keys of one session are
  walked in the order of a \<open>BTreeSet\<close>, the byte order of strings.
\<close>

definition SESSION_VIEW_CAP :: nat where "SESSION_VIEW_CAP = 256"

record view_intent =
  intent_session_id :: string
  intent_cols :: nat
  intent_rows :: nat
  intent_active :: bool

text \<open>The wire command, as \<open>sync.proto\<close> declares it.\<close>

record terminal_view_command =
  cmd_view_id :: string
  cmd_session_id :: string
  cmd_cols :: nat
  cmd_rows :: nat
  cmd_revision :: nat
  cmd_active :: bool
  cmd_domain_generation :: nat

definition view_key :: "string \<Rightarrow> string \<Rightarrow> string" where
  "view_key viewer_key view_id = viewer_key @ [CHR 0x00] @ view_id"

definition intent_of :: "terminal_view_command \<Rightarrow> view_intent" where
  "intent_of command =
     \<lparr>intent_session_id = cmd_session_id command, intent_cols = cmd_cols command,
      intent_rows = cmd_rows command, intent_active = cmd_active command\<rparr>"

definition intents_equal :: "view_intent \<Rightarrow> view_intent \<Rightarrow> bool" where
  "intents_equal l r \<longleftrightarrow>
     intent_session_id l = intent_session_id r \<and> intent_cols l = intent_cols r
     \<and> intent_rows l = intent_rows r \<and> intent_active l = intent_active r"

definition validate_view_command :: "string option \<Rightarrow> terminal_view_command \<Rightarrow> string option" where
  "validate_view_command viewer_key command =
     (if viewer_key = None then Some ''terminal views require a tab-bound Sync socket''
      else if \<not> is_terminal_uuid (cmd_view_id command) then Some ''invalid terminal view id''
      else if \<not> is_terminal_uuid (cmd_session_id command) then Some ''invalid terminal session id''
      else if cmd_revision command < 1 then Some ''invalid terminal view revision''
      else if cmd_active command \<and>
          \<not> is_terminal_geometry \<lparr>geo_cols = cmd_cols command, geo_rows = cmd_rows command\<rparr>
        then Some ''terminal geometry is outside 1..256''
      else if \<not> cmd_active command \<and>
          (TERMINAL_MAX_COLS < cmd_cols command \<or> TERMINAL_MAX_ROWS < cmd_rows command)
        then Some ''inactive terminal geometry is outside 0..256''
      else None)"

record view_record =
  vr_key :: string
  vr_view_id :: string
  vr_viewer_key :: string
  vr_fingerprint :: string
  vr_socket_id :: string
  vr_intent :: view_intent
  vr_revision :: nat
  vr_deadline_ms :: nat
  vr_parked :: bool
  vr_parked_at_ms :: nat
  vr_constrains :: bool

definition lease_deadline :: "nat \<Rightarrow> nat" where
  "lease_deadline now_ms = saturating_add64 now_ms TERMINAL_VIEW_LEASE_MS"

definition view_constrains :: "view_record \<Rightarrow> nat \<Rightarrow> bool" where
  "view_constrains record now_ms \<longleftrightarrow>
     (if vr_deadline_ms record \<le> now_ms then False
      else \<not> vr_parked record
        \<or> now_ms < saturating_add64 (vr_parked_at_ms record) TERMINAL_VIEW_PARK_GRACE_MS)"

record geometry_set =
  gs_live :: "terminal_geometry list"
  gs_retained :: nat

record view_stats =
  stats_active :: nat
  stats_parked :: nat

record view_input =
  vi_fingerprint :: string
  vi_view_id :: string
  vi_cols :: nat
  vi_rows :: nat
  vi_parked :: bool
  vi_constrains :: bool

type_synonym view_map = "string \<rightharpoonup> view_record"

definition record_geometry :: "view_record \<Rightarrow> terminal_geometry" where
  "record_geometry record =
     \<lparr>geo_cols = intent_cols (vr_intent record), geo_rows = intent_rows (vr_intent record)\<rparr>"

definition view_input_of :: "view_record \<Rightarrow> view_input" where
  "view_input_of record =
     \<lparr>vi_fingerprint = vr_fingerprint record, vi_view_id = vr_view_id record,
      vi_cols = intent_cols (vr_intent record), vi_rows = intent_rows (vr_intent record),
      vi_parked = vr_parked record, vi_constrains = vr_constrains record\<rparr>"

definition records_in_order :: "view_map \<Rightarrow> string set option \<Rightarrow> view_record list" where
  "records_in_order views keys =
     (case keys of None \<Rightarrow> [] | Some ks \<Rightarrow> List.map_filter views (sorted_list_of_set ks))"

definition geometry_set :: "view_map \<Rightarrow> string set option \<Rightarrow> nat \<Rightarrow> geometry_set" where
  "geometry_set views keys now_ms =
     (let records = records_in_order views keys in
      \<lparr>gs_live = map record_geometry (filter (\<lambda>r. view_constrains r now_ms) records),
       gs_retained = length records\<rparr>)"

definition project_inputs :: "view_map \<Rightarrow> string set option \<Rightarrow> nat \<Rightarrow> view_input list" where
  "project_inputs views keys now_ms =
     map (\<lambda>r. (view_input_of r)\<lparr>vi_constrains := view_constrains r now_ms\<rparr>)
       (records_in_order views keys)"

definition active_fingerprints :: "view_map \<Rightarrow> string set option \<Rightarrow> string set" where
  "active_fingerprints views keys = vr_fingerprint ` set (records_in_order views keys)"

definition project_session_viewers :: "view_record list \<Rightarrow> (string \<rightharpoonup> terminal_geometry)" where
  "project_session_viewers records = (\<lambda>fingerprint.
     case minimum_terminal_geometry
            (map record_geometry (filter (\<lambda>r. vr_fingerprint r = fingerprint) records)) of
       Inr (Some geometry) \<Rightarrow> Some geometry
     | _ \<Rightarrow> None)"

definition project_viewers ::
  "(session_id \<rightharpoonup> string set) \<Rightarrow> view_map \<Rightarrow> (session_id \<rightharpoonup> (string \<rightharpoonup> terminal_geometry))" where
  "project_viewers session_views views = (\<lambda>sid.
     case session_views sid of
       None \<Rightarrow> None
     | Some keys \<Rightarrow>
         let records = records_in_order views (Some keys);
             viewers = project_session_viewers records
         in if list_all (\<lambda>r. viewers (vr_fingerprint r) = None) records then None else Some viewers)"

section \<open>Lemmas\<close>

lemma intents_equal_iff: "intents_equal l r \<longleftrightarrow> l = r"
  by (auto simp: intents_equal_def)

lemma intent_of_simps [simp]:
  "intent_session_id (intent_of c) = cmd_session_id c"
  "intent_cols (intent_of c) = cmd_cols c"
  "intent_rows (intent_of c) = cmd_rows c"
  "intent_active (intent_of c) = cmd_active c"
  by (simp_all add: intent_of_def)

lemma validate_view_command_None:
  "validate_view_command vk c = None \<longleftrightarrow>
     vk \<noteq> None \<and> is_terminal_uuid (cmd_view_id c) \<and> is_terminal_uuid (cmd_session_id c)
     \<and> 1 \<le> cmd_revision c
     \<and> (if cmd_active c
        then is_terminal_geometry \<lparr>geo_cols = cmd_cols c, geo_rows = cmd_rows c\<rparr>
        else cmd_cols c \<le> TERMINAL_MAX_COLS \<and> cmd_rows c \<le> TERMINAL_MAX_ROWS)"
  by (auto simp: validate_view_command_def)

lemma uuid_no_nul:
  assumes "is_terminal_uuid v"
  shows "CHR 0x00 \<notin> set v"
proof
  assume "CHR 0x00 \<in> set v"
  then obtain i where i: "i < length v" "v ! i = CHR 0x00" by (auto simp: in_set_conv_nth)
  then have "(i, CHR 0x00) \<in> set (List.enumerate 0 v)" by (simp add: in_set_enumerate_eq)
  with assms show False
    by (auto simp: is_terminal_uuid_def list_all_iff is_ascii_hexdigit_def is_ascii_digit_def
        is_lower_hex_alpha_def split: if_splits)
qed

lemma map_filter_set: "set (List.map_filter f xs) = {y. \<exists>x \<in> set xs. f x = Some y}"
  by (induction xs) (auto simp: List.map_filter_simps split: option.splits)

lemma records_in_order_set:
  "finite ks \<Longrightarrow> set (records_in_order views (Some ks)) = {r. \<exists>k \<in> ks. views k = Some r}"
  by (simp add: records_in_order_def map_filter_set)

lemma records_in_order_None [simp]: "records_in_order views None = []"
  by (simp add: records_in_order_def)

lemma view_constrains_antimono:
  "view_constrains r t \<Longrightarrow> t' \<le> t \<Longrightarrow> view_constrains r t'"
  by (auto simp: view_constrains_def split: if_splits)

lemma view_key_inject:
  assumes "is_terminal_uuid v" "is_terminal_uuid v'" "view_key k v = view_key k' v'"
  shows "k = k' \<and> v = v'"
proof -
  from assms(1,2) have "length v = length v'" by (simp add: is_terminal_uuid_def split: if_splits)
  with assms(3) show ?thesis by (auto simp: view_key_def)
qed

text \<open>
  A composite view key identifies its tab and its view: two keys built from tab keys and valid
  view ids are equal only when both parts are, so one tab can never reach another tab's record.
\<close>

theorem view_key_injective:
  assumes "is_terminal_uuid v" "is_terminal_uuid v'" "view_key k v = view_key k' v'"
  shows "k = k' \<and> v = v'"
  using assms by (rule view_key_inject)

theorem view_key_injective_witness:
  "''a:1'' = ''a:1'' \<and> ''00000000-0000-4000-8000-000000000001'' = ''00000000-0000-4000-8000-000000000001''"
proof (rule view_key_injective)
  show "is_terminal_uuid ''00000000-0000-4000-8000-000000000001''"
    "is_terminal_uuid ''00000000-0000-4000-8000-000000000001''"
    by (simp_all add: is_terminal_uuid_def UUID_LEN_def is_uuid_version_def is_uuid_variant_def
        is_ascii_hexdigit_def is_ascii_digit_def is_lower_hex_alpha_def enumerate_eq_zip upt_rec)
qed simp

text \<open>
  Once a record stops binding the PTY it never binds it again without a new declaration, and a
  parked record stops binding at the latest one park grace after its socket dropped, however long
  its lease still runs.
\<close>

theorem constrains_only_lapses:
  "(\<not> view_constrains r t \<and> t \<le> t' \<longrightarrow> \<not> view_constrains r t')
   \<and> (vr_parked r \<and> vr_parked_at_ms r + TERMINAL_VIEW_PARK_GRACE_MS \<le> t \<longrightarrow> \<not> view_constrains r t)
   \<and> (\<not> vr_parked r \<longrightarrow> (view_constrains r t \<longleftrightarrow> t < vr_deadline_ms r))"
  using saturating_add64_le [of "vr_parked_at_ms r" TERMINAL_VIEW_PARK_GRACE_MS]
  by (auto simp: view_constrains_def)

theorem constrains_only_lapses_witness:
  "\<not> view_constrains \<lparr>vr_key = ''k'', vr_view_id = ''v'', vr_viewer_key = ''f:t'', vr_fingerprint = ''f'',
      vr_socket_id = ''s'', vr_intent = \<lparr>intent_session_id = ''i'', intent_cols = 80, intent_rows = 24,
      intent_active = True\<rparr>, vr_revision = 1, vr_deadline_ms = 20000, vr_parked = True,
      vr_parked_at_ms = 5000, vr_constrains = True\<rparr> 7000"
  using constrains_only_lapses [of "\<lparr>vr_key = ''k'', vr_view_id = ''v'', vr_viewer_key = ''f:t'',
      vr_fingerprint = ''f'', vr_socket_id = ''s'', vr_intent = \<lparr>intent_session_id = ''i'',
      intent_cols = 80, intent_rows = 24, intent_active = True\<rparr>, vr_revision = 1,
      vr_deadline_ms = 20000, vr_parked = True, vr_parked_at_ms = 5000, vr_constrains = True\<rparr>" 7000 7000]
  by (simp add: TERMINAL_VIEW_PARK_GRACE_MS_def)

end
