(* ===== verification/View_Claims.thy ===== *)
theory View_Claims
  imports View_Record
begin

text \<open>
  Retained claims (\<open>terminal_view/tombstone.rs\<close>): what a released view leaves behind so that its
  own tab can reclaim the handle. The store is a lookup map plus the recency order the eviction
  walks; the order list holds one entry per retention, superseded ones included.
\<close>

definition VIEWER_TOMBSTONE_CAP :: nat where "VIEWER_TOMBSTONE_CAP = 128"
definition PROCESS_TOMBSTONE_CAP :: nat where "PROCESS_TOMBSTONE_CAP = 131072"

record tombstone =
  tb_key :: string
  tb_viewer_key :: string
  tb_revision :: nat
  tb_intent :: view_intent
  tb_expires_ms :: nat
  tb_sequence :: nat

record tombstone_store =
  ts_entries :: "string \<rightharpoonup> tombstone"
  ts_order :: "(string \<times> nat) list"
  ts_next_sequence :: nat

definition tombstone_store_new :: tombstone_store where
  "tombstone_store_new = \<lparr>ts_entries = Map.empty, ts_order = [], ts_next_sequence = 0\<rparr>"

definition ts_get :: "tombstone_store \<Rightarrow> string \<Rightarrow> tombstone option" where
  "ts_get st key = ts_entries st key"

definition ts_len :: "tombstone_store \<Rightarrow> nat" where
  "ts_len st = card (dom (ts_entries st))"

definition ts_remove :: "string \<Rightarrow> tombstone_store \<Rightarrow> tombstone_store" where
  "ts_remove key st = st\<lparr>ts_entries := (ts_entries st)(key := None)\<rparr>"

definition drop_entries :: "(tombstone \<Rightarrow> bool) \<Rightarrow> tombstone_store \<Rightarrow> tombstone_store" where
  "drop_entries doomed st =
     st\<lparr>ts_entries := (\<lambda>k. case ts_entries st k of
          None \<Rightarrow> None | Some t \<Rightarrow> if doomed t then None else Some t)\<rparr>"

definition owned_by :: "string \<Rightarrow> string \<Rightarrow> bool" where
  "owned_by fingerprint viewer_key \<longleftrightarrow>
     viewer_key = fingerprint \<or> take (length (fingerprint @ '':'')) viewer_key = fingerprint @ '':''"

definition ts_remove_viewer :: "string \<Rightarrow> tombstone_store \<Rightarrow> tombstone_store" where
  "ts_remove_viewer fingerprint = drop_entries (\<lambda>t. owned_by fingerprint (tb_viewer_key t))"

definition ts_remove_session :: "string \<Rightarrow> tombstone_store \<Rightarrow> tombstone_store" where
  "ts_remove_session sid = drop_entries (\<lambda>t. intent_session_id (tb_intent t) = sid)"

definition ts_expire :: "nat \<Rightarrow> tombstone_store \<Rightarrow> tombstone_store" where
  "ts_expire now_ms = drop_entries (\<lambda>t. tb_expires_ms t \<le> now_ms)"

fun evict_oldest_walk ::
  "(tombstone \<Rightarrow> bool) \<Rightarrow> (string \<rightharpoonup> tombstone) \<Rightarrow> (string \<times> nat) list
     \<Rightarrow> bool \<times> (string \<rightharpoonup> tombstone) \<times> (string \<times> nat) list" where
  "evict_oldest_walk wanted entries [] = (False, entries, [])"
| "evict_oldest_walk wanted entries ((key, sequence) # rest) =
     (case entries key of
        None \<Rightarrow> evict_oldest_walk wanted entries rest
      | Some t \<Rightarrow>
          if tb_sequence t \<noteq> sequence then evict_oldest_walk wanted entries rest
          else if \<not> wanted t then (False, entries, (key, sequence) # rest)
          else (True, entries(key := None), rest))"

definition evict_oldest :: "(tombstone \<Rightarrow> bool) \<Rightarrow> tombstone_store \<Rightarrow> bool \<times> tombstone_store" where
  "evict_oldest wanted st =
     (case evict_oldest_walk wanted (ts_entries st) (ts_order st) of
        (evicted, entries, order) \<Rightarrow> (evicted, st\<lparr>ts_entries := entries, ts_order := order\<rparr>))"

lemma evict_oldest_walk_shorter:
  "evict_oldest_walk w m os = (True, m', os') \<Longrightarrow> length os' < length os"
  by (induction w m os rule: evict_oldest_walk.induct) (auto split: option.splits if_splits)

lemma evict_oldest_shorter:
  "evict_oldest w st = (True, st') \<Longrightarrow> length (ts_order st') < length (ts_order st)"
  by (auto simp: evict_oldest_def dest: evict_oldest_walk_shorter split: prod.splits)

function evict_process :: "tombstone_store \<Rightarrow> tombstone_store" where
  "evict_process st =
     (if PROCESS_TOMBSTONE_CAP < ts_len st then
        (case evict_oldest (\<lambda>_. True) st of
           (evicted, st') \<Rightarrow> if \<not> evicted then st' else evict_process st')
      else st)"
  by pat_completeness auto
termination
  by (relation "measure (\<lambda>st. length (ts_order st))") (auto dest: evict_oldest_shorter [OF sym])

declare evict_process.simps [simp del]

function evict_own :: "string \<Rightarrow> nat \<Rightarrow> tombstone_store \<Rightarrow> tombstone_store" where
  "evict_own viewer_key own st =
     (if VIEWER_TOMBSTONE_CAP < own then
        (case evict_oldest (\<lambda>t. tb_viewer_key t = viewer_key) st of
           (evicted, st') \<Rightarrow> if \<not> evicted then st' else evict_own viewer_key (own - 1) st')
      else st)"
  by pat_completeness auto
termination
  by (relation "measure (\<lambda>(vk, own, st). length (ts_order st))")
    (auto dest: evict_oldest_shorter [OF sym])

declare evict_own.simps [simp del]

definition own_count :: "string \<Rightarrow> tombstone_store \<Rightarrow> nat" where
  "own_count viewer_key st =
     card {k \<in> dom (ts_entries st). map_option tb_viewer_key (ts_entries st k) = Some viewer_key}"

definition evict :: "string \<Rightarrow> tombstone_store \<Rightarrow> tombstone_store" where
  "evict viewer_key st =
     (let st' = evict_process st in evict_own viewer_key (own_count viewer_key st') st')"

definition ts_retain ::
  "nat \<Rightarrow> string \<Rightarrow> string \<Rightarrow> nat \<Rightarrow> view_intent \<Rightarrow> tombstone_store \<Rightarrow> tombstone_store" where
  "ts_retain now_ms key viewer_key revision intent st =
     (let sequence = ts_next_sequence st + 1;
          claim = \<lparr>tb_key = key, tb_viewer_key = viewer_key, tb_revision = revision,
                   tb_intent = intent,
                   tb_expires_ms = saturating_add64 now_ms TERMINAL_VIEW_LEASE_MS,
                   tb_sequence = sequence\<rparr>
      in evict viewer_key
           \<lparr>ts_entries = (ts_entries st)(key \<mapsto> claim), ts_order = ts_order st @ [(key, sequence)],
            ts_next_sequence = sequence\<rparr>)"

section \<open>Eviction only removes claims\<close>

definition submap :: "('k \<rightharpoonup> 'v) \<Rightarrow> ('k \<rightharpoonup> 'v) \<Rightarrow> bool" where
  "submap m m' \<longleftrightarrow> (\<forall>k. m k = None \<or> m k = m' k)"

lemma submap_refl [simp, intro]: "submap m m"
  by (simp add: submap_def)

lemma submap_trans: "submap a b \<Longrightarrow> submap b c \<Longrightarrow> submap a c"
  unfolding submap_def by metis

lemma submap_SomeD: "submap m m' \<Longrightarrow> m k = Some v \<Longrightarrow> m' k = Some v"
  unfolding submap_def by (metis option.distinct(1))

lemma submap_dom: "submap m m' \<Longrightarrow> dom m \<subseteq> dom m'"
  using submap_SomeD [of m m'] by blast

lemma evict_oldest_walk_submap: "evict_oldest_walk w m os = (b, m', os') \<Longrightarrow> submap m' m"
  by (induction w m os rule: evict_oldest_walk.induct)
    (auto simp: submap_def split: option.splits if_splits)

lemma evict_oldest_submap:
  "evict_oldest w st = (b, st') \<Longrightarrow> submap (ts_entries st') (ts_entries st)"
  by (auto simp: evict_oldest_def dest: evict_oldest_walk_submap split: prod.splits)

lemma evict_process_submap: "submap (ts_entries (evict_process st)) (ts_entries st)"
proof (induction st rule: evict_process.induct)
  case (1 st)
  obtain b st' where e: "evict_oldest (\<lambda>_. True) st = (b, st')" by (cases "evict_oldest (\<lambda>_. True) st")
  show ?case
  proof (cases "PROCESS_TOMBSTONE_CAP < ts_len st \<and> b")
    case True
    with e "1.IH" have "submap (ts_entries (evict_process st')) (ts_entries st')"
      by simp
    with e True show ?thesis
      by (auto simp: evict_process.simps [of st] intro: submap_trans evict_oldest_submap)
  next
    case False
    with e show ?thesis
      by (auto simp: evict_process.simps [of st] dest: evict_oldest_submap)
  qed
qed

lemma evict_own_submap: "submap (ts_entries (evict_own vk n st)) (ts_entries st)"
proof (induction vk n st rule: evict_own.induct)
  case (1 vk n st)
  obtain b st' where e: "evict_oldest (\<lambda>t. tb_viewer_key t = vk) st = (b, st')"
    by (cases "evict_oldest (\<lambda>t. tb_viewer_key t = vk) st")
  show ?case
  proof (cases "VIEWER_TOMBSTONE_CAP < n \<and> b")
    case True
    with e "1.IH" have "submap (ts_entries (evict_own vk (n - 1) st')) (ts_entries st')"
      by simp
    with e True show ?thesis
      by (auto simp: evict_own.simps [of vk n st] intro: submap_trans evict_oldest_submap)
  next
    case False
    with e show ?thesis
      by (auto simp: evict_own.simps [of vk n st] dest: evict_oldest_submap)
  qed
qed

lemma evict_submap: "submap (ts_entries (evict vk st)) (ts_entries st)"
  by (auto simp: evict_def Let_def intro: submap_trans evict_own_submap evict_process_submap)

lemma drop_entries_submap: "submap (ts_entries (drop_entries P st)) (ts_entries st)"
  by (auto simp: submap_def drop_entries_def split: option.splits)

section \<open>The claim-store interface\<close>

text \<open>
  What the view machine relies on: a removed claim is gone, other claims are untouched by a
  removal, and after a retention every claim found is either the one just retained under its own
  key or one that was there before. Eviction may drop claims, never invent or alter one.
\<close>

locale claim_store =
  fixes get :: "'s \<Rightarrow> string \<Rightarrow> tombstone option"
    and remove :: "string \<Rightarrow> 's \<Rightarrow> 's"
    and retain :: "nat \<Rightarrow> string \<Rightarrow> string \<Rightarrow> nat \<Rightarrow> view_intent \<Rightarrow> 's \<Rightarrow> 's"
    and forget :: "(tombstone \<Rightarrow> bool) \<Rightarrow> 's \<Rightarrow> 's"
  assumes get_remove: "get (remove k s) j = (if j = k then None else get s j)"
    and get_retain_same: "get (retain now k vk revn i s) k = Some t \<Longrightarrow>
      tb_key t = k \<and> tb_viewer_key t = vk \<and> tb_revision t = revn \<and> tb_intent t = i
      \<and> tb_expires_ms t = saturating_add64 now TERMINAL_VIEW_LEASE_MS"
    and get_retain_other: "j \<noteq> k \<Longrightarrow> get (retain now k vk revn i s) j = Some t \<Longrightarrow> get s j = Some t"
    and get_forget: "get (forget P s) j = Some t \<longleftrightarrow> get s j = Some t \<and> \<not> P t"
begin

lemma retain_keeps_property:
  assumes "\<forall>j t. get s j = Some t \<longrightarrow> Q j t"
    and "\<And>t. tb_key t = k \<Longrightarrow> tb_viewer_key t = vk \<Longrightarrow> tb_revision t = revn \<Longrightarrow> tb_intent t = i \<Longrightarrow> Q k t"
  shows "\<forall>j t. get (retain now k vk revn i s) j = Some t \<longrightarrow> Q j t"
proof (intro allI impI)
  fix j t
  assume g: "get (retain now k vk revn i s) j = Some t"
  show "Q j t"
  proof (cases "j = k")
    case True
    with g get_retain_same assms(2) show ?thesis by blast
  next
    case False
    with g get_retain_other assms(1) show ?thesis by blast
  qed
qed

lemma remove_keeps_property:
  "\<forall>j t. get s j = Some t \<longrightarrow> Q j t \<Longrightarrow> \<forall>j t. get (remove k s) j = Some t \<longrightarrow> Q j t"
  by (simp add: get_remove)

lemma forget_keeps_property:
  "\<forall>j t. get s j = Some t \<longrightarrow> Q j t \<Longrightarrow> \<forall>j t. get (forget P s) j = Some t \<longrightarrow> Q j t"
  by (simp add: get_forget)

lemma forget_forgets: "get (forget P s) j = Some t \<Longrightarrow> \<not> P t"
  by (simp add: get_forget)

end

lemma ts_get_retain_same:
  "ts_get (ts_retain now k vk revn i st) k = Some t \<Longrightarrow>
     t = \<lparr>tb_key = k, tb_viewer_key = vk, tb_revision = revn, tb_intent = i,
          tb_expires_ms = saturating_add64 now TERMINAL_VIEW_LEASE_MS,
          tb_sequence = ts_next_sequence st + 1\<rparr>"
  by (auto simp: ts_get_def ts_retain_def Let_def dest: submap_SomeD [OF evict_submap])

lemma ts_get_retain_other:
  "j \<noteq> k \<Longrightarrow> ts_get (ts_retain now k vk revn i st) j = Some t \<Longrightarrow> ts_get st j = Some t"
  by (auto simp: ts_get_def ts_retain_def Let_def dest: submap_SomeD [OF evict_submap])

lemma ts_get_forget:
  "ts_get (drop_entries P st) j = Some t \<longleftrightarrow> ts_get st j = Some t \<and> \<not> P t"
  by (auto simp: ts_get_def drop_entries_def split: option.splits)

interpretation claims: claim_store ts_get ts_remove ts_retain drop_entries
  by unfold_locales
    (auto simp: ts_get_forget dest: ts_get_retain_same ts_get_retain_other,
     auto simp: ts_get_def ts_remove_def)

section \<open>The store invariant\<close>

text \<open>
  Every live claim is filed under its own key and has its own entry in the order list, and the
  order list is sorted by sequence: its live entries are the claims from oldest to newest.
\<close>

definition live :: "(string \<rightharpoonup> tombstone) \<Rightarrow> string \<times> nat \<Rightarrow> bool" where
  "live m e = (case m (fst e) of None \<Rightarrow> False | Some t \<Rightarrow> tb_sequence t = snd e)"

definition ts_ok :: "tombstone_store \<Rightarrow> bool" where
  "ts_ok st \<longleftrightarrow> finite (dom (ts_entries st))
     \<and> (\<forall>k t. ts_entries st k = Some t \<longrightarrow> tb_key t = k \<and> (k, tb_sequence t) \<in> set (ts_order st))
     \<and> sorted_wrt (<) (map snd (ts_order st))
     \<and> (\<forall>e \<in> set (ts_order st). snd e \<le> ts_next_sequence st)"

lemma evict_oldest_walk_True:
  "evict_oldest_walk w m os = (True, m', os') \<Longrightarrow>
     \<exists>pre k t. os = pre @ (k, tb_sequence t) # os' \<and> m k = Some t \<and> w t \<and> m' = m(k := None)
       \<and> (\<forall>e \<in> set pre. \<not> live m e)"
proof (induction w m os rule: evict_oldest_walk.induct)
  case (2 w m key sq rest)
  show ?case
  proof (cases "live m (key, sq)")
    case True
    with "2.prems" show ?thesis
      by (intro exI [of _ "[]"] exI [of _ key] exI [of _ "the (m key)"])
        (auto simp: live_def split: option.splits if_splits)
  next
    case False
    with 2 have "\<exists>pre k t. rest = pre @ (k, tb_sequence t) # os' \<and> m k = Some t \<and> w t
        \<and> m' = m(k := None) \<and> (\<forall>e \<in> set pre. \<not> live m e)"
      by (auto simp: live_def split: option.splits)
    then obtain pre k t where "rest = pre @ (k, tb_sequence t) # os'" "m k = Some t" "w t"
      "m' = m(k := None)" "\<forall>e \<in> set pre. \<not> live m e" by blast
    with False show ?thesis by (intro exI [of _ "(key, sq) # pre"] exI [of _ k] exI [of _ t]) auto
  qed
qed simp

lemma evict_oldest_walk_False:
  "evict_oldest_walk w m os = (False, m', os') \<Longrightarrow>
     m' = m \<and> (\<exists>pre. os = pre @ os' \<and> (\<forall>e \<in> set pre. \<not> live m e))
     \<and> (os' \<noteq> [] \<longrightarrow> (\<exists>t. m (fst (hd os')) = Some t \<and> \<not> w t))"
proof (induction w m os rule: evict_oldest_walk.induct)
  case (2 w m key sq rest)
  show ?case
  proof (cases "live m (key, sq)")
    case True
    with "2.prems" show ?thesis by (auto simp: live_def split: option.splits if_splits)
  next
    case False
    with 2 have "m' = m \<and> (\<exists>pre. rest = pre @ os' \<and> (\<forall>e \<in> set pre. \<not> live m e))
        \<and> (os' \<noteq> [] \<longrightarrow> (\<exists>t. m (fst (hd os')) = Some t \<and> \<not> w t))"
      by (auto simp: live_def split: option.splits)
    with False show ?thesis by (metis append_Cons set_ConsD)
  qed
qed simp

lemma evict_oldest_ok:
  assumes ok: "ts_ok st" and e: "evict_oldest w st = (b, st')"
  shows "ts_ok st'"
proof -
  obtain m' os' where walk: "evict_oldest_walk w (ts_entries st) (ts_order st) = (b, m', os')"
    and st': "st' = st\<lparr>ts_entries := m', ts_order := os'\<rparr>"
    using e by (auto simp: evict_oldest_def split: prod.splits)
  have "\<exists>pre. (\<forall>e \<in> set pre. \<not> live (ts_entries st) e) \<and>
      (ts_order st = pre @ os' \<and> m' = ts_entries st
       \<or> (\<exists>k n. ts_order st = pre @ (k, n) # os' \<and> m' = (ts_entries st)(k := None)))"
  proof (cases b)
    case True
    with walk have "evict_oldest_walk w (ts_entries st) (ts_order st) = (True, m', os')" by simp
    from evict_oldest_walk_True [OF this] show ?thesis by blast
  next
    case False
    with walk have "evict_oldest_walk w (ts_entries st) (ts_order st) = (False, m', os')" by simp
    from evict_oldest_walk_False [OF this] show ?thesis by blast
  qed
  then obtain pre where dead: "\<forall>e \<in> set pre. \<not> live (ts_entries st) e"
    and pre: "ts_order st = pre @ os' \<and> m' = ts_entries st
      \<or> (\<exists>k n. ts_order st = pre @ (k, n) # os' \<and> m' = (ts_entries st)(k := None))"
    by blast
  have alive: "(k, tb_sequence t) \<notin> set pre" if "ts_entries st k = Some t" for k t
    using that dead by (auto simp: live_def)
  from pre show ?thesis
  proof (elim disjE exE conjE)
    assume "ts_order st = pre @ os'" "m' = ts_entries st"
    with ok alive show ?thesis by (auto simp: st' ts_ok_def sorted_wrt_append)
  next
    fix k n
    assume "ts_order st = pre @ (k, n) # os'" "m' = (ts_entries st)(k := None)"
    with ok alive show ?thesis by (auto simp: st' ts_ok_def sorted_wrt_append)
  qed
qed

lemma evict_oldest_removes:
  assumes "ts_ok st" "evict_oldest w st = (True, st')"
  obtains k t where "ts_entries st k = Some t" "w t" "ts_entries st' = (ts_entries st)(k := None)"
    "ts_next_sequence st' = ts_next_sequence st"
    "\<And>j u. ts_entries st j = Some u \<Longrightarrow> tb_sequence t \<le> tb_sequence u"
proof -
  obtain m' os' where walk: "evict_oldest_walk w (ts_entries st) (ts_order st) = (True, m', os')"
    and st': "st' = st\<lparr>ts_entries := m', ts_order := os'\<rparr>"
    using assms(2) by (auto simp: evict_oldest_def split: prod.splits)
  from evict_oldest_walk_True [OF walk] obtain pre k t
    where os: "ts_order st = pre @ (k, tb_sequence t) # os'" and k: "ts_entries st k = Some t" "w t"
      "m' = (ts_entries st)(k := None)" and dead: "\<forall>e \<in> set pre. \<not> live (ts_entries st) e" by blast
  have "tb_sequence t \<le> tb_sequence u" if u: "ts_entries st j = Some u" for j u
  proof -
    have "(j, tb_sequence u) \<in> set (ts_order st)" using assms(1) u by (simp add: ts_ok_def)
    moreover have "(j, tb_sequence u) \<notin> set pre" using dead u by (auto simp: live_def)
    ultimately have "(j, tb_sequence u) \<in> set ((k, tb_sequence t) # os')" by (simp add: os)
    moreover have "sorted_wrt (<) (map snd (ts_order st))" using assms(1) by (simp add: ts_ok_def)
    ultimately show ?thesis by (auto simp: os sorted_wrt_append image_iff)
  qed
  with k st' show ?thesis by (intro that [of k t]) auto
qed

lemma ts_ok_in_order: "ts_ok st \<Longrightarrow> ts_entries st k = Some t \<Longrightarrow> (k, tb_sequence t) \<in> set (ts_order st)"
  by (simp add: ts_ok_def)

lemma evict_oldest_stuck:
  assumes "ts_ok st" "evict_oldest (\<lambda>_. True) st = (False, st')"
  shows "ts_entries st = Map.empty"
proof -
  obtain m' os' where walk: "evict_oldest_walk (\<lambda>_. True) (ts_entries st) (ts_order st) = (False, m', os')"
    using assms(2) by (auto simp: evict_oldest_def split: prod.splits)
  from evict_oldest_walk_False [OF walk] have dead: "\<forall>e \<in> set (ts_order st). \<not> live (ts_entries st) e"
    by auto
  show ?thesis
  proof
    fix k
    show "ts_entries st k = None"
      using ts_ok_in_order [OF assms(1)] dead by (cases "ts_entries st k") (force simp: live_def)+
  qed
qed

definition newest :: "tombstone_store \<Rightarrow> string \<Rightarrow> tombstone \<Rightarrow> bool" where
  "newest st k t \<longleftrightarrow> ts_entries st k = Some t
     \<and> (\<forall>j u. ts_entries st j = Some u \<longrightarrow> tb_sequence u \<le> tb_sequence t)"

lemma sequence_unique:
  assumes "ts_ok st" "ts_entries st k = Some t" "ts_entries st j = Some u" "tb_sequence t = tb_sequence u"
  shows "k = j"
proof -
  have "(k, tb_sequence t) \<in> set (ts_order st)" "(j, tb_sequence t) \<in> set (ts_order st)"
    using ts_ok_in_order [OF assms(1)] assms(2-4) by metis+
  moreover have "distinct (map snd (ts_order st))"
    using assms(1) by (simp add: ts_ok_def strict_sorted_iff)
  ultimately show ?thesis by (metis Pair_inject eq_key_imp_eq_value distinct_map inj_on_def snd_conv)
qed

lemma evict_oldest_newest:
  assumes ok: "ts_ok st" and e: "evict_oldest w st = (True, st')" and n: "newest st k t"
    and two: "j \<noteq> k" "ts_entries st j = Some u"
  shows "newest st' k t"
proof -
  from evict_oldest_removes [OF ok e] obtain k' t' where r: "ts_entries st k' = Some t'"
    "ts_entries st' = (ts_entries st)(k' := None)"
    and oldest: "\<And>j u. ts_entries st j = Some u \<Longrightarrow> tb_sequence t' \<le> tb_sequence u" by metis
  have "k' \<noteq> k"
  proof
    assume "k' = k"
    with r n have "t' = t" by (simp add: newest_def)
    with oldest [OF two(2)] n two have "tb_sequence t = tb_sequence u"
      by (force simp: newest_def)
    with sequence_unique [OF ok _ two(2)] n two(1) show False by (auto simp: newest_def)
  qed
  with n r show ?thesis by (auto simp: newest_def)
qed

lemma other_key_if_card: "Suc 0 < card S \<Longrightarrow> \<exists>j \<in> S. j \<noteq> k"
  by (metis card_le_Suc0_iff_eq card.infinite not_less zero_le)

lemma evict_process_ok:
  assumes "ts_ok st"
  shows "ts_ok (evict_process st) \<and> ts_len (evict_process st) \<le> PROCESS_TOMBSTONE_CAP
    \<and> (newest st k t \<longrightarrow> newest (evict_process st) k t)"
  using assms
proof (induction st rule: evict_process.induct)
  case (1 st)
  obtain b st' where e: "evict_oldest (\<lambda>_. True) st = (b, st')" by (cases "evict_oldest (\<lambda>_. True) st")
  show ?case
  proof (cases "PROCESS_TOMBSTONE_CAP < ts_len st")
    case True
    then have "ts_entries st \<noteq> Map.empty" by (auto simp: ts_len_def)
    with e "1.prems" evict_oldest_stuck have b: b by (cases b) auto
    have "\<exists>j \<in> dom (ts_entries st). j \<noteq> k"
      using True by (intro other_key_if_card) (simp add: ts_len_def PROCESS_TOMBSTONE_CAP_def)
    then have "newest st k t \<longrightarrow> newest st' k t"
      using evict_oldest_newest [OF "1.prems", of "\<lambda>_. True" st' k t] e b by auto
    with True e b "1.IH" evict_oldest_ok [OF "1.prems" e] show ?thesis
      by (simp add: evict_process.simps [of st])
  next
    case False
    with "1.prems" show ?thesis by (simp add: evict_process.simps [of st])
  qed
qed

lemma own_count_drop:
  assumes "finite (dom (ts_entries st))" "ts_entries st k = Some t" "tb_viewer_key t = vk"
    "ts_entries st' = (ts_entries st)(k := None)"
  shows "own_count vk st' = own_count vk st - 1"
proof -
  let ?S = "{k \<in> dom (ts_entries st). map_option tb_viewer_key (ts_entries st k) = Some vk}"
  have "{k \<in> dom (ts_entries st'). map_option tb_viewer_key (ts_entries st' k) = Some vk} = ?S - {k}"
    using assms(4) by auto
  moreover have "k \<in> ?S" using assms(2,3) by auto
  ultimately show ?thesis using assms(1) by (simp add: own_count_def)
qed

lemma evict_own_ok:
  assumes "ts_ok st" "n = own_count vk st"
  shows "ts_ok (evict_own vk n st) \<and> (newest st k t \<longrightarrow> newest (evict_own vk n st) k t)"
  using assms
proof (induction vk n st rule: evict_own.induct)
  case (1 vk n st)
  let ?w = "\<lambda>t :: tombstone. tb_viewer_key t = vk"
  obtain b st' where e: "evict_oldest ?w st = (b, st')" by (cases "evict_oldest ?w st")
  note ok' = evict_oldest_ok [OF "1.prems"(1) e]
  show ?case
  proof (cases "VIEWER_TOMBSTONE_CAP < n \<and> b")
    case True
    with e have e': "evict_oldest ?w st = (True, st')" by simp
    have "\<exists>j \<in> {k \<in> dom (ts_entries st). map_option tb_viewer_key (ts_entries st k) = Some vk}. j \<noteq> k"
      using True "1.prems"(2) by (intro other_key_if_card) (simp add: own_count_def VIEWER_TOMBSTONE_CAP_def)
    then have n: "newest st k t \<longrightarrow> newest st' k t"
      using evict_oldest_newest [OF "1.prems"(1) e'] by blast
    obtain k' t' where "ts_entries st k' = Some t'" "tb_viewer_key t' = vk"
      "ts_entries st' = (ts_entries st)(k' := None)"
      using evict_oldest_removes [OF "1.prems"(1) e'] by blast
    then have "n - 1 = own_count vk st'"
      using own_count_drop [of st k' t' vk st'] "1.prems" by (simp add: ts_ok_def)
    with True e n "1.IH" ok' show ?thesis by (simp add: evict_own.simps [of vk n st])
  next
    case False
    have "newest st k t \<longrightarrow> newest st' k t" if "\<not> b"
      using e that
      by (auto simp: evict_oldest_def newest_def split: prod.splits dest!: evict_oldest_walk_False)
    with False e ok' "1.prems"(1) show ?thesis by (auto simp: evict_own.simps [of vk n st])
  qed
qed

lemma ts_ok_new: "ts_ok tombstone_store_new"
  by (simp add: ts_ok_def tombstone_store_new_def)

lemma ts_ok_remove: "ts_ok st \<Longrightarrow> ts_ok (ts_remove k st)"
  by (auto simp: ts_ok_def ts_remove_def)

lemma ts_ok_drop_entries:
  assumes "ts_ok st"
  shows "ts_ok (drop_entries P st)"
proof -
  have "finite (dom (ts_entries (drop_entries P st)))"
    using assms submap_dom [OF drop_entries_submap, of P st] finite_subset by (auto simp: ts_ok_def)
  with assms show ?thesis
    by (auto simp: ts_ok_def drop_entries_def split: option.splits if_splits)
qed

definition claim_of :: "nat \<Rightarrow> string \<Rightarrow> string \<Rightarrow> nat \<Rightarrow> view_intent \<Rightarrow> nat \<Rightarrow> tombstone" where
  "claim_of now_ms key viewer_key revision intent sequence =
     \<lparr>tb_key = key, tb_viewer_key = viewer_key, tb_revision = revision, tb_intent = intent,
      tb_expires_ms = saturating_add64 now_ms TERMINAL_VIEW_LEASE_MS, tb_sequence = sequence\<rparr>"

definition ts_insert :: "string \<Rightarrow> tombstone \<Rightarrow> tombstone_store \<Rightarrow> tombstone_store" where
  "ts_insert key t st =
     \<lparr>ts_entries = (ts_entries st)(key \<mapsto> t), ts_order = ts_order st @ [(key, tb_sequence t)],
      ts_next_sequence = tb_sequence t\<rparr>"

lemma ts_retain_insert:
  "ts_retain now k vk revn i st =
     evict vk (ts_insert k (claim_of now k vk revn i (ts_next_sequence st + 1)) st)"
  by (simp add: ts_retain_def ts_insert_def claim_of_def Let_def)

lemma ts_insert_ok:
  assumes "ts_ok st" "tb_key t = k" "ts_next_sequence st < tb_sequence t"
  shows "ts_ok (ts_insert k t st) \<and> newest (ts_insert k t st) k t"
proof -
  have le: "snd e < tb_sequence t" if "e \<in> set (ts_order st)" for e
    using assms that by (fastforce simp: ts_ok_def)
  have "tb_sequence u < tb_sequence t" if "ts_entries st j = Some u" for j u
    using le [OF ts_ok_in_order [OF assms(1) that]] by simp
  moreover have "ts_ok (ts_insert k t st)"
    using assms le by (force simp: ts_ok_def ts_insert_def sorted_wrt_append)
  ultimately show ?thesis by (auto simp: newest_def ts_insert_def intro: less_imp_le)
qed

lemma evict_ok:
  assumes "ts_ok st"
  shows "ts_ok (evict vk st) \<and> ts_len (evict vk st) \<le> PROCESS_TOMBSTONE_CAP
    \<and> (newest st k t \<longrightarrow> newest (evict vk st) k t)"
proof -
  let ?p = "evict_process st"
  note p = evict_process_ok [OF assms, of k t]
  note o = evict_own_ok [of ?p "own_count vk ?p" vk k t]
  have "ts_len (evict vk st) \<le> ts_len ?p"
    using p submap_dom [OF evict_own_submap, of vk "own_count vk ?p" ?p]
    by (auto simp: ts_len_def evict_def Let_def ts_ok_def intro!: card_mono)
  with p o show ?thesis by (auto simp: evict_def Let_def)
qed

lemma ts_retain_found:
  assumes "ts_ok st"
  shows "ts_ok (ts_retain now k vk revn i st) \<and> ts_len (ts_retain now k vk revn i st) \<le> PROCESS_TOMBSTONE_CAP
    \<and> ts_get (ts_retain now k vk revn i st) k = Some (claim_of now k vk revn i (ts_next_sequence st + 1))"
proof -
  let ?t = "claim_of now k vk revn i (ts_next_sequence st + 1)"
  have "ts_ok (ts_insert k ?t st) \<and> newest (ts_insert k ?t st) k ?t"
    using assms by (intro ts_insert_ok) (simp_all add: claim_of_def)
  with evict_ok [of "ts_insert k ?t st" vk k ?t] show ?thesis
    by (simp add: ts_retain_insert newest_def ts_get_def)
qed

lemma ts_ok_retain: "ts_ok st \<Longrightarrow> ts_ok (ts_retain now k vk revn i st)"
  by (simp add: ts_retain_found)

definition claim_example :: view_intent where
  "claim_example = \<lparr>intent_session_id = ''3f2504e0-4f89-41d3-9a0c-0305e82c3301'', intent_cols = 80,
     intent_rows = 24, intent_active = True\<rparr>"

text \<open>
  Retaining a claim keeps the store's invariant and its process-wide cap, and the claim just
  retained is always the one found under its key afterwards: eviction is oldest-first, so it can
  never reach the newest claim.
\<close>

theorem retained_claim_is_found:
  assumes "ts_ok st"
  shows "ts_get (ts_retain now k vk revn i st) k =
           Some \<lparr>tb_key = k, tb_viewer_key = vk, tb_revision = revn, tb_intent = i,
                 tb_expires_ms = saturating_add64 now TERMINAL_VIEW_LEASE_MS,
                 tb_sequence = ts_next_sequence st + 1\<rparr>
         \<and> ts_ok (ts_retain now k vk revn i st)
         \<and> ts_len (ts_retain now k vk revn i st) \<le> PROCESS_TOMBSTONE_CAP"
  using ts_retain_found [OF assms] by (simp add: claim_of_def)

theorem retained_claim_is_found_witness:
  "map_option tb_revision (ts_get (ts_retain 5 ''k'' ''f:t'' 3 claim_example tombstone_store_new) ''k'')
     = Some 3"
  using retained_claim_is_found [OF ts_ok_new, of 5 "''k''" "''f:t''" 3 claim_example] by simp

section \<open>What the eviction does not bound\<close>

definition shielded :: "string \<Rightarrow> tombstone_store \<Rightarrow> bool" where
  "shielded vk st \<longleftrightarrow> (\<exists>k (t :: tombstone) rest. ts_order st = (k, tb_sequence t) # rest
     \<and> ts_entries st k = Some t \<and> tb_viewer_key t \<noteq> vk)"

lemma evict_own_shielded: "shielded vk st \<Longrightarrow> evict_own vk n st = st"
  by (auto simp: shielded_def evict_own.simps [of vk n st] evict_oldest_def)

lemma evict_shielded: "shielded vk st \<Longrightarrow> ts_len st \<le> PROCESS_TOMBSTONE_CAP \<Longrightarrow> evict vk st = st"
  by (simp add: evict_def evict_process.simps [of st] evict_own_shielded)

lemma own_count_insert:
  assumes "finite (dom (ts_entries st))" "ts_entries st k = None" "tb_viewer_key t = vk"
  shows "own_count vk (ts_insert k t st) = Suc (own_count vk st)"
proof -
  let ?S = "{k \<in> dom (ts_entries st). map_option tb_viewer_key (ts_entries st k) = Some vk}"
  have "{j \<in> dom (ts_entries (ts_insert k t st)).
      map_option tb_viewer_key (ts_entries (ts_insert k t st) j) = Some vk} = insert k ?S"
    using assms(2,3) by (auto simp: ts_insert_def)
  with assms show ?thesis by (auto simp: own_count_def)
qed

lemma evict_within_caps:
  "ts_len st \<le> PROCESS_TOMBSTONE_CAP \<Longrightarrow> own_count vk st \<le> VIEWER_TOMBSTONE_CAP \<Longrightarrow> evict vk st = st"
  by (simp add: evict_def evict_process.simps [of st] evict_own.simps [of vk _ st])

lemma retain_alone:
  assumes "ts_entries st = Map.empty"
  shows "ts_retain now k vk revn i st = ts_insert k (claim_of now k vk revn i (ts_next_sequence st + 1)) st"
proof -
  let ?t = "claim_of now k vk revn i (ts_next_sequence st + 1)"
  let ?st = "ts_insert k ?t st"
  have "own_count vk ?st = 1"
    using own_count_insert [of st k ?t vk] assms by (simp add: claim_of_def own_count_def)
  moreover have "ts_len ?st = 1" using assms by (simp add: ts_len_def ts_insert_def)
  ultimately show ?thesis
    by (simp add: ts_retain_insert evict_within_caps PROCESS_TOMBSTONE_CAP_def VIEWER_TOMBSTONE_CAP_def)
qed

lemma retain_shielded:
  assumes "shielded vk st" "finite (dom (ts_entries st))" "ts_entries st k = None"
    "Suc (ts_len st) \<le> PROCESS_TOMBSTONE_CAP"
  shows "let st' = ts_retain now k vk revn i st in
    shielded vk st' \<and> dom (ts_entries st') = insert k (dom (ts_entries st))
    \<and> ts_len st' = Suc (ts_len st) \<and> own_count vk st' = Suc (own_count vk st)"
proof -
  let ?t = "claim_of now k vk revn i (ts_next_sequence st + 1)"
  let ?st = "ts_insert k ?t st"
  have dom: "dom (ts_entries ?st) = insert k (dom (ts_entries st))" by (simp add: ts_insert_def)
  have sh: "shielded vk ?st"
    using assms(1,3) by (fastforce simp: shielded_def ts_insert_def)
  have len: "ts_len ?st = Suc (ts_len st)"
    using assms(2,3) dom by (simp add: ts_len_def domIff)
  have "own_count vk ?st = Suc (own_count vk st)"
    using assms by (intro own_count_insert) (simp_all add: claim_of_def)
  with dom sh len assms(4) show ?thesis by (simp add: ts_retain_insert evict_shielded)
qed

lemma retain_all_shielded:
  assumes "shielded vk st" "finite (dom (ts_entries st))" "distinct keys"
    "\<forall>k \<in> set keys. ts_entries st k = None" "ts_len st + length keys \<le> PROCESS_TOMBSTONE_CAP"
  shows "own_count vk (fold (\<lambda>k. ts_retain now k vk revn i) keys st) = own_count vk st + length keys"
  using assms
proof (induction keys arbitrary: st)
  case (Cons k keys)
  let ?st = "ts_retain now k vk revn i st"
  have sh: "shielded vk ?st" and dom: "dom (ts_entries ?st) = insert k (dom (ts_entries st))"
    and len: "ts_len ?st = Suc (ts_len st)" and own: "own_count vk ?st = Suc (own_count vk st)"
    using retain_shielded [of vk st k now revn i] Cons.prems by (auto simp: Let_def)
  have "ts_entries ?st j = None" if "j \<in> set keys" for j
    using that Cons.prems(3,4) dom by (metis distinct.simps(2) domIff insertE list.set_intros(2))
  with sh dom len Cons.prems have "own_count vk (fold (\<lambda>k. ts_retain now k vk revn i) keys ?st)
      = own_count vk ?st + length keys"
    by (intro Cons.IH) auto
  with own show ?case by simp
qed simp

text \<open>
  The per-viewer cap does not bind once another viewer holds the oldest claim: after one claim
  of viewer A, viewer B can retain any number of distinct claims up to the process cap, all of them
  kept, because the eviction stops at the first live claim that is not B's.
\<close>

theorem viewer_cap_bypass:
  assumes "va \<noteq> vb" "distinct (k0 # keys)" "length keys < PROCESS_TOMBSTONE_CAP"
  shows "own_count vb (fold (\<lambda>k. ts_retain now k vb revn i) keys
           (ts_retain now k0 va revn i tombstone_store_new)) = length keys"
proof -
  let ?t = "claim_of now k0 va revn i 1"
  let ?st = "ts_insert k0 ?t tombstone_store_new"
  have "ts_retain now k0 va revn i tombstone_store_new = ?st"
    by (simp add: retain_alone tombstone_store_new_def)
  moreover have "shielded vb ?st"
    using assms(1) by (auto simp: shielded_def ts_insert_def tombstone_store_new_def claim_of_def)
  moreover have "own_count vb ?st = 0"
    using assms(1) by (simp add: own_count_def ts_insert_def tombstone_store_new_def claim_of_def)
  moreover have "\<forall>k \<in> set keys. ts_entries ?st k = None" "dom (ts_entries ?st) = {k0}"
    using assms(2) by (auto simp: ts_insert_def tombstone_store_new_def split: if_splits)
  ultimately show ?thesis
    using retain_all_shielded [of vb ?st keys now revn i] assms by (simp add: ts_len_def)
qed

theorem viewer_cap_bypass_witness:
  "VIEWER_TOMBSTONE_CAP < own_count ''b:1'' (fold (\<lambda>k. ts_retain 0 k ''b:1'' 1 claim_example)
     (map (\<lambda>n. replicate n CHR ''x'') [1..<201])
     (ts_retain 0 ''k'' ''a:1'' 1 claim_example tombstone_store_new))"
proof -
  have "inj_on (\<lambda>n. replicate n CHR ''x'') {1..<201}"
    by (rule inj_on_inverseI [where g = length]) simp
  moreover have "''k'' \<notin> (\<lambda>n. replicate n CHR ''x'') ` {1..<201}"
    by (auto simp: Cons_replicate_eq dest!: arg_cong [where f = set])
  ultimately have "distinct (''k'' # map (\<lambda>n. replicate n CHR ''x'') [1..<201])"
    by (auto simp: distinct_map)
  then show ?thesis
    using viewer_cap_bypass [of "''a:1''" "''b:1''" "''k''" "map (\<lambda>n. replicate n CHR ''x'') [1..<201]"
        0 1 claim_example]
    by (simp add: VIEWER_TOMBSTONE_CAP_def PROCESS_TOMBSTONE_CAP_def)
qed

text \<open>
  Expiry forgets the claims and not their order entries: a coordinator in which every claim
  lapses before the next is retained holds no claim, and an order list as long as its history.
\<close>

theorem expired_claims_leave_order_entries:
  "let st = fold (\<lambda>k s. ts_expire (saturating_add64 now TERMINAL_VIEW_LEASE_MS)
                        (ts_retain now k vk revn i s)) keys tombstone_store_new
   in ts_len st = 0 \<and> length (ts_order st) = length keys"
proof -
  let ?step = "\<lambda>k s. ts_expire (saturating_add64 now TERMINAL_VIEW_LEASE_MS) (ts_retain now k vk revn i s)"
  have "ts_entries (fold ?step keys st) = Map.empty
      \<and> length (ts_order (fold ?step keys st)) = length (ts_order st) + length keys"
    if "ts_entries st = Map.empty" for st
    using that
  proof (induction keys arbitrary: st)
    case (Cons k keys)
    have "ts_entries (?step k st) = Map.empty \<and> length (ts_order (?step k st)) = Suc (length (ts_order st))"
      using Cons.prems by (auto simp: retain_alone ts_expire_def drop_entries_def ts_insert_def claim_of_def)
    with Cons.IH [of "?step k st"] show ?case by simp
  qed simp
  from this [of tombstone_store_new] show ?thesis
    by (simp add: Let_def ts_len_def tombstone_store_new_def)
qed

end
