(* ===== verification/View_Registry.thy ===== *)
theory View_Registry
  imports View_Claims
begin

text \<open>
  Terminal view membership (\<open>terminal_view/{machine,admit,commands,registry,sink}.rs\<close> and
  \<open>registry/queries.rs\<close>): which socket watches which session's terminal. The registry is four maps;
  every operation returns the new maps and, as values, the replies and host effects it decided.
  A socket's delivery sink is a host object the machine only stores, and is left out of the record.
  The iteration order of a hash map is an explicit list argument of the operations that walk one.
\<close>

section \<open>State and effects\<close>

record terminal_resync_command =
  rs_view_id :: string
  rs_session_id :: string
  rs_stream_id :: string
  rs_grid_epoch :: string
  rs_seq :: nat
  rs_domain_generation :: nat

datatype terminal_view_status = StatusUnspecified | Accepted | Rejected | Unavailable

datatype pending_reply =
    ReplyCommand (reply_socket_id: string) (reply_view_id: string) (reply_session_id: string)
      (reply_revision: nat) (reply_active: bool) (reply_status: terminal_view_status)
      (reply_reason: string)
  | ReplyView (reply_socket_id: string) (reply_view_id: string) (reply_session_id: string)
      (reply_revision: nat) (reply_status: terminal_view_status) (reply_reason: string)

datatype sink_call =
    Watching string session_id bool
  | Resync string session_id string nat
  | LiveViewExpired string string session_id

record socket_registration =
  sr_socket_id :: string
  sr_viewer_key :: "string option"
  sr_caller_fingerprint :: string
  sr_session_ids :: "string set"

record socket_record =
  sock_id :: string
  sock_viewer_key :: "string option"
  sock_fingerprint :: string
  sock_allowed_sessions :: "string set"
  sock_views :: "string set"

definition allows :: "socket_record \<Rightarrow> string \<Rightarrow> bool" where
  "allows socket sid \<longleftrightarrow> sid \<in> sock_allowed_sessions socket"

record membership_outcome =
  out_changed :: "session_id set"
  out_replies :: "pending_reply list"
  out_calls :: "sink_call list"

definition outcome_default :: membership_outcome where
  "outcome_default = \<lparr>out_changed = {}, out_replies = [], out_calls = []\<rparr>"

definition outcome_is_empty :: "membership_outcome \<Rightarrow> bool" where
  "outcome_is_empty out \<longleftrightarrow> out_changed out = {} \<and> out_replies out = [] \<and> out_calls out = []"

definition answer_view ::
  "view_record \<Rightarrow> terminal_view_status \<Rightarrow> string \<Rightarrow> membership_outcome \<Rightarrow> membership_outcome" where
  "answer_view record status reason out = out\<lparr>out_replies := out_replies out @
     [ReplyView (vr_socket_id record) (vr_view_id record) (intent_session_id (vr_intent record))
        (vr_revision record) status reason]\<rparr>"

definition refuse ::
  "string \<Rightarrow> terminal_view_command \<Rightarrow> string \<Rightarrow> membership_outcome \<Rightarrow> membership_outcome" where
  "refuse socket_id command reason out = out\<lparr>out_replies := out_replies out @
     [ReplyCommand socket_id (cmd_view_id command) (cmd_session_id command) (cmd_revision command)
        (cmd_active command) Rejected reason]\<rparr>"

definition accept_inactive ::
  "string \<Rightarrow> terminal_view_command \<Rightarrow> membership_outcome \<Rightarrow> membership_outcome" where
  "accept_inactive socket_id command out = out\<lparr>out_replies := out_replies out @
     [ReplyCommand socket_id (cmd_view_id command) (cmd_session_id command) (cmd_revision command)
        False Accepted '''']\<rparr>"

definition mark_changed :: "session_id \<Rightarrow> membership_outcome \<Rightarrow> membership_outcome" where
  "mark_changed sid out = out\<lparr>out_changed := insert sid (out_changed out)\<rparr>"

definition push_call :: "sink_call \<Rightarrow> membership_outcome \<Rightarrow> membership_outcome" where
  "push_call c out = out\<lparr>out_calls := out_calls out @ [c]\<rparr>"

record view_registry =
  reg_sockets :: "string \<rightharpoonup> socket_record"
  reg_views :: view_map
  reg_session_views :: "session_id \<rightharpoonup> string set"
  reg_tombstones :: tombstone_store

definition registry_new :: view_registry where
  "registry_new = \<lparr>reg_sockets = Map.empty, reg_views = Map.empty, reg_session_views = Map.empty,
     reg_tombstones = tombstone_store_new\<rparr>"

section \<open>The machine's index operations\<close>

definition session_of :: "view_record \<Rightarrow> session_id option" where
  "session_of record =
     (case session_id_try_from (intent_session_id (vr_intent record)) of Inl _ \<Rightarrow> None | Inr sid \<Rightarrow> Some sid)"

definition view_count :: "string \<Rightarrow> view_registry \<Rightarrow> nat" where
  "view_count socket_id reg =
     (case reg_sockets reg socket_id of None \<Rightarrow> 0 | Some socket \<Rightarrow> card (sock_views socket))"

definition session_count :: "session_id \<Rightarrow> view_registry \<Rightarrow> nat" where
  "session_count sid reg = (case reg_session_views reg sid of None \<Rightarrow> 0 | Some keys \<Rightarrow> card keys)"

definition unindex :: "session_id option \<Rightarrow> string \<Rightarrow> (session_id \<rightharpoonup> string set) \<Rightarrow> (session_id \<rightharpoonup> string set)" where
  "unindex sid key m =
     (case sid of None \<Rightarrow> m
      | Some s \<Rightarrow>
          (case m s of None \<Rightarrow> m
           | Some keys \<Rightarrow> if keys - {key} = {} then m(s := None) else m(s \<mapsto> keys - {key})))"

definition drop_record ::
  "string \<Rightarrow> bool \<Rightarrow> nat \<Rightarrow> (nat \<times> view_intent) option \<Rightarrow> view_registry \<Rightarrow> view_registry" where
  "drop_record key save now_ms claim reg =
     (case reg_views reg key of
        None \<Rightarrow> reg
      | Some record \<Rightarrow>
          \<lparr>reg_sockets = update_entry (vr_socket_id record)
             (\<lambda>socket. socket\<lparr>sock_views := sock_views socket - {key}\<rparr>) (reg_sockets reg),
           reg_views = (reg_views reg)(key := None),
           reg_session_views = unindex (session_of record) key (reg_session_views reg),
           reg_tombstones =
             (if save then
                (case (case claim of None \<Rightarrow> (vr_revision record, vr_intent record) | Some c \<Rightarrow> c) of
                   (revision, intent) \<Rightarrow>
                     ts_retain now_ms key (vr_viewer_key record) revision intent (reg_tombstones reg))
              else reg_tombstones reg)\<rparr>)"

definition sync_watching :: "string \<Rightarrow> session_id \<Rightarrow> view_registry \<Rightarrow> sink_call" where
  "sync_watching socket_id sid reg =
     Watching socket_id sid
       (\<exists>record \<in> ran (reg_views reg). vr_socket_id record = socket_id \<and> session_of record = Some sid)"

section \<open>View commands\<close>

definition SESSION_MOVED :: string where
  "SESSION_MOVED = ''a terminal view cannot change sessions''"

record caller =
  caller_socket_id :: string
  caller_viewer_key :: string
  caller_fingerprint :: string

definition own_key :: "string \<Rightarrow> string \<Rightarrow> view_registry \<Rightarrow> view_registry" where
  "own_key socket_id key reg = reg\<lparr>reg_sockets := update_entry socket_id
     (\<lambda>socket. socket\<lparr>sock_views := insert key (sock_views socket)\<rparr>) (reg_sockets reg)\<rparr>"

definition index_key :: "session_id \<Rightarrow> string \<Rightarrow> view_registry \<Rightarrow> view_registry" where
  "index_key sid key reg = reg\<lparr>reg_session_views := (reg_session_views reg)(sid \<mapsto>
     insert key (case reg_session_views reg sid of None \<Rightarrow> {} | Some keys \<Rightarrow> keys))\<rparr>"

definition put_view :: "string \<Rightarrow> view_record \<Rightarrow> view_registry \<Rightarrow> view_registry" where
  "put_view key record reg = reg\<lparr>reg_views := (reg_views reg)(key \<mapsto> record)\<rparr>"

definition release ::
  "string \<Rightarrow> terminal_view_command \<Rightarrow> string \<Rightarrow> nat \<Rightarrow> view_registry \<times> membership_outcome
     \<Rightarrow> view_registry \<times> membership_outcome" where
  "release socket_id command key now_ms = (\<lambda>(reg, out).
     let sid = Option.bind (reg_views reg key) session_of;
         reg' = drop_record key True now_ms (Some (cmd_revision command, intent_of command)) reg;
         out' = (case sid of None \<Rightarrow> out
                 | Some s \<Rightarrow> push_call (sync_watching socket_id s reg') (mark_changed s out))
     in (reg', accept_inactive socket_id command out'))"

definition reclaim ::
  "caller \<Rightarrow> terminal_view_command \<Rightarrow> view_record \<Rightarrow> string \<Rightarrow> nat
     \<Rightarrow> view_registry \<times> membership_outcome \<Rightarrow> view_registry \<times> membership_outcome" where
  "reclaim cl command current key now_ms = (\<lambda>(reg, out).
     if \<not> vr_parked current then
       (reg, refuse (caller_socket_id cl) command ''view is owned by another live socket'' out)
     else if cmd_revision command < vr_revision current then
       (reg, refuse (caller_socket_id cl) command ''stale terminal view revision'' out)
     else if cmd_session_id command \<noteq> intent_session_id (vr_intent current) then
       (reg, refuse (caller_socket_id cl) command SESSION_MOVED out)
     else if \<not> cmd_active command then release (caller_socket_id cl) command key now_ms (reg, out)
     else if TERMINAL_SOCKET_VIEW_CAP \<le> view_count (caller_socket_id cl) reg then
       (reg, refuse (caller_socket_id cl) command ''terminal socket view capacity exceeded'' out)
     else
       let current' = current\<lparr>vr_socket_id := caller_socket_id cl, vr_intent := intent_of command,
                        vr_revision := cmd_revision command, vr_deadline_ms := lease_deadline now_ms,
                        vr_parked := False, vr_parked_at_ms := 0, vr_constrains := True\<rparr>;
           reg' = own_key (caller_socket_id cl) key (put_view key current' reg);
           out' = (case session_of current of None \<Rightarrow> out
                   | Some s \<Rightarrow> push_call (sync_watching (caller_socket_id cl) s reg') (mark_changed s out))
       in (reg', answer_view current' Accepted '''' out'))"

definition update_view ::
  "caller \<Rightarrow> terminal_view_command \<Rightarrow> view_record \<Rightarrow> nat
     \<Rightarrow> view_registry \<times> membership_outcome \<Rightarrow> view_registry \<times> membership_outcome" where
  "update_view cl command current now_ms = (\<lambda>(reg, out).
     if cmd_revision command < vr_revision current then
       (reg, refuse (caller_socket_id cl) command ''stale terminal view revision'' out)
     else if cmd_revision command = vr_revision current then
       let current' = current\<lparr>vr_deadline_ms := lease_deadline now_ms\<rparr>;
           reg' = put_view (vr_key current) current' reg
       in (if \<not> intents_equal (vr_intent current) (intent_of command)
           then (reg', refuse (caller_socket_id cl) command ''terminal view revision conflicts'' out)
           else (reg', answer_view current' Accepted '''' out))
     else if cmd_session_id command \<noteq> intent_session_id (vr_intent current) then
       (reg, refuse (caller_socket_id cl) command SESSION_MOVED out)
     else if \<not> cmd_active command then
       release (caller_socket_id cl) command (vr_key current) now_ms (reg, out)
     else
       let current' = current\<lparr>vr_intent := intent_of command, vr_revision := cmd_revision command,
                        vr_deadline_ms := lease_deadline now_ms\<rparr>;
           out' = (case session_of current of None \<Rightarrow> out | Some s \<Rightarrow> mark_changed s out)
       in (put_view (vr_key current) current' reg, answer_view current' Accepted '''' out'))"

text \<open>
  The retained claim decides first: \<open>admit_claim\<close> is the part of \<open>admit\<close> that consults it, and
  returns the answer it settles the command with, or the registry without the claim.
\<close>

definition admit_claim ::
  "caller \<Rightarrow> terminal_view_command \<Rightarrow> string \<Rightarrow> view_registry \<times> membership_outcome
     \<Rightarrow> (view_registry \<times> membership_outcome) + view_registry" where
  "admit_claim cl command key = (\<lambda>(reg, out).
     case ts_get (reg_tombstones reg) key of
       None \<Rightarrow> Inr reg
     | Some old \<Rightarrow>
         if cmd_revision command < tb_revision old
            \<or> (cmd_revision command = tb_revision old
               \<and> \<not> intents_equal (tb_intent old) (intent_of command)) then
           Inl (reg, refuse (caller_socket_id cl) command ''stale or conflicting terminal view revision'' out)
         else if intent_session_id (tb_intent old) \<noteq> cmd_session_id command then
           Inl (reg, refuse (caller_socket_id cl) command SESSION_MOVED out)
         else if cmd_revision command = tb_revision old \<and> \<not> cmd_active command then
           Inl (reg, accept_inactive (caller_socket_id cl) command out)
         else Inr (reg\<lparr>reg_tombstones := ts_remove key (reg_tombstones reg)\<rparr>))"

definition admitted_record :: "caller \<Rightarrow> terminal_view_command \<Rightarrow> string \<Rightarrow> nat \<Rightarrow> view_record" where
  "admitted_record cl command key now_ms =
     \<lparr>vr_key = key, vr_view_id = cmd_view_id command, vr_viewer_key = caller_viewer_key cl,
      vr_fingerprint = caller_fingerprint cl, vr_socket_id = caller_socket_id cl,
      vr_intent = intent_of command, vr_revision = cmd_revision command,
      vr_deadline_ms = lease_deadline now_ms, vr_parked = False, vr_parked_at_ms = 0,
      vr_constrains = True\<rparr>"

definition admit ::
  "caller \<Rightarrow> terminal_view_command \<Rightarrow> string \<Rightarrow> nat \<Rightarrow> view_registry \<times> membership_outcome
     \<Rightarrow> view_registry \<times> membership_outcome" where
  "admit cl command key now_ms = (\<lambda>(reg0, out).
     case admit_claim cl command key (reg0, out) of
       Inl settled \<Rightarrow> settled
     | Inr reg \<Rightarrow>
         if \<not> cmd_active command then
           (reg\<lparr>reg_tombstones := ts_retain now_ms key (caller_viewer_key cl) (cmd_revision command)
                 (intent_of command) (reg_tombstones reg)\<rparr>,
            accept_inactive (caller_socket_id cl) command out)
         else if TERMINAL_SOCKET_VIEW_CAP \<le> view_count (caller_socket_id cl) reg then
           (reg, refuse (caller_socket_id cl) command ''terminal socket view capacity exceeded'' out)
         else
           (case session_id_try_from (cmd_session_id command) of
              Inl _ \<Rightarrow> (reg, out)
            | Inr sid \<Rightarrow>
                if SESSION_VIEW_CAP \<le> session_count sid reg then
                  (reg, refuse (caller_socket_id cl) command ''terminal session view capacity exceeded'' out)
                else
                  let record = admitted_record cl command key now_ms;
                      reg' = own_key (caller_socket_id cl) key (index_key sid key (put_view key record reg));
                      out' = push_call (sync_watching (caller_socket_id cl) sid reg') (mark_changed sid out)
                  in (reg', answer_view record Accepted '''' out')))"

definition handle_view_command ::
  "string \<Rightarrow> terminal_view_command \<Rightarrow> nat \<Rightarrow> view_registry \<Rightarrow> view_registry \<times> membership_outcome" where
  "handle_view_command socket_id command now_ms reg =
     (case reg_sockets reg socket_id of
        None \<Rightarrow> (reg, outcome_default)
      | Some socket \<Rightarrow>
          (case validate_view_command (sock_viewer_key socket) command of
             Some reason \<Rightarrow> (reg, refuse socket_id command reason outcome_default)
           | None \<Rightarrow>
               if \<not> allows socket (cmd_session_id command) then
                 (reg, refuse socket_id command ''terminal session is unavailable'' outcome_default)
               else
                 (case sock_viewer_key socket of
                    None \<Rightarrow> (reg, outcome_default)
                  | Some viewer_key \<Rightarrow>
                      let cl = \<lparr>caller_socket_id = socket_id, caller_viewer_key = viewer_key,
                                caller_fingerprint = sock_fingerprint socket\<rparr>;
                          key = view_key viewer_key (cmd_view_id command)
                      in (case reg_views reg key of
                            Some current \<Rightarrow>
                              if vr_socket_id current \<noteq> socket_id
                              then reclaim cl command current key now_ms (reg, outcome_default)
                              else update_view cl command current now_ms (reg, outcome_default)
                          | None \<Rightarrow> admit cl command key now_ms (reg, outcome_default)))))"

definition handle_resync ::
  "string \<Rightarrow> terminal_resync_command \<Rightarrow> view_registry \<Rightarrow> membership_outcome" where
  "handle_resync socket_id command reg =
     (case reg_sockets reg socket_id of
        None \<Rightarrow> outcome_default
      | Some socket \<Rightarrow>
          (case sock_viewer_key socket of
             None \<Rightarrow> outcome_default
           | Some viewer_key \<Rightarrow>
               if \<not> allows socket (rs_session_id command) \<or> \<not> is_terminal_uuid (rs_view_id command)
               then outcome_default
               else
                 (case reg_views reg (view_key viewer_key (rs_view_id command)) of
                    None \<Rightarrow> outcome_default
                  | Some record \<Rightarrow>
                      if vr_socket_id record \<noteq> socket_id \<or> vr_parked record
                         \<or> intent_session_id (vr_intent record) \<noteq> rs_session_id command
                      then outcome_default
                      else
                        (case session_of record of
                           None \<Rightarrow> outcome_default
                         | Some sid \<Rightarrow>
                             push_call (Resync socket_id sid (rs_grid_epoch command) (rs_seq command))
                               outcome_default))))"

section \<open>Socket lifecycle, revocation and the sweep\<close>

definition close_socket :: "string \<Rightarrow> nat \<Rightarrow> view_registry \<Rightarrow> view_registry" where
  "close_socket socket_id now_ms reg =
     (case reg_sockets reg socket_id of
        None \<Rightarrow> reg
      | Some socket \<Rightarrow>
          reg\<lparr>reg_sockets := (reg_sockets reg)(socket_id := None),
              reg_views := (\<lambda>key. case reg_views reg key of
                 None \<Rightarrow> None
               | Some record \<Rightarrow>
                   if key \<in> sock_views socket \<and> vr_socket_id record = socket_id
                   then Some (record\<lparr>vr_parked := True, vr_parked_at_ms := now_ms\<rparr>)
                   else Some record)\<rparr>)"

definition register_socket :: "socket_registration \<Rightarrow> nat \<Rightarrow> view_registry \<Rightarrow> view_registry" where
  "register_socket registration now_ms reg =
     (let reg' = close_socket (sr_socket_id registration) now_ms reg
      in reg'\<lparr>reg_sockets := (reg_sockets reg')(sr_socket_id registration \<mapsto>
           \<lparr>sock_id = sr_socket_id registration, sock_viewer_key = sr_viewer_key registration,
            sock_fingerprint = sr_caller_fingerprint registration,
            sock_allowed_sessions = sr_session_ids registration, sock_views = {}\<rparr>)\<rparr>)"

definition doomed_sessions :: "string list \<Rightarrow> view_registry \<Rightarrow> session_id set" where
  "doomed_sessions keys reg =
     set (List.map_filter (\<lambda>key. Option.bind (reg_views reg key) session_of) keys)"

definition remove_fingerprint ::
  "string list \<Rightarrow> string \<Rightarrow> view_registry \<Rightarrow> view_registry \<times> membership_outcome" where
  "remove_fingerprint keys fingerprint reg =
     (let doomed = filter (\<lambda>key. map_option vr_fingerprint (reg_views reg key) = Some fingerprint) keys;
          reg' = foldl (\<lambda>r key. drop_record key False 0 None r) reg doomed
      in (reg'\<lparr>reg_tombstones := ts_remove_viewer fingerprint (reg_tombstones reg'),
               reg_sockets := (\<lambda>sid. case reg_sockets reg' sid of
                  None \<Rightarrow> None
                | Some socket \<Rightarrow> if sock_fingerprint socket \<noteq> fingerprint then Some socket else None)\<rparr>,
          outcome_default\<lparr>out_changed := doomed_sessions doomed reg\<rparr>))"

definition socket_ids_for_fingerprint :: "string \<Rightarrow> view_registry \<Rightarrow> string list" where
  "socket_ids_for_fingerprint fingerprint reg =
     sorted_list_of_set {id. map_option sock_fingerprint (reg_sockets reg id) = Some fingerprint}"

definition close_session :: "session_id \<Rightarrow> view_registry \<Rightarrow> view_registry \<times> membership_outcome" where
  "close_session sid reg =
     (let watchers = remdups_adj (sort (map vr_socket_id
            (records_in_order (reg_views reg) (reg_session_views reg sid))));
          reg' = (case reg_session_views reg sid of
                    None \<Rightarrow> reg
                  | Some keys \<Rightarrow>
                      foldl (\<lambda>r key. drop_record key False 0 None r) reg (sorted_list_of_set keys))
      in (reg'\<lparr>reg_session_views := (reg_session_views reg')(sid := None),
               reg_tombstones := ts_remove_session (session_id_str sid) (reg_tombstones reg')\<rparr>,
          outcome_default\<lparr>out_calls := map (\<lambda>socket_id. Watching socket_id sid False) watchers\<rparr>))"

definition sweep_lapse ::
  "string \<Rightarrow> view_record \<Rightarrow> nat \<Rightarrow> view_registry \<times> membership_outcome \<Rightarrow> view_registry \<times> membership_outcome" where
  "sweep_lapse key record now_ms = (\<lambda>(reg, out).
     let out1 = (if \<not> vr_parked record then
                   (case session_of record of None \<Rightarrow> out
                    | Some sid \<Rightarrow> push_call (LiveViewExpired (vr_socket_id record) (vr_view_id record) sid) out)
                 else out);
         reg' = drop_record key True now_ms None reg
     in (reg',
         (case session_of record of
            None \<Rightarrow> out1
          | Some sid \<Rightarrow>
              mark_changed sid
                (if reg_sockets reg' (vr_socket_id record) \<noteq> None
                 then push_call (sync_watching (vr_socket_id record) sid reg') out1 else out1))))"

definition sweep_step ::
  "nat \<Rightarrow> view_registry \<times> membership_outcome \<Rightarrow> string \<Rightarrow> view_registry \<times> membership_outcome" where
  "sweep_step now_ms st key =
     (case st of (reg, out) \<Rightarrow>
        (case reg_views reg key of
           None \<Rightarrow> (reg, out)
         | Some record \<Rightarrow>
             if now_ms < vr_deadline_ms record then
               (if vr_constrains record \<and> \<not> view_constrains record now_ms then
                  (reg\<lparr>reg_views := update_entry key (\<lambda>r. r\<lparr>vr_constrains := False\<rparr>) (reg_views reg)\<rparr>,
                   (case session_of record of None \<Rightarrow> out | Some sid \<Rightarrow> mark_changed sid out))
                else (reg, out))
             else sweep_lapse key record now_ms (reg, out)))"

definition sweep :: "string list \<Rightarrow> nat \<Rightarrow> view_registry \<Rightarrow> view_registry \<times> membership_outcome" where
  "sweep keys now_ms reg =
     (case foldl (sweep_step now_ms) (reg, outcome_default) keys of
        (reg', out) \<Rightarrow> (reg'\<lparr>reg_tombstones := ts_expire now_ms (reg_tombstones reg')\<rparr>, out))"

section \<open>Queries\<close>

definition registry_geometry_set :: "session_id \<Rightarrow> nat \<Rightarrow> view_registry \<Rightarrow> geometry_set" where
  "registry_geometry_set sid now_ms reg = geometry_set (reg_views reg) (reg_session_views reg sid) now_ms"

definition viewer_inputs :: "session_id \<Rightarrow> nat \<Rightarrow> view_registry \<Rightarrow> view_input list" where
  "viewer_inputs sid now_ms reg = project_inputs (reg_views reg) (reg_session_views reg sid) now_ms"

definition registry_view_stats :: "session_id \<Rightarrow> view_registry \<Rightarrow> view_stats" where
  "registry_view_stats sid reg =
     (let records = records_in_order (reg_views reg) (reg_session_views reg sid)
      in \<lparr>stats_active = length (filter (\<lambda>r. \<not> vr_parked r) records),
          stats_parked = length (filter vr_parked records)\<rparr>)"

definition registry_active_fingerprints :: "session_id \<Rightarrow> view_registry \<Rightarrow> string set" where
  "registry_active_fingerprints sid reg = active_fingerprints (reg_views reg) (reg_session_views reg sid)"

definition viewer_projection :: "view_registry \<Rightarrow> (session_id \<rightharpoonup> (string \<rightharpoonup> terminal_geometry))" where
  "viewer_projection reg = project_viewers (reg_session_views reg) (reg_views reg)"

definition broadcast ::
  "session_id \<Rightarrow> terminal_view_status \<Rightarrow> string \<Rightarrow> view_registry \<Rightarrow> pending_reply list" where
  "broadcast sid status reason reg =
     map (\<lambda>r. ReplyView (vr_socket_id r) (vr_view_id r) (intent_session_id (vr_intent r))
              (vr_revision r) status reason)
       (filter (\<lambda>r. \<not> vr_parked r) (records_in_order (reg_views reg) (reg_session_views reg sid)))"

definition set_session_allowed :: "string \<Rightarrow> string \<Rightarrow> bool \<Rightarrow> view_registry \<Rightarrow> view_registry" where
  "set_session_allowed socket_id sid allowed reg =
     reg\<lparr>reg_sockets := update_entry socket_id (\<lambda>socket. socket\<lparr>sock_allowed_sessions :=
        (if allowed then insert sid (sock_allowed_sessions socket)
         else sock_allowed_sessions socket - {sid})\<rparr>) (reg_sockets reg)\<rparr>"

section \<open>Clipping a reason\<close>

definition VIEW_REASON_MAX_BYTES :: nat where "VIEW_REASON_MAX_BYTES = 200"

definition is_char_boundary :: "string \<Rightarrow> nat \<Rightarrow> bool" where
  "is_char_boundary value i \<longleftrightarrow>
     i = 0 \<or> i = length value
     \<or> (i < length value \<and> \<not> (128 \<le> byte_of (value ! i) \<and> byte_of (value ! i) < 192))"

fun clip_end :: "string \<Rightarrow> nat \<Rightarrow> nat" where
  "clip_end value 0 = 0"
| "clip_end value (Suc n) = (if is_char_boundary value (Suc n) then Suc n else clip_end value n)"

definition truncate_view_reason :: "string \<Rightarrow> string" where
  "truncate_view_reason value =
     (if length value \<le> VIEW_REASON_MAX_BYTES then value
      else take (clip_end value VIEW_REASON_MAX_BYTES) value)"

end
