(* ===== verification/View_Invariant.thy ===== *)
theory View_Invariant
  imports View_Registry
begin

text \<open>
  The registry's well-formedness and its preservation by every operation. The three indexes agree
  exactly: a session's key set holds the keys of that session's records, a socket's key set the keys
  of the unparked records it owns, and a key is never both a record and a retained claim.
\<close>

definition fp_key :: "string \<Rightarrow> string \<Rightarrow> bool" where
  "fp_key fingerprint viewer_key \<longleftrightarrow>
     CHR '':'' \<notin> set fingerprint \<and> (\<exists>tab. viewer_key = fingerprint @ CHR '':'' # tab)"

definition record_ok :: "string \<Rightarrow> view_record \<Rightarrow> bool" where
  "record_ok k r \<longleftrightarrow> vr_key r = k \<and> k = view_key (vr_viewer_key r) (vr_view_id r)
     \<and> is_terminal_uuid (vr_view_id r) \<and> fp_key (vr_fingerprint r) (vr_viewer_key r)
     \<and> is_terminal_uuid (intent_session_id (vr_intent r)) \<and> intent_active (vr_intent r)
     \<and> is_terminal_geometry (record_geometry r)"

definition session_keys :: "view_registry \<Rightarrow> session_id \<Rightarrow> string set" where
  "session_keys reg s = (case reg_session_views reg s of None \<Rightarrow> {} | Some ks \<Rightarrow> ks)"

definition socket_keys :: "view_registry \<Rightarrow> string \<Rightarrow> string set" where
  "socket_keys reg i = (case reg_sockets reg i of None \<Rightarrow> {} | Some sk \<Rightarrow> sock_views sk)"

definition views_wf :: "view_registry \<Rightarrow> bool" where
  "views_wf reg \<longleftrightarrow> finite (dom (reg_views reg)) \<and> (\<forall>k r. reg_views reg k = Some r \<longrightarrow> record_ok k r)"

definition sessions_wf :: "view_registry \<Rightarrow> bool" where
  "sessions_wf reg \<longleftrightarrow>
     (\<forall>s ks. reg_session_views reg s = Some ks \<longrightarrow> ks \<noteq> {} \<and> card ks \<le> SESSION_VIEW_CAP)
     \<and> (\<forall>s k. k \<in> session_keys reg s \<longleftrightarrow> (\<exists>r. reg_views reg k = Some r \<and> session_of r = Some s))"

definition sockets_wf :: "view_registry \<Rightarrow> bool" where
  "sockets_wf reg \<longleftrightarrow>
     (\<forall>i sk. reg_sockets reg i = Some sk \<longrightarrow> sock_id sk = i \<and> card (sock_views sk) \<le> TERMINAL_SOCKET_VIEW_CAP
        \<and> (\<forall>vk. sock_viewer_key sk = Some vk \<longrightarrow> fp_key (sock_fingerprint sk) vk)
        \<and> (\<forall>k r. k \<in> sock_views sk \<and> reg_views reg k = Some r \<longrightarrow> vr_fingerprint r = sock_fingerprint sk))
     \<and> (\<forall>i k. k \<in> socket_keys reg i
          \<longleftrightarrow> (\<exists>r. reg_views reg k = Some r \<and> vr_socket_id r = i \<and> \<not> vr_parked r))"

definition claims_wf :: "view_registry \<Rightarrow> bool" where
  "claims_wf reg \<longleftrightarrow> ts_ok (reg_tombstones reg)
     \<and> (\<forall>k t. ts_get (reg_tombstones reg) k = Some t \<longrightarrow> reg_views reg k = None
          \<and> (\<exists>v. is_terminal_uuid v \<and> k = view_key (tb_viewer_key t) v))"

definition reg_wf :: "view_registry \<Rightarrow> bool" where
  "reg_wf reg \<longleftrightarrow> views_wf reg \<and> sessions_wf reg \<and> sockets_wf reg \<and> claims_wf reg"

lemmas wf_defs = reg_wf_def views_wf_def sessions_wf_def sockets_wf_def claims_wf_def

section \<open>Basic facts\<close>

lemma fp_key_takeWhile: "fp_key f vk \<Longrightarrow> f = takeWhile (\<lambda>c. c \<noteq> CHR '':'') vk"
  unfolding fp_key_def by (elim conjE exE, simp, subst takeWhile_append2) auto

lemma fp_key_unique: "fp_key f vk \<Longrightarrow> fp_key f' vk \<Longrightarrow> f = f'"
  by (metis fp_key_takeWhile)

lemma session_of_ok:
  "is_terminal_uuid (intent_session_id (vr_intent r)) \<Longrightarrow>
     session_of r = Some (SessionId (intent_session_id (vr_intent r)))"
  by (simp add: session_of_def session_id_try_from_eq is_terminal_uuid_shape)

lemma record_ok_session: "record_ok k r \<Longrightarrow> session_of r = Some (SessionId (intent_session_id (vr_intent r)))"
  by (simp add: record_ok_def session_of_ok)

lemma reg_wf_new: "reg_wf registry_new"
  by (simp add: wf_defs registry_new_def session_keys_def socket_keys_def ts_ok_new ts_get_def)
    (simp add: tombstone_store_new_def)

lemma wf_record_ok: "reg_wf reg \<Longrightarrow> reg_views reg k = Some r \<Longrightarrow> record_ok k r"
  by (simp add: reg_wf_def views_wf_def)

lemma wf_session_keys_finite: "reg_wf reg \<Longrightarrow> finite (session_keys reg s)"
  by (rule finite_subset [of _ "dom (reg_views reg)"]) (auto simp: wf_defs)

lemma wf_socket_keys_finite: "reg_wf reg \<Longrightarrow> finite (socket_keys reg i)"
  by (rule finite_subset [of _ "dom (reg_views reg)"]) (auto simp: wf_defs)

lemma wf_session_keys_iff:
  "reg_wf reg \<Longrightarrow> k \<in> session_keys reg s \<longleftrightarrow> (\<exists>r. reg_views reg k = Some r \<and> session_of r = Some s)"
  by (simp add: reg_wf_def sessions_wf_def)

lemma wf_socket_keys_iff:
  "reg_wf reg \<Longrightarrow> k \<in> socket_keys reg i
     \<longleftrightarrow> (\<exists>r. reg_views reg k = Some r \<and> vr_socket_id r = i \<and> \<not> vr_parked r)"
  by (simp add: reg_wf_def sockets_wf_def)

lemma sock_views_eq: "reg_sockets reg i = Some sk \<Longrightarrow> sock_views sk = socket_keys reg i"
  by (simp add: socket_keys_def)

lemma wf_owner_fingerprint:
  "reg_wf reg \<Longrightarrow> reg_sockets reg i = Some sk \<Longrightarrow> k \<in> sock_views sk \<Longrightarrow> reg_views reg k = Some r
     \<Longrightarrow> vr_fingerprint r = sock_fingerprint sk"
  unfolding reg_wf_def sockets_wf_def by blast

lemma wf_session_cap: "reg_wf reg \<Longrightarrow> card (session_keys reg s) \<le> SESSION_VIEW_CAP"
  by (auto simp: wf_defs session_keys_def split: option.split)

lemma wf_socket_cap: "reg_wf reg \<Longrightarrow> card (socket_keys reg i) \<le> TERMINAL_SOCKET_VIEW_CAP"
  by (auto simp: wf_defs socket_keys_def split: option.split)

lemma wf_claim_none: "reg_wf reg \<Longrightarrow> reg_views reg k = Some r \<Longrightarrow> ts_get (reg_tombstones reg) k = None"
  by (cases "ts_get (reg_tombstones reg) k") (auto simp: wf_defs)

lemma view_count_eq: "view_count i reg = card (socket_keys reg i)"
  by (simp add: view_count_def socket_keys_def split: option.split)

lemma session_count_eq: "session_count s reg = card (session_keys reg s)"
  by (simp add: session_count_def session_keys_def split: option.split)

section \<open>Dropping a record\<close>

lemma drop_record_views [simp]: "reg_views (drop_record key save now c reg) = (reg_views reg)(key := None)"
  by (auto simp: drop_record_def split: option.split)

lemma drop_record_session_keys:
  assumes "reg_wf reg"
  shows "session_keys (drop_record key save now c reg) s = session_keys reg s - {key}"
proof (cases "reg_views reg key")
  case None
  with assms show ?thesis by (auto simp: drop_record_def wf_defs)
next
  case (Some r)
  have "s = s'" if "key \<in> session_keys reg s" "session_of r = Some s'" for s'
    using assms that Some by (auto simp: wf_defs)
  with Some record_ok_session [OF wf_record_ok [OF assms Some]] show ?thesis
    by (auto simp: drop_record_def session_keys_def unindex_def split: option.splits)
qed

lemma drop_record_session_views:
  assumes "reg_session_views (drop_record key save now c reg) s = Some ks"
  shows "ks \<noteq> {} \<or> reg_session_views reg s = Some ks"
    and "\<exists>ks'. reg_session_views reg s = Some ks' \<and> ks \<subseteq> ks'"
  using assms by (auto simp: drop_record_def unindex_def split: option.splits if_splits)

lemma drop_record_sockets:
  "reg_sockets (drop_record key save now c reg) i =
     map_option (\<lambda>sk. if map_option vr_socket_id (reg_views reg key) = Some i
                       then sk\<lparr>sock_views := sock_views sk - {key}\<rparr> else sk) (reg_sockets reg i)"
  by (auto simp: drop_record_def update_entry_apply option.map_ident split: option.split)

lemma drop_record_socket_keys:
  assumes "reg_wf reg"
  shows "socket_keys (drop_record key save now c reg) i = socket_keys reg i - {key}"
proof -
  have "key \<notin> socket_keys reg i" if "map_option vr_socket_id (reg_views reg key) \<noteq> Some i"
    using assms that by (auto simp: wf_defs)
  then show ?thesis by (auto simp: socket_keys_def drop_record_sockets split: option.split)
qed

lemma drop_record_claims:
  assumes "reg_wf reg"
  shows "claims_wf (drop_record key save now c reg)"
proof (cases "reg_views reg key")
  case None
  with assms show ?thesis by (simp add: drop_record_def reg_wf_def)
next
  case (Some r)
  have ok: "ts_ok (reg_tombstones reg)"
    and cl: "\<forall>k t. ts_get (reg_tombstones reg) k = Some t \<longrightarrow> reg_views reg k = None
          \<and> (\<exists>v. is_terminal_uuid v \<and> k = view_key (tb_viewer_key t) v)"
    using assms by (auto simp: wf_defs)
  have r: "is_terminal_uuid (vr_view_id r)" "key = view_key (vr_viewer_key r) (vr_view_id r)"
    using wf_record_ok [OF assms Some] by (auto simp: record_ok_def)
  let ?Q = "\<lambda>k t. (reg_views reg k = None \<or> k = key) \<and> (\<exists>v. is_terminal_uuid v \<and> k = view_key (tb_viewer_key t) v)"
  have "\<forall>k t. ts_get (ts_retain now key (vr_viewer_key r) revn i (reg_tombstones reg)) k = Some t \<longrightarrow> ?Q k t"
    for revn i
    by (rule claims.retain_keeps_property) (use cl r in auto)
  then have "reg_views reg k = None \<or> k = key" "\<exists>v. is_terminal_uuid v \<and> k = view_key (tb_viewer_key t) v"
    if "ts_get (ts_retain now key (vr_viewer_key r) revn i (reg_tombstones reg)) k = Some t" for revn i k t
    using that by blast+
  with Some cl ok show ?thesis
    by (auto simp: claims_wf_def drop_record_def ts_ok_retain split: prod.splits) blast
qed

lemma drop_record_wf:
  assumes "reg_wf reg"
  shows "reg_wf (drop_record key save now c reg)"
proof -
  let ?reg = "drop_record key save now c reg"
  have "views_wf ?reg" using assms by (auto simp: wf_defs)
  moreover have "sessions_wf ?reg"
    unfolding sessions_wf_def
  proof (intro conjI allI impI)
    fix s ks
    assume ks: "reg_session_views ?reg s = Some ks"
    from drop_record_session_views(2) [OF this] obtain ks'
      where ks': "reg_session_views reg s = Some ks'" "ks \<subseteq> ks'" by blast
    with assms wf_session_keys_finite [OF assms, of s] show "card ks \<le> SESSION_VIEW_CAP"
      by (auto simp: wf_defs session_keys_def intro: order_trans [OF card_mono])
    from drop_record_session_views(1) [OF ks] assms show "ks \<noteq> {}" by (auto simp: wf_defs)
  next
    fix s k
    show "(k \<in> session_keys ?reg s) = (\<exists>r. reg_views ?reg k = Some r \<and> session_of r = Some s)"
      using assms by (auto simp: drop_record_session_keys wf_defs)
  qed
  moreover have "sockets_wf ?reg"
    unfolding sockets_wf_def
  proof (intro conjI allI)
    fix i k
    show "(k \<in> socket_keys ?reg i) = (\<exists>r. reg_views ?reg k = Some r \<and> vr_socket_id r = i \<and> \<not> vr_parked r)"
      using assms by (auto simp: drop_record_socket_keys wf_defs)
  next
    fix i sk
    have "card (sock_views sk' - {key}) \<le> TERMINAL_SOCKET_VIEW_CAP" if "reg_sockets reg i = Some sk'" for sk'
      using assms that by (auto simp: wf_defs intro: order_trans [OF card_Diff1_le])
    with assms show "reg_sockets ?reg i = Some sk \<longrightarrow> sock_id sk = i
        \<and> card (sock_views sk) \<le> TERMINAL_SOCKET_VIEW_CAP
        \<and> (\<forall>vk. sock_viewer_key sk = Some vk \<longrightarrow> fp_key (sock_fingerprint sk) vk)
        \<and> (\<forall>k r. k \<in> sock_views sk \<and> reg_views ?reg k = Some r \<longrightarrow> vr_fingerprint r = sock_fingerprint sk)"
      by (auto simp: drop_record_sockets wf_defs split: if_splits)
  qed
  ultimately show ?thesis using drop_record_claims [OF assms] by (simp add: reg_wf_def)
qed

lemma drop_records_wf:
  "reg_wf reg \<Longrightarrow> reg_wf (foldl (\<lambda>r key. drop_record key save now c r) reg ks)"
  by (induction ks arbitrary: reg) (simp_all add: drop_record_wf)

section \<open>Installing and replacing a record\<close>

lemma put_view_simps [simp]:
  "reg_views (put_view k r reg) = (reg_views reg)(k \<mapsto> r)"
  "reg_sockets (put_view k r reg) = reg_sockets reg"
  "reg_session_views (put_view k r reg) = reg_session_views reg"
  "reg_tombstones (put_view k r reg) = reg_tombstones reg"
  by (simp_all add: put_view_def)

lemma own_key_simps [simp]:
  "reg_views (own_key i k reg) = reg_views reg"
  "reg_session_views (own_key i k reg) = reg_session_views reg"
  "reg_tombstones (own_key i k reg) = reg_tombstones reg"
  "reg_sockets (own_key i k reg) j =
     (if j = i then map_option (\<lambda>sk. sk\<lparr>sock_views := insert k (sock_views sk)\<rparr>) (reg_sockets reg i)
      else reg_sockets reg j)"
  by (simp_all add: own_key_def update_entry_apply)

lemma index_key_simps [simp]:
  "reg_views (index_key s k reg) = reg_views reg"
  "reg_sockets (index_key s k reg) = reg_sockets reg"
  "reg_tombstones (index_key s k reg) = reg_tombstones reg"
  "reg_session_views (index_key s k reg) s' =
     (if s' = s then Some (insert k (session_keys reg s)) else reg_session_views reg s')"
  by (simp_all add: index_key_def session_keys_def)

lemma index_key_present:
  assumes "k \<in> session_keys reg s"
  shows "index_key s k reg = reg"
proof -
  from assms have "(reg_session_views reg)(s \<mapsto> insert k (session_keys reg s)) = reg_session_views reg"
    by (auto simp: session_keys_def insert_absorb split: option.splits)
  then show ?thesis by (simp add: index_key_def session_keys_def)
qed

lemma replace_wf:
  assumes wf: "reg_wf reg" and cur: "reg_views reg key = Some cur" and ok: "record_ok key r"
    and same: "vr_fingerprint r = vr_fingerprint cur" "vr_socket_id r = vr_socket_id cur"
      "vr_parked r = vr_parked cur" "session_of r = session_of cur"
  shows "reg_wf (put_view key r reg)"
proof -
  have "views_wf (put_view key r reg)" using wf ok by (auto simp: wf_defs)
  moreover have "sessions_wf (put_view key r reg)"
    using wf cur same by (auto simp: wf_defs session_keys_def)
  moreover have "sockets_wf (put_view key r reg)"
    using wf cur same by (auto simp: wf_defs socket_keys_def)
  moreover have "claims_wf (put_view key r reg)"
    using wf wf_claim_none [OF wf cur] by (auto simp: wf_defs)
  ultimately show ?thesis by (simp add: reg_wf_def)
qed

lemma install_wf:
  assumes wf: "reg_wf reg" and ok: "record_ok key r" and live: "\<not> vr_parked r" "vr_socket_id r = i"
    and s: "session_of r = Some s" and sk: "reg_sockets reg i = Some sk" "vr_fingerprint r = sock_fingerprint sk"
    and old: "\<And>c. reg_views reg key = Some c \<Longrightarrow> vr_parked c \<and> session_of c = Some s"
    and caps: "card (socket_keys reg i) < TERMINAL_SOCKET_VIEW_CAP"
      "key \<in> session_keys reg s \<or> card (session_keys reg s) < SESSION_VIEW_CAP"
    and claim: "ts_get (reg_tombstones reg) key = None"
  shows "reg_wf (own_key i key (index_key s key (put_view key r reg)))" (is "reg_wf ?reg")
proof -
  have fin: "finite (session_keys reg s)" "finite (socket_keys reg i)"
    using wf by (auto intro: wf_session_keys_finite wf_socket_keys_finite)
  have skeys: "session_keys ?reg s' = (if s' = s then insert key (session_keys reg s) else session_keys reg s')" for s'
    by (simp add: session_keys_def)
  have ikeys: "socket_keys ?reg j = (if j = i then insert key (socket_keys reg i) else socket_keys reg j)" for j
    using sk by (auto simp: socket_keys_def)
  have unowned: "key \<notin> socket_keys reg j" for j
    using wf old by (fastforce simp: reg_wf_def sockets_wf_def)
  have "views_wf ?reg" using wf ok by (auto simp: wf_defs)
  moreover have "sessions_wf ?reg"
    unfolding sessions_wf_def
  proof (intro conjI allI impI)
    fix s' ks
    assume "reg_session_views ?reg s' = Some ks"
    moreover have "card (insert key (session_keys reg s)) \<le> SESSION_VIEW_CAP"
      using wf_session_cap [OF wf, of s] caps(2) fin(1) by (auto simp: card_insert_if)
    ultimately show "ks \<noteq> {}" "card ks \<le> SESSION_VIEW_CAP"
      using wf by (auto simp: wf_defs session_keys_def split: if_splits)
  next
    fix s' k
    have "key \<in> session_keys reg s' \<Longrightarrow> s' = s" using wf old by (fastforce simp: wf_defs)
    with wf s show "(k \<in> session_keys ?reg s') = (\<exists>r. reg_views ?reg k = Some r \<and> session_of r = Some s')"
      by (auto simp: skeys wf_defs)
  qed
  moreover have "sockets_wf ?reg"
    unfolding sockets_wf_def
  proof (intro conjI allI)
    fix j k
    from unowned wf live show "(k \<in> socket_keys ?reg j)
        = (\<exists>r. reg_views ?reg k = Some r \<and> vr_socket_id r = j \<and> \<not> vr_parked r)"
      by (auto simp: ikeys wf_defs)
  next
    fix j sk'
    have "card (insert key (sock_views sk)) \<le> TERMINAL_SOCKET_VIEW_CAP"
      using caps(1) fin(2) sk by (simp add: socket_keys_def card_insert_if)
    moreover have "key \<notin> sock_views sk''" if "reg_sockets reg j = Some sk''" for sk''
      using unowned [of j] that by (simp add: socket_keys_def)
    ultimately show "reg_sockets ?reg j = Some sk' \<longrightarrow> sock_id sk' = j
        \<and> card (sock_views sk') \<le> TERMINAL_SOCKET_VIEW_CAP
        \<and> (\<forall>vk. sock_viewer_key sk' = Some vk \<longrightarrow> fp_key (sock_fingerprint sk') vk)
        \<and> (\<forall>k r. k \<in> sock_views sk' \<and> reg_views ?reg k = Some r \<longrightarrow> vr_fingerprint r = sock_fingerprint sk')"
      using wf sk by (auto simp: wf_defs split: if_splits)
  qed
  moreover have "claims_wf ?reg" using wf claim by (auto simp: wf_defs)
  ultimately show ?thesis by (simp add: reg_wf_def)
qed

section \<open>Commands keep the invariant\<close>

lemma release_fst: "fst (release i c key now (reg, out)) =
    drop_record key True now (Some (cmd_revision c, intent_of c)) reg"
  by (simp add: release_def Let_def)

lemma release_wf: "reg_wf reg \<Longrightarrow> reg_wf (fst (release i c key now (reg, out)))"
  by (simp add: release_fst drop_record_wf)

lemma session_of_intent: "intent_session_id (vr_intent r) = intent_session_id (vr_intent r') \<Longrightarrow> session_of r = session_of r'"
  by (simp add: session_of_def)

lemma update_view_wf:
  assumes wf: "reg_wf reg" and cur: "reg_views reg key = Some cur"
    and v: "validate_view_command vk c = None"
  shows "reg_wf (fst (update_view cl c cur now (reg, out)))"
proof -
  note ok = wf_record_ok [OF wf cur]
  have key: "vr_key cur = key" using ok by (simp add: record_ok_def)
  have renew: "reg_wf (put_view key (cur\<lparr>vr_deadline_ms := d\<rparr>) reg)" for d
    by (rule replace_wf [OF wf cur]) (use ok in \<open>auto simp: record_ok_def record_geometry_def session_of_def\<close>)
  have resize: "reg_wf (put_view key (cur\<lparr>vr_intent := intent_of c, vr_revision := n, vr_deadline_ms := d\<rparr>) reg)"
    if "cmd_session_id c = intent_session_id (vr_intent cur)" "cmd_active c" for n d
    by (rule replace_wf [OF wf cur])
      (use ok v that in \<open>auto simp: record_ok_def record_geometry_def session_of_def validate_view_command_None\<close>)
  show ?thesis
    using wf renew resize by (simp add: update_view_def key Let_def release_wf)
qed

lemma reclaim_wf:
  assumes wf: "reg_wf reg" and cur: "reg_views reg key = Some cur"
    and v: "validate_view_command (Some (caller_viewer_key cl)) c = None"
    and sk: "reg_sockets reg (caller_socket_id cl) = Some sk" "sock_viewer_key sk = Some (caller_viewer_key cl)"
    and key: "key = view_key (caller_viewer_key cl) (cmd_view_id c)"
  shows "reg_wf (fst (reclaim cl c cur key now (reg, out)))"
proof -
  let ?r = "cur\<lparr>vr_socket_id := caller_socket_id cl, vr_intent := intent_of c,
      vr_revision := cmd_revision c, vr_deadline_ms := lease_deadline now,
      vr_parked := False, vr_parked_at_ms := 0, vr_constrains := True\<rparr>"
  note ok = wf_record_ok [OF wf cur]
  have "vr_viewer_key cur = caller_viewer_key cl"
    using view_key_inject [of "vr_view_id cur" "cmd_view_id c"] ok key v
    by (auto simp: record_ok_def validate_view_command_None)
  then have fp: "vr_fingerprint cur = sock_fingerprint sk"
    using ok sk wf by (auto simp: record_ok_def wf_defs intro: fp_key_unique)
  have "reg_wf (own_key (caller_socket_id cl) key (put_view key ?r reg))"
    if same: "cmd_session_id c = intent_session_id (vr_intent cur)" and act: "cmd_active c" and p: "vr_parked cur"
      and cap: "view_count (caller_socket_id cl) reg < TERMINAL_SOCKET_VIEW_CAP"
  proof -
    define s where "s = SessionId (intent_session_id (vr_intent cur))"
    have s: "session_of cur = Some s" "session_of ?r = Some s"
      using record_ok_session [OF ok] same by (auto simp: s_def session_of_def)
    have mem: "key \<in> session_keys reg s" using wf cur s by (auto simp: wf_defs)
    have "reg_wf (own_key (caller_socket_id cl) key (index_key s key (put_view key ?r reg)))"
    proof (rule install_wf [OF wf _ _ _ _ sk(1)])
      show "record_ok key ?r"
        using ok v act same by (auto simp: record_ok_def record_geometry_def validate_view_command_None)
    qed (use s cur p fp mem cap wf_claim_none [OF wf cur] in \<open>auto simp: view_count_eq\<close>)
    moreover have "index_key s key (put_view key ?r reg) = put_view key ?r reg"
      using mem by (intro index_key_present) (simp add: session_keys_def)
    ultimately show ?thesis by simp
  qed
  with wf show ?thesis by (simp add: reclaim_def Let_def release_wf not_le)
qed

lemma tombstones_wf:
  assumes "reg_wf reg" "ts_ok ts"
    and "\<forall>k t. ts_get ts k = Some t \<longrightarrow> reg_views reg k = None \<and> (\<exists>v. is_terminal_uuid v \<and> k = view_key (tb_viewer_key t) v)"
  shows "reg_wf (reg\<lparr>reg_tombstones := ts\<rparr>)"
  using assms by (simp add: wf_defs session_keys_def socket_keys_def)

lemma forget_wf:
  assumes "reg_wf reg"
  shows "reg_wf (reg\<lparr>reg_tombstones := drop_entries P (reg_tombstones reg)\<rparr>)"
  using assms by (intro tombstones_wf) (auto simp: wf_defs ts_ok_drop_entries ts_get_forget)

lemma admit_claim_wf:
  assumes "reg_wf reg" "admit_claim cl c key (reg, out) = Inr reg'"
  shows "reg_wf reg' \<and> ts_get (reg_tombstones reg') key = None \<and> reg_views reg' = reg_views reg
    \<and> reg_sockets reg' = reg_sockets reg \<and> reg_session_views reg' = reg_session_views reg"
proof -
  have "reg_wf (reg\<lparr>reg_tombstones := ts_remove key (reg_tombstones reg)\<rparr>)"
    using assms(1) by (intro tombstones_wf) (auto simp: wf_defs ts_ok_remove claims.get_remove split: if_splits)
  with assms show ?thesis
    by (auto simp: admit_claim_def claims.get_remove split: option.splits if_splits)
qed

lemma admit_wf:
  assumes wf: "reg_wf reg" and none: "reg_views reg key = None"
    and v: "validate_view_command (Some (caller_viewer_key cl)) c = None"
    and sk: "reg_sockets reg (caller_socket_id cl) = Some sk" "sock_viewer_key sk = Some (caller_viewer_key cl)"
      "caller_fingerprint cl = sock_fingerprint sk"
    and key: "key = view_key (caller_viewer_key cl) (cmd_view_id c)"
  shows "reg_wf (fst (admit cl c key now (reg, out)))"
proof (cases "admit_claim cl c key (reg, out)")
  case (Inl settled)
  with wf show ?thesis by (auto simp: admit_def admit_claim_def split: option.splits if_splits)
next
  case (Inr reg')
  note adm = admit_claim_wf [OF wf Inr]
  define s where "s = SessionId (cmd_session_id c)"
  let ?r = "admitted_record cl c key now"
  have uuid: "is_terminal_uuid (cmd_view_id c)" "is_terminal_uuid (cmd_session_id c)"
    using v by (auto simp: validate_view_command_None)
  then have sid: "session_id_try_from (cmd_session_id c) = Inr s"
    by (simp add: session_id_try_from_eq is_terminal_uuid_shape s_def)
  have "reg_wf (own_key (caller_socket_id cl) key (index_key s key (put_view key ?r reg')))"
    if act: "cmd_active c" and caps: "view_count (caller_socket_id cl) reg' < TERMINAL_SOCKET_VIEW_CAP"
      "session_count s reg' < SESSION_VIEW_CAP"
  proof (rule install_wf)
    show "record_ok key ?r"
      using uuid v act key sk wf
      by (auto simp: record_ok_def admitted_record_def record_geometry_def validate_view_command_None wf_defs)
  qed (use adm none sk caps uuid in \<open>auto simp: admitted_record_def view_count_eq session_count_eq session_of_ok s_def\<close>)
  moreover have "reg_wf (reg'\<lparr>reg_tombstones := ts_retain now key (caller_viewer_key cl) n i (reg_tombstones reg')\<rparr>)" for n i
  proof (rule tombstones_wf)
    show "\<forall>k t. ts_get (ts_retain now key (caller_viewer_key cl) n i (reg_tombstones reg')) k = Some t \<longrightarrow>
        reg_views reg' k = None \<and> (\<exists>v. is_terminal_uuid v \<and> k = view_key (tb_viewer_key t) v)"
      by (rule claims.retain_keeps_property) (use adm none key uuid in \<open>auto simp: wf_defs\<close>)
  qed (use adm in \<open>auto simp: wf_defs ts_ok_retain\<close>)
  ultimately show ?thesis using Inr adm sid by (simp add: admit_def Let_def not_le)
qed

lemma handle_view_command_wf:
  assumes "reg_wf reg"
  shows "reg_wf (fst (handle_view_command i c now reg))"
  using assms
  by (auto simp: handle_view_command_def Let_def intro: reclaim_wf update_view_wf admit_wf
      split: option.splits)

section \<open>The socket lifecycle, revocation and the sweep keep the invariant\<close>

lemma close_socket_wf:
  assumes "reg_wf reg"
  shows "reg_wf (close_socket i now reg)"
proof (cases "reg_sockets reg i")
  case None
  with assms show ?thesis by (simp add: close_socket_def)
next
  case (Some sk)
  define park where "park = (\<lambda>k r :: view_record. if k \<in> sock_views sk \<and> vr_socket_id r = i
    then r\<lparr>vr_parked := True, vr_parked_at_ms := now\<rparr> else r)"
  let ?reg = "close_socket i now reg"
  have views: "reg_views ?reg k = map_option (park k) (reg_views reg k)" for k
    using Some by (auto simp: close_socket_def park_def split: option.split)
  have others: "reg_sockets ?reg = (reg_sockets reg)(i := None)" "reg_session_views ?reg = reg_session_views reg"
    "reg_tombstones ?reg = reg_tombstones reg"
    using Some by (simp_all add: close_socket_def)
  have keys: "session_keys ?reg = session_keys reg" "socket_keys ?reg j = (if j = i then {} else socket_keys reg j)" for j
    by (auto simp: session_keys_def socket_keys_def others fun_eq_iff)
  have mem: "k \<in> sock_views sk \<longleftrightarrow> (\<exists>r. reg_views reg k = Some r \<and> vr_socket_id r = i \<and> \<not> vr_parked r)" for k
    using wf_socket_keys_iff [OF assms] by (simp add: sock_views_eq [OF Some])
  have park [simp]: "record_ok k (park k r) = record_ok k r" "session_of (park k r) = session_of r"
    "vr_socket_id (park k r) = vr_socket_id r" "vr_fingerprint (park k r) = vr_fingerprint r"
    "vr_parked (park k r) \<longleftrightarrow> vr_parked r \<or> (k \<in> sock_views sk \<and> vr_socket_id r = i)" for k r
    by (auto simp: park_def record_ok_def record_geometry_def session_of_def)
  have "dom (reg_views ?reg) = dom (reg_views reg)" by (auto simp: views)
  then have "views_wf ?reg" using assms by (auto simp: reg_wf_def views_wf_def views)
  moreover have "sessions_wf ?reg"
    using assms by (auto simp: reg_wf_def sessions_wf_def keys others views)
  moreover have "sockets_wf ?reg"
    using assms mem by (auto simp: reg_wf_def sockets_wf_def keys others views)
  moreover have "claims_wf ?reg" using assms by (simp add: reg_wf_def claims_wf_def others views)
  ultimately show ?thesis by (simp add: reg_wf_def)
qed

lemma close_socket_keys: "socket_keys (close_socket i now reg) i = {}"
  by (simp add: close_socket_def socket_keys_def split: option.split)

lemma register_socket_wf:
  assumes "reg_wf reg" "\<forall>vk. sr_viewer_key g = Some vk \<longrightarrow> fp_key (sr_caller_fingerprint g) vk"
  shows "reg_wf (register_socket g now reg)"
proof -
  let ?c = "close_socket (sr_socket_id g) now reg"
  let ?reg = "register_socket g now reg"
  have wf: "reg_wf ?c" by (rule close_socket_wf [OF assms(1)])
  have keys: "socket_keys ?reg j = socket_keys ?c j" for j
    using close_socket_keys [of "sr_socket_id g" now reg] by (auto simp: register_socket_def socket_keys_def Let_def)
  have "sockets_wf ?reg"
    using wf assms(2) unfolding sockets_wf_def keys
    by (auto simp: register_socket_def Let_def reg_wf_def sockets_wf_def)
  with wf show ?thesis
    by (simp add: reg_wf_def views_wf_def sessions_wf_def claims_wf_def register_socket_def Let_def session_keys_def)
qed

lemma set_session_allowed_wf:
  assumes "reg_wf reg"
  shows "reg_wf (set_session_allowed i s b reg)"
proof -
  let ?reg = "set_session_allowed i s b reg"
  have "socket_keys ?reg j = socket_keys reg j" for j
    by (auto simp: socket_keys_def set_session_allowed_def update_entry_apply split: option.split)
  with assms have "sockets_wf ?reg"
    unfolding sockets_wf_def
    by (auto simp: reg_wf_def sockets_wf_def set_session_allowed_def update_entry_apply split: if_splits)
  with assms show ?thesis
    by (simp add: reg_wf_def views_wf_def sessions_wf_def claims_wf_def set_session_allowed_def session_keys_def)
qed

lemma foldl_drop_views:
  "reg_views (foldl (\<lambda>r key. drop_record key save now c r) reg ks) k =
     (if k \<in> set ks then None else reg_views reg k)"
  by (induction ks arbitrary: reg) auto

lemma foldl_drop_fingerprint:
  assumes "reg_sockets (foldl (\<lambda>r key. drop_record key save now c r) reg ks) i = Some sk"
  shows "\<exists>sk'. reg_sockets reg i = Some sk' \<and> sock_fingerprint sk = sock_fingerprint sk'"
  using assms
  by (induction ks arbitrary: reg) (fastforce simp: drop_record_sockets split: if_splits)+

lemma remove_fingerprint_wf:
  assumes "reg_wf reg" "set keys = dom (reg_views reg)"
  shows "reg_wf (fst (remove_fingerprint keys fp reg))"
proof -
  define doomed where "doomed = filter (\<lambda>key. map_option vr_fingerprint (reg_views reg key) = Some fp) keys"
  define mid where "mid = foldl (\<lambda>r key. drop_record key False 0 None r) reg doomed"
  have wf: "reg_wf mid" unfolding mid_def by (rule drop_records_wf [OF assms(1)])
  have fps: "vr_fingerprint r \<noteq> fp" if "reg_views mid k = Some r" for k r
    using that assms(2) by (auto simp: mid_def foldl_drop_views doomed_def split: if_splits)
  let ?socks = "\<lambda>i. case reg_sockets mid i of None \<Rightarrow> None | Some sk \<Rightarrow> if sock_fingerprint sk \<noteq> fp then Some sk else None"
  let ?reg = "mid\<lparr>reg_sockets := ?socks\<rparr>"
  have "socket_keys ?reg i = socket_keys mid i" for i
  proof (cases "reg_sockets mid i")
    case (Some sk)
    have "sock_views sk = {}" if "sock_fingerprint sk = fp"
    proof (rule equals0I)
      fix k
      assume k: "k \<in> sock_views sk"
      with Some wf obtain r where r: "reg_views mid k = Some r"
        by (auto simp: sock_views_eq wf_socket_keys_iff)
      from wf_owner_fingerprint [OF wf Some k r] fps [OF r] that show False by simp
    qed
    with Some show ?thesis by (simp add: socket_keys_def)
  qed (simp add: socket_keys_def)
  with wf have "sockets_wf ?reg"
    unfolding sockets_wf_def by (auto simp: reg_wf_def sockets_wf_def split: option.splits if_splits)
  with wf have "reg_wf ?reg"
    by (simp add: reg_wf_def views_wf_def sessions_wf_def claims_wf_def session_keys_def)
  moreover have "fst (remove_fingerprint keys fp reg) =
      ?reg\<lparr>reg_tombstones := drop_entries (\<lambda>t. owned_by fp (tb_viewer_key t)) (reg_tombstones ?reg)\<rparr>"
    unfolding remove_fingerprint_def Let_def ts_remove_viewer_def fst_conv
      doomed_def [symmetric] mid_def [symmetric]
    by (rule view_registry.equality) simp_all
  ultimately show ?thesis by (simp only: forget_wf)
qed

lemma close_session_wf:
  assumes "reg_wf reg"
  shows "reg_wf (fst (close_session s reg))"
proof -
  define mid where "mid = foldl (\<lambda>r key. drop_record key False 0 None r) reg (sorted_list_of_set (session_keys reg s))"
  have wf: "reg_wf mid" unfolding mid_def by (rule drop_records_wf [OF assms])
  have "reg_views mid k = (if k \<in> session_keys reg s then None else reg_views reg k)" for k
    using wf_session_keys_finite [OF assms, of s] by (simp add: mid_def foldl_drop_views)
  then have "session_keys mid s = {}"
    by (auto simp: wf_session_keys_iff [OF wf] wf_session_keys_iff [OF assms] split: if_splits)
  then have "reg_session_views mid s = None"
    using wf by (cases "reg_session_views mid s") (auto simp: reg_wf_def sessions_wf_def session_keys_def)
  then have "mid\<lparr>reg_session_views := (reg_session_views mid)(s := None)\<rparr> = mid" by (simp add: fun_upd_idem)
  moreover have "mid = (case reg_session_views reg s of None \<Rightarrow> reg | Some keys \<Rightarrow>
      foldl (\<lambda>r key. drop_record key False 0 None r) reg (sorted_list_of_set keys))"
    by (simp add: mid_def session_keys_def split: option.split)
  ultimately show ?thesis
    using forget_wf [OF wf, of "\<lambda>t. intent_session_id (tb_intent t) = session_id_str s"]
    by (simp add: close_session_def Let_def ts_remove_session_def)
qed

lemma sweep_step_wf: "reg_wf (fst st) \<Longrightarrow> reg_wf (fst (sweep_step now st key))"
proof (cases st)
  case (Pair reg out)
  assume "reg_wf (fst st)"
  with Pair have wf: "reg_wf reg" by simp
  show ?thesis
  proof (cases "reg_views reg key")
    case (Some r)
    have "reg_wf (put_view key (r\<lparr>vr_constrains := False\<rparr>) reg)"
      by (rule replace_wf [OF wf Some])
        (use wf_record_ok [OF wf Some] in \<open>auto simp: record_ok_def record_geometry_def session_of_def\<close>)
    with wf Some Pair show ?thesis
      by (simp add: sweep_step_def sweep_lapse_def Let_def drop_record_wf update_entry_def put_view_def)
  qed (use wf Pair in \<open>simp add: sweep_step_def\<close>)
qed

lemma sweep_fold_wf: "reg_wf (fst st) \<Longrightarrow> reg_wf (fst (foldl (sweep_step now) st keys))"
  by (induction keys arbitrary: st) (simp_all add: sweep_step_wf)

lemma sweep_wf: "reg_wf reg \<Longrightarrow> reg_wf (fst (sweep keys now reg))"
  using sweep_fold_wf [of "(reg, outcome_default)" now keys]
  by (auto simp: sweep_def ts_expire_def split: prod.split intro: forget_wf)

section \<open>Every run keeps the invariant\<close>

text \<open>
  The calls a host makes. A walk over the record map carries its iteration order as a function from
  the key set to a list of it; a registration binds a socket's viewer key to its verified
  fingerprint, as the hosts build it.
\<close>

datatype registry_op =
    OpRegister socket_registration nat
  | OpCloseSocket string nat
  | OpCommand string terminal_view_command nat
  | OpRevoke "string set \<Rightarrow> string list" string
  | OpCloseSession session_id
  | OpSweep "string set \<Rightarrow> string list" nat
  | OpAllow string string bool

fun exec_op :: "registry_op \<Rightarrow> view_registry \<Rightarrow> view_registry" where
  "exec_op (OpRegister g now) reg = register_socket g now reg"
| "exec_op (OpCloseSocket i now) reg = close_socket i now reg"
| "exec_op (OpCommand i c now) reg = fst (handle_view_command i c now reg)"
| "exec_op (OpRevoke walk fp) reg = fst (remove_fingerprint (walk (dom (reg_views reg))) fp reg)"
| "exec_op (OpCloseSession s) reg = fst (close_session s reg)"
| "exec_op (OpSweep walk now) reg = fst (sweep (walk (dom (reg_views reg))) now reg)"
| "exec_op (OpAllow i s b) reg = set_session_allowed i s b reg"

definition walks :: "(string set \<Rightarrow> string list) \<Rightarrow> bool" where
  "walks f \<longleftrightarrow> (\<forall>S. finite S \<longrightarrow> set (f S) = S)"

fun op_admissible :: "registry_op \<Rightarrow> bool" where
  "op_admissible (OpRegister g now) \<longleftrightarrow>
     (\<forall>vk. sr_viewer_key g = Some vk \<longrightarrow> fp_key (sr_caller_fingerprint g) vk)"
| "op_admissible (OpRevoke walk fp) \<longleftrightarrow> walks walk"
| "op_admissible _ \<longleftrightarrow> True"

lemma wf_finite_views: "reg_wf reg \<Longrightarrow> finite (dom (reg_views reg))"
  by (simp add: reg_wf_def views_wf_def)

lemma exec_op_wf: "reg_wf reg \<Longrightarrow> op_admissible p \<Longrightarrow> reg_wf (exec_op p reg)"
  by (cases p) (auto simp: register_socket_wf close_socket_wf handle_view_command_wf close_session_wf
      sweep_wf set_session_allowed_wf walks_def wf_finite_views intro!: remove_fingerprint_wf)

interpretation registry: invariant_machine reg_wf op_admissible exec_op
  by unfold_locales (rule exec_op_wf)

definition socket_example :: socket_registration where
  "socket_example = \<lparr>sr_socket_id = ''s1'', sr_viewer_key = Some ''ab:1'', sr_caller_fingerprint = ''ab'',
     sr_session_ids = {''3f2504e0-4f89-41d3-9a0c-0305e82c3301''}\<rparr>"

definition command_example :: "nat \<Rightarrow> bool \<Rightarrow> terminal_view_command" where
  "command_example revision active = \<lparr>cmd_view_id = ''00000000-0000-4000-8000-000000000001'',
     cmd_session_id = ''3f2504e0-4f89-41d3-9a0c-0305e82c3301'', cmd_cols = 80, cmd_rows = 24,
     cmd_revision = revision, cmd_active = active, cmd_domain_generation = 0\<rparr>"

lemma socket_example_admissible: "op_admissible (OpRegister socket_example now)"
  by (simp add: socket_example_def fp_key_def)

text \<open>
  C1: From the empty registry, no sequence of registrations, closes, commands, revocations, session
  closes, sweeps and allowance changes leaves the three indexes in disagreement: each session's key
  set is exactly its records and never more than the cap on views of a session, each socket's key set
  exactly the live records it owns and never more than the cap on views of a socket, every record is an
  active declaration with an admissible geometry, and no key is at once a record and a retained claim. The
  sequences meant (\<open>op_admissible\<close>) register a socket only under a viewer key of its caller's verified
  fingerprint, as the handshake does, and walk the records in a revocation in some order that visits all
  of them, as an iteration over the map does. Nothing is claimed of the cap on retained claims per viewer,
  which does not hold (\<open>viewer_cap_bypass\<close> in \<open>View_Claims\<close>).
\<close>

theorem registry_invariant:
  assumes "list_all op_admissible ops"
  shows "reg_wf (fold exec_op ops registry_new)"
  using reg_wf_new assms by (rule registry.run_invar)

theorem registry_invariant_witness:
  "reg_wf (fold exec_op [OpRegister socket_example 0, OpCommand ''s1'' (command_example 1 True) 10,
     OpCloseSocket ''s1'' 20, OpSweep sorted_list_of_set 30] registry_new)"
  by (rule registry_invariant) (use socket_example_admissible in simp)

end
