(* ===== verification/View_Behaviour.thy ===== *)
theory View_Behaviour
  imports View_Invariant
begin

text \<open>
  What the membership machine promises its clients and its host: the answer each command gets, what
  an acceptance and a refusal mean for the registry, the revision guard a released claim keeps, and
  what revocation, session close and the sweep leave behind.
\<close>

section \<open>The paths of a command\<close>

lemma outcome_simps [simp]:
  "out_replies outcome_default = []" "out_calls outcome_default = []" "out_changed outcome_default = {}"
  "out_replies (mark_changed s out) = out_replies out" "out_replies (push_call c out) = out_replies out"
  "out_calls (mark_changed s out) = out_calls out" "out_calls (push_call c out) = out_calls out @ [c]"
  "out_changed (mark_changed s out) = insert s (out_changed out)"
  "out_changed (push_call c out) = out_changed out"
  by (simp_all add: outcome_default_def mark_changed_def push_call_def)

lemma reply_simps [simp]:
  "out_replies (refuse i c m out) = out_replies out @
     [ReplyCommand i (cmd_view_id c) (cmd_session_id c) (cmd_revision c) (cmd_active c) Rejected m]"
  "out_replies (accept_inactive i c out) = out_replies out @
     [ReplyCommand i (cmd_view_id c) (cmd_session_id c) (cmd_revision c) False Accepted '''']"
  "out_replies (answer_view r st m out) = out_replies out @
     [ReplyView (vr_socket_id r) (vr_view_id r) (intent_session_id (vr_intent r)) (vr_revision r) st m]"
  "out_changed (refuse i c m out) = out_changed out" "out_calls (refuse i c m out) = out_calls out"
  "out_changed (accept_inactive i c out) = out_changed out" "out_calls (accept_inactive i c out) = out_calls out"
  "out_changed (answer_view r st m out) = out_changed out" "out_calls (answer_view r st m out) = out_calls out"
  by (simp_all add: refuse_def accept_inactive_def answer_view_def)

text \<open>Which branch a registered, validated and allowed command takes.\<close>

lemma handle_cases:
  assumes "reg_sockets reg i = Some sk"
  obtains
    (invalid) m where "handle_view_command i c now reg = (reg, refuse i c m outcome_default)"
  | (reclaim) vk cur where "validate_view_command (Some vk) c = None" "sock_viewer_key sk = Some vk"
      "allows sk (cmd_session_id c)"
      "reg_views reg (view_key vk (cmd_view_id c)) = Some cur" "vr_socket_id cur \<noteq> i"
      "handle_view_command i c now reg = reclaim \<lparr>caller_socket_id = i, caller_viewer_key = vk,
         caller_fingerprint = sock_fingerprint sk\<rparr> c cur (view_key vk (cmd_view_id c)) now (reg, outcome_default)"
  | (update) vk cur where "validate_view_command (Some vk) c = None" "sock_viewer_key sk = Some vk"
      "allows sk (cmd_session_id c)"
      "reg_views reg (view_key vk (cmd_view_id c)) = Some cur" "vr_socket_id cur = i"
      "handle_view_command i c now reg = update_view \<lparr>caller_socket_id = i, caller_viewer_key = vk,
         caller_fingerprint = sock_fingerprint sk\<rparr> c cur now (reg, outcome_default)"
  | (admit) vk where "validate_view_command (Some vk) c = None" "sock_viewer_key sk = Some vk"
      "allows sk (cmd_session_id c)"
      "reg_views reg (view_key vk (cmd_view_id c)) = None"
      "handle_view_command i c now reg = admit \<lparr>caller_socket_id = i, caller_viewer_key = vk,
         caller_fingerprint = sock_fingerprint sk\<rparr> c (view_key vk (cmd_view_id c)) now (reg, outcome_default)"
proof (cases "\<exists>m. handle_view_command i c now reg = (reg, refuse i c m outcome_default)")
  case True
  then show thesis using invalid by blast
next
  case False
  then have v: "validate_view_command (sock_viewer_key sk) c = None" "allows sk (cmd_session_id c)"
    using assms by (auto simp: handle_view_command_def split: option.splits if_splits)
  then obtain vk where vk: "sock_viewer_key sk = Some vk"
    by (cases "sock_viewer_key sk") (auto simp: validate_view_command_def)
  show thesis
  proof (cases "reg_views reg (view_key vk (cmd_view_id c))")
    case None
    with assms v vk show thesis by (intro admit) (simp_all add: handle_view_command_def)
  next
    case (Some cur)
    show thesis
    proof (cases "vr_socket_id cur = i")
      case True
      with Some assms v vk show thesis by (intro update) (simp_all add: handle_view_command_def)
    next
      case False
      with Some assms v vk show thesis by (intro reclaim) (simp_all add: handle_view_command_def)
    qed
  qed
qed

lemma admit_claim_Inl:
  assumes "admit_claim cl c key (reg, out) = Inl st"
  shows "fst st = reg \<and> (\<exists>m. snd st = refuse (caller_socket_id cl) c m out
    \<or> (snd st = accept_inactive (caller_socket_id cl) c out \<and> \<not> cmd_active c
       \<and> (\<exists>t. ts_get (reg_tombstones reg) key = Some t \<and> tb_revision t = cmd_revision c \<and> tb_intent t = intent_of c)))"
  using assms by (auto simp: admit_claim_def intents_equal_iff split: option.splits if_splits)

lemma admit_claim_keys:
  assumes "admit_claim cl c key (reg, out) = Inr reg'"
  shows "reg_views reg' = reg_views reg \<and> reg_sockets reg' = reg_sockets reg
    \<and> reg_session_views reg' = reg_session_views reg"
  using assms by (auto simp: admit_claim_def split: option.splits if_splits)

section \<open>One answer per command\<close>

definition answers :: "string \<Rightarrow> terminal_view_command \<Rightarrow> pending_reply \<Rightarrow> bool" where
  "answers i c p \<longleftrightarrow> reply_socket_id p = i \<and> reply_view_id p = cmd_view_id c
     \<and> reply_session_id p = cmd_session_id c \<and> reply_revision p = cmd_revision c
     \<and> reply_status p \<in> {Accepted, Rejected}"

lemma release_replies:
  "out_replies (snd (release i c key now (reg, out))) = out_replies out @
     [ReplyCommand i (cmd_view_id c) (cmd_session_id c) (cmd_revision c) False Accepted '''']"
  by (simp add: release_def Let_def split: option.split)

lemma owner_view_id:
  assumes "reg_wf reg" "validate_view_command vk' c = None" "reg_views reg (view_key vk (cmd_view_id c)) = Some cur"
  shows "vr_view_id cur = cmd_view_id c \<and> vr_key cur = view_key vk (cmd_view_id c) \<and> vr_viewer_key cur = vk"
  using wf_record_ok [OF assms(1,3)] assms(2) view_key_inject [of "vr_view_id cur" "cmd_view_id c" "vr_viewer_key cur" vk]
  by (auto simp: record_ok_def validate_view_command_None)

lemma handle_answers:
  assumes wf: "reg_wf reg" and sk: "reg_sockets reg i = Some sk"
  shows "\<exists>p. out_replies (snd (handle_view_command i c now reg)) = [p] \<and> answers i c p"
  using sk
proof (cases rule: handle_cases [of reg i sk c now])
  case (invalid m)
  then show ?thesis by (simp add: answers_def)
next
  case (reclaim vk cur)
  then show ?thesis
    using owner_view_id [OF wf reclaim(1,4)]
    by (auto simp: reclaim_def Let_def release_replies answers_def split: option.split)
next
  case (update vk cur)
  then show ?thesis
    using owner_view_id [OF wf update(1,4)]
    by (auto simp: update_view_def Let_def release_replies answers_def intents_equal_iff intent_of_def split: option.split)
next
  case (admit vk)
  have "\<exists>s. session_id_try_from (cmd_session_id c) = Inr s"
    using admit(1) by (simp add: validate_view_command_None session_id_try_from_eq is_terminal_uuid_shape)
  with admit show ?thesis
    by (auto simp: admit_def Let_def answers_def admitted_record_def split: sum.split dest!: admit_claim_Inl)
qed

text \<open>
  Every command from a registered socket gets exactly one answer: it is addressed to that
  socket, it names the command's view, session and revision, and it is an acceptance or a refusal.
  A command from a socket that is not registered changes nothing and is not answered.
\<close>

theorem command_answered_once:
  assumes "reg_wf reg"
  shows "(case reg_sockets reg i of
            None \<Rightarrow> handle_view_command i c now reg = (reg, outcome_default)
          | Some sk \<Rightarrow> \<exists>p. out_replies (snd (handle_view_command i c now reg)) = [p] \<and> answers i c p)"
  using handle_answers [OF assms] by (simp add: handle_view_command_def split: option.split)

theorem command_answered_once_witness:
  "\<exists>p. out_replies (snd (handle_view_command ''s1'' (command_example 1 True) 10
      (register_socket socket_example 0 registry_new))) = [p] \<and> answers ''s1'' (command_example 1 True) p"
proof -
  have "reg_wf (register_socket socket_example 0 registry_new)"
    using exec_op_wf [OF reg_wf_new socket_example_admissible] by simp
  from command_answered_once [OF this, of "''s1''" "command_example 1 True" 10] show ?thesis
    by (simp add: register_socket_def Let_def socket_example_def)
qed

section \<open>Refusal and acceptance\<close>

definition verdict :: "view_registry \<times> membership_outcome \<Rightarrow> terminal_view_status option" where
  "verdict st = (case out_replies (snd st) of [p] \<Rightarrow> Some (reply_status p) | _ \<Rightarrow> None)"

definition renewable :: "view_record option \<Rightarrow> view_record option" where
  "renewable = map_option (\<lambda>r. r\<lparr>vr_deadline_ms := 0\<rparr>)"

definition same_membership :: "view_registry \<Rightarrow> view_registry \<Rightarrow> bool" where
  "same_membership reg reg' \<longleftrightarrow> reg_sockets reg' = reg_sockets reg
     \<and> reg_session_views reg' = reg_session_views reg
     \<and> (\<forall>k. renewable (reg_views reg' k) = renewable (reg_views reg k))"

lemma same_membership_refl [simp]: "same_membership reg reg"
  by (simp add: same_membership_def)

lemma verdict_simps [simp]:
  "verdict (r, refuse i c m outcome_default) = Some Rejected"
  "verdict (r, accept_inactive i c outcome_default) = Some Accepted"
  "verdict (release i c key now (reg, outcome_default)) = Some Accepted"
  by (simp_all add: verdict_def release_replies)

lemma verdict_answer [simp]:
  "out_replies out = [] \<Longrightarrow> verdict (r, answer_view rc st m out) = Some st"
  "out_replies out = [] \<Longrightarrow> verdict (r, accept_inactive i c out) = Some Accepted"
  by (simp_all add: verdict_def)

lemma handle_rejected:
  assumes wf: "reg_wf reg" and sk: "reg_sockets reg i = Some sk"
    and rej: "verdict (handle_view_command i c now reg) = Some Rejected"
  shows "same_membership reg (fst (handle_view_command i c now reg))
    \<and> out_changed (snd (handle_view_command i c now reg)) = {}
    \<and> out_calls (snd (handle_view_command i c now reg)) = []"
  using sk
proof (cases rule: handle_cases [of reg i sk c now])
  case (invalid m)
  then show ?thesis by simp
next
  case (reclaim vk cur)
  with rej show ?thesis
    by (auto simp: reclaim_def Let_def split: if_splits option.splits)
next
  case (update vk cur)
  have key: "vr_key cur = view_key vk (cmd_view_id c)" using owner_view_id [OF wf update(1,4)] by simp
  from update rej show ?thesis
    by (auto simp: update_view_def Let_def key same_membership_def renewable_def split: if_splits option.splits)
next
  case (admit vk)
  show ?thesis
  proof (cases "admit_claim \<lparr>caller_socket_id = i, caller_viewer_key = vk,
         caller_fingerprint = sock_fingerprint sk\<rparr> c (view_key vk (cmd_view_id c)) (reg, outcome_default)")
    case (Inl st)
    from admit_claim_Inl [OF Inl] Inl admit(5) show ?thesis by (cases st) (auto simp: admit_def)
  next
    case (Inr reg')
    from admit_claim_keys [OF Inr] Inr admit(5) rej show ?thesis
      by (auto simp: admit_def Let_def same_membership_def verdict_def split: if_splits sum.splits)
  qed
qed

text \<open>
  A refused command leaves membership as it was: no socket, session index or record changes,
  except that the owning socket's own record may have its lease renewed (a conflicting declaration
  at the current revision still proves liveness), and the host is asked for no effect and no
  re-minimisation. (Retained claims are not membership: a capacity refusal has already consumed the
  claim under its own key.)
\<close>

theorem refusal_keeps_membership:
  assumes "reg_wf reg" "verdict (handle_view_command i c now reg) = Some Rejected"
  shows "same_membership reg (fst (handle_view_command i c now reg))
    \<and> out_changed (snd (handle_view_command i c now reg)) = {}
    \<and> out_calls (snd (handle_view_command i c now reg)) = []"
proof (cases "reg_sockets reg i")
  case None
  then show ?thesis by (simp add: handle_view_command_def)
next
  case (Some sk)
  with assms show ?thesis using handle_rejected by blast
qed

lemma example_wf: "reg_wf (register_socket socket_example now registry_new)"
  using exec_op_wf [OF reg_wf_new socket_example_admissible] by simp

lemma example_socket:
  "reg_sockets (register_socket socket_example now registry_new) ''s1'' =
     Some \<lparr>sock_id = ''s1'', sock_viewer_key = Some ''ab:1'', sock_fingerprint = ''ab'',
           sock_allowed_sessions = {''3f2504e0-4f89-41d3-9a0c-0305e82c3301''}, sock_views = {}\<rparr>"
  by (simp add: register_socket_def socket_example_def Let_def)

lemma example_uuids:
  "is_terminal_uuid ''00000000-0000-4000-8000-000000000001''"
  "is_terminal_uuid ''3f2504e0-4f89-41d3-9a0c-0305e82c3301''"
  by (simp_all add: is_terminal_uuid_def UUID_LEN_def is_uuid_version_def is_uuid_variant_def
        is_ascii_hexdigit_def is_ascii_digit_def is_lower_hex_alpha_def enumerate_eq_zip upt_rec)

lemma example_valid: "1 \<le> n \<Longrightarrow> validate_view_command (Some vk) (command_example n a) = None"
  by (simp add: validate_view_command_None command_example_def example_uuids is_terminal_geometry_def viewport_limits)

theorem refusal_keeps_membership_witness:
  "same_membership (register_socket socket_example 0 registry_new)
     (fst (handle_view_command ''s1'' (command_example 0 True) 10 (register_socket socket_example 0 registry_new)))"
proof -
  have "verdict (handle_view_command ''s1'' (command_example 0 True) 10
      (register_socket socket_example 0 registry_new)) = Some Rejected"
    by (simp add: handle_view_command_def example_socket validate_view_command_def command_example_def example_uuids)
  from refusal_keeps_membership [OF example_wf this] show ?thesis by simp
qed

definition holds_view :: "view_registry \<Rightarrow> string \<Rightarrow> string \<Rightarrow> terminal_view_command \<Rightarrow> nat \<Rightarrow> bool" where
  "holds_view reg vk i c now \<longleftrightarrow> (\<exists>r. reg_views reg (view_key vk (cmd_view_id c)) = Some r
     \<and> vr_intent r = intent_of c \<and> vr_revision r = cmd_revision c \<and> vr_socket_id r = i
     \<and> vr_deadline_ms r = lease_deadline now)"

definition holds_claim :: "view_registry \<Rightarrow> string \<Rightarrow> terminal_view_command \<Rightarrow> bool" where
  "holds_claim reg vk c \<longleftrightarrow> reg_views reg (view_key vk (cmd_view_id c)) = None
     \<and> (\<exists>t. ts_get (reg_tombstones reg) (view_key vk (cmd_view_id c)) = Some t
          \<and> tb_revision t = cmd_revision c \<and> tb_intent t = intent_of c)"

lemma release_holds_claim:
  assumes "reg_wf reg" "reg_views reg (view_key vk (cmd_view_id c)) = Some cur"
  shows "holds_claim (fst (release i c (view_key vk (cmd_view_id c)) now (reg, out))) vk c"
proof -
  have "ts_ok (reg_tombstones reg)" using assms(1) by (simp add: wf_defs)
  then show ?thesis
    using assms(2) by (simp add: release_fst holds_claim_def)
      (simp add: drop_record_def ts_retain_found claim_of_def)
qed

lemma handle_accepted:
  assumes wf: "reg_wf reg" and sk: "reg_sockets reg i = Some sk" "sock_viewer_key sk = Some vk"
    and acc: "verdict (handle_view_command i c now reg) = Some Accepted"
  shows "if cmd_active c then holds_view (fst (handle_view_command i c now reg)) vk i c now
         else holds_claim (fst (handle_view_command i c now reg)) vk c"
  using sk(1)
proof (cases rule: handle_cases [of reg i sk c now])
  case (invalid m)
  with acc show ?thesis by simp
next
  case (reclaim vk' cur)
  with sk acc release_holds_claim [OF wf reclaim(4), of i now outcome_default] show ?thesis
    by (auto simp: reclaim_def Let_def holds_view_def split: if_splits)
next
  case (update vk' cur)
  have key: "vr_key cur = view_key vk' (cmd_view_id c)" using owner_view_id [OF wf update(1,4)] by simp
  have act: "intent_active (vr_intent cur)" using wf_record_ok [OF wf update(4)] by (simp add: record_ok_def)
  from update sk acc release_holds_claim [OF wf update(4), of i now outcome_default] show ?thesis
    by (auto simp: update_view_def Let_def holds_view_def key intents_equal_iff dest: arg_cong [of _ _ intent_active]
        simp: act split: if_splits)
next
  case (admit vk')
  let ?cl = "\<lparr>caller_socket_id = i, caller_viewer_key = vk', caller_fingerprint = sock_fingerprint sk\<rparr>"
  show ?thesis
  proof (cases "admit_claim ?cl c (view_key vk' (cmd_view_id c)) (reg, outcome_default)")
    case (Inl st)
    from admit_claim_Inl [OF Inl] Inl admit sk acc show ?thesis
      by (cases st) (auto simp: admit_def holds_claim_def)
  next
    case (Inr reg')
    from admit_claim_wf [OF wf Inr] have "ts_ok (reg_tombstones reg')" "reg_views reg' = reg_views reg"
      by (auto simp: wf_defs)
    with Inr admit sk acc show ?thesis
      by (auto simp: admit_def Let_def holds_view_def holds_claim_def admitted_record_def ts_retain_found
          claim_of_def verdict_def split: if_splits sum.splits)
  qed
qed

text \<open>
  C27: An acceptance is true. When an active declaration is accepted the registry holds the view
  under the caller's key with exactly the declared session and geometry, at the declared revision,
  owned by the calling socket, with a full lease from now; when an inactive one is accepted no
  record is left and a claim at that revision with that intent is retained.
\<close>

theorem acceptance_is_true:
  assumes "reg_wf reg" "reg_sockets reg i = Some sk" "sock_viewer_key sk = Some vk"
    "verdict (handle_view_command i c now reg) = Some Accepted"
  shows "if cmd_active c then holds_view (fst (handle_view_command i c now reg)) vk i c now
         else holds_claim (fst (handle_view_command i c now reg)) vk c"
  using assms by (rule handle_accepted)

lemma example_admit:
  assumes "1 \<le> n"
  shows "verdict (handle_view_command ''s1'' (command_example n a) now
           (register_socket socket_example 0 registry_new)) = Some Accepted"
proof -
  have "session_id_try_from (cmd_session_id (command_example n a)) =
      Inr (SessionId ''3f2504e0-4f89-41d3-9a0c-0305e82c3301'')"
    using example_uuids by (simp add: command_example_def session_id_try_from_eq is_terminal_uuid_shape)
  moreover have "reg_views (register_socket socket_example 0 registry_new) = Map.empty"
    "reg_tombstones (register_socket socket_example 0 registry_new) = tombstone_store_new"
    "reg_session_views (register_socket socket_example 0 registry_new) = Map.empty"
    by (simp_all add: register_socket_def Let_def close_socket_def registry_new_def)
  ultimately show ?thesis
    using example_valid [OF assms, of "''ab:1''" a]
    by (simp add: handle_view_command_def example_socket allows_def command_example_def admit_def admit_claim_def
        ts_get_def tombstone_store_new_def view_count_def session_count_def Let_def
        TERMINAL_SOCKET_VIEW_CAP_def SESSION_VIEW_CAP_def)
qed

theorem acceptance_is_true_witness:
  "holds_view (fst (handle_view_command ''s1'' (command_example 1 True) 10
     (register_socket socket_example 0 registry_new))) ''ab:1'' ''s1'' (command_example 1 True) 10"
  using acceptance_is_true [OF example_wf example_socket _ example_admit [of 1 True 10], of "''ab:1''"]
  by (simp add: command_example_def)

section \<open>The revision guard of a released view\<close>

lemma claim_guards:
  assumes sk: "reg_sockets reg i = Some sk" "sock_viewer_key sk = Some vk"
    and claim: "holds_claim reg vk c" "\<not> cmd_active c"
    and c': "cmd_view_id c' = cmd_view_id c" "cmd_active c'" "cmd_revision c' \<le> cmd_revision c"
  shows "verdict (handle_view_command i c' now reg) = Some Rejected"
  using sk(1)
proof (cases rule: handle_cases [of reg i sk c' now])
  case (invalid m)
  then show ?thesis by simp
next
  case (reclaim vk' cur)
  with sk claim c' show ?thesis by (simp add: holds_claim_def)
next
  case (update vk' cur)
  with sk claim c' show ?thesis by (simp add: holds_claim_def)
next
  case (admit vk')
  from claim obtain t where "ts_get (reg_tombstones reg) (view_key vk (cmd_view_id c)) = Some t"
    "tb_revision t = cmd_revision c" "\<not> intent_active (tb_intent t)"
    by (auto simp: holds_claim_def)
  moreover from this c' have "\<not> intents_equal (tb_intent t) (intent_of c')"
    by (auto simp: intents_equal_def)
  ultimately show ?thesis
    using admit sk c' by (auto simp: admit_def admit_claim_def)
qed

text \<open>
  A released view is not revived by a stale declaration: once an inactive declaration at
  revision n has been accepted, the same tab's next active declaration of that view is refused
  unless its revision is greater than n.
\<close>

theorem released_view_not_revived:
  assumes wf: "reg_wf reg" and sk: "reg_sockets reg i = Some sk" "sock_viewer_key sk = Some vk"
    and released: "\<not> cmd_active c" "verdict (handle_view_command i c now reg) = Some Accepted"
    and later: "reg_sockets (fst (handle_view_command i c now reg)) j = Some sk'" "sock_viewer_key sk' = Some vk"
    and stale: "cmd_view_id c' = cmd_view_id c" "cmd_active c'" "cmd_revision c' \<le> cmd_revision c"
  shows "verdict (handle_view_command j c' now' (fst (handle_view_command i c now reg))) = Some Rejected"
proof -
  have "holds_claim (fst (handle_view_command i c now reg)) vk c"
    using handle_accepted [OF wf sk released(2)] released(1) by simp
  from claim_guards [OF later this released(1) stale] show ?thesis .
qed

theorem released_view_not_revived_witness:
  "verdict (handle_view_command ''s1'' (command_example 5 True) 20
     (fst (handle_view_command ''s1'' (command_example 5 False) 10
        (register_socket socket_example 0 registry_new)))) = Some Rejected"
proof (rule released_view_not_revived [OF example_wf example_socket _ _ example_admit])
  let ?reg = "register_socket socket_example 0 registry_new"
  have "reg_sockets (fst (handle_view_command ''s1'' (command_example 5 False) 10 ?reg)) = reg_sockets ?reg"
    using example_valid [of 5 "''ab:1''" False]
    by (simp add: handle_view_command_def example_socket command_example_def admit_def admit_claim_def
        allows_def register_socket_def Let_def close_socket_def registry_new_def ts_get_def
        tombstone_store_new_def socket_example_def)
  then show "reg_sockets (fst (handle_view_command ''s1'' (command_example 5 False) 10 ?reg)) ''s1'' =
     Some \<lparr>sock_id = ''s1'', sock_viewer_key = Some ''ab:1'', sock_fingerprint = ''ab'',
           sock_allowed_sessions = {''3f2504e0-4f89-41d3-9a0c-0305e82c3301''}, sock_views = {}\<rparr>"
    by (simp add: example_socket)
qed (simp_all add: command_example_def)

section \<open>Revocation, the sweep and the effective geometry\<close>

lemma fp_key_owned: "fp_key fp vk \<Longrightarrow> owned_by fp vk"
  by (auto simp: fp_key_def owned_by_def)

text \<open>
  C35: Revoking a device removes everything it held: no record, no socket and no retained claim of
  any of its tabs is left, every session it was viewing is named for re-minimisation, and the
  records of every other device are untouched.
\<close>

theorem revocation_complete:
  assumes wf: "reg_wf reg" and keys: "set keys = dom (reg_views reg)"
  shows "(\<forall>k r. reg_views (fst (remove_fingerprint keys fp reg)) k = Some r
              \<longleftrightarrow> reg_views reg k = Some r \<and> vr_fingerprint r \<noteq> fp)
    \<and> (\<forall>i sk. reg_sockets (fst (remove_fingerprint keys fp reg)) i = Some sk \<longrightarrow> sock_fingerprint sk \<noteq> fp)
    \<and> (\<forall>k t. ts_get (reg_tombstones (fst (remove_fingerprint keys fp reg))) k = Some t
              \<longrightarrow> \<not> fp_key fp (tb_viewer_key t))
    \<and> out_changed (snd (remove_fingerprint keys fp reg))
        = {s. \<exists>k r. reg_views reg k = Some r \<and> vr_fingerprint r = fp \<and> session_of r = Some s}"
proof (intro conjI allI impI)
  fix k r
  show "reg_views (fst (remove_fingerprint keys fp reg)) k = Some r
      \<longleftrightarrow> reg_views reg k = Some r \<and> vr_fingerprint r \<noteq> fp"
    using keys by (auto simp: remove_fingerprint_def Let_def foldl_drop_views)
next
  fix i sk
  assume "reg_sockets (fst (remove_fingerprint keys fp reg)) i = Some sk"
  then show "sock_fingerprint sk \<noteq> fp"
    by (auto simp: remove_fingerprint_def Let_def split: option.splits if_splits)
next
  fix k t
  assume "ts_get (reg_tombstones (fst (remove_fingerprint keys fp reg))) k = Some t"
  then show "\<not> fp_key fp (tb_viewer_key t)"
    by (auto simp: remove_fingerprint_def Let_def ts_remove_viewer_def dest: claims.forget_forgets fp_key_owned)
next
  show "out_changed (snd (remove_fingerprint keys fp reg))
      = {s. \<exists>k r. reg_views reg k = Some r \<and> vr_fingerprint r = fp \<and> session_of r = Some s}"
    using keys by (fastforce simp: remove_fingerprint_def Let_def doomed_sessions_def map_filter_set
        bind_eq_Some_conv)
qed

theorem revocation_complete_witness:
  "reg_sockets (fst (remove_fingerprint [] ''ab'' (register_socket socket_example 0 registry_new))) ''s1'' = None"
proof -
  have "set [] = dom (reg_views (register_socket socket_example 0 registry_new))"
    by (simp add: register_socket_def Let_def close_socket_def registry_new_def)
  from revocation_complete [OF example_wf this, of "''ab''"]
  have "\<forall>sk. reg_sockets (fst (remove_fingerprint [] ''ab'' (register_socket socket_example 0 registry_new))) ''s1''
      = Some sk \<longrightarrow> sock_fingerprint sk \<noteq> ''ab''" by blast
  then show ?thesis by (auto simp: remove_fingerprint_def Let_def example_socket)
qed

definition swept :: "nat \<Rightarrow> view_record option \<Rightarrow> view_record option" where
  "swept now v = (case v of None \<Rightarrow> None
     | Some r \<Rightarrow> if vr_deadline_ms r \<le> now then None
                 else Some (r\<lparr>vr_constrains := vr_constrains r \<and> view_constrains r now\<rparr>))"

lemma swept_idem [simp]: "swept now (swept now v) = swept now v"
  by (auto simp: swept_def view_constrains_def split: option.split)

lemma sweep_step_views:
  "reg_views (fst (sweep_step now st key)) = (reg_views (fst st))(key := swept now (reg_views (fst st) key))"
proof (cases st)
  case (Pair reg out)
  then show ?thesis
    by (cases "reg_views reg key") (auto simp: sweep_step_def sweep_lapse_def swept_def Let_def update_entry_def fun_upd_idem)
qed

lemma sweep_fold_views:
  "reg_views (fst (foldl (sweep_step now) st keys)) k =
     (if k \<in> set keys then swept now (reg_views (fst st) k) else reg_views (fst st) k)"
  by (induction keys arbitrary: st) (auto simp: sweep_step_views)

lemma sweep_step_changed:
  "out_changed (snd (sweep_step now st key)) = out_changed (snd st) \<union>
     {s. \<exists>r. reg_views (fst st) key = Some r \<and> swept now (Some r) \<noteq> Some r \<and> session_of r = Some s}"
proof (cases st)
  case (Pair reg out)
  show ?thesis
  proof (cases "reg_views reg key")
    case (Some r)
    have "r\<lparr>vr_constrains := b\<rparr> = r \<longleftrightarrow> vr_constrains r = b" for b by (cases r) auto
    with Pair Some show ?thesis
      by (auto simp: sweep_step_def sweep_lapse_def swept_def Let_def not_le split: option.splits)
  qed (use Pair in \<open>simp add: sweep_step_def\<close>)
qed

lemma sweep_fold_changed:
  "distinct keys \<Longrightarrow> out_changed (snd (foldl (sweep_step now) st keys)) = out_changed (snd st) \<union>
     {s. \<exists>k \<in> set keys. \<exists>r. reg_views (fst st) k = Some r \<and> swept now (Some r) \<noteq> Some r \<and> session_of r = Some s}"
proof (induction keys arbitrary: st)
  case (Cons key keys)
  then have "reg_views (fst (sweep_step now st key)) k = reg_views (fst st) k" if "k \<in> set keys" for k
    using that by (auto simp: sweep_step_views)
  with Cons show ?case by (auto simp: sweep_step_changed)
qed simp

text \<open>
  One sweep tick does its whole job whatever order it walks the records in: exactly the records
  whose lease has lapsed are gone, every other record is kept and is marked as binding only if it
  still binds the PTY, no lapsed claim is left, and the sessions reported as changed are exactly
  those that lost a record or a binding.
\<close>

theorem sweep_complete:
  assumes "set keys = dom (reg_views reg)" "distinct keys"
  shows "(\<forall>k. reg_views (fst (sweep keys now reg)) k = swept now (reg_views reg k))
    \<and> (\<forall>k t. ts_get (reg_tombstones (fst (sweep keys now reg))) k = Some t \<longrightarrow> now < tb_expires_ms t)
    \<and> out_changed (snd (sweep keys now reg))
        = {s. \<exists>k r. reg_views reg k = Some r \<and> swept now (Some r) \<noteq> Some r \<and> session_of r = Some s}"
proof (intro conjI allI impI)
  fix k
  have "swept now None = None" by (simp add: swept_def)
  then show "reg_views (fst (sweep keys now reg)) k = swept now (reg_views reg k)"
    using assms(1) sweep_fold_views [of now "(reg, outcome_default)" keys k]
    by (cases "reg_views reg k") (auto simp: sweep_def split: prod.split)
next
  fix k t
  assume "ts_get (reg_tombstones (fst (sweep keys now reg))) k = Some t"
  then show "now < tb_expires_ms t"
    by (auto simp: sweep_def ts_expire_def split: prod.splits dest!: claims.forget_forgets)
next
  show "out_changed (snd (sweep keys now reg))
      = {s. \<exists>k r. reg_views reg k = Some r \<and> swept now (Some r) \<noteq> Some r \<and> session_of r = Some s}"
  proof -
    have "{s. \<exists>k \<in> dom (reg_views reg). \<exists>r. reg_views reg k = Some r \<and> swept now (Some r) \<noteq> Some r \<and> session_of r = Some s}
        = {s. \<exists>k r. reg_views reg k = Some r \<and> swept now (Some r) \<noteq> Some r \<and> session_of r = Some s}"
      unfolding dom_def by blast
    then show ?thesis
      using assms(1) sweep_fold_changed [OF assms(2), of now "(reg, outcome_default)"]
      by (simp add: sweep_def case_prod_beta)
  qed
qed

theorem sweep_complete_witness:
  "reg_views (fst (sweep [''k''] 20000 (put_view ''k'' (admitted_record \<lparr>caller_socket_id = ''s1'',
     caller_viewer_key = ''ab:1'', caller_fingerprint = ''ab''\<rparr> (command_example 1 True) ''k'' 0) registry_new))) ''k'' = None"
  using sweep_complete [of "[''k'']" "put_view ''k'' (admitted_record \<lparr>caller_socket_id = ''s1'',
     caller_viewer_key = ''ab:1'', caller_fingerprint = ''ab''\<rparr> (command_example 1 True) ''k'' 0) registry_new" 20000]
  by (simp add: registry_new_def swept_def admitted_record_def lease_deadline_def saturating_add64_def
      TERMINAL_VIEW_LEASE_MS_def)

definition binding_records :: "view_registry \<Rightarrow> session_id \<Rightarrow> nat \<Rightarrow> view_record set" where
  "binding_records reg s now = {r. \<exists>k. reg_views reg k = Some r \<and> session_of r = Some s \<and> view_constrains r now}"

lemma session_records_set:
  assumes "reg_wf reg"
  shows "set (records_in_order (reg_views reg) (reg_session_views reg s))
    = {r. \<exists>k. reg_views reg k = Some r \<and> session_of r = Some s}"
proof -
  have "set (records_in_order (reg_views reg) (reg_session_views reg s))
      = {r. \<exists>k \<in> session_keys reg s. reg_views reg k = Some r}"
    using wf_session_keys_finite [OF assms, of s]
    by (cases "reg_session_views reg s") (auto simp: records_in_order_set session_keys_def)
  then show ?thesis using wf_session_keys_iff [OF assms] by fastforce
qed

text \<open>
  C26: The geometry a session's PTY is given is the specification's: over all records of that session
  that bind at this instant, whichever socket or device declared them, it is the smallest width and
  the smallest height; with none it is absent; and no state of the registry makes it refused.
\<close>

theorem effective_geometry_correct:
  assumes "reg_wf reg"
  shows "minimum_terminal_geometry (gs_live (registry_geometry_set s now reg)) =
     Ok (if binding_records reg s now = {} then None
         else Some \<lparr>geo_cols = Min ((\<lambda>r. intent_cols (vr_intent r)) ` binding_records reg s now),
                    geo_rows = Min ((\<lambda>r. intent_rows (vr_intent r)) ` binding_records reg s now)\<rparr>)"
proof -
  let ?gs = "gs_live (registry_geometry_set s now reg)"
  have set_gs: "set ?gs = record_geometry ` binding_records reg s now"
    using session_records_set [OF assms, of s]
    by (auto simp: registry_geometry_set_def geometry_set_def Let_def binding_records_def)
  have "list_all is_terminal_geometry ?gs"
    using wf_record_ok [OF assms] unfolding list_all_iff set_gs
    by (auto simp: binding_records_def record_ok_def)
  moreover have "?gs = [] \<longleftrightarrow> binding_records reg s now = {}"
    by (metis image_is_empty set_empty set_gs)
  moreover have "minimum_terminal_geometry [] = Ok None" by (simp add: minimum_terminal_geometry_def)
  ultimately show ?thesis
    using minimum_terminal_geometry_eq [of ?gs]
    by (auto simp: set_gs image_image record_geometry_def)
qed

theorem effective_geometry_correct_witness:
  "minimum_terminal_geometry (gs_live (registry_geometry_set (SessionId ''x'') 7 registry_new)) = Ok None"
  using effective_geometry_correct [OF reg_wf_new, of "SessionId ''x''" 7]
  by (simp add: binding_records_def registry_new_def)

lemma update_accepted:
  assumes "verdict (update_view cl c cur now (reg, outcome_default)) = Some Accepted" "cmd_active c"
  shows "\<exists>r. reg_views (fst (update_view cl c cur now (reg, outcome_default))) (vr_key cur) = Some r
    \<and> vr_intent r = intent_of c \<and> vr_deadline_ms r = lease_deadline now \<and> vr_parked r = vr_parked cur
    \<and> vr_parked_at_ms r = vr_parked_at_ms cur"
proof (cases "cmd_revision c" "vr_revision cur" rule: linorder_cases)
  case less
  with assms show ?thesis by (simp add: update_view_def)
next
  case equal
  with assms show ?thesis
    by (cases "vr_intent cur = intent_of c") (simp_all add: update_view_def Let_def intents_equal_iff)
next
  case greater
  with assms show ?thesis
    by (cases "cmd_session_id c = intent_session_id (vr_intent cur)") (simp_all add: update_view_def Let_def)
qed

text \<open>
  A socket that is registered again under its old id keeps its views parked: every later
  declaration of such a view from that socket is answered by the update path, which renews the lease
  and adopts the geometry but never unparks, so one park grace after the registration the accepted,
  heartbeating view no longer binds the PTY.
\<close>

theorem reregistered_view_stays_parked:
  assumes wf: "reg_wf reg" and cur: "reg_views reg (view_key vk (cmd_view_id c)) = Some cur"
    and live: "\<not> vr_parked cur" "vr_socket_id cur = sr_socket_id g"
    and g: "sr_viewer_key g = Some vk"
    and reg2: "reg2 = register_socket g t1 reg"
    and acc: "cmd_active c" "verdict (handle_view_command (sr_socket_id g) c t2 reg2) = Some Accepted"
    and late: "t1 + TERMINAL_VIEW_PARK_GRACE_MS \<le> t"
  shows "\<exists>r. reg_views (fst (handle_view_command (sr_socket_id g) c t2 reg2)) (view_key vk (cmd_view_id c)) = Some r
    \<and> vr_intent r = intent_of c \<and> vr_deadline_ms r = lease_deadline t2 \<and> \<not> view_constrains r t"
proof -
  let ?i = "sr_socket_id g" and ?k = "view_key vk (cmd_view_id c)"
  define par where "par = cur\<lparr>vr_parked := True, vr_parked_at_ms := t1\<rparr>"
  have mem: "?k \<in> socket_keys reg ?i" using wf_socket_keys_iff [OF wf] cur live by auto
  then obtain sk where "reg_sockets reg ?i = Some sk" "?k \<in> sock_views sk"
    by (auto simp: socket_keys_def split: option.splits)
  with cur live have par: "reg_views reg2 ?k = Some par"
    by (simp add: reg2 register_socket_def Let_def close_socket_def par_def)
  have sk2: "reg_sockets reg2 ?i = Some \<lparr>sock_id = ?i, sock_viewer_key = Some vk,
      sock_fingerprint = sr_caller_fingerprint g, sock_allowed_sessions = sr_session_ids g, sock_views = {}\<rparr>"
    using g by (simp add: reg2 register_socket_def Let_def)
  have key: "vr_key par = ?k" using wf_record_ok [OF wf cur] by (simp add: par_def record_ok_def)
  have own: "vr_socket_id par = ?i" "vr_parked par" "vr_parked_at_ms par = t1"
    using live by (simp_all add: par_def)
  have lapse: "\<not> view_constrains r t" if "vr_parked r" "vr_parked_at_ms r = t1" for r
    using that late saturating_add64_le [of t1 TERMINAL_VIEW_PARK_GRACE_MS]
    by (auto simp: view_constrains_def)
  from sk2 show ?thesis
  proof (cases rule: handle_cases [of reg2 ?i _ c t2])
    case (update vk' cur')
    with par have "cur' = par" by simp
    with update(6) acc own key update_accepted show ?thesis by (metis lapse)
  next
    case (invalid m)
    with acc show ?thesis by simp
  next
    case (reclaim vk' cur')
    with par own show ?thesis by simp
  next
    case (admit vk')
    with par show ?thesis by simp
  qed
qed

definition reregister_example :: view_registry where
  "reregister_example = fst (handle_view_command ''s1'' (command_example 1 True) 10
     (register_socket socket_example 0 registry_new))"

lemma reregister_example_view:
  defines "k \<equiv> view_key ''ab:1'' (cmd_view_id (command_example 1 True))"
  shows "reg_views reregister_example k = Some (admitted_record \<lparr>caller_socket_id = ''s1'',
      caller_viewer_key = ''ab:1'', caller_fingerprint = ''ab''\<rparr> (command_example 1 True) k 10)"
    and "\<exists>sk. reg_sockets reregister_example ''s1'' = Some sk \<and> k \<in> sock_views sk"
proof -
  let ?init = "register_socket socket_example 0 registry_new" and ?c = "command_example 1 True"
  have init: "reg_views ?init = Map.empty" "reg_tombstones ?init = tombstone_store_new"
    "reg_session_views ?init = Map.empty"
    by (simp_all add: register_socket_def Let_def close_socket_def registry_new_def)
  have "session_id_try_from (cmd_session_id ?c) = Inr (SessionId (cmd_session_id ?c))"
    using example_uuids by (simp add: command_example_def session_id_try_from_eq is_terminal_uuid_shape)
  moreover have "validate_view_command (Some ''ab:1'') ?c = None" by (rule example_valid) simp
  moreover have "cmd_active ?c" "cmd_session_id ?c = ''3f2504e0-4f89-41d3-9a0c-0305e82c3301''"
    by (simp_all add: command_example_def)
  ultimately show "reg_views reregister_example k = Some (admitted_record \<lparr>caller_socket_id = ''s1'',
      caller_viewer_key = ''ab:1'', caller_fingerprint = ''ab''\<rparr> ?c k 10)"
    "\<exists>sk. reg_sockets reregister_example ''s1'' = Some sk \<and> k \<in> sock_views sk"
    using init
    by (simp_all add: reregister_example_def handle_view_command_def example_socket allows_def admit_def
        admit_claim_def ts_get_def tombstone_store_new_def view_count_def session_count_def Let_def
        TERMINAL_SOCKET_VIEW_CAP_def SESSION_VIEW_CAP_def k_def)
qed

theorem reregistered_view_stays_parked_witness:
  "\<exists>r. reg_views (fst (handle_view_command ''s1'' (command_example 1 True) 2000
            (register_socket socket_example 100 reregister_example)))
         (view_key ''ab:1'' (cmd_view_id (command_example 1 True))) = Some r
       \<and> vr_deadline_ms r = lease_deadline 2000 \<and> \<not> view_constrains r 2100"
proof -
  let ?c = "command_example 1 True" and ?reg = "register_socket socket_example 100 reregister_example"
  have wf: "reg_wf reregister_example"
    unfolding reregister_example_def by (rule handle_view_command_wf [OF example_wf])
  have sid: "sr_socket_id socket_example = ''s1''" "sr_viewer_key socket_example = Some ''ab:1''"
    "sr_session_ids socket_example = {cmd_session_id ?c}"
    by (simp_all add: socket_example_def command_example_def)
  have "validate_view_command (Some ''ab:1'') ?c = None" by (rule example_valid) simp
  then have "verdict (handle_view_command ''s1'' ?c 2000 ?reg) = Some Accepted"
    using reregister_example_view sid
    by (elim exE conjE) (simp add: handle_view_command_def register_socket_def close_socket_def Let_def allows_def
        update_view_def admitted_record_def intents_equal_iff)
  with reregistered_view_stays_parked [OF wf reregister_example_view(1), of socket_example ?reg 100 2000 2100] sid
  show ?thesis
    by (auto simp: admitted_record_def TERMINAL_VIEW_PARK_GRACE_MS_def command_example_def)
qed

end
