(* ===== verification/Cell_Types.thy ===== *)
theory Cell_Types
  imports Viewport
begin

text \<open>
  The cell-grid value model (\<open>cell/types.rs\<close>, \<open>cell/types/image_placement.rs\<close>,
  \<open>cell/types/mouse_tracking.rs\<close>, \<open>cell/row_mark.rs\<close>): spans, rows and frames, and the one
  conversion between text offsets and grid columns. Text is the list of its Unicode scalar values,
  which is how the source walks it; \<open>utf8_len\<close> is its encoded size.
\<close>

type_synonym scalars = "nat list"

section \<open>Values\<close>

definition MAX_LINK_URI_BYTES :: nat where "MAX_LINK_URI_BYTES = 2048"
definition MAX_IMAGE_PLACEMENTS :: nat where "MAX_IMAGE_PLACEMENTS = 256"

definition PROMPT :: nat where "PROMPT = 1"
definition OUTPUT :: nat where "OUTPUT = 2"
definition EXIT_OK :: nat where "EXIT_OK = 4"
definition EXIT_FAILED :: nat where "EXIT_FAILED = 8"

unbundle bit_operations_syntax

definition KNOWN :: nat where "KNOWN = PROMPT OR OUTPUT OR EXIT_OK OR EXIT_FAILED"

record cell_span =
  sp_text :: scalars
  sp_fg :: nat
  sp_bg :: nat
  sp_flags :: nat
  sp_fg_rgb :: "nat option"
  sp_bg_rgb :: "nat option"
  sp_columns :: nat
  sp_link_uri :: "scalars option"
  sp_link_key :: "scalars option"

record cell_row =
  row_index :: nat
  row_spans :: "cell_span list"
  row_mark :: nat

definition cell_row_new :: "nat \<Rightarrow> cell_span list \<Rightarrow> cell_row" where
  "cell_row_new index spans = \<lparr>row_index = index, row_spans = spans, row_mark = 0\<rparr>"

definition cell_row_with_mark :: "nat \<Rightarrow> cell_span list \<Rightarrow> nat \<Rightarrow> cell_row" where
  "cell_row_with_mark index spans mark =
     \<lparr>row_index = index, row_spans = spans, row_mark = mark AND KNOWN\<rparr>"

record column_range =
  cr_col :: nat
  cr_columns :: nat

record image_placement =
  ip_image_key :: nat
  ip_row :: nat
  ip_col :: nat
  ip_columns :: nat
  ip_rows :: nat
  ip_source_x :: nat
  ip_source_y :: nat
  ip_source_width :: nat
  ip_source_height :: nat
  ip_image_width :: nat
  ip_image_height :: nat
  ip_offset_x_px :: nat
  ip_offset_y_px :: nat
  ip_z_index :: int

datatype mouse_tracking = TrackNone | PressRelease | ButtonMotion | TrackUnknown nat

fun mouse_tracking_to_u32 :: "mouse_tracking \<Rightarrow> nat" where
  "mouse_tracking_to_u32 TrackNone = 0"
| "mouse_tracking_to_u32 PressRelease = 1000"
| "mouse_tracking_to_u32 ButtonMotion = 1002"
| "mouse_tracking_to_u32 (TrackUnknown raw) = raw"

definition mouse_tracking_from_u32 :: "nat \<Rightarrow> mouse_tracking" where
  "mouse_tracking_from_u32 raw =
     (if raw = 0 then TrackNone else if raw = 1000 then PressRelease
      else if raw = 1002 then ButtonMotion else TrackUnknown raw)"

definition as_mouse_tracking :: "nat \<Rightarrow> mouse_tracking" where
  "as_mouse_tracking raw =
     (case mouse_tracking_from_u32 raw of TrackUnknown _ \<Rightarrow> TrackNone | mode \<Rightarrow> mode)"

record cell_grid_frame =
  fr_stream_id :: string
  fr_grid_epoch :: string
  fr_cols :: nat
  fr_rows :: nat
  fr_cursor_row :: nat
  fr_cursor_col :: nat
  fr_cursor_visible :: bool
  fr_alt_screen :: bool
  fr_cursor_keys_app :: bool
  fr_bracketed_paste :: bool
  fr_mouse_tracking :: mouse_tracking
  fr_mouse_sgr :: bool
  fr_focus_events :: bool
  fr_kitty_keyboard_flags :: nat
  fr_full :: bool
  fr_viewport_rows :: "cell_row list"
  fr_scrollback_rows :: "cell_row list"
  fr_scrollback_append :: "cell_row list"
  fr_scrollback_total :: nat
  fr_sb_base :: nat
  fr_base_seq :: nat
  fr_seq :: nat
  fr_image_placements :: "image_placement list option"

section \<open>Columns and text offsets\<close>

definition len_utf8 :: "nat \<Rightarrow> nat" where
  "len_utf8 c = (if c < 0x80 then 1 else if c < 0x800 then 2 else if c < 0x10000 then 3 else 4)"

definition utf8_len :: "scalars \<Rightarrow> nat" where
  "utf8_len s = sum_list (map len_utf8 s)"

fun link_uri_loop :: "nat \<Rightarrow> scalars \<Rightarrow> bool" where
  "link_uri_loop bytes [] = True"
| "link_uri_loop bytes (c # cs) =
     (if MAX_LINK_URI_BYTES < bytes + len_utf8 c then False else link_uri_loop (bytes + len_utf8 c) cs)"

definition link_uri_within_cap :: "scalars \<Rightarrow> bool" where
  "link_uri_within_cap uri \<longleftrightarrow>
     (if MAX_LINK_URI_BYTES < utf8_len uri then False
      else if utf8_len uri * 3 \<le> MAX_LINK_URI_BYTES then True
      else link_uri_loop 0 uri)"

definition scalar_count :: "cell_span \<Rightarrow> nat" where
  "scalar_count sp = length (sp_text sp)"

definition joins_grapheme :: "nat \<Rightarrow> bool" where
  "joins_grapheme c \<longleftrightarrow>
     0xffff < c \<or> (0x0300 \<le> c \<and> c \<le> 0x036f) \<or> (0x1ab0 \<le> c \<and> c \<le> 0x1aff)
     \<or> (0x1dc0 \<le> c \<and> c \<le> 0x1dff) \<or> (0x20d0 \<le> c \<and> c \<le> 0x20ff)
     \<or> (0xfe00 \<le> c \<and> c \<le> 0xfe0f) \<or> (0xfe20 \<le> c \<and> c \<le> 0xfe2f)
     \<or> (0xe0100 \<le> c \<and> c \<le> 0xe01ef) \<or> (0x1f1e6 \<le> c \<and> c \<le> 0x1f1ff)
     \<or> (0x200c \<le> c \<and> c \<le> 0x200d) \<or> (0x1f3fb \<le> c \<and> c \<le> 0x1f3ff)"

definition span_is_atomic :: "cell_span \<Rightarrow> bool" where
  "span_is_atomic sp \<longleftrightarrow>
     (if sp_columns sp \<noteq> scalar_count sp then True else list_ex joins_grapheme (sp_text sp))"

definition row_columns :: "cell_span list \<Rightarrow> nat" where
  "row_columns spans = min (sum_list (map sp_columns spans)) u32_max"

definition spans_text :: "cell_span list \<Rightarrow> scalars" where
  "spans_text spans = concat (map sp_text spans)"

fun columns_walk :: "nat \<Rightarrow> nat \<Rightarrow> cell_span list \<Rightarrow> nat \<Rightarrow> nat \<times> nat" where
  "columns_walk pos col [] offset = (col, col)"
| "columns_walk pos col (sp # spans) offset =
     (if offset = pos then (col, col)
      else
        let next = pos + scalar_count sp
        in if offset < next then
             (if span_is_atomic sp then (col, col + sp_columns sp)
              else let inside = col + (offset - pos) in (inside, inside))
           else columns_walk next (saturating_add32 col (sp_columns sp)) spans offset)"

definition columns_at_offset :: "cell_span list \<Rightarrow> nat \<Rightarrow> nat \<times> nat" where
  "columns_at_offset spans offset = columns_walk 0 0 spans offset"

definition text_offset_to_column :: "cell_span list \<Rightarrow> nat \<Rightarrow> nat" where
  "text_offset_to_column spans offset = fst (columns_at_offset spans offset)"

definition text_offset_to_column_end :: "cell_span list \<Rightarrow> nat \<Rightarrow> nat" where
  "text_offset_to_column_end spans offset = snd (columns_at_offset spans offset)"

definition text_range_to_columns :: "cell_span list \<Rightarrow> nat \<Rightarrow> nat \<Rightarrow> column_range" where
  "text_range_to_columns spans offset len =
     (let col = text_offset_to_column spans offset
      in if len = 0 then \<lparr>cr_col = col, cr_columns = 0\<rparr>
         else let end = text_offset_to_column_end spans (offset + len)
              in \<lparr>cr_col = col, cr_columns = max (end - col) 1\<rparr>)"

fun column_span_walk :: "int \<Rightarrow> cell_span list \<Rightarrow> int \<Rightarrow> (cell_span \<times> nat) option" where
  "column_span_walk pos [] col = None"
| "column_span_walk pos (sp # spans) col =
     (let next = pos + int (sp_columns sp)
      in if col < next then Some (sp, nat (col - pos)) else column_span_walk next spans col)"

definition column_span :: "cell_span list \<Rightarrow> int \<Rightarrow> (cell_span \<times> nat) option" where
  "column_span spans col = (if col < 0 then None else column_span_walk 0 spans col)"

definition column_text :: "cell_span list \<Rightarrow> int \<Rightarrow> scalars" where
  "column_text spans col =
     (case column_span spans col of
        None \<Rightarrow> []
      | Some (sp, offset) \<Rightarrow>
          if span_is_atomic sp then sp_text sp
          else if offset < length (sp_text sp) then [sp_text sp ! offset] else [])"

section \<open>The row contract\<close>

definition span_path :: "nat \<Rightarrow> nat \<Rightarrow> string" where
  "span_path index position = ''cell_row['' @ show_nat index @ ''].spans['' @ show_nat position @ '']''"

definition assert_span_link :: "string \<Rightarrow> cell_span \<Rightarrow> unit protocol_result" where
  "assert_span_link path sp =
     (case sp_link_uri sp of
        Some uri \<Rightarrow>
          if uri = [] then Err (ProtocolError (path @ ''.link_uri''))
          else if \<not> link_uri_within_cap uri then Err (ProtocolError (path @ ''.link_uri''))
          else if \<not> (case sp_link_key sp of None \<Rightarrow> False | Some key \<Rightarrow> key \<noteq> [])
            then Err (ProtocolError (path @ ''.link_key''))
          else Ok ()
      | None \<Rightarrow>
          if sp_link_key sp \<noteq> None then Err (ProtocolError (path @ ''.link_key'')) else Ok ())"

definition assert_span :: "nat \<Rightarrow> nat \<Rightarrow> nat \<times> cell_span \<Rightarrow> nat protocol_result" where
  "assert_span index columns = (\<lambda>(position, sp).
     let path = span_path index position
     in if sp_columns sp < 1 then Err (ProtocolError (path @ ''.columns''))
        else if sp_text sp = [] then Err (ProtocolError (path @ ''.text''))
        else res_bind (assert_span_link path sp) (\<lambda>_. Ok (columns + sp_columns sp)))"

definition assert_cell_row_spans :: "cell_row \<Rightarrow> nat \<Rightarrow> unit protocol_result" where
  "assert_cell_row_spans row max_columns =
     res_bind (fold_res (assert_span (row_index row)) 0 (List.enumerate 0 (row_spans row))) (\<lambda>columns.
       if 0 < max_columns \<and> max_columns < columns
       then Err (ProtocolError (''cell_row['' @ show_nat (row_index row) @ ''].spans''))
       else Ok ())"

section \<open>Lemmas on columns\<close>

abbreviation span_cols :: "cell_span list \<Rightarrow> nat" where
  "span_cols spans \<equiv> sum_list (map sp_columns spans)"

lemma KNOWN_mask [simp]: "n AND KNOWN = n mod 16"
proof -
  have "KNOWN = mask 4"
    by (simp add: KNOWN_def PROMPT_def OUTPUT_def EXIT_OK_def EXIT_FAILED_def mask_eq_exp_minus_1)
  then have "n AND KNOWN = take_bit 4 n" by (simp only: take_bit_eq_mask)
  then show ?thesis by (simp add: take_bit_eq_mod)
qed

lemma link_uri_loop_iff: "link_uri_loop n cs \<longleftrightarrow> cs = [] \<or> n + utf8_len cs \<le> MAX_LINK_URI_BYTES"
  by (induction n cs rule: link_uri_loop.induct) (auto simp: utf8_len_def)

lemma link_uri_within_cap_iff: "link_uri_within_cap uri \<longleftrightarrow> utf8_len uri \<le> MAX_LINK_URI_BYTES"
  by (auto simp: link_uri_within_cap_def link_uri_loop_iff)

lemma narrow_columns: "\<not> span_is_atomic s \<Longrightarrow> sp_columns s = length (sp_text s)"
  by (simp add: span_is_atomic_def scalar_count_def split: if_splits)

lemma spans_text_simps [simp]:
  "spans_text [] = []"
  "spans_text (s # ss) = sp_text s @ spans_text ss"
  "spans_text (ss @ tt) = spans_text ss @ spans_text tt"
  by (simp_all add: spans_text_def)

text \<open>Where a text offset falls: the span that holds it and the columns before that span.\<close>

definition falls_in :: "cell_span list \<Rightarrow> cell_span \<Rightarrow> nat \<Rightarrow> bool" where
  "falls_in pre s x \<longleftrightarrow> length (spans_text pre) \<le> x \<and> x < length (spans_text pre) + length (sp_text s)"

definition paintable :: "cell_span list \<Rightarrow> bool" where
  "paintable spans \<longleftrightarrow> (\<forall>s \<in> set spans. 1 \<le> sp_columns s \<and> sp_text s \<noteq> []) \<and> span_cols spans \<le> u32_max"

lemma columns_walk_skip:
  assumes "sp_text s \<noteq> []" "pos + length (sp_text s) \<le> x" "col + sp_columns s \<le> u32_max"
  shows "columns_walk pos col (s # ss) x = columns_walk (pos + length (sp_text s)) (col + sp_columns s) ss x"
  using assms by (auto simp: scalar_count_def saturating_add32_def)

lemma columns_walk_inside:
  assumes "\<forall>s \<in> set spans. sp_text s \<noteq> []" "col + span_cols spans \<le> u32_max"
    "pos \<le> x" "x < pos + length (spans_text spans)"
  shows "\<exists>pre s post. spans = pre @ s # post \<and> falls_in pre s (x - pos)
    \<and> columns_walk pos col spans x =
        (let c = col + span_cols pre; d = x - pos - length (spans_text pre) in
         if d = 0 then (c, c) else if span_is_atomic s then (c, c + sp_columns s) else (c + d, c + d))"
  using assms
proof (induction spans arbitrary: pos col)
  case (Cons s ss)
  show ?case
  proof (cases "x < pos + length (sp_text s)")
    case True
    with Cons.prems show ?thesis
      by (intro exI [of _ "[]"] exI [of _ s] exI [of _ ss]) (auto simp: falls_in_def Let_def scalar_count_def)
  next
    case False
    then have skip: "columns_walk pos col (s # ss) x =
        columns_walk (pos + length (sp_text s)) (col + sp_columns s) ss x"
      using Cons.prems by (intro columns_walk_skip) auto
    obtain pre s' post where ss: "ss = pre @ s' # post" "falls_in pre s' (x - (pos + length (sp_text s)))"
      and walk: "columns_walk (pos + length (sp_text s)) (col + sp_columns s) ss x =
        (let c = col + sp_columns s + span_cols pre; d = x - (pos + length (sp_text s)) - length (spans_text pre) in
         if d = 0 then (c, c) else if span_is_atomic s' then (c, c + sp_columns s') else (c + d, c + d))"
      using Cons.IH [of "col + sp_columns s" "pos + length (sp_text s)"] Cons.prems False by auto
    show ?thesis
    proof (intro exI conjI)
      show "s # ss = (s # pre) @ s' # post" using ss by simp
      show "falls_in (s # pre) s' (x - pos)" using ss(2) False by (auto simp: falls_in_def)
      show "columns_walk pos col (s # ss) x =
        (let c = col + span_cols (s # pre); d = x - pos - length (spans_text (s # pre)) in
         if d = 0 then (c, c) else if span_is_atomic s' then (c, c + sp_columns s') else (c + d, c + d))"
        unfolding skip walk by (simp add: Let_def diff_diff_left add.assoc)
    qed
  qed
qed simp

lemma columns_walk_end:
  assumes "\<forall>s \<in> set spans. sp_text s \<noteq> []" "col + span_cols spans \<le> u32_max"
    "pos + length (spans_text spans) \<le> x"
  shows "columns_walk pos col spans x = (col + span_cols spans, col + span_cols spans)"
  using assms
proof (induction spans arbitrary: pos col)
  case (Cons s ss)
  then have "columns_walk pos col (s # ss) x = columns_walk (pos + length (sp_text s)) (col + sp_columns s) ss x"
    by (intro columns_walk_skip) auto
  also have "\<dots> = (col + sp_columns s + span_cols ss, col + sp_columns s + span_cols ss)"
    using Cons.prems by (intro Cons.IH) auto
  finally show ?case by (simp add: add.assoc)
qed simp

lemma offset_columns:
  assumes "paintable spans" "x < length (spans_text spans)"
  obtains pre s post where "spans = pre @ s # post" "falls_in pre s x"
    "text_offset_to_column spans x =
       span_cols pre + (if span_is_atomic s then 0 else x - length (spans_text pre))"
    "text_offset_to_column_end spans x =
       span_cols pre + (if x = length (spans_text pre) then 0
                        else if span_is_atomic s then sp_columns s else x - length (spans_text pre))"
proof -
  obtain pre s post where "spans = pre @ s # post" "falls_in pre s x"
    "columns_walk 0 0 spans x = (let c = span_cols pre; d = x - length (spans_text pre) in
       if d = 0 then (c, c) else if span_is_atomic s then (c, c + sp_columns s) else (c + d, c + d))"
    using columns_walk_inside [of spans 0 0 x] assms by (auto simp: paintable_def)
  then show ?thesis
    by (intro that [of pre s post])
      (auto simp: text_offset_to_column_def text_offset_to_column_end_def columns_at_offset_def Let_def falls_in_def)
qed

lemma column_span_walk_at:
  "p + int (span_cols pre) \<le> c \<Longrightarrow> c < p + int (span_cols pre) + int (sp_columns s) \<Longrightarrow>
     column_span_walk p (pre @ s # post) c = Some (s, nat (c - p) - span_cols pre)"
proof (induction pre arbitrary: p)
  case (Cons t pre)
  then have "column_span_walk (p + int (sp_columns t)) (pre @ s # post) c
      = Some (s, nat (c - (p + int (sp_columns t))) - span_cols pre)"
    by (intro Cons.IH) auto
  with Cons.prems show ?case by (auto simp: Let_def nat_diff_distrib)
qed auto

lemma column_span_at:
  assumes "span_cols pre \<le> c" "c < span_cols pre + sp_columns s"
  shows "column_span (pre @ s # post) (int c) = Some (s, c - span_cols pre)"
  using assms column_span_walk_at [of 0 pre "int c" s post] by (simp add: column_span_def)

text \<open>
  The column computed for a character is the column that paints it: for every text offset of a
  paintable row, the glyph at the offset's column is the character at that offset, or, when the
  character belongs to an atomic cell, that whole cell.
\<close>

theorem column_paints_its_character:
  assumes "paintable spans" "x < length (spans_text spans)"
  shows "\<exists>pre s post. spans = pre @ s # post \<and> falls_in pre s x
    \<and> column_text spans (int (text_offset_to_column spans x))
        = (if span_is_atomic s then sp_text s else [spans_text spans ! x])"
proof -
  obtain pre s post where sp: "spans = pre @ s # post" "falls_in pre s x"
    and col: "text_offset_to_column spans x =
       span_cols pre + (if span_is_atomic s then 0 else x - length (spans_text pre))"
    using offset_columns [OF assms] by metis
  have d: "x - length (spans_text pre) < length (sp_text s)" using sp(2) by (auto simp: falls_in_def)
  have pos: "1 \<le> sp_columns s" using assms(1) sp(1) by (auto simp: paintable_def)
  have "column_span spans (int (text_offset_to_column spans x))
      = Some (s, if span_is_atomic s then 0 else x - length (spans_text pre))"
  proof -
    have "column_span (pre @ s # post) (int (text_offset_to_column spans x))
        = Some (s, text_offset_to_column spans x - span_cols pre)"
      using d pos narrow_columns [of s] by (intro column_span_at) (auto simp: col)
    then show ?thesis by (simp add: sp(1) [symmetric] col)
  qed
  moreover have "spans_text spans ! x = sp_text s ! (x - length (spans_text pre))"
    using sp d by (auto simp: nth_append falls_in_def)
  ultimately have "column_text spans (int (text_offset_to_column spans x))
      = (if span_is_atomic s then sp_text s else [spans_text spans ! x])"
    using d by (simp add: column_text_def)
  with sp show ?thesis by blast
qed

theorem column_paints_its_character_witness:
  "\<exists>pre s post. [\<lparr>sp_text = [0x4e2d], sp_fg = 7, sp_bg = 256, sp_flags = 0, sp_fg_rgb = None, sp_bg_rgb = None,
       sp_columns = 2, sp_link_uri = None, sp_link_key = None\<rparr>] = pre @ s # post \<and> falls_in pre s 0
     \<and> column_text [\<lparr>sp_text = [0x4e2d], sp_fg = 7, sp_bg = 256, sp_flags = 0, sp_fg_rgb = None,
         sp_bg_rgb = None, sp_columns = 2, sp_link_uri = None, sp_link_key = None\<rparr>] 0 = sp_text s"
proof -
  let ?s = "\<lparr>sp_text = [0x4e2d], sp_fg = 7, sp_bg = 256, sp_flags = 0, sp_fg_rgb = None, sp_bg_rgb = None,
       sp_columns = 2, sp_link_uri = None, sp_link_key = None\<rparr> :: cell_span"
  have "paintable [?s]" "text_offset_to_column [?s] 0 = 0" "span_is_atomic ?s"
    by (simp_all add: paintable_def u32_max_def text_offset_to_column_def columns_at_offset_def
        span_is_atomic_def scalar_count_def)
  with column_paints_its_character [of "[?s]" 0] show ?thesis
    by (auto simp: Cons_eq_append_conv)
qed

lemma columns_walk_bounds:
  assumes "\<forall>s \<in> set spans. sp_text s \<noteq> []" "col + span_cols spans \<le> u32_max" "pos \<le> x"
  shows "col \<le> fst (columns_walk pos col spans x) \<and> fst (columns_walk pos col spans x) \<le> snd (columns_walk pos col spans x)
    \<and> snd (columns_walk pos col spans x) \<le> col + span_cols spans"
  using assms
proof (induction spans arbitrary: pos col)
  case (Cons s ss)
  show ?case
  proof (cases "x < pos + length (sp_text s)")
    case True
    with Cons.prems narrow_columns [of s] show ?thesis by (auto simp: scalar_count_def Let_def)
  next
    case False
    then have "columns_walk pos col (s # ss) x = columns_walk (pos + length (sp_text s)) (col + sp_columns s) ss x"
      using Cons.prems by (intro columns_walk_skip) auto
    moreover have "col + sp_columns s \<le> fst (columns_walk (pos + length (sp_text s)) (col + sp_columns s) ss x)
      \<and> fst (columns_walk (pos + length (sp_text s)) (col + sp_columns s) ss x)
          \<le> snd (columns_walk (pos + length (sp_text s)) (col + sp_columns s) ss x)
      \<and> snd (columns_walk (pos + length (sp_text s)) (col + sp_columns s) ss x) \<le> col + sp_columns s + span_cols ss"
      using Cons.prems False by (intro Cons.IH) auto
    ultimately show ?thesis by simp
  qed
qed simp

lemma columns_walk_order:
  assumes "\<forall>s \<in> set spans. 1 \<le> sp_columns s \<and> sp_text s \<noteq> []" "col + span_cols spans \<le> u32_max"
    "pos \<le> x" "x < y" "y \<le> pos + length (spans_text spans)"
  shows "fst (columns_walk pos col spans x) < snd (columns_walk pos col spans y)
    \<and> fst (columns_walk pos col spans x) \<le> fst (columns_walk pos col spans y)"
  using assms
proof (induction spans arbitrary: pos col)
  case (Cons s ss)
  let ?p = "pos + length (sp_text s)" and ?c = "col + sp_columns s"
  have skip: "columns_walk pos col (s # ss) z = columns_walk ?p ?c ss z" if "?p \<le> z" for z
    using Cons.prems that by (intro columns_walk_skip) auto
  have inside: "columns_walk pos col (s # ss) z = (if z = pos then (col, col)
      else if span_is_atomic s then (col, ?c) else (col + (z - pos), col + (z - pos)))" if "z < ?p" "pos \<le> z" for z
    using that by (simp add: scalar_count_def Let_def)
  have pos: "1 \<le> sp_columns s" using Cons.prems by simp
  consider "y < ?p" | "x < ?p" "?p \<le> y" | "?p \<le> x" using Cons.prems(4) by linarith
  then show ?case
  proof cases
    case 1
    with Cons.prems pos inside [of x] inside [of y] show ?thesis
      by (simp del: columns_walk.simps) (auto simp del: columns_walk.simps)
  next
    case 2
    have "?c \<le> fst (columns_walk ?p ?c ss y)" "fst (columns_walk ?p ?c ss y) \<le> snd (columns_walk ?p ?c ss y)"
      using columns_walk_bounds [of ss ?c ?p y] Cons.prems 2 by auto
    moreover have "fst (columns_walk pos col (s # ss) x) < ?c"
      using 2 Cons.prems pos narrow_columns [of s] inside [of x] by (auto simp del: columns_walk.simps)
    ultimately show ?thesis by (simp add: skip 2 del: columns_walk.simps)
  next
    case 3
    with Cons.prems have "fst (columns_walk ?p ?c ss x) < snd (columns_walk ?p ?c ss y)
        \<and> fst (columns_walk ?p ?c ss x) \<le> fst (columns_walk ?p ?c ss y)"
      by (intro Cons.IH) auto
    with 3 Cons.prems show ?thesis by (simp add: skip del: columns_walk.simps)
  qed
qed simp

text \<open>
  A highlighted match covers what it matched and nothing outside the row: the column range of a
  non-empty text range is not empty, stays within the columns the row occupies, and contains the
  column of every character of the range.
\<close>

theorem range_columns_cover_match:
  assumes "paintable spans" "0 < n" "x + n \<le> length (spans_text spans)"
  shows "(let r = text_range_to_columns spans x n in
     1 \<le> cr_columns r \<and> cr_col r + cr_columns r \<le> row_columns spans
     \<and> (\<forall>y. x \<le> y \<and> y < x + n \<longrightarrow>
          cr_col r \<le> text_offset_to_column spans y \<and> text_offset_to_column spans y < cr_col r + cr_columns r))"
proof -
  have sp: "\<forall>s \<in> set spans. 1 \<le> sp_columns s \<and> sp_text s \<noteq> []" "0 + span_cols spans \<le> u32_max"
    using assms(1) by (auto simp: paintable_def)
  have less: "text_offset_to_column spans y < text_offset_to_column_end spans (x + n)" if "y < x + n" for y
    using columns_walk_order [OF sp, of 0 y "x + n"] that assms
    by (simp add: text_offset_to_column_def text_offset_to_column_end_def columns_at_offset_def)
  have le: "text_offset_to_column spans x \<le> text_offset_to_column spans y" if "x \<le> y" "y < x + n" for y
    using columns_walk_order [OF sp, of 0 x y] that assms
    by (cases "x = y") (auto simp: text_offset_to_column_def columns_at_offset_def)
  have "text_offset_to_column_end spans (x + n) \<le> span_cols spans"
    using columns_walk_bounds [of spans 0 0 "x + n"] sp
    by (simp add: text_offset_to_column_end_def columns_at_offset_def)
  moreover have lt: "text_offset_to_column spans x < text_offset_to_column_end spans (x + n)"
    using less [of x] assms(2) by simp
  moreover from lt have "text_range_to_columns spans x n = \<lparr>cr_col = text_offset_to_column spans x,
      cr_columns = text_offset_to_column_end spans (x + n) - text_offset_to_column spans x\<rparr>"
    using assms(2) by (auto simp: text_range_to_columns_def Let_def max_def)
  ultimately show ?thesis
    using less le sp(2) by (auto simp: Let_def row_columns_def)
qed

theorem range_columns_cover_match_witness:
  "(let r = text_range_to_columns [\<lparr>sp_text = [97, 98, 99], sp_fg = 7, sp_bg = 256, sp_flags = 0,
       sp_fg_rgb = None, sp_bg_rgb = None, sp_columns = 3, sp_link_uri = None, sp_link_key = None\<rparr>] 1 2 in
     1 \<le> cr_columns r \<and> cr_col r + cr_columns r \<le> 3)"
proof -
  let ?s = "\<lparr>sp_text = [97, 98, 99], sp_fg = 7, sp_bg = 256, sp_flags = 0, sp_fg_rgb = None, sp_bg_rgb = None,
       sp_columns = 3, sp_link_uri = None, sp_link_key = None\<rparr> :: cell_span"
  have "paintable [?s]" by (simp add: paintable_def u32_max_def)
  from range_columns_cover_match [OF this, of 2 1] show ?thesis
    by (simp add: Let_def row_columns_def u32_max_def)
qed

text \<open>A row the decoder accepts is paintable, and its column count stays within the stated width.\<close>

lemma assert_spans_fold:
  assumes "fold_res (assert_span i) c (List.enumerate n ss) = Inr c'"
  shows "c' = c + span_cols ss \<and> (\<forall>s \<in> set ss. 1 \<le> sp_columns s \<and> sp_text s \<noteq> [])"
  using assms
proof (induction ss arbitrary: c n)
  case (Cons s ss)
  then obtain c1 where c1: "assert_span i c (n, s) = Inr c1"
    "fold_res (assert_span i) c1 (List.enumerate (Suc n) ss) = Inr c'"
    by (auto simp: res_simps)
  have "c1 = c + sp_columns s" "1 \<le> sp_columns s" "sp_text s \<noteq> []"
    using c1(1) by (auto simp: assert_span_def Let_def res_simps split: if_splits)
  with Cons.IH [OF c1(2)] show ?case by simp
qed simp

lemma accepted_row_paintable:
  assumes "assert_cell_row_spans row w = Inr u" "0 < w" "w \<le> u32_max"
  shows "paintable (row_spans row) \<and> span_cols (row_spans row) \<le> w"
proof -
  obtain c where c: "fold_res (assert_span (row_index row)) 0 (List.enumerate 0 (row_spans row)) = Inr c" "c \<le> w"
    using assms by (auto simp: assert_cell_row_spans_def res_simps split: if_splits)
  with assert_spans_fold [OF c(1)] assms(3) show ?thesis by (auto simp: paintable_def)
qed

end
