(* ===== verification/Cell_Delta.thy ===== *)
theory Cell_Delta
  imports Cell_Types
begin

text \<open>
  Folding frames onto a held grid (\<open>cell/diff_grid.rs\<close>, \<open>cell/delta_batch.rs\<close>). The in-place
  updates return the frame as they leave it together with the source's \<open>Option<()>\<close>, so that what a
  refused delta does to the held frame is part of the model. Rows are positions of a list; the
  source's shared span arrays are values here.
\<close>

section \<open>Copies and the canonical checkpoint\<close>

definition clone_frame_without_retained_history :: "cell_grid_frame \<Rightarrow> bool \<Rightarrow> cell_grid_frame" where
  "clone_frame_without_retained_history frame retain_append =
     frame\<lparr>fr_scrollback_rows := [],
           fr_scrollback_append := (if retain_append then fr_scrollback_append frame else [])\<rparr>"

definition clone_cell_grid_frame_without_history :: "cell_grid_frame \<Rightarrow> cell_grid_frame" where
  "clone_cell_grid_frame_without_history frame = clone_frame_without_retained_history frame True"

definition clone_cell_grid_frame :: "cell_grid_frame \<Rightarrow> cell_grid_frame" where
  "clone_cell_grid_frame frame =
     (clone_cell_grid_frame_without_history frame)\<lparr>fr_scrollback_rows := fr_scrollback_rows frame\<rparr>"

definition normalize_cell_grid_frame :: "cell_grid_frame \<Rightarrow> cell_grid_frame" where
  "normalize_cell_grid_frame frame =
     frame\<lparr>fr_full := True, fr_base_seq := 0, fr_scrollback_rows := [], fr_scrollback_append := [],
           fr_sb_base := fr_scrollback_total frame,
           fr_image_placements := Some (case fr_image_placements frame of None \<Rightarrow> [] | Some ps \<Rightarrow> ps)\<rparr>"

section \<open>Applying one delta\<close>

definition delta_viewport_shift :: "cell_grid_frame \<Rightarrow> cell_grid_frame \<Rightarrow> nat" where
  "delta_viewport_shift base delta =
     (if length (fr_viewport_rows delta) \<noteq> fr_rows base then 0
      else
        let shift = min (min (length (fr_scrollback_append delta)) u32_max) (fr_rows base)
        in if shift = 0 then 0
           else
             (case fr_viewport_rows base of
                [] \<Rightarrow> 0
              | held # _ \<Rightarrow>
                  (case fr_scrollback_append delta of
                     [] \<Rightarrow> 0
                   | appended # _ \<Rightarrow> if row_spans held \<noteq> row_spans appended then 0 else shift)))"

fun mark_changed_rows :: "bool list \<Rightarrow> cell_row list \<Rightarrow> bool list option" where
  "mark_changed_rows changed [] = Some changed"
| "mark_changed_rows changed (row # rows) =
     (let slot = row_index row
      in if length changed \<le> slot then None
         else if changed ! slot then None
         else mark_changed_rows (changed[slot := True]) rows)"

definition renumber_rows :: "nat \<Rightarrow> cell_row list \<Rightarrow> cell_row list" where
  "renumber_rows n rows =
     foldl (\<lambda>rs index. rs[index := (rs ! index)\<lparr>row_index := index\<rparr>]) rows [0..<n]"

definition overwrite_rows :: "cell_row list \<Rightarrow> cell_row list \<Rightarrow> cell_row list" where
  "overwrite_rows rows changes = foldl (\<lambda>rs row. rs[row_index row := row]) rows changes"

definition delta_refused :: "cell_grid_frame \<Rightarrow> cell_grid_frame \<Rightarrow> bool" where
  "delta_refused base delta \<longleftrightarrow>
     fr_stream_id delta \<noteq> fr_stream_id base
     \<or> fr_base_seq delta \<noteq> fr_seq base
     \<or> checked_add64 (fr_base_seq delta) 1 \<noteq> Some (fr_seq delta)
     \<or> fr_grid_epoch delta \<noteq> fr_grid_epoch base
     \<or> fr_cols delta \<noteq> fr_cols base
     \<or> fr_rows delta \<noteq> fr_rows base
     \<or> fr_alt_screen delta \<noteq> fr_alt_screen base
     \<or> length (fr_viewport_rows base) \<noteq> fr_rows base
     \<or> fr_scrollback_rows delta \<noteq> []"

definition apply_delta_with_history ::
  "cell_grid_frame \<Rightarrow> cell_grid_frame \<Rightarrow> bool \<Rightarrow> cell_grid_frame \<times> unit option" where
  "apply_delta_with_history base delta retain_history =
     (if fr_full delta then
        ((if retain_history then delta else clone_frame_without_retained_history delta False), Some ())
      else if delta_refused base delta then (base, None)
      else
        (case mark_changed_rows (replicate (length (fr_viewport_rows base)) False) (fr_viewport_rows delta) of
           None \<Rightarrow> (base, None)
         | Some _ \<Rightarrow>
             let scrolled = delta_viewport_shift base delta;
                 shifted = (if 0 < scrolled
                            then renumber_rows (fr_rows base - scrolled) (rotate scrolled (fr_viewport_rows base))
                            else fr_viewport_rows base)
             in (base\<lparr>
                   fr_viewport_rows := overwrite_rows shifted (fr_viewport_rows delta),
                   fr_scrollback_rows := (if retain_history then fr_scrollback_rows base @ fr_scrollback_append delta
                                          else fr_scrollback_rows base),
                   fr_scrollback_append := [],
                   fr_stream_id := fr_stream_id delta, fr_grid_epoch := fr_grid_epoch delta,
                   fr_cols := fr_cols delta, fr_rows := fr_rows delta,
                   fr_cursor_row := fr_cursor_row delta, fr_cursor_col := fr_cursor_col delta,
                   fr_cursor_visible := fr_cursor_visible delta, fr_alt_screen := fr_alt_screen delta,
                   fr_cursor_keys_app := fr_cursor_keys_app delta,
                   fr_bracketed_paste := fr_bracketed_paste delta,
                   fr_mouse_tracking := fr_mouse_tracking delta, fr_mouse_sgr := fr_mouse_sgr delta,
                   fr_focus_events := fr_focus_events delta,
                   fr_kitty_keyboard_flags := fr_kitty_keyboard_flags delta,
                   fr_full := True, fr_scrollback_total := fr_scrollback_total delta,
                   fr_base_seq := 0, fr_seq := fr_seq delta,
                   fr_image_placements := (case fr_image_placements delta of
                      None \<Rightarrow> fr_image_placements base | Some ps \<Rightarrow> Some ps)\<rparr>,
                 Some ())))"

definition apply_delta :: "cell_grid_frame \<Rightarrow> cell_grid_frame \<Rightarrow> cell_grid_frame \<times> unit option" where
  "apply_delta base delta = apply_delta_with_history base delta True"

definition apply_viewport_frame ::
  "cell_grid_frame option \<Rightarrow> cell_grid_frame \<Rightarrow> cell_grid_frame option \<times> unit option" where
  "apply_viewport_frame checkpoint frame =
     (case checkpoint of
        Some current \<Rightarrow>
          (case apply_delta_with_history current frame False of
             (current', None) \<Rightarrow> (Some current', None)
           | (current', Some _) \<Rightarrow> (Some (normalize_cell_grid_frame current'), Some ()))
      | None \<Rightarrow>
          if fr_full frame
          then (Some (normalize_cell_grid_frame (clone_frame_without_retained_history frame False)), Some ())
          else (None, None))"

section \<open>Folding a batch\<close>

record cell_delta_batch =
  db_frame :: cell_grid_frame
  db_dirty_rows :: "cell_row list"
  db_scrollback_append :: "cell_row list"
  db_viewport_shift :: nat

definition has_contiguous_scrollback_append :: "cell_grid_frame \<Rightarrow> cell_grid_frame \<Rightarrow> bool" where
  "has_contiguous_scrollback_append base delta \<longleftrightarrow>
     (case checked_add64 (fr_scrollback_total base) (min (length (fr_scrollback_append delta)) u64_max) of
        None \<Rightarrow> False
      | Some appended \<Rightarrow>
          if fr_scrollback_total delta \<noteq> appended then False
          else list_all (\<lambda>(offset, row). row_index row = fr_scrollback_total base + offset)
                 (List.enumerate 0 (fr_scrollback_append delta)))"

definition copy_within_front :: "nat \<Rightarrow> 'a list \<Rightarrow> 'a list" where
  "copy_within_front n xs = drop n xs @ drop (length xs - n) xs"

definition zero_from :: "nat \<Rightarrow> nat list \<Rightarrow> nat list" where
  "zero_from n xs = take n xs @ replicate (length xs - n) 0"

record batch_state =
  bs_folded :: cell_grid_frame
  bs_dirty_marks :: "nat list"
  bs_append :: "cell_row list"
  bs_shift :: nat

definition batch_step :: "batch_state \<Rightarrow> cell_grid_frame \<Rightarrow> (unit, batch_state) result" where
  "batch_step st delta =
     (let folded = bs_folded st in
      if fr_full delta \<or> \<not> has_contiguous_scrollback_append folded delta then Err ()
      else
        let shift = delta_viewport_shift folded delta in
        (case apply_delta folded delta of
           (_, None) \<Rightarrow> Err ()
         | (folded', Some _) \<Rightarrow>
             let marks = (if 0 < shift
                          then zero_from (fr_rows folded' - shift) (copy_within_front shift (bs_dirty_marks st))
                          else bs_dirty_marks st);
                 marks' = foldl (\<lambda>ms row. ms[row_index row := 1]) marks (fr_viewport_rows delta)
             in Ok \<lparr>bs_folded = folded', bs_dirty_marks = marks',
                    bs_append = bs_append st @ fr_scrollback_append delta,
                    bs_shift = min (fr_rows folded') (bs_shift st + shift)\<rparr>))"

definition batch_start :: "cell_grid_frame \<Rightarrow> batch_state" where
  "batch_start base =
     (let folded = clone_cell_grid_frame_without_history base
      in \<lparr>bs_folded = folded, bs_dirty_marks = replicate (fr_rows folded) 0, bs_append = [], bs_shift = 0\<rparr>)"

definition fold_cell_delta_batch :: "cell_grid_frame \<Rightarrow> cell_grid_frame list \<Rightarrow> cell_delta_batch option" where
  "fold_cell_delta_batch base deltas =
     (if deltas = [] then None
      else
        (case fold_res batch_step (batch_start base) deltas of
           Inl _ \<Rightarrow> None
         | Inr st \<Rightarrow>
             let folded = bs_folded st;
                 dirty = (if bs_shift st = fr_rows folded then fr_viewport_rows folded
                          else map snd (filter (\<lambda>(index, _). bs_dirty_marks st ! index \<noteq> 0)
                                 (List.enumerate 0 (fr_viewport_rows folded))))
             in Some \<lparr>db_frame = folded, db_dirty_rows = dirty, db_scrollback_append = bs_append st,
                      db_viewport_shift = bs_shift st\<rparr>))"

section \<open>What a delta means\<close>

text \<open>
  The specification: a delta that fits replaces the rows it names, whatever the source does to reuse
  the held ones, and states every other field of the successor except the history window.
\<close>

definition overlay :: "cell_row list \<Rightarrow> cell_row list \<Rightarrow> cell_row list" where
  "overlay rows changes =
     map (\<lambda>i. case find (\<lambda>r. row_index r = i) changes of None \<Rightarrow> rows ! i | Some r \<Rightarrow> r) [0..<length rows]"

definition delta_fits :: "cell_grid_frame \<Rightarrow> cell_grid_frame \<Rightarrow> bool" where
  "delta_fits base delta \<longleftrightarrow>
     fr_stream_id delta = fr_stream_id base \<and> fr_grid_epoch delta = fr_grid_epoch base
     \<and> fr_base_seq delta = fr_seq base \<and> fr_seq delta = fr_seq base + 1 \<and> fr_seq delta \<le> u64_max
     \<and> fr_cols delta = fr_cols base \<and> fr_rows delta = fr_rows base
     \<and> fr_alt_screen delta = fr_alt_screen base
     \<and> length (fr_viewport_rows base) = fr_rows base \<and> fr_scrollback_rows delta = []
     \<and> distinct (map row_index (fr_viewport_rows delta))
     \<and> (\<forall>r \<in> set (fr_viewport_rows delta). row_index r < fr_rows base)"

definition successor :: "cell_grid_frame \<Rightarrow> cell_grid_frame \<Rightarrow> cell_grid_frame" where
  "successor base delta = delta\<lparr>
     fr_full := True, fr_base_seq := 0,
     fr_viewport_rows := overlay (fr_viewport_rows base) (fr_viewport_rows delta),
     fr_scrollback_rows := fr_scrollback_rows base @ fr_scrollback_append delta,
     fr_scrollback_append := [], fr_sb_base := fr_sb_base base,
     fr_image_placements := (case fr_image_placements delta of
        None \<Rightarrow> fr_image_placements base | Some ps \<Rightarrow> Some ps)\<rparr>"

lemma mark_changed_rows_iff:
  "(\<exists>ms. mark_changed_rows changed rows = Some ms) \<longleftrightarrow>
     distinct (map row_index rows)
     \<and> (\<forall>r \<in> set rows. row_index r < length changed \<and> \<not> changed ! row_index r)"
proof (induction changed rows rule: mark_changed_rows.induct)
  case (2 changed row rows)
  show ?case
  proof (cases "row_index row < length changed \<and> \<not> changed ! row_index row")
    case True
    with 2 have "(\<exists>ms. mark_changed_rows changed (row # rows) = Some ms) \<longleftrightarrow>
        distinct (map row_index rows)
        \<and> (\<forall>r \<in> set rows. row_index r < length changed \<and> \<not> changed[row_index row := True] ! row_index r)"
      by (simp add: Let_def)
    with True show ?thesis by (auto simp: nth_list_update split: if_splits)
  next
    case False
    then show ?thesis by (auto simp: Let_def)
  qed
qed simp

lemma overwrite_rows_length [simp]: "length (overwrite_rows rows changes) = length rows"
  unfolding overwrite_rows_def by (induction changes arbitrary: rows) auto

lemma overwrite_rows_Cons: "overwrite_rows rows (c # cs) = overwrite_rows (rows[row_index c := c]) cs"
  by (simp add: overwrite_rows_def)

lemma overwrite_rows_nth:
  assumes "distinct (map row_index changes)" "i < length rows"
  shows "overwrite_rows rows changes ! i =
    (case find (\<lambda>r. row_index r = i) changes of None \<Rightarrow> rows ! i | Some r \<Rightarrow> r)"
  using assms
proof (induction changes arbitrary: rows)
  case (Cons c cs)
  show ?case
  proof (cases "row_index c = i")
    case True
    with Cons.prems have "find (\<lambda>r. row_index r = i) cs = None" by (fastforce simp: find_None_iff image_iff)
    with Cons True show ?thesis by (simp add: overwrite_rows_Cons)
  next
    case False
    with Cons show ?thesis by (simp add: overwrite_rows_Cons split: option.split)
  qed
qed (simp add: overwrite_rows_def)

lemma overwrite_rows_overlay:
  "distinct (map row_index changes) \<Longrightarrow> overwrite_rows rows changes = overlay rows changes"
  by (rule nth_equalityI) (simp_all add: overlay_def overwrite_rows_nth split: option.split)

lemma renumber_rows_length [simp]: "length (renumber_rows n rows) = length rows"
proof -
  have "length (foldl (\<lambda>rs index. rs[index := (rs ! index)\<lparr>row_index := index\<rparr>]) rows is) = length rows" for "is"
    by (induction "is" arbitrary: rows) auto
  then show ?thesis by (simp add: renumber_rows_def)
qed

lemma complete_changes_cover:
  assumes "distinct (map row_index changes)" "\<forall>r \<in> set changes. row_index r < n" "length changes = n" "i < n"
  shows "find (\<lambda>r. row_index r = i) changes \<noteq> None"
proof -
  have "row_index ` set changes = {0..<n}"
    using assms by (intro card_subset_eq) (auto simp: card_image distinct_map distinct_card)
  with assms(4) have "i \<in> row_index ` set changes" by simp
  then show ?thesis by (auto simp: find_None_iff)
qed

lemma overwrite_complete:
  assumes "distinct (map row_index changes)" "\<forall>r \<in> set changes. row_index r < n" "length changes = n"
    "length rows = n" "length rows' = n"
  shows "overwrite_rows rows changes = overwrite_rows rows' changes"
proof (rule nth_equalityI)
  fix i
  assume "i < length (overwrite_rows rows changes)"
  with assms complete_changes_cover [of changes n i] show "overwrite_rows rows changes ! i = overwrite_rows rows' changes ! i"
    by (auto simp: overwrite_rows_nth)
qed (simp add: assms)

lemma delta_viewport_shift_pos:
  "0 < delta_viewport_shift base delta \<Longrightarrow> length (fr_viewport_rows delta) = fr_rows base"
  by (simp add: delta_viewport_shift_def split: if_splits)

lemma delta_viewport_shift_le: "delta_viewport_shift base delta \<le> fr_rows base"
  by (auto simp: delta_viewport_shift_def Let_def split: list.split)

lemma delta_fits_iff:
  "delta_fits base delta \<longleftrightarrow> \<not> delta_refused base delta
     \<and> (\<exists>ms. mark_changed_rows (replicate (length (fr_viewport_rows base)) False) (fr_viewport_rows delta) = Some ms)"
  unfolding mark_changed_rows_iff
  by (auto simp: delta_fits_def delta_refused_def checked_add64_Some_iff)

lemma apply_delta_nonfull:
  assumes "\<not> fr_full delta"
  shows "apply_delta_with_history base delta h =
    (if delta_fits base delta
     then ((successor base delta)\<lparr>fr_scrollback_rows :=
             fr_scrollback_rows base @ (if h then fr_scrollback_append delta else [])\<rparr>, Some ())
     else (base, None))"
proof (cases "delta_fits base delta")
  case True
  then obtain ms where ok: "\<not> delta_refused base delta"
    "mark_changed_rows (replicate (length (fr_viewport_rows base)) False) (fr_viewport_rows delta) = Some ms"
    by (auto simp: delta_fits_iff)
  let ?shifted = "if 0 < delta_viewport_shift base delta
    then renumber_rows (fr_rows base - delta_viewport_shift base delta)
           (rotate (delta_viewport_shift base delta) (fr_viewport_rows base))
    else fr_viewport_rows base"
  have "overwrite_rows ?shifted (fr_viewport_rows delta)
      = overwrite_rows (fr_viewport_rows base) (fr_viewport_rows delta)"
    using True delta_viewport_shift_pos [of base delta]
    by (auto simp: delta_fits_def intro!: overwrite_complete)
  also have "\<dots> = overlay (fr_viewport_rows base) (fr_viewport_rows delta)"
    using True by (simp add: overwrite_rows_overlay delta_fits_def)
  finally show ?thesis
    using assms ok True
    by (simp add: apply_delta_with_history_def Let_def) (simp add: successor_def)
next
  case False
  with assms show ?thesis
    by (auto simp: delta_fits_iff apply_delta_with_history_def split: option.split)
qed

lemma apply_delta_exact:
  "apply_delta base delta =
     (if fr_full delta then (delta, Some ())
      else if delta_fits base delta then (successor base delta, Some ())
      else (base, None))"
proof (cases "fr_full delta")
  case True
  then show ?thesis by (simp add: apply_delta_def apply_delta_with_history_def)
next
  case False
  then show ?thesis by (simp add: apply_delta_def apply_delta_nonfull) (simp add: successor_def)
qed

text \<open>
  C9: Applying a frame is what the delta means, for every held frame and every incoming one: a full
  frame replaces the held frame; a delta that follows it exactly (same stream, epoch, geometry and
  screen, next sequence, each row index legal and named once) yields the held grid with exactly the
  named rows replaced, the appended history added and the other fields taken from the delta; and any
  other delta is refused with the held frame unchanged. The row rotation the code performs to reuse
  painted rows never shows in the result.
\<close>

theorem apply_delta_correct:
  "apply_delta base delta =
     (if fr_full delta then (delta, Some ())
      else if delta_fits base delta then (successor base delta, Some ())
      else (base, None))"
  by (rule apply_delta_exact)

section \<open>A viewport checkpoint follows the replica\<close>

lemma normalize_fits: "delta_fits (normalize_cell_grid_frame base) delta = delta_fits base delta"
  by (simp add: delta_fits_def normalize_cell_grid_frame_def)

lemma normalize_successor:
  "normalize_cell_grid_frame ((successor (normalize_cell_grid_frame base) delta)\<lparr>fr_scrollback_rows := xs\<rparr>)
     = normalize_cell_grid_frame (successor base delta)"
  by (simp add: successor_def normalize_cell_grid_frame_def split: option.split)

definition checkpoint_step :: "cell_grid_frame \<Rightarrow> cell_grid_frame \<Rightarrow> cell_grid_frame" where
  "checkpoint_step current frame = the (fst (apply_viewport_frame (Some current) frame))"

lemma apply_viewport_frame_normalized:
  "apply_viewport_frame (Some (normalize_cell_grid_frame base)) frame =
     (case apply_delta base frame of
        (f, None) \<Rightarrow> (Some (normalize_cell_grid_frame base), None)
      | (f, Some _) \<Rightarrow> (Some (normalize_cell_grid_frame f), Some ()))"
proof (cases "fr_full frame")
  case True
  then show ?thesis
    by (simp add: apply_viewport_frame_def apply_delta_with_history_def apply_delta_exact)
      (simp add: normalize_cell_grid_frame_def clone_frame_without_retained_history_def)
next
  case False
  then show ?thesis
    by (simp add: apply_viewport_frame_def apply_delta_nonfull apply_delta_exact normalize_fits
        normalize_successor)
qed

interpretation checkpoint: functional_refinement normalize_cell_grid_frame
  "\<lambda>b f. fst (apply_delta b f)" checkpoint_step
proof
  fix b f
  have "normalize_cell_grid_frame b = normalize_cell_grid_frame (fst (apply_delta b f))"
    if "snd (apply_delta b f) = None"
    using that by (simp add: apply_delta_exact split: if_splits)
  then show "normalize_cell_grid_frame (fst (apply_delta b f)) = checkpoint_step (normalize_cell_grid_frame b) f"
    by (auto simp: checkpoint_step_def apply_viewport_frame_normalized split: prod.split option.split)
qed

text \<open>
  The viewport-only checkpoint the coordinator keeps and the replica with history a client keeps
  never diverge: fed the same frames, valid or not, the checkpoint is at every point the canonical
  form of the replica, although it retains none of the history.
\<close>

theorem checkpoint_follows_replica:
  "foldl checkpoint_step (normalize_cell_grid_frame base) frames =
     normalize_cell_grid_frame (foldl (\<lambda>b f. fst (apply_delta b f)) base frames)"
  by (rule checkpoint.run_refines [symmetric])

section \<open>Row numbering\<close>

definition numbered :: "cell_grid_frame \<Rightarrow> bool" where
  "numbered f \<longleftrightarrow> length (fr_viewport_rows f) = fr_rows f
     \<and> (\<forall>i < fr_rows f. row_index (fr_viewport_rows f ! i) = i)"

lemma overlay_nth:
  "i < length rows \<Longrightarrow> overlay rows changes ! i =
     (case find (\<lambda>r. row_index r = i) changes of None \<Rightarrow> rows ! i | Some r \<Rightarrow> r)"
  by (simp add: overlay_def split: option.split)

lemma overlay_length [simp]: "length (overlay rows changes) = length rows"
  by (simp add: overlay_def)

lemma successor_numbered: "numbered base \<Longrightarrow> delta_fits base delta \<Longrightarrow> numbered (successor base delta)"
  by (auto simp: numbered_def successor_def delta_fits_def overlay_nth find_Some_iff split: option.split)

text \<open>
  Row numbering is preserved: from a frame whose i-th row is numbered i, every run of frames in
  which each full frame is so numbered reaches only frames so numbered, so writing a delta row to
  the slot of its index is always writing it over the row of that index.
\<close>

theorem numbering_preserved:
  assumes "numbered base" "\<forall>f \<in> set frames. fr_full f \<longrightarrow> numbered f"
  shows "numbered (foldl (\<lambda>b f. fst (apply_delta b f)) base frames)"
  using assms
  by (induction frames arbitrary: base) (auto simp: apply_delta_exact successor_numbered)

definition blank_frame :: "nat \<Rightarrow> cell_grid_frame" where
  "blank_frame n = \<lparr>fr_stream_id = ''00000000-0000-4000-8000-000000000001'', fr_grid_epoch = ''e1'',
     fr_cols = 80, fr_rows = n, fr_cursor_row = 0, fr_cursor_col = 0, fr_cursor_visible = True,
     fr_alt_screen = False, fr_cursor_keys_app = False, fr_bracketed_paste = False,
     fr_mouse_tracking = TrackNone, fr_mouse_sgr = False, fr_focus_events = False,
     fr_kitty_keyboard_flags = 0, fr_full = True, fr_viewport_rows = map (\<lambda>i. cell_row_new i []) [0..<n],
     fr_scrollback_rows = [], fr_scrollback_append = [], fr_scrollback_total = 0, fr_sb_base = 0,
     fr_base_seq = 0, fr_seq = 1, fr_image_placements = Some []\<rparr>"

lemma blank_frame_numbered: "numbered (blank_frame n)"
  by (simp add: numbered_def blank_frame_def cell_row_new_def)

theorem numbering_preserved_witness:
  "numbered (foldl (\<lambda>b f. fst (apply_delta b f)) (blank_frame 2) [blank_frame 3])"
  by (rule numbering_preserved) (simp_all add: blank_frame_numbered)

section \<open>A batch is its deltas, and its patch list is enough\<close>

lemma foldl_marks_length [simp]: "length (foldl (\<lambda>ms row. ms[row_index row := v]) ms rows) = length ms"
  by (induction rows arbitrary: ms) auto

lemma foldl_marks_nth:
  "i < length ms \<Longrightarrow> foldl (\<lambda>ms row. ms[row_index row := v]) ms rows ! i =
     (if i \<in> row_index ` set rows then v else ms ! i)"
  by (induction rows arbitrary: ms) (auto simp: nth_list_update)

definition batch_invar :: "cell_grid_frame \<Rightarrow> cell_grid_frame list \<Rightarrow> batch_state \<Rightarrow> bool" where
  "batch_invar base deltas st \<longleftrightarrow>
     foldl (\<lambda>b f. fst (apply_delta b f)) (clone_cell_grid_frame_without_history base) deltas = bs_folded st
     \<and> length (bs_dirty_marks st) = fr_rows base \<and> fr_rows (bs_folded st) = fr_rows base
     \<and> concat (map fr_scrollback_append deltas) = bs_append st
     \<and> fr_scrollback_rows (bs_folded st) = bs_append st
     \<and> fr_scrollback_total (bs_folded st) = fr_scrollback_total base + length (bs_append st)
     \<and> (\<forall>k < length (bs_append st). row_index (bs_append st ! k) = fr_scrollback_total base + k)
     \<and> (deltas \<noteq> [] \<longrightarrow> length (fr_viewport_rows base) = fr_rows base)
     \<and> length (fr_viewport_rows (bs_folded st)) = length (fr_viewport_rows base)
     \<and> (\<forall>i < fr_rows base. bs_dirty_marks st ! i = 0 \<longrightarrow>
          bs_shift st = 0 \<and> fr_viewport_rows (bs_folded st) ! i = fr_viewport_rows base ! i)"

lemma batch_start_invar: "batch_invar base [] (batch_start base)"
  by (simp add: batch_invar_def batch_start_def Let_def clone_cell_grid_frame_without_history_def
      clone_frame_without_retained_history_def)

lemma contiguous_append:
  assumes "has_contiguous_scrollback_append base delta" "length (fr_scrollback_append delta) \<le> u64_max"
  shows "fr_scrollback_total delta = fr_scrollback_total base + length (fr_scrollback_append delta)
    \<and> (\<forall>k < length (fr_scrollback_append delta).
         row_index (fr_scrollback_append delta ! k) = fr_scrollback_total base + k)"
  using assms
  by (auto simp: has_contiguous_scrollback_append_def checked_add64_def list_all_length min_def
      nth_enumerate_eq split: option.splits if_splits)

lemma batch_step_marks:
  assumes fit: "delta_fits f delta" and ms: "length ms = fr_rows f"
    and s: "s = delta_viewport_shift f delta"
    and ms': "ms' = foldl (\<lambda>ms row. ms[row_index row := 1])
      (if 0 < s then zero_from (fr_rows f - s) (copy_within_front s ms) else ms) (fr_viewport_rows delta)"
  shows "length ms' = fr_rows f"
    and "i < fr_rows f \<Longrightarrow> ms' ! i = 0 \<Longrightarrow>
      s = 0 \<and> ms ! i = 0 \<and> overlay (fr_viewport_rows f) (fr_viewport_rows delta) ! i = fr_viewport_rows f ! i"
proof -
  have sle: "s \<le> fr_rows f" using delta_viewport_shift_le s by simp
  then show len: "length ms' = fr_rows f"
    by (auto simp: ms' ms zero_from_def copy_within_front_def)
  assume i: "i < fr_rows f" "ms' ! i = 0"
  have "i \<notin> row_index ` set (fr_viewport_rows delta)"
    using i sle by (auto simp: ms' ms foldl_marks_nth zero_from_def copy_within_front_def)
  then have none: "find (\<lambda>r. row_index r = i) (fr_viewport_rows delta) = None"
    by (fastforce simp: find_None_iff image_iff)
  have "s = 0"
    using complete_changes_cover [of "fr_viewport_rows delta" "fr_rows f" i] none fit i(1)
      delta_viewport_shift_pos [of f delta] unfolding s delta_fits_def by auto
  with i none fit ms show "s = 0 \<and> ms ! i = 0 \<and>
      overlay (fr_viewport_rows f) (fr_viewport_rows delta) ! i = fr_viewport_rows f ! i"
    by (auto simp: ms' foldl_marks_nth overlay_nth delta_fits_def split: if_splits)
qed

lemma batch_step_invar:
  assumes inv: "batch_invar base ds st" and step: "batch_step st delta = Inr st'"
    and small: "length (fr_scrollback_append delta) \<le> u64_max"
  shows "batch_invar base (ds @ [delta]) st'"
proof -
  let ?f = "bs_folded st"
  have nf: "\<not> fr_full delta" and cont: "has_contiguous_scrollback_append ?f delta"
    using step by (auto simp: batch_step_def Let_def split: if_splits)
  have fit: "delta_fits ?f delta"
    using step nf cont by (auto simp: batch_step_def Let_def apply_delta_exact split: if_splits)
  define s where "s = delta_viewport_shift ?f delta"
  define ms where "ms = foldl (\<lambda>ms row. ms[row_index row := 1])
      (if 0 < s then zero_from (fr_rows ?f - s) (copy_within_front s (bs_dirty_marks st)) else bs_dirty_marks st)
      (fr_viewport_rows delta)"
  have rows: "fr_rows (successor ?f delta) = fr_rows ?f" using fit by (simp add: successor_def delta_fits_def)
  have st': "st' = \<lparr>bs_folded = successor ?f delta, bs_dirty_marks = ms,
      bs_append = bs_append st @ fr_scrollback_append delta, bs_shift = min (fr_rows ?f) (bs_shift st + s)\<rparr>"
    using step nf cont fit by (simp add: batch_step_def Let_def apply_delta_exact rows s_def ms_def cong: if_cong)
  have len: "length (bs_dirty_marks st) = fr_rows ?f" using inv by (simp add: batch_invar_def)
  note marks = batch_step_marks [OF fit len s_def ms_def]
  have vlen: "length (fr_viewport_rows ?f) = fr_rows ?f" using fit by (simp add: delta_fits_def)
  note app = contiguous_append [OF cont small]
  have "\<forall>k < length (bs_append st @ fr_scrollback_append delta).
      row_index ((bs_append st @ fr_scrollback_append delta) ! k) = fr_scrollback_total base + k"
    using inv app by (auto simp: batch_invar_def nth_append)
  moreover have "\<forall>i < fr_rows base. ms ! i = 0 \<longrightarrow> bs_shift st = 0 \<and> s = 0
      \<and> overlay (fr_viewport_rows ?f) (fr_viewport_rows delta) ! i = fr_viewport_rows base ! i"
    using marks(2) inv by (auto simp: batch_invar_def)
  ultimately show ?thesis
    using inv nf fit app marks(1) rows vlen
    by (simp add: batch_invar_def st' apply_delta_exact) (simp add: successor_def)
qed

lemma batch_fold_invar:
  assumes "batch_invar base ds st" "fold_res batch_step st deltas = Inr st'"
    "\<forall>d \<in> set deltas. length (fr_scrollback_append d) \<le> u64_max"
  shows "batch_invar base (ds @ deltas) st'"
  using assms
proof (induction deltas arbitrary: st ds)
  case (Cons d deltas)
  then obtain st1 where "batch_step st d = Inr st1" "fold_res batch_step st1 deltas = Inr st'"
    by (auto simp: res_simps)
  with Cons batch_step_invar [of base ds st d st1] show ?case by fastforce
qed simp

lemma batch_folded:
  assumes "fold_cell_delta_batch base deltas = Some batch"
    and "\<forall>d \<in> set deltas. length (fr_scrollback_append d) \<le> u64_max"
  shows "db_frame batch =
           foldl (\<lambda>b f. fst (apply_delta b f)) (clone_cell_grid_frame_without_history base) deltas
    \<and> db_scrollback_append batch = concat (map fr_scrollback_append deltas)
    \<and> fr_scrollback_rows (db_frame batch) = db_scrollback_append batch
    \<and> (\<forall>k < length (db_scrollback_append batch).
         row_index (db_scrollback_append batch ! k) = fr_scrollback_total base + k)
    \<and> length (fr_viewport_rows (db_frame batch)) = fr_rows base
    \<and> (\<forall>i < fr_rows base. fr_viewport_rows (db_frame batch) ! i \<in> set (db_dirty_rows batch)
         \<or> (db_viewport_shift batch = 0 \<and> fr_viewport_rows (db_frame batch) ! i = fr_viewport_rows base ! i))"
proof -
  obtain st where st: "fold_res batch_step (batch_start base) deltas = Inr st" and ne: "deltas \<noteq> []"
    and batch: "db_frame batch = bs_folded st" "db_scrollback_append batch = bs_append st"
      "db_viewport_shift batch = bs_shift st"
      "db_dirty_rows batch = (if bs_shift st = fr_rows (bs_folded st) then fr_viewport_rows (bs_folded st)
          else map snd (filter (\<lambda>(index, _). bs_dirty_marks st ! index \<noteq> 0)
                 (List.enumerate 0 (fr_viewport_rows (bs_folded st)))))"
    using assms(1) by (auto simp: fold_cell_delta_batch_def Let_def split: if_splits sum.splits)
  have inv: "batch_invar base deltas st"
    using batch_fold_invar [OF batch_start_invar st assms(2)] by simp
  have len: "length (fr_viewport_rows (bs_folded st)) = fr_rows base" using inv ne by (simp add: batch_invar_def)
  have dirty: "fr_viewport_rows (bs_folded st) ! i \<in> set (db_dirty_rows batch)"
    if "i < fr_rows base" "bs_dirty_marks st ! i \<noteq> 0" for i
  proof (cases "bs_shift st = fr_rows (bs_folded st)")
    case True
    with that len batch(4) show ?thesis by simp
  next
    case False
    have "(i, fr_viewport_rows (bs_folded st) ! i) \<in> set (List.enumerate 0 (fr_viewport_rows (bs_folded st)))"
      using that len by (simp add: in_set_enumerate_eq)
    with that False show ?thesis unfolding batch(4) by force
  qed
  have "\<forall>i < fr_rows base. fr_viewport_rows (bs_folded st) ! i \<in> set (db_dirty_rows batch)
      \<or> (bs_shift st = 0 \<and> fr_viewport_rows (bs_folded st) ! i = fr_viewport_rows base ! i)"
  proof (intro allI impI)
    fix i
    assume i: "i < fr_rows base"
    show "fr_viewport_rows (bs_folded st) ! i \<in> set (db_dirty_rows batch)
        \<or> (bs_shift st = 0 \<and> fr_viewport_rows (bs_folded st) ! i = fr_viewport_rows base ! i)"
    proof (cases "bs_dirty_marks st ! i = 0")
      case True
      with i inv show ?thesis by (simp add: batch_invar_def)
    next
      case False
      with dirty [OF i] show ?thesis by simp
    qed
  qed
  with inv len show ?thesis unfolding batch(1-3) by (simp add: batch_invar_def)
qed

fun valid_chain :: "cell_grid_frame \<Rightarrow> cell_grid_frame list \<Rightarrow> bool" where
  "valid_chain f [] = True"
| "valid_chain f (d # ds) \<longleftrightarrow> \<not> fr_full d \<and> has_contiguous_scrollback_append f d \<and> delta_fits f d
     \<and> valid_chain (successor f d) ds"

lemma batch_step_Inr_iff:
  "(\<exists>st'. batch_step st d = Inr st') \<longleftrightarrow>
     \<not> fr_full d \<and> has_contiguous_scrollback_append (bs_folded st) d \<and> delta_fits (bs_folded st) d"
  by (auto simp: batch_step_def Let_def apply_delta_exact)

lemma batch_step_folded:
  "batch_step st d = Inr st' \<Longrightarrow> bs_folded st' = successor (bs_folded st) d"
  by (auto simp: batch_step_def Let_def apply_delta_exact split: if_splits)

lemma batch_fold_Inr_iff:
  "(\<exists>st'. fold_res batch_step st deltas = Inr st') \<longleftrightarrow> valid_chain (bs_folded st) deltas"
proof (induction deltas arbitrary: st)
  case (Cons d deltas)
  show ?case
  proof (cases "batch_step st d")
    case (Inl u)
    then have "\<not> (\<exists>st'. batch_step st d = Inr st')" by simp
    with Inl show ?thesis unfolding batch_step_Inr_iff by auto
  next
    case (Inr st1)
    then have "\<exists>st'. batch_step st d = Inr st'" by simp
    with Inr batch_step_folded [OF Inr] Cons.IH [of st1] show ?thesis unfolding batch_step_Inr_iff by simp
  qed
qed simp

text \<open>
  C36: A batch folds exactly when it is a non-empty chain of sparse deltas, each fitting its
  predecessor with contiguous history. Then the folded batch is the run of its deltas, and one patch
  list is enough to paint it. The frame is
  the result of applying every delta in order to the base without its history; the appended history
  is the deltas' appends in order, numbered on from the base's total without a gap; and each row of
  the final viewport is either in the patch list or, when no shift was reported, equal to the row the
  base already had there.
\<close>

theorem batch_correct:
  "case fold_cell_delta_batch base deltas of
     None \<Rightarrow> deltas = [] \<or> \<not> valid_chain (clone_cell_grid_frame_without_history base) deltas
   | Some batch \<Rightarrow> deltas \<noteq> [] \<and> valid_chain (clone_cell_grid_frame_without_history base) deltas
       \<and> ((\<forall>d \<in> set deltas. length (fr_scrollback_append d) \<le> u64_max) \<longrightarrow>
           db_frame batch =
             foldl (\<lambda>b f. fst (apply_delta b f)) (clone_cell_grid_frame_without_history base) deltas
         \<and> db_scrollback_append batch = concat (map fr_scrollback_append deltas)
         \<and> fr_scrollback_rows (db_frame batch) = db_scrollback_append batch
         \<and> (\<forall>k < length (db_scrollback_append batch).
              row_index (db_scrollback_append batch ! k) = fr_scrollback_total base + k)
         \<and> length (fr_viewport_rows (db_frame batch)) = fr_rows base
         \<and> (\<forall>i < fr_rows base. fr_viewport_rows (db_frame batch) ! i \<in> set (db_dirty_rows batch)
              \<or> (db_viewport_shift batch = 0
                 \<and> fr_viewport_rows (db_frame batch) ! i = fr_viewport_rows base ! i)))"
proof (cases "fold_cell_delta_batch base deltas")
  case None
  then have "deltas = [] \<or> \<not> (\<exists>st. fold_res batch_step (batch_start base) deltas = Inr st)"
    by (auto simp: fold_cell_delta_batch_def Let_def split: if_splits sum.splits)
  then show ?thesis
    using None unfolding batch_fold_Inr_iff by (simp add: batch_start_def Let_def)
next
  case (Some batch)
  then have "deltas \<noteq> [] \<and> (\<exists>st. fold_res batch_step (batch_start base) deltas = Inr st)"
    by (auto simp: fold_cell_delta_batch_def Let_def split: if_splits sum.splits)
  then have "deltas \<noteq> [] \<and> valid_chain (clone_cell_grid_frame_without_history base) deltas"
    unfolding batch_fold_Inr_iff by (simp add: batch_start_def Let_def)
  with batch_folded [OF Some] show ?thesis unfolding Some option.case by blast
qed

definition delta_example :: cell_grid_frame where
  "delta_example = (blank_frame 2)\<lparr>fr_full := False, fr_viewport_rows := [cell_row_new 1 []],
     fr_base_seq := 1, fr_seq := 2, fr_image_placements := None\<rparr>"

theorem batch_correct_witness:
  "\<exists>batch. fold_cell_delta_batch (blank_frame 2) [delta_example] = Some batch
     \<and> length (fr_viewport_rows (db_frame batch)) = 2"
proof -
  have fit: "delta_fits (clone_cell_grid_frame_without_history (blank_frame 2)) delta_example"
    by (simp add: delta_fits_def delta_example_def blank_frame_def clone_cell_grid_frame_without_history_def
        clone_frame_without_retained_history_def cell_row_new_def u64_max_def)
  have "valid_chain (clone_cell_grid_frame_without_history (blank_frame 2)) [delta_example]"
    using fit by (simp add: delta_example_def blank_frame_def clone_cell_grid_frame_without_history_def
        clone_frame_without_retained_history_def has_contiguous_scrollback_append_def checked_add64_def u64_max_def)
  moreover have "fr_rows (blank_frame 2) = 2" "length (fr_scrollback_append delta_example) \<le> u64_max"
    by (simp_all add: delta_example_def blank_frame_def)
  ultimately show ?thesis
    using batch_correct [where base = "blank_frame 2" and deltas = "[delta_example]"]
    by (cases "fold_cell_delta_batch (blank_frame 2) [delta_example]") auto
qed

end
