(* ===== verification/Cell_Proto.thy ===== *)
theory Cell_Proto
  imports Cell_Delta
begin

text \<open>
  The wire boundary of the cell model (\<open>cell/proto.rs\<close>, \<open>cell/proto_image.rs\<close>,
  \<open>cell/frame_structure.rs\<close>) over the messages of \<open>cell.proto\<close>. Protobuf byte encoding is not
  modelled; these are the conversions and checks on decoded messages. The owned and the borrowed
  decode differ only in whether strings are moved, which a value model does not show.
\<close>

section \<open>Messages\<close>

record pb_cell_span =
  pbs_text :: scalars
  pbs_fg :: nat
  pbs_bg :: nat
  pbs_flags :: nat
  pbs_fg_rgb :: "nat option"
  pbs_bg_rgb :: "nat option"
  pbs_columns :: nat
  pbs_link_uri :: "scalars option"
  pbs_link_key :: "scalars option"

record pb_cell_row =
  pbr_index :: nat
  pbr_spans :: "pb_cell_span list"
  pbr_mark :: nat

record pb_image_placement =
  pbi_image_key :: nat
  pbi_row :: nat
  pbi_col :: nat
  pbi_columns :: nat
  pbi_rows :: nat
  pbi_source_x :: nat
  pbi_source_y :: nat
  pbi_source_width :: nat
  pbi_source_height :: nat
  pbi_image_width :: nat
  pbi_image_height :: nat
  pbi_offset_x_px :: nat
  pbi_offset_y_px :: nat
  pbi_z_index :: int

record pb_cell_grid_frame =
  pb_session_id :: string
  pb_cols :: nat
  pb_rows :: nat
  pb_cursor_row :: nat
  pb_cursor_col :: nat
  pb_cursor_visible :: bool
  pb_alt_screen :: bool
  pb_full :: bool
  pb_viewport_rows :: "pb_cell_row list"
  pb_scrollback_rows :: "pb_cell_row list"
  pb_scrollback_append :: "pb_cell_row list"
  pb_scrollback_total :: nat
  pb_seq :: nat
  pb_sb_base :: nat
  pb_cursor_keys_app :: bool
  pb_bracketed_paste :: bool
  pb_pty_out_ms :: nat
  pb_worker_emit_ms :: nat
  pb_coord_recv_ms :: nat
  pb_coord_fanout_ms :: nat
  pb_grid_epoch :: string
  pb_mouse_tracking :: nat
  pb_mouse_sgr :: bool
  pb_focus_events :: bool
  pb_stream_id :: string
  pb_base_seq :: nat
  pb_kitty_keyboard_flags :: nat
  pb_image_placements :: "pb_image_placement list"
  pb_image_placements_present :: bool

section \<open>Rows and spans\<close>

definition span_to_proto :: "cell_span \<Rightarrow> pb_cell_span" where
  "span_to_proto s =
     \<lparr>pbs_text = sp_text s, pbs_fg = sp_fg s, pbs_bg = sp_bg s, pbs_flags = sp_flags s,
      pbs_fg_rgb = sp_fg_rgb s, pbs_bg_rgb = sp_bg_rgb s, pbs_columns = sp_columns s,
      pbs_link_uri = sp_link_uri s, pbs_link_key = sp_link_key s\<rparr>"

definition cell_row_to_proto :: "cell_row \<Rightarrow> pb_cell_row" where
  "cell_row_to_proto row =
     \<lparr>pbr_index = row_index row, pbr_spans = map span_to_proto (row_spans row),
      pbr_mark = row_mark row AND KNOWN\<rparr>"

definition narrow_span_field :: "nat \<Rightarrow> string \<Rightarrow> nat \<Rightarrow> nat protocol_result" where
  "narrow_span_field position name value =
     (case try_u16 value of
        None \<Rightarrow> Err (ProtocolError (''cell_row.spans['' @ show_nat position @ ''].'' @ name))
      | Some v \<Rightarrow> Ok v)"

definition span_from_proto :: "nat \<times> pb_cell_span \<Rightarrow> cell_span protocol_result" where
  "span_from_proto = (\<lambda>(position, s).
     res_bind (narrow_span_field position ''fg'' (pbs_fg s)) (\<lambda>fg.
     res_bind (narrow_span_field position ''bg'' (pbs_bg s)) (\<lambda>bg.
     res_bind (narrow_span_field position ''flags'' (pbs_flags s)) (\<lambda>flags.
       Ok \<lparr>sp_text = pbs_text s, sp_fg = fg, sp_bg = bg, sp_flags = flags,
           sp_fg_rgb = pbs_fg_rgb s, sp_bg_rgb = pbs_bg_rgb s, sp_columns = pbs_columns s,
           sp_link_uri = pbs_link_uri s, sp_link_key = pbs_link_key s\<rparr>))))"

definition checked_row :: "nat \<Rightarrow> nat \<Rightarrow> cell_span list \<Rightarrow> nat \<Rightarrow> cell_row protocol_result" where
  "checked_row index mark spans max_columns =
     (let value = cell_row_with_mark index spans (mark mod 256)
      in res_bind (assert_cell_row_spans value max_columns) (\<lambda>_. Ok value))"

definition cell_row_from_proto_bounded :: "pb_cell_row \<Rightarrow> nat \<Rightarrow> cell_row protocol_result" where
  "cell_row_from_proto_bounded row max_columns =
     res_bind (map_res span_from_proto (List.enumerate 0 (pbr_spans row))) (\<lambda>spans.
       checked_row (pbr_index row) (pbr_mark row) spans max_columns)"

definition cell_row_from_proto :: "pb_cell_row \<Rightarrow> cell_row protocol_result" where
  "cell_row_from_proto row = cell_row_from_proto_bounded row 0"

section \<open>Image placements\<close>

definition placement_to_proto :: "image_placement \<Rightarrow> pb_image_placement" where
  "placement_to_proto p =
     \<lparr>pbi_image_key = ip_image_key p, pbi_row = ip_row p, pbi_col = ip_col p,
      pbi_columns = ip_columns p, pbi_rows = ip_rows p, pbi_source_x = ip_source_x p,
      pbi_source_y = ip_source_y p, pbi_source_width = ip_source_width p,
      pbi_source_height = ip_source_height p, pbi_image_width = ip_image_width p,
      pbi_image_height = ip_image_height p, pbi_offset_x_px = ip_offset_x_px p,
      pbi_offset_y_px = ip_offset_y_px p, pbi_z_index = ip_z_index p\<rparr>"

definition placements_to_proto :: "image_placement list option \<Rightarrow> pb_image_placement list \<times> bool" where
  "placements_to_proto placements =
     (case placements of None \<Rightarrow> ([], False) | Some ps \<Rightarrow> (map placement_to_proto ps, True))"

definition narrow_placement :: "nat \<Rightarrow> string \<Rightarrow> nat \<Rightarrow> nat protocol_result" where
  "narrow_placement position name value =
     (case try_u16 value of
        None \<Rightarrow> Err (ProtocolError (''cell_frame.image_placements['' @ show_nat position @ ''].'' @ name))
      | Some v \<Rightarrow> Ok v)"

definition placement_from_proto :: "nat \<times> pb_image_placement \<Rightarrow> image_placement protocol_result" where
  "placement_from_proto = (\<lambda>(position, p).
     res_bind (narrow_placement position ''columns'' (pbi_columns p)) (\<lambda>columns.
     res_bind (narrow_placement position ''rows'' (pbi_rows p)) (\<lambda>rows.
     if columns = 0 \<or> rows = 0
     then Err (ProtocolError (''cell_frame.image_placements['' @ show_nat position @ '']''))
     else
       res_bind (narrow_placement position ''col'' (pbi_col p)) (\<lambda>col.
       res_bind (narrow_placement position ''offset_x_px'' (pbi_offset_x_px p)) (\<lambda>ox.
       res_bind (narrow_placement position ''offset_y_px'' (pbi_offset_y_px p)) (\<lambda>oy.
         Ok \<lparr>ip_image_key = pbi_image_key p, ip_row = pbi_row p, ip_col = col, ip_columns = columns,
             ip_rows = rows, ip_source_x = pbi_source_x p, ip_source_y = pbi_source_y p,
             ip_source_width = pbi_source_width p, ip_source_height = pbi_source_height p,
             ip_image_width = pbi_image_width p, ip_image_height = pbi_image_height p,
             ip_offset_x_px = ox, ip_offset_y_px = oy, ip_z_index = pbi_z_index p\<rparr>))))))"

definition placements_from_proto :: "pb_cell_grid_frame \<Rightarrow> image_placement list option protocol_result" where
  "placements_from_proto frame =
     (if \<not> pb_image_placements_present frame then Ok (if pb_full frame then Some [] else None)
      else if MAX_IMAGE_PLACEMENTS < length (pb_image_placements frame)
        then Err (ProtocolError ''cell_frame.image_placements'')
      else res_bind (map_res placement_from_proto (List.enumerate 0 (pb_image_placements frame)))
             (\<lambda>decoded. Ok (Some decoded)))"

section \<open>Frame identity and structure\<close>

definition assert_frame_identity ::
  "string \<Rightarrow> string \<Rightarrow> bool \<Rightarrow> nat \<Rightarrow> nat \<Rightarrow> unit protocol_result" where
  "assert_frame_identity stream_id grid_epoch full base_seq seq =
     (if \<not> is_terminal_uuid stream_id then Err (ProtocolError ''cell.stream_id'')
      else if grid_epoch = [] then Err (ProtocolError ''cell.grid_epoch'')
      else if seq < 1 then Err (ProtocolError ''cell.seq'')
      else if full then
        (if base_seq \<noteq> 0 then Err (ProtocolError ''cell.base_seq'') else Ok ())
      else if seq \<noteq> (base_seq + 1) mod 2 ^ 64 then Err (ProtocolError ''cell.seq'')
      else Ok ())"

definition assert_frame_sequence :: "pb_cell_grid_frame \<Rightarrow> unit protocol_result" where
  "assert_frame_sequence frame =
     assert_frame_identity (pb_stream_id frame) (pb_grid_epoch frame) (pb_full frame)
       (pb_base_seq frame) (pb_seq frame)"

definition see_row :: "nat \<Rightarrow> bool list \<times> nat \<Rightarrow> pb_cell_row \<Rightarrow> (bool list \<times> nat) protocol_result" where
  "see_row rows = (\<lambda>(seen, seen_count) row.
     if rows \<le> pbr_index row
     then Err (ProtocolError (''cell_frame.viewport_rows['' @ show_nat (pbr_index row) @ ''].index''))
     else if seen ! pbr_index row
     then Err (ProtocolError (''cell_frame.viewport_rows['' @ show_nat (pbr_index row) @ ''].index''))
     else Ok (seen[pbr_index row := True], seen_count + 1))"

definition history_row :: "nat \<Rightarrow> unit \<Rightarrow> nat \<times> pb_cell_row \<Rightarrow> unit protocol_result" where
  "history_row sb_base = (\<lambda>_ (offset, row).
     if pbr_index row \<noteq> sb_base + offset
     then Err (ProtocolError (''cell_frame.scrollback_rows['' @ show_nat offset @ ''].index''))
     else Ok ())"

definition assert_frame_structure :: "pb_cell_grid_frame \<Rightarrow> unit protocol_result" where
  "assert_frame_structure frame =
     res_bind (map_err (Branded_Ids.within ''cell_frame'')
       (assert_terminal_geometry \<lparr>geo_cols = pb_cols frame, geo_rows = pb_rows frame\<rparr>)) (\<lambda>_.
     res_bind (fold_res (see_row (pb_rows frame)) (replicate (pb_rows frame) False, 0)
       (pb_viewport_rows frame)) (\<lambda>(_, seen_count).
     if \<not> pb_full frame then
       (if pb_scrollback_rows frame \<noteq> [] then Err (ProtocolError ''cell_frame.scrollback_rows'') else Ok ())
     else if seen_count \<noteq> pb_rows frame then Err (ProtocolError ''cell_frame.viewport_rows'')
     else if pb_scrollback_append frame \<noteq> [] then Err (ProtocolError ''cell_frame.scrollback_append'')
     else if pb_scrollback_total frame < pb_sb_base frame
       \<or> length (pb_scrollback_rows frame) \<noteq> pb_scrollback_total frame - pb_sb_base frame
     then Err (ProtocolError ''cell_frame.scrollback_rows'')
     else fold_res (history_row (pb_sb_base frame)) () (List.enumerate 0 (pb_scrollback_rows frame))))"

section \<open>Whole frames\<close>

definition frame_message :: "cell_grid_frame \<Rightarrow> string \<Rightarrow> pb_cell_grid_frame" where
  "frame_message frame session =
     \<lparr>pb_session_id = session, pb_cols = fr_cols frame, pb_rows = fr_rows frame,
      pb_cursor_row = fr_cursor_row frame, pb_cursor_col = fr_cursor_col frame,
      pb_cursor_visible = fr_cursor_visible frame, pb_alt_screen = fr_alt_screen frame,
      pb_full = fr_full frame, pb_viewport_rows = map cell_row_to_proto (fr_viewport_rows frame),
      pb_scrollback_rows = map cell_row_to_proto (fr_scrollback_rows frame),
      pb_scrollback_append = map cell_row_to_proto (fr_scrollback_append frame),
      pb_scrollback_total = fr_scrollback_total frame, pb_seq = fr_seq frame,
      pb_sb_base = fr_sb_base frame, pb_cursor_keys_app = fr_cursor_keys_app frame,
      pb_bracketed_paste = fr_bracketed_paste frame, pb_pty_out_ms = 0, pb_worker_emit_ms = 0,
      pb_coord_recv_ms = 0, pb_coord_fanout_ms = 0, pb_grid_epoch = fr_grid_epoch frame,
      pb_mouse_tracking = mouse_tracking_to_u32 (fr_mouse_tracking frame),
      pb_mouse_sgr = fr_mouse_sgr frame, pb_focus_events = fr_focus_events frame,
      pb_stream_id = fr_stream_id frame, pb_base_seq = fr_base_seq frame,
      pb_kitty_keyboard_flags = fr_kitty_keyboard_flags frame,
      pb_image_placements = fst (placements_to_proto (fr_image_placements frame)),
      pb_image_placements_present = snd (placements_to_proto (fr_image_placements frame))\<rparr>"

definition cell_frame_to_proto :: "cell_grid_frame \<Rightarrow> string \<Rightarrow> pb_cell_grid_frame protocol_result" where
  "cell_frame_to_proto frame session =
     res_bind (assert_frame_identity (fr_stream_id frame) (fr_grid_epoch frame) (fr_full frame)
       (fr_base_seq frame) (fr_seq frame)) (\<lambda>_.
     res_bind (assert_frame_structure (frame_message frame session)) (\<lambda>_.
       Ok (frame_message frame session)))"

definition kitty_flags_from_u32 :: "nat \<Rightarrow> nat" where
  "kitty_flags_from_u32 raw = (if raw < 256 then raw else 0) AND 0x1f"

definition frame_scalars :: "pb_cell_grid_frame \<Rightarrow> cell_grid_frame" where
  "frame_scalars frame =
     \<lparr>fr_stream_id = [], fr_grid_epoch = [], fr_cols = pb_cols frame, fr_rows = pb_rows frame,
      fr_cursor_row = pb_cursor_row frame, fr_cursor_col = pb_cursor_col frame,
      fr_cursor_visible = pb_cursor_visible frame, fr_alt_screen = pb_alt_screen frame,
      fr_cursor_keys_app = pb_cursor_keys_app frame, fr_bracketed_paste = pb_bracketed_paste frame,
      fr_mouse_tracking = as_mouse_tracking (pb_mouse_tracking frame),
      fr_mouse_sgr = pb_mouse_sgr frame, fr_focus_events = pb_focus_events frame,
      fr_kitty_keyboard_flags = kitty_flags_from_u32 (pb_kitty_keyboard_flags frame),
      fr_full = pb_full frame, fr_viewport_rows = [], fr_scrollback_rows = [],
      fr_scrollback_append = [], fr_scrollback_total = pb_scrollback_total frame,
      fr_sb_base = pb_sb_base frame, fr_base_seq = pb_base_seq frame, fr_seq = pb_seq frame,
      fr_image_placements = None\<rparr>"

definition decode_rows :: "pb_cell_row list \<Rightarrow> nat \<Rightarrow> cell_row list protocol_result" where
  "decode_rows rows max_columns = map_res (\<lambda>row. cell_row_from_proto_bounded row max_columns) rows"

definition proto_to_cell_frame :: "pb_cell_grid_frame \<Rightarrow> cell_grid_frame protocol_result" where
  "proto_to_cell_frame frame =
     res_bind (assert_frame_sequence frame) (\<lambda>_.
     res_bind (assert_frame_structure frame) (\<lambda>_.
     res_bind (decode_rows (pb_viewport_rows frame) (pb_cols frame)) (\<lambda>viewport.
     res_bind (decode_rows (pb_scrollback_rows frame) 0) (\<lambda>history.
     res_bind (decode_rows (pb_scrollback_append frame) 0) (\<lambda>append.
     res_bind (placements_from_proto frame) (\<lambda>placements.
       Ok ((frame_scalars frame)\<lparr>fr_viewport_rows := viewport, fr_scrollback_rows := history,
             fr_scrollback_append := append, fr_stream_id := pb_stream_id frame,
             fr_grid_epoch := pb_grid_epoch frame, fr_image_placements := placements\<rparr>)))))))"

definition proto_into_cell_frame :: "pb_cell_grid_frame \<Rightarrow> cell_grid_frame protocol_result" where
  "proto_into_cell_frame frame =
     res_bind (assert_frame_sequence frame) (\<lambda>_.
     res_bind (assert_frame_structure frame) (\<lambda>_.
     res_bind (placements_from_proto frame) (\<lambda>placements.
     res_bind (decode_rows (pb_viewport_rows frame) (pb_cols frame)) (\<lambda>viewport.
     res_bind (decode_rows (pb_scrollback_rows frame) 0) (\<lambda>history.
     res_bind (decode_rows (pb_scrollback_append frame) 0) (\<lambda>append.
       Ok ((frame_scalars frame)\<lparr>fr_viewport_rows := viewport, fr_scrollback_rows := history,
             fr_scrollback_append := append, fr_stream_id := pb_stream_id frame,
             fr_grid_epoch := pb_grid_epoch frame, fr_image_placements := placements\<rparr>)))))))"

section \<open>Lemmas\<close>

lemma try_u16_simps [simp]:
  "n \<le> u16_max \<Longrightarrow> try_u16 n = Some n"
  "try_u16 n = Some m \<longleftrightarrow> n \<le> u16_max \<and> m = n"
  by (auto simp: try_u16_def)

lemma narrow_span_field_Inr [res_simps]: "narrow_span_field p f n = Inr m \<longleftrightarrow> n \<le> u16_max \<and> m = n"
  by (auto simp: narrow_span_field_def split: option.splits)

lemma narrow_placement_Inr [res_simps]: "narrow_placement p f n = Inr m \<longleftrightarrow> n \<le> u16_max \<and> m = n"
  by (auto simp: narrow_placement_def split: option.splits)

lemma kitty_flags_mod: "kitty_flags_from_u32 n = (if n < 256 then n mod 32 else 0)"
proof -
  have "(0x1f :: nat) = mask 5" by (simp add: mask_eq_exp_minus_1)
  then have "m AND 0x1f = take_bit 5 m" for m :: nat by (simp only: take_bit_eq_mask)
  then show ?thesis by (simp add: kitty_flags_from_u32_def take_bit_eq_mod)
qed

definition span_ready :: "cell_span \<Rightarrow> bool" where
  "span_ready s \<longleftrightarrow> sp_fg s \<le> u16_max \<and> sp_bg s \<le> u16_max \<and> sp_flags s \<le> u16_max"

definition row_ready :: "nat \<Rightarrow> cell_row \<Rightarrow> bool" where
  "row_ready w r \<longleftrightarrow> (\<forall>s \<in> set (row_spans r). span_ready s) \<and> row_mark r < 16
     \<and> assert_cell_row_spans r w = Ok ()"

definition placement_ready :: "image_placement \<Rightarrow> bool" where
  "placement_ready p \<longleftrightarrow> 1 \<le> ip_columns p \<and> ip_columns p \<le> u16_max \<and> 1 \<le> ip_rows p \<and> ip_rows p \<le> u16_max
     \<and> ip_col p \<le> u16_max \<and> ip_offset_x_px p \<le> u16_max \<and> ip_offset_y_px p \<le> u16_max"

definition frame_ready :: "cell_grid_frame \<Rightarrow> bool" where
  "frame_ready f \<longleftrightarrow>
     (\<forall>r \<in> set (fr_viewport_rows f). row_ready (fr_cols f) r)
     \<and> (\<forall>r \<in> set (fr_scrollback_rows f) \<union> set (fr_scrollback_append f). row_ready 0 r)
     \<and> fr_kitty_keyboard_flags f < 32 \<and> fr_mouse_tracking f \<in> {TrackNone, PressRelease, ButtonMotion}
     \<and> (case fr_image_placements f of
          None \<Rightarrow> \<not> fr_full f
        | Some ps \<Rightarrow> length ps \<le> MAX_IMAGE_PLACEMENTS \<and> (\<forall>p \<in> set ps. placement_ready p))"

lemma map_res_enumerate_map:
  assumes "\<And>i x. x \<in> set xs \<Longrightarrow> f (i, g x) = Inr x"
  shows "map_res f (List.enumerate n (map g xs)) = Inr xs"
  using assms by (induction xs arbitrary: n) auto

lemma map_res_map:
  assumes "\<And>x. x \<in> set xs \<Longrightarrow> f (g x) = Inr x"
  shows "map_res f (map g xs) = Inr xs"
  using assms by (induction xs) auto

lemma row_roundtrip: "row_ready w r \<Longrightarrow> cell_row_from_proto_bounded (cell_row_to_proto r) w = Ok r"
proof -
  assume ready: "row_ready w r"
  have "map_res span_from_proto (List.enumerate 0 (map span_to_proto (row_spans r))) = Inr (row_spans r)"
    by (rule map_res_enumerate_map)
      (use ready in \<open>auto simp: span_from_proto_def span_to_proto_def row_ready_def span_ready_def
         narrow_span_field_def\<close>)
  moreover have "cell_row_with_mark (row_index r) (row_spans r) (row_mark r) = r"
    using ready by (simp add: cell_row_with_mark_def row_ready_def)
  ultimately show ?thesis
    using ready by (simp add: cell_row_from_proto_bounded_def cell_row_to_proto_def checked_row_def Let_def row_ready_def)
qed

lemma placements_roundtrip:
  assumes "frame_ready f"
  shows "placements_from_proto (frame_message f sid) = Ok (fr_image_placements f)"
proof (cases "fr_image_placements f")
  case None
  with assms show ?thesis
    by (simp add: placements_from_proto_def frame_message_def placements_to_proto_def frame_ready_def)
next
  case (Some ps)
  have "map_res placement_from_proto (List.enumerate 0 (map placement_to_proto ps)) = Inr ps"
    by (rule map_res_enumerate_map)
      (use assms Some in \<open>auto simp: placement_from_proto_def placement_to_proto_def frame_ready_def
         placement_ready_def narrow_placement_def\<close>)
  with assms Some show ?thesis
    by (simp add: placements_from_proto_def frame_message_def placements_to_proto_def frame_ready_def)
qed

lemma rows_roundtrip:
  "\<forall>r \<in> set rows. row_ready w r \<Longrightarrow> decode_rows (map cell_row_to_proto rows) w = Ok rows"
  unfolding decode_rows_def by (rule map_res_map) (simp add: row_roundtrip)

lemma frame_message_decodes:
  assumes "frame_ready f" "assert_frame_sequence (frame_message f sid) = Ok ()"
    "assert_frame_structure (frame_message f sid) = Ok ()"
  shows "proto_to_cell_frame (frame_message f sid) = Ok f \<and> proto_into_cell_frame (frame_message f sid) = Ok f"
proof -
  let ?m = "frame_message f sid"
  have rows: "decode_rows (pb_viewport_rows ?m) (pb_cols ?m) = Ok (fr_viewport_rows f)"
    "decode_rows (pb_scrollback_rows ?m) 0 = Ok (fr_scrollback_rows f)"
    "decode_rows (pb_scrollback_append ?m) 0 = Ok (fr_scrollback_append f)"
    using assms(1) by (simp_all add: frame_message_def rows_roundtrip frame_ready_def)
  have "as_mouse_tracking (mouse_tracking_to_u32 (fr_mouse_tracking f)) = fr_mouse_tracking f"
    "kitty_flags_from_u32 (fr_kitty_keyboard_flags f) = fr_kitty_keyboard_flags f"
    using assms(1)
    by (auto simp: frame_ready_def as_mouse_tracking_def mouse_tracking_from_u32_def kitty_flags_mod)
  then have "(frame_scalars ?m)\<lparr>fr_viewport_rows := fr_viewport_rows f, fr_scrollback_rows := fr_scrollback_rows f,
      fr_scrollback_append := fr_scrollback_append f, fr_stream_id := pb_stream_id ?m,
      fr_grid_epoch := pb_grid_epoch ?m, fr_image_placements := fr_image_placements f\<rparr> = f"
    by (simp add: frame_scalars_def frame_message_def)
  with assms rows placements_roundtrip [OF assms(1), of sid] show ?thesis
    by (simp add: proto_to_cell_frame_def proto_into_cell_frame_def)
qed

text \<open>
  The wire loses nothing: whenever a frame the value model holds is encoded for any session,
  decoding the message, copying or consuming it, gives back exactly that frame. The frame must be
  one a receiver could paint: rows within their contract and widths, palette values of sixteen bits,
  known marks, modes and flags, and a stated image set on a full frame.
\<close>

theorem frame_roundtrip:
  assumes "frame_ready f" "cell_frame_to_proto f sid = Ok m"
  shows "proto_to_cell_frame m = Ok f \<and> proto_into_cell_frame m = Ok f \<and> pb_session_id m = sid"
proof -
  have "m = frame_message f sid" "assert_frame_structure m = Ok ()" "assert_frame_sequence m = Ok ()"
    using assms(2) by (auto simp: cell_frame_to_proto_def res_simps assert_frame_sequence_def frame_message_def)
  with frame_message_decodes [OF assms(1)] show ?thesis by (simp add: frame_message_def)
qed

lemma blank_frame_ready: "frame_ready (blank_frame n)"
  by (auto simp: frame_ready_def blank_frame_def cell_row_new_def row_ready_def assert_cell_row_spans_def)

theorem frame_roundtrip_witness:
  "\<exists>m. cell_frame_to_proto (blank_frame 1) ''s'' = Ok m \<and> proto_to_cell_frame m = Ok (blank_frame 1)"
proof -
  have id: "is_terminal_uuid ''00000000-0000-4000-8000-000000000001''"
    by (simp add: is_terminal_uuid_def UUID_LEN_def is_uuid_version_def is_uuid_variant_def
        is_ascii_hexdigit_def is_ascii_digit_def is_lower_hex_alpha_def enumerate_eq_zip upt_rec)
  have "\<exists>m. cell_frame_to_proto (blank_frame 1) ''s'' = Ok m"
    using id by (simp add: cell_frame_to_proto_def assert_frame_identity_def frame_message_def blank_frame_def
        assert_frame_structure_def assert_terminal_geometry_def is_terminal_geometry_def viewport_limits
        see_row_def cell_row_to_proto_def cell_row_new_def)
  with frame_roundtrip [OF blank_frame_ready] show ?thesis by blast
qed

section \<open>What the structure check accepts\<close>

lemma see_rows_iff:
  assumes "length seen = rows"
  shows "(\<exists>st. fold_res (see_row rows) (seen, n) rs = Inr st) \<longleftrightarrow>
     distinct (map pbr_index rs) \<and> (\<forall>r \<in> set rs. pbr_index r < rows \<and> \<not> seen ! pbr_index r)"
  using assms
proof (induction rs arbitrary: seen n)
  case (Cons r rs)
  show ?case
  proof (cases "pbr_index r < rows \<and> \<not> seen ! pbr_index r")
    case True
    then have "see_row rows (seen, n) r = Inr (seen[pbr_index r := True], n + 1)" by (simp add: see_row_def)
    with Cons.IH [of "seen[pbr_index r := True]" "n + 1"] Cons.prems True show ?thesis
      by (auto simp: nth_list_update split: if_splits)
  next
    case False
    then have "\<exists>e. see_row rows (seen, n) r = Inl e" by (auto simp: see_row_def)
    with False show ?thesis by auto
  qed
qed simp

lemma see_rows_count: "fold_res (see_row rows) (seen, n) rs = Inr (seen', n') \<Longrightarrow> n' = n + length rs"
proof (induction rs arbitrary: seen n)
  case (Cons r rs)
  then obtain s1 n1 where "see_row rows (seen, n) r = Inr (s1, n1)" "fold_res (see_row rows) (s1, n1) rs = Inr (seen', n')"
    by (auto simp: res_simps)
  moreover from this(1) have "n1 = n + 1" by (auto simp: see_row_def split: if_splits)
  ultimately show ?case using Cons.IH by fastforce
qed simp

lemma history_rows_iff:
  "fold_res (history_row b) () (List.enumerate k rs) = Inr () \<longleftrightarrow> map pbr_index rs = [b + k ..< b + k + length rs]"
proof (induction rs arbitrary: k)
  case (Cons r rs)
  have "[b + k ..< b + k + length (r # rs)] = (b + k) # [b + Suc k ..< b + Suc k + length rs]"
    by (simp add: upt_rec)
  with Cons.IH [of "Suc k"] show ?case by (auto simp: history_row_def res_simps)
qed simp

definition frame_structured :: "pb_cell_grid_frame \<Rightarrow> bool" where
  "frame_structured m \<longleftrightarrow>
     is_terminal_geometry \<lparr>geo_cols = pb_cols m, geo_rows = pb_rows m\<rparr>
     \<and> distinct (map pbr_index (pb_viewport_rows m))
     \<and> set (map pbr_index (pb_viewport_rows m)) \<subseteq> {0..<pb_rows m}
     \<and> (if pb_full m
        then set (map pbr_index (pb_viewport_rows m)) = {0..<pb_rows m} \<and> pb_scrollback_append m = []
             \<and> pb_sb_base m \<le> pb_scrollback_total m
             \<and> map pbr_index (pb_scrollback_rows m) = [pb_sb_base m ..< pb_scrollback_total m]
        else pb_scrollback_rows m = [])"

lemma full_cover_iff:
  assumes "distinct xs" "set xs \<subseteq> {0..<n}"
  shows "length xs = n \<longleftrightarrow> set xs = {0..<n}"
proof
  assume "length xs = n"
  with assms show "set xs = {0..<n}" by (intro card_subset_eq) (auto simp: distinct_card)
next
  assume "set xs = {0..<n}"
  with distinct_card [OF assms(1)] show "length xs = n" by simp
qed

lemma structure_exact: "assert_frame_structure m = Ok () \<longleftrightarrow> frame_structured m"
proof (cases "is_terminal_geometry \<lparr>geo_cols = pb_cols m, geo_rows = pb_rows m\<rparr>")
  case False
  then show ?thesis by (simp add: assert_frame_structure_def assert_terminal_geometry_def frame_structured_def)
next
  case geo: True
  let ?xs = "map pbr_index (pb_viewport_rows m)" and ?hs = "map pbr_index (pb_scrollback_rows m)"
  have seen: "(\<exists>st. fold_res (see_row (pb_rows m)) (replicate (pb_rows m) False, 0) (pb_viewport_rows m) = Inr st)
      \<longleftrightarrow> distinct ?xs \<and> set ?xs \<subseteq> {0..<pb_rows m}"
    by (subst see_rows_iff) auto
  show ?thesis
  proof (cases "fold_res (see_row (pb_rows m)) (replicate (pb_rows m) False, 0) (pb_viewport_rows m)")
    case (Inl e)
    with seen geo show ?thesis
      by (auto simp: assert_frame_structure_def assert_terminal_geometry_def frame_structured_def)
  next
    case (Inr st)
    then obtain s where st: "st = (s, length ?xs)"
      using see_rows_count by (cases st) fastforce
    have ok: "distinct ?xs" "set ?xs \<subseteq> {0..<pb_rows m}" using seen Inr by auto
    have hist: "(pb_sb_base m \<le> pb_scrollback_total m \<and> length ?hs = pb_scrollback_total m - pb_sb_base m
        \<and> ?hs = [pb_sb_base m ..< pb_sb_base m + length ?hs])
      \<longleftrightarrow> pb_sb_base m \<le> pb_scrollback_total m \<and> ?hs = [pb_sb_base m ..< pb_scrollback_total m]"
      by (metis add_diff_inverse_nat length_upt not_less)
    have "assert_frame_structure m = Ok () \<longleftrightarrow>
      (if pb_full m then length ?xs = pb_rows m \<and> pb_scrollback_append m = []
         \<and> (pb_sb_base m \<le> pb_scrollback_total m \<and> length ?hs = pb_scrollback_total m - pb_sb_base m
            \<and> ?hs = [pb_sb_base m ..< pb_sb_base m + length ?hs])
       else pb_scrollback_rows m = [])"
      using geo Inr st history_rows_iff [of "pb_sb_base m" 0 "pb_scrollback_rows m"]
      by (auto simp: assert_frame_structure_def assert_terminal_geometry_def)
    then show ?thesis
      unfolding hist full_cover_iff [OF ok] using geo ok by (auto simp: frame_structured_def)
  qed
qed

text \<open>
  The structure check is exact: a message passes if and only if its geometry is legal, no
  viewport index occurs twice or out of range, a delta carries no history window, and a full frame
  covers every viewport row and states history for exactly the lines from its base to its total, in
  order.
\<close>

theorem structure_check_exact:
  "(assert_frame_structure m = Ok ()) = frame_structured m"
  by (rule structure_exact)

lemma span_from_proto_ready: "span_from_proto p = Inr s \<Longrightarrow> span_ready s"
  by (cases p) (auto simp: span_from_proto_def res_simps span_ready_def)

lemma row_decoded_ready:
  assumes "cell_row_from_proto_bounded r w = Inr v"
  shows "row_ready w v \<and> row_index v = pbr_index r"
proof -
  obtain ss where ss: "map_res span_from_proto (List.enumerate 0 (pbr_spans r)) = Inr ss"
    "checked_row (pbr_index r) (pbr_mark r) ss w = Inr v"
    using assms by (auto simp: cell_row_from_proto_bounded_def res_simps)
  have "\<forall>s \<in> set ss. span_ready s"
    using map_res_from [OF ss(1)] span_from_proto_ready by blast
  with ss(2) show ?thesis
    by (auto simp: checked_row_def Let_def res_simps cell_row_with_mark_def row_ready_def)
qed

lemma rows_decoded_ready:
  assumes "decode_rows rs w = Inr vs"
  shows "(\<forall>v \<in> set vs. row_ready w v) \<and> map row_index vs = map pbr_index rs"
proof -
  have "list_all2 (\<lambda>r v. row_ready w v \<and> row_index v = pbr_index r) rs vs"
    using assms by (auto simp: decode_rows_def map_res_Inr_iff elim!: list_all2_mono dest: row_decoded_ready)
  then show ?thesis by (induction rule: list_all2_induct) auto
qed

lemma placement_from_proto_ready: "placement_from_proto p = Inr q \<Longrightarrow> placement_ready q"
  by (cases p) (auto simp: placement_from_proto_def res_simps placement_ready_def split: if_splits)

lemma placements_decoded_ready:
  assumes "placements_from_proto m = Inr ps"
  shows "case ps of None \<Rightarrow> \<not> pb_full m
    | Some qs \<Rightarrow> length qs \<le> MAX_IMAGE_PLACEMENTS \<and> (\<forall>q \<in> set qs. placement_ready q)"
proof (cases "pb_image_placements_present m")
  case False
  with assms show ?thesis by (auto simp: placements_from_proto_def MAX_IMAGE_PLACEMENTS_def split: if_splits)
next
  case True
  then obtain qs where "map_res placement_from_proto (List.enumerate 0 (pb_image_placements m)) = Inr qs"
    "ps = Some qs" "length (pb_image_placements m) \<le> MAX_IMAGE_PLACEMENTS"
    using assms by (auto simp: placements_from_proto_def res_simps split: if_splits)
  then show ?thesis
    using map_res_length map_res_from placement_from_proto_ready by fastforce
qed

lemma index_of_to_proto [simp]: "map pbr_index (map cell_row_to_proto rs) = map row_index rs"
  by (simp add: cell_row_to_proto_def comp_def)

text \<open>
  A decoded frame is a frame every later hop accepts: whatever message a peer sent, if it decodes
  then the frame is within the row, palette, mark, mode and image contracts, it can be encoded again
  for any session, and that message decodes to the same frame.
\<close>

theorem decoded_frame_relays:
  assumes "proto_to_cell_frame m = Ok f"
  shows "frame_ready f \<and> (\<exists>m'. cell_frame_to_proto f sid = Ok m' \<and> proto_to_cell_frame m' = Ok f)"
proof -
  obtain v h a ps where dec: "decode_rows (pb_viewport_rows m) (pb_cols m) = Inr v"
    "decode_rows (pb_scrollback_rows m) 0 = Inr h" "decode_rows (pb_scrollback_append m) 0 = Inr a"
    "placements_from_proto m = Inr ps" "assert_frame_sequence m = Inr ()" "assert_frame_structure m = Inr ()"
    and f: "f = (frame_scalars m)\<lparr>fr_viewport_rows := v, fr_scrollback_rows := h, fr_scrollback_append := a,
      fr_stream_id := pb_stream_id m, fr_grid_epoch := pb_grid_epoch m, fr_image_placements := ps\<rparr>"
    using assms by (auto simp: proto_to_cell_frame_def res_simps)
  note rows = dec(1-3) [THEN rows_decoded_ready]
  have sel: "fr_viewport_rows f = v" "fr_scrollback_rows f = h" "fr_scrollback_append f = a"
    "fr_image_placements f = ps" "fr_full f = pb_full m" "fr_cols f = pb_cols m" "fr_rows f = pb_rows m"
    "fr_sb_base f = pb_sb_base m" "fr_scrollback_total f = pb_scrollback_total m"
    "fr_stream_id f = pb_stream_id m" "fr_grid_epoch f = pb_grid_epoch m" "fr_base_seq f = pb_base_seq m"
    "fr_seq f = pb_seq m" "fr_kitty_keyboard_flags f = kitty_flags_from_u32 (pb_kitty_keyboard_flags m)"
    "fr_mouse_tracking f = as_mouse_tracking (pb_mouse_tracking m)"
    by (simp_all add: f frame_scalars_def)
  have "as_mouse_tracking n \<in> {TrackNone, PressRelease, ButtonMotion}" for n
    by (simp add: as_mouse_tracking_def mouse_tracking_from_u32_def)
  then have ready: "frame_ready f"
    using rows placements_decoded_ready [OF dec(4)]
    unfolding frame_ready_def sel kitty_flags_mod by (cases ps) auto
  have msg: "pb_cols (frame_message f sid) = pb_cols m" "pb_rows (frame_message f sid) = pb_rows m"
    "pb_full (frame_message f sid) = pb_full m" "pb_sb_base (frame_message f sid) = pb_sb_base m"
    "pb_scrollback_total (frame_message f sid) = pb_scrollback_total m"
    "map pbr_index (pb_viewport_rows (frame_message f sid)) = map pbr_index (pb_viewport_rows m)"
    "map pbr_index (pb_scrollback_rows (frame_message f sid)) = map pbr_index (pb_scrollback_rows m)"
    "map pbr_index (pb_scrollback_append (frame_message f sid)) = map pbr_index (pb_scrollback_append m)"
    using rows by (simp_all add: frame_message_def sel del: map_map)
  have empty: "pb_scrollback_rows (frame_message f sid) = [] \<longleftrightarrow> pb_scrollback_rows m = []"
    "pb_scrollback_append (frame_message f sid) = [] \<longleftrightarrow> pb_scrollback_append m = []"
    using msg(7,8) by (metis Nil_is_map_conv)+
  have "frame_structured (frame_message f sid)"
    using dec(6) unfolding structure_exact frame_structured_def msg empty .
  then have "assert_frame_structure (frame_message f sid) = Ok ()" by (simp add: structure_exact)
  moreover have "assert_frame_sequence (frame_message f sid) = Ok ()"
    using dec(5) by (simp add: assert_frame_sequence_def frame_message_def sel)
  ultimately show ?thesis
    using ready frame_message_decodes [OF ready, of sid]
    by (auto simp: cell_frame_to_proto_def assert_frame_sequence_def frame_message_def)
qed

theorem decoded_frame_relays_witness:
  "\<exists>m m'. proto_to_cell_frame m = Ok (blank_frame 1) \<and> cell_frame_to_proto (blank_frame 1) ''relay'' = Ok m'"
proof -
  have id: "is_terminal_uuid ''00000000-0000-4000-8000-000000000001''"
    by (simp add: is_terminal_uuid_def UUID_LEN_def is_uuid_version_def is_uuid_variant_def
        is_ascii_hexdigit_def is_ascii_digit_def is_lower_hex_alpha_def enumerate_eq_zip upt_rec)
  have "proto_to_cell_frame (frame_message (blank_frame 1) ''s'') = Ok (blank_frame 1)"
    using frame_message_decodes [OF blank_frame_ready, of 1 "''s''"] id
    by (simp add: assert_frame_sequence_def assert_frame_identity_def frame_message_def blank_frame_def
        assert_frame_structure_def assert_terminal_geometry_def is_terminal_geometry_def viewport_limits
        see_row_def cell_row_to_proto_def cell_row_new_def)
  with decoded_frame_relays [OF this, of "''relay''"] show ?thesis by blast
qed

end
