(* ===== verification/Cell_Chunks.thy ===== *)
theory Cell_Chunks
  imports Cell_Proto "HOL-Library.Multiset"
begin

text \<open>
  Splitting a full frame into bounded parts: the part limits and the shape every snapshot is held to
  (\<open>cell/frame_chunk_validation.rs\<close>, \<open>cell/frame_chunk_validation/row_accounting.rs\<close>), the part planner
  (\<open>cell/frame_chunks/plan.rs\<close>) and the source and cursor that materialise parts
  (\<open>cell/frame_chunks.rs\<close>). An error is its contract code; its prose is left out.

  The encoded lengths of messages are computed by the protobuf library, which is not part of the
  repository: they are a parameter, the record \<open>wire_sizes\<close>. Unsigned 32-bit sums on those lengths wrap, as they do in a
  release build.
\<close>

section \<open>Limits and rejection codes\<close>

definition CELL_GRID_PART_MAX_BYTES :: nat where "CELL_GRID_PART_MAX_BYTES = 1048576"
definition CELL_GRID_SNAPSHOT_MAX_BYTES :: nat where "CELL_GRID_SNAPSHOT_MAX_BYTES = 67108864"
definition CELL_GRID_SNAPSHOT_MAX_CHUNKS :: nat where "CELL_GRID_SNAPSHOT_MAX_CHUNKS = 256"
definition CELL_GRID_SNAPSHOT_MAX_ROWS :: nat where "CELL_GRID_SNAPSHOT_MAX_ROWS = TERMINAL_MAX_ROWS"
definition CELL_GRID_SNAPSHOT_MAX_SPANS :: nat where "CELL_GRID_SNAPSHOT_MAX_SPANS = 65536"
definition CELL_GRID_SNAPSHOT_MAX_LINK_MAPPINGS :: nat where "CELL_GRID_SNAPSHOT_MAX_LINK_MAPPINGS = 1024"
definition CELL_GRID_CHUNK_STALL_MS :: nat where "CELL_GRID_CHUNK_STALL_MS = 10000"

lemmas chunk_limits =
  CELL_GRID_PART_MAX_BYTES_def CELL_GRID_SNAPSHOT_MAX_BYTES_def CELL_GRID_SNAPSHOT_MAX_CHUNKS_def
  CELL_GRID_SNAPSHOT_MAX_ROWS_def CELL_GRID_SNAPSHOT_MAX_SPANS_def CELL_GRID_SNAPSHOT_MAX_LINK_MAPPINGS_def
  CELL_GRID_CHUNK_STALL_MS_def

datatype cell_grid_chunk_error_code =
    InvalidSnapshotId | InvalidStreamId | MissingPart | InvalidFull | InvalidGeometry | InvalidSequence
  | ChunkCount | ChunkIndex | ChunkOrder | ChunkSize | SnapshotSize | SnapshotStalled | MetadataMismatch
  | RowIndex | DuplicateRow | MissingRow | SpanLimit | LinkLimit | LinkConflict | SingleRowOversize

fun chunk_code_as_str :: "cell_grid_chunk_error_code \<Rightarrow> string" where
  "chunk_code_as_str InvalidSnapshotId = ''invalid-snapshot-id''"
| "chunk_code_as_str InvalidStreamId = ''invalid-stream-id''"
| "chunk_code_as_str MissingPart = ''missing-part''"
| "chunk_code_as_str InvalidFull = ''invalid-full''"
| "chunk_code_as_str InvalidGeometry = ''invalid-geometry''"
| "chunk_code_as_str InvalidSequence = ''invalid-sequence''"
| "chunk_code_as_str ChunkCount = ''chunk-count''"
| "chunk_code_as_str ChunkIndex = ''chunk-index''"
| "chunk_code_as_str ChunkOrder = ''chunk-order''"
| "chunk_code_as_str ChunkSize = ''chunk-size''"
| "chunk_code_as_str SnapshotSize = ''snapshot-size''"
| "chunk_code_as_str SnapshotStalled = ''snapshot-stalled''"
| "chunk_code_as_str MetadataMismatch = ''metadata-mismatch''"
| "chunk_code_as_str RowIndex = ''row-index''"
| "chunk_code_as_str DuplicateRow = ''duplicate-row''"
| "chunk_code_as_str MissingRow = ''missing-row''"
| "chunk_code_as_str SpanLimit = ''span-limit''"
| "chunk_code_as_str LinkLimit = ''link-limit''"
| "chunk_code_as_str LinkConflict = ''link-conflict''"
| "chunk_code_as_str SingleRowOversize = ''single-row-oversize''"

type_synonym 'a chunk_result = "(cell_grid_chunk_error_code, 'a) result"

section \<open>Snapshot validation\<close>

definition assert_snapshot_scalars :: "pb_cell_grid_frame \<Rightarrow> unit chunk_result" where
  "assert_snapshot_scalars frame =
     (if \<not> pb_full frame \<or> pb_base_seq frame \<noteq> 0 then Err InvalidFull
      else if \<not> is_terminal_uuid (pb_stream_id frame) then Err InvalidStreamId
      else if pb_grid_epoch frame = [] then Err InvalidFull
      else if \<not> is_terminal_geometry \<lparr>geo_cols = pb_cols frame, geo_rows = pb_rows frame\<rparr>
        then Err InvalidGeometry
      else if pb_seq frame < 1 then Err InvalidSequence
      else if pb_scrollback_append frame \<noteq> [] then Err InvalidFull
      else if pb_scrollback_total frame < pb_sb_base frame then Err InvalidFull
      else Ok ())"

record cell_grid_link_mapping =
  lm_key :: scalars
  lm_uri :: scalars

text \<open>The link table is a hash map; its entries are listed in insertion order and keys never repeat.\<close>

type_synonym link_table = "(scalars \<times> cell_grid_link_mapping) list"

record cell_grid_snapshot_stats =
  st_spans :: nat
  st_link_mappings :: nat

record snapshot_history_rows =
  hr_spans :: nat
  hr_next_index :: nat

definition assert_part_row_spans :: "pb_cell_row \<Rightarrow> nat \<Rightarrow> unit chunk_result" where
  "assert_part_row_spans row max_columns =
     map_err (\<lambda>_. SpanLimit) (res_bind (cell_row_from_proto_bounded row max_columns) (\<lambda>_. Ok ()))"

definition account_spans :: "nat \<Rightarrow> pb_cell_row \<Rightarrow> nat chunk_result" where
  "account_spans spans row =
     (let total = saturating_add32 spans (min (length (pbr_spans row)) u32_max)
      in if CELL_GRID_SNAPSHOT_MAX_SPANS < total then Err SpanLimit else Ok total)"

definition record_link :: "link_table \<Rightarrow> pb_cell_span \<Rightarrow> link_table chunk_result" where
  "record_link links s =
     (case (pbs_link_key s, pbs_link_uri s) of
        (Some key, Some uri) \<Rightarrow>
          (case map_of links key of
             Some prior \<Rightarrow> if lm_uri prior \<noteq> uri then Err LinkConflict else Ok links
           | None \<Rightarrow>
               if CELL_GRID_SNAPSHOT_MAX_LINK_MAPPINGS \<le> length links then Err LinkLimit
               else Ok (links @ [(key, \<lparr>lm_key = key, lm_uri = uri\<rparr>)]))
      | _ \<Rightarrow> Ok links)"

definition record_span_links :: "pb_cell_row \<Rightarrow> link_table \<Rightarrow> link_table chunk_result" where
  "record_span_links row links = fold_res record_link links (pbr_spans row)"

text \<open>What both row walks do to one row once its index is accepted.\<close>

definition charge_row :: "nat \<Rightarrow> pb_cell_row \<Rightarrow> link_table \<times> nat \<Rightarrow> (link_table \<times> nat) chunk_result" where
  "charge_row max_columns row = (\<lambda>(links, spans).
     res_bind (assert_part_row_spans row max_columns) (\<lambda>_.
     res_bind (account_spans spans row) (\<lambda>spans'.
     res_bind (record_span_links row links) (\<lambda>links'. Ok (links', spans')))))"

definition add_snapshot_row ::
  "pb_cell_grid_frame \<Rightarrow> nat set \<times> link_table \<times> nat \<Rightarrow> pb_cell_row \<Rightarrow> (nat set \<times> link_table \<times> nat) chunk_result" where
  "add_snapshot_row frame = (\<lambda>(seen, acc) row.
     if pb_rows frame \<le> pbr_index row then Err RowIndex
     else if pbr_index row \<in> seen then Err DuplicateRow
     else res_bind (charge_row (pb_cols frame) row acc) (\<lambda>acc'. Ok (insert (pbr_index row) seen, acc')))"

definition add_snapshot_rows ::
  "pb_cell_grid_frame \<Rightarrow> pb_cell_row list \<Rightarrow> nat set \<Rightarrow> link_table \<Rightarrow> nat
     \<Rightarrow> (nat set \<times> link_table \<times> nat) chunk_result" where
  "add_snapshot_rows frame rows seen_rows links starting_spans =
     fold_res (add_snapshot_row frame) (seen_rows, links, starting_spans) rows"

definition add_history_row ::
  "pb_cell_grid_frame \<Rightarrow> nat \<times> link_table \<times> nat \<Rightarrow> pb_cell_row \<Rightarrow> (nat \<times> link_table \<times> nat) chunk_result" where
  "add_history_row frame = (\<lambda>(next_index, acc) row.
     if pbr_index row \<noteq> next_index \<or> pb_scrollback_total frame \<le> pbr_index row then Err RowIndex
     else res_bind (charge_row 0 row acc) (\<lambda>acc'. Ok (next_index + 1, acc')))"

definition add_snapshot_history_rows ::
  "pb_cell_grid_frame \<Rightarrow> pb_cell_row list \<Rightarrow> nat \<Rightarrow> link_table \<Rightarrow> nat
     \<Rightarrow> (link_table \<times> snapshot_history_rows) chunk_result" where
  "add_snapshot_history_rows frame rows next_index links starting_spans =
     res_bind (fold_res (add_history_row frame) (next_index, links, starting_spans) rows)
       (\<lambda>(next', links', spans'). Ok (links', \<lparr>hr_spans = spans', hr_next_index = next'\<rparr>))"

definition assert_cell_grid_snapshot :: "pb_cell_grid_frame \<Rightarrow> cell_grid_snapshot_stats chunk_result" where
  "assert_cell_grid_snapshot frame =
     res_bind (assert_snapshot_scalars frame) (\<lambda>_.
     if CELL_GRID_SNAPSHOT_MAX_ROWS < pb_rows frame then Err InvalidGeometry
     else
       res_bind (add_snapshot_rows frame (pb_viewport_rows frame) {} [] 0) (\<lambda>(seen, links, spans).
       res_bind (add_snapshot_history_rows frame (pb_scrollback_rows frame) (pb_sb_base frame) links spans)
         (\<lambda>(links', history).
         if hr_next_index history \<noteq> pb_scrollback_total frame then Err MissingRow
         else if card seen \<noteq> pb_rows frame then Err MissingRow
         else Ok \<lparr>st_spans = hr_spans history, st_link_mappings = length links'\<rparr>)))"

definition has_same_snapshot_metadata :: "pb_cell_grid_frame \<Rightarrow> pb_cell_grid_frame \<Rightarrow> bool" where
  "has_same_snapshot_metadata a b \<longleftrightarrow>
     pb_session_id a = pb_session_id b \<and> pb_stream_id a = pb_stream_id b
     \<and> pb_grid_epoch a = pb_grid_epoch b \<and> pb_cols a = pb_cols b \<and> pb_rows a = pb_rows b
     \<and> pb_cursor_row a = pb_cursor_row b \<and> pb_cursor_col a = pb_cursor_col b
     \<and> pb_cursor_visible a = pb_cursor_visible b \<and> pb_alt_screen a = pb_alt_screen b
     \<and> pb_full a = pb_full b \<and> pb_scrollback_total a = pb_scrollback_total b \<and> pb_seq a = pb_seq b
     \<and> pb_sb_base a = pb_sb_base b \<and> pb_base_seq a = pb_base_seq b
     \<and> pb_cursor_keys_app a = pb_cursor_keys_app b \<and> pb_bracketed_paste a = pb_bracketed_paste b
     \<and> pb_mouse_tracking a = pb_mouse_tracking b \<and> pb_mouse_sgr a = pb_mouse_sgr b
     \<and> pb_focus_events a = pb_focus_events b \<and> pb_pty_out_ms a = pb_pty_out_ms b
     \<and> pb_worker_emit_ms a = pb_worker_emit_ms b \<and> pb_coord_recv_ms a = pb_coord_recv_ms b
     \<and> pb_coord_fanout_ms a = pb_coord_fanout_ms b
     \<and> pb_image_placements_present a = pb_image_placements_present b
     \<and> pb_image_placements a = pb_image_placements b"

section \<open>Messages and encoded lengths\<close>

record pb_cell_grid_chunk =
  pbc_snapshot_id :: string
  pbc_chunk_index :: nat
  pbc_chunk_count :: nat
  pbc_part :: "pb_cell_grid_frame option"

record wire_sizes =
  varint_len :: "nat \<Rightarrow> nat"
  row_len :: "pb_cell_row \<Rightarrow> nat"
  frame_len :: "pb_cell_grid_frame \<Rightarrow> nat"
  chunk_len :: "pb_cell_grid_chunk \<Rightarrow> nat"

definition add32 :: "nat \<Rightarrow> nat \<Rightarrow> nat" where "add32 a b = (a + b) mod 2 ^ 32"
definition sub32 :: "nat \<Rightarrow> nat \<Rightarrow> nat" where "sub32 a b = (a + 2 ^ 32 - b) mod 2 ^ 32"

definition create_cell_grid_frame_part ::
  "pb_cell_grid_frame \<Rightarrow> pb_cell_row list \<Rightarrow> pb_cell_row list \<Rightarrow> pb_cell_grid_frame" where
  "create_cell_grid_frame_part frame rows scrollback_rows =
     frame\<lparr>pb_viewport_rows := rows, pb_scrollback_rows := scrollback_rows, pb_scrollback_append := []\<rparr>"

definition encode_cell_grid_chunk ::
  "wire_sizes \<Rightarrow> (pb_cell_grid_chunk \<Rightarrow> string) \<Rightarrow> pb_cell_grid_chunk \<Rightarrow> string chunk_result" where
  "encode_cell_grid_chunk ws encode_to_vec chunk =
     (if CELL_GRID_PART_MAX_BYTES < chunk_len ws chunk then Err ChunkSize else Ok (encode_to_vec chunk))"

datatype 'w cell_grid_chunk_decode_error = Contract cell_grid_chunk_error_code | Wire 'w

definition decode_cell_grid_chunk ::
  "(string \<Rightarrow> ('w, pb_cell_grid_chunk) result) \<Rightarrow> string
     \<Rightarrow> ('w cell_grid_chunk_decode_error, pb_cell_grid_chunk) result" where
  "decode_cell_grid_chunk decode_from_slice encoded =
     (if CELL_GRID_PART_MAX_BYTES < length encoded then Err (Contract ChunkSize)
      else map_err Wire (decode_from_slice encoded))"

section \<open>The part plan\<close>

definition PLANNING_SNAPSHOT_ID :: string where
  "PLANNING_SNAPSHOT_ID = ''00000000-0000-4000-8000-000000000000''"

definition ROW_FIELD_TAG_BYTES :: nat where "ROW_FIELD_TAG_BYTES = 1"

record snapshot_entry =
  se_history :: bool
  se_index :: nat

record planned_snapshot_part =
  pp_entries :: "snapshot_entry list"
  pp_encoded_part_bytes :: nat

definition entry_row :: "pb_cell_grid_frame \<Rightarrow> snapshot_entry \<Rightarrow> pb_cell_row chunk_result" where
  "entry_row frame entry =
     (let rows = (if se_history entry then pb_scrollback_rows frame else pb_viewport_rows frame)
      in case List.find (\<lambda>row. pbr_index row = se_index entry) rows of
           None \<Rightarrow> Err MissingRow
         | Some row \<Rightarrow> Ok row)"

definition snapshot_entries :: "pb_cell_grid_frame \<Rightarrow> snapshot_entry list" where
  "snapshot_entries frame =
     map (\<lambda>offset. \<lparr>se_history = True, se_index = min (saturating_add64 (pb_sb_base frame) offset) u32_max\<rparr>)
       [0..<length (pb_scrollback_rows frame)]
     @ map (\<lambda>index. \<lparr>se_history = False, se_index = index\<rparr>) [0..<pb_rows frame]"

definition row_entry_bytes :: "wire_sizes \<Rightarrow> pb_cell_row \<Rightarrow> nat" where
  "row_entry_bytes ws row =
     (let row_bytes = row_len ws row
      in add32 (add32 ROW_FIELD_TAG_BYTES (varint_len ws row_bytes)) row_bytes)"

definition chunk_header_bytes :: "wire_sizes \<Rightarrow> string \<Rightarrow> nat \<Rightarrow> nat \<Rightarrow> nat" where
  "chunk_header_bytes ws snapshot_id chunk_index chunk_count =
     chunk_len ws \<lparr>pbc_snapshot_id = snapshot_id, pbc_chunk_index = chunk_index,
       pbc_chunk_count = chunk_count, pbc_part = None\<rparr>"

definition part_field_tag_bytes :: "wire_sizes \<Rightarrow> pb_cell_grid_frame \<Rightarrow> nat \<Rightarrow> nat \<Rightarrow> nat" where
  "part_field_tag_bytes ws empty_part empty_bytes header =
     (let probe = \<lparr>pbc_snapshot_id = PLANNING_SNAPSHOT_ID,
                    pbc_chunk_index = CELL_GRID_SNAPSHOT_MAX_CHUNKS - 1,
                    pbc_chunk_count = CELL_GRID_SNAPSHOT_MAX_CHUNKS, pbc_part = Some empty_part\<rparr>;
          prefix = varint_len ws empty_bytes
      in sub32 (sub32 (sub32 (chunk_len ws probe) header) prefix) empty_bytes)"

definition encoded_chunk_bytes :: "wire_sizes \<Rightarrow> nat \<Rightarrow> nat \<Rightarrow> nat \<Rightarrow> nat" where
  "encoded_chunk_bytes ws header_bytes part_tag_bytes encoded_part_bytes =
     (let prefix = varint_len ws encoded_part_bytes
      in add32 (add32 (add32 header_bytes part_tag_bytes) prefix) encoded_part_bytes)"

text \<open>One turn of the greedy loop: the parts so far, the open part's entries and its encoded size.\<close>

definition plan_entry ::
  "wire_sizes \<Rightarrow> pb_cell_grid_frame \<Rightarrow> nat \<Rightarrow> nat \<Rightarrow> nat
     \<Rightarrow> planned_snapshot_part list \<times> snapshot_entry list \<times> nat \<Rightarrow> snapshot_entry
     \<Rightarrow> (planned_snapshot_part list \<times> snapshot_entry list \<times> nat) chunk_result" where
  "plan_entry ws frame largest_header_bytes tag_bytes base_part_bytes =
     (\<lambda>(parts, entries, encoded_part_bytes) entry.
        res_bind (entry_row frame entry) (\<lambda>row.
          let contribution = row_entry_bytes ws row;
              next_part_bytes = add32 encoded_part_bytes contribution
          in if encoded_chunk_bytes ws largest_header_bytes tag_bytes next_part_bytes \<le> CELL_GRID_PART_MAX_BYTES
             then Ok (parts, entries @ [entry], next_part_bytes)
             else if entries = [] then Err SingleRowOversize
             else
               let alone = add32 base_part_bytes contribution
               in if CELL_GRID_PART_MAX_BYTES < encoded_chunk_bytes ws largest_header_bytes tag_bytes alone
                  then Err SingleRowOversize
                  else Ok (parts @ [\<lparr>pp_entries = entries, pp_encoded_part_bytes = encoded_part_bytes\<rparr>],
                           [entry], alone)))"

definition plan_snapshot_parts ::
  "wire_sizes \<Rightarrow> pb_cell_grid_frame \<Rightarrow> planned_snapshot_part list chunk_result" where
  "plan_snapshot_parts ws frame =
     (let empty_part = create_cell_grid_frame_part frame [] [];
          base_part_bytes = frame_len ws empty_part;
          max_chunks = CELL_GRID_SNAPSHOT_MAX_CHUNKS;
          largest_header_bytes = chunk_header_bytes ws PLANNING_SNAPSHOT_ID (max_chunks - 1) max_chunks;
          tag_bytes = part_field_tag_bytes ws empty_part base_part_bytes largest_header_bytes
      in res_bind (fold_res (plan_entry ws frame largest_header_bytes tag_bytes base_part_bytes)
                     ([], [], base_part_bytes) (snapshot_entries frame))
           (\<lambda>(closed, entries, encoded_part_bytes).
              let parts = (if entries \<noteq> []
                           then closed @ [\<lparr>pp_entries = entries, pp_encoded_part_bytes = encoded_part_bytes\<rparr>]
                           else closed)
              in if parts = [] \<or> CELL_GRID_SNAPSHOT_MAX_CHUNKS < length parts then Err ChunkCount
                 else
                   let total_bytes = sum_list (map (\<lambda>(index, part).
                         encoded_chunk_bytes ws (chunk_header_bytes ws PLANNING_SNAPSHOT_ID index (length parts))
                           tag_bytes (pp_encoded_part_bytes part)) (List.enumerate 0 parts))
                   in if CELL_GRID_SNAPSHOT_MAX_BYTES < total_bytes then Err SnapshotSize else Ok parts))"

section \<open>Sources and cursors\<close>

datatype cell_grid_snapshot_part = FramePart pb_cell_grid_frame | ChunkPart pb_cell_grid_chunk

record cell_grid_snapshot_source =
  src_frame :: pb_cell_grid_frame
  src_parts :: "planned_snapshot_part list option"

record cell_grid_snapshot_cursor =
  cur_source :: cell_grid_snapshot_source
  cur_snapshot_id :: string
  cur_part_count :: nat

definition part_count :: "cell_grid_snapshot_source \<Rightarrow> nat" where
  "part_count source = (case src_parts source of Some parts \<Rightarrow> min (length parts) u32_max | None \<Rightarrow> 1)"

definition create_cursor :: "cell_grid_snapshot_source \<Rightarrow> string \<Rightarrow> cell_grid_snapshot_cursor chunk_result" where
  "create_cursor source snapshot_id =
     (if src_parts source \<noteq> None \<and> \<not> is_terminal_uuid snapshot_id then Err InvalidSnapshotId
      else Ok \<lparr>cur_source = source, cur_snapshot_id = snapshot_id, cur_part_count = part_count source\<rparr>)"

definition collect_row ::
  "pb_cell_grid_frame \<Rightarrow> pb_cell_row list \<times> pb_cell_row list \<Rightarrow> snapshot_entry
     \<Rightarrow> (pb_cell_row list \<times> pb_cell_row list) chunk_result" where
  "collect_row frame = (\<lambda>(viewport_rows, scrollback_rows) entry.
     res_bind (entry_row frame entry) (\<lambda>row.
       Ok (if se_history entry then (viewport_rows, scrollback_rows @ [row])
           else (viewport_rows @ [row], scrollback_rows))))"

definition materialize ::
  "wire_sizes \<Rightarrow> cell_grid_snapshot_cursor \<Rightarrow> nat \<Rightarrow> cell_grid_snapshot_part chunk_result" where
  "materialize ws cursor part_index =
     (if cur_part_count cursor \<le> part_index then Err ChunkIndex
      else
        (case src_parts (cur_source cursor) of
           None \<Rightarrow> Ok (FramePart (src_frame (cur_source cursor)))
         | Some parts \<Rightarrow>
             let frame = src_frame (cur_source cursor) in
             res_bind (fold_res (collect_row frame) ([], []) (pp_entries (parts ! part_index)))
               (\<lambda>(viewport_rows, scrollback_rows).
                  let chunk = \<lparr>pbc_snapshot_id = cur_snapshot_id cursor, pbc_chunk_index = part_index,
                        pbc_chunk_count = cur_part_count cursor,
                        pbc_part = Some (create_cell_grid_frame_part frame viewport_rows scrollback_rows)\<rparr>
                  in if CELL_GRID_PART_MAX_BYTES < chunk_len ws chunk then Err ChunkSize
                     else Ok (ChunkPart chunk))))"

definition create_cell_grid_snapshot_source ::
  "wire_sizes \<Rightarrow> pb_cell_grid_frame \<Rightarrow> bool \<Rightarrow> cell_grid_snapshot_source chunk_result" where
  "create_cell_grid_snapshot_source ws frame force_chunking =
     res_bind (assert_cell_grid_snapshot frame) (\<lambda>_.
     if \<not> force_chunking \<and> frame_len ws frame \<le> CELL_GRID_PART_MAX_BYTES
     then Ok \<lparr>src_frame = frame, src_parts = None\<rparr>
     else res_bind (plan_snapshot_parts ws frame) (\<lambda>parts. Ok \<lparr>src_frame = frame, src_parts = Some parts\<rparr>))"

definition chunk_at :: "wire_sizes \<Rightarrow> cell_grid_snapshot_cursor \<Rightarrow> nat \<Rightarrow> pb_cell_grid_chunk chunk_result" where
  "chunk_at ws cursor part_index =
     res_bind (materialize ws cursor part_index) (\<lambda>part.
       case part of ChunkPart chunk \<Rightarrow> Ok chunk | FramePart _ \<Rightarrow> Err ChunkCount)"

definition chunk_cell_grid_frame ::
  "wire_sizes \<Rightarrow> pb_cell_grid_frame \<Rightarrow> string \<Rightarrow> pb_cell_grid_chunk list chunk_result" where
  "chunk_cell_grid_frame ws frame snapshot_id =
     res_bind (create_cell_grid_snapshot_source ws frame True) (\<lambda>source.
     res_bind (create_cursor source snapshot_id) (\<lambda>cursor.
       map_res (chunk_at ws cursor) [0..<cur_part_count cursor]))"

section \<open>What a snapshot walk accepts\<close>

text \<open>
  Both row walks charge rows against the same three budgets. What they accept depends only on which
  rows were charged, not on the order: each row meets the span contract at its width, the spans fit
  the cap, and the link pairs are a function of at most the cap's size.
\<close>

definition span_links :: "pb_cell_span \<Rightarrow> (scalars \<times> scalars) set" where
  "span_links s = {(k, u). pbs_link_key s = Some k \<and> pbs_link_uri s = Some u}"

definition row_links :: "pb_cell_row \<Rightarrow> (scalars \<times> scalars) set" where
  "row_links r = (\<Union>s \<in> set (pbr_spans r). span_links s)"

definition links_fit :: "(scalars \<times> scalars) set \<Rightarrow> bool" where
  "links_fit P \<longleftrightarrow> finite P \<and> single_valued P \<and> card P \<le> CELL_GRID_SNAPSHOT_MAX_LINK_MAPPINGS"

definition row_fits :: "nat \<Rightarrow> pb_cell_row \<Rightarrow> bool" where
  "row_fits w r \<longleftrightarrow> (\<exists>v. cell_row_from_proto_bounded r w = Ok v)"

definition charges_spans :: "(nat \<times> pb_cell_row) list \<Rightarrow> nat" where
  "charges_spans cs = sum_list (map (\<lambda>(_, r). length (pbr_spans r)) cs)"

definition charges_links :: "(nat \<times> pb_cell_row) list \<Rightarrow> (scalars \<times> scalars) set" where
  "charges_links cs = (\<Union>(_, r) \<in> set cs. row_links r)"

definition charges_fit :: "(nat \<times> pb_cell_row) list \<Rightarrow> bool" where
  "charges_fit cs \<longleftrightarrow> (\<forall>(w, r) \<in> set cs. row_fits w r)
     \<and> charges_spans cs \<le> CELL_GRID_SNAPSHOT_MAX_SPANS \<and> links_fit (charges_links cs)"

definition table_holds :: "link_table \<Rightarrow> (scalars \<times> scalars) set \<Rightarrow> bool" where
  "table_holds links P \<longleftrightarrow> distinct (map fst links) \<and> (\<lambda>(k, m). (k, lm_uri m)) ` set links = P
     \<and> length links \<le> CELL_GRID_SNAPSHOT_MAX_LINK_MAPPINGS"

definition charged :: "link_table \<times> nat \<Rightarrow> (nat \<times> pb_cell_row) list \<Rightarrow> bool" where
  "charged acc cs \<longleftrightarrow> table_holds (fst acc) (charges_links cs) \<and> snd acc = charges_spans cs \<and> charges_fit cs"

lemma links_fit_mono: "links_fit Q \<Longrightarrow> P \<subseteq> Q \<Longrightarrow> links_fit P"
  by (auto simp: links_fit_def intro: finite_subset single_valued_subset dest: card_mono [rotated] order_trans)

lemma table_card: "table_holds links P \<Longrightarrow> card P = length links"
proof -
  assume t: "table_holds links P"
  then have "distinct links" by (simp add: table_holds_def distinct_map)
  moreover have "inj_on (\<lambda>(k, m). (k, lm_uri m)) (set links)"
    using t by (fastforce simp: table_holds_def inj_on_def dest: eq_key_imp_eq_value)
  ultimately show ?thesis using t by (auto simp: table_holds_def card_image distinct_card)
qed

lemma table_fits: "table_holds links P \<Longrightarrow> links_fit P"
proof -
  assume t: "table_holds links P"
  then have "single_valued P"
    by (auto simp: table_holds_def single_valued_def dest: eq_key_imp_eq_value)
  moreover have "finite P" using t by (auto simp: table_holds_def)
  ultimately show ?thesis using table_card [OF t] t by (simp add: links_fit_def table_holds_def)
qed

lemma table_lookup:
  assumes "table_holds links P"
  shows "(k, u) \<in> P \<longleftrightarrow> (\<exists>m. map_of links k = Some m \<and> lm_uri m = u)"
  using assms by (auto simp: table_holds_def map_of_eq_Some_iff image_iff)

lemma table_insert:
  assumes t: "table_holds links P" and new: "map_of links k = None"
    and "length links < CELL_GRID_SNAPSHOT_MAX_LINK_MAPPINGS"
  shows "table_holds (links @ [(k, \<lparr>lm_key = k, lm_uri = u\<rparr>)]) (insert (k, u) P)"
proof -
  have "k \<notin> fst ` set links" using new by (simp add: map_of_eq_None_iff)
  with assms show ?thesis by (auto simp: table_holds_def)
qed

lemma links_fit_insert_new:
  assumes t: "table_holds links P" and new: "map_of links k = None"
  shows "links_fit (insert (k, u) P) \<longleftrightarrow> length links < CELL_GRID_SNAPSHOT_MAX_LINK_MAPPINGS"
proof -
  have fresh: "(k, v) \<notin> P" for v using table_lookup [OF t] new by simp
  then have "single_valued (insert (k, u) P)"
    using table_fits [OF t] by (auto simp: links_fit_def single_valued_def)
  moreover have "finite P" "card P = length links" using table_fits [OF t] table_card [OF t] by (auto simp: links_fit_def)
  ultimately show ?thesis using fresh by (simp add: links_fit_def less_eq_Suc_le)
qed

lemma record_link_accepts:
  assumes t: "table_holds links P"
  shows "if links_fit (P \<union> span_links s)
    then \<exists>l. record_link links s = Inr l \<and> table_holds l (P \<union> span_links s)
    else \<exists>e. record_link links s = Inl e"
proof (cases "\<exists>k u. pbs_link_key s = Some k \<and> pbs_link_uri s = Some u")
  case False
  then have "span_links s = {}" "record_link links s = Inr links"
    by (auto simp: span_links_def record_link_def split: option.splits)
  with t table_fits [OF t] show ?thesis by simp
next
  case True
  then obtain k u where s: "pbs_link_key s = Some k" "pbs_link_uri s = Some u" by blast
  then have pair: "P \<union> span_links s = insert (k, u) P" by (auto simp: span_links_def)
  show ?thesis
  proof (cases "map_of links k")
    case None
    with s t show ?thesis
      unfolding pair using links_fit_insert_new [OF t None] table_insert [OF t None, of u]
      by (auto simp: record_link_def)
  next
    case (Some m)
    then have m: "(k, lm_uri m) \<in> P" using table_lookup [OF t] by blast
    show ?thesis
    proof (cases "lm_uri m = u")
      case True
      then have "insert (k, u) P = P" using m by auto
      with True Some s t table_fits [OF t] show ?thesis unfolding pair by (simp add: record_link_def)
    next
      case False
      then have "\<not> links_fit (insert (k, u) P)" using m by (auto simp: links_fit_def single_valued_def)
      with False Some s show ?thesis unfolding pair by (simp add: record_link_def)
    qed
  qed
qed

lemma record_span_links_accepts:
  assumes t: "table_holds links P"
  shows "if links_fit (P \<union> row_links r)
    then \<exists>l. record_span_links r links = Inr l \<and> table_holds l (P \<union> row_links r)
    else \<exists>e. record_span_links r links = Inl e"
proof -
  let ?P = "\<lambda>ss. P \<union> (\<Union>s \<in> set ss. span_links s)"
  have "if links_fit (?P ([] @ pbr_spans r))
    then \<exists>l. fold_res record_link links (pbr_spans r) = Inr l \<and> table_holds l (?P ([] @ pbr_spans r))
    else \<exists>e. fold_res record_link links (pbr_spans r) = Inl e"
  proof (rule fold_res_prefix [where good = "\<lambda>ss. links_fit (?P ss)" and R = "\<lambda>l ss. table_holds l (?P ss)"])
    fix l ss s assume "table_holds l (?P ss)"
    note one = record_link_accepts [OF this, of s]
    have eq: "?P (ss @ [s]) = ?P ss \<union> span_links s" by auto
    show "if links_fit (?P (ss @ [s])) then \<exists>l'. record_link l s = Inr l' \<and> table_holds l' (?P (ss @ [s]))
      else \<exists>e. record_link l s = Inl e"
      unfolding eq by (rule one)
  next
    fix xs ys assume "links_fit (?P (xs @ ys))"
    then show "links_fit (?P xs)" by (rule links_fit_mono) auto
  qed (use t table_fits [OF t] in simp_all)
  then show ?thesis unfolding record_span_links_def row_links_def append_Nil .
qed

lemma charges_append [simp]:
  "charges_spans (cs @ ds) = charges_spans cs + charges_spans ds"
  "charges_links (cs @ ds) = charges_links cs \<union> charges_links ds"
  by (simp_all add: charges_spans_def charges_links_def)

lemma charges_single [simp]:
  "charges_spans [(w, r)] = length (pbr_spans r)" "charges_links [(w, r)] = row_links r"
  "charges_spans [] = 0" "charges_links [] = {}"
  by (simp_all add: charges_spans_def charges_links_def)

lemma charges_fit_prefix: "charges_fit (cs @ ds) \<Longrightarrow> charges_fit cs"
  by (auto simp: charges_fit_def elim: links_fit_mono)

lemma charges_fit_cong:
  assumes "mset cs = mset ds"
  shows "charges_fit cs \<longleftrightarrow> charges_fit ds"
proof -
  have "set cs = set ds" using assms by (metis set_mset_mset)
  moreover have "charges_spans xs = sum_mset (image_mset (\<lambda>(_, r). length (pbr_spans r)) (mset xs))" for xs
    by (simp add: charges_spans_def sum_mset_sum_list flip: mset_map)
  then have "charges_spans cs = charges_spans ds" using assms by simp
  ultimately show ?thesis by (simp add: charges_fit_def charges_links_def)
qed

lemma charged_start: "charged ([], 0) []"
  by (simp add: charged_def table_holds_def charges_fit_def links_fit_def)

lemma charged_fit: "charged acc cs \<Longrightarrow> charges_fit cs"
  by (simp add: charged_def)

lemma account_spans_accepts:
  assumes "spans \<le> CELL_GRID_SNAPSHOT_MAX_SPANS"
  shows "account_spans spans r = (if spans + length (pbr_spans r) \<le> CELL_GRID_SNAPSHOT_MAX_SPANS
    then Inr (spans + length (pbr_spans r)) else Inl SpanLimit)"
  using assms by (auto simp: account_spans_def saturating_add32_def u32_max_def chunk_limits Let_def min_def)

lemma assert_part_row_spans_accepts:
  "if row_fits w r then assert_part_row_spans r w = Inr () else assert_part_row_spans r w = Inl SpanLimit"
  by (cases "cell_row_from_proto_bounded r w") (auto simp: row_fits_def assert_part_row_spans_def)

lemma charge_row_accepts:
  assumes "charged acc cs"
  shows "if charges_fit (cs @ [(w, r)])
    then \<exists>acc'. charge_row w r acc = Inr acc' \<and> charged acc' (cs @ [(w, r)])
    else \<exists>e. charge_row w r acc = Inl e"
proof -
  obtain links spans where acc: "acc = (links, spans)" by fastforce
  have c: "table_holds links (charges_links cs)" "spans = charges_spans cs" "charges_fit cs"
    using assms by (simp_all add: charged_def acc)
  have fit: "charges_fit (cs @ [(w, r)]) \<longleftrightarrow> row_fits w r
      \<and> spans + length (pbr_spans r) \<le> CELL_GRID_SNAPSHOT_MAX_SPANS \<and> links_fit (charges_links cs \<union> row_links r)"
    using c by (auto simp: charges_fit_def)
  have "spans \<le> CELL_GRID_SNAPSHOT_MAX_SPANS" using c by (simp add: charges_fit_def)
  note steps = account_spans_accepts [OF this, of r] assert_part_row_spans_accepts [of w r]
    record_span_links_accepts [OF c(1), of r]
  show ?thesis
  proof (cases "charges_fit (cs @ [(w, r)])")
    case True
    moreover from True fit steps obtain l where "record_span_links r links = Inr l"
      "table_holds l (charges_links cs \<union> row_links r)" by auto
    ultimately show ?thesis using fit steps c by (simp add: charge_row_def acc charged_def)
  next
    case False
    with fit steps show ?thesis by (auto simp: charge_row_def acc split: if_splits)
  qed
qed

text \<open>The two walks, each from a state that stands for what was charged before.\<close>

lemma add_snapshot_rows_accepts:
  assumes acc: "charged (links, spans) cs"
  shows "if distinct (map pbr_index rs) \<and> (\<forall>r \<in> set rs. pbr_index r < pb_rows m \<and> pbr_index r \<notin> seen)
        \<and> charges_fit (cs @ map (Pair (pb_cols m)) rs)
    then \<exists>l n. add_snapshot_rows m rs seen links spans = Inr (seen \<union> pbr_index ` set rs, l, n)
        \<and> charged (l, n) (cs @ map (Pair (pb_cols m)) rs)
    else \<exists>e. add_snapshot_rows m rs seen links spans = Inl e"
proof -
  let ?good = "\<lambda>rs. distinct (map pbr_index rs) \<and> (\<forall>r \<in> set rs. pbr_index r < pb_rows m \<and> pbr_index r \<notin> seen)
        \<and> charges_fit (cs @ map (Pair (pb_cols m)) rs)"
  let ?R = "\<lambda>st rs. fst st = seen \<union> pbr_index ` set rs \<and> charged (snd st) (cs @ map (Pair (pb_cols m)) rs) \<and> ?good rs"
  have "if ?good ([] @ rs)
    then \<exists>st. fold_res (add_snapshot_row m) (seen, links, spans) rs = Inr st \<and> ?R st ([] @ rs)
    else \<exists>e. fold_res (add_snapshot_row m) (seen, links, spans) rs = Inl e"
  proof (rule fold_res_prefix)
    fix st :: "nat set \<times> link_table \<times> nat" and xs x assume R: "?R st xs"
    obtain s a where st: "st = (s, a)" by (cases st)
    have "charged a (cs @ map (Pair (pb_cols m)) xs)" using R by (simp add: st)
    note row = charge_row_accepts [OF this, of "pb_cols m" x]
    show "if ?good (xs @ [x]) then \<exists>s'. add_snapshot_row m st x = Inr s' \<and> ?R s' (xs @ [x])
      else \<exists>e. add_snapshot_row m st x = Inl e"
      using R row by (auto simp: st add_snapshot_row_def image_iff split: if_splits)
  next
    fix xs ys assume "?good (xs @ ys)"
    then show "?good xs" using charges_fit_prefix [of "cs @ map (Pair (pb_cols m)) xs"] by auto
  qed (use acc charged_fit [OF acc] in simp_all)
  then show ?thesis unfolding add_snapshot_rows_def by (fastforce split: if_splits)
qed

lemma add_history_rows_accepts:
  assumes acc: "charged (links, spans) cs"
  shows "if map pbr_index rs = [b ..< b + length rs] \<and> (\<forall>r \<in> set rs. pbr_index r < pb_scrollback_total m)
        \<and> charges_fit (cs @ map (Pair 0) rs)
    then \<exists>l n. add_snapshot_history_rows m rs b links spans
          = Inr (l, \<lparr>hr_spans = n, hr_next_index = b + length rs\<rparr>) \<and> charged (l, n) (cs @ map (Pair 0) rs)
    else \<exists>e. add_snapshot_history_rows m rs b links spans = Inl e"
proof -
  let ?good = "\<lambda>rs. map pbr_index rs = [b ..< b + length rs]
        \<and> (\<forall>r \<in> set rs. pbr_index r < pb_scrollback_total m) \<and> charges_fit (cs @ map (Pair 0) rs)"
  let ?R = "\<lambda>st rs. fst st = b + length rs \<and> charged (snd st) (cs @ map (Pair 0) rs) \<and> ?good rs"
  have "if ?good ([] @ rs)
    then \<exists>st. fold_res (add_history_row m) (b, links, spans) rs = Inr st \<and> ?R st ([] @ rs)
    else \<exists>e. fold_res (add_history_row m) (b, links, spans) rs = Inl e"
  proof (rule fold_res_prefix)
    fix st :: "nat \<times> link_table \<times> nat" and xs x assume R: "?R st xs"
    obtain s a where st: "st = (s, a)" by (cases st)
    have "charged a (cs @ map (Pair 0) xs)" using R by (simp add: st)
    note row = charge_row_accepts [OF this, of 0 x]
    show "if ?good (xs @ [x]) then \<exists>s'. add_history_row m st x = Inr s' \<and> ?R s' (xs @ [x])
      else \<exists>e. add_history_row m st x = Inl e"
      using R row by (auto simp: st add_history_row_def split: if_splits)
  next
    fix xs ys assume g: "?good (xs @ ys)"
    have "map pbr_index xs = take (length xs) (map pbr_index (xs @ ys))" by simp
    also have "\<dots> = take (length xs) [b ..< b + length (xs @ ys)]" using g by (simp only:)
    also have "\<dots> = [b ..< b + length xs]" by (simp add: take_upt)
    finally have "map pbr_index xs = [b ..< b + length xs]" .
    then show "?good xs" using g charges_fit_prefix [of "cs @ map (Pair 0) xs"] by auto
  qed (use acc charged_fit [OF acc] in simp_all)
  then show ?thesis unfolding add_snapshot_history_rows_def by (fastforce split: if_splits)
qed

definition snapshot_charges :: "pb_cell_grid_frame \<Rightarrow> (nat \<times> pb_cell_row) list" where
  "snapshot_charges m = map (Pair (pb_cols m)) (pb_viewport_rows m) @ map (Pair 0) (pb_scrollback_rows m)"

definition snapshot_valid :: "pb_cell_grid_frame \<Rightarrow> bool" where
  "snapshot_valid m \<longleftrightarrow> pb_full m \<and> assert_frame_sequence m = Ok () \<and> frame_structured m \<and> charges_fit (snapshot_charges m)"

lemma snapshot_scalars_accept:
  "assert_snapshot_scalars m = Ok () \<longleftrightarrow> pb_full m \<and> assert_frame_sequence m = Ok ()
     \<and> is_terminal_geometry \<lparr>geo_cols = pb_cols m, geo_rows = pb_rows m\<rparr>
     \<and> pb_scrollback_append m = [] \<and> pb_sb_base m \<le> pb_scrollback_total m"
  by (auto simp: assert_snapshot_scalars_def assert_frame_sequence_def assert_frame_identity_def)

lemma upt_reaches:
  assumes "b \<le> t"
  shows "map f xs = [b ..< b + length xs] \<and> (\<forall>x \<in> set xs. f x < t) \<and> b + length xs = t \<longleftrightarrow> map f xs = [b ..< t]"
proof
  assume eq: "map f xs = [b ..< t]"
  then have "length xs = t - b" by (metis length_map length_upt)
  moreover have "set (map f xs) = {b ..< t}" using eq by (simp only: set_upt)
  then have "\<forall>x \<in> set xs. f x < t" by auto
  ultimately show "map f xs = [b ..< b + length xs] \<and> (\<forall>x \<in> set xs. f x < t) \<and> b + length xs = t"
    using eq assms by simp
qed auto

lemma snapshot_accepts:
  "if snapshot_valid m
   then assert_cell_grid_snapshot m = Ok \<lparr>st_spans = charges_spans (snapshot_charges m),
          st_link_mappings = card (charges_links (snapshot_charges m))\<rparr>
   else \<exists>e. assert_cell_grid_snapshot m = Err e"
proof (cases "assert_snapshot_scalars m = Ok ()")
  case False
  then have "\<not> snapshot_valid m"
    unfolding snapshot_scalars_accept by (auto simp: snapshot_valid_def frame_structured_def)
  with False show ?thesis by (cases "assert_snapshot_scalars m") (auto simp: assert_cell_grid_snapshot_def)
next
  case True
  note sc = True [unfolded snapshot_scalars_accept]
  let ?vs = "pb_viewport_rows m" and ?hs = "pb_scrollback_rows m" and ?t = "pb_scrollback_total m"
  let ?cv = "map (Pair (pb_cols m)) ?vs"
  let ?V = "distinct (map pbr_index ?vs) \<and> (\<forall>r \<in> set ?vs. pbr_index r < pb_rows m) \<and> charges_fit ?cv"
  have rows: "\<not> CELL_GRID_SNAPSHOT_MAX_ROWS < pb_rows m"
    using sc by (simp add: is_terminal_geometry_def CELL_GRID_SNAPSHOT_MAX_ROWS_def)
  note view = add_snapshot_rows_accepts [OF charged_start, of ?vs m "{}"]
  show ?thesis
  proof (cases ?V)
    case False
    then have "\<not> snapshot_valid m"
      by (auto simp: snapshot_valid_def frame_structured_def snapshot_charges_def dest: charges_fit_prefix)
    moreover have "\<exists>e. add_snapshot_rows m ?vs {} [] 0 = Inl e" using view False by auto
    ultimately show ?thesis using True rows by (auto simp: assert_cell_grid_snapshot_def)
  next
    case V: True
    then obtain l n where walk: "add_snapshot_rows m ?vs {} [] 0 = Inr (pbr_index ` set ?vs, l, n)"
      "charged (l, n) ?cv" using view by auto
    note hist = add_history_rows_accepts [OF walk(2), of ?hs "pb_sb_base m" m]
    have card: "card (pbr_index ` set ?vs) = pb_rows m \<longleftrightarrow> set (map pbr_index ?vs) = {0..<pb_rows m}"
    proof -
      have "set (map pbr_index ?vs) \<subseteq> {0..<pb_rows m}" using V by auto
      with V full_cover_iff [of "map pbr_index ?vs" "pb_rows m"] show ?thesis
        using distinct_card [of "map pbr_index ?vs"] by simp
    qed
    let ?H = "map pbr_index ?hs = [pb_sb_base m ..< pb_sb_base m + length ?hs] \<and> (\<forall>r \<in> set ?hs. pbr_index r < ?t)
      \<and> charges_fit (snapshot_charges m)"
    have valid: "snapshot_valid m \<longleftrightarrow> ?H \<and> pb_sb_base m + length ?hs = ?t \<and> card (pbr_index ` set ?vs) = pb_rows m"
    proof -
      have "?H \<and> pb_sb_base m + length ?hs = ?t \<longleftrightarrow> map pbr_index ?hs = [pb_sb_base m ..< ?t] \<and> charges_fit (snapshot_charges m)"
        using upt_reaches [of "pb_sb_base m" ?t pbr_index ?hs] sc by blast
      with sc V show ?thesis unfolding card snapshot_valid_def frame_structured_def by auto
    qed
    show ?thesis
    proof (cases ?H)
      case False
      then have "\<exists>e. add_snapshot_history_rows m ?hs (pb_sb_base m) l n = Inl e"
        using hist by (auto simp: snapshot_charges_def)
      with False show ?thesis unfolding valid using True rows walk by (auto simp: assert_cell_grid_snapshot_def)
    next
      case H: True
      then obtain l' n' where h: "add_snapshot_history_rows m ?hs (pb_sb_base m) l n
          = Inr (l', \<lparr>hr_spans = n', hr_next_index = pb_sb_base m + length ?hs\<rparr>)"
        "charged (l', n') (snapshot_charges m)" using hist by (auto simp: snapshot_charges_def)
      have "length l' = card (charges_links (snapshot_charges m))" "n' = charges_spans (snapshot_charges m)"
        using h(2) table_card by (auto simp: charged_def)
      with H h(1) True rows walk show ?thesis unfolding valid by (auto simp: assert_cell_grid_snapshot_def)
    qed
  qed
qed

text \<open>
  The snapshot check is exact: it accepts a frame if and only if the frame is full, numbered and
  structured as the frame decoder requires (every viewport row once, history dense from the base to the
  total), each row meets the span contract at its own width, and the spans and the distinct link runs of
  both row families together stay within their caps with no link key naming two targets. The reported
  statistics are the true totals.
\<close>

theorem snapshot_check_exact:
  "assert_cell_grid_snapshot m = Ok st \<longleftrightarrow> snapshot_valid m
     \<and> st = \<lparr>st_spans = charges_spans (snapshot_charges m), st_link_mappings = card (charges_links (snapshot_charges m))\<rparr>"
  using snapshot_accepts [of m] by (auto split: if_splits)

end
