(* ===== verification/Cell_Assembler.thy ===== *)
theory Cell_Assembler
  imports Cell_Chunks
begin

text \<open>
  Reassembly of a split frame (\<open>cell/frame_chunk_assembler.rs\<close>): at most one partial snapshot, parts
  admitted in order, a frame handed back only when it is whole. The clock is an argument. A method that
  fails leaves a half-updated partial behind in the source and its only caller drops it at once, so a
  failing step returns the error alone and \<open>push\<close> shows the drop.
\<close>

section \<open>The assembler\<close>

datatype cell_grid_chunk_assembly =
    Pending string nat
  | Complete string pb_cell_grid_frame

record cell_grid_snapshot_progress =
  pr_snapshot_id :: string
  pr_received_chunks :: nat
  pr_total_chunks :: nat

record partial_snapshot =
  ps_snapshot_id :: string
  ps_stream_id :: string
  ps_chunk_count :: nat
  ps_next_chunk_index :: nat
  ps_total_bytes :: nat
  ps_last_chunk_at_ms :: nat
  ps_metadata :: pb_cell_grid_frame
  ps_rows :: "pb_cell_row option list"
  ps_history_rows :: "pb_cell_row list"
  ps_next_history_index :: nat
  ps_seen_rows :: "nat set"
  ps_links :: link_table
  ps_spans :: nat

type_synonym cell_grid_chunk_assembler = "partial_snapshot option"

definition assembler_new :: cell_grid_chunk_assembler where "assembler_new = None"

definition active_snapshot_id :: "cell_grid_chunk_assembler \<Rightarrow> string option" where
  "active_snapshot_id asm = map_option ps_snapshot_id asm"

definition snapshot_progress :: "cell_grid_chunk_assembler \<Rightarrow> cell_grid_snapshot_progress option" where
  "snapshot_progress asm = map_option (\<lambda>p. \<lparr>pr_snapshot_id = ps_snapshot_id p,
     pr_received_chunks = ps_next_chunk_index p, pr_total_chunks = ps_chunk_count p\<rparr>) asm"

definition reset :: "cell_grid_chunk_assembler \<Rightarrow> cell_grid_chunk_assembler" where
  "reset asm = None"

definition expire :: "nat \<Rightarrow> cell_grid_chunk_assembler \<Rightarrow> cell_grid_chunk_assembler \<times> bool" where
  "expire now_ms asm =
     (case asm of
        None \<Rightarrow> (asm, False)
      | Some p \<Rightarrow> if now_ms - ps_last_chunk_at_ms p < CELL_GRID_CHUNK_STALL_MS then (asm, False)
                  else (reset asm, True))"

definition partial_new :: "pb_cell_grid_chunk \<Rightarrow> pb_cell_grid_frame \<Rightarrow> nat \<Rightarrow> partial_snapshot" where
  "partial_new chunk part now_ms =
     \<lparr>ps_snapshot_id = pbc_snapshot_id chunk, ps_stream_id = pb_stream_id part,
      ps_chunk_count = pbc_chunk_count chunk, ps_next_chunk_index = 0, ps_total_bytes = 0,
      ps_last_chunk_at_ms = now_ms, ps_metadata = create_cell_grid_frame_part part [] [],
      ps_rows = replicate (pb_rows part) None, ps_history_rows = [],
      ps_next_history_index = pb_sb_base part, ps_seen_rows = {}, ps_links = [], ps_spans = 0\<rparr>"

definition completed_frame :: "partial_snapshot \<Rightarrow> pb_cell_grid_frame chunk_result" where
  "completed_frame p =
     (if card (ps_seen_rows p) \<noteq> length (ps_rows p) then Err MissingRow
      else if ps_next_history_index p \<noteq> pb_scrollback_total (ps_metadata p) then Err MissingRow
      else res_bind (map_res (\<lambda>row. case row of None \<Rightarrow> Err MissingRow | Some r \<Rightarrow> Ok r) (ps_rows p))
             (\<lambda>rows. Ok (create_cell_grid_frame_part (ps_metadata p) rows (ps_history_rows p))))"

text \<open>The assignments an accepted part makes to its partial, with what the two row walks returned.\<close>

definition advance ::
  "partial_snapshot \<Rightarrow> pb_cell_grid_frame \<Rightarrow> nat \<Rightarrow> nat set \<Rightarrow> link_table \<Rightarrow> nat \<Rightarrow> nat \<Rightarrow> nat \<Rightarrow> partial_snapshot" where
  "advance p part next_history seen links spans encoded_bytes now_ms =
     p\<lparr>ps_spans := spans, ps_next_history_index := next_history,
       ps_history_rows := ps_history_rows p @ pb_scrollback_rows part,
       ps_seen_rows := seen, ps_links := links,
       ps_rows := foldl (\<lambda>rows row. rows[pbr_index row := Some row]) (ps_rows p) (pb_viewport_rows part),
       ps_total_bytes := ps_total_bytes p + encoded_bytes,
       ps_next_chunk_index := ps_next_chunk_index p + 1, ps_last_chunk_at_ms := now_ms\<rparr>"

definition admit_part ::
  "partial_snapshot \<Rightarrow> pb_cell_grid_chunk \<Rightarrow> pb_cell_grid_frame \<Rightarrow> nat \<Rightarrow> nat
     \<Rightarrow> (partial_snapshot \<times> cell_grid_chunk_assembly) chunk_result" where
  "admit_part p chunk part encoded_bytes now_ms =
     (if pbc_chunk_count chunk \<noteq> ps_chunk_count p then Err ChunkCount
      else if \<not> has_same_snapshot_metadata (ps_metadata p) part then Err MetadataMismatch
      else if pbc_chunk_index chunk \<noteq> ps_next_chunk_index p then Err ChunkOrder
      else if CELL_GRID_SNAPSHOT_MAX_BYTES < ps_total_bytes p + encoded_bytes then Err SnapshotSize
      else
        res_bind (add_snapshot_history_rows part (pb_scrollback_rows part) (ps_next_history_index p)
          (ps_links p) (ps_spans p)) (\<lambda>(links, history).
        res_bind (add_snapshot_rows part (pb_viewport_rows part) (ps_seen_rows p) links (hr_spans history))
          (\<lambda>(seen, links', spans).
          let p' = advance p part (hr_next_index history) seen links' spans encoded_bytes now_ms
          in if ps_next_chunk_index p' < ps_chunk_count p'
             then Ok (p', Pending (ps_snapshot_id p') (ps_next_chunk_index p'))
             else res_bind (completed_frame p') (\<lambda>frame. Ok (p', Complete (ps_snapshot_id p') frame)))))"

text \<open>The partial a part joins: the one in flight, or a new one where the part may start one.\<close>

definition partial_for ::
  "cell_grid_chunk_assembler \<Rightarrow> pb_cell_grid_chunk \<Rightarrow> pb_cell_grid_frame \<Rightarrow> nat \<Rightarrow> partial_snapshot chunk_result" where
  "partial_for asm chunk part now_ms =
     (case asm of
        Some p \<Rightarrow>
          if CELL_GRID_CHUNK_STALL_MS \<le> now_ms - ps_last_chunk_at_ms p then Err SnapshotStalled
          else if ps_snapshot_id p \<noteq> pbc_snapshot_id chunk then
            (if pbc_chunk_index chunk \<noteq> 0 then Err ChunkOrder
             else if ps_stream_id p \<noteq> pb_stream_id part then Err MetadataMismatch
             else Ok (partial_new chunk part now_ms))
          else Ok p
      | None \<Rightarrow>
          if pbc_chunk_index chunk \<noteq> 0 then Err ChunkOrder
          else Ok (partial_new chunk part now_ms))"

definition push_checked ::
  "wire_sizes \<Rightarrow> cell_grid_chunk_assembler \<Rightarrow> pb_cell_grid_chunk \<Rightarrow> nat
     \<Rightarrow> (cell_grid_chunk_assembler \<times> cell_grid_chunk_assembly) chunk_result" where
  "push_checked ws asm chunk now_ms =
     (if \<not> is_terminal_uuid (pbc_snapshot_id chunk) then Err InvalidSnapshotId
      else if pbc_chunk_count chunk < 1 \<or> CELL_GRID_SNAPSHOT_MAX_CHUNKS < pbc_chunk_count chunk then Err ChunkCount
      else if pbc_chunk_count chunk \<le> pbc_chunk_index chunk then Err ChunkIndex
      else
        (case pbc_part chunk of
           None \<Rightarrow> Err MissingPart
         | Some part \<Rightarrow>
             res_bind (assert_snapshot_scalars part) (\<lambda>_.
             if pb_viewport_rows part = [] \<and> pb_scrollback_rows part = [] then Err MissingRow
             else if CELL_GRID_PART_MAX_BYTES < chunk_len ws chunk then Err ChunkSize
             else
               res_bind (partial_for asm chunk part now_ms) (\<lambda>p.
               res_bind (admit_part p chunk part (chunk_len ws chunk) now_ms) (\<lambda>(p', assembly).
                 Ok (case assembly of Complete _ _ \<Rightarrow> None | Pending _ _ \<Rightarrow> Some p', assembly))))))"

definition push ::
  "wire_sizes \<Rightarrow> cell_grid_chunk_assembler \<Rightarrow> pb_cell_grid_chunk \<Rightarrow> nat
     \<Rightarrow> cell_grid_chunk_assembler \<times> cell_grid_chunk_assembly chunk_result" where
  "push ws asm chunk now_ms =
     (case push_checked ws asm chunk now_ms of
        Ok (asm', assembly) \<Rightarrow> (asm', Ok assembly)
      | Err code \<Rightarrow> (reset asm, Err code))"

section \<open>What a partial stands for\<close>

definition part_charges :: "nat \<Rightarrow> pb_cell_grid_frame \<Rightarrow> (nat \<times> pb_cell_row) list" where
  "part_charges cols m = map (Pair 0) (pb_scrollback_rows m) @ map (Pair cols) (pb_viewport_rows m)"

definition parts_view :: "pb_cell_grid_frame list \<Rightarrow> pb_cell_row list" where
  "parts_view parts = concat (map pb_viewport_rows parts)"

definition parts_history :: "pb_cell_grid_frame list \<Rightarrow> pb_cell_row list" where
  "parts_history parts = concat (map pb_scrollback_rows parts)"

definition view_ok :: "nat \<Rightarrow> pb_cell_row list \<Rightarrow> bool" where
  "view_ok n rs \<longleftrightarrow> distinct (map pbr_index rs) \<and> (\<forall>r \<in> set rs. pbr_index r < n)"

definition history_ok :: "nat \<Rightarrow> nat \<Rightarrow> pb_cell_row list \<Rightarrow> bool" where
  "history_ok b t rs \<longleftrightarrow> map pbr_index rs = [b ..< b + length rs] \<and> (\<forall>r \<in> set rs. pbr_index r < t)"

definition assembled :: "partial_snapshot \<Rightarrow> pb_cell_grid_frame list \<Rightarrow> bool" where
  "assembled p parts \<longleftrightarrow>
     assert_snapshot_scalars (ps_metadata p) = Ok () \<and> ps_stream_id p = pb_stream_id (ps_metadata p)
     \<and> (\<forall>part \<in> set parts. has_same_snapshot_metadata (ps_metadata p) part)
     \<and> ps_next_chunk_index p = length parts \<and> ps_chunk_count p \<le> CELL_GRID_SNAPSHOT_MAX_CHUNKS
     \<and> ps_total_bytes p \<le> CELL_GRID_SNAPSHOT_MAX_BYTES
     \<and> ps_history_rows p = parts_history parts
     \<and> ps_next_history_index p = pb_sb_base (ps_metadata p) + length (parts_history parts)
     \<and> history_ok (pb_sb_base (ps_metadata p)) (pb_scrollback_total (ps_metadata p)) (parts_history parts)
     \<and> ps_seen_rows p = pbr_index ` set (parts_view parts) \<and> view_ok (pb_rows (ps_metadata p)) (parts_view parts)
     \<and> ps_rows p = map (\<lambda>i. List.find (\<lambda>r. pbr_index r = i) (parts_view parts)) [0..<pb_rows (ps_metadata p)]
     \<and> charged (ps_links p, ps_spans p) (concat (map (part_charges (pb_cols (ps_metadata p))) parts))"

lemma same_metadataD:
  assumes "has_same_snapshot_metadata a b"
  shows "pb_rows b = pb_rows a" "pb_cols b = pb_cols a" "pb_sb_base b = pb_sb_base a"
    "pb_scrollback_total b = pb_scrollback_total a"
  using assms by (simp_all add: has_same_snapshot_metadata_def)

lemma parts_append [simp]:
  "parts_view (ps @ qs) = parts_view ps @ parts_view qs" "parts_history (ps @ qs) = parts_history ps @ parts_history qs"
  "parts_view [] = []" "parts_history [] = []" "parts_view [m] = pb_viewport_rows m" "parts_history [m] = pb_scrollback_rows m"
  by (simp_all add: parts_view_def parts_history_def)

lemma find_append: "List.find P (xs @ ys) = (case List.find P xs of None \<Rightarrow> List.find P ys | Some x \<Rightarrow> Some x)"
  by (induction xs) auto

lemma find_index_None: "List.find (\<lambda>r. pbr_index r = i) rs = None \<longleftrightarrow> i \<notin> pbr_index ` set rs"
  by (auto simp: find_None_iff)

lemma find_index_distinct:
  "distinct (map pbr_index rs) \<Longrightarrow> r \<in> set rs \<Longrightarrow> List.find (\<lambda>x. pbr_index x = pbr_index r) rs = Some r"
  by (induction rs) (auto simp: image_iff)

text \<open>Writing rows into their slots is looking them up by index in everything written so far.\<close>

lemma fill_slots:
  assumes "distinct (map pbr_index (rs @ vs))" "\<forall>r \<in> set vs. pbr_index r < n"
  shows "foldl (\<lambda>slots row. slots[pbr_index row := Some row])
      (map (\<lambda>i. List.find (\<lambda>r. pbr_index r = i) rs) [0..<n]) vs
    = map (\<lambda>i. List.find (\<lambda>r. pbr_index r = i) (rs @ vs)) [0..<n]"
  using assms
proof (induction vs arbitrary: rs)
  case (Cons v vs)
  have "List.find (\<lambda>r. pbr_index r = pbr_index v) rs = None"
    using Cons.prems(1) by (simp add: find_index_None)
  then have "(map (\<lambda>i. List.find (\<lambda>r. pbr_index r = i) rs) [0..<n])[pbr_index v := Some v]
    = map (\<lambda>i. List.find (\<lambda>r. pbr_index r = i) (rs @ [v])) [0..<n]"
    by (intro nth_equalityI) (auto simp: nth_list_update find_append split: option.splits)
  with Cons.IH [of "rs @ [v]"] Cons.prems show ?case by simp
qed simp

lemma partial_new_id: "ps_snapshot_id (partial_new chunk part now_ms) = pbc_snapshot_id chunk"
  by (simp add: partial_new_def)

lemma partial_new_assembled:
  assumes "assert_snapshot_scalars part = Ok ()" "pbc_chunk_count chunk \<le> CELL_GRID_SNAPSHOT_MAX_CHUNKS"
  shows "assembled (partial_new chunk part now_ms) []"
  using assms charged_start
  by (auto simp: assembled_def partial_new_def create_cell_grid_frame_part_def assert_snapshot_scalars_def
      view_ok_def history_ok_def map_replicate_trivial intro!: nth_equalityI split: if_splits)

text \<open>A part is admitted exactly when its rows continue the rows before it; then it is appended.\<close>

definition part_continues :: "partial_snapshot \<Rightarrow> pb_cell_grid_frame list \<Rightarrow> pb_cell_grid_frame \<Rightarrow> bool" where
  "part_continues p parts part \<longleftrightarrow>
     history_ok (pb_sb_base (ps_metadata p)) (pb_scrollback_total (ps_metadata p)) (parts_history (parts @ [part]))
     \<and> view_ok (pb_rows (ps_metadata p)) (parts_view (parts @ [part]))
     \<and> charges_fit (concat (map (part_charges (pb_cols (ps_metadata p))) (parts @ [part])))"

lemma history_ok_append:
  "history_ok b t (xs @ ys) \<longleftrightarrow> history_ok b t xs \<and> history_ok (b + length xs) t ys"
proof -
  have "[b ..< b + length (xs @ ys)] = [b ..< b + length xs] @ [b + length xs ..< b + length xs + length ys]"
    using upt_add_eq_append [of b "b + length xs" "length ys"] by (simp add: add.assoc)
  then show ?thesis by (auto simp: history_ok_def)
qed

lemma image_disjoint: "f ` A \<inter> f ` B = {} \<longleftrightarrow> (\<forall>b \<in> B. f b \<notin> f ` A)"
  unfolding disjoint_iff by (metis imageE imageI)

lemma view_ok_append:
  "view_ok n (xs @ ys) \<longleftrightarrow> view_ok n xs \<and> view_ok n ys \<and> (\<forall>r \<in> set ys. pbr_index r \<notin> pbr_index ` set xs)"
  by (auto simp: view_ok_def image_disjoint)

definition admitted :: "partial_snapshot \<Rightarrow> pb_cell_grid_frame \<Rightarrow> link_table \<Rightarrow> nat \<Rightarrow> nat \<Rightarrow> nat \<Rightarrow> partial_snapshot" where
  "admitted p part = advance p part (ps_next_history_index p + length (pb_scrollback_rows part))
     (ps_seen_rows p \<union> pbr_index ` set (pb_viewport_rows part))"

lemma admitted_assembled:
  assumes a: "assembled p parts" and c: "part_continues p parts part"
    and m: "has_same_snapshot_metadata (ps_metadata p) part"
    and b: "ps_total_bytes p + n \<le> CELL_GRID_SNAPSHOT_MAX_BYTES"
    and ch: "charged (l, k) (concat (map (part_charges (pb_cols (ps_metadata p))) (parts @ [part])))"
  shows "assembled (admitted p part l k n t) (parts @ [part])"
proof -
  have "foldl (\<lambda>slots row. slots[pbr_index row := Some row])
      (map (\<lambda>i. List.find (\<lambda>r. pbr_index r = i) (parts_view parts)) [0..<pb_rows (ps_metadata p)]) (pb_viewport_rows part)
    = map (\<lambda>i. List.find (\<lambda>r. pbr_index r = i) (parts_view parts @ pb_viewport_rows part)) [0..<pb_rows (ps_metadata p)]"
    by (rule fill_slots) (use c in \<open>auto simp: part_continues_def view_ok_def\<close>)
  then show ?thesis
    using a c m b ch unfolding assembled_def part_continues_def by (simp add: admitted_def advance_def image_Un)
qed

lemma admit_part_accepts:
  assumes a: "assembled p parts"
    and guards: "pbc_chunk_count chunk = ps_chunk_count p" "has_same_snapshot_metadata (ps_metadata p) part"
      "pbc_chunk_index chunk = ps_next_chunk_index p" "ps_total_bytes p + n \<le> CELL_GRID_SNAPSHOT_MAX_BYTES"
  shows "if part_continues p parts part
    then \<exists>l k. assembled (admitted p part l k n t) (parts @ [part]) \<and> admit_part p chunk part n t =
        (if ps_next_chunk_index p + 1 < ps_chunk_count p
         then Ok (admitted p part l k n t, Pending (ps_snapshot_id p) (ps_next_chunk_index p + 1))
         else res_bind (completed_frame (admitted p part l k n t))
                (\<lambda>frame. Ok (admitted p part l k n t, Complete (ps_snapshot_id p) frame)))
    else \<exists>e. admit_part p chunk part n t = Err e"
proof -
  let ?md = "ps_metadata p" and ?h = "pb_scrollback_rows part" and ?v = "pb_viewport_rows part"
  let ?cs = "concat (map (part_charges (pb_cols ?md)) parts)"
  note same = same_metadataD [OF guards(2)]
  have acc: "charged (ps_links p, ps_spans p) ?cs" using a by (simp add: assembled_def)
  have step: "admit_part p chunk part n t =
      res_bind (add_snapshot_history_rows part ?h (ps_next_history_index p) (ps_links p) (ps_spans p)) (\<lambda>(links, history).
      res_bind (add_snapshot_rows part ?v (ps_seen_rows p) links (hr_spans history)) (\<lambda>(seen, links', spans).
        let p' = advance p part (hr_next_index history) seen links' spans n t
        in if ps_next_chunk_index p' < ps_chunk_count p'
           then Ok (p', Pending (ps_snapshot_id p') (ps_next_chunk_index p'))
           else res_bind (completed_frame p') (\<lambda>frame. Ok (p', Complete (ps_snapshot_id p') frame))))"
    using guards by (simp add: admit_part_def)
  have hist: "history_ok (pb_sb_base ?md) (pb_scrollback_total ?md) (parts_history (parts @ [part])) \<longleftrightarrow>
      map pbr_index ?h = [ps_next_history_index p ..< ps_next_history_index p + length ?h]
      \<and> (\<forall>r \<in> set ?h. pbr_index r < pb_scrollback_total part)"
    using a same by (auto simp: assembled_def history_ok_append) (auto simp: history_ok_def)
  have view: "view_ok (pb_rows ?md) (parts_view (parts @ [part])) \<longleftrightarrow>
      distinct (map pbr_index ?v) \<and> (\<forall>r \<in> set ?v. pbr_index r < pb_rows part \<and> pbr_index r \<notin> ps_seen_rows p)"
    using a same by (auto simp: assembled_def view_ok_append) (auto simp: view_ok_def)
  have cont: "part_continues p parts part \<longleftrightarrow>
      (map pbr_index ?h = [ps_next_history_index p ..< ps_next_history_index p + length ?h]
        \<and> (\<forall>r \<in> set ?h. pbr_index r < pb_scrollback_total part) \<and> charges_fit (?cs @ map (Pair 0) ?h))
      \<and> (distinct (map pbr_index ?v) \<and> (\<forall>r \<in> set ?v. pbr_index r < pb_rows part \<and> pbr_index r \<notin> ps_seen_rows p)
        \<and> charges_fit ((?cs @ map (Pair 0) ?h) @ map (Pair (pb_cols part)) ?v))"
    unfolding part_continues_def hist view using charges_fit_prefix [of "?cs @ map (Pair 0) ?h"] same
    by (auto simp: part_charges_def)
  note h = add_history_rows_accepts [OF acc, of ?h "ps_next_history_index p" part]
  show ?thesis
  proof (cases "map pbr_index ?h = [ps_next_history_index p ..< ps_next_history_index p + length ?h]
        \<and> (\<forall>r \<in> set ?h. pbr_index r < pb_scrollback_total part) \<and> charges_fit (?cs @ map (Pair 0) ?h)")
    case False
    with h have "\<exists>e. add_snapshot_history_rows part ?h (ps_next_history_index p) (ps_links p) (ps_spans p) = Inl e"
      by (simp only: if_False)
    with False show ?thesis unfolding cont step by auto
  next
    case True
    then obtain l k where h1: "add_snapshot_history_rows part ?h (ps_next_history_index p) (ps_links p) (ps_spans p)
        = Inr (l, \<lparr>hr_spans = k, hr_next_index = ps_next_history_index p + length ?h\<rparr>)"
      "charged (l, k) (?cs @ map (Pair 0) ?h)" using h by auto
    note v = add_snapshot_rows_accepts [OF h1(2), of ?v part "ps_seen_rows p"]
    show ?thesis
    proof (cases "part_continues p parts part")
      case False
      with True v have "\<exists>e. add_snapshot_rows part ?v (ps_seen_rows p) l k = Inl e" unfolding cont by auto
      with False h1 show ?thesis unfolding step by auto
    next
      case go: True
      then obtain l' k' where v1: "add_snapshot_rows part ?v (ps_seen_rows p) l k
          = Inr (ps_seen_rows p \<union> pbr_index ` set ?v, l', k')"
        "charged (l', k') ((?cs @ map (Pair 0) ?h) @ map (Pair (pb_cols part)) ?v)" using v unfolding cont by auto
      have "assembled (admitted p part l' k' n t) (parts @ [part])"
        by (rule admitted_assembled [OF a go guards(2,4)]) (use v1(2) same in \<open>simp add: part_charges_def\<close>)
      then show ?thesis
        using go h1 v1(1) unfolding step by (auto simp: Let_def admitted_def advance_def)
    qed
  qed
qed

section \<open>Completion\<close>

lemma sorted_view:
  assumes ok: "view_ok n V" and cover: "pbr_index ` set V = {0..<n}"
  shows "map pbr_index (sort_key pbr_index V) = [0..<n]"
    "map (\<lambda>i. List.find (\<lambda>r. pbr_index r = i) V) [0..<n] = map Some (sort_key pbr_index V)"
proof -
  have inj: "inj_on pbr_index (set V)" "distinct V" using ok by (simp_all add: view_ok_def distinct_map)
  show idx: "map pbr_index (sort_key pbr_index V) = [0..<n]"
    by (rule sorted_distinct_set_unique) (use inj cover in \<open>simp_all add: distinct_map\<close>)
  have len: "length (sort_key pbr_index V) = n" using arg_cong [OF idx, of length] by simp
  have "List.find (\<lambda>r. pbr_index r = i) V = Some (sort_key pbr_index V ! i)" if "i < n" for i
  proof -
    have "sort_key pbr_index V ! i \<in> set V" using that len by (metis nth_mem set_sort)
    moreover have "pbr_index (sort_key pbr_index V ! i) = i"
      using idx that len by (metis nth_map nth_upt add.left_neutral diff_zero)
    ultimately show ?thesis using find_index_distinct [of V "sort_key pbr_index V ! i"] ok
      by (simp add: view_ok_def)
  qed
  then show "map (\<lambda>i. List.find (\<lambda>r. pbr_index r = i) V) [0..<n] = map Some (sort_key pbr_index V)"
    using len by (intro nth_equalityI) simp_all
qed

lemma slots_all_filled:
  assumes "view_ok n V" "pbr_index ` set V = {0..<n}"
  shows "map_res (\<lambda>row. case row of None \<Rightarrow> Err MissingRow | Some r \<Rightarrow> Ok r)
      (map (\<lambda>i. List.find (\<lambda>r. pbr_index r = i) V) [0..<n]) = Ok (sort_key pbr_index V)
    \<and> map pbr_index (sort_key pbr_index V) = [0..<n]"
  unfolding sorted_view(2) [OF assms] using sorted_view(1) [OF assms] by (simp add: map_res_map)

lemma completed_frame_exact:
  assumes a: "assembled p parts"
  shows "if pbr_index ` set (parts_view parts) = {0..<pb_rows (ps_metadata p)}
      \<and> pb_sb_base (ps_metadata p) + length (parts_history parts) = pb_scrollback_total (ps_metadata p)
    then completed_frame p = Ok (create_cell_grid_frame_part (ps_metadata p)
      (sort_key pbr_index (parts_view parts)) (parts_history parts))
    else \<exists>e. completed_frame p = Err e"
proof -
  let ?V = "parts_view parts" and ?n = "pb_rows (ps_metadata p)"
  have ok: "view_ok ?n ?V" using a by (simp add: assembled_def)
  then have sub: "pbr_index ` set ?V \<subseteq> {0..<?n}" by (auto simp: view_ok_def)
  have "card (ps_seen_rows p) = length (ps_rows p) \<longleftrightarrow> pbr_index ` set ?V = {0..<?n}"
    using a card_subset_eq [OF _ sub] by (auto simp: assembled_def)
  moreover have "ps_next_history_index p = pb_sb_base (ps_metadata p) + length (parts_history parts)"
    "ps_history_rows p = parts_history parts"
    "ps_rows p = map (\<lambda>i. List.find (\<lambda>r. pbr_index r = i) ?V) [0..<?n]"
    using a by (simp_all add: assembled_def)
  ultimately show ?thesis using slots_all_filled [OF ok] unfolding completed_frame_def by auto
qed

lemma charges_by_family:
  "mset (concat (map (part_charges c) parts))
   = mset (map (Pair c) (parts_view parts) @ map (Pair 0) (parts_history parts))"
  by (induction parts) (auto simp: part_charges_def parts_view_def parts_history_def)

lemma completed_frame_valid:
  assumes a: "assembled p parts" and c: "completed_frame p = Ok f"
  shows "snapshot_valid f \<and> map pbr_index (pb_viewport_rows f) = [0..<pb_rows f]"
proof -
  let ?md = "ps_metadata p" and ?V = "parts_view parts" and ?H = "parts_history parts"
  have whole: "pbr_index ` set ?V = {0..<pb_rows ?md}" "pb_sb_base ?md + length ?H = pb_scrollback_total ?md"
    and f: "f = create_cell_grid_frame_part ?md (sort_key pbr_index ?V) ?H"
    using completed_frame_exact [OF a] c by (auto split: if_splits)
  have ok: "view_ok (pb_rows ?md) ?V" "history_ok (pb_sb_base ?md) (pb_scrollback_total ?md) ?H"
    "assert_snapshot_scalars ?md = Ok ()" using a by (simp_all add: assembled_def)
  note sc = ok(3) [unfolded snapshot_scalars_accept]
  have idx: "map pbr_index (pb_viewport_rows f) = [0..<pb_rows f]"
    using slots_all_filled [OF ok(1) whole(1)] by (simp add: f create_cell_grid_frame_part_def)
  have "map pbr_index ?H = [pb_sb_base ?md ..< pb_scrollback_total ?md]"
    using ok(2) whole(2) by (simp add: history_ok_def)
  then have "frame_structured f"
    using sc idx unfolding frame_structured_def by (simp add: f create_cell_grid_frame_part_def flip: set_map)
  moreover have "mset (snapshot_charges f) = mset (concat (map (part_charges (pb_cols ?md)) parts))"
    unfolding charges_by_family by (simp add: snapshot_charges_def f create_cell_grid_frame_part_def)
  then have "charges_fit (snapshot_charges f)"
    by (rule charges_fit_cong [THEN iffD2]) (use a in \<open>simp add: assembled_def charged_def\<close>)
  moreover have "pb_full f" "assert_frame_sequence f = assert_frame_sequence ?md"
    using sc by (simp_all add: f create_cell_grid_frame_part_def assert_frame_sequence_def)
  ultimately show ?thesis using sc idx by (simp add: snapshot_valid_def)
qed

section \<open>Every sequence of calls\<close>

datatype assembler_op = Push pb_cell_grid_chunk nat | Expire nat | Reset

fun exec_assembler :: "wire_sizes \<Rightarrow> assembler_op \<Rightarrow> cell_grid_chunk_assembler \<Rightarrow> cell_grid_chunk_assembler" where
  "exec_assembler ws (Push chunk now_ms) asm = fst (push ws asm chunk now_ms)"
| "exec_assembler ws (Expire now_ms) asm = fst (expire now_ms asm)"
| "exec_assembler ws Reset asm = reset asm"

definition assembler_ok :: "cell_grid_chunk_assembler \<Rightarrow> bool" where
  "assembler_ok asm \<longleftrightarrow> (\<forall>p. asm = Some p \<longrightarrow> (\<exists>parts. assembled p parts \<and> length parts < ps_chunk_count p))"

lemma push_checked_step:
  assumes ok: "assembler_ok asm" and push: "push_checked ws asm chunk t = Ok (asm', assembly)"
  obtains p parts part p' where "partial_for asm chunk part t = Ok p" "assembled p parts"
    "assembled p' (parts @ [part])" "pbc_part chunk = Some part" "ps_snapshot_id p = pbc_snapshot_id chunk"
    "ps_chunk_count p = pbc_chunk_count chunk" "pbc_chunk_index chunk = length parts"
    "ps_snapshot_id p' = ps_snapshot_id p" "ps_chunk_count p' = ps_chunk_count p"
    "if length parts + 1 < ps_chunk_count p
     then asm' = Some p' \<and> assembly = Pending (ps_snapshot_id p) (length parts + 1)
     else asm' = None \<and> (\<exists>f. completed_frame p' = Ok f \<and> assembly = Complete (ps_snapshot_id p) f)"
proof -
  let ?n = "chunk_len ws chunk"
  from push obtain part p p' where steps: "pbc_part chunk = Some part" "assert_snapshot_scalars part = Ok ()"
    "pbc_chunk_count chunk \<le> CELL_GRID_SNAPSHOT_MAX_CHUNKS" "partial_for asm chunk part t = Ok p"
    "admit_part p chunk part ?n t = Ok (p', assembly)"
    "asm' = (case assembly of Complete _ _ \<Rightarrow> None | Pending _ _ \<Rightarrow> Some p')"
    by (auto simp: push_checked_def res_simps split: if_splits option.splits)
  have "p = partial_new chunk part t \<or> (asm = Some p \<and> ps_snapshot_id p = pbc_snapshot_id chunk)"
    using steps(4) by (auto simp: partial_for_def split: option.splits if_splits)
  then obtain parts where a: "assembled p parts" and id: "ps_snapshot_id p = pbc_snapshot_id chunk"
    using ok partial_new_assembled [OF steps(2,3), of t] unfolding assembler_ok_def
    by (metis partial_new_id)
  have guards: "pbc_chunk_count chunk = ps_chunk_count p" "has_same_snapshot_metadata (ps_metadata p) part"
    "pbc_chunk_index chunk = ps_next_chunk_index p" "ps_total_bytes p + ?n \<le> CELL_GRID_SNAPSHOT_MAX_BYTES"
    using steps(5) by (auto simp: admit_part_def split: if_splits)
  have next_index: "ps_next_chunk_index p = length parts" using a by (simp add: assembled_def)
  obtain l k where adm: "assembled (admitted p part l k ?n t) (parts @ [part])"
    "admit_part p chunk part ?n t =
        (if ps_next_chunk_index p + 1 < ps_chunk_count p
         then Ok (admitted p part l k ?n t, Pending (ps_snapshot_id p) (ps_next_chunk_index p + 1))
         else res_bind (completed_frame (admitted p part l k ?n t))
                (\<lambda>frame. Ok (admitted p part l k ?n t, Complete (ps_snapshot_id p) frame)))"
    using admit_part_accepts [OF a guards, of t] steps(5) by (auto split: if_splits)
  have p': "p' = admitted p part l k ?n t"
    using steps(5) unfolding adm(2) by (auto simp: res_simps split: if_splits)
  have same: "ps_snapshot_id p' = ps_snapshot_id p" "ps_chunk_count p' = ps_chunk_count p"
    by (simp_all add: p' admitted_def advance_def)
  have result: "if length parts + 1 < ps_chunk_count p
     then asm' = Some p' \<and> assembly = Pending (ps_snapshot_id p) (length parts + 1)
     else asm' = None \<and> (\<exists>f. completed_frame p' = Ok f \<and> assembly = Complete (ps_snapshot_id p) f)"
    using steps(5,6) unfolding adm(2) next_index p' by (auto simp: res_simps split: if_splits)
  show ?thesis
    by (rule that [OF steps(4) a _ steps(1) id guards(1) [symmetric] _ same result])
      (use adm(1) p' guards(3) next_index in simp_all)
qed

lemma push_ok_iff: "push ws asm chunk t = (asm', Ok assembly) \<longleftrightarrow> push_checked ws asm chunk t = Ok (asm', assembly)"
  by (auto simp: push_def split: sum.splits prod.splits)

lemma push_keeps_ok: "assembler_ok asm \<Longrightarrow> assembler_ok (fst (push ws asm chunk t))"
proof -
  assume ok: "assembler_ok asm"
  show ?thesis
  proof (cases "push_checked ws asm chunk t")
    case (Inl e)
    then show ?thesis by (simp add: push_def reset_def assembler_ok_def)
  next
    case (Inr r)
    then obtain asm' assembly where r: "push_checked ws asm chunk t = Ok (asm', assembly)" by (cases r) auto
    from ok r show ?thesis
      by (rule push_checked_step) (auto simp: push_def r assembler_ok_def split: if_splits intro: exI [where x = "_ @ [_]"])
  qed
qed

interpretation assembler: invariant_machine assembler_ok "\<lambda>_. True" "exec_assembler ws"
proof
  fix s p assume "assembler_ok s"
  then show "assembler_ok (exec_assembler ws p s)"
  proof (cases p)
    case (Push chunk t)
    with \<open>assembler_ok s\<close> show ?thesis by (simp add: push_keeps_ok)
  qed (auto simp: expire_def reset_def assembler_ok_def split: option.splits)
qed

lemma assembler_run_ok: "assembler_ok (fold (exec_assembler ws) ops assembler_new)"
  by (rule assembler.run_invar) (auto simp: assembler_ok_def assembler_new_def list_all_iff)

text \<open>
  C10: No half snapshot is ever installed: whatever parts, resyncs and expiries an assembler has been
  through, when a part completes a snapshot the frame handed back passes the whole snapshot check, its
  viewport rows stand in order under their own numbers, it answers to the part's snapshot id, and the
  assembler is idle again.
\<close>

theorem completed_snapshot_valid:
  assumes "push ws (fold (exec_assembler ws) ops assembler_new) chunk now_ms = (asm', Ok (Complete sid f))"
  shows "(\<exists>st. assert_cell_grid_snapshot f = Ok st) \<and> map pbr_index (pb_viewport_rows f) = [0..<pb_rows f]
    \<and> sid = pbc_snapshot_id chunk \<and> asm' = None"
proof -
  have "push_checked ws (fold (exec_assembler ws) ops assembler_new) chunk now_ms = Ok (asm', Complete sid f)"
    using assms by (simp add: push_ok_iff)
  with assembler_run_ok show ?thesis
  proof (rule push_checked_step)
    fix p parts part p'
    assume a: "assembled p' (parts @ [part])" and id: "ps_snapshot_id p = pbc_snapshot_id chunk"
      and r: "if length parts + 1 < ps_chunk_count p
        then asm' = Some p' \<and> Complete sid f = Pending (ps_snapshot_id p) (length parts + 1)
        else asm' = None \<and> (\<exists>fr. completed_frame p' = Ok fr \<and> Complete sid f = Complete (ps_snapshot_id p) fr)"
    then have "completed_frame p' = Ok f" "asm' = None" "sid = pbc_snapshot_id chunk" by (auto split: if_splits)
    with completed_frame_valid [OF a] snapshot_accepts [of f] show ?thesis by auto
  qed
qed

text \<open>
  An assembler in flight is bounded: whatever was pushed into it, it holds fewer parts than the
  snapshot announced and at most the part cap, row slots for a legal grid only, and spans, link runs
  and encoded bytes within the snapshot caps.
\<close>

theorem assembler_bounded:
  assumes "fold (exec_assembler ws) ops assembler_new = Some p"
  shows "ps_next_chunk_index p < ps_chunk_count p \<and> ps_chunk_count p \<le> CELL_GRID_SNAPSHOT_MAX_CHUNKS
    \<and> length (ps_rows p) \<le> TERMINAL_MAX_ROWS \<and> ps_spans p \<le> CELL_GRID_SNAPSHOT_MAX_SPANS
    \<and> length (ps_links p) \<le> CELL_GRID_SNAPSHOT_MAX_LINK_MAPPINGS
    \<and> ps_total_bytes p \<le> CELL_GRID_SNAPSHOT_MAX_BYTES"
proof -
  obtain parts where a: "assembled p parts" and n: "length parts < ps_chunk_count p"
    using assembler_run_ok [of ws ops] assms by (auto simp: assembler_ok_def)
  then have "charged (ps_links p, ps_spans p) (concat (map (part_charges (pb_cols (ps_metadata p))) parts))"
    "assert_snapshot_scalars (ps_metadata p) = Ok ()" by (simp_all add: assembled_def)
  then have "ps_spans p \<le> CELL_GRID_SNAPSHOT_MAX_SPANS" "length (ps_links p) \<le> CELL_GRID_SNAPSHOT_MAX_LINK_MAPPINGS"
    "pb_rows (ps_metadata p) \<le> TERMINAL_MAX_ROWS"
    by (simp_all add: charged_def charges_fit_def table_holds_def snapshot_scalars_accept is_terminal_geometry_def)
  with a n show ?thesis by (simp add: assembled_def)
qed

text \<open>
  What one call does to the snapshot in flight: a rejected part leaves the assembler idle, so it cannot
  poison the next snapshot; an accepted part that leaves more owed is counted once, under its own
  snapshot id and announced length, and its position is exactly the number of parts received before
  it; a replaced snapshot starts again from its first part.
\<close>

theorem push_progress:
  assumes "assembler_ok asm"
  shows "case push ws asm chunk now_ms of
      (asm', Err code) \<Rightarrow> asm' = None
    | (asm', Ok (Complete sid f)) \<Rightarrow> asm' = None
    | (asm', Ok (Pending sid k)) \<Rightarrow>
        k = pbc_chunk_index chunk + 1 \<and> sid = pbc_snapshot_id chunk
        \<and> snapshot_progress asm' = Some \<lparr>pr_snapshot_id = sid, pr_received_chunks = k, pr_total_chunks = pbc_chunk_count chunk\<rparr>
        \<and> pbc_chunk_index chunk = (case snapshot_progress asm of None \<Rightarrow> 0
            | Some pr \<Rightarrow> if pr_snapshot_id pr = sid then pr_received_chunks pr else 0)"
proof (cases "push_checked ws asm chunk now_ms")
  case (Inl e)
  then show ?thesis by (simp add: push_def reset_def)
next
  case (Inr r)
  then obtain asm' assembly where r: "push_checked ws asm chunk now_ms = Ok (asm', assembly)" by (cases r) auto
  from assms r show ?thesis
  proof (rule push_checked_step)
    fix p parts part p'
    assume f: "partial_for asm chunk part now_ms = Ok p" and a: "assembled p parts" "assembled p' (parts @ [part])"
      and id: "ps_snapshot_id p = pbc_snapshot_id chunk" "ps_chunk_count p = pbc_chunk_count chunk"
        "pbc_chunk_index chunk = length parts" "ps_snapshot_id p' = ps_snapshot_id p" "ps_chunk_count p' = ps_chunk_count p"
      and res: "if length parts + 1 < ps_chunk_count p
        then asm' = Some p' \<and> assembly = Pending (ps_snapshot_id p) (length parts + 1)
        else asm' = None \<and> (\<exists>f. completed_frame p' = Ok f \<and> assembly = Complete (ps_snapshot_id p) f)"
    have cnt: "ps_next_chunk_index p = length parts" "ps_next_chunk_index p' = length parts + 1"
      using a by (simp_all add: assembled_def)
    have "(case snapshot_progress asm of None \<Rightarrow> 0
        | Some pr \<Rightarrow> if pr_snapshot_id pr = pbc_snapshot_id chunk then pr_received_chunks pr else 0) = ps_next_chunk_index p"
      using f by (auto simp: partial_for_def snapshot_progress_def partial_new_def split: option.splits if_splits)
    with res r id cnt show ?thesis by (auto simp: push_def snapshot_progress_def split: if_splits)
  qed
qed

text \<open>A one-row snapshot under an encoder of constant lengths.\<close>

definition unit_sizes :: wire_sizes where
  "unit_sizes = \<lparr>varint_len = \<lambda>_. 1, row_len = \<lambda>_. 2, frame_len = \<lambda>_. 10, chunk_len = \<lambda>_. 20\<rparr>"

definition sample_chunk :: "nat \<Rightarrow> nat \<Rightarrow> pb_cell_grid_chunk" where
  "sample_chunk rows n = \<lparr>pbc_snapshot_id = ''00000000-0000-4000-8000-000000000001'', pbc_chunk_index = 0,
     pbc_chunk_count = n, pbc_part = Some ((frame_message (blank_frame rows) ''s'')
       \<lparr>pb_viewport_rows := [\<lparr>pbr_index = 0, pbr_spans = [], pbr_mark = 0\<rparr>]\<rparr>)\<rparr>"

lemma sample_id: "is_terminal_uuid ''00000000-0000-4000-8000-000000000001''"
  by (simp add: is_terminal_uuid_def UUID_LEN_def is_uuid_version_def is_uuid_variant_def
      is_ascii_hexdigit_def is_ascii_digit_def is_lower_hex_alpha_def enumerate_eq_zip upt_rec)

lemmas push_eval = push_def push_checked_def partial_for_def admit_part_def advance_def partial_new_def
  completed_frame_def assert_snapshot_scalars_def has_same_snapshot_metadata_def add_snapshot_history_rows_def
  add_snapshot_rows_def add_snapshot_row_def charge_row_def assert_part_row_spans_def account_spans_def
  record_span_links_def cell_row_from_proto_bounded_def checked_row_def assert_cell_row_spans_def cell_row_with_mark_def
  create_cell_grid_frame_part_def unit_sizes_def sample_chunk_def frame_message_def blank_frame_def chunk_limits
  is_terminal_geometry_def viewport_limits saturating_add32_def sample_id assembler_new_def

lemma sample_completes: "\<exists>sid f. push unit_sizes assembler_new (sample_chunk 1 1) 0 = (None, Ok (Complete sid f))"
  by (simp add: push_eval)

lemma sample_pends: "\<exists>p. fst (push unit_sizes assembler_new (sample_chunk 2 2) 0) = Some p"
  by (simp add: push_eval)

text \<open>The comparison of a later part's scalars with the first part's leaves the keyboard flags out.\<close>

lemma keyboard_flags_unchecked: "has_same_snapshot_metadata m (m\<lparr>pb_kitty_keyboard_flags := k\<rparr>)"
  by (simp add: has_same_snapshot_metadata_def)

theorem completed_snapshot_valid_witness:
  "\<exists>sid f st. push unit_sizes (fold (exec_assembler unit_sizes) [Expire 3, Reset] assembler_new) (sample_chunk 1 1) 0
      = (None, Ok (Complete sid f)) \<and> assert_cell_grid_snapshot f = Ok st"
proof -
  have idle: "fold (exec_assembler unit_sizes) [Expire 3, Reset] assembler_new = assembler_new"
    by (simp add: reset_def assembler_new_def)
  obtain sid f where run: "push unit_sizes (fold (exec_assembler unit_sizes) [Expire 3, Reset] assembler_new) (sample_chunk 1 1) 0
      = (None, Ok (Complete sid f))"
    unfolding idle using sample_completes by blast
  from completed_snapshot_valid [OF run] run show ?thesis by blast
qed

theorem assembler_bounded_witness:
  "\<exists>p. fold (exec_assembler unit_sizes) [Push (sample_chunk 2 2) 0] assembler_new = Some p
     \<and> ps_next_chunk_index p < ps_chunk_count p"
proof -
  obtain p where "fold (exec_assembler unit_sizes) [Push (sample_chunk 2 2) 0] assembler_new = Some p"
    using sample_pends by auto
  with assembler_bounded [OF this] show ?thesis by blast
qed

theorem push_progress_witness:
  "assembler_ok assembler_new
    \<and> (case push unit_sizes assembler_new (sample_chunk 2 2) 0 of (_, Ok (Pending _ k)) \<Rightarrow> k = 1 | _ \<Rightarrow> True)"
proof -
  have "assembler_ok assembler_new" by (simp add: assembler_ok_def assembler_new_def)
  with push_progress [OF this, where ws = unit_sizes and chunk = "sample_chunk 2 2" and now_ms = 0] show ?thesis
    by (auto simp: sample_chunk_def split: prod.splits sum.splits cell_grid_chunk_assembly.splits)
qed

end
