(* ===== verification/Cell_Transfer.thy ===== *)
theory Cell_Transfer
  imports Cell_Assembler
begin

text \<open>
  Sender and receiver together: a frame split by the planner of \<^verbatim>\<open>cell/frame_chunks.rs\<close> and fed part by
  part to the assembler of \<^verbatim>\<open>cell/frame_chunk_assembler.rs\<close> arrives whole. The encoded lengths are a
  parameter with the protobuf encoding rules as a named hypothesis.
\<close>

section \<open>Feeding an assembler\<close>

fun feed :: "wire_sizes \<Rightarrow> cell_grid_chunk_assembler \<Rightarrow> (pb_cell_grid_chunk \<times> nat) list
    \<Rightarrow> cell_grid_chunk_assembler \<times> cell_grid_chunk_assembly chunk_result list" where
  "feed ws asm [] = (asm, [])"
| "feed ws asm ((c, now_ms) # rest) =
     (case push ws asm c now_ms of (asm', r) \<Rightarrow>
        (case feed ws asm' rest of (asm'', rs) \<Rightarrow> (asm'', r # rs)))"

definition chunk_of :: "string \<Rightarrow> nat \<Rightarrow> nat \<Rightarrow> pb_cell_grid_frame \<Rightarrow> pb_cell_grid_chunk" where
  "chunk_of sid n i part = \<lparr>pbc_snapshot_id = sid, pbc_chunk_index = i, pbc_chunk_count = n, pbc_part = Some part\<rparr>"

definition timely :: "nat list \<Rightarrow> bool" where
  "timely ts \<longleftrightarrow> (\<forall>i. Suc i < length ts \<longrightarrow> ts ! Suc i - ts ! i < CELL_GRID_CHUNK_STALL_MS)"

text \<open>
  What any sender must produce: parts of one valid frame that repeat its scalars, carry at least one row
  each, cover the viewport and the history between them, and stay within the byte limits.
\<close>

definition split_of :: "wire_sizes \<Rightarrow> string \<Rightarrow> pb_cell_grid_frame \<Rightarrow> pb_cell_grid_frame list \<Rightarrow> bool" where
  "split_of ws sid f parts \<longleftrightarrow>
     (\<forall>part \<in> set parts. part = create_cell_grid_frame_part f (pb_viewport_rows part) (pb_scrollback_rows part)
        \<and> (pb_viewport_rows part \<noteq> [] \<or> pb_scrollback_rows part \<noteq> []))
     \<and> mset (parts_view parts) = mset (pb_viewport_rows f) \<and> parts_history parts = pb_scrollback_rows f
     \<and> 1 \<le> length parts \<and> length parts \<le> CELL_GRID_SNAPSHOT_MAX_CHUNKS
     \<and> (\<forall>i < length parts. chunk_len ws (chunk_of sid (length parts) i (parts ! i)) \<le> CELL_GRID_PART_MAX_BYTES)
     \<and> sum_list (map (\<lambda>i. chunk_len ws (chunk_of sid (length parts) i (parts ! i))) [0..<length parts])
         \<le> CELL_GRID_SNAPSHOT_MAX_BYTES"

text \<open>The partial an assembler holds once the first k parts have arrived.\<close>

definition received ::
  "wire_sizes \<Rightarrow> string \<Rightarrow> pb_cell_grid_frame \<Rightarrow> pb_cell_grid_frame list \<Rightarrow> nat list \<Rightarrow> nat \<Rightarrow> partial_snapshot \<Rightarrow> bool" where
  "received ws sid f parts ts k p \<longleftrightarrow>
     assembled p (take k parts) \<and> ps_snapshot_id p = sid \<and> ps_chunk_count p = length parts
     \<and> ps_metadata p = create_cell_grid_frame_part f [] []
     \<and> ps_total_bytes p = sum_list (map (\<lambda>i. chunk_len ws (chunk_of sid (length parts) i (parts ! i))) [0..<k])
     \<and> (0 < k \<longrightarrow> ps_last_chunk_at_ms p = ts ! (k - 1))"

lemma same_metadata_part: "has_same_snapshot_metadata (create_cell_grid_frame_part f v h) (create_cell_grid_frame_part f v' h')"
  by (simp add: has_same_snapshot_metadata_def create_cell_grid_frame_part_def)

lemma part_scalars_ok:
  "snapshot_valid f \<Longrightarrow> assert_snapshot_scalars (create_cell_grid_frame_part f v h) = Ok ()"
  by (auto simp: snapshot_scalars_accept snapshot_valid_def frame_structured_def create_cell_grid_frame_part_def
      assert_frame_sequence_def split: if_splits)

lemma concat_take_mset: "\<exists>ys. concat (map g xs) = concat (map g (take k xs)) @ ys"
  by (metis append_take_drop_id concat_append map_append)

lemma view_ok_mset: "mset xs = mset ys \<Longrightarrow> view_ok n xs \<longleftrightarrow> view_ok n ys"
proof -
  assume eq: "mset xs = mset ys"
  then have "mset (map pbr_index xs) = mset (map pbr_index ys)" by simp
  then have "distinct (map pbr_index xs) \<longleftrightarrow> distinct (map pbr_index ys)" by (rule mset_eq_imp_distinct_iff)
  with mset_eq_setD [OF eq] show ?thesis by (simp add: view_ok_def)
qed

lemma split_prefix_fits:
  assumes v: "snapshot_valid f" and s: "split_of ws sid f parts"
  shows "history_ok (pb_sb_base f) (pb_scrollback_total f) (parts_history (take k parts))
    \<and> view_ok (pb_rows f) (parts_view (take k parts))
    \<and> charges_fit (concat (map (part_charges (pb_cols f)) (take k parts)))"
proof -
  have fs: "frame_structured f" "pb_full f" "charges_fit (snapshot_charges f)" using v by (auto simp: snapshot_valid_def)
  have m: "mset (parts_view parts) = mset (pb_viewport_rows f)" "parts_history parts = pb_scrollback_rows f"
    using s by (auto simp: split_of_def)
  have "history_ok (pb_sb_base f) (pb_scrollback_total f) (parts_history parts)"
  proof -
    have "pb_sb_base f \<le> pb_scrollback_total f" "map pbr_index (pb_scrollback_rows f) = [pb_sb_base f ..< pb_scrollback_total f]"
      using fs(1,2) by (simp_all only: frame_structured_def if_True)
    then show ?thesis unfolding history_ok_def m(2) using upt_reaches by blast
  qed
  moreover have "view_ok (pb_rows f) (parts_view parts)"
    unfolding view_ok_mset [OF m(1)] using fs by (auto simp: frame_structured_def view_ok_def)
  moreover have "mset (concat (map (part_charges (pb_cols f)) parts)) = mset (snapshot_charges f)"
    unfolding charges_by_family m(2) by (simp add: snapshot_charges_def m(1))
  then have "charges_fit (concat (map (part_charges (pb_cols f)) parts))" using fs(3) charges_fit_cong by blast
  moreover have "parts_history parts = parts_history (take k parts) @ parts_history (drop k parts)"
    "parts_view parts = parts_view (take k parts) @ parts_view (drop k parts)"
    by (simp_all flip: parts_append)
  moreover obtain ys where "concat (map (part_charges (pb_cols f)) parts) = concat (map (part_charges (pb_cols f)) (take k parts)) @ ys"
    using concat_take_mset by metis
  ultimately show ?thesis
    by (metis charges_fit_prefix history_ok_append view_ok_append)
qed

text \<open>The state before the k-th part: nothing for the first, the partial of the earlier ones after that.\<close>

definition awaiting ::
  "wire_sizes \<Rightarrow> string \<Rightarrow> pb_cell_grid_frame \<Rightarrow> pb_cell_grid_frame list \<Rightarrow> nat list \<Rightarrow> nat \<Rightarrow> cell_grid_chunk_assembler \<Rightarrow> bool" where
  "awaiting ws sid f parts ts k asm \<longleftrightarrow>
     (k = 0 \<and> asm = None) \<or> (0 < k \<and> (\<exists>p. asm = Some p \<and> received ws sid f parts ts k p))"

lemma split_part:
  assumes "split_of ws sid f parts" "k < length parts"
  obtains vs hs where "parts ! k = create_cell_grid_frame_part f vs hs" "pb_viewport_rows (parts ! k) = vs"
    "pb_scrollback_rows (parts ! k) = hs" "vs \<noteq> [] \<or> hs \<noteq> []"
    "chunk_len ws (chunk_of sid (length parts) k (parts ! k)) \<le> CELL_GRID_PART_MAX_BYTES"
  using assms unfolding split_of_def by (metis nth_mem)

lemma split_bytes_prefix:
  assumes "split_of ws sid f parts" "k \<le> length parts"
  shows "sum_list (map (\<lambda>i. chunk_len ws (chunk_of sid (length parts) i (parts ! i))) [0..<k]) \<le> CELL_GRID_SNAPSHOT_MAX_BYTES"
proof -
  let ?b = "\<lambda>i. chunk_len ws (chunk_of sid (length parts) i (parts ! i))"
  have "sum_list (map ?b [0..<length parts]) = sum_list (map ?b [0..<k]) + sum_list (map ?b [k..<length parts])"
    using assms(2) upt_add_eq_append [of 0 k "length parts - k"] by simp
  with assms(1) show ?thesis by (simp add: split_of_def)
qed

lemma partial_for_received:
  assumes v: "snapshot_valid f" and s: "split_of ws sid f parts" and k: "k < length parts"
    and t: "timely ts" "length ts = length parts" and w: "awaiting ws sid f parts ts k asm"
  shows "\<exists>p. partial_for asm (chunk_of sid (length parts) k (parts ! k)) (parts ! k) (ts ! k) = Ok p
    \<and> received ws sid f parts ts k p"
proof (cases "k = 0")
  case True
  obtain vs hs where part: "parts ! k = create_cell_grid_frame_part f vs hs" using split_part [OF s k] by metis
  let ?p = "partial_new (chunk_of sid (length parts) k (parts ! k)) (parts ! k) (ts ! k)"
  have "assembled ?p []"
    using part_scalars_ok [OF v] s by (intro partial_new_assembled) (simp_all add: part split_of_def chunk_of_def)
  moreover have "create_cell_grid_frame_part (parts ! k) [] [] = create_cell_grid_frame_part f [] []"
    unfolding part by (simp add: create_cell_grid_frame_part_def)
  ultimately have "received ws sid f parts ts k ?p"
    using True by (simp add: received_def partial_new_def chunk_of_def)
  with True w show ?thesis by (auto simp: awaiting_def partial_for_def chunk_of_def)
next
  case False
  then obtain j where j: "k = Suc j" by (cases k) auto
  then obtain q where q: "asm = Some q" "received ws sid f parts ts k q" using w by (auto simp: awaiting_def)
  have "ts ! Suc j - ts ! j < CELL_GRID_CHUNK_STALL_MS" using t k by (simp add: timely_def j)
  with q show ?thesis by (auto simp: partial_for_def chunk_of_def received_def j)
qed

lemma received_admit:
  assumes v: "snapshot_valid f" and s: "split_of ws sid f parts" and k: "k < length parts"
    and r: "received ws sid f parts ts k p"
  defines "c \<equiv> chunk_of sid (length parts) k (parts ! k)"
  shows "\<exists>p'. received ws sid f parts ts (Suc k) p' \<and> admit_part p c (parts ! k) (chunk_len ws c) (ts ! k) =
    (if Suc k < length parts then Ok (p', Pending sid (Suc k))
     else res_bind (completed_frame p') (\<lambda>frame. Ok (p', Complete sid frame)))"
proof -
  have a: "assembled p (take k parts)" and md: "ps_metadata p = create_cell_grid_frame_part f [] []"
    and p: "ps_chunk_count p = length parts" "ps_snapshot_id p = sid"
    using r by (simp_all add: received_def)
  have idx: "ps_next_chunk_index p = k" using a k by (simp add: assembled_def)
  obtain vs hs where part: "parts ! k = create_cell_grid_frame_part f vs hs" using split_part [OF s k] by metis
  have same: "has_same_snapshot_metadata (ps_metadata p) (parts ! k)" unfolding md part by (rule same_metadata_part)
  have bytes: "ps_total_bytes p + chunk_len ws c \<le> CELL_GRID_SNAPSHOT_MAX_BYTES"
    using split_bytes_prefix [OF s, of "Suc k"] k r by (simp add: received_def c_def)
  have next_parts: "take k parts @ [parts ! k] = take (Suc k) parts" using k by (simp add: take_Suc_conv_app_nth)
  have "part_continues p (take k parts) (parts ! k)"
    unfolding part_continues_def next_parts md using split_prefix_fits [OF v s, of "Suc k"]
    by (simp add: create_cell_grid_frame_part_def)
  then obtain l j where adm: "assembled (admitted p (parts ! k) l j (chunk_len ws c) (ts ! k)) (take (Suc k) parts)"
    "admit_part p c (parts ! k) (chunk_len ws c) (ts ! k) =
        (if ps_next_chunk_index p + 1 < ps_chunk_count p
         then Ok (admitted p (parts ! k) l j (chunk_len ws c) (ts ! k), Pending (ps_snapshot_id p) (ps_next_chunk_index p + 1))
         else res_bind (completed_frame (admitted p (parts ! k) l j (chunk_len ws c) (ts ! k)))
                (\<lambda>frame. Ok (admitted p (parts ! k) l j (chunk_len ws c) (ts ! k), Complete (ps_snapshot_id p) frame)))"
    using admit_part_accepts [OF a _ same _ bytes, of c "ts ! k"] idx p(1)
    unfolding next_parts by (auto simp: c_def chunk_of_def)
  have "received ws sid f parts ts (Suc k) (admitted p (parts ! k) l j (chunk_len ws c) (ts ! k))"
    using adm(1) r by (simp add: received_def admitted_def advance_def c_def)
  with adm(2) show ?thesis by (auto simp: idx p)
qed

lemma received_all_completes:
  assumes v: "snapshot_valid f" and s: "split_of ws sid f parts" and r: "received ws sid f parts ts (length parts) p"
  shows "completed_frame p = Ok (f\<lparr>pb_viewport_rows := sort_key pbr_index (pb_viewport_rows f)\<rparr>)"
proof -
  have a: "assembled p parts" and md: "ps_metadata p = create_cell_grid_frame_part f [] []"
    using r by (simp_all add: received_def)
  have m: "mset (parts_view parts) = mset (pb_viewport_rows f)" "parts_history parts = pb_scrollback_rows f"
    using s by (auto simp: split_of_def)
  have fs: "set (map pbr_index (pb_viewport_rows f)) = {0..<pb_rows f}" "distinct (map pbr_index (pb_viewport_rows f))"
    "map pbr_index (pb_scrollback_rows f) = [pb_sb_base f ..< pb_scrollback_total f]"
    "pb_sb_base f \<le> pb_scrollback_total f" "pb_scrollback_append f = []"
    using v by (auto simp: snapshot_valid_def frame_structured_def)
  have "pb_sb_base f + length (pb_scrollback_rows f) = pb_scrollback_total f"
    using arg_cong [OF fs(3), of length] fs(4) by simp
  moreover have "pbr_index ` set (parts_view parts) = {0..<pb_rows f}"
    using fs(1) mset_eq_setD [OF m(1)] by simp
  moreover have "sort_key pbr_index (parts_view parts) = sort_key pbr_index (pb_viewport_rows f)"
    using fs(2) mset_eq_setD [OF m(1)]
    by (intro sort_key_inj_key_eq) (simp_all add: m(1) distinct_map)
  ultimately show ?thesis
    using completed_frame_exact [OF a] fs(5) by (simp add: md m(2) create_cell_grid_frame_part_def)
qed

lemma awaiting_push:
  assumes v: "snapshot_valid f" and s: "split_of ws sid f parts" and id: "is_terminal_uuid sid"
    and k: "k < length parts" and t: "timely ts" "length ts = length parts" and w: "awaiting ws sid f parts ts k asm"
  shows "\<exists>asm'. push ws asm (chunk_of sid (length parts) k (parts ! k)) (ts ! k) =
      (asm', Ok (if Suc k < length parts then Pending sid (Suc k)
                 else Complete sid (f\<lparr>pb_viewport_rows := sort_key pbr_index (pb_viewport_rows f)\<rparr>)))
    \<and> (if Suc k < length parts then awaiting ws sid f parts ts (Suc k) asm' else asm' = None)"
proof -
  let ?c = "chunk_of sid (length parts) k (parts ! k)"
  obtain p where p: "partial_for asm ?c (parts ! k) (ts ! k) = Ok p" "received ws sid f parts ts k p"
    using partial_for_received [OF v s k t w] by blast
  obtain p' where p': "received ws sid f parts ts (Suc k) p'"
    "admit_part p ?c (parts ! k) (chunk_len ws ?c) (ts ! k) =
      (if Suc k < length parts then Ok (p', Pending sid (Suc k))
       else res_bind (completed_frame p') (\<lambda>frame. Ok (p', Complete sid frame)))"
    using received_admit [OF v s k p(2)] by blast
  have whole: "completed_frame p' = Ok (f\<lparr>pb_viewport_rows := sort_key pbr_index (pb_viewport_rows f)\<rparr>)"
    if "\<not> Suc k < length parts"
  proof -
    have "length parts = Suc k" using that k by simp
    then show ?thesis using received_all_completes [OF v s] p'(1) by simp
  qed
  obtain vs hs where part: "parts ! k = create_cell_grid_frame_part f vs hs" "pb_viewport_rows (parts ! k) = vs"
    "pb_scrollback_rows (parts ! k) = hs" "vs \<noteq> [] \<or> hs \<noteq> []" "chunk_len ws ?c \<le> CELL_GRID_PART_MAX_BYTES"
    using split_part [OF s k] by metis
  have "assert_snapshot_scalars (parts ! k) = Ok ()" unfolding part(1) by (rule part_scalars_ok [OF v])
  then have "push_checked ws asm ?c (ts ! k) =
      res_bind (partial_for asm ?c (parts ! k) (ts ! k)) (\<lambda>p.
      res_bind (admit_part p ?c (parts ! k) (chunk_len ws ?c) (ts ! k)) (\<lambda>(p', assembly).
        Ok (case assembly of Complete _ _ \<Rightarrow> None | Pending _ _ \<Rightarrow> Some p', assembly)))"
    using id k s part(2-5) by (auto simp: push_checked_def chunk_of_def split_of_def)
  with p(1) p' whole show ?thesis by (auto simp: push_def awaiting_def)
qed

lemma feed_from:
  assumes "snapshot_valid f" "split_of ws sid f parts" "is_terminal_uuid sid"
    "timely ts" "length ts = length parts" "k < length parts" "awaiting ws sid f parts ts k asm"
  shows "feed ws asm (map (\<lambda>i. (chunk_of sid (length parts) i (parts ! i), ts ! i)) [k..<length parts]) =
    (None, map (\<lambda>i. Ok (Pending sid (Suc i))) [k..<length parts - 1]
       @ [Ok (Complete sid (f\<lparr>pb_viewport_rows := sort_key pbr_index (pb_viewport_rows f)\<rparr>))])"
  using assms(6,7)
proof (induction "length parts - k" arbitrary: k asm)
  case (Suc d)
  obtain asm' where step: "push ws asm (chunk_of sid (length parts) k (parts ! k)) (ts ! k) =
      (asm', Ok (if Suc k < length parts then Pending sid (Suc k)
                 else Complete sid (f\<lparr>pb_viewport_rows := sort_key pbr_index (pb_viewport_rows f)\<rparr>)))"
    "if Suc k < length parts then awaiting ws sid f parts ts (Suc k) asm' else asm' = None"
    using awaiting_push [OF assms(1-3) Suc.prems(1) assms(4,5) Suc.prems(2)] by blast
  show ?case
  proof (cases "Suc k < length parts")
    case True
    then have "[k..<length parts] = k # [Suc k..<length parts]" "[k..<length parts - 1] = k # [Suc k..<length parts - 1]"
      by (simp_all add: upt_rec)
    moreover have "d = length parts - Suc k" using Suc.hyps(2) by simp
    ultimately show ?thesis using Suc.hyps(1) [of "Suc k" asm'] step True by simp
  next
    case False
    then have "[k..<length parts] = [k]" "[k..<length parts - 1] = []" using Suc.prems(1) by (simp_all add: upt_rec)
    with False step show ?thesis by simp
  qed
qed simp

lemma split_assembles:
  assumes "snapshot_valid f" "split_of ws sid f parts" "is_terminal_uuid sid" "timely ts" "length ts = length parts"
  shows "feed ws assembler_new (map (\<lambda>i. (chunk_of sid (length parts) i (parts ! i), ts ! i)) [0..<length parts]) =
    (None, map (\<lambda>i. Ok (Pending sid (Suc i))) [0..<length parts - 1]
       @ [Ok (Complete sid (f\<lparr>pb_viewport_rows := sort_key pbr_index (pb_viewport_rows f)\<rparr>))])"
  by (rule feed_from [OF assms]) (use assms(2) in \<open>auto simp: split_of_def awaiting_def assembler_new_def\<close>)

section \<open>Rows named by a plan\<close>

definition row_of :: "pb_cell_grid_frame \<Rightarrow> snapshot_entry \<Rightarrow> pb_cell_row" where
  "row_of f e = projr (entry_row f e)"

definition view_rows :: "pb_cell_grid_frame \<Rightarrow> snapshot_entry list \<Rightarrow> pb_cell_row list" where
  "view_rows f es = map (row_of f) (filter (\<lambda>e. \<not> se_history e) es)"

definition hist_rows :: "pb_cell_grid_frame \<Rightarrow> snapshot_entry list \<Rightarrow> pb_cell_row list" where
  "hist_rows f es = map (row_of f) (filter se_history es)"

definition part_for :: "pb_cell_grid_frame \<Rightarrow> snapshot_entry list \<Rightarrow> pb_cell_grid_frame" where
  "part_for f es = create_cell_grid_frame_part f (view_rows f es) (hist_rows f es)"

text \<open>Row indices are 32-bit fields of the message.\<close>

definition rows_u32 :: "pb_cell_grid_frame \<Rightarrow> bool" where
  "rows_u32 f \<longleftrightarrow> (\<forall>r \<in> set (pb_viewport_rows f) \<union> set (pb_scrollback_rows f). pbr_index r \<le> u32_max)"

lemma valid_structure:
  assumes "snapshot_valid f"
  shows "view_ok (pb_rows f) (pb_viewport_rows f)" "pbr_index ` set (pb_viewport_rows f) = {0..<pb_rows f}"
    "map pbr_index (pb_scrollback_rows f) = [pb_sb_base f ..< pb_scrollback_total f]" "pb_scrollback_append f = []"
  using assms by (auto simp: snapshot_valid_def frame_structured_def view_ok_def)

lemma history_entry:
  assumes "snapshot_valid f" "rows_u32 f" "k < length (pb_scrollback_rows f)"
  shows "entry_row f \<lparr>se_history = True, se_index = min (saturating_add64 (pb_sb_base f) k) u32_max\<rparr>
    = Ok (pb_scrollback_rows f ! k)"
proof -
  let ?hs = "pb_scrollback_rows f"
  note st = valid_structure(3) [OF assms(1)]
  have "length ?hs = pb_scrollback_total f - pb_sb_base f" using arg_cong [OF st, of length] by simp
  then have i: "pbr_index (?hs ! k) = pb_sb_base f + k"
    using st assms(3) by (metis nth_map nth_upt less_diff_conv add.commute)
  moreover have "pbr_index (?hs ! k) \<le> u32_max" using assms(2,3) by (simp add: rows_u32_def)
  ultimately have "min (saturating_add64 (pb_sb_base f) k) u32_max = pbr_index (?hs ! k)"
    by (simp add: saturating_add64_def u32_max_def u64_max_def)
  moreover have "distinct (map pbr_index ?hs)" unfolding st by simp
  ultimately show ?thesis using find_index_distinct [of ?hs "?hs ! k"] assms(3) by (simp add: entry_row_def)
qed

lemma viewport_entry:
  assumes "snapshot_valid f" "i < pb_rows f"
  shows "entry_row f \<lparr>se_history = False, se_index = i\<rparr> = Ok (sort_key pbr_index (pb_viewport_rows f) ! i)"
proof -
  note sv = sorted_view [OF valid_structure(1,2) [OF assms(1)]]
  have "length (sort_key pbr_index (pb_viewport_rows f)) = pb_rows f" using arg_cong [OF sv(1), of length] by simp
  then have "List.find (\<lambda>r. pbr_index r = i) (pb_viewport_rows f) = Some (sort_key pbr_index (pb_viewport_rows f) ! i)"
    using arg_cong [OF sv(2), of "\<lambda>xs. xs ! i"] assms(2) by simp
  then show ?thesis by (simp add: entry_row_def)
qed

lemma entries_resolve:
  assumes v: "snapshot_valid f" and u: "rows_u32 f"
  shows "e \<in> set (snapshot_entries f) \<Longrightarrow> entry_row f e = Ok (row_of f e)"
    "hist_rows f (snapshot_entries f) = pb_scrollback_rows f"
    "view_rows f (snapshot_entries f) = sort_key pbr_index (pb_viewport_rows f)"
proof -
  show "entry_row f e = Ok (row_of f e)" if "e \<in> set (snapshot_entries f)"
    using that history_entry [OF v u] viewport_entry [OF v] by (auto simp: snapshot_entries_def row_of_def)
  have "map (row_of f) (map (\<lambda>k. \<lparr>se_history = True, se_index = min (saturating_add64 (pb_sb_base f) k) u32_max\<rparr>)
      [0..<length (pb_scrollback_rows f)]) = map ((!) (pb_scrollback_rows f)) [0..<length (pb_scrollback_rows f)]"
    using history_entry [OF v u] by (simp add: row_of_def)
  then show "hist_rows f (snapshot_entries f) = pb_scrollback_rows f"
    by (simp add: hist_rows_def snapshot_entries_def filter_map comp_def map_nth)
  have len: "length (sort_key pbr_index (pb_viewport_rows f)) = pb_rows f"
    using arg_cong [OF sorted_view(1) [OF valid_structure(1,2) [OF v]], of length] by simp
  have "map (row_of f) (map (\<lambda>i. \<lparr>se_history = False, se_index = i\<rparr>) [0..<pb_rows f])
      = map ((!) (sort_key pbr_index (pb_viewport_rows f))) [0..<length (sort_key pbr_index (pb_viewport_rows f))]"
    unfolding len using viewport_entry [OF v] by (simp add: row_of_def)
  then show "view_rows f (snapshot_entries f) = sort_key pbr_index (pb_viewport_rows f)"
    unfolding map_nth by (simp add: view_rows_def snapshot_entries_def filter_map comp_def)
qed

lemma collect_rows:
  assumes "\<forall>e \<in> set es. entry_row f e = Ok (row_of f e)"
  shows "fold_res (collect_row f) (v, h) es = Ok (v @ view_rows f es, h @ hist_rows f es)"
  using assms by (induction es arbitrary: v h) (auto simp: collect_row_def view_rows_def hist_rows_def)

lemma rows_append [simp]:
  "view_rows f (xs @ ys) = view_rows f xs @ view_rows f ys" "hist_rows f (xs @ ys) = hist_rows f xs @ hist_rows f ys"
  by (simp_all add: view_rows_def hist_rows_def)

section \<open>Encoded lengths\<close>

text \<open>
  The protobuf encoding rules for the fields the planner measures: field numbers up to fifteen have a
  one-byte tag, a zero scalar and an empty string are not encoded, an embedded message is its tag, its
  length as a varint and its bytes, and a varint of a 64-bit value has at most ten bytes and grows with
  the value. They are stated for one frame below two gigabytes, the limit of the format, and the parts
  that repeat its scalars.
\<close>

definition string_field_len :: "wire_sizes \<Rightarrow> string \<Rightarrow> nat" where
  "string_field_len ws s = (if s = [] then 0 else 1 + varint_len ws (length s) + length s)"

definition uint_field_len :: "wire_sizes \<Rightarrow> nat \<Rightarrow> nat" where
  "uint_field_len ws n = (if n = 0 then 0 else 1 + varint_len ws n)"

definition message_field_len :: "wire_sizes \<Rightarrow> nat \<Rightarrow> nat" where
  "message_field_len ws n = 1 + varint_len ws n + n"

definition header_len :: "wire_sizes \<Rightarrow> string \<Rightarrow> nat \<Rightarrow> nat \<Rightarrow> nat" where
  "header_len ws sid i n = string_field_len ws sid + uint_field_len ws i + uint_field_len ws n"

definition rows_len :: "wire_sizes \<Rightarrow> pb_cell_row list \<Rightarrow> nat" where
  "rows_len ws rs = sum_list (map (\<lambda>r. message_field_len ws (row_len ws r)) rs)"

definition wire_size_laws :: "wire_sizes \<Rightarrow> pb_cell_grid_frame \<Rightarrow> bool" where
  "wire_size_laws ws f \<longleftrightarrow>
     (\<forall>m n. m \<le> n \<longrightarrow> n \<le> u64_max \<longrightarrow> varint_len ws m \<le> varint_len ws n \<and> varint_len ws n \<le> 10)
     \<and> (\<forall>sid i n. length sid = UUID_LEN \<longrightarrow> i \<le> u32_max \<longrightarrow> n \<le> u32_max \<longrightarrow>
          chunk_header_bytes ws sid i n = header_len ws sid i n
          \<and> (\<forall>vs hs. mset vs \<subseteq># mset (pb_viewport_rows f) \<longrightarrow> mset hs \<subseteq># mset (pb_scrollback_rows f) \<longrightarrow>
               chunk_len ws (chunk_of sid n i (create_cell_grid_frame_part f vs hs))
               = header_len ws sid i n + message_field_len ws (frame_len ws (create_cell_grid_frame_part f vs hs))))
     \<and> (\<forall>vs hs. mset vs \<subseteq># mset (pb_viewport_rows f) \<longrightarrow> mset hs \<subseteq># mset (pb_scrollback_rows f) \<longrightarrow>
          frame_len ws (create_cell_grid_frame_part f vs hs)
          = frame_len ws (create_cell_grid_frame_part f [] []) + rows_len ws vs + rows_len ws hs
          \<and> frame_len ws (create_cell_grid_frame_part f vs hs) < 2 ^ 31)"

lemma law_varint:
  assumes "wire_size_laws ws f" "n \<le> u64_max"
  shows "m \<le> n \<Longrightarrow> varint_len ws m \<le> varint_len ws n" "varint_len ws n \<le> 10"
  using assms unfolding wire_size_laws_def by blast+

lemma law_header:
  assumes "wire_size_laws ws f" "length sid = UUID_LEN" "i \<le> u32_max" "n \<le> u32_max"
  shows "chunk_header_bytes ws sid i n = header_len ws sid i n"
  using assms unfolding wire_size_laws_def by blast

lemma law_part:
  assumes "wire_size_laws ws f" "mset vs \<subseteq># mset (pb_viewport_rows f)" "mset hs \<subseteq># mset (pb_scrollback_rows f)"
  shows "frame_len ws (create_cell_grid_frame_part f vs hs)
      = frame_len ws (create_cell_grid_frame_part f [] []) + rows_len ws vs + rows_len ws hs"
    "frame_len ws (create_cell_grid_frame_part f vs hs) < 2 ^ 31"
    "length sid = UUID_LEN \<Longrightarrow> i \<le> u32_max \<Longrightarrow> n \<le> u32_max \<Longrightarrow>
      chunk_len ws (chunk_of sid n i (create_cell_grid_frame_part f vs hs))
      = header_len ws sid i n + message_field_len ws (frame_len ws (create_cell_grid_frame_part f vs hs))"
  using assms unfolding wire_size_laws_def by blast+

definition part_bytes :: "wire_sizes \<Rightarrow> pb_cell_grid_frame \<Rightarrow> snapshot_entry list \<Rightarrow> nat" where
  "part_bytes ws f es = frame_len ws (create_cell_grid_frame_part f [] []) + rows_len ws (map (row_of f) es)"

abbreviation planned_within :: "pb_cell_grid_frame \<Rightarrow> snapshot_entry list \<Rightarrow> bool" where
  "planned_within f es \<equiv> mset es \<subseteq># mset (snapshot_entries f)"

lemma rows_len_simps [simp]:
  "rows_len ws [] = 0" "rows_len ws (r # rs) = message_field_len ws (row_len ws r) + rows_len ws rs"
  "rows_len ws (rs @ qs) = rows_len ws rs + rows_len ws qs"
  by (simp_all add: rows_len_def)

lemma rows_len_families: "rows_len ws (map (row_of f) es) = rows_len ws (view_rows f es) + rows_len ws (hist_rows f es)"
  by (induction es) (auto simp: view_rows_def hist_rows_def)

lemma families_within:
  assumes v: "snapshot_valid f" and u: "rows_u32 f" and w: "planned_within f es"
  shows "mset (view_rows f es) \<subseteq># mset (pb_viewport_rows f)" "mset (hist_rows f es) \<subseteq># mset (pb_scrollback_rows f)"
proof -
  have "mset (map (row_of f) (filter P es)) \<subseteq># mset (map (row_of f) (filter P (snapshot_entries f)))" for P
    using w by (simp add: image_mset_subseteq_mono multiset_filter_mono)
  then have "mset (view_rows f es) \<subseteq># mset (view_rows f (snapshot_entries f))"
    "mset (hist_rows f es) \<subseteq># mset (hist_rows f (snapshot_entries f))"
    unfolding view_rows_def hist_rows_def by blast+
  then show "mset (view_rows f es) \<subseteq># mset (pb_viewport_rows f)" "mset (hist_rows f es) \<subseteq># mset (pb_scrollback_rows f)"
    unfolding entries_resolve(2,3) [OF v u] by simp_all
qed

lemma part_lengths:
  assumes l: "wire_size_laws ws f" and v: "snapshot_valid f" "rows_u32 f" and w: "planned_within f es"
  shows "frame_len ws (part_for f es) = part_bytes ws f es" "part_bytes ws f es < 2 ^ 31"
    "length sid = UUID_LEN \<Longrightarrow> i \<le> u32_max \<Longrightarrow> n \<le> u32_max \<Longrightarrow>
      chunk_len ws (chunk_of sid n i (part_for f es)) = header_len ws sid i n + message_field_len ws (part_bytes ws f es)"
proof -
  note law = law_part [OF l families_within [OF v w], folded part_for_def]
  show eq: "frame_len ws (part_for f es) = part_bytes ws f es"
    unfolding law(1) part_bytes_def rows_len_families by simp
  show "part_bytes ws f es < 2 ^ 31" using law(2) unfolding eq .
  show "chunk_len ws (chunk_of sid n i (part_for f es)) = header_len ws sid i n + message_field_len ws (part_bytes ws f es)"
    if "length sid = UUID_LEN" "i \<le> u32_max" "n \<le> u32_max"
    using law(3) [OF that] unfolding eq .
qed

lemma add32_exact: "a + b < 2 ^ 32 \<Longrightarrow> add32 a b = a + b"
  by (simp add: add32_def)

lemma sub32_exact: "b \<le> a \<Longrightarrow> a < 2 ^ 32 \<Longrightarrow> sub32 a b = a - b"
proof -
  assume b: "b \<le> a" "a < 2 ^ 32"
  then have "a + 2 ^ 32 - b = (a - b) + 2 ^ 32" by simp
  then have "(a + 2 ^ 32 - b) mod 2 ^ 32 = (a - b) mod 2 ^ 32" by (simp only: mod_add_self2)
  with b show ?thesis by (simp add: sub32_def)
qed

lemma varint_bound: "wire_size_laws ws f \<Longrightarrow> n < 2 ^ 32 \<Longrightarrow> varint_len ws n \<le> 10"
  using law_varint(2) [of ws f n] by (simp add: u64_max_def)

section \<open>The plan measured by the laws\<close>

abbreviation widest_header :: "wire_sizes \<Rightarrow> nat" where
  "widest_header ws \<equiv> header_len ws PLANNING_SNAPSHOT_ID (CELL_GRID_SNAPSHOT_MAX_CHUNKS - 1) CELL_GRID_SNAPSHOT_MAX_CHUNKS"

definition part_fits :: "wire_sizes \<Rightarrow> pb_cell_grid_frame \<Rightarrow> snapshot_entry list \<Rightarrow> bool" where
  "part_fits ws f es \<longleftrightarrow> widest_header ws + message_field_len ws (part_bytes ws f es) \<le> CELL_GRID_PART_MAX_BYTES"

lemma planning_id_len: "length PLANNING_SNAPSHOT_ID = UUID_LEN"
  by (simp add: PLANNING_SNAPSHOT_ID_def UUID_LEN_def)

lemma header_le_widest:
  assumes l: "wire_size_laws ws f" and "length sid = UUID_LEN" "i < CELL_GRID_SNAPSHOT_MAX_CHUNKS" "n \<le> CELL_GRID_SNAPSHOT_MAX_CHUNKS"
  shows "header_len ws sid i n \<le> widest_header ws"
proof -
  have "varint_len ws i \<le> varint_len ws 255" "varint_len ws n \<le> varint_len ws 256"
    using assms law_varint(1) [OF l, of 255 i] law_varint(1) [OF l, of 256 n] by (simp_all add: u64_max_def chunk_limits)
  moreover have "string_field_len ws sid = string_field_len ws PLANNING_SNAPSHOT_ID"
    using assms(2) planning_id_len by (auto simp: string_field_len_def UUID_LEN_def)
  ultimately show ?thesis by (simp add: header_len_def uint_field_len_def chunk_limits)
qed

lemma widest_header_small: "wire_size_laws ws f \<Longrightarrow> widest_header ws \<le> 80"
  using varint_bound [of ws f 36] varint_bound [of ws f 255] varint_bound [of ws f 256]
  by (simp add: header_len_def string_field_len_def uint_field_len_def planning_id_len UUID_LEN_def chunk_limits)

lemma widest_header_measured:
  "wire_size_laws ws f \<Longrightarrow> chunk_header_bytes ws PLANNING_SNAPSHOT_ID (CELL_GRID_SNAPSHOT_MAX_CHUNKS - 1) CELL_GRID_SNAPSHOT_MAX_CHUNKS
     = widest_header ws"
  by (rule law_header) (simp_all add: planning_id_len u32_max_def chunk_limits)

lemma part_tag_measured:
  assumes l: "wire_size_laws ws f"
  shows "part_field_tag_bytes ws (create_cell_grid_frame_part f [] []) (frame_len ws (create_cell_grid_frame_part f [] []))
    (widest_header ws) = 1"
proof -
  let ?b = "frame_len ws (create_cell_grid_frame_part f [] [])" and ?h = "widest_header ws"
  have small: "?b < 2 ^ 31" "?h \<le> 80" "varint_len ws ?b \<le> 10"
    using law_part(2) [OF l, of "[]" "[]"] widest_header_small [OF l] varint_bound [OF l, of ?b] by simp_all
  have "chunk_len ws (chunk_of PLANNING_SNAPSHOT_ID CELL_GRID_SNAPSHOT_MAX_CHUNKS (CELL_GRID_SNAPSHOT_MAX_CHUNKS - 1)
      (create_cell_grid_frame_part f [] [])) = ?h + message_field_len ws ?b"
    by (rule law_part(3) [OF l]) (simp_all add: planning_id_len u32_max_def chunk_limits)
  then have "part_field_tag_bytes ws (create_cell_grid_frame_part f [] []) ?b ?h
      = sub32 (sub32 (sub32 (?h + (1 + varint_len ws ?b + ?b)) ?h) (varint_len ws ?b)) ?b"
    by (simp add: part_field_tag_bytes_def chunk_of_def message_field_len_def)
  also have "sub32 (?h + (1 + varint_len ws ?b + ?b)) ?h = 1 + varint_len ws ?b + ?b"
    by (subst sub32_exact) (use small in auto)
  also have "sub32 (1 + varint_len ws ?b + ?b) (varint_len ws ?b) = 1 + ?b" by (subst sub32_exact) (use small in auto)
  also have "sub32 (1 + ?b) ?b = 1" by (subst sub32_exact) (use small in auto)
  finally show ?thesis .
qed

lemma chunk_measured:
  assumes l: "wire_size_laws ws f" and "h \<le> 80" "n < 2 ^ 31"
  shows "encoded_chunk_bytes ws h 1 n = h + message_field_len ws n"
  using assms varint_bound [OF l, of n] by (simp add: encoded_chunk_bytes_def Let_def add32_exact message_field_len_def)

lemma row_measured:
  assumes l: "wire_size_laws ws f" and v: "snapshot_valid f" "rows_u32 f" and w: "planned_within f (es @ [e])"
  shows "add32 (part_bytes ws f es) (row_entry_bytes ws (row_of f e)) = part_bytes ws f (es @ [e])"
proof -
  let ?r = "row_len ws (row_of f e)"
  have b: "part_bytes ws f (es @ [e]) < 2 ^ 31" by (rule part_lengths(2) [OF l v w])
  have eq: "part_bytes ws f (es @ [e]) = part_bytes ws f es + message_field_len ws ?r"
    by (simp add: part_bytes_def)
  have "message_field_len ws ?r < 2 ^ 31" using b unfolding eq by simp
  then have "row_entry_bytes ws (row_of f e) = message_field_len ws ?r"
    by (simp add: row_entry_bytes_def ROW_FIELD_TAG_BYTES_def Let_def add32_exact message_field_len_def)
  then show ?thesis using b unfolding eq by (simp add: add32_exact)
qed

lemma plan_entry_measured:
  assumes l: "wire_size_laws ws f" and v: "snapshot_valid f" "rows_u32 f" and w: "planned_within f (es @ [e])"
  shows "plan_entry ws f (widest_header ws) 1 (frame_len ws (create_cell_grid_frame_part f [] [])) (parts, es, part_bytes ws f es) e =
    (if part_fits ws f (es @ [e]) then Ok (parts, es @ [e], part_bytes ws f (es @ [e]))
     else if es = [] then Err SingleRowOversize
     else if \<not> part_fits ws f [e] then Err SingleRowOversize
     else Ok (parts @ [\<lparr>pp_entries = es, pp_encoded_part_bytes = part_bytes ws f es\<rparr>], [e], part_bytes ws f [e]))"
proof -
  have alone: "planned_within f ([] @ [e])" using w by (metis append_Nil mset_append subset_mset.dual_order.trans mset_subset_eq_add_right)
  have e: "entry_row f e = Ok (row_of f e)"
    using entries_resolve(1) [OF v] alone by (simp add: mset_subset_eq_insertD)
  have base: "part_bytes ws f [] = frame_len ws (create_cell_grid_frame_part f [] [])" by (simp add: part_bytes_def)
  note row = row_measured [OF l v w] row_measured [OF l v alone, unfolded base append_Nil]
  note sizes = chunk_measured [OF l widest_header_small [OF l] part_lengths(2) [OF l v w]]
    chunk_measured [OF l widest_header_small [OF l] part_lengths(2) [OF l v alone, unfolded append_Nil]]
  show ?thesis
    unfolding plan_entry_def case_prod_conv e res_bind_simps Let_def row sizes part_fits_def not_le by (rule refl)
qed

text \<open>What the greedy loop has done after a prefix of the entries.\<close>

definition plan_state ::
  "wire_sizes \<Rightarrow> pb_cell_grid_frame \<Rightarrow> planned_snapshot_part list \<Rightarrow> snapshot_entry list \<Rightarrow> snapshot_entry list \<Rightarrow> bool" where
  "plan_state ws f parts open_entries es \<longleftrightarrow>
     concat (map pp_entries parts) @ open_entries = es \<and> (es \<noteq> [] \<longrightarrow> open_entries \<noteq> [])
     \<and> (open_entries \<noteq> [] \<longrightarrow> part_fits ws f open_entries)
     \<and> (\<forall>part \<in> set parts. pp_entries part \<noteq> [] \<and> part_fits ws f (pp_entries part)
          \<and> pp_encoded_part_bytes part = part_bytes ws f (pp_entries part))"

lemma prefix_within: "snapshot_entries f = xs @ ys @ zs \<Longrightarrow> planned_within f ys"
  by (simp add: subset_mset.add_increasing)

lemma plan_loop:
  assumes l: "wire_size_laws ws f" and v: "snapshot_valid f" "rows_u32 f"
    and "snapshot_entries f = es @ zs"
    and "fold_res (plan_entry ws f (widest_header ws) 1 (frame_len ws (create_cell_grid_frame_part f [] [])))
      ([], [], frame_len ws (create_cell_grid_frame_part f [] [])) es = Ok (parts, open_entries, n)"
  shows "plan_state ws f parts open_entries es \<and> n = part_bytes ws f open_entries"
  using assms(4,5)
proof (induction es arbitrary: zs parts open_entries n rule: rev_induct)
  case Nil
  then show ?case by (auto simp: plan_state_def part_bytes_def)
next
  case (snoc e es)
  then obtain ps o_es k where mid: "fold_res (plan_entry ws f (widest_header ws) 1 (frame_len ws (create_cell_grid_frame_part f [] [])))
      ([], [], frame_len ws (create_cell_grid_frame_part f [] [])) es = Ok (ps, o_es, k)"
    and step: "plan_entry ws f (widest_header ws) 1 (frame_len ws (create_cell_grid_frame_part f [] [])) (ps, o_es, k) e
      = Ok (parts, open_entries, n)"
    by (auto simp: res_simps)
  have ih: "plan_state ws f ps o_es es" "k = part_bytes ws f o_es" using snoc.IH [OF _ mid, of "e # zs"] snoc.prems(1) by simp_all
  have "snapshot_entries f = concat (map pp_entries ps) @ (o_es @ [e]) @ zs"
    using ih(1) snoc.prems(1) by (simp add: plan_state_def)
  then have "planned_within f (o_es @ [e])" by (rule prefix_within)
  note m = plan_entry_measured [OF l v this, of ps, folded ih(2)]
  show ?case using step ih unfolding m by (auto simp: plan_state_def split: if_splits)
qed

lemma plan_splits:
  assumes l: "wire_size_laws ws f" and v: "snapshot_valid f" "rows_u32 f" and plan: "plan_snapshot_parts ws f = Ok parts"
  shows "concat (map pp_entries parts) = snapshot_entries f"
    "\<forall>part \<in> set parts. pp_entries part \<noteq> [] \<and> part_fits ws f (pp_entries part)
       \<and> pp_encoded_part_bytes part = part_bytes ws f (pp_entries part)"
    "1 \<le> length parts \<and> length parts \<le> CELL_GRID_SNAPSHOT_MAX_CHUNKS"
    "sum_list (map (\<lambda>(i, part). encoded_chunk_bytes ws (chunk_header_bytes ws PLANNING_SNAPSHOT_ID i (length parts)) 1
       (pp_encoded_part_bytes part)) (List.enumerate 0 parts)) \<le> CELL_GRID_SNAPSHOT_MAX_BYTES"
proof -
  let ?e = "create_cell_grid_frame_part f [] []"
  obtain closed open_entries n where loop: "fold_res (plan_entry ws f (widest_header ws) 1 (frame_len ws ?e))
      ([], [], frame_len ws ?e) (snapshot_entries f) = Ok (closed, open_entries, n)"
    and parts: "parts = (if open_entries \<noteq> [] then closed @ [\<lparr>pp_entries = open_entries, pp_encoded_part_bytes = n\<rparr>] else closed)"
    and limits: "1 \<le> length parts \<and> length parts \<le> CELL_GRID_SNAPSHOT_MAX_CHUNKS"
      "sum_list (map (\<lambda>(i, part). encoded_chunk_bytes ws (chunk_header_bytes ws PLANNING_SNAPSHOT_ID i (length parts)) 1
         (pp_encoded_part_bytes part)) (List.enumerate 0 parts)) \<le> CELL_GRID_SNAPSHOT_MAX_BYTES"
    using plan unfolding plan_snapshot_parts_def Let_def widest_header_measured [OF l] part_tag_measured [OF l] res_bind_Inr_iff
    by (auto simp: not_less Suc_le_eq split: if_split_asm)
  have st: "plan_state ws f closed open_entries (snapshot_entries f)" "n = part_bytes ws f open_entries"
    using plan_loop [OF l v, of "snapshot_entries f" "[]"] loop by simp_all
  show "concat (map pp_entries parts) = snapshot_entries f" using st by (auto simp: parts plan_state_def)
  show "\<forall>part \<in> set parts. pp_entries part \<noteq> [] \<and> part_fits ws f (pp_entries part)
       \<and> pp_encoded_part_bytes part = part_bytes ws f (pp_entries part)"
    using st by (auto simp: parts plan_state_def)
  show "1 \<le> length parts \<and> length parts \<le> CELL_GRID_SNAPSHOT_MAX_CHUNKS" by (rule limits(1))
  show "sum_list (map (\<lambda>(i, part). encoded_chunk_bytes ws (chunk_header_bytes ws PLANNING_SNAPSHOT_ID i (length parts)) 1
       (pp_encoded_part_bytes part)) (List.enumerate 0 parts)) \<le> CELL_GRID_SNAPSHOT_MAX_BYTES" by (rule limits(2))
qed

lemma planned_part_within:
  assumes "concat (map pp_entries parts) = snapshot_entries f" "part \<in> set parts"
  shows "planned_within f (pp_entries part)"
proof -
  obtain xs ys where "parts = xs @ part # ys" using assms(2) by (meson split_list)
  with assms(1) have "snapshot_entries f = concat (map pp_entries xs) @ pp_entries part @ concat (map pp_entries ys)" by simp
  then show ?thesis by (rule prefix_within)
qed

lemma plan_is_split:
  assumes l: "wire_size_laws ws f" and v: "snapshot_valid f" "rows_u32 f" and plan: "plan_snapshot_parts ws f = Ok parts"
    and id: "length sid = UUID_LEN"
  shows "split_of ws sid f (map (\<lambda>part. part_for f (pp_entries part)) parts)"
proof -
  let ?parts = "map (\<lambda>part. part_for f (pp_entries part)) parts" and ?n = "length parts"
  note p = plan_splits [OF l v plan]
  have u32: "?n \<le> u32_max" using p(3) by (simp add: chunk_limits u32_max_def)
  have good: "pp_entries (parts ! i) \<noteq> []" "part_fits ws f (pp_entries (parts ! i))"
    "pp_encoded_part_bytes (parts ! i) = part_bytes ws f (pp_entries (parts ! i))"
    "planned_within f (pp_entries (parts ! i))" if "i < ?n" for i
    using p(2) planned_part_within [OF p(1)] that by (auto simp: all_set_conv_all_nth)
  have size: "chunk_len ws (chunk_of s ?n i (part_for f (pp_entries (parts ! i))))
      = header_len ws s i ?n + message_field_len ws (part_bytes ws f (pp_entries (parts ! i)))"
    if "i < ?n" "length s = UUID_LEN" for i s
    by (rule part_lengths(3) [OF l v good(4)]) (use that u32 in auto)
  have "chunk_len ws (chunk_of sid ?n i (?parts ! i)) \<le> CELL_GRID_PART_MAX_BYTES" if "i < ?n" for i
    using size [OF that id] good(2) [OF that] header_le_widest [OF l id, of i ?n] that p(3)
    by (simp add: part_fits_def)
  moreover have "encoded_chunk_bytes ws (chunk_header_bytes ws PLANNING_SNAPSHOT_ID i ?n) 1 (pp_encoded_part_bytes (parts ! i))
      = chunk_len ws (chunk_of sid ?n i (?parts ! i))" if "i < ?n" for i
  proof -
    have h: "header_len ws PLANNING_SNAPSHOT_ID i ?n = header_len ws sid i ?n"
      using id planning_id_len by (auto simp: header_len_def string_field_len_def UUID_LEN_def)
    moreover have "header_len ws sid i ?n \<le> 80"
      using header_le_widest [OF l id, of i ?n] widest_header_small [OF l] that p(3) by simp
    ultimately show ?thesis
      using law_header [OF l planning_id_len, of i ?n] that u32 size [OF that id] good(3) [OF that]
        chunk_measured [OF l _ part_lengths(2) [OF l v good(4) [OF that]]] by simp
  qed
  then have "map (\<lambda>i. chunk_len ws (chunk_of sid ?n i (?parts ! i))) [0..<?n] =
      map (\<lambda>(i, part). encoded_chunk_bytes ws (chunk_header_bytes ws PLANNING_SNAPSHOT_ID i ?n) 1 (pp_encoded_part_bytes part))
        (List.enumerate 0 parts)"
    by (intro nth_equalityI) (simp_all add: nth_enumerate_eq)
  moreover have "parts_view ?parts = view_rows f (concat (map pp_entries parts))"
    "parts_history ?parts = hist_rows f (concat (map pp_entries parts))"
    by (induction parts) (auto simp: parts_view_def parts_history_def part_for_def create_cell_grid_frame_part_def
        view_rows_def hist_rows_def)
  then have "mset (parts_view ?parts) = mset (pb_viewport_rows f)" "parts_history ?parts = pb_scrollback_rows f"
    unfolding p(1) entries_resolve(2,3) [OF v] by simp_all
  moreover have "view_rows f es \<noteq> [] \<or> hist_rows f es \<noteq> []" if "es \<noteq> []" for es
    using that by (cases es) (auto simp: view_rows_def hist_rows_def)
  then have "\<forall>part \<in> set ?parts. part = create_cell_grid_frame_part f (pb_viewport_rows part) (pb_scrollback_rows part)
      \<and> (pb_viewport_rows part \<noteq> [] \<or> pb_scrollback_rows part \<noteq> [])"
    using p(2) by (auto simp: part_for_def create_cell_grid_frame_part_def)
  ultimately show ?thesis using p(3,4) by (simp add: split_of_def)
qed

lemma chunks_materialize:
  assumes l: "wire_size_laws ws f" and v: "snapshot_valid f" "rows_u32 f" and plan: "plan_snapshot_parts ws f = Ok parts"
    and id: "is_terminal_uuid sid"
  shows "chunk_cell_grid_frame ws f sid = Ok (map (\<lambda>i. chunk_of sid (length parts) i (part_for f (pp_entries (parts ! i)))) [0..<length parts])"
proof -
  let ?src = "\<lparr>src_frame = f, src_parts = Some parts\<rparr>"
  let ?cur = "\<lparr>cur_source = ?src, cur_snapshot_id = sid, cur_part_count = length parts\<rparr>"
  note p = plan_splits [OF l v plan]
  have len: "length sid = UUID_LEN" using id by (simp add: is_terminal_uuid_def split: if_splits)
  note split = plan_is_split [OF l v plan len]
  have count: "part_count ?src = length parts" using p(3) by (simp add: part_count_def chunk_limits u32_max_def)
  have "chunk_at ws ?cur i = Ok (chunk_of sid (length parts) i (part_for f (pp_entries (parts ! i))))" if i: "i < length parts" for i
  proof -
    have "planned_within f (pp_entries (parts ! i))" using planned_part_within [OF p(1)] i by simp
    then have "set (pp_entries (parts ! i)) \<subseteq> set (snapshot_entries f)" by (metis set_mset_mono set_mset_mset)
    then have "fold_res (collect_row f) ([], []) (pp_entries (parts ! i))
        = Ok (view_rows f (pp_entries (parts ! i)), hist_rows f (pp_entries (parts ! i)))"
      using collect_rows [of "pp_entries (parts ! i)" f "[]" "[]"] entries_resolve(1) [OF v] by auto
    moreover have "chunk_len ws (chunk_of sid (length parts) i (part_for f (pp_entries (parts ! i)))) \<le> CELL_GRID_PART_MAX_BYTES"
      using split i by (simp add: split_of_def)
    ultimately show ?thesis using i by (simp add: chunk_at_def materialize_def chunk_of_def part_for_def Let_def)
  qed
  then have "map_res (chunk_at ws ?cur) [0..<length parts]
      = Ok (map (\<lambda>i. chunk_of sid (length parts) i (part_for f (pp_entries (parts ! i)))) [0..<length parts])"
    by (intro map_res_all_Inr) simp
  moreover have "create_cell_grid_snapshot_source ws f True = Ok ?src"
    using snapshot_accepts [of f] v plan by (simp add: create_cell_grid_snapshot_source_def)
  ultimately show ?thesis using id count by (simp add: chunk_cell_grid_frame_def create_cursor_def)
qed

section \<open>Sender to receiver\<close>

lemma transfer_assembles:
  assumes "wire_size_laws ws f" "rows_u32 f" "create_cell_grid_snapshot_source ws f True = Ok src"
    "is_terminal_uuid sid" "timely ts" "length ts = part_count src"
  shows "\<exists>chunks. chunk_cell_grid_frame ws f sid = Ok chunks \<and> length chunks = part_count src
    \<and> feed ws assembler_new (zip chunks ts) =
      (None, map (\<lambda>i. Ok (Pending sid (Suc i))) [0..<part_count src - 1]
         @ [Ok (Complete sid (f\<lparr>pb_viewport_rows := sort_key pbr_index (pb_viewport_rows f)\<rparr>))])
    \<and> (\<forall>c \<in> set chunks. \<exists>v h. pbc_part c = Some (create_cell_grid_frame_part f v h))"
proof -
  obtain parts where v: "snapshot_valid f" and plan: "plan_snapshot_parts ws f = Ok parts"
    and src: "src = \<lparr>src_frame = f, src_parts = Some parts\<rparr>"
    using assms(3) snapshot_accepts [of f] by (auto simp: create_cell_grid_snapshot_source_def res_simps split: if_splits)
  have count: "part_count src = length parts"
    using plan_splits(3) [OF assms(1) v assms(2) plan] by (simp add: src part_count_def chunk_limits u32_max_def)
  have len: "length sid = UUID_LEN" using assms(4) by (simp add: is_terminal_uuid_def split: if_splits)
  let ?parts = "map (\<lambda>part. part_for f (pp_entries part)) parts"
  let ?chunks = "map (\<lambda>i. chunk_of sid (length parts) i (part_for f (pp_entries (parts ! i)))) [0..<length parts]"
  have zip: "zip ?chunks ts = map (\<lambda>i. (chunk_of sid (length ?parts) i (?parts ! i), ts ! i)) [0..<length ?parts]"
    by (rule nth_equalityI) (simp_all add: assms(6) count)
  have "feed ws assembler_new (zip ?chunks ts) = (None, map (\<lambda>i. Ok (Pending sid (Suc i))) [0..<part_count src - 1]
      @ [Ok (Complete sid (f\<lparr>pb_viewport_rows := sort_key pbr_index (pb_viewport_rows f)\<rparr>))])"
    unfolding zip using split_assembles [OF v plan_is_split [OF assms(1) v assms(2) plan len] assms(4,5)] assms(6)
    by (simp add: count)
  with chunks_materialize [OF assms(1) v assms(2) plan assms(4)] count show ?thesis
    by (auto simp: chunk_of_def part_for_def)
qed

text \<open>
  C4: A split frame arrives whole. Whenever the planner accepts a full frame, every planned part can be
  materialised for any recipient's snapshot id, and a fresh assembler fed those parts in order, each
  within the stall limit of the one before, answers each part but the last with the number of parts
  received and the last with the frame itself, its viewport rows in index order; then it is idle. The
  encoded lengths follow the protobuf encoding rules.
\<close>

theorem transfer_roundtrip:
  assumes "wire_size_laws ws f" "rows_u32 f" "create_cell_grid_snapshot_source ws f True = Ok src"
    "is_terminal_uuid sid" "timely ts" "length ts = part_count src"
  shows "\<exists>chunks. chunk_cell_grid_frame ws f sid = Ok chunks \<and> length chunks = part_count src
    \<and> feed ws assembler_new (zip chunks ts) =
      (None, map (\<lambda>i. Ok (Pending sid (Suc i))) [0..<part_count src - 1]
         @ [Ok (Complete sid (f\<lparr>pb_viewport_rows := sort_key pbr_index (pb_viewport_rows f)\<rparr>))])"
  using transfer_assembles [OF assms] by blast

text \<open>Lengths of an encoder whose every row takes 600000 bytes, so that two rows need two parts.\<close>

definition sample_sizes :: wire_sizes where
  "sample_sizes = \<lparr>varint_len = \<lambda>_. 3, row_len = \<lambda>_. 600000,
     frame_len = \<lambda>m. 40 + 600004 * (length (pb_viewport_rows m) + length (pb_scrollback_rows m)),
     chunk_len = \<lambda>c. (if pbc_snapshot_id c = [] then 0 else 4 + length (pbc_snapshot_id c))
       + (if pbc_chunk_index c = 0 then 0 else 4) + (if pbc_chunk_count c = 0 then 0 else 4)
       + (case pbc_part c of None \<Rightarrow> 0
          | Some m \<Rightarrow> 4 + (40 + 600004 * (length (pb_viewport_rows m) + length (pb_scrollback_rows m))))\<rparr>"

lemma sample_sizes_lawful:
  assumes "length (pb_viewport_rows f) + length (pb_scrollback_rows f) \<le> 100"
  shows "wire_size_laws sample_sizes f"
proof -
  have rows: "rows_len sample_sizes rs = 600004 * length rs" for rs
    by (induction rs) (simp_all add: message_field_len_def sample_sizes_def)
  have "length vs + length hs \<le> 100" if "mset vs \<subseteq># mset (pb_viewport_rows f)" "mset hs \<subseteq># mset (pb_scrollback_rows f)" for vs hs
    using assms size_mset_mono [OF that(1)] size_mset_mono [OF that(2)] by simp
  then have small: "600004 * (length vs + length hs) \<le> 60000400"
    if "mset vs \<subseteq># mset (pb_viewport_rows f)" "mset hs \<subseteq># mset (pb_scrollback_rows f)" for vs hs
    using that by fastforce
  have "40 + 600004 * (length vs + length hs) < (2 ^ 31 :: nat)"
    if "mset vs \<subseteq># mset (pb_viewport_rows f)" "mset hs \<subseteq># mset (pb_scrollback_rows f)" for vs hs
    using small [OF that] by simp
  then show ?thesis
    unfolding wire_size_laws_def rows
    by (simp add: sample_sizes_def chunk_header_bytes_def header_len_def string_field_len_def uint_field_len_def
        message_field_len_def chunk_of_def create_cell_grid_frame_part_def)
qed

definition sample_frame :: pb_cell_grid_frame where
  "sample_frame = frame_message (blank_frame 2) ''s''"

lemma sample_rows: "pb_viewport_rows sample_frame = [\<lparr>pbr_index = 0, pbr_spans = [], pbr_mark = 0\<rparr>, \<lparr>pbr_index = 1, pbr_spans = [], pbr_mark = 0\<rparr>]"
  "pb_scrollback_rows sample_frame = []" "pb_rows sample_frame = 2" "pb_sb_base sample_frame = 0"
  by (simp_all add: sample_frame_def frame_message_def blank_frame_def cell_row_new_def cell_row_to_proto_def upt_rec)

lemma sample_frame_valid: "snapshot_valid sample_frame"
proof -
  have id: "is_terminal_uuid ''00000000-0000-4000-8000-000000000001''"
    by (simp add: is_terminal_uuid_def UUID_LEN_def is_uuid_version_def is_uuid_variant_def
        is_ascii_hexdigit_def is_ascii_digit_def is_lower_hex_alpha_def enumerate_eq_zip upt_rec)
  have "frame_structured sample_frame" unfolding frame_structured_def sample_rows
    by (auto simp: sample_frame_def frame_message_def blank_frame_def is_terminal_geometry_def viewport_limits)
  moreover have "charges_fit (snapshot_charges sample_frame)"
    by (simp add: snapshot_charges_def sample_rows charges_fit_def charges_spans_def charges_links_def row_links_def
      links_fit_def row_fits_def cell_row_from_proto_bounded_def checked_row_def assert_cell_row_spans_def cell_row_with_mark_def)
  ultimately show ?thesis
    using id by (simp add: snapshot_valid_def sample_frame_def frame_message_def blank_frame_def assert_frame_sequence_def assert_frame_identity_def)
qed

lemma sample_source: "create_cell_grid_snapshot_source sample_sizes sample_frame True = Ok \<lparr>src_frame = sample_frame,
  src_parts = Some [\<lparr>pp_entries = [\<lparr>se_history = False, se_index = 0\<rparr>], pp_encoded_part_bytes = 600044\<rparr>,
    \<lparr>pp_entries = [\<lparr>se_history = False, se_index = 1\<rparr>], pp_encoded_part_bytes = 600044\<rparr>]\<rparr>"
proof -
  let ?a = "\<lparr>se_history = False, se_index = 0\<rparr>" and ?b = "\<lparr>se_history = False, se_index = 1\<rparr>"
  let ?e = "create_cell_grid_frame_part sample_frame [] []" and ?w = "widest_header sample_sizes"
  let ?step = "plan_entry sample_sizes sample_frame ?w 1 (frame_len sample_sizes ?e)"
  have es: "snapshot_entries sample_frame = [?a, ?b]" by (simp add: snapshot_entries_def sample_rows upt_rec)
  have l: "wire_size_laws sample_sizes sample_frame" by (rule sample_sizes_lawful) (simp add: sample_rows)
  have u: "rows_u32 sample_frame" by (simp add: rows_u32_def sample_rows u32_max_def)
  note m = plan_entry_measured [OF l sample_frame_valid u, unfolded es]
  have bytes: "part_bytes sample_sizes sample_frame [e] = 600044" "part_bytes sample_sizes sample_frame [e, d] = 1200048"
    "part_bytes sample_sizes sample_frame [] = 40" "frame_len sample_sizes ?e = 40" for e d
    by (simp_all add: part_bytes_def message_field_len_def sample_sizes_def create_cell_grid_frame_part_def)
  have fits: "part_fits sample_sizes sample_frame [e]" "\<not> part_fits sample_sizes sample_frame [e, d]" for e d
    unfolding part_fits_def bytes by (simp_all add: message_field_len_def header_len_def string_field_len_def uint_field_len_def
      sample_sizes_def planning_id_len UUID_LEN_def PLANNING_SNAPSHOT_ID_def chunk_limits)
  have one: "?step ([], [], 40) ?a = Ok ([], [?a], 600044)"
    using m [of "[]" ?a "[]"] fits(1) [of ?a] unfolding bytes append_Nil by simp
  have two: "?step ([], [?a], 600044) ?b = Ok ([\<lparr>pp_entries = [?a], pp_encoded_part_bytes = 600044\<rparr>], [?b], 600044)"
    using m [of "[?a]" ?b "[]"] fits(1) [of ?b] fits(2) [of ?a ?b] unfolding bytes append_Nil append_Cons by simp
  have "plan_snapshot_parts sample_sizes sample_frame =
    Ok [\<lparr>pp_entries = [?a], pp_encoded_part_bytes = 600044\<rparr>, \<lparr>pp_entries = [?b], pp_encoded_part_bytes = 600044\<rparr>]"
    unfolding plan_snapshot_parts_def Let_def widest_header_measured [OF l] part_tag_measured [OF l] es fold_res.simps
    unfolding bytes(4) one [unfolded bytes(4)] two [unfolded bytes(4)] res_bind_simps case_prod_conv
    by (simp add: chunk_limits encoded_chunk_bytes_def Let_def add32_def sample_sizes_def chunk_header_bytes_def
      PLANNING_SNAPSHOT_ID_def)
  then show ?thesis using snapshot_accepts [of sample_frame] sample_frame_valid
    by (simp add: create_cell_grid_snapshot_source_def)
qed
theorem transfer_roundtrip_witness:
  "\<exists>chunks. chunk_cell_grid_frame sample_sizes sample_frame ''00000000-0000-4000-8000-000000000007'' = Ok chunks
    \<and> feed sample_sizes assembler_new (zip chunks [5, 10000]) =
        (None, [Ok (Pending ''00000000-0000-4000-8000-000000000007'' 1),
                Ok (Complete ''00000000-0000-4000-8000-000000000007'' sample_frame)])"
proof -
  have id: "is_terminal_uuid ''00000000-0000-4000-8000-000000000007''"
    by (simp add: is_terminal_uuid_def UUID_LEN_def is_uuid_version_def is_uuid_variant_def
        is_ascii_hexdigit_def is_ascii_digit_def is_lower_hex_alpha_def enumerate_eq_zip upt_rec)
  have l: "wire_size_laws sample_sizes sample_frame" by (rule sample_sizes_lawful) (simp add: sample_rows)
  have u: "rows_u32 sample_frame" by (simp add: rows_u32_def sample_rows u32_max_def)
  have t: "timely [5, 10000]" by (simp add: timely_def chunk_limits nth_Cons')
  have "sample_frame\<lparr>pb_viewport_rows := sort_key pbr_index (pb_viewport_rows sample_frame)\<rparr> = sample_frame"
    unfolding sample_rows by (simp add: sample_rows)
  with transfer_roundtrip [OF l u sample_source id t] show ?thesis
    by (auto simp: part_count_def u32_max_def)
qed

end
