(* ===== verification/Keeper_Codec.thy ===== *)
theory Keeper_Codec
  imports Roost_Prelude "HOL-Library.Word"
begin

text \<open>
  The keeper socket protocol (\<^verbatim>\<open>roost-keeper/src/codec.rs\<close>, \<^verbatim>\<open>roost-keeper/src/payloads.rs\<close>): the framed
  envelope and its tag table, the streaming decoder, the big-endian scalars and the binary payloads.
  A byte is an 8-bit word. The JSON payloads go through serde and are not modelled; the prose of an
  error is left out and the numbers it carries are kept.
\<close>

type_synonym byte = "8 word"

section \<open>Big-endian scalars\<close>

fun be_bytes :: "nat \<Rightarrow> nat \<Rightarrow> byte list" where
  "be_bytes 0 v = []"
| "be_bytes (Suc n) v = of_nat (v div 256 ^ n) # be_bytes n v"

definition from_be :: "byte list \<Rightarrow> nat" where
  "from_be bs = foldl (\<lambda>acc b. acc * 256 + unat b) 0 bs"

text \<open>The checked slice \<open>payload.get(a..b)\<close>.\<close>

definition get_range :: "'a list \<Rightarrow> nat \<Rightarrow> nat \<Rightarrow> 'a list option" where
  "get_range xs a b = (if a \<le> b \<and> b \<le> length xs then Some (take (b - a) (drop a xs)) else None)"

definition write_sequence :: "byte list \<Rightarrow> nat \<Rightarrow> byte list" where
  "write_sequence out value = out @ be_bytes 8 value"

definition read_sequence :: "byte list \<Rightarrow> nat \<Rightarrow> nat option" where
  "read_sequence payload offset = map_option from_be (get_range payload offset (offset + 8))"

definition read_u32 :: "byte list \<Rightarrow> nat \<Rightarrow> nat option" where
  "read_u32 payload offset = map_option from_be (get_range payload offset (offset + 4))"

section \<open>Limits, tags and errors\<close>

definition KEEPER_MAX_MUX_FRAME_BYTES :: nat where "KEEPER_MAX_MUX_FRAME_BYTES = 16 * 1024 * 1024"
definition MUX_FRAME_HEADER_BYTES :: nat where "MUX_FRAME_HEADER_BYTES = 3"
definition KEEPER_MAX_INPUT_BYTES :: nat where "KEEPER_MAX_INPUT_BYTES = 64 * 1024"
definition KEEPER_MAX_TERMINAL_DIMENSION :: nat where "KEEPER_MAX_TERMINAL_DIMENSION = 0xffff"
definition KEEPER_MAX_HISTORY_RESIZE_RECORDS :: nat where "KEEPER_MAX_HISTORY_RESIZE_RECORDS = 4096"

lemmas keeper_limits = KEEPER_MAX_MUX_FRAME_BYTES_def MUX_FRAME_HEADER_BYTES_def KEEPER_MAX_INPUT_BYTES_def
  KEEPER_MAX_TERMINAL_DIMENSION_def KEEPER_MAX_HISTORY_RESIZE_RECORDS_def

datatype mux_frame_type =
    MuxSpawn | MuxSpawnAck | MuxSpawnErr | MuxKillChild | MuxExit
  | MuxPtyIn | MuxPtyOut | MuxPtyInRequest | MuxPtyInAck | MuxPtyInReject | MuxPtyInAmbiguous
  | MuxResize | MuxResizeRequest | MuxResizeAck | MuxResizeReject | MuxResizeStatus
  | MuxListChannels | MuxListChannelsResp | MuxHello | MuxHelloResp | MuxGetHistory | MuxGetHistoryResp
  | MuxGetHistoryRecords | MuxGetHistoryRecordsResp
  | MuxShutdown | MuxShutdownAck | MuxGetTerminalState | MuxGetTerminalStateResp
  | MuxShutdownIfEmpty | MuxShutdownIfEmptyAck | MuxShutdownIfEmptyReject | MuxPing | MuxPong

fun mux_tag :: "mux_frame_type \<Rightarrow> byte" where
  "mux_tag MuxSpawn = 0x10"
| "mux_tag MuxSpawnAck = 0x11"
| "mux_tag MuxSpawnErr = 0x12"
| "mux_tag MuxKillChild = 0x31"
| "mux_tag MuxExit = 0x32"
| "mux_tag MuxPtyIn = 0x20"
| "mux_tag MuxPtyOut = 0x21"
| "mux_tag MuxPtyInRequest = 0x22"
| "mux_tag MuxPtyInAck = 0x23"
| "mux_tag MuxPtyInReject = 0x24"
| "mux_tag MuxPtyInAmbiguous = 0x25"
| "mux_tag MuxResize = 0x30"
| "mux_tag MuxResizeRequest = 0x33"
| "mux_tag MuxResizeAck = 0x34"
| "mux_tag MuxResizeReject = 0x35"
| "mux_tag MuxResizeStatus = 0x36"
| "mux_tag MuxListChannels = 0xE0"
| "mux_tag MuxListChannelsResp = 0xE1"
| "mux_tag MuxHello = 0xE2"
| "mux_tag MuxHelloResp = 0xE3"
| "mux_tag MuxGetHistory = 0xE4"
| "mux_tag MuxGetHistoryResp = 0xE5"
| "mux_tag MuxGetHistoryRecords = 0xE6"
| "mux_tag MuxGetHistoryRecordsResp = 0xE7"
| "mux_tag MuxShutdown = 0xE8"
| "mux_tag MuxShutdownAck = 0xE9"
| "mux_tag MuxGetTerminalState = 0xEA"
| "mux_tag MuxGetTerminalStateResp = 0xEB"
| "mux_tag MuxShutdownIfEmpty = 0xEC"
| "mux_tag MuxShutdownIfEmptyAck = 0xED"
| "mux_tag MuxShutdownIfEmptyReject = 0xEE"
| "mux_tag MuxPing = 0xF0"
| "mux_tag MuxPong = 0xF1"

definition mux_from_tag :: "byte \<Rightarrow> mux_frame_type option" where
  "mux_from_tag tag = map_of
     [(0x10, MuxSpawn), (0x11, MuxSpawnAck), (0x12, MuxSpawnErr), (0x20, MuxPtyIn), (0x21, MuxPtyOut),
      (0x22, MuxPtyInRequest), (0x23, MuxPtyInAck), (0x24, MuxPtyInReject), (0x25, MuxPtyInAmbiguous),
      (0x30, MuxResize), (0x31, MuxKillChild), (0x32, MuxExit), (0x33, MuxResizeRequest),
      (0x34, MuxResizeAck), (0x35, MuxResizeReject), (0x36, MuxResizeStatus), (0xE0, MuxListChannels),
      (0xE1, MuxListChannelsResp), (0xE2, MuxHello), (0xE3, MuxHelloResp), (0xE4, MuxGetHistory),
      (0xE5, MuxGetHistoryResp), (0xE6, MuxGetHistoryRecords), (0xE7, MuxGetHistoryRecordsResp),
      (0xE8, MuxShutdown), (0xE9, MuxShutdownAck), (0xEA, MuxGetTerminalState),
      (0xEB, MuxGetTerminalStateResp), (0xEC, MuxShutdownIfEmpty), (0xED, MuxShutdownIfEmptyAck),
      (0xEE, MuxShutdownIfEmptyReject), (0xF0, MuxPing), (0xF1, MuxPong)] tag"

datatype codec_error =
    FrameTooLarge nat
  | LengthMismatch nat nat
  | TruncatedPayload string nat
  | BadDimension nat
  | InputTooLarge string nat
  | BadJson string

type_synonym 'a codec_result = "(codec_error, 'a) result"

definition check_dimension :: "nat \<Rightarrow> nat codec_result" where
  "check_dimension value =
     (if value = 0 \<or> KEEPER_MAX_TERMINAL_DIMENSION < value then Err (BadDimension value) else Ok value)"

section \<open>Frames and the streaming decoder\<close>

record mux_frame =
  mf_frame_type :: mux_frame_type
  mf_channel_id :: nat
  mf_payload :: "byte list"

definition mux_frame_encode :: "mux_frame \<Rightarrow> byte list" where
  "mux_frame_encode frame =
     (let body = 1 + 2 + length (mf_payload frame)
      in be_bytes 4 body @ [mux_tag (mf_frame_type frame)] @ be_bytes 2 (mf_channel_id frame) @ mf_payload frame)"

definition mux_frame_new :: "mux_frame_type \<Rightarrow> nat \<Rightarrow> byte list \<Rightarrow> mux_frame codec_result" where
  "mux_frame_new frame_type channel_id payload =
     (if KEEPER_MAX_MUX_FRAME_BYTES < length payload then Err (FrameTooLarge (length payload mod 2 ^ 32))
      else Ok \<lparr>mf_frame_type = frame_type, mf_channel_id = channel_id, mf_payload = payload\<rparr>)"

datatype stream_event =
    FrameEvent "mux_frame_type option" byte nat "byte list"
  | FailedEvent codec_error

record frame_decoder =
  fd_buffered :: "byte list"

definition frame_decoder_new :: frame_decoder where
  "frame_decoder_new = \<lparr>fd_buffered = []\<rparr>"

definition buffered_len :: "frame_decoder \<Rightarrow> nat" where
  "buffered_len dec = length (fd_buffered dec)"

text \<open>
  The drain loop. The prefix slice has exactly four bytes whenever it exists, so the source's
  malformed-prefix refusal, which it documents as unreachable, has no branch here.
\<close>

function drain_frames :: "byte list \<Rightarrow> stream_event list \<times> byte list" where
  "drain_frames buffered =
     (case get_range buffered 0 4 of
        None \<Rightarrow> ([], buffered)
      | Some prefix \<Rightarrow>
          let claimed = from_be prefix in
          if KEEPER_MAX_MUX_FRAME_BYTES < claimed then ([FailedEvent (FrameTooLarge claimed)], [])
          else if claimed < MUX_FRAME_HEADER_BYTES
            then ([FailedEvent (LengthMismatch claimed (length buffered - 4))], [])
          else
            let total = 4 + claimed in
            if length buffered < total then ([], buffered)
            else
              let frame = drop 4 (take total buffered);
                  event = FrameEvent (mux_from_tag (frame ! 0)) (frame ! 0)
                            (from_be [frame ! 1, frame ! 2]) (drop 3 frame)
              in (case drain_frames (drop total buffered) of (events, rest) \<Rightarrow> (event # events, rest)))"
  by pat_completeness auto
termination
  by (relation "measure length") (auto simp: get_range_def split: if_splits)

declare drain_frames.simps [simp del]

definition frame_decoder_push :: "frame_decoder \<Rightarrow> byte list \<Rightarrow> frame_decoder \<times> stream_event list" where
  "frame_decoder_push dec bytes =
     (case drain_frames (fd_buffered dec @ bytes) of (events, rest) \<Rightarrow> (\<lparr>fd_buffered = rest\<rparr>, events))"

section \<open>Payloads\<close>

datatype keeper_feature = OrderedHistory | AcknowledgedInput | AcknowledgedResize | TerminalStateFeature

definition SUPPORTED :: "keeper_feature list" where
  "SUPPORTED = [OrderedHistory, AcknowledgedInput, AcknowledgedResize, TerminalStateFeature]"

definition REQUIRED :: "keeper_feature list" where
  "REQUIRED = [OrderedHistory, AcknowledgedInput, AcknowledgedResize]"

fun wire_name :: "keeper_feature \<Rightarrow> string" where
  "wire_name OrderedHistory = ''ordered_history_v1''"
| "wire_name AcknowledgedInput = ''acknowledged_input_v1''"
| "wire_name AcknowledgedResize = ''acknowledged_resize_v1''"
| "wire_name TerminalStateFeature = ''terminal_state_v1''"

definition from_wire_name :: "string \<Rightarrow> keeper_feature option" where
  "from_wire_name name = List.find (\<lambda>feature. wire_name feature = name) SUPPORTED"

definition negotiate_features :: "string list \<Rightarrow> keeper_feature list" where
  "negotiate_features requested = foldl (\<lambda>negotiated name.
     case from_wire_name name of
       None \<Rightarrow> negotiated
     | Some feature \<Rightarrow> if feature \<in> set negotiated then negotiated else negotiated @ [feature]) [] requested"

record pty_in_request =
  pir_input_seq :: nat
  pir_bytes :: "byte list"

definition pty_in_request_encode :: "pty_in_request \<Rightarrow> byte list" where
  "pty_in_request_encode request = write_sequence [] (pir_input_seq request) @ pir_bytes request"

definition pty_in_request_decode :: "byte list \<Rightarrow> string \<Rightarrow> pty_in_request codec_result" where
  "pty_in_request_decode payload name =
     (case read_sequence payload 0 of
        None \<Rightarrow> Err (TruncatedPayload name 0)
      | Some input_seq \<Rightarrow>
          let bytes = drop 8 payload in
          if KEEPER_MAX_INPUT_BYTES < length bytes then Err (InputTooLarge name (length bytes mod 2 ^ 32))
          else Ok \<lparr>pir_input_seq = input_seq, pir_bytes = bytes\<rparr>)"

datatype pty_in_reject_reason = NoSuchChannel | NoReader | QueueFull | ChildExited | PartialWrite

fun reason_code :: "pty_in_reject_reason \<Rightarrow> byte" where
  "reason_code NoSuchChannel = 1"
| "reason_code NoReader = 2"
| "reason_code QueueFull = 3"
| "reason_code ChildExited = 4"
| "reason_code PartialWrite = 5"

definition reason_from_code :: "byte \<Rightarrow> pty_in_reject_reason" where
  "reason_from_code code =
     (if code = 2 then NoReader else if code = 3 then QueueFull else if code = 4 then ChildExited
      else if code = 5 then PartialWrite else NoSuchChannel)"

datatype pty_in_result =
    PtyAck nat nat
  | PtyReject nat pty_in_reject_reason
  | PtyAmbiguous nat nat pty_in_reject_reason

fun pty_in_result_encode :: "pty_in_result \<Rightarrow> byte list" where
  "pty_in_result_encode (PtyAck s written) = write_sequence [] s @ be_bytes 4 written @ [0]"
| "pty_in_result_encode (PtyReject s reason) = write_sequence [] s @ be_bytes 4 0 @ [reason_code reason]"
| "pty_in_result_encode (PtyAmbiguous s written reason) =
     write_sequence [] s @ be_bytes 4 written @ [reason_code reason]"

definition pty_in_result_decode :: "mux_frame_type \<Rightarrow> byte list \<Rightarrow> pty_in_result option" where
  "pty_in_result_decode frame_type payload =
     (case read_sequence payload 0 of
        None \<Rightarrow> None
      | Some input_seq \<Rightarrow>
          let written = (case read_u32 payload 8 of None \<Rightarrow> 0 | Some w \<Rightarrow> w);
              reason = reason_from_code (if 12 < length payload then payload ! 12 else 0)
          in case frame_type of
               MuxPtyInAck \<Rightarrow> Some (PtyAck input_seq written)
             | MuxPtyInReject \<Rightarrow> Some (PtyReject input_seq reason)
             | MuxPtyInAmbiguous \<Rightarrow> Some (PtyAmbiguous input_seq written reason)
             | _ \<Rightarrow> None)"

record resize_request =
  rz_seq :: nat
  rz_cols :: nat
  rz_rows :: nat

definition resize_request_encode :: "resize_request \<Rightarrow> byte list codec_result" where
  "resize_request_encode r =
     res_bind (check_dimension (rz_cols r)) (\<lambda>cols.
     res_bind (check_dimension (rz_rows r)) (\<lambda>rows.
       Ok (write_sequence [] (rz_seq r) @ be_bytes 4 cols @ be_bytes 4 rows)))"

definition resize_request_decode :: "byte list \<Rightarrow> string \<Rightarrow> resize_request codec_result" where
  "resize_request_decode payload name =
     (case read_sequence payload 0 of None \<Rightarrow> Err (TruncatedPayload name 0) | Some s \<Rightarrow>
     (case read_u32 payload 8 of None \<Rightarrow> Err (TruncatedPayload name 8) | Some cols \<Rightarrow>
     (case read_u32 payload 12 of None \<Rightarrow> Err (TruncatedPayload name 12) | Some rows \<Rightarrow>
       res_bind (check_dimension cols) (\<lambda>c.
       res_bind (check_dimension rows) (\<lambda>r.
         Ok \<lparr>rz_seq = s, rz_cols = c, rz_rows = r\<rparr>)))))"

record terminal_state =
  ts_applied_seq :: nat
  ts_cols :: nat
  ts_rows :: nat

definition terminal_state_encode :: "terminal_state \<Rightarrow> byte list codec_result" where
  "terminal_state_encode t =
     resize_request_encode \<lparr>rz_seq = ts_applied_seq t, rz_cols = ts_cols t, rz_rows = ts_rows t\<rparr>"

definition terminal_state_decode :: "byte list \<Rightarrow> terminal_state codec_result" where
  "terminal_state_decode payload =
     res_bind (resize_request_decode payload ''terminal state'') (\<lambda>r.
       Ok \<lparr>ts_applied_seq = rz_seq r, ts_cols = rz_cols r, ts_rows = rz_rows r\<rparr>)"

definition pty_in_request_frame :: "nat \<Rightarrow> pty_in_request \<Rightarrow> mux_frame codec_result" where
  "pty_in_request_frame channel_id request =
     mux_frame_new MuxPtyInRequest channel_id (pty_in_request_encode request)"

section \<open>Scalars round-trip\<close>

lemma length_be_bytes [simp]: "length (be_bytes n v) = n"
  by (induction n) auto

lemma from_be_Cons: "from_be (b # bs) = unat b * 256 ^ length bs + from_be bs"
proof -
  have gen: "foldl (\<lambda>acc b. acc * 256 + unat b) a bs = a * 256 ^ length bs + foldl (\<lambda>acc b. acc * 256 + unat b) 0 bs"
    for a and bs :: "byte list"
  proof (induction bs arbitrary: a)
    case (Cons c cs)
    from Cons [of "a * 256 + unat c"] Cons [of "unat c"] show ?case by (simp add: algebra_simps)
  qed simp
  show ?thesis using gen [of "unat b" bs] by (simp add: from_be_def)
qed

lemma from_be_Nil [simp]: "from_be [] = 0"
  by (simp add: from_be_def)

lemma unat_byte_less: "unat (b :: byte) < 256"
  using unsigned_less [of b] by simp

lemma unat_of_nat_byte: "unat (of_nat n :: byte) = n mod 256"
  by (simp add: unat_of_nat)

lemma from_be_less: "from_be bs < 256 ^ length bs"
proof (induction bs)
  case (Cons b bs)
  have "unat b \<le> 255" using unat_byte_less [of b] by simp
  then have "unat b * 256 ^ length bs \<le> 255 * 256 ^ length bs" by (intro mult_right_mono) auto
  then have "from_be (b # bs) < 255 * 256 ^ length bs + 256 ^ length bs"
    unfolding from_be_Cons using Cons by (rule add_le_less_mono)
  then show ?case by simp
qed simp

lemma from_be_be_bytes [simp]: "from_be (be_bytes n v) = v mod 256 ^ n"
proof (induction n)
  case (Suc n)
  have "v mod (256 ^ n * 256) = 256 ^ n * (v div 256 ^ n mod 256) + v mod 256 ^ n" by (rule mod_mult2_eq)
  with Suc show ?case by (simp add: from_be_Cons unat_of_nat_byte mult.commute)
qed simp

lemma from_be_inj: "from_be bs = from_be cs \<Longrightarrow> length bs = length cs \<Longrightarrow> bs = cs"
proof (induction bs arbitrary: cs)
  case (Cons b bs)
  then obtain c cs' where cs: "cs = c # cs'" "length bs = length cs'" by (cases cs) auto
  let ?N = "256 ^ length bs :: nat"
  have eq: "unat b * ?N + from_be bs = unat c * ?N + from_be cs'" using Cons.prems by (simp add: cs from_be_Cons)
  have less: "from_be bs < ?N" "from_be cs' < ?N" using from_be_less [of bs] from_be_less [of cs'] by (simp_all add: cs(2))
  have "unat b = unat c" using arg_cong [OF eq, of "\<lambda>n. n div ?N"] less by simp
  moreover have "from_be bs = from_be cs'" using arg_cong [OF eq, of "\<lambda>n. n mod ?N"] less by simp
  ultimately show ?case using Cons.IH cs by (simp add: word_unat_eq_iff)
qed simp

lemma be_bytes_from_be: "length bs = n \<Longrightarrow> be_bytes n (from_be bs) = bs"
  using from_be_less [of bs] by (intro from_be_inj) auto

lemma get_range_append [simp]:
  "get_range (xs @ ys) 0 (length xs) = Some xs"
  by (simp add: get_range_def)

section \<open>The decoder\<close>

lemma tag_roundtrip: "mux_from_tag (mux_tag t) = Some t"
  by (cases t) (simp_all add: mux_from_tag_def)

lemma from_tag_exact: "mux_from_tag b = Some t \<Longrightarrow> mux_tag t = b"
  by (auto simp: mux_from_tag_def split: if_splits)

definition frame_sendable :: "mux_frame \<Rightarrow> bool" where
  "frame_sendable f \<longleftrightarrow> mf_channel_id f \<le> u16_max
     \<and> length (mf_payload f) + MUX_FRAME_HEADER_BYTES \<le> KEEPER_MAX_MUX_FRAME_BYTES"

definition event_of :: "mux_frame \<Rightarrow> stream_event" where
  "event_of f = FrameEvent (Some (mf_frame_type f)) (mux_tag (mf_frame_type f)) (mf_channel_id f) (mf_payload f)"

fun is_failure :: "stream_event \<Rightarrow> bool" where
  "is_failure (FailedEvent _) = True"
| "is_failure (FrameEvent _ _ _ _) = False"

abbreviation sound_events :: "stream_event list \<Rightarrow> bool" where
  "sound_events es \<equiv> list_all (\<lambda>e. \<not> is_failure e) es"

lemma be_bytes_2: "be_bytes 2 v = [of_nat (v div 256), of_nat v]"
  by (simp add: numeral_2_eq_2)

lemma be_bytes_4: "be_bytes 4 v = [of_nat (v div 16777216), of_nat (v div 65536), of_nat (v div 256), of_nat v]"
proof -
  have "4 = Suc (Suc (Suc (Suc 0)))" by simp
  then show ?thesis by (simp only: be_bytes.simps) simp
qed

lemma drain_encoded:
  assumes "frame_sendable f"
  shows "drain_frames (mux_frame_encode f @ xs) = (case drain_frames xs of (es, rest) \<Rightarrow> (event_of f # es, rest))"
proof -
  let ?p = "mf_payload f" and ?t = "mux_tag (mf_frame_type f)" and ?c = "mf_channel_id f"
  let ?body = "[?t] @ be_bytes 2 ?c @ ?p"
  have enc: "mux_frame_encode f = be_bytes 4 (3 + length ?p) @ ?body" by (simp add: mux_frame_encode_def numeral_3_eq_3)
  have claimed: "from_be (be_bytes 4 (3 + length ?p)) = 3 + length ?p"
    using assms by (simp add: frame_sendable_def keeper_limits)
  have chan: "from_be (be_bytes 2 ?c) = ?c" using assms by (simp add: frame_sendable_def u16_max_def)
  have "get_range (mux_frame_encode f @ xs) 0 4 = Some (be_bytes 4 (3 + length ?p))"
    by (simp add: get_range_def enc)
  moreover have "drop 4 (take (4 + (3 + length ?p)) (mux_frame_encode f @ xs)) = ?body"
    "drop (4 + (3 + length ?p)) (mux_frame_encode f @ xs) = xs"
    by (simp_all add: enc be_bytes_2 numeral_3_eq_3)
  moreover have "length (mux_frame_encode f @ xs) \<ge> 4 + (3 + length ?p)" by (simp add: enc)
  moreover have "[?body ! 1, ?body ! 2] = be_bytes 2 ?c" "?body ! 0 = ?t" "drop 3 ?body = ?p"
    by (simp_all add: be_bytes_2)
  ultimately show ?thesis
    using assms chan claimed
    by (subst drain_frames.simps) (auto simp: Let_def event_of_def frame_sendable_def tag_roundtrip MUX_FRAME_HEADER_BYTES_def
        split: prod.splits)
qed

lemma drain_append:
  assumes "drain_frames a = (ea, ra)" "sound_events ea"
  shows "drain_frames (a @ b) = (case drain_frames (ra @ b) of (eb, rb) \<Rightarrow> (ea @ eb, rb))"
  using assms
proof (induction a arbitrary: ea ra rule: drain_frames.induct)
  case (1 a)
  let ?n = "from_be (take 4 a)"
  show ?case
  proof (cases "4 \<le> length a \<and> \<not> KEEPER_MAX_MUX_FRAME_BYTES < ?n \<and> \<not> ?n < MUX_FRAME_HEADER_BYTES \<and> 4 + ?n \<le> length a")
    case False
    then have "ea = [] \<and> ra = a"
      using "1.prems" by (subst (asm) drain_frames.simps) (auto simp: get_range_def Let_def split: if_splits)
    then show ?thesis by (auto split: prod.splits)
  next
    case True
    have range_a: "get_range a 0 4 = Some (take 4 a)" "get_range (a @ b) 0 4 = Some (take 4 a)"
      using True by (simp_all add: get_range_def)
    obtain es r where rec: "drain_frames (drop (4 + ?n) a) = (es, r)" by fastforce
    let ?frame = "drop 4 (take (4 + ?n) a)"
    let ?ev = "FrameEvent (mux_from_tag (?frame ! 0)) (?frame ! 0) (from_be [?frame ! 1, ?frame ! 2]) (drop 3 ?frame)"
    have now: "drain_frames a = (?ev # es, r)"
      using True rec by (subst drain_frames.simps) (simp add: range_a Let_def)
    then have parts: "ea = ?ev # es" "ra = r" "sound_events es" using "1.prems" by auto
    have ih: "drain_frames (drop (4 + ?n) a @ b) = (case drain_frames (r @ b) of (eb, rb) \<Rightarrow> (es @ eb, rb))"
      by (rule "1.IH" [OF range_a(1) refl _ _ refl _ refl refl rec parts(3)]) (use True in auto)
    have "drop (4 + ?n) (a @ b) = drop (4 + ?n) a @ b" "take (4 + ?n) (a @ b) = take (4 + ?n) a" using True by simp_all
    with ih show ?thesis using True parts
      by (subst drain_frames.simps) (auto simp: range_a Let_def split: prod.splits)
  qed
qed

lemma drain_failure_persists:
  assumes "drain_frames a = (ea, ra)" "\<not> sound_events ea" "drain_frames (a @ b) = (eb, rb)"
  shows "\<not> sound_events eb"
  using assms
proof (induction a arbitrary: ea ra eb rb rule: drain_frames.induct)
  case (1 a)
  let ?n = "from_be (take 4 a)"
  have len: "4 \<le> length a" using "1.prems"(1,2) by (subst (asm) drain_frames.simps) (auto simp: get_range_def split: if_splits)
  have range_a: "get_range a 0 4 = Some (take 4 a)" "get_range (a @ b) 0 4 = Some (take 4 a)"
    using len by (simp_all add: get_range_def)
  show ?case
  proof (cases "KEEPER_MAX_MUX_FRAME_BYTES < ?n \<or> ?n < MUX_FRAME_HEADER_BYTES")
    case True
    then show ?thesis using "1.prems"(3) by (subst (asm) drain_frames.simps) (auto simp: range_a Let_def split: if_splits)
  next
    case False
    have fits: "4 + ?n \<le> length a"
      using "1.prems"(1,2) False by (subst (asm) drain_frames.simps) (auto simp: range_a Let_def split: if_splits)
    obtain es r where rec: "drain_frames (drop (4 + ?n) a) = (es, r)" by fastforce
    obtain fs q where recb: "drain_frames (drop (4 + ?n) a @ b) = (fs, q)" by fastforce
    have "\<not> sound_events es"
      using "1.prems"(1,2) False fits rec by (subst (asm) drain_frames.simps) (auto simp: range_a Let_def)
    then have "\<not> sound_events fs"
      using "1.IH" [OF range_a(1) refl _ _ refl _ refl refl rec _ recb] False fits by auto
    moreover have "drop (4 + ?n) (a @ b) = drop (4 + ?n) a @ b" using fits by simp
    ultimately show ?thesis
      using "1.prems"(3) False fits recb by (subst (asm) drain_frames.simps) (auto simp: range_a Let_def)
  qed
qed

fun decoder_run :: "frame_decoder \<Rightarrow> byte list list \<Rightarrow> frame_decoder \<times> stream_event list" where
  "decoder_run dec [] = (dec, [])"
| "decoder_run dec (bytes # reads) =
     (case frame_decoder_push dec bytes of (dec', events) \<Rightarrow>
        (case decoder_run dec' reads of (dec'', events') \<Rightarrow> (dec'', events @ events')))"

lemma decoder_run_whole:
  assumes "drain_frames (fd_buffered dec @ concat reads) = (events, rest)" "sound_events events"
    and "drain_frames (fd_buffered dec) = ([], fd_buffered dec)"
  shows "decoder_run dec reads = (\<lparr>fd_buffered = rest\<rparr>, events)"
  using assms
proof (induction reads arbitrary: dec events)
  case Nil
  then show ?case by simp
next
  case (Cons bytes reads)
  obtain ea ra where a: "drain_frames (fd_buffered dec @ bytes) = (ea, ra)" by fastforce
  have sound: "sound_events ea"
    using drain_failure_persists [OF a, of "concat reads"] Cons.prems(1,2) by auto
  obtain eb rb where b: "drain_frames (ra @ concat reads) = (eb, rb)" by fastforce
  have split: "events = ea @ eb" "rest = rb"
    using drain_append [OF a sound, of "concat reads"] Cons.prems(1) b by auto
  have "drain_frames ra = ([], ra)"
    using drain_append [OF a sound, of "[]"] a by (auto split: prod.splits)
  then have "decoder_run \<lparr>fd_buffered = ra\<rparr> reads = (\<lparr>fd_buffered = rest\<rparr>, eb)"
    using Cons.IH [of "\<lparr>fd_buffered = ra\<rparr>" eb] b split Cons.prems(2) by simp
  then show ?case using a split by (simp add: frame_decoder_push_def)
qed

lemma drain_encoded_all:
  "\<forall>f \<in> set fs. frame_sendable f \<Longrightarrow> drain_frames (concat (map mux_frame_encode fs)) = (map event_of fs, [])"
proof (induction fs)
  case Nil
  show ?case by (subst drain_frames.simps) (simp add: get_range_def)
qed (simp add: drain_encoded)

text \<open>
  C28: Frames survive any fragmentation of the stream: when the encodings of a list of sendable frames
  arrive cut into reads at arbitrary places, empty reads included, the decoder reports exactly those
  frames in order, reports no failure and holds nothing back at the end.
\<close>

theorem frames_survive_fragmentation:
  assumes "concat reads = concat (map mux_frame_encode fs)" "\<forall>f \<in> set fs. frame_sendable f"
  shows "decoder_run frame_decoder_new reads = (frame_decoder_new, map event_of fs)"
proof -
  have "list_all (\<lambda>e. \<not> is_failure e) (map event_of fs)" by (simp add: list_all_iff event_of_def)
  moreover have "drain_frames [] = ([], [])" by (subst drain_frames.simps) (simp add: get_range_def)
  ultimately show ?thesis
    using decoder_run_whole [of frame_decoder_new reads "map event_of fs" "[]"] drain_encoded_all [OF assms(2)] assms(1)
    by (simp add: frame_decoder_new_def)
qed

definition sample_frames :: "mux_frame list" where
  "sample_frames = [\<lparr>mf_frame_type = MuxPtyOut, mf_channel_id = 259, mf_payload = [104, 105]\<rparr>,
                    \<lparr>mf_frame_type = MuxPing, mf_channel_id = 0, mf_payload = []\<rparr>]"

lemma sample_frames_sendable: "\<forall>f \<in> set sample_frames. frame_sendable f"
  by (simp add: sample_frames_def frame_sendable_def u16_max_def keeper_limits)

theorem frames_survive_fragmentation_witness:
  "decoder_run frame_decoder_new [[0, 0, 0, 5, 0x21, 1], [], [3, 104, 105, 0, 0], [0, 3, 0xF0, 0, 0]]
     = (frame_decoder_new, map event_of sample_frames)"
proof -
  have "concat [[0, 0, 0, 5, 0x21, 1], [], [3, 104, 105, 0, 0], [0, 3, 0xF0, 0, 0]]
      = concat (map mux_frame_encode sample_frames)"
    by (simp add: sample_frames_def mux_frame_encode_def Let_def be_bytes_2 be_bytes_4)
  from frames_survive_fragmentation [OF this sample_frames_sendable] show ?thesis .
qed

section \<open>What any byte stream can do to the decoder\<close>

fun event_typed :: "stream_event \<Rightarrow> bool" where
  "event_typed (FrameEvent t tag channel payload) \<longleftrightarrow> t = mux_from_tag tag \<and> channel \<le> u16_max
     \<and> length payload + MUX_FRAME_HEADER_BYTES \<le> KEEPER_MAX_MUX_FRAME_BYTES"
| "event_typed (FailedEvent e) \<longleftrightarrow> (\<exists>n. e = FrameTooLarge n \<and> KEEPER_MAX_MUX_FRAME_BYTES < n)
     \<or> (\<exists>n k. e = LengthMismatch n k \<and> n < MUX_FRAME_HEADER_BYTES)"

lemma drain_typed:
  "drain_frames a = (es, r) \<Longrightarrow> list_all event_typed es \<and> length r < 4 + KEEPER_MAX_MUX_FRAME_BYTES"
proof (induction a arbitrary: es r rule: drain_frames.induct)
  case (1 a)
  let ?n = "from_be (take 4 a)"
  show ?case
  proof (cases "4 \<le> length a \<and> \<not> KEEPER_MAX_MUX_FRAME_BYTES < ?n \<and> \<not> ?n < MUX_FRAME_HEADER_BYTES \<and> 4 + ?n \<le> length a")
    case False
    then show ?thesis using "1.prems"
      by (subst (asm) drain_frames.simps) (auto simp: get_range_def Let_def keeper_limits split: if_splits)
  next
    case True
    have range_a: "get_range a 0 4 = Some (take 4 a)" using True by (simp add: get_range_def)
    obtain fs q where rec: "drain_frames (drop (4 + ?n) a) = (fs, q)" by fastforce
    let ?frame = "drop 4 (take (4 + ?n) a)"
    have step: "es = FrameEvent (mux_from_tag (?frame ! 0)) (?frame ! 0) (from_be [?frame ! 1, ?frame ! 2]) (drop 3 ?frame) # fs"
      "r = q"
      using "1.prems" True rec by (subst (asm) drain_frames.simps, simp add: range_a Let_def)+
    have "list_all event_typed fs \<and> length q < 4 + KEEPER_MAX_MUX_FRAME_BYTES"
      by (rule "1.IH" [OF range_a refl _ _ refl _ refl refl rec]) (use True in auto)
    moreover have "from_be [?frame ! 1, ?frame ! 2] \<le> u16_max"
      using from_be_less [of "[?frame ! 1, ?frame ! 2]"] by (simp add: u16_max_def)
    ultimately show ?thesis using True step by (simp add: MUX_FRAME_HEADER_BYTES_def)
  qed
qed

text \<open>
  C38: No peer can drive the decoder out of its types: whatever bytes arrive in whatever reads, each event is
  either a frame whose kind is exactly what its tag says, with a sixteen-bit channel and a payload
  within the envelope, or the refusal of a length outside the legal range; and what is held back for
  the next read is always shorter than one maximal frame.
\<close>

theorem decoder_total_and_bounded:
  assumes "decoder_run frame_decoder_new reads = (dec, events)"
  shows "list_all event_typed events \<and> buffered_len dec < 4 + KEEPER_MAX_MUX_FRAME_BYTES"
proof -
  have "list_all event_typed es \<and> buffered_len dec' < 4 + KEEPER_MAX_MUX_FRAME_BYTES"
    if "decoder_run d rs = (dec', es)" "buffered_len d < 4 + KEEPER_MAX_MUX_FRAME_BYTES" for d rs dec' es
    using that
  proof (induction rs arbitrary: d es)
    case (Cons bytes rs)
    obtain ea ra where a: "drain_frames (fd_buffered d @ bytes) = (ea, ra)" by fastforce
    obtain eb where b: "decoder_run \<lparr>fd_buffered = ra\<rparr> rs = (dec', eb)" "es = ea @ eb"
      using Cons.prems(1) a by (auto simp: frame_decoder_push_def split: prod.splits)
    from Cons.IH [OF b(1)] drain_typed [OF a] b(2) show ?case by (simp add: buffered_len_def)
  qed simp
  from this [OF assms] show ?thesis by (simp add: frame_decoder_new_def buffered_len_def)
qed

theorem decoder_total_and_bounded_witness:
  "\<exists>dec events. decoder_run frame_decoder_new [[0, 0, 0, 0]] = (dec, events) \<and> list_all event_typed events"
proof -
  obtain dec events where "decoder_run frame_decoder_new [[0, 0, 0, 0]] = (dec, events)" by fastforce
  with decoder_total_and_bounded [OF this] show ?thesis by blast
qed

text \<open>
  The two ends disagree about the largest frame: a payload within three bytes of the envelope limit
  is accepted by the constructor, yet its encoding makes the receiving decoder report a violation and
  discard the stream. The constructor bounds the payload where the decoder bounds the whole body.
\<close>

theorem largest_frame_refused:
  assumes "length payload \<le> KEEPER_MAX_MUX_FRAME_BYTES"
    and "KEEPER_MAX_MUX_FRAME_BYTES < length payload + MUX_FRAME_HEADER_BYTES"
  shows "\<exists>frame. mux_frame_new t channel payload = Ok frame
    \<and> frame_decoder_push frame_decoder_new (mux_frame_encode frame)
        = (frame_decoder_new, [FailedEvent (FrameTooLarge (length payload + 3))])"
proof -
  let ?f = "\<lparr>mf_frame_type = t, mf_channel_id = channel, mf_payload = payload\<rparr>"
  have enc: "mux_frame_encode ?f = be_bytes 4 (length payload + 3) @ mux_tag t # be_bytes 2 channel @ payload"
    by (simp add: mux_frame_encode_def numeral_3_eq_3)
  have "from_be (be_bytes 4 (length payload + 3)) = length payload + 3" using assms by (simp add: keeper_limits)
  moreover have "get_range (mux_frame_encode ?f) 0 4 = Some (be_bytes 4 (length payload + 3))"
    by (simp add: enc get_range_def)
  ultimately have "drain_frames (mux_frame_encode ?f) = ([FailedEvent (FrameTooLarge (length payload + 3))], [])"
    using assms(2) by (subst drain_frames.simps) (simp add: MUX_FRAME_HEADER_BYTES_def)
  with assms(1) show ?thesis by (simp add: mux_frame_new_def frame_decoder_push_def frame_decoder_new_def)
qed

theorem largest_frame_refused_witness:
  "\<exists>frame. mux_frame_new MuxPtyOut 1 (replicate (16 * 1024 * 1024) 0) = Ok frame
    \<and> snd (frame_decoder_push frame_decoder_new (mux_frame_encode frame)) = [FailedEvent (FrameTooLarge 16777219)]"
  using largest_frame_refused [of "replicate (16 * 1024 * 1024) 0" MuxPtyOut 1]
  by (auto simp: keeper_limits)

section \<open>Payload round trips\<close>

lemma read_sequence_here: "read_sequence (be_bytes 8 v @ xs) 0 = Some (v mod 2 ^ 64)"
  by (simp add: read_sequence_def get_range_def)

lemma read_u32_here: "length pre = k \<Longrightarrow> read_u32 (pre @ be_bytes 4 v @ xs) k = Some (v mod 2 ^ 32)"
  by (simp add: read_u32_def get_range_def)

lemma reason_roundtrip: "reason_from_code (reason_code r) = r"
  by (cases r) (simp_all add: reason_from_code_def)

lemma check_dimension_Inr [res_simps]: "check_dimension n = Inr m \<longleftrightarrow> 0 < n \<and> n \<le> KEEPER_MAX_TERMINAL_DIMENSION \<and> m = n"
  by (auto simp: check_dimension_def)

fun result_tag :: "pty_in_result \<Rightarrow> mux_frame_type" where
  "result_tag (PtyAck _ _) = MuxPtyInAck"
| "result_tag (PtyReject _ _) = MuxPtyInReject"
| "result_tag (PtyAmbiguous _ _ _) = MuxPtyInAmbiguous"

fun result_fields_ok :: "pty_in_result \<Rightarrow> bool" where
  "result_fields_ok (PtyAck s w) \<longleftrightarrow> s \<le> u64_max \<and> w \<le> u32_max"
| "result_fields_ok (PtyReject s _) \<longleftrightarrow> s \<le> u64_max"
| "result_fields_ok (PtyAmbiguous s w _) \<longleftrightarrow> s \<le> u64_max \<and> w \<le> u32_max"

lemma result_roundtrip:
  assumes "result_fields_ok r"
  shows "pty_in_result_decode (result_tag r) (pty_in_result_encode r) = Some r"
proof -
  have "read_sequence (write_sequence [] s @ be_bytes 4 w @ [c]) 0 = Some (s mod 2 ^ 64)"
    "read_u32 (write_sequence [] s @ be_bytes 4 w @ [c]) 8 = Some (w mod 2 ^ 32)"
    "(write_sequence [] s @ be_bytes 4 w @ [c]) ! 12 = c" "12 < length (write_sequence [] s @ be_bytes 4 w @ [c])" for s w c
    by (simp_all add: write_sequence_def read_sequence_here read_u32_here nth_append)
  with assms show ?thesis
    by (cases r) (simp_all add: pty_in_result_decode_def reason_roundtrip u64_max_def u32_max_def)
qed

lemma resize_roundtrip:
  assumes "resize_request_encode r = Ok bytes" "rz_seq r \<le> u64_max"
  shows "resize_request_decode bytes name = Ok r"
proof -
  have dims: "0 < rz_cols r" "rz_cols r \<le> 0xffff" "0 < rz_rows r" "rz_rows r \<le> 0xffff"
    and bytes: "bytes = be_bytes 8 (rz_seq r) @ be_bytes 4 (rz_cols r) @ be_bytes 4 (rz_rows r)"
    using assms(1) by (auto simp: resize_request_encode_def res_simps write_sequence_def keeper_limits)
  have "read_sequence bytes 0 = Some (rz_seq r)" "read_u32 bytes 8 = Some (rz_cols r)" "read_u32 bytes 12 = Some (rz_rows r)"
    unfolding bytes using assms(2) dims read_u32_here [of "be_bytes 8 (rz_seq r) @ be_bytes 4 (rz_cols r)" 12 "rz_rows r" "[]"]
    by (simp_all add: read_sequence_here read_u32_here u64_max_def)
  with dims show ?thesis by (simp add: resize_request_decode_def check_dimension_def keeper_limits)
qed

text \<open>
  The sequenced payloads lose nothing: an input request within the input limit, a write result under
  the tag it is sent with, a geometry change and a terminal state each decode to what was encoded, so
  the sequence number a client matches on and the geometry it recovers are the ones the other side had.
\<close>

theorem sequenced_payloads_roundtrip:
  assumes "pir_input_seq q \<le> u64_max" "length (pir_bytes q) \<le> KEEPER_MAX_INPUT_BYTES" "result_fields_ok r"
    "resize_request_encode g = Ok gbytes" "rz_seq g \<le> u64_max" "terminal_state_encode t = Ok tbytes" "ts_applied_seq t \<le> u64_max"
  shows "pty_in_request_decode (pty_in_request_encode q) name = Ok q
    \<and> pty_in_result_decode (result_tag r) (pty_in_result_encode r) = Some r
    \<and> resize_request_decode gbytes name = Ok g \<and> terminal_state_decode tbytes = Ok t"
proof -
  have "pty_in_request_decode (pty_in_request_encode q) name = Ok q"
    using assms(1,2) by (simp add: pty_in_request_decode_def pty_in_request_encode_def write_sequence_def read_sequence_here u64_max_def)
  moreover have "terminal_state_decode tbytes = Ok t"
    using assms(6,7) resize_roundtrip [of "\<lparr>rz_seq = ts_applied_seq t, rz_cols = ts_cols t, rz_rows = ts_rows t\<rparr>" tbytes]
    by (simp add: terminal_state_encode_def terminal_state_decode_def)
  ultimately show ?thesis using result_roundtrip [OF assms(3)] resize_roundtrip [OF assms(4,5)] by blast
qed

theorem sequenced_payloads_roundtrip_witness:
  "pty_in_request_decode (pty_in_request_encode \<lparr>pir_input_seq = 7, pir_bytes = [97]\<rparr>) ''q''
     = Ok \<lparr>pir_input_seq = 7, pir_bytes = [97]\<rparr>"
proof -
  have "resize_request_encode \<lparr>rz_seq = 1, rz_cols = 80, rz_rows = 24\<rparr>
      = Ok (write_sequence [] 1 @ be_bytes 4 80 @ be_bytes 4 24)"
    "terminal_state_encode \<lparr>ts_applied_seq = 1, ts_cols = 80, ts_rows = 24\<rparr>
      = Ok (write_sequence [] 1 @ be_bytes 4 80 @ be_bytes 4 24)"
    by (simp_all add: resize_request_encode_def terminal_state_encode_def check_dimension_def keeper_limits)
  then show ?thesis
    using sequenced_payloads_roundtrip [of "\<lparr>pir_input_seq = 7, pir_bytes = [97]\<rparr>" "PtyAck 7 1"]
    by (simp add: keeper_limits u64_max_def u32_max_def)
qed

end
