(* ===== verification/Keeper_Lanes.thy ===== *)
theory Keeper_Lanes
  imports Keeper_Codec
begin

text \<open>
  The two hand-offs between the keeper's loop and a PTY: the output ring a reader thread fills
  (\<^verbatim>\<open>roost-keeper/src/output_ring.rs\<close>) and the input lane a writer thread empties
  (\<^verbatim>\<open>roost-keeper/src/input_queue.rs\<close>). A thread is a sequence of the steps it takes between two
  acquisitions of the lock; the statements range over every interleaving of those steps with the
  loop's calls. What a descriptor answers is an argument: a list of results in the order they come.
\<close>

section \<open>The output ring\<close>

definition OUTPUT_QUEUE_DEPTH :: nat where "OUTPUT_QUEUE_DEPTH = 256"
definition READ_CHUNK_BYTES :: nat where "READ_CHUNK_BYTES = 16 * 1024"

text \<open>
  The receiver of the bounded queue is the chunks in it and whether the sender is still alive; an
  empty queue is \<open>Empty\<close> or \<open>Disconnected\<close> accordingly.
\<close>

record output_ring =
  or_chunks :: "byte list list"
  or_connected :: bool
  or_pending :: "byte list"

definition output_ring_new :: output_ring where
  "output_ring_new = \<lparr>or_chunks = [], or_connected = True, or_pending = []\<rparr>"

fun fill_pending :: "nat \<Rightarrow> byte list list \<Rightarrow> byte list \<Rightarrow> byte list list \<times> byte list" where
  "fill_pending limit [] pending = ([], pending)"
| "fill_pending limit (chunk # chunks) pending =
     (if length pending < limit then fill_pending limit chunks (pending @ chunk) else (chunk # chunks, pending))"

definition ring_take :: "nat \<Rightarrow> output_ring \<Rightarrow> byte list option \<times> output_ring" where
  "ring_take limit ring =
     (case fill_pending limit (or_chunks ring) (or_pending ring) of (chunks, pending) \<Rightarrow>
        if pending = [] then (None, ring\<lparr>or_chunks := chunks, or_pending := pending\<rparr>)
        else let n = min limit (length pending)
             in (Some (take n pending), ring\<lparr>or_chunks := chunks, or_pending := drop n pending\<rparr>))"

definition is_eof :: "output_ring \<Rightarrow> bool \<times> output_ring" where
  "is_eof ring =
     (if or_pending ring \<noteq> [] then (False, ring)
      else case or_chunks ring of
             [] \<Rightarrow> (\<not> or_connected ring, ring)
           | chunk # chunks \<Rightarrow> (False, ring\<lparr>or_chunks := chunks, or_pending := chunk\<rparr>))"

definition is_drained :: "output_ring \<Rightarrow> bool \<times> output_ring" where
  "is_drained ring =
     (if or_pending ring \<noteq> [] then (False, ring)
      else case or_chunks ring of
             [] \<Rightarrow> (True, ring)
           | chunk # chunks \<Rightarrow> (False, ring\<lparr>or_chunks := chunks, or_pending := chunk\<rparr>))"

text \<open>
  One turn of the reader thread. \<open>None\<close> is a send blocked on the full queue; the read is offered again
  once there is room. After the sender is dropped the thread has returned and takes no further turn.
\<close>

datatype read_result = ReadOk "byte list" | ReadInterrupted | ReadErr

definition pump_pty_output :: "read_result \<Rightarrow> output_ring \<Rightarrow> output_ring option" where
  "pump_pty_output result ring =
     (if \<not> or_connected ring then None
      else case result of
             ReadOk bytes \<Rightarrow>
               if bytes = [] then Some (ring\<lparr>or_connected := False\<rparr>)
               else if length (or_chunks ring) < OUTPUT_QUEUE_DEPTH
                 then Some (ring\<lparr>or_chunks := or_chunks ring @ [bytes]\<rparr>)
               else None
           | ReadInterrupted \<Rightarrow> Some ring
           | ReadErr \<Rightarrow> Some (ring\<lparr>or_connected := False\<rparr>))"

record output_signal =
  os_raised :: bool
  os_waker :: bool
  os_wakes :: nat

definition signal_raise :: "output_signal \<Rightarrow> output_signal" where
  "signal_raise s =
     (if os_raised s then s
      else if os_waker s then s\<lparr>os_raised := True, os_wakes := os_wakes s + 1\<rparr>
      else s\<lparr>os_raised := True\<rparr>)"

definition signal_take :: "output_signal \<Rightarrow> bool \<times> output_signal" where
  "signal_take s = (os_raised s, s\<lparr>os_raised := False\<rparr>)"

definition signal_attach :: "output_signal \<Rightarrow> output_signal" where
  "signal_attach s = s\<lparr>os_waker := True\<rparr>"

definition signal_detach :: "output_signal \<Rightarrow> output_signal" where
  "signal_detach s = s\<lparr>os_waker := False\<rparr>"

section \<open>The input lane\<close>

definition KEEPER_INPUT_QUEUE_MAX_COMMANDS :: nat where "KEEPER_INPUT_QUEUE_MAX_COMMANDS = 200"
definition KEEPER_INPUT_QUEUE_MAX_BYTES :: nat where "KEEPER_INPUT_QUEUE_MAX_BYTES = 256 * 1024"

text \<open>
  The route results go to: the attached generation, the counter, and the frames each generation's
  connection was handed. Whether the sink's own write succeeds is the sink's business.
\<close>

record input_route =
  ir_attached :: "nat option"
  ir_generations :: nat
  ir_delivered :: "(nat \<times> mux_frame) list"

definition input_route_new :: input_route where
  "input_route_new = \<lparr>ir_attached = None, ir_generations = 0, ir_delivered = []\<rparr>"

definition route_attach :: "input_route \<Rightarrow> nat \<times> input_route" where
  "route_attach r =
     (let generation = ir_generations r + 1
      in (generation, r\<lparr>ir_generations := generation, ir_attached := Some generation\<rparr>))"

definition route_detach :: "input_route \<Rightarrow> input_route" where
  "route_detach r = r\<lparr>ir_attached := None\<rparr>"

definition route_current :: "input_route \<Rightarrow> nat option" where
  "route_current r = ir_attached r"

definition route_deliver :: "nat \<Rightarrow> mux_frame \<Rightarrow> input_route \<Rightarrow> bool \<times> input_route" where
  "route_deliver generation frame r =
     (if ir_attached r = Some generation then (True, r\<lparr>ir_delivered := ir_delivered r @ [(generation, frame)]\<rparr>)
      else (False, r))"

datatype input_reply =
    Unacknowledged
  | Acknowledged nat "nat option"

record batch =
  b_bytes :: "byte list"
  b_reply :: input_reply

text \<open>
  The lane: what the lock guards, the exit flag, and the batch the writer thread holds between taking
  it and settling it.
\<close>

record input_lane =
  ln_channel_id :: nat
  ln_queue :: "batch list"
  ln_held_bytes :: nat
  ln_writing :: bool
  ln_closed :: bool
  ln_exited :: bool
  ln_current :: "batch option"

definition lane_start :: "nat \<Rightarrow> input_lane" where
  "lane_start channel_id = \<lparr>ln_channel_id = channel_id, ln_queue = [], ln_held_bytes = 0, ln_writing = False,
     ln_closed = False, ln_exited = False, ln_current = None\<rparr>"

definition lane_enqueue :: "byte list \<Rightarrow> input_reply \<Rightarrow> input_lane \<Rightarrow> bool \<times> input_lane" where
  "lane_enqueue bytes reply lane =
     (let commands = length (ln_queue lane) + (if ln_writing lane then 1 else 0)
      in if KEEPER_INPUT_QUEUE_MAX_COMMANDS \<le> commands
            \<or> KEEPER_INPUT_QUEUE_MAX_BYTES < ln_held_bytes lane + length bytes
         then (False, lane)
         else (True, lane\<lparr>ln_held_bytes := ln_held_bytes lane + length bytes,
                         ln_queue := ln_queue lane @ [\<lparr>b_bytes = bytes, b_reply = reply\<rparr>]\<rparr>))"

definition mark_exited :: "input_lane \<Rightarrow> input_lane" where
  "mark_exited lane = lane\<lparr>ln_exited := True\<rparr>"

definition lane_drop :: "input_lane \<Rightarrow> input_lane" where
  "lane_drop lane = lane\<lparr>ln_closed := True\<rparr>"

text \<open>\<open>None\<close> is the thread waiting for work, or ending once the lane is closed and empty.\<close>

definition next_batch :: "input_lane \<Rightarrow> input_lane option" where
  "next_batch lane =
     (case ln_queue lane of
        [] \<Rightarrow> None
      | b # queue \<Rightarrow> Some (lane\<lparr>ln_queue := queue, ln_writing := True, ln_current := Some b\<rparr>))"

datatype write_outcome =
    Complete nat
  | Rejected pty_in_reject_reason
  | Partial nat pty_in_reject_reason

text \<open>
  What the descriptor answers: per write how many bytes it takes of those offered (never more, by the
  contract of \<open>Write\<close>), an interruption or a refusal; per flush whether it succeeded. A descriptor with
  nothing left to answer blocks, and the call does not return: \<open>None\<close>.
\<close>

datatype write_result = Accept nat | WriteInterrupted | WriteErr

record pty_writer =
  pw_writes :: "write_result list"
  pw_flushes :: "bool list"
  pw_received :: "byte list"

definition stalled :: "nat \<Rightarrow> write_outcome" where
  "stalled written = (if written = 0 then Rejected NoReader else Partial (written mod 2 ^ 32) PartialWrite)"

fun write_loop :: "byte list \<Rightarrow> nat \<Rightarrow> write_result list \<Rightarrow> (bool \<times> nat \<times> write_result list) option" where
  "write_loop bytes written script =
     (if length bytes \<le> written then Some (True, written, script)
      else case script of
             [] \<Rightarrow> None
           | Accept n # rest \<Rightarrow>
               let accepted = min n (length bytes - written)
               in if accepted = 0 then Some (False, written, rest) else write_loop bytes (written + accepted) rest
           | WriteInterrupted # rest \<Rightarrow> write_loop bytes written rest
           | WriteErr # rest \<Rightarrow> Some (False, written, rest))"

declare write_loop.simps [simp del]

definition write_batch :: "pty_writer \<Rightarrow> byte list \<Rightarrow> (write_outcome \<times> pty_writer) option" where
  "write_batch w bytes =
     (if bytes = [] then Some (Complete 0, w)
      else case write_loop bytes 0 (pw_writes w) of
             None \<Rightarrow> None
           | Some (finished, written, rest) \<Rightarrow>
               let w' = w\<lparr>pw_writes := rest, pw_received := pw_received w @ take written bytes\<rparr>
               in if \<not> finished then Some (stalled written, w')
                  else case pw_flushes w' of
                         [] \<Rightarrow> None
                       | flushed # flushes \<Rightarrow>
                           Some (if flushed then Complete (written mod 2 ^ 32) else stalled written, w'\<lparr>pw_flushes := flushes\<rparr>))"

fun acknowledged_result :: "nat \<Rightarrow> write_outcome \<Rightarrow> mux_frame_type \<times> pty_in_result" where
  "acknowledged_result s (Complete written) = (MuxPtyInAck, PtyAck s written)"
| "acknowledged_result s (Rejected reason) = (MuxPtyInReject, PtyReject s reason)"
| "acknowledged_result s (Partial written reason) = (MuxPtyInAmbiguous, PtyAmbiguous s written reason)"

definition batch_departed :: "input_route \<Rightarrow> batch \<Rightarrow> bool" where
  "batch_departed route b \<longleftrightarrow>
     (case b_reply b of Acknowledged _ (Some generation) \<Rightarrow> route_current route \<noteq> Some generation | _ \<Rightarrow> False)"

text \<open>
  Settling the batch in hand. Connections come and go while the descriptor is being written to: what
  they do to the route in that time is the argument \<open>meanwhile\<close>, applied between the check for a
  departed connection and the delivery.
\<close>

definition settle_batch ::
  "(input_route \<Rightarrow> input_route) \<Rightarrow> input_lane \<Rightarrow> input_route \<Rightarrow> pty_writer \<Rightarrow> batch \<Rightarrow> (input_route \<times> pty_writer) option" where
  "settle_batch meanwhile lane route w b =
     (if batch_departed route b then Some (meanwhile route, w)
      else
        case (if ln_closed lane \<or> ln_exited lane then Some (Rejected ChildExited, w) else write_batch w (b_bytes b)) of
          None \<Rightarrow> None
        | Some (outcome, w') \<Rightarrow>
            (case b_reply b of
               Unacknowledged \<Rightarrow> Some (meanwhile route, w')
             | Acknowledged input_seq generation \<Rightarrow>
                 (case acknowledged_result input_seq outcome of (tag, result) \<Rightarrow>
                    (case (generation, mux_frame_new tag (ln_channel_id lane) (pty_in_result_encode result)) of
                       (Some g, Inr frame) \<Rightarrow> Some (snd (route_deliver g frame (meanwhile route)), w')
                     | _ \<Rightarrow> Some (meanwhile route, w')))))"

text \<open>The body of the drain loop after a batch was taken: it is settled, then its budget is released.\<close>

definition drain_lane ::
  "(input_route \<Rightarrow> input_route) \<Rightarrow> input_lane \<Rightarrow> input_route \<Rightarrow> pty_writer \<Rightarrow> (input_lane \<times> input_route \<times> pty_writer) option" where
  "drain_lane meanwhile lane route w =
     (case ln_current lane of
        None \<Rightarrow> None
      | Some b \<Rightarrow>
          (case settle_batch meanwhile lane route w b of
             None \<Rightarrow> None
           | Some (route', w') \<Rightarrow>
               Some (lane\<lparr>ln_held_bytes := ln_held_bytes lane - length (b_bytes b), ln_writing := False, ln_current := None\<rparr>,
                     route', w')))"

section \<open>Output is handed over whole and in order\<close>

datatype ring_op = Pump read_result | TakeUpTo nat | AskEof | AskDrained

text \<open>The ring with what was read from the PTY and what was handed to the loop so far.\<close>

record ring_run =
  rr_ring :: output_ring
  rr_read :: "byte list"
  rr_handed :: "byte list"
  rr_eof :: bool

definition ring_run_new :: ring_run where
  "ring_run_new = \<lparr>rr_ring = output_ring_new, rr_read = [], rr_handed = [], rr_eof = False\<rparr>"

fun ring_exec :: "ring_op \<Rightarrow> ring_run \<Rightarrow> ring_run" where
  "ring_exec (Pump result) r =
     (case pump_pty_output result (rr_ring r) of
        None \<Rightarrow> r
      | Some ring \<Rightarrow> r\<lparr>rr_ring := ring, rr_read := rr_read r @ (case result of ReadOk bytes \<Rightarrow> bytes | _ \<Rightarrow> [])\<rparr>)"
| "ring_exec (TakeUpTo limit) r =
     (case ring_take limit (rr_ring r) of
        (None, ring) \<Rightarrow> r\<lparr>rr_ring := ring\<rparr>
      | (Some bytes, ring) \<Rightarrow> r\<lparr>rr_ring := ring, rr_handed := rr_handed r @ bytes\<rparr>)"
| "ring_exec AskEof r = (case is_eof (rr_ring r) of (eof, ring) \<Rightarrow> r\<lparr>rr_ring := ring, rr_eof := eof\<rparr>)"
| "ring_exec AskDrained r = (case is_drained (rr_ring r) of (_, ring) \<Rightarrow> r\<lparr>rr_ring := ring\<rparr>)"

definition ring_held :: "output_ring \<Rightarrow> byte list" where
  "ring_held ring = or_pending ring @ concat (or_chunks ring)"

definition ring_run_ok :: "ring_run \<Rightarrow> bool" where
  "ring_run_ok r \<longleftrightarrow> rr_read r = rr_handed r @ ring_held (rr_ring r)
     \<and> [] \<notin> set (or_chunks (rr_ring r)) \<and> length (or_chunks (rr_ring r)) \<le> OUTPUT_QUEUE_DEPTH
     \<and> (rr_eof r \<longrightarrow> \<not> or_connected (rr_ring r) \<and> ring_held (rr_ring r) = [])"

lemma fill_pending_spec:
  "fill_pending limit cs p = (cs', p') \<Longrightarrow>
     p' @ concat cs' = p @ concat cs \<and> set cs' \<subseteq> set cs \<and> length cs' \<le> length cs \<and> (cs' \<noteq> [] \<longrightarrow> limit \<le> length p')"
proof (induction cs arbitrary: p)
  case (Cons c cs)
  show ?case
  proof (cases "length p < limit")
    case True
    with Cons.IH [of "p @ c"] Cons.prems show ?thesis by auto
  qed (use Cons.prems in auto)
qed simp

lemma ring_take_spec:
  assumes "ring_take limit ring = (out, ring')"
  shows "(case out of None \<Rightarrow> [] | Some bytes \<Rightarrow> bytes) @ ring_held ring' = ring_held ring"
    "set (or_chunks ring') \<subseteq> set (or_chunks ring)" "length (or_chunks ring') \<le> length (or_chunks ring)"
    "or_connected ring' = or_connected ring"
proof -
  obtain cs q where fill: "fill_pending limit (or_chunks ring) (or_pending ring) = (cs, q)" by fastforce
  note spec = fill_pending_spec [OF fill]
  have out: "(case out of None \<Rightarrow> [] | Some bytes \<Rightarrow> bytes) @ or_pending ring' = q" "or_chunks ring' = cs"
    "or_connected ring' = or_connected ring"
    using assms fill by (auto simp: ring_take_def Let_def split: if_splits)
  have "(case out of None \<Rightarrow> [] | Some bytes \<Rightarrow> bytes) @ ring_held ring' = q @ concat cs"
    unfolding ring_held_def out(2) using out(1) by (metis append_assoc)
  then show "(case out of None \<Rightarrow> [] | Some bytes \<Rightarrow> bytes) @ ring_held ring' = ring_held ring"
    using spec by (simp add: ring_held_def)
  show "set (or_chunks ring') \<subseteq> set (or_chunks ring)" "length (or_chunks ring') \<le> length (or_chunks ring)"
    "or_connected ring' = or_connected ring"
    using spec out(2,3) by auto
qed

lemma ring_exec_ok: "ring_run_ok r \<Longrightarrow> ring_run_ok (ring_exec p r)"
proof (cases p)
  case (Pump result)
  assume "ring_run_ok r"
  with Pump show ?thesis
    by (cases result) (auto simp: pump_pty_output_def ring_run_ok_def ring_held_def)
next
  case (TakeUpTo limit)
  assume ok: "ring_run_ok r"
  obtain out ring where take: "ring_take limit (rr_ring r) = (out, ring)" by fastforce
  note spec = ring_take_spec [OF take]
  have "ring_exec p r = r\<lparr>rr_ring := ring, rr_handed := rr_handed r @ (case out of None \<Rightarrow> [] | Some bytes \<Rightarrow> bytes)\<rparr>"
    using TakeUpTo take by (auto split: option.splits)
  moreover have "ring_held (rr_ring r) = [] \<Longrightarrow> ring_held ring = []" using spec(1) by auto
  ultimately show ?thesis using ok spec unfolding ring_run_ok_def by auto
next
  case AskEof
  assume "ring_run_ok r"
  with AskEof show ?thesis
    by (cases "or_chunks (rr_ring r)") (auto simp: is_eof_def ring_run_ok_def ring_held_def)
next
  case AskDrained
  assume "ring_run_ok r"
  with AskDrained show ?thesis
    by (cases "or_chunks (rr_ring r)") (auto simp: is_drained_def ring_run_ok_def ring_held_def)
qed

interpretation output_lane: invariant_machine ring_run_ok "\<lambda>_. True" ring_exec
  by unfold_locales (rule ring_exec_ok)

lemma ring_run_new_ok: "ring_run_ok ring_run_new"
  by (simp add: ring_run_ok_def ring_run_new_def output_ring_new_def ring_held_def)

text \<open>
  Terminal output is neither lost, repeated nor reordered on its way to the loop: under every
  interleaving of the reader thread's turns with the loop's takes, end-of-file questions and backlog
  questions, what was read from the PTY is what was handed over followed by what the ring still holds;
  the queue never exceeds its depth; and end of file is only ever reported once the reader has
  stopped and every byte it read has been handed over.
\<close>

theorem output_in_order:
  "let r = fold ring_exec ps ring_run_new in
     rr_read r = rr_handed r @ ring_held (rr_ring r) \<and> length (or_chunks (rr_ring r)) \<le> OUTPUT_QUEUE_DEPTH
     \<and> (rr_eof r \<longrightarrow> \<not> or_connected (rr_ring r) \<and> rr_handed r = rr_read r)"
  using output_lane.run_invar [OF ring_run_new_ok, of ps] by (auto simp: Let_def ring_run_ok_def list_all_iff)

theorem output_in_order_witness:
  "let r = fold ring_exec [Pump (ReadOk [1, 2, 3]), TakeUpTo 2, Pump (ReadOk []), AskEof, TakeUpTo 9, AskEof] ring_run_new in
     rr_handed r = [1, 2, 3] \<and> rr_eof r"
  using output_in_order [of "[Pump (ReadOk [1, 2, 3]), TakeUpTo 2, Pump (ReadOk []), AskEof, TakeUpTo 9, AskEof]"]
  by (simp add: ring_run_new_def output_ring_new_def pump_pty_output_def ring_take_def is_eof_def OUTPUT_QUEUE_DEPTH_def)

section \<open>Input is written in order and reported truthfully\<close>

datatype route_op = RouteAttach | RouteDetach

fun route_exec :: "route_op \<Rightarrow> input_route \<Rightarrow> input_route" where
  "route_exec RouteAttach r = snd (route_attach r)"
| "route_exec RouteDetach r = route_detach r"

datatype lane_op =
    Enqueue "byte list" input_reply
  | TakeBatch
  | Settle "route_op list"
  | ChildExit
  | LaneClose
  | RouteChange route_op

text \<open>
  One channel's input in operation: the lane, the route, the descriptor, the batches accepted so far and,
  for each one settled, how many of its bytes reached the PTY and the result frame handed out for it.
\<close>

record lane_run =
  lr_lane :: input_lane
  lr_route :: input_route
  lr_writer :: pty_writer
  lr_accepted :: "batch list"
  lr_settled :: "(batch \<times> nat \<times> (nat \<times> mux_frame) option) list"

definition lane_run_new :: "nat \<Rightarrow> pty_writer \<Rightarrow> lane_run" where
  "lane_run_new channel w = \<lparr>lr_lane = lane_start channel, lr_route = input_route_new, lr_writer = w\<lparr>pw_received := []\<rparr>,
     lr_accepted = [], lr_settled = []\<rparr>"

fun lane_exec :: "lane_op \<Rightarrow> lane_run \<Rightarrow> lane_run" where
  "lane_exec (Enqueue bytes reply) r =
     (case lane_enqueue bytes reply (lr_lane r) of (queued, lane) \<Rightarrow>
        if queued then r\<lparr>lr_lane := lane, lr_accepted := lr_accepted r @ [\<lparr>b_bytes = bytes, b_reply = reply\<rparr>]\<rparr> else r)"
| "lane_exec TakeBatch r =
     (if ln_current (lr_lane r) \<noteq> None then r
      else case next_batch (lr_lane r) of None \<Rightarrow> r | Some lane \<Rightarrow> r\<lparr>lr_lane := lane\<rparr>)"
| "lane_exec (Settle changes) r =
     (case ln_current (lr_lane r) of
        None \<Rightarrow> r
      | Some b \<Rightarrow>
          (case drain_lane (fold route_exec changes) (lr_lane r) (lr_route r) (lr_writer r) of
             None \<Rightarrow> r
           | Some (lane, route, w) \<Rightarrow>
               r\<lparr>lr_lane := lane, lr_route := route, lr_writer := w,
                 lr_settled := lr_settled r @ [(b, length (pw_received w) - length (pw_received (lr_writer r)),
                   (if ir_delivered route = ir_delivered (lr_route r) then None else Some (last (ir_delivered route))))]\<rparr>))"
| "lane_exec ChildExit r = r\<lparr>lr_lane := mark_exited (lr_lane r)\<rparr>"
| "lane_exec LaneClose r = r\<lparr>lr_lane := lane_drop (lr_lane r)\<rparr>"
| "lane_exec (RouteChange change) r = r\<lparr>lr_route := route_exec change (lr_route r)\<rparr>"

text \<open>What a result frame says of the number of a batch's bytes that reached the PTY.\<close>

definition truthful :: "nat \<Rightarrow> batch \<Rightarrow> nat \<Rightarrow> (nat \<times> mux_frame) option \<Rightarrow> bool" where
  "truthful channel b n delivered \<longleftrightarrow> n \<le> length (b_bytes b) \<and>
     (case delivered of None \<Rightarrow> True | Some (g, f) \<Rightarrow>
        (\<exists>s res. b_reply b = Acknowledged s (Some g)
           \<and> f = \<lparr>mf_frame_type = result_tag res, mf_channel_id = channel, mf_payload = pty_in_result_encode res\<rparr>
           \<and> (res = PtyAck s n \<and> n = length (b_bytes b) \<or> (\<exists>reason. res = PtyReject s reason) \<and> n = 0
              \<or> (\<exists>reason. res = PtyAmbiguous s n reason) \<and> 0 < n)))"

lemma write_loop_spec:
  assumes "write_loop bytes written script = Some (finished, n, rest)" "written \<le> length bytes"
  shows "n \<le> length bytes \<and> (finished \<longleftrightarrow> n = length bytes)"
  using assms
proof (induction bytes written script rule: write_loop.induct)
  case (1 bytes written script)
  show ?case
  proof (cases "length bytes \<le> written")
    case True
    with "1.prems" show ?thesis by (subst (asm) write_loop.simps) auto
  next
    case False
    show ?thesis
    proof (cases script)
      case Nil
      with False "1.prems" show ?thesis by (subst (asm) write_loop.simps) simp
    next
      case (Cons r rs)
      with False "1.prems" "1.IH"(1) [OF False Cons] "1.IH"(2) [OF False Cons] show ?thesis
        by (cases r) (subst (asm) write_loop.simps, force simp: Let_def split: if_splits)+
    qed
  qed
qed

lemma write_batch_spec:
  assumes "write_batch w bytes = Some (outcome, w')" "length bytes < 2 ^ 32"
  shows "\<exists>n \<le> length bytes. pw_received w' = pw_received w @ take n bytes
    \<and> (outcome = Complete n \<and> n = length bytes \<or> outcome = Rejected NoReader \<and> n = 0 \<or> outcome = Partial n PartialWrite \<and> 0 < n)"
proof (cases "bytes = []")
  case True
  with assms show ?thesis by (simp add: write_batch_def)
next
  case False
  then obtain finished n rest where loop: "write_loop bytes 0 (pw_writes w) = Some (finished, n, rest)"
    using assms(1) by (auto simp: write_batch_def split: option.splits)
  note spec = write_loop_spec [OF loop]
  then have "n mod 2 ^ 32 = n" using assms(2) by simp
  with spec loop assms(1) False show ?thesis
    by (intro exI [of _ n]) (auto simp: write_batch_def stalled_def Let_def split: if_splits list.splits)
qed

lemma route_ops_keep_delivered [simp]: "ir_delivered (fold route_exec changes r) = ir_delivered r"
proof (induction changes arbitrary: r)
  case (Cons c cs)
  then show ?case by (cases c) (simp_all add: route_attach_def route_detach_def Let_def)
qed simp

lemma result_frame_small: "length (pty_in_result_encode res) = 13"
  by (cases res) (simp_all add: write_sequence_def)

lemma result_framed:
  "mux_frame_new tag channel (pty_in_result_encode res)
     = Ok \<lparr>mf_frame_type = tag, mf_channel_id = channel, mf_payload = pty_in_result_encode res\<rparr>"
  by (simp add: mux_frame_new_def result_frame_small keeper_limits)

lemma settle_batch_spec:
  assumes "settle_batch (fold route_exec changes) lane route w b = Some (route', w')" "length (b_bytes b) < 2 ^ 32"
  shows "\<exists>n delivered. pw_received w' = pw_received w @ take n (b_bytes b) \<and> truthful (ln_channel_id lane) b n delivered
    \<and> ir_delivered route' = ir_delivered route @ (case delivered of None \<Rightarrow> [] | Some d \<Rightarrow> [d])"
proof (cases "batch_departed route b")
  case True
  with assms(1) show ?thesis
    by (intro exI [of _ 0] exI [of _ None]) (auto simp: settle_batch_def truthful_def)
next
  case False
  let ?attempt = "if ln_closed lane \<or> ln_exited lane then Some (Rejected ChildExited, w) else write_batch w (b_bytes b)"
  obtain outcome where out: "?attempt = Some (outcome, w')"
    using assms(1) False
    by (auto simp: settle_batch_def split: if_splits option.splits input_reply.splits prod.splits sum.splits)
  obtain n where n: "n \<le> length (b_bytes b)" "pw_received w' = pw_received w @ take n (b_bytes b)"
    and kind: "outcome = Complete n \<and> n = length (b_bytes b) \<or> (\<exists>r. outcome = Rejected r) \<and> n = 0
      \<or> (\<exists>r. outcome = Partial n r) \<and> 0 < n"
  proof (cases "ln_closed lane \<or> ln_exited lane")
    case True
    with out that [of 0] show ?thesis by auto
  next
    case False
    with out write_batch_spec [of w "b_bytes b" outcome w'] assms(2) that show ?thesis by auto
  qed
  show ?thesis
  proof (cases "\<exists>s g. b_reply b = Acknowledged s (Some g) \<and> ir_attached (fold route_exec changes route) = Some g")
    case True
    then obtain s g where reply: "b_reply b = Acknowledged s (Some g)" "ir_attached (fold route_exec changes route) = Some g" by blast
    obtain tag res where ack: "acknowledged_result s outcome = (tag, res)" by fastforce
    have tag: "tag = result_tag res" using ack by (cases outcome) auto
    let ?f = "\<lparr>mf_frame_type = tag, mf_channel_id = ln_channel_id lane, mf_payload = pty_in_result_encode res\<rparr>"
    have "ir_delivered route' = ir_delivered route @ [(g, ?f)]"
      using assms(1) False out reply ack by (auto simp: settle_batch_def result_framed route_deliver_def)
    moreover have "truthful (ln_channel_id lane) b n (Some (g, ?f))"
      using n(1) kind reply(1) ack tag by (auto simp: truthful_def)
    ultimately show ?thesis using n(2) by (intro exI [of _ n] exI [of _ "Some (g, ?f)"]) simp
  next
    case other: False
    have "ir_delivered route' = ir_delivered route"
    proof (cases "b_reply b")
      case Unacknowledged
      with assms(1) False out show ?thesis by (auto simp: settle_batch_def)
    next
      case (Acknowledged s generation)
      obtain tag res where ack: "acknowledged_result s outcome = (tag, res)" by fastforce
      from assms(1) False out Acknowledged ack other show ?thesis
        by (cases generation) (auto simp: settle_batch_def result_framed route_deliver_def)
    qed
    with n show ?thesis by (intro exI [of _ n] exI [of _ None]) (simp add: truthful_def)
  qed
qed

definition lane_run_ok :: "nat \<Rightarrow> lane_run \<Rightarrow> bool" where
  "lane_run_ok channel r \<longleftrightarrow>
     (let lane = lr_lane r; flight = (case ln_current lane of None \<Rightarrow> [] | Some b \<Rightarrow> [b])
      in lr_accepted r = map fst (lr_settled r) @ flight @ ln_queue lane
         \<and> pw_received (lr_writer r) = concat (map (\<lambda>(b, n, _). take n (b_bytes b)) (lr_settled r))
         \<and> ir_delivered (lr_route r) = concat (map (\<lambda>(_, _, d). case d of None \<Rightarrow> [] | Some x \<Rightarrow> [x]) (lr_settled r))
         \<and> (\<forall>(b, n, d) \<in> set (lr_settled r). truthful channel b n d)
         \<and> ln_held_bytes lane = sum_list (map (length \<circ> b_bytes) (flight @ ln_queue lane))
         \<and> (ln_writing lane \<longleftrightarrow> ln_current lane \<noteq> None) \<and> ln_channel_id lane = channel
         \<and> length (flight @ ln_queue lane) \<le> KEEPER_INPUT_QUEUE_MAX_COMMANDS
         \<and> ln_held_bytes lane \<le> KEEPER_INPUT_QUEUE_MAX_BYTES)"

lemma settle_keeps_lane:
  assumes "lane_run_ok channel r"
  shows "lane_run_ok channel (lane_exec (Settle changes) r)"
proof (cases "ln_current (lr_lane r)")
  case None
  with assms show ?thesis by simp
next
  case (Some b)
  show ?thesis
  proof (cases "settle_batch (fold route_exec changes) (lr_lane r) (lr_route r) (lr_writer r) b")
    case None
    with assms Some show ?thesis by (simp add: drain_lane_def)
  next
    case (Some res)
    obtain route w where res: "res = (route, w)" by fastforce
    have "length (b_bytes b) < 2 ^ 32"
      using assms \<open>ln_current (lr_lane r) = Some b\<close>
      by (auto simp: lane_run_ok_def Let_def KEEPER_INPUT_QUEUE_MAX_BYTES_def)
    then obtain n d where d: "pw_received w = pw_received (lr_writer r) @ take n (b_bytes b)"
      "truthful (ln_channel_id (lr_lane r)) b n d" "ir_delivered route = ir_delivered (lr_route r) @ (case d of None \<Rightarrow> [] | Some x \<Rightarrow> [x])"
      using settle_batch_spec Some res by blast
    have "length (pw_received w) - length (pw_received (lr_writer r)) = n" using d(1,2) by (simp add: truthful_def)
    moreover have "(if ir_delivered route = ir_delivered (lr_route r) then None else Some (last (ir_delivered route))) = d"
      using d(3) by (cases d) auto
    ultimately have "lane_exec (Settle changes) r = r\<lparr>lr_lane := (lr_lane r)\<lparr>ln_held_bytes := ln_held_bytes (lr_lane r) - length (b_bytes b),
        ln_writing := False, ln_current := None\<rparr>, lr_route := route, lr_writer := w, lr_settled := lr_settled r @ [(b, n, d)]\<rparr>"
      using \<open>ln_current (lr_lane r) = Some b\<close> Some res by (simp add: drain_lane_def)
    with assms d \<open>ln_current (lr_lane r) = Some b\<close> show ?thesis by (auto simp: lane_run_ok_def Let_def)
  qed
qed

lemma lane_exec_ok: "lane_run_ok channel r \<Longrightarrow> lane_run_ok channel (lane_exec p r)"
proof (cases p)
  case (Enqueue bytes reply)
  assume "lane_run_ok channel r"
  with Enqueue show ?thesis
    by (cases "ln_current (lr_lane r)") (auto simp: lane_run_ok_def lane_enqueue_def Let_def)
next
  case TakeBatch
  assume "lane_run_ok channel r"
  with TakeBatch show ?thesis
    by (cases "ln_queue (lr_lane r)") (auto simp: lane_run_ok_def next_batch_def Let_def)
next
  case (Settle changes)
  assume "lane_run_ok channel r"
  with Settle show ?thesis using settle_keeps_lane by simp
next
  case (RouteChange c)
  assume "lane_run_ok channel r"
  with RouteChange route_ops_keep_delivered [of "[c]"] show ?thesis by (auto simp: lane_run_ok_def Let_def)
qed (auto simp: lane_run_ok_def Let_def mark_exited_def lane_drop_def)

interpretation input_lane_machine: invariant_machine "lane_run_ok channel" "\<lambda>_. True" lane_exec for channel
  by unfold_locales (rule lane_exec_ok)

lemma lane_run_new_ok: "lane_run_ok channel (lane_run_new channel w)"
  by (simp add: lane_run_ok_def lane_run_new_def lane_start_def input_route_new_def)

text \<open>
  C7: The input lane is a bounded first-in-first-out queue whose answers are true. Under every interleaving of
  enqueues, the writer thread's turns, a child exit, closing the lane and connections coming and going:
  the batches accepted are those settled, then the one in hand, then those queued, in order; what the
  PTY received is the accepted part of each settled batch in that order; each settled batch yielded at
  most one result frame, to the connection generation that asked, which says acknowledged exactly when
  every byte arrived, rejected only when none did and ambiguous with the number that did; and neither
  the command nor the byte budget is exceeded.
\<close>

theorem input_lane_fifo_truthful:
  "let r = fold lane_exec ps (lane_run_new channel w); lane = lr_lane r;
       waiting = (case ln_current lane of None \<Rightarrow> [] | Some b \<Rightarrow> [b]) @ ln_queue lane
   in lr_accepted r = map fst (lr_settled r) @ waiting
      \<and> pw_received (lr_writer r) = concat (map (\<lambda>(b, n, _). take n (b_bytes b)) (lr_settled r))
      \<and> ir_delivered (lr_route r) = concat (map (\<lambda>(_, _, d). case d of None \<Rightarrow> [] | Some x \<Rightarrow> [x]) (lr_settled r))
      \<and> list_all (\<lambda>(b, n, d). truthful channel b n d) (lr_settled r)
      \<and> length waiting \<le> KEEPER_INPUT_QUEUE_MAX_COMMANDS
      \<and> sum_list (map (length \<circ> b_bytes) waiting) \<le> KEEPER_INPUT_QUEUE_MAX_BYTES"
  using input_lane_machine.run_invar [OF lane_run_new_ok [of channel w], of ps]
  by (auto simp: Let_def lane_run_ok_def list_all_iff)

section \<open>A batch in hand is answered\<close>

definition answers :: "write_result list \<Rightarrow> nat" where
  "answers script = length (filter (\<lambda>r. r \<noteq> WriteInterrupted) script)"

lemma write_loop_returns:
  assumes "length bytes - written \<le> answers script"
  shows "\<exists>res. write_loop bytes written script = Some res"
  using assms
proof (induction bytes written script rule: write_loop.induct)
  case (1 bytes written script)
  show ?case
  proof (cases "length bytes \<le> written")
    case True
    then show ?thesis by (subst write_loop.simps) auto
  next
    case False
    show ?thesis
    proof (cases script)
      case Nil
      with False "1.prems" show ?thesis by (simp add: answers_def)
    next
      case (Cons r rs)
      note ih = "1.IH"(1) [OF False Cons] "1.IH"(2) [OF False Cons]
      show ?thesis
      proof (cases r)
        case (Accept n)
        show ?thesis
        proof (cases "min n (length bytes - written) = 0")
          case True
          with False Cons Accept show ?thesis by (subst write_loop.simps) auto
        next
          case pos: False
          have "length bytes - (written + min n (length bytes - written)) \<le> answers rs"
            using "1.prems" Cons Accept pos by (auto simp: answers_def)
          with ih(1) [OF Accept refl pos] False Cons Accept pos show ?thesis
            by (subst write_loop.simps) (auto simp: Let_def)
        qed
      next
        case WriteInterrupted
        have "length bytes - written \<le> answers rs" using "1.prems" Cons WriteInterrupted by (simp add: answers_def)
        with ih(2) [OF WriteInterrupted] False Cons WriteInterrupted show ?thesis by (subst write_loop.simps) simp
      next
        case WriteErr
        with False Cons show ?thesis by (subst write_loop.simps) auto
      qed
    qed
  qed
qed

lemma write_batch_returns:
  assumes "length bytes \<le> answers (pw_writes w)" "pw_flushes w \<noteq> []"
  shows "\<exists>res. write_batch w bytes = Some res"
proof -
  obtain finished n rest where loop: "write_loop bytes 0 (pw_writes w) = Some (finished, n, rest)"
    using write_loop_returns [of bytes 0 "pw_writes w"] assms(1) by auto
  with assms(2) show ?thesis by (cases "pw_flushes w") (simp_all add: write_batch_def Let_def)
qed

text \<open>
  C37: Every acknowledged batch the writer thread holds is answered while its connection stays: a descriptor
  that answers at most once per byte, however often it is interrupted in between, and then flushes,
  makes the write return; exactly one result frame for that input sequence is then handed to the
  connection that asked, and the batch's budget is released.
\<close>

theorem acknowledged_batch_answered:
  assumes "ln_current lane = Some b" "b_reply b = Acknowledged s (Some g)" "route_current route = Some g"
    and "length (b_bytes b) \<le> answers (pw_writes w)" "pw_flushes w \<noteq> []" "length (b_bytes b) < 2 ^ 32"
  shows "\<exists>lane' route' w' res. drain_lane (\<lambda>r. r) lane route w = Some (lane', route', w')
    \<and> ir_delivered route' = ir_delivered route @ [(g, \<lparr>mf_frame_type = result_tag res, mf_channel_id = ln_channel_id lane,
        mf_payload = pty_in_result_encode res\<rparr>)]
    \<and> (case res of PtyAck s' _ \<Rightarrow> s' | PtyReject s' _ \<Rightarrow> s' | PtyAmbiguous s' _ _ \<Rightarrow> s') = s
    \<and> ln_held_bytes lane' = ln_held_bytes lane - length (b_bytes b) \<and> ln_current lane' = None"
proof -
  have here: "\<not> batch_departed route b" using assms(2,3) by (simp add: batch_departed_def)
  obtain outcome w' where out: "(if ln_closed lane \<or> ln_exited lane then Some (Rejected ChildExited, w)
      else write_batch w (b_bytes b)) = Some (outcome, w')"
    using write_batch_returns [OF assms(4,5)] by (cases "ln_closed lane \<or> ln_exited lane") auto
  obtain tag res where ack: "acknowledged_result s outcome = (tag, res)" by fastforce
  have tag: "tag = result_tag res" "(case res of PtyAck s' _ \<Rightarrow> s' | PtyReject s' _ \<Rightarrow> s' | PtyAmbiguous s' _ _ \<Rightarrow> s') = s"
    using ack by (cases outcome; auto)+
  have "settle_batch (\<lambda>r. r) lane route w b = Some (route\<lparr>ir_delivered := ir_delivered route @ [(g,
      \<lparr>mf_frame_type = tag, mf_channel_id = ln_channel_id lane, mf_payload = pty_in_result_encode res\<rparr>)]\<rparr>, w')"
    unfolding settle_batch_def out using here assms(2,3) ack
    by (simp add: result_framed route_deliver_def route_current_def)
  with assms(1) tag show ?thesis by (auto simp: drain_lane_def)
qed

theorem acknowledged_batch_answered_witness:
  "\<exists>lane' route' w'. drain_lane (\<lambda>r. r)
       ((lane_start 7)\<lparr>ln_held_bytes := 2, ln_writing := True, ln_current := Some \<lparr>b_bytes = [104, 105], b_reply = Acknowledged 9 (Some 1)\<rparr>\<rparr>)
       (snd (route_attach input_route_new))
       \<lparr>pw_writes = [WriteInterrupted, Accept 1, Accept 1], pw_flushes = [True], pw_received = []\<rparr> = Some (lane', route', w')
     \<and> ln_held_bytes lane' = 0"
  using acknowledged_batch_answered [of "(lane_start 7)\<lparr>ln_held_bytes := 2, ln_writing := True,
      ln_current := Some \<lparr>b_bytes = [104, 105], b_reply = Acknowledged 9 (Some 1)\<rparr>\<rparr>"
      "\<lparr>b_bytes = [104, 105], b_reply = Acknowledged 9 (Some 1)\<rparr>" 9 1 "snd (route_attach input_route_new)"
      "\<lparr>pw_writes = [WriteInterrupted, Accept 1, Accept 1], pw_flushes = [True], pw_received = []\<rparr>"]
  by (auto simp: answers_def route_current_def route_attach_def input_route_new_def)

end
