(* ===== verification/Keeper_History.thy ===== *)
theory Keeper_History
  imports Keeper_Codec
begin

text \<open>
  The payload a channel's history travels in (\<^verbatim>\<open>roost-keeper/src/history.rs\<close>): the records, their bounds,
  the encoder and the decoder, and the proof that the two are inverse of each other.
\<close>

section \<open>The history payload\<close>

definition HISTORY_FORMAT_VERSION :: byte where "HISTORY_FORMAT_VERSION = 1"
definition HISTORY_HEADER_BYTES :: nat where "HISTORY_HEADER_BYTES = 21"
definition HISTORY_OUTPUT_HEADER_BYTES :: nat where "HISTORY_OUTPUT_HEADER_BYTES = 5"
definition HISTORY_RESIZE_BYTES :: nat where "HISTORY_RESIZE_BYTES = 17"
definition HISTORY_OUTPUT_TAG :: byte where "HISTORY_OUTPUT_TAG = 1"
definition HISTORY_RESIZE_TAG :: byte where "HISTORY_RESIZE_TAG = 2"
definition MAX_HISTORY_RECORDS :: nat where "MAX_HISTORY_RECORDS = KEEPER_MAX_HISTORY_RESIZE_RECORDS * 2 + 1"
definition MAX_HISTORY_PAYLOAD_BYTES :: nat where "MAX_HISTORY_PAYLOAD_BYTES = 2 * 1024 * 1024"
definition MAX_SAFE_INTEGER :: nat where "MAX_SAFE_INTEGER = 2 ^ 53 - 1"

lemmas history_limits = HISTORY_FORMAT_VERSION_def HISTORY_HEADER_BYTES_def HISTORY_OUTPUT_HEADER_BYTES_def
  HISTORY_RESIZE_BYTES_def HISTORY_OUTPUT_TAG_def HISTORY_RESIZE_TAG_def MAX_HISTORY_RECORDS_def
  MAX_HISTORY_PAYLOAD_BYTES_def MAX_SAFE_INTEGER_def

datatype history_record =
    OutputRecord "byte list"
  | ResizeRecord nat nat nat

record history_records =
  hrs_head_seq :: nat
  hrs_base_cols :: nat
  hrs_base_rows :: nat
  hrs_records :: "history_record list"

definition unknown_channel :: history_records where
  "unknown_channel = \<lparr>hrs_head_seq = 0, hrs_base_cols = 80, hrs_base_rows = 24, hrs_records = []\<rparr>"

fun record_output_bytes :: "history_record \<Rightarrow> byte list" where
  "record_output_bytes (OutputRecord bytes) = bytes"
| "record_output_bytes (ResizeRecord _ _ _) = []"

definition window :: "history_records \<Rightarrow> byte list" where
  "window h = concat (map record_output_bytes (hrs_records h))"

abbreviation invalid :: codec_error where "invalid \<equiv> BadJson ''history records''"
abbreviation truncated :: "nat \<Rightarrow> codec_error" where "truncated offset \<equiv> TruncatedPayload ''history records'' offset"

text \<open>One turn of the encoder's check loop, on the payload size and the raw output so far.\<close>

fun check_record :: "nat \<times> nat \<Rightarrow> history_record \<Rightarrow> (nat \<times> nat) codec_result" where
  "check_record (payload_bytes, raw_bytes) (OutputRecord bytes) =
     (if bytes = [] then Err invalid
      else let payload' = payload_bytes + (HISTORY_OUTPUT_HEADER_BYTES + length bytes)
           in if MAX_HISTORY_PAYLOAD_BYTES < payload' then Err invalid else Ok (payload', raw_bytes + length bytes))"
| "check_record (payload_bytes, raw_bytes) (ResizeRecord s cols rows) =
     (if MAX_SAFE_INTEGER < s then Err invalid
      else res_bind (check_dimension cols) (\<lambda>_. res_bind (check_dimension rows) (\<lambda>_.
        let payload' = payload_bytes + HISTORY_RESIZE_BYTES
        in if MAX_HISTORY_PAYLOAD_BYTES < payload' then Err invalid else Ok (payload', raw_bytes))))"

fun record_encode :: "history_record \<Rightarrow> byte list" where
  "record_encode (OutputRecord bytes) = [HISTORY_OUTPUT_TAG] @ be_bytes 4 (length bytes) @ bytes"
| "record_encode (ResizeRecord s cols rows) =
     [HISTORY_RESIZE_TAG] @ be_bytes 8 s @ be_bytes 4 cols @ be_bytes 4 rows"

definition history_encode :: "history_records \<Rightarrow> byte list codec_result" where
  "history_encode h =
     (if MAX_SAFE_INTEGER < hrs_head_seq h then Err invalid
      else
        res_bind (check_dimension (hrs_base_cols h)) (\<lambda>_.
        res_bind (check_dimension (hrs_base_rows h)) (\<lambda>_.
        if MAX_HISTORY_RECORDS < length (hrs_records h) then Err invalid
        else
          res_bind (fold_res check_record (HISTORY_HEADER_BYTES, 0) (hrs_records h)) (\<lambda>(_, raw_bytes).
          if hrs_head_seq h < raw_bytes then Err invalid
          else Ok ([HISTORY_FORMAT_VERSION] @ be_bytes 8 (hrs_head_seq h) @ be_bytes 4 (hrs_base_cols h)
                   @ be_bytes 4 (hrs_base_rows h) @ be_bytes 4 (length (hrs_records h))
                   @ concat (map record_encode (hrs_records h)))))))"

definition dimension :: "byte list \<Rightarrow> nat \<Rightarrow> nat codec_result" where
  "dimension payload offset =
     (case read_u32 payload offset of None \<Rightarrow> Err (truncated offset) | Some value \<Rightarrow> check_dimension value)"

definition decode_record ::
  "byte list \<Rightarrow> nat \<Rightarrow> nat \<times> nat \<times> history_record list \<Rightarrow> (nat \<times> nat \<times> history_record list) codec_result" where
  "decode_record payload head_seq = (\<lambda>(offset, raw_bytes, records).
     if length payload \<le> offset then Err (truncated offset)
     else if payload ! offset = HISTORY_OUTPUT_TAG then
       (case read_u32 payload (offset + 1) of
          None \<Rightarrow> Err (truncated offset)
        | Some len \<Rightarrow>
            let start = offset + HISTORY_OUTPUT_HEADER_BYTES in
            (case get_range payload start (start + len) of
               None \<Rightarrow> Err invalid
             | Some bytes \<Rightarrow>
                 if bytes = [] then Err invalid
                 else if head_seq < raw_bytes + len then Err invalid
                 else Ok (start + len, raw_bytes + len, records @ [OutputRecord bytes])))
     else if payload ! offset = HISTORY_RESIZE_TAG then
       (if length payload < offset + HISTORY_RESIZE_BYTES then Err (truncated offset)
        else
          (case read_sequence payload (offset + 1) of
             None \<Rightarrow> Err (truncated offset)
           | Some s \<Rightarrow>
               if MAX_SAFE_INTEGER < s then Err invalid
               else
                 res_bind (dimension payload (offset + 9)) (\<lambda>cols.
                 res_bind (dimension payload (offset + 13)) (\<lambda>rows.
                   Ok (offset + HISTORY_RESIZE_BYTES, raw_bytes, records @ [ResizeRecord s cols rows])))))
     else Err invalid)"

definition history_decode :: "byte list \<Rightarrow> history_records codec_result" where
  "history_decode payload =
     (if length payload < HISTORY_HEADER_BYTES then Err (truncated (length payload))
      else if MAX_HISTORY_PAYLOAD_BYTES < length payload then Err invalid
      else if payload ! 0 \<noteq> HISTORY_FORMAT_VERSION then Err invalid
      else
        (case read_sequence payload 1 of
           None \<Rightarrow> Err (truncated 1)
         | Some head_seq \<Rightarrow>
             if MAX_SAFE_INTEGER < head_seq then Err invalid
             else
               res_bind (dimension payload 9) (\<lambda>base_cols.
               res_bind (dimension payload 13) (\<lambda>base_rows.
               (case read_u32 payload 17 of
                  None \<Rightarrow> Err (truncated 17)
                | Some count \<Rightarrow>
                    if MAX_HISTORY_RECORDS < count then Err invalid
                    else
                      res_bind (fold_res (\<lambda>st _. decode_record payload head_seq st)
                        (HISTORY_HEADER_BYTES, 0, []) [0..<count]) (\<lambda>(offset, _, records).
                      if offset \<noteq> length payload then Err invalid
                      else Ok \<lparr>hrs_head_seq = head_seq, hrs_base_cols = base_cols,
                               hrs_base_rows = base_rows, hrs_records = records\<rparr>))))))"

section \<open>The codec is canonical\<close>

fun record_ok :: "history_record \<Rightarrow> bool" where
  "record_ok (OutputRecord bytes) \<longleftrightarrow> bytes \<noteq> []"
| "record_ok (ResizeRecord s cols rows) \<longleftrightarrow> s \<le> MAX_SAFE_INTEGER
     \<and> 0 < cols \<and> cols \<le> KEEPER_MAX_TERMINAL_DIMENSION \<and> 0 < rows \<and> rows \<le> KEEPER_MAX_TERMINAL_DIMENSION"

abbreviation records_size :: "history_record list \<Rightarrow> nat" where
  "records_size rs \<equiv> length (concat (map record_encode rs))"

abbreviation records_output :: "history_record list \<Rightarrow> byte list" where
  "records_output rs \<equiv> concat (map record_output_bytes rs)"

lemma check_record_iff:
  assumes "p \<le> MAX_HISTORY_PAYLOAD_BYTES"
  shows "check_record (p, raw) r = Ok st \<longleftrightarrow> record_ok r \<and> p + length (record_encode r) \<le> MAX_HISTORY_PAYLOAD_BYTES
    \<and> st = (p + length (record_encode r), raw + length (record_output_bytes r))"
  using assms
  by (cases r) (auto simp: res_simps Let_def HISTORY_OUTPUT_HEADER_BYTES_def HISTORY_RESIZE_BYTES_def not_less algebra_simps)

lemma check_records_iff:
  assumes "p \<le> MAX_HISTORY_PAYLOAD_BYTES"
  shows "fold_res check_record (p, raw) rs = Ok st \<longleftrightarrow> list_all record_ok rs
    \<and> p + records_size rs \<le> MAX_HISTORY_PAYLOAD_BYTES
    \<and> st = (p + records_size rs, raw + length (records_output rs))"
  using assms
proof (induction rs arbitrary: p raw)
  case (Cons r rs)
  show ?case
  proof (cases "record_ok r \<and> p + length (record_encode r) \<le> MAX_HISTORY_PAYLOAD_BYTES")
    case True
    then have "check_record (p, raw) r = Ok (p + length (record_encode r), raw + length (record_output_bytes r))"
      using Cons.prems by (simp add: check_record_iff)
    with Cons.IH True show ?thesis by (simp add: algebra_simps)
  next
    case False
    then show ?thesis using Cons.prems by (auto simp: res_simps check_record_iff)
  qed
qed auto

lemma history_encode_iff:
  "history_encode h = Ok p \<longleftrightarrow>
     hrs_head_seq h \<le> MAX_SAFE_INTEGER
     \<and> 0 < hrs_base_cols h \<and> hrs_base_cols h \<le> KEEPER_MAX_TERMINAL_DIMENSION
     \<and> 0 < hrs_base_rows h \<and> hrs_base_rows h \<le> KEEPER_MAX_TERMINAL_DIMENSION
     \<and> length (hrs_records h) \<le> MAX_HISTORY_RECORDS \<and> list_all record_ok (hrs_records h)
     \<and> HISTORY_HEADER_BYTES + records_size (hrs_records h) \<le> MAX_HISTORY_PAYLOAD_BYTES
     \<and> length (window h) \<le> hrs_head_seq h
     \<and> p = [HISTORY_FORMAT_VERSION] @ be_bytes 8 (hrs_head_seq h) @ be_bytes 4 (hrs_base_cols h)
           @ be_bytes 4 (hrs_base_rows h) @ be_bytes 4 (length (hrs_records h))
           @ concat (map record_encode (hrs_records h))"
proof -
  have "HISTORY_HEADER_BYTES \<le> MAX_HISTORY_PAYLOAD_BYTES" by (simp add: history_limits)
  then show ?thesis
    unfolding history_encode_def window_def by (auto simp: res_simps check_records_iff not_less)
qed

text \<open>What a fixed-width read says about the bytes at an offset.\<close>

lemma read_at:
  "read_u32 p k = Some v \<longleftrightarrow> (\<exists>rest. k \<le> length p \<and> drop k p = be_bytes 4 v @ rest) \<and> v < 2 ^ 32"
  "read_sequence p k = Some v \<longleftrightarrow> (\<exists>rest. k \<le> length p \<and> drop k p = be_bytes 8 v @ rest) \<and> v < 2 ^ 64"
proof -
  have gen: "map_option from_be (get_range p k (k + n)) = Some v
      \<longleftrightarrow> (\<exists>rest. k \<le> length p \<and> drop k p = be_bytes n v @ rest) \<and> v < 256 ^ n" for n
  proof
    assume "map_option from_be (get_range p k (k + n)) = Some v"
    then have len: "k + n \<le> length p" and v: "v = from_be (take n (drop k p))"
      by (auto simp: get_range_def split: if_splits)
    have w: "length (take n (drop k p)) = n" using len by simp
    have "be_bytes n v = take n (drop k p)" unfolding v by (rule be_bytes_from_be) (rule w)
    moreover have "v < 256 ^ n" using from_be_less [of "take n (drop k p)"] w v by simp
    ultimately show "(\<exists>rest. k \<le> length p \<and> drop k p = be_bytes n v @ rest) \<and> v < 256 ^ n"
      using len append_take_drop_id [of n "drop k p"] by (intro conjI exI [of _ "drop n (drop k p)"]) auto
  next
    assume "(\<exists>rest. k \<le> length p \<and> drop k p = be_bytes n v @ rest) \<and> v < 256 ^ n"
    then obtain rest where r: "k \<le> length p" "drop k p = be_bytes n v @ rest" and v: "v < 256 ^ n" by blast
    have "length p - k = n + length rest" using arg_cong [OF r(2), of length] by simp
    with r v show "map_option from_be (get_range p k (k + n)) = Some v" by (simp add: get_range_def)
  qed
  show "read_u32 p k = Some v \<longleftrightarrow> (\<exists>rest. k \<le> length p \<and> drop k p = be_bytes 4 v @ rest) \<and> v < 2 ^ 32"
    "read_sequence p k = Some v \<longleftrightarrow> (\<exists>rest. k \<le> length p \<and> drop k p = be_bytes 8 v @ rest) \<and> v < 2 ^ 64"
    using gen [of 4] gen [of 8] by (simp_all add: read_u32_def read_sequence_def)
qed

text \<open>The same read one field further on, when the bytes at the earlier offset are known.\<close>

lemma read_in:
  assumes "k \<le> length p" "drop k p = pre @ rest" "j = k + length pre"
  shows "drop j p = rest" "j \<le> length p"
proof -
  show "drop j p = rest" using arg_cong [OF assms(2), of "drop (length pre)"] assms(3) by (simp add: add.commute)
  have "length p - k = length pre + length rest" using arg_cong [OF assms(2), of length] by simp
  with assms(1,3) show "j \<le> length p" by simp
qed

lemma drop_Cons_at: "drop k p = t # rest \<longleftrightarrow> k < length p \<and> p ! k = t \<and> drop (Suc k) p = rest"
  by (metis Cons_nth_drop_Suc drop_all list.inject list.distinct(1) not_less)

definition record_at :: "byte list \<Rightarrow> nat \<Rightarrow> history_record \<Rightarrow> bool" where
  "record_at p k r \<longleftrightarrow> k \<le> length p \<and> (\<exists>rest. drop k p = record_encode r @ rest)"

lemma resize_record_at:
  assumes "record_at p k (ResizeRecord s c w)" "record_ok (ResizeRecord s c w)"
  shows "k < length p \<and> p ! k = HISTORY_RESIZE_TAG \<and> k + HISTORY_RESIZE_BYTES \<le> length p
    \<and> read_sequence p (k + 1) = Some s \<and> read_u32 p (k + 9) = Some c \<and> read_u32 p (k + 13) = Some w"
proof -
  obtain rest where r: "drop k p = [HISTORY_RESIZE_TAG] @ be_bytes 8 s @ be_bytes 4 c @ be_bytes 4 w @ rest" and k: "k \<le> length p"
    using assms(1) by (auto simp: record_at_def)
  note a = read_in [OF k r, of "k + 1"]
  note b = read_in [OF a(2) a(1), of "k + 9"]
  note c = read_in [OF b(2) b(1), of "k + 13"]
  have "s < 2 ^ 64" "c < 2 ^ 32" "w < 2 ^ 32" using assms(2) by (simp_all add: history_limits keeper_limits)
  then have "read_sequence p (k + 1) = Some s" "read_u32 p (k + 9) = Some c" "read_u32 p (k + 13) = Some w"
    using a b c by (auto simp: read_at)
  moreover have "k < length p" "p ! k = HISTORY_RESIZE_TAG"
    using r by (simp_all add: drop_Cons_at)
  moreover have "length p - k = 17 + length rest" using arg_cong [OF r, of length] by simp
  ultimately show ?thesis using k by (simp add: HISTORY_RESIZE_BYTES_def)
qed

lemma output_record_at:
  assumes "record_at p k (OutputRecord bytes)" "length p \<le> MAX_HISTORY_PAYLOAD_BYTES"
  shows "k < length p \<and> p ! k = HISTORY_OUTPUT_TAG \<and> read_u32 p (k + 1) = Some (length bytes)
    \<and> get_range p (k + HISTORY_OUTPUT_HEADER_BYTES) (k + HISTORY_OUTPUT_HEADER_BYTES + length bytes) = Some bytes"
proof -
  obtain rest where r: "drop k p = [HISTORY_OUTPUT_TAG] @ be_bytes 4 (length bytes) @ bytes @ rest" and k: "k \<le> length p"
    using assms(1) by (auto simp: record_at_def)
  note a = read_in [OF k r, of "k + 1"]
  note b = read_in [OF a(2) a(1), of "k + 5"]
  have len: "length p - k = 5 + length bytes + length rest" using arg_cong [OF r, of length] by simp
  then have "length bytes < 2 ^ 32" using assms(2) by (simp add: history_limits)
  then have "read_u32 p (k + 1) = Some (length bytes)" using a by (auto simp: read_at)
  moreover have "get_range p (k + 5) (k + 5 + length bytes) = Some bytes" using b len by (simp add: get_range_def)
  ultimately show ?thesis using r by (simp add: drop_Cons_at HISTORY_OUTPUT_HEADER_BYTES_def)
qed

lemma decode_record_complete:
  assumes "record_at p k r" "record_ok r" "length p \<le> MAX_HISTORY_PAYLOAD_BYTES"
    "raw + length (record_output_bytes r) \<le> head_seq"
  shows "decode_record p head_seq (k, raw, rs)
    = Ok (k + length (record_encode r), raw + length (record_output_bytes r), rs @ [r])"
proof (cases r)
  case (OutputRecord bytes)
  with assms output_record_at [of p k bytes] show ?thesis
    by (simp add: decode_record_def Let_def HISTORY_OUTPUT_HEADER_BYTES_def)
next
  case (ResizeRecord s c w)
  note at = resize_record_at [of p k s c w]
  with assms ResizeRecord show ?thesis
    by (simp add: decode_record_def Let_def HISTORY_RESIZE_BYTES_def HISTORY_OUTPUT_TAG_def HISTORY_RESIZE_TAG_def
        dimension_def check_dimension_def)
qed

lemma dimension_Inr [res_simps]: "dimension p k = Inr c \<longleftrightarrow> read_u32 p k = Some c \<and> 0 < c \<and> c \<le> KEEPER_MAX_TERMINAL_DIMENSION"
  by (auto simp: dimension_def res_simps split: option.splits)

lemma decode_record_sound:
  assumes "decode_record p head_seq (k, raw, rs) = Ok st" "raw \<le> head_seq"
  shows "\<exists>r. record_at p k r \<and> record_ok r \<and> raw + length (record_output_bytes r) \<le> head_seq
    \<and> st = (k + length (record_encode r), raw + length (record_output_bytes r), rs @ [r])"
proof (cases "p ! k = HISTORY_OUTPUT_TAG")
  case True
  then obtain len bytes where k: "k < length p" and len: "read_u32 p (k + 1) = Some len"
    and bytes: "get_range p (k + 5) (k + 5 + len) = Some bytes" "bytes \<noteq> []" "raw + len \<le> head_seq"
    and st: "st = (k + 5 + len, raw + len, rs @ [OutputRecord bytes])"
    using assms(1) by (auto simp: decode_record_def Let_def HISTORY_OUTPUT_HEADER_BYTES_def split: if_splits option.splits)
  obtain rest where r: "drop (k + 1) p = be_bytes 4 len @ rest" "k + 1 \<le> length p" using len by (auto simp: read_at)
  note b = read_in [OF r(2) r(1), of "k + 5"]
  have "bytes = take len rest" "length bytes = len" using bytes(1) b by (auto simp: get_range_def split: if_splits)
  then have "drop k p = record_encode (OutputRecord bytes) @ drop len rest"
    using r True k by (simp add: drop_Cons_at)
  with k bytes st \<open>length bytes = len\<close> show ?thesis
    by (intro exI [of _ "OutputRecord bytes"]) (auto simp: record_at_def)
next
  case False
  then obtain s c w where k: "k < length p" "p ! k = HISTORY_RESIZE_TAG"
    and s: "read_sequence p (k + 1) = Some s" "s \<le> MAX_SAFE_INTEGER"
    and c: "dimension p (k + 9) = Ok c" and w: "dimension p (k + 13) = Ok w"
    and st: "st = (k + HISTORY_RESIZE_BYTES, raw, rs @ [ResizeRecord s c w])"
    using assms(1) by (auto simp: decode_record_def Let_def not_less res_bind_Inr_iff split: if_splits option.splits)
  obtain r1 where r1: "drop (k + 1) p = be_bytes 8 s @ r1" "k + 1 \<le> length p" using s by (auto simp: read_at)
  obtain r2 where r2: "drop (k + 9) p = be_bytes 4 c @ r2" using c by (auto simp: read_at res_simps)
  obtain r3 where r3: "drop (k + 13) p = be_bytes 4 w @ r3" using w by (auto simp: read_at res_simps)
  note b = read_in [OF r1(2) r1(1), of "k + 9"]
  note d = read_in [OF b(2) r2, of "k + 13"]
  have "drop k p = record_encode (ResizeRecord s c w) @ r3"
    using k r1 r2 r3 b d by (simp add: drop_Cons_at)
  with k s c w st assms(2) show ?thesis
    by (intro exI [of _ "ResizeRecord s c w"]) (auto simp: record_at_def res_simps HISTORY_RESIZE_BYTES_def)
qed

text \<open>The record loop of the decoder accepts exactly the encodings of lists of good records.\<close>

lemma decode_records_iff:
  assumes "length p \<le> MAX_HISTORY_PAYLOAD_BYTES" "k \<le> length p" "raw \<le> head_seq"
  shows "fold_res (\<lambda>st _. decode_record p head_seq st) (k, raw, rs) xs = Ok st \<longleftrightarrow>
    (\<exists>ns rest. length ns = length xs \<and> list_all record_ok ns \<and> drop k p = concat (map record_encode ns) @ rest
       \<and> raw + length (records_output ns) \<le> head_seq
       \<and> st = (k + records_size ns, raw + length (records_output ns), rs @ ns))"
  using assms
proof (induction xs arbitrary: k raw rs)
  case (Cons x xs)
  let ?P = "\<lambda>k raw rs ns rest. length ns = length xs \<and> list_all record_ok ns \<and> drop k p = concat (map record_encode ns) @ rest
       \<and> raw + length (records_output ns) \<le> head_seq
       \<and> st = (k + records_size ns, raw + length (records_output ns), rs @ ns)"
  show ?case
  proof
    assume "fold_res (\<lambda>st _. decode_record p head_seq st) (k, raw, rs) (x # xs) = Ok st"
    then obtain st1 where one: "decode_record p head_seq (k, raw, rs) = Ok st1"
      and more: "fold_res (\<lambda>st _. decode_record p head_seq st) st1 xs = Ok st" by (auto simp: res_simps)
    obtain r where r: "record_at p k r" "record_ok r" "raw + length (record_output_bytes r) \<le> head_seq"
      "st1 = (k + length (record_encode r), raw + length (record_output_bytes r), rs @ [r])"
      using decode_record_sound [OF one Cons.prems(3)] by blast
    obtain tail where tail: "drop k p = record_encode r @ tail" using r(1) by (auto simp: record_at_def)
    note next_at = read_in [OF Cons.prems(2) tail refl]
    obtain ns rest where "?P (k + length (record_encode r)) (raw + length (record_output_bytes r)) (rs @ [r]) ns rest"
      using more Cons.IH [OF Cons.prems(1) next_at(2) r(3)] r(4) by auto
    with r tail next_at show "\<exists>ns rest. length ns = length (x # xs) \<and> list_all record_ok ns
        \<and> drop k p = concat (map record_encode ns) @ rest \<and> raw + length (records_output ns) \<le> head_seq
        \<and> st = (k + records_size ns, raw + length (records_output ns), rs @ ns)"
      by (intro exI [of _ "r # ns"] exI [of _ rest]) (simp add: algebra_simps)
  next
    assume "\<exists>ns rest. length ns = length (x # xs) \<and> list_all record_ok ns
        \<and> drop k p = concat (map record_encode ns) @ rest \<and> raw + length (records_output ns) \<le> head_seq
        \<and> st = (k + records_size ns, raw + length (records_output ns), rs @ ns)"
    then obtain r ns rest where ns: "length ns = length xs" "record_ok r" "list_all record_ok ns"
      "drop k p = record_encode r @ (concat (map record_encode ns) @ rest)"
      "raw + length (records_output (r # ns)) \<le> head_seq"
      "st = (k + records_size (r # ns), raw + length (records_output (r # ns)), rs @ r # ns)"
      by (auto simp: length_Suc_conv)
    note next_at = read_in [OF Cons.prems(2) ns(4) refl]
    have "record_at p k r" unfolding record_at_def using ns(4) Cons.prems(2) by blast
    then have one: "decode_record p head_seq (k, raw, rs)
        = Ok (k + length (record_encode r), raw + length (record_output_bytes r), rs @ [r])"
      using ns Cons.prems by (intro decode_record_complete) auto
    have "?P (k + length (record_encode r)) (raw + length (record_output_bytes r)) (rs @ [r]) ns rest"
      using ns next_at by (simp add: algebra_simps)
    then show "fold_res (\<lambda>st _. decode_record p head_seq st) (k, raw, rs) (x # xs) = Ok st"
      using one Cons.IH [OF Cons.prems(1) next_at(2), of "raw + length (record_output_bytes r)" "rs @ [r]"] ns(5) by auto
  qed
qed auto

lemma history_decode_iff:
  "history_decode p = Ok h \<longleftrightarrow> length p \<le> MAX_HISTORY_PAYLOAD_BYTES
     \<and> hrs_head_seq h \<le> MAX_SAFE_INTEGER
     \<and> 0 < hrs_base_cols h \<and> hrs_base_cols h \<le> KEEPER_MAX_TERMINAL_DIMENSION
     \<and> 0 < hrs_base_rows h \<and> hrs_base_rows h \<le> KEEPER_MAX_TERMINAL_DIMENSION
     \<and> length (hrs_records h) \<le> MAX_HISTORY_RECORDS \<and> list_all record_ok (hrs_records h)
     \<and> length (window h) \<le> hrs_head_seq h
     \<and> HISTORY_HEADER_BYTES \<le> length p \<and> p ! 0 = HISTORY_FORMAT_VERSION
     \<and> read_sequence p 1 = Some (hrs_head_seq h) \<and> read_u32 p 9 = Some (hrs_base_cols h)
     \<and> read_u32 p 13 = Some (hrs_base_rows h) \<and> read_u32 p 17 = Some (length (hrs_records h))
     \<and> drop HISTORY_HEADER_BYTES p = concat (map record_encode (hrs_records h))"
  (is "_ \<longleftrightarrow> ?R")
proof
  assume "history_decode p = Ok h"
  then obtain head cols rows n off raw rs where
    len: "HISTORY_HEADER_BYTES \<le> length p" "length p \<le> MAX_HISTORY_PAYLOAD_BYTES" "p ! 0 = HISTORY_FORMAT_VERSION"
    and head: "read_sequence p 1 = Some head" "head \<le> MAX_SAFE_INTEGER"
    and dims: "dimension p 9 = Ok cols" "dimension p 13 = Ok rows"
    and n: "read_u32 p 17 = Some n" "n \<le> MAX_HISTORY_RECORDS"
    and loop: "fold_res (\<lambda>st _. decode_record p head st) (HISTORY_HEADER_BYTES, 0, []) [0..<n] = Ok (length p, raw, rs)"
    and h: "h = \<lparr>hrs_head_seq = head, hrs_base_cols = cols, hrs_base_rows = rows, hrs_records = rs\<rparr>"
    by (auto simp: history_decode_def not_less res_bind_Inr_iff split: if_splits option.splits prod.splits)
  obtain rest where rs: "length rs = n" "list_all record_ok rs" "length (records_output rs) \<le> head"
    and size: "length p = HISTORY_HEADER_BYTES + records_size rs"
    and at: "drop HISTORY_HEADER_BYTES p = concat (map record_encode rs) @ rest"
    using loop unfolding decode_records_iff [OF len(2,1) le0] by auto
  have "rest = []" using arg_cong [OF at, of length] unfolding length_append length_drop size by simp
  with rs at show ?R using len head dims n by (simp add: h window_def res_simps)
next
  assume r: ?R
  then have at: "drop HISTORY_HEADER_BYTES p = concat (map record_encode (hrs_records h))" "HISTORY_HEADER_BYTES \<le> length p"
    by simp_all
  have size: "length p = HISTORY_HEADER_BYTES + records_size (hrs_records h)"
    using arg_cong [OF at(1), of length] at(2) by simp
  have loop: "fold_res (\<lambda>st _. decode_record p (hrs_head_seq h) st) (HISTORY_HEADER_BYTES, 0, []) [0..<length (hrs_records h)]
      = Ok (length p, length (records_output (hrs_records h)), hrs_records h)"
    using r size by (subst decode_records_iff) (auto simp: window_def intro!: exI [of _ "[]"])
  show "history_decode p = Ok h"
    using r unfolding history_decode_def by (simp add: loop dimension_def check_dimension_def)
qed

lemma encoded_header_fields:
  assumes "p = [HISTORY_FORMAT_VERSION] @ be_bytes 8 head @ be_bytes 4 cols @ be_bytes 4 rows @ be_bytes 4 n @ body"
    and "head < 2 ^ 64" "cols < 2 ^ 32" "rows < 2 ^ 32" "n < 2 ^ 32"
  shows "p ! 0 = HISTORY_FORMAT_VERSION" "read_sequence p 1 = Some head" "read_u32 p 9 = Some cols"
    "read_u32 p 13 = Some rows" "read_u32 p 17 = Some n" "drop HISTORY_HEADER_BYTES p = body" "HISTORY_HEADER_BYTES \<le> length p"
  using assms by (auto simp: read_at HISTORY_HEADER_BYTES_def)

lemma header_fields_encoded:
  assumes "p ! 0 = HISTORY_FORMAT_VERSION" "read_sequence p 1 = Some head" "read_u32 p 9 = Some cols"
    "read_u32 p 13 = Some rows" "read_u32 p 17 = Some n"
  shows "p = [HISTORY_FORMAT_VERSION] @ be_bytes 8 head @ be_bytes 4 cols @ be_bytes 4 rows @ be_bytes 4 n @ drop HISTORY_HEADER_BYTES p"
proof -
  obtain r1 r2 r3 r4 where r: "drop 1 p = be_bytes 8 head @ r1" "1 \<le> length p" "drop 9 p = be_bytes 4 cols @ r2"
    "drop 13 p = be_bytes 4 rows @ r3" "drop 17 p = be_bytes 4 n @ r4"
    using assms(2-5) by (auto simp: read_at)
  note a = read_in [OF r(2,1), of 9]
  note b = read_in [OF a(2) r(3), of 13]
  note c = read_in [OF b(2) r(4), of 17]
  note d = read_in [OF c(2) r(5), of 21]
  have "p = p ! 0 # drop 1 p" using r(2) by (cases p) auto
  then show ?thesis using assms(1) r a b c d by (simp add: HISTORY_HEADER_BYTES_def)
qed

lemma history_encodes_back:
  assumes dec: "history_decode p = Ok h"
  shows "history_encode h = Ok p"
proof -
  have "p = [HISTORY_FORMAT_VERSION] @ be_bytes 8 (hrs_head_seq h) @ be_bytes 4 (hrs_base_cols h)
      @ be_bytes 4 (hrs_base_rows h) @ be_bytes 4 (length (hrs_records h)) @ drop HISTORY_HEADER_BYTES p"
    using dec unfolding history_decode_iff by (intro header_fields_encoded) simp_all
  then show ?thesis
    using dec unfolding history_decode_iff history_encode_iff by (auto simp: HISTORY_HEADER_BYTES_def dest: arg_cong [where f = length])
qed

lemma history_decodes:
  assumes enc: "history_encode h = Ok p"
  shows "history_decode p = Ok h"
proof -
  have p: "p = [HISTORY_FORMAT_VERSION] @ be_bytes 8 (hrs_head_seq h) @ be_bytes 4 (hrs_base_cols h)
      @ be_bytes 4 (hrs_base_rows h) @ be_bytes 4 (length (hrs_records h)) @ concat (map record_encode (hrs_records h))"
    using enc unfolding history_encode_iff by blast
  have "hrs_head_seq h < 2 ^ 64" "hrs_base_cols h < 2 ^ 32" "hrs_base_rows h < 2 ^ 32" "length (hrs_records h) < 2 ^ 32"
    using enc unfolding history_encode_iff by (simp_all add: history_limits keeper_limits)
  note f = encoded_header_fields [OF p this]
  have "length p = HISTORY_HEADER_BYTES + records_size (hrs_records h)" by (simp add: p HISTORY_HEADER_BYTES_def)
  then show ?thesis using enc f unfolding history_decode_iff history_encode_iff by simp
qed

text \<open>
  C11: The history payload is canonical: a byte string decodes to a history exactly when it is that
  history's encoding. So nothing is lost, no two histories share a payload, no history has a second
  spelling, and the encoder and the decoder enforce the same bounds.
\<close>

theorem history_codec_canonical: "history_decode p = Ok h \<longleftrightarrow> history_encode h = Ok p"
  using history_encodes_back history_decodes by blast

end
