(* ===== verification/Keeper_Retention.thy ===== *)
theory Keeper_Retention
  imports Keeper_History
begin

text \<open>
  A channel's retained history (\<^verbatim>\<open>roost-keeper/src/channel_history.rs\<close>): the newest bytes of a PTY's
  output, the number of bytes ever emitted, and the geometry changes among the bytes kept, so that a
  resuming worker can replay exactly what the PTY produced. The abstract history is the full log of
  bytes and geometry changes; what is retained is proved to be a suffix of it under the right geometry.
\<close>

section \<open>A channel's retained history\<close>

definition KEEPER_RING_CAP_BYTES :: nat where "KEEPER_RING_CAP_BYTES = 1024 * 1024"

record resize_marker =
  rm_head_seq :: nat
  rm_seq :: nat
  rm_cols :: nat
  rm_rows :: nat

record channel_history =
  ch_ring :: "byte list"
  ch_ring_cap :: nat
  ch_head_seq :: nat
  ch_base_cols :: nat
  ch_base_rows :: nat
  ch_current_cols :: nat
  ch_current_rows :: nat
  ch_resizes :: "resize_marker list"
  ch_max_resizes :: nat

definition history_with_limits :: "nat \<Rightarrow> nat \<Rightarrow> nat \<Rightarrow> nat \<Rightarrow> channel_history" where
  "history_with_limits cols rows ring_cap max_resizes =
     \<lparr>ch_ring = [], ch_ring_cap = ring_cap, ch_head_seq = 0, ch_base_cols = cols, ch_base_rows = rows,
      ch_current_cols = cols, ch_current_rows = rows, ch_resizes = [], ch_max_resizes = max_resizes\<rparr>"

definition channel_history_new :: "nat \<Rightarrow> nat \<Rightarrow> channel_history" where
  "channel_history_new cols rows =
     history_with_limits cols rows KEEPER_RING_CAP_BYTES KEEPER_MAX_HISTORY_RESIZE_RECORDS"

definition retained_bytes :: "channel_history \<Rightarrow> nat" where
  "retained_bytes h = length (ch_ring h)"

text \<open>The loop that pops evicted markers off the front, over the queue and the base it moves.\<close>

fun pop_evicted :: "nat \<Rightarrow> resize_marker list \<Rightarrow> nat \<times> nat \<Rightarrow> resize_marker list \<times> nat \<times> nat" where
  "pop_evicted retained_tail [] base = ([], base)"
| "pop_evicted retained_tail (evicted # resizes) base =
     (if retained_tail < rm_head_seq evicted then (evicted # resizes, base)
      else pop_evicted retained_tail resizes (rm_cols evicted, rm_rows evicted))"

definition trim_evicted :: "channel_history \<Rightarrow> channel_history" where
  "trim_evicted h =
     (case pop_evicted (ch_head_seq h - length (ch_ring h)) (ch_resizes h) (ch_base_cols h, ch_base_rows h) of
        (resizes, cols, rows) \<Rightarrow> h\<lparr>ch_resizes := resizes, ch_base_cols := cols, ch_base_rows := rows\<rparr>)"

definition record_output :: "byte list \<Rightarrow> channel_history \<Rightarrow> channel_history" where
  "record_output bytes h =
     (if bytes = [] then h
      else
        let keep = min (length bytes) (ch_ring_cap h);
            ring = ch_ring h @ drop (length bytes - keep) bytes;
            excess = length ring - ch_ring_cap h
        in trim_evicted (h\<lparr>ch_head_seq := ch_head_seq h + length bytes, ch_ring := drop excess ring\<rparr>))"

definition record_resize :: "nat \<Rightarrow> nat \<Rightarrow> nat \<Rightarrow> channel_history \<Rightarrow> channel_history" where
  "record_resize s cols rows h =
     (let h' = (if ch_max_resizes h \<le> length (ch_resizes h)
                then h\<lparr>ch_ring := [], ch_resizes := [], ch_base_cols := ch_current_cols h,
                       ch_base_rows := ch_current_rows h\<rparr>
                else h)
      in h'\<lparr>ch_resizes := ch_resizes h' @ [\<lparr>rm_head_seq = ch_head_seq h', rm_seq = s, rm_cols = cols, rm_rows = rows\<rparr>],
            ch_current_cols := cols, ch_current_rows := rows\<rparr>)"

definition ordered_step ::
  "byte list \<Rightarrow> nat \<Rightarrow> nat \<Rightarrow> history_record list \<times> nat \<Rightarrow> resize_marker \<Rightarrow> history_record list \<times> nat" where
  "ordered_step retained retained_tail head_seq = (\<lambda>(records, raw_seq) marker.
     if rm_head_seq marker < retained_tail \<or> head_seq < rm_head_seq marker then (records, raw_seq)
     else
       let (records', raw') =
             (if raw_seq < rm_head_seq marker
              then (records @ [OutputRecord (take (rm_head_seq marker - raw_seq) (drop (raw_seq - retained_tail) retained))],
                    rm_head_seq marker)
              else (records, raw_seq))
       in (records' @ [ResizeRecord (rm_seq marker) (rm_cols marker) (rm_rows marker)], raw'))"

definition ordered :: "channel_history \<Rightarrow> history_records" where
  "ordered h =
     (let retained = ch_ring h;
          retained_tail = ch_head_seq h - length retained;
          (records, raw_seq) = foldl (ordered_step retained retained_tail (ch_head_seq h)) ([], retained_tail) (ch_resizes h);
          records' = (if raw_seq < ch_head_seq h then records @ [OutputRecord (drop (raw_seq - retained_tail) retained)]
                      else records)
      in \<lparr>hrs_head_seq = ch_head_seq h, hrs_base_cols = ch_base_cols h, hrs_base_rows = ch_base_rows h,
          hrs_records = records'\<rparr>)"

definition ring_bytes :: "channel_history \<Rightarrow> byte list" where
  "ring_bytes h = ch_ring h"

section \<open>The whole stream\<close>

text \<open>What a channel is told, the stream of bytes and geometry changes it stands for, and the geometry in force.\<close>

datatype channel_op = Emitted "byte list" | Resized nat nat nat

datatype stream_item = StreamByte byte | StreamGeometry nat nat nat

fun channel_exec :: "channel_op \<Rightarrow> channel_history \<Rightarrow> channel_history" where
  "channel_exec (Emitted bytes) h = record_output bytes h"
| "channel_exec (Resized s cols rows) h = record_resize s cols rows h"

fun op_items :: "channel_op \<Rightarrow> stream_item list" where
  "op_items (Emitted bytes) = map StreamByte bytes"
| "op_items (Resized s cols rows) = [StreamGeometry s cols rows]"

fun record_items :: "history_record \<Rightarrow> stream_item list" where
  "record_items (OutputRecord bytes) = map StreamByte bytes"
| "record_items (ResizeRecord s cols rows) = [StreamGeometry s cols rows]"

definition stream_of :: "channel_op list \<Rightarrow> stream_item list" where
  "stream_of ps = concat (map op_items ps)"

definition replayed :: "history_records \<Rightarrow> stream_item list" where
  "replayed h = concat (map record_items (hrs_records h))"

fun item_geometry :: "nat \<times> nat \<Rightarrow> stream_item \<Rightarrow> nat \<times> nat" where
  "item_geometry g (StreamByte _) = g"
| "item_geometry g (StreamGeometry _ cols rows) = (cols, rows)"

abbreviation geometry_after :: "nat \<times> nat \<Rightarrow> stream_item list \<Rightarrow> nat \<times> nat" where
  "geometry_after \<equiv> foldl item_geometry"

fun is_byte :: "stream_item \<Rightarrow> bool" where
  "is_byte (StreamByte _) = True"
| "is_byte (StreamGeometry _ _ _) = False"

abbreviation byte_count :: "stream_item list \<Rightarrow> nat" where
  "byte_count items \<equiv> length (filter is_byte items)"

text \<open>The stream a ring and its markers stand for, when the ring starts at a raw offset.\<close>

fun marker_item :: "resize_marker \<Rightarrow> stream_item" where
  "marker_item m = StreamGeometry (rm_seq m) (rm_cols m) (rm_rows m)"

fun interleave :: "nat \<Rightarrow> byte list \<Rightarrow> resize_marker list \<Rightarrow> stream_item list" where
  "interleave tail ring [] = map StreamByte ring"
| "interleave tail ring (m # ms) =
     map StreamByte (take (rm_head_seq m - tail) ring) @ marker_item m
       # interleave (rm_head_seq m) (drop (rm_head_seq m - tail) ring) ms"

definition markers_within :: "nat \<Rightarrow> nat \<Rightarrow> resize_marker list \<Rightarrow> bool" where
  "markers_within lo hi ms \<longleftrightarrow> sorted (map rm_head_seq ms) \<and> (\<forall>m \<in> set ms. lo \<le> rm_head_seq m \<and> rm_head_seq m \<le> hi)"

lemma markers_within_Cons [simp]:
  "markers_within lo hi (m # ms) \<longleftrightarrow> lo \<le> rm_head_seq m \<and> rm_head_seq m \<le> hi \<and> markers_within (rm_head_seq m) hi ms"
  by (auto simp: markers_within_def)

lemma markers_within_Nil [simp]: "markers_within lo hi []"
  by (simp add: markers_within_def)

lemma markers_step:
  assumes "markers_within tail (tail + length ring) (m # ms)"
  shows "markers_within (rm_head_seq m) (rm_head_seq m + length (drop (rm_head_seq m - tail) ring)) ms"
proof -
  have "rm_head_seq m + length (drop (rm_head_seq m - tail) ring) = tail + length ring" using assms by simp
  with assms show ?thesis by simp
qed

lemma byte_items [simp]:
  "geometry_after g (map StreamByte bs) = g" "byte_count (map StreamByte bs) = length bs"
  by (induction bs) simp_all

lemma interleave_bytes:
  "markers_within tail (tail + length ring) ms \<Longrightarrow> byte_count (interleave tail ring ms) = length ring"
proof (induction ms arbitrary: tail ring)
  case (Cons m ms)
  from Cons.IH [OF markers_step [OF Cons.prems]] Cons.prems show ?case by (auto simp: min_def)
qed simp

lemma interleave_more_output:
  "markers_within tail (tail + length ring) ms \<Longrightarrow>
   interleave tail (ring @ bytes) ms = interleave tail ring ms @ map StreamByte bytes"
proof (induction ms arbitrary: tail ring)
  case (Cons m ms)
  from Cons.IH [OF markers_step [OF Cons.prems]] Cons.prems show ?case by simp
qed simp

lemma interleave_more_marker:
  "markers_within tail (tail + length ring) ms \<Longrightarrow> rm_head_seq n = tail + length ring \<Longrightarrow>
   interleave tail ring (ms @ [n]) = interleave tail ring ms @ [marker_item n]"
proof (induction ms arbitrary: tail ring)
  case (Cons m ms)
  from Cons.IH [OF markers_step [OF Cons.prems(1)]] Cons.prems show ?case by simp
qed simp

text \<open>Dropping the oldest bytes and the markers at or below the new tail drops a prefix of the stream.\<close>

lemma interleave_evict:
  assumes "markers_within tail (tail + length ring) ms" "k \<le> length ring"
    and "pop_evicted (tail + k) ms base = (ms', base')"
  shows "\<exists>pre. interleave tail ring ms = pre @ interleave (tail + k) (drop k ring) ms' \<and> geometry_after base pre = base'
    \<and> markers_within (tail + k) (tail + length ring) ms' \<and> length ms' \<le> length ms \<and> set ms' \<subseteq> set ms"
  using assms
proof (induction ms arbitrary: tail ring k base)
  case Nil
  have "interleave tail ring [] = map StreamByte (take k ring) @ interleave (tail + k) (drop k ring) []"
    by (simp flip: map_append)
  with Nil show ?case by (intro exI [of _ "map StreamByte (take k ring)"]) simp
next
  case (Cons m ms)
  let ?h = "rm_head_seq m"
  show ?case
  proof (cases "tail + k < ?h")
    case True
    have "take (?h - tail) ring = take k ring @ take (?h - (tail + k)) (drop k ring)"
      using take_add [of k "?h - (tail + k)" ring] True by simp
    with True Cons.prems show ?thesis
      by (intro exI [of _ "map StreamByte (take k ring)"]) auto
  next
    case False
    have tail: "?h + (tail + k - ?h) = tail + k" "?h + length (drop (?h - tail) ring) = tail + length ring"
      "tail + k - ?h \<le> length (drop (?h - tail) ring)"
      using False Cons.prems(1,2) by auto
    obtain pre where pre: "interleave ?h (drop (?h - tail) ring) ms
        = pre @ interleave (tail + k) (drop (tail + k - ?h) (drop (?h - tail) ring)) ms'"
      "geometry_after (rm_cols m, rm_rows m) pre = base'" "markers_within (tail + k) (tail + length ring) ms'"
      "length ms' \<le> length ms" "set ms' \<subseteq> set ms"
      using Cons.IH [OF markers_step [OF Cons.prems(1)] tail(3), of "(rm_cols m, rm_rows m)"] Cons.prems(3) False
      unfolding tail(1,2) by auto
    have "drop (tail + k - ?h) (drop (?h - tail) ring) = drop k ring" using False Cons.prems(1) by simp
    with pre show ?thesis
      by (intro exI [of _ "map StreamByte (take (?h - tail) ring) @ marker_item m # pre"]) auto
  qed
qed

section \<open>What the history keeps of the stream\<close>

definition ring_ok :: "channel_history \<Rightarrow> bool" where
  "ring_ok h \<longleftrightarrow> length (ch_ring h) \<le> ch_ring_cap h \<and> length (ch_ring h) \<le> ch_head_seq h
     \<and> markers_within (ch_head_seq h - length (ch_ring h)) (ch_head_seq h) (ch_resizes h)
     \<and> length (ch_resizes h) \<le> max 1 (ch_max_resizes h)"

definition kept :: "channel_history \<Rightarrow> stream_item list" where
  "kept h = interleave (ch_head_seq h - length (ch_ring h)) (ch_ring h) (ch_resizes h)"

definition keeps_stream :: "nat \<times> nat \<Rightarrow> stream_item list \<Rightarrow> channel_history \<Rightarrow> bool" where
  "keeps_stream start items h \<longleftrightarrow> ring_ok h \<and> ch_head_seq h = byte_count items
     \<and> geometry_after start items = (ch_current_cols h, ch_current_rows h)
     \<and> (\<exists>pre. items = pre @ kept h \<and> geometry_after start pre = (ch_base_cols h, ch_base_rows h))"

text \<open>Appending a chunk and cutting the ring keeps the newest bytes of the two together.\<close>

lemma ring_after_output:
  "drop (length (ring @ drop (length bytes - min (length bytes) cap) bytes) - cap)
       (ring @ drop (length bytes - min (length bytes) cap) bytes)
     = drop (length ring + length bytes - cap) (ring @ bytes)"
  by (cases "length bytes \<le> cap") (auto simp: min_def)

lemma record_output_unfold:
  assumes "bytes \<noteq> []" "ring = drop (length (ch_ring h) + length bytes - ch_ring_cap h) (ch_ring h @ bytes)"
    and "pop_evicted (ch_head_seq h + length bytes - length ring) (ch_resizes h) (ch_base_cols h, ch_base_rows h) = (ms', c, w)"
  shows "record_output bytes h = h\<lparr>ch_head_seq := ch_head_seq h + length bytes, ch_ring := ring,
    ch_resizes := ms', ch_base_cols := c, ch_base_rows := w\<rparr>"
  using assms(1,3) unfolding record_output_def Let_def ring_after_output trim_evicted_def assms(2) [symmetric] by simp

lemma record_output_keeps:
  assumes "keeps_stream start items h"
  shows "keeps_stream start (items @ map StreamByte bytes) (record_output bytes h)"
proof (cases "bytes = []")
  case True
  with assms show ?thesis by (simp add: record_output_def)
next
  case False
  let ?tail = "ch_head_seq h - length (ch_ring h)" and ?k = "length (ch_ring h) + length bytes - ch_ring_cap h"
  have ok: "length (ch_ring h) \<le> ch_head_seq h" "length (ch_ring h) \<le> ch_ring_cap h"
    and within: "markers_within ?tail (?tail + length (ch_ring h)) (ch_resizes h)"
    using assms by (auto simp: keeps_stream_def ring_ok_def)
  then have wider: "markers_within ?tail (?tail + length (ch_ring h @ bytes)) (ch_resizes h)"
    by (auto simp: markers_within_def)
  define ring where "ring = drop ?k (ch_ring h @ bytes)"
  have len: "length ring = length (ch_ring h) + length bytes - ?k" by (simp add: ring_def)
  have k: "?k \<le> length (ch_ring h @ bytes)" by simp
  have tail': "ch_head_seq h + length bytes - length ring = ?tail + ?k"
    "?tail + length (ch_ring h @ bytes) = ch_head_seq h + length bytes" "length ring \<le> ch_ring_cap h"
    "length ring \<le> ch_head_seq h + length bytes"
    using ok by (auto simp: len)
  obtain ms' c w where pop: "pop_evicted (?tail + ?k) (ch_resizes h) (ch_base_cols h, ch_base_rows h) = (ms', c, w)"
    using prod_cases3 by blast
  obtain pre where pre: "interleave ?tail (ch_ring h @ bytes) (ch_resizes h)
      = pre @ interleave (?tail + ?k) ring ms'"
    "geometry_after (ch_base_cols h, ch_base_rows h) pre = (c, w)"
    "markers_within (?tail + ?k) (?tail + length (ch_ring h @ bytes)) ms'" "length ms' \<le> length (ch_resizes h)"
    using interleave_evict [OF wider k pop] unfolding ring_def by blast
  have out: "record_output bytes h = h\<lparr>ch_head_seq := ch_head_seq h + length bytes, ch_ring := ring,
      ch_resizes := ms', ch_base_cols := c, ch_base_rows := w\<rparr>"
    using pop unfolding tail'(1) [symmetric] by (intro record_output_unfold False ring_def)
  obtain pre0 where pre0: "items = pre0 @ kept h" "geometry_after start pre0 = (ch_base_cols h, ch_base_rows h)"
    using assms by (auto simp: keeps_stream_def)
  have "items @ map StreamByte bytes = pre0 @ pre @ kept (record_output bytes h)"
    using pre(1) pre0(1) interleave_more_output [OF within, of bytes] tail'(1) by (simp add: out kept_def)
  moreover have "ring_ok (record_output bytes h)"
    using assms pre(3,4) tail'(3,4) unfolding tail'(1) [symmetric] tail'(2) keeps_stream_def ring_ok_def out by simp
  moreover have "ch_head_seq (record_output bytes h) = byte_count (items @ map StreamByte bytes)"
    "geometry_after start (items @ map StreamByte bytes) = (ch_current_cols (record_output bytes h), ch_current_rows (record_output bytes h))"
    using assms by (simp_all add: keeps_stream_def out)
  moreover have "geometry_after start (pre0 @ pre) = (ch_base_cols (record_output bytes h), ch_base_rows (record_output bytes h))"
    using pre(2) pre0(2) by (simp add: out)
  ultimately show ?thesis unfolding keeps_stream_def append_assoc [symmetric] by blast
qed

lemma record_resize_keeps:
  assumes "keeps_stream start items h"
  shows "keeps_stream start (items @ [StreamGeometry s cols rows]) (record_resize s cols rows h)"
proof (cases "ch_max_resizes h \<le> length (ch_resizes h)")
  case True
  with assms show ?thesis
    by (auto simp: keeps_stream_def record_resize_def Let_def ring_ok_def kept_def intro!: exI [of _ items])
next
  case False
  let ?tail = "ch_head_seq h - length (ch_ring h)"
  have ok: "length (ch_ring h) \<le> ch_head_seq h"
    and within: "markers_within ?tail (?tail + length (ch_ring h)) (ch_resizes h)"
    using assms by (auto simp: keeps_stream_def ring_ok_def)
  let ?n = "\<lparr>rm_head_seq = ch_head_seq h, rm_seq = s, rm_cols = cols, rm_rows = rows\<rparr>"
  have out: "record_resize s cols rows h = h\<lparr>ch_resizes := ch_resizes h @ [?n], ch_current_cols := cols, ch_current_rows := rows\<rparr>"
    using False by (simp add: record_resize_def)
  have "kept (record_resize s cols rows h) = kept h @ [StreamGeometry s cols rows]"
    using interleave_more_marker [OF within, of ?n] ok by (simp add: out kept_def)
  moreover have "ring_ok (record_resize s cols rows h)"
    using assms False within by (auto simp: keeps_stream_def ring_ok_def out markers_within_def sorted_append)
  ultimately show ?thesis using assms unfolding keeps_stream_def by (auto simp: out)
qed

definition new_with :: "nat \<times> nat \<Rightarrow> nat \<Rightarrow> nat \<Rightarrow> channel_history" where
  "new_with start cap budget = history_with_limits (fst start) (snd start) cap budget"

lemma exec_keeps:
  "keeps_stream start items h \<Longrightarrow> keeps_stream start (items @ op_items p) (channel_exec p h)"
  by (cases p) (simp_all add: record_output_keeps record_resize_keeps)

lemma run_keeps: "keeps_stream start (stream_of ps) (fold channel_exec ps (new_with start cap budget))"
proof (induction ps rule: rev_induct)
  case Nil
  show ?case by (simp add: keeps_stream_def new_with_def history_with_limits_def ring_ok_def kept_def stream_of_def)
next
  case (snoc p ps)
  from exec_keeps [OF snoc, of p] show ?case by (simp add: stream_of_def)
qed

section \<open>The ordered view replays the retained stream\<close>

abbreviation items_of :: "history_record list \<Rightarrow> stream_item list" where
  "items_of rs \<equiv> concat (map record_items rs)"

text \<open>Bounds the encoder needs of the records a cut of the ring produces.\<close>

definition records_cut :: "resize_marker list \<Rightarrow> history_record list \<Rightarrow> bool" where
  "records_cut ms rs \<longleftrightarrow> (\<forall>r \<in> set rs. r \<noteq> OutputRecord [] \<and>
     (\<forall>s c w. r = ResizeRecord s c w \<longrightarrow> (\<exists>m \<in> set ms. s = rm_seq m \<and> c = rm_cols m \<and> w = rm_rows m)))"

lemma ordered_fold:
  assumes "tail \<le> raw" "markers_within raw (tail + length ring) ms" "raw \<le> tail + length ring"
    and "foldl (ordered_step ring tail (tail + length ring)) (rs, raw) ms = (rs', raw')"
  shows "items_of rs' @ map StreamByte (drop (raw' - tail) ring) = items_of rs @ interleave raw (drop (raw - tail) ring) ms
    \<and> tail \<le> raw' \<and> raw' \<le> tail + length ring \<and> length rs' \<le> length rs + 2 * length ms
    \<and> (records_cut all rs \<and> set ms \<subseteq> set all \<longrightarrow> records_cut all rs')"
  using assms
proof (induction ms arbitrary: rs raw)
  case (Cons m ms)
  let ?h = "rm_head_seq m" and ?R = "ResizeRecord (rm_seq m) (rm_cols m) (rm_rows m)"
  let ?O = "OutputRecord (take (?h - raw) (drop (raw - tail) ring))"
  define rs1 where "rs1 = (if raw < ?h then rs @ [?O] else rs) @ [?R]"
  have within: "raw \<le> ?h" "?h \<le> tail + length ring" "markers_within ?h (tail + length ring) ms" using Cons.prems(2) by auto
  have step: "ordered_step ring tail (tail + length ring) (rs, raw) m = (rs1, ?h)"
    using within Cons.prems(1) by (auto simp: ordered_step_def rs1_def)
  have "drop (?h - raw) (drop (raw - tail) ring) = drop (?h - tail) ring" using within(1) Cons.prems(1) by simp
  then have "items_of rs1 @ interleave ?h (drop (?h - tail) ring) ms
      = items_of rs @ interleave raw (drop (raw - tail) ring) (m # ms)" using within(1) by (auto simp: rs1_def)
  moreover have "records_cut all rs1" if "records_cut all rs" "m \<in> set all"
    using that within Cons.prems(1) by (auto simp: records_cut_def rs1_def)
  moreover have "length rs1 \<le> length rs + 2" by (simp add: rs1_def)
  moreover have "tail \<le> ?h" "foldl (ordered_step ring tail (tail + length ring)) (rs1, ?h) ms = (rs', raw')"
    using Cons.prems(1,4) within(1) step by auto
  note Cons.IH [OF this(1) within(3,2) this(2)]
  ultimately show ?case by auto
qed (auto simp: markers_within_def)

lemma ordered_replays:
  assumes "ring_ok h"
  shows "replayed (ordered h) = kept h \<and> length (hrs_records (ordered h)) \<le> 2 * length (ch_resizes h) + 1
    \<and> records_cut (ch_resizes h) (hrs_records (ordered h))"
proof -
  let ?tail = "ch_head_seq h - length (ch_ring h)"
  have head: "?tail + length (ch_ring h) = ch_head_seq h" using assms by (simp add: ring_ok_def)
  obtain rs raw where fold: "foldl (ordered_step (ch_ring h) ?tail (?tail + length (ch_ring h))) ([], ?tail) (ch_resizes h) = (rs, raw)"
    by fastforce
  have cut: "items_of rs @ map StreamByte (drop (raw - ?tail) (ch_ring h)) = kept h" "?tail \<le> raw" "raw \<le> ch_head_seq h"
    "length rs \<le> 2 * length (ch_resizes h)" "records_cut (ch_resizes h) rs"
    using ordered_fold [OF order_refl _ _ fold, of "ch_resizes h"] assms head
    by (auto simp: ring_ok_def kept_def records_cut_def)
  have recs: "hrs_records (ordered h) = (if raw < ch_head_seq h then rs @ [OutputRecord (drop (raw - ?tail) (ch_ring h))] else rs)"
    using fold unfolding head by (simp add: ordered_def Let_def)
  show ?thesis
  proof (cases "raw < ch_head_seq h")
    case True
    then have "drop (raw - ?tail) (ch_ring h) \<noteq> []" using head cut(2) by auto
    with True cut recs show ?thesis by (auto simp: replayed_def records_cut_def)
  next
    case False
    then have "drop (raw - ?tail) (ch_ring h) = []" using head cut(3) by auto
    with False cut recs show ?thesis by (simp add: replayed_def)
  qed
qed

lemma replayed_window: "byte_count (replayed h) = length (window h)"
proof -
  have "byte_count (items_of rs) = length (records_output rs)" for rs
  proof (induction rs)
    case (Cons r rs)
    then show ?case by (cases r) simp_all
  qed simp
  then show ?thesis by (simp add: replayed_def window_def)
qed

lemma ordered_keeps:
  assumes "keeps_stream start items h"
  shows "\<exists>pre. items = pre @ replayed (ordered h)
      \<and> geometry_after start pre = (hrs_base_cols (ordered h), hrs_base_rows (ordered h))"
    "hrs_head_seq (ordered h) = byte_count items" "length (window (ordered h)) \<le> min (ch_ring_cap h) (ch_head_seq h)"
proof -
  have ok: "ring_ok h" using assms by (simp add: keeps_stream_def)
  have fields: "hrs_head_seq (ordered h) = ch_head_seq h" "hrs_base_cols (ordered h) = ch_base_cols h"
    "hrs_base_rows (ordered h) = ch_base_rows h"
    by (simp_all add: ordered_def Let_def split: prod.splits)
  have "ch_head_seq h - length (ch_ring h) + length (ch_ring h) = ch_head_seq h" using ok by (simp add: ring_ok_def)
  then have "length (window (ordered h)) = length (ch_ring h)"
    using interleave_bytes [of "ch_head_seq h - length (ch_ring h)" "ch_ring h" "ch_resizes h"] ok
    by (simp flip: replayed_window add: ordered_replays kept_def ring_ok_def)
  then show "length (window (ordered h)) \<le> min (ch_ring_cap h) (ch_head_seq h)" using ok by (simp add: ring_ok_def)
  show "\<exists>pre. items = pre @ replayed (ordered h)
      \<and> geometry_after start pre = (hrs_base_cols (ordered h), hrs_base_rows (ordered h))"
    "hrs_head_seq (ordered h) = byte_count items"
    using assms ordered_replays [OF ok] unfolding keeps_stream_def fields by auto
qed

lemma exec_limits [simp]:
  "ch_ring_cap (channel_exec p g) = ch_ring_cap g" "ch_max_resizes (channel_exec p g) = ch_max_resizes g"
  by (cases p; auto simp: record_output_def trim_evicted_def record_resize_def Let_def split: prod.splits)+

lemma run_limits [simp]:
  "ch_ring_cap (fold channel_exec ps (new_with start cap budget)) = cap"
  "ch_max_resizes (fold channel_exec ps (new_with start cap budget)) = budget"
  by (induction ps rule: rev_induct) (simp_all add: new_with_def history_with_limits_def)

text \<open>
  C29: A resuming worker replays what the PTY produced: after any sequence of output chunks and geometry
  changes, the ordered records are exactly a suffix of the full stream of bytes and changes, the base
  geometry is the one in force where that suffix starts, the head counts every byte ever emitted, and
  no more than the ring's capacity is retained, whatever was evicted on the way.
\<close>

theorem history_replays_stream:
  "let h = ordered (fold channel_exec ps (new_with start cap budget)) in
     (\<exists>pre. stream_of ps = pre @ replayed h \<and> geometry_after start pre = (hrs_base_cols h, hrs_base_rows h))
     \<and> hrs_head_seq h = byte_count (stream_of ps) \<and> length (window h) \<le> cap"
  using ordered_keeps [OF run_keeps [of start ps cap budget]] by (simp add: Let_def)

section \<open>A live history always encodes\<close>

fun item_wire_ok :: "stream_item \<Rightarrow> bool" where
  "item_wire_ok (StreamByte _) = True"
| "item_wire_ok (StreamGeometry s cols rows) \<longleftrightarrow> record_ok (ResizeRecord s cols rows)"

abbreviation geometry_wire_ok :: "nat \<times> nat \<Rightarrow> bool" where
  "geometry_wire_ok g \<equiv> 0 < fst g \<and> fst g \<le> KEEPER_MAX_TERMINAL_DIMENSION \<and> 0 < snd g \<and> snd g \<le> KEEPER_MAX_TERMINAL_DIMENSION"

lemma geometry_after_ok:
  "geometry_wire_ok g \<Longrightarrow> list_all item_wire_ok items \<Longrightarrow> geometry_wire_ok (geometry_after g items)"
proof (induction items arbitrary: g)
  case (Cons i items)
  then show ?case by (cases i) simp_all
qed simp

lemma records_from_items:
  assumes "list_all item_wire_ok (items_of rs)" "records_cut ms rs"
  shows "list_all record_ok rs"
  using assms
proof (induction rs)
  case (Cons r rs)
  then show ?case by (cases r) (auto simp: records_cut_def)
qed simp

lemma records_size_bound: "records_size rs \<le> 17 * length rs + length (records_output rs)"
proof (induction rs)
  case (Cons r rs)
  then show ?case by (cases r) simp_all
qed simp

lemma history_encodes:
  assumes "keeps_stream start items h" "geometry_wire_ok start" "list_all item_wire_ok items" "byte_count items \<le> MAX_SAFE_INTEGER"
    and "ch_ring_cap h = KEEPER_RING_CAP_BYTES" "ch_max_resizes h = KEEPER_MAX_HISTORY_RESIZE_RECORDS"
  shows "\<exists>p. history_encode (ordered h) = Ok p \<and> length p + MUX_FRAME_HEADER_BYTES \<le> KEEPER_MAX_MUX_FRAME_BYTES"
proof -
  have ok: "ring_ok h" using assms(1) by (simp add: keeps_stream_def)
  obtain pre where pre: "items = pre @ replayed (ordered h)"
    "geometry_after start pre = (hrs_base_cols (ordered h), hrs_base_rows (ordered h))"
    using ordered_keeps(1) [OF assms(1)] by blast
  have wire: "list_all item_wire_ok pre" "list_all item_wire_ok (replayed (ordered h))" using assms(3) by (simp_all add: pre(1))
  have base: "geometry_wire_ok (hrs_base_cols (ordered h), hrs_base_rows (ordered h))"
    using geometry_after_ok [OF assms(2) wire(1)] by (simp add: pre(2))
  have recs: "list_all record_ok (hrs_records (ordered h))"
    using records_from_items ordered_replays [OF ok] wire(2) unfolding replayed_def by blast
  have count: "length (hrs_records (ordered h)) \<le> MAX_HISTORY_RECORDS"
    using ordered_replays [OF ok] ok assms(6) unfolding ring_ok_def by (simp add: MAX_HISTORY_RECORDS_def keeper_limits)
  have win: "length (window (ordered h)) \<le> KEEPER_RING_CAP_BYTES" "length (window (ordered h)) \<le> hrs_head_seq (ordered h)"
    using ordered_keeps(2,3) [OF assms(1)] assms(1,5) by (simp_all add: keeps_stream_def)
  have size: "HISTORY_HEADER_BYTES + records_size (hrs_records (ordered h)) \<le> MAX_HISTORY_PAYLOAD_BYTES"
    using records_size_bound [of "hrs_records (ordered h)"] count win(1)
    by (simp add: window_def history_limits keeper_limits KEEPER_RING_CAP_BYTES_def)
  have "hrs_head_seq (ordered h) \<le> MAX_SAFE_INTEGER" using ordered_keeps(2) [OF assms(1)] assms(4) by simp
  then obtain p where p: "history_encode (ordered h) = Ok p" "length p = HISTORY_HEADER_BYTES + records_size (hrs_records (ordered h))"
    using base recs count win(2) size unfolding history_encode_iff by (auto simp: HISTORY_HEADER_BYTES_def)
  with size show ?thesis by (auto simp: history_limits keeper_limits)
qed

text \<open>
  The keeper can always answer for a live channel: at the shipped limits, after any sequence of output
  and geometry changes whose dimensions and sequence numbers are legal and whose bytes stay below the
  largest exact counter, the ordered history encodes. None of the encoder's refusals is reachable, and
  the payload fits the socket's envelope.
\<close>

theorem history_always_encodes:
  assumes "list_all item_wire_ok (stream_of ps)" "byte_count (stream_of ps) \<le> MAX_SAFE_INTEGER"
    and "0 < cols" "cols \<le> KEEPER_MAX_TERMINAL_DIMENSION" "0 < rows" "rows \<le> KEEPER_MAX_TERMINAL_DIMENSION"
  shows "\<exists>p. history_encode (ordered (fold channel_exec ps (channel_history_new cols rows))) = Ok p
    \<and> length p + MUX_FRAME_HEADER_BYTES \<le> KEEPER_MAX_MUX_FRAME_BYTES"
proof -
  have new: "channel_history_new cols rows = new_with (cols, rows) KEEPER_RING_CAP_BYTES KEEPER_MAX_HISTORY_RESIZE_RECORDS"
    by (simp add: channel_history_new_def new_with_def)
  show ?thesis using history_encodes [OF run_keeps] assms unfolding new by simp
qed

theorem history_always_encodes_witness:
  "\<exists>p. history_encode (ordered (fold channel_exec [Emitted [104], Resized 1 120 40, Emitted [105]] (channel_history_new 80 24))) = Ok p"
  using history_always_encodes [of "[Emitted [104], Resized 1 120 40, Emitted [105]]" 80 24]
  by (auto simp: stream_of_def history_limits keeper_limits)

end
