(* ===== verification/Keeper_Daemon.thy ===== *)
theory Keeper_Daemon
  imports Keeper_Lanes Keeper_Retention
begin

text \<open>
  The keeper's channel registry and dispatcher (\<^verbatim>\<open>roost-keeper/src/keeper.rs\<close>, \<^verbatim>\<open>keeper_ops.rs\<close>), the state of one
  PTY channel (\<^verbatim>\<open>pty_channel.rs\<close>), the answering half of a connection (\<^verbatim>\<open>server/connection.rs\<close>) and the
  daemon's exit decision (\<^verbatim>\<open>bin/roost-keeper.rs\<close>).

  Three things lie outside the sources and are arguments: serde's JSON encoding and decoding and the
  digest behind the capability check (\<open>keeper_env\<close>), and what the operating system answers while a
  frame is handled (\<open>host\<close>): whether a PTY opens, whether a resize reaches it, whether its child has
  exited, and in which order the channel map is iterated.
\<close>

section \<open>Messages and the environment\<close>

record shell_spec =
  ss_program :: string
  ss_args :: "string list"
  ss_env :: "(string \<times> string) list"
  ss_cwd :: "string option"

record spawn_request =
  sp_channel_id :: nat
  sp_cols :: nat
  sp_rows :: nat
  sp_shell_spec :: shell_spec

record channel_binding =
  cb_channel_id :: nat
  cb_pid :: nat

record keeper_hello_request =
  khq_version :: nat
  khq_capability :: string
  khq_features :: "string list"
  khq_pid :: "nat option"
  khq_process_epoch :: "string option"

definition KEEPER_PROTOCOL_VERSION :: nat where "KEEPER_PROTOCOL_VERSION = 3"

record keeper_contract =
  kct_protocol_version :: nat
  kct_supported_features :: "string list"
  kct_required_features :: "string list"
  kct_implementation_digest :: "string option"
  kct_bun_abi :: string
  kct_platform :: string
  kct_arch :: string
  kct_build_sha :: string

record keeper_hello_response =
  khr_version :: nat
  khr_authenticated :: bool
  khr_features :: "keeper_feature list"
  khr_contract :: keeper_contract
  khr_pid :: nat
  khr_process_epoch :: "string option"
  khr_bindings :: "channel_binding list"
  khr_spawning_channels :: "nat list"

datatype spawn_error =
    BadChannelId nat
  | SpawnBadDimension string nat nat
  | BadCwd string string
  | PtyError string

datatype json_body =
    HelloBody keeper_hello_response
  | ListChannelsBody "channel_binding list"
  | SpawnAckBody nat nat
  | SpawnErrBody nat spawn_error
  | ExitBody "int option"

record keeper_env =
  env_json :: "json_body \<Rightarrow> byte list option"
  env_parse_hello :: "byte list \<Rightarrow> keeper_hello_request option"
  env_parse_spawn :: "byte list \<Rightarrow> spawn_request option"
  env_parse_resize :: "byte list \<Rightarrow> (nat \<times> nat) option"
  env_digest :: "string \<Rightarrow> byte list"
  env_pid :: nat
  env_implementation_digest :: "string option"
  env_bun_abi :: string
  env_platform :: string
  env_arch :: string
  env_build_sha :: string

record host =
  host_openpty :: "nat \<Rightarrow> nat \<Rightarrow> (string, unit) result"
  host_metadata :: "string \<Rightarrow> (string, unit) result"
  host_open :: "spawn_request \<Rightarrow> (string, nat option) result"
  host_resize :: "nat \<Rightarrow> nat \<Rightarrow> nat \<Rightarrow> (string, unit) result"
  host_exited :: "nat \<Rightarrow> int option"
  host_order :: "nat list"

definition mux_frame_json :: "keeper_env \<Rightarrow> mux_frame_type \<Rightarrow> nat \<Rightarrow> json_body \<Rightarrow> mux_frame codec_result" where
  "mux_frame_json env frame_type channel_id body =
     (case env_json env body of None \<Rightarrow> Err (BadJson ''frame'') | Some payload \<Rightarrow> mux_frame_new frame_type channel_id payload)"

section \<open>One PTY channel\<close>

record pty_channel =
  pc_channel_id :: nat
  pc_pid :: "nat option"
  pc_output :: output_ring
  pc_input :: input_lane
  pc_applied_seq :: nat
  pc_cols :: nat
  pc_rows :: nat

text \<open>Opening the pair, looking at the working directory, and starting the child with its reader and its writer, in the order the code has them.\<close>

definition check_cwd :: "host \<Rightarrow> string option \<Rightarrow> (spawn_error, unit) result" where
  "check_cwd host cwd =
     (case cwd of
        None \<Rightarrow> Ok ()
      | Some path \<Rightarrow> (case host_metadata host path of Inl reason \<Rightarrow> Err (BadCwd path reason) | Inr _ \<Rightarrow> Ok ()))"

definition pty_spawn :: "host \<Rightarrow> spawn_request \<Rightarrow> (spawn_error, pty_channel) result" where
  "pty_spawn host request =
     (if sp_channel_id request = 0 then Err (BadChannelId (sp_channel_id request))
      else if sp_cols request = 0 \<or> KEEPER_MAX_TERMINAL_DIMENSION < sp_cols request
        then Err (SpawnBadDimension ''column count'' (sp_cols request) KEEPER_MAX_TERMINAL_DIMENSION)
      else if sp_rows request = 0 \<or> KEEPER_MAX_TERMINAL_DIMENSION < sp_rows request
        then Err (SpawnBadDimension ''row count'' (sp_rows request) KEEPER_MAX_TERMINAL_DIMENSION)
      else case host_openpty host (sp_cols request) (sp_rows request) of
             Inl reason \<Rightarrow> Err (PtyError reason)
           | Inr _ \<Rightarrow>
      (case check_cwd host (ss_cwd (sp_shell_spec request)) of
             Inl e \<Rightarrow> Err e
           | Inr _ \<Rightarrow>
      (case host_open host request of
             Inl reason \<Rightarrow> Err (PtyError reason)
           | Inr pid \<Rightarrow>
               Ok \<lparr>pc_channel_id = sp_channel_id request, pc_pid = pid, pc_output = output_ring_new,
                   pc_input = lane_start (sp_channel_id request), pc_applied_seq = 0,
                   pc_cols = sp_cols request, pc_rows = sp_rows request\<rparr>)))"

definition resize_master :: "host \<Rightarrow> nat \<Rightarrow> nat \<Rightarrow> pty_channel \<Rightarrow> (spawn_error, pty_channel) result" where
  "resize_master host cols rows pc =
     (if cols = 0 \<or> rows = 0 then Err (SpawnBadDimension ''geometry'' (max cols rows) u16_max)
      else case host_resize host (pc_channel_id pc) cols rows of
             Inl reason \<Rightarrow> Err (PtyError reason)
           | Inr _ \<Rightarrow> Ok (pc\<lparr>pc_cols := cols, pc_rows := rows\<rparr>))"

definition apply_resize :: "host \<Rightarrow> nat \<Rightarrow> nat \<Rightarrow> nat \<Rightarrow> pty_channel \<Rightarrow> (spawn_error, pty_channel) result" where
  "apply_resize host s cols rows pc =
     (if s \<le> pc_applied_seq pc then Ok pc
      else res_bind (resize_master host cols rows pc) (\<lambda>pc'. Ok (pc'\<lparr>pc_applied_seq := s\<rparr>)))"

definition apply_unsequenced_resize :: "host \<Rightarrow> nat \<Rightarrow> nat \<Rightarrow> pty_channel \<Rightarrow> (spawn_error, pty_channel) result" where
  "apply_unsequenced_resize host cols rows pc = resize_master host cols rows pc"

definition pty_terminal_state :: "pty_channel \<Rightarrow> terminal_state" where
  "pty_terminal_state pc = \<lparr>ts_applied_seq = pc_applied_seq pc, ts_cols = pc_cols pc, ts_rows = pc_rows pc\<rparr>"

definition pty_exited :: "host \<Rightarrow> pty_channel \<Rightarrow> int option \<times> pty_channel" where
  "pty_exited host pc =
     (case host_exited host (pc_channel_id pc) of
        None \<Rightarrow> (None, pc)
      | Some status \<Rightarrow> (Some status, pc\<lparr>pc_input := mark_exited (pc_input pc)\<rparr>))"

definition enqueue_input ::
  "host \<Rightarrow> byte list \<Rightarrow> input_reply \<Rightarrow> pty_channel \<Rightarrow> (pty_in_reject_reason, unit) result \<times> pty_channel" where
  "enqueue_input host bytes reply pc =
     (case pty_exited host pc of
        (Some _, pc') \<Rightarrow> (Err ChildExited, pc')
      | (None, pc') \<Rightarrow>
          (case lane_enqueue bytes reply (pc_input pc') of (queued, lane) \<Rightarrow>
             (if queued then Ok () else Err QueueFull, pc'\<lparr>pc_input := lane\<rparr>)))"

definition read_output :: "nat \<Rightarrow> pty_channel \<Rightarrow> byte list option \<times> pty_channel" where
  "read_output limit pc = (case ring_take limit (pc_output pc) of (out, ring) \<Rightarrow> (out, pc\<lparr>pc_output := ring\<rparr>))"

definition pty_output_backlogged :: "pty_channel \<Rightarrow> bool \<times> pty_channel" where
  "pty_output_backlogged pc = (case is_drained (pc_output pc) of (drained, ring) \<Rightarrow> (\<not> drained, pc\<lparr>pc_output := ring\<rparr>))"

definition output_closed :: "pty_channel \<Rightarrow> bool \<times> pty_channel" where
  "output_closed pc = (case is_eof (pc_output pc) of (eof, ring) \<Rightarrow> (eof, pc\<lparr>pc_output := ring\<rparr>))"

text \<open>Killing leaves an exited child alone; \<open>True\<close> is the signal sent to the channel's process tree.\<close>

definition pty_kill :: "host \<Rightarrow> pty_channel \<Rightarrow> bool \<times> pty_channel" where
  "pty_kill host pc =
     (case pty_exited host pc of
        (Some _, pc') \<Rightarrow> (False, pc')
      | (None, pc') \<Rightarrow> (pc_pid pc' \<noteq> None, pc'))"

section \<open>The registry\<close>

record channel =
  chn_pty :: pty_channel
  chn_history :: channel_history

text \<open>\<open>kp_killed\<close> lists the processes whose trees were signalled, the one effect of the keeper outside its own state.\<close>

record keeper =
  kp_channels :: "nat \<rightharpoonup> channel"
  kp_contract :: keeper_contract
  kp_input_route :: input_route
  kp_process_epoch :: "string option"
  kp_killed :: "nat list"

definition sorted_feature_names :: "keeper_feature list \<Rightarrow> string list" where
  "sorted_feature_names features = remdups_adj (sort (map wire_name features))"

definition contract :: "keeper_env \<Rightarrow> keeper_contract" where
  "contract env = \<lparr>kct_protocol_version = KEEPER_PROTOCOL_VERSION, kct_supported_features = sorted_feature_names SUPPORTED,
     kct_required_features = sorted_feature_names REQUIRED, kct_implementation_digest = env_implementation_digest env,
     kct_bun_abi = env_bun_abi env, kct_platform = env_platform env, kct_arch = env_arch env, kct_build_sha = env_build_sha env\<rparr>"

definition keeper_new :: "keeper_env \<Rightarrow> string option \<Rightarrow> keeper" where
  "keeper_new env epoch = \<lparr>kp_channels = Map.empty, kp_contract = contract env, kp_input_route = input_route_new,
     kp_process_epoch = epoch, kp_killed = []\<rparr>"

definition keeper_is_empty :: "keeper \<Rightarrow> bool" where
  "keeper_is_empty k \<longleftrightarrow> kp_channels k = Map.empty"

definition attach_input_results :: "keeper \<Rightarrow> nat \<times> keeper" where
  "attach_input_results k = (case route_attach (kp_input_route k) of (g, r) \<Rightarrow> (g, k\<lparr>kp_input_route := r\<rparr>))"

definition detach_input_results :: "keeper \<Rightarrow> keeper" where
  "detach_input_results k = k\<lparr>kp_input_route := route_detach (kp_input_route k)\<rparr>"

definition put_pty :: "nat \<Rightarrow> pty_channel \<Rightarrow> keeper \<Rightarrow> keeper" where
  "put_pty channel_id pc k = k\<lparr>kp_channels := update_entry channel_id (\<lambda>ch. ch\<lparr>chn_pty := pc\<rparr>) (kp_channels k)\<rparr>"

definition kill_channel :: "host \<Rightarrow> nat \<Rightarrow> keeper \<Rightarrow> keeper" where
  "kill_channel host channel_id k =
     (case kp_channels k channel_id of
        None \<Rightarrow> k
      | Some ch \<Rightarrow>
          (case pty_kill host (chn_pty ch) of (signalled, pc) \<Rightarrow>
             (put_pty channel_id pc k)\<lparr>kp_killed := kp_killed k @ (if signalled then [the (pc_pid pc)] else [])\<rparr>))"

section \<open>The per-frame handlers\<close>

type_synonym handled = "keeper \<times> mux_frame list codec_result"

definition one_frame :: "mux_frame codec_result \<Rightarrow> mux_frame list codec_result" where
  "one_frame f = res_bind f (\<lambda>frame. Ok [frame])"

definition live_bindings :: "host \<Rightarrow> keeper \<Rightarrow> channel_binding list" where
  "live_bindings host k = sort_key cb_channel_id (List.map_filter (\<lambda>channel_id.
     case kp_channels k channel_id of
       None \<Rightarrow> None
     | Some ch \<Rightarrow> map_option (\<lambda>pid. \<lparr>cb_channel_id = pc_channel_id (chn_pty ch), cb_pid = pid\<rparr>) (pc_pid (chn_pty ch))) (host_order host))"

definition hello_response :: "keeper_env \<Rightarrow> host \<Rightarrow> keeper_hello_request \<Rightarrow> keeper \<Rightarrow> keeper_hello_response" where
  "hello_response env host request k = \<lparr>khr_version = KEEPER_PROTOCOL_VERSION, khr_authenticated = True,
     khr_features = negotiate_features (khq_features request), khr_contract = kp_contract k, khr_pid = env_pid env,
     khr_process_epoch = kp_process_epoch k, khr_bindings = live_bindings host k, khr_spawning_channels = []\<rparr>"

definition answer_hello :: "keeper_env \<Rightarrow> host \<Rightarrow> mux_frame \<Rightarrow> keeper \<Rightarrow> mux_frame list codec_result" where
  "answer_hello env host frame k =
     (case env_parse_hello env (mf_payload frame) of
        None \<Rightarrow> Err (BadJson ''Hello'')
      | Some request \<Rightarrow> one_frame (mux_frame_json env MuxHelloResp 0 (HelloBody (hello_response env host request k))))"

definition list_channels :: "keeper_env \<Rightarrow> host \<Rightarrow> keeper \<Rightarrow> mux_frame list codec_result" where
  "list_channels env host k = one_frame (mux_frame_json env MuxListChannelsResp 0 (ListChannelsBody (live_bindings host k)))"

definition shutdown_if_empty :: "keeper \<Rightarrow> mux_frame list codec_result" where
  "shutdown_if_empty k =
     one_frame (mux_frame_new (if keeper_is_empty k then MuxShutdownIfEmptyAck else MuxShutdownIfEmptyReject) 0 [])"

definition spawn :: "keeper_env \<Rightarrow> host \<Rightarrow> mux_frame \<Rightarrow> keeper \<Rightarrow> handled" where
  "spawn env host frame k =
     (case env_parse_spawn env (mf_payload frame) of
        None \<Rightarrow> (k, Err (BadJson ''Spawn''))
      | Some request \<Rightarrow>
          let channel_id = sp_channel_id request;
              k' = kill_channel host channel_id k;
              k'' = k'\<lparr>kp_channels := (kp_channels k')(channel_id := None)\<rparr>
          in case pty_spawn host request of
               Inr pc \<Rightarrow>
                 (k''\<lparr>kp_channels := (kp_channels k'')(channel_id \<mapsto>
                     \<lparr>chn_pty = pc, chn_history = channel_history_new (sp_cols request) (sp_rows request)\<rparr>)\<rparr>,
                  one_frame (mux_frame_json env MuxSpawnAck channel_id
                    (SpawnAckBody channel_id (case pc_pid pc of None \<Rightarrow> 0 | Some pid \<Rightarrow> pid))))
             | Inl e \<Rightarrow> (k'', one_frame (mux_frame_json env MuxSpawnErr channel_id (SpawnErrBody channel_id e))))"

definition legacy_input :: "host \<Rightarrow> mux_frame \<Rightarrow> keeper \<Rightarrow> keeper \<times> mux_frame list" where
  "legacy_input host frame k =
     (if mf_payload frame = [] \<or> KEEPER_MAX_INPUT_BYTES < length (mf_payload frame) then (k, [])
      else case kp_channels k (mf_channel_id frame) of
             None \<Rightarrow> (k, [])
           | Some ch \<Rightarrow> (put_pty (mf_channel_id frame) (snd (enqueue_input host (mf_payload frame) Unacknowledged (chn_pty ch))) k, []))"

definition result_frame :: "mux_frame_type \<Rightarrow> nat \<Rightarrow> pty_in_result \<Rightarrow> mux_frame codec_result" where
  "result_frame tag channel_id result = mux_frame_new tag channel_id (pty_in_result_encode result)"

definition sequenced_input :: "host \<Rightarrow> mux_frame \<Rightarrow> keeper \<Rightarrow> handled" where
  "sequenced_input host frame k =
     (case pty_in_request_decode (mf_payload frame) ''PtyInRequest'' of
        Inl e \<Rightarrow> (k, Err e)
      | Inr request \<Rightarrow>
          let refuse = (\<lambda>reason. one_frame (result_frame MuxPtyInReject (mf_channel_id frame) (PtyReject (pir_input_seq request) reason)));
              reply = Acknowledged (pir_input_seq request) (route_current (kp_input_route k))
          in case kp_channels k (mf_channel_id frame) of
               None \<Rightarrow> (k, refuse NoSuchChannel)
             | Some ch \<Rightarrow>
                 (case enqueue_input host (pir_bytes request) reply (chn_pty ch) of
                    (Inr _, pc) \<Rightarrow> (put_pty (mf_channel_id frame) pc k, Ok [])
                  | (Inl reason, pc) \<Rightarrow> (put_pty (mf_channel_id frame) pc k, refuse reason)))"

definition resize_reject :: "nat \<Rightarrow> nat \<Rightarrow> byte \<Rightarrow> mux_frame codec_result" where
  "resize_reject channel_id s reason = mux_frame_new MuxResizeReject channel_id (write_sequence [] s @ [reason])"

definition legacy_resize :: "keeper_env \<Rightarrow> host \<Rightarrow> mux_frame \<Rightarrow> keeper \<Rightarrow> handled" where
  "legacy_resize env host frame k =
     (case env_parse_resize env (mf_payload frame) of
        None \<Rightarrow> (k, Err (BadJson ''Resize''))
      | Some (cols, rows) \<Rightarrow>
          (case kp_channels k (mf_channel_id frame) of
             None \<Rightarrow> (k, Ok [])
           | Some ch \<Rightarrow>
               (case apply_unsequenced_resize host cols rows (chn_pty ch) of
                  Inl _ \<Rightarrow> (k, Ok [])
                | Inr pc \<Rightarrow>
                    (k\<lparr>kp_channels := (kp_channels k)(mf_channel_id frame \<mapsto>
                        ch\<lparr>chn_pty := pc, chn_history := record_resize 0 cols rows (chn_history ch)\<rparr>)\<rparr>, Ok []))))"

definition resize_ack :: "nat \<Rightarrow> terminal_state \<Rightarrow> mux_frame list codec_result" where
  "resize_ack channel_id state =
     res_bind (resize_request_encode \<lparr>rz_seq = ts_applied_seq state, rz_cols = ts_cols state, rz_rows = ts_rows state\<rparr>)
       (\<lambda>payload. one_frame (mux_frame_new MuxResizeAck channel_id payload))"

definition sequenced_resize :: "host \<Rightarrow> mux_frame \<Rightarrow> keeper \<Rightarrow> handled" where
  "sequenced_resize host frame k =
     (case resize_request_decode (mf_payload frame) ''ResizeRequest'' of
        Inl e \<Rightarrow> (k, Err e)
      | Inr request \<Rightarrow>
          (case kp_channels k (mf_channel_id frame) of
             None \<Rightarrow> (k, one_frame (resize_reject (mf_channel_id frame) (rz_seq request) 1))
           | Some ch \<Rightarrow>
               let before = ts_applied_seq (pty_terminal_state (chn_pty ch))
               in case apply_resize host (rz_seq request) (rz_cols request) (rz_rows request) (chn_pty ch) of
                    Inr pc \<Rightarrow>
                      let state = pty_terminal_state pc;
                          history = (if before < rz_seq request \<and> ts_applied_seq state = rz_seq request
                                     then record_resize (rz_seq request) (ts_cols state) (ts_rows state) (chn_history ch)
                                     else chn_history ch)
                      in (k\<lparr>kp_channels := (kp_channels k)(mf_channel_id frame \<mapsto> ch\<lparr>chn_pty := pc, chn_history := history\<rparr>)\<rparr>,
                          resize_ack (mf_channel_id frame) state)
                  | Inl _ \<Rightarrow> (k, one_frame (resize_reject (mf_channel_id frame) (rz_seq request) 1))))"

definition state_of :: "nat \<Rightarrow> keeper \<Rightarrow> terminal_state" where
  "state_of channel_id k =
     (case kp_channels k channel_id of
        None \<Rightarrow> \<lparr>ts_applied_seq = 0, ts_cols = 80, ts_rows = 24\<rparr>
      | Some ch \<Rightarrow> pty_terminal_state (chn_pty ch))"

definition resize_status :: "mux_frame \<Rightarrow> keeper \<Rightarrow> mux_frame list codec_result" where
  "resize_status frame k = resize_ack (mf_channel_id frame) (state_of (mf_channel_id frame) k)"

definition terminal_state_frames :: "mux_frame \<Rightarrow> keeper \<Rightarrow> mux_frame list codec_result" where
  "terminal_state_frames frame k =
     res_bind (terminal_state_encode (state_of (mf_channel_id frame) k))
       (\<lambda>payload. one_frame (mux_frame_new MuxGetTerminalStateResp (mf_channel_id frame) payload))"

definition ordered_history :: "nat \<Rightarrow> keeper \<Rightarrow> history_records" where
  "ordered_history channel_id k =
     (case kp_channels k channel_id of None \<Rightarrow> unknown_channel | Some ch \<Rightarrow> ordered (chn_history ch))"

definition history_records_frames :: "mux_frame \<Rightarrow> keeper \<Rightarrow> mux_frame list codec_result" where
  "history_records_frames frame k =
     res_bind (history_encode (ordered_history (mf_channel_id frame) k))
       (\<lambda>payload. one_frame (mux_frame_new MuxGetHistoryRecordsResp (mf_channel_id frame) payload))"

definition legacy_history :: "nat \<Rightarrow> keeper \<Rightarrow> (nat \<times> byte list) option" where
  "legacy_history channel_id k =
     map_option (\<lambda>ch. (ch_head_seq (chn_history ch), ring_bytes (chn_history ch))) (kp_channels k channel_id)"

definition legacy_history_resp :: "mux_frame \<Rightarrow> keeper \<Rightarrow> mux_frame list codec_result" where
  "legacy_history_resp frame k =
     (let (head_seq, ring) = (case legacy_history (mf_channel_id frame) k of None \<Rightarrow> (0, []) | Some p \<Rightarrow> p)
      in one_frame (mux_frame_new MuxGetHistoryResp (mf_channel_id frame) (be_bytes 8 head_seq @ ring)))"

section \<open>Dispatch\<close>

text \<open>A guarded arm that does not match falls through to the last one, which ignores the frame.\<close>

definition keeper_dispatch :: "keeper_env \<Rightarrow> host \<Rightarrow> mux_frame \<Rightarrow> keeper \<Rightarrow> handled" where
  "keeper_dispatch env host frame k =
     (let control_only = (mf_channel_id frame = 0); per_channel = (mf_channel_id frame \<noteq> 0);
          ignored = (k, Ok [])
      in case mf_frame_type frame of
           MuxPing \<Rightarrow> (k, one_frame (mux_frame_new MuxPong 0 []))
         | MuxPong \<Rightarrow> (k, Ok [])
         | MuxHello \<Rightarrow> if control_only then (k, answer_hello env host frame k) else ignored
         | MuxListChannels \<Rightarrow> if control_only then (k, list_channels env host k) else ignored
         | MuxShutdown \<Rightarrow> if control_only then (k, one_frame (mux_frame_new MuxShutdownAck 0 [])) else ignored
         | MuxShutdownIfEmpty \<Rightarrow> if control_only then (k, shutdown_if_empty k) else ignored
         | MuxSpawn \<Rightarrow> if per_channel then spawn env host frame k else ignored
         | MuxPtyIn \<Rightarrow> if per_channel then (case legacy_input host frame k of (k', frames) \<Rightarrow> (k', Ok frames)) else ignored
         | MuxPtyInRequest \<Rightarrow> if per_channel then sequenced_input host frame k else ignored
         | MuxResize \<Rightarrow> if per_channel then legacy_resize env host frame k else ignored
         | MuxResizeRequest \<Rightarrow> if per_channel then sequenced_resize host frame k else ignored
         | MuxResizeStatus \<Rightarrow> if per_channel then (k, resize_status frame k) else ignored
         | MuxGetTerminalState \<Rightarrow> if per_channel then (k, terminal_state_frames frame k) else ignored
         | MuxGetHistoryRecords \<Rightarrow> if per_channel then (k, history_records_frames frame k) else ignored
         | MuxGetHistory \<Rightarrow> if per_channel then (k, legacy_history_resp frame k) else ignored
         | MuxKillChild \<Rightarrow> if per_channel then (kill_channel host (mf_channel_id frame) k, Ok []) else ignored
         | _ \<Rightarrow> ignored)"

definition keeper_reject :: "mux_frame \<Rightarrow> mux_frame list" where
  "keeper_reject frame =
     (case mf_frame_type frame of
        MuxPtyInRequest \<Rightarrow>
          (case result_frame MuxPtyInReject (mf_channel_id frame) (PtyReject 0 NoSuchChannel) of
             Inr rejection \<Rightarrow> [rejection] | Inl _ \<Rightarrow> [])
      | _ \<Rightarrow> [])"

definition keeper_handle :: "keeper_env \<Rightarrow> host \<Rightarrow> mux_frame \<Rightarrow> keeper \<Rightarrow> keeper \<times> mux_frame list" where
  "keeper_handle env host frame k =
     (case keeper_dispatch env host frame k of
        (k', Inr frames) \<Rightarrow> (k', frames)
      | (k', Inl _) \<Rightarrow> (k', keeper_reject frame))"

section \<open>Draining and reaping\<close>

fun drain_channels :: "nat \<Rightarrow> nat list \<Rightarrow> keeper \<Rightarrow> mux_frame list \<Rightarrow> handled" where
  "drain_channels limit [] k frames = (k, Ok frames)"
| "drain_channels limit (channel_id # order) k frames =
     (case kp_channels k channel_id of
        None \<Rightarrow> drain_channels limit order k frames
      | Some ch \<Rightarrow>
          (case read_output limit (chn_pty ch) of
             (None, pc) \<Rightarrow> drain_channels limit order (put_pty channel_id pc k) frames
           | (Some bytes, pc) \<Rightarrow>
               let k' = k\<lparr>kp_channels := (kp_channels k)(channel_id \<mapsto>
                          ch\<lparr>chn_pty := pc, chn_history := record_output bytes (chn_history ch)\<rparr>)\<rparr>
               in case mux_frame_new MuxPtyOut channel_id bytes of
                    Inl e \<Rightarrow> (k', Err e)
                  | Inr frame \<Rightarrow> drain_channels limit order k' (frames @ [frame])))"

definition drain_output :: "host \<Rightarrow> nat \<Rightarrow> keeper \<Rightarrow> handled" where
  "drain_output host limit k = drain_channels limit (host_order host) k []"

text \<open>The question stops at the first channel with a backlog, as \<open>any\<close> does.\<close>

fun backlogged_among :: "nat list \<Rightarrow> keeper \<Rightarrow> bool \<times> keeper" where
  "backlogged_among [] k = (False, k)"
| "backlogged_among (channel_id # order) k =
     (case kp_channels k channel_id of
        None \<Rightarrow> backlogged_among order k
      | Some ch \<Rightarrow>
          (case pty_output_backlogged (chn_pty ch) of (backlogged, pc) \<Rightarrow>
             if backlogged then (True, put_pty channel_id pc k) else backlogged_among order (put_pty channel_id pc k)))"

definition output_backlogged :: "host \<Rightarrow> keeper \<Rightarrow> bool \<times> keeper" where
  "output_backlogged host k = backlogged_among (host_order host) k"

fun finished_channels :: "host \<Rightarrow> nat list \<Rightarrow> keeper \<Rightarrow> keeper \<times> (nat \<times> int) list" where
  "finished_channels host [] k = (k, [])"
| "finished_channels host (channel_id # order) k =
     (case kp_channels k channel_id of
        None \<Rightarrow> finished_channels host order k
      | Some ch \<Rightarrow>
          (case pty_exited host (chn_pty ch) of
             (None, pc) \<Rightarrow> finished_channels host order (put_pty channel_id pc k)
           | (Some status, pc) \<Rightarrow>
               (case output_closed pc of (closed, pc') \<Rightarrow>
                  (case finished_channels host order (put_pty channel_id pc' k) of (k', rest) \<Rightarrow>
                     (k', if closed then (channel_id, status) # rest else rest)))))"

fun report_exits :: "keeper_env \<Rightarrow> (nat \<times> int) list \<Rightarrow> keeper \<Rightarrow> mux_frame list \<Rightarrow> handled" where
  "report_exits env [] k exits = (k, Ok exits)"
| "report_exits env ((channel_id, status) # finished) k exits =
     (let k' = k\<lparr>kp_channels := (kp_channels k)(channel_id := None)\<rparr>
      in case mux_frame_json env MuxExit channel_id (ExitBody (Some status)) of
           Inl e \<Rightarrow> (k', Err e)
         | Inr frame \<Rightarrow> report_exits env finished k' (exits @ [frame]))"

definition reap_exited :: "keeper_env \<Rightarrow> host \<Rightarrow> keeper \<Rightarrow> handled" where
  "reap_exited env host k =
     (case finished_channels host (host_order host) k of (k', finished) \<Rightarrow> report_exits env finished k' [])"

section \<open>A connection and the exit decision\<close>

datatype connection_end =
    ShutdownRequested | ShutdownIfEmptyAccepted | ShutdownIfEmptyRefused | ShutdownRequestedWithChannels
  | ClientDisconnected | ProtocolViolation | UnframeablePayload | WorkerUnreachable | Signalled | SocketRemoved
  | NotAuthenticated

text \<open>
  Answering what arrived, in order. The reply frames are written after each frame; whether a write
  succeeds is the list \<open>writes\<close>, one entry per frame answered.
\<close>

fun answer_events ::
  "keeper_env \<Rightarrow> host \<Rightarrow> stream_event list \<Rightarrow> bool list \<Rightarrow> bool \<Rightarrow> keeper \<Rightarrow> keeper \<times> mux_frame list \<times> connection_end option" where
  "answer_events env host [] writes stopping k =
     (k, [], if stopping then Some ShutdownRequestedWithChannels else None)"
| "answer_events env host (FailedEvent _ # events) writes stopping k = (k, [], Some ProtocolViolation)"
| "answer_events env host (FrameEvent None _ _ _ # events) writes stopping k = answer_events env host events writes stopping k"
| "answer_events env host (FrameEvent (Some frame_type) _ channel_id payload # events) writes stopping k =
     (case keeper_handle env host \<lparr>mf_frame_type = frame_type, mf_channel_id = channel_id, mf_payload = payload\<rparr> k of
        (k', replies) \<Rightarrow>
          if writes \<noteq> [] \<and> \<not> hd writes then (k', [], Some WorkerUnreachable)
          else if frame_type = MuxShutdownIfEmpty then
            (k', replies, Some (if list_ex (\<lambda>reply. mf_frame_type reply = MuxShutdownIfEmptyReject) replies
                                then ShutdownIfEmptyRefused else ShutdownIfEmptyAccepted))
          else (case answer_events env host events (tl writes) (stopping \<or> frame_type = MuxShutdown) k' of
                  (k'', later, ending) \<Rightarrow> (k'', replies @ later, ending)))"

definition capability_verify :: "keeper_env \<Rightarrow> string \<Rightarrow> string \<Rightarrow> bool" where
  "capability_verify env held presented \<longleftrightarrow>
     foldl (\<lambda>difference (left, right). Bit_Operations.or difference (Bit_Operations.xor left right)) 0
       (zip (env_digest env held) (env_digest env presented)) = 0"

definition opening_hello :: "keeper_env \<Rightarrow> stream_event \<Rightarrow> (connection_end, keeper_hello_request) result" where
  "opening_hello env first =
     (case first of
        FrameEvent (Some frame_type) _ channel_id payload \<Rightarrow>
          if frame_type = MuxHello \<and> channel_id = 0
          then (case env_parse_hello env payload of None \<Rightarrow> Err NotAuthenticated | Some request \<Rightarrow> Ok request)
          else Err NotAuthenticated
      | _ \<Rightarrow> Err NotAuthenticated)"

definition UNAUTHENTICATED_MAX_BYTES :: nat where "UNAUTHENTICATED_MAX_BYTES = 64 * 1024"
definition DRAIN_LIMIT_BYTES :: nat where "DRAIN_LIMIT_BYTES = 16 * 1024"

datatype exit_cause = ExitSignalled | ExitSocketRemoved

fun end_of_cause :: "exit_cause \<Rightarrow> connection_end" where
  "end_of_cause ExitSignalled = Signalled"
| "end_of_cause ExitSocketRemoved = SocketRemoved"

datatype loop_event = EvReceived "byte list" | EvClosed | EvOutput | EvTimeout

text \<open>
  What one turn of a connection loop meets: a reason to stop, whether the authentication deadline has
  passed, what the host answers, which of its writes to the socket succeed
  (for the exit reports, how many before one fails) and what its wait returns.
\<close>

record loop_turn =
  lt_exit :: "exit_cause option"
  lt_late :: bool
  lt_host :: host
  lt_output_written :: bool
  lt_exits_written :: nat
  lt_replies_written :: "bool list"
  lt_event :: loop_event

text \<open>The result is the frames written and how the wait ended; \<open>None\<close> when the turns given run out first.\<close>

fun authenticate ::
  "keeper_env \<Rightarrow> string \<Rightarrow> keeper \<Rightarrow> loop_turn list \<Rightarrow> frame_decoder \<Rightarrow> nat
    \<Rightarrow> (mux_frame list \<times> (connection_end, stream_event list \<times> frame_decoder) result) option" where
  "authenticate env held k [] decoder received_bytes = None"
| "authenticate env held k (turn # turns) decoder received_bytes =
     (case lt_exit turn of
        Some cause \<Rightarrow> Some ([], Err (end_of_cause cause))
      | None \<Rightarrow>
          if lt_late turn then Some ([], Err NotAuthenticated)
          else case lt_event turn of
                 EvOutput \<Rightarrow> authenticate env held k turns decoder received_bytes
               | EvTimeout \<Rightarrow> authenticate env held k turns decoder received_bytes
               | EvClosed \<Rightarrow> Some ([], Err ClientDisconnected)
               | EvReceived received \<Rightarrow>
                   let received_bytes' = received_bytes + length received
                   in if UNAUTHENTICATED_MAX_BYTES < received_bytes' then Some ([], Err NotAuthenticated)
                      else case frame_decoder_push decoder received of
                             (decoder', []) \<Rightarrow> authenticate env held k turns decoder' received_bytes'
                           | (decoder', first # events) \<Rightarrow>
                               (case opening_hello env first of
                                  Inl e \<Rightarrow> Some ([], Err e)
                                | Inr request \<Rightarrow>
                                    if \<not> capability_verify env held (khq_capability request) then Some ([], Err NotAuthenticated)
                                    else case mux_frame_json env MuxHelloResp 0
                                                (HelloBody (hello_response env (lt_host turn) request k)) of
                                           Inl _ \<Rightarrow> Some ([], Err UnframeablePayload)
                                         | Inr answer \<Rightarrow>
                                             if lt_output_written turn then Some ([answer], Ok (events, decoder'))
                                             else Some ([], Err WorkerUnreachable)))"

text \<open>One turn of the serving loop: the keeper, the frames written and whether the connection ends.\<close>

definition forward_turn ::
  "keeper_env \<Rightarrow> loop_turn \<Rightarrow> frame_decoder \<times> keeper \<Rightarrow> (frame_decoder \<times> keeper) \<times> mux_frame list \<times> connection_end option" where
  "forward_turn env turn = (\<lambda>(decoder, k).
     case lt_exit turn of
       Some cause \<Rightarrow> ((decoder, k), [], Some (end_of_cause cause))
     | None \<Rightarrow>
         (case drain_output (lt_host turn) DRAIN_LIMIT_BYTES k of
            (k1, Inl _) \<Rightarrow> ((decoder, k1), [], Some UnframeablePayload)
          | (k1, Inr output) \<Rightarrow>
              if \<not> lt_output_written turn then ((decoder, k1), [], Some WorkerUnreachable)
              else
                (case reap_exited env (lt_host turn) k1 of
                   (k2, Inl _) \<Rightarrow> ((decoder, k2), output, Some UnframeablePayload)
                 | (k2, Inr exits) \<Rightarrow>
                     if lt_exits_written turn < length exits
                     then ((decoder, k2), output @ take (lt_exits_written turn) exits, Some WorkerUnreachable)
                     else
                       let k3 = snd (output_backlogged (lt_host turn) k2)
                       in case lt_event turn of
                            EvOutput \<Rightarrow> ((decoder, k3), output @ exits, None)
                          | EvTimeout \<Rightarrow> ((decoder, k3), output @ exits, None)
                          | EvClosed \<Rightarrow> ((decoder, k3), output @ exits, Some ClientDisconnected)
                          | EvReceived received \<Rightarrow>
                              (case frame_decoder_push decoder received of (decoder', events) \<Rightarrow>
                                 (case answer_events env (lt_host turn) events (lt_replies_written turn) False k3 of
                                    (k4, replies, ending) \<Rightarrow> ((decoder', k4), output @ exits @ replies, ending))))))"

fun forward_until_end ::
  "keeper_env \<Rightarrow> loop_turn list \<Rightarrow> frame_decoder \<times> keeper \<Rightarrow> (frame_decoder \<times> keeper) \<times> mux_frame list \<times> connection_end option" where
  "forward_until_end env [] st = (st, [], None)"
| "forward_until_end env (turn # turns) st =
     (case forward_turn env turn st of
        (st', frames, Some ending) \<Rightarrow> (st', frames, Some ending)
      | (st', frames, None) \<Rightarrow>
          (case forward_until_end env turns st' of (st'', later, ending) \<Rightarrow> (st'', frames @ later, ending)))"

datatype decision = KeepServing | StopDaemon string

fun decide :: "connection_end \<Rightarrow> nat \<Rightarrow> decision" where
  "decide ShutdownRequested _ = StopDaemon ''shutdown requested''"
| "decide ShutdownRequestedWithChannels _ = StopDaemon ''shutdown requested with channels live''"
| "decide ShutdownIfEmptyAccepted _ = StopDaemon ''shutdown if empty, and empty''"
| "decide ShutdownIfEmptyRefused _ = KeepServing"
| "decide ClientDisconnected _ = KeepServing"
| "decide ProtocolViolation _ = KeepServing"
| "decide NotAuthenticated _ = KeepServing"
| "decide UnframeablePayload _ = KeepServing"
| "decide WorkerUnreachable _ = KeepServing"
| "decide Signalled _ = StopDaemon ''signalled''"
| "decide SocketRemoved _ = StopDaemon ''socket removed''"

end
