(* ===== verification/Keeper_Service.thy ===== *)
theory Keeper_Service
  imports Keeper_Daemon
begin

text \<open>
  What the keeper daemon promises a worker. The service is the keeper under every sequence of frames,
  drains, reaps and reader-thread turns, together with the stream each channel has shown its worker;
  the registry invariant ties every channel's retained history to that stream. Then: the authority of
  the resize sequence, the answers owed to requests, the authentication gate and the exit decision.
\<close>

section \<open>The service and its invariant\<close>

datatype keeper_op =
    HandleFrame host mux_frame
  | DrainOutput host
  | ReapExited host
  | AskBacklog host
  | PumpChannel nat read_result
  | LaneTurn nat "input_lane \<Rightarrow> input_lane"
  | AttachResults
  | DetachResults

text \<open>Frames sent to the worker; a drain or a reap that cannot frame its payload sends nothing.\<close>

definition sent :: "handled \<Rightarrow> keeper \<times> mux_frame list" where
  "sent r = (case r of (k, Inr frames) \<Rightarrow> (k, frames) | (k, Inl _) \<Rightarrow> (k, []))"

definition pump_channel :: "nat \<Rightarrow> read_result \<Rightarrow> keeper \<Rightarrow> keeper" where
  "pump_channel c result k =
     (case kp_channels k c of
        None \<Rightarrow> k
      | Some ch \<Rightarrow>
          (case pump_pty_output result (pc_output (chn_pty ch)) of
             None \<Rightarrow> k
           | Some ring \<Rightarrow> put_pty c ((chn_pty ch)\<lparr>pc_output := ring\<rparr>) k))"

definition lane_turn :: "nat \<Rightarrow> (input_lane \<Rightarrow> input_lane) \<Rightarrow> keeper \<Rightarrow> keeper" where
  "lane_turn c f k =
     (case kp_channels k c of
        None \<Rightarrow> k
      | Some ch \<Rightarrow> put_pty c ((chn_pty ch)\<lparr>pc_input := f (pc_input (chn_pty ch))\<rparr>) k)"

fun keeper_exec :: "keeper_env \<Rightarrow> keeper_op \<Rightarrow> keeper \<Rightarrow> keeper \<times> mux_frame list" where
  "keeper_exec env (HandleFrame host frame) k = keeper_handle env host frame k"
| "keeper_exec env (DrainOutput host) k = sent (drain_output host DRAIN_LIMIT_BYTES k)"
| "keeper_exec env (ReapExited host) k = sent (reap_exited env host k)"
| "keeper_exec env (AskBacklog host) k = (snd (output_backlogged host k), [])"
| "keeper_exec env (PumpChannel c result) k = (pump_channel c result k, [])"
| "keeper_exec env (LaneTurn c f) k = (lane_turn c f k, [])"
| "keeper_exec env AttachResults k = (snd (attach_input_results k), [])"
| "keeper_exec env DetachResults k = (detach_input_results k, [])"

text \<open>The output a batch of frames carries for one channel.\<close>

definition out_bytes :: "nat \<Rightarrow> mux_frame list \<Rightarrow> byte list" where
  "out_bytes c frames = concat (map mf_payload (filter (\<lambda>f. mf_frame_type f = MuxPtyOut \<and> mf_channel_id f = c) frames))"

text \<open>The geometry change a frame makes to its PTY: a resize the host carried out, under its sequence.\<close>

definition resized :: "keeper_env \<Rightarrow> host \<Rightarrow> mux_frame \<Rightarrow> keeper \<Rightarrow> nat \<Rightarrow> stream_item list" where
  "resized env host frame k c =
     (case kp_channels k c of
        None \<Rightarrow> []
      | Some ch \<Rightarrow>
          if c = 0 \<or> mf_channel_id frame \<noteq> c then []
          else if mf_frame_type frame = MuxResizeRequest then
            (case resize_request_decode (mf_payload frame) ''ResizeRequest'' of
               Inr r \<Rightarrow> if pc_applied_seq (chn_pty ch) < rz_seq r \<and> host_resize host c (rz_cols r) (rz_rows r) = Inr ()
                        then [StreamGeometry (rz_seq r) (rz_cols r) (rz_rows r)] else []
             | Inl _ \<Rightarrow> [])
          else if mf_frame_type frame = MuxResize then
            (case env_parse_resize env (mf_payload frame) of
               Some (cols, rows) \<Rightarrow> if 0 < cols \<and> 0 < rows \<and> host_resize host c cols rows = Inr ()
                                    then [StreamGeometry 0 cols rows] else []
             | None \<Rightarrow> [])
          else [])"

text \<open>The channel a spawn opened, and the geometry it opened at.\<close>

definition opened :: "keeper_env \<Rightarrow> host \<Rightarrow> mux_frame \<Rightarrow> (nat \<times> nat \<times> nat) option" where
  "opened env host frame =
     (if mf_frame_type frame = MuxSpawn \<and> mf_channel_id frame \<noteq> 0
      then (case env_parse_spawn env (mf_payload frame) of
              None \<Rightarrow> None
            | Some request \<Rightarrow>
                (case pty_spawn host request of
                   Inl _ \<Rightarrow> None | Inr _ \<Rightarrow> Some (sp_channel_id request, sp_cols request, sp_rows request)))
      else None)"

record service =
  sv_keeper :: keeper
  sv_start :: "nat \<Rightarrow> nat \<times> nat"
  sv_stream :: "nat \<Rightarrow> stream_item list"

definition service_new :: "keeper_env \<Rightarrow> string option \<Rightarrow> service" where
  "service_new env epoch = \<lparr>sv_keeper = keeper_new env epoch, sv_start = \<lambda>_. (0, 0), sv_stream = \<lambda>_. []\<rparr>"

definition service_exec :: "keeper_env \<Rightarrow> keeper_op \<Rightarrow> service \<Rightarrow> service" where
  "service_exec env p s =
     (case keeper_exec env p (sv_keeper s) of (k, frames) \<Rightarrow>
        let shown = (\<lambda>c. sv_stream s c @ map StreamByte (out_bytes c frames)
                         @ (case p of HandleFrame host frame \<Rightarrow> resized env host frame (sv_keeper s) c | _ \<Rightarrow> []))
        in case (case p of HandleFrame host frame \<Rightarrow> opened env host frame | _ \<Rightarrow> None) of
             None \<Rightarrow> \<lparr>sv_keeper = k, sv_start = sv_start s, sv_stream = shown\<rparr>
           | Some (c, cols, rows) \<Rightarrow> \<lparr>sv_keeper = k, sv_start = (sv_start s)(c := (cols, rows)), sv_stream = shown(c := [])\<rparr>)"

definition channel_ok :: "nat \<Rightarrow> nat \<times> nat \<Rightarrow> stream_item list \<Rightarrow> channel \<Rightarrow> bool" where
  "channel_ok c start items ch \<longleftrightarrow> c \<noteq> 0 \<and> pc_channel_id (chn_pty ch) = c \<and> geometry_wire_ok start
     \<and> keeps_stream start items (chn_history ch)
     \<and> pc_cols (chn_pty ch) = ch_current_cols (chn_history ch) \<and> pc_rows (chn_pty ch) = ch_current_rows (chn_history ch)
     \<and> ch_ring_cap (chn_history ch) = KEEPER_RING_CAP_BYTES \<and> ch_max_resizes (chn_history ch) = KEEPER_MAX_HISTORY_RESIZE_RECORDS"

definition registry_ok :: "(nat \<Rightarrow> nat \<times> nat) \<Rightarrow> (nat \<Rightarrow> stream_item list) \<Rightarrow> keeper \<Rightarrow> bool" where
  "registry_ok start items k \<longleftrightarrow> (\<forall>c ch. kp_channels k c = Some ch \<longrightarrow> channel_ok c (start c) (items c) ch)"

lemma registry_okD: "registry_ok start items k \<Longrightarrow> kp_channels k c = Some ch \<Longrightarrow> channel_ok c (start c) (items c) ch"
  by (simp add: registry_ok_def)

lemma registry_ok_put:
  assumes "registry_ok start items k" "pc_channel_id pc = pc_channel_id (chn_pty ch)" "pc_cols pc = pc_cols (chn_pty ch)"
    "pc_rows pc = pc_rows (chn_pty ch)" "kp_channels k c = Some ch"
  shows "registry_ok start items (put_pty c pc k)"
  using assms unfolding registry_ok_def put_pty_def
  by (auto simp: update_entry_apply channel_ok_def split: if_splits)

lemma registry_ok_killed [simp]: "registry_ok start items (k\<lparr>kp_killed := x\<rparr>) = registry_ok start items k"
  by (simp add: registry_ok_def)

lemma registry_ok_route [simp]: "registry_ok start items (k\<lparr>kp_input_route := x\<rparr>) = registry_ok start items k"
  by (simp add: registry_ok_def)

lemma registry_ok_remove: "registry_ok start items k \<Longrightarrow> registry_ok start items (k\<lparr>kp_channels := (kp_channels k)(c := None)\<rparr>)"
  by (simp add: registry_ok_def)

lemma registry_ok_insert:
  assumes "registry_ok start items k" "channel_ok c (start' c) (items' c) ch"
    "\<And>d. d \<noteq> c \<Longrightarrow> start' d = start d" "\<And>d. d \<noteq> c \<Longrightarrow> items' d = items d"
  shows "registry_ok start' items' (k\<lparr>kp_channels := (kp_channels k)(c \<mapsto> ch)\<rparr>)"
  using assms unfolding registry_ok_def by auto

text \<open>Reading output into the history is what the worker is shown.\<close>

lemma out_bytes_append [simp]: "out_bytes c (xs @ ys) = out_bytes c xs @ out_bytes c ys"
  by (simp add: out_bytes_def)

lemma out_bytes_Nil [simp]: "out_bytes c [] = []"
  by (simp add: out_bytes_def)

lemma read_output_keeps_pty:
  "read_output limit pc = (out, pc') \<Longrightarrow> pc_channel_id pc' = pc_channel_id pc \<and> pc_cols pc' = pc_cols pc \<and> pc_rows pc' = pc_rows pc"
  by (auto simp: read_output_def split: prod.splits)

lemma record_output_limits [simp]:
  "ch_ring_cap (record_output bytes h) = ch_ring_cap h" "ch_max_resizes (record_output bytes h) = ch_max_resizes h"
  "ch_current_cols (record_output bytes h) = ch_current_cols h" "ch_current_rows (record_output bytes h) = ch_current_rows h"
  by (auto simp: record_output_def trim_evicted_def Let_def split: prod.splits)

lemma drain_channels_ok:
  assumes "registry_ok start items k" "drain_channels limit order k frames = (k', Ok frames')"
  shows "\<exists>new. frames' = frames @ new \<and> registry_ok start (\<lambda>c. items c @ map StreamByte (out_bytes c new)) k'"
  using assms
proof (induction order arbitrary: k items frames)
  case Nil
  then show ?case by (intro exI [of _ "[]"]) simp
next
  case (Cons c order)
  show ?case
  proof (cases "kp_channels k c")
    case None
    with Cons show ?thesis by simp
  next
    case (Some ch)
    obtain out pc where out: "read_output limit (chn_pty ch) = (out, pc)" by fastforce
    note same = read_output_keeps_pty [OF out]
    show ?thesis
    proof (cases out)
      case None
      have "registry_ok start items (put_pty c pc k)" using registry_ok_put [OF Cons.prems(1) _ _ _ Some] same by simp
      with Cons.IH Cons.prems(2) Some out None show ?thesis by simp
    next
      case (Some bytes)
      let ?k = "k\<lparr>kp_channels := (kp_channels k)(c \<mapsto> ch\<lparr>chn_pty := pc, chn_history := record_output bytes (chn_history ch)\<rparr>)\<rparr>"
      obtain f where f: "mux_frame_new MuxPtyOut c bytes = Ok f" "drain_channels limit order ?k (frames @ [f]) = (k', Ok frames')"
        using Cons.prems(2) \<open>kp_channels k c = Some ch\<close> out Some by (auto simp: Let_def split: sum.splits)
      have fields: "out_bytes c [f] = bytes" "d \<noteq> c \<Longrightarrow> out_bytes d [f] = []" for d
        using f(1) by (auto simp: out_bytes_def mux_frame_new_def split: if_splits)
      have "channel_ok c (start c) (items c @ map StreamByte bytes) (ch\<lparr>chn_pty := pc, chn_history := record_output bytes (chn_history ch)\<rparr>)"
        using registry_okD [OF Cons.prems(1) \<open>kp_channels k c = Some ch\<close>] same record_output_keeps
        by (auto simp: channel_ok_def)
      then have "registry_ok start (\<lambda>d. items d @ map StreamByte (out_bytes d [f])) ?k"
        by (intro registry_ok_insert [OF Cons.prems(1)]) (simp_all add: fields)
      from Cons.IH [OF this f(2)] obtain new where
        "frames' = (frames @ [f]) @ new" "registry_ok start (\<lambda>d. (items d @ map StreamByte (out_bytes d [f])) @ map StreamByte (out_bytes d new)) k'"
        by blast
      then show ?thesis by (intro exI [of _ "[f] @ new"]) (simp only: append_assoc map_append out_bytes_append)
    qed
  qed
qed

lemma drain_channels_framed:
  assumes "limit \<le> KEEPER_MAX_MUX_FRAME_BYTES"
  shows "\<exists>k' frames'. drain_channels limit order k frames = (k', Ok frames')"
proof (induction order arbitrary: k frames)
  case (Cons c order)
  show ?case
  proof (cases "kp_channels k c")
    case None
    with Cons show ?thesis by simp
  next
    case (Some ch)
    obtain out pc where out: "read_output limit (chn_pty ch) = (out, pc)" by fastforce
    have "length bytes \<le> limit" if "out = Some bytes" for bytes
      using out that by (auto simp: read_output_def ring_take_def Let_def split: prod.splits if_splits)
    then have "\<exists>f. mux_frame_new MuxPtyOut c bytes = Ok f" if "out = Some bytes" for bytes
      using that assms by (fastforce simp: mux_frame_new_def)
    with Some out Cons show ?thesis by (cases out) (auto simp: Let_def)
  qed
qed simp

lemma backlogged_keeps: "registry_ok start items k \<Longrightarrow> registry_ok start items (snd (backlogged_among order k))"
proof (induction order arbitrary: k)
  case (Cons c order)
  show ?case
  proof (cases "kp_channels k c")
    case (Some ch)
    obtain b pc where q: "pty_output_backlogged (chn_pty ch) = (b, pc)" by fastforce
    then have "registry_ok start items (put_pty c pc k)"
      using registry_ok_put [OF Cons.prems _ _ _ Some] by (auto simp: pty_output_backlogged_def split: prod.splits)
    with Some q Cons.IH show ?thesis by simp
  qed (use Cons in simp)
qed simp

lemma pty_exited_same:
  "pty_exited host pc = (st, pc') \<Longrightarrow> pc_channel_id pc' = pc_channel_id pc \<and> pc_cols pc' = pc_cols pc \<and> pc_rows pc' = pc_rows pc
     \<and> pc_applied_seq pc' = pc_applied_seq pc \<and> pc_pid pc' = pc_pid pc"
  by (auto simp: pty_exited_def split: option.splits)

lemma output_closed_same:
  "output_closed pc = (b, pc') \<Longrightarrow> pc_channel_id pc' = pc_channel_id pc \<and> pc_cols pc' = pc_cols pc \<and> pc_rows pc' = pc_rows pc"
  by (auto simp: output_closed_def split: prod.splits)

lemma finished_keeps: "registry_ok start items k \<Longrightarrow> registry_ok start items (fst (finished_channels host order k))"
proof (induction order arbitrary: k)
  case (Cons c order)
  show ?case
  proof (cases "kp_channels k c")
    case (Some ch)
    obtain st pc where e: "pty_exited host (chn_pty ch) = (st, pc)" by fastforce
    obtain b pc' where q: "output_closed pc = (b, pc')" by fastforce
    have "registry_ok start items (put_pty c pc k)" "registry_ok start items (put_pty c pc' k)"
      using registry_ok_put [OF Cons.prems _ _ _ Some] pty_exited_same [OF e] output_closed_same [OF q] by auto
    with Some e q Cons.IH [of "put_pty c pc k"] Cons.IH [of "put_pty c pc' k"] show ?thesis
      by (cases st) (auto split: prod.splits)
  qed (use Cons in simp)
qed simp

lemma report_exits_keeps:
  assumes "registry_ok start items k" "\<forall>f \<in> set exits. mf_frame_type f = MuxExit"
  shows "registry_ok start items (fst (report_exits env finished k exits))
    \<and> (\<forall>f \<in> set (snd (sent (report_exits env finished k exits))). mf_frame_type f = MuxExit)"
  using assms
proof (induction finished arbitrary: k exits)
  case Nil
  then show ?case by (simp add: sent_def)
next
  case (Cons p finished)
  obtain c st where p: "p = (c, st)" by fastforce
  let ?k = "k\<lparr>kp_channels := (kp_channels k)(c := None)\<rparr>"
  have ok: "registry_ok start items ?k" using Cons.prems(1) by (rule registry_ok_remove)
  show ?case
  proof (cases "mux_frame_json env MuxExit c (ExitBody (Some st))")
    case (Inl e)
    with ok p show ?thesis by (simp add: sent_def)
  next
    case (Inr f)
    then have "mf_frame_type f = MuxExit" by (auto simp: mux_frame_json_def mux_frame_new_def split: option.splits if_splits)
    with Cons.IH [OF ok, of "exits @ [f]"] Cons.prems(2) Inr p show ?thesis by (simp add: Let_def)
  qed
qed

lemma no_output: "(\<And>f. f \<in> set frames \<Longrightarrow> mf_frame_type f \<noteq> MuxPtyOut) \<Longrightarrow> out_bytes c frames = []"
  by (auto simp: out_bytes_def filter_empty_conv)

section \<open>Frames keep the invariant\<close>

lemma kill_keeps: "registry_ok start items k \<Longrightarrow> registry_ok start items (kill_channel host c k)"
  using registry_ok_put [of start items k _ _ c] pty_exited_same
  by (auto simp: kill_channel_def pty_kill_def split: option.splits prod.splits)

lemma enqueue_same:
  "enqueue_input host bytes reply pc = (res, pc') \<Longrightarrow> pc_channel_id pc' = pc_channel_id pc \<and> pc_cols pc' = pc_cols pc \<and> pc_rows pc' = pc_rows pc"
  by (auto simp: enqueue_input_def dest!: pty_exited_same split: option.splits prod.splits)

lemma spawn_keeps:
  assumes "registry_ok start items k" "spawn env host frame k = (k', res)" "mf_frame_type frame = MuxSpawn" "mf_channel_id frame \<noteq> 0"
  shows "case opened env host frame of
      None \<Rightarrow> registry_ok start items k'
    | Some (c, cols, rows) \<Rightarrow> registry_ok (start(c := (cols, rows))) (items(c := [])) k'"
proof (cases "env_parse_spawn env (mf_payload frame)")
  case None
  with assms show ?thesis by (simp add: spawn_def opened_def)
next
  case (Some request)
  let ?c = "sp_channel_id request"
  let ?k = "(kill_channel host ?c k)\<lparr>kp_channels := (kp_channels (kill_channel host ?c k))(?c := None)\<rparr>"
  have ok: "registry_ok start items ?k" by (intro registry_ok_remove kill_keeps assms(1))
  show ?thesis
  proof (cases "pty_spawn host request")
    case (Inl e)
    with Some ok assms(2-4) show ?thesis by (auto simp: spawn_def opened_def Let_def)
  next
    case (Inr pc)
    have pc: "pc_channel_id pc = ?c" "pc_cols pc = sp_cols request" "pc_rows pc = sp_rows request" "?c \<noteq> 0"
      "geometry_wire_ok (sp_cols request, sp_rows request)"
      using Inr by (auto simp: pty_spawn_def split: if_splits sum.splits)
    have "keeps_stream (sp_cols request, sp_rows request) [] (channel_history_new (sp_cols request) (sp_rows request))"
      using run_keeps [of "(sp_cols request, sp_rows request)" "[]" KEEPER_RING_CAP_BYTES KEEPER_MAX_HISTORY_RESIZE_RECORDS]
      by (simp add: channel_history_new_def new_with_def stream_of_def)
    with pc have "channel_ok ?c (sp_cols request, sp_rows request) []
        \<lparr>chn_pty = pc, chn_history = channel_history_new (sp_cols request) (sp_rows request)\<rparr>"
      by (simp add: channel_ok_def channel_history_new_def history_with_limits_def)
    then have "registry_ok (start(?c := (sp_cols request, sp_rows request))) (items(?c := []))
        (?k\<lparr>kp_channels := (kp_channels ?k)(?c \<mapsto> \<lparr>chn_pty = pc, chn_history = channel_history_new (sp_cols request) (sp_rows request)\<rparr>)\<rparr>)"
      by (intro registry_ok_insert [OF ok]) simp_all
    with Some Inr assms(2-4) show ?thesis by (auto simp: spawn_def opened_def Let_def)
  qed
qed

lemma decoded_resize:
  "resize_request_decode p name = Ok r \<Longrightarrow> 0 < rz_cols r \<and> rz_cols r \<le> KEEPER_MAX_TERMINAL_DIMENSION
     \<and> 0 < rz_rows r \<and> rz_rows r \<le> KEEPER_MAX_TERMINAL_DIMENSION"
  by (auto simp: resize_request_decode_def res_simps split: option.splits)

lemma record_resize_limits [simp]:
  "ch_ring_cap (record_resize s c r h) = ch_ring_cap h" "ch_max_resizes (record_resize s c r h) = ch_max_resizes h"
  "ch_current_cols (record_resize s c r h) = c" "ch_current_rows (record_resize s c r h) = r"
  by (auto simp: record_resize_def Let_def)

lemma resize_master_iff:
  assumes "0 < cols" "0 < rows"
  shows "resize_master host cols rows pc =
    (case host_resize host (pc_channel_id pc) cols rows of Inl e \<Rightarrow> Err (PtyError e) | Inr _ \<Rightarrow> Ok (pc\<lparr>pc_cols := cols, pc_rows := rows\<rparr>))"
  using assms by (simp add: resize_master_def)

lemma channel_resized:
  assumes "channel_ok c start items ch" "pc_channel_id pc = c" "pc_cols pc = cols" "pc_rows pc = rows"
  shows "channel_ok c start (items @ [StreamGeometry s cols rows]) (ch\<lparr>chn_pty := pc, chn_history := record_resize s cols rows (chn_history ch)\<rparr>)"
  using assms record_resize_keeps by (auto simp: channel_ok_def)

lemma registry_resized:
  assumes "registry_ok start items k" "channel_ok c (start c) (items c @ new c) ch'" "\<And>d. d \<noteq> c \<Longrightarrow> new d = []"
  shows "registry_ok start (\<lambda>d. items d @ new d) (k\<lparr>kp_channels := (kp_channels k)(c \<mapsto> ch')\<rparr>)"
  using assms by (intro registry_ok_insert [OF assms(1)]) simp_all

lemma resized_other: "d \<noteq> mf_channel_id frame \<Longrightarrow> resized env host frame k d = []"
  by (simp add: resized_def split: option.split)

lemma sequenced_resize_keeps:
  assumes "registry_ok start items k" "sequenced_resize host frame k = (k', res)"
    "mf_frame_type frame = MuxResizeRequest" "mf_channel_id frame = c" "c \<noteq> 0"
  shows "registry_ok start (\<lambda>d. items d @ resized env host frame k d) k'"
proof (cases "resize_request_decode (mf_payload frame) ''ResizeRequest''")
  case (Inl e)
  moreover have "resized env host frame k = (\<lambda>_. [])" using Inl assms(3) by (auto simp: resized_def fun_eq_iff split: option.split)
  ultimately show ?thesis using assms(1,2) by (simp add: sequenced_resize_def)
next
  case (Inr r)
  note dims = decoded_resize [OF Inr]
  show ?thesis
  proof (cases "kp_channels k c")
    case None
    moreover have "resized env host frame k = (\<lambda>_. [])" using None assms(4) by (auto simp: resized_def fun_eq_iff split: option.split)
    ultimately show ?thesis using assms(1,2,4) Inr by (simp add: sequenced_resize_def)
  next
    case (Some ch)
    note ok = registry_okD [OF assms(1) Some]
    have id: "pc_channel_id (chn_pty ch) = c" using ok by (simp add: channel_ok_def)
    show ?thesis
    proof (cases "pc_applied_seq (chn_pty ch) < rz_seq r")
      case False
      then have "k' = k\<lparr>kp_channels := (kp_channels k)(c \<mapsto> ch)\<rparr>"
        using assms(2,4) Inr Some by (auto simp: sequenced_resize_def apply_resize_def pty_terminal_state_def Let_def)
      moreover have "resized env host frame k = (\<lambda>_. [])"
        using False Inr Some assms(3,4) by (auto simp: resized_def fun_eq_iff split: option.split)
      ultimately show ?thesis using assms(1) ok by (auto simp: registry_ok_def)
    next
      case True
      show ?thesis
      proof (cases "host_resize host c (rz_cols r) (rz_rows r)")
        case (Inl e)
        moreover have "resized env host frame k = (\<lambda>_. [])"
          using Inl Inr Some assms(3,4) \<open>resize_request_decode _ _ = Inr r\<close> by (auto simp: resized_def fun_eq_iff split: option.split)
        ultimately show ?thesis
          using assms(1,2,4) \<open>resize_request_decode _ _ = Inr r\<close> Some True dims id
          by (simp add: sequenced_resize_def apply_resize_def resize_master_iff Let_def)
      next
        case (Inr u)
        let ?pc = "(chn_pty ch)\<lparr>pc_cols := rz_cols r, pc_rows := rz_rows r, pc_applied_seq := rz_seq r\<rparr>"
        let ?ch = "ch\<lparr>chn_pty := ?pc, chn_history := record_resize (rz_seq r) (rz_cols r) (rz_rows r) (chn_history ch)\<rparr>"
        have k': "k' = k\<lparr>kp_channels := (kp_channels k)(c \<mapsto> ?ch)\<rparr>"
          using assms(2,4) \<open>resize_request_decode _ _ = Inr r\<close> Some True dims id Inr
          by (simp add: sequenced_resize_def apply_resize_def resize_master_iff pty_terminal_state_def Let_def)
        have items: "resized env host frame k c = [StreamGeometry (rz_seq r) (rz_cols r) (rz_rows r)]"
          using Inr Some assms(3-5) True \<open>resize_request_decode _ _ = Inr r\<close> by (simp add: resized_def)
        have "channel_ok c (start c) (items c @ resized env host frame k c) ?ch"
          unfolding items by (rule channel_resized [OF ok]) (simp_all add: id)
        with k' show ?thesis using registry_resized [OF assms(1)] resized_other assms(4) by blast
      qed
    qed
  qed
qed

lemma legacy_resize_keeps:
  assumes "registry_ok start items k" "legacy_resize env host frame k = (k', res)"
    "mf_frame_type frame = MuxResize" "mf_channel_id frame = c" "c \<noteq> 0"
  shows "registry_ok start (\<lambda>d. items d @ resized env host frame k d) k'"
proof (cases "\<exists>cols rows ch pc. env_parse_resize env (mf_payload frame) = Some (cols, rows) \<and> kp_channels k c = Some ch
    \<and> apply_unsequenced_resize host cols rows (chn_pty ch) = Inr pc")
  case True
  then obtain cols rows ch pc where at: "env_parse_resize env (mf_payload frame) = Some (cols, rows)" "kp_channels k c = Some ch"
    "apply_unsequenced_resize host cols rows (chn_pty ch) = Inr pc" by blast
  note ok = registry_okD [OF assms(1) at(2)]
  have id: "pc_channel_id (chn_pty ch) = c" using ok by (simp add: channel_ok_def)
  have pc: "0 < cols" "0 < rows" "host_resize host c cols rows = Inr ()" "pc = (chn_pty ch)\<lparr>pc_cols := cols, pc_rows := rows\<rparr>"
    using at(3) id by (auto simp: apply_unsequenced_resize_def resize_master_def split: if_splits sum.splits)
  have items: "resized env host frame k c = [StreamGeometry 0 cols rows]" using at pc assms(3-5) by (simp add: resized_def)
  have "channel_ok c (start c) (items c @ resized env host frame k c)
      (ch\<lparr>chn_pty := pc, chn_history := record_resize 0 cols rows (chn_history ch)\<rparr>)"
    unfolding items by (rule channel_resized [OF ok]) (simp_all add: pc id)
  moreover have "k' = k\<lparr>kp_channels := (kp_channels k)(c \<mapsto> ch\<lparr>chn_pty := pc, chn_history := record_resize 0 cols rows (chn_history ch)\<rparr>)\<rparr>"
    using assms(2,4) at by (simp add: legacy_resize_def)
  ultimately show ?thesis using registry_resized [OF assms(1)] resized_other assms(4) by blast
next
  case False
  then have "k' = k" using assms(2,4) by (auto simp: legacy_resize_def split: option.splits sum.splits)
  moreover have "resized env host frame k d = []" for d
  proof (cases "kp_channels k d")
    case (Some ch)
    have "pc_channel_id (chn_pty ch) = d" using registry_okD [OF assms(1) Some] by (simp add: channel_ok_def)
    with Some False assms(3-5) show ?thesis
      by (auto simp: resized_def apply_unsequenced_resize_def resize_master_def split: option.splits if_splits)
  qed (simp add: resized_def)
  ultimately show ?thesis using assms(1) by simp
qed

lemma one_frame_Inr [res_simps]: "one_frame f = Inr frames \<longleftrightarrow> (\<exists>frame. f = Inr frame \<and> frames = [frame])"
  by (cases f) (auto simp: one_frame_def)

lemma mux_frame_new_Inr [res_simps]:
  "mux_frame_new t c p = Inr f \<longleftrightarrow> length p \<le> KEEPER_MAX_MUX_FRAME_BYTES \<and> f = \<lparr>mf_frame_type = t, mf_channel_id = c, mf_payload = p\<rparr>"
  by (auto simp: mux_frame_new_def)

lemma mux_frame_json_Inr [res_simps]:
  "mux_frame_json env t c body = Inr f \<longleftrightarrow> (\<exists>p. env_json env body = Some p \<and> mux_frame_new t c p = Inr f)"
  by (auto simp: mux_frame_json_def split: option.splits)

lemmas handler_defs = answer_hello_def list_channels_def shutdown_if_empty_def spawn_def legacy_input_def sequenced_input_def
  result_frame_def resize_reject_def legacy_resize_def resize_ack_def sequenced_resize_def resize_status_def
  terminal_state_frames_def history_records_frames_def legacy_history_resp_def

lemma dispatch_no_output:
  assumes "keeper_dispatch env host frame k = (k', Ok frames)" "f \<in> set frames"
  shows "mf_frame_type f \<noteq> MuxPtyOut"
proof -
  have "\<forall>f \<in> set frames. mf_frame_type f \<noteq> MuxPtyOut"
    using assms(1)
    by (cases "mf_frame_type frame")
      (auto simp: keeper_dispatch_def handler_defs res_simps Let_def split: if_splits option.splits sum.splits prod.splits)
  with assms(2) show ?thesis by blast
qed

lemma handle_no_output: "out_bytes c (snd (keeper_handle env host frame k)) = []"
proof (rule no_output)
  fix f
  assume f: "f \<in> set (snd (keeper_handle env host frame k))"
  obtain k' res where d: "keeper_dispatch env host frame k = (k', res)" by fastforce
  show "mf_frame_type f \<noteq> MuxPtyOut"
  proof (cases res)
    case (Inr frames)
    with f d dispatch_no_output show ?thesis by (auto simp: keeper_handle_def)
  next
    case (Inl e)
    with f d have "f \<in> set (keeper_reject frame)" by (simp add: keeper_handle_def)
    then show ?thesis
      by (auto simp: keeper_reject_def result_frame_def mux_frame_new_def split: mux_frame_type.splits sum.splits if_splits)
  qed
qed

lemma resized_none:
  assumes "mf_frame_type frame \<noteq> MuxResize" "mf_frame_type frame \<noteq> MuxResizeRequest"
  shows "resized env host frame k c = []"
  using assms by (simp add: resized_def split: option.split)

lemma resized_control: "mf_channel_id frame = 0 \<Longrightarrow> resized env host frame k c = []"
  by (cases "c = 0") (simp_all add: resized_def split: option.split)

lemma other_frames_keep:
  assumes "registry_ok start items k" "mf_frame_type frame \<noteq> MuxResize" "mf_frame_type frame \<noteq> MuxResizeRequest"
    "mf_frame_type frame \<noteq> MuxSpawn"
  shows "registry_ok start items (fst (keeper_dispatch env host frame k))"
proof -
  have "registry_ok start items (fst (legacy_input host frame k))"
    using assms(1) by (auto simp: legacy_input_def dest: enqueue_same intro!: registry_ok_put [OF assms(1)] split: option.split)
      (metis enqueue_same prod.collapse)+
  moreover have "registry_ok start items (fst (sequenced_input host frame k))"
    using assms(1) registry_ok_put [OF assms(1)] enqueue_same
    by (auto simp: sequenced_input_def Let_def split: sum.splits option.splits prod.splits)
  ultimately show ?thesis
    using assms kill_keeps
    by (cases "mf_frame_type frame") (auto simp: keeper_dispatch_def Let_def split: prod.splits)
qed

lemma handle_keeps:
  assumes "registry_ok start items k"
  shows "case opened env host frame of
      None \<Rightarrow> registry_ok start (\<lambda>c. items c @ resized env host frame k c) (fst (keeper_handle env host frame k))
    | Some (c, cols, rows) \<Rightarrow> registry_ok (start(c := (cols, rows))) ((\<lambda>d. items d @ resized env host frame k d)(c := []))
        (fst (keeper_handle env host frame k))"
proof -
  let ?k = "fst (keeper_dispatch env host frame k)"
  have k': "fst (keeper_handle env host frame k) = ?k"
    by (auto simp: keeper_handle_def split: prod.splits sum.splits)
  consider (spawn) "mf_frame_type frame = MuxSpawn" "mf_channel_id frame \<noteq> 0"
    | (resize) "mf_frame_type frame = MuxResize" "mf_channel_id frame \<noteq> 0"
    | (request) "mf_frame_type frame = MuxResizeRequest" "mf_channel_id frame \<noteq> 0"
    | (control) "mf_frame_type frame \<in> {MuxSpawn, MuxResize, MuxResizeRequest}" "mf_channel_id frame = 0"
    | (other) "mf_frame_type frame \<notin> {MuxSpawn, MuxResize, MuxResizeRequest}"
    by blast
  then show ?thesis
  proof cases
    case spawn
    obtain k2 res where s: "spawn env host frame k = (k2, res)" by fastforce
    have k2: "?k = k2" using spawn s by (simp add: keeper_dispatch_def)
    have items: "(\<lambda>c. items c @ resized env host frame k c) = items" using spawn by (simp add: resized_none)
    show ?thesis unfolding k' k2 items by (rule spawn_keeps [OF assms s spawn])
  next
    case resize
    then have "?k = fst (legacy_resize env host frame k)" "opened env host frame = None"
      by (simp_all add: keeper_dispatch_def opened_def)
    with legacy_resize_keeps [OF assms _ resize(1) refl resize(2)] show ?thesis
      unfolding k' by (cases "legacy_resize env host frame k") simp
  next
    case request
    then have "?k = fst (sequenced_resize host frame k)" "opened env host frame = None"
      by (simp_all add: keeper_dispatch_def opened_def)
    with sequenced_resize_keeps [OF assms _ request(1) refl request(2)] show ?thesis
      unfolding k' by (cases "sequenced_resize host frame k") simp
  next
    case control
    then have "?k = k" "opened env host frame = None" by (auto simp: keeper_dispatch_def opened_def)
    with assms control(2) show ?thesis unfolding k' by (simp add: resized_control)
  next
    case other
    then have "opened env host frame = None" by (simp add: opened_def)
    with other_frames_keep [OF assms, of frame env host] other show ?thesis unfolding k' by (simp add: resized_none)
  qed
qed

definition service_ok :: "service \<Rightarrow> bool" where
  "service_ok s \<longleftrightarrow> registry_ok (sv_start s) (sv_stream s) (sv_keeper s)"

lemma put_keeps:
  assumes "registry_ok start items k"
  shows "registry_ok start items (pump_channel c result k)" "registry_ok start items (lane_turn c f k)"
  using registry_ok_put [OF assms, of _ _ c] assms
  by (auto simp: pump_channel_def lane_turn_def split: option.split)

lemma service_exec_ok: "service_ok s \<Longrightarrow> service_ok (service_exec env p s)"
proof -
  assume ok: "service_ok s"
  then have reg: "registry_ok (sv_start s) (sv_stream s) (sv_keeper s)" by (simp add: service_ok_def)
  show ?thesis
  proof (cases p)
    case (HandleFrame host frame)
    obtain k frames where h: "keeper_handle env host frame (sv_keeper s) = (k, frames)" by fastforce
    have none: "out_bytes c frames = []" for c using handle_no_output [of c env host frame "sv_keeper s"] h by simp
    from handle_keeps [OF reg, of env host frame] HandleFrame h none show ?thesis
      by (cases "opened env host frame") (auto simp: service_exec_def service_ok_def Let_def)
  next
    case (DrainOutput host)
    obtain k frames where d: "drain_output host DRAIN_LIMIT_BYTES (sv_keeper s) = (k, Ok frames)"
      using drain_channels_framed [of DRAIN_LIMIT_BYTES] unfolding drain_output_def
      by (fastforce simp: DRAIN_LIMIT_BYTES_def keeper_limits)
    with drain_channels_ok [OF reg, of DRAIN_LIMIT_BYTES "host_order host" "[]" k frames] DrainOutput show ?thesis
      by (auto simp: service_exec_def service_ok_def drain_output_def sent_def)
  next
    case (ReapExited host)
    obtain k1 finished where f: "finished_channels host (host_order host) (sv_keeper s) = (k1, finished)" by fastforce
    have "registry_ok (sv_start s) (sv_stream s) k1" using finished_keeps [OF reg, of host "host_order host"] f by simp
    note keeps = report_exits_keeps [OF this, of "[]" env finished]
    have "out_bytes c (snd (sent (report_exits env finished k1 []))) = []" for c
      using keeps by (intro no_output) auto
    moreover have "fst (sent (report_exits env finished k1 [])) = fst (report_exits env finished k1 [])"
      by (auto simp: sent_def split: prod.splits sum.splits)
    ultimately show ?thesis using keeps ReapExited f
      by (auto simp: service_exec_def service_ok_def reap_exited_def split: prod.splits)
  next
    case (AskBacklog host)
    with backlogged_keeps [OF reg] show ?thesis by (simp add: service_exec_def service_ok_def output_backlogged_def)
  next
    case (PumpChannel c result)
    with put_keeps [OF reg] show ?thesis by (simp add: service_exec_def service_ok_def)
  next
    case (LaneTurn c f)
    with put_keeps [OF reg] show ?thesis by (simp add: service_exec_def service_ok_def)
  qed (use reg in \<open>simp_all add: service_exec_def service_ok_def attach_input_results_def detach_input_results_def split: prod.split\<close>)
qed

interpretation keeper_service: invariant_machine service_ok "\<lambda>_. True" "service_exec env" for env
  by unfold_locales (rule service_exec_ok)

lemma service_new_ok: "service_ok (service_new env epoch)"
  by (simp add: service_ok_def service_new_def registry_ok_def keeper_new_def)

lemma service_reachable_ok: "service_ok (fold (service_exec env) ps (service_new env epoch))"
  using keeper_service.run_invar [OF service_new_ok] by (simp add: list_all_iff)

text \<open>
  A history answer is an exact boundary of what the worker was shown: after any sequence of frames,
  drains, reaps, reader and writer turns and connections, the ordered history the keeper holds for a
  live channel is a suffix of precisely the output frames it sent and the resizes it carried out since
  that channel was opened, in order, under the geometry in force where the suffix begins, and its
  head counts exactly the bytes sent. Nothing sent is missing and nothing unsent is included.
\<close>

theorem history_is_what_was_sent:
  assumes "s = fold (service_exec env) ps (service_new env epoch)" "kp_channels (sv_keeper s) c \<noteq> None"
  shows "let h = ordered_history c (sv_keeper s) in
     (\<exists>pre. sv_stream s c = pre @ replayed h \<and> geometry_after (sv_start s c) pre = (hrs_base_cols h, hrs_base_rows h))
     \<and> hrs_head_seq h = byte_count (sv_stream s c)"
proof -
  obtain ch where ch: "kp_channels (sv_keeper s) c = Some ch" using assms(2) by blast
  have "channel_ok c (sv_start s c) (sv_stream s c) ch"
    using service_reachable_ok [of env ps epoch] ch unfolding service_ok_def assms(1) [symmetric] by (rule registry_okD)
  then have "keeps_stream (sv_start s c) (sv_stream s c) (chn_history ch)" by (simp add: channel_ok_def)
  from ordered_keeps [OF this] ch show ?thesis by (simp add: ordered_history_def Let_def)
qed

definition sample_env :: keeper_env where
  "sample_env = \<lparr>env_json = \<lambda>_. Some [], env_parse_hello = \<lambda>_. Some \<lparr>khq_version = 3, khq_capability = ''secret'', khq_features = [],
       khq_pid = None, khq_process_epoch = None\<rparr>,
     env_parse_spawn = \<lambda>_. Some \<lparr>sp_channel_id = 7, sp_cols = 80, sp_rows = 24,
       sp_shell_spec = \<lparr>ss_program = ''sh'', ss_args = [], ss_env = [], ss_cwd = None\<rparr>\<rparr>,
     env_parse_resize = \<lambda>_. Some (100, 30), env_digest = \<lambda>x. map of_char x, env_pid = 1, env_implementation_digest = None,
     env_bun_abi = ''abi'', env_platform = ''linux'', env_arch = ''x86_64'', env_build_sha = ''sha''\<rparr>"

definition sample_host :: host where
  "sample_host = \<lparr>host_openpty = \<lambda>_ _. Inr (), host_metadata = \<lambda>_. Inr (), host_open = \<lambda>_. Inr (Some 42), host_resize = \<lambda>_ _ _. Inr (), host_exited = \<lambda>_. None, host_order = [7]\<rparr>"

abbreviation bare_frame :: "mux_frame_type \<Rightarrow> nat \<Rightarrow> mux_frame" where
  "bare_frame t c \<equiv> \<lparr>mf_frame_type = t, mf_channel_id = c, mf_payload = []\<rparr>"

lemmas sample_simps = sample_env_def sample_host_def service_exec_def service_new_def keeper_new_def keeper_handle_def
  keeper_dispatch_def spawn_def kill_channel_def pty_spawn_def check_cwd_def opened_def one_frame_def mux_frame_json_def mux_frame_new_def
  resized_def keeper_limits

definition sample_service :: service where
  "sample_service = fold (service_exec sample_env) [HandleFrame sample_host (bare_frame MuxSpawn 7)] (service_new sample_env None)"

lemma sample_channel:
  "kp_channels (sv_keeper sample_service) 7 = Some \<lparr>chn_pty = \<lparr>pc_channel_id = 7, pc_pid = Some 42, pc_output = output_ring_new,
      pc_input = lane_start 7, pc_applied_seq = 0, pc_cols = 80, pc_rows = 24\<rparr>, chn_history = channel_history_new 80 24\<rparr>"
  "sv_stream sample_service 7 = []" "sv_start sample_service 7 = (80, 24)"
  by (simp_all add: sample_service_def sample_simps)

theorem history_is_what_was_sent_witness:
  "kp_channels (sv_keeper sample_service) 7 \<noteq> None \<and> hrs_head_seq (ordered_history 7 (sv_keeper sample_service)) = 0"
  using history_is_what_was_sent [OF sample_service_def, of 7] by (simp add: sample_channel Let_def)

section \<open>The resize sequence is the authority\<close>

lemma resize_outcomes:
  assumes "resize_request_decode payload ''ResizeRequest'' = Ok r" "c \<noteq> 0"
    and "keeper_handle env host \<lparr>mf_frame_type = MuxResizeRequest, mf_channel_id = c, mf_payload = payload\<rparr> k = (k', replies)"
  shows "case kp_channels k c of
      None \<Rightarrow> k' = k \<and> resize_reject c (rz_seq r) 1 = Ok (hd replies) \<and> length replies = 1
    | Some ch \<Rightarrow>
        if rz_seq r \<le> pc_applied_seq (chn_pty ch)
        then kp_channels k' = kp_channels k \<and> (\<forall>frames. resize_ack c (state_of c k) = Ok frames \<longrightarrow> replies = frames)
        else (case host_resize host (pc_channel_id (chn_pty ch)) (rz_cols r) (rz_rows r) of
                Inl _ \<Rightarrow> k' = k \<and> resize_reject c (rz_seq r) 1 = Ok (hd replies) \<and> length replies = 1
              | Inr _ \<Rightarrow> state_of c k' = \<lparr>ts_applied_seq = rz_seq r, ts_cols = rz_cols r, ts_rows = rz_rows r\<rparr>
                  \<and> resize_ack c (state_of c k') = Ok replies)"
proof -
  note dims = decoded_resize [OF assms(1)]
  have reject: "\<exists>f. resize_reject c (rz_seq r) 1 = Ok f" for c
    by (simp add: resize_reject_def mux_frame_new_def write_sequence_def keeper_limits)
  have ack: "\<exists>f. resize_ack c \<lparr>ts_applied_seq = rz_seq r, ts_cols = rz_cols r, ts_rows = rz_rows r\<rparr> = Ok [f]"
    using dims by (auto simp: resize_ack_def resize_request_encode_def check_dimension_def one_frame_def mux_frame_new_def
        write_sequence_def KEEPER_MAX_MUX_FRAME_BYTES_def)
  show ?thesis
  proof (cases "kp_channels k c")
    case None
    with assms reject [of c] show ?thesis
      by (auto simp: keeper_handle_def keeper_dispatch_def sequenced_resize_def one_frame_def)
  next
    case (Some ch)
    show ?thesis
    proof (cases "rz_seq r \<le> pc_applied_seq (chn_pty ch)")
      case True
      with Some assms show ?thesis
        by (auto simp: keeper_handle_def keeper_dispatch_def sequenced_resize_def apply_resize_def pty_terminal_state_def
            state_of_def Let_def fun_upd_idem split: sum.splits)
    next
      case False
      with Some assms dims reject [of c] ack show ?thesis
        by (cases "host_resize host (pc_channel_id (chn_pty ch)) (rz_cols r) (rz_rows r)")
          (auto simp: keeper_handle_def keeper_dispatch_def sequenced_resize_def apply_resize_def resize_master_iff
            pty_terminal_state_def state_of_def one_frame_def Let_def)
    qed
  qed
qed

text \<open>
  A sequenced resize behaves as its protocol says on every branch: a sequence at or below the applied
  one changes nothing and is acknowledged with the geometry the PTY is really at; a newer one the host
  carries out becomes the applied geometry and is acknowledged as such; one the host fails leaves the
  channel as it was and is refused under its own sequence; and for a channel the keeper does not hold
  it is refused under its own sequence.
\<close>

theorem sequenced_resize_outcomes:
  assumes "resize_request_decode payload ''ResizeRequest'' = Ok r" "c \<noteq> 0"
    and "keeper_handle env host \<lparr>mf_frame_type = MuxResizeRequest, mf_channel_id = c, mf_payload = payload\<rparr> k = (k', replies)"
  shows "case kp_channels k c of
      None \<Rightarrow> k' = k \<and> resize_reject c (rz_seq r) 1 = Ok (hd replies) \<and> length replies = 1
    | Some ch \<Rightarrow>
        if rz_seq r \<le> pc_applied_seq (chn_pty ch)
        then kp_channels k' = kp_channels k \<and> (\<forall>frames. resize_ack c (state_of c k) = Ok frames \<longrightarrow> replies = frames)
        else (case host_resize host (pc_channel_id (chn_pty ch)) (rz_cols r) (rz_rows r) of
                Inl _ \<Rightarrow> k' = k \<and> resize_reject c (rz_seq r) 1 = Ok (hd replies) \<and> length replies = 1
              | Inr _ \<Rightarrow> state_of c k' = \<lparr>ts_applied_seq = rz_seq r, ts_cols = rz_cols r, ts_rows = rz_rows r\<rparr>
                  \<and> resize_ack c (state_of c k') = Ok replies)"
  by (rule resize_outcomes [OF assms])

lemma sample_resize_decodes:
  "resize_request_decode (write_sequence [] 5 @ be_bytes 4 100 @ be_bytes 4 30) name = Ok \<lparr>rz_seq = 5, rz_cols = 100, rz_rows = 30\<rparr>"
  by (rule resize_roundtrip) (simp_all add: resize_request_encode_def check_dimension_def keeper_limits u64_max_def)

theorem sequenced_resize_outcomes_witness:
  "state_of 7 (fst (keeper_handle sample_env sample_host
      \<lparr>mf_frame_type = MuxResizeRequest, mf_channel_id = 7, mf_payload = write_sequence [] 5 @ be_bytes 4 100 @ be_bytes 4 30\<rparr>
      (sv_keeper sample_service))) = \<lparr>ts_applied_seq = 5, ts_cols = 100, ts_rows = 30\<rparr>"
proof -
  obtain k' replies where h: "keeper_handle sample_env sample_host
      \<lparr>mf_frame_type = MuxResizeRequest, mf_channel_id = 7, mf_payload = write_sequence [] 5 @ be_bytes 4 100 @ be_bytes 4 30\<rparr>
      (sv_keeper sample_service) = (k', replies)" by fastforce
  have "host_resize sample_host 7 100 30 = Inr ()" by (simp add: sample_host_def)
  with sequenced_resize_outcomes [OF sample_resize_decodes _ h] show ?thesis by (simp add: h sample_channel)
qed

definition advances :: "bool \<Rightarrow> channel \<Rightarrow> channel \<Rightarrow> bool" where
  "advances legacy ch ch' \<longleftrightarrow> pc_applied_seq (chn_pty ch) \<le> pc_applied_seq (chn_pty ch')
     \<and> (pc_applied_seq (chn_pty ch') = pc_applied_seq (chn_pty ch) \<and> \<not> legacy \<longrightarrow>
        pc_cols (chn_pty ch') = pc_cols (chn_pty ch) \<and> pc_rows (chn_pty ch') = pc_rows (chn_pty ch))"

definition channels_advance :: "bool \<Rightarrow> keeper \<Rightarrow> keeper \<Rightarrow> bool" where
  "channels_advance legacy k k' \<longleftrightarrow> (\<forall>c ch. kp_channels k c = Some ch \<longrightarrow> (\<exists>ch'. kp_channels k' c = Some ch' \<and> advances legacy ch ch'))"

lemma channels_advance_refl: "channels_advance legacy k k"
  by (simp add: channels_advance_def advances_def)

lemma channels_advance_update:
  assumes "kp_channels k d = Some ch" "advances legacy ch ch'"
  shows "channels_advance legacy k (k\<lparr>kp_channels := (kp_channels k)(d \<mapsto> ch')\<rparr>)"
  using assms by (auto simp: channels_advance_def advances_def)

lemma channels_advance_put:
  assumes "kp_channels k d = Some ch" "pc_applied_seq pc = pc_applied_seq (chn_pty ch)"
    "pc_cols pc = pc_cols (chn_pty ch)" "pc_rows pc = pc_rows (chn_pty ch)"
  shows "channels_advance legacy k (put_pty d pc k)"
  using channels_advance_update [OF assms(1), of legacy "ch\<lparr>chn_pty := pc\<rparr>"] assms by (simp add: advances_def put_pty_def update_entry_def)

lemma enqueue_same_resize:
  "enqueue_input host bytes reply pc = (res, pc') \<Longrightarrow> pc_applied_seq pc' = pc_applied_seq pc \<and> pc_cols pc' = pc_cols pc \<and> pc_rows pc' = pc_rows pc"
  by (auto simp: enqueue_input_def dest!: pty_exited_same split: option.splits prod.splits)

lemma handlers_advance:
  "channels_advance legacy k (fst (legacy_input host frame k))"
  "channels_advance legacy k (fst (sequenced_input host frame k))"
  "channels_advance legacy k (kill_channel host d k)"
  "channels_advance True k (fst (legacy_resize env host frame k))"
  "channels_advance legacy k (fst (sequenced_resize host frame k))"
proof -
  have enq: "channels_advance legacy k (put_pty c (snd (enqueue_input host bytes reply (chn_pty ch))) k)"
    if "kp_channels k c = Some ch" for c bytes reply ch
    using enqueue_same_resize [of host bytes reply "chn_pty ch"] that
    by (intro channels_advance_put [OF that]) (metis prod.collapse)+
  then show "channels_advance legacy k (fst (legacy_input host frame k))"
    using channels_advance_refl by (auto simp: legacy_input_def split: option.split)
  have "channels_advance legacy k (put_pty c pc k)"
    if "kp_channels k c = Some ch" "enqueue_input host bytes reply (chn_pty ch) = (res, pc)" for c bytes reply ch res pc
    using enq [OF that(1), of bytes reply] that(2) by simp
  then show "channels_advance legacy k (fst (sequenced_input host frame k))"
    using channels_advance_refl by (auto simp: sequenced_input_def Let_def split: sum.splits option.splits prod.splits)
  show "channels_advance legacy k (kill_channel host d k)"
  proof (cases "kp_channels k d")
    case None
    then show ?thesis by (simp add: kill_channel_def channels_advance_refl)
  next
    case (Some ch)
    obtain st pc where e: "pty_exited host (chn_pty ch) = (st, pc)" by fastforce
    have "channels_advance legacy k (put_pty d pc k)"
      using pty_exited_same [OF e] by (intro channels_advance_put [OF Some]) auto
    with Some e show ?thesis by (cases st) (auto simp: kill_channel_def pty_kill_def channels_advance_def)
  qed
  show "channels_advance True k (fst (legacy_resize env host frame k))"
    using channels_advance_refl
    by (auto simp: legacy_resize_def apply_unsequenced_resize_def resize_master_def advances_def
        intro!: channels_advance_update split: option.splits sum.splits if_splits)
  show "channels_advance legacy k (fst (sequenced_resize host frame k))"
    using channels_advance_refl
    by (auto simp: sequenced_resize_def apply_resize_def resize_master_def res_simps Let_def advances_def
        intro!: channels_advance_update split: option.splits sum.splits if_splits)
qed

text \<open>
  The applied sequence only moves forward: no frame short of a respawn lowers it on any channel, and no
  frame but the unsequenced legacy resize moves a PTY's geometry without raising it, so a retried or
  reordered resize never takes a terminal back to an older size.
\<close>

theorem applied_sequence_monotone:
  assumes "keeper_handle env host frame k = (k', replies)" "mf_frame_type frame \<noteq> MuxSpawn" "kp_channels k c = Some ch"
  shows "\<exists>ch'. kp_channels k' c = Some ch' \<and> pc_applied_seq (chn_pty ch) \<le> pc_applied_seq (chn_pty ch')
    \<and> (pc_applied_seq (chn_pty ch') = pc_applied_seq (chn_pty ch) \<and> mf_frame_type frame \<noteq> MuxResize \<longrightarrow>
        pc_cols (chn_pty ch') = pc_cols (chn_pty ch) \<and> pc_rows (chn_pty ch') = pc_rows (chn_pty ch))"
proof -
  have k': "k' = fst (keeper_dispatch env host frame k)"
    using assms(1) by (auto simp: keeper_handle_def split: prod.splits sum.splits)
  have "channels_advance (mf_frame_type frame = MuxResize) k k'"
    unfolding k' using assms(2) handlers_advance channels_advance_refl
    by (cases "mf_frame_type frame") (auto simp: keeper_dispatch_def Let_def split: prod.split, metis fst_conv)
  with assms(3) show ?thesis by (auto simp: channels_advance_def advances_def)
qed

theorem applied_sequence_monotone_witness:
  "\<exists>ch'. kp_channels (fst (keeper_handle sample_env sample_host (bare_frame MuxKillChild 7) (sv_keeper sample_service))) 7 = Some ch'
     \<and> pc_cols (chn_pty ch') = 80"
proof -
  obtain k' replies where h: "keeper_handle sample_env sample_host (bare_frame MuxKillChild 7) (sv_keeper sample_service) = (k', replies)"
    by fastforce
  have "k' = kill_channel sample_host 7 (sv_keeper sample_service)"
    using h by (simp add: keeper_handle_def keeper_dispatch_def)
  then have "\<exists>ch'. kp_channels k' 7 = Some ch' \<and> pc_applied_seq (chn_pty ch') = 0"
    by (simp add: kill_channel_def sample_channel pty_kill_def pty_exited_def sample_host_def put_pty_def)
  with applied_sequence_monotone [OF h _ sample_channel(1)] h show ?thesis by auto
qed

section \<open>Requests are answered\<close>

lemma state_of_wire_ok:
  assumes "registry_ok start items k" "\<And>ch. kp_channels k c = Some ch \<Longrightarrow> list_all item_wire_ok (items c)"
  shows "geometry_wire_ok (ts_cols (state_of c k), ts_rows (state_of c k))"
proof (cases "kp_channels k c")
  case None
  then show ?thesis by (simp add: state_of_def keeper_limits)
next
  case (Some ch)
  note ok = registry_okD [OF assms(1) Some]
  then have "geometry_wire_ok (geometry_after (start c) (items c))"
    using assms(2) [OF Some] by (intro geometry_after_ok) (auto simp: channel_ok_def)
  with ok Some show ?thesis by (auto simp: channel_ok_def keeps_stream_def state_of_def pty_terminal_state_def)
qed

lemma resize_ack_framed:
  assumes "geometry_wire_ok (ts_cols st, ts_rows st)"
  shows "\<exists>f. resize_ack c st = Ok [f] \<and> mf_frame_type f = MuxResizeAck \<and> mf_channel_id f = c"
  using assms by (simp add: resize_ack_def resize_request_encode_def check_dimension_def one_frame_def mux_frame_new_def
      write_sequence_def KEEPER_MAX_MUX_FRAME_BYTES_def)

text \<open>The frame kinds that ask about a channel, and what each is answered with.\<close>

fun answer_type :: "mux_frame_type \<Rightarrow> mux_frame_type option" where
  "answer_type MuxResizeStatus = Some MuxResizeAck"
| "answer_type MuxGetTerminalState = Some MuxGetTerminalStateResp"
| "answer_type MuxGetHistoryRecords = Some MuxGetHistoryRecordsResp"
| "answer_type MuxGetHistory = Some MuxGetHistoryResp"
| "answer_type _ = None"

lemma history_answered:
  assumes "registry_ok start items k"
    and "\<And>ch. kp_channels k c = Some ch \<Longrightarrow> list_all item_wire_ok (items c) \<and> byte_count (items c) \<le> MAX_SAFE_INTEGER"
  shows "\<exists>p. history_encode (ordered_history c k) = Ok p \<and> length p + MUX_FRAME_HEADER_BYTES \<le> KEEPER_MAX_MUX_FRAME_BYTES"
proof (cases "kp_channels k c")
  case None
  have "history_encode unknown_channel = Ok ([HISTORY_FORMAT_VERSION] @ be_bytes 8 0 @ be_bytes 4 80 @ be_bytes 4 24 @ be_bytes 4 0)"
    unfolding history_encode_iff by (simp add: unknown_channel_def window_def history_limits keeper_limits)
  with None show ?thesis by (simp add: ordered_history_def keeper_limits)
next
  case (Some ch)
  note ok = registry_okD [OF assms(1) Some]
  have "\<exists>p. history_encode (ordered (chn_history ch)) = Ok p \<and> length p + MUX_FRAME_HEADER_BYTES \<le> KEEPER_MAX_MUX_FRAME_BYTES"
    using ok assms(2) [OF Some] by (intro history_encodes) (auto simp: channel_ok_def)
  with Some show ?thesis by (simp add: ordered_history_def)
qed

lemma ring_within_cap: "registry_ok start items k \<Longrightarrow> kp_channels k c = Some ch \<Longrightarrow> length (ch_ring (chn_history ch)) \<le> KEEPER_RING_CAP_BYTES"
  by (drule (1) registry_okD) (auto simp: channel_ok_def keeps_stream_def ring_ok_def)

text \<open>
  C31: Questions within the wire format's numbers are answered: after any history of the service in which the
  resizes carried out on a channel had legal dimensions and sequences of at most \<open>2\<^sup>5\<^sup>3 - 1\<close> and its output
  was at most that many bytes, a resize-status, terminal-state, history or legacy-history request on that
  channel, live or not, gets exactly one reply, of its own kind, on its own channel, and the reply fits the
  socket's envelope. Beyond those numbers it need not: the keeper accepts a resize under a larger sequence
  and from then on leaves history requests unanswered (\<open>large_sequence_silences_history\<close> in \<open>Keeper_Gate\<close>).
\<close>

theorem questions_answered:
  assumes "s = fold (service_exec env) ps (service_new env epoch)" "c \<noteq> 0" "answer_type t = Some t'"
    and "list_all item_wire_ok (sv_stream s c)" "byte_count (sv_stream s c) \<le> MAX_SAFE_INTEGER"
  shows "\<exists>f. snd (keeper_handle env host \<lparr>mf_frame_type = t, mf_channel_id = c, mf_payload = payload\<rparr> (sv_keeper s)) = [f]
    \<and> mf_frame_type f = t' \<and> mf_channel_id f = c \<and> length (mf_payload f) + MUX_FRAME_HEADER_BYTES \<le> KEEPER_MAX_MUX_FRAME_BYTES"
proof -
  let ?k = "sv_keeper s"
  have reg: "registry_ok (sv_start s) (sv_stream s) ?k"
    using service_reachable_ok [of env ps epoch] by (simp add: service_ok_def assms(1))
  have geo: "geometry_wire_ok (ts_cols (state_of c ?k), ts_rows (state_of c ?k))"
    using state_of_wire_ok [OF reg] assms(4) by blast
  obtain p where p: "history_encode (ordered_history c ?k) = Ok p" "length p + MUX_FRAME_HEADER_BYTES \<le> KEEPER_MAX_MUX_FRAME_BYTES"
    using history_answered [OF reg] assms(4,5) by blast
  have ring: "kp_channels ?k c = Some ch \<Longrightarrow> length (ch_ring (chn_history ch)) \<le> 1048576" for ch
    using ring_within_cap [OF reg] by (simp add: KEEPER_RING_CAP_BYTES_def)
  show ?thesis
    using assms(2,3) geo p ring
    by (cases t) (auto simp: keeper_handle_def keeper_dispatch_def resize_status_def terminal_state_frames_def history_records_frames_def
        legacy_history_resp_def legacy_history_def ring_bytes_def resize_ack_def terminal_state_encode_def resize_request_encode_def
        check_dimension_def one_frame_def mux_frame_new_def write_sequence_def keeper_limits Let_def split: option.splits prod.splits)
qed

theorem questions_answered_witness:
  "\<exists>f. snd (keeper_handle sample_env sample_host (bare_frame MuxGetHistoryRecords 7) (sv_keeper sample_service)) = [f]"
  using questions_answered [OF sample_service_def, of 7 MuxGetHistoryRecords MuxGetHistoryRecordsResp sample_host "[]"]
  by (auto simp: sample_channel)

end
