(* ===== verification/Keeper_Gate.thy ===== *)
theory Keeper_Gate
  imports Keeper_Service "HOL-Library.Sublist"
begin

text \<open>
  Who is served and when the daemon stops: the authentication every connection passes first
  (\<^verbatim>\<open>server/connection.rs\<close>), the end of a connection and the exit decision it leads to
  (\<^verbatim>\<open>bin/roost-keeper.rs\<close>), and three requests that are accepted and then left without the
  answer the sources promise.
\<close>

section \<open>The authentication gate\<close>

text \<open>What the events of a decoder run must open with for a connection to be let in.\<close>

definition verified_opening :: "keeper_env \<Rightarrow> string \<Rightarrow> stream_event list \<Rightarrow> bool" where
  "verified_opening env held events \<longleftrightarrow> (\<exists>tag payload request rest. events = FrameEvent (Some MuxHello) tag 0 payload # rest
     \<and> env_parse_hello env payload = Some request \<and> capability_verify env held (khq_capability request))"

lemma opening_hello_Inr:
  "opening_hello env e = Ok request \<Longrightarrow> \<exists>tag payload. e = FrameEvent (Some MuxHello) tag 0 payload \<and> env_parse_hello env payload = Some request"
  by (auto simp: opening_hello_def split: stream_event.splits option.splits if_splits)

definition received_in :: "loop_turn list \<Rightarrow> byte list list" where
  "received_in turns = concat (map (\<lambda>t. case lt_event t of EvReceived bytes \<Rightarrow> [bytes] | _ \<Rightarrow> []) turns)"

lemma decoder_run_snoc:
  "decoder_run dec (xs @ [x]) = (case decoder_run dec xs of (d, es) \<Rightarrow> case frame_decoder_push d x of (d', es') \<Rightarrow> (d', es @ es'))"
  by (induction xs arbitrary: dec) (auto split: prod.splits)

lemma authenticate_gate:
  assumes "authenticate env held k turns dec n = Some (written, res)"
    and "decoder_run frame_decoder_new sofar = (dec, [])" "n = length (concat sofar)" "n \<le> UNAUTHENTICATED_MAX_BYTES"
  shows "(written = [] \<and> (\<exists>e. res = Err e)) \<or>
    (\<exists>reads dec' events rest answer. written = [answer] \<and> mf_frame_type answer = MuxHelloResp \<and> res = Ok (rest, dec')
       \<and> decoder_run frame_decoder_new (sofar @ reads) = (dec', events) \<and> verified_opening env held events \<and> rest = tl events
       \<and> length (concat (sofar @ reads)) \<le> UNAUTHENTICATED_MAX_BYTES \<and> prefix reads (received_in turns))"
  using assms
proof (induction turns arbitrary: dec n sofar)
  case (Cons turn turns)
  show ?case
  proof (cases "lt_exit turn \<noteq> None \<or> lt_late turn \<or> lt_event turn = EvClosed")
    case True
    with Cons.prems(1) show ?thesis by (auto split: option.splits loop_event.splits if_splits)
  next
    case False
    show ?thesis
    proof (cases "lt_event turn")
      case (EvReceived bytes)
      show ?thesis
      proof (cases "UNAUTHENTICATED_MAX_BYTES < n + length bytes")
        case True
        with Cons.prems(1) False EvReceived show ?thesis by (auto split: option.splits)
      next
        case fits: False
        obtain dec' events where push: "frame_decoder_push dec bytes = (dec', events)" by fastforce
        have run: "decoder_run frame_decoder_new (sofar @ [bytes]) = (dec', events)"
          using Cons.prems(2) push by (simp add: decoder_run_snoc)
        have size: "n + length bytes = length (concat (sofar @ [bytes]))" using Cons.prems(3) by simp
        show ?thesis
        proof (cases events)
          case Nil
          then have "authenticate env held k turns dec' (n + length bytes) = Some (written, res)"
            using Cons.prems(1) False EvReceived fits push by (auto simp: Let_def split: option.splits)
          from Cons.IH [OF this _ size] run Nil fits
          consider "written = [] \<and> (\<exists>e. res = Err e)"
            | reads dec' events rest answer where "written = [answer]" "mf_frame_type answer = MuxHelloResp" "res = Ok (rest, dec')"
              "decoder_run frame_decoder_new ((sofar @ [bytes]) @ reads) = (dec', events)" "verified_opening env held events" "rest = tl events"
              "length (concat ((sofar @ [bytes]) @ reads)) \<le> UNAUTHENTICATED_MAX_BYTES" "prefix reads (received_in turns)"
            by auto
          then show ?thesis
          proof cases
            case 2
            then show ?thesis using EvReceived
              by (intro disjI2 exI [of _ "bytes # reads"] exI [of _ dec'] exI [of _ events] exI [of _ rest] exI [of _ answer])
                (simp add: received_in_def)
          qed simp
        next
          case (Cons first rest)
          note out = \<open>authenticate env held k (turn # turns) dec n = Some (written, res)\<close> [unfolded authenticate.simps]
          show ?thesis
          proof (cases "opening_hello env first")
            case (Inl e)
            with out False EvReceived fits push Cons show ?thesis by (auto simp: Let_def split: option.splits)
          next
            case (Inr request)
            show ?thesis
            proof (cases "written = []")
              case True
              with out False EvReceived fits push Cons Inr show ?thesis
                by (auto simp: Let_def split: option.splits if_splits sum.splits)
            next
              case False
              with out \<open>\<not> (lt_exit turn \<noteq> None \<or> _)\<close> EvReceived fits push Cons Inr
              obtain answer where answer: "written = [answer]" "res = Ok (rest, dec')" "capability_verify env held (khq_capability request)"
                "mux_frame_json env MuxHelloResp 0 (HelloBody (hello_response env (lt_host turn) request k)) = Inr answer"
                by (auto simp: Let_def split: option.splits if_splits sum.splits)
              have "mf_frame_type answer = MuxHelloResp" using answer(4) by (auto simp: res_simps)
              moreover have "verified_opening env held events"
                using opening_hello_Inr [OF Inr] answer(3) Cons by (auto simp: verified_opening_def)
              ultimately show ?thesis using answer run Cons fits size EvReceived
                by (intro disjI2 exI [of _ "[bytes]"] exI [of _ dec'] exI [of _ events] exI [of _ rest] exI [of _ answer])
                  (simp add: received_in_def)
            qed
          qed
        qed
      qed
    qed (use Cons.prems(1) False Cons.IH [OF _ Cons.prems(2-4)] in \<open>auto simp: received_in_def split: option.splits\<close>)
  qed
qed simp

lemma or_xor_fold:
  "foldl (\<lambda>d (l, r). Bit_Operations.or d (Bit_Operations.xor l r)) acc ps = 0 \<longleftrightarrow> acc = 0 \<and> list_all (\<lambda>(l, r). l = r) (ps :: (byte \<times> byte) list)"
proof (induction ps arbitrary: acc)
  case (Cons p ps)
  obtain l r where p: "p = (l, r)" by fastforce
  have "Bit_Operations.or acc (Bit_Operations.xor l r) = 0 \<longleftrightarrow> acc = 0 \<and> l = r"
    by (auto simp: or_eq_0_iff xor_self_eq bit_eq_iff bit_simps)
  with Cons [of "Bit_Operations.or acc (Bit_Operations.xor l r)"] p show ?case by simp
qed simp

lemma capability_verify_iff:
  assumes "length (env_digest env held) = length (env_digest env presented)"
  shows "capability_verify env held presented \<longleftrightarrow> env_digest env held = env_digest env presented"
proof -
  have "list_all (\<lambda>(l, r). l = r) (zip xs ys) \<longleftrightarrow> xs = ys" if "length xs = length ys" for xs ys :: "byte list"
    using that by (induction xs ys rule: list_induct2) auto
  with assms show ?thesis by (simp add: capability_verify_def or_xor_fold)
qed

text \<open>
  C12: A connection that has not proved the capability is served nothing: whatever arrives in whatever reads and
  whatever wakes the wait, either the attempt ends with not one frame written, or the first frame of the
  stream is a Hello on the control lane whose capability has the digest of the one the keeper holds,
  inside the byte allowance, the only frame written is its answer, and exactly the frames that followed
  it are passed on to be served.
\<close>

theorem authentication_gate:
  assumes "authenticate env held k turns frame_decoder_new 0 = Some (written, res)" "\<forall>x. length (env_digest env x) = 32"
  shows "written = [] \<and> (\<exists>e. res = Err e) \<or>
    (\<exists>reads dec tag payload request rest answer.
       decoder_run frame_decoder_new reads = (dec, FrameEvent (Some MuxHello) tag 0 payload # rest)
       \<and> prefix reads (received_in turns) \<and> length (concat reads) \<le> UNAUTHENTICATED_MAX_BYTES
       \<and> env_parse_hello env payload = Some request \<and> env_digest env (khq_capability request) = env_digest env held
       \<and> written = [answer] \<and> mf_frame_type answer = MuxHelloResp \<and> res = Ok (rest, dec))"
proof -
  have "decoder_run frame_decoder_new [] = (frame_decoder_new, [])" by simp
  from authenticate_gate [OF assms(1) this]
  consider "written = [] \<and> (\<exists>e. res = Err e)"
    | reads dec events rest answer where "written = [answer]" "mf_frame_type answer = MuxHelloResp" "res = Ok (rest, dec)"
      "decoder_run frame_decoder_new reads = (dec, events)" "verified_opening env held events" "rest = tl events"
      "length (concat reads) \<le> UNAUTHENTICATED_MAX_BYTES" "prefix reads (received_in turns)"
    by auto
  then show ?thesis
  proof cases
    case 2
    from \<open>verified_opening env held events\<close> obtain tag payload request later where open_with:
      "events = FrameEvent (Some MuxHello) tag 0 payload # later" "env_parse_hello env payload = Some request"
      "capability_verify env held (khq_capability request)" by (auto simp: verified_opening_def)
    have "env_digest env (khq_capability request) = env_digest env held"
      using open_with(3) assms(2) by (simp add: capability_verify_iff)
    moreover have "rest = later" using 2 open_with(1) by simp
    ultimately show ?thesis
      using 2 open_with(1,2)
      by (intro disjI2 exI [of _ reads] exI [of _ dec] exI [of _ tag] exI [of _ payload] exI [of _ request] exI [of _ rest] exI [of _ answer]) simp
  qed simp
qed

definition gate_env :: keeper_env where
  "gate_env = sample_env\<lparr>env_digest := \<lambda>x. replicate 32 (of_nat (length x))\<rparr>"

definition idle_turn :: "loop_event \<Rightarrow> loop_turn" where
  "idle_turn e = \<lparr>lt_exit = None, lt_late = False, lt_host = sample_host, lt_output_written = True, lt_exits_written = 9,
     lt_replies_written = [], lt_event = e\<rparr>"

theorem authentication_gate_witness:
  "authenticate gate_env ''secret'' (sv_keeper sample_service) [idle_turn EvOutput, idle_turn EvClosed] frame_decoder_new 0
     = Some ([], Err ClientDisconnected) \<and> (\<exists>e. (Err ClientDisconnected :: (connection_end, stream_event list \<times> frame_decoder) result) = Err e)"
proof -
  have run: "authenticate gate_env ''secret'' (sv_keeper sample_service) [idle_turn EvOutput, idle_turn EvClosed] frame_decoder_new 0
     = Some ([], Err ClientDisconnected)" by (simp add: idle_turn_def)
  moreover have "\<forall>x. length (env_digest gate_env x) = 32" by (simp add: gate_env_def)
  ultimately show ?thesis using authentication_gate [OF run] by auto
qed

section \<open>When the daemon stops\<close>

text \<open>
  C39: A conditional shutdown sent on the control lane ends the connection by what the registry holds: accepted,
  and so stopping the daemon, exactly when no channel is live, and refused, and so serving on, otherwise.
  Sent on any other lane it is not dispatched and gets no reply, yet the connection still ends as
  accepted and the daemon stops, whatever channels are live.
\<close>

theorem conditional_shutdown:
  "answer_events env host [FrameEvent (Some MuxShutdownIfEmpty) tag c payload] writes False k =
     (if writes \<noteq> [] \<and> \<not> hd writes then (k, [], Some WorkerUnreachable)
      else if c \<noteq> 0 then (k, [], Some ShutdownIfEmptyAccepted)
      else if keeper_is_empty k then (k, [bare_frame MuxShutdownIfEmptyAck 0], Some ShutdownIfEmptyAccepted)
      else (k, [bare_frame MuxShutdownIfEmptyReject 0], Some ShutdownIfEmptyRefused))
   \<and> decide ShutdownIfEmptyAccepted n \<noteq> KeepServing \<and> decide ShutdownIfEmptyRefused n = KeepServing"
  by (auto simp: keeper_handle_def keeper_dispatch_def shutdown_if_empty_def one_frame_def mux_frame_new_def keeper_limits Let_def)

lemma geometry_in_records: "StreamGeometry s c w \<in> set (items_of rs) \<longleftrightarrow> ResizeRecord s c w \<in> set rs"
proof (induction rs)
  case (Cons r rs)
  then show ?case by (cases r) auto
qed simp

section \<open>Requests accepted and then not answered as promised\<close>

text \<open>
  A resize sequence beyond the largest exact counter is accepted, applied and acknowledged, and from then on
  the channel's ordered history cannot be encoded while the change is retained: a history request gets no
  reply at all, where the dispatcher promises to answer rather than leave the worker waiting.
\<close>

theorem large_sequence_silences_history:
  assumes "registry_ok start items k" "kp_channels k c = Some ch" "resize_request_decode payload ''ResizeRequest'' = Ok r"
    and "MAX_SAFE_INTEGER < rz_seq r" "pc_applied_seq (chn_pty ch) < rz_seq r" "host_resize host c (rz_cols r) (rz_rows r) = Inr ()"
    and "keeper_handle env host \<lparr>mf_frame_type = MuxResizeRequest, mf_channel_id = c, mf_payload = payload\<rparr> k = (k', replies)"
  shows "resize_ack c \<lparr>ts_applied_seq = rz_seq r, ts_cols = rz_cols r, ts_rows = rz_rows r\<rparr> = Ok replies
    \<and> snd (keeper_handle env host' (bare_frame MuxGetHistoryRecords c) k') = []"
proof -
  let ?frame = "\<lparr>mf_frame_type = MuxResizeRequest, mf_channel_id = c, mf_payload = payload\<rparr>"
  note dims = decoded_resize [OF assms(3)]
  have c: "c \<noteq> 0" "pc_channel_id (chn_pty ch) = c" using registry_okD [OF assms(1,2)] by (auto simp: channel_ok_def)
  have seq: "fst (sequenced_resize host ?frame k) = k'" "snd (sequenced_resize host ?frame k)
      = resize_ack c \<lparr>ts_applied_seq = rz_seq r, ts_cols = rz_cols r, ts_rows = rz_rows r\<rparr>"
    using assms(2,3,5,6,7) dims c
    by (auto simp: keeper_handle_def keeper_dispatch_def sequenced_resize_def apply_resize_def resize_master_iff pty_terminal_state_def Let_def
        split: sum.splits)
  have ack: "resize_ack c \<lparr>ts_applied_seq = rz_seq r, ts_cols = rz_cols r, ts_rows = rz_rows r\<rparr> = Ok replies"
    using resize_ack_framed [of "\<lparr>ts_applied_seq = rz_seq r, ts_cols = rz_cols r, ts_rows = rz_rows r\<rparr>" c] dims seq assms(7) c(1)
    by (auto simp: keeper_handle_def keeper_dispatch_def split: prod.splits sum.splits)
  let ?h = "record_resize (rz_seq r) (rz_cols r) (rz_rows r) (chn_history ch)"
  have live: "\<exists>ch'. kp_channels k' c = Some ch' \<and> chn_history ch' = ?h"
    using seq(1) assms(2,3,5,6) dims c
    by (auto simp: sequenced_resize_def apply_resize_def resize_master_iff pty_terminal_state_def Let_def)
  have "keeps_stream (start c) (items c @ [StreamGeometry (rz_seq r) (rz_cols r) (rz_rows r)]) ?h"
    using registry_okD [OF assms(1,2)] by (intro record_resize_keeps) (simp add: channel_ok_def)
  then have ok: "ring_ok ?h" by (simp add: keeps_stream_def)
  have "StreamGeometry (rz_seq r) (rz_cols r) (rz_rows r) \<in> set (interleave tail ring (ms @ [m]))"
    if "rm_seq m = rz_seq r" "rm_cols m = rz_cols r" "rm_rows m = rz_rows r" for tail ring ms m
    using that by (induction ms arbitrary: tail ring) auto
  then have "StreamGeometry (rz_seq r) (rz_cols r) (rz_rows r) \<in> set (replayed (ordered ?h))"
    using ordered_replays [OF ok] by (simp add: kept_def record_resize_def Let_def)
  then have "ResizeRecord (rz_seq r) (rz_cols r) (rz_rows r) \<in> set (hrs_records (ordered ?h))"
    unfolding replayed_def geometry_in_records .
  then have "\<not> list_all record_ok (hrs_records (ordered ?h))" using assms(4) by (force simp: list_all_iff)
  then obtain e where "history_encode (ordered ?h) = Err e"
    using history_encode_iff [of "ordered ?h"] by (cases "history_encode (ordered ?h)") auto
  with live c(1) have "snd (keeper_handle env host' (bare_frame MuxGetHistoryRecords c) k') = []"
    by (auto simp: keeper_handle_def keeper_dispatch_def history_records_frames_def ordered_history_def keeper_reject_def)
  with ack show ?thesis by blast
qed

text \<open>
  An input request over the size limit is refused under sequence zero, whatever sequence it carried and even
  when its channel is live: the refusal names no such channel and cannot be matched to the request.
\<close>

theorem oversized_input_refused_unmatched:
  assumes "s \<le> u64_max" "KEEPER_MAX_INPUT_BYTES < length bytes" "c \<noteq> 0"
  shows "keeper_handle env host \<lparr>mf_frame_type = MuxPtyInRequest, mf_channel_id = c,
      mf_payload = pty_in_request_encode \<lparr>pir_input_seq = s, pir_bytes = bytes\<rparr>\<rparr> k
    = (k, [\<lparr>mf_frame_type = MuxPtyInReject, mf_channel_id = c, mf_payload = pty_in_result_encode (PtyReject 0 NoSuchChannel)\<rparr>])"
  using assms
  by (simp add: keeper_handle_def keeper_dispatch_def sequenced_input_def pty_in_request_decode_def pty_in_request_encode_def
      write_sequence_def read_sequence_here keeper_reject_def result_frame_def mux_frame_new_def KEEPER_MAX_MUX_FRAME_BYTES_def)

lemma large_resize_decodes:
  "resize_request_decode (write_sequence [] (2 ^ 53) @ be_bytes 4 100 @ be_bytes 4 30) name = Ok \<lparr>rz_seq = 2 ^ 53, rz_cols = 100, rz_rows = 30\<rparr>"
  by (rule resize_roundtrip) (simp_all add: resize_request_encode_def check_dimension_def keeper_limits u64_max_def)

theorem large_sequence_silences_history_witness:
  "snd (keeper_handle sample_env sample_host (bare_frame MuxGetHistoryRecords 7) (fst (keeper_handle sample_env sample_host
      \<lparr>mf_frame_type = MuxResizeRequest, mf_channel_id = 7, mf_payload = write_sequence [] (2 ^ 53) @ be_bytes 4 100 @ be_bytes 4 30\<rparr>
      (sv_keeper sample_service)))) = []"
proof -
  obtain k' replies where h: "keeper_handle sample_env sample_host
      \<lparr>mf_frame_type = MuxResizeRequest, mf_channel_id = 7, mf_payload = write_sequence [] (2 ^ 53) @ be_bytes 4 100 @ be_bytes 4 30\<rparr>
      (sv_keeper sample_service) = (k', replies)" by fastforce
  have reg: "registry_ok (sv_start sample_service) (sv_stream sample_service) (sv_keeper sample_service)"
    using service_reachable_ok unfolding sample_service_def service_ok_def by blast
  have host: "host_resize sample_host 7 100 30 = Inr ()" by (simp add: sample_host_def)
  from large_sequence_silences_history [OF reg sample_channel(1) large_resize_decodes _ _ _ h] host h show ?thesis
    by (simp add: MAX_SAFE_INTEGER_def)
qed

theorem oversized_input_refused_unmatched_witness:
  "snd (keeper_handle sample_env sample_host \<lparr>mf_frame_type = MuxPtyInRequest, mf_channel_id = 7,
      mf_payload = pty_in_request_encode \<lparr>pir_input_seq = 9, pir_bytes = replicate 65537 0\<rparr>\<rparr> (sv_keeper sample_service))
    = [\<lparr>mf_frame_type = MuxPtyInReject, mf_channel_id = 7, mf_payload = pty_in_result_encode (PtyReject 0 NoSuchChannel)\<rparr>]"
  using oversized_input_refused_unmatched [of 9 "replicate 65537 0" 7 sample_env sample_host "sv_keeper sample_service"]
  by (simp add: u64_max_def keeper_limits)

end
