(* ===== verification/Keeper_Client.thy ===== *)
theory Keeper_Client
  imports Keeper_Gate
begin

text \<open>
  The worker's side of the keeper socket (\<^verbatim>\<open>roost-keeper/src/client_frames.rs\<close>, \<^verbatim>\<open>client_history.rs\<close>,
  \<^verbatim>\<open>client_resize.rs\<close>, \<^verbatim>\<open>client_queries.rs\<close>, \<^verbatim>\<open>client_io.rs\<close>): one event queue carries output and answers, a wait that
  picks up something else holds it back for the worker. What the queue yields to successive receives is
  an argument; a wait that has not ended when it runs out is \<open>None\<close>. The socket write before a wait is
  not modelled beyond its failure. At the end both sides of the protocol are put together.
\<close>

datatype recv_result = RecvFrame mux_frame | RecvTimeout | RecvDisconnected

datatype wait_ended = Answered mux_frame | TimedOut | WaitDisconnected

datatype event_poll = PollFrame mux_frame | PollEmpty | PollClosed

datatype client_error =
    ClientIo
  | ClientProtocol codec_error
  | SpawnNotAcknowledged
  | SpawnRefused string
  | ClientUnsupported string

section \<open>Waiting among other frames\<close>

definition defer_frame :: "mux_frame \<Rightarrow> mux_frame list \<Rightarrow> mux_frame list" where
  "defer_frame frame deferred = deferred @ [frame]"

definition next_event :: "mux_frame list \<Rightarrow> recv_result list \<Rightarrow> mux_frame option \<times> mux_frame list \<times> recv_result list" where
  "next_event deferred recvs =
     (case deferred of
        frame # held \<Rightarrow> (Some frame, held, recvs)
      | [] \<Rightarrow> (case recvs of
                RecvFrame frame # rest \<Rightarrow> (Some frame, [], rest)
              | _ # rest \<Rightarrow> (None, [], rest)
              | [] \<Rightarrow> (None, [], [])))"

definition poll_event :: "mux_frame list \<Rightarrow> mux_frame list \<Rightarrow> bool \<Rightarrow> event_poll \<times> mux_frame list \<times> mux_frame list" where
  "poll_event deferred queue connected =
     (case deferred of
        frame # held \<Rightarrow> (PollFrame frame, held, queue)
      | [] \<Rightarrow> (case queue of
                frame # rest \<Rightarrow> (PollFrame frame, [], rest)
              | [] \<Rightarrow> (if connected then PollEmpty else PollClosed, [], [])))"

definition is_answer :: "nat \<Rightarrow> mux_frame_type list \<Rightarrow> mux_frame \<Rightarrow> bool" where
  "is_answer channel_id accepted frame \<longleftrightarrow> mf_channel_id frame = channel_id \<and> mf_frame_type frame \<in> set accepted"

fun wait_for_any_on_events ::
  "nat \<Rightarrow> mux_frame_type list \<Rightarrow> mux_frame list \<Rightarrow> recv_result list \<Rightarrow> (wait_ended \<times> mux_frame list \<times> recv_result list) option" where
  "wait_for_any_on_events channel_id accepted deferred [] = None"
| "wait_for_any_on_events channel_id accepted deferred (RecvFrame frame # recvs) =
     (if is_answer channel_id accepted frame then Some (Answered frame, deferred, recvs)
      else wait_for_any_on_events channel_id accepted (defer_frame frame deferred) recvs)"
| "wait_for_any_on_events channel_id accepted deferred (RecvTimeout # recvs) = Some (TimedOut, deferred, recvs)"
| "wait_for_any_on_events channel_id accepted deferred (RecvDisconnected # recvs) = Some (WaitDisconnected, deferred, recvs)"

text \<open>The observing wait: the frames held back are replayed to the observer first, later ones as they come.\<close>

fun observe_until ::
  "nat \<Rightarrow> mux_frame_type list \<Rightarrow> mux_frame list \<Rightarrow> recv_result list \<Rightarrow> (wait_ended \<times> mux_frame list \<times> recv_result list) option" where
  "observe_until channel_id accepted seen [] = None"
| "observe_until channel_id accepted seen (RecvFrame frame # recvs) =
     (if is_answer channel_id accepted frame then Some (Answered frame, seen, recvs)
      else observe_until channel_id accepted (seen @ [frame]) recvs)"
| "observe_until channel_id accepted seen (RecvTimeout # recvs) = Some (TimedOut, seen, recvs)"
| "observe_until channel_id accepted seen (RecvDisconnected # recvs) = Some (WaitDisconnected, seen, recvs)"

definition wait_for_any_with ::
  "nat \<Rightarrow> mux_frame_type list \<Rightarrow> mux_frame list \<Rightarrow> recv_result list \<Rightarrow> (wait_ended \<times> mux_frame list \<times> recv_result list) option" where
  "wait_for_any_with channel_id accepted deferred recvs = observe_until channel_id accepted deferred recvs"

definition wait_as_result ::
  "nat \<Rightarrow> mux_frame_type list \<Rightarrow> mux_frame list \<Rightarrow> recv_result list
    \<Rightarrow> ((client_error, mux_frame) result \<times> mux_frame list \<times> recv_result list) option" where
  "wait_as_result channel_id accepted deferred recvs =
     (case wait_for_any_on_events channel_id accepted deferred recvs of
        None \<Rightarrow> None
      | Some (Answered frame, rest) \<Rightarrow> Some (Ok frame, rest)
      | Some (_, rest) \<Rightarrow> Some (Err SpawnNotAcknowledged, rest))"

section \<open>Reading history across a boundary\<close>

record bounded_history =
  bh_history :: history_records
  bh_dropped_output_bytes :: nat

definition is_output :: "nat \<Rightarrow> mux_frame \<Rightarrow> bool" where
  "is_output channel_id frame \<longleftrightarrow> mf_channel_id frame = channel_id \<and> mf_frame_type frame = MuxPtyOut"

definition drop_deferred_output :: "nat \<Rightarrow> mux_frame list \<Rightarrow> nat \<times> mux_frame list" where
  "drop_deferred_output channel_id held =
     (sum_list (map (length \<circ> mf_payload) (filter (is_output channel_id) held)), filter (Not \<circ> is_output channel_id) held)"

fun history_wait ::
  "nat \<Rightarrow> mux_frame_type \<Rightarrow> nat \<Rightarrow> mux_frame list \<Rightarrow> recv_result list
    \<Rightarrow> ((client_error, mux_frame \<times> nat) result \<times> mux_frame list \<times> recv_result list) option" where
  "history_wait channel_id expected dropped deferred [] = None"
| "history_wait channel_id expected dropped deferred (RecvFrame frame # recvs) =
     (if mf_channel_id frame = channel_id \<and> mf_frame_type frame = expected then Some (Ok (frame, dropped), deferred, recvs)
      else if is_output channel_id frame then history_wait channel_id expected (dropped + length (mf_payload frame)) deferred recvs
      else history_wait channel_id expected dropped (defer_frame frame deferred) recvs)"
| "history_wait channel_id expected dropped deferred (RecvTimeout # recvs) = Some (Err SpawnNotAcknowledged, deferred, recvs)"
| "history_wait channel_id expected dropped deferred (RecvDisconnected # recvs) = Some (Err ClientIo, deferred, recvs)"

definition wait_across_history_boundary ::
  "nat \<Rightarrow> mux_frame_type \<Rightarrow> mux_frame list \<Rightarrow> recv_result list
    \<Rightarrow> ((client_error, mux_frame \<times> nat) result \<times> mux_frame list \<times> recv_result list) option" where
  "wait_across_history_boundary channel_id expected deferred recvs =
     (case drop_deferred_output channel_id deferred of (dropped, held) \<Rightarrow> history_wait channel_id expected dropped held recvs)"

definition client_history_records ::
  "nat \<Rightarrow> mux_frame list \<Rightarrow> recv_result list
    \<Rightarrow> ((client_error, bounded_history) result \<times> mux_frame list \<times> recv_result list) option" where
  "client_history_records channel_id deferred recvs =
     (case wait_across_history_boundary channel_id MuxGetHistoryRecordsResp deferred recvs of
        None \<Rightarrow> None
      | Some (Inl e, rest) \<Rightarrow> Some (Err e, rest)
      | Some (Inr (frame, dropped), rest) \<Rightarrow>
          Some (case history_decode (mf_payload frame) of
                  Inl e \<Rightarrow> Err (ClientProtocol e)
                | Inr history \<Rightarrow> Ok \<lparr>bh_history = history, bh_dropped_output_bytes = dropped\<rparr>, rest))"

definition client_legacy_history ::
  "nat \<Rightarrow> mux_frame list \<Rightarrow> recv_result list
    \<Rightarrow> ((client_error, nat \<times> byte list) result \<times> mux_frame list \<times> recv_result list) option" where
  "client_legacy_history channel_id deferred recvs =
     (case wait_as_result channel_id [MuxGetHistoryResp] deferred recvs of
        None \<Rightarrow> None
      | Some (Inl e, rest) \<Rightarrow> Some (Err e, rest)
      | Some (Inr frame, rest) \<Rightarrow>
          Some (case get_range (mf_payload frame) 0 8 of
                  None \<Rightarrow> Ok (0, [])
                | Some head \<Rightarrow> Ok (from_be head, drop 8 (mf_payload frame)), rest))"

section \<open>Resizing\<close>

datatype resize_reject_reason =
    ChannelMissing | ChannelExited | TerminalMissing | ResizeError | StaleSequence | UnknownSequence
  | InvalidRequest | ResizeUnsupported | ResizeDisconnected

fun resize_reason_code :: "resize_reject_reason \<Rightarrow> byte" where
  "resize_reason_code ChannelMissing = 1"
| "resize_reason_code ChannelExited = 2"
| "resize_reason_code TerminalMissing = 3"
| "resize_reason_code ResizeError = 4"
| "resize_reason_code StaleSequence = 5"
| "resize_reason_code UnknownSequence = 6"
| "resize_reason_code InvalidRequest = 7"
| "resize_reason_code ResizeUnsupported = 8"
| "resize_reason_code ResizeDisconnected = 9"

definition resize_reason_from_code :: "byte \<Rightarrow> resize_reject_reason option" where
  "resize_reason_from_code code = map_of
     [(1, ChannelMissing), (2, ChannelExited), (3, TerminalMissing), (4, ResizeError), (5, StaleSequence),
      (6, UnknownSequence), (7, InvalidRequest), (8, ResizeUnsupported), (9, ResizeDisconnected)] code"

datatype resize_unknown_reason = UnknownDisconnected | UnknownTimeout | UnknownProtocolError

datatype resize_outcome =
    Applied nat nat nat
  | Refused nat resize_reject_reason
  | Unknown nat resize_unknown_reason

definition decode_resize_answer :: "nat \<Rightarrow> mux_frame \<Rightarrow> resize_outcome" where
  "decode_resize_answer s answer =
     (if mf_frame_type answer = MuxResizeAck then
        (case terminal_state_decode (mf_payload answer) of
           Inr state \<Rightarrow> Applied (ts_applied_seq state) (ts_cols state) (ts_rows state)
         | Inl _ \<Rightarrow> Unknown s UnknownProtocolError)
      else if mf_frame_type answer = MuxResizeReject then
        (case (read_sequence (mf_payload answer) 0,
               Option.bind (if 8 < length (mf_payload answer) then Some (mf_payload answer ! 8) else None) resize_reason_from_code) of
           (Some refused, Some reason) \<Rightarrow> Refused refused reason
         | _ \<Rightarrow> Unknown s UnknownProtocolError)
      else Unknown s UnknownProtocolError)"

text \<open>The request a resize puts on the socket, or the refusal of one it cannot encode.\<close>

definition resize_frame :: "nat \<Rightarrow> nat \<Rightarrow> nat \<Rightarrow> nat \<Rightarrow> (resize_outcome, mux_frame) result" where
  "resize_frame channel_id s cols rows =
     (case resize_request_encode \<lparr>rz_seq = s, rz_cols = cols, rz_rows = rows\<rparr> of
        Inl _ \<Rightarrow> Err (Refused s InvalidRequest)
      | Inr payload \<Rightarrow>
          (case mux_frame_new MuxResizeRequest channel_id payload of
             Inl _ \<Rightarrow> Err (Refused s InvalidRequest)
           | Inr frame \<Rightarrow> Ok frame))"

text \<open>With an observer the frames met on the way, held-back ones first, go to it; without one they are held back.\<close>

definition resize_inner ::
  "nat \<Rightarrow> nat \<Rightarrow> nat \<Rightarrow> nat \<Rightarrow> bool \<Rightarrow> bool \<Rightarrow> mux_frame list \<Rightarrow> recv_result list
    \<Rightarrow> (resize_outcome \<times> mux_frame list \<times> mux_frame list \<times> recv_result list) option" where
  "resize_inner channel_id s cols rows written observing deferred recvs =
     (case resize_frame channel_id s cols rows of
        Inl refusal \<Rightarrow> Some (refusal, [], deferred, recvs)
      | Inr frame \<Rightarrow>
          if \<not> written then Some (Unknown s UnknownDisconnected, [], deferred, recvs)
          else map_option (\<lambda>(ended, met, rest).
                 (case ended of
                    Answered answer \<Rightarrow> decode_resize_answer s answer
                  | TimedOut \<Rightarrow> Unknown s UnknownTimeout
                  | WaitDisconnected \<Rightarrow> Unknown s UnknownDisconnected,
                  if observing then met else [], if observing then [] else met, rest))
               (if observing then wait_for_any_with channel_id [MuxResizeAck, MuxResizeReject] deferred recvs
                else wait_for_any_on_events channel_id [MuxResizeAck, MuxResizeReject] deferred recvs))"

fun outcome_seq :: "resize_outcome \<Rightarrow> nat" where
  "outcome_seq (Applied s _ _) = s"
| "outcome_seq (Refused s _) = s"
| "outcome_seq (Unknown s _) = s"

fun applied_geometry :: "resize_outcome \<Rightarrow> (nat \<times> nat) option" where
  "applied_geometry (Applied _ cols rows) = Some (cols, rows)"
| "applied_geometry _ = None"

section \<open>No wait loses or reorders a frame\<close>

definition ended_by :: "nat \<Rightarrow> mux_frame_type list \<Rightarrow> wait_ended \<Rightarrow> recv_result \<Rightarrow> bool" where
  "ended_by c accepted ended r \<longleftrightarrow>
     (case ended of Answered f \<Rightarrow> r = RecvFrame f \<and> is_answer c accepted f | TimedOut \<Rightarrow> r = RecvTimeout | WaitDisconnected \<Rightarrow> r = RecvDisconnected)"

lemma wait_spec:
  "wait_for_any_on_events c accepted deferred recvs = Some (ended, deferred', rest) \<Longrightarrow>
   \<exists>xs r. recvs = map RecvFrame xs @ r # rest \<and> deferred' = deferred @ xs \<and> list_all (\<lambda>x. \<not> is_answer c accepted x) xs \<and> ended_by c accepted ended r"
proof (induction c accepted deferred recvs rule: wait_for_any_on_events.induct)
  case (2 c accepted deferred frame recvs)
  show ?case
  proof (cases "is_answer c accepted frame")
    case True
    with "2.prems" show ?thesis by (intro exI [of _ "[]"]) (auto simp: ended_by_def)
  next
    case False
    with "2.IH" "2.prems" obtain xs r where "recvs = map RecvFrame xs @ r # rest" "deferred' = (deferred @ [frame]) @ xs"
      "list_all (\<lambda>x. \<not> is_answer c accepted x) xs" "ended_by c accepted ended r" by (auto simp: defer_frame_def)
    with False show ?thesis by (intro exI [of _ "frame # xs"] exI [of _ r]) simp
  qed
qed (auto simp: ended_by_def intro!: exI [of _ "[]"])

lemma observe_is_wait: "observe_until c accepted seen recvs = wait_for_any_on_events c accepted seen recvs"
  by (induction c accepted seen recvs rule: observe_until.induct) (simp_all add: defer_frame_def)

text \<open>
  A control wait never loses terminal output: whichever way it ends, the frames it met before ending are held
  back behind those already held, in arrival order and all of them, none of them was the answer, nothing
  after the ending was touched, and an observing wait shows its observer exactly the same frames in the
  same order. What the worker polls next is the oldest frame held back.
\<close>

theorem wait_keeps_every_frame:
  assumes "wait_for_any_on_events c accepted deferred recvs = Some (ended, deferred', rest)"
  shows "\<exists>xs r. recvs = map RecvFrame xs @ r # rest \<and> deferred' = deferred @ xs \<and> list_all (\<lambda>x. \<not> is_answer c accepted x) xs
      \<and> ended_by c accepted ended r
    \<and> wait_for_any_with c accepted deferred recvs = Some (ended, deferred @ xs, rest)
    \<and> (\<forall>queue connected. deferred @ xs \<noteq> [] \<longrightarrow> poll_event deferred' queue connected = (PollFrame (hd (deferred @ xs)), tl (deferred @ xs), queue))"
proof -
  obtain xs r where "recvs = map RecvFrame xs @ r # rest" "deferred' = deferred @ xs"
    "list_all (\<lambda>x. \<not> is_answer c accepted x) xs" "ended_by c accepted ended r" using wait_spec [OF assms] by blast
  moreover have "wait_for_any_with c accepted deferred recvs = Some (ended, deferred', rest)"
    using assms by (simp add: wait_for_any_with_def observe_is_wait)
  moreover have "poll_event (deferred @ xs) queue connected = (PollFrame (hd (deferred @ xs)), tl (deferred @ xs), queue)"
    if "deferred @ xs \<noteq> []" for queue connected
    using that by (cases "deferred @ xs") (simp_all add: poll_event_def)
  ultimately show ?thesis by blast
qed

theorem wait_keeps_every_frame_witness:
  "wait_for_any_on_events 7 [MuxResizeAck] [] [RecvFrame (bare_frame MuxPtyOut 7), RecvFrame (bare_frame MuxResizeAck 7)]
     = Some (Answered (bare_frame MuxResizeAck 7), [bare_frame MuxPtyOut 7], [])
   \<and> wait_for_any_with 7 [MuxResizeAck] [] [RecvFrame (bare_frame MuxPtyOut 7), RecvFrame (bare_frame MuxResizeAck 7)]
     = Some (Answered (bare_frame MuxResizeAck 7), [bare_frame MuxPtyOut 7], [])"
proof -
  have w: "wait_for_any_on_events 7 [MuxResizeAck] [] [RecvFrame (bare_frame MuxPtyOut 7), RecvFrame (bare_frame MuxResizeAck 7)]
     = Some (Answered (bare_frame MuxResizeAck 7), [bare_frame MuxPtyOut 7], [])" by (simp add: is_answer_def defer_frame_def)
  with wait_keeps_every_frame [OF w] show ?thesis by auto
qed

section \<open>Resuming a channel\<close>

definition output_bytes :: "nat \<Rightarrow> mux_frame list \<Rightarrow> nat" where
  "output_bytes c frames = sum_list (map (length \<circ> mf_payload) (filter (is_output c) frames))"

definition output_of :: "nat \<Rightarrow> mux_frame list \<Rightarrow> byte list" where
  "output_of c frames = concat (map mf_payload (filter (is_output c) frames))"

fun stream_bytes :: "stream_item list \<Rightarrow> byte list" where
  "stream_bytes [] = []"
| "stream_bytes (StreamByte b # items) = b # stream_bytes items"
| "stream_bytes (StreamGeometry _ _ _ # items) = stream_bytes items"

lemma stream_bytes_append [simp]: "stream_bytes (xs @ ys) = stream_bytes xs @ stream_bytes ys"
  by (induction xs rule: stream_bytes.induct) simp_all

lemma stream_bytes_output [simp]: "stream_bytes (map StreamByte bs) = bs"
  by (induction bs) simp_all

lemma stream_bytes_replayed: "stream_bytes (replayed h) = window h"
proof -
  have "stream_bytes (items_of rs) = records_output rs" for rs
  proof (induction rs)
    case (Cons r rs)
    then show ?case by (cases r) simp_all
  qed simp
  then show ?thesis by (simp add: replayed_def window_def)
qed

text \<open>Two tails of one list: the shorter is a tail of the longer.\<close>

lemma tails_compare:
  assumes "before @ d = front @ w"
  shows "(\<exists>a. w = a @ d) \<or> (\<exists>a. d = a @ w \<and> front = before @ a)"
  using assms by (auto simp: append_eq_append_conv2)

lemma history_wait_reaches:
  assumes "list_all (\<lambda>x. \<not> (mf_channel_id x = c \<and> mf_frame_type x = expected)) xs"
    "mf_channel_id f = c" "mf_frame_type f = expected"
  shows "history_wait c expected dropped deferred (map RecvFrame xs @ RecvFrame f # rest)
    = Some (Ok (f, dropped + output_bytes c xs), deferred @ filter (Not \<circ> is_output c) xs, rest)"
  using assms by (induction xs arbitrary: dropped deferred) (simp_all add: output_bytes_def defer_frame_def)

text \<open>
  C2: A worker that resumes a channel starts from an exact boundary. Let the sequences of the resizes the
  channel was shown and the count of its output bytes be at most \<open>2\<^sup>5\<^sup>3 - 1\<close>, the largest number the wire
  format carries (beyond it the keeper sends no history at all: \<open>large_sequence_silences_history\<close>). Put the
  keeper's answer to a history request behind whatever else was received or set aside, and the client's
  read returns the history the keeper held when it answered, which is a suffix of everything the channel
  was shown, at the geometry in force where it starts and with the count of all its output; it drops every
  output frame of that channel met before the answer, counting their bytes, and keeps every other frame in
  order. When the bytes it drops are the latest the keeper sent on that channel, either the history ends
  with all of them, or the history is shorter than they are, because the keeper's ring has already evicted
  the rest, and is then exactly their end.
\<close>

theorem resume_is_exact:
  assumes "s = fold (service_exec env) ps (service_new env epoch)" "kp_channels (sv_keeper s) c \<noteq> None"
    and "list_all item_wire_ok (sv_stream s c)" "byte_count (sv_stream s c) \<le> MAX_SAFE_INTEGER"
    and "list_all (\<lambda>x. \<not> (mf_channel_id x = c \<and> mf_frame_type x = MuxGetHistoryRecordsResp)) xs"
  shows "\<exists>f h pre. snd (keeper_handle env host (bare_frame MuxGetHistoryRecords c) (sv_keeper s)) = [f]
    \<and> client_history_records c deferred (map RecvFrame xs @ RecvFrame f # rest)
        = Some (Ok \<lparr>bh_history = h, bh_dropped_output_bytes = output_bytes c (deferred @ xs)\<rparr>,
                filter (Not \<circ> is_output c) (deferred @ xs), rest)
    \<and> sv_stream s c = pre @ replayed h \<and> geometry_after (sv_start s c) pre = (hrs_base_cols h, hrs_base_rows h)
    \<and> hrs_head_seq h = byte_count (sv_stream s c) \<and> length (output_of c (deferred @ xs)) = output_bytes c (deferred @ xs)
    \<and> (\<forall>before. stream_bytes (sv_stream s c) = before @ output_of c (deferred @ xs) \<longrightarrow>
         (\<exists>a. window h = a @ output_of c (deferred @ xs))
         \<or> (\<exists>a. output_of c (deferred @ xs) = a @ window h \<and> stream_bytes pre = before @ a))"
proof -
  let ?k = "sv_keeper s"
  have reg: "registry_ok (sv_start s) (sv_stream s) ?k"
    using service_reachable_ok [of env ps epoch] by (simp add: service_ok_def assms(1))
  obtain ch where ch: "kp_channels ?k c = Some ch" using assms(2) by blast
  note ok = registry_okD [OF reg ch]
  let ?h = "ordered (chn_history ch)"
  have h: "ordered_history c ?k = ?h" using ch by (simp add: ordered_history_def)
  obtain p where p: "history_encode ?h = Ok p" "length p + MUX_FRAME_HEADER_BYTES \<le> KEEPER_MAX_MUX_FRAME_BYTES"
    using history_answered [OF reg, of c] assms(3,4) unfolding h by blast
  define f where "f = \<lparr>mf_frame_type = MuxGetHistoryRecordsResp, mf_channel_id = c, mf_payload = p\<rparr>"
  have "c \<noteq> 0" using ok by (simp add: channel_ok_def)
  then have answer: "snd (keeper_handle env host (bare_frame MuxGetHistoryRecords c) ?k) = [f]"
    using p by (simp add: keeper_handle_def keeper_dispatch_def history_records_frames_def h one_frame_def mux_frame_new_def f_def)
  have decoded: "history_decode p = Ok ?h" using history_decodes [OF p(1)] .
  have "client_history_records c deferred (map RecvFrame xs @ RecvFrame f # rest)
      = Some (Ok \<lparr>bh_history = ?h, bh_dropped_output_bytes = output_bytes c (deferred @ xs)\<rparr>, filter (Not \<circ> is_output c) (deferred @ xs), rest)"
    using history_wait_reaches [OF assms(5), of f] decoded
    by (simp add: client_history_records_def wait_across_history_boundary_def drop_deferred_output_def f_def output_bytes_def)
  moreover have "keeps_stream (sv_start s c) (sv_stream s c) (chn_history ch)" using ok by (simp add: channel_ok_def)
  then obtain pre where pre: "sv_stream s c = pre @ replayed ?h" "geometry_after (sv_start s c) pre = (hrs_base_cols ?h, hrs_base_rows ?h)"
    "hrs_head_seq ?h = byte_count (sv_stream s c)" using ordered_keeps(1,2) by blast
  have "(\<exists>a. window ?h = a @ d) \<or> (\<exists>a. d = a @ window ?h \<and> stream_bytes pre = before @ a)"
    if "stream_bytes (sv_stream s c) = before @ d" for before d
    using that tails_compare [of before d "stream_bytes pre" "window ?h"] pre(1) by (simp add: stream_bytes_replayed)
  moreover have "length (output_of c frames) = output_bytes c frames" for frames
    by (simp add: output_of_def output_bytes_def length_concat comp_def)
  ultimately show ?thesis using answer pre by blast
qed

theorem resume_is_exact_witness:
  "\<exists>f h. snd (keeper_handle sample_env sample_host (bare_frame MuxGetHistoryRecords 7) (sv_keeper sample_service)) = [f]
    \<and> client_history_records 7 [] (map RecvFrame [bare_frame MuxPtyOut 7] @ RecvFrame f # [])
        = Some (Ok \<lparr>bh_history = h, bh_dropped_output_bytes = 0\<rparr>, [], []) \<and> hrs_head_seq h = 0"
  using resume_is_exact [OF sample_service_def, of 7 "[bare_frame MuxPtyOut 7]" sample_host "[]" "[]"]
  by (auto simp: sample_channel is_output_def output_bytes_def)

section \<open>Resizing end to end\<close>

lemma resize_reason_roundtrip: "resize_reason_from_code (resize_reason_code r) = Some r"
  by (cases r) (simp_all add: resize_reason_from_code_def)

lemma decode_ack:
  assumes "resize_ack c st = Ok replies" "ts_applied_seq st \<le> u64_max"
  shows "\<exists>f. replies = [f] \<and> mf_channel_id f = c \<and> mf_frame_type f = MuxResizeAck
    \<and> decode_resize_answer s f = Applied (ts_applied_seq st) (ts_cols st) (ts_rows st)"
proof -
  obtain p where p: "resize_request_encode \<lparr>rz_seq = ts_applied_seq st, rz_cols = ts_cols st, rz_rows = ts_rows st\<rparr> = Ok p"
    "replies = [\<lparr>mf_frame_type = MuxResizeAck, mf_channel_id = c, mf_payload = p\<rparr>]"
    using assms(1) by (auto simp: resize_ack_def res_simps)
  have "resize_request_decode p ''terminal state'' = Ok \<lparr>rz_seq = ts_applied_seq st, rz_cols = ts_cols st, rz_rows = ts_rows st\<rparr>"
    by (rule resize_roundtrip [OF p(1)]) (simp add: assms(2))
  with p(2) show ?thesis by (simp add: decode_resize_answer_def terminal_state_decode_def)
qed

lemma decode_reject:
  assumes "resize_reject c q 1 = Ok f" "q \<le> u64_max"
  shows "mf_channel_id f = c \<and> mf_frame_type f = MuxResizeReject \<and> decode_resize_answer s f = Refused q ChannelMissing"
proof -
  have "f = \<lparr>mf_frame_type = MuxResizeReject, mf_channel_id = c, mf_payload = be_bytes 8 q @ [1]\<rparr>"
    using assms(1) by (auto simp: resize_reject_def write_sequence_def res_simps)
  with assms(2) show ?thesis
    by (simp add: decode_resize_answer_def read_sequence_here resize_reason_from_code_def u64_max_def nth_append)
qed

lemma wait_reaches:
  assumes "list_all (\<lambda>x. \<not> is_answer c accepted x) xs" "is_answer c accepted f"
  shows "wait_for_any_on_events c accepted deferred (map RecvFrame xs @ RecvFrame f # rest) = Some (Answered f, deferred @ xs, rest)"
  using assms by (induction xs arbitrary: deferred) (simp_all add: defer_frame_def)

text \<open>The outcome of a resize whose only reply is a given acknowledgement or refusal.\<close>

lemma resize_replied:
  assumes "resize_frame c s cols rows = Ok frame" "list_all (\<lambda>x. \<not> is_answer c [MuxResizeAck, MuxResizeReject] x) xs"
    and "is_answer c [MuxResizeAck, MuxResizeReject] f"
  shows "resize_inner c s cols rows True False deferred (map RecvFrame xs @ map RecvFrame [f] @ rest)
    = Some (decode_resize_answer s f, [], deferred @ xs, rest)"
  using assms(1) wait_reaches [OF assms(2,3)] by (simp add: resize_inner_def)

lemma resize_refused:
  assumes "resize_frame c s cols rows = Ok frame" "list_all (\<lambda>x. \<not> is_answer c [MuxResizeAck, MuxResizeReject] x) xs"
    and "resize_reject c s 1 = Ok (hd replies) \<and> length replies = 1" "s \<le> u64_max"
  shows "resize_inner c s cols rows True False deferred (map RecvFrame xs @ map RecvFrame replies @ rest)
    = Some (Refused s ChannelMissing, [], deferred @ xs, rest)"
proof -
  obtain f where f: "replies = [f]" using assms(3) by (auto simp: length_Suc_conv)
  with decode_reject [of c s f s] assms(3,4) resize_replied [OF assms(1,2), of f] show ?thesis by (simp add: is_answer_def)
qed

lemma resize_applied:
  assumes "resize_frame c s cols rows = Ok frame" "list_all (\<lambda>x. \<not> is_answer c [MuxResizeAck, MuxResizeReject] x) xs"
    and "resize_ack c st = Ok replies" "ts_applied_seq st \<le> u64_max"
  shows "resize_inner c s cols rows True False deferred (map RecvFrame xs @ map RecvFrame replies @ rest)
    = Some (Applied (ts_applied_seq st) (ts_cols st) (ts_rows st), [], deferred @ xs, rest)"
proof -
  obtain f where f: "replies = [f]" "mf_channel_id f = c" "mf_frame_type f = MuxResizeAck"
    "decode_resize_answer s f = Applied (ts_applied_seq st) (ts_cols st) (ts_rows st)"
    using decode_ack [OF assms(3,4)] by blast
  with resize_replied [OF assms(1,2), of f] show ?thesis by (simp add: is_answer_def)
qed

lemma resize_frame_decodes:
  assumes "resize_frame c s cols rows = Ok frame" "s \<le> u64_max"
  shows "\<exists>p. frame = \<lparr>mf_frame_type = MuxResizeRequest, mf_channel_id = c, mf_payload = p\<rparr>
    \<and> resize_request_decode p ''ResizeRequest'' = Ok \<lparr>rz_seq = s, rz_cols = cols, rz_rows = rows\<rparr>"
proof -
  obtain p where p: "resize_request_encode \<lparr>rz_seq = s, rz_cols = cols, rz_rows = rows\<rparr> = Ok p"
    "frame = \<lparr>mf_frame_type = MuxResizeRequest, mf_channel_id = c, mf_payload = p\<rparr>"
    using assms(1) by (auto simp: resize_frame_def res_simps split: sum.splits)
  from resize_roundtrip [OF p(1)] p(2) assms(2) show ?thesis by simp
qed

text \<open>
  C34: What a resize reports is what the keeper did: when the client's request is handled by the keeper and its
  reply arrives behind any other traffic, the outcome carries the geometry and sequence the PTY is really
  at, or names the refused sequence; it is never unknown, and the frames met on the way are all kept. A
  host that fails the resize of a live channel is reported with the same reason as a missing channel.
\<close>

theorem resize_end_to_end:
  assumes "resize_frame c s cols rows = Ok frame" "s \<le> u64_max" "c \<noteq> 0"
    and "keeper_handle env host frame k = (k', replies)"
    and "resize_ack c (state_of c k') = Ok ack" "ts_applied_seq (state_of c k') \<le> u64_max"
    and "list_all (\<lambda>x. \<not> is_answer c [MuxResizeAck, MuxResizeReject] x) xs"
  shows "resize_inner c s cols rows True False deferred (map RecvFrame xs @ map RecvFrame replies @ rest) =
    Some (case kp_channels k c of
            None \<Rightarrow> Refused s ChannelMissing
          | Some ch \<Rightarrow>
              if pc_applied_seq (chn_pty ch) < s \<and> (\<exists>e. host_resize host (pc_channel_id (chn_pty ch)) cols rows = Inl e)
              then Refused s ChannelMissing
              else Applied (ts_applied_seq (state_of c k')) (ts_cols (state_of c k')) (ts_rows (state_of c k')),
          [], deferred @ xs, rest)"
proof -
  obtain p where p: "frame = \<lparr>mf_frame_type = MuxResizeRequest, mf_channel_id = c, mf_payload = p\<rparr>"
    "resize_request_decode p ''ResizeRequest'' = Ok \<lparr>rz_seq = s, rz_cols = cols, rz_rows = rows\<rparr>"
    using resize_frame_decodes [OF assms(1,2)] by blast
  note out = resize_outcomes [OF p(2) assms(3) assms(4) [unfolded p(1)]]
  note refused = resize_refused [OF assms(1,7) _ assms(2)]
  note applied = resize_applied [OF assms(1,7) _ assms(6)]
  show ?thesis
  proof (cases "kp_channels k c")
    case None
    with out refused show ?thesis by simp
  next
    case (Some ch)
    show ?thesis
    proof (cases "s \<le> pc_applied_seq (chn_pty ch)")
      case True
      then have "kp_channels k' = kp_channels k" "\<forall>frames. resize_ack c (state_of c k) = Ok frames \<longrightarrow> replies = frames"
        using out Some by auto
      then have "resize_ack c (state_of c k') = Ok replies" using assms(5) by (simp add: state_of_def)
      with applied Some True show ?thesis by simp
    next
      case False
      with out Some refused applied show ?thesis
        by (cases "host_resize host (pc_channel_id (chn_pty ch)) cols rows") auto
    qed
  qed
qed

theorem resize_end_to_end_witness:
  "\<exists>replies. resize_inner 7 5 100 30 True False [] (map RecvFrame [bare_frame MuxPtyOut 7] @ map RecvFrame replies @ [])
     = Some (Applied 5 100 30, [], [bare_frame MuxPtyOut 7], [])"
proof -
  let ?k = "sv_keeper sample_service" and ?p = "write_sequence [] 5 @ be_bytes 4 100 @ be_bytes 4 30"
  let ?frame = "\<lparr>mf_frame_type = MuxResizeRequest, mf_channel_id = 7, mf_payload = ?p\<rparr>"
  obtain k' replies where h: "keeper_handle sample_env sample_host ?frame ?k = (k', replies)" by fastforce
  have host: "host_resize sample_host 7 100 30 = Inr ()" by (simp add: sample_host_def)
  have frame: "resize_frame 7 5 100 30 = Ok ?frame"
    by (simp add: resize_frame_def resize_request_encode_def check_dimension_def mux_frame_new_def write_sequence_def keeper_limits)
  have "state_of 7 k' = \<lparr>ts_applied_seq = 5, ts_cols = 100, ts_rows = 30\<rparr> \<and> resize_ack 7 (state_of 7 k') = Ok replies"
    using resize_outcomes [OF sample_resize_decodes _ h] host by (auto simp: sample_channel)
  then have st: "state_of 7 k' = \<lparr>ts_applied_seq = 5, ts_cols = 100, ts_rows = 30\<rparr>" "resize_ack 7 (state_of 7 k') = Ok replies"
    by blast+
  from resize_end_to_end [OF frame _ _ h st(2), of "[bare_frame MuxPtyOut 7]" "[]" "[]"] st(1) host show ?thesis
    by (auto simp: u64_max_def is_answer_def sample_channel)
qed

end
