(* ===== verification/Client_Token.thy ===== *)
theory Client_Token
  imports Viewport
begin

text \<open>
  The identities and records one session replica of the client is fenced to: the carrier generation
  (\<open>roost-client-core/src/terminal/token.rs\<close>), the repair latch (\<open>terminal/repair.rs\<close>) and the
  lease one pane holds (\<open>terminal/view.rs\<close>). Instants are arguments, as they are in the source, which
  has no clock of its own; \<open>u64\<close> counters that are only ever bumped by one are natural numbers.
\<close>

section \<open>Carrier generations\<close>

datatype terminal_transport = Sync | Loopback | Peer

fun transport_as_str :: "terminal_transport \<Rightarrow> string" where
  "transport_as_str Sync = ''sync''"
| "transport_as_str Loopback = ''loopback''"
| "transport_as_str Peer = ''peer''"

record terminal_token =
  tk_socket_generation :: nat
  tk_process_epoch :: string
  tk_domain_generation :: nat
  tk_transport :: terminal_transport
  tk_worker_fp :: "string option"

text \<open>The socket id is taken and not stored.\<close>

definition token_sync :: "nat \<Rightarrow> string \<Rightarrow> string \<Rightarrow> nat \<Rightarrow> terminal_token" where
  "token_sync socket_generation socket_id process_epoch domain_generation =
     \<lparr>tk_socket_generation = socket_generation, tk_process_epoch = process_epoch,
      tk_domain_generation = domain_generation, tk_transport = Sync, tk_worker_fp = None\<rparr>"

definition token_direct :: "nat \<Rightarrow> terminal_transport \<Rightarrow> string \<Rightarrow> string \<Rightarrow> nat \<Rightarrow> terminal_token" where
  "token_direct socket_generation transport worker_fp process_epoch domain_generation =
     \<lparr>tk_socket_generation = socket_generation, tk_process_epoch = process_epoch,
      tk_domain_generation = domain_generation, tk_transport = transport, tk_worker_fp = Some worker_fp\<rparr>"

definition token_key :: "terminal_token \<Rightarrow> string" where
  "token_key t =
     show_nat (tk_socket_generation t) @ ''|'' @ tk_process_epoch t @ ''|''
     @ show_nat (tk_domain_generation t) @ ''|'' @ transport_as_str (tk_transport t) @ ''|''
     @ (case tk_worker_fp t of None \<Rightarrow> '''' | Some fp \<Rightarrow> fp)"

definition view_answer_generation :: "terminal_token \<Rightarrow> nat" where
  "view_answer_generation t =
     (case tk_transport t of
        Sync \<Rightarrow> tk_domain_generation t
      | Loopback \<Rightarrow> tk_socket_generation t
      | Peer \<Rightarrow> tk_socket_generation t)"

definition matches_current :: "terminal_token \<Rightarrow> terminal_token option \<Rightarrow> bool" where
  "matches_current t current = (case current of None \<Rightarrow> False | Some other \<Rightarrow> other = t)"

definition same_connection :: "terminal_token \<Rightarrow> terminal_token \<Rightarrow> bool" where
  "same_connection a b \<longleftrightarrow>
     tk_socket_generation a = tk_socket_generation b \<and> tk_process_epoch a = tk_process_epoch b
     \<and> tk_transport a = tk_transport b \<and> tk_worker_fp a = tk_worker_fp b"

definition token_matches :: "terminal_token option \<Rightarrow> terminal_token option \<Rightarrow> bool" where
  "token_matches left right =
     (case (left, right) of (Some l, Some r) \<Rightarrow> l = r | _ \<Rightarrow> False)"

section \<open>The repair latch\<close>

text \<open>
  Why a frame was refused: a contract string, or the diagnosis of a frame that did not decode, of
  which the model keeps the offending field (as everywhere, without its free text).
\<close>

datatype refusal = Reason string | Diagnosis protocol_error

record repair_latch =
  rl_latched :: bool
  rl_latched_at_ms :: nat
  rl_token :: "terminal_token option"
  rl_sent_key :: "string option"
  rl_sent_at_ms :: nat
  rl_reason :: "refusal option"

definition latch_new :: repair_latch where
  "latch_new = \<lparr>rl_latched = False, rl_latched_at_ms = 0, rl_token = None, rl_sent_key = None,
     rl_sent_at_ms = 0, rl_reason = None\<rparr>"

definition latch :: "refusal \<Rightarrow> terminal_token \<Rightarrow> nat \<Rightarrow> repair_latch \<Rightarrow> repair_latch \<times> bool" where
  "latch reason token now_ms l =
     (if rl_latched l then (l, False)
      else (l\<lparr>rl_latched := True, rl_latched_at_ms := now_ms, rl_token := Some token,
              rl_reason := Some reason\<rparr>, True))"

definition should_send :: "repair_latch \<Rightarrow> terminal_token option \<Rightarrow> nat \<Rightarrow> bool" where
  "should_send l current now_ms =
     (if \<not> rl_latched l then False
      else
        (case (rl_token l, current) of
           (Some latched, Some current) \<Rightarrow>
             if latched \<noteq> current then False
             else
               (case rl_sent_key l of
                  Some key \<Rightarrow> if key = token_key current
                              then TERMINAL_VIEW_HEARTBEAT_MS \<le> now_ms - rl_sent_at_ms l else True
                | None \<Rightarrow> True)
         | _ \<Rightarrow> False))"

definition record_sent :: "terminal_token \<Rightarrow> nat \<Rightarrow> repair_latch \<Rightarrow> repair_latch" where
  "record_sent token now_ms l = l\<lparr>rl_sent_key := Some (token_key token), rl_sent_at_ms := now_ms\<rparr>"

definition latch_clear :: "repair_latch \<Rightarrow> repair_latch" where
  "latch_clear l = latch_new"

section \<open>One pane's lease\<close>

datatype client_intent = Publish nat nat | Park | Unpublish

record view_state_result =
  vr_session_id :: string
  vr_view_id :: string
  vr_generation :: nat
  vr_revision :: nat
  vr_accepted :: bool
  vr_stream_id :: "string option"
  vr_effective_cols :: nat
  vr_effective_rows :: nat

record view_answer =
  va_revision :: nat
  va_accepted :: bool

record client_view =
  cv_view_id :: string
  cv_wire_view_id :: string
  cv_cols :: nat
  cv_rows :: nat
  cv_intent :: client_intent
  cv_revision :: nat
  cv_unacknowledged :: "nat option"
  cv_published_at_ms :: nat
  cv_acknowledged_at_ms :: nat
  cv_counted :: bool
  cv_answer :: "view_answer option"

definition published_as :: "string \<Rightarrow> string \<Rightarrow> client_intent \<Rightarrow> nat \<Rightarrow> nat \<Rightarrow> client_view" where
  "published_as view_id wire_view_id intent revision now_ms =
     (let (cols, rows) = (case intent of Publish c r \<Rightarrow> (c, r) | Park \<Rightarrow> (0, 0) | Unpublish \<Rightarrow> (0, 0))
      in \<lparr>cv_view_id = view_id, cv_wire_view_id = wire_view_id, cv_cols = cols, cv_rows = rows,
          cv_intent = intent, cv_revision = revision, cv_unacknowledged = None,
          cv_published_at_ms = now_ms, cv_acknowledged_at_ms = 0, cv_counted = False, cv_answer = None\<rparr>)"

definition view_opened :: "string \<Rightarrow> nat \<Rightarrow> nat \<Rightarrow> nat \<Rightarrow> client_view" where
  "view_opened view_id cols rows now_ms = published_as view_id view_id (Publish cols rows) 1 0"

definition adopt_wire_view_id :: "string \<Rightarrow> client_view \<Rightarrow> client_view" where
  "adopt_wire_view_id wire_view_id v =
     (if cv_wire_view_id v = wire_view_id then v
      else v\<lparr>cv_wire_view_id := wire_view_id, cv_unacknowledged := None, cv_answer := None,
             cv_counted := False, cv_published_at_ms := 0, cv_acknowledged_at_ms := 0\<rparr>)"

definition view_resize :: "nat \<Rightarrow> nat \<Rightarrow> client_view \<Rightarrow> client_view \<times> bool" where
  "view_resize cols rows v =
     (if cv_cols v = cols \<and> cv_rows v = rows then (v, False)
      else (v\<lparr>cv_cols := cols, cv_rows := rows, cv_intent := Publish cols rows,
              cv_revision := cv_revision v + 1\<rparr>, True))"

definition view_park :: "client_view \<Rightarrow> client_view" where
  "view_park v =
     (if cv_intent v \<noteq> Park then v\<lparr>cv_intent := Park, cv_revision := cv_revision v + 1\<rparr> else v)\<lparr>cv_counted := False\<rparr>"

definition view_retire :: "client_view \<Rightarrow> client_view \<times> nat" where
  "view_retire v =
     (let v' = v\<lparr>cv_intent := Unpublish, cv_revision := cv_revision v + 1\<rparr> in (v', cv_revision v'))"

definition heartbeat_due :: "client_view \<Rightarrow> nat \<Rightarrow> bool" where
  "heartbeat_due v now_ms \<longleftrightarrow> TERMINAL_VIEW_HEARTBEAT_MS \<le> now_ms - cv_published_at_ms v"

definition lease_expired :: "client_view \<Rightarrow> nat \<Rightarrow> bool" where
  "lease_expired v now_ms \<longleftrightarrow> TERMINAL_VIEW_LEASE_MS \<le> now_ms - cv_acknowledged_at_ms v"

definition mark_published :: "nat \<Rightarrow> nat \<Rightarrow> client_view \<Rightarrow> client_view" where
  "mark_published generation now_ms v =
     v\<lparr>cv_unacknowledged := Some generation, cv_published_at_ms := now_ms\<rparr>"

definition acknowledge :: "nat \<Rightarrow> nat \<Rightarrow> client_view \<Rightarrow> client_view \<times> bool" where
  "acknowledge generation now_ms v =
     (if cv_unacknowledged v \<noteq> Some generation then (v, False)
      else (v\<lparr>cv_unacknowledged := None, cv_acknowledged_at_ms := now_ms, cv_counted := True\<rparr>, True))"

section \<open>What a generation key identifies\<close>

lemma transport_as_str_inject [simp]: "transport_as_str a = transport_as_str b \<longleftrightarrow> a = b"
  by (cases a; cases b) simp_all

lemma bar_free: "CHR ''|'' \<notin> set (show_nat n)" "CHR ''|'' \<notin> set (transport_as_str t)"
  using show_nat_digits [of "CHR ''|''" n] by (auto simp: is_ascii_digit_def) (cases t; simp)

text \<open>
  A generation key names one generation: for process epochs without a bar and worker fingerprints that
  are not empty, two tokens with one key are one token, so the pacing of repair requests by key is
  pacing by generation.
\<close>

definition key_safe :: "terminal_token \<Rightarrow> bool" where
  "key_safe t \<longleftrightarrow> CHR ''|'' \<notin> set (tk_process_epoch t) \<and> tk_worker_fp t \<noteq> Some ''''"

theorem token_key_identifies:
  assumes "key_safe a" "key_safe b"
  shows "token_key a = token_key b \<longleftrightarrow> a = b"
proof -
  have fp: "(case x of None \<Rightarrow> '''' | Some f \<Rightarrow> f) = (case y of None \<Rightarrow> '''' | Some f \<Rightarrow> f) \<longleftrightarrow> x = y"
    if "x \<noteq> Some ''''" "y \<noteq> Some ''''" for x y :: "string option"
    using that by (cases x; cases y) auto
  have "token_key a = token_key b \<longleftrightarrow>
      tk_socket_generation a = tk_socket_generation b \<and> tk_process_epoch a = tk_process_epoch b
      \<and> tk_domain_generation a = tk_domain_generation b \<and> tk_transport a = tk_transport b
      \<and> tk_worker_fp a = tk_worker_fp b"
    using assms by (simp add: token_key_def key_safe_def split_at_first bar_free fp)
  then show ?thesis by (auto intro: terminal_token.equality)
qed

section \<open>Requests of one gap\<close>

definition latch_ok :: "repair_latch \<Rightarrow> bool" where
  "latch_ok l \<longleftrightarrow> (rl_latched l \<longleftrightarrow> rl_token l \<noteq> None) \<and> (rl_latched l \<longleftrightarrow> rl_reason l \<noteq> None)"

lemma latch_new_ok [simp]: "latch_ok latch_new"
  by (simp add: latch_ok_def latch_new_def)

lemma latch_keeps_ok: "latch_ok l \<Longrightarrow> latch_ok (fst (latch r t now l))"
  by (auto simp: latch_ok_def latch_def)

lemma record_sent_keeps_ok [simp]: "latch_ok (record_sent t now l) = latch_ok l"
  by (simp add: latch_ok_def record_sent_def)

lemma should_send_iff:
  "latch_ok l \<Longrightarrow> should_send l current now \<longleftrightarrow>
     (\<exists>t. current = Some t \<and> rl_token l = Some t
        \<and> (rl_sent_key l = Some (token_key t) \<longrightarrow> TERMINAL_VIEW_HEARTBEAT_MS \<le> now - rl_sent_at_ms l))"
  by (auto simp: should_send_def latch_ok_def split: option.splits)

end
