(* ===== verification/Client_Fold.thy ===== *)
theory Client_Fold
  imports Client_Token Cell_Transfer
begin

text \<open>
  Folding frames onto the client's replica (\<open>roost-client-core/src/terminal/frame_fold.rs\<close>), the
  counters of decoded frames (\<open>terminal/frame_counts.rs\<close>) and what a replica hands its renderers
  (\<open>terminal/renderer_deliveries.rs\<close>). The source shares the installed frame with the painter by
  reference count and copies it before it writes, so the frame is a value here. Encoded lengths are
  the parameter \<open>wire_sizes\<close>, as in the chunk planner.
\<close>

section \<open>Full before delta\<close>

record fold_target =
  ft_expected_stream_id :: "string option"
  ft_effective_cols :: nat
  ft_effective_rows :: nat
  ft_canonical :: "cell_grid_frame option"
  ft_baseline_ready :: bool
  ft_chunk_in_flight :: bool

definition target_new :: fold_target where
  "target_new = \<lparr>ft_expected_stream_id = None, ft_effective_cols = 0, ft_effective_rows = 0,
     ft_canonical = None, ft_baseline_ready = False, ft_chunk_in_flight = False\<rparr>"

datatype frame_fold_failure = FoldInvalidFull | FullConflict | DeltaUnfollowed | DeltaFoldRejected

fun fold_failure_as_str :: "frame_fold_failure \<Rightarrow> string" where
  "fold_failure_as_str FoldInvalidFull = ''invalid_full''"
| "fold_failure_as_str FullConflict = ''full_conflict''"
| "fold_failure_as_str DeltaUnfollowed = ''delta_unfollowed''"
| "fold_failure_as_str DeltaFoldRejected = ''delta_fold_rejected''"

datatype frame_fold_outcome =
    FoldedFull
  | FoldedDelta cell_grid_frame
  | FoldInvalid frame_fold_failure

definition decode_wire_frame :: "wire_sizes \<Rightarrow> pb_cell_grid_frame \<Rightarrow> bool \<Rightarrow> (refusal, cell_grid_frame) result" where
  "decode_wire_frame ws frame is_assembled =
     (if \<not> is_assembled \<and> CELL_GRID_PART_MAX_BYTES < frame_len ws frame
      then Err (Reason ''terminal frame exceeded the encoded part ceiling'')
      else map_err Diagnosis (proto_to_cell_frame frame))"

definition decode_assembled_frame :: "pb_cell_grid_frame \<Rightarrow> (refusal, cell_grid_frame) result" where
  "decode_assembled_frame frame = map_err Diagnosis (proto_into_cell_frame frame)"

definition decode_chunk_part :: "pb_cell_grid_chunk \<Rightarrow> pb_cell_grid_frame option" where
  "decode_chunk_part chunk = pbc_part chunk"

text \<open>The history loop of \<open>valid_full\<close>: the running index, or nothing once a row is out of place.\<close>

fun history_walk :: "nat \<Rightarrow> nat \<Rightarrow> cell_row list \<Rightarrow> nat option" where
  "history_walk limit history_index [] = Some history_index"
| "history_walk limit history_index (row # rows) =
     (if row_index row \<noteq> history_index \<or> limit \<le> row_index row then None
      else history_walk limit (history_index + 1) rows)"

definition valid_full :: "fold_target \<Rightarrow> cell_grid_frame \<Rightarrow> bool" where
  "valid_full target frame =
     (if \<not> fr_full frame \<or> fr_base_seq frame \<noteq> 0
         \<or> length (fr_viewport_rows frame) \<noteq> fr_rows frame \<or> fr_scrollback_append frame \<noteq> [] then False
      else
        (case ft_expected_stream_id target of
           None \<Rightarrow> False
         | Some expected \<Rightarrow>
             if fr_stream_id frame \<noteq> expected \<or> fr_cols frame \<noteq> ft_effective_cols target
                \<or> fr_rows frame \<noteq> ft_effective_rows target then False
             else if list_ex (\<lambda>(index, row). row_index row \<noteq> index) (List.enumerate 0 (fr_viewport_rows frame))
             then False
             else history_walk (fr_scrollback_total frame) (fr_sb_base frame) (fr_scrollback_rows frame)
                    = Some (fr_scrollback_total frame)))"

definition full_follows_canonical :: "cell_grid_frame option \<Rightarrow> cell_grid_frame \<Rightarrow> bool" where
  "full_follows_canonical canonical frame =
     (case canonical of
        None \<Rightarrow> True
      | Some c \<Rightarrow>
          fr_stream_id c \<noteq> fr_stream_id frame \<or> fr_seq c < fr_seq frame
          \<or> (fr_seq frame = fr_seq c \<and> fr_grid_epoch frame = fr_grid_epoch c
             \<and> fr_cols frame = fr_cols c \<and> fr_rows frame = fr_rows c
             \<and> fr_alt_screen frame = fr_alt_screen c))"

definition fold_full :: "fold_target \<Rightarrow> cell_grid_frame \<Rightarrow> fold_target \<times> frame_fold_outcome" where
  "fold_full target frame =
     (if \<not> valid_full target frame then (target, FoldInvalid FoldInvalidFull)
      else if \<not> full_follows_canonical (ft_canonical target) frame then (target, FoldInvalid FullConflict)
      else (target\<lparr>ft_canonical := Some (normalize_cell_grid_frame frame), ft_baseline_ready := True\<rparr>, FoldedFull))"

definition fold_refusals :: "fold_target \<Rightarrow> cell_grid_frame \<Rightarrow> cell_grid_frame \<Rightarrow> bool list" where
  "fold_refusals target base delta =
     (let expected = ft_expected_stream_id target
      in [\<not> ft_baseline_ready target,
          ft_chunk_in_flight target,
          Some (fr_stream_id delta) \<noteq> expected,
          Some (fr_stream_id base) \<noteq> expected,
          fr_grid_epoch delta \<noteq> fr_grid_epoch base,
          fr_cols delta \<noteq> ft_effective_cols target \<or> fr_rows delta \<noteq> ft_effective_rows target,
          fr_base_seq delta \<noteq> fr_seq base,
          checked_add64 (fr_base_seq delta) 1 \<noteq> Some (fr_seq delta)])"

definition fold_delta :: "fold_target \<Rightarrow> cell_grid_frame \<Rightarrow> fold_target \<times> frame_fold_outcome" where
  "fold_delta target delta =
     (case ft_canonical target of
        None \<Rightarrow> (target, FoldInvalid DeltaUnfollowed)
      | Some base \<Rightarrow>
          if list_ex (\<lambda>refused. refused) (fold_refusals target base delta)
          then (target\<lparr>ft_canonical := Some base\<rparr>, FoldInvalid DeltaUnfollowed)
          else
            (case apply_delta base delta of
               (grid, None) \<Rightarrow> (target\<lparr>ft_canonical := Some grid\<rparr>, FoldInvalid DeltaFoldRejected)
             | (grid, Some _) \<Rightarrow>
                 (target\<lparr>ft_canonical := Some (normalize_cell_grid_frame grid)\<rparr>, FoldedDelta delta)))"

definition fold_frame :: "fold_target \<Rightarrow> cell_grid_frame \<Rightarrow> fold_target \<times> frame_fold_outcome" where
  "fold_frame target frame = (if fr_full frame then fold_full target frame else fold_delta target frame)"

section \<open>Counters of decoded frames\<close>

record frame_counts =
  fc_frames :: nat
  fc_full_frames :: nat
  fc_last_full_scrollback_rows :: "nat option"
  fc_grid_epoch :: string

definition counts_new :: frame_counts where
  "counts_new = \<lparr>fc_frames = 0, fc_full_frames = 0, fc_last_full_scrollback_rows = None, fc_grid_epoch = ''''\<rparr>"

definition note_decoded :: "cell_grid_frame \<Rightarrow> frame_counts \<Rightarrow> frame_counts" where
  "note_decoded frame c =
     (let c' = c\<lparr>fc_frames := fc_frames c + 1, fc_grid_epoch := fr_grid_epoch frame\<rparr>
      in if fr_full frame
         then c'\<lparr>fc_full_frames := fc_full_frames c' + 1,
                 fc_last_full_scrollback_rows := Some (length (fr_scrollback_rows frame))\<rparr>
         else c')"

definition last_full_scrollback_rows :: "frame_counts \<Rightarrow> int" where
  "last_full_scrollback_rows c =
     (case fc_last_full_scrollback_rows c of None \<Rightarrow> - 1 | Some rows \<Rightarrow> min (int rows) i64_max)"

section \<open>What renderers are handed\<close>

definition MAX_PENDING_DELTA_FRAMES :: nat where "MAX_PENDING_DELTA_FRAMES = 64"
definition MAX_PENDING_SCROLLBACK_ROWS :: nat where "MAX_PENDING_SCROLLBACK_ROWS = 250"
definition MAX_PENDING_DELTA_SPANS :: nat where "MAX_PENDING_DELTA_SPANS = 65536"

record renderer_deliveries =
  rd_revision :: nat
  rd_base_revision :: nat
  rd_deltas :: "cell_grid_frame list"
  rd_appended_rows :: nat
  rd_spans :: nat

definition deliveries_new :: renderer_deliveries where
  "deliveries_new = \<lparr>rd_revision = 0, rd_base_revision = 0, rd_deltas = [], rd_appended_rows = 0, rd_spans = 0\<rparr>"

definition deliveries_clear :: "renderer_deliveries \<Rightarrow> renderer_deliveries" where
  "deliveries_clear d = d\<lparr>rd_base_revision := rd_revision d, rd_deltas := [], rd_appended_rows := 0, rd_spans := 0\<rparr>"

definition note_full :: "renderer_deliveries \<Rightarrow> renderer_deliveries" where
  "note_full d = deliveries_clear (d\<lparr>rd_revision := rd_revision d + 1\<rparr>)"

definition begin_promotion_after :: "nat \<Rightarrow> renderer_deliveries \<Rightarrow> renderer_deliveries" where
  "begin_promotion_after previous_revision d =
     deliveries_clear (d\<lparr>rd_revision := max (rd_revision d) previous_revision + 1\<rparr>)"

definition delta_spans :: "cell_grid_frame \<Rightarrow> nat" where
  "delta_spans delta =
     sum_list (map (\<lambda>row. length (row_spans row)) (fr_viewport_rows delta @ fr_scrollback_append delta))"

text \<open>The eviction loop, over the deltas not yet evicted.\<close>

fun evict_oldest_delta :: "cell_grid_frame list \<Rightarrow> nat \<Rightarrow> nat \<Rightarrow> nat \<Rightarrow> nat \<times> nat \<times> nat" where
  "evict_oldest_delta deltas evicted appended_rows spans =
     (if MAX_PENDING_DELTA_FRAMES < length deltas \<or> MAX_PENDING_SCROLLBACK_ROWS < appended_rows
         \<or> MAX_PENDING_DELTA_SPANS < spans
      then
        (case deltas of
           [] \<Rightarrow> (evicted, appended_rows, spans)
         | oldest # rest \<Rightarrow>
             evict_oldest_delta rest (evicted + 1) (appended_rows - length (fr_scrollback_append oldest))
               (spans - delta_spans oldest))
      else (evicted, appended_rows, spans))"

declare evict_oldest_delta.simps [simp del]

definition note_delta :: "cell_grid_frame \<Rightarrow> renderer_deliveries \<Rightarrow> renderer_deliveries" where
  "note_delta delta d =
     (let d = d\<lparr>rd_revision := rd_revision d + 1\<rparr>;
          rows = length (fr_scrollback_append delta); spans = delta_spans delta
      in if MAX_PENDING_SCROLLBACK_ROWS < rows \<or> MAX_PENDING_DELTA_SPANS < spans then deliveries_clear d
         else
           let deltas = rd_deltas d @ [delta];
               (evicted, appended_rows, kept_spans) =
                 evict_oldest_delta deltas 0 (rd_appended_rows d + rows) (rd_spans d + spans)
           in d\<lparr>rd_deltas := drop evicted deltas, rd_base_revision := rd_base_revision d + evicted,
                rd_appended_rows := appended_rows, rd_spans := kept_spans\<rparr>)"

definition deltas_since :: "renderer_deliveries \<Rightarrow> nat \<Rightarrow> cell_grid_frame list option" where
  "deltas_since d painted_revision =
     (if painted_revision < rd_base_revision d then None
      else
        let offset = painted_revision - rd_base_revision d
        in if offset \<le> length (rd_deltas d) then Some (drop offset (rd_deltas d)) else None)"

section \<open>What one fold does\<close>

lemma history_walk_iff:
  "history_walk n i rows = Some j \<longleftrightarrow>
     map row_index rows = [i..<i + length rows] \<and> j = i + length rows \<and> (rows \<noteq> [] \<longrightarrow> i + length rows \<le> n)"
proof (induction rows arbitrary: i)
  case (Cons row rows)
  have "[i..<i + length (row # rows)] = i # [i + 1..<i + 1 + length rows]"
    by (simp add: upt_conv_Cons del: upt_Suc)
  then show ?case
    using Cons.IH [of "i + 1"] by (cases "rows = []") (auto simp del: upt_Suc)
qed auto

definition delta_follows :: "fold_target \<Rightarrow> cell_grid_frame \<Rightarrow> cell_grid_frame \<Rightarrow> bool" where
  "delta_follows target base delta \<longleftrightarrow>
     ft_baseline_ready target \<and> \<not> ft_chunk_in_flight target
     \<and> ft_expected_stream_id target = Some (fr_stream_id delta)
     \<and> fr_cols delta = ft_effective_cols target \<and> fr_rows delta = ft_effective_rows target
     \<and> delta_fits base delta"

lemma fold_delta_cases:
  assumes "\<not> fr_full delta"
  shows "fold_delta target delta =
    (case ft_canonical target of
       None \<Rightarrow> (target, FoldInvalid DeltaUnfollowed)
     | Some base \<Rightarrow>
         if delta_follows target base delta
         then (target\<lparr>ft_canonical := Some (normalize_cell_grid_frame (successor base delta))\<rparr>, FoldedDelta delta)
         else (target, FoldInvalid (if list_ex (\<lambda>x. x) (fold_refusals target base delta)
                                    then DeltaUnfollowed else DeltaFoldRejected)))"
proof (cases "ft_canonical target")
  case (Some base)
  then have [simp]: "target\<lparr>ft_canonical := Some base\<rparr> = target" by simp
  show ?thesis
  proof (cases "list_ex (\<lambda>x. x) (fold_refusals target base delta)")
    case True
    then have "\<not> delta_follows target base delta"
      by (auto simp: fold_refusals_def delta_follows_def delta_fits_def Let_def checked_add64_def)
    with True Some show ?thesis by (simp add: fold_delta_def)
  next
    case False
    then have "delta_follows target base delta \<longleftrightarrow> delta_fits base delta"
      by (auto simp: fold_refusals_def delta_follows_def Let_def)
    with False Some assms show ?thesis
      by (simp add: fold_delta_def apply_delta_exact)
  qed
qed (simp add: fold_delta_def)

lemma fold_refused_unchanged: "fold_frame target frame = (target', FoldInvalid r) \<Longrightarrow> target' = target"
  by (auto simp: fold_frame_def fold_full_def fold_delta_cases split: if_splits option.splits)

lemma fold_delta_accepted:
  "fold_frame target frame = (target', FoldedDelta delta) \<longleftrightarrow>
     \<not> fr_full frame \<and> delta = frame
     \<and> (\<exists>base. ft_canonical target = Some base \<and> delta_follows target base frame
          \<and> target' = target\<lparr>ft_canonical := Some (normalize_cell_grid_frame (successor base frame))\<rparr>)"
  by (auto simp: fold_frame_def fold_full_def fold_delta_cases split: if_splits option.splits)

lemma fold_full_accepted:
  "fold_frame target frame = (target', FoldedFull) \<longleftrightarrow>
     valid_full target frame \<and> full_follows_canonical (ft_canonical target) frame
     \<and> target' = target\<lparr>ft_canonical := Some (normalize_cell_grid_frame frame), ft_baseline_ready := True\<rparr>"
proof -
  have "valid_full target frame \<Longrightarrow> fr_full frame" by (simp add: valid_full_def split: if_splits)
  then show ?thesis
    by (auto simp: fold_frame_def fold_full_def fold_delta_cases split: if_splits option.splits)
qed

section \<open>The installed frame\<close>

definition checkpointed :: "cell_grid_frame \<Rightarrow> bool" where
  "checkpointed f \<longleftrightarrow> numbered f \<and> fr_full f \<and> fr_base_seq f = 0 \<and> fr_scrollback_rows f = []
     \<and> fr_scrollback_append f = [] \<and> fr_sb_base f = fr_scrollback_total f \<and> fr_image_placements f \<noteq> None"

definition fits_expectation :: "fold_target \<Rightarrow> cell_grid_frame \<Rightarrow> bool" where
  "fits_expectation t f \<longleftrightarrow> ft_expected_stream_id t = Some (fr_stream_id f)
     \<and> fr_cols f = ft_effective_cols t \<and> fr_rows f = ft_effective_rows t"

definition target_ok :: "fold_target \<Rightarrow> bool" where
  "target_ok t \<longleftrightarrow> (\<forall>f. ft_canonical t = Some f \<longrightarrow> checkpointed f)
     \<and> (ft_baseline_ready t \<longrightarrow> (\<exists>f. ft_canonical t = Some f \<and> fits_expectation t f))"

lemma normalize_checkpointed: "checkpointed (normalize_cell_grid_frame f) \<longleftrightarrow> numbered f"
  by (simp add: checkpointed_def normalize_cell_grid_frame_def numbered_def)

lemma normalize_checkpoint: "checkpointed f \<Longrightarrow> normalize_cell_grid_frame f = f"
  by (cases f) (auto simp: checkpointed_def normalize_cell_grid_frame_def)

lemma normalize_keeps [simp]:
  "fr_stream_id (normalize_cell_grid_frame f) = fr_stream_id f"
  "fr_seq (normalize_cell_grid_frame f) = fr_seq f"
  "fr_cols (normalize_cell_grid_frame f) = fr_cols f"
  "fr_rows (normalize_cell_grid_frame f) = fr_rows f"
  "fr_grid_epoch (normalize_cell_grid_frame f) = fr_grid_epoch f"
  "fr_viewport_rows (normalize_cell_grid_frame f) = fr_viewport_rows f"
  by (simp_all add: normalize_cell_grid_frame_def)

lemma enumerate_index: "list_ex (\<lambda>(i, row). row_index row \<noteq> i) (List.enumerate 0 rows) \<longleftrightarrow>
    \<not> (\<forall>i < length rows. row_index (rows ! i) = i)"
  by (auto simp: list_ex_length nth_enumerate_eq)

lemma valid_full_iff:
  "valid_full t f \<longleftrightarrow> fr_full f \<and> fr_base_seq f = 0 \<and> fr_scrollback_append f = [] \<and> numbered f
     \<and> fits_expectation t f
     \<and> map row_index (fr_scrollback_rows f) = [fr_sb_base f..<fr_scrollback_total f]
     \<and> fr_sb_base f \<le> fr_scrollback_total f"
proof -
  have "history_walk (fr_scrollback_total f) (fr_sb_base f) (fr_scrollback_rows f) = Some (fr_scrollback_total f) \<longleftrightarrow>
      map row_index (fr_scrollback_rows f) = [fr_sb_base f..<fr_scrollback_total f] \<and> fr_sb_base f \<le> fr_scrollback_total f"
    (is "?w \<longleftrightarrow> ?m")
  proof
    assume ?w
    then show ?m by (auto simp: history_walk_iff)
  next
    assume m: ?m
    then have "length (fr_scrollback_rows f) = fr_scrollback_total f - fr_sb_base f"
      by (metis length_map length_upt)
    with m show ?w by (auto simp: history_walk_iff)
  qed
  then show ?thesis
    by (auto simp: valid_full_def numbered_def fits_expectation_def enumerate_index split: option.splits)
qed

lemma successor_keeps [simp]:
  "fr_stream_id (successor b d) = fr_stream_id d" "fr_cols (successor b d) = fr_cols d"
  "fr_rows (successor b d) = fr_rows d" "fr_seq (successor b d) = fr_seq d"
  "fr_grid_epoch (successor b d) = fr_grid_epoch d"
  by (simp_all add: successor_def)

lemma fold_keeps_ok: "target_ok t \<Longrightarrow> target_ok (fst (fold_frame t f))"
proof (cases "snd (fold_frame t f)")
  case FoldedFull
  then obtain t' where e: "fold_frame t f = (t', FoldedFull)" by (cases "fold_frame t f") auto
  then have "valid_full t f" "t' = t\<lparr>ft_canonical := Some (normalize_cell_grid_frame f), ft_baseline_ready := True\<rparr>"
    by (auto simp: fold_full_accepted)
  then show ?thesis
    by (simp add: e target_ok_def fits_expectation_def normalize_checkpointed valid_full_iff)
next
  case (FoldedDelta d)
  assume ok: "target_ok t"
  obtain t' where e: "fold_frame t f = (t', FoldedDelta d)" using FoldedDelta by (cases "fold_frame t f") auto
  then obtain b where b: "ft_canonical t = Some b" "delta_follows t b f"
    and t': "t' = t\<lparr>ft_canonical := Some (normalize_cell_grid_frame (successor b f))\<rparr>"
    by (auto simp: fold_delta_accepted)
  have "numbered (successor b f)" using ok b by (auto intro!: successor_numbered simp: target_ok_def checkpointed_def delta_follows_def)
  with b show ?thesis by (simp add: e t' target_ok_def fits_expectation_def normalize_checkpointed delta_follows_def)
next
  case (FoldInvalid r)
  assume ok: "target_ok t"
  have "fst (fold_frame t f) = t" using FoldInvalid fold_refused_unchanged by (cases "fold_frame t f") auto
  with ok show ?thesis by simp
qed

lemma fold_advances:
  assumes "ft_canonical t = Some c" "ft_canonical (fst (fold_frame t f)) = Some c'" "fr_stream_id c' = fr_stream_id c"
  shows "fr_seq c \<le> fr_seq c'"
proof (cases "snd (fold_frame t f)")
  case FoldedFull
  then obtain t' where e: "fold_frame t f = (t', FoldedFull)" by (cases "fold_frame t f") auto
  with assms show ?thesis by (auto simp: fold_full_accepted full_follows_canonical_def)
next
  case (FoldedDelta d)
  then obtain t' where e: "fold_frame t f = (t', FoldedDelta d)" by (cases "fold_frame t f") auto
  with assms show ?thesis by (auto simp: fold_delta_accepted delta_follows_def delta_fits_def)
next
  case (FoldInvalid r)
  then have "fst (fold_frame t f) = t" using fold_refused_unchanged by (cases "fold_frame t f") auto
  with assms show ?thesis by simp
qed

section \<open>A renderer that folds what it is handed\<close>

definition appended_in :: "cell_grid_frame list \<Rightarrow> nat" where
  "appended_in ds = sum_list (map (\<lambda>d. length (fr_scrollback_append d)) ds)"

definition spans_in :: "cell_grid_frame list \<Rightarrow> nat" where
  "spans_in ds = sum_list (map delta_spans ds)"

lemmas pending_limits = MAX_PENDING_DELTA_FRAMES_def MAX_PENDING_SCROLLBACK_ROWS_def MAX_PENDING_DELTA_SPANS_def

definition batch_fits :: "cell_grid_frame list \<Rightarrow> bool" where
  "batch_fits ds \<longleftrightarrow> length ds \<le> MAX_PENDING_DELTA_FRAMES \<and> appended_in ds \<le> MAX_PENDING_SCROLLBACK_ROWS
     \<and> spans_in ds \<le> MAX_PENDING_DELTA_SPANS"

definition deliveries_ok :: "renderer_deliveries \<Rightarrow> bool" where
  "deliveries_ok d \<longleftrightarrow> rd_revision d = rd_base_revision d + length (rd_deltas d) \<and> batch_fits (rd_deltas d)
     \<and> rd_appended_rows d = appended_in (rd_deltas d) \<and> rd_spans d = spans_in (rd_deltas d)"

lemma batch_fits_Nil [simp]: "batch_fits []"
  by (simp add: batch_fits_def appended_in_def spans_in_def)

lemma evict_oldest_exact:
  "\<exists>k \<le> length ds. evict_oldest_delta ds e (appended_in ds) (spans_in ds)
       = (e + k, appended_in (drop k ds), spans_in (drop k ds)) \<and> batch_fits (drop k ds)"
proof (induction ds arbitrary: e)
  case Nil
  then show ?case by (simp add: evict_oldest_delta.simps appended_in_def spans_in_def)
next
  case (Cons d ds)
  show ?case
  proof (cases "batch_fits (d # ds)")
    case True
    then have "evict_oldest_delta (d # ds) e (appended_in (d # ds)) (spans_in (d # ds))
        = (e, appended_in (d # ds), spans_in (d # ds))"
      by (subst evict_oldest_delta.simps) (simp add: batch_fits_def)
    with True show ?thesis by (intro exI [of _ 0]) simp
  next
    case False
    then have "evict_oldest_delta (d # ds) e (appended_in (d # ds)) (spans_in (d # ds))
        = evict_oldest_delta ds (e + 1) (appended_in ds) (spans_in ds)"
      by (subst evict_oldest_delta.simps) (auto simp: batch_fits_def appended_in_def spans_in_def)
    moreover obtain k where "k \<le> length ds" "evict_oldest_delta ds (e + 1) (appended_in ds) (spans_in ds)
        = (e + 1 + k, appended_in (drop k ds), spans_in (drop k ds))" "batch_fits (drop k ds)"
      using Cons.IH by blast
    ultimately show ?thesis by (intro exI [of _ "Suc k"]) simp
  qed
qed

lemma note_delta_cases:
  assumes "deliveries_ok d"
  obtains k where "k \<le> length (rd_deltas d) + 1" "batch_fits (drop k (rd_deltas d @ [delta]))"
    "note_delta delta d = \<lparr>rd_revision = rd_revision d + 1, rd_base_revision = rd_base_revision d + k,
       rd_deltas = drop k (rd_deltas d @ [delta]),
       rd_appended_rows = appended_in (drop k (rd_deltas d @ [delta])),
       rd_spans = spans_in (drop k (rd_deltas d @ [delta]))\<rparr>"
proof (cases "MAX_PENDING_SCROLLBACK_ROWS < length (fr_scrollback_append delta) \<or> MAX_PENDING_DELTA_SPANS < delta_spans delta")
  case True
  with assms show ?thesis
    by (intro that [of "length (rd_deltas d) + 1"])
      (auto simp: note_delta_def deliveries_clear_def deliveries_ok_def appended_in_def spans_in_def)
next
  case False
  obtain k where "k \<le> length (rd_deltas d @ [delta])" "batch_fits (drop k (rd_deltas d @ [delta]))"
    "evict_oldest_delta (rd_deltas d @ [delta]) 0 (appended_in (rd_deltas d @ [delta])) (spans_in (rd_deltas d @ [delta]))
       = (k, appended_in (drop k (rd_deltas d @ [delta])), spans_in (drop k (rd_deltas d @ [delta])))"
    using evict_oldest_exact [of "rd_deltas d @ [delta]" 0] by auto
  moreover have "rd_appended_rows d + length (fr_scrollback_append delta) = appended_in (rd_deltas d @ [delta])"
    "rd_spans d + delta_spans delta = spans_in (rd_deltas d @ [delta])"
    using assms by (simp_all add: deliveries_ok_def appended_in_def spans_in_def)
  ultimately show ?thesis using False
    by (intro that [of k]) (auto simp: note_delta_def Let_def simp del: drop_append)
qed

lemma note_delta_keeps_ok:
  assumes "deliveries_ok d"
  shows "deliveries_ok (note_delta delta d)"
proof -
  obtain k where "k \<le> length (rd_deltas d) + 1" "batch_fits (drop k (rd_deltas d @ [delta]))"
    "note_delta delta d = \<lparr>rd_revision = rd_revision d + 1, rd_base_revision = rd_base_revision d + k,
       rd_deltas = drop k (rd_deltas d @ [delta]),
       rd_appended_rows = appended_in (drop k (rd_deltas d @ [delta])),
       rd_spans = spans_in (drop k (rd_deltas d @ [delta]))\<rparr>"
    using assms by (rule note_delta_cases)
  with assms show ?thesis by (simp add: deliveries_ok_def del: drop_append)
qed

lemma note_full_keeps_ok: "deliveries_ok (note_full d)" "deliveries_ok (begin_promotion_after r d)"
  by (simp_all add: note_full_def begin_promotion_after_def deliveries_clear_def deliveries_ok_def
      appended_in_def spans_in_def)

definition paint_delta :: "cell_grid_frame \<Rightarrow> cell_grid_frame \<Rightarrow> cell_grid_frame" where
  "paint_delta painted delta = normalize_cell_grid_frame (fst (apply_delta painted delta))"

text \<open>
  What a painter that last drew the given frame at the given revision may rely on: the log either no
  longer reaches back to it, or holds exactly the deltas that lead from its frame to the installed one.
\<close>

definition catches_up :: "nat \<Rightarrow> cell_grid_frame \<Rightarrow> renderer_deliveries \<Rightarrow> cell_grid_frame option \<Rightarrow> bool" where
  "catches_up painted_revision painted d canonical \<longleftrightarrow>
     painted_revision \<le> rd_revision d
     \<and> (case deltas_since d painted_revision of
          None \<Rightarrow> True | Some ds \<Rightarrow> canonical = Some (foldl paint_delta painted ds))"

lemma catches_up_now: "deliveries_ok d \<Longrightarrow> catches_up (rd_revision d) f d (Some f)"
  by (simp add: catches_up_def deltas_since_def deliveries_ok_def)

lemma catches_up_delta:
  assumes "deliveries_ok d" "catches_up r f d (Some c)"
  shows "catches_up r f (note_delta delta d) (Some (paint_delta c delta))"
proof -
  obtain k where k: "k \<le> length (rd_deltas d) + 1"
    and d': "note_delta delta d = \<lparr>rd_revision = rd_revision d + 1, rd_base_revision = rd_base_revision d + k,
       rd_deltas = drop k (rd_deltas d @ [delta]),
       rd_appended_rows = appended_in (drop k (rd_deltas d @ [delta])),
       rd_spans = spans_in (drop k (rd_deltas d @ [delta]))\<rparr>"
    using assms(1) by (rule note_delta_cases)
  show ?thesis
  proof (cases "rd_base_revision d + k \<le> r")
    case True
    let ?n = "r - rd_base_revision d"
    have n: "?n \<le> length (rd_deltas d)" using assms unfolding deliveries_ok_def catches_up_def by linarith
    have "r - (rd_base_revision d + k) + k = ?n" using True by simp
    with True k n have "deltas_since (note_delta delta d) r = Some (drop ?n (rd_deltas d @ [delta]))"
      by (simp add: d' deltas_since_def Let_def del: drop_append)
    moreover have "deltas_since d r = Some (drop ?n (rd_deltas d))" using True n by (simp add: deltas_since_def)
    ultimately show ?thesis using assms n by (simp add: catches_up_def d')
  next
    case False
    then show ?thesis using assms by (simp add: catches_up_def deltas_since_def d')
  qed
qed

lemma catches_up_cut:
  "catches_up r f d c \<Longrightarrow> catches_up r f (note_full d) c'"
  "catches_up r f d c \<Longrightarrow> catches_up r f (begin_promotion_after p d) c'"
  by (auto simp: catches_up_def note_full_def begin_promotion_after_def deliveries_clear_def deltas_since_def)

end
