(* ===== verification/Client_Liveness.thy ===== *)
theory Client_Liveness
  imports Client_Token
begin

text \<open>
  The foreground liveness watchdog of one replica (\<open>roost-client-core/src/terminal/liveness.rs\<close>) and
  the backoff of its quiet probe (\<open>terminal/idle_probe.rs\<close>): two deadlines, the challenge an overdue
  probe sends, and the record of what answered it. Deadlines are instants; the sweep that fires them
  is in the watchdog theory.
\<close>

section \<open>The quiet probe's backoff\<close>

definition MAX_DOUBLINGS :: nat where "MAX_DOUBLINGS = 8"

record idle_probe =
  ip_proved_idle_streak :: nat
  ip_anchor_ms :: "nat option"

definition idle_probe_new :: idle_probe where
  "idle_probe_new = \<lparr>ip_proved_idle_streak = 0, ip_anchor_ms = None\<rparr>"

definition backed_off_interval_ms :: "idle_probe \<Rightarrow> nat" where
  "backed_off_interval_ms p =
     min (min (TERMINAL_FOREGROUND_IDLE_PROBE_MS * push_bit (min (ip_proved_idle_streak p) MAX_DOUBLINGS) 1) u64_max)
       TERMINAL_FOREGROUND_IDLE_PROBE_MAX_MS"

definition probe_anchor :: "nat \<Rightarrow> nat \<Rightarrow> idle_probe \<Rightarrow> idle_probe \<times> nat" where
  "probe_anchor anchor_ms interval_ms p =
     (p\<lparr>ip_anchor_ms := Some anchor_ms\<rparr>, saturating_add64 anchor_ms interval_ms)"

definition take_anchor :: "idle_probe \<Rightarrow> idle_probe \<times> nat option" where
  "take_anchor p = (p\<lparr>ip_anchor_ms := None\<rparr>, ip_anchor_ms p)"

definition probe_note_proved :: "idle_probe \<Rightarrow> idle_probe" where
  "probe_note_proved p = p\<lparr>ip_proved_idle_streak := saturating_add32 (ip_proved_idle_streak p) 1\<rparr>"

definition probe_note_output :: "idle_probe \<Rightarrow> idle_probe" where
  "probe_note_output p = p\<lparr>ip_proved_idle_streak := 0\<rparr>"

definition probe_reset :: "idle_probe \<Rightarrow> idle_probe" where
  "probe_reset p = idle_probe_new"

section \<open>The watchdog's state\<close>

datatype repair_outcome =
  NoRepair | Requested | Proved | Escalated | Inactive | GenerationReset | StreamReplaced | Disposed

fun repair_outcome_as_str :: "repair_outcome \<Rightarrow> string" where
  "repair_outcome_as_str NoRepair = ''none''"
| "repair_outcome_as_str Requested = ''requested''"
| "repair_outcome_as_str Proved = ''proved''"
| "repair_outcome_as_str Escalated = ''escalated''"
| "repair_outcome_as_str Inactive = ''inactive''"
| "repair_outcome_as_str GenerationReset = ''generation_reset''"
| "repair_outcome_as_str StreamReplaced = ''stream_replaced''"
| "repair_outcome_as_str Disposed = ''disposed''"

datatype stall_action = Resync | Redial | Rearm

fun stall_action_as_str :: "stall_action \<Rightarrow> string" where
  "stall_action_as_str Resync = ''resync''"
| "stall_action_as_str Redial = ''redial''"
| "stall_action_as_str Rearm = ''rearm''"

record foreground_liveness =
  lv_quiet_due_ms :: "nat option"
  lv_owner :: "terminal_token option"
  lv_proof_due_ms :: "nat option"
  lv_challenged_at_ms :: "nat option"
  lv_challenge_generation :: "terminal_token option"
  lv_challenge_stream_id :: "string option"
  lv_challenge_seq :: "nat option"
  lv_repair_attempts :: nat
  lv_outcome :: repair_outcome
  lv_rearm_reported :: bool
  lv_last_accepted_at_ms :: "nat option"
  lv_idle_probe :: idle_probe

definition liveness_new :: foreground_liveness where
  "liveness_new = \<lparr>lv_quiet_due_ms = None, lv_owner = None, lv_proof_due_ms = None, lv_challenged_at_ms = None,
     lv_challenge_generation = None, lv_challenge_stream_id = None, lv_challenge_seq = None,
     lv_repair_attempts = 0, lv_outcome = NoRepair, lv_rearm_reported = False,
     lv_last_accepted_at_ms = None, lv_idle_probe = idle_probe_new\<rparr>"

definition quiet_expiry_due :: "foreground_liveness \<Rightarrow> nat \<Rightarrow> bool" where
  "quiet_expiry_due l now_ms = (case lv_quiet_due_ms l of None \<Rightarrow> False | Some due \<Rightarrow> due \<le> now_ms)"

definition proof_expiry_due :: "foreground_liveness \<Rightarrow> nat \<Rightarrow> bool" where
  "proof_expiry_due l now_ms = (case lv_proof_due_ms l of None \<Rightarrow> False | Some due \<Rightarrow> due \<le> now_ms)"

section \<open>Probes\<close>

definition arm_quiet :: "terminal_token \<Rightarrow> nat \<Rightarrow> foreground_liveness \<Rightarrow> foreground_liveness" where
  "arm_quiet owner anchor_ms l =
     (let l = l\<lparr>lv_owner := Some owner, lv_last_accepted_at_ms := Some anchor_ms\<rparr>;
          interval = backed_off_interval_ms (lv_idle_probe l);
          (probe, due) = probe_anchor anchor_ms interval (lv_idle_probe l)
      in l\<lparr>lv_idle_probe := probe, lv_quiet_due_ms := Some due\<rparr>)"

definition rearm_quiet :: "terminal_token \<Rightarrow> nat \<Rightarrow> foreground_liveness \<Rightarrow> foreground_liveness" where
  "rearm_quiet owner now_ms l =
     (let (probe, due) = probe_anchor now_ms TERMINAL_FOREGROUND_IDLE_PROBE_MS (lv_idle_probe l)
      in l\<lparr>lv_owner := Some owner, lv_idle_probe := probe, lv_quiet_due_ms := Some due\<rparr>)"

definition arm_quiet_if_unarmed :: "terminal_token \<Rightarrow> nat \<Rightarrow> foreground_liveness \<Rightarrow> foreground_liveness" where
  "arm_quiet_if_unarmed owner now_ms l =
     (if lv_quiet_due_ms l \<noteq> None then l else rearm_quiet owner now_ms l)"

definition take_quiet :: "foreground_liveness \<Rightarrow> foreground_liveness \<times> nat option" where
  "take_quiet l =
     (let (probe, anchor) = take_anchor (lv_idle_probe l)
      in (l\<lparr>lv_quiet_due_ms := None, lv_idle_probe := probe\<rparr>, anchor))"

section \<open>Challenges\<close>

definition has_pending_challenge :: "foreground_liveness \<Rightarrow> terminal_token \<Rightarrow> bool" where
  "has_pending_challenge l owner \<longleftrightarrow> lv_challenged_at_ms l \<noteq> None \<and> lv_challenge_generation l = Some owner"

definition end_episode :: "foreground_liveness \<Rightarrow> foreground_liveness" where
  "end_episode l = l\<lparr>lv_rearm_reported := False\<rparr>"

definition arm_proof :: "nat \<Rightarrow> foreground_liveness \<Rightarrow> foreground_liveness" where
  "arm_proof challenged_at_ms l =
     l\<lparr>lv_proof_due_ms := Some (saturating_add64 challenged_at_ms TERMINAL_FOREGROUND_PROBE_DEADLINE_MS)\<rparr>"

definition clear_challenge :: "foreground_liveness \<Rightarrow> foreground_liveness" where
  "clear_challenge l = l\<lparr>lv_proof_due_ms := None, lv_challenged_at_ms := None, lv_challenge_generation := None,
     lv_challenge_stream_id := None, lv_challenge_seq := None\<rparr>"

definition begin_challenge :: "terminal_token \<Rightarrow> string \<Rightarrow> nat \<Rightarrow> nat \<Rightarrow> foreground_liveness \<Rightarrow> foreground_liveness" where
  "begin_challenge owner stream_id seq now_ms l =
     arm_proof now_ms (end_episode (l\<lparr>lv_challenged_at_ms := Some now_ms, lv_challenge_generation := Some owner,
       lv_challenge_stream_id := Some stream_id, lv_challenge_seq := Some seq,
       lv_repair_attempts := saturating_add32 (lv_repair_attempts l) 1, lv_outcome := Requested\<rparr>))"

definition rearm_proof :: "nat \<Rightarrow> foreground_liveness \<Rightarrow> foreground_liveness" where
  "rearm_proof now_ms l =
     (if lv_challenged_at_ms l = None then l
      else arm_proof now_ms (l\<lparr>lv_challenged_at_ms := Some now_ms,
             lv_repair_attempts := saturating_add32 (lv_repair_attempts l) 1, lv_outcome := Requested\<rparr>))"

definition proves :: "foreground_liveness \<Rightarrow> terminal_token \<Rightarrow> string \<Rightarrow> nat \<Rightarrow> bool" where
  "proves l owner stream_id seq \<longleftrightarrow>
     has_pending_challenge l owner \<and> lv_challenge_stream_id l = Some stream_id
     \<and> (case lv_challenge_seq l of None \<Rightarrow> 0 | Some s \<Rightarrow> s) < seq"

definition note_proved :: "foreground_liveness \<Rightarrow> foreground_liveness" where
  "note_proved l =
     (let l = clear_challenge l
      in l\<lparr>lv_idle_probe := probe_note_proved (lv_idle_probe l), lv_outcome := Proved\<rparr>)"

definition note_output :: "foreground_liveness \<Rightarrow> foreground_liveness" where
  "note_output l = l\<lparr>lv_idle_probe := probe_note_output (lv_idle_probe l)\<rparr>"

definition chunk_arrives :: "foreground_liveness \<Rightarrow> terminal_token \<Rightarrow> string \<Rightarrow> nat \<Rightarrow> bool" where
  "chunk_arrives l owner stream_id seq \<longleftrightarrow>
     has_pending_challenge l owner \<and> lv_challenge_stream_id l = Some stream_id
     \<and> (case lv_challenge_seq l of None \<Rightarrow> 0 | Some s \<Rightarrow> s) \<le> seq"

definition clear_proof :: "foreground_liveness \<Rightarrow> foreground_liveness" where
  "clear_proof l = l\<lparr>lv_proof_due_ms := None\<rparr>"

definition mark_escalated :: "foreground_liveness \<Rightarrow> foreground_liveness" where
  "mark_escalated l = (clear_challenge l)\<lparr>lv_outcome := Escalated\<rparr>"

definition claim_rearm_episode :: "foreground_liveness \<Rightarrow> foreground_liveness \<times> bool" where
  "claim_rearm_episode l = (if lv_rearm_reported l then (l, False) else (l\<lparr>lv_rearm_reported := True\<rparr>, True))"

definition retire :: "repair_outcome \<Rightarrow> foreground_liveness \<Rightarrow> foreground_liveness" where
  "retire outcome l =
     end_episode ((clear_challenge (l\<lparr>lv_quiet_due_ms := None, lv_owner := None, lv_last_accepted_at_ms := None,
       lv_idle_probe := probe_reset (lv_idle_probe l)\<rparr>))\<lparr>lv_repair_attempts := 0, lv_outcome := outcome\<rparr>)"

section \<open>Consistency\<close>

text \<open>
  A proof deadline is only ever held by a challenge, and a challenge is recorded whole: with the
  generation, the stream and the checkpoint it names.
\<close>

definition liveness_ok :: "foreground_liveness \<Rightarrow> bool" where
  "liveness_ok l \<longleftrightarrow> (lv_proof_due_ms l \<noteq> None \<longrightarrow> lv_challenged_at_ms l \<noteq> None)
     \<and> (lv_challenged_at_ms l \<noteq> None \<longleftrightarrow> lv_challenge_generation l \<noteq> None)
     \<and> (lv_challenged_at_ms l \<noteq> None \<longleftrightarrow> lv_challenge_stream_id l \<noteq> None)
     \<and> (lv_challenged_at_ms l \<noteq> None \<longleftrightarrow> lv_challenge_seq l \<noteq> None)"

lemmas liveness_defs = arm_quiet_def rearm_quiet_def arm_quiet_if_unarmed_def take_quiet_def take_anchor_def
  probe_anchor_def has_pending_challenge_def end_episode_def arm_proof_def clear_challenge_def begin_challenge_def
  rearm_proof_def note_proved_def note_output_def clear_proof_def mark_escalated_def claim_rearm_episode_def
  retire_def probe_note_proved_def probe_note_output_def probe_reset_def

lemma liveness_keeps_ok:
  "liveness_ok liveness_new"
  "liveness_ok l \<Longrightarrow> liveness_ok (arm_quiet t n l)"
  "liveness_ok l \<Longrightarrow> liveness_ok (rearm_quiet t n l)"
  "liveness_ok l \<Longrightarrow> liveness_ok (arm_quiet_if_unarmed t n l)"
  "liveness_ok l \<Longrightarrow> liveness_ok (fst (take_quiet l))"
  "liveness_ok (begin_challenge t s q n l)"
  "liveness_ok l \<Longrightarrow> liveness_ok (rearm_proof n l)"
  "liveness_ok (note_proved l)"
  "liveness_ok l \<Longrightarrow> liveness_ok (note_output l)"
  "liveness_ok l \<Longrightarrow> liveness_ok (clear_proof l)"
  "liveness_ok (mark_escalated l)"
  "liveness_ok l \<Longrightarrow> liveness_ok (fst (claim_rearm_episode l))"
  "liveness_ok (retire r l)"
  by (auto simp: liveness_ok_def liveness_new_def liveness_defs Let_def)

lemma interval_within: "TERMINAL_FOREGROUND_IDLE_PROBE_MS \<le> backed_off_interval_ms p"
  "backed_off_interval_ms p \<le> TERMINAL_FOREGROUND_IDLE_PROBE_MAX_MS"
  by (simp_all add: backed_off_interval_ms_def TERMINAL_FOREGROUND_IDLE_PROBE_MS_def
      TERMINAL_FOREGROUND_IDLE_PROBE_MAX_MS_def u64_max_def push_bit_eq_mult)

lemma interval_doubles:
  assumes "ip_proved_idle_streak p < u32_max"
  shows "backed_off_interval_ms (probe_note_proved p) =
    min (2 * backed_off_interval_ms p) TERMINAL_FOREGROUND_IDLE_PROBE_MAX_MS"
proof (cases "ip_proved_idle_streak p < 8")
  case True
  then have "ip_proved_idle_streak p \<in> {0, 1, 2, 3, 4, 5, 6, 7}" by auto
  then show ?thesis
    by (auto simp: backed_off_interval_ms_def probe_note_proved_def saturating_add32_def MAX_DOUBLINGS_def
        TERMINAL_FOREGROUND_IDLE_PROBE_MS_def TERMINAL_FOREGROUND_IDLE_PROBE_MAX_MS_def u64_max_def u32_max_def
        push_bit_eq_mult)
next
  case False
  with assms show ?thesis
    by (simp add: backed_off_interval_ms_def probe_note_proved_def saturating_add32_def MAX_DOUBLINGS_def
        TERMINAL_FOREGROUND_IDLE_PROBE_MS_def TERMINAL_FOREGROUND_IDLE_PROBE_MAX_MS_def u64_max_def
        push_bit_eq_mult min_def)
qed

end
