(* ===== verification/Ordered_Map.thy ===== *)
theory Ordered_Map
  imports Roost_Prelude
begin

text \<open>
  The standard library's ordered map, as the client uses it: an association list sorted by key, so that
  its iteration order is its list order. The locale is what the components rely on; lists that are
  sorted by key provide it.
\<close>

section \<open>Operations\<close>

fun btree_insert :: "'k::linorder \<Rightarrow> 'v \<Rightarrow> ('k \<times> 'v) list \<Rightarrow> ('k \<times> 'v) list" where
  "btree_insert k v [] = [(k, v)]"
| "btree_insert k v ((k', v') # m) =
     (if k < k' then (k, v) # (k', v') # m
      else if k = k' then (k, v) # m
      else (k', v') # btree_insert k v m)"

definition btree_remove :: "'k \<Rightarrow> ('k \<times> 'v) list \<Rightarrow> ('k \<times> 'v) list" where
  "btree_remove k m = filter (\<lambda>(k', _). k' \<noteq> k) m"

text \<open>A change through a mutable reference to one value, and to every value in key order.\<close>

definition btree_update :: "'k \<Rightarrow> ('v \<Rightarrow> 'v) \<Rightarrow> ('k \<times> 'v) list \<Rightarrow> ('k \<times> 'v) list" where
  "btree_update k f m = map (\<lambda>(k', v). (k', if k' = k then f v else v)) m"

definition btree_map :: "('v \<Rightarrow> 'v) \<Rightarrow> ('k \<times> 'v) list \<Rightarrow> ('k \<times> 'v) list" where
  "btree_map f m = map (\<lambda>(k, v). (k, f v)) m"

definition btree_retain :: "('k \<Rightarrow> 'v \<Rightarrow> bool) \<Rightarrow> ('k \<times> 'v) list \<Rightarrow> ('k \<times> 'v) list" where
  "btree_retain keep m = filter (\<lambda>(k, v). keep k v) m"

definition key_sorted :: "('k::linorder \<times> 'v) list \<Rightarrow> bool" where
  "key_sorted m \<longleftrightarrow> sorted_wrt (<) (map fst m)"

section \<open>The contract\<close>

locale keyed_store =
  fixes lookup :: "'m \<Rightarrow> 'k \<Rightarrow> 'v option"
    and insert_key :: "'k \<Rightarrow> 'v \<Rightarrow> 'm \<Rightarrow> 'm"
    and remove_key :: "'k \<Rightarrow> 'm \<Rightarrow> 'm"
    and update_key :: "'k \<Rightarrow> ('v \<Rightarrow> 'v) \<Rightarrow> 'm \<Rightarrow> 'm"
    and invar :: "'m \<Rightarrow> bool"
  assumes insert_invar: "invar m \<Longrightarrow> invar (insert_key k v m)"
    and remove_invar: "invar m \<Longrightarrow> invar (remove_key k m)"
    and update_invar: "invar m \<Longrightarrow> invar (update_key k f m)"
    and lookup_insert: "invar m \<Longrightarrow> lookup (insert_key k v m) j = (if j = k then Some v else lookup m j)"
    and lookup_remove: "invar m \<Longrightarrow> lookup (remove_key k m) j = (if j = k then None else lookup m j)"
    and lookup_update: "invar m \<Longrightarrow> lookup (update_key k f m) j = (if j = k then map_option f (lookup m j) else lookup m j)"
begin

lemma insert_then_remove: "invar m \<Longrightarrow> lookup m k = None \<Longrightarrow> lookup (remove_key k (insert_key k v m)) = lookup m"
  by (auto simp: lookup_remove insert_invar lookup_insert)

lemma insert_then_update: "invar m \<Longrightarrow> lookup (update_key k f (insert_key k v m)) = lookup (insert_key k (f v) m)"
  by (auto simp: lookup_update insert_invar lookup_insert)

end

section \<open>Sorted lists provide it\<close>

lemma btree_insert_set: "set (btree_insert k v m) \<subseteq> insert (k, v) (set m)"
  by (induction k v m rule: btree_insert.induct) auto

lemma btree_insert_keys: "fst ` set (btree_insert k v m) = insert k (fst ` set m)"
  by (induction k v m rule: btree_insert.induct) auto

lemma key_sorted_Nil [simp]: "key_sorted []"
  by (simp add: key_sorted_def)

lemma btree_insert_sorted: "key_sorted m \<Longrightarrow> key_sorted (btree_insert k v m)"
  unfolding key_sorted_def
proof (induction k v m rule: btree_insert.induct)
  case (2 k v k' v' m)
  have "\<forall>x \<in> set (btree_insert k v m). k' < fst x" if "k' < k"
    using that 2(2) btree_insert_set [of k v m] by (auto dest!: subsetD)
  with 2 show ?case by (auto simp: not_less order.order_iff_strict)
qed simp

lemma btree_update_keys [simp]: "map fst (btree_update k f m) = map fst m"
  by (simp add: btree_update_def case_prod_beta comp_def)

lemma btree_map_keys [simp]: "map fst (btree_map f m) = map fst m"
  by (simp add: btree_map_def case_prod_beta comp_def)

lemma btree_other_sorted:
  "key_sorted m \<Longrightarrow> key_sorted (btree_remove k m)" "key_sorted m \<Longrightarrow> key_sorted (btree_update k f m)"
  "key_sorted m \<Longrightarrow> key_sorted (btree_map g m)" "key_sorted m \<Longrightarrow> key_sorted (btree_retain keep m)"
  by (auto simp: key_sorted_def btree_remove_def btree_retain_def sorted_wrt_map intro: sorted_wrt_filter)

lemma btree_insert_lookup: "key_sorted m \<Longrightarrow> map_of (btree_insert k v m) j = (if j = k then Some v else map_of m j)"
  unfolding key_sorted_def
proof (induction k v m rule: btree_insert.induct)
  case (2 k v k' v' m)
  then show ?case by (cases "j = k'") auto
qed simp

lemma btree_remove_lookup: "map_of (btree_remove k m) j = (if j = k then None else map_of m j)"
  by (induction m) (auto simp: btree_remove_def)

lemma btree_update_lookup: "map_of (btree_update k f m) j = (if j = k then map_option f (map_of m j) else map_of m j)"
  by (induction m) (auto simp: btree_update_def)

lemma btree_map_lookup: "map_of (btree_map f m) j = map_option f (map_of m j)"
  by (induction m) (auto simp: btree_map_def)

lemma key_sorted_distinct: "key_sorted m \<Longrightarrow> distinct (map fst m)"
  by (simp add: key_sorted_def strict_sorted_iff)

lemma key_sorted_lookup: "key_sorted m \<Longrightarrow> (k, v) \<in> set m \<longleftrightarrow> map_of m k = Some v"
  by (auto simp: key_sorted_distinct dest: map_of_SomeD)

interpretation btree: keyed_store map_of btree_insert btree_remove btree_update key_sorted
  by unfold_locales
    (simp_all add: btree_insert_sorted btree_other_sorted btree_insert_lookup btree_remove_lookup btree_update_lookup)

end
