(* ===== verification/Client_Session.thy ===== *)
theory Client_Session
  imports Client_Fold Client_Liveness Ordered_Map
begin

text \<open>
  One session's replica in the client (\<open>roost-client-core/src/terminal/session.rs\<close> with its parts
  \<open>session_views.rs\<close>, \<open>session_liveness.rs\<close>, \<open>session_wire.rs\<close>, \<open>admission.rs\<close> and
  \<open>resync_position.rs\<close>): the expectation it is fenced to, the frame it holds, the chunk assembler, the
  repair latch, the panes' leases and the watchdog. Every method returns the replica it leaves. The
  log lines are not modelled.
\<close>

section \<open>The replica\<close>

record terminal_session =
  ts_session_id :: string
  ts_worker_fp :: string
  ts_target :: fold_target
  ts_assembler :: cell_grid_chunk_assembler
  ts_latch :: repair_latch
  ts_generation :: "terminal_token option"
  ts_views :: "(string \<times> client_view) list"
  ts_wire_stream_id :: "string option"
  ts_wire_grid_epoch :: "string option"
  ts_wire_seq :: "nat option"
  ts_frame_counts :: frame_counts
  ts_deliveries :: renderer_deliveries
  ts_liveness :: foreground_liveness

datatype admission =
    Refused refusal bool
  | BaselineReplaced
  | DeltaApplied
  | ChunkPending

datatype view_state_admission =
    StaleView
  | RefusedView
  | AcceptedView "string option"

definition session_new :: "string \<Rightarrow> string \<Rightarrow> terminal_session" where
  "session_new session_id worker_fp =
     \<lparr>ts_session_id = session_id, ts_worker_fp = worker_fp, ts_target = target_new,
      ts_assembler = assembler_new, ts_latch = latch_new, ts_generation = None, ts_views = [],
      ts_wire_stream_id = None, ts_wire_grid_epoch = None, ts_wire_seq = None,
      ts_frame_counts = counts_new, ts_deliveries = deliveries_new, ts_liveness = liveness_new\<rparr>"

abbreviation ts_canonical :: "terminal_session \<Rightarrow> cell_grid_frame option" where
  "ts_canonical s \<equiv> ft_canonical (ts_target s)"

abbreviation ts_baseline_ready :: "terminal_session \<Rightarrow> bool" where
  "ts_baseline_ready s \<equiv> ft_baseline_ready (ts_target s)"

abbreviation ts_expected :: "terminal_session \<Rightarrow> string option" where
  "ts_expected s \<equiv> ft_expected_stream_id (ts_target s)"

abbreviation ts_frame_revision :: "terminal_session \<Rightarrow> nat" where
  "ts_frame_revision s \<equiv> rd_revision (ts_deliveries s)"

definition set_chunk_in_flight :: "bool \<Rightarrow> terminal_session \<Rightarrow> terminal_session" where
  "set_chunk_in_flight b s = s\<lparr>ts_target := (ts_target s)\<lparr>ft_chunk_in_flight := b\<rparr>\<rparr>"

definition begin_promotion :: "nat \<Rightarrow> terminal_session \<Rightarrow> terminal_session" where
  "begin_promotion previous_revision s =
     s\<lparr>ts_deliveries := begin_promotion_after previous_revision (ts_deliveries s)\<rparr>"

definition bind_generation :: "terminal_token \<Rightarrow> terminal_session \<Rightarrow> terminal_session \<times> bool" where
  "bind_generation token s =
     (if ts_generation s = Some token then (s, False) else (s\<lparr>ts_generation := Some token\<rparr>, True))"

definition release_generation :: "terminal_session \<Rightarrow> terminal_session \<times> terminal_token option" where
  "release_generation s = (s\<lparr>ts_generation := None\<rparr>, ts_generation s)"

definition install_expected_stream :: "string \<Rightarrow> nat \<Rightarrow> nat \<Rightarrow> terminal_session \<Rightarrow> terminal_session \<times> bool" where
  "install_expected_stream stream_id cols rows s =
     (let t = ts_target s; prior = ft_baseline_ready t;
          stream_changed = (ft_expected_stream_id t \<noteq> Some stream_id)
      in if \<not> stream_changed \<and> ft_effective_cols t = cols \<and> ft_effective_rows t = rows then (s, False)
         else
           let t = t\<lparr>ft_expected_stream_id := Some stream_id, ft_effective_cols := cols, ft_effective_rows := rows\<rparr>;
               s' = (if stream_changed
                     then s\<lparr>ts_assembler := reset (ts_assembler s), ts_latch := latch_clear (ts_latch s),
                            ts_target := t\<lparr>ft_baseline_ready := False\<rparr>\<rparr>
                     else s\<lparr>ts_target := t\<lparr>ft_baseline_ready :=
                              (case ft_canonical t of None \<Rightarrow> False
                               | Some f \<Rightarrow> fr_stream_id f = stream_id \<and> fr_cols f = cols \<and> fr_rows f = rows)\<rparr>\<rparr>)
           in (s', prior \<noteq> ft_baseline_ready (ts_target s')))"

definition note_wire :: "string \<Rightarrow> string \<Rightarrow> nat \<Rightarrow> terminal_session \<Rightarrow> terminal_session" where
  "note_wire stream_id grid_epoch seq s =
     s\<lparr>ts_wire_stream_id := Some stream_id, ts_wire_grid_epoch := Some grid_epoch, ts_wire_seq := Some seq\<rparr>"

definition inherit_wire_record :: "terminal_session option \<Rightarrow> terminal_session \<Rightarrow> terminal_session" where
  "inherit_wire_record replaced s =
     s\<lparr>ts_wire_stream_id := Option.bind replaced ts_wire_stream_id,
       ts_wire_grid_epoch := Option.bind replaced ts_wire_grid_epoch,
       ts_wire_seq := Option.bind replaced ts_wire_seq\<rparr>"

section \<open>Watchdog hooks\<close>

definition is_published :: "client_view \<Rightarrow> bool" where
  "is_published v = (case cv_intent v of Publish _ _ \<Rightarrow> True | _ \<Rightarrow> False)"

definition foreground_view :: "terminal_session \<Rightarrow> client_view option" where
  "foreground_view s = find is_published (map snd (ts_views s))"

definition retire_liveness :: "repair_outcome \<Rightarrow> terminal_session \<Rightarrow> terminal_session" where
  "retire_liveness outcome s = s\<lparr>ts_liveness := retire outcome (ts_liveness s)\<rparr>"

definition arm_quiet_probe :: "terminal_token \<Rightarrow> nat \<Rightarrow> terminal_session \<Rightarrow> terminal_session" where
  "arm_quiet_probe token now_ms s =
     (if ts_generation s \<noteq> Some token \<or> \<not> ts_baseline_ready s \<or> foreground_view s = None then s
      else s\<lparr>ts_liveness := arm_quiet token now_ms (ts_liveness s)\<rparr>)"

definition note_accepted_frame :: "terminal_token \<Rightarrow> nat \<Rightarrow> terminal_session \<Rightarrow> terminal_session" where
  "note_accepted_frame token now_ms s =
     (if ts_generation s \<noteq> Some token \<or> \<not> ts_baseline_ready s then s
      else
        (case ts_canonical s of
           None \<Rightarrow> s
         | Some frame \<Rightarrow>
             let l = ts_liveness s;
                 l' = (if proves l token (fr_stream_id frame) (fr_seq frame) then note_proved l
                       else if \<not> has_pending_challenge l token then note_output l
                       else l)
             in arm_quiet_probe token now_ms (s\<lparr>ts_liveness := l'\<rparr>)))"

definition note_chunk_progress :: "terminal_token \<Rightarrow> string \<Rightarrow> nat \<Rightarrow> terminal_session \<Rightarrow> terminal_session" where
  "note_chunk_progress token stream_id seq s =
     (if ts_generation s \<noteq> Some token then s
      else if chunk_arrives (ts_liveness s) token stream_id seq
      then s\<lparr>ts_liveness := clear_proof (ts_liveness s)\<rparr>
      else s)"

definition begin_scoped_repair :: "terminal_token \<Rightarrow> nat \<Rightarrow> terminal_session \<Rightarrow> terminal_session" where
  "begin_scoped_repair owner now_ms s =
     (if ts_generation s \<noteq> Some owner then s
      else
        (case ts_expected s of
           None \<Rightarrow> s
         | Some stream_id \<Rightarrow>
             let seq = (case ts_canonical s of
                          None \<Rightarrow> 0
                        | Some frame \<Rightarrow> if fr_stream_id frame = stream_id then fr_seq frame else 0)
             in if has_pending_challenge (ts_liveness s) owner
                then s\<lparr>ts_liveness := rearm_proof now_ms (ts_liveness s)\<rparr>
                else s\<lparr>ts_liveness := begin_challenge owner stream_id seq now_ms (ts_liveness s)\<rparr>))"

section \<open>Admission\<close>

definition unbound :: "string \<Rightarrow> string \<Rightarrow> string \<Rightarrow> admission" where
  "unbound fence bound frame_stream =
     Refused (Reason (fence @ '' '' @ bound @ '' is not current for frame stream '' @ frame_stream)) False"

definition refuse_frame :: "refusal \<Rightarrow> terminal_token \<Rightarrow> nat \<Rightarrow> terminal_session \<Rightarrow> terminal_session \<times> admission" where
  "refuse_frame reason token now_ms s =
     (let (l, latched) = latch reason token now_ms (ts_latch s);
          s = s\<lparr>ts_latch := l\<rparr>
      in (if latched then set_chunk_in_flight False (s\<lparr>ts_assembler := reset (ts_assembler s)\<rparr>) else s,
          Refused reason latched))"

definition admit_decoded :: "cell_grid_frame \<Rightarrow> terminal_token \<Rightarrow> nat \<Rightarrow> terminal_session \<Rightarrow> terminal_session \<times> admission" where
  "admit_decoded decoded token now_ms s =
     (let s = s\<lparr>ts_frame_counts := note_decoded decoded (ts_frame_counts s)\<rparr>;
          s = set_chunk_in_flight (active_snapshot_id (ts_assembler s) \<noteq> None) s
      in case fold_frame (ts_target s) decoded of
           (t, FoldInvalid reason) \<Rightarrow>
             refuse_frame (Reason (fold_failure_as_str reason)) token now_ms (s\<lparr>ts_target := t\<rparr>)
         | (t, FoldedFull) \<Rightarrow>
             let s = s\<lparr>ts_target := t, ts_latch := latch_clear (ts_latch s), ts_assembler := reset (ts_assembler s)\<rparr>;
                 s = set_chunk_in_flight False s;
                 s = s\<lparr>ts_deliveries := note_full (ts_deliveries s)\<rparr>
             in (note_accepted_frame token now_ms s, BaselineReplaced)
         | (t, FoldedDelta delta) \<Rightarrow>
             let s = s\<lparr>ts_target := t, ts_deliveries := note_delta delta (ts_deliveries s)\<rparr>
             in (note_accepted_frame token now_ms s, DeltaApplied))"

definition generation_epoch :: "terminal_session \<Rightarrow> string" where
  "generation_epoch s = (case ts_generation s of None \<Rightarrow> '''' | Some bound \<Rightarrow> tk_process_epoch bound)"

definition admit_frame ::
  "wire_sizes \<Rightarrow> pb_cell_grid_frame \<Rightarrow> bool \<Rightarrow> terminal_token \<Rightarrow> nat \<Rightarrow> terminal_session \<Rightarrow> terminal_session \<times> admission" where
  "admit_frame ws frame is_assembled token now_ms s =
     (if ts_generation s \<noteq> Some token then (s, unbound ''generation'' (generation_epoch s) (pb_stream_id frame))
      else if pb_session_id frame \<noteq> ts_session_id s
      then refuse_frame (Reason ''terminal frame session mismatch'') token now_ms s
      else if Some (pb_stream_id frame) \<noteq> ts_expected s
      then (s, unbound ''stream'' (case ts_expected s of None \<Rightarrow> '''' | Some e \<Rightarrow> e) (pb_stream_id frame))
      else
        let s = note_wire (pb_stream_id frame) (pb_grid_epoch frame) (pb_seq frame) s
        in case decode_wire_frame ws frame is_assembled of
             Ok decoded \<Rightarrow> admit_decoded decoded token now_ms s
           | Err reason \<Rightarrow> refuse_frame reason token now_ms s)"

text \<open>What \<open>admit_chunk\<close> does with the assembler's answer.\<close>

definition settle_chunk ::
  "wire_sizes \<Rightarrow> pb_cell_grid_chunk \<Rightarrow> terminal_token \<Rightarrow> nat \<Rightarrow> terminal_session \<Rightarrow> terminal_session \<times> admission" where
  "settle_chunk ws chunk token now_ms s =
     (case push ws (ts_assembler s) chunk now_ms of
        (asm, Ok (Pending _ _)) \<Rightarrow> (set_chunk_in_flight True (s\<lparr>ts_assembler := asm\<rparr>), ChunkPending)
      | (asm, Ok (Complete _ frame)) \<Rightarrow>
          let s = set_chunk_in_flight False (s\<lparr>ts_assembler := asm\<rparr>)
          in (case decode_assembled_frame frame of
                Ok decoded \<Rightarrow> admit_decoded decoded token now_ms s
              | Err reason \<Rightarrow> refuse_frame reason token now_ms s)
      | (asm, Err code) \<Rightarrow>
          refuse_frame (Reason (chunk_code_as_str code)) token now_ms
            (set_chunk_in_flight False (s\<lparr>ts_assembler := asm\<rparr>)))"

definition admit_chunk ::
  "wire_sizes \<Rightarrow> pb_cell_grid_chunk \<Rightarrow> terminal_token \<Rightarrow> nat \<Rightarrow> terminal_session \<Rightarrow> terminal_session \<times> admission" where
  "admit_chunk ws chunk token now_ms s =
     (if ts_generation s \<noteq> Some token then (s, unbound ''generation'' (generation_epoch s) '''')
      else
        (case decode_chunk_part chunk of
           None \<Rightarrow> refuse_frame (Reason ''missing-part'') token now_ms s
         | Some part \<Rightarrow>
             if pb_session_id part \<noteq> ts_session_id s
             then refuse_frame (Reason ''terminal frame session mismatch'') token now_ms s
             else if Some (pb_stream_id part) \<noteq> ts_expected s
             then (s, unbound ''stream'' (case ts_expected s of None \<Rightarrow> '''' | Some e \<Rightarrow> e) (pb_stream_id part))
             else
               let s = note_chunk_progress token (pb_stream_id part) (pb_seq part) s;
                   s = note_wire (pb_stream_id part) (pb_grid_epoch part) (pb_seq part) s
               in settle_chunk ws chunk token now_ms s))"

definition session_sweep :: "nat \<Rightarrow> terminal_session \<Rightarrow> terminal_session \<times> bool" where
  "session_sweep now_ms s =
     (case expire now_ms (ts_assembler s) of
        (asm, False) \<Rightarrow> (s, False)
      | (asm, True) \<Rightarrow>
          let s = set_chunk_in_flight False (s\<lparr>ts_assembler := asm\<rparr>)
          in case rl_token (ts_latch s) of
               Some token \<Rightarrow> (fst (refuse_frame (Reason ''snapshot-stalled'') token now_ms s), True)
             | None \<Rightarrow> (s\<lparr>ts_assembler := reset (ts_assembler s)\<rparr>, True))"

definition repair_due :: "terminal_token \<Rightarrow> nat \<Rightarrow> terminal_session \<Rightarrow> bool" where
  "repair_due token now_ms s = should_send (ts_latch s) (Some token) now_ms"

definition mark_repair_sent :: "terminal_token \<Rightarrow> nat \<Rightarrow> terminal_session \<Rightarrow> terminal_session" where
  "mark_repair_sent token now_ms s = s\<lparr>ts_latch := record_sent token now_ms (ts_latch s)\<rparr>"

record resync_position =
  rp_stream_id :: string
  rp_grid_epoch :: string
  rp_seq :: nat

definition resync_position :: "terminal_session \<Rightarrow> resync_position option" where
  "resync_position s =
     (case ts_expected s of
        None \<Rightarrow> None
      | Some stream_id \<Rightarrow> Some \<lparr>rp_stream_id = stream_id,
          rp_grid_epoch = (case ts_canonical s of None \<Rightarrow> '''' | Some f \<Rightarrow> fr_grid_epoch f),
          rp_seq = (case ts_canonical s of None \<Rightarrow> 0 | Some f \<Rightarrow> fr_seq f)\<rparr>)"

section \<open>Views\<close>

definition view_of :: "string \<Rightarrow> terminal_session \<Rightarrow> client_view option" where
  "view_of view_id s = map_of (ts_views s) view_id"

definition open_view :: "string \<Rightarrow> nat \<Rightarrow> nat \<Rightarrow> nat \<Rightarrow> terminal_session \<Rightarrow> terminal_session" where
  "open_view view_id cols rows now_ms s =
     (let view = view_opened view_id cols rows now_ms
      in case view_of (cv_view_id view) s of
           None \<Rightarrow> s\<lparr>ts_views := btree_insert (cv_view_id view) view (ts_views s)\<rparr>
         | Some previous \<Rightarrow>
             if cv_intent previous = cv_intent view then s
             else s\<lparr>ts_views := btree_insert (cv_view_id view)
                      (view\<lparr>cv_revision := cv_revision previous + 1\<rparr>) (ts_views s)\<rparr>)"

definition resize_view :: "string \<Rightarrow> nat \<Rightarrow> nat \<Rightarrow> terminal_session \<Rightarrow> terminal_session \<times> bool" where
  "resize_view view_id cols rows s =
     (case view_of view_id s of
        None \<Rightarrow> (s, False)
      | Some v \<Rightarrow> (s\<lparr>ts_views := btree_update view_id (\<lambda>v. fst (view_resize cols rows v)) (ts_views s)\<rparr>,
                   snd (view_resize cols rows v)))"

definition hide_view :: "string \<Rightarrow> terminal_session \<Rightarrow> terminal_session" where
  "hide_view view_id s = s\<lparr>ts_views := btree_update view_id view_park (ts_views s)\<rparr>"

definition close_view :: "string \<Rightarrow> terminal_session \<Rightarrow> terminal_session \<times> nat option" where
  "close_view view_id s =
     (s\<lparr>ts_views := btree_remove view_id (ts_views s)\<rparr>,
      map_option (\<lambda>v. snd (view_retire v)) (view_of view_id s))"

definition repair_view :: "terminal_session \<Rightarrow> client_view option" where
  "repair_view s =
     (case find cv_counted (map snd (ts_views s)) of
        Some v \<Rightarrow> Some v
      | None \<Rightarrow> (case ts_views s of [] \<Rightarrow> None | (_, v) # _ \<Rightarrow> Some v))"

definition open_prospective_view ::
  "string \<Rightarrow> string \<Rightarrow> client_intent \<Rightarrow> nat \<Rightarrow> nat \<Rightarrow> terminal_session \<Rightarrow> terminal_session" where
  "open_prospective_view logical_view_id wire_view_id intent revision now_ms s =
     (let view = published_as logical_view_id wire_view_id intent revision now_ms
      in s\<lparr>ts_views := btree_insert (cv_view_id view) view (ts_views s)\<rparr>)"

definition logical_view_for_wire :: "string \<Rightarrow> terminal_session \<Rightarrow> string option" where
  "logical_view_for_wire wire_view_id s =
     map_option cv_view_id (find (\<lambda>v. cv_wire_view_id v = wire_view_id) (map snd (ts_views s)))"

definition mark_view_published :: "string \<Rightarrow> nat \<Rightarrow> nat \<Rightarrow> terminal_session \<Rightarrow> terminal_session" where
  "mark_view_published view_id generation now_ms s =
     s\<lparr>ts_views := btree_update view_id (mark_published generation now_ms) (ts_views s)\<rparr>"

definition apply_view_state :: "view_state_result \<Rightarrow> nat \<Rightarrow> terminal_session \<Rightarrow> terminal_session \<times> view_state_admission" where
  "apply_view_state r now_ms s =
     (if vr_session_id r \<noteq> ts_session_id s then (s, StaleView)
      else
        let own_generation = map_option view_answer_generation (ts_generation s)
        in case view_of (vr_view_id r) s of
             None \<Rightarrow> (s, StaleView)
           | Some view \<Rightarrow>
               let (view, awaited) = acknowledge (vr_generation r) now_ms view;
                   broadcast = (\<not> awaited \<and> vr_revision r = cv_revision view
                                \<and> own_generation = Some (vr_generation r))
               in if \<not> awaited \<and> \<not> broadcast then (s, StaleView)
                  else
                    let view = view\<lparr>cv_answer := Some \<lparr>va_revision = cv_revision view, va_accepted = vr_accepted r\<rparr>\<rparr>
                    in (s\<lparr>ts_views := btree_update (vr_view_id r) (\<lambda>_. view) (ts_views s)\<rparr>,
                        if vr_accepted r then AcceptedView (vr_stream_id r) else RefusedView))"

end
