(* ===== verification/Client_Hydration.thy ===== *)
theory Client_Hydration
  imports Client_Token Ordered_Map
begin

text \<open>
  The snapshot calls of the client's Sync domains (\<open>roost-client-core/src/sync/hydration.rs\<close>): the
  calls in flight with their deadlines, the retries with their growing delay, and the probe that tells
  an unknown device from an unreachable coordinator. The two maps are ordered maps, so a walk over them
  is a walk in key order.
\<close>

section \<open>Domains\<close>

datatype sync_domain = Terminal | Workers | Workspaces | Tasks | Mcp | Pairing | Audit | Agent

fun domain_wire_value :: "sync_domain \<Rightarrow> int" where
  "domain_wire_value Terminal = 1" | "domain_wire_value Workers = 2" | "domain_wire_value Workspaces = 3"
| "domain_wire_value Tasks = 4" | "domain_wire_value Mcp = 6" | "domain_wire_value Pairing = 7"
| "domain_wire_value Audit = 9" | "domain_wire_value Agent = 10"

text \<open>The derived order is the order of declaration, which is the order of the wire values.\<close>

lemma domain_wire_value_inject [simp]: "domain_wire_value a = domain_wire_value b \<longleftrightarrow> a = b"
  by (cases a; cases b) simp_all

instantiation sync_domain :: linorder
begin

definition less_eq_sync_domain :: "sync_domain \<Rightarrow> sync_domain \<Rightarrow> bool" where
  "less_eq_sync_domain a b \<longleftrightarrow> domain_wire_value a \<le> domain_wire_value b"

definition less_sync_domain :: "sync_domain \<Rightarrow> sync_domain \<Rightarrow> bool" where
  "less_sync_domain a b \<longleftrightarrow> domain_wire_value a < domain_wire_value b"

instance
  by standard (auto simp: less_eq_sync_domain_def less_sync_domain_def)

end

section \<open>The bookkeeping\<close>

definition SYNC_HYDRATION_DEADLINE_MS :: nat where "SYNC_HYDRATION_DEADLINE_MS = 15000"
definition SYNC_SUBSCRIBED_WAIT_MS :: nat where "SYNC_SUBSCRIBED_WAIT_MS = 3000"
definition SYNC_HYDRATION_RETRY_BASE_MS :: nat where "SYNC_HYDRATION_RETRY_BASE_MS = 500"
definition SYNC_HYDRATION_RETRY_MAX_MS :: nat where "SYNC_HYDRATION_RETRY_MAX_MS = 10000"

definition hydration_retry_delay_ms :: "nat \<Rightarrow> nat" where
  "hydration_retry_delay_ms attempt =
     min (push_bit (min attempt 16) SYNC_HYDRATION_RETRY_BASE_MS mod 2 ^ 64) SYNC_HYDRATION_RETRY_MAX_MS"

record hydration_ticket =
  ht_domain :: sync_domain
  ht_domain_generation :: nat
  ht_socket_generation :: nat
  ht_deadline_ms :: nat

record hydration_retry =
  hr_attempt :: nat
  hr_due_ms :: "nat option"
  hr_socket_generation :: nat
  hr_domain_generation :: nat

record hydrations =
  hy_in_flight :: "(nat \<times> hydration_ticket) list"
  hy_retries :: "(sync_domain \<times> hydration_retry) list"
  hy_dial_started_ms :: "nat option"
  hy_probe_call_id :: "nat option"
  hy_probed :: bool
  hy_probe_now :: bool

definition hydrations_new :: hydrations where
  "hydrations_new = \<lparr>hy_in_flight = [], hy_retries = [], hy_dial_started_ms = None, hy_probe_call_id = None,
     hy_probed = False, hy_probe_now = False\<rparr>"

definition fresh_retry :: "hydration_ticket \<Rightarrow> hydration_retry" where
  "fresh_retry ticket = \<lparr>hr_attempt = 0, hr_due_ms = None, hr_socket_generation = ht_socket_generation ticket,
     hr_domain_generation = ht_domain_generation ticket\<rparr>"

definition hydration_begin :: "nat \<Rightarrow> hydration_ticket \<Rightarrow> hydrations \<Rightarrow> hydrations" where
  "hydration_begin call_id ticket h =
     (let in_flight = btree_insert call_id ticket
            (btree_retain (\<lambda>_ existing. ht_domain existing \<noteq> ht_domain ticket) (hy_in_flight h));
          retry = (case map_of (hy_retries h) (ht_domain ticket) of None \<Rightarrow> fresh_retry ticket | Some r \<Rightarrow> r);
          retry = (if hr_socket_generation retry \<noteq> ht_socket_generation ticket
                      \<or> hr_domain_generation retry \<noteq> ht_domain_generation ticket
                   then fresh_retry ticket else retry)
      in h\<lparr>hy_in_flight := in_flight,
           hy_retries := btree_insert (ht_domain ticket) (retry\<lparr>hr_due_ms := None\<rparr>) (hy_retries h)\<rparr>)"

definition hydration_take :: "nat \<Rightarrow> hydrations \<Rightarrow> hydrations \<times> hydration_ticket option" where
  "hydration_take call_id h =
     (h\<lparr>hy_in_flight := btree_remove call_id (hy_in_flight h)\<rparr>, map_of (hy_in_flight h) call_id)"

definition hydration_succeeded :: "sync_domain \<Rightarrow> hydrations \<Rightarrow> hydrations" where
  "hydration_succeeded d h = h\<lparr>hy_retries := btree_remove d (hy_retries h)\<rparr>"

definition hydration_schedule_retry :: "hydration_ticket \<Rightarrow> nat \<Rightarrow> hydrations \<Rightarrow> hydrations \<times> nat" where
  "hydration_schedule_retry ticket now_ms h =
     (let retry = (case map_of (hy_retries h) (ht_domain ticket) of None \<Rightarrow> fresh_retry ticket | Some r \<Rightarrow> r);
          delay = hydration_retry_delay_ms (hr_attempt retry);
          retry = retry\<lparr>hr_attempt := saturating_add32 (hr_attempt retry) 1,
                        hr_due_ms := Some (saturating_add64 now_ms delay)\<rparr>
      in (h\<lparr>hy_retries := btree_insert (ht_domain ticket) retry (hy_retries h)\<rparr>, delay))"

definition retry_is_due :: "nat \<Rightarrow> hydration_retry \<Rightarrow> bool" where
  "retry_is_due now_ms r = (case hr_due_ms r of None \<Rightarrow> False | Some due \<Rightarrow> due \<le> now_ms)"

definition take_due_retries :: "nat \<Rightarrow> hydrations \<Rightarrow> hydrations \<times> (sync_domain \<times> nat \<times> nat) list" where
  "take_due_retries now_ms h =
     (h\<lparr>hy_retries := btree_map (\<lambda>r. if retry_is_due now_ms r then r\<lparr>hr_due_ms := None\<rparr> else r) (hy_retries h)\<rparr>,
      map (\<lambda>(d, r). (d, hr_socket_generation r, hr_domain_generation r))
        (filter (\<lambda>(_, r). retry_is_due now_ms r) (hy_retries h)))"

definition take_expired :: "nat \<Rightarrow> hydrations \<Rightarrow> hydrations \<times> hydration_ticket list" where
  "take_expired now_ms h =
     (h\<lparr>hy_in_flight := btree_retain (\<lambda>_ ticket. \<not> ht_deadline_ms ticket \<le> now_ms) (hy_in_flight h)\<rparr>,
      map snd (filter (\<lambda>(_, ticket). ht_deadline_ms ticket \<le> now_ms) (hy_in_flight h)))"

definition is_running :: "sync_domain \<Rightarrow> nat \<Rightarrow> hydrations \<Rightarrow> bool" where
  "is_running d domain_generation h =
     list_ex (\<lambda>(_, ticket). ht_domain ticket = d \<and> ht_domain_generation ticket = domain_generation) (hy_in_flight h)"

definition clear_for_new_socket :: "hydrations \<Rightarrow> hydrations" where
  "clear_for_new_socket h = h\<lparr>hy_in_flight := [], hy_retries := []\<rparr>"

definition hydrations_dial_started :: "nat \<Rightarrow> hydrations \<Rightarrow> hydrations" where
  "hydrations_dial_started now_ms h = h\<lparr>hy_dial_started_ms := Some now_ms, hy_probed := False, hy_probe_now := False\<rparr>"

definition note_subscribed :: "hydrations \<Rightarrow> hydrations" where
  "note_subscribed h = h\<lparr>hy_dial_started_ms := None, hy_probe_now := False\<rparr>"

definition note_refused_before_open :: "hydrations \<Rightarrow> hydrations" where
  "note_refused_before_open h = h\<lparr>hy_probe_now := True\<rparr>"

definition take_probe_due :: "nat \<Rightarrow> hydrations \<Rightarrow> hydrations \<times> bool" where
  "take_probe_due now_ms h =
     (let due = \<not> hy_probed h \<and> hy_probe_call_id h = None
            \<and> (hy_probe_now h
               \<or> (case hy_dial_started_ms h of None \<Rightarrow> False | Some started \<Rightarrow> SYNC_SUBSCRIBED_WAIT_MS \<le> now_ms - started))
      in (if due then h\<lparr>hy_probed := True\<rparr> else h, due))"

definition begin_probe :: "nat \<Rightarrow> hydrations \<Rightarrow> hydrations" where
  "begin_probe call_id h = h\<lparr>hy_probe_call_id := Some call_id\<rparr>"

definition take_probe :: "nat \<Rightarrow> hydrations \<Rightarrow> hydrations \<times> bool" where
  "take_probe call_id h =
     (if hy_probe_call_id h = Some call_id then (h\<lparr>hy_probe_call_id := None\<rparr>, True) else (h, False))"

section \<open>One call a domain\<close>

text \<open>
  The calls in flight are ordered by id and at most one is for each domain, so the answer that is
  believed is that of the newest call.
\<close>

definition hydrations_ok :: "hydrations \<Rightarrow> bool" where
  "hydrations_ok h \<longleftrightarrow> key_sorted (hy_in_flight h) \<and> key_sorted (hy_retries h)
     \<and> (\<forall>(i, a) \<in> set (hy_in_flight h). \<forall>(j, b) \<in> set (hy_in_flight h). ht_domain a = ht_domain b \<longrightarrow> i = j)"

lemma hydrations_new_ok: "hydrations_ok hydrations_new"
  by (simp add: hydrations_ok_def hydrations_new_def)

lemma hydration_begin_ok:
  assumes "hydrations_ok h"
  shows "hydrations_ok (hydration_begin call_id ticket h)"
proof -
  let ?kept = "btree_retain (\<lambda>_ existing. ht_domain existing \<noteq> ht_domain ticket) (hy_in_flight h)"
  have f: "hy_in_flight (hydration_begin call_id ticket h) = btree_insert call_id ticket ?kept"
    "key_sorted (hy_retries (hydration_begin call_id ticket h))"
    using assms by (simp_all add: hydration_begin_def Let_def hydrations_ok_def btree_insert_sorted)
  have one: "i = j" if "(i, a) \<in> set (btree_insert call_id ticket ?kept)" "(j, b) \<in> set (btree_insert call_id ticket ?kept)"
    "ht_domain a = ht_domain b" for i a j b
  proof -
    have "(i, a) = (call_id, ticket) \<or> (i, a) \<in> set (hy_in_flight h) \<and> ht_domain a \<noteq> ht_domain ticket"
      "(j, b) = (call_id, ticket) \<or> (j, b) \<in> set (hy_in_flight h) \<and> ht_domain b \<noteq> ht_domain ticket"
      using subsetD [OF btree_insert_set that(1)] subsetD [OF btree_insert_set that(2)] by (auto simp: btree_retain_def)
    with that(3) assms show ?thesis by (auto simp: hydrations_ok_def)
  qed
  have "key_sorted (btree_insert call_id ticket ?kept)"
    using assms by (simp add: hydrations_ok_def btree_insert_sorted btree_other_sorted)
  with f(2) show ?thesis unfolding hydrations_ok_def f(1) using one by fast
qed

lemma hydration_calls_ok:
  assumes "hydrations_ok h"
  shows "hydrations_ok (fst (hydration_take i h))" "hydrations_ok (hydration_succeeded d h)"
    "hydrations_ok (fst (hydration_schedule_retry ticket now h))" "hydrations_ok (fst (take_due_retries now h))"
    "hydrations_ok (fst (take_expired now h))" "hydrations_ok (clear_for_new_socket h)"
    "hydrations_ok (hydrations_dial_started now h)" "hydrations_ok (note_subscribed h)"
    "hydrations_ok (note_refused_before_open h)" "hydrations_ok (fst (take_probe_due now h))"
    "hydrations_ok (begin_probe i h)" "hydrations_ok (fst (take_probe i h))"
  using assms
  by (auto simp: hydrations_ok_def hydration_take_def hydration_succeeded_def hydration_schedule_retry_def take_due_retries_def
      take_expired_def clear_for_new_socket_def hydrations_dial_started_def note_subscribed_def note_refused_before_open_def
      take_probe_due_def begin_probe_def take_probe_def btree_insert_sorted btree_other_sorted Let_def)
    (auto simp: btree_remove_def btree_retain_def)

text \<open>A newer call supersedes the older one of its domain, and the answer is taken once.\<close>

lemma newest_call_answers:
  assumes "hydrations_ok h"
  shows "snd (hydration_take call_id (hydration_begin call_id ticket h)) = Some ticket"
    "ht_domain other = ht_domain ticket \<Longrightarrow> (old, other) \<in> set (hy_in_flight h) \<Longrightarrow> old \<noteq> call_id
       \<Longrightarrow> snd (hydration_take old (hydration_begin call_id ticket h)) = None"
proof -
  let ?kept = "btree_retain (\<lambda>_ existing. ht_domain existing \<noteq> ht_domain ticket) (hy_in_flight h)"
  have s: "key_sorted ?kept" using assms by (simp add: hydrations_ok_def btree_other_sorted)
  have e: "snd (hydration_take i (hydration_begin call_id ticket h)) = map_of (btree_insert call_id ticket ?kept) i" for i
    by (simp add: hydration_take_def hydration_begin_def Let_def)
  show "snd (hydration_take call_id (hydration_begin call_id ticket h)) = Some ticket"
    unfolding e by (simp add: btree_insert_lookup s)
  show "snd (hydration_take old (hydration_begin call_id ticket h)) = None"
    if "ht_domain other = ht_domain ticket" "(old, other) \<in> set (hy_in_flight h)" "old \<noteq> call_id"
  proof -
    have "map_of (hy_in_flight h) old = Some other" using that(2) assms by (simp add: hydrations_ok_def key_sorted_lookup)
    moreover have "map_of (hy_in_flight h) old = Some t" if "map_of ?kept old = Some t" for t
      using map_of_SomeD [OF that] assms by (auto simp: btree_retain_def hydrations_ok_def key_sorted_lookup)
    moreover have "ht_domain t \<noteq> ht_domain ticket" if "map_of ?kept old = Some t" for t
      using map_of_SomeD [OF that] by (simp add: btree_retain_def)
    ultimately have "map_of ?kept old = None" using that(1) by (cases "map_of ?kept old") auto
    then show ?thesis unfolding e by (simp add: btree_insert_lookup s that(3))
  qed
qed

lemma retry_delay_bounds: "SYNC_HYDRATION_RETRY_BASE_MS \<le> hydration_retry_delay_ms n" "hydration_retry_delay_ms n \<le> SYNC_HYDRATION_RETRY_MAX_MS"
proof -
  have "(2::nat) ^ min n 16 \<le> 2 ^ 16" by (rule power_increasing) simp_all
  then have "push_bit (min n 16) (500::nat) \<le> push_bit 16 500" by (simp add: push_bit_eq_mult)
  moreover have "500 \<le> push_bit (min n 16) (500::nat)" by (simp add: push_bit_eq_mult)
  ultimately show "SYNC_HYDRATION_RETRY_BASE_MS \<le> hydration_retry_delay_ms n"
    by (simp add: hydration_retry_delay_ms_def SYNC_HYDRATION_RETRY_BASE_MS_def SYNC_HYDRATION_RETRY_MAX_MS_def push_bit_eq_mult)
  show "hydration_retry_delay_ms n \<le> SYNC_HYDRATION_RETRY_MAX_MS" by (simp add: hydration_retry_delay_ms_def)
qed

end
