(* ===== verification/Client_Link.thy ===== *)
theory Client_Link
  imports Client_Hydration
begin

text \<open>
  The client's Sync socket state (\<open>roost-client-core/src/sync/\<close>): the live link and its generations
  (\<open>link.rs\<close>), the per-domain hydration barrier (\<open>domain.rs\<close>), the domain each frame belongs to
  (\<open>inbound/frame_meta.rs\<close>), the recovery cursor (\<open>watermark.rs\<close>), the redial schedule (\<open>redial.rs\<close>),
  the reading of a close (\<open>client/sync/close.rs\<close>) and the socket's life in
  \<open>handle_sync/lifecycle.rs\<close>. A frame is represented by its kind: no function here looks at the
  payload. Of \<open>handle_sync/hydration.rs\<close> the triggering, the deadlines and the retries are modelled; the
  rows an answer carries are not. Storage is a map of strings; log lines and the change counter of the
  store are left out.
\<close>

section \<open>The recovery cursor\<close>

definition SYNC_WATERMARK_KEY :: string where "SYNC_WATERMARK_KEY = ''roost.syncLastEventId''"

text \<open>Rust's parse of an unsigned 64-bit number: an optional plus, digits, no overflow.\<close>

fun parse_digits :: "nat \<Rightarrow> string \<Rightarrow> nat option" where
  "parse_digits acc [] = Some acc"
| "parse_digits acc (c # cs) =
     (if \<not> is_ascii_digit c then None
      else let acc' = 10 * acc + (byte_of c - 48)
           in if u64_max < acc' then None else parse_digits acc' cs)"

definition parse_u64 :: "string \<Rightarrow> nat option" where
  "parse_u64 s =
     (case s of
        [] \<Rightarrow> None
      | c # cs \<Rightarrow> if c = CHR ''+'' then (if cs = [] then None else parse_digits 0 cs) else parse_digits 0 s)"

record recovery_watermark =
  wm_last_seen :: nat
  wm_persisted :: nat
  wm_pending :: "nat option"

definition watermark_from_storage :: "(string \<rightharpoonup> string) \<Rightarrow> recovery_watermark" where
  "watermark_from_storage storage =
     (let persisted = (case Option.bind (storage SYNC_WATERMARK_KEY) parse_u64 of None \<Rightarrow> 0 | Some n \<Rightarrow> n)
      in \<lparr>wm_last_seen = persisted, wm_persisted = persisted, wm_pending = None\<rparr>)"

definition watermark_note :: "nat \<Rightarrow> recovery_watermark \<Rightarrow> recovery_watermark \<times> bool" where
  "watermark_note event_id w =
     (if event_id \<le> wm_last_seen w then (w, False)
      else (w\<lparr>wm_last_seen := event_id, wm_pending := Some event_id\<rparr>, True))"

definition take_pending :: "recovery_watermark \<Rightarrow> recovery_watermark \<times> nat option" where
  "take_pending w =
     (case wm_pending w of
        None \<Rightarrow> (w, None)
      | Some pending \<Rightarrow>
          if pending = wm_persisted w then (w, None)
          else (w\<lparr>wm_pending := None, wm_persisted := pending\<rparr>, Some pending))"

definition rewind_to_log_start :: "recovery_watermark \<Rightarrow> recovery_watermark" where
  "rewind_to_log_start w = w\<lparr>wm_last_seen := 0, wm_pending := Some 0\<rparr>"

definition watermark_reset :: "(string \<rightharpoonup> string) \<Rightarrow> recovery_watermark \<Rightarrow> (string \<rightharpoonup> string) \<times> recovery_watermark" where
  "watermark_reset storage w =
     (storage(SYNC_WATERMARK_KEY := None), \<lparr>wm_last_seen = 0, wm_persisted = 0, wm_pending = None\<rparr>)"

section \<open>The redial schedule\<close>

definition SYNC_REDIAL_BASE_MS :: nat where "SYNC_REDIAL_BASE_MS = 1000"
definition SYNC_REDIAL_MAX_MS :: nat where "SYNC_REDIAL_MAX_MS = 30000"
definition SYNC_REDIAL_SATURATION_FAILURES :: nat where "SYNC_REDIAL_SATURATION_FAILURES = 6"
definition SYNC_HIDDEN_PARK_FAILURES :: nat where "SYNC_HIDDEN_PARK_FAILURES = 8"
definition SYNC_STALE_TIMEOUT_MS :: nat where "SYNC_STALE_TIMEOUT_MS = 90000"
definition SYNC_REFOCUS_STALE_MS :: nat where "SYNC_REFOCUS_STALE_MS = 45000"
definition SYNC_RESUME_COALESCE_MS :: nat where "SYNC_RESUME_COALESCE_MS = 500"

definition next_redial_delay_ms :: "nat \<Rightarrow> nat" where
  "next_redial_delay_ms failures =
     (let steps = min (failures - 1) SYNC_REDIAL_SATURATION_FAILURES
      in min (push_bit steps SYNC_REDIAL_BASE_MS) SYNC_REDIAL_MAX_MS)"

definition should_park_redial :: "nat \<Rightarrow> bool \<Rightarrow> bool" where
  "should_park_redial failures visible \<longleftrightarrow> \<not> visible \<and> SYNC_HIDDEN_PARK_FAILURES \<le> failures"

definition is_immediate_sync_redial :: "string option \<Rightarrow> bool" where
  "is_immediate_sync_redial reason \<longleftrightarrow>
     reason \<in> {Some ''visibility'', Some ''manual'', Some ''stale'', Some ''flow'', Some ''terminal-liveness''}"

datatype sync_link_liveness = NoLink | Dialing | OpenLink

definition should_close_stale_link_on_resume :: "sync_link_liveness \<Rightarrow> nat \<Rightarrow> bool" where
  "should_close_stale_link_on_resume liveness idle_ms \<longleftrightarrow> liveness = OpenLink \<and> SYNC_REFOCUS_STALE_MS < idle_ms"

definition sync_link_answering :: "nat option \<Rightarrow> bool" where
  "sync_link_answering idle_ms = (case idle_ms of None \<Rightarrow> False | Some idle \<Rightarrow> idle < SYNC_STALE_TIMEOUT_MS)"

record sync_redial =
  sr_failures :: nat
  sr_delay_ms :: nat
  sr_hidden_parked :: bool
  sr_resume_requested :: bool
  sr_smoke_paused :: bool
  sr_visible :: bool
  sr_due_ms :: "nat option"
  sr_pending_abort_reason :: "string option"
  sr_last_resume_ms :: "nat option"

definition redial_new :: sync_redial where
  "redial_new = \<lparr>sr_failures = 0, sr_delay_ms = SYNC_REDIAL_BASE_MS, sr_hidden_parked = False,
     sr_resume_requested = False, sr_smoke_paused = False, sr_visible = True, sr_due_ms = None,
     sr_pending_abort_reason = None, sr_last_resume_ms = None\<rparr>"

definition note_frame_received :: "sync_redial \<Rightarrow> sync_redial" where
  "note_frame_received r = r\<lparr>sr_failures := 0, sr_delay_ms := SYNC_REDIAL_BASE_MS\<rparr>"

definition note_abort_reason :: "string \<Rightarrow> sync_redial \<Rightarrow> sync_redial" where
  "note_abort_reason reason r = r\<lparr>sr_pending_abort_reason := Some reason\<rparr>"

definition note_close_abort_reason :: "string \<Rightarrow> sync_redial \<Rightarrow> sync_redial" where
  "note_close_abort_reason reason r =
     (if sr_pending_abort_reason r = None then r\<lparr>sr_pending_abort_reason := Some reason\<rparr> else r)"

definition schedule_after_close :: "nat \<Rightarrow> sync_redial \<Rightarrow> sync_redial" where
  "schedule_after_close now_ms r =
     (let reason = sr_pending_abort_reason r; r = r\<lparr>sr_pending_abort_reason := None\<rparr>
      in if is_immediate_sync_redial reason
         then r\<lparr>sr_delay_ms := SYNC_REDIAL_BASE_MS, sr_due_ms := Some now_ms\<rparr>
         else
           let r = r\<lparr>sr_failures := saturating_add32 (sr_failures r) 1\<rparr>;
               r = r\<lparr>sr_delay_ms := next_redial_delay_ms (sr_failures r)\<rparr>
           in if should_park_redial (sr_failures r) (sr_visible r)
              then r\<lparr>sr_hidden_parked := True, sr_due_ms := Some now_ms\<rparr>
              else if sr_resume_requested r
              then r\<lparr>sr_resume_requested := False, sr_delay_ms := SYNC_REDIAL_BASE_MS, sr_due_ms := Some now_ms\<rparr>
              else r\<lparr>sr_due_ms := Some (saturating_add64 now_ms (sr_delay_ms r))\<rparr>)"

definition resume_now :: "nat \<Rightarrow> sync_redial \<Rightarrow> sync_redial" where
  "resume_now now_ms r =
     (let r = r\<lparr>sr_hidden_parked := False, sr_failures := 0, sr_delay_ms := SYNC_REDIAL_BASE_MS,
                sr_resume_requested := True\<rparr>
      in if sr_due_ms r \<noteq> None then r\<lparr>sr_due_ms := Some now_ms\<rparr> else r)"

definition take_lifecycle_wake :: "nat \<Rightarrow> bool \<Rightarrow> sync_redial \<Rightarrow> sync_redial \<times> bool" where
  "take_lifecycle_wake now_ms allow_hidden r =
     (if \<not> allow_hidden \<and> \<not> sr_visible r then (r, False)
      else if (case sr_last_resume_ms r of None \<Rightarrow> False | Some prior \<Rightarrow> now_ms - prior < SYNC_RESUME_COALESCE_MS)
      then (r, False)
      else (resume_now now_ms (r\<lparr>sr_last_resume_ms := Some now_ms\<rparr>), True))"

definition arm_floor :: "sync_redial \<Rightarrow> sync_redial" where
  "arm_floor r = r\<lparr>sr_failures := SYNC_HIDDEN_PARK_FAILURES - 1,
     sr_delay_ms := next_redial_delay_ms SYNC_HIDDEN_PARK_FAILURES\<rparr>"

definition take_due :: "nat \<Rightarrow> sync_redial \<Rightarrow> sync_redial \<times> bool" where
  "take_due now_ms r =
     (if sr_hidden_parked r \<or> sr_smoke_paused r then (r, False)
      else
        (case sr_due_ms r of
           Some due \<Rightarrow> if due \<le> now_ms then (r\<lparr>sr_due_ms := None\<rparr>, True) else (r, False)
         | None \<Rightarrow> (r, False)))"

definition note_dial_started :: "sync_redial \<Rightarrow> sync_redial" where
  "note_dial_started r =
     (if sr_resume_requested r then r\<lparr>sr_resume_requested := False, sr_delay_ms := SYNC_REDIAL_BASE_MS\<rparr> else r)"

section \<open>What a close says\<close>

definition SYNC_AUTH_REVOKED_CLOSE_CODE :: nat where "SYNC_AUTH_REVOKED_CLOSE_CODE = 4001"
definition SYNC_BACKPRESSURE_CLOSE_CODE :: nat where "SYNC_BACKPRESSURE_CLOSE_CODE = 1013"
definition SYNC_GENERATION_RETIRED_CLOSE_CODE :: nat where "SYNC_GENERATION_RETIRED_CLOSE_CODE = 4000"
definition BACKPRESSURE_REASON :: string where "BACKPRESSURE_REASON = ''sync backpressure''"

datatype close_disposition = Backpressure | ConnectionRejected | GenerationRetired | AuthRevoked | Abrupt

definition redials_immediately :: "close_disposition \<Rightarrow> bool" where
  "redials_immediately d \<longleftrightarrow> d \<in> {Backpressure, GenerationRetired}"

definition close_abort_reason :: "close_disposition \<Rightarrow> string option" where
  "close_abort_reason d = (case d of Backpressure \<Rightarrow> Some ''flow'' | _ \<Rightarrow> None)"

definition classify_close :: "nat option \<Rightarrow> string \<Rightarrow> close_disposition" where
  "classify_close code reason =
     (case code of
        Some c \<Rightarrow>
          if c = SYNC_AUTH_REVOKED_CLOSE_CODE then AuthRevoked
          else if c = SYNC_GENERATION_RETIRED_CLOSE_CODE then GenerationRetired
          else if c = SYNC_BACKPRESSURE_CLOSE_CODE \<and> reason = BACKPRESSURE_REASON then Backpressure
          else if c = SYNC_BACKPRESSURE_CLOSE_CODE then ConnectionRejected
          else Abrupt
      | None \<Rightarrow> Abrupt)"

section \<open>The link and its domains\<close>

definition SYNC_RETAINED_FRAME_MAX :: nat where "SYNC_RETAINED_FRAME_MAX = 512"

datatype sync_frame =
    Subscribed | DomainReset sync_domain | SessionEvent | SessionEventRejected | SessionsSnapshot
  | CellGrid | CellGridChunk | ViewState | InputResult | AgentStatus | AgentStatusRefused
  | SessionViewers | SessionPresence | AuditRow | WorkspaceDelta | TaskDelta | McpMessage
  | WorkerPresence | WorkerRoutable | TerminalTitle | TerminalClipboard | ClipboardHistory
  | CommandFinished | TerminalBell | TerminalSignals | LastActivity | PairRequestDelta
  | UiState | UiCommand | CoordinatorRelocation | InputRouteResult | TransportProbeResult
  | AgentConversation | AgentChatEvents | Keepalive | WorkerLiveMetrics | OmpHostService | OmpUiActionReceipt

definition frame_domain :: "sync_frame \<Rightarrow> sync_domain option" where
  "frame_domain f =
     (case f of
        DomainReset d \<Rightarrow> Some d
      | CellGrid \<Rightarrow> Some Terminal | CellGridChunk \<Rightarrow> Some Terminal | AgentStatus \<Rightarrow> Some Terminal
      | AgentStatusRefused \<Rightarrow> Some Terminal | SessionViewers \<Rightarrow> Some Terminal | SessionPresence \<Rightarrow> Some Terminal
      | TerminalTitle \<Rightarrow> Some Terminal | TerminalClipboard \<Rightarrow> Some Terminal | CommandFinished \<Rightarrow> Some Terminal
      | TerminalBell \<Rightarrow> Some Terminal | TerminalSignals \<Rightarrow> Some Terminal | LastActivity \<Rightarrow> Some Terminal
      | WorkerPresence \<Rightarrow> Some Workers | WorkerRoutable \<Rightarrow> Some Workers
      | WorkspaceDelta \<Rightarrow> Some Workspaces
      | TaskDelta \<Rightarrow> Some Tasks
      | McpMessage \<Rightarrow> Some Mcp
      | PairRequestDelta \<Rightarrow> Some Pairing
      | AgentConversation \<Rightarrow> Some Agent | AgentChatEvents \<Rightarrow> Some Agent
      | AuditRow \<Rightarrow> Some Audit
      | SessionEvent \<Rightarrow> Some Terminal | SessionEventRejected \<Rightarrow> Some Terminal | SessionsSnapshot \<Rightarrow> Some Terminal
      | ClipboardHistory \<Rightarrow> Some Pairing
      | _ \<Rightarrow> None)"

record sync_link =
  sl_generation :: nat
  sl_socket_id :: string
  sl_process_epoch :: string
  sl_open :: bool
  sl_accepting :: bool
  sl_last_frame_at_ms :: nat

record domain_token =
  dt_generation :: nat
  dt_subscribed :: bool
  dt_ready :: bool
  dt_snapshot_token :: "string option"

record retained_frame =
  rt_frame :: sync_frame
  rt_delivery_seq :: nat
  rt_generation :: nat

record sync_state =
  sy_next_generation :: nat
  sy_link :: "sync_link option"
  sy_domains :: "sync_domain \<rightharpoonup> domain_token"
  sy_watermark :: recovery_watermark
  sy_retained :: "retained_frame list"
  sy_auth_revoked :: bool
  sy_redial :: sync_redial
  sy_hydrations :: hydrations

definition sync_new :: "(string \<rightharpoonup> string) \<Rightarrow> sync_state" where
  "sync_new storage = \<lparr>sy_next_generation = 1, sy_link = None, sy_domains = Map.empty,
     sy_watermark = watermark_from_storage storage, sy_retained = [], sy_auth_revoked = False, sy_redial = redial_new,
     sy_hydrations = hydrations_new\<rparr>"

definition begin_dial :: "sync_state \<Rightarrow> sync_state \<times> nat \<times> nat" where
  "begin_dial s =
     (s\<lparr>sy_next_generation := bump64 (sy_next_generation s)\<rparr>, sy_next_generation s, wm_last_seen (sy_watermark s))"

definition dial_count :: "sync_state \<Rightarrow> nat" where
  "dial_count s = (if sy_next_generation s = 0 then u64_max else sy_next_generation s - 1)"

definition open_link :: "nat \<Rightarrow> string \<Rightarrow> string \<Rightarrow> nat \<Rightarrow> sync_state \<Rightarrow> sync_state \<times> bool" where
  "open_link generation socket_id process_epoch now_ms s =
     (if bump64 generation \<noteq> sy_next_generation s \<or> sy_link s \<noteq> None then (s, False)
      else (s\<lparr>sy_link := Some \<lparr>sl_generation = generation, sl_socket_id = socket_id, sl_process_epoch = process_epoch,
                sl_open = True, sl_accepting = True, sl_last_frame_at_ms = now_ms\<rparr>,
              sy_domains := Map.empty, sy_retained := []\<rparr>, True))"

definition link_generation :: "sync_state \<Rightarrow> nat option" where
  "link_generation s = map_option sl_generation (sy_link s)"

definition close_link :: "nat \<Rightarrow> nat option \<Rightarrow> sync_state \<Rightarrow> sync_state \<times> bool" where
  "close_link generation close_code s =
     (if link_generation s \<noteq> Some generation then (s, False)
      else
        let s = s\<lparr>sy_link := None, sy_domains := Map.empty\<rparr>
        in (if close_code = Some SYNC_AUTH_REVOKED_CLOSE_CODE then s\<lparr>sy_auth_revoked := True\<rparr> else s, True))"

definition accepts :: "sync_state \<Rightarrow> nat \<Rightarrow> bool" where
  "accepts s generation =
     (case sy_link s of
        None \<Rightarrow> False
      | Some link \<Rightarrow> sl_generation link = generation \<and> sl_accepting link \<and> sl_open link)"

definition request_redial :: "nat \<Rightarrow> sync_state \<Rightarrow> sync_state \<times> bool" where
  "request_redial generation s =
     (if \<not> accepts s generation then (s, False)
      else (s\<lparr>sy_link := None, sy_domains := Map.empty\<rparr>, True))"

definition note_frame :: "nat \<Rightarrow> nat \<Rightarrow> sync_state \<Rightarrow> sync_state \<times> bool" where
  "note_frame generation now_ms s =
     (case sy_link s of
        Some link \<Rightarrow>
          if sl_generation link = generation
          then (s\<lparr>sy_link := Some (link\<lparr>sl_last_frame_at_ms := now_ms\<rparr>)\<rparr>, True) else (s, False)
      | None \<Rightarrow> (s, False))"

definition idle_ms :: "nat \<Rightarrow> sync_state \<Rightarrow> nat option" where
  "idle_ms now_ms s = map_option (\<lambda>link. now_ms - sl_last_frame_at_ms link) (sy_link s)"

definition domain_generation :: "sync_state \<Rightarrow> sync_domain \<Rightarrow> nat option" where
  "domain_generation s d = map_option dt_generation (sy_domains s d)"

definition terminal_token_of :: "sync_state \<Rightarrow> terminal_token option" where
  "terminal_token_of s =
     map_option (\<lambda>link. token_sync (sl_generation link) (sl_socket_id link) (sl_process_epoch link)
       (case domain_generation s Terminal of None \<Rightarrow> 0 | Some g \<Rightarrow> g)) (sy_link s)"

definition direct_token_of :: "string \<Rightarrow> terminal_transport \<Rightarrow> sync_state \<Rightarrow> terminal_token option" where
  "direct_token_of worker_fp transport s =
     map_option (\<lambda>link. token_direct (sl_generation link) transport worker_fp (sl_process_epoch link)
       (case domain_generation s Terminal of None \<Rightarrow> 0 | Some g \<Rightarrow> g)) (sy_link s)"

definition retain :: "retained_frame \<Rightarrow> sync_state \<Rightarrow> sync_state" where
  "retain frame s =
     (let held = (if SYNC_RETAINED_FRAME_MAX \<le> length (sy_retained s) then tl (sy_retained s) else sy_retained s)
      in s\<lparr>sy_retained := held @ [frame]\<rparr>)"

definition take_retained :: "sync_state \<Rightarrow> sync_state \<times> retained_frame list" where
  "take_retained s = (s\<lparr>sy_retained := []\<rparr>, sy_retained s)"

text \<open>One announcement, the body of the loop.\<close>

definition announce_domain :: "sync_state \<Rightarrow> sync_domain \<times> nat \<times> bool \<Rightarrow> sync_state" where
  "announce_domain s = (\<lambda>(d, announced, subscribed).
     s\<lparr>sy_domains := (sy_domains s)(d \<mapsto> \<lparr>dt_generation = announced, dt_subscribed = subscribed,
        dt_ready = False, dt_snapshot_token = None\<rparr>)\<rparr>)"

definition install_subscribed :: "nat \<Rightarrow> (sync_domain \<times> nat \<times> bool) list \<Rightarrow> sync_state \<Rightarrow> sync_state \<times> bool" where
  "install_subscribed generation entries s =
     (if \<not> accepts s generation then (s, False) else (foldl announce_domain s entries, True))"

definition reset_domain :: "nat \<Rightarrow> sync_domain \<Rightarrow> nat \<Rightarrow> bool \<Rightarrow> sync_state \<Rightarrow> sync_state \<times> bool" where
  "reset_domain generation d announced subscribed s =
     (if \<not> accepts s generation then (s, False)
      else (s\<lparr>sy_domains := (sy_domains s)(d \<mapsto> \<lparr>dt_generation = announced, dt_subscribed = subscribed,
              dt_ready = False, dt_snapshot_token = None\<rparr>)\<rparr>, True))"

definition issue_snapshot_token :: "nat \<Rightarrow> sync_domain \<Rightarrow> string \<Rightarrow> sync_state \<Rightarrow> sync_state \<times> bool" where
  "issue_snapshot_token generation d token s =
     (if \<not> accepts s generation then (s, False)
      else
        (case sy_domains s d of
           None \<Rightarrow> (s, False)
         | Some entry \<Rightarrow> (s\<lparr>sy_domains := (sy_domains s)(d \<mapsto> entry\<lparr>dt_snapshot_token := Some token\<rparr>)\<rparr>, True)))"

definition domain_is_ready :: "sync_state \<Rightarrow> sync_domain \<Rightarrow> bool" where
  "domain_is_ready s d = (case sy_domains s d of None \<Rightarrow> False | Some entry \<Rightarrow> dt_ready entry)"

definition mark_domain_ready ::
  "nat \<Rightarrow> sync_domain \<Rightarrow> string option \<Rightarrow> sync_state \<Rightarrow> sync_state \<times> (string, unit) result" where
  "mark_domain_ready generation d snapshot_token s =
     (if \<not> accepts s generation then (s, Err ''socket generation is not current'')
      else
        (case sy_domains s d of
           None \<Rightarrow> (s, Err ''domain was never announced'')
         | Some entry \<Rightarrow>
             if d = Terminal
                \<and> \<not> (case (dt_snapshot_token entry, snapshot_token) of
                       (Some installed, Some presented) \<Rightarrow> installed = presented | _ \<Rightarrow> False)
             then (s, Err ''snapshot_token_invalid'')
             else (s\<lparr>sy_domains := (sy_domains s)(d \<mapsto> entry\<lparr>dt_ready := True\<rparr>)\<rparr>, Ok ())))"

definition domain_live :: "sync_state \<Rightarrow> sync_domain \<Rightarrow> bool" where
  "domain_live s d = (case sy_domains s d of None \<Rightarrow> False | Some entry \<Rightarrow> dt_subscribed entry \<and> dt_ready entry)"

definition all_domains :: "sync_domain list" where
  "all_domains = [Terminal, Workers, Workspaces, Tasks, Mcp, Pairing, Audit, Agent]"

definition may_apply :: "sync_state \<Rightarrow> sync_frame \<Rightarrow> bool" where
  "may_apply s frame =
     (if frame = Subscribed \<or> (case frame of DomainReset _ \<Rightarrow> True | _ \<Rightarrow> False) then True
      else if frame \<in> {UiState, UiCommand, CoordinatorRelocation, InputRouteResult, TransportProbeResult}
      then list_ex (\<lambda>d. sy_domains s d \<noteq> None) all_domains
      else if frame \<in> {AuditRow, WorkspaceDelta, TaskDelta, McpMessage, WorkerPresence, WorkerRoutable,
                       PairRequestDelta, SessionViewers, SessionPresence, TerminalTitle, LastActivity}
      then (case frame_domain frame of None \<Rightarrow> False | Some d \<Rightarrow> domain_live s d)
      else
        (case frame_domain frame of
           Some d \<Rightarrow> domain_live s d
         | None \<Rightarrow> list_ex (domain_live s) all_domains))"

section \<open>The socket's life\<close>

datatype link_effect =
    DialSync nat nat
  | CloseSyncLink nat string
  | SnapshotCall sync_domain nat
  | ProbeCall nat

definition request_link_replacement :: "string \<Rightarrow> sync_state \<Rightarrow> sync_state \<times> link_effect list" where
  "request_link_replacement reason s =
     (case link_generation s of
        None \<Rightarrow> (s, [])
      | Some generation \<Rightarrow>
          (case request_redial generation s of
             (s', False) \<Rightarrow> (s', [])
           | (s', True) \<Rightarrow>
               (s'\<lparr>sy_redial := note_abort_reason reason (sy_redial s')\<rparr>, [CloseSyncLink generation reason])))"

definition dial :: "nat \<Rightarrow> sync_state \<Rightarrow> sync_state \<times> link_effect list" where
  "dial now_ms s =
     (if sy_auth_revoked s then (s, [])
      else
        let s = s\<lparr>sy_redial := note_dial_started (sy_redial s)\<rparr>;
            (s, generation, since) = begin_dial s;
            s = s\<lparr>sy_hydrations := hydrations_dial_started now_ms (sy_hydrations s)\<rparr>
        in (s, [DialSync generation since]))"

text \<open>
  The Sync state's part of a close: whether the close was of the live link or of the newest dial, and
  then the redial. What the close releases elsewhere is in the store's handler.
\<close>

definition link_closed :: "nat \<Rightarrow> nat option \<Rightarrow> string \<Rightarrow> bool \<Rightarrow> nat \<Rightarrow> sync_state \<Rightarrow> sync_state \<times> bool" where
  "link_closed generation close_code close_reason checking now_ms s =
     (let (s, was_open) = close_link generation close_code s;
          latest = (generation = dial_count s);
          s = (if \<not> was_open \<and> latest \<and> close_code = Some SYNC_AUTH_REVOKED_CLOSE_CODE
               then s\<lparr>sy_auth_revoked := True\<rparr> else s)
      in if \<not> was_open \<and> \<not> latest then (s, False)
         else
           let s = s\<lparr>sy_hydrations := clear_for_new_socket (sy_hydrations s)\<rparr>
           in if sy_auth_revoked s then (s, True)
              else
                let s = (if \<not> was_open \<and> checking
                         then s\<lparr>sy_hydrations := note_refused_before_open (sy_hydrations s)\<rparr> else s);
                    r = (case close_abort_reason (classify_close close_code close_reason) of
                           None \<Rightarrow> sy_redial s | Some reason \<Rightarrow> note_close_abort_reason reason (sy_redial s))
                in (s\<lparr>sy_redial := schedule_after_close now_ms r\<rparr>, True))"

definition link_liveness :: "sync_state \<Rightarrow> sync_link_liveness" where
  "link_liveness s =
     (case sy_link s of
        Some link \<Rightarrow> if sl_open link then OpenLink else Dialing
      | None \<Rightarrow> if sr_due_ms (sy_redial s) \<noteq> None then NoLink
                else if 0 < dial_count s then Dialing else NoLink)"

text \<open>
  Snapshot calls. The counter call ids are drawn from belongs to the store, so these functions take it
  and return it. The audit domain has no snapshot call.
\<close>

definition hydration_call :: "sync_domain \<Rightarrow> nat \<Rightarrow> link_effect option" where
  "hydration_call d call_id = (if d = Audit then None else Some (SnapshotCall d call_id))"

definition trigger_hydration ::
  "sync_domain \<Rightarrow> nat \<Rightarrow> nat \<times> sync_state \<Rightarrow> (nat \<times> sync_state) \<times> link_effect list" where
  "trigger_hydration d now_ms = (\<lambda>(next_call_id, s).
     case (sy_link s, sy_domains s d) of
       (Some link, Some entry) \<Rightarrow>
         if \<not> dt_subscribed entry \<or> dt_ready entry then ((next_call_id, s), [])
         else if is_running d (dt_generation entry) (sy_hydrations s) then ((next_call_id, s), [])
         else
           (case hydration_call d next_call_id of
              None \<Rightarrow> ((next_call_id + 1, s), [])
            | Some call \<Rightarrow>
                ((next_call_id + 1,
                  s\<lparr>sy_hydrations := hydration_begin next_call_id
                      \<lparr>ht_domain = d, ht_domain_generation = dt_generation entry, ht_socket_generation = sl_generation link,
                       ht_deadline_ms = saturating_add64 now_ms SYNC_HYDRATION_DEADLINE_MS\<rparr> (sy_hydrations s)\<rparr>), [call]))
     | _ \<Rightarrow> ((next_call_id, s), []))"

definition ticket_is_current :: "sync_state \<Rightarrow> hydration_ticket \<Rightarrow> bool" where
  "ticket_is_current s ticket \<longleftrightarrow> link_generation s = Some (ht_socket_generation ticket)
     \<and> (case sy_domains s (ht_domain ticket) of
          None \<Rightarrow> False
        | Some entry \<Rightarrow> dt_generation entry = ht_domain_generation ticket \<and> dt_subscribed entry \<and> \<not> dt_ready entry)"

definition schedule_retry :: "hydration_ticket \<Rightarrow> nat \<Rightarrow> sync_state \<Rightarrow> sync_state" where
  "schedule_retry ticket now_ms s = s\<lparr>sy_hydrations := fst (hydration_schedule_retry ticket now_ms (sy_hydrations s))\<rparr>"

definition retry_hydration ::
  "nat \<Rightarrow> sync_domain \<times> nat \<times> nat \<Rightarrow> (nat \<times> sync_state) \<times> link_effect list \<Rightarrow> (nat \<times> sync_state) \<times> link_effect list" where
  "retry_hydration now_ms = (\<lambda>(d, socket_generation, generation) (st, out).
     if link_generation (snd st) = Some socket_generation \<and> domain_generation (snd st) d = Some generation
     then let (st, out') = trigger_hydration d now_ms st in (st, out @ out')
     else (st, out))"

definition sweep_hydrations :: "nat \<Rightarrow> nat \<times> sync_state \<Rightarrow> (nat \<times> sync_state) \<times> link_effect list" where
  "sweep_hydrations now_ms = (\<lambda>(next_call_id, s).
     let (h, expired) = take_expired now_ms (sy_hydrations s);
         s = fold (\<lambda>ticket s. if ticket_is_current s ticket then schedule_retry ticket now_ms s else s) expired
               (s\<lparr>sy_hydrations := h\<rparr>);
         (h, due) = take_due_retries now_ms (sy_hydrations s)
     in fold (retry_hydration now_ms) due ((next_call_id, s\<lparr>sy_hydrations := h\<rparr>), []))"

definition start_bootstrap_probe :: "nat \<times> sync_state \<Rightarrow> (nat \<times> sync_state) \<times> link_effect list" where
  "start_bootstrap_probe = (\<lambda>(next_call_id, s).
     ((next_call_id + 1, s\<lparr>sy_hydrations := begin_probe next_call_id (sy_hydrations s)\<rparr>), [ProbeCall next_call_id]))"

text \<open>The two halves of the sweep's Sync duties: the socket, then the snapshot calls.\<close>

definition sweep_link :: "nat \<Rightarrow> sync_state \<Rightarrow> sync_state \<times> link_effect list" where
  "sweep_link now_ms s =
     (let (r, due) = take_due now_ms (sy_redial s);
          s = s\<lparr>sy_redial := r\<rparr>;
          (s, out) = (if due then dial now_ms s else (s, []))
      in case sy_link s of
           None \<Rightarrow> (s, out)
         | Some link \<Rightarrow>
             if sl_open link \<and> sl_accepting link \<and> sr_visible (sy_redial s)
                \<and> SYNC_STALE_TIMEOUT_MS \<le> now_ms - sl_last_frame_at_ms link
             then let (s, out') = request_link_replacement ''stale'' s in (s, out @ out')
             else (s, out))"

definition sweep_sync :: "bool \<Rightarrow> nat \<Rightarrow> nat \<times> sync_state \<Rightarrow> (nat \<times> sync_state) \<times> link_effect list" where
  "sweep_sync checking now_ms = (\<lambda>(next_call_id, s).
     let (s, out1) = sweep_link now_ms s;
         ((next_call_id, s), out2) = sweep_hydrations now_ms (next_call_id, s);
         (h, due) = (if checking then take_probe_due now_ms (sy_hydrations s) else (sy_hydrations s, False));
         s = s\<lparr>sy_hydrations := h\<rparr>;
         ((next_call_id, s), out3) = (if due then start_bootstrap_probe (next_call_id, s) else ((next_call_id, s), []))
     in ((next_call_id, s), out1 @ out2 @ out3))"

definition on_wake :: "bool \<Rightarrow> nat \<Rightarrow> sync_state \<Rightarrow> sync_state \<times> link_effect list" where
  "on_wake allow_hidden now_ms s =
     (case take_lifecycle_wake now_ms allow_hidden (sy_redial s) of
        (r, False) \<Rightarrow> (s\<lparr>sy_redial := r\<rparr>, [])
      | (r, True) \<Rightarrow>
          let s = s\<lparr>sy_redial := r\<rparr>
          in if sr_visible (sy_redial s)
                \<and> should_close_stale_link_on_resume (link_liveness s) (case idle_ms now_ms s of None \<Rightarrow> 0 | Some i \<Rightarrow> i)
             then request_link_replacement ''visibility'' s
             else (s, []))"

text \<open>The Sync part of a visibility change; the pre-warming of direct carriers that follows it is not modelled.\<close>

definition on_visibility :: "bool \<Rightarrow> nat \<Rightarrow> sync_state \<Rightarrow> sync_state \<times> link_effect list" where
  "on_visibility visible now_ms s =
     (let s = s\<lparr>sy_redial := (sy_redial s)\<lparr>sr_visible := visible\<rparr>\<rparr>
      in if visible then on_wake False now_ms s else (s, []))"

datatype transport_control = Reconnect | ArmMaxBackoff | Pause | Resume

fun on_transport_control :: "transport_control \<Rightarrow> nat \<Rightarrow> sync_state \<Rightarrow> sync_state \<times> link_effect list" where
  "on_transport_control Reconnect now_ms s =
     request_link_replacement ''manual'' (s\<lparr>sy_redial := resume_now now_ms (sy_redial s)\<rparr>)"
| "on_transport_control ArmMaxBackoff now_ms s =
     request_link_replacement ''network'' (s\<lparr>sy_redial := arm_floor (sy_redial s)\<rparr>)"
| "on_transport_control Pause now_ms s =
     request_link_replacement ''manual'' (s\<lparr>sy_redial := (sy_redial s)\<lparr>sr_smoke_paused := True\<rparr>\<rparr>)"
| "on_transport_control Resume now_ms s =
     (s\<lparr>sy_redial := resume_now now_ms ((sy_redial s)\<lparr>sr_smoke_paused := False\<rparr>)\<rparr>, [])"

end
