(* ===== verification/Client_Watchdog.thy ===== *)
theory Client_Watchdog
  imports Client_Session Client_Link
begin

text \<open>
  One session seen from the client's store: dispatch of its frames
  (\<open>handle_sync/apply_frame.rs\<close>, \<open>handle_sync/elected.rs\<close>), the authority's answers
  (\<open>handle_terminal/views.rs\<close>), publication of its panes and the per-session part of the sweep
  (\<open>handle_sweep/mod.rs\<close>), the repair request (\<open>handle_sweep/repair.rs\<close>) and the liveness watchdog
  (\<open>handle_sweep/liveness.rs\<close>). The store is the part of it these functions read or change for that
  session: the Sync state, the elected route's token, whether its view ids are mid-rotation, the
  replica, and the two change counters a host subscribes to. Staged candidates, smoke faults and log
  lines are not modelled.
\<close>

section \<open>The store and its effects\<close>

record client_store =
  cs_sync :: sync_state
  cs_route :: "terminal_token option"
  cs_rotation_pending :: bool
  cs_replica :: "terminal_session option"
  cs_revision :: nat
  cs_frames_revision :: nat

datatype sync_command =
    TerminalView string string client_intent nat terminal_token
  | TerminalResync string string string string nat terminal_token

datatype direct_command =
    DirectView string string client_intent nat
  | DirectResync string string string string nat

datatype client_effect =
    SendSync sync_command
  | SendDirect terminal_token direct_command
  | OnLink link_effect

definition note_change :: "client_store \<Rightarrow> client_store" where
  "note_change st = st\<lparr>cs_revision := cs_revision st + 1\<rparr>"

definition note_fold :: "nat \<times> bool \<Rightarrow> nat \<times> bool \<Rightarrow> client_store \<Rightarrow> client_store" where
  "note_fold before after st =
     (let st = (if fst after \<noteq> fst before then st\<lparr>cs_frames_revision := cs_frames_revision st + 1\<rparr> else st)
      in if snd after \<noteq> snd before then note_change st else st)"

definition painted_mark :: "terminal_session \<Rightarrow> nat \<times> bool" where
  "painted_mark s = (ts_frame_revision s, ts_baseline_ready s)"

text \<open>A change to the replica where there is one.\<close>

definition with_replica :: "(terminal_session \<Rightarrow> terminal_session) \<Rightarrow> client_store \<Rightarrow> client_store" where
  "with_replica f st = st\<lparr>cs_replica := map_option f (cs_replica st)\<rparr>"

definition with_liveness :: "(foreground_liveness \<Rightarrow> foreground_liveness) \<Rightarrow> client_store \<Rightarrow> client_store" where
  "with_liveness f = with_replica (\<lambda>s. s\<lparr>ts_liveness := f (ts_liveness s)\<rparr>)"

section \<open>Repair requests\<close>

definition scoped_resync :: "terminal_session \<Rightarrow> terminal_token \<Rightarrow> string \<Rightarrow> client_effect option" where
  "scoped_resync replica token sid =
     (case repair_view replica of
        None \<Rightarrow> None
      | Some view \<Rightarrow>
          (case resync_position replica of
             None \<Rightarrow> None
           | Some p \<Rightarrow> Some
               (case tk_transport token of
                  Sync \<Rightarrow> SendSync (TerminalResync sid (cv_wire_view_id view) (rp_stream_id p) (rp_grid_epoch p) (rp_seq p) token)
                | _ \<Rightarrow> SendDirect token (DirectResync sid (cv_wire_view_id view) (rp_stream_id p) (rp_grid_epoch p) (rp_seq p)))))"

definition repair_request :: "terminal_session \<Rightarrow> terminal_token \<Rightarrow> string \<Rightarrow> nat \<Rightarrow> client_effect option" where
  "repair_request replica token sid now_ms =
     (if \<not> rl_latched (ts_latch replica) \<or> \<not> repair_due token now_ms replica then None
      else scoped_resync replica token sid)"

definition request_repair_if_due :: "string \<Rightarrow> nat \<Rightarrow> client_store \<Rightarrow> client_store \<times> client_effect list" where
  "request_repair_if_due sid now_ms st =
     (if cs_rotation_pending st then (st, [])
      else
        (case cs_replica st of
           None \<Rightarrow> (st, [])
         | Some replica \<Rightarrow>
             (case ts_generation replica of
                None \<Rightarrow> (st, [])
              | Some token \<Rightarrow>
                  (case repair_request replica token sid now_ms of
                     None \<Rightarrow> (st, [])
                   | Some request \<Rightarrow>
                       (with_replica (\<lambda>s. begin_scoped_repair token now_ms (mark_repair_sent token now_ms s)) st,
                        [request])))))"

section \<open>Frames\<close>

definition elected_direct_owns :: "client_store \<Rightarrow> bool" where
  "elected_direct_owns st =
     (case Option.bind (cs_replica st) ts_generation of None \<Rightarrow> False | Some token \<Rightarrow> tk_transport token \<noteq> Sync)"

definition fold_into_elected ::
  "string \<Rightarrow> terminal_token \<Rightarrow> nat \<Rightarrow> (terminal_session \<Rightarrow> terminal_session \<times> admission) \<Rightarrow> client_store
     \<Rightarrow> client_store \<times> client_effect list" where
  "fold_into_elected sid token now_ms admit st =
     (case cs_replica st of
        None \<Rightarrow> (st, [])
      | Some replica \<Rightarrow>
          let replica = fst (bind_generation token replica);
              before = painted_mark replica;
              (replica, admission) = admit replica;
              st = note_fold before (painted_mark replica) (st\<lparr>cs_replica := Some replica\<rparr>)
          in case admission of
               Refused _ True \<Rightarrow> request_repair_if_due sid now_ms st
             | _ \<Rightarrow> (st, []))"

definition apply_cell_grid :: "wire_sizes \<Rightarrow> string \<Rightarrow> pb_cell_grid_frame \<Rightarrow> nat \<Rightarrow> client_store \<Rightarrow> client_store \<times> client_effect list" where
  "apply_cell_grid ws sid cell now_ms st =
     (case terminal_token_of (cs_sync st) of
        None \<Rightarrow> (st, [])
      | Some token \<Rightarrow>
          if elected_direct_owns st then (st, [])
          else fold_into_elected sid token now_ms (admit_frame ws cell False token now_ms) st)"

definition apply_cell_grid_chunk :: "wire_sizes \<Rightarrow> string \<Rightarrow> pb_cell_grid_chunk \<Rightarrow> nat \<Rightarrow> client_store \<Rightarrow> client_store \<times> client_effect list" where
  "apply_cell_grid_chunk ws sid chunk now_ms st =
     (case terminal_token_of (cs_sync st) of
        None \<Rightarrow> (st, [])
      | Some token \<Rightarrow>
          if elected_direct_owns st then (st, [])
          else fold_into_elected sid token now_ms (admit_chunk ws chunk token now_ms) st)"

section \<open>Publication\<close>

definition publication_target :: "client_store \<Rightarrow> terminal_token option" where
  "publication_target st =
     (case cs_route st of
        Some token \<Rightarrow> Some token
      | None \<Rightarrow> if \<not> domain_is_ready (cs_sync st) Terminal then None else terminal_token_of (cs_sync st))"

definition send_intent_with ::
  "terminal_token \<Rightarrow> string \<Rightarrow> string \<Rightarrow> client_intent \<Rightarrow> nat \<Rightarrow> client_store \<Rightarrow> client_effect list" where
  "send_intent_with token sid wire_view_id intent revision st =
     (if tk_transport token = Sync then [SendSync (TerminalView sid wire_view_id intent revision token)]
      else if cs_route st = Some token then [SendDirect token (DirectView sid wire_view_id intent revision)]
      else [])"

definition publish_view_on_token ::
  "terminal_token \<Rightarrow> string \<Rightarrow> string \<Rightarrow> nat \<Rightarrow> client_store \<Rightarrow> client_store \<times> client_effect list" where
  "publish_view_on_token token sid view_id now_ms st =
     (case cs_replica st of
        None \<Rightarrow> (st, [])
      | Some replica \<Rightarrow>
          (case view_of view_id replica of
             None \<Rightarrow> (st, [])
           | Some view \<Rightarrow>
               let (replica, bound) = bind_generation token replica;
                   st = st\<lparr>cs_replica := Some replica\<rparr>;
                   st = (if bound then note_change st else st);
                   st = with_replica (mark_view_published view_id (view_answer_generation token) now_ms) st
               in (st, send_intent_with token sid (cv_wire_view_id view) (cv_intent view) (cv_revision view) st)))"

definition publish_view :: "string \<Rightarrow> string \<Rightarrow> nat \<Rightarrow> client_store \<Rightarrow> client_store \<times> client_effect list" where
  "publish_view sid view_id now_ms st =
     (if cs_rotation_pending st then (st, [])
      else
        (case publication_target st of
           None \<Rightarrow> (st, [])
         | Some token \<Rightarrow> publish_view_on_token token sid view_id now_ms st))"

definition send_intent :: "string \<Rightarrow> string \<Rightarrow> client_intent \<Rightarrow> nat \<Rightarrow> client_store \<Rightarrow> client_effect list" where
  "send_intent sid view_id intent revision st =
     (case cs_replica st of
        None \<Rightarrow> []
      | Some replica \<Rightarrow>
          (case ts_generation replica of
             None \<Rightarrow> []
           | Some token \<Rightarrow>
               (case view_of view_id replica of
                  None \<Rightarrow> []
                | Some view \<Rightarrow> send_intent_with token sid (cv_wire_view_id view) intent revision st)))"

definition republish_due_views :: "string \<Rightarrow> nat \<Rightarrow> client_store \<Rightarrow> client_store \<times> client_effect list" where
  "republish_due_views sid now_ms st =
     (let due = (case cs_replica st of
                   None \<Rightarrow> []
                 | Some replica \<Rightarrow>
                     map cv_view_id (filter (\<lambda>v. cv_intent v \<noteq> Unpublish \<and> heartbeat_due v now_ms)
                       (map snd (ts_views replica))))
      in foldl (\<lambda>(st, out) view_id. let (st, out') = publish_view sid view_id now_ms st in (st, out @ out')) (st, []) due)"

definition handle_view_state :: "view_state_result \<Rightarrow> nat \<Rightarrow> client_store \<Rightarrow> client_store \<times> client_effect list" where
  "handle_view_state state now_ms st =
     (case cs_replica st of
        None \<Rightarrow> (st, [])
      | Some replica \<Rightarrow>
          (case logical_view_for_wire (vr_view_id state) replica of
             None \<Rightarrow> (st, [])
           | Some logical_view_id \<Rightarrow>
               let (replica, verdict) = apply_view_state (state\<lparr>vr_view_id := logical_view_id\<rparr>) now_ms replica;
                   st = st\<lparr>cs_replica := Some replica\<rparr>
               in case verdict of
                    AcceptedView (Some stream_id) \<Rightarrow>
                      if \<not> is_terminal_uuid stream_id
                         \<or> \<not> is_terminal_geometry \<lparr>geo_cols = vr_effective_cols state, geo_rows = vr_effective_rows state\<rparr>
                      then (st, [])
                      else
                        let (replica, changed) =
                              install_expected_stream stream_id (vr_effective_cols state) (vr_effective_rows state) replica;
                            st = st\<lparr>cs_replica := Some replica\<rparr>;
                            st = (if changed then note_change st else st)
                        in request_repair_if_due (vr_session_id state) now_ms st
                  | _ \<Rightarrow> (st, [])))"

section \<open>The watchdog\<close>

datatype watch = Watched terminal_token | RetireFor repair_outcome

definition LIVENESS_REASON :: string where "LIVENESS_REASON = ''terminal-liveness''"

definition elected_owner :: "client_store \<Rightarrow> terminal_token option" where
  "elected_owner st =
     (case Option.bind (cs_replica st) ts_generation of
        None \<Rightarrow> None
      | Some owner \<Rightarrow> if publication_target st = Some owner then Some owner else None)"

definition unwatchable_reason :: "client_store \<Rightarrow> repair_outcome" where
  "unwatchable_reason st =
     (if Option.bind (cs_replica st) ts_generation \<noteq> None then GenerationReset else Inactive)"

definition watch_of :: "client_store \<Rightarrow> watch" where
  "watch_of st =
     (case cs_replica st of
        None \<Rightarrow> RetireFor Inactive
      | Some replica \<Rightarrow>
          if foreground_view replica = None then RetireFor Inactive
          else if (case lv_challenge_stream_id (ts_liveness replica) of
                     None \<Rightarrow> False | Some challenged \<Rightarrow> ts_expected replica \<noteq> Some challenged)
          then RetireFor StreamReplaced
          else
            (case elected_owner st of
               Some owner \<Rightarrow> Watched owner
             | None \<Rightarrow> RetireFor (unwatchable_reason st)))"

definition retire_watched :: "repair_outcome \<Rightarrow> client_store \<Rightarrow> client_store" where
  "retire_watched outcome st =
     (case cs_replica st of
        None \<Rightarrow> st
      | Some replica \<Rightarrow>
          if lv_quiet_due_ms (ts_liveness replica) = None \<and> lv_challenged_at_ms (ts_liveness replica) = None then st
          else with_replica (retire_liveness outcome) st)"

definition publish_challenge :: "string \<Rightarrow> terminal_token \<Rightarrow> nat \<Rightarrow> client_store \<Rightarrow> client_store \<times> client_effect list \<times> bool" where
  "publish_challenge sid owner now_ms st =
     (case cs_replica st of
        None \<Rightarrow> (st, [], False)
      | Some replica \<Rightarrow>
          if has_pending_challenge (ts_liveness replica) owner then (st, [], False)
          else
            (case scoped_resync replica owner sid of
               None \<Rightarrow> (st, [], False)
             | Some request \<Rightarrow> (with_replica (begin_scoped_repair owner now_ms) st, [request], True)))"

definition watchdog_probe :: "string \<Rightarrow> nat \<Rightarrow> client_store \<Rightarrow> client_store \<times> client_effect list" where
  "watchdog_probe sid now_ms st =
     (case watch_of st of
        RetireFor outcome \<Rightarrow> (retire_watched outcome st, [])
      | Watched owner \<Rightarrow>
          let st = with_liveness (\<lambda>l. fst (take_quiet l)) st;
              (st, out, published) = publish_challenge sid owner now_ms st
          in if published then (st, out)
             else
               let st = with_liveness (\<lambda>l. fst (claim_rearm_episode l)) st
               in (with_liveness (rearm_quiet owner now_ms) st, out))"

definition watchdog_escalate :: "nat \<Rightarrow> client_store \<Rightarrow> client_store \<times> client_effect list" where
  "watchdog_escalate now_ms st =
     (case watch_of st of
        RetireFor outcome \<Rightarrow> (retire_watched outcome st, [])
      | Watched owner \<Rightarrow>
          (case cs_replica st of
             None \<Rightarrow> (st, [])
           | Some replica \<Rightarrow>
               if \<not> has_pending_challenge (ts_liveness replica) owner then (with_liveness clear_proof st, [])
               else
                 let st = with_liveness mark_escalated st
                 in if tk_transport owner \<noteq> Sync then (with_liveness (rearm_quiet owner now_ms) st, [])
                    else if \<not> (case link_generation (cs_sync st) of None \<Rightarrow> False | Some g \<Rightarrow> accepts (cs_sync st) g)
                    then (with_liveness (rearm_quiet owner now_ms) st, [])
                    else
                      let (sync, out) = request_link_replacement LIVENESS_REASON (cs_sync st)
                      in (st\<lparr>cs_sync := sync\<rparr>, map OnLink out)))"

definition arm_when_watchable :: "nat \<Rightarrow> client_store \<Rightarrow> client_store" where
  "arm_when_watchable now_ms st =
     (case elected_owner st of
        None \<Rightarrow> st
      | Some owner \<Rightarrow>
          (case cs_replica st of
             None \<Rightarrow> st
           | Some replica \<Rightarrow>
               if ts_expected replica = None \<or> foreground_view replica = None then st
               else if has_pending_challenge (ts_liveness replica) owner then st
               else with_liveness (arm_quiet_if_unarmed owner now_ms) st))"

definition sweep_foreground_liveness :: "string \<Rightarrow> nat \<Rightarrow> client_store \<Rightarrow> client_store \<times> client_effect list" where
  "sweep_foreground_liveness sid now_ms st =
     (if \<not> sr_visible (sy_redial (cs_sync st)) then (retire_watched Inactive st, [])
      else
        (case cs_replica st of
           None \<Rightarrow> (st, [])
         | Some replica \<Rightarrow>
             let proof_due = proof_expiry_due (ts_liveness replica) now_ms;
                 quiet_due = quiet_expiry_due (ts_liveness replica) now_ms;
                 (st, out) = (if proof_due then watchdog_escalate now_ms st else (st, []));
                 (st, out') = (if quiet_due then watchdog_probe sid now_ms st else (st, []))
             in (arm_when_watchable now_ms st, out @ out')))"

text \<open>The sweep's pass over one session, its staged candidate apart.\<close>

definition sweep_session :: "string \<Rightarrow> nat \<Rightarrow> client_store \<Rightarrow> client_store \<times> client_effect list" where
  "sweep_session sid now_ms st =
     (let (st, dropped) =
            (case cs_replica st of
               None \<Rightarrow> (st, False)
             | Some replica \<Rightarrow> let (replica, dropped) = session_sweep now_ms replica
                               in (st\<lparr>cs_replica := Some replica\<rparr>, dropped));
          st = (if dropped then note_change st else st);
          (st, out1) = request_repair_if_due sid now_ms st;
          (st, out2) = sweep_foreground_liveness sid now_ms st;
          (st, out3) = republish_due_views sid now_ms st
      in (st, out1 @ out2 @ out3))"

end
