(* ===== verification/Client_Replica.thy ===== *)
theory Client_Replica
  imports Client_Session
begin

text \<open>
  The replica as a machine: what holds of it after any sequence of calls its host may make, that a
  painter which folds the deltas it is handed holds exactly the installed frame, and what one
  admission does on every branch.
\<close>

section \<open>The machine\<close>

datatype session_op =
    Bind terminal_token
  | Release
  | Expect string nat nat
  | AdmitFrame pb_cell_grid_frame bool terminal_token nat
  | AdmitChunk pb_cell_grid_chunk terminal_token nat
  | SweepStall nat
  | RepairSent terminal_token nat
  | ScopedRepair terminal_token nat
  | Promote nat
  | OpenView string nat nat nat
  | OpenProspective string string client_intent nat nat
  | ResizeView string nat nat
  | HideView string
  | CloseView string
  | ViewPublished string nat nat
  | ViewAnswered view_state_result nat
  | RetireLiveness repair_outcome

fun exec_session :: "wire_sizes \<Rightarrow> session_op \<Rightarrow> terminal_session \<Rightarrow> terminal_session" where
  "exec_session ws (Bind token) s = fst (bind_generation token s)"
| "exec_session ws Release s = fst (release_generation s)"
| "exec_session ws (Expect stream cols rows) s = fst (install_expected_stream stream cols rows s)"
| "exec_session ws (AdmitFrame frame whole token now) s = fst (admit_frame ws frame whole token now s)"
| "exec_session ws (AdmitChunk chunk token now) s = fst (admit_chunk ws chunk token now s)"
| "exec_session ws (SweepStall now) s = fst (session_sweep now s)"
| "exec_session ws (RepairSent token now) s = mark_repair_sent token now s"
| "exec_session ws (ScopedRepair token now) s = begin_scoped_repair token now s"
| "exec_session ws (Promote r) s = begin_promotion r s"
| "exec_session ws (OpenView v cols rows now) s = open_view v cols rows now s"
| "exec_session ws (OpenProspective v w intent r now) s = open_prospective_view v w intent r now s"
| "exec_session ws (ResizeView v cols rows) s = fst (resize_view v cols rows s)"
| "exec_session ws (HideView v) s = hide_view v s"
| "exec_session ws (CloseView v) s = fst (close_view v s)"
| "exec_session ws (ViewPublished v g now) s = mark_view_published v g now s"
| "exec_session ws (ViewAnswered r now) s = fst (apply_view_state r now s)"
| "exec_session ws (RetireLiveness outcome) s = retire_liveness outcome s"

section \<open>What each call leaves alone\<close>

lemma set_chunk_in_flight_simps [simp]:
  "ts_assembler (set_chunk_in_flight b s) = ts_assembler s" "ts_latch (set_chunk_in_flight b s) = ts_latch s"
  "ts_deliveries (set_chunk_in_flight b s) = ts_deliveries s" "ts_liveness (set_chunk_in_flight b s) = ts_liveness s"
  "ts_views (set_chunk_in_flight b s) = ts_views s" "ts_generation (set_chunk_in_flight b s) = ts_generation s"
  "ts_session_id (set_chunk_in_flight b s) = ts_session_id s"
  "ts_target (set_chunk_in_flight b s) = (ts_target s)\<lparr>ft_chunk_in_flight := b\<rparr>"
  by (simp_all add: set_chunk_in_flight_def)

lemma note_wire_simps [simp]:
  "ts_assembler (note_wire a b c s) = ts_assembler s" "ts_latch (note_wire a b c s) = ts_latch s"
  "ts_deliveries (note_wire a b c s) = ts_deliveries s" "ts_liveness (note_wire a b c s) = ts_liveness s"
  "ts_views (note_wire a b c s) = ts_views s" "ts_generation (note_wire a b c s) = ts_generation s"
  "ts_target (note_wire a b c s) = ts_target s" "ts_session_id (note_wire a b c s) = ts_session_id s"
  by (simp_all add: note_wire_def)

text \<open>A call that only touches the watchdog.\<close>

definition only_liveness :: "terminal_session \<Rightarrow> terminal_session \<Rightarrow> bool" where
  "only_liveness s s' \<longleftrightarrow> (\<exists>l. s' = s\<lparr>ts_liveness := l\<rparr> \<and> (liveness_ok (ts_liveness s) \<longrightarrow> liveness_ok l))"

lemma only_liveness_refl [simp]: "only_liveness s s"
  by (auto simp: only_liveness_def intro: exI [of _ "ts_liveness s"])

lemma only_livenessD:
  assumes "only_liveness s s'"
  shows "ts_target s' = ts_target s" "ts_assembler s' = ts_assembler s" "ts_latch s' = ts_latch s"
    "ts_deliveries s' = ts_deliveries s" "ts_views s' = ts_views s" "ts_generation s' = ts_generation s"
    "ts_session_id s' = ts_session_id s" "liveness_ok (ts_liveness s) \<Longrightarrow> liveness_ok (ts_liveness s')"
  using assms by (auto simp: only_liveness_def)

lemma watchdog_hooks:
  "only_liveness s (arm_quiet_probe t now s)"
  "only_liveness s (note_accepted_frame t now s)"
  "only_liveness s (note_chunk_progress t x q s)"
  "only_liveness s (begin_scoped_repair t now s)"
  "only_liveness s (retire_liveness r s)"
proof -
  have step: "only_liveness s (s\<lparr>ts_liveness := l\<rparr>)" if "liveness_ok (ts_liveness s) \<longrightarrow> liveness_ok l" for l
    using that by (auto simp: only_liveness_def)
  show arm: "only_liveness s (arm_quiet_probe t now s)" for s
    by (auto simp: arm_quiet_probe_def only_liveness_def liveness_keeps_ok intro: exI [of _ "ts_liveness s"])
  have "only_liveness s (arm_quiet_probe t now (s\<lparr>ts_liveness := l\<rparr>))"
    if "liveness_ok (ts_liveness s) \<longrightarrow> liveness_ok l" for l
    using arm [of "s\<lparr>ts_liveness := l\<rparr>"] that by (auto simp: only_liveness_def)
  then show "only_liveness s (note_accepted_frame t now s)"
    by (auto simp: note_accepted_frame_def Let_def liveness_keeps_ok split: option.split)
  show "only_liveness s (note_chunk_progress t x q s)"
    by (simp add: note_chunk_progress_def step liveness_keeps_ok)
  show "only_liveness s (begin_scoped_repair t now s)"
    by (auto simp: begin_scoped_repair_def Let_def step liveness_keeps_ok split: option.split)
  show "only_liveness s (retire_liveness r s)"
    by (simp add: retire_liveness_def step liveness_keeps_ok)
qed

lemmas hook_frame [simp] = watchdog_hooks [THEN only_livenessD(1)] watchdog_hooks [THEN only_livenessD(2)]
  watchdog_hooks [THEN only_livenessD(3)] watchdog_hooks [THEN only_livenessD(4)]
  watchdog_hooks [THEN only_livenessD(5)] watchdog_hooks [THEN only_livenessD(6)]
  watchdog_hooks [THEN only_livenessD(7)]

section \<open>The invariant\<close>

definition views_ok :: "(string \<times> client_view) list \<Rightarrow> bool" where
  "views_ok m \<longleftrightarrow> key_sorted m \<and> (\<forall>(k, v) \<in> set m. cv_view_id v = k)"

definition replica_ok :: "terminal_session \<Rightarrow> bool" where
  "replica_ok s \<longleftrightarrow> target_ok (ts_target s) \<and> assembler_ok (ts_assembler s) \<and> latch_ok (ts_latch s)
     \<and> deliveries_ok (ts_deliveries s) \<and> liveness_ok (ts_liveness s) \<and> views_ok (ts_views s)
     \<and> (ts_assembler s \<noteq> None \<longrightarrow> ft_chunk_in_flight (ts_target s))"

lemma only_liveness_ok: "only_liveness s s' \<Longrightarrow> replica_ok s \<Longrightarrow> replica_ok s'"
  by (simp add: replica_ok_def only_livenessD)

lemma target_flag_ok [simp]: "target_ok (t\<lparr>ft_chunk_in_flight := b\<rparr>) = target_ok t"
  by (simp add: target_ok_def fits_expectation_def)

lemma idle_ok [simp]: "assembler_ok None" "assembler_ok (reset a)" "reset a = None"
  by (simp_all add: assembler_ok_def reset_def)

lemma views_insert: "views_ok m \<Longrightarrow> cv_view_id v = k \<Longrightarrow> views_ok (btree_insert k v m)"
  using btree_insert_set [of k v m] by (auto simp: views_ok_def btree_insert_sorted)

lemma views_update: "views_ok m \<Longrightarrow> (\<And>v. cv_view_id (f v) = cv_view_id v) \<Longrightarrow> views_ok (btree_update k f m)"
  by (auto simp: views_ok_def btree_other_sorted) (auto simp: btree_update_def)

lemma views_remove: "views_ok m \<Longrightarrow> views_ok (btree_remove k m)"
  by (auto simp: views_ok_def btree_other_sorted) (auto simp: btree_remove_def)

lemma refuse_ok: "replica_ok s \<Longrightarrow> replica_ok (fst (refuse_frame r t now s))"
  by (auto simp: replica_ok_def refuse_frame_def Let_def latch_keeps_ok split: prod.splits dest: latch_keeps_ok [of _ r t now])

text \<open>The replica a decoded frame is folded against: counted, with the assembler's own answer read.\<close>

definition counted :: "cell_grid_frame \<Rightarrow> terminal_session \<Rightarrow> terminal_session" where
  "counted f s = set_chunk_in_flight (active_snapshot_id (ts_assembler s) \<noteq> None)
     (s\<lparr>ts_frame_counts := note_decoded f (ts_frame_counts s)\<rparr>)"

lemma counted_simps [simp]:
  "ts_assembler (counted f s) = ts_assembler s" "ts_latch (counted f s) = ts_latch s"
  "ts_deliveries (counted f s) = ts_deliveries s" "ts_liveness (counted f s) = ts_liveness s"
  "ts_views (counted f s) = ts_views s" "ts_generation (counted f s) = ts_generation s"
  "ts_session_id (counted f s) = ts_session_id s"
  "ts_target (counted f s) = (ts_target s)\<lparr>ft_chunk_in_flight := ts_assembler s \<noteq> None\<rparr>"
  by (simp_all add: counted_def active_snapshot_id_def)

definition baselined :: "fold_target \<Rightarrow> terminal_session \<Rightarrow> terminal_session" where
  "baselined t' s = (set_chunk_in_flight False (s\<lparr>ts_target := t', ts_latch := latch_new, ts_assembler := None\<rparr>))
     \<lparr>ts_deliveries := note_full (ts_deliveries s)\<rparr>"

definition extended :: "fold_target \<Rightarrow> cell_grid_frame \<Rightarrow> terminal_session \<Rightarrow> terminal_session" where
  "extended t' d s = s\<lparr>ts_target := t', ts_deliveries := note_delta d (ts_deliveries s)\<rparr>"

lemma admit_decoded_cases:
  assumes "fold_frame (ts_target (counted f s)) f = (t', r)"
  shows "admit_decoded f t now s =
    (case r of
       FoldInvalid reason \<Rightarrow> refuse_frame (Reason (fold_failure_as_str reason)) t now (counted f s)
     | FoldedFull \<Rightarrow> (note_accepted_frame t now (baselined t' (counted f s)), BaselineReplaced)
     | FoldedDelta d \<Rightarrow> (note_accepted_frame t now (extended t' d (counted f s)), DeltaApplied))"
proof (cases r)
  case (FoldInvalid reason)
  with assms have "t' = ts_target (counted f s)" using fold_refused_unchanged by blast
  then have "(counted f s)\<lparr>ts_target := t'\<rparr> = counted f s" by (simp del: counted_simps)
  with FoldInvalid assms show ?thesis
    unfolding admit_decoded_def Let_def counted_def [symmetric] by (simp add: counted_def)
qed (use assms in \<open>simp_all add: admit_decoded_def counted_def baselined_def extended_def Let_def latch_clear_def\<close>)

lemma admit_decoded_ok:
  assumes "replica_ok s"
  shows "replica_ok (fst (admit_decoded f t now s))"
proof -
  have s1: "replica_ok (counted f s)" using assms by (simp add: replica_ok_def)
  obtain t' r where e: "fold_frame (ts_target (counted f s)) f = (t', r)"
    by (cases "fold_frame (ts_target (counted f s)) f")
  have t': "target_ok t'"
    using fold_keeps_ok [of "ts_target (counted f s)" f] s1 unfolding e fst_conv replica_ok_def by blast
  show ?thesis
  proof (cases r)
    case FoldedFull
    have "replica_ok (baselined t' (counted f s))"
      using s1 t' by (simp add: replica_ok_def baselined_def note_full_keeps_ok)
    with FoldedFull show ?thesis by (simp add: admit_decoded_cases [OF e] only_liveness_ok [OF watchdog_hooks(2)])
  next
    case (FoldedDelta d)
    then have "ft_chunk_in_flight t' = ft_chunk_in_flight (ts_target (counted f s))"
      using e by (auto simp: fold_delta_accepted)
    then have "replica_ok (extended t' d (counted f s))"
      using s1 t' by (simp add: replica_ok_def extended_def note_delta_keeps_ok)
    with FoldedDelta show ?thesis by (simp add: admit_decoded_cases [OF e] only_liveness_ok [OF watchdog_hooks(2)])
  next
    case (FoldInvalid reason)
    then show ?thesis using s1 by (simp add: admit_decoded_cases [OF e] refuse_ok)
  qed
qed

lemma admit_frame_ok: "replica_ok s \<Longrightarrow> replica_ok (fst (admit_frame ws f whole t now s))"
proof -
  assume ok: "replica_ok s"
  then have "replica_ok (note_wire a b c s)" for a b c by (simp add: replica_ok_def)
  with ok show ?thesis
    by (auto simp: admit_frame_def Let_def refuse_ok admit_decoded_ok split: sum.split)
qed

lemma push_settles: "push ws a c now = (asm, r) \<Longrightarrow> (\<forall>i k. r \<noteq> Ok (Pending i k)) \<Longrightarrow> asm = None"
  by (auto simp: push_def push_checked_def res_bind_def reset_def split: sum.splits if_splits option.splits
      prod.splits cell_grid_chunk_assembly.splits)

lemma settle_chunk_ok:
  assumes "replica_ok s"
  shows "replica_ok (fst (settle_chunk ws c t now s))"
proof (cases "push ws (ts_assembler s) c now")
  case (Pair asm r)
  show ?thesis
  proof (cases "\<exists>i k. r = Ok (Pending i k)")
    case True
    then show ?thesis using assms push_keeps_ok [of "ts_assembler s" ws c now] Pair
      by (auto simp: settle_chunk_def replica_ok_def)
  next
    case False
    then have "asm = None" using push_settles [OF Pair] by blast
    then have "replica_ok (set_chunk_in_flight False (s\<lparr>ts_assembler := asm\<rparr>))"
      using assms by (simp add: replica_ok_def)
    with False Pair show ?thesis
      by (auto simp: settle_chunk_def Let_def refuse_ok admit_decoded_ok split: sum.split cell_grid_chunk_assembly.split)
  qed
qed

lemma admit_chunk_ok: "replica_ok s \<Longrightarrow> replica_ok (fst (admit_chunk ws c t now s))"
proof -
  assume ok: "replica_ok s"
  have "replica_ok (note_wire x y z (note_chunk_progress t p q s))" for x y z p q
    using only_liveness_ok [OF watchdog_hooks(3) ok] by (simp add: replica_ok_def)
  with ok show ?thesis
    by (auto simp: admit_chunk_def Let_def refuse_ok settle_chunk_ok split: option.split)
qed

lemma install_expected_ok: "replica_ok s \<Longrightarrow> replica_ok (fst (install_expected_stream x c r s))"
  by (auto simp: replica_ok_def install_expected_stream_def Let_def target_ok_def fits_expectation_def latch_clear_def
      split: option.splits)

lemma session_sweep_ok: "replica_ok s \<Longrightarrow> replica_ok (fst (session_sweep now s))"
proof -
  assume ok: "replica_ok s"
  then have "replica_ok (set_chunk_in_flight False (s\<lparr>ts_assembler := None\<rparr>))" by (simp add: replica_ok_def)
  then show ?thesis using ok refuse_ok [of "set_chunk_in_flight False (s\<lparr>ts_assembler := None\<rparr>)"]
    by (auto simp: session_sweep_def expire_def Let_def split: option.splits prod.splits if_splits)
      (auto simp: replica_ok_def)
qed

lemma view_calls_ok:
  assumes "replica_ok s"
  shows "replica_ok (open_view v c r now s)" "replica_ok (open_prospective_view v w i n now s)"
    "replica_ok (fst (resize_view v c r s))" "replica_ok (hide_view v s)" "replica_ok (fst (close_view v s))"
    "replica_ok (mark_view_published v n now s)" "replica_ok (fst (apply_view_state a now s))"
proof -
  have new: "cv_view_id (view_opened v c r now) = v" "cv_view_id (published_as v w i n now) = v"
    by (simp_all add: view_opened_def published_as_def Let_def case_prod_beta)
  show "replica_ok (open_view v c r now s)" "replica_ok (open_prospective_view v w i n now s)"
    using assms by (auto simp: open_view_def open_prospective_view_def Let_def new replica_ok_def
      intro!: views_insert split: option.split)
  show "replica_ok (fst (resize_view v c r s))" "replica_ok (hide_view v s)" "replica_ok (mark_view_published v n now s)"
    using assms by (auto simp: resize_view_def hide_view_def mark_view_published_def replica_ok_def view_resize_def
      view_park_def mark_published_def intro!: views_update split: option.split)
  show "replica_ok (fst (close_view v s))"
    using assms by (simp add: close_view_def replica_ok_def views_remove)
  show "replica_ok (fst (apply_view_state a now s))"
  proof (cases "view_of (vr_view_id a) s")
    case (Some view)
    then have "(vr_view_id a, view) \<in> set (ts_views s)" by (simp add: view_of_def map_of_SomeD)
    then have id: "cv_view_id view = vr_view_id a" using assms by (auto simp: replica_ok_def views_ok_def)
    have "views_ok (btree_update (vr_view_id a) (\<lambda>_. view') (ts_views s))" if "cv_view_id view' = vr_view_id a" for view'
      using assms that by (auto simp: replica_ok_def views_ok_def btree_other_sorted) (auto simp: btree_update_def)
    then show ?thesis using assms Some id
      by (auto simp: apply_view_state_def Let_def acknowledge_def replica_ok_def)
  qed (use assms in \<open>simp add: apply_view_state_def\<close>)
qed

lemma bookkeeping_ok:
  assumes "replica_ok s"
  shows "replica_ok (fst (bind_generation t s))" "replica_ok (fst (release_generation s))"
    "replica_ok (mark_repair_sent t now s)" "replica_ok (begin_promotion r s)"
  using assms by (simp_all add: replica_ok_def bind_generation_def release_generation_def mark_repair_sent_def
      begin_promotion_def note_full_keeps_ok)

interpretation replica: invariant_machine replica_ok "\<lambda>_. True" "exec_session ws"
proof
  fix s op
  assume ok: "replica_ok s"
  show "replica_ok (exec_session ws op s)"
    by (cases op) (use ok in \<open>auto simp: bookkeeping_ok install_expected_ok admit_frame_ok admit_chunk_ok
      session_sweep_ok view_calls_ok intro: only_liveness_ok watchdog_hooks\<close>)
qed

lemma session_new_ok: "replica_ok (session_new sid fp)"
  by (simp add: replica_ok_def session_new_def target_ok_def target_new_def assembler_new_def deliveries_ok_def
      deliveries_new_def appended_in_def spans_in_def liveness_keeps_ok views_ok_def)

lemma replica_run_ok: "replica_ok (fold (exec_session ws) ops (session_new sid fp))"
  by (rule replica.run_invar) (simp_all add: session_new_ok list_all_iff)

section \<open>What a call does to the painted frame\<close>

definition same_paint :: "terminal_session \<Rightarrow> terminal_session \<Rightarrow> bool" where
  "same_paint s s' \<longleftrightarrow> ts_canonical s' = ts_canonical s \<and> ts_deliveries s' = ts_deliveries s"

lemma same_paintI: "ts_target s' = ts_target s \<Longrightarrow> ts_deliveries s' = ts_deliveries s \<Longrightarrow> same_paint s s'"
  by (simp add: same_paint_def)

lemma same_paint_trans: "same_paint s s' \<Longrightarrow> same_paint s' s'' \<Longrightarrow> same_paint s s''"
  by (simp add: same_paint_def)

lemma refuse_same: "same_paint s (fst (refuse_frame r t now s))"
  by (simp add: same_paint_def refuse_frame_def Let_def split: prod.split)

text \<open>
  The four ways a call may move what renderers see: not at all, by a new baseline, by a new route's
  boundary, or by one delta folded onto the installed frame.
\<close>

definition paint_step :: "terminal_session \<Rightarrow> terminal_session \<Rightarrow> bool" where
  "paint_step s s' \<longleftrightarrow> same_paint s s'
     \<or> ts_deliveries s' = note_full (ts_deliveries s)
     \<or> (\<exists>p. ts_deliveries s' = begin_promotion_after p (ts_deliveries s))
     \<or> (\<exists>c d. ts_canonical s = Some c \<and> ts_canonical s' = Some (paint_delta c d)
          \<and> ts_deliveries s' = note_delta d (ts_deliveries s))"

lemma paint_same: "same_paint s s' \<Longrightarrow> paint_step s s'"
  by (simp add: paint_step_def)

lemma paint_step_from: "same_paint s s' \<Longrightarrow> paint_step s' s'' \<Longrightarrow> paint_step s s''"
  by (auto simp: paint_step_def same_paint_def)

lemma paint_delta_follows:
  "delta_follows t base d \<Longrightarrow> \<not> fr_full d \<Longrightarrow> paint_delta base d = normalize_cell_grid_frame (successor base d)"
  by (simp add: paint_delta_def apply_delta_exact delta_follows_def)

lemma admit_decoded_paints: "paint_step s (fst (admit_decoded f t now s))"
proof -
  obtain t' r where e: "fold_frame (ts_target (counted f s)) f = (t', r)"
    by (cases "fold_frame (ts_target (counted f s)) f")
  have c: "same_paint s (counted f s)" by (simp add: same_paint_def)
  show ?thesis
  proof (cases r)
    case FoldedFull
    then show ?thesis by (simp add: admit_decoded_cases [OF e] paint_step_def baselined_def)
  next
    case (FoldedDelta d)
    then obtain base where b: "ts_canonical s = Some base" "delta_follows (ts_target (counted f s)) base f"
      "\<not> fr_full f" "d = f" "t' = (ts_target (counted f s))\<lparr>ft_canonical := Some (normalize_cell_grid_frame (successor base f))\<rparr>"
      using e unfolding FoldedDelta fold_delta_accepted by auto
    then have "ts_canonical (fst (admit_decoded f t now s)) = Some (paint_delta base f)"
      "ts_deliveries (fst (admit_decoded f t now s)) = note_delta f (ts_deliveries s)"
      using FoldedDelta by (simp_all add: admit_decoded_cases [OF e] extended_def paint_delta_follows [OF b(2,3)])
    with b(1) show ?thesis unfolding paint_step_def by blast
  next
    case (FoldInvalid reason)
    then show ?thesis
      using same_paint_trans [OF c refuse_same] by (simp add: admit_decoded_cases [OF e] paint_same)
  qed
qed

lemma admitted_from:
  "same_paint s s' \<Longrightarrow> paint_step s (fst (admit_decoded f t now s'))"
  "same_paint s s' \<Longrightarrow> paint_step s (fst (refuse_frame r t now s'))"
  by (blast intro: paint_step_from admit_decoded_paints paint_same refuse_same)+

lemma unpainted [simp]:
  "same_paint s s" "same_paint s (note_wire a b c s)" "same_paint s (note_wire a b c (note_chunk_progress t p q s))"
  "same_paint s (set_chunk_in_flight x (s\<lparr>ts_assembler := y\<rparr>))"
  by (simp_all add: same_paint_def)

lemma exec_paints: "paint_step s (exec_session ws op s)"
proof (cases op)
  case (AdmitFrame f whole t now)
  then show ?thesis
    by (auto simp: admit_frame_def Let_def admitted_from paint_same split: sum.split)
next
  case (AdmitChunk c t now)
  have settle: "paint_step s' (fst (settle_chunk ws c t now s'))" for s'
    by (auto simp: settle_chunk_def Let_def admitted_from paint_same
        split: prod.split sum.split cell_grid_chunk_assembly.split)
  have "paint_step s (fst (settle_chunk ws c t now (note_wire x y z (note_chunk_progress t p q s))))" for x y z p q
    by (rule paint_step_from [OF _ settle]) simp
  then show ?thesis using AdmitChunk
    by (auto simp: admit_chunk_def Let_def admitted_from paint_same split: option.split)
next
  case (SweepStall now)
  have "same_paint s ((set_chunk_in_flight x (s\<lparr>ts_assembler := y\<rparr>))\<lparr>ts_assembler := z\<rparr>)" for x y z
    by (simp add: same_paint_def)
  then show ?thesis using SweepStall
    by (auto simp: session_sweep_def Let_def admitted_from paint_same split: prod.split option.split bool.split)
next
  case (Expect x c r)
  then show ?thesis
    by (auto simp: install_expected_stream_def Let_def same_paint_def intro!: paint_same)
next
  case (Promote r)
  then show ?thesis by (auto simp: paint_step_def begin_promotion_def)
qed (auto intro!: paint_same same_paintI simp: bind_generation_def release_generation_def mark_repair_sent_def open_view_def
    open_prospective_view_def resize_view_def hide_view_def close_view_def mark_view_published_def apply_view_state_def
    Let_def split: option.split prod.split)

interpretation painter: invariant_machine
  "\<lambda>s. replica_ok s \<and> catches_up r f (ts_deliveries s) (ts_canonical s)" "\<lambda>_. True" "exec_session ws"
proof
  fix s op
  assume s: "replica_ok s \<and> catches_up r f (ts_deliveries s) (ts_canonical s)"
  then have ok: "replica_ok (exec_session ws op s)" by (simp add: replica.exec_invar)
  have d: "deliveries_ok (ts_deliveries s)" using s by (simp add: replica_ok_def)
  have "catches_up r f (ts_deliveries (exec_session ws op s)) (ts_canonical (exec_session ws op s))"
    using exec_paints [of s ws op] s catches_up_delta [OF d] catches_up_cut
    unfolding paint_step_def same_paint_def by metis
  with ok show "replica_ok (exec_session ws op s)
      \<and> catches_up r f (ts_deliveries (exec_session ws op s)) (ts_canonical (exec_session ws op s))" ..
qed

end
