(* ===== verification/Client_Baseline.thy ===== *)
theory Client_Baseline
  imports Client_Replica
begin

text \<open>
  The replica's promises to those who use it: what a painter and a caller may conclude from any run,
  what one admission does on every branch, and the whole path of a chunked baseline from the sender's
  frame to the frame the client paints.
\<close>

section \<open>A chunked baseline, part by part\<close>

fun admit_chunks ::
  "wire_sizes \<Rightarrow> terminal_token \<Rightarrow> terminal_session \<Rightarrow> (pb_cell_grid_chunk \<times> nat) list \<Rightarrow> terminal_session \<times> admission list" where
  "admit_chunks ws token s [] = (s, [])"
| "admit_chunks ws token s ((c, now_ms) # rest) =
     (case admit_chunk ws c token now_ms s of (s', a) \<Rightarrow>
        (case admit_chunks ws token s' rest of (s'', as) \<Rightarrow> (s'', a # as)))"

text \<open>Two replicas that differ in bookkeeping of the transfer in flight only.\<close>

definition same_fence :: "terminal_session \<Rightarrow> terminal_session \<Rightarrow> bool" where
  "same_fence s s' \<longleftrightarrow> ts_session_id s' = ts_session_id s \<and> ts_generation s' = ts_generation s
     \<and> ts_deliveries s' = ts_deliveries s \<and> ts_latch s' = ts_latch s
     \<and> (ts_target s')\<lparr>ft_chunk_in_flight := True\<rparr> = (ts_target s)\<lparr>ft_chunk_in_flight := True\<rparr>"

lemma same_fence_trans: "same_fence s s' \<Longrightarrow> same_fence s' s'' \<Longrightarrow> same_fence s s''"
  by (simp add: same_fence_def)

lemma same_fence_target:
  assumes "same_fence s s'"
  shows "ts_expected s' = ts_expected s" "ts_canonical s' = ts_canonical s"
    "ft_effective_cols (ts_target s') = ft_effective_cols (ts_target s)"
    "ft_effective_rows (ts_target s') = ft_effective_rows (ts_target s)"
  using assms by (cases "ts_target s"; cases "ts_target s'"; simp add: same_fence_def)+

definition part_for_session :: "terminal_session \<Rightarrow> pb_cell_grid_chunk \<Rightarrow> bool" where
  "part_for_session s c \<longleftrightarrow> (\<exists>p. pbc_part c = Some p \<and> pb_session_id p = ts_session_id s \<and> ts_expected s = Some (pb_stream_id p))"

lemma part_for_session_fence: "same_fence s s' \<Longrightarrow> part_for_session s' c = part_for_session s c"
  using same_fence_target(1) [of s s'] by (simp add: part_for_session_def same_fence_def)

lemma admit_chunk_settles:
  assumes "ts_generation s = Some t" "part_for_session s c"
  shows "\<exists>s1. same_fence s s1 \<and> ts_assembler s1 = ts_assembler s \<and> admit_chunk ws c t now s = settle_chunk ws c t now s1"
proof -
  obtain p where p: "pbc_part c = Some p" "pb_session_id p = ts_session_id s" "ts_expected s = Some (pb_stream_id p)"
    using assms(2) by (auto simp: part_for_session_def)
  let ?s1 = "note_wire (pb_stream_id p) (pb_grid_epoch p) (pb_seq p) (note_chunk_progress t (pb_stream_id p) (pb_seq p) s)"
  have "admit_chunk ws c t now s = settle_chunk ws c t now ?s1"
    using assms(1) p by (simp add: admit_chunk_def decode_chunk_part_def Let_def)
  moreover have "same_fence s ?s1" "ts_assembler ?s1 = ts_assembler s" by (simp_all add: same_fence_def)
  ultimately show ?thesis by blast
qed

lemma admit_chunks_complete:
  assumes "feed ws (ts_assembler s) cs = (None, map (\<lambda>i. Ok (Pending x (k + i))) [0..<n] @ [Ok (Complete x f)])"
    "length cs = Suc n" "ts_generation s = Some t" "\<forall>c \<in> set cs. part_for_session s (fst c)"
    "decode_assembled_frame f = Ok g"
  shows "\<exists>s'. same_fence s s' \<and> ts_assembler s' = None \<and> \<not> ft_chunk_in_flight (ts_target s')
    \<and> admit_chunks ws t s cs = (fst (admit_decoded g t (snd (last cs)) s'),
        replicate n ChunkPending @ [snd (admit_decoded g t (snd (last cs)) s')])"
  using assms
proof (induction n arbitrary: s cs k)
  case 0
  then obtain c now where cs: "cs = [(c, now)]" by (cases cs) auto
  obtain s1 where s1: "same_fence s s1" "ts_assembler s1 = ts_assembler s"
    "admit_chunk ws c t now s = settle_chunk ws c t now s1"
    using admit_chunk_settles [of s t c ws now] 0 cs by auto
  have "push ws (ts_assembler s1) c now = (None, Ok (Complete x f))"
    using 0 cs s1 by (auto split: prod.splits)
  then have "admit_chunk ws c t now s = admit_decoded g t now (set_chunk_in_flight False (s1\<lparr>ts_assembler := None\<rparr>))"
    using 0 s1 by (simp add: settle_chunk_def)
  moreover have "same_fence s (set_chunk_in_flight False (s1\<lparr>ts_assembler := None\<rparr>))"
    using s1 by (simp add: same_fence_def)
  ultimately show ?case using cs
    by (intro exI [of _ "set_chunk_in_flight False (s1\<lparr>ts_assembler := None\<rparr>)"]) (simp split: prod.split)
next
  case (Suc n)
  then obtain c now rest where "cs = (c, now) # rest" by (cases cs) auto
  moreover have "rest \<noteq> []" using Suc.prems(2) calculation by (cases rest) simp_all
  ultimately have cs: "cs = (c, now) # rest" "rest \<noteq> []" by auto
  obtain s1 where s1: "same_fence s s1" "ts_assembler s1 = ts_assembler s"
    "admit_chunk ws c t now s = settle_chunk ws c t now s1"
    using admit_chunk_settles [of s t c ws now] Suc.prems cs by auto
  obtain asm r where push: "push ws (ts_assembler s) c now = (asm, r)" by (cases "push ws (ts_assembler s) c now")
  have split: "map (\<lambda>i. Ok (Pending x (k + i))) [0..<Suc n] = Ok (Pending x k) # map (\<lambda>i. Ok (Pending x (Suc k + i))) [0..<n]"
    by (simp add: upt_conv_Cons map_Suc_upt [symmetric] del: upt_Suc)
  have r: "r = Ok (Pending x k)"
    and rest: "feed ws asm rest = (None, map (\<lambda>i. Ok (Pending x (Suc k + i))) [0..<n] @ [Ok (Complete x f)])"
    using Suc.prems(1) push unfolding split cs by (auto split: prod.splits)
  let ?s2 = "set_chunk_in_flight True (s1\<lparr>ts_assembler := asm\<rparr>)"
  have step: "admit_chunk ws c t now s = (?s2, ChunkPending)"
    using s1 push r by (simp add: settle_chunk_def)
  have fence: "same_fence s ?s2" using s1 by (simp add: same_fence_def)
  have "\<exists>s'. same_fence ?s2 s' \<and> ts_assembler s' = None \<and> \<not> ft_chunk_in_flight (ts_target s')
    \<and> admit_chunks ws t ?s2 rest = (fst (admit_decoded g t (snd (last rest)) s'),
        replicate n ChunkPending @ [snd (admit_decoded g t (snd (last rest)) s')])"
    by (rule Suc.IH [of _ _ "Suc k"]) (use Suc.prems cs rest fence in \<open>auto simp: same_fence_def [of s] part_for_session_fence [OF fence]\<close>)
  then obtain s' where "same_fence ?s2 s'" "ts_assembler s' = None" "\<not> ft_chunk_in_flight (ts_target s')"
    "admit_chunks ws t ?s2 rest = (fst (admit_decoded g t (snd (last rest)) s'),
        replicate n ChunkPending @ [snd (admit_decoded g t (snd (last rest)) s')])" by blast
  then show ?case using cs step same_fence_trans [OF fence]
    by (intro exI [of _ s']) simp
qed

section \<open>A baseline crosses the wire whole\<close>

lemma message_valid_full:
  assumes "cell_frame_to_proto g session = Ok f" "fr_full g" "numbered g" "fits_expectation t g"
  shows "valid_full t g"
proof -
  have f: "f = frame_message g session" "frame_structured f" "assert_frame_sequence f = Ok ()"
    using assms(1) by (auto simp: cell_frame_to_proto_def res_simps assert_frame_sequence_def frame_message_def structure_exact [symmetric])
  then have "map row_index (fr_scrollback_rows g) = [fr_sb_base g..<fr_scrollback_total g]"
    "fr_sb_base g \<le> fr_scrollback_total g" "fr_scrollback_append g = []" "fr_base_seq g = 0"
    using assms(2) by (auto simp: frame_structured_def frame_message_def comp_def cell_row_to_proto_def
        assert_frame_sequence_def assert_frame_identity_def split: if_splits)
  with assms show ?thesis by (simp add: valid_full_iff)
qed

lemma numbered_sorted:
  assumes "numbered g"
  shows "(frame_message g session)\<lparr>pb_viewport_rows := sort_key pbr_index (pb_viewport_rows (frame_message g session))\<rparr>
    = frame_message g session"
proof -
  have "sorted (map pbr_index (map cell_row_to_proto (fr_viewport_rows g)))"
    using assms by (auto simp: numbered_def sorted_iff_nth_mono cell_row_to_proto_def)
  then have "sort_key pbr_index (map cell_row_to_proto (fr_viewport_rows g)) = map cell_row_to_proto (fr_viewport_rows g)"
    by (rule sort_key_id_if_sorted)
  then show ?thesis by (simp add: frame_message_def)
qed

lemma admit_full:
  assumes "valid_full (ts_target s) g" "full_follows_canonical (ts_canonical s) g"
  shows "snd (admit_decoded g t now s) = BaselineReplaced
    \<and> ts_target (fst (admit_decoded g t now s)) = (ts_target s)\<lparr>ft_canonical := Some (normalize_cell_grid_frame g),
        ft_baseline_ready := True, ft_chunk_in_flight := False\<rparr>
    \<and> ts_latch (fst (admit_decoded g t now s)) = latch_new \<and> ts_assembler (fst (admit_decoded g t now s)) = None
    \<and> ts_deliveries (fst (admit_decoded g t now s)) = note_full (ts_deliveries s)
    \<and> ts_generation (fst (admit_decoded g t now s)) = ts_generation s
    \<and> ts_session_id (fst (admit_decoded g t now s)) = ts_session_id s \<and> ts_views (fst (admit_decoded g t now s)) = ts_views s"
proof -
  have "valid_full (ts_target (counted g s)) g" using assms(1) by (simp add: valid_full_iff fits_expectation_def)
  then have "fold_frame (ts_target (counted g s)) g = ((ts_target (counted g s))\<lparr>ft_canonical :=
      Some (normalize_cell_grid_frame g), ft_baseline_ready := True\<rparr>, FoldedFull)"
    using assms(2) by (simp add: fold_full_accepted)
  from admit_decoded_cases [OF this] show ?thesis
    by (simp add: baselined_def)
qed

lemma note_full_revision [simp]: "rd_revision (note_full d) = rd_revision d + 1"
  by (simp add: note_full_def deliveries_clear_def)

text \<open>
  C5: A chunked baseline reaches the painter whole. Take any full frame the sender holds, its rows in
  order, that its encoder and the snapshot planner accept; the planned parts, admitted one by one by a
  replica that is bound to the carrier, expects that stream and geometry and has no transfer in flight,
  are each answered as pending but the last, which replaces the baseline: the replica then holds
  exactly the sender's frame in canonical form, the outstanding gap is cleared and nothing is left in
  the assembler. Encoded lengths follow the protobuf rules and no part comes after the stall limit.
\<close>

theorem baseline_reaches_painter:
  assumes "frame_ready g" "numbered g" "fr_full g" "cell_frame_to_proto g session = Ok f"
    "wire_size_laws ws f" "rows_u32 f" "create_cell_grid_snapshot_source ws f True = Ok src"
    "is_terminal_uuid snapshot" "timely ts" "length ts = part_count src"
    "ts_session_id s = session" "ts_generation s = Some token" "ts_assembler s = None"
    "fits_expectation (ts_target s) g" "full_follows_canonical (ts_canonical s) g"
  shows "\<exists>chunks s'. chunk_cell_grid_frame ws f snapshot = Ok chunks
    \<and> admit_chunks ws token s (zip chunks ts)
        = (s', replicate (part_count src - 1) ChunkPending @ [BaselineReplaced])
    \<and> ts_canonical s' = Some (normalize_cell_grid_frame g) \<and> ts_baseline_ready s'
    \<and> ts_latch s' = latch_new \<and> ts_assembler s' = None
    \<and> ts_frame_revision s' = ts_frame_revision s + 1"
proof -
  have f: "f = frame_message g session" "assert_frame_structure f = Ok ()" "assert_frame_sequence f = Ok ()"
    using assms(4) by (auto simp: cell_frame_to_proto_def res_simps assert_frame_sequence_def frame_message_def)
  obtain chunks where c: "chunk_cell_grid_frame ws f snapshot = Ok chunks" "length chunks = part_count src"
    and fed: "feed ws assembler_new (zip chunks ts) = (None, map (\<lambda>i. Ok (Pending snapshot (Suc i))) [0..<part_count src - 1]
         @ [Ok (Complete snapshot (f\<lparr>pb_viewport_rows := sort_key pbr_index (pb_viewport_rows f)\<rparr>))])"
    and parts: "\<forall>c \<in> set chunks. \<exists>v h. pbc_part c = Some (create_cell_grid_frame_part f v h)"
    using transfer_assembles [OF assms(5-10)] by blast
  have part: "\<forall>c \<in> set (zip chunks ts). part_for_session s (fst c)"
  proof
    fix c
    assume "c \<in> set (zip chunks ts)"
    then have "fst c \<in> set chunks" by (metis prod.collapse set_zip_leftD)
    with parts assms(11,14) show "part_for_session s (fst c)"
      by (force simp: part_for_session_def create_cell_grid_frame_part_def f(1) frame_message_def fits_expectation_def)
  qed
  have decode: "decode_assembled_frame f = Ok g"
    using frame_message_decodes [OF assms(1), of session] f by (simp add: decode_assembled_frame_def map_err_def)
  have pos: "0 < part_count src"
  proof (rule ccontr)
    assume "\<not> 0 < part_count src"
    then have "chunks = []" using c(2) by simp
    with fed show False by simp
  qed
  have "feed ws (ts_assembler s) (zip chunks ts)
      = (None, map (\<lambda>i. Ok (Pending snapshot (1 + i))) [0..<part_count src - 1] @ [Ok (Complete snapshot f)])"
    using fed numbered_sorted [OF assms(2), of session] by (simp add: assms(13) assembler_new_def f(1))
  then obtain s1 where s1: "same_fence s s1" "ts_assembler s1 = None" "\<not> ft_chunk_in_flight (ts_target s1)"
    and run: "admit_chunks ws token s (zip chunks ts) = (fst (admit_decoded g token (snd (last (zip chunks ts))) s1),
        replicate (part_count src - 1) ChunkPending @ [snd (admit_decoded g token (snd (last (zip chunks ts))) s1)])"
    using admit_chunks_complete [of ws s "zip chunks ts" snapshot 1 "part_count src - 1" f token g] decode assms(10,12) c(2) pos part
    by auto
  have "fits_expectation (ts_target s1) g"
    using assms(14) same_fence_target [OF s1(1)] by (simp add: fits_expectation_def)
  then have "valid_full (ts_target s1) g" by (rule message_valid_full [OF assms(4,3,2)])
  moreover have "full_follows_canonical (ts_canonical s1) g" using assms(15) same_fence_target [OF s1(1)] by simp
  ultimately show ?thesis
    using run c(1) admit_full [of s1 g token "snd (last (zip chunks ts))"] s1(1)
    by (intro exI [of _ chunks] exI [of _ "fst (admit_decoded g token (snd (last (zip chunks ts))) s1)"])
      (simp add: same_fence_def)
qed

definition sample_token :: terminal_token where
  "sample_token = token_sync 1 ''socket'' ''epoch'' 7"

definition sample_stream :: string where
  "sample_stream = ''00000000-0000-4000-8000-000000000001''"

text \<open>A replica that is bound, expects a stream of the given height and shows one pane.\<close>

definition sample_replica :: "nat \<Rightarrow> terminal_session" where
  "sample_replica n = open_view ''v'' 80 n 0
     (fst (install_expected_stream sample_stream 80 n (fst (bind_generation sample_token (session_new ''s'' ''w'')))))"

lemma sample_replica_state:
  "ts_session_id (sample_replica n) = ''s''" "ts_generation (sample_replica n) = Some sample_token"
  "ts_assembler (sample_replica n) = None" "ts_latch (sample_replica n) = latch_new"
  "ts_liveness (sample_replica n) = liveness_new" "ts_deliveries (sample_replica n) = deliveries_new"
  "ts_views (sample_replica n) = [(''v'', view_opened ''v'' 80 n 0)]"
  "ts_target (sample_replica n) = target_new\<lparr>ft_expected_stream_id := Some sample_stream, ft_effective_cols := 80, ft_effective_rows := n\<rparr>"
  by (simp_all add: sample_replica_def bind_generation_def install_expected_stream_def session_new_def target_new_def
      latch_clear_def assembler_new_def open_view_def view_of_def view_opened_def published_as_def Let_def)

theorem baseline_reaches_painter_witness:
  "\<exists>chunks s'. chunk_cell_grid_frame sample_sizes sample_frame ''00000000-0000-4000-8000-000000000007'' = Ok chunks
    \<and> admit_chunks sample_sizes sample_token (sample_replica 2) (zip chunks [5, 10000]) = (s', [ChunkPending, BaselineReplaced])
    \<and> ts_canonical s' = Some (normalize_cell_grid_frame (blank_frame 2))"
proof -
  have l: "wire_size_laws sample_sizes sample_frame" by (rule sample_sizes_lawful) (simp add: sample_rows)
  have u: "rows_u32 sample_frame" by (simp add: rows_u32_def sample_rows u32_max_def)
  have t: "timely [5, 10000]" by (simp add: timely_def chunk_limits nth_Cons')
  have id: "is_terminal_uuid ''00000000-0000-4000-8000-000000000007''"
    by (simp add: is_terminal_uuid_def UUID_LEN_def is_uuid_version_def is_uuid_variant_def
        is_ascii_hexdigit_def is_ascii_digit_def is_lower_hex_alpha_def enumerate_eq_zip upt_rec)
  have m: "cell_frame_to_proto (blank_frame 2) ''s'' = Ok sample_frame"
  proof -
    have "assert_frame_sequence sample_frame = Ok ()" "assert_frame_structure sample_frame = Ok ()"
      using sample_frame_valid by (simp_all add: snapshot_valid_def structure_exact)
    moreover have "assert_frame_sequence (frame_message g x) = assert_frame_identity (fr_stream_id g) (fr_grid_epoch g)
        (fr_full g) (fr_base_seq g) (fr_seq g)" for g x
      by (simp add: assert_frame_sequence_def frame_message_def)
    ultimately show ?thesis by (simp add: cell_frame_to_proto_def sample_frame_def)
  qed
  have x: "fits_expectation (ts_target (sample_replica 2)) (blank_frame 2)" "ts_canonical (sample_replica 2) = None"
    by (simp_all add: sample_replica_state fits_expectation_def blank_frame_def sample_stream_def target_new_def)
  have full: "fr_full (blank_frame 2)" by (simp add: blank_frame_def)
  have n: "part_count \<lparr>src_frame = sample_frame,
    src_parts = Some [\<lparr>pp_entries = [\<lparr>se_history = False, se_index = 0\<rparr>], pp_encoded_part_bytes = 600044\<rparr>,
      \<lparr>pp_entries = [\<lparr>se_history = False, se_index = 1\<rparr>], pp_encoded_part_bytes = 600044\<rparr>]\<rparr> = 2"
    by (simp add: part_count_def u32_max_def)
  from baseline_reaches_painter [OF blank_frame_ready blank_frame_numbered full m l u sample_source id t _
      sample_replica_state(1) sample_replica_state(2) sample_replica_state(3) x(1)]
  show ?thesis unfolding n by (auto simp: full_follows_canonical_def x(2))
qed

section \<open>What holds of every replica\<close>

text \<open>
  A replica that says its baseline is ready holds one: after any sequence of calls, frames valid or
  not, in any order, from any carrier, a ready replica has an installed frame for exactly the stream and
  the pane geometry it is fenced to, full, with every viewport row present and standing at its own
  index, and with no retained history rows that a scrollback index could alias.
\<close>

theorem replica_baseline_complete:
  assumes "s = fold (exec_session ws) ops (session_new sid fp)" "ts_baseline_ready s"
  shows "\<exists>f. ts_canonical s = Some f \<and> fr_full f \<and> ts_expected s = Some (fr_stream_id f)
    \<and> fr_cols f = ft_effective_cols (ts_target s) \<and> fr_rows f = ft_effective_rows (ts_target s)
    \<and> map row_index (fr_viewport_rows f) = [0..<fr_rows f]
    \<and> fr_scrollback_rows f = [] \<and> fr_sb_base f = fr_scrollback_total f"
proof -
  have "target_ok (ts_target s)" using replica_run_ok [of ws ops sid fp] assms(1) by (simp add: replica_ok_def)
  then obtain f where "ts_canonical s = Some f" "checkpointed f" "fits_expectation (ts_target s) f"
    using assms(2) by (auto simp: target_ok_def)
  moreover have "map row_index (fr_viewport_rows f) = [0..<fr_rows f]"
    using \<open>checkpointed f\<close> by (auto simp: checkpointed_def numbered_def intro: nth_equalityI)
  ultimately show ?thesis by (auto simp: checkpointed_def fits_expectation_def)
qed

text \<open>
  C6: Painting from the delivery log is exact. Whatever a replica has been through, take the frame a
  renderer painted and the revision it painted at; whatever happens next, when the log still answers
  for that revision, folding the deltas it returns onto the painted frame, one by one, gives exactly the
  frame the replica now holds, and the answer is one bounded batch. When it no longer answers, the
  renderer is told to take the installed frame instead.
\<close>

theorem renderers_catch_up:
  assumes "s = fold (exec_session ws) ops (session_new sid fp)" "ts_canonical s = Some painted"
    "s' = fold (exec_session ws) ops' s" "deltas_since (ts_deliveries s') (ts_frame_revision s) = Some ds"
  shows "ts_canonical s' = Some (foldl paint_delta painted ds)
    \<and> length ds \<le> MAX_PENDING_DELTA_FRAMES \<and> appended_in ds \<le> MAX_PENDING_SCROLLBACK_ROWS
    \<and> spans_in ds \<le> MAX_PENDING_DELTA_SPANS"
proof -
  have ok: "replica_ok s" using replica_run_ok [of ws ops sid fp] assms(1) by simp
  then have "catches_up (ts_frame_revision s) painted (ts_deliveries s) (ts_canonical s)"
    using assms(2) catches_up_now by (simp add: replica_ok_def)
  with ok have "replica_ok s' \<and> catches_up (ts_frame_revision s) painted (ts_deliveries s') (ts_canonical s')"
    using painter.run_invar [where r = "ts_frame_revision s" and f = painted and s = s and ps = ops' and ws = ws] assms(3) by (simp add: list_all_iff)
  then have c: "ts_canonical s' = Some (foldl paint_delta painted ds)" and fit: "batch_fits (rd_deltas (ts_deliveries s'))"
    using assms(4) by (simp_all add: catches_up_def replica_ok_def deliveries_ok_def)
  obtain n where ds: "ds = drop n (rd_deltas (ts_deliveries s'))"
    using assms(4) by (auto simp: deltas_since_def Let_def split: if_splits)
  have "sum_list (map h (drop n xs)) \<le> sum_list (map h xs)" for h :: "cell_grid_frame \<Rightarrow> nat" and xs
  proof -
    have "sum_list (map h xs) = sum_list (map h (take n xs @ drop n xs))" by simp
    also have "\<dots> = sum_list (map h (take n xs)) + sum_list (map h (drop n xs))" unfolding map_append sum_list_append ..
    finally show ?thesis by simp
  qed
  then show ?thesis using c fit unfolding ds batch_fits_def appended_in_def spans_in_def
    by (auto intro: order_trans)
qed

section \<open>One admission\<close>

text \<open>
  A frame is admitted whole or not at all. A refusal leaves the installed frame, its readiness and
  everything handed to renderers exactly as they were; a baseline is installed only when it is a
  complete full for the stream and geometry expected that does not move the stream backwards, and it
  alone clears an outstanding gap; a delta is applied only when it continues the installed frame by
  one, and leaves the gap outstanding. Nothing else can come of admitting a frame.
\<close>

definition untouched :: "terminal_session \<Rightarrow> terminal_session \<Rightarrow> bool" where
  "untouched s s' \<longleftrightarrow> ts_canonical s' = ts_canonical s \<and> ts_baseline_ready s' = ts_baseline_ready s
     \<and> ts_deliveries s' = ts_deliveries s \<and> ts_liveness s' = ts_liveness s"

lemma refuse_untouched: "untouched s (fst (refuse_frame r t now s))" "snd (refuse_frame r t now s) = Refused r (\<not> rl_latched (ts_latch s))"
  by (auto simp: untouched_def refuse_frame_def latch_def Let_def)

lemma admit_decoded_outcome:
  "case admit_decoded f t now s of
     (s', Refused r l) \<Rightarrow> untouched s s'
   | (s', BaselineReplaced) \<Rightarrow> valid_full (ts_target s) f \<and> full_follows_canonical (ts_canonical s) f
       \<and> ts_canonical s' = Some (normalize_cell_grid_frame f) \<and> ts_baseline_ready s'
       \<and> ts_latch s' = latch_new \<and> ts_frame_revision s' = ts_frame_revision s + 1
   | (s', DeltaApplied) \<Rightarrow> \<not> fr_full f \<and> ts_baseline_ready s \<and> ts_assembler s = None
       \<and> (\<exists>base. ts_canonical s = Some base \<and> delta_fits base f \<and> fr_seq f = fr_seq base + 1
            \<and> ts_canonical s' = Some (normalize_cell_grid_frame (successor base f)))
       \<and> ts_latch s' = ts_latch s \<and> ts_frame_revision s' = ts_frame_revision s + 1
   | (s', ChunkPending) \<Rightarrow> False"
proof -
  obtain t' r where e: "fold_frame (ts_target (counted f s)) f = (t', r)"
    by (cases "fold_frame (ts_target (counted f s)) f")
  show ?thesis
  proof (cases r)
    case FoldedFull
    then have "valid_full (ts_target s) f" "full_follows_canonical (ts_canonical s) f"
      using e unfolding FoldedFull fold_full_accepted by (auto simp: valid_full_iff fits_expectation_def)
    with admit_full [OF this, of t now] show ?thesis
      by (auto split: prod.split admission.split)
  next
    case (FoldedDelta d)
    then obtain base where b: "ts_canonical s = Some base" "delta_follows (ts_target (counted f s)) base f" "\<not> fr_full f" "d = f"
      "t' = (ts_target (counted f s))\<lparr>ft_canonical := Some (normalize_cell_grid_frame (successor base f))\<rparr>"
      using e unfolding FoldedDelta fold_delta_accepted by auto
    then show ?thesis using FoldedDelta
      by (auto simp: admit_decoded_cases [OF e] extended_def delta_follows_def delta_fits_def note_delta_def
          deliveries_clear_def Let_def split: prod.split)
  next
    case (FoldInvalid reason)
    have "untouched s s'" if "untouched (counted f s) s'" for s' using that by (simp add: untouched_def)
    then show ?thesis using refuse_untouched [where s = "counted f s" and r = "Reason (fold_failure_as_str reason)" and t = t and now = now] FoldInvalid
      by (auto simp: admit_decoded_cases [OF e] split: prod.split)
  qed
qed

theorem admission_all_or_nothing:
  "case admit_frame ws frame whole token now_ms s of
     (s', Refused r l) \<Rightarrow> untouched s s'
   | (s', BaselineReplaced) \<Rightarrow> (\<exists>f. decode_wire_frame ws frame whole = Ok f \<and> valid_full (ts_target s) f
       \<and> full_follows_canonical (ts_canonical s) f \<and> ts_canonical s' = Some (normalize_cell_grid_frame f)
       \<and> ts_baseline_ready s' \<and> ts_latch s' = latch_new \<and> ts_frame_revision s' = ts_frame_revision s + 1)
   | (s', DeltaApplied) \<Rightarrow> (\<exists>f base. decode_wire_frame ws frame whole = Ok f \<and> \<not> fr_full f \<and> ts_baseline_ready s
       \<and> ts_canonical s = Some base \<and> delta_fits base f \<and> fr_seq f = fr_seq base + 1
       \<and> ts_canonical s' = Some (normalize_cell_grid_frame (successor base f))
       \<and> ts_latch s' = ts_latch s \<and> ts_frame_revision s' = ts_frame_revision s + 1)
   | (s', ChunkPending) \<Rightarrow> False"
proof -
  let ?w = "note_wire (pb_stream_id frame) (pb_grid_epoch frame) (pb_seq frame) s"
  have w: "untouched s s'" if "untouched ?w s'" for s' using that by (simp add: untouched_def)
  have refused: "untouched s (fst (refuse_frame r token now_ms ?w))" for r using w refuse_untouched by blast
  have same: "untouched s s" by (simp add: untouched_def)
  show ?thesis
  proof (cases "ts_generation s = Some token \<and> pb_session_id frame = ts_session_id s \<and> Some (pb_stream_id frame) = ts_expected s")
    case False
    obtain s' l where "refuse_frame (Reason ''terminal frame session mismatch'') token now_ms s
        = (s', Refused (Reason ''terminal frame session mismatch'') l)" "untouched s s'"
      using refuse_untouched by (metis prod.collapse)
    with False same show ?thesis by (auto simp: admit_frame_def unbound_def)
  next
    case True
    show ?thesis
    proof (cases "decode_wire_frame ws frame whole")
      case (Inl r)
      then show ?thesis using True refused [of r] refuse_untouched(2) [where s = ?w and r = r and t = token and now = now_ms]
        by (auto simp: admit_frame_def split: prod.split)
    next
      case (Inr f)
      then show ?thesis using True admit_decoded_outcome [where f = f and t = token and now = now_ms and s = ?w] w
        by (auto simp: admit_frame_def split: prod.splits admission.splits)
    qed
  qed
qed

section \<open>A concrete run\<close>

definition sample_frame_op :: "cell_grid_frame \<Rightarrow> nat \<Rightarrow> session_op" where
  "sample_frame_op f now = AdmitFrame (frame_message f ''s'') False sample_token now"

definition sample_setup :: "session_op list" where
  "sample_setup = [Bind sample_token, Expect sample_stream 80 2, OpenView ''v'' 80 2 0]"

lemma sample_setup_run: "fold (exec_session ws) sample_setup (session_new ''s'' ''w'') = sample_replica 2"
  by (simp add: sample_setup_def sample_replica_def)

lemma sample_decodes:
  "decode_wire_frame unit_sizes (frame_message (blank_frame 2) ''s'') False = Ok (blank_frame 2)"
  "decode_wire_frame unit_sizes (frame_message delta_example ''s'') False = Ok delta_example"
proof -
  have "assert_frame_sequence sample_frame = Ok ()" "assert_frame_structure sample_frame = Ok ()"
    using sample_frame_valid by (simp_all add: snapshot_valid_def structure_exact)
  then show "decode_wire_frame unit_sizes (frame_message (blank_frame 2) ''s'') False = Ok (blank_frame 2)"
    using frame_message_decodes [OF blank_frame_ready, of 2 "''s''"]
    by (simp add: decode_wire_frame_def unit_sizes_def chunk_limits map_err_def sample_frame_def)
  have id: "is_terminal_uuid sample_stream" unfolding sample_stream_def by (rule sample_id)
  have ready: "frame_ready delta_example"
    by (simp add: frame_ready_def delta_example_def blank_frame_def cell_row_new_def row_ready_def assert_cell_row_spans_def)
  have "assert_frame_sequence (frame_message delta_example ''s'') = Ok ()"
    using id by (simp add: assert_frame_sequence_def assert_frame_identity_def frame_message_def delta_example_def
        blank_frame_def sample_stream_def)
  moreover have "assert_frame_structure (frame_message delta_example ''s'') = Ok ()"
    unfolding structure_exact by (simp add: frame_structured_def frame_message_def delta_example_def blank_frame_def
        is_terminal_geometry_def viewport_limits cell_row_to_proto_def cell_row_new_def)
  ultimately show "decode_wire_frame unit_sizes (frame_message delta_example ''s'') False = Ok delta_example"
    using frame_message_decodes [OF ready, of "''s''"]
    by (simp add: decode_wire_frame_def unit_sizes_def chunk_limits map_err_def)
qed

lemma sample_admits:
  assumes "decode_wire_frame unit_sizes (frame_message f ''s'') False = Ok f" "fr_stream_id f = sample_stream"
    "ts_generation s = Some sample_token" "ts_session_id s = ''s''" "ts_expected s = Some sample_stream"
  shows "\<exists>s1. same_fence s s1 \<and> ts_assembler s1 = ts_assembler s
    \<and> admit_frame unit_sizes (frame_message f ''s'') False sample_token now s = admit_decoded f sample_token now s1"
proof -
  let ?s1 = "note_wire (pb_stream_id (frame_message f ''s'')) (pb_grid_epoch (frame_message f ''s'')) (pb_seq (frame_message f ''s'')) s"
  have "pb_session_id (frame_message f ''s'') = ''s''" "pb_stream_id (frame_message f ''s'') = fr_stream_id f"
    by (simp_all add: frame_message_def)
  then have "admit_frame unit_sizes (frame_message f ''s'') False sample_token now s = admit_decoded f sample_token now ?s1"
    using assms by (simp add: admit_frame_def Let_def)
  moreover have "same_fence s ?s1" "ts_assembler ?s1 = ts_assembler s" by (simp_all add: same_fence_def)
  ultimately show ?thesis by blast
qed

definition sample_painted :: terminal_session where
  "sample_painted = fold (exec_session unit_sizes) [sample_frame_op (blank_frame 2) 5] (sample_replica 2)"

lemma sample_painted_state:
  "ts_target sample_painted = \<lparr>ft_expected_stream_id = Some sample_stream, ft_effective_cols = 80, ft_effective_rows = 2,
     ft_canonical = Some (normalize_cell_grid_frame (blank_frame 2)), ft_baseline_ready = True, ft_chunk_in_flight = False\<rparr>"
  "ts_deliveries sample_painted = note_full deliveries_new" "ts_assembler sample_painted = None"
  "ts_generation sample_painted = Some sample_token" "ts_session_id sample_painted = ''s''"
proof -
  obtain s1 where s1: "same_fence (sample_replica 2) s1" "ts_assembler s1 = None"
    and e: "sample_painted = fst (admit_decoded (blank_frame 2) sample_token 5 s1)"
    using sample_admits [OF sample_decodes(1), of "sample_replica 2" 5]
    by (auto simp: sample_painted_def sample_frame_op_def sample_replica_state blank_frame_def sample_stream_def)
  have "valid_full (ts_target s1) (blank_frame 2)" "full_follows_canonical (ts_canonical s1) (blank_frame 2)"
    using same_fence_target [OF s1(1)] blank_frame_numbered [of 2]
    by (simp_all add: valid_full_iff fits_expectation_def sample_replica_state full_follows_canonical_def)
      (simp_all add: blank_frame_def sample_stream_def target_new_def)
  from admit_full [OF this, of sample_token 5] s1 same_fence_target [OF s1(1)]
  show "ts_target sample_painted = \<lparr>ft_expected_stream_id = Some sample_stream, ft_effective_cols = 80, ft_effective_rows = 2,
      ft_canonical = Some (normalize_cell_grid_frame (blank_frame 2)), ft_baseline_ready = True, ft_chunk_in_flight = False\<rparr>"
    "ts_deliveries sample_painted = note_full deliveries_new" "ts_assembler sample_painted = None"
    "ts_generation sample_painted = Some sample_token" "ts_session_id sample_painted = ''s''"
    by (simp_all add: e same_fence_def sample_replica_state fold_target.equality)
qed

theorem replica_baseline_complete_witness:
  "\<exists>f. ts_canonical sample_painted = Some f \<and> fr_rows f = 2 \<and> map row_index (fr_viewport_rows f) = [0, 1]"
proof -
  have "sample_painted = fold (exec_session unit_sizes) (sample_setup @ [sample_frame_op (blank_frame 2) 5]) (session_new ''s'' ''w'')"
    unfolding fold_append o_apply sample_setup_run sample_painted_def ..
  from replica_baseline_complete [OF this] show ?thesis
    by (auto simp: sample_painted_state blank_frame_def upt_rec)
qed

lemma sample_delta_state:
  "ts_deliveries (exec_session unit_sizes (sample_frame_op delta_example 6) sample_painted)
     = note_delta delta_example (note_full deliveries_new)"
proof -
  have "fr_stream_id delta_example = sample_stream" by (simp add: delta_example_def blank_frame_def sample_stream_def)
  then obtain s1 where s1: "same_fence sample_painted s1" "ts_assembler s1 = None"
    and e: "admit_frame unit_sizes (frame_message delta_example ''s'') False sample_token 6 sample_painted
      = admit_decoded delta_example sample_token 6 s1"
    using sample_admits [OF sample_decodes(2), of sample_painted 6] by (auto simp: sample_painted_state)
  have t: "ft_expected_stream_id (ts_target s1) = Some sample_stream" "ft_effective_cols (ts_target s1) = 80"
    "ft_effective_rows (ts_target s1) = 2" "ts_canonical s1 = Some (normalize_cell_grid_frame (blank_frame 2))"
    using same_fence_target [OF s1(1)] by (simp_all add: sample_painted_state)
  have r: "ts_baseline_ready s1" using s1(1) by (cases "ts_target s1") (simp add: same_fence_def sample_painted_state)
  have "delta_follows (ts_target (counted delta_example s1)) (normalize_cell_grid_frame (blank_frame 2)) delta_example"
    by (simp add: delta_follows_def t r s1 delta_fits_def)
      (simp add: delta_example_def blank_frame_def sample_stream_def normalize_cell_grid_frame_def cell_row_new_def u64_max_def)
  moreover have "\<not> fr_full delta_example" by (simp add: delta_example_def)
  ultimately have "\<exists>t'. fold_frame (ts_target (counted delta_example s1)) delta_example = (t', FoldedDelta delta_example)"
    using t(4) by (auto simp: fold_delta_accepted)
  then obtain t' where f: "fold_frame (ts_target (counted delta_example s1)) delta_example = (t', FoldedDelta delta_example)" ..
  show ?thesis using s1(1)
    by (simp add: sample_frame_op_def e admit_decoded_cases [OF f] extended_def same_fence_def sample_painted_state)
qed

theorem renderers_catch_up_witness:
  "ts_canonical (exec_session unit_sizes (sample_frame_op delta_example 6) sample_painted)
     = Some (paint_delta (normalize_cell_grid_frame (blank_frame 2)) delta_example)"
proof -
  let ?s' = "exec_session unit_sizes (sample_frame_op delta_example 6) sample_painted"
  have s: "sample_painted = fold (exec_session unit_sizes) (sample_setup @ [sample_frame_op (blank_frame 2) 5]) (session_new ''s'' ''w'')"
    unfolding fold_append o_apply sample_setup_run sample_painted_def ..
  have c: "ts_canonical sample_painted = Some (normalize_cell_grid_frame (blank_frame 2))" by (simp add: sample_painted_state)
  have s': "?s' = fold (exec_session unit_sizes) [sample_frame_op delta_example 6] sample_painted" by simp
  have d: "deltas_since (ts_deliveries ?s') (ts_frame_revision sample_painted) = Some [delta_example]"
    unfolding sample_delta_state
    by (simp add: sample_painted_state deltas_since_def note_delta_def note_full_def deliveries_clear_def deliveries_new_def
        delta_spans_def delta_example_def cell_row_new_def pending_limits evict_oldest_delta.simps Let_def)
      (simp add: blank_frame_def)
  from renderers_catch_up [OF s c s' d] show ?thesis by simp
qed

end
