(* ===== verification/Client_Promises.thy ===== *)
theory Client_Promises
  imports Client_Watchdog Client_Baseline
begin

text \<open>
  What the sweep promises a pane: that a watched pane is never left without a deadline, that silence
  is challenged and an unanswered challenge replaces the link, that one gap is asked about once a
  heartbeat; and where the code falls short of its own rule.
\<close>

section \<open>The watchdog on one store\<close>

lemma with_liveness_simps [simp]:
  "cs_sync (with_liveness f st) = cs_sync st" "cs_route (with_liveness f st) = cs_route st"
  "cs_rotation_pending (with_liveness f st) = cs_rotation_pending st"
  "cs_replica (with_liveness f st) = map_option (\<lambda>s. s\<lparr>ts_liveness := f (ts_liveness s)\<rparr>) (cs_replica st)"
  "publication_target (with_liveness f st) = publication_target st"
  "elected_owner (with_liveness f st) = elected_owner st"
proof -
  show target: "publication_target (with_liveness f st) = publication_target st"
    by (simp add: with_liveness_def with_replica_def publication_target_def cong: option.case_cong)
  show "elected_owner (with_liveness f st) = elected_owner st"
    unfolding elected_owner_def target by (cases "cs_replica st") (simp_all add: with_liveness_def with_replica_def)
qed (simp_all add: with_liveness_def with_replica_def)

definition liveness_of :: "client_store \<Rightarrow> foreground_liveness" where
  "liveness_of st = (case cs_replica st of None \<Rightarrow> liveness_new | Some s \<Rightarrow> ts_liveness s)"

text \<open>A pane the watchdog owes something: seen by somebody, on the elected carrier, expecting a stream.\<close>

definition watchable :: "client_store \<Rightarrow> terminal_token \<Rightarrow> bool" where
  "watchable st owner \<longleftrightarrow> sr_visible (sy_redial (cs_sync st)) \<and> elected_owner st = Some owner
     \<and> (\<exists>s. cs_replica st = Some s \<and> ts_expected s \<noteq> None \<and> foreground_view s \<noteq> None)"

definition guarded :: "foreground_liveness \<Rightarrow> bool" where
  "guarded l \<longleftrightarrow> lv_quiet_due_ms l \<noteq> None \<or> lv_proof_due_ms l \<noteq> None"

lemma foreground_frame [simp]:
  "foreground_view (s\<lparr>ts_liveness := l\<rparr>) = foreground_view s"
  "repair_view (s\<lparr>ts_liveness := l\<rparr>) = repair_view s" "resync_position (s\<lparr>ts_liveness := l\<rparr>) = resync_position s"
  "scoped_resync (s\<lparr>ts_liveness := l\<rparr>) t x = scoped_resync s t x"
  by (simp_all add: foreground_view_def repair_view_def resync_position_def scoped_resync_def
      cong: option.case_cong list.case_cong)

lemma watchable_liveness [simp]: "watchable (with_liveness f st) owner = watchable st owner"
  by (auto simp: watchable_def)

lemma liveness_of_with [simp]: "cs_replica st = Some s \<Longrightarrow> liveness_of (with_liveness f st) = f (liveness_of st)"
  by (simp add: liveness_of_def)

lemma watchable_replica: "watchable st owner \<Longrightarrow> \<exists>s. cs_replica st = Some s"
  by (auto simp: watchable_def)

lemma watchable_resync: "watchable st owner \<Longrightarrow> cs_replica st = Some s \<Longrightarrow> \<exists>request. scoped_resync s owner sid = Some request"
  by (auto simp: watchable_def scoped_resync_def resync_position_def repair_view_def foreground_view_def
      split: option.splits list.splits)

lemma watchable_owner:
  assumes "watchable st owner" "cs_replica st = Some s"
  shows "ts_generation s = Some owner" "\<exists>x. ts_expected s = Some x"
  using assms by (auto simp: watchable_def elected_owner_def split: if_splits option.splits)

lemma begin_scoped_repair_watched:
  assumes "watchable st owner" "cs_replica st = Some s" "\<not> has_pending_challenge (ts_liveness s) owner"
  shows "\<exists>x q. begin_scoped_repair owner now s = s\<lparr>ts_liveness := begin_challenge owner x q now (ts_liveness s)\<rparr>"
proof -
  obtain x where x: "ts_generation s = Some owner" "ts_expected s = Some x" using watchable_owner [OF assms(1,2)] by blast
  show ?thesis unfolding begin_scoped_repair_def Let_def using x assms(3) by simp blast
qed

lemma saturating_later: "0 < d \<Longrightarrow> now < u64_max \<Longrightarrow> now < saturating_add64 now d"
  by (simp add: saturating_add64_def)

lemma watched_or_replaced:
  assumes "watchable st owner"
  shows "watch_of st = Watched owner \<or> watch_of st = RetireFor StreamReplaced"
  using assms by (auto simp: watch_of_def watchable_def split: option.splits)

lemma retire_watched_due:
  assumes "cs_replica st = Some s" "lv_quiet_due_ms (ts_liveness s) \<noteq> None \<or> lv_challenged_at_ms (ts_liveness s) \<noteq> None"
  shows "retire_watched outcome st = with_liveness (retire outcome) st"
  using assms by (auto simp: retire_watched_def with_liveness_def with_replica_def retire_liveness_def)

text \<open>What arming leaves behind on a watched pane.\<close>

lemma arm_watchable:
  assumes "watchable st owner"
  shows "arm_when_watchable now st =
    (if has_pending_challenge (liveness_of st) owner then st else with_liveness (arm_quiet_if_unarmed owner now) st)"
  using assms by (auto simp: arm_when_watchable_def watchable_def liveness_of_def split: option.split)

text \<open>A due probe on a watched pane ends in a challenge, a new deadline, or retirement.\<close>

lemma probe_watched:
  assumes "watchable st owner" "watch_of st = Watched owner"
  shows "(\<exists>request x q. watchdog_probe sid now st =
        (with_liveness (\<lambda>l. begin_challenge owner x q now (fst (take_quiet l))) st, [request])
        \<and> \<not> has_pending_challenge (liveness_of st) owner)
    \<or> (watchdog_probe sid now st = (with_liveness (\<lambda>l. rearm_quiet owner now (fst (claim_rearm_episode (fst (take_quiet l))))) st, [])
        \<and> has_pending_challenge (liveness_of st) owner)"
proof -
  obtain s where s: "cs_replica st = Some s" using watchable_replica [OF assms(1)] by blast
  let ?st = "with_liveness (\<lambda>l. fst (take_quiet l)) st" and ?l = "fst (take_quiet (ts_liveness s))"
  have r: "cs_replica ?st = Some (s\<lparr>ts_liveness := ?l\<rparr>)" by (simp add: s)
  have pending: "has_pending_challenge ?l owner = has_pending_challenge (ts_liveness s) owner"
    by (simp add: liveness_defs)
  show ?thesis
  proof (cases "has_pending_challenge (ts_liveness s) owner")
    case pend: True
    then have "publish_challenge sid owner now ?st = (?st, [], False)"
      unfolding publish_challenge_def r by (simp add: pending)
    with assms(2) pend show ?thesis using s
      by (simp add: watchdog_probe_def liveness_of_def) (simp add: with_liveness_def with_replica_def option.map_comp comp_def)
  next
    case idle: False
    have w: "watchable ?st owner" using assms(1) by simp
    obtain request where req: "scoped_resync (s\<lparr>ts_liveness := ?l\<rparr>) owner sid = Some request"
      using watchable_resync [OF w r] by blast
    have np: "\<not> has_pending_challenge (ts_liveness (s\<lparr>ts_liveness := ?l\<rparr>)) owner" using idle pending by simp
    obtain x q where b: "begin_scoped_repair owner now (s\<lparr>ts_liveness := ?l\<rparr>)
        = (s\<lparr>ts_liveness := ?l\<rparr>)\<lparr>ts_liveness := begin_challenge owner x q now ?l\<rparr>"
      using begin_scoped_repair_watched [OF w r np, of now] by auto
    have "publish_challenge sid owner now ?st
        = (with_liveness (\<lambda>l. begin_challenge owner x q now (fst (take_quiet l))) st, [request], True)"
      unfolding publish_challenge_def r using np req b s by (simp add: with_liveness_def with_replica_def)
    with assms(2) idle show ?thesis using s by (auto simp: watchdog_probe_def liveness_of_def)
  qed
qed

lemma retire_replaced:
  assumes "watch_of st = RetireFor StreamReplaced" "liveness_ok (liveness_of st)"
  shows "retire_watched StreamReplaced st = with_liveness (retire StreamReplaced) st"
proof -
  obtain s where s: "cs_replica st = Some s" "lv_challenge_stream_id (ts_liveness s) \<noteq> None"
    using assms(1) by (auto simp: watch_of_def unwatchable_reason_def split: option.splits if_splits)
  then have "lv_challenged_at_ms (ts_liveness s) \<noteq> None" using assms(2) by (auto simp: liveness_of_def liveness_ok_def)
  with s show ?thesis by (intro retire_watched_due) auto
qed

lemma escalate_watched:
  assumes "watchable st owner" "liveness_ok (liveness_of st)"
  shows "(\<exists>st' g. watchdog_escalate now st = (st', [OnLink (CloseSyncLink g LIVENESS_REASON)])
        \<and> link_generation (cs_sync st) = Some g \<and> tk_transport owner = Sync \<and> has_pending_challenge (liveness_of st) owner)
    \<or> (\<exists>f. watchdog_escalate now st = (with_liveness f st, [])
        \<and> (f = retire StreamReplaced \<or> (f = clear_proof \<and> \<not> has_pending_challenge (liveness_of st) owner)
           \<or> (f = (\<lambda>l. rearm_quiet owner now (mark_escalated l)) \<and> has_pending_challenge (liveness_of st) owner)))"
proof (cases "watch_of st = Watched owner")
  case False
  then have r: "watch_of st = RetireFor StreamReplaced" using watched_or_replaced [OF assms(1)] by simp
  then have "watchdog_escalate now st = (with_liveness (retire StreamReplaced) st, [])"
    using retire_replaced [OF r assms(2)] by (simp add: watchdog_escalate_def)
  then show ?thesis by blast
next
  case True
  obtain s where s: "cs_replica st = Some s" using watchable_replica [OF assms(1)] by blast
  then have l: "liveness_of st = ts_liveness s" by (simp add: liveness_of_def)
  have twice: "with_liveness f (with_liveness h st) = with_liveness (\<lambda>l. f (h l)) st" for f h
    by (simp add: with_liveness_def with_replica_def option.map_comp comp_def)
  show ?thesis
  proof (cases "has_pending_challenge (ts_liveness s) owner")
    case pend: True
    show ?thesis
    proof (cases "tk_transport owner = Sync \<and> (\<exists>g. link_generation (cs_sync st) = Some g \<and> accepts (cs_sync st) g)")
      case close: True
      then obtain g where "link_generation (cs_sync st) = Some g" "accepts (cs_sync st) g" by blast
      with True s pend close l show ?thesis
        by (auto simp: watchdog_escalate_def request_link_replacement_def request_redial_def Let_def)
    next
      case False
      then have "watchdog_escalate now st = (with_liveness (\<lambda>l. rearm_quiet owner now (mark_escalated l)) st, [])"
        using True s pend by (auto simp: watchdog_escalate_def Let_def twice split: option.splits)
      with pend l show ?thesis by auto
    qed
  next
    case idle: False
    then have "watchdog_escalate now st = (with_liveness clear_proof st, [])"
      using True s by (simp add: watchdog_escalate_def)
    with idle l show ?thesis by auto
  qed
qed

lemma with_liveness_id: "with_liveness (\<lambda>l. l) st = st"
  by (cases st) (simp add: with_liveness_def with_replica_def option.map_ident)

text \<open>The first half of a sweep, on the watchdog's state: an overdue proof.\<close>

lemma escalated_liveness:
  assumes "watchable st owner" "liveness_ok (liveness_of st)"
    "(if proof_expiry_due (liveness_of st) now then watchdog_escalate now st else (st, [])) = (st1, out1)"
    "\<nexists>g. OnLink (CloseSyncLink g LIVENESS_REASON) \<in> set out1 \<and> link_generation (cs_sync st) = Some g"
  shows "\<exists>f. st1 = with_liveness f st \<and> liveness_ok (f (liveness_of st))
    \<and> ((f = (\<lambda>l. l) \<and> \<not> proof_expiry_due (liveness_of st) now) \<or> f = retire StreamReplaced
       \<or> (f = clear_proof \<and> \<not> has_pending_challenge (liveness_of st) owner)
       \<or> f = (\<lambda>l. rearm_quiet owner now (mark_escalated l)))"
proof (cases "proof_expiry_due (liveness_of st) now")
  case True
  then show ?thesis using escalate_watched [OF assms(1,2), of now] assms(2,3,4) by (auto simp: liveness_keeps_ok)
next
  case False
  then show ?thesis using assms(2,3) with_liveness_id [of st] by (intro exI [of _ "\<lambda>l. l"]) auto
qed

text \<open>The second half: an overdue probe.\<close>

lemma probed_liveness:
  assumes "watchable st owner" "liveness_ok (liveness_of st)"
    "(if due then watchdog_probe sid now st else (st, [])) = (st2, out2)"
  shows "\<exists>h. st2 = with_liveness h st
    \<and> ((h = (\<lambda>l. l) \<and> \<not> due) \<or> h = retire StreamReplaced
       \<or> (\<exists>x q. h = (\<lambda>l. begin_challenge owner x q now (fst (take_quiet l))))
       \<or> h = (\<lambda>l. rearm_quiet owner now (fst (claim_rearm_episode (fst (take_quiet l))))))"
proof (cases "due \<and> watch_of st \<noteq> Watched owner")
  case True
  then have r: "watch_of st = RetireFor StreamReplaced" using watched_or_replaced [OF assms(1)] by simp
  then show ?thesis using True assms(3) retire_replaced [OF r assms(2)]
    by (intro exI [of _ "retire StreamReplaced"]) (simp add: watchdog_probe_def)
next
  case False
  show ?thesis
  proof (cases due)
    case True
    with False have w: "watch_of st = Watched owner" by simp
    from probe_watched [OF assms(1) w, of sid now] True assms(3) show ?thesis by auto
  next
    case False
    then show ?thesis using assms(3) with_liveness_id [of st] by (intro exI [of _ "\<lambda>l. l"]) auto
  qed
qed

text \<open>Deadlines that are all still to come, with one behind every outstanding challenge.\<close>

definition deadlines_ahead :: "nat \<Rightarrow> foreground_liveness \<Rightarrow> bool" where
  "deadlines_ahead now l \<longleftrightarrow> (\<forall>due. lv_quiet_due_ms l = Some due \<longrightarrow> now < due) \<and> (\<forall>due. lv_proof_due_ms l = Some due \<longrightarrow> now < due)"

lemma escalation_settles:
  assumes "has_pending_challenge l owner \<longrightarrow> guarded l" "now < saturating_add64 now TERMINAL_FOREGROUND_IDLE_PROBE_MS"
    "(f = (\<lambda>l. l) \<and> \<not> proof_expiry_due l now) \<or> f = retire StreamReplaced
       \<or> (f = clear_proof \<and> \<not> has_pending_challenge l owner) \<or> f = (\<lambda>l. rearm_quiet owner now (mark_escalated l))"
  shows "(\<forall>due. lv_proof_due_ms (f l) = Some due \<longrightarrow> now < due)
    \<and> (\<forall>due. lv_quiet_due_ms (f l) = Some due \<longrightarrow> now < due \<or> quiet_expiry_due l now)
    \<and> (has_pending_challenge (f l) owner \<longrightarrow> guarded (f l))"
  using assms(3)
proof (elim disjE conjE)
  assume "f = (\<lambda>l. l)" "\<not> proof_expiry_due l now"
  then show ?thesis using assms(1) by (auto simp: proof_expiry_due_def quiet_expiry_due_def)
next
  assume "f = retire StreamReplaced"
  then show ?thesis by (simp add: liveness_defs)
next
  assume "f = clear_proof" "\<not> has_pending_challenge l owner"
  then show ?thesis by (auto simp: clear_proof_def has_pending_challenge_def quiet_expiry_due_def)
next
  assume "f = (\<lambda>l. rearm_quiet owner now (mark_escalated l))"
  then show ?thesis using assms(2) by (simp add: liveness_defs)
qed

lemma probe_settles:
  assumes "\<forall>due. lv_proof_due_ms l = Some due \<longrightarrow> now < due" "\<forall>due. lv_quiet_due_ms l = Some due \<longrightarrow> now < due \<or> overdue"
    "has_pending_challenge l owner \<longrightarrow> guarded l"
    "now < saturating_add64 now TERMINAL_FOREGROUND_IDLE_PROBE_MS" "now < saturating_add64 now TERMINAL_FOREGROUND_PROBE_DEADLINE_MS"
    "(h = (\<lambda>l. l) \<and> \<not> overdue) \<or> h = retire StreamReplaced
       \<or> (\<exists>x q. h = (\<lambda>l. begin_challenge owner x q now (fst (take_quiet l))))
       \<or> h = (\<lambda>l. rearm_quiet owner now (fst (claim_rearm_episode (fst (take_quiet l)))))"
  shows "deadlines_ahead now (h l) \<and> (has_pending_challenge (h l) owner \<longrightarrow> guarded (h l))"
  using assms(6)
proof (elim disjE conjE exE)
  assume "h = (\<lambda>l. l)" "\<not> overdue"
  then show ?thesis using assms(1-3) by (auto simp: deadlines_ahead_def)
next
  assume "h = retire StreamReplaced"
  then show ?thesis by (simp add: deadlines_ahead_def liveness_defs)
next
  fix x q assume "h = (\<lambda>l. begin_challenge owner x q now (fst (take_quiet l)))"
  then show ?thesis using assms(5) by (simp add: deadlines_ahead_def guarded_def liveness_defs)
next
  assume "h = (\<lambda>l. rearm_quiet owner now (fst (claim_rearm_episode (fst (take_quiet l)))))"
  then show ?thesis using assms(1,4) by (simp add: deadlines_ahead_def guarded_def liveness_defs)
qed

lemma arming_guards:
  assumes "deadlines_ahead now l" "has_pending_challenge l owner \<longrightarrow> guarded l"
    "now < saturating_add64 now TERMINAL_FOREGROUND_IDLE_PROBE_MS"
  shows "guarded (if has_pending_challenge l owner then l else arm_quiet_if_unarmed owner now l)
    \<and> deadlines_ahead now (if has_pending_challenge l owner then l else arm_quiet_if_unarmed owner now l)"
  using assms by (auto simp: deadlines_ahead_def guarded_def arm_quiet_if_unarmed_def rearm_quiet_def probe_anchor_def)

section \<open>A watched pane keeps a deadline\<close>

text \<open>
  C24: A sweep does not leave the watchdog without a deadline. Take a pane that is visible, on the elected
  carrier and expecting a stream, in a consistent watchdog state where a challenge still outstanding has a
  deadline behind it. One sweep over it, whatever came due, either asks for the live link to be closed,
  because it left a challenge unanswered, or leaves the pane holding a deadline, and every deadline it then
  holds lies in the future, so no sweep can spin on one. The hypothesis on the challenge is needed: a stalled
  answer loses that deadline, and nothing then watches the pane (the theory \<open>Client_Stall\<close>).
\<close>

theorem watched_pane_keeps_deadline:
  assumes "watchable st owner" "liveness_ok (liveness_of st)"
    "has_pending_challenge (liveness_of st) owner \<longrightarrow> guarded (liveness_of st)" "now < u64_max"
    "sweep_foreground_liveness sid now st = (st', out)"
  shows "(\<exists>g. OnLink (CloseSyncLink g LIVENESS_REASON) \<in> set out \<and> link_generation (cs_sync st) = Some g)
    \<or> (guarded (liveness_of st') \<and> deadlines_ahead now (liveness_of st'))"
proof (rule disjCI)
  assume unmet: "\<not> (guarded (liveness_of st') \<and> deadlines_ahead now (liveness_of st'))"
  obtain s where s: "cs_replica st = Some s" using watchable_replica [OF assms(1)] by blast
  let ?l = "liveness_of st"
  have later: "now < saturating_add64 now TERMINAL_FOREGROUND_IDLE_PROBE_MS"
    "now < saturating_add64 now TERMINAL_FOREGROUND_PROBE_DEADLINE_MS"
    using assms(4) by (simp_all add: saturating_later TERMINAL_FOREGROUND_IDLE_PROBE_MS_def TERMINAL_FOREGROUND_PROBE_DEADLINE_MS_def)
  obtain st1 out1 where e: "(if proof_expiry_due ?l now then watchdog_escalate now st else (st, [])) = (st1, out1)"
    by (cases "if proof_expiry_due ?l now then watchdog_escalate now st else (st, [])")
  obtain st2 out2 where p: "(if quiet_expiry_due ?l now then watchdog_probe sid now st1 else (st1, [])) = (st2, out2)"
    by (cases "if quiet_expiry_due ?l now then watchdog_probe sid now st1 else (st1, [])")
  have res: "st' = arm_when_watchable now st2" "out = out1 @ out2"
    using assms(1,5) s e p by (simp_all add: sweep_foreground_liveness_def watchable_def liveness_of_def)
  show "\<exists>g. OnLink (CloseSyncLink g LIVENESS_REASON) \<in> set out \<and> link_generation (cs_sync st) = Some g"
  proof (rule ccontr)
    assume "\<nexists>g. OnLink (CloseSyncLink g LIVENESS_REASON) \<in> set out \<and> link_generation (cs_sync st) = Some g"
    then have none: "\<nexists>g. OnLink (CloseSyncLink g LIVENESS_REASON) \<in> set out1 \<and> link_generation (cs_sync st) = Some g"
      using res by auto
    obtain f where f: "st1 = with_liveness f st" "liveness_ok (f ?l)"
      and fcase: "(f = (\<lambda>l. l) \<and> \<not> proof_expiry_due ?l now) \<or> f = retire StreamReplaced
        \<or> (f = clear_proof \<and> \<not> has_pending_challenge ?l owner) \<or> f = (\<lambda>l. rearm_quiet owner now (mark_escalated l))"
      using escalated_liveness [OF assms(1,2) e none] by blast
    have st1: "watchable st1 owner" "liveness_of st1 = f ?l" "liveness_ok (liveness_of st1)"
      using assms(1) s f by simp_all
    obtain h where h: "st2 = with_liveness h st1"
      and hcase: "(h = (\<lambda>l. l) \<and> \<not> quiet_expiry_due ?l now) \<or> h = retire StreamReplaced
        \<or> (\<exists>x q. h = (\<lambda>l. begin_challenge owner x q now (fst (take_quiet l))))
        \<or> h = (\<lambda>l. rearm_quiet owner now (fst (claim_rearm_episode (fst (take_quiet l)))))"
      using probed_liveness [OF st1(1,3) p] by blast
    obtain s1 where s1: "cs_replica st1 = Some s1" using watchable_replica [OF st1(1)] by blast
    have w2: "watchable st2 owner" unfolding h watchable_liveness by (rule st1(1))
    have l2: "liveness_of st2 = h (f ?l)" unfolding h liveness_of_with [OF s1] st1(2) by (rule refl)
    obtain s2 where s2: "cs_replica st2 = Some s2" using watchable_replica [OF w2] by blast
    have final: "liveness_of st' = (if has_pending_challenge (h (f ?l)) owner then h (f ?l)
        else arm_quiet_if_unarmed owner now (h (f ?l)))"
      unfolding res(1) arm_watchable [OF w2] l2 [symmetric] by (simp add: liveness_of_with [OF s2])
    have "deadlines_ahead now (h (f ?l)) \<and> (has_pending_challenge (h (f ?l)) owner \<longrightarrow> guarded (h (f ?l)))"
      using escalation_settles [OF assms(3) later(1) fcase] by (intro probe_settles [OF _ _ _ later hcase]) auto
    then have "guarded (liveness_of st') \<and> deadlines_ahead now (liveness_of st')"
      unfolding final by (intro arming_guards later(1)) simp_all
    with unmet show False by blast
  qed
qed

text \<open>A store with an open link whose terminal domain is ready, showing the sample pane.\<close>

definition sample_sync :: sync_state where
  "sample_sync = fst (mark_domain_ready 1 Terminal (Some ''snap'') (fst (issue_snapshot_token 1 Terminal ''snap''
     (fst (install_subscribed 1 [(Terminal, 7, True)]
       (fst (open_link 1 ''socket'' ''epoch'' 0 (fst (begin_dial (sync_new Map.empty))))))))))"

lemma sample_sync_state:
  "terminal_token_of sample_sync = Some sample_token" "domain_is_ready sample_sync Terminal"
  "sy_redial sample_sync = redial_new" "link_generation sample_sync = Some 1" "accepts sample_sync 1"
  by (simp_all add: sample_sync_def mark_domain_ready_def issue_snapshot_token_def install_subscribed_def announce_domain_def open_link_def
      begin_dial_def sync_new_def accepts_def terminal_token_of_def domain_generation_def sample_token_def
      domain_is_ready_def link_generation_def)

definition sample_store :: "foreground_liveness \<Rightarrow> client_store" where
  "sample_store l = \<lparr>cs_sync = sample_sync, cs_route = None, cs_rotation_pending = False,
     cs_replica = Some (sample_replica 2\<lparr>ts_liveness := l\<rparr>), cs_revision = 0, cs_frames_revision = 0\<rparr>"

lemma sample_store_watchable: "watchable (sample_store l) sample_token" "liveness_of (sample_store l) = l"
  by (simp_all add: watchable_def elected_owner_def publication_target_def sample_store_def sample_sync_state
      redial_new_def sample_replica_state target_new_def foreground_view_def is_published_def view_opened_def
      published_as_def liveness_of_def)

theorem watched_pane_keeps_deadline_witness:
  "guarded (liveness_of (fst (sweep_foreground_liveness ''s'' 9000 (sample_store (arm_quiet sample_token 1000 liveness_new)))))
   \<or> OnLink (CloseSyncLink 1 LIVENESS_REASON)
       \<in> set (snd (sweep_foreground_liveness ''s'' 9000 (sample_store (arm_quiet sample_token 1000 liveness_new))))"
proof -
  let ?l = "arm_quiet sample_token 1000 liveness_new"
  have ok: "liveness_ok ?l" by (intro liveness_keeps_ok)
  have idle: "\<not> has_pending_challenge ?l sample_token"
    by (simp add: has_pending_challenge_def arm_quiet_def liveness_new_def Let_def split: prod.split)
  have now: "(9000::nat) < u64_max" by (simp add: u64_max_def)
  have link: "link_generation (cs_sync (sample_store ?l)) = Some 1" by (simp add: sample_store_def sample_sync_state)
  obtain st' out where sweep: "sweep_foreground_liveness ''s'' 9000 (sample_store ?l) = (st', out)"
    by (cases "sweep_foreground_liveness ''s'' 9000 (sample_store ?l)")
  have "liveness_ok (liveness_of (sample_store ?l))"
    "has_pending_challenge (liveness_of (sample_store ?l)) sample_token \<longrightarrow> guarded (liveness_of (sample_store ?l))"
    using ok idle by (simp_all add: sample_store_watchable(2))
  from watched_pane_keeps_deadline [OF sample_store_watchable(1) this now sweep] show ?thesis
    unfolding sweep link by auto
qed

end
