(* ===== verification/Client_Stall.thy ===== *)
theory Client_Stall
  imports Client_Promises
begin

text \<open>
  Where the watchdog falls short of its own rule: a challenged pane whose answering baseline starts to
  arrive and then stalls is left with neither deadline, and no later sweep asks about it again.
\<close>

section \<open>A pane nobody watches\<close>

definition unwatched :: "client_store \<Rightarrow> terminal_token \<Rightarrow> bool" where
  "unwatched st owner \<longleftrightarrow> watchable st owner
     \<and> (\<exists>s. cs_replica st = Some s \<and> has_pending_challenge (ts_liveness s) owner
          \<and> lv_quiet_due_ms (ts_liveness s) = None \<and> lv_proof_due_ms (ts_liveness s) = None
          \<and> \<not> rl_latched (ts_latch s) \<and> rl_token (ts_latch s) = None)"

text \<open>Two replicas the watchdog cannot tell apart.\<close>

definition same_watch :: "terminal_session \<Rightarrow> terminal_session \<Rightarrow> bool" where
  "same_watch s s' \<longleftrightarrow> ts_generation s' = ts_generation s \<and> ts_expected s' = ts_expected s
     \<and> ts_liveness s' = ts_liveness s \<and> ts_latch s' = ts_latch s
     \<and> (foreground_view s' = None \<longleftrightarrow> foreground_view s = None)"

lemma same_watch_refl [simp]: "same_watch s s" by (simp add: same_watch_def)

lemma same_target:
  "cs_sync st' = cs_sync st \<Longrightarrow> cs_route st' = cs_route st \<Longrightarrow> publication_target st' = publication_target st"
  by (simp add: publication_target_def split: option.split)

lemma unwatched_same:
  assumes "unwatched st owner" "cs_replica st = Some s" "cs_replica st' = Some s'" "same_watch s s'"
    "cs_sync st' = cs_sync st" "cs_route st' = cs_route st"
  shows "unwatched st' owner"
proof -
  from same_target [OF assms(5,6)] assms show ?thesis by (auto simp: unwatched_def watchable_def elected_owner_def same_watch_def split: option.splits if_splits)
qed

lemma foreground_update:
  assumes "\<And>v. cv_intent (f v) = cv_intent v"
  shows "(foreground_view (s\<lparr>ts_views := btree_update k f (ts_views s)\<rparr>) = None) = (foreground_view s = None)"
proof -
  have "is_published (f v) = is_published v" for v using assms by (simp add: is_published_def)
  then have "find is_published (map snd (btree_update k f m)) = None \<longleftrightarrow> find is_published (map snd m) = None" for m
    by (induction m) (auto simp: btree_update_def split: if_splits)
  then show ?thesis by (simp add: foreground_view_def)
qed

lemma same_watch_sweep: "rl_token (ts_latch s) = None \<Longrightarrow> same_watch s (fst (session_sweep now s))"
  by (auto simp: session_sweep_def same_watch_def set_chunk_in_flight_def foreground_view_def split: prod.split bool.split)

definition publication_only :: "client_effect \<Rightarrow> bool" where
  "publication_only e = (case e of
       SendSync (TerminalView _ _ _ _ _) \<Rightarrow> True
     | SendDirect _ (DirectView _ _ _ _) \<Rightarrow> True
     | _ \<Rightarrow> False)"

lemma publish_unwatched:
  assumes "unwatched st owner" "publish_view sid view_id now st = (st', out)"
  shows "unwatched st' owner \<and> (\<forall>e \<in> set out. publication_only e)"
proof (cases "cs_rotation_pending st")
  case True
  then show ?thesis using assms by (simp add: publish_view_def)
next
  case False
  obtain s where s: "cs_replica st = Some s" using assms(1) by (auto simp: unwatched_def)
  have t: "publication_target st = Some owner" "ts_generation s = Some owner"
    using assms(1) s by (auto simp: unwatched_def watchable_def elected_owner_def split: if_splits option.splits)
  show ?thesis
  proof (cases "view_of view_id s")
    case None
    then show ?thesis using assms False s t by (simp add: publish_view_def publish_view_on_token_def)
  next
    case (Some view)
    let ?s = "mark_view_published view_id (view_answer_generation owner) now s"
    have "st' = st\<lparr>cs_replica := Some ?s\<rparr>" "\<forall>e \<in> set out. publication_only e"
      using assms(2) False s t Some by (auto simp: publish_view_def publish_view_on_token_def bind_generation_def
          with_replica_def Let_def send_intent_with_def publication_only_def split: if_splits)
    moreover have "same_watch s ?s"
      using foreground_update [where f = "mark_published (view_answer_generation owner) now" and s = s and k = view_id]
      by (simp add: same_watch_def mark_view_published_def mark_published_def)
    ultimately show ?thesis using unwatched_same [OF assms(1) s, of st' ?s] by simp
  qed
qed

lemma republish_unwatched:
  assumes "unwatched st owner" "republish_due_views sid now st = (st', out)"
  shows "unwatched st' owner \<and> (\<forall>e \<in> set out. publication_only e)"
proof -
  let ?step = "\<lambda>(st, out) view_id. let (st, out') = publish_view sid view_id now st in (st, out @ out')"
  have "unwatched (fst (foldl ?step (st, acc) ids)) owner
      \<and> (\<forall>e \<in> set (snd (foldl ?step (st, acc) ids)). publication_only e)"
    if "unwatched st owner" "\<forall>e \<in> set acc. publication_only e" for ids st acc
    using that
  proof (induction ids arbitrary: st acc)
    case (Cons x ids)
    obtain st1 out1 where p: "publish_view sid x now st = (st1, out1)" by (cases "publish_view sid x now st")
    from publish_unwatched [OF Cons.prems(1) p] Cons.prems(2) Cons.IH [of st1 "acc @ out1"] p show ?case by auto
  qed simp
  note folded = this
  define ids where "ids = (case cs_replica st of None \<Rightarrow> [] | Some replica \<Rightarrow>
    map cv_view_id (filter (\<lambda>v. cv_intent v \<noteq> Unpublish \<and> heartbeat_due v now) (map snd (ts_views replica))))"
  have "foldl ?step (st, []) ids = (st', out)" using assms(2) by (simp add: republish_due_views_def ids_def)
  then show ?thesis using folded [OF assms(1), of "[]" ids] by simp
qed

lemma sweep_unwatched:
  assumes "unwatched st owner" "sweep_session sid now st = (st', out)"
  shows "unwatched st' owner \<and> (\<forall>e \<in> set out. publication_only e)"
proof -
  obtain s where s: "cs_replica st = Some s" using assms(1) by (auto simp: unwatched_def)
  have l: "rl_token (ts_latch s) = None" using assms(1) s by (simp add: unwatched_def)
  obtain s1 dropped where sw: "session_sweep now s = (s1, dropped)" by (cases "session_sweep now s")
  define st1 where "st1 = (if dropped then note_change (st\<lparr>cs_replica := Some s1\<rparr>) else st\<lparr>cs_replica := Some s1\<rparr>)"
  have r1: "cs_replica st1 = Some s1" "cs_sync st1 = cs_sync st" "cs_route st1 = cs_route st"
    by (simp_all add: st1_def note_change_def)
  have u1: "unwatched st1 owner"
    using unwatched_same [OF assms(1) s r1(1) _ r1(2,3)] same_watch_sweep [OF l, of now] sw by simp
  have "request_repair_if_due sid now st1 = (st1, [])"
    using u1 r1(1) by (auto simp: request_repair_if_due_def repair_request_def unwatched_def split: option.split)
  moreover have "sweep_foreground_liveness sid now st1 = (st1, [])"
    using u1 r1(1) by (auto simp: sweep_foreground_liveness_def arm_when_watchable_def proof_expiry_due_def
        quiet_expiry_due_def unwatched_def watchable_def)
  ultimately have "republish_due_views sid now st1 = (st', out)"
    using assms(2) s sw unfolding sweep_session_def by (simp add: st1_def [symmetric] split: prod.splits)
  from republish_unwatched [OF u1 this] show ?thesis .
qed

section \<open>A stalled answer silences the watchdog\<close>

fun sweeps :: "string \<Rightarrow> nat list \<Rightarrow> client_store \<Rightarrow> client_store \<times> client_effect list" where
  "sweeps sid [] st = (st, [])"
| "sweeps sid (now_ms # rest) st =
     (let (st, out) = sweep_session sid now_ms st; (st, out') = sweeps sid rest st in (st, out @ out'))"

lemma sweeps_unwatched:
  "unwatched st owner \<Longrightarrow> sweeps sid ticks st = (st', out) \<Longrightarrow> unwatched st' owner \<and> (\<forall>e \<in> set out. publication_only e)"
proof (induction ticks arbitrary: st out)
  case (Cons now ticks)
  obtain st1 out1 where s: "sweep_session sid now st = (st1, out1)" by (cases "sweep_session sid now st")
  obtain st2 out2 where r: "sweeps sid ticks st1 = (st2, out2)" by (cases "sweeps sid ticks st1")
  from Cons.prems s r have "st' = st2" "out = out1 @ out2" by simp_all
  with sweep_unwatched [OF Cons.prems(1) s] Cons.IH [of st1 out2] r show ?case by auto
qed simp

text \<open>A part that was taken belongs to the expected stream and leaves the proof deadline cleared.\<close>

lemma pending_part:
  assumes "admit_chunk ws chunk token now s = (s', ChunkPending)" "ts_generation s = Some token"
    "has_pending_challenge (ts_liveness s) token" "lv_challenge_stream_id (ts_liveness s) = ts_expected s"
    "lv_challenge_seq (ts_liveness s) = Some q" "\<forall>part. pbc_part chunk = Some part \<longrightarrow> q \<le> pb_seq part"
  shows "ts_liveness s' = clear_proof (ts_liveness s) \<and> ts_generation s' = Some token \<and> ts_expected s' = ts_expected s
    \<and> ts_latch s' = ts_latch s \<and> ts_views s' = ts_views s"
proof -
  obtain part where p: "pbc_part chunk = Some part" "Some (pb_stream_id part) = ts_expected s"
    and settled: "settle_chunk ws chunk token now (note_wire (pb_stream_id part) (pb_grid_epoch part) (pb_seq part)
      (note_chunk_progress token (pb_stream_id part) (pb_seq part) s)) = (s', ChunkPending)"
    using assms(1,2) by (auto simp: admit_chunk_def decode_chunk_part_def refuse_frame_def unbound_def Let_def
        split: option.splits if_splits prod.splits)
  have c: "chunk_arrives (ts_liveness s) token (pb_stream_id part) (pb_seq part)"
    using assms(3-6) p by (simp add: chunk_arrives_def)
  let ?s1 = "note_wire (pb_stream_id part) (pb_grid_epoch part) (pb_seq part) (s\<lparr>ts_liveness := clear_proof (ts_liveness s)\<rparr>)"
  have "settle_chunk ws chunk token now ?s1 = (s', ChunkPending)"
    using settled assms(2) c by (simp add: note_chunk_progress_def)
  moreover have "snd (admit_decoded d token now x) \<noteq> ChunkPending" for d x
    by (auto simp: admit_decoded_def refuse_frame_def Let_def split: prod.splits frame_fold_outcome.splits)
  moreover have "snd (refuse_frame reason token now x) \<noteq> ChunkPending" for reason x
    by (simp add: refuse_frame_def Let_def split: prod.split)
  ultimately obtain asm where "s' = set_chunk_in_flight True (?s1\<lparr>ts_assembler := asm\<rparr>)"
    unfolding settle_chunk_def Let_def
    by (auto split: prod.splits sum.splits cell_grid_chunk_assembly.splits) (metis snd_conv)+
  then show ?thesis using assms(2) by (simp add: note_wire_def set_chunk_in_flight_def)
qed

text \<open>
  C40: A baseline that starts to answer a challenge and then stalls leaves its pane unwatched. Take a
  watched pane on the coordinator link whose challenge is outstanding with no quiet probe armed, as the
  probe that sent it leaves it, and no gap latched. Once one part of the answering baseline is taken,
  then however many sweeps follow, at whatever instants, before and after the transfer's stall deadline,
  and as long as nothing else arrives: no sweep asks for a repair, challenges the pane or replaces the
  link, the challenge stays outstanding, and the pane holds neither a probe nor a proof deadline.
\<close>

theorem stalled_answer_unwatched:
  assumes "watchable st owner" "cs_replica st = Some s" "terminal_token_of (cs_sync st) = Some owner" "tk_transport owner = Sync"
    "has_pending_challenge (ts_liveness s) owner" "lv_quiet_due_ms (ts_liveness s) = None" "ts_latch s = latch_new"
    "lv_challenge_stream_id (ts_liveness s) = ts_expected s"
    "\<forall>part q. pbc_part chunk = Some part \<longrightarrow> lv_challenge_seq (ts_liveness s) = Some q \<longrightarrow> q \<le> pb_seq part"
    "liveness_ok (ts_liveness s)" "admit_chunk ws chunk owner now s = (s', ChunkPending)"
    "apply_cell_grid_chunk ws sid chunk now st = (st1, out1)" "sweeps sid ticks st1 = (st2, out2)"
  shows "(\<forall>e \<in> set (out1 @ out2). publication_only e) \<and> has_pending_challenge (liveness_of st2) owner
    \<and> lv_quiet_due_ms (liveness_of st2) = None \<and> lv_proof_due_ms (liveness_of st2) = None"
proof -
  obtain q where q: "lv_challenge_seq (ts_liveness s) = Some q"
    using assms(5,10) by (auto simp: has_pending_challenge_def liveness_ok_def)
  have g: "ts_generation s = Some owner" using watchable_owner [OF assms(1,2)] by simp
  from pending_part [OF assms(11) g assms(5,8) q] assms(9) q
  have s': "ts_liveness s' = clear_proof (ts_liveness s)" "ts_generation s' = Some owner" "ts_expected s' = ts_expected s"
    "ts_latch s' = ts_latch s" "ts_views s' = ts_views s" by auto
  have owns: "\<not> elected_direct_owns st" using assms(2,4) g by (simp add: elected_direct_owns_def)
  have st1: "st1 = note_fold (painted_mark s) (painted_mark s') (st\<lparr>cs_replica := Some s'\<rparr>)" "out1 = []"
    using assms(2,3,11,12) owns g
    by (auto simp: apply_cell_grid_chunk_def fold_into_elected_def bind_generation_def Let_def)
  then have r: "cs_replica st1 = Some s'" "cs_sync st1 = cs_sync st" "cs_route st1 = cs_route st"
    by (auto simp: note_fold_def note_change_def Let_def)
  have "publication_target st1 = publication_target st" using same_target r(2,3) by blast
  then have "watchable st1 owner"
    using assms(1,2) r s' g by (auto simp: watchable_def elected_owner_def foreground_view_def)
  then have "unwatched st1 owner"
    using r s' assms(5-7) by (simp add: unwatched_def clear_proof_def has_pending_challenge_def latch_new_def)
  from sweeps_unwatched [OF this assms(13)] st1(2) show ?thesis by (auto simp: unwatched_def liveness_of_def)
qed

lemma sample_first_part:
  assumes "ts_session_id s = ''s''" "ts_generation s = Some sample_token" "ts_assembler s = None" "ts_expected s = Some sample_stream"
  shows "\<exists>chunk s'. admit_chunk sample_sizes chunk sample_token 5 s = (s', ChunkPending)"
proof -
  let ?src = "\<lparr>src_frame = sample_frame,
    src_parts = Some [\<lparr>pp_entries = [\<lparr>se_history = False, se_index = 0\<rparr>], pp_encoded_part_bytes = 600044\<rparr>,
      \<lparr>pp_entries = [\<lparr>se_history = False, se_index = 1\<rparr>], pp_encoded_part_bytes = 600044\<rparr>]\<rparr>"
  have l: "wire_size_laws sample_sizes sample_frame" by (rule sample_sizes_lawful) (simp add: sample_rows)
  have u: "rows_u32 sample_frame" by (simp add: rows_u32_def sample_rows u32_max_def)
  have t: "timely [5, 10000]" by (simp add: timely_def chunk_limits nth_Cons')
  have id: "is_terminal_uuid ''00000000-0000-4000-8000-000000000007''"
    by (simp add: is_terminal_uuid_def UUID_LEN_def is_uuid_version_def is_uuid_variant_def
        is_ascii_hexdigit_def is_ascii_digit_def is_lower_hex_alpha_def enumerate_eq_zip upt_rec)
  have n: "part_count ?src = 2" by (simp add: part_count_def u32_max_def)
  obtain chunks x where c: "length chunks = 2" "feed sample_sizes assembler_new (zip chunks [5, 10000]) = (None, [Ok (Pending x 1), Ok (Complete x
      (sample_frame\<lparr>pb_viewport_rows := sort_key pbr_index (pb_viewport_rows sample_frame)\<rparr>))])"
    and parts: "\<forall>c \<in> set chunks. \<exists>v h. pbc_part c = Some (create_cell_grid_frame_part sample_frame v h)"
    using transfer_assembles [OF l u sample_source id t] unfolding n by auto
  then obtain c1 c2 where cs: "chunks = [c1, c2]" by (auto simp: length_Suc_conv numeral_2_eq_2)
  obtain asm r where p: "push sample_sizes None c1 5 = (asm, r)" by (cases "push sample_sizes None c1 5")
  with c(2) cs have r: "r = Ok (Pending x 1)" by (auto simp: assembler_new_def split: prod.splits)
  have "part_for_session s c1"
    using parts cs assms by (force simp: part_for_session_def create_cell_grid_frame_part_def sample_frame_def
        frame_message_def blank_frame_def sample_stream_def)
  from admit_chunk_settles [OF assms(2) this, of sample_sizes 5] p r assms(3)
  obtain s1 where "admit_chunk sample_sizes c1 sample_token 5 s = (set_chunk_in_flight True (s1\<lparr>ts_assembler := asm\<rparr>), ChunkPending)"
    by (auto simp: settle_chunk_def)
  then show ?thesis by blast
qed

theorem stalled_answer_unwatched_witness:
  "\<exists>chunk st1. fst (apply_cell_grid_chunk sample_sizes ''s'' chunk 5
        (sample_store (begin_challenge sample_token sample_stream 0 3 liveness_new))) = st1
     \<and> lv_proof_due_ms (liveness_of (fst (sweeps ''s'' [5000, 60000, 900000] st1))) = None
     \<and> lv_quiet_due_ms (liveness_of (fst (sweeps ''s'' [5000, 60000, 900000] st1))) = None
     \<and> (\<forall>e \<in> set (snd (sweeps ''s'' [5000, 60000, 900000] st1)). publication_only e)"
proof -
  let ?l = "begin_challenge sample_token sample_stream 0 3 liveness_new"
  let ?st = "sample_store ?l" and ?s = "sample_replica 2\<lparr>ts_liveness := ?l\<rparr>"
  have s: "cs_replica ?st = Some ?s" "terminal_token_of (cs_sync ?st) = Some sample_token"
    by (simp_all add: sample_store_def sample_sync_state)
  have x: "ts_expected ?s = Some sample_stream" by (simp add: sample_replica_state)
  have l: "has_pending_challenge ?l sample_token" "lv_quiet_due_ms ?l = None" "lv_challenge_stream_id ?l = Some sample_stream"
    "lv_challenge_seq ?l = Some 0" by (simp_all add: liveness_defs liveness_new_def)
  obtain chunk s' where c: "admit_chunk sample_sizes chunk sample_token 5 ?s = (s', ChunkPending)"
    using sample_first_part [of ?s] by (auto simp: sample_replica_state)
  obtain st1 out1 where a: "apply_cell_grid_chunk sample_sizes ''s'' chunk 5 ?st = (st1, out1)"
    by (cases "apply_cell_grid_chunk sample_sizes ''s'' chunk 5 ?st")
  obtain st2 out2 where w: "sweeps ''s'' [5000, 60000, 900000] st1 = (st2, out2)"
    by (cases "sweeps ''s'' [5000, 60000, 900000] st1")
  have "tk_transport sample_token = Sync" by (simp add: sample_token_def token_sync_def)
  from stalled_answer_unwatched [OF sample_store_watchable(1) s this _ _ _ _ _ _ c a w]
  have "(\<forall>e \<in> set (out1 @ out2). publication_only e) \<and> has_pending_challenge (liveness_of st2) sample_token
    \<and> lv_quiet_due_ms (liveness_of st2) = None \<and> lv_proof_due_ms (liveness_of st2) = None"
    using l x by (simp add: sample_replica_state liveness_keeps_ok)
  with a w show ?thesis by (intro exI [of _ chunk] exI [of _ st1]) auto
qed

end
