(* ===== verification/Client_Dialing.thy ===== *)
theory Client_Dialing
  imports Client_Promises
begin

text \<open>
  The life of the client's Sync socket under every order of host calls: the generations it dials, what
  a refused credential ends, and how a link the watchdog gave up on is replaced.
\<close>

section \<open>The socket as a machine\<close>

datatype link_op =
    Dialed nat
  | Opened nat string string nat
  | FrameSeen nat nat
  | Announced nat "(sync_domain \<times> nat \<times> bool) list"
  | DomainWasReset nat sync_domain nat bool
  | SnapshotIssued nat sync_domain string
  | DomainReady nat sync_domain "string option"
  | Retained retained_frame
  | RetainedTaken
  | Closed nat "nat option" string bool nat
  | Swept bool nat nat
  | Triggered sync_domain nat nat
  | Woken bool nat
  | Visible bool nat
  | Controlled transport_control nat
  | Replaced string

fun exec_link :: "link_op \<Rightarrow> sync_state \<Rightarrow> sync_state \<times> link_effect list" where
  "exec_link (Dialed now_ms) s = dial now_ms s"
| "exec_link (Opened g socket epoch now_ms) s = (fst (open_link g socket epoch now_ms s), [])"
| "exec_link (FrameSeen g now_ms) s =
     (let (s, accepted) = note_frame g now_ms s
      in (if accepted then s\<lparr>sy_redial := note_frame_received (sy_redial s)\<rparr> else s, []))"
| "exec_link (Announced g entries) s = (fst (install_subscribed g entries s), [])"
| "exec_link (DomainWasReset g d announced subscribed) s = (fst (reset_domain g d announced subscribed s), [])"
| "exec_link (SnapshotIssued g d token) s = (fst (issue_snapshot_token g d token s), [])"
| "exec_link (DomainReady g d token) s = (fst (mark_domain_ready g d token s), [])"
| "exec_link (Retained frame) s = (retain frame s, [])"
| "exec_link RetainedTaken s = (fst (take_retained s), [])"
| "exec_link (Closed g code reason checking now_ms) s = (fst (link_closed g code reason checking now_ms s), [])"
| "exec_link (Swept checking now_ms next_call_id) s =
     (let ((_, s), out) = sweep_sync checking now_ms (next_call_id, s) in (s, out))"
| "exec_link (Triggered d now_ms next_call_id) s =
     (let ((_, s), out) = trigger_hydration d now_ms (next_call_id, s) in (s, out))"
| "exec_link (Woken allow_hidden now_ms) s = on_wake allow_hidden now_ms s"
| "exec_link (Visible visible now_ms) s = on_visibility visible now_ms s"
| "exec_link (Controlled control now_ms) s = on_transport_control control now_ms s"
| "exec_link (Replaced reason) s = request_link_replacement reason s"

text \<open>The run of a list of calls with the effects it asked for, in order.\<close>

definition step_link :: "link_op \<Rightarrow> sync_state \<times> link_effect list \<Rightarrow> sync_state \<times> link_effect list" where
  "step_link op = (\<lambda>(s, done_effects). let (s', out) = exec_link op s in (s', done_effects @ out))"

fun dialled :: "link_effect list \<Rightarrow> nat list" where
  "dialled [] = []"
| "dialled (DialSync g _ # es) = g # dialled es"
| "dialled (CloseSyncLink _ _ # es) = dialled es"
| "dialled (SnapshotCall _ _ # es) = dialled es"
| "dialled (ProbeCall _ # es) = dialled es"

lemma dialled_append [simp]: "dialled (xs @ ys) = dialled xs @ dialled ys"
  by (induction xs rule: dialled.induct) simp_all

text \<open>
  What every state of the socket satisfies: the live link is open and accepting, domains are announced on
  a live link only, the frames held back for a snapshot are bounded, and at most one snapshot call is in
  flight for each domain. With the effects asked for so far, and until the 64-bit counter is exhausted,
  the generations dialled are one, two, three and so on, and the live link carries an earlier value of it.
\<close>

definition link_ok :: "sync_state \<Rightarrow> bool" where
  "link_ok s \<longleftrightarrow> (\<forall>l. sy_link s = Some l \<longrightarrow> sl_open l \<and> sl_accepting l)
     \<and> (sy_link s = None \<longrightarrow> sy_domains s = Map.empty)
     \<and> length (sy_retained s) \<le> SYNC_RETAINED_FRAME_MAX \<and> hydrations_ok (sy_hydrations s)"

definition dialling_ok :: "sync_state \<times> link_effect list \<Rightarrow> bool" where
  "dialling_ok = (\<lambda>(s, es). link_ok s
     \<and> (length (dialled es) < u64_max \<longrightarrow> dialled es = [1..<sy_next_generation s] \<and> 0 < sy_next_generation s
          \<and> (\<forall>g. link_generation s = Some g \<longrightarrow> g < sy_next_generation s)))"

text \<open>A call that admits no link, and how a call that dials continues the numbering.\<close>

definition keeps_link :: "sync_state \<Rightarrow> sync_state \<Rightarrow> bool" where
  "keeps_link s s' \<longleftrightarrow> (\<forall>g. link_generation s' = Some g \<longrightarrow> link_generation s = Some g)"

definition numbers_on :: "sync_state \<Rightarrow> sync_state \<times> link_effect list \<Rightarrow> bool" where
  "numbers_on s r \<longleftrightarrow> link_ok (fst r) \<and> keeps_link s (fst r)
     \<and> (0 < sy_next_generation s \<and> sy_next_generation s + length (dialled (snd r)) \<le> u64_max \<longrightarrow>
          dialled (snd r) = [sy_next_generation s..<sy_next_generation (fst r)] \<and> sy_next_generation s \<le> sy_next_generation (fst r))"

text \<open>A call that dials nothing: the link record, its domains and the effects may change, the numbering does not.\<close>

definition dials_nothing :: "sync_state \<Rightarrow> sync_state \<times> link_effect list \<Rightarrow> bool" where
  "dials_nothing s r \<longleftrightarrow> sy_next_generation (fst r) = sy_next_generation s \<and> dialled (snd r) = []
     \<and> sy_auth_revoked (fst r) = sy_auth_revoked s \<and> keeps_link s (fst r)"

lemma quiet_numbers_on: "link_ok (fst r) \<and> dials_nothing s r \<Longrightarrow> numbers_on s r"
  by (simp add: numbers_on_def dials_nothing_def)

lemma link_ok_redial [simp]: "link_ok (s\<lparr>sy_redial := r\<rparr>) = link_ok s"
  by (simp add: link_ok_def)

lemma keeps_link_refl [simp]: "keeps_link s s"
  by (simp add: keeps_link_def)

lemma keeps_link_trans: "keeps_link a b \<Longrightarrow> keeps_link b c \<Longrightarrow> keeps_link a c"
  by (simp add: keeps_link_def)

lemma keeps_link_updates [simp]:
  "keeps_link s (s\<lparr>sy_redial := r\<rparr>)" "keeps_link s (s\<lparr>sy_hydrations := h\<rparr>)"
  "keeps_link (s\<lparr>sy_redial := r\<rparr>) s' = keeps_link s s'" "keeps_link (s\<lparr>sy_hydrations := h\<rparr>) s' = keeps_link s s'"
  by (simp_all add: keeps_link_def link_generation_def)

lemma replacement_ok:
  "link_ok s \<Longrightarrow> link_ok (fst (request_link_replacement reason s)) \<and> dials_nothing s (request_link_replacement reason s)"
  by (auto simp: request_link_replacement_def request_redial_def link_ok_def dials_nothing_def keeps_link_def link_generation_def split: option.split)

lemma open_link_ok: "link_ok s \<Longrightarrow> link_ok (fst (open_link g a b n s))"
  by (auto simp: open_link_def link_ok_def split: option.splits if_splits)

lemma reset_domain_ok: "link_ok s \<Longrightarrow> link_ok (fst (reset_domain g d m c s)) \<and> dials_nothing s (fst (reset_domain g d m c s), [])"
  by (auto simp: reset_domain_def accepts_def link_ok_def dials_nothing_def keeps_link_def link_generation_def split: option.splits if_splits)

lemma issue_snapshot_token_ok: "link_ok s \<Longrightarrow> link_ok (fst (issue_snapshot_token g d t s)) \<and> dials_nothing s (fst (issue_snapshot_token g d t s), [])"
  by (auto simp: issue_snapshot_token_def accepts_def link_ok_def dials_nothing_def keeps_link_def link_generation_def split: option.splits if_splits)

lemma mark_domain_ready_ok: "link_ok s \<Longrightarrow> link_ok (fst (mark_domain_ready g d u s)) \<and> dials_nothing s (fst (mark_domain_ready g d u s), [])"
  by (auto simp: mark_domain_ready_def accepts_def link_ok_def dials_nothing_def keeps_link_def link_generation_def split: option.splits if_splits)

lemma note_frame_ok: "link_ok s \<Longrightarrow> link_ok (fst (note_frame g n s)) \<and> dials_nothing s (fst (note_frame g n s), [])"
  by (cases "sy_link s") (auto simp add: note_frame_def link_ok_def dials_nothing_def keeps_link_def link_generation_def)

lemma retain_ok: "link_ok s \<Longrightarrow> link_ok (retain f s) \<and> dials_nothing s (retain f s, [])"
  by (auto simp: retain_def SYNC_RETAINED_FRAME_MAX_def Let_def link_ok_def dials_nothing_def keeps_link_def link_generation_def split: option.splits if_splits)

lemma take_retained_ok: "link_ok s \<Longrightarrow> link_ok (fst (take_retained s)) \<and> dials_nothing s (fst (take_retained s), [])"
  by (auto simp: take_retained_def link_ok_def dials_nothing_def keeps_link_def link_generation_def split: option.splits if_splits)

lemmas domain_calls_ok = reset_domain_ok issue_snapshot_token_ok mark_domain_ready_ok note_frame_ok
  retain_ok take_retained_ok

lemma announcements: "\<exists>domains. foldl announce_domain s entries = s\<lparr>sy_domains := domains\<rparr>"
proof (induction entries arbitrary: s)
  case Nil
  show ?case by (intro exI [of _ "sy_domains s"]) simp
next
  case (Cons e entries)
  obtain m where "announce_domain s e = s\<lparr>sy_domains := m\<rparr>" by (cases e) (auto simp: announce_domain_def)
  with Cons.IH [of "announce_domain s e"] show ?case by auto
qed

lemma install_subscribed_ok:
  assumes "link_ok s"
  shows "link_ok (fst (install_subscribed g entries s)) \<and> dials_nothing s (fst (install_subscribed g entries s), [])"
  using assms announcements [of s entries]
  by (auto simp: install_subscribed_def accepts_def link_ok_def dials_nothing_def keeps_link_def link_generation_def)

lemma closed_ok:
  assumes "link_ok s"
  shows "link_ok (fst (link_closed g code reason checking now s))"
    "sy_next_generation (fst (link_closed g code reason checking now s)) = sy_next_generation s"
    "keeps_link s (fst (link_closed g code reason checking now s))"
  using assms by (auto simp: link_closed_def close_link_def link_ok_def Let_def hydration_calls_ok keeps_link_def link_generation_def split: option.splits)

lemma dial_ok:
  assumes "link_ok s"
  shows "numbers_on s (dial now s)"
  using assms by (auto simp: numbers_on_def dial_def begin_dial_def link_ok_def Let_def hydration_calls_ok keeps_link_def link_generation_def)

text \<open>A call that dials nothing may follow one that does.\<close>

lemma numbers_then_quiet:
  assumes "numbers_on s (s1, out1)" "link_ok s2" "dials_nothing s1 (s2, out2)"
  shows "numbers_on s (s2, out1 @ out2)"
  using assms keeps_link_trans [of s s1 s2] by (auto simp: numbers_on_def dials_nothing_def)

lemma sweep_link_ok:
  assumes "link_ok s"
  shows "numbers_on s (sweep_link now s)"
proof -
  obtain r due where t: "take_due now (sy_redial s) = (r, due)" by (cases "take_due now (sy_redial s)")
  let ?s = "s\<lparr>sy_redial := r\<rparr>"
  obtain s1 out1 where d: "(if due then dial now ?s else (?s, [])) = (s1, out1)" by (cases "if due then dial now ?s else (?s, [])")
  have ok: "numbers_on s (s1, out1)"
  proof (cases due)
    case True
    then show ?thesis using dial_ok [of ?s now] assms d by (auto simp: numbers_on_def)
  qed (use assms d in \<open>auto simp: numbers_on_def\<close>)
  then have ok1: "link_ok s1" by (simp add: numbers_on_def)
  obtain s2 out2 where p: "request_link_replacement ''stale'' s1 = (s2, out2)" by (cases "request_link_replacement ''stale'' s1")
  have "sweep_link now s = (s1, out1) \<or> sweep_link now s = (s2, out1 @ out2)"
    unfolding sweep_link_def t Let_def using d p by (auto split: option.split)
  then show ?thesis using ok numbers_then_quiet [OF ok] replacement_ok [OF ok1, of "''stale''"] p by auto
qed

text \<open>Snapshot calls dial nothing.\<close>

lemma link_ok_hydrations: "link_ok s \<Longrightarrow> hydrations_ok h \<Longrightarrow> link_ok (s\<lparr>sy_hydrations := h\<rparr>)"
  by (simp add: link_ok_def)

lemma trigger_ok:
  assumes "link_ok s" "trigger_hydration d now (i, s) = ((i', s'), out)"
  shows "link_ok s' \<and> dials_nothing s (s', out)"
  using assms by (auto simp: trigger_hydration_def dials_nothing_def hydration_call_def link_ok_def hydration_begin_ok keeps_link_def link_generation_def
      split: option.splits if_splits)

lemma retries_ok:
  assumes "link_ok s" "fold (retry_hydration now) due ((i, s), out) = ((i', s'), out')" "dialled out = []"
  shows "link_ok s' \<and> dials_nothing s (s', out')"
  using assms
proof (induction due arbitrary: i s out)
  case Nil
  then show ?case by (simp add: dials_nothing_def)
next
  case (Cons x due)
  obtain d g n where x: "x = (d, g, n)" by (cases x)
  obtain j s1 o1 where tr: "trigger_hydration d now (i, s) = ((j, s1), o1)" by (metis prod.collapse)
  have ok: "link_ok s1" "dials_nothing s (s1, o1)" using trigger_ok [OF Cons.prems(1) tr] by simp_all
  show ?case
  proof (cases "link_generation s = Some g \<and> domain_generation s d = Some n")
    case True
    then have "fold (retry_hydration now) due ((j, s1), out @ o1) = ((i', s'), out')"
      using Cons.prems(2) tr by (simp add: x retry_hydration_def)
    with Cons.IH [OF ok(1)] ok(2) Cons.prems(3) show ?thesis by (auto simp: dials_nothing_def intro: keeps_link_trans)
  next
    case False
    then show ?thesis using Cons.IH [OF Cons.prems(1)] Cons.prems(2,3) by (auto simp: x retry_hydration_def)
  qed
qed

lemma expired_ok:
  assumes "link_ok s"
  shows "\<exists>h. hydrations_ok h \<and> fold (\<lambda>ticket s. if ticket_is_current s ticket then schedule_retry ticket now s else s) expired s
    = s\<lparr>sy_hydrations := h\<rparr>"
  using assms
proof (induction expired arbitrary: s)
  case Nil
  then show ?case by (intro exI [of _ "sy_hydrations s"]) (simp add: link_ok_def)
next
  case (Cons ticket expired)
  let ?h = "fst (hydration_schedule_retry ticket now (sy_hydrations s))"
  have "link_ok (s\<lparr>sy_hydrations := ?h\<rparr>)" using Cons.prems by (simp add: link_ok_def hydration_calls_ok)
  with Cons.IH [of "s\<lparr>sy_hydrations := ?h\<rparr>"] Cons.IH [of s] Cons.prems show ?case by (auto simp: schedule_retry_def)
qed

lemma sweep_hydrations_ok:
  assumes "link_ok s" "sweep_hydrations now (i, s) = ((i', s'), out)"
  shows "link_ok s' \<and> dials_nothing s (s', out)"
proof -
  obtain h expired where e: "take_expired now (sy_hydrations s) = (h, expired)" by (cases "take_expired now (sy_hydrations s)")
  have "link_ok (s\<lparr>sy_hydrations := h\<rparr>)"
    using assms(1) hydration_calls_ok(5) [of "sy_hydrations s" now] e by (simp add: link_ok_def)
  then obtain h1 where h1: "hydrations_ok h1" "fold (\<lambda>ticket s. if ticket_is_current s ticket then schedule_retry ticket now s else s) expired
      (s\<lparr>sy_hydrations := h\<rparr>) = s\<lparr>sy_hydrations := h1\<rparr>" using expired_ok by fastforce
  obtain h2 due where d: "take_due_retries now h1 = (h2, due)" by (cases "take_due_retries now h1")
  have ok: "link_ok (s\<lparr>sy_hydrations := h2\<rparr>)"
    using assms(1) hydration_calls_ok(4) [OF h1(1), of now] d by (simp add: link_ok_def)
  have "fold (retry_hydration now) due ((i, s\<lparr>sy_hydrations := h2\<rparr>), []) = ((i', s'), out)"
    using assms(2) by (simp add: sweep_hydrations_def e h1(2) d)
  from retries_ok [OF ok this] show ?thesis by (simp add: dials_nothing_def)
qed

lemma sweep_sync_ok:
  assumes "link_ok s" "sweep_sync checking now (i, s) = ((i', s'), out)"
  shows "numbers_on s (s', out)"
proof -
  obtain s1 out1 where a: "sweep_link now s = (s1, out1)" by (cases "sweep_link now s")
  obtain j s2 out2 where b: "sweep_hydrations now (i, s1) = ((j, s2), out2)" by (metis prod.collapse)
  have ok1: "numbers_on s (s1, out1)" using sweep_link_ok [OF assms(1), of now] a by simp
  then have "link_ok s1" by (simp add: numbers_on_def)
  then have ok2: "link_ok s2" "dials_nothing s1 (s2, out2)" using sweep_hydrations_ok [OF _ b] by simp_all
  have h: "hydrations_ok (fst (take_probe_due now (sy_hydrations s2)))" "hydrations_ok (sy_hydrations s2)"
    using ok2(1) by (simp_all add: link_ok_def hydration_calls_ok)
  define h3 due where "h3 = fst (if checking then take_probe_due now (sy_hydrations s2) else (sy_hydrations s2, False))"
    and "due = snd (if checking then take_probe_due now (sy_hydrations s2) else (sy_hydrations s2, False))"
  have h3: "hydrations_ok h3" using h by (simp add: h3_def)
  have "sweep_sync checking now (i, s) = (let ((i, s), out3) = (if due then start_bootstrap_probe (j, s2\<lparr>sy_hydrations := h3\<rparr>)
      else ((j, s2\<lparr>sy_hydrations := h3\<rparr>), [])) in ((i, s), out1 @ out2 @ out3))"
    by (simp add: sweep_sync_def a b h3_def due_def split: prod.split)
  then have "\<exists>h' out3. s' = s2\<lparr>sy_hydrations := h'\<rparr> \<and> hydrations_ok h' \<and> out = out1 @ out2 @ out3 \<and> dialled out3 = []"
    using assms(2) h3 by (cases due) (auto simp: start_bootstrap_probe_def hydration_calls_ok)
  then obtain h' out3 where r: "s' = s2\<lparr>sy_hydrations := h'\<rparr>" "hydrations_ok h'" "out = out1 @ out2 @ out3" "dialled out3 = []" by blast
  have "dials_nothing s1 (s', out2 @ out3)" using ok2(2) r keeps_link_trans [of s1 s2 s'] by (simp add: dials_nothing_def)
  with numbers_then_quiet [OF ok1] ok2(1) r show ?thesis by (simp add: link_ok_hydrations)
qed

lemma wake_ok:
  assumes "link_ok s"
  shows "link_ok (fst (on_wake allow now s)) \<and> dials_nothing s (on_wake allow now s)"
  using assms replacement_ok [of "s\<lparr>sy_redial := r\<rparr>" "''visibility''" for r]
  by (auto simp: on_wake_def dials_nothing_def Let_def split: prod.splits bool.splits)

lemma control_ok:
  assumes "link_ok s"
  shows "link_ok (fst (on_transport_control c now s)) \<and> dials_nothing s (on_transport_control c now s)"
  using assms replacement_ok [of "s\<lparr>sy_redial := r\<rparr>" reason for r reason]
  by (cases c) (auto simp: dials_nothing_def)

fun is_Opened :: "link_op \<Rightarrow> bool" where
  "is_Opened (Opened _ _ _ _) = True"
| "is_Opened _ = False"

lemma exec_link_numbers:
  assumes "link_ok s" "\<not> is_Opened op"
  shows "numbers_on s (exec_link op s)"
proof (cases op)
  case (Dialed n)
  then show ?thesis using dial_ok [OF assms(1), of n] by simp
next
  case (FrameSeen g n)
  have "numbers_on s (exec_link (FrameSeen g n) s)"
    using note_frame_ok [OF assms(1), of g n] by (auto simp: dials_nothing_def numbers_on_def intro: keeps_link_trans split: prod.split)
  then show ?thesis using FrameSeen by simp
next
  case (Visible v n)
  have "link_ok (s\<lparr>sy_redial := (sy_redial s)\<lparr>sr_visible := v\<rparr>\<rparr>)" using assms(1) by simp
  from wake_ok [OF this, of False n] show ?thesis using Visible assms(1)
    by (cases v) (simp_all add: on_visibility_def dials_nothing_def numbers_on_def Let_def)
next
  case (Swept c n i)
  obtain j s' out where r: "sweep_sync c n (i, s) = ((j, s'), out)" by (metis prod.collapse)
  then show ?thesis using Swept sweep_sync_ok [OF assms(1) r] by simp
next
  case (Triggered d n i)
  obtain j s' out where r: "trigger_hydration d n (i, s) = ((j, s'), out)" by (metis prod.collapse)
  then show ?thesis using Triggered trigger_ok [OF assms(1) r] by (simp add: quiet_numbers_on)
next
  case (Closed g c r k n)
  then show ?thesis using closed_ok [OF assms(1), of g c r k n] by (simp add: numbers_on_def)
next
  case (Announced g es)
  then show ?thesis using install_subscribed_ok [OF assms(1), of g es] by (simp add: quiet_numbers_on)
next
  case (Controlled c n)
  then show ?thesis using control_ok [OF assms(1), of c n] by (simp add: quiet_numbers_on)
next
  case (Woken b n)
  then show ?thesis using wake_ok [OF assms(1), of b n] by (simp add: quiet_numbers_on)
next
  case (Replaced r)
  then show ?thesis using replacement_ok [OF assms(1), of r] by (simp add: quiet_numbers_on)
next
  case (Opened g socket epoch n)
  then show ?thesis using assms(2) by simp
qed (simp_all add: quiet_numbers_on domain_calls_ok [OF assms(1)])

text \<open>Only the generation the counter handed out last is admitted, and only where no link is live.\<close>

lemma opened_admits:
  assumes "0 < sy_next_generation s" "sy_next_generation s \<le> u64_max"
  shows "exec_link (Opened g socket epoch now) s =
    (if Suc g = sy_next_generation s \<and> sy_link s = None
     then (s\<lparr>sy_link := Some \<lparr>sl_generation = g, sl_socket_id = socket, sl_process_epoch = epoch, sl_open = True,
             sl_accepting = True, sl_last_frame_at_ms = now\<rparr>, sy_domains := Map.empty, sy_retained := []\<rparr>, [])
     else (s, []))"
  using assms by (auto simp: open_link_def bump64_def)

lemma dialling_step:
  assumes "dialling_ok (s, es)"
  shows "dialling_ok (step_link op (s, es))"
proof (cases "is_Opened op")
  case True
  then obtain g socket epoch now where op: "op = Opened g socket epoch now" by (cases op) auto
  have "link_ok s" using assms by (simp add: dialling_ok_def)
  then have "link_ok (fst (exec_link op s))" by (simp add: op open_link_ok)
  with assms show ?thesis by (auto simp: dialling_ok_def step_link_def op open_link_def link_generation_def bump64_def)
next
  case False
  obtain s' out where r: "exec_link op s = (s', out)" by (cases "exec_link op s")
  have n: "numbers_on s (s', out)" using exec_link_numbers [OF _ False, of s] assms r by (simp add: dialling_ok_def)
  show ?thesis
  proof (cases "length (dialled (es @ out)) < u64_max")
    case True
    then have d: "dialled es = [1..<sy_next_generation s]" "0 < sy_next_generation s"
      "\<forall>g. link_generation s = Some g \<longrightarrow> g < sy_next_generation s" using assms by (auto simp: dialling_ok_def)
    have "sy_next_generation s + length (dialled out) \<le> u64_max" using True d(1,2) by simp
    then have o: "dialled out = [sy_next_generation s..<sy_next_generation s']"
      "sy_next_generation s \<le> sy_next_generation s'" using n d(2) by (auto simp: numbers_on_def)
    have "[1..<sy_next_generation s] @ [sy_next_generation s..<sy_next_generation s'] = [1..<sy_next_generation s']"
      using d(2) o(2) upt_add_eq_append [of 1 "sy_next_generation s" "sy_next_generation s' - sy_next_generation s"] by simp
    then have "dialled (es @ out) = [1..<sy_next_generation s']" using d(1) o(1) by simp
    moreover have "link_generation s' = Some g \<longrightarrow> g < sy_next_generation s'" for g
      using n d(3) o(2) by (auto simp: numbers_on_def keeps_link_def)
    ultimately show ?thesis using n d(2) o(2) by (auto simp: dialling_ok_def step_link_def r numbers_on_def)
  qed (use n in \<open>auto simp: dialling_ok_def step_link_def r numbers_on_def\<close>)
qed

interpretation dialling: invariant_machine dialling_ok "\<lambda>_. True" step_link
proof
  fix x :: "sync_state \<times> link_effect list" and op
  assume "dialling_ok x"
  then show "dialling_ok (step_link op x)" using dialling_step [of "fst x" "snd x" op] by simp
qed

text \<open>From a fresh client, after any calls in any order.\<close>

lemma link_run_ok: "dialling_ok (fold step_link ops (sync_new storage, []))"
  by (rule dialling.run_invar)
    (simp_all add: dialling_ok_def link_ok_def sync_new_def hydrations_new_ok list_all_iff link_generation_def)

text \<open>
  C33: A socket generation names one dial, and only the latest can become the link. After any sequence of
  host calls from a fresh client, in any order, while there is no live link no domain is announced and no
  token exists, the frames held back for a snapshot stay within their bound, and at most one snapshot call
  is in flight for each domain. As long as fewer than \<open>2\<^sup>6\<^sup>4 - 1\<close> dials were made, so that the 64-bit counter
  has not wrapped: the generations dialled are one, two, three and so on without a gap or a repeat; the
  token the terminal is served under carries a number the counter has passed; an open is admitted exactly
  when it names the number of dials made, that is the generation dialled last (or zero before the first
  dial), and no link is live, and every other open changes nothing; and no other call ever brings in a
  link. A link once admitted stays live while a later generation is dialled beside it: it is replaced only
  after it closes.
\<close>

theorem generations_never_reused:
  assumes "fold step_link ops (sync_new storage, []) = (s, es)"
  shows "(link_generation s = None \<longrightarrow> sy_domains s = Map.empty \<and> terminal_token_of s = None)
    \<and> length (sy_retained s) \<le> SYNC_RETAINED_FRAME_MAX \<and> hydrations_ok (sy_hydrations s)
    \<and> (\<forall>op g. link_generation s = None \<and> link_generation (fst (exec_link op s)) = Some g \<longrightarrow>
         (\<exists>socket epoch now. op = Opened g socket epoch now))
    \<and> (\<forall>op g g'. link_generation s = Some g \<and> link_generation (fst (exec_link op s)) = Some g' \<longrightarrow> g' = g)
    \<and> (length (dialled es) < u64_max \<longrightarrow>
         dialled es = [1..<sy_next_generation s]
         \<and> (\<forall>t. terminal_token_of s = Some t \<longrightarrow> tk_socket_generation t < sy_next_generation s)
         \<and> (\<forall>g socket epoch now.
              if g = length (dialled es) \<and> link_generation s = None
              then link_generation (fst (exec_link (Opened g socket epoch now) s)) = Some g
              else exec_link (Opened g socket epoch now) s = (s, [])))"
proof -
  have ok: "link_ok s" and numbering: "length (dialled es) < u64_max \<Longrightarrow> dialled es = [1..<sy_next_generation s] \<and> 0 < sy_next_generation s
      \<and> (\<forall>g. link_generation s = Some g \<longrightarrow> g < sy_next_generation s)"
    using link_run_ok [of ops storage] assms by (auto simp: dialling_ok_def)
  have links: "keeps_link s (fst (exec_link op s)) \<or> (\<exists>g socket epoch now. op = Opened g socket epoch now
      \<and> fst (exec_link op s) = fst (open_link g socket epoch now s))" for op
    using exec_link_numbers [OF ok, of op] by (cases "is_Opened op") (auto simp: numbers_on_def elim: is_Opened.elims)
  have entry: "\<exists>socket epoch now. op = Opened g socket epoch now"
    if "link_generation s = None" "link_generation (fst (exec_link op s)) = Some g" for op g
    using links [of op] that by (auto simp: keeps_link_def open_link_def link_generation_def split: if_splits)
  have stays: "g' = g" if "link_generation s = Some g" "link_generation (fst (exec_link op s)) = Some g'" for op g g'
    using links [of op] that by (auto simp: keeps_link_def open_link_def link_generation_def split: if_splits)
  have bounds: "(link_generation s = None \<longrightarrow> sy_domains s = Map.empty \<and> terminal_token_of s = None)
      \<and> length (sy_retained s) \<le> SYNC_RETAINED_FRAME_MAX \<and> hydrations_ok (sy_hydrations s)"
    using ok by (simp add: link_ok_def terminal_token_of_def link_generation_def)
  show ?thesis
  proof (cases "length (dialled es) < u64_max")
    case True
    then have d: "dialled es = [1..<sy_next_generation s]" "0 < sy_next_generation s"
      "\<forall>g. link_generation s = Some g \<longrightarrow> g < sy_next_generation s" using numbering by auto
    have "Suc (length (dialled es)) = sy_next_generation s" using d(1,2) by simp
    moreover from this have "sy_next_generation s \<le> u64_max" using True by simp
    ultimately have "if g = length (dialled es) \<and> link_generation s = None
        then link_generation (fst (exec_link (Opened g socket epoch now) s)) = Some g
        else exec_link (Opened g socket epoch now) s = (s, [])" for g socket epoch now
      using opened_admits [OF d(2)] by (auto simp: link_generation_def)
    moreover have "\<forall>t. terminal_token_of s = Some t \<longrightarrow> tk_socket_generation t < sy_next_generation s"
      using d(3) by (auto simp: terminal_token_of_def link_generation_def token_sync_def)
    ultimately show ?thesis using bounds entry stays d(1) by blast
  qed (use bounds entry stays in blast)
qed

theorem generations_never_reused_witness:
  "\<exists>s es. fold step_link [Dialed 0, Closed 1 None '''' False 0, Swept False 1000 7, Opened 2 ''a'' ''e'' 1001] (sync_new Map.empty, []) = (s, es)
    \<and> dialled es = [1, 2] \<and> length (sy_retained s) \<le> 512"
proof -
  let ?ops = "[Dialed 0, Closed 1 None '''' False 0, Swept False 1000 7, Opened 2 ''a'' ''e'' 1001]"
  obtain s es where r: "fold step_link ?ops (sync_new Map.empty, []) = (s, es)"
    by (cases "fold step_link ?ops (sync_new Map.empty, [])")
  have "sy_next_generation s = 3 \<and> length (dialled es) = 2"
    using r by (auto simp: bump64_def step_link_def dial_def sync_new_def begin_dial_def note_dial_started_def redial_new_def
        link_closed_def close_link_def link_generation_def dial_count_def close_abort_reason_def classify_close_def
        schedule_after_close_def is_immediate_sync_redial_def should_park_redial_def next_redial_delay_ms_def
        saturating_add32_def saturating_add64_def u32_max_def u64_max_def SYNC_REDIAL_BASE_MS_def SYNC_REDIAL_MAX_MS_def
        sweep_sync_def sweep_link_def sweep_hydrations_def take_expired_def take_due_retries_def hydrations_new_def
        hydrations_dial_started_def clear_for_new_socket_def btree_retain_def btree_map_def take_due_def open_link_def Let_def)
  moreover have "(2::nat) < u64_max" by (simp add: u64_max_def)
  ultimately have "dialled es = [1, 2]" "length (sy_retained s) \<le> 512"
    using generations_never_reused [OF r] by (auto simp: SYNC_RETAINED_FRAME_MAX_def upt_rec)
  then show ?thesis using r by blast
qed

section \<open>A silent link is replaced at once\<close>

lemma probe_keeps_sync [simp]: "cs_sync (fst (watchdog_probe sid now st)) = cs_sync st"
proof -
  have "cs_sync (retire_watched r x) = cs_sync x" for r x
    by (simp add: retire_watched_def with_replica_def split: option.split)
  moreover have "cs_sync (fst (publish_challenge sid owner now x)) = cs_sync x" for owner x
    by (simp add: publish_challenge_def with_replica_def split: option.split)
  ultimately show ?thesis
    by (simp add: watchdog_probe_def Let_def split: watch.split prod.split) (metis fst_conv with_liveness_simps(1))
qed

lemma arm_keeps_sync [simp]: "cs_sync (arm_when_watchable now st) = cs_sync st"
  by (simp add: arm_when_watchable_def split: option.split)

text \<open>The close of a link the watchdog replaced is answered by a dial, without a backoff.\<close>

lemma replaced_link_redials:
  assumes "accepts s g" "dial_count s = g" "\<not> sy_auth_revoked s"
    "\<not> sr_hidden_parked (sy_redial s)" "\<not> sr_smoke_paused (sy_redial s)"
    "code \<noteq> Some SYNC_AUTH_REVOKED_CLOSE_CODE" "t \<le> later"
  shows "snd (sweep_link later (fst (link_closed g code reason checking t (fst (request_link_replacement LIVENESS_REASON s)))))
    = [DialSync (sy_next_generation s) (wm_last_seen (sy_watermark s))]"
proof -
  obtain l where l: "sy_link s = Some l" "sl_generation l = g" using assms(1) by (auto simp: accepts_def split: option.splits)
  let ?s1 = "s\<lparr>sy_link := None, sy_domains := Map.empty, sy_redial := note_abort_reason LIVENESS_REASON (sy_redial s)\<rparr>"
  have s1: "fst (request_link_replacement LIVENESS_REASON s) = ?s1"
    using assms(1) l by (simp add: request_link_replacement_def link_generation_def request_redial_def)
  have count: "dial_count ?s1 = g" using assms(2) by (simp add: dial_count_def cong: if_cong)
  have "\<exists>h. fst (link_closed g code reason checking t ?s1) = ?s1\<lparr>sy_hydrations := h,
      sy_redial := schedule_after_close t (note_abort_reason LIVENESS_REASON (sy_redial s))\<rparr>"
    using assms(3,6) count
    by (auto simp: link_closed_def close_link_def link_generation_def note_close_abort_reason_def note_abort_reason_def
        Let_def split: option.split)
  moreover have "schedule_after_close t (note_abort_reason LIVENESS_REASON (sy_redial s)) =
      (sy_redial s)\<lparr>sr_pending_abort_reason := None, sr_delay_ms := SYNC_REDIAL_BASE_MS, sr_due_ms := Some t\<rparr>"
    by (simp add: schedule_after_close_def note_abort_reason_def is_immediate_sync_redial_def LIVENESS_REASON_def)
  ultimately show ?thesis using assms(3-5,7) unfolding s1
    by (auto simp: sweep_link_def take_due_def dial_def begin_dial_def Let_def)
qed

text \<open>
  C32: A link that left a challenge unanswered is replaced, and the replacement is dialled without a
  backoff. When the proof deadline of a watched pane passes, its challenge still outstanding on the
  stream it expects and the link it was sent on still the newest dial, the sweep asks for exactly that
  link to be closed; and however the host then reports the close, short of a revoked credential, the next
  sweep of the link dials the next generation, resuming from the recovery cursor: one more than the link's
  until the 64-bit counter is exhausted.
\<close>

theorem silent_link_redialled:
  assumes "watchable st owner" "tk_transport owner = Sync" "link_generation (cs_sync st) = Some g" "accepts (cs_sync st) g"
    "has_pending_challenge (liveness_of st) owner" "lv_proof_due_ms (liveness_of st) = Some due" "due \<le> now"
    "cs_replica st = Some s" "lv_challenge_stream_id (liveness_of st) = ts_expected s"
    "dial_count (cs_sync st) = g" "0 < g" "\<not> sy_auth_revoked (cs_sync st)"
    "\<not> sr_hidden_parked (sy_redial (cs_sync st))" "\<not> sr_smoke_paused (sy_redial (cs_sync st))"
    "sweep_foreground_liveness sid now st = (st', out)"
    "code \<noteq> Some SYNC_AUTH_REVOKED_CLOSE_CODE" "t \<le> later"
  shows "OnLink (CloseSyncLink g LIVENESS_REASON) \<in> set out
    \<and> snd (sweep_link later (fst (link_closed g code reason checking t (cs_sync st'))))
        = [DialSync (sy_next_generation (cs_sync st)) (wm_last_seen (sy_watermark (cs_sync st)))]
    \<and> (g < u64_max \<longrightarrow> sy_next_generation (cs_sync st) = g + 1)"
proof -
  have l: "liveness_of st = ts_liveness s" using assms(8) by (simp add: liveness_of_def)
  have w: "watch_of st = Watched owner"
    using assms(1,8,9) l by (auto simp: watch_of_def watchable_def split: option.split)
  obtain sync out1 where r: "request_link_replacement LIVENESS_REASON (cs_sync st) = (sync, out1)"
    by (cases "request_link_replacement LIVENESS_REASON (cs_sync st)")
  have out1: "out1 = [CloseSyncLink g LIVENESS_REASON]"
    using r assms(3,4) by (auto simp: request_link_replacement_def request_redial_def)
  let ?st1 = "(with_liveness mark_escalated st)\<lparr>cs_sync := sync\<rparr>"
  have e: "watchdog_escalate now st = (?st1, map OnLink out1)"
    using w assms(2-5,8) l r by (simp add: watchdog_escalate_def Let_def)
  have due: "proof_expiry_due (ts_liveness s) now" using assms(6,7) l by (simp add: proof_expiry_due_def)
  obtain st2 out2 where p: "(if quiet_expiry_due (ts_liveness s) now then watchdog_probe sid now ?st1 else (?st1, [])) = (st2, out2)"
    by (cases "if quiet_expiry_due (ts_liveness s) now then watchdog_probe sid now ?st1 else (?st1, [])")
  have "cs_sync st2 = sync"
  proof (cases "quiet_expiry_due (ts_liveness s) now")
    case True
    then have "st2 = fst (watchdog_probe sid now ?st1)" using p by simp
    then show ?thesis by simp
  qed (use p in auto)
  moreover have "st' = arm_when_watchable now st2" "out = map OnLink out1 @ out2"
    using assms(1,8,15) due e p by (simp_all add: sweep_foreground_liveness_def watchable_def)
  moreover have "g < u64_max \<longrightarrow> sy_next_generation (cs_sync st) = g + 1"
    using assms(10,11) by (auto simp: dial_count_def split: if_splits)
  ultimately show ?thesis
    using replaced_link_redials [OF assms(4,10,12-14,16,17), of reason] out1 r by simp
qed

theorem silent_link_redialled_witness:
  "\<exists>st' out. sweep_foreground_liveness ''s'' 3003 (sample_store (begin_challenge sample_token sample_stream 0 3 liveness_new)) = (st', out)
    \<and> OnLink (CloseSyncLink 1 LIVENESS_REASON) \<in> set out
    \<and> snd (sweep_link 3010 (fst (link_closed 1 (Some 1006) '''' False 3005 (cs_sync st')))) = [DialSync 2 0]"
proof -
  let ?l = "begin_challenge sample_token sample_stream 0 3 liveness_new"
  obtain st' out where sweep: "sweep_foreground_liveness ''s'' 3003 (sample_store ?l) = (st', out)"
    by (cases "sweep_foreground_liveness ''s'' 3003 (sample_store ?l)")
  have l: "has_pending_challenge ?l sample_token" "lv_challenge_stream_id ?l = Some sample_stream"
    "lv_proof_due_ms ?l = Some 3003"
    by (simp_all add: liveness_defs liveness_new_def TERMINAL_FOREGROUND_PROBE_DEADLINE_MS_def saturating_add64_def u64_max_def)
  have y: "dial_count sample_sync = 1" "sy_next_generation sample_sync = 2" "\<not> sy_auth_revoked sample_sync" "wm_last_seen (sy_watermark sample_sync) = 0"
    by (simp_all add: sample_sync_def mark_domain_ready_def issue_snapshot_token_def install_subscribed_def announce_domain_def
        open_link_def begin_dial_def sync_new_def accepts_def dial_count_def watermark_from_storage_def bump64_def u64_max_def)
  have "tk_transport sample_token = Sync" by (simp add: sample_token_def token_sync_def)
  moreover have "cs_sync (sample_store ?l) = sample_sync" "cs_replica (sample_store ?l) = Some (sample_replica 2\<lparr>ts_liveness := ?l\<rparr>)"
    by (simp_all add: sample_store_def)
  ultimately have "OnLink (CloseSyncLink 1 LIVENESS_REASON) \<in> set out
    \<and> snd (sweep_link 3010 (fst (link_closed 1 (Some 1006) '''' False 3005 (cs_sync st'))))
        = [DialSync (sy_next_generation (cs_sync (sample_store ?l))) (wm_last_seen (sy_watermark (cs_sync (sample_store ?l))))]
    \<and> (1 < u64_max \<longrightarrow> sy_next_generation (cs_sync (sample_store ?l)) = 1 + 1)"
    by (intro silent_link_redialled [where s = "sample_replica 2\<lparr>ts_liveness := ?l\<rparr>" and due = 3003,
        OF sample_store_watchable(1) _ _ _ _ _ _ _ _ _ _ _ _ _ sweep])
      (simp_all add: l y sample_store_watchable(2) sample_sync_state sample_replica_state redial_new_def
        sample_sync_state(5) [simplified] SYNC_AUTH_REVOKED_CLOSE_CODE_def)
  moreover have "wm_last_seen (sy_watermark (cs_sync (sample_store ?l))) = 0" "sy_next_generation (cs_sync (sample_store ?l)) = 2"
    by (simp_all add: sample_store_def y)
  ultimately show ?thesis using sweep by (simp only:) blast
qed

end
