(* ===== verification/Client_Input.thy ===== *)
theory Client_Input
  imports Client_Token Ordered_Map "HOL-Library.Word"
begin

text \<open>
  Terminal input in the client (\<open>roost-client-core/src/terminal/input.rs\<close>, \<open>input/outcome_feed.rs\<close>,
  \<open>input/smoke_observer.rs\<close> and \<open>input/router/\<close>): the vocabulary of an admitted batch, the per-view
  feed of answers, the bounded capture of the smoke build, and the router that admits, holds, starts
  and settles batches and claims the route a worker writes them under. A byte is an 8-bit word. The
  router's maps are ordered maps, so a walk over lanes is in the order of session ids. The input
  sequence, one per admitted batch, is a 64-bit counter in the code and a natural number here: what is
  proved of the router holds of the code until \<open>2\<^sup>6\<^sup>4\<close> batches have been typed into one page.
\<close>

section \<open>Vocabulary\<close>

definition MAX_INPUT_BYTES :: nat where "MAX_INPUT_BYTES = 64 * 1024"
definition MAX_PENDING_INPUTS_PER_SESSION :: nat where "MAX_PENDING_INPUTS_PER_SESSION = 200"
definition MAX_PENDING_INPUT_BYTES_PER_SESSION :: nat where "MAX_PENDING_INPUT_BYTES_PER_SESSION = 256 * 1024"
definition MAX_STARTED_INPUTS_PER_SESSION :: nat where "MAX_STARTED_INPUTS_PER_SESSION = 8"
definition HELD_INPUT_ADMISSION_TIMEOUT_MS :: nat where "HELD_INPUT_ADMISSION_TIMEOUT_MS = 10000"
definition INPUT_RESULT_TIMEOUT_MS :: nat where "INPUT_RESULT_TIMEOUT_MS = 10000"
definition MAX_TERMINAL_INPUT_ROUTE_REVISION :: nat where "MAX_TERMINAL_INPUT_ROUTE_REVISION = 2 ^ 63 - 1"
definition INPUT_ROUTE_CHANGED_REASON :: string where "INPUT_ROUTE_CHANGED_REASON = ''terminal input route changed''"

datatype input_outcome =
    InputAccepted nat nat
  | InputRejected nat string
  | InputAmbiguous nat nat string

fun input_outcome_seq :: "input_outcome \<Rightarrow> nat" where
  "input_outcome_seq (InputAccepted seq _) = seq"
| "input_outcome_seq (InputRejected seq _) = seq"
| "input_outcome_seq (InputAmbiguous seq _ _) = seq"

definition is_retryable :: "input_outcome \<Rightarrow> bool" where
  "is_retryable outcome = False"

fun is_ambiguous :: "input_outcome \<Rightarrow> bool" where
  "is_ambiguous (InputAmbiguous _ _ _) = True"
| "is_ambiguous _ = False"

fun status_name :: "input_outcome \<Rightarrow> string" where
  "status_name (InputAccepted _ _) = ''accepted''"
| "status_name (InputRejected _ _) = ''rejected''"
| "status_name (InputAmbiguous _ _ _) = ''ambiguous''"

record pending_input =
  pi_session_id :: string
  pi_view_id :: "string option"
  pi_input_seq :: nat
  pi_bytes :: "8 word list"
  pi_fence :: "terminal_token option"
  pi_started :: bool
  pi_admitted_at_ms :: nat
  pi_started_at_ms :: nat

datatype input_phase = Sending | Holding | Claiming | Blocked | Closed_Lane

record route_claim =
  rc_request_id :: string
  rc_session_id :: string
  rc_revision :: nat
  rc_token :: terminal_token
  rc_worker_epoch :: string
  rc_attempt_id :: "nat option"
  rc_sent_at_ms :: nat
  rc_retried :: bool

record promotion_hold =
  ph_attempt_id :: nat
  ph_token :: terminal_token
  ph_held_at_ms :: nat
  ph_claim_sent :: bool

record fallback_recovery =
  fb_worker_fp :: string
  fb_worker_epoch :: string
  fb_attempts :: nat
  fb_next_at_ms :: nat

record route_claim_state =
  cl_required :: bool
  cl_in_flight :: "route_claim option"
  cl_promotion :: "promotion_hold option"
  cl_fallback :: "fallback_recovery option"
  cl_worker_epoch :: string

definition claims_new :: route_claim_state where
  "claims_new = \<lparr>cl_required = False, cl_in_flight = None, cl_promotion = None, cl_fallback = None, cl_worker_epoch = ''''\<rparr>"

record client_lane =
  il_session_id :: string
  il_phase :: input_phase
  il_pending :: "pending_input list"
  il_pending_bytes :: nat
  il_route_epoch :: string
  il_route_revision :: nat
  il_route_epoch_token :: "terminal_token option"
  il_ambiguous :: "nat list"
  il_claims :: route_claim_state

definition lane_new :: "string \<Rightarrow> client_lane" where
  "lane_new sid = \<lparr>il_session_id = sid, il_phase = Sending, il_pending = [], il_pending_bytes = 0, il_route_epoch = '''',
     il_route_revision = 0, il_route_epoch_token = None, il_ambiguous = [], il_claims = claims_new\<rparr>"

type_synonym input_refusal = string

section \<open>The feed to the panes\<close>

definition SETTLED_PER_VIEW_CAPACITY :: nat where "SETTLED_PER_VIEW_CAPACITY = 256"

datatype view_admission = ViewAdmitted nat | ViewRefused string

record outcome_feed =
  of_watched :: "(nat \<times> string) list"
  of_admissions :: "(string \<times> view_admission) list"
  of_settled :: "(string \<times> input_outcome list) list"

definition feed_new :: outcome_feed where
  "feed_new = \<lparr>of_watched = [], of_admissions = [], of_settled = []\<rparr>"

definition note_admission :: "string option \<Rightarrow> (input_refusal, pending_input) result \<Rightarrow> outcome_feed \<Rightarrow> outcome_feed" where
  "note_admission view_id admission f =
     (case view_id of
        None \<Rightarrow> f
      | Some view_id \<Rightarrow>
          (case admission of
             Ok pending \<Rightarrow> f\<lparr>of_watched := btree_insert (pi_input_seq pending) view_id (of_watched f),
                             of_admissions := btree_insert view_id (ViewAdmitted (pi_input_seq pending)) (of_admissions f)\<rparr>
           | Err reason \<Rightarrow> f\<lparr>of_admissions := btree_insert view_id (ViewRefused reason) (of_admissions f)\<rparr>))"

definition feed_outcome :: "input_outcome \<Rightarrow> outcome_feed \<Rightarrow> outcome_feed" where
  "feed_outcome outcome f =
     (case map_of (of_watched f) (input_outcome_seq outcome) of
        None \<Rightarrow> f
      | Some view_id \<Rightarrow>
          let queue = (case map_of (of_settled f) view_id of None \<Rightarrow> [] | Some q \<Rightarrow> q);
              queue = (if SETTLED_PER_VIEW_CAPACITY \<le> length queue then tl queue else queue)
          in f\<lparr>of_watched := btree_remove (input_outcome_seq outcome) (of_watched f),
               of_settled := btree_insert view_id (queue @ [outcome]) (of_settled f)\<rparr>)"

definition take_admission :: "string \<Rightarrow> outcome_feed \<Rightarrow> outcome_feed \<times> view_admission option" where
  "take_admission view_id f = (f\<lparr>of_admissions := btree_remove view_id (of_admissions f)\<rparr>, map_of (of_admissions f) view_id)"

definition take_outcomes :: "string \<Rightarrow> outcome_feed \<Rightarrow> outcome_feed \<times> input_outcome list" where
  "take_outcomes view_id f =
     (f\<lparr>of_settled := btree_remove view_id (of_settled f)\<rparr>, case map_of (of_settled f) view_id of None \<Rightarrow> [] | Some q \<Rightarrow> q)"

definition forget_view :: "string \<Rightarrow> outcome_feed \<Rightarrow> outcome_feed" where
  "forget_view view_id f =
     f\<lparr>of_watched := btree_retain (\<lambda>_ watched. watched \<noteq> view_id) (of_watched f),
       of_admissions := btree_remove view_id (of_admissions f), of_settled := btree_remove view_id (of_settled f)\<rparr>"

section \<open>The smoke observer\<close>

definition TERMINAL_INPUT_CAPTURE_MAX_BATCHES :: nat where "TERMINAL_INPUT_CAPTURE_MAX_BATCHES = 512"
definition TERMINAL_INPUT_CAPTURE_MAX_BYTES :: nat where "TERMINAL_INPUT_CAPTURE_MAX_BYTES = 1024 * 1024"
definition TERMINAL_INPUT_OUTCOME_COUNT_CAP :: nat where "TERMINAL_INPUT_OUTCOME_COUNT_CAP = 512"
definition SETTLED_OUTCOME_CAPACITY :: nat where "SETTLED_OUTCOME_CAPACITY = 512"

record outcome_counts =
  oc_accepted :: nat
  oc_rejected :: nat
  oc_ambiguous :: nat

datatype observed_admission = ObservedAdmitted nat | ObservedRefused string

record smoke_observer =
  so_batches :: "(string \<times> 8 word list) list"
  so_bytes :: nat
  so_dropped_batches :: nat
  so_outcomes :: outcome_counts
  so_last_admission :: "observed_admission option"
  so_settled :: "input_outcome list"

definition observer_new :: smoke_observer where
  "observer_new = \<lparr>so_batches = [], so_bytes = 0, so_dropped_batches = 0,
     so_outcomes = \<lparr>oc_accepted = 0, oc_rejected = 0, oc_ambiguous = 0\<rparr>, so_last_admission = None, so_settled = []\<rparr>"

function evict_captured :: "nat \<Rightarrow> smoke_observer \<Rightarrow> smoke_observer" where
  "evict_captured incoming o1 =
     (if TERMINAL_INPUT_CAPTURE_MAX_BATCHES \<le> length (so_batches o1)
         \<or> TERMINAL_INPUT_CAPTURE_MAX_BYTES < so_bytes o1 + incoming
      then (case so_batches o1 of
              [] \<Rightarrow> o1
            | evicted # rest \<Rightarrow>
                evict_captured incoming (o1\<lparr>so_batches := rest, so_bytes := so_bytes o1 - length (snd evicted),
                  so_dropped_batches := so_dropped_batches o1 + 1\<rparr>))
      else o1)"
  by pat_completeness auto
termination
  by (relation "measure (\<lambda>(_, o1). length (so_batches o1))") auto

declare evict_captured.simps [simp del]

definition capture_batch :: "string \<Rightarrow> 8 word list \<Rightarrow> smoke_observer \<Rightarrow> smoke_observer" where
  "capture_batch sid data o1 =
     (if TERMINAL_INPUT_CAPTURE_MAX_BYTES < length data then o1\<lparr>so_dropped_batches := so_dropped_batches o1 + 1\<rparr>
      else let o2 = evict_captured (length data) o1
           in o2\<lparr>so_bytes := so_bytes o2 + length data, so_batches := so_batches o2 @ [(sid, data)]\<rparr>)"

definition observe_admission :: "string \<Rightarrow> (input_refusal, pending_input) result \<Rightarrow> smoke_observer \<Rightarrow> smoke_observer" where
  "observe_admission sid admission o1 =
     (case admission of
        Ok pending \<Rightarrow> (capture_batch sid (pi_bytes pending) o1)\<lparr>so_last_admission := Some (ObservedAdmitted (pi_input_seq pending))\<rparr>
      | Err reason \<Rightarrow> o1\<lparr>so_last_admission := Some (ObservedRefused reason)\<rparr>)"

definition count_outcome :: "input_outcome \<Rightarrow> outcome_counts \<Rightarrow> outcome_counts" where
  "count_outcome outcome c =
     (case outcome of
        InputAccepted _ _ \<Rightarrow> c\<lparr>oc_accepted := min (oc_accepted c + 1) TERMINAL_INPUT_OUTCOME_COUNT_CAP\<rparr>
      | InputRejected _ _ \<Rightarrow> c\<lparr>oc_rejected := min (oc_rejected c + 1) TERMINAL_INPUT_OUTCOME_COUNT_CAP\<rparr>
      | InputAmbiguous _ _ _ \<Rightarrow> c\<lparr>oc_ambiguous := min (oc_ambiguous c + 1) TERMINAL_INPUT_OUTCOME_COUNT_CAP\<rparr>)"

definition observe_outcome :: "input_outcome \<Rightarrow> smoke_observer \<Rightarrow> smoke_observer" where
  "observe_outcome outcome o1 =
     (let settled = (if SETTLED_OUTCOME_CAPACITY \<le> length (so_settled o1) then tl (so_settled o1) else so_settled o1)
      in o1\<lparr>so_outcomes := count_outcome outcome (so_outcomes o1), so_settled := settled @ [outcome]\<rparr>)"

fun remove_outcome :: "nat \<Rightarrow> input_outcome list \<Rightarrow> input_outcome list \<times> input_outcome option" where
  "remove_outcome seq [] = ([], None)"
| "remove_outcome seq (x # xs) =
     (if input_outcome_seq x = seq then (xs, Some x) else let (ys, r) = remove_outcome seq xs in (x # ys, r))"

definition take_outcome :: "nat \<Rightarrow> smoke_observer \<Rightarrow> smoke_observer \<times> input_outcome option" where
  "take_outcome seq o1 = (let (settled, r) = remove_outcome seq (so_settled o1) in (o1\<lparr>so_settled := settled\<rparr>, r))"

definition reset_capture :: "smoke_observer \<Rightarrow> smoke_observer" where
  "reset_capture o1 = o1\<lparr>so_batches := [], so_bytes := 0, so_dropped_batches := 0,
     so_outcomes := \<lparr>oc_accepted = 0, oc_rejected = 0, oc_ambiguous = 0\<rparr>\<rparr>"

section \<open>The router\<close>

record input_router =
  ir_lanes :: "(string \<times> client_lane) list"
  ir_next_input_seq :: nat
  ir_next_claim_id :: nat
  ir_smoke_observer :: "smoke_observer option"
  ir_outcome_feed :: outcome_feed

definition router_new :: input_router where
  "router_new = \<lparr>ir_lanes = [], ir_next_input_seq = 0, ir_next_claim_id = 0, ir_smoke_observer = None, ir_outcome_feed = feed_new\<rparr>"

definition lane :: "string \<Rightarrow> input_router \<Rightarrow> client_lane option" where
  "lane sid r = map_of (ir_lanes r) sid"

text \<open>A mutable reference to a session's lane, which is made when there is none; and to one that exists.\<close>

definition lane_mut :: "string \<Rightarrow> (client_lane \<Rightarrow> client_lane) \<Rightarrow> input_router \<Rightarrow> input_router" where
  "lane_mut sid f r = r\<lparr>ir_lanes := btree_insert sid (f (case lane sid r of None \<Rightarrow> lane_new sid | Some l \<Rightarrow> l)) (ir_lanes r)\<rparr>"

definition in_lane :: "string \<Rightarrow> (client_lane \<Rightarrow> client_lane) \<Rightarrow> input_router \<Rightarrow> input_router" where
  "in_lane sid f r = r\<lparr>ir_lanes := btree_update sid f (ir_lanes r)\<rparr>"

definition observe_settled :: "input_outcome list \<Rightarrow> input_router \<Rightarrow> input_router" where
  "observe_settled outcomes r =
     fold (\<lambda>outcome r. r\<lparr>ir_outcome_feed := feed_outcome outcome (ir_outcome_feed r),
                         ir_smoke_observer := map_option (observe_outcome outcome) (ir_smoke_observer r)\<rparr>) outcomes r"

definition admit_input :: "string \<Rightarrow> string option \<Rightarrow> 8 word list \<Rightarrow> nat \<Rightarrow> input_router
    \<Rightarrow> input_router \<times> (input_refusal, pending_input) result" where
  "admit_input sid view_id bytes now_ms r =
     (let r = lane_mut sid (\<lambda>l. l) r; phase = (case lane sid r of None \<Rightarrow> Sending | Some l \<Rightarrow> il_phase l)
      in if phase = Closed_Lane then (r, Err ''terminal session is closed'')
         else if phase = Blocked then (r, Err ''terminal input route is reconnecting'')
         else if MAX_INPUT_BYTES < length bytes then (r, Err (''input exceeds '' @ show_nat MAX_INPUT_BYTES @ '' bytes''))
         else
           let r = r\<lparr>ir_next_input_seq := ir_next_input_seq r + 1\<rparr>
           in if bytes = [] then (r, Err ''input batch is empty'')
              else
                let pending = \<lparr>pi_session_id = sid, pi_view_id = view_id, pi_input_seq = ir_next_input_seq r, pi_bytes = bytes,
                      pi_fence = None, pi_started = False, pi_admitted_at_ms = now_ms, pi_started_at_ms = 0\<rparr>;
                    l = (case lane sid r of None \<Rightarrow> lane_new sid | Some l \<Rightarrow> l)
                in if MAX_PENDING_INPUTS_PER_SESSION \<le> length (il_pending l)
                      \<or> MAX_PENDING_INPUT_BYTES_PER_SESSION < il_pending_bytes l + length bytes
                   then (r, Err (''terminal input lane is full ('' @ show_nat MAX_PENDING_INPUTS_PER_SESSION @ '' batches, ''
                                 @ show_nat MAX_PENDING_INPUT_BYTES_PER_SESSION @ '' bytes)''))
                   else (lane_mut sid (\<lambda>l. l\<lparr>il_pending_bytes := il_pending_bytes l + length bytes,
                                            il_pending := il_pending l @ [pending]\<rparr>) r, Ok pending))"

definition route_epoch_for :: "string \<Rightarrow> terminal_token \<Rightarrow> input_router \<Rightarrow> string" where
  "route_epoch_for sid token r =
     (case lane sid r of
        None \<Rightarrow> ''''
      | Some l \<Rightarrow>
          (case il_route_epoch_token l of
             None \<Rightarrow> ''''
           | Some acknowledged \<Rightarrow> if same_connection acknowledged token then il_route_epoch l else ''''))"

definition is_blocked :: "string \<Rightarrow> input_router \<Rightarrow> bool" where
  "is_blocked sid r = (case lane sid r of None \<Rightarrow> False | Some l \<Rightarrow> il_phase l = Blocked)"

definition install_route_epoch :: "string \<Rightarrow> terminal_token \<Rightarrow> string \<Rightarrow> nat \<Rightarrow> input_router \<Rightarrow> input_router \<times> bool" where
  "install_route_epoch sid token epoch revision r =
     (if revision = 0 \<or> MAX_TERMINAL_INPUT_ROUTE_REVISION < revision then (r, False)
      else
        let r = lane_mut sid (\<lambda>l. l) r
        in if revision < (case lane sid r of None \<Rightarrow> 0 | Some l \<Rightarrow> il_route_revision l) then (r, False)
           else (lane_mut sid (\<lambda>l. l\<lparr>il_route_epoch := epoch, il_route_revision := revision,
                                    il_route_epoch_token := Some token\<rparr>) r, True))"

section \<open>Settling\<close>

text \<open>One batch inside its own lane: the first with the sequence leaves, with its bytes.\<close>

definition settle_in :: "nat \<Rightarrow> client_lane \<Rightarrow> client_lane \<times> bool" where
  "settle_in seq l =
     (case dropWhile (\<lambda>p. pi_input_seq p \<noteq> seq) (il_pending l) of
        [] \<Rightarrow> (l, False)
      | p # later \<Rightarrow>
          (l\<lparr>il_pending_bytes := il_pending_bytes l - length (pi_bytes p),
             il_pending := takeWhile (\<lambda>p. pi_input_seq p \<noteq> seq) (il_pending l) @ later\<rparr>, True))"

text \<open>The first lane, in key order, that holds the batch.\<close>

fun settle_lanes :: "nat \<Rightarrow> (string \<times> client_lane) list \<Rightarrow> (string \<times> client_lane) list \<times> bool" where
  "settle_lanes seq [] = ([], False)"
| "settle_lanes seq ((sid, l) # m) =
     (case settle_in seq l of
        (l', True) \<Rightarrow> ((sid, l') # m, True)
      | (_, False) \<Rightarrow> let (m', settled) = settle_lanes seq m in ((sid, l) # m', settled))"

definition settle :: "nat \<Rightarrow> input_outcome \<Rightarrow> input_router \<Rightarrow> input_router \<times> bool" where
  "settle seq outcome r =
     (if input_outcome_seq outcome \<noteq> seq then (r, False)
      else
        let (lanes, settled) = settle_lanes seq (ir_lanes r); r = r\<lparr>ir_lanes := lanes\<rparr>
        in (if settled then observe_settled [outcome] r else r, settled))"

definition settle_from :: "string \<Rightarrow> terminal_token \<Rightarrow> nat \<Rightarrow> input_outcome \<Rightarrow> input_router \<Rightarrow> input_router \<times> bool" where
  "settle_from sid token seq outcome r =
     (if input_outcome_seq outcome \<noteq> seq then (r, False)
      else
        (case lane sid r of
           None \<Rightarrow> (r, False)
         | Some l \<Rightarrow>
             (case find (\<lambda>p. pi_input_seq p = seq) (il_pending l) of
                None \<Rightarrow> (r, False)
              | Some p \<Rightarrow>
                  if pi_fence p \<noteq> Some token then (r, False)
                  else
                    let (l', settled) = settle_in seq l; r = in_lane sid (\<lambda>_. l') r
                    in (if settled then observe_settled [outcome] r else r, settled))))"

definition settle_each :: "(nat \<Rightarrow> input_outcome) \<Rightarrow> nat list \<Rightarrow> input_router \<Rightarrow> input_router \<times> input_outcome list" where
  "settle_each outcome seqs r = (fold (\<lambda>seq r. fst (settle seq (outcome seq) r)) seqs r, map outcome seqs)"

definition held_too_long :: "nat \<Rightarrow> client_lane \<Rightarrow> pending_input list" where
  "held_too_long now_ms l =
     (if il_phase l \<noteq> Sending \<or> \<not> list_ex pi_started (il_pending l)
      then filter (\<lambda>p. \<not> pi_started p \<and> HELD_INPUT_ADMISSION_TIMEOUT_MS \<le> now_ms - pi_admitted_at_ms p) (il_pending l)
      else [])"

definition sweep_held :: "nat \<Rightarrow> input_router \<Rightarrow> input_router \<times> input_outcome list" where
  "sweep_held now_ms r =
     settle_each (\<lambda>seq. InputRejected seq ''terminal input route is reconnecting'')
       (map pi_input_seq (concat (map (held_too_long now_ms \<circ> snd) (ir_lanes r)))) r"

definition unanswered :: "nat \<Rightarrow> client_lane \<Rightarrow> pending_input list" where
  "unanswered now_ms l =
     filter (\<lambda>p. pi_started p \<and> INPUT_RESULT_TIMEOUT_MS \<le> now_ms - pi_started_at_ms p) (il_pending l)"

definition sweep_unanswered :: "nat \<Rightarrow> input_router \<Rightarrow> input_router \<times> input_outcome list" where
  "sweep_unanswered now_ms r =
     settle_each (\<lambda>seq. InputAmbiguous seq 0 ''input result timed out; the batch will not be retried'')
       (map pi_input_seq (concat (map (unanswered now_ms \<circ> snd) (ir_lanes r)))) r"

definition retired_outcome :: "string \<Rightarrow> pending_input \<Rightarrow> input_outcome" where
  "retired_outcome reason p =
     (if pi_started p
      then InputAmbiguous (pi_input_seq p) 0 (reason @ '' after input was sent; the batch will not be retried'')
      else InputRejected (pi_input_seq p) (reason @ '' before input was sent''))"

fun retire_each :: "input_outcome list \<Rightarrow> client_lane \<Rightarrow> client_lane \<times> input_outcome list" where
  "retire_each [] l = (l, [])"
| "retire_each (outcome # rest) l =
     (case settle_in (input_outcome_seq outcome) l of
        (l', False) \<Rightarrow> retire_each rest l'
      | (l', True) \<Rightarrow>
          let l' = (if is_ambiguous outcome then l'\<lparr>il_ambiguous := il_ambiguous l' @ [input_outcome_seq outcome]\<rparr> else l');
              (l'', outcomes) = retire_each rest l'
          in (l'', outcome # outcomes))"

definition retire_lane :: "(terminal_token \<Rightarrow> bool) \<Rightarrow> string \<Rightarrow> client_lane \<Rightarrow> client_lane \<times> input_outcome list" where
  "retire_lane retired reason l =
     retire_each (map (retired_outcome reason)
       (filter (\<lambda>p. case pi_fence p of None \<Rightarrow> False | Some token \<Rightarrow> retired token) (il_pending l))) l"

definition retire_fenced :: "(terminal_token \<Rightarrow> bool) \<Rightarrow> string \<Rightarrow> input_router \<Rightarrow> input_router \<times> input_outcome list" where
  "retire_fenced retired reason r =
     (let outcomes = concat (map (\<lambda>(_, l). snd (retire_lane retired reason l)) (ir_lanes r));
          r = r\<lparr>ir_lanes := btree_map (\<lambda>l. fst (retire_lane retired reason l)) (ir_lanes r)\<rparr>
      in (observe_settled outcomes r, outcomes))"

definition retire_token :: "terminal_token \<Rightarrow> string \<Rightarrow> input_router \<Rightarrow> input_router \<times> input_outcome list" where
  "retire_token token reason = retire_fenced (\<lambda>fenced. fenced = token) reason"

definition retire_sync_generation :: "nat \<Rightarrow> string \<Rightarrow> input_router \<Rightarrow> input_router \<times> input_outcome list" where
  "retire_sync_generation generation reason =
     retire_fenced (\<lambda>fenced. tk_transport fenced = Sync \<and> tk_socket_generation fenced = generation) reason"

section \<open>Phases and starting\<close>

fun refuse_each :: "string \<Rightarrow> nat list \<Rightarrow> client_lane \<Rightarrow> client_lane \<times> input_outcome list" where
  "refuse_each reason [] l = (l, [])"
| "refuse_each reason (seq # rest) l =
     (case settle_in seq l of
        (l', False) \<Rightarrow> refuse_each reason rest l'
      | (l', True) \<Rightarrow> let (l'', outcomes) = refuse_each reason rest l' in (l'', InputRejected seq reason # outcomes))"

definition refuse_unstarted :: "string \<Rightarrow> string \<Rightarrow> input_router \<Rightarrow> input_router \<times> input_outcome list" where
  "refuse_unstarted sid reason r =
     (case lane sid r of
        None \<Rightarrow> (r, [])
      | Some l \<Rightarrow>
          let (l', outcomes) = refuse_each reason (map pi_input_seq (filter (\<lambda>p. \<not> pi_started p) (il_pending l))) l
          in (observe_settled outcomes (in_lane sid (\<lambda>_. l') r), outcomes))"

definition set_phase :: "string \<Rightarrow> input_phase \<Rightarrow> input_router \<Rightarrow> input_router \<times> input_outcome list" where
  "set_phase sid phase r =
     (let r = lane_mut sid (\<lambda>l. l\<lparr>il_phase := phase\<rparr>) r
      in if phase = Closed_Lane then refuse_unstarted sid ''terminal session is closed'' r
         else if phase = Blocked then refuse_unstarted sid ''terminal input route is reconnecting'' r
         else (r, []))"

definition start_pending :: "terminal_token \<Rightarrow> nat \<Rightarrow> pending_input \<Rightarrow> pending_input" where
  "start_pending token now_ms p =
     (if pi_started p then p else p\<lparr>pi_started_at_ms := now_ms\<rparr>)\<lparr>pi_started := True, pi_fence := Some token\<rparr>"

text \<open>A change to the first batch with a sequence, and to the first lane that holds it.\<close>

fun change_first :: "nat \<Rightarrow> (pending_input \<Rightarrow> pending_input) \<Rightarrow> pending_input list \<Rightarrow> pending_input list" where
  "change_first seq f [] = []"
| "change_first seq f (p # ps) = (if pi_input_seq p = seq then f p # ps else p # change_first seq f ps)"

definition holds_batch :: "nat \<Rightarrow> client_lane \<Rightarrow> bool" where
  "holds_batch seq l = list_ex (\<lambda>p. pi_input_seq p = seq) (il_pending l)"

fun start_in_lanes :: "nat \<Rightarrow> (pending_input \<Rightarrow> pending_input) \<Rightarrow> (string \<times> client_lane) list \<Rightarrow> (string \<times> client_lane) list \<times> bool" where
  "start_in_lanes seq f [] = ([], False)"
| "start_in_lanes seq f ((sid, l) # m) =
     (if holds_batch seq l then ((sid, l\<lparr>il_pending := change_first seq f (il_pending l)\<rparr>) # m, True)
      else let (m', found) = start_in_lanes seq f m in ((sid, l) # m', found))"

definition mark_started :: "nat \<Rightarrow> terminal_token \<Rightarrow> nat \<Rightarrow> input_router \<Rightarrow> input_router \<times> bool" where
  "mark_started seq token now_ms r =
     (let (lanes, found) = start_in_lanes seq (start_pending token now_ms) (ir_lanes r) in (r\<lparr>ir_lanes := lanes\<rparr>, found))"

definition outstanding :: "string \<Rightarrow> input_router \<Rightarrow> pending_input list" where
  "outstanding sid r = (case lane sid r of None \<Rightarrow> [] | Some l \<Rightarrow> il_pending l)"

definition startable :: "string \<Rightarrow> input_router \<Rightarrow> pending_input list" where
  "startable sid r =
     (case lane sid r of
        None \<Rightarrow> []
      | Some l \<Rightarrow>
          if il_phase l \<noteq> Sending then []
          else take (MAX_STARTED_INPUTS_PER_SESSION - length (filter pi_started (il_pending l)))
                 (filter (\<lambda>p. \<not> pi_started p) (il_pending l)))"

definition queued_sessions :: "input_router \<Rightarrow> string list" where
  "queued_sessions r =
     map (il_session_id \<circ> snd)
       (filter (\<lambda>(_, l). il_phase l = Sending \<and> list_ex (\<lambda>p. \<not> pi_started p) (il_pending l)) (ir_lanes r))"

definition has_ambiguity :: "string \<Rightarrow> input_router \<Rightarrow> bool" where
  "has_ambiguity sid r = (case lane sid r of None \<Rightarrow> False | Some l \<Rightarrow> il_ambiguous l \<noteq> [])"

section \<open>A lost route\<close>

definition forget_route :: "string \<Rightarrow> input_router \<Rightarrow> input_router" where
  "forget_route sid r =
     fst (set_phase sid Blocked (in_lane sid (\<lambda>l. l\<lparr>il_route_epoch := '''', il_route_epoch_token := None\<rparr>) r))"

definition routed_on_socket :: "nat \<Rightarrow> client_lane \<Rightarrow> bool" where
  "routed_on_socket generation l =
     (case il_route_epoch_token l of
        None \<Rightarrow> False
      | Some token \<Rightarrow> tk_transport token = Sync \<and> tk_socket_generation token = generation)"

definition block_routes_on_sync_socket :: "nat \<Rightarrow> input_router \<Rightarrow> input_router \<times> string list" where
  "block_routes_on_sync_socket generation r =
     (let blocked = map fst (filter (\<lambda>(_, l). il_phase l = Sending \<and> routed_on_socket generation l) (ir_lanes r))
      in (fold forget_route blocked r, blocked))"

definition requeue_moved_sync_batch :: "string \<Rightarrow> nat \<Rightarrow> input_router \<Rightarrow> input_router \<times> bool" where
  "requeue_moved_sync_batch sid seq r =
     (case lane sid r of
        None \<Rightarrow> (r, False)
      | Some l \<Rightarrow>
          let routed_direct = (case il_route_epoch_token l of None \<Rightarrow> False | Some token \<Rightarrow> tk_transport token \<noteq> Sync);
              refused_on_sync = list_ex (\<lambda>p. pi_input_seq p = seq \<and> pi_started p
                \<and> (case pi_fence p of None \<Rightarrow> False | Some token \<Rightarrow> tk_transport token = Sync)) (il_pending l)
          in if routed_direct \<or> \<not> refused_on_sync \<or> il_phase l = Closed_Lane then (r, False)
             else
               let r = (if il_phase l = Sending then forget_route sid r else r)
               in case lane sid r of
                    None \<Rightarrow> (r, False)
                  | Some l \<Rightarrow>
                      if \<not> holds_batch seq l then (r, False)
                      else (in_lane sid (\<lambda>l. l\<lparr>il_pending := change_first seq
                              (\<lambda>p. p\<lparr>pi_started := False, pi_fence := None, pi_started_at_ms := 0\<rparr>) (il_pending l)\<rparr>) r, True))"

definition acknowledged_worker_epoch :: "string \<Rightarrow> input_router \<Rightarrow> string" where
  "acknowledged_worker_epoch sid r = (case lane sid r of None \<Rightarrow> '''' | Some l \<Rightarrow> cl_worker_epoch (il_claims l))"

end
