(* ===== verification/Client_Claims.thy ===== *)
theory Client_Claims
  imports Client_Input
begin

text \<open>
  The input route claim (\<open>roost-client-core/src/terminal/input/router/claim.rs\<close>): the epoch a worker
  writes a session's input under, the hold that keeps fresh input unsent while it is asked for, and the
  fallback that claims Sync back; with the hand-off of startable batches to a transport
  (\<open>handle_input.rs\<close>).
\<close>

section \<open>Claims\<close>

definition ROUTE_CLAIM_TIMEOUT_MS :: nat where "ROUTE_CLAIM_TIMEOUT_MS = 8000"
definition INPUT_HANDOFF_DRAIN_MS :: nat where "INPUT_HANDOFF_DRAIN_MS = 10000"
definition FALLBACK_CLAIM_ATTEMPTS :: nat where "FALLBACK_CLAIM_ATTEMPTS = 120"
definition FALLBACK_CLAIM_RETRY_MS :: nat where "FALLBACK_CLAIM_RETRY_MS = 250"

record input_route_result =
  rr_session_id :: string
  rr_request_id :: string
  rr_accepted :: bool
  rr_revision :: nat
  rr_latest_revision :: nat
  rr_input_route_epoch :: string
  rr_worker_epoch :: string
  rr_reason :: string

datatype claim_settlement =
    ClaimAccepted route_claim
  | ClaimRetry route_claim
  | ClaimRefused route_claim string

definition is_holding :: "string \<Rightarrow> input_router \<Rightarrow> bool" where
  "is_holding sid r = (case lane sid r of None \<Rightarrow> False | Some l \<Rightarrow> il_phase l \<in> {Holding, Claiming})"

definition claim_state :: "string \<Rightarrow> input_router \<Rightarrow> route_claim_state option" where
  "claim_state sid r = map_option il_claims (lane sid r)"

definition hold_for_promotion :: "string \<Rightarrow> nat \<Rightarrow> terminal_token \<Rightarrow> nat \<Rightarrow> input_router \<Rightarrow> input_router" where
  "hold_for_promotion sid attempt_id token now_ms r =
     lane_mut sid (\<lambda>l. if il_phase l = Closed_Lane then l
       else l\<lparr>il_phase := Holding,
              il_claims := (il_claims l)\<lparr>cl_fallback := None, cl_in_flight := None,
                cl_promotion := Some \<lparr>ph_attempt_id = attempt_id, ph_token = token, ph_held_at_ms = now_ms, ph_claim_sent = False\<rparr>\<rparr>\<rparr>) r"

definition begin_fallback :: "string \<Rightarrow> string \<Rightarrow> string \<Rightarrow> nat \<Rightarrow> input_router \<Rightarrow> input_router" where
  "begin_fallback sid worker_fp worker_epoch now_ms r =
     lane_mut sid (\<lambda>l. if il_phase l = Closed_Lane then l
       else l\<lparr>il_phase := Holding,
              il_claims := (il_claims l)\<lparr>cl_promotion := None, cl_in_flight := None,
                cl_fallback := Some \<lparr>fb_worker_fp = worker_fp, fb_worker_epoch = worker_epoch, fb_attempts = 0,
                                     fb_next_at_ms = now_ms\<rparr>\<rparr>\<rparr>) r"

definition has_unsettled_on :: "string \<Rightarrow> terminal_token \<Rightarrow> input_router \<Rightarrow> bool" where
  "has_unsettled_on sid token r =
     (case lane sid r of None \<Rightarrow> False | Some l \<Rightarrow> list_ex (\<lambda>p. pi_started p \<and> pi_fence p = Some token) (il_pending l))"

definition claim_request_id :: "nat \<Rightarrow> string" where
  "claim_request_id n = ''route-claim-'' @ show_nat n"

definition begin_route_claim ::
  "string \<Rightarrow> terminal_token \<Rightarrow> string \<Rightarrow> nat option \<Rightarrow> nat \<Rightarrow> input_router \<Rightarrow> input_router \<times> (string, route_claim) result" where
  "begin_route_claim sid token worker_epoch attempt_id now_ms r =
     (let r = r\<lparr>ir_next_claim_id := ir_next_claim_id r + 1\<rparr>;
          request_id = claim_request_id (ir_next_claim_id r);
          r = lane_mut sid (\<lambda>l. l\<lparr>il_claims := (il_claims l)\<lparr>cl_required := True\<rparr>, il_route_epoch := '''',
                                 il_route_epoch_token := None\<rparr>) r;
          l = (case lane sid r of None \<Rightarrow> lane_new sid | Some l \<Rightarrow> l)
      in if MAX_TERMINAL_INPUT_ROUTE_REVISION \<le> il_route_revision l
         then (lane_mut sid (\<lambda>l. l\<lparr>il_phase := Blocked\<rparr>) r, Err ''terminal input route revision exhausted'')
         else
           let claim = \<lparr>rc_request_id = request_id, rc_session_id = sid, rc_revision = il_route_revision l + 1, rc_token = token,
                 rc_worker_epoch = worker_epoch, rc_attempt_id = attempt_id, rc_sent_at_ms = now_ms, rc_retried = False\<rparr>
           in (lane_mut sid (\<lambda>l. l\<lparr>il_route_revision := il_route_revision l + 1, il_phase := Claiming,
                 il_claims := (il_claims l)\<lparr>
                   cl_promotion := map_option (\<lambda>p. p\<lparr>ph_claim_sent := True\<rparr>) (cl_promotion (il_claims l)),
                   cl_in_flight := Some claim\<rparr>\<rparr>) r, Ok claim))"

definition non_empty_or :: "string \<Rightarrow> string \<Rightarrow> string" where
  "non_empty_or value fallback = (if value = '''' then fallback else value)"

definition settle_route_claim ::
  "terminal_token \<Rightarrow> input_route_result \<Rightarrow> nat \<Rightarrow> input_router \<Rightarrow> input_router \<times> claim_settlement option" where
  "settle_route_claim token res now_ms r =
     (let sid = rr_session_id res
      in case Option.bind (lane sid r) (\<lambda>l. cl_in_flight (il_claims l)) of
           None \<Rightarrow> (r, None)
         | Some claim \<Rightarrow>
             if rc_request_id claim \<noteq> rr_request_id res \<or> \<not> same_connection (rc_token claim) token then (r, None)
             else
               let r = in_lane sid (\<lambda>l. l\<lparr>il_claims := (il_claims l)\<lparr>cl_in_flight := None\<rparr>\<rparr>) r;
                   hold = in_lane sid (\<lambda>l. l\<lparr>il_phase := Holding\<rparr>) r
               in if rr_revision res \<noteq> rc_revision claim \<or> rr_worker_epoch res \<noteq> rc_worker_epoch claim
                  then (hold, Some (ClaimRefused claim ''terminal input route claim response was invalid''))
                  else if rr_accepted res \<and> rr_input_route_epoch res \<noteq> ''''
                  then (in_lane sid (\<lambda>l. l\<lparr>il_route_epoch := rr_input_route_epoch res, il_route_epoch_token := Some (rc_token claim),
                          il_claims := (il_claims l)\<lparr>cl_worker_epoch := rc_worker_epoch claim\<rparr>, il_phase := Holding\<rparr>) r,
                        Some (ClaimAccepted claim))
                  else
                    let stale = rr_reason res = ''stale_route_revision'' \<and> \<not> rc_retried claim
                    in if \<not> stale \<or> rr_latest_revision res < rc_revision claim
                          \<or> MAX_TERMINAL_INPUT_ROUTE_REVISION \<le> rr_latest_revision res
                       then (hold, Some (ClaimRefused claim
                              (if \<not> stale then non_empty_or (rr_reason res) ''terminal input route claim was rejected''
                               else ''terminal input route revision is unavailable'')))
                       else
                         let r = r\<lparr>ir_next_claim_id := ir_next_claim_id r + 1\<rparr>;
                             retry = claim\<lparr>rc_request_id := claim_request_id (ir_next_claim_id r),
                               rc_revision := rr_latest_revision res + 1, rc_sent_at_ms := now_ms, rc_retried := True\<rparr>
                         in (in_lane sid (\<lambda>l. l\<lparr>il_route_revision := rr_latest_revision res + 1,
                               il_claims := (il_claims l)\<lparr>cl_in_flight := Some retry\<rparr>\<rparr>) r, Some (ClaimRetry retry)))"

definition take_claims :: "(route_claim \<Rightarrow> bool) \<Rightarrow> input_router \<Rightarrow> input_router \<times> route_claim list" where
  "take_claims ended r =
     (r\<lparr>ir_lanes := btree_map (\<lambda>l. case cl_in_flight (il_claims l) of
            Some claim \<Rightarrow> if ended claim then l\<lparr>il_claims := (il_claims l)\<lparr>cl_in_flight := None\<rparr>, il_phase := Holding\<rparr> else l
          | None \<Rightarrow> l) (ir_lanes r)\<rparr>,
      concat (map (\<lambda>(_, l). case cl_in_flight (il_claims l) of
            Some claim \<Rightarrow> if ended claim then [claim] else [] | None \<Rightarrow> []) (ir_lanes r)))"

definition expire_route_claims :: "nat \<Rightarrow> input_router \<Rightarrow> input_router \<times> route_claim list" where
  "expire_route_claims now_ms = take_claims (\<lambda>claim. ROUTE_CLAIM_TIMEOUT_MS \<le> now_ms - rc_sent_at_ms claim)"

definition reject_sync_claims :: "nat \<Rightarrow> input_router \<Rightarrow> input_router \<times> route_claim list" where
  "reject_sync_claims generation =
     take_claims (\<lambda>claim. tk_transport (rc_token claim) = Sync \<and> tk_socket_generation (rc_token claim) = generation)"

text \<open>The holds of a lane, ended.\<close>

definition drop_claims :: "client_lane \<Rightarrow> client_lane" where
  "drop_claims l = l\<lparr>il_claims := (il_claims l)\<lparr>cl_promotion := None, cl_fallback := None, cl_in_flight := None\<rparr>\<rparr>"

definition release_held :: "string \<Rightarrow> input_router \<Rightarrow> input_router \<times> pending_input list" where
  "release_held sid r =
     (case lane sid r of
        None \<Rightarrow> (r, [])
      | Some l \<Rightarrow>
          if il_phase l = Closed_Lane then (r, [])
          else (in_lane sid (\<lambda>l. drop_claims (l\<lparr>il_phase := Sending\<rparr>)) r, filter (\<lambda>p. \<not> pi_started p) (il_pending l)))"

definition block_route :: "string \<Rightarrow> input_router \<Rightarrow> input_router \<times> input_outcome list" where
  "block_route sid r =
     (case lane sid r of
        None \<Rightarrow> (r, [])
      | Some l \<Rightarrow> if il_phase l = Closed_Lane then (r, []) else set_phase sid Blocked (in_lane sid drop_claims r))"

definition defer_fallback :: "string \<Rightarrow> nat \<Rightarrow> input_router \<Rightarrow> input_router \<times> bool" where
  "defer_fallback sid now_ms r =
     (case Option.bind (lane sid r) (\<lambda>l. cl_fallback (il_claims l)) of
        None \<Rightarrow> (r, False)
      | Some fallback \<Rightarrow>
          let fallback = fallback\<lparr>fb_attempts := fb_attempts fallback + 1,
                fb_next_at_ms := saturating_add64 now_ms FALLBACK_CLAIM_RETRY_MS\<rparr>
          in if fb_attempts fallback < FALLBACK_CLAIM_ATTEMPTS
             then (in_lane sid (\<lambda>l. l\<lparr>il_claims := (il_claims l)\<lparr>cl_fallback := Some fallback\<rparr>\<rparr>) r, True)
             else (in_lane sid (\<lambda>l. l\<lparr>il_claims := (il_claims l)\<lparr>cl_fallback := None\<rparr>\<rparr>) r, False))"

definition due_fallbacks :: "nat \<Rightarrow> input_router \<Rightarrow> (string \<times> fallback_recovery) list" where
  "due_fallbacks now_ms r =
     concat (map (\<lambda>(sid, l). case cl_fallback (il_claims l) of
         None \<Rightarrow> []
       | Some fallback \<Rightarrow> if cl_in_flight (il_claims l) = None \<and> fb_next_at_ms fallback \<le> now_ms then [(sid, fallback)] else [])
       (ir_lanes r))"

definition held_promotions :: "input_router \<Rightarrow> (string \<times> promotion_hold) list" where
  "held_promotions r =
     concat (map (\<lambda>(sid, l). case cl_promotion (il_claims l) of None \<Rightarrow> [] | Some p \<Rightarrow> [(sid, p)]) (ir_lanes r))"

section \<open>Handing batches to a transport\<close>

text \<open>
  What reaches a transport: the batch, the epoch acknowledged over that connection, and the transport.
  The wire id of the batch's pane is looked up in the replica, an argument here.
\<close>

record sent_input =
  sn_session_id :: string
  sn_view_id :: "string option"
  sn_input_seq :: nat
  sn_bytes :: "8 word list"
  sn_route_epoch :: string
  sn_token :: terminal_token

definition dispatch_batch ::
  "(string \<Rightarrow> string option) \<Rightarrow> pending_input \<Rightarrow> terminal_token \<Rightarrow> nat \<Rightarrow> input_router \<Rightarrow> input_router \<times> sent_input" where
  "dispatch_batch wire_view_id admitted token now_ms r =
     (fst (mark_started (pi_input_seq admitted) token now_ms r),
      \<lparr>sn_session_id = pi_session_id admitted, sn_view_id = Option.bind (pi_view_id admitted) wire_view_id,
       sn_input_seq = pi_input_seq admitted, sn_bytes = pi_bytes admitted,
       sn_route_epoch = route_epoch_for (pi_session_id admitted) token r, sn_token = token\<rparr>)"

definition dispatch_startable ::
  "(string \<Rightarrow> string option) \<Rightarrow> string \<Rightarrow> terminal_token \<Rightarrow> nat \<Rightarrow> input_router \<Rightarrow> input_router \<times> sent_input list" where
  "dispatch_startable wire_view_id sid token now_ms r =
     foldl (\<lambda>(r, out) pending. let (r, sent) = dispatch_batch wire_view_id pending token now_ms r in (r, out @ [sent]))
       (r, []) (startable sid r)"

end
