(* ===== verification/Client_Handoff.thy ===== *)
theory Client_Handoff
  imports Client_Claims
begin

text \<open>
  The input path of the client's handlers (\<open>roost-client-core/src/handle_input.rs\<close>, and of
  \<open>handle_sync/promotion.rs\<close> and \<open>promotion/deadlines.rs\<close> the Sync fallback): a keystroke, a result, a
  lost route. What the handlers read of the rest of the store is one record of answers; the replica,
  the routes and the grants behind it are not changed here. A promotion that waits for a result to
  drain is resumed by the route code, which is not part of this model.
\<close>

section \<open>What the handlers read\<close>

record input_view =
  iv_route :: "string \<Rightarrow> terminal_token option"
  iv_generation :: "string \<Rightarrow> terminal_token option"
  iv_sync_token :: "terminal_token option"
  iv_terminal_ready :: bool
  iv_worker_fp :: "string \<Rightarrow> string option"
  iv_grant_epoch :: "string \<Rightarrow> string option"
  iv_wire_view_id :: "string \<Rightarrow> string \<Rightarrow> string option"

datatype input_effect =
    SendInput sent_input
  | SendClaim route_claim

definition input_destination :: "input_view \<Rightarrow> string \<Rightarrow> terminal_token option" where
  "input_destination v sid = (case iv_generation v sid of Some token \<Rightarrow> Some token | None \<Rightarrow> iv_sync_token v)"

section \<open>The Sync fallback\<close>

definition defer_or_block_fallback :: "string \<Rightarrow> nat \<Rightarrow> input_router \<Rightarrow> input_router \<times> input_outcome list" where
  "defer_or_block_fallback sid now_ms r =
     (case defer_fallback sid now_ms r of (r, True) \<Rightarrow> (r, []) | (r, False) \<Rightarrow> block_route sid r)"

definition claim_fallback ::
  "input_view \<Rightarrow> nat \<Rightarrow> string \<times> fallback_recovery \<Rightarrow> input_router \<Rightarrow> input_router \<times> input_effect list \<times> input_outcome list" where
  "claim_fallback v now_ms = (\<lambda>(sid, fallback) r.
     let sync = (if iv_terminal_ready v then iv_sync_token v else None);
         worker_epoch = (case iv_grant_epoch v (fb_worker_fp fallback) of
                           Some epoch \<Rightarrow> if epoch = '''' then fb_worker_epoch fallback else epoch
                         | None \<Rightarrow> fb_worker_epoch fallback)
     in case (if worker_epoch = '''' then None else sync) of
          None \<Rightarrow> let (r, refused) = defer_or_block_fallback sid now_ms r in (r, [], refused)
        | Some token \<Rightarrow>
            (case begin_route_claim sid token worker_epoch None now_ms r of
               (r, Ok claim) \<Rightarrow> (r, [SendClaim claim], [])
             | (r, Err _) \<Rightarrow> let (r, refused) = block_route sid r in (r, [], refused)))"

definition claim_due_fallbacks :: "input_view \<Rightarrow> nat \<Rightarrow> input_router \<Rightarrow> input_router \<times> input_effect list \<times> input_outcome list" where
  "claim_due_fallbacks v now_ms r =
     foldl (\<lambda>(r, out, settled) due. let (r, out', settled') = claim_fallback v now_ms due r in (r, out @ out', settled @ settled'))
       (r, [], []) (due_fallbacks now_ms r)"

definition reclaim_lost_route :: "input_view \<Rightarrow> string \<Rightarrow> nat \<Rightarrow> input_router \<Rightarrow> input_router \<times> bool" where
  "reclaim_lost_route v sid now_ms r =
     (if \<not> is_blocked sid r \<or> iv_route v sid \<noteq> None then (r, False)
      else
        (case iv_worker_fp v sid of
           None \<Rightarrow> (r, False)
         | Some worker_fp \<Rightarrow> (begin_fallback sid worker_fp (acknowledged_worker_epoch sid r) now_ms r, True)))"

section \<open>A keystroke\<close>

definition send_startable :: "input_view \<Rightarrow> string \<Rightarrow> terminal_token \<Rightarrow> nat \<Rightarrow> input_router \<Rightarrow> input_router \<times> input_effect list" where
  "send_startable v sid token now_ms r =
     (let (r, sent) = dispatch_startable (iv_wire_view_id v sid) sid token now_ms r in (r, map SendInput sent))"

definition settle_as_unsent :: "nat \<Rightarrow> string \<Rightarrow> input_router \<Rightarrow> input_router \<times> input_outcome list" where
  "settle_as_unsent seq reason r =
     (case settle seq (InputRejected seq reason) r of
        (r, True) \<Rightarrow> (r, [InputRejected seq reason])
      | (r, False) \<Rightarrow> (r, []))"

definition handle_terminal_input ::
  "input_view \<Rightarrow> string \<Rightarrow> string option \<Rightarrow> 8 word list \<Rightarrow> nat \<Rightarrow> input_router
     \<Rightarrow> input_router \<times> input_effect list \<times> input_outcome list" where
  "handle_terminal_input v sid view_id bytes now_ms r =
     (let (r, reclaiming) = reclaim_lost_route v sid now_ms r;
          (r, admission) = admit_input sid view_id bytes now_ms r;
          r = r\<lparr>ir_outcome_feed := note_admission view_id admission (ir_outcome_feed r),
                ir_smoke_observer := map_option (observe_admission sid admission) (ir_smoke_observer r)\<rparr>
      in case admission of
           Err _ \<Rightarrow> (r, [], [])
         | Ok admitted \<Rightarrow>
             if is_holding sid r then (if reclaiming then claim_due_fallbacks v now_ms r else (r, [], []))
             else
               (case input_destination v sid of
                  None \<Rightarrow>
                    let (r, settled) = settle_as_unsent (pi_input_seq admitted)
                          ''no terminal transport is connected for this session'' r
                    in (r, [], settled)
                | Some token \<Rightarrow> let (r, out) = send_startable v sid token now_ms r in (r, out, [])))"

definition send_queued_input :: "input_view \<Rightarrow> string \<Rightarrow> nat \<Rightarrow> input_router \<Rightarrow> input_router \<times> input_effect list" where
  "send_queued_input v sid now_ms r =
     (if is_holding sid r then (r, [])
      else (case input_destination v sid of None \<Rightarrow> (r, []) | Some token \<Rightarrow> send_startable v sid token now_ms r))"

section \<open>A result\<close>

definition carried_on_sync :: "string \<Rightarrow> nat \<Rightarrow> input_router \<Rightarrow> bool" where
  "carried_on_sync sid seq r =
     (case find (\<lambda>p. pi_input_seq p = seq) (outstanding sid r) of
        None \<Rightarrow> False
      | Some p \<Rightarrow> (case pi_fence p of None \<Rightarrow> False | Some token \<Rightarrow> tk_transport token = Sync))"

text \<open>The worker's refusal of a batch it never wrote, because another connection holds the route.\<close>

definition route_moved :: "input_view \<Rightarrow> string \<Rightarrow> nat \<Rightarrow> input_outcome \<Rightarrow> input_router \<Rightarrow> bool" where
  "route_moved v sid seq outcome r \<longleftrightarrow> carried_on_sync sid seq r \<and> iv_route v sid = None
     \<and> (case outcome of InputRejected _ reason \<Rightarrow> reason = INPUT_ROUTE_CHANGED_REASON | _ \<Rightarrow> False)"

definition handle_input_result ::
  "input_view \<Rightarrow> string \<Rightarrow> nat \<Rightarrow> input_outcome \<Rightarrow> nat \<Rightarrow> input_router
     \<Rightarrow> input_router \<times> input_effect list \<times> input_outcome list \<times> bool" where
  "handle_input_result v sid seq outcome now_ms r =
     (let (r, requeued) = (if route_moved v sid seq outcome r then requeue_moved_sync_batch sid seq r else (r, False));
          (r, waits) = (if \<not> requeued then (r, False) else if is_holding sid r then (r, True) else reclaim_lost_route v sid now_ms r)
      in if waits then (let (r, out, settled) = claim_due_fallbacks v now_ms r in (r, out, settled, False))
         else
           (case settle seq outcome r of
              (r, False) \<Rightarrow> (r, [], [], False)
            | (r, True) \<Rightarrow> (let (r, out) = send_queued_input v sid now_ms r in (r, out, [], True))))"

text \<open>A result that arrives on a direct carrier settles only what that carrier was handed.\<close>

definition handle_direct_input_result ::
  "input_view \<Rightarrow> string \<Rightarrow> terminal_token \<Rightarrow> nat \<Rightarrow> input_outcome \<Rightarrow> nat \<Rightarrow> input_router \<Rightarrow> input_router \<times> input_effect list \<times> bool" where
  "handle_direct_input_result v sid token seq outcome now_ms r =
     (case settle_from sid token seq outcome r of
        (r, False) \<Rightarrow> (r, [], False)
      | (r, True) \<Rightarrow> let (r, out) = send_queued_input v sid now_ms r in (r, out, True))"

text \<open>The sweep's input duties: refuse what was held too long, give up on unanswered batches, send what is queued.\<close>

definition sweep_input :: "input_view \<Rightarrow> nat \<Rightarrow> input_router \<Rightarrow> input_router \<times> input_effect list \<times> input_outcome list" where
  "sweep_input v now_ms r =
     (let (r, refused) = sweep_held now_ms r; (r, lost) = sweep_unanswered now_ms r;
          (r, out) = foldl (\<lambda>(r, out) sid. let (r, out') = send_queued_input v sid now_ms r in (r, out @ out')) (r, []) (queued_sessions r)
      in (r, out, refused @ lost))"

end
