(* ===== verification/Client_Life.thy ===== *)
theory Client_Life
  imports Client_Handoff
begin

text \<open>
  The life of a keystroke. The specification is a small machine per batch: admitted, sent at most once
  and in the order typed, put back only by the refusal that proves it was not written, settled once. The
  router is shown to refine it under every sequence of the client's calls.
\<close>

section \<open>The specification\<close>

datatype stage = Waiting | Flying | Settled

type_synonym lives = "nat \<rightharpoonup> string \<times> stage"

datatype input_event =
    WasAdmitted string nat
  | WasSent string nat
  | WasRequeued nat
  | WasRefused nat
  | WasLost nat
  | WasAnswered nat

text \<open>
  A refusal by the client is only of a batch that waits, a batch is given up as lost only after it was
  sent, and a batch goes out only when nothing typed before it in its session still waits.
\<close>

fun life_step :: "input_event \<Rightarrow> lives \<Rightarrow> lives option" where
  "life_step (WasAdmitted sid n) \<sigma> = (if \<sigma> n = None then Some (\<sigma>(n \<mapsto> (sid, Waiting))) else None)"
| "life_step (WasSent sid n) \<sigma> =
     (if \<sigma> n = Some (sid, Waiting) \<and> list_all (\<lambda>m. \<sigma> m \<noteq> Some (sid, Waiting)) [0..<n]
      then Some (\<sigma>(n \<mapsto> (sid, Flying))) else None)"
| "life_step (WasRequeued n) \<sigma> =
     (case \<sigma> n of Some (sid, Flying) \<Rightarrow> Some (\<sigma>(n \<mapsto> (sid, Waiting))) | _ \<Rightarrow> None)"
| "life_step (WasRefused n) \<sigma> =
     (case \<sigma> n of Some (sid, Waiting) \<Rightarrow> Some (\<sigma>(n \<mapsto> (sid, Settled))) | _ \<Rightarrow> None)"
| "life_step (WasLost n) \<sigma> =
     (case \<sigma> n of Some (sid, Flying) \<Rightarrow> Some (\<sigma>(n \<mapsto> (sid, Settled))) | _ \<Rightarrow> None)"
| "life_step (WasAnswered n) \<sigma> =
     (case \<sigma> n of Some (sid, s) \<Rightarrow> if s = Settled then None else Some (\<sigma>(n \<mapsto> (sid, Settled))) | _ \<Rightarrow> None)"

fun life_run :: "input_event list \<Rightarrow> lives \<Rightarrow> lives option" where
  "life_run [] \<sigma> = Some \<sigma>"
| "life_run (e # es) \<sigma> = Option.bind (life_step e \<sigma>) (life_run es)"

lemma life_run_append: "life_run (xs @ ys) \<sigma> = Option.bind (life_run xs \<sigma>) (life_run ys)"
  by (induction xs arbitrary: \<sigma>) (simp_all split: option.split bind_split)

section \<open>The router's invariant\<close>

definition stage_of :: "pending_input \<Rightarrow> stage" where
  "stage_of p = (if pi_started p then Flying else Waiting)"

definition batch_ok :: "string \<Rightarrow> pending_input \<Rightarrow> bool" where
  "batch_ok sid p \<longleftrightarrow> pi_session_id p = sid \<and> (pi_started p \<longleftrightarrow> pi_fence p \<noteq> None)
     \<and> 0 < length (pi_bytes p) \<and> length (pi_bytes p) \<le> MAX_INPUT_BYTES"

definition lane_bytes :: "client_lane \<Rightarrow> nat" where
  "lane_bytes l = sum_list (map (length \<circ> pi_bytes) (il_pending l))"

definition lane_seqs :: "client_lane \<Rightarrow> nat list" where
  "lane_seqs l = map pi_input_seq (il_pending l)"

definition lane_ok :: "string \<Rightarrow> client_lane \<Rightarrow> bool" where
  "lane_ok sid l \<longleftrightarrow> il_session_id l = sid \<and> sorted_wrt (<) (lane_seqs l) \<and> (\<forall>p \<in> set (il_pending l). batch_ok sid p)
     \<and> il_pending_bytes l = lane_bytes l \<and> length (il_pending l) \<le> MAX_PENDING_INPUTS_PER_SESSION
     \<and> lane_bytes l \<le> MAX_PENDING_INPUT_BYTES_PER_SESSION
     \<and> length (filter pi_started (il_pending l)) \<le> MAX_STARTED_INPUTS_PER_SESSION"

definition router_ok :: "input_router \<Rightarrow> bool" where
  "router_ok r \<longleftrightarrow> key_sorted (ir_lanes r)
     \<and> (\<forall>i a j b. lane i r = Some a \<longrightarrow> lane j r = Some b \<longrightarrow> i \<noteq> j \<longrightarrow> set (lane_seqs a) \<inter> set (lane_seqs b) = {})
     \<and> (\<forall>sid l. lane sid r = Some l \<longrightarrow> lane_ok sid l \<and> (\<forall>n \<in> set (lane_seqs l). 0 < n \<and> n \<le> ir_next_input_seq r))"

text \<open>The router's own view of a batch.\<close>

definition lane_status :: "string \<Rightarrow> client_lane \<Rightarrow> lives" where
  "lane_status sid l = map_of (map (\<lambda>p. (pi_input_seq p, (sid, stage_of p))) (il_pending l))"

definition status :: "input_router \<Rightarrow> lives" where
  "status r n = (case find (\<lambda>(_, l). n \<in> set (lane_seqs l)) (ir_lanes r) of
     None \<Rightarrow> None | Some (sid, l) \<Rightarrow> lane_status sid l n)"

definition agrees :: "input_router \<Rightarrow> lives \<Rightarrow> bool" where
  "agrees r \<sigma> \<longleftrightarrow> (\<forall>n. \<sigma> n = status r n \<or> status r n = None \<and> (\<exists>sid. \<sigma> n = Some (sid, Settled)))
     \<and> (\<forall>n > ir_next_input_seq r. \<sigma> n = None)"

section \<open>One lane at a time\<close>

lemma lane_in: "router_ok r \<Longrightarrow> lane sid r = Some l \<longleftrightarrow> (sid, l) \<in> set (ir_lanes r)"
  by (simp add: router_ok_def lane_def key_sorted_lookup)

lemma lane_okD:
  assumes "router_ok r" "lane sid r = Some l"
  shows "lane_ok sid l" "\<forall>n \<in> set (lane_seqs l). 0 < n \<and> n \<le> ir_next_input_seq r"
  using assms by (simp_all add: router_ok_def)

lemma lane_unique:
  assumes "router_ok r" "lane i r = Some a" "lane j r = Some b" "n \<in> set (lane_seqs a)" "n \<in> set (lane_seqs b)"
  shows "i = j"
  using assms unfolding router_ok_def by blast

lemma find_SomeD: "find P xs = Some x \<Longrightarrow> x \<in> set xs \<and> P x"
  by (induction xs) (auto split: if_splits)

lemma lane_status_None: "lane_status sid l n = None \<longleftrightarrow> n \<notin> set (lane_seqs l)"
  by (auto simp: lane_status_def lane_seqs_def map_of_eq_None_iff image_iff)

lemma lane_status_session: "lane_status sid l n = Some x \<Longrightarrow> fst x = sid"
  by (auto simp: lane_status_def dest!: map_of_SomeD)

lemma lane_status_Some:
  assumes "sorted_wrt (<) (lane_seqs l)"
  shows "lane_status sid l n = Some x \<longleftrightarrow> (\<exists>p \<in> set (il_pending l). pi_input_seq p = n \<and> x = (sid, stage_of p))"
proof -
  have "distinct (map fst (map (\<lambda>p. (pi_input_seq p, (sid, stage_of p))) (il_pending l)))"
    using assms by (simp add: lane_seqs_def comp_def strict_sorted_iff)
  then show ?thesis by (auto simp: lane_status_def image_iff)
qed

lemma status_lane:
  assumes "router_ok r" "lane sid r = Some l" "n \<in> set (lane_seqs l)"
  shows "status r n = lane_status sid l n"
proof (cases "find (\<lambda>(_, l). n \<in> set (lane_seqs l)) (ir_lanes r)")
  case None
  then show ?thesis using assms by (auto simp: find_None_iff lane_in)
next
  case (Some x)
  obtain i a where x: "x = (i, a)" by (cases x)
  then have ia: "lane i r = Some a" "n \<in> set (lane_seqs a)" using find_SomeD [OF Some] assms(1) by (simp_all add: lane_in)
  then have "i = sid" using lane_unique [OF assms(1) ia(1) assms(2) ia(2) assms(3)] by simp
  then show ?thesis using Some x ia assms(2) by (simp add: status_def)
qed

lemma status_None:
  assumes "router_ok r"
  shows "status r n = None \<longleftrightarrow> (\<forall>sid l. lane sid r = Some l \<longrightarrow> n \<notin> set (lane_seqs l))"
proof (cases "find (\<lambda>(_, l). n \<in> set (lane_seqs l)) (ir_lanes r)")
  case None
  then have "status r n = None" by (simp add: status_def)
  moreover have "n \<notin> set (lane_seqs l)" if "lane sid r = Some l" for sid l
    using None that assms by (auto simp: find_None_iff lane_in)
  ultimately show ?thesis by blast
next
  case (Some x)
  obtain i a where x: "x = (i, a)" by (cases x)
  then have "lane i r = Some a" "n \<in> set (lane_seqs a)" using find_SomeD [OF Some] assms by (simp_all add: lane_in)
  moreover have "status r n \<noteq> None" using Some x calculation by (simp add: status_def lane_status_None)
  ultimately show ?thesis by blast
qed

lemma status_Some:
  assumes "router_ok r"
  shows "status r n = Some x \<longleftrightarrow> (\<exists>sid l. lane sid r = Some l \<and> lane_status sid l n = Some x)"
proof
  assume "status r n = Some x"
  then obtain sid l where "lane sid r = Some l" "n \<in> set (lane_seqs l)"
    using status_None [OF assms, of n] by (metis option.distinct(1))
  with status_lane [OF assms this] \<open>status r n = Some x\<close> show "\<exists>sid l. lane sid r = Some l \<and> lane_status sid l n = Some x" by auto
next
  assume "\<exists>sid l. lane sid r = Some l \<and> lane_status sid l n = Some x"
  then show "status r n = Some x" using status_lane [OF assms] lane_status_None by (metis option.distinct(1))
qed

lemma lane_in_lane: "lane j (in_lane sid f r) = (if j = sid then map_option f (lane j r) else lane j r)"
  by (simp add: lane_def in_lane_def btree_update_lookup)

lemma lane_lane_mut:
  "key_sorted (ir_lanes r) \<Longrightarrow> lane j (lane_mut sid f r)
     = (if j = sid then Some (f (case lane sid r of None \<Rightarrow> lane_new sid | Some l \<Rightarrow> l)) else lane j r)"
  by (simp add: lane_def lane_mut_def btree_insert_lookup)

lemma next_seq_frame [simp]:
  "ir_next_input_seq (in_lane sid f r) = ir_next_input_seq r" "ir_next_input_seq (lane_mut sid f r) = ir_next_input_seq r"
  by (simp_all add: in_lane_def lane_mut_def)

text \<open>Changing one lane without adding a batch to it.\<close>

lemma in_lane_sorted [simp]: "key_sorted (ir_lanes (in_lane sid f r)) = key_sorted (ir_lanes r)"
  by (simp add: in_lane_def key_sorted_def)

lemma in_lane_ok:
  assumes "router_ok r" "lane sid r = Some l" "lane_ok sid (f l)" "set (lane_seqs (f l)) \<subseteq> set (lane_seqs l)"
  shows "router_ok (in_lane sid f r)"
    "status (in_lane sid f r) n = (if n \<in> set (lane_seqs l) then lane_status sid (f l) n else status r n)"
proof -
  have L: "lane j (in_lane sid f r) = (if j = sid then Some (f l) else lane j r)" for j
    using assms(2) by (simp add: lane_in_lane)
  have within: "n \<in> set (lane_seqs a') \<Longrightarrow> \<exists>a. lane j r = Some a \<and> n \<in> set (lane_seqs a)" if "lane j (in_lane sid f r) = Some a'" for j a' n
    using that assms(2,4) by (auto simp: L split: if_splits)
  show ok: "router_ok (in_lane sid f r)"
    unfolding router_ok_def
  proof (intro conjI allI impI)
    show "key_sorted (ir_lanes (in_lane sid f r))" using assms(1) by (simp add: router_ok_def)
    show "set (lane_seqs a) \<inter> set (lane_seqs b) = {}"
      if "lane i (in_lane sid f r) = Some a" "lane j (in_lane sid f r) = Some b" "i \<noteq> j" for i a j b
      using within [OF that(1)] within [OF that(2)] lane_unique [OF assms(1)] that(3) by blast
    fix j a assume a: "lane j (in_lane sid f r) = Some a"
    show "lane_ok j a" using a assms(1,3) by (auto simp: L router_ok_def split: if_splits)
    show "\<forall>n \<in> set (lane_seqs a). 0 < n \<and> n \<le> ir_next_input_seq (in_lane sid f r)"
      using within [OF a] lane_okD(2) [OF assms(1)] by fastforce
  qed
  show "status (in_lane sid f r) n = (if n \<in> set (lane_seqs l) then lane_status sid (f l) n else status r n)"
  proof (cases "n \<in> set (lane_seqs (f l))")
    case True
    then show ?thesis using status_lane [OF ok, of sid "f l" n] assms(4) by (auto simp: L)
  next
    case False
    then have gone: "n \<notin> set (lane_seqs a)" if "lane j (in_lane sid f r) = Some a" "n \<in> set (lane_seqs l)" for j a
      using that lane_unique [OF assms(1,2)] by (auto simp: L split: if_splits)
    show ?thesis
    proof (cases "n \<in> set (lane_seqs l)")
      case True
      then show ?thesis using gone False status_None [OF ok, of n] lane_status_None [of sid "f l" n] by auto
    next
      case out: False
      show ?thesis
      proof (cases "status r n")
        case None
        then have "status (in_lane sid f r) n = None"
          unfolding status_None [OF ok] using False status_None [OF assms(1), of n] by (auto simp: L)
        with None out show ?thesis by simp
      next
        case (Some x)
        then obtain j a where "lane j r = Some a" "lane_status j a n = Some x" using status_Some [OF assms(1)] by blast
        moreover from this have "j \<noteq> sid" using out assms(2) lane_status_None [of j a n] by auto
        ultimately have "status (in_lane sid f r) n = Some x" using status_Some [OF ok] by (metis L)
        with Some out show ?thesis by simp
      qed
    qed
  qed
qed

text \<open>Calls that touch no batch.\<close>

definition keeps_batches :: "input_router \<Rightarrow> input_router \<Rightarrow> bool" where
  "keeps_batches r r' \<longleftrightarrow> (router_ok r \<longrightarrow> router_ok r' \<and> status r' = status r \<and> ir_next_input_seq r' = ir_next_input_seq r)"

lemma keeps_refl [simp]: "keeps_batches r r" by (simp add: keeps_batches_def)

lemma keeps_trans: "keeps_batches r r' \<Longrightarrow> keeps_batches r' r'' \<Longrightarrow> keeps_batches r r''"
  by (simp add: keeps_batches_def)

definition same_pending :: "client_lane \<Rightarrow> client_lane \<Rightarrow> bool" where
  "same_pending l l' \<longleftrightarrow> il_session_id l' = il_session_id l \<and> il_pending l' = il_pending l \<and> il_pending_bytes l' = il_pending_bytes l"

lemma same_pendingD:
  assumes "same_pending l l'"
  shows "lane_ok sid l' = lane_ok sid l" "lane_seqs l' = lane_seqs l" "lane_status sid l' = lane_status sid l"
  using assms by (simp_all add: same_pending_def lane_ok_def lane_seqs_def lane_bytes_def lane_status_def)

lemma keeps_in_lane:
  assumes "\<And>l. lane sid r = Some l \<Longrightarrow> same_pending l (f l)"
  shows "keeps_batches r (in_lane sid f r)"
proof (cases "lane sid r")
  case None
  then have "in_lane sid f r = r"
    unfolding in_lane_def lane_def btree_update_def
    by (force simp: map_of_eq_None_iff image_iff intro!: map_idI input_router.equality)
  then show ?thesis by simp
next
  case (Some l)
  note same = same_pendingD [OF assms [OF Some]]
  show ?thesis
    unfolding keeps_batches_def
  proof (intro impI conjI ext)
    assume ok: "router_ok r"
    have f: "lane_ok sid (f l)" "set (lane_seqs (f l)) \<subseteq> set (lane_seqs l)" using lane_okD [OF ok Some] same by simp_all
    show "router_ok (in_lane sid f r)" by (rule in_lane_ok(1) [where f = f, OF ok Some f])
    show "status (in_lane sid f r) n = status r n" for n
      using in_lane_ok(2) [where f = f, OF ok Some f, of n] same status_lane [OF ok Some, of n] by auto
  qed simp
qed

lemma lanes_only_matter:
  assumes "ir_lanes r' = ir_lanes r" "ir_next_input_seq r' = ir_next_input_seq r"
  shows "router_ok r' = router_ok r" "status r' = status r" "lane sid r' = lane sid r"
  using assms by (simp_all add: router_ok_def status_def lane_def fun_eq_iff)

lemma observe_settled_frame [simp]:
  "ir_lanes (observe_settled os r) = ir_lanes r" "ir_next_input_seq (observe_settled os r) = ir_next_input_seq r"
  by (induction os arbitrary: r) (simp_all add: observe_settled_def)

lemma observe_settled_life [simp]:
  "router_ok (observe_settled os r) = router_ok r" "status (observe_settled os r) = status r"
  "lane sid (observe_settled os r) = lane sid r"
  by (rule lanes_only_matter; simp)+

text \<open>A lane made on first use holds nothing.\<close>

lemma lane_new_ok: "lane_ok sid (lane_new sid)" "lane_seqs (lane_new sid) = []"
  by (simp_all add: lane_ok_def lane_new_def lane_seqs_def lane_bytes_def)

lemma keeps_lane_mut:
  assumes "same_pending (case lane sid r of None \<Rightarrow> lane_new sid | Some l \<Rightarrow> l) (f (case lane sid r of None \<Rightarrow> lane_new sid | Some l \<Rightarrow> l))"
  shows "keeps_batches r (lane_mut sid f r)"
  unfolding keeps_batches_def
proof (intro impI conjI ext)
  assume ok: "router_ok r"
  let ?l = "case lane sid r of None \<Rightarrow> lane_new sid | Some l \<Rightarrow> l"
  have L: "lane j (lane_mut sid f r) = (if j = sid then Some (f ?l) else lane j r)" for j
    using ok by (simp add: lane_lane_mut router_ok_def)
  have l: "lane_ok sid (f ?l)" "lane_seqs (f ?l) = lane_seqs ?l"
    using same_pendingD(1) [OF assms, of sid] same_pendingD(2) [OF assms] lane_okD(1) [OF ok, of sid] lane_new_ok(1)
    by (auto split: option.split)
  have old: "\<exists>a. lane j r = Some a \<and> n \<in> set (lane_seqs a)" if "lane j (lane_mut sid f r) = Some b" "n \<in> set (lane_seqs b)" for j b n
    using that l(2) lane_new_ok(2) [of sid] by (cases "lane sid r") (auto simp: L split: if_splits)
  show ok': "router_ok (lane_mut sid f r)"
    unfolding router_ok_def
  proof (intro conjI allI impI)
    show "key_sorted (ir_lanes (lane_mut sid f r))" using ok by (simp add: lane_mut_def router_ok_def btree_insert_sorted)
    show "set (lane_seqs a) \<inter> set (lane_seqs b) = {}"
      if "lane i (lane_mut sid f r) = Some a" "lane j (lane_mut sid f r) = Some b" "i \<noteq> j" for i a j b
      using old [OF that(1)] old [OF that(2)] lane_unique [OF ok] that(3) by blast
    fix j a assume a: "lane j (lane_mut sid f r) = Some a"
    show "lane_ok j a" using a ok l(1) by (auto simp: L router_ok_def split: if_splits)
    show "\<forall>n \<in> set (lane_seqs a). 0 < n \<and> n \<le> ir_next_input_seq (lane_mut sid f r)"
      using old [OF a] lane_okD(2) [OF ok] by fastforce
  qed
  show "status (lane_mut sid f r) n = status r n" for n
  proof (cases "status r n")
    case None
    have "n \<notin> set (lane_seqs a)" if "lane j (lane_mut sid f r) = Some a" for j a
      using old [OF that] None status_None [OF ok, of n] by blast
    with None show ?thesis using status_None [OF ok', of n] by auto
  next
    case (Some x)
    then obtain j a where a: "lane j r = Some a" "lane_status j a n = Some x" using status_Some [OF ok] by blast
    have "lane_status j b n = Some x" if "lane j (lane_mut sid f r) = Some b" for b
      using that a same_pendingD(3) [OF assms, of sid] by (auto simp: L split: if_splits)
    moreover have "\<exists>b. lane j (lane_mut sid f r) = Some b" using a by (auto simp: L)
    ultimately have "status (lane_mut sid f r) n = Some x" using status_Some [OF ok'] by blast
    with Some show ?thesis by simp
  qed
qed simp

section \<open>Removing batches\<close>

definition without :: "nat set \<Rightarrow> client_lane \<Rightarrow> client_lane" where
  "without gone l = (let kept = filter (\<lambda>p. pi_input_seq p \<notin> gone) (il_pending l)
     in l\<lparr>il_pending := kept, il_pending_bytes := sum_list (map (length \<circ> pi_bytes) kept)\<rparr>)"

lemma without_simps [simp]:
  "il_pending (without gone l) = filter (\<lambda>p. pi_input_seq p \<notin> gone) (il_pending l)"
  "il_session_id (without gone l) = il_session_id l" "il_phase (without gone l) = il_phase l"
  "il_claims (without gone l) = il_claims l" "il_route_epoch_token (without gone l) = il_route_epoch_token l"
  by (simp_all add: without_def Let_def)

lemma without_seqs: "lane_seqs (without gone l) = filter (\<lambda>n. n \<notin> gone) (lane_seqs l)"
  by (simp add: lane_seqs_def filter_map comp_def)

lemma without_status: "lane_status sid (without gone l) n = (if n \<in> gone then None else lane_status sid l n)"
proof -
  have "map_of (map (\<lambda>p. (pi_input_seq p, (sid, stage_of p))) (filter (\<lambda>p. pi_input_seq p \<notin> gone) ps)) n
      = (if n \<in> gone then None else map_of (map (\<lambda>p. (pi_input_seq p, (sid, stage_of p))) ps) n)" for ps
    by (induction ps) auto
  then show ?thesis by (simp add: lane_status_def)
qed

lemma kept_bytes: "sum_list (map (\<lambda>p. length (pi_bytes p)) (filter P ps)) \<le> sum_list (map (\<lambda>p. length (pi_bytes p)) ps)"
  by (induction ps) auto

lemma kept_started: "length (filter pi_started (filter P ps)) \<le> length (filter pi_started ps)"
  by (induction ps) auto

lemma without_ok:
  assumes "lane_ok sid l"
  shows "lane_ok sid (without gone l)"
proof -
  let ?P = "\<lambda>p. pi_input_seq p \<notin> gone"
  have "lane_bytes (without gone l) \<le> lane_bytes l"
    using kept_bytes [of ?P "il_pending l"] by (simp add: lane_bytes_def comp_def)
  moreover have "length (filter pi_started (il_pending (without gone l))) \<le> length (filter pi_started (il_pending l))"
    unfolding without_simps by (rule kept_started)
  moreover have "length (il_pending (without gone l)) \<le> length (il_pending l)" by simp
  moreover have "il_pending_bytes (without gone l) = lane_bytes (without gone l)"
    by (simp add: without_def Let_def lane_bytes_def)
  moreover have "sorted_wrt (<) (lane_seqs (without gone l))"
    using assms unfolding without_seqs lane_ok_def by (simp add: sorted_wrt_filter)
  ultimately show ?thesis using assms unfolding lane_ok_def by (simp del: without_simps(1)) auto
qed

text \<open>Taking the first batch with a sequence out of a list.\<close>

lemma take_out:
  assumes "sorted_wrt (<) (map pi_input_seq ps)" "dropWhile (\<lambda>p. pi_input_seq p \<noteq> n) ps = p # later"
  shows "takeWhile (\<lambda>p. pi_input_seq p \<noteq> n) ps @ later = filter (\<lambda>p. pi_input_seq p \<noteq> n) ps
    \<and> sum_list (map (\<lambda>p. length (pi_bytes p)) ps)
       = length (pi_bytes p) + sum_list (map (\<lambda>p. length (pi_bytes p)) (filter (\<lambda>p. pi_input_seq p \<noteq> n) ps))"
  using assms
proof (induction ps)
  case (Cons q ps)
  show ?case
  proof (cases "pi_input_seq q = n")
    case True
    then have "filter (\<lambda>p. pi_input_seq p \<noteq> n) ps = ps" using Cons.prems(1) by (auto simp: filter_id_conv)
    with True Cons.prems(2) show ?thesis by simp
  next
    case False
    with Cons show ?thesis by simp
  qed
qed simp

lemma settle_in_exact:
  assumes "lane_ok sid l"
  shows "settle_in n l = (if n \<in> set (lane_seqs l) then (without {n} l, True) else (l, False))"
proof (cases "dropWhile (\<lambda>p. pi_input_seq p \<noteq> n) (il_pending l)")
  case Nil
  then have "n \<notin> set (lane_seqs l)" by (auto simp: lane_seqs_def dropWhile_eq_Nil_conv)
  then show ?thesis by (simp add: settle_in_def Nil del: dropWhile_eq_Nil_conv)
next
  case (Cons p later)
  have "sorted_wrt (<) (map pi_input_seq (il_pending l))"
    and b: "il_pending_bytes l = sum_list (map (\<lambda>p. length (pi_bytes p)) (il_pending l))"
    using assms by (simp_all add: lane_ok_def lane_seqs_def lane_bytes_def comp_def)
  note out = take_out [OF this(1) Cons]
  have "p \<in> set (il_pending l)" using Cons by (metis list.set_intros(1) set_dropWhileD)
  moreover have "pi_input_seq p = n" using Cons by (metis (mono_tags, lifting) dropWhile_eq_Cons_conv)
  ultimately have "n \<in> set (lane_seqs l)" by (auto simp: lane_seqs_def)
  with Cons out b show ?thesis by (simp add: settle_in_def without_def Let_def comp_def)
qed

lemma without_without: "without a (without b l) = without (a \<union> b) l"
  by (simp add: without_def Let_def conj_commute)

lemma without_nothing:
  assumes "lane_ok sid l" "set (lane_seqs l) \<inter> gone = {}"
  shows "without gone l = l"
proof -
  have "filter (\<lambda>p. pi_input_seq p \<notin> gone) (il_pending l) = il_pending l"
    using assms(2) by (auto simp: filter_id_conv lane_seqs_def)
  with assms(1) show ?thesis by (simp add: without_def lane_ok_def lane_bytes_def)
qed

section \<open>What a call tells the specification\<close>

text \<open>
  A call is simulated by the events it stands for: from a router and a specification state that agree,
  the specification accepts the events, and the two agree again.
\<close>

definition tells :: "input_router \<Rightarrow> input_event list \<Rightarrow> input_router \<Rightarrow> bool" where
  "tells r es r' \<longleftrightarrow> (router_ok r \<longrightarrow> router_ok r' \<and> (\<forall>\<sigma>. agrees r \<sigma> \<longrightarrow> (\<exists>\<sigma>'. life_run es \<sigma> = Some \<sigma>' \<and> agrees r' \<sigma>')))"

lemma tells_trans: "tells r es r' \<Longrightarrow> tells r' es' r'' \<Longrightarrow> tells r (es @ es') r''"
  unfolding tells_def life_run_append by (metis bind.bind_lunit)

lemma keeps_tells: "keeps_batches r r' \<Longrightarrow> tells r [] r'"
  by (simp add: tells_def keeps_batches_def agrees_def)

lemma tells_keeps: "tells r es r' \<Longrightarrow> keeps_batches r' r'' \<Longrightarrow> tells r es r''"
  using tells_trans [OF _ keeps_tells, of r es r' r''] by simp

lemma keeps_then_tells: "keeps_batches r r' \<Longrightarrow> tells r' es r'' \<Longrightarrow> tells r es r''"
  using tells_trans [OF keeps_tells, of r r' es r''] by simp

lemma lanes_keep:
  "ir_lanes r' = ir_lanes r \<Longrightarrow> ir_next_input_seq r' = ir_next_input_seq r \<Longrightarrow> keeps_batches r r'"
  by (simp add: keeps_batches_def lanes_only_matter [of r' r])

subsection \<open>Batches that leave\<close>

fun closes :: "input_event \<Rightarrow> nat \<Rightarrow> stage \<Rightarrow> bool" where
  "closes (WasRefused m) n st = (m = n \<and> st = Waiting)"
| "closes (WasLost m) n st = (m = n \<and> st = Flying)"
| "closes (WasAnswered m) n st = (m = n \<and> st \<noteq> Settled)"
| "closes _ n st = False"

definition settled_in :: "nat set \<Rightarrow> lives \<Rightarrow> lives" where
  "settled_in gone \<sigma> = (\<lambda>n. if n \<in> gone then map_option (\<lambda>(sid, _). (sid, Settled)) (\<sigma> n) else \<sigma> n)"

lemma life_closes:
  assumes "closes e n st" "\<sigma> n = Some (sid, st)"
  shows "life_step e \<sigma> = Some (\<sigma>(n \<mapsto> (sid, Settled)))"
  using assms by (cases e) auto

lemma life_run_closes:
  assumes "distinct ns" "\<forall>n \<in> set ns. \<exists>sid st. \<sigma> n = Some (sid, st) \<and> closes (ev n) n st"
  shows "life_run (map ev ns) \<sigma> = Some (settled_in (set ns) \<sigma>)"
  using assms
proof (induction ns arbitrary: \<sigma>)
  case Nil
  then show ?case by (simp add: settled_in_def)
next
  case (Cons n ns)
  obtain sid st where n: "\<sigma> n = Some (sid, st)" "closes (ev n) n st" using Cons.prems(2) by auto
  let ?s = "\<sigma>(n \<mapsto> (sid, Settled))"
  have "life_run (map ev ns) ?s = Some (settled_in (set ns) ?s)"
    by (rule Cons.IH) (use Cons.prems in auto)
  moreover have "settled_in (set ns) ?s = settled_in (set (n # ns)) \<sigma>"
    using n(1) Cons.prems(1) by (auto simp: settled_in_def fun_eq_iff)
  ultimately show ?case using life_closes [of "ev n" n st \<sigma> sid] n by simp
qed

definition removed :: "nat set \<Rightarrow> input_router \<Rightarrow> input_router \<Rightarrow> bool" where
  "removed gone r r' \<longleftrightarrow> (router_ok r \<longrightarrow> router_ok r' \<and> ir_next_input_seq r' = ir_next_input_seq r
     \<and> (\<forall>n. status r' n = (if n \<in> gone then None else status r n)))"

lemma removed_trans: "removed a r r' \<Longrightarrow> removed b r' r'' \<Longrightarrow> removed (a \<union> b) r r''"
  by (simp add: removed_def)

lemma removed_keeps: "removed a r r' \<Longrightarrow> keeps_batches r' r'' \<Longrightarrow> removed a r r''"
  by (simp add: removed_def keeps_batches_def)

lemma status_known: "agrees r \<sigma> \<Longrightarrow> status r n = Some x \<Longrightarrow> \<sigma> n = Some x"
  unfolding agrees_def by (metis option.distinct(1))

lemma removed_tells:
  assumes "removed (set ns) r r'" "distinct ns"
    "router_ok r \<Longrightarrow> \<forall>n \<in> set ns. \<exists>sid st. status r n = Some (sid, st) \<and> closes (ev n) n st"
  shows "tells r (map ev ns) r'"
  unfolding tells_def
proof (intro impI conjI allI)
  assume ok: "router_ok r"
  then show "router_ok r'" using assms(1) by (simp add: removed_def)
  fix \<sigma> assume a: "agrees r \<sigma>"
  have "\<forall>n \<in> set ns. \<exists>sid st. \<sigma> n = Some (sid, st) \<and> closes (ev n) n st"
    using assms(3) [OF ok] status_known [OF a] by blast
  then have run: "life_run (map ev ns) \<sigma> = Some (settled_in (set ns) \<sigma>)" by (rule life_run_closes [OF assms(2)])
  have "agrees r' (settled_in (set ns) \<sigma>)"
    using a assms(1) ok assms(3) [OF ok] status_known [OF a]
    unfolding agrees_def removed_def settled_in_def by fastforce
  with run show "\<exists>\<sigma>'. life_run (map ev ns) \<sigma> = Some \<sigma>' \<and> agrees r' \<sigma>'" by blast
qed

lemma removed_in_lane:
  assumes "lane sid r = Some l" "same_pending (without gone l) l'" "gone \<subseteq> set (lane_seqs l)"
  shows "removed gone r (in_lane sid (\<lambda>_. l') r)"
  unfolding removed_def
proof (intro impI conjI allI)
  assume ok: "router_ok r"
  note same = same_pendingD [OF assms(2)]
  have "lane_ok sid l'" using same(1) without_ok [OF lane_okD(1) [OF ok assms(1)]] by simp
  moreover have "set (lane_seqs l') \<subseteq> set (lane_seqs l)" by (auto simp: same(2) without_seqs)
  ultimately have L: "router_ok (in_lane sid (\<lambda>_. l') r)"
    "\<And>n. status (in_lane sid (\<lambda>_. l') r) n = (if n \<in> set (lane_seqs l) then lane_status sid l' n else status r n)"
    using in_lane_ok [OF ok assms(1), of "\<lambda>_. l'"] by blast+
  show "router_ok (in_lane sid (\<lambda>_. l') r)" by (rule L(1))
  show "status (in_lane sid (\<lambda>_. l') r) n = (if n \<in> gone then None else status r n)" for n
    using L(2) [of n] assms(3) status_lane [OF ok assms(1), of n] by (auto simp: same(3) without_status)
qed simp

lemma settle_lanes_exact:
  assumes "distinct (map fst m)" "\<forall>(sid, l) \<in> set m. lane_ok sid l"
  shows "settle_lanes n m = (case find (\<lambda>(_, l). n \<in> set (lane_seqs l)) m of
     None \<Rightarrow> (m, False) | Some (sid, l) \<Rightarrow> (btree_update sid (without {n}) m, True))"
  using assms
proof (induction m)
  case (Cons x m)
  obtain sid l where x: "x = (sid, l)" by (cases x)
  have l: "lane_ok sid l" using Cons.prems x by simp
  have rest: "btree_update sid f m = m" for f
    using Cons.prems(1) x by (force simp: btree_update_def intro!: map_idI)
  show ?case
  proof (cases "n \<in> set (lane_seqs l)")
    case True
    then show ?thesis using x settle_in_exact [OF l, of n] rest by (simp add: btree_update_def)
  next
    case False
    have "i \<noteq> sid" if "find (\<lambda>(_, l). n \<in> set (lane_seqs l)) m = Some (i, a)" for i a
      using find_SomeD [OF that] Cons.prems(1) x by force
    with False x settle_in_exact [OF l, of n] Cons show ?thesis
      by (auto simp: btree_update_def split: option.split)
  qed
qed simp

lemma settle_exact:
  assumes "router_ok r" "input_outcome_seq outcome = n"
  shows "settle n outcome r = (case status r n of
     None \<Rightarrow> (r, False) | Some (sid, _) \<Rightarrow> (observe_settled [outcome] (in_lane sid (without {n}) r), True))"
proof -
  have m: "distinct (map fst (ir_lanes r))" "\<forall>(sid, l) \<in> set (ir_lanes r). lane_ok sid l"
    using assms(1) lane_in [OF assms(1)] by (auto simp: router_ok_def key_sorted_def strict_sorted_iff)
  show ?thesis
  proof (cases "find (\<lambda>(_, l). n \<in> set (lane_seqs l)) (ir_lanes r)")
    case None
    then show ?thesis using assms(2) by (simp add: settle_def settle_lanes_exact [OF m] status_def)
  next
    case (Some x)
    obtain sid l where x: "x = (sid, l)" by (cases x)
    then have "n \<in> set (lane_seqs l)" using find_SomeD [OF Some] by simp
    then obtain st where "lane_status sid l n = Some (sid, st)"
      using lane_status_None [of sid l n] lane_status_session [of sid l n] by fastforce
    with Some x assms(2) show ?thesis
      by (simp add: settle_def settle_lanes_exact [OF m] status_def in_lane_def)
  qed
qed

lemma in_lane_const: "lane sid r = Some l \<Longrightarrow> router_ok r \<Longrightarrow> in_lane sid f r = in_lane sid (\<lambda>_. f l) r"
  by (auto simp: in_lane_def btree_update_def lane_in [symmetric] intro!: input_router.equality)

lemma same_pending_refl [simp]: "same_pending l l" by (simp add: same_pending_def)

lemma observe_keeps [simp]: "keeps_batches r (observe_settled os r)" by (rule lanes_keep) simp_all

lemma settle_removes:
  assumes "router_ok r" "input_outcome_seq outcome = n" "status r n = Some (sid, st)"
  shows "removed {n} r (fst (settle n outcome r))" "snd (settle n outcome r)"
proof -
  obtain i l where l: "lane i r = Some l" "lane_status i l n = Some (sid, st)" using assms status_Some by blast
  then have "i = sid" using lane_status_session by fastforce
  then have "lane sid r = Some l" "{n} \<subseteq> set (lane_seqs l)" using l lane_status_None [of sid l n] by auto
  then have "removed {n} r (in_lane sid (\<lambda>_. without {n} l) r)" by (intro removed_in_lane) simp_all
  then show "removed {n} r (fst (settle n outcome r))"
    using removed_keeps [OF _ observe_keeps] settle_exact [OF assms(1,2)] assms(3)
      in_lane_const [OF \<open>lane sid r = Some l\<close> assms(1), of "without {n}"] by simp
  show "snd (settle n outcome r)" using settle_exact [OF assms(1,2)] assms(3) by simp
qed

lemma settle_each_removes:
  assumes "router_ok r" "distinct ns" "\<forall>n \<in> set ns. status r n \<noteq> None" "\<forall>n. input_outcome_seq (f n) = n"
  shows "removed (set ns) r (fst (settle_each f ns r))"
  using assms
proof (induction ns arbitrary: r)
  case Nil
  then show ?case by (simp add: settle_each_def removed_def)
next
  case (Cons n ns)
  obtain sid st where "status r n = Some (sid, st)" using Cons.prems(3) by fastforce
  then have one: "removed {n} r (fst (settle n (f n) r))" using settle_removes Cons.prems by blast
  moreover have "removed (set ns) (fst (settle n (f n) r)) (fst (settle_each f ns (fst (settle n (f n) r))))"
    by (rule Cons.IH) (use one Cons.prems in \<open>auto simp: removed_def\<close>)
  ultimately show ?case using removed_trans by (fastforce simp: settle_each_def)
qed

lemma pending_status:
  assumes "router_ok r" "lane sid r = Some l" "p \<in> set (il_pending l)"
  shows "status r (pi_input_seq p) = Some (sid, stage_of p)"
proof -
  have "sorted_wrt (<) (lane_seqs l)" using lane_okD(1) [OF assms(1,2)] by (simp add: lane_ok_def)
  then have "lane_status sid l (pi_input_seq p) = Some (sid, stage_of p)" using assms(3) lane_status_Some by blast
  then show ?thesis using status_Some [OF assms(1)] assms(2) by blast
qed

text \<open>The two loops that take a list of batches out of one lane.\<close>

lemma refuse_each_exact:
  assumes "lane_ok sid l" "distinct ns" "set ns \<subseteq> set (lane_seqs l)"
  shows "refuse_each reason ns l = (without (set ns) l, map (\<lambda>n. InputRejected n reason) ns)"
  using assms
proof (induction ns arbitrary: l)
  case Nil
  then show ?case using without_nothing [of sid l "{}"] by simp
next
  case (Cons n ns)
  have "settle_in n l = (without {n} l, True)" using settle_in_exact [OF Cons.prems(1), of n] Cons.prems(3) by simp
  moreover have "refuse_each reason ns (without {n} l) = (without (set ns) (without {n} l), map (\<lambda>n. InputRejected n reason) ns)"
    by (rule Cons.IH) (use Cons.prems in \<open>auto simp: without_ok without_seqs\<close>)
  ultimately show ?case by (simp add: without_without)
qed

lemma same_pending_trans: "same_pending a b \<Longrightarrow> same_pending b c \<Longrightarrow> same_pending a c"
  by (simp add: same_pending_def)

lemma same_pending_without: "same_pending a b \<Longrightarrow> same_pending (without gone a) (without gone b)"
  by (simp add: same_pending_def without_def Let_def)

lemma retire_each_exact:
  assumes "lane_ok sid l" "distinct (map input_outcome_seq os)" "input_outcome_seq ` set os \<subseteq> set (lane_seqs l)"
  shows "snd (retire_each os l) = os \<and> same_pending (without (input_outcome_seq ` set os) l) (fst (retire_each os l))"
  using assms
proof (induction os arbitrary: l)
  case Nil
  then show ?case using without_nothing [of sid l "{}"] by simp
next
  case (Cons os1 os)
  let ?n = "input_outcome_seq os1"
  let ?l = "if is_ambiguous os1 then (without {?n} l)\<lparr>il_ambiguous := il_ambiguous (without {?n} l) @ [?n]\<rparr> else without {?n} l"
  have "settle_in ?n l = (without {?n} l, True)" using settle_in_exact [OF Cons.prems(1), of ?n] Cons.prems(3) by simp
  then have step: "retire_each (os1 # os) l = (fst (retire_each os ?l), os1 # snd (retire_each os ?l))"
    by (simp add: Let_def split: prod.split)
  have same: "same_pending (without {?n} l) ?l" by (simp add: same_pending_def)
  have "snd (retire_each os ?l) = os \<and> same_pending (without (input_outcome_seq ` set os) ?l) (fst (retire_each os ?l))"
  proof (rule Cons.IH)
    show "lane_ok sid ?l" using same_pendingD(1) [OF same] without_ok [OF Cons.prems(1)] by blast
    show "input_outcome_seq ` set os \<subseteq> set (lane_seqs ?l)"
      using Cons.prems(2,3) unfolding same_pendingD(2) [OF same] without_seqs by (auto simp: image_iff)
  qed (use Cons.prems in simp)
  moreover have "same_pending (without (input_outcome_seq ` set (os1 # os)) l) (without (input_outcome_seq ` set os) ?l)"
    using same_pending_without [OF same, of "input_outcome_seq ` set os"] by (simp only: without_without) simp
  ultimately show ?case unfolding step fst_conv snd_conv using same_pending_trans by blast
qed

text \<open>What a sweep over all lanes picks.\<close>

definition chosen :: "(client_lane \<Rightarrow> pending_input \<Rightarrow> bool) \<Rightarrow> input_router \<Rightarrow> pending_input list" where
  "chosen P r = concat (map (\<lambda>x. filter (P (snd x)) (il_pending (snd x))) (ir_lanes r))"

lemma chosen_in: "router_ok r \<Longrightarrow> p \<in> set (chosen P r) \<longleftrightarrow> (\<exists>sid l. lane sid r = Some l \<and> p \<in> set (il_pending l) \<and> P l p)"
  by (force simp: chosen_def lane_in)

lemma chosen_distinct:
  assumes "router_ok r"
  shows "distinct (map pi_input_seq (chosen P r))"
proof -
  have "distinct (map pi_input_seq (concat (map (\<lambda>x. filter (P (snd x)) (il_pending (snd x))) m)))"
    if "set m \<subseteq> set (ir_lanes r)" "distinct (map fst m)" for m
    using that
  proof (induction m)
    case (Cons x m)
    obtain sid l where x: "x = (sid, l)" by (cases x)
    then have l: "lane sid r = Some l" using Cons.prems(1) assms by (simp add: lane_in)
    then have "distinct (map pi_input_seq (filter (P l) (il_pending l)))"
      using lane_okD(1) [OF assms l] by (simp add: lane_ok_def lane_seqs_def strict_sorted_iff distinct_map_filter)
    moreover have "pi_input_seq p \<noteq> pi_input_seq q" if "p \<in> set (il_pending l)" "(j, a) \<in> set m" "q \<in> set (il_pending a)" for p q j a
    proof
      assume same: "pi_input_seq p = pi_input_seq q"
      have "lane j r = Some a" using Cons.prems(1) that(2) assms by (auto simp: lane_in)
      then have "j = sid" using pending_status [OF assms l that(1)] pending_status [OF assms _ that(3)] same by fastforce
      then show False using Cons.prems(2) that(2) x by force
    qed
    ultimately show ?case using Cons x by fastforce
  qed simp
  moreover have "distinct (map fst (ir_lanes r))" using assms key_sorted_distinct unfolding router_ok_def by blast
  ultimately show ?thesis unfolding chosen_def by blast
qed

lemma chosen_status:
  assumes "router_ok r" "n \<in> set (map pi_input_seq (chosen P r))"
  shows "\<exists>p sid l. lane sid r = Some l \<and> p \<in> set (il_pending l) \<and> P l p \<and> pi_input_seq p = n \<and> status r n = Some (sid, stage_of p)"
  using assms pending_status [OF assms(1)] by (auto simp: chosen_in) blast

lemma sweep_held_chosen:
  "sweep_held now r = settle_each (\<lambda>seq. InputRejected seq ''terminal input route is reconnecting'')
     (map pi_input_seq (chosen (\<lambda>l p. (il_phase l \<noteq> Sending \<or> \<not> list_ex pi_started (il_pending l))
        \<and> \<not> pi_started p \<and> HELD_INPUT_ADMISSION_TIMEOUT_MS \<le> now - pi_admitted_at_ms p) r)) r"
proof -
  have "held_too_long now = (\<lambda>l. filter (\<lambda>p. (il_phase l \<noteq> Sending \<or> \<not> list_ex pi_started (il_pending l))
        \<and> \<not> pi_started p \<and> HELD_INPUT_ADMISSION_TIMEOUT_MS \<le> now - pi_admitted_at_ms p) (il_pending l))"
    by (auto simp: held_too_long_def fun_eq_iff)
  then show ?thesis by (simp add: sweep_held_def chosen_def comp_def case_prod_beta)
qed

lemma sweep_unanswered_chosen:
  "sweep_unanswered now r = settle_each (\<lambda>seq. InputAmbiguous seq 0 ''input result timed out; the batch will not be retried'')
     (map pi_input_seq (chosen (\<lambda>l p. pi_started p \<and> INPUT_RESULT_TIMEOUT_MS \<le> now - pi_started_at_ms p) r)) r"
  by (simp add: sweep_unanswered_def chosen_def comp_def case_prod_beta unanswered_def [abs_def])

subsection \<open>Refusals and losses\<close>

definition unsent :: "string \<Rightarrow> input_router \<Rightarrow> nat list" where
  "unsent sid r = map pi_input_seq (filter (\<lambda>p. \<not> pi_started p) (outstanding sid r))"

lemma refuse_unstarted_tells:
  "tells r (map WasRefused (unsent sid r)) (fst (refuse_unstarted sid reason r))"
  "router_ok r \<Longrightarrow> snd (refuse_unstarted sid reason r) = map (\<lambda>n. InputRejected n reason) (unsent sid r)"
  "removed (set (unsent sid r)) r (fst (refuse_unstarted sid reason r))"
proof -
  have both: "removed (set (unsent sid r)) r (fst (refuse_unstarted sid reason r))
      \<and> snd (refuse_unstarted sid reason r) = map (\<lambda>n. InputRejected n reason) (unsent sid r)
      \<and> distinct (unsent sid r) \<and> (\<forall>n \<in> set (unsent sid r). status r n = Some (sid, Waiting))" if ok: "router_ok r"
  proof (cases "lane sid r")
    case None
    then show ?thesis by (simp add: refuse_unstarted_def unsent_def outstanding_def removed_def)
  next
    case (Some l)
    have u: "unsent sid r = map pi_input_seq (filter (\<lambda>p. \<not> pi_started p) (il_pending l))"
      using Some by (simp add: unsent_def outstanding_def)
    have l: "lane_ok sid l" using lane_okD(1) [OF ok Some] .
    have d: "distinct (unsent sid r)" using l by (simp add: u lane_ok_def lane_seqs_def strict_sorted_iff distinct_map_filter)
    have sub: "set (unsent sid r) \<subseteq> set (lane_seqs l)" by (auto simp: u lane_seqs_def)
    have "removed (set (unsent sid r)) r (in_lane sid (\<lambda>_. without (set (unsent sid r)) l) r)"
      by (rule removed_in_lane [OF Some _ sub]) simp
    moreover have "status r n = Some (sid, Waiting)" if "n \<in> set (unsent sid r)" for n
      using that pending_status [OF ok Some] by (auto simp: u stage_of_def)
    ultimately show ?thesis using Some refuse_each_exact [OF l d sub, of reason] removed_keeps [OF _ observe_keeps] d u
      by (simp add: refuse_unstarted_def)
  qed
  show "tells r (map WasRefused (unsent sid r)) (fst (refuse_unstarted sid reason r))"
  proof (cases "router_ok r")
    case True
    with both show ?thesis by (intro removed_tells) auto
  qed (simp add: tells_def)
  show "router_ok r \<Longrightarrow> snd (refuse_unstarted sid reason r) = map (\<lambda>n. InputRejected n reason) (unsent sid r)" using both by simp
  show "removed (set (unsent sid r)) r (fst (refuse_unstarted sid reason r))" using both by (auto simp: removed_def)
qed

text \<open>What an outcome the client decided on its own says: a refusal was never sent, a doubt was.\<close>

fun outcome_event :: "input_outcome \<Rightarrow> input_event" where
  "outcome_event (InputRejected n _) = WasRefused n"
| "outcome_event (InputAmbiguous n _ _) = WasLost n"
| "outcome_event (InputAccepted n _) = WasAnswered n"

definition told :: "input_outcome list \<Rightarrow> input_event list" where
  "told os = map outcome_event os"

lemma told_simps [simp]: "told [] = []" "told (xs @ ys) = told xs @ told ys"
  "told (map (\<lambda>n. InputRejected n reason) ns) = map WasRefused ns"
  "told (map (\<lambda>n. InputAmbiguous n k reason) ns) = map WasLost ns"
  by (simp_all add: told_def comp_def)

lemma tells_ok: "(router_ok r \<Longrightarrow> tells r es r') \<Longrightarrow> tells r es r'"
  by (auto simp: tells_def)

lemma tells_okD: "tells r es r' \<Longrightarrow> router_ok r \<Longrightarrow> router_ok r'"
  by (simp add: tells_def)

lemma unsent_lane: "lane sid r = lane sid r' \<Longrightarrow> unsent sid r = unsent sid r'"
  by (simp add: unsent_def outstanding_def)

lemma unsent_lane_mut:
  assumes "router_ok r" "same_pending (case lane sid r of None \<Rightarrow> lane_new sid | Some l \<Rightarrow> l) (f (case lane sid r of None \<Rightarrow> lane_new sid | Some l \<Rightarrow> l))"
  shows "unsent sid (lane_mut sid f r) = unsent sid r"
  using assms by (auto simp: unsent_def outstanding_def lane_lane_mut router_ok_def same_pending_def lane_new_def split: option.splits)

lemma set_phase_tells: "tells r (told (snd (set_phase sid phase r))) (fst (set_phase sid phase r))"
proof (rule tells_ok)
  assume ok: "router_ok r"
  let ?r = "lane_mut sid (\<lambda>l. l\<lparr>il_phase := phase\<rparr>) r"
  have keep: "keeps_batches r ?r" by (rule keeps_lane_mut) (simp add: same_pending_def)
  then have ok': "router_ok ?r" using ok by (simp add: keeps_batches_def)
  have refused: "tells r (told (snd (refuse_unstarted sid reason ?r))) (fst (refuse_unstarted sid reason ?r))" for reason
    using keeps_then_tells [OF keep refuse_unstarted_tells(1)] refuse_unstarted_tells(2) [OF ok'] by simp
  show "tells r (told (snd (set_phase sid phase r))) (fst (set_phase sid phase r))"
    using refused keeps_tells [OF keep] by (cases phase) (simp_all add: set_phase_def Let_def)
qed

lemma sweep_held_tells: "tells r (told (snd (sweep_held now r))) (fst (sweep_held now r))"
proof (rule tells_ok)
  assume ok: "router_ok r"
  let ?P = "\<lambda>l p. (il_phase l \<noteq> Sending \<or> \<not> list_ex pi_started (il_pending l))
        \<and> \<not> pi_started p \<and> HELD_INPUT_ADMISSION_TIMEOUT_MS \<le> now - pi_admitted_at_ms p"
  let ?ns = "map pi_input_seq (chosen ?P r)"
  have st: "\<exists>sid. status r n = Some (sid, Waiting)" if "n \<in> set ?ns" for n
    using chosen_status [OF ok that] by (auto simp: stage_of_def)
  have "removed (set ?ns) r (fst (sweep_held now r))"
    unfolding sweep_held_chosen by (rule settle_each_removes [OF ok chosen_distinct [OF ok]]) (use st in fastforce)+
  then have "tells r (map WasRefused ?ns) (fst (sweep_held now r))"
    by (rule removed_tells) (use chosen_distinct [OF ok] st in \<open>simp, fastforce\<close>)
  moreover have "told (snd (sweep_held now r)) = map WasRefused ?ns"
    unfolding sweep_held_chosen settle_each_def snd_conv by (rule told_simps(3))
  ultimately show "tells r (told (snd (sweep_held now r))) (fst (sweep_held now r))" by simp
qed

lemma sweep_unanswered_tells: "tells r (told (snd (sweep_unanswered now r))) (fst (sweep_unanswered now r))"
proof (rule tells_ok)
  assume ok: "router_ok r"
  let ?P = "\<lambda>l :: client_lane. \<lambda>p. pi_started p \<and> INPUT_RESULT_TIMEOUT_MS \<le> now - pi_started_at_ms p"
  let ?ns = "map pi_input_seq (chosen ?P r)"
  have st: "\<exists>sid. status r n = Some (sid, Flying)" if "n \<in> set ?ns" for n
    using chosen_status [OF ok that] by (auto simp: stage_of_def)
  have "removed (set ?ns) r (fst (sweep_unanswered now r))"
    unfolding sweep_unanswered_chosen by (rule settle_each_removes [OF ok chosen_distinct [OF ok]]) (use st in fastforce)+
  then have "tells r (map WasLost ?ns) (fst (sweep_unanswered now r))"
    by (rule removed_tells) (use chosen_distinct [OF ok] st in \<open>simp, fastforce\<close>)
  moreover have "told (snd (sweep_unanswered now r)) = map WasLost ?ns"
    unfolding sweep_unanswered_chosen settle_each_def snd_conv by (rule told_simps(4))
  ultimately show "tells r (told (snd (sweep_unanswered now r))) (fst (sweep_unanswered now r))" by simp
qed

text \<open>A change to every lane that only takes batches out.\<close>

lemma removed_map:
  assumes "\<And>sid l. lane_ok sid l \<Longrightarrow> same_pending (without (gone l) l) (g l) \<and> gone l \<subseteq> set (lane_seqs l)"
  shows "removed {n. \<exists>sid l. lane sid r = Some l \<and> n \<in> gone l} r (r\<lparr>ir_lanes := btree_map g (ir_lanes r)\<rparr>)"
  unfolding removed_def
proof (intro impI)
  assume ok: "router_ok r"
  let ?r = "r\<lparr>ir_lanes := btree_map g (ir_lanes r)\<rparr>"
  have L: "lane j ?r = map_option g (lane j r)" for j by (simp add: lane_def btree_map_lookup)
  have g: "lane_ok j (g a) \<and> lane_seqs (g a) = filter (\<lambda>n. n \<notin> gone a) (lane_seqs a) \<and> gone a \<subseteq> set (lane_seqs a)
      \<and> (\<forall>n. lane_status j (g a) n = (if n \<in> gone a then None else lane_status j a n))" if "lane j r = Some a" for j a
  proof -
    have a: "lane_ok j a" using lane_okD(1) [OF ok that] .
    then have s: "same_pending (without (gone a) a) (g a)" and "gone a \<subseteq> set (lane_seqs a)" using assms by auto
    with same_pendingD [OF s] without_ok [OF a] show ?thesis by (simp add: without_seqs without_status)
  qed
  have ok': "router_ok ?r"
    unfolding router_ok_def
  proof (intro conjI allI impI)
    show "key_sorted (ir_lanes ?r)" using ok by (simp add: router_ok_def btree_other_sorted)
    show "set (lane_seqs a) \<inter> set (lane_seqs b) = {}" if two: "lane i ?r = Some a" "lane j ?r = Some b" "i \<noteq> j" for i a j b
    proof -
      obtain a' b' where "lane i r = Some a'" "a = g a'" "lane j r = Some b'" "b = g b'" using two(1,2) by (auto simp: L)
      then show ?thesis using g [of i a'] g [of j b'] lane_unique [OF ok] two(3) by fastforce
    qed
    fix j a assume "lane j ?r = Some a"
    then obtain b where b: "lane j r = Some b" "a = g b" by (auto simp: L)
    show "lane_ok j a" using g [OF b(1)] b(2) by simp
    show "\<forall>n \<in> set (lane_seqs a). 0 < n \<and> n \<le> ir_next_input_seq ?r" using g [OF b(1)] lane_okD(2) [OF ok b(1)] b(2) by simp
  qed
  have "status ?r n = (if \<exists>sid l. lane sid r = Some l \<and> n \<in> gone l then None else status r n)" for n
  proof (cases "status r n")
    case None
    then have "\<forall>sid l. lane sid r = Some l \<longrightarrow> n \<notin> set (lane_seqs l)" using status_None [OF ok] by blast
    then have "status ?r n = None" unfolding status_None [OF ok'] using g by (fastforce simp: L)
    with None show ?thesis by simp
  next
    case (Some x)
    then obtain sid l where l: "lane sid r = Some l" "lane_status sid l n = Some x" using status_Some [OF ok] by blast
    then have n: "n \<in> set (lane_seqs l)" using lane_status_None [of sid l n] by auto
    have here: "(\<exists>sid l. lane sid r = Some l \<and> n \<in> gone l) \<longleftrightarrow> n \<in> gone l"
      using g lane_unique [OF ok l(1) _ n] l(1) by (metis option.inject subsetD)
    show ?thesis
    proof (cases "n \<in> gone l")
      case True
      then have "n \<notin> set (lane_seqs a)" if "lane j ?r = Some a" for j a
        using that g lane_unique [OF ok l(1) _ n] l(1) by (fastforce simp: L)
      then have "status ?r n = None" unfolding status_None [OF ok'] by blast
      with True here show ?thesis by simp
    next
      case False
      then have "lane_status sid (g l) n = Some x" using g [OF l(1)] l(2) by simp
      then have "status ?r n = Some x" unfolding status_Some [OF ok'] using l(1) L by fastforce
      with False here Some show ?thesis by simp
    qed
  qed
  with ok' show "router_ok ?r \<and> ir_next_input_seq ?r = ir_next_input_seq r
      \<and> (\<forall>n. status ?r n = (if n \<in> {n. \<exists>sid l. lane sid r = Some l \<and> n \<in> gone l} then None else status r n))" by simp
qed

lemma keeps_map:
  assumes "\<And>l. same_pending l (g l)"
  shows "keeps_batches r (r\<lparr>ir_lanes := btree_map g (ir_lanes r)\<rparr>)"
  using removed_map [of "\<lambda>_. {}" g r] assms without_nothing by (simp add: removed_def keeps_batches_def fun_eq_iff)

definition fenced_by :: "(terminal_token \<Rightarrow> bool) \<Rightarrow> pending_input \<Rightarrow> bool" where
  "fenced_by retired p = (case pi_fence p of None \<Rightarrow> False | Some token \<Rightarrow> retired token)"

lemma retired_outcome_seq [simp]: "input_outcome_seq (retired_outcome reason p) = pi_input_seq p"
  by (simp add: retired_outcome_def)

lemma retire_lane_exact:
  assumes "lane_ok sid l"
  shows "snd (retire_lane retired reason l) = map (retired_outcome reason) (filter (fenced_by retired) (il_pending l))
    \<and> same_pending (without (pi_input_seq ` {p \<in> set (il_pending l). fenced_by retired p}) l) (fst (retire_lane retired reason l))"
proof -
  let ?os = "map (retired_outcome reason) (filter (fenced_by retired) (il_pending l))"
  have "distinct (map input_outcome_seq ?os)"
    using assms by (simp add: lane_ok_def lane_seqs_def strict_sorted_iff distinct_map_filter comp_def)
  moreover have seqs: "input_outcome_seq ` set ?os = pi_input_seq ` {p \<in> set (il_pending l). fenced_by retired p}" by force
  moreover have "\<dots> \<subseteq> set (lane_seqs l)" by (auto simp: lane_seqs_def)
  moreover have "retire_lane retired reason l = retire_each ?os l"
    by (simp add: retire_lane_def fenced_by_def [abs_def])
  ultimately show ?thesis using retire_each_exact [OF assms, of ?os] by simp
qed

lemma retire_fenced_tells: "tells r (told (snd (retire_fenced retired reason r))) (fst (retire_fenced retired reason r))"
proof (rule tells_ok)
  assume ok: "router_ok r"
  let ?ps = "chosen (\<lambda>_. fenced_by retired) r"
  let ?gone = "\<lambda>l. pi_input_seq ` {p \<in> set (il_pending l). fenced_by retired p}"
  have lanes: "lane_ok (fst x) (snd x)" if "x \<in> set (ir_lanes r)" for x
    using that lane_in [OF ok, of "fst x" "snd x"] lane_okD(1) [OF ok] by simp
  have os: "snd (retire_fenced retired reason r) = map (retired_outcome reason) ?ps"
    using retire_lane_exact [OF lanes]
    by (auto simp: retire_fenced_def chosen_def Let_def map_concat comp_def case_prod_beta intro!: arg_cong [where f = concat])
  have "removed {n. \<exists>sid l. lane sid r = Some l \<and> n \<in> ?gone l} r
      (r\<lparr>ir_lanes := btree_map (\<lambda>l. fst (retire_lane retired reason l)) (ir_lanes r)\<rparr>)"
    by (rule removed_map) (use retire_lane_exact in \<open>auto simp: lane_seqs_def\<close>)
  moreover have "{n. \<exists>sid l. lane sid r = Some l \<and> n \<in> ?gone l} = set (map pi_input_seq ?ps)"
    using chosen_in [OF ok, of _ "\<lambda>_. fenced_by retired"] by (auto simp: image_iff) blast+
  ultimately have "removed (set (map pi_input_seq ?ps)) r (fst (retire_fenced retired reason r))"
    using removed_keeps [OF _ observe_keeps] by (simp add: retire_fenced_def Let_def)
  moreover have "\<exists>sid. status r n = Some (sid, Flying)" if n: "n \<in> set (map pi_input_seq ?ps)" for n
  proof -
    obtain p sid l where p: "lane sid r = Some l" "p \<in> set (il_pending l)" "fenced_by retired p" "status r n = Some (sid, stage_of p)"
      using chosen_status [OF ok n] by blast
    then have "batch_ok sid p" using lane_okD(1) [OF ok p(1)] by (simp add: lane_ok_def)
    then have "stage_of p = Flying" using p(3) by (auto simp: batch_ok_def fenced_by_def stage_of_def split: option.splits)
    with p(4) show ?thesis by simp
  qed
  ultimately have "tells r (map WasLost (map pi_input_seq ?ps)) (fst (retire_fenced retired reason r))"
    by (intro removed_tells chosen_distinct [OF ok]) (assumption, fastforce)
  moreover have "outcome_event (retired_outcome reason p) = WasLost (pi_input_seq p)" if "p \<in> set ?ps" for p
    using that chosen_in [OF ok] lane_okD(1) [OF ok]
    by (fastforce simp: lane_ok_def batch_ok_def fenced_by_def retired_outcome_def split: option.splits)
  ultimately show "tells r (told (snd (retire_fenced retired reason r))) (fst (retire_fenced retired reason r))"
    by (simp add: os told_def comp_def cong: map_cong)
qed

subsection \<open>Batches that change\<close>

lemma change_first_split:
  assumes "sorted_wrt (<) (map pi_input_seq ps)" "p \<in> set ps"
  shows "\<exists>a b. ps = a @ p # b \<and> change_first (pi_input_seq p) f ps = a @ f p # b"
proof -
  obtain a b where ps: "ps = a @ p # b" using split_list [OF assms(2)] by blast
  then have "\<forall>q \<in> set a. pi_input_seq q \<noteq> pi_input_seq p" using assms(1) by (auto simp: sorted_wrt_append)
  then have "change_first (pi_input_seq p) f (a @ p # b) = a @ f p # b" by (induction a) auto
  with ps show ?thesis by blast
qed

definition changed :: "nat \<Rightarrow> (pending_input \<Rightarrow> pending_input) \<Rightarrow> client_lane \<Rightarrow> client_lane" where
  "changed n f l = l\<lparr>il_pending := change_first n f (il_pending l)\<rparr>"

lemma changed_lane:
  assumes "lane_ok sid l" "p \<in> set (il_pending l)" "pi_input_seq (f p) = pi_input_seq p" "batch_ok sid (f p)"
    "pi_bytes (f p) = pi_bytes p"
    "pi_started (f p) \<Longrightarrow> pi_started p \<or> length (filter pi_started (il_pending l)) < MAX_STARTED_INPUTS_PER_SESSION"
  shows "lane_ok sid (changed (pi_input_seq p) f l)" "lane_seqs (changed (pi_input_seq p) f l) = lane_seqs l"
    "lane_status sid (changed (pi_input_seq p) f l) m = (if m = pi_input_seq p then Some (sid, stage_of (f p)) else lane_status sid l m)"
proof -
  have sorted: "sorted_wrt (<) (map pi_input_seq (il_pending l))" using assms(1) by (simp add: lane_ok_def lane_seqs_def)
  obtain a b where ab: "il_pending l = a @ p # b" "il_pending (changed (pi_input_seq p) f l) = a @ f p # b"
    using change_first_split [OF sorted assms(2), of f] by (auto simp: changed_def)
  show seqs: "lane_seqs (changed (pi_input_seq p) f l) = lane_seqs l" using ab assms(3) by (simp add: lane_seqs_def)
  have "lane_bytes (changed (pi_input_seq p) f l) = lane_bytes l" using ab assms(5) by (simp add: lane_bytes_def)
  moreover have "length (filter pi_started (a @ f p # b)) \<le> MAX_STARTED_INPUTS_PER_SESSION"
    using assms(1,6) ab(1) by (cases "pi_started p"; cases "pi_started (f p)") (auto simp: lane_ok_def)
  moreover have "il_session_id (changed (pi_input_seq p) f l) = il_session_id l"
    "il_pending_bytes (changed (pi_input_seq p) f l) = il_pending_bytes l" by (simp_all add: changed_def)
  ultimately show ok: "lane_ok sid (changed (pi_input_seq p) f l)"
    using assms(1,4) seqs unfolding lane_ok_def ab by auto
  have other: "pi_input_seq q \<noteq> pi_input_seq p" if "q \<in> set a \<union> set b" for q
    using sorted that by (auto simp: ab(1) sorted_wrt_append)
  have "lane_status sid (changed (pi_input_seq p) f l) m = Some x
      \<longleftrightarrow> (if m = pi_input_seq p then Some (sid, stage_of (f p)) else lane_status sid l m) = Some x" for x
  proof -
    have "lane_status sid (changed (pi_input_seq p) f l) m = Some x \<longleftrightarrow> (\<exists>q \<in> set (a @ f p # b). pi_input_seq q = m \<and> x = (sid, stage_of q))"
      using lane_status_Some [of "changed (pi_input_seq p) f l"] ok by (simp add: lane_ok_def ab)
    moreover have "lane_status sid l m = Some x \<longleftrightarrow> (\<exists>q \<in> set (a @ p # b). pi_input_seq q = m \<and> x = (sid, stage_of q))"
      using lane_status_Some [of l] assms(1) by (simp add: lane_ok_def ab)
    ultimately show ?thesis using other assms(3) by auto
  qed
  then show "lane_status sid (changed (pi_input_seq p) f l) m = (if m = pi_input_seq p then Some (sid, stage_of (f p)) else lane_status sid l m)"
    by (metis (no_types, lifting) not_None_eq)
qed

lemma changed_router:
  assumes "router_ok r" "lane sid r = Some l" "p \<in> set (il_pending l)" "pi_input_seq (f p) = pi_input_seq p" "batch_ok sid (f p)"
    "pi_bytes (f p) = pi_bytes p"
    "pi_started (f p) \<Longrightarrow> pi_started p \<or> length (filter pi_started (il_pending l)) < MAX_STARTED_INPUTS_PER_SESSION"
  shows "router_ok (in_lane sid (changed (pi_input_seq p) f) r)"
    "status (in_lane sid (changed (pi_input_seq p) f) r) m = (if m = pi_input_seq p then Some (sid, stage_of (f p)) else status r m)"
proof -
  have c: "lane_ok sid (changed (pi_input_seq p) f l)" "lane_seqs (changed (pi_input_seq p) f l) = lane_seqs l"
    "\<And>m. lane_status sid (changed (pi_input_seq p) f l) m = (if m = pi_input_seq p then Some (sid, stage_of (f p)) else lane_status sid l m)"
    using changed_lane [where f = f and p = p, OF lane_okD(1) [OF assms(1,2)] assms(3-6)] assms(7) by blast+
  note keep = in_lane_ok [where f = "changed (pi_input_seq p) f", OF assms(1,2) c(1)]
  have sub: "set (lane_seqs (changed (pi_input_seq p) f l)) \<subseteq> set (lane_seqs l)" using c(2) by simp
  show "router_ok (in_lane sid (changed (pi_input_seq p) f) r)" by (rule keep(1) [OF sub])
  have "pi_input_seq p \<in> set (lane_seqs l)" using assms(3) by (simp add: lane_seqs_def)
  then show "status (in_lane sid (changed (pi_input_seq p) f) r) m = (if m = pi_input_seq p then Some (sid, stage_of (f p)) else status r m)"
    using keep(2) [OF sub, of m] c(3) [of m] status_lane [OF assms(1,2), of m] by auto
qed

lemma change_tells:
  assumes "router_ok r" "router_ok r'" "\<And>m. status r' m = (if m = n then Some x else status r m)" "status r n \<noteq> None"
    "ir_next_input_seq r' = ir_next_input_seq r" "\<And>\<sigma>. agrees r \<sigma> \<Longrightarrow> life_step e \<sigma> = Some (\<sigma>(n \<mapsto> x))"
  shows "tells r [e] r'"
  unfolding tells_def
proof (intro impI conjI allI)
  fix \<sigma> assume a: "agrees r \<sigma>"
  have "n \<le> ir_next_input_seq r"
  proof (rule ccontr)
    assume "\<not> n \<le> ir_next_input_seq r"
    then have "\<sigma> n = None" using a by (simp add: agrees_def)
    with assms(4) status_known [OF a] show False by fastforce
  qed
  then have "agrees r' (\<sigma>(n \<mapsto> x))" using a assms(3,5) by (auto simp: agrees_def)
  with assms(6) [OF a] show "\<exists>\<sigma>'. life_run [e] \<sigma> = Some \<sigma>' \<and> agrees r' \<sigma>'" by simp
qed (use assms in simp)

lemma start_in_lanes_exact:
  assumes "distinct (map fst m)"
  shows "start_in_lanes n f m = (case find (\<lambda>(_, l). n \<in> set (lane_seqs l)) m of
     None \<Rightarrow> (m, False) | Some (sid, l) \<Rightarrow> (btree_update sid (changed n f) m, True))"
  using assms
proof (induction m)
  case (Cons x m)
  obtain sid l where x: "x = (sid, l)" by (cases x)
  have held: "holds_batch n l \<longleftrightarrow> n \<in> set (lane_seqs l)" by (auto simp: holds_batch_def lane_seqs_def list_ex_iff)
  have rest: "btree_update sid f m = m" for f
    using Cons.prems x by (force simp: btree_update_def intro!: map_idI)
  show ?case
  proof (cases "n \<in> set (lane_seqs l)")
    case True
    then show ?thesis using x held rest by (simp add: btree_update_def changed_def)
  next
    case False
    have "i \<noteq> sid" if "find (\<lambda>(_, l). n \<in> set (lane_seqs l)) m = Some (i, a)" for i a
      using find_SomeD [OF that] Cons.prems x by force
    with False x held Cons show ?thesis by (auto simp: btree_update_def split: option.split)
  qed
qed simp

lemma mark_started_exact:
  assumes "router_ok r" "lane sid r = Some l" "p \<in> set (il_pending l)"
  shows "mark_started (pi_input_seq p) token now r = (in_lane sid (changed (pi_input_seq p) (start_pending token now)) r, True)"
proof -
  let ?n = "pi_input_seq p"
  have n: "?n \<in> set (lane_seqs l)" using assms(3) by (simp add: lane_seqs_def)
  obtain i a where f: "find (\<lambda>(_, l). ?n \<in> set (lane_seqs l)) (ir_lanes r) = Some (i, a)"
    using n assms(2) lane_in [OF assms(1)] by (cases "find (\<lambda>(_, l). ?n \<in> set (lane_seqs l)) (ir_lanes r)") (auto simp: find_None_iff)
  then have "lane i r = Some a" "?n \<in> set (lane_seqs a)" using find_SomeD [OF f] lane_in [OF assms(1)] by auto
  then have "i = sid" using lane_unique [OF assms(1) _ assms(2) _ n] by blast
  moreover have "distinct (map fst (ir_lanes r))" using assms(1) key_sorted_distinct unfolding router_ok_def by blast
  ultimately show ?thesis using f start_in_lanes_exact by (simp add: mark_started_def in_lane_def)
qed

lemma waiting_in_lane:
  assumes "router_ok r" "status r n = Some (sid, st)"
  shows "\<exists>l p. lane sid r = Some l \<and> p \<in> set (il_pending l) \<and> pi_input_seq p = n \<and> st = stage_of p"
proof -
  obtain i l where l: "lane i r = Some l" "lane_status i l n = Some (sid, st)" using assms status_Some by blast
  have "sorted_wrt (<) (lane_seqs l)" using lane_okD(1) [OF assms(1) l(1)] by (simp add: lane_ok_def)
  then show ?thesis using l lane_status_Some [of l i n "(sid, st)"] by auto
qed

lemma mark_started_tells:
  assumes "router_ok r" "lane sid r = Some l" "filter (\<lambda>p. \<not> pi_started p) (il_pending l) = p # rest"
    "length (filter pi_started (il_pending l)) < MAX_STARTED_INPUTS_PER_SESSION"
  shows "tells r [WasSent sid (pi_input_seq p)] (fst (mark_started (pi_input_seq p) token now r))"
proof -
  obtain a b where ab: "il_pending l = a @ p # b" "\<forall>q \<in> set a. pi_started q" "\<not> pi_started p" "rest = filter (\<lambda>p. \<not> pi_started p) b"
    using filter_eq_ConsD [OF assms(3)] by auto
  have p: "p \<in> set (il_pending l)" using ab(1) by simp
  have b: "batch_ok sid p" using lane_okD(1) [OF assms(1,2)] p by (simp add: lane_ok_def)
  note c = changed_router [where f = "start_pending token now", OF assms(1,2) p]
  have ok: "router_ok (in_lane sid (changed (pi_input_seq p) (start_pending token now)) r)"
    and st: "\<And>m. status (in_lane sid (changed (pi_input_seq p) (start_pending token now)) r) m
      = (if m = pi_input_seq p then Some (sid, Flying) else status r m)"
    using c b assms(4) by (auto simp: start_pending_def batch_ok_def stage_of_def)
  have n: "status r (pi_input_seq p) = Some (sid, Waiting)" using pending_status [OF assms(1,2) p] ab(3) by (simp add: stage_of_def)
  have "status r m \<noteq> Some (sid, Waiting)" if "m < pi_input_seq p" for m
  proof
    assume "status r m = Some (sid, Waiting)"
    then obtain q where "q \<in> set (il_pending l)" "pi_input_seq q = m" "\<not> pi_started q"
      using waiting_in_lane [OF assms(1)] assms(2) by (fastforce simp: stage_of_def split: if_splits)
    moreover have "\<forall>q \<in> set b. pi_input_seq p < pi_input_seq q"
      using lane_okD(1) [OF assms(1,2)] by (simp add: lane_ok_def lane_seqs_def ab(1) sorted_wrt_append)
    ultimately show False using ab(1,2) that by auto
  qed
  then have "\<sigma> m \<noteq> Some (sid, Waiting)" if "agrees r \<sigma>" "m < pi_input_seq p" for \<sigma> m
    using that unfolding agrees_def by (metis option.inject prod.inject stage.distinct(3))
  then have "tells r [WasSent sid (pi_input_seq p)] (in_lane sid (changed (pi_input_seq p) (start_pending token now)) r)"
    using status_known [OF _ n] by (intro change_tells [OF assms(1) ok st]) (auto simp: n list_all_iff)
  then show ?thesis using mark_started_exact [OF assms(1,2) p] by simp
qed

lemma mark_started_lane:
  assumes "router_ok r" "lane sid r = Some l" "filter (\<lambda>p. \<not> pi_started p) (il_pending l) = p # rest"
  shows "\<exists>l'. lane sid (fst (mark_started (pi_input_seq p) token now r)) = Some l'
    \<and> filter (\<lambda>p. \<not> pi_started p) (il_pending l') = rest
    \<and> length (filter pi_started (il_pending l')) = Suc (length (filter pi_started (il_pending l)))"
proof -
  obtain a b where ab: "il_pending l = a @ p # b" "\<forall>q \<in> set a. pi_started q" "\<not> pi_started p" "rest = filter (\<lambda>p. \<not> pi_started p) b"
    using filter_eq_ConsD [OF assms(3)] by auto
  have "sorted_wrt (<) (map pi_input_seq (a @ p # b))"
    using lane_okD(1) [OF assms(1,2)] by (simp add: lane_ok_def lane_seqs_def ab(1))
  then have "\<forall>q \<in> set a. pi_input_seq q \<noteq> pi_input_seq p" by (auto simp: sorted_wrt_append)
  then have "change_first (pi_input_seq p) (start_pending token now) (a @ p # b) = a @ start_pending token now p # b"
    by (induction a) auto
  then show ?thesis using mark_started_exact [OF assms(1,2), of p token now] assms(2) ab
    by (simp add: lane_in_lane changed_def start_pending_def)
qed

definition sends :: "sent_input list \<Rightarrow> input_event list" where
  "sends out = map (\<lambda>s. WasSent (sn_session_id s) (sn_input_seq s)) out"

lemma dispatch_tells:
  assumes "router_ok r" "lane sid r = Some l" "filter (\<lambda>p. \<not> pi_started p) (il_pending l) = ps @ rest"
    "length ps + length (filter pi_started (il_pending l)) \<le> MAX_STARTED_INPUTS_PER_SESSION"
  shows "\<exists>out'. foldl (\<lambda>(r, out) pending. let (r, sent) = dispatch_batch w pending token now r in (r, out @ [sent])) (r, out) ps
       = (fold (\<lambda>p r. fst (mark_started (pi_input_seq p) token now r)) ps r, out @ out')
     \<and> tells r (sends out') (fold (\<lambda>p r. fst (mark_started (pi_input_seq p) token now r)) ps r)"
  using assms
proof (induction ps arbitrary: r l out)
  case Nil
  then show ?case by (auto simp: sends_def intro: keeps_tells)
next
  case (Cons p ps)
  let ?r = "fst (mark_started (pi_input_seq p) token now r)"
  let ?s = "snd (dispatch_batch w p token now r)"
  have first: "filter (\<lambda>p. \<not> pi_started p) (il_pending l) = p # (ps @ rest)" using Cons.prems(3) by simp
  have "p \<in> set (filter (\<lambda>p. \<not> pi_started p) (il_pending l))" unfolding first by simp
  then have "pi_session_id p = sid" using lane_okD(1) [OF Cons.prems(1,2)] by (simp add: lane_ok_def batch_ok_def)
  then have s: "sends [?s] = [WasSent sid (pi_input_seq p)]" by (simp add: sends_def dispatch_batch_def)
  have one: "tells r (sends [?s]) ?r"
    unfolding s by (rule mark_started_tells [OF Cons.prems(1,2) first]) (use Cons.prems(4) in simp)
  then have ok: "router_ok ?r" using Cons.prems(1) tells_okD by blast
  obtain l' where l': "lane sid ?r = Some l'" "filter (\<lambda>p. \<not> pi_started p) (il_pending l') = ps @ rest"
    "length (filter pi_started (il_pending l')) = Suc (length (filter pi_started (il_pending l)))"
    using mark_started_lane [OF Cons.prems(1,2) first] by blast
  obtain out' where out': "foldl (\<lambda>(r, out) pending. let (r, sent) = dispatch_batch w pending token now r in (r, out @ [sent])) (?r, out @ [?s]) ps
       = (fold (\<lambda>p r. fst (mark_started (pi_input_seq p) token now r)) ps ?r, (out @ [?s]) @ out')"
    "tells ?r (sends out') (fold (\<lambda>p r. fst (mark_started (pi_input_seq p) token now r)) ps ?r)"
    using Cons.IH [OF ok l'(1,2), of "out @ [?s]"] l'(3) Cons.prems(4) by auto
  have "foldl (\<lambda>(r, out) pending. let (r, sent) = dispatch_batch w pending token now r in (r, out @ [sent])) (r, out) (p # ps)
      = foldl (\<lambda>(r, out) pending. let (r, sent) = dispatch_batch w pending token now r in (r, out @ [sent])) (?r, out @ [?s]) ps"
    by (simp add: dispatch_batch_def)
  with out'(1) tells_trans [OF one out'(2)] show ?case
    by (intro exI [where x = "?s # out'"]) (simp add: sends_def)
qed

lemma dispatch_startable_tells:
  "tells r (sends (snd (dispatch_startable w sid token now r))) (fst (dispatch_startable w sid token now r))"
proof (rule tells_ok)
  assume ok: "router_ok r"
  show "tells r (sends (snd (dispatch_startable w sid token now r))) (fst (dispatch_startable w sid token now r))"
  proof (cases "startable sid r = []")
    case True
    then show ?thesis by (simp add: dispatch_startable_def sends_def keeps_tells)
  next
    case False
    then obtain l where l: "lane sid r = Some l" "startable sid r
        = take (MAX_STARTED_INPUTS_PER_SESSION - length (filter pi_started (il_pending l))) (filter (\<lambda>p. \<not> pi_started p) (il_pending l))"
      by (auto simp: startable_def split: option.splits if_splits)
    let ?k = "MAX_STARTED_INPUTS_PER_SESSION - length (filter pi_started (il_pending l))"
    have "length (filter pi_started (il_pending l)) \<le> MAX_STARTED_INPUTS_PER_SESSION"
      using lane_okD(1) [OF ok l(1)] by (simp add: lane_ok_def)
    then have "length (startable sid r) + length (filter pi_started (il_pending l)) \<le> MAX_STARTED_INPUTS_PER_SESSION" by (simp add: l(2))
    moreover have "filter (\<lambda>p. \<not> pi_started p) (il_pending l) = startable sid r @ drop ?k (filter (\<lambda>p. \<not> pi_started p) (il_pending l))"
      by (simp add: l(2))
    ultimately obtain out' where "dispatch_startable w sid token now r
         = (fold (\<lambda>p r. fst (mark_started (pi_input_seq p) token now r)) (startable sid r) r, [] @ out')"
       "tells r (sends out') (fold (\<lambda>p r. fst (mark_started (pi_input_seq p) token now r)) (startable sid r) r)"
      using dispatch_tells [OF ok l(1), of "startable sid r" _ w token now "[]"] unfolding dispatch_startable_def by blast
    then show ?thesis by simp
  qed
qed

end
