(* ===== verification/Client_Trace.thy ===== *)
theory Client_Trace
  imports Client_Life
begin

text \<open>
  The calls of the client on its input router, each with the events it stands for: admission, the route
  claim, a lost route, the handlers of a keystroke and a result, and the sweep. Every run of them is
  accepted by the specification of a batch's life.
\<close>

section \<open>Admission\<close>

lemma spent_sequence:
  assumes "router_ok r"
  shows "router_ok (r\<lparr>ir_next_input_seq := ir_next_input_seq r + 1\<rparr>)"
    "status (r\<lparr>ir_next_input_seq := ir_next_input_seq r + 1\<rparr>) = status r"
    "lane sid (r\<lparr>ir_next_input_seq := ir_next_input_seq r + 1\<rparr>) = lane sid r"
proof -
  let ?r = "r\<lparr>ir_next_input_seq := ir_next_input_seq r + 1\<rparr>"
  have L: "lane j ?r = lane j r" for j by (simp add: lane_def)
  show "router_ok ?r" using assms unfolding router_ok_def L by (simp add: le_SucI)
  show "status ?r = status r" by (simp add: status_def fun_eq_iff)
  show "lane sid ?r = lane sid r" by (rule L)
qed

lemma spent_tells: "tells r [] (r\<lparr>ir_next_input_seq := ir_next_input_seq r + 1\<rparr>)"
  using spent_sequence(1,2) [of r] by (auto simp: tells_def agrees_def)

lemma appended_router:
  assumes "router_ok r" "lane sid r = Some l" "batch_ok sid p" "pi_input_seq p = n" "n = ir_next_input_seq r + 1"
    "length (il_pending l) < MAX_PENDING_INPUTS_PER_SESSION"
    "il_pending_bytes l + length (pi_bytes p) \<le> MAX_PENDING_INPUT_BYTES_PER_SESSION" "\<not> pi_started p"
    "r' = lane_mut sid (\<lambda>l. l\<lparr>il_pending_bytes := il_pending_bytes l + length (pi_bytes p), il_pending := il_pending l @ [p]\<rparr>)
       (r\<lparr>ir_next_input_seq := n\<rparr>)"
  shows "router_ok r'" "status r' m = (if m = n then Some (sid, Waiting) else status r m)"
proof -
  let ?l = "l\<lparr>il_pending_bytes := il_pending_bytes l + length (pi_bytes p), il_pending := il_pending l @ [p]\<rparr>"
  have L: "lane j r' = (if j = sid then Some ?l else lane j r)" for j
    using assms(1,2,9) by (simp add: lane_lane_mut router_ok_def) (simp add: lane_def)
  have seqs: "lane_seqs ?l = lane_seqs l @ [n]" using assms(4) by (simp add: lane_seqs_def)
  have old: "\<forall>x \<in> set (lane_seqs a). x < n" if "lane j r = Some a" for j a
    using lane_okD(2) [OF assms(1) that] assms(5) by auto
  have ok: "lane_ok sid ?l"
    using lane_okD(1) [OF assms(1,2)] assms(3,6,7,8) old [OF assms(2)] unfolding lane_ok_def seqs
    by (auto simp: lane_bytes_def sorted_wrt_append)
  have mem: "x = n \<and> j = sid \<or> (\<exists>b. lane j r = Some b \<and> x \<in> set (lane_seqs b))" if "lane j r' = Some a" "x \<in> set (lane_seqs a)" for j a x
    using that assms(2) seqs by (auto simp: L split: if_splits)
  show ok': "router_ok r'"
    unfolding router_ok_def
  proof (intro conjI allI impI)
    show "key_sorted (ir_lanes r')" using assms(1,9) by (simp add: lane_mut_def router_ok_def btree_insert_sorted)
    show "set (lane_seqs a) \<inter> set (lane_seqs b) = {}" if "lane i r' = Some a" "lane j r' = Some b" "i \<noteq> j" for i a j b
      using mem [OF that(1)] mem [OF that(2)] lane_unique [OF assms(1)] that(3) old by blast
    fix j a assume a: "lane j r' = Some a"
    show "lane_ok j a" using a ok lane_okD(1) [OF assms(1)] by (auto simp: L split: if_splits)
    show "\<forall>x \<in> set (lane_seqs a). 0 < x \<and> x \<le> ir_next_input_seq r'"
      using mem [OF a] lane_okD(2) [OF assms(1)] assms(5,9) by fastforce
  qed
  have st: "lane_status sid ?l m = (if m = n then Some (sid, Waiting) else lane_status sid l m)" for m
  proof -
    have "sorted_wrt (<) (lane_seqs ?l)" "sorted_wrt (<) (lane_seqs l)" using ok lane_okD(1) [OF assms(1,2)] by (simp_all add: lane_ok_def)
    note * = lane_status_Some [OF this(1), of sid m] lane_status_Some [OF this(2), of sid m]
    have "pi_input_seq q \<noteq> n" if "q \<in> set (il_pending l)" for q
      using old [OF assms(2)] that by (auto simp: lane_seqs_def)
    then have "lane_status sid ?l m = Some x \<longleftrightarrow> (if m = n then Some (sid, Waiting) else lane_status sid l m) = Some x" for x
      using assms(4,8) by (auto simp: * stage_of_def)
    then show ?thesis by (metis (no_types, lifting) not_None_eq)
  qed
  show "status r' m = (if m = n then Some (sid, Waiting) else status r m)"
  proof (cases "\<exists>j a. lane j r' = Some a \<and> m \<in> set (lane_seqs a)")
    case True
    then obtain j a where a: "lane j r' = Some a" "m \<in> set (lane_seqs a)" by blast
    show ?thesis
    proof (cases "j = sid")
      case True
      then show ?thesis using a status_lane [OF ok' a] st [of m] status_lane [OF assms(1,2), of m] by (auto simp: L seqs)
    next
      case False
      then have "lane j r = Some a" using a by (simp add: L)
      then show ?thesis using status_lane [OF ok' a] status_lane [OF assms(1), of j a m] a old by fastforce
    qed
  next
    case False
    then have "status r' m = None" using status_None [OF ok', of m] by blast
    moreover have here: "m \<notin> set (lane_seqs l @ [n])" using False L [of sid] unfolding seqs [symmetric] by auto
    moreover have "m \<noteq> n" using here by simp
    moreover have "status r m = None"
      unfolding status_None [OF assms(1)]
    proof (intro allI impI)
      fix j a assume "lane j r = Some a"
      then show "m \<notin> set (lane_seqs a)" using False L [of j] assms(2) here by (cases "j = sid") auto
    qed
    ultimately show ?thesis by simp
  qed
qed

definition admitted :: "string \<Rightarrow> (input_refusal, pending_input) result \<Rightarrow> input_event list" where
  "admitted sid res = (case res of Ok p \<Rightarrow> [WasAdmitted sid (pi_input_seq p)] | Err _ \<Rightarrow> [])"

lemma admit_tells: "tells r (admitted sid (snd (admit_input sid view bytes now r))) (fst (admit_input sid view bytes now r))"
proof (rule tells_ok)
  assume ok: "router_ok r"
  let ?r = "lane_mut sid (\<lambda>l. l) r"
  have keep: "keeps_batches r ?r" by (rule keeps_lane_mut) simp
  have ok1: "router_ok ?r" using keep ok by (simp add: keeps_batches_def)
  obtain l where l: "lane sid ?r = Some l" using ok by (simp add: lane_lane_mut router_ok_def)
  let ?r2 = "?r\<lparr>ir_next_input_seq := ir_next_input_seq ?r + 1\<rparr>"
  let ?n = "ir_next_input_seq ?r + 1"
  let ?p = "\<lparr>pi_session_id = sid, pi_view_id = view, pi_input_seq = ?n, pi_bytes = bytes,
     pi_fence = None, pi_started = False, pi_admitted_at_ms = now, pi_started_at_ms = 0\<rparr>"
  have spent: "tells r [] ?r2" using keeps_then_tells [OF keep spent_tells] .
  have l2: "lane sid ?r2 = Some l" using spent_sequence(3) [OF ok1] l by simp
  let ?r3 = "lane_mut sid (\<lambda>l. l\<lparr>il_pending_bytes := il_pending_bytes l + length bytes, il_pending := il_pending l @ [?p]\<rparr>) ?r2"
  have eq: "admit_input sid view bytes now r =
     (if il_phase l = Closed_Lane then (?r, Err ''terminal session is closed'')
      else if il_phase l = Blocked then (?r, Err ''terminal input route is reconnecting'')
      else if MAX_INPUT_BYTES < length bytes then (?r, Err (''input exceeds '' @ show_nat MAX_INPUT_BYTES @ '' bytes''))
      else if bytes = [] then (?r2, Err ''input batch is empty'')
      else if MAX_PENDING_INPUTS_PER_SESSION \<le> length (il_pending l)
              \<or> MAX_PENDING_INPUT_BYTES_PER_SESSION < il_pending_bytes l + length bytes
      then (?r2, Err (''terminal input lane is full ('' @ show_nat MAX_PENDING_INPUTS_PER_SESSION @ '' batches, ''
                      @ show_nat MAX_PENDING_INPUT_BYTES_PER_SESSION @ '' bytes)''))
      else (?r3, Ok ?p))"
    unfolding admit_input_def Let_def l l2 option.case by simp
  have room: "tells r [WasAdmitted sid ?n] ?r3"
    if "\<not> MAX_INPUT_BYTES < length bytes" "bytes \<noteq> []"
      "\<not> (MAX_PENDING_INPUTS_PER_SESSION \<le> length (il_pending l)
          \<or> MAX_PENDING_INPUT_BYTES_PER_SESSION < il_pending_bytes l + length bytes)"
  proof -
    have "batch_ok sid ?p" using that(1,2) by (simp add: batch_ok_def)
    note app = appended_router [OF ok1 l this, of ?n ?r3]
    have "router_ok ?r3" "\<And>m. status ?r3 m = (if m = ?n then Some (sid, Waiting) else status ?r m)" using app that(3) by simp_all
    then have "tells ?r [WasAdmitted sid ?n] ?r3" by (auto simp: tells_def agrees_def)
    then show ?thesis by (rule keeps_then_tells [OF keep])
  qed
  show "tells r (admitted sid (snd (admit_input sid view bytes now r))) (fst (admit_input sid view bytes now r))"
    using keeps_tells [OF keep] spent room unfolding eq admitted_def by (simp split del: if_split) (auto split: if_split)
qed

section \<open>Claims\<close>

lemma keeps_claim_id [simp]: "keeps_batches r (r\<lparr>ir_next_claim_id := x\<rparr>)"
  by (rule lanes_keep) simp_all

lemma keeps_in_lane_always: "(\<And>l. same_pending l (f l)) \<Longrightarrow> keeps_batches r (in_lane sid f r)"
  by (rule keeps_in_lane) simp

lemma keeps_lane_mut_always: "(\<And>l. same_pending l (f l)) \<Longrightarrow> keeps_batches r (lane_mut sid f r)"
  by (rule keeps_lane_mut) simp

lemmas keeps_claims = keeps_in_lane_always keeps_lane_mut_always keeps_map

lemma hold_for_promotion_keeps: "keeps_batches r (hold_for_promotion sid attempt token now r)"
  unfolding hold_for_promotion_def by (rule keeps_claims) (simp add: same_pending_def)

lemma begin_fallback_keeps: "keeps_batches r (begin_fallback sid fp epoch now r)"
  unfolding begin_fallback_def by (rule keeps_claims) (simp add: same_pending_def)

lemma take_claims_keeps: "keeps_batches r (fst (take_claims ended r))"
  unfolding take_claims_def fst_conv by (rule keeps_claims) (simp add: same_pending_def split: option.split)

lemma release_held_keeps: "keeps_batches r (fst (release_held sid r))"
proof -
  have "keeps_batches r (in_lane sid (\<lambda>l. drop_claims (l\<lparr>il_phase := Sending\<rparr>)) r)"
    by (rule keeps_claims) (simp add: same_pending_def drop_claims_def)
  then show ?thesis by (simp add: release_held_def split: option.split)
qed

lemma defer_fallback_keeps: "keeps_batches r (fst (defer_fallback sid now r))"
proof -
  have "keeps_batches r (in_lane sid (\<lambda>l. l\<lparr>il_claims := (il_claims l)\<lparr>cl_fallback := x\<rparr>\<rparr>) r)" for x
    by (rule keeps_claims) (simp add: same_pending_def)
  then show ?thesis by (simp add: defer_fallback_def Let_def split: option.split)
qed

lemma install_route_epoch_keeps: "keeps_batches r (fst (install_route_epoch sid token epoch revision r))"
proof -
  have "keeps_batches r (lane_mut sid (\<lambda>l. l) r)" by (rule keeps_claims) simp
  moreover have "keeps_batches r' (lane_mut sid (\<lambda>l. l\<lparr>il_route_epoch := epoch, il_route_revision := revision,
      il_route_epoch_token := Some token\<rparr>) r')" for r' by (rule keeps_claims) (simp add: same_pending_def)
  ultimately show ?thesis using keeps_trans by (simp add: install_route_epoch_def Let_def)
qed

lemma begin_route_claim_keeps: "keeps_batches r (fst (begin_route_claim sid token epoch attempt now r))"
proof -
  let ?r = "r\<lparr>ir_next_claim_id := ir_next_claim_id r + 1\<rparr>"
  let ?r1 = "lane_mut sid (\<lambda>l. l\<lparr>il_claims := (il_claims l)\<lparr>cl_required := True\<rparr>, il_route_epoch := '''', il_route_epoch_token := None\<rparr>) ?r"
  have "keeps_batches ?r ?r1" by (rule keeps_claims) (simp add: same_pending_def)
  then have one: "keeps_batches r ?r1" using keeps_trans [OF keeps_claim_id] by blast
  have "keeps_batches ?r1 (lane_mut sid (\<lambda>l. l\<lparr>il_phase := Blocked\<rparr>) ?r1)" by (rule keeps_claims) (simp add: same_pending_def)
  moreover have "keeps_batches ?r1 (lane_mut sid (\<lambda>l. l\<lparr>il_route_revision := il_route_revision l + 1, il_phase := Claiming,
      il_claims := (il_claims l)\<lparr>cl_promotion := map_option (\<lambda>p. p\<lparr>ph_claim_sent := True\<rparr>) (cl_promotion (il_claims l)),
        cl_in_flight := Some claim\<rparr>\<rparr>) ?r1)" for claim by (rule keeps_claims) (simp add: same_pending_def)
  ultimately show ?thesis using keeps_trans [OF one] unfolding begin_route_claim_def Let_def by simp
qed

lemma settle_route_claim_keeps: "keeps_batches r (fst (settle_route_claim token res now r))"
proof -
  have s: "keeps_batches r' (in_lane sid f r')" if "\<And>l. same_pending l (f l)" for r' sid f
    using that by (rule keeps_claims)
  let ?c = "\<lambda>r. in_lane (rr_session_id res) (\<lambda>l. l\<lparr>il_claims := (il_claims l)\<lparr>cl_in_flight := None\<rparr>\<rparr>) r"
  have c: "keeps_batches r (?c r)" by (rule s) (simp add: same_pending_def)
  have h: "keeps_batches r (in_lane (rr_session_id res) (\<lambda>l. l\<lparr>il_phase := Holding\<rparr>) (?c r))"
    by (rule keeps_trans [OF c s]) (simp add: same_pending_def)
  have a: "keeps_batches r (in_lane (rr_session_id res) (\<lambda>l. l\<lparr>il_route_epoch := e, il_route_epoch_token := t,
      il_claims := (il_claims l)\<lparr>cl_worker_epoch := w\<rparr>, il_phase := Holding\<rparr>) (?c r))" for e t w
    by (rule keeps_trans [OF c s]) (simp add: same_pending_def)
  have t: "keeps_batches r (in_lane (rr_session_id res) (\<lambda>l. l\<lparr>il_route_revision := v,
      il_claims := (il_claims l)\<lparr>cl_in_flight := q\<rparr>\<rparr>) ((?c r)\<lparr>ir_next_claim_id := i\<rparr>))" for v q i
    by (rule keeps_trans [OF keeps_trans [OF c keeps_claim_id] s]) (simp add: same_pending_def)
  show ?thesis unfolding settle_route_claim_def Let_def using c h a t by (simp split: option.split)
qed

lemma block_route_tells: "tells r (told (snd (block_route sid r))) (fst (block_route sid r))"
proof -
  have "keeps_batches r (in_lane sid drop_claims r)" by (rule keeps_claims) (simp add: same_pending_def drop_claims_def)
  then show ?thesis using keeps_then_tells [OF _ set_phase_tells]
    by (simp add: block_route_def keeps_tells split: option.split)
qed

section \<open>A lost route\<close>

lemma unsent_same: "(\<And>l. same_pending l (f l)) \<Longrightarrow> unsent sid (in_lane j f r) = unsent sid r"
  by (auto simp: unsent_def outstanding_def lane_in_lane same_pending_def split: option.split)

lemma blocked_removes:
  assumes "router_ok r"
  shows "removed (set (unsent sid r)) r (fst (set_phase sid Blocked r))"
    "snd (set_phase sid Blocked r) = map (\<lambda>n. InputRejected n ''terminal input route is reconnecting'') (unsent sid r)"
proof -
  let ?r = "lane_mut sid (\<lambda>l. l\<lparr>il_phase := Blocked\<rparr>) r"
  have same: "same_pending l (l\<lparr>il_phase := Blocked\<rparr>)" for l by (simp add: same_pending_def)
  have keep: "keeps_batches r ?r" by (rule keeps_claims) (rule same)
  have u: "unsent sid ?r = unsent sid r" by (rule unsent_lane_mut [OF assms]) (rule same)
  have ok: "router_ok ?r" using keep assms by (simp add: keeps_batches_def)
  show "removed (set (unsent sid r)) r (fst (set_phase sid Blocked r))"
    using refuse_unstarted_tells(3) [of sid ?r] keep unfolding u by (simp add: set_phase_def Let_def removed_def keeps_batches_def)
  show "snd (set_phase sid Blocked r) = map (\<lambda>n. InputRejected n ''terminal input route is reconnecting'') (unsent sid r)"
    using refuse_unstarted_tells(2) [OF ok, of sid] by (simp add: u set_phase_def Let_def)
qed

lemma forget_route_facts:
  assumes "router_ok r"
  shows "removed (set (unsent sid r)) r (forget_route sid r)" "tells r (map WasRefused (unsent sid r)) (forget_route sid r)"
proof -
  let ?f = "\<lambda>l. l\<lparr>il_route_epoch := '''', il_route_epoch_token := None\<rparr>"
  have same: "same_pending l (?f l)" for l by (simp add: same_pending_def)
  have keep: "keeps_batches r (in_lane sid ?f r)" by (rule keeps_claims) (rule same)
  then have ok: "router_ok (in_lane sid ?f r)" using assms by (simp add: keeps_batches_def)
  have u: "unsent sid (in_lane sid ?f r) = unsent sid r" by (rule unsent_same) (rule same)
  note b = blocked_removes [OF ok, of sid, unfolded u]
  show "removed (set (unsent sid r)) r (forget_route sid r)"
    using b(1) keep by (simp add: forget_route_def removed_def keeps_batches_def)
  show "tells r (map WasRefused (unsent sid r)) (forget_route sid r)"
    using keeps_then_tells [OF keep set_phase_tells [of "in_lane sid ?f r" sid Blocked]] b(2) by (simp add: forget_route_def)
qed

fun forgets :: "string list \<Rightarrow> input_router \<Rightarrow> input_event list" where
  "forgets [] r = []"
| "forgets (sid # sids) r = map WasRefused (unsent sid r) @ forgets sids (forget_route sid r)"

lemma forgets_tell: "tells r (forgets sids r) (fold forget_route sids r)"
proof (induction sids arbitrary: r)
  case Nil
  show ?case by (simp add: keeps_tells)
next
  case (Cons sid sids)
  show ?case
  proof (rule tells_ok)
    assume "router_ok r"
    then show "tells r (forgets (sid # sids) r) (fold forget_route (sid # sids) r)"
      using tells_trans [OF forget_route_facts(2) Cons.IH] by simp
  qed
qed

definition requeues :: "string \<Rightarrow> nat \<Rightarrow> input_router \<Rightarrow> input_event list" where
  "requeues sid seq r =
     (if snd (requeue_moved_sync_batch sid seq r)
      then (if map_option il_phase (lane sid r) = Some Sending then map WasRefused (unsent sid r) else []) @ [WasRequeued seq]
      else [])"

lemma put_back_tells:
  assumes "router_ok r" "status r seq = Some (sid, Flying)"
  shows "tells r [WasRequeued seq]
    (in_lane sid (changed seq (\<lambda>p. p\<lparr>pi_started := False, pi_fence := None, pi_started_at_ms := 0\<rparr>)) r)"
proof -
  let ?f = "\<lambda>p. p\<lparr>pi_started := False, pi_fence := None, pi_started_at_ms := 0\<rparr>"
  obtain l p where p: "lane sid r = Some l" "p \<in> set (il_pending l)" "pi_input_seq p = seq"
    using waiting_in_lane [OF assms] by blast
  have "batch_ok sid p" using lane_okD(1) [OF assms(1) p(1)] p(2) by (simp add: lane_ok_def)
  then have b: "batch_ok sid (?f p)" by (simp add: batch_ok_def)
  have ok: "router_ok (in_lane sid (changed seq ?f) r)"
    and st: "\<And>m. status (in_lane sid (changed seq ?f) r) m = (if m = seq then Some (sid, Waiting) else status r m)"
    using changed_router [where f = ?f, OF assms(1) p(1,2) _ b] p(3) by (simp_all add: stage_of_def)
  show ?thesis
  proof (rule change_tells [OF assms(1) ok st])
    show "status r seq \<noteq> None" by (simp add: assms(2))
    fix \<sigma> assume "agrees r \<sigma>"
    then have "\<sigma> seq = Some (sid, Flying)" using status_known assms(2) by blast
    then show "life_step (WasRequeued seq) \<sigma> = Some (\<sigma>(seq \<mapsto> (sid, Waiting)))" by simp
  qed simp
qed

lemma requeue_acts:
  assumes "lane sid r = Some l" "requeue_moved_sync_batch sid seq r \<noteq> (r, False)"
  shows "requeue_moved_sync_batch sid seq r =
    (let r = (if il_phase l = Sending then forget_route sid r else r)
     in case lane sid r of
          None \<Rightarrow> (r, False)
        | Some l \<Rightarrow>
            if \<not> holds_batch seq l then (r, False)
            else (in_lane sid (changed seq (\<lambda>p. p\<lparr>pi_started := False, pi_fence := None, pi_started_at_ms := 0\<rparr>)) r, True))"
proof -
  have either: "(if G then a else x) = a \<or> (if G then a else x) = x" for G and a x :: "input_router \<times> bool" by simp
  have "requeue_moved_sync_batch sid seq r = (r, False) \<or> ?thesis"
    unfolding requeue_moved_sync_batch_def assms(1) option.case changed_def [abs_def] Let_def by (rule either)
  with assms(2) show ?thesis by blast
qed

lemma requeue_flying:
  assumes "requeue_moved_sync_batch sid seq r \<noteq> (r, False)"
  shows "\<exists>l p. lane sid r = Some l \<and> p \<in> set (il_pending l) \<and> pi_input_seq p = seq \<and> pi_started p"
proof (cases "lane sid r")
  case None
  with assms show ?thesis by (simp add: requeue_moved_sync_batch_def)
next
  case (Some l)
  show ?thesis
  proof (rule ccontr)
    assume none: "\<not> ?thesis"
    have "\<not> list_ex (\<lambda>p. pi_input_seq p = seq \<and> pi_started p
        \<and> (case pi_fence p of None \<Rightarrow> False | Some token \<Rightarrow> tk_transport token = Sync)) (il_pending l)"
      using none Some by (auto simp: list_ex_iff)
    then have "requeue_moved_sync_batch sid seq r = (r, False)" using Some by (simp add: requeue_moved_sync_batch_def Let_def)
    with assms show False by simp
  qed
qed

lemma requeue_tells: "tells r (requeues sid seq r) (fst (requeue_moved_sync_batch sid seq r))"
proof (rule tells_ok)
  assume ok: "router_ok r"
  let ?put = "in_lane sid (changed seq (\<lambda>p. p\<lparr>pi_started := False, pi_fence := None, pi_started_at_ms := 0\<rparr>))"
  show "tells r (requeues sid seq r) (fst (requeue_moved_sync_batch sid seq r))"
  proof (cases "requeue_moved_sync_batch sid seq r = (r, False)")
    case True
    then show ?thesis by (simp add: requeues_def keeps_tells)
  next
    case False
    then obtain l p where p: "lane sid r = Some l" "p \<in> set (il_pending l)" "pi_input_seq p = seq" "pi_started p"
      using requeue_flying by blast
    let ?r = "if il_phase l = Sending then forget_route sid r else r"
    have st: "status r seq = Some (sid, Flying)" using pending_status [OF ok p(1,2)] p(3,4) by (simp add: stage_of_def)
    have "seq \<notin> set (unsent sid r)"
    proof
      assume "seq \<in> set (unsent sid r)"
      then obtain q where q: "q \<in> set (il_pending l)" "pi_input_seq q = seq" "\<not> pi_started q" by (auto simp: unsent_def outstanding_def p(1))
      then have "status r seq = Some (sid, Waiting)" using pending_status [OF ok p(1) q(1)] by (simp add: stage_of_def)
      with st show False by simp
    qed
    then have st': "router_ok ?r" "status ?r seq = Some (sid, Flying)"
      using forget_route_facts(1) [OF ok, of sid] ok st by (auto simp: removed_def)
    then obtain l' where l': "lane sid ?r = Some l'" "holds_batch seq l'"
      using waiting_in_lane [OF st'] by (force simp: holds_batch_def list_ex_iff)
    have eq: "requeue_moved_sync_batch sid seq r = (?put ?r, True)"
      using requeue_acts [OF p(1) False] l' by (simp add: Let_def)
    have "tells r (if il_phase l = Sending then map WasRefused (unsent sid r) else []) ?r"
      using forget_route_facts(2) [OF ok] by (simp add: keeps_tells)
    from tells_trans [OF this put_back_tells [OF st']] show ?thesis by (simp add: requeues_def eq p(1))
  qed
qed

section \<open>The handlers\<close>

definition carried :: "input_effect list \<Rightarrow> input_event list" where
  "carried out = concat (map (\<lambda>e. case e of SendInput s \<Rightarrow> sends [s] | SendClaim _ \<Rightarrow> []) out)"

lemma carried_simps [simp]:
  "carried [] = []" "carried (xs @ ys) = carried xs @ carried ys" "carried (map SendInput sent) = sends sent" "carried [SendClaim c] = []"
  by (simp_all add: carried_def) (induction sent, simp_all add: sends_def)

lemma agrees_self:
  assumes "router_ok r"
  shows "agrees r (status r)"
proof -
  have "status r n = None" if "ir_next_input_seq r < n" for n
    unfolding status_None [OF assms] using lane_okD(2) [OF assms] that by fastforce
  then show ?thesis by (simp add: agrees_def)
qed

lemma admit_waits:
  assumes "router_ok r" "admit_input sid view bytes now r = (r', Ok p)"
  shows "status r' (pi_input_seq p) = Some (sid, Waiting)"
proof -
  have "tells r [WasAdmitted sid (pi_input_seq p)] r'"
    using admit_tells [of r sid view bytes now] assms(2) by (simp add: admitted_def)
  then have "agrees r' ((status r)(pi_input_seq p \<mapsto> (sid, Waiting)))"
    using assms(1) agrees_self [OF assms(1)] by (auto simp: tells_def split: if_splits)
  then show ?thesis by (auto simp: agrees_def dest!: spec [where x = "pi_input_seq p"])
qed

lemma settle_tells:
  assumes "router_ok r" "input_outcome_seq outcome = n" "status r n = Some (sid, st)" "closes e n st"
  shows "tells r [e] (fst (settle n outcome r))" "snd (settle n outcome r)"
proof -
  have "removed (set [n]) r (fst (settle n outcome r))" using settle_removes(1) [OF assms(1-3)] by simp
  then have "tells r (map (\<lambda>_. e) [n]) (fst (settle n outcome r))"
    by (rule removed_tells) (use assms in auto)
  then show "tells r [e] (fst (settle n outcome r))" by simp
  show "snd (settle n outcome r)" by (rule settle_removes(2) [OF assms(1-3)])
qed

lemma settle_nothing:
  assumes "router_ok r" "\<not> snd (settle n outcome r)"
  shows "fst (settle n outcome r) = r"
proof (cases "input_outcome_seq outcome = n")
  case True
  then show ?thesis using assms(2) settle_exact [OF assms(1) True] by (auto split: option.splits)
qed (simp add: settle_def)

lemma settle_answer_tells:
  "tells r (if snd (settle n outcome r) then [WasAnswered n] else []) (fst (settle n outcome r))"
proof (rule tells_ok)
  assume ok: "router_ok r"
  show "tells r (if snd (settle n outcome r) then [WasAnswered n] else []) (fst (settle n outcome r))"
  proof (cases "snd (settle n outcome r)")
    case True
    then have n: "input_outcome_seq outcome = n" by (auto simp: settle_def split: if_splits)
    obtain sid st where st: "status r n = Some (sid, st)"
      using True settle_exact [OF ok n] by (auto split: option.splits)
    then have "st \<noteq> Settled" using waiting_in_lane [OF ok st] by (auto simp: stage_of_def split: if_splits)
    then show ?thesis using settle_tells(1) [OF ok n st, of "WasAnswered n"] True by simp
  qed (simp add: settle_nothing [OF ok] keeps_tells)
qed

lemma settle_from_tells:
  "tells r (if snd (settle_from sid token n outcome r) then [WasAnswered n] else []) (fst (settle_from sid token n outcome r))"
proof (rule tells_ok)
  assume ok: "router_ok r"
  let ?s = "settle_from sid token n outcome r"
  show "tells r (if snd ?s then [WasAnswered n] else []) (fst ?s)"
  proof (cases "snd ?s")
    case True
    then obtain l p where l: "lane sid r = Some l" "find (\<lambda>p. pi_input_seq p = n) (il_pending l) = Some p"
      and eq: "?s = (let (l', settled) = settle_in n l; r = in_lane sid (\<lambda>_. l') r
                    in (if settled then observe_settled [outcome] r else r, settled))"
      by (auto simp: settle_from_def split: if_splits option.splits)
    have p: "p \<in> set (il_pending l)" "pi_input_seq p = n" using find_SomeD [OF l(2)] by auto
    then have n: "{n} \<subseteq> set (lane_seqs l)" by (auto simp: lane_seqs_def)
    then have "settle_in n l = (without {n} l, True)" using settle_in_exact [OF lane_okD(1) [OF ok l(1)]] by simp
    then have s: "fst ?s = observe_settled [outcome] (in_lane sid (\<lambda>_. without {n} l) r)" by (simp add: eq)
    have "removed (set [n]) r (fst ?s)"
      unfolding s using removed_keeps [OF removed_in_lane [OF l(1) same_pending_refl n] observe_keeps] by simp
    then have "tells r (map (\<lambda>_. WasAnswered n) [n]) (fst ?s)"
      by (rule removed_tells) (use pending_status [OF ok l(1) p(1)] p(2) in \<open>auto simp: stage_of_def\<close>)
    then show ?thesis using True by simp
  next
    case False
    have "?s = (r, False) \<or> snd ?s"
    proof (cases "Option.bind (lane sid r) (\<lambda>l. find (\<lambda>p. pi_input_seq p = n) (il_pending l))")
      case None
      then show ?thesis by (auto simp: settle_from_def split: option.splits bind_splits)
    next
      case (Some p)
      then obtain l where l: "lane sid r = Some l" "find (\<lambda>p. pi_input_seq p = n) (il_pending l) = Some p" by (auto split: bind_splits)
      then have "n \<in> set (lane_seqs l)" using find_SomeD [OF l(2)] by (auto simp: lane_seqs_def)
      then have "settle_in n l = (without {n} l, True)" using settle_in_exact [OF lane_okD(1) [OF ok l(1)]] by simp
      with l show ?thesis by (simp add: settle_from_def)
    qed
    then have "fst ?s = r" using False by auto
    with False show ?thesis by (simp add: keeps_tells)
  qed
qed

lemma send_startable_tells: "tells r (carried (snd (send_startable v sid token now r))) (fst (send_startable v sid token now r))"
  using dispatch_startable_tells [of r "iv_wire_view_id v sid" sid token now]
  by (simp add: send_startable_def case_prod_beta)

lemma send_queued_tells: "tells r (carried (snd (send_queued_input v sid now r))) (fst (send_queued_input v sid now r))"
  using send_startable_tells by (simp add: send_queued_input_def keeps_tells split: option.split)

lemma reclaim_keeps: "keeps_batches r (fst (reclaim_lost_route v sid now r))"
  using begin_fallback_keeps by (simp add: reclaim_lost_route_def split: option.split)

lemma claim_fallback_tells:
  "tells r (carried (fst (snd (claim_fallback v now x r))) @ told (snd (snd (claim_fallback v now x r)))) (fst (claim_fallback v now x r))"
proof -
  obtain sid fallback where x: "x = (sid, fallback)" by (cases x)
  have deferred: "tells r (told (snd (defer_or_block_fallback sid now r))) (fst (defer_or_block_fallback sid now r))"
    using defer_fallback_keeps [of r sid now] keeps_then_tells [OF _ block_route_tells, of r _ sid]
    by (auto simp: defer_or_block_fallback_def keeps_tells split: prod.split bool.split)
  have claimed: "tells r (told (snd (block_route sid (fst (begin_route_claim sid t e None now r)))))
      (fst (block_route sid (fst (begin_route_claim sid t e None now r))))" "tells r [] (fst (begin_route_claim sid t e None now r))" for t e
    using keeps_then_tells [OF begin_route_claim_keeps block_route_tells] keeps_tells [OF begin_route_claim_keeps] by blast+
  show ?thesis
    using deferred claimed unfolding claim_fallback_def x
    by (auto simp: Let_def case_prod_beta split: option.split sum.split)
qed

lemma claim_fallback_sends_nothing: "carried (fst (snd (claim_fallback v now x r))) = []"
  by (auto simp: claim_fallback_def Let_def case_prod_beta split: option.split sum.split)

lemma claim_due_fallbacks_tells:
  "tells r (told (snd (snd (claim_due_fallbacks v now r)))) (fst (claim_due_fallbacks v now r))"
  "carried (fst (snd (claim_due_fallbacks v now r))) = []"
proof -
  define step where "step = (\<lambda>(r, out, settled) due. let (r, out', settled') = claim_fallback v now due r in (r, out @ out', settled @ settled'))"
  have "\<exists>out' settled'. snd (foldl step (r, out, settled) due) = (out @ out', settled @ settled') \<and> carried out' = []
      \<and> tells r (told settled') (fst (foldl step (r, out, settled) due))" for r out settled due
  proof (induction due arbitrary: r out settled)
    case Nil
    show ?case by (auto simp: keeps_tells intro!: exI [where x = "[]"])
  next
    case (Cons x due)
    obtain r1 out1 settled1 where x: "claim_fallback v now x r = (r1, out1, settled1)" by (cases "claim_fallback v now x r")
    have one: "carried out1 = []" "tells r (told settled1) r1"
      using claim_fallback_tells [of r v now x] claim_fallback_sends_nothing [of v now x r] by (simp_all add: x)
    obtain out2 settled2 where "snd (foldl step (r1, out @ out1, settled @ settled1) due) = ((out @ out1) @ out2, (settled @ settled1) @ settled2)"
      "carried out2 = []" "tells r1 (told settled2) (fst (foldl step (r1, out @ out1, settled @ settled1) due))"
      using Cons.IH by blast
    moreover have "foldl step (r, out, settled) (x # due) = foldl step (r1, out @ out1, settled @ settled1) due" by (simp add: step_def x)
    ultimately show ?case using one tells_trans [OF one(2)]
      by (intro exI [where x = "out1 @ out2"] exI [where x = "settled1 @ settled2"]) simp
  qed
  from this [of r "[]" "[]" "due_fallbacks now r"]
  show "tells r (told (snd (snd (claim_due_fallbacks v now r)))) (fst (claim_due_fallbacks v now r))"
    "carried (fst (snd (claim_due_fallbacks v now r))) = []"
    unfolding claim_due_fallbacks_def step_def [symmetric] by auto
qed

definition keystroke_events :: "input_view \<Rightarrow> string \<Rightarrow> string option \<Rightarrow> 8 word list \<Rightarrow> nat \<Rightarrow> input_router \<Rightarrow> input_event list" where
  "keystroke_events v sid view bytes now r =
     (let (_, out, settled) = handle_terminal_input v sid view bytes now r
      in admitted sid (snd (admit_input sid view bytes now (fst (reclaim_lost_route v sid now r)))) @ carried out @ told settled)"

lemma feed_keeps [simp]: "keeps_batches r (r\<lparr>ir_outcome_feed := f, ir_smoke_observer := s\<rparr>)"
  by (rule lanes_keep) simp_all

lemma settle_as_unsent_tells:
  assumes "router_ok r" "status r n = Some (sid, Waiting)"
  shows "tells r (told (snd (settle_as_unsent n reason r))) (fst (settle_as_unsent n reason r))"
  using settle_tells [OF assms(1) _ assms(2), of "InputRejected n reason" "WasRefused n"]
  by (auto simp: settle_as_unsent_def told_def split: prod.split bool.split)

lemma keystroke_tells:
  "tells r (keystroke_events v sid view bytes now r) (fst (handle_terminal_input v sid view bytes now r))"
proof (rule tells_ok)
  assume ok: "router_ok r"
  obtain r1 reclaiming where r1: "reclaim_lost_route v sid now r = (r1, reclaiming)" by (cases "reclaim_lost_route v sid now r")
  obtain r2 admission where r2: "admit_input sid view bytes now r1 = (r2, admission)" by (cases "admit_input sid view bytes now r1")
  let ?r3 = "r2\<lparr>ir_outcome_feed := note_admission view admission (ir_outcome_feed r2),
                ir_smoke_observer := map_option (observe_admission sid admission) (ir_smoke_observer r2)\<rparr>"
  have keep: "keeps_batches r r1" using reclaim_keeps [of r v sid now] by (simp add: r1)
  then have ok1: "router_ok r1" using ok by (simp add: keeps_batches_def)
  have adm: "tells r (admitted sid admission) ?r3"
    using tells_keeps [OF keeps_then_tells [OF keep admit_tells [of r1 sid view bytes now]] feed_keeps] by (simp add: r2)
  then have ok3: "router_ok ?r3" using ok tells_okD by blast
  show "tells r (keystroke_events v sid view bytes now r) (fst (handle_terminal_input v sid view bytes now r))"
  proof (cases admission)
    case (Inl e)
    then show ?thesis using adm by (simp add: keystroke_events_def handle_terminal_input_def r1 r2 Let_def)
  next
    case (Inr p)
    have "status r2 (pi_input_seq p) = Some (sid, Waiting)" using admit_waits [OF ok1] r2 Inr by simp
    then have waiting: "status ?r3 (pi_input_seq p) = Some (sid, Waiting)"
      using lanes_only_matter(2) [of ?r3 r2] by simp
    note send = tells_trans [OF adm send_startable_tells [of ?r3 v sid _ now]]
      and claim = tells_trans [OF adm claim_due_fallbacks_tells(1) [of ?r3 v now]]
      and unsent = tells_trans [OF adm settle_as_unsent_tells [OF ok3 waiting]]
    show ?thesis
      using adm send claim unsent claim_due_fallbacks_tells(2) [of v now ?r3] Inr
      by (simp add: keystroke_events_def handle_terminal_input_def r1 r2 Let_def case_prod_beta split: option.split)
  qed
qed

definition result_events :: "input_view \<Rightarrow> string \<Rightarrow> nat \<Rightarrow> input_outcome \<Rightarrow> nat \<Rightarrow> input_router \<Rightarrow> input_event list" where
  "result_events v sid seq outcome now r =
     (let (_, out, settled, answered) = handle_input_result v sid seq outcome now r
      in (if route_moved v sid seq outcome r then requeues sid seq r else [])
         @ (if answered then [WasAnswered seq] else []) @ carried out @ told settled)"

lemma result_tells:
  "tells r (result_events v sid seq outcome now r) (fst (handle_input_result v sid seq outcome now r))"
proof -
  let ?before = "if route_moved v sid seq outcome r then requeues sid seq r else []"
  obtain r1 requeued where r1: "(if route_moved v sid seq outcome r then requeue_moved_sync_batch sid seq r else (r, False)) = (r1, requeued)"
    by (metis surj_pair)
  obtain r2 waits where r2: "(if \<not> requeued then (r1, False) else if is_holding sid r1 then (r1, True)
      else reclaim_lost_route v sid now r1) = (r2, waits)" by (metis surj_pair)
  obtain r3 answered where r3: "settle seq outcome r2 = (r3, answered)" by (metis surj_pair)
  have eq: "handle_input_result v sid seq outcome now r =
    (if waits then (let (r, out, settled) = claim_due_fallbacks v now r2 in (r, out, settled, False))
     else if answered then (let (r, out) = send_queued_input v sid now r3 in (r, out, [], True)) else (r3, [], [], False))"
    unfolding handle_input_result_def r1 Let_def prod.case r2 r3 by simp
  have "tells r ?before r1" using requeue_tells [of r sid seq] r1 by (simp add: keeps_tells split: if_splits)
  moreover have "keeps_batches r1 r2" using reclaim_keeps [of r1 v sid now] r2 by (auto split: if_splits)
  ultimately have two: "tells r ?before r2" by (rule tells_keeps)
  have three: "tells r (?before @ (if answered then [WasAnswered seq] else [])) r3"
    using tells_trans [OF two settle_answer_tells [of r2 seq outcome]] by (simp add: r3)
  show ?thesis
    using tells_trans [OF two claim_due_fallbacks_tells(1) [of r2 v now]] claim_due_fallbacks_tells(2) [of v now r2] three
      tells_trans [OF three send_queued_tells [of r3 v sid now]]
    unfolding result_events_def eq by (cases waits; cases answered) (simp_all add: case_prod_beta)
qed

definition direct_events :: "input_view \<Rightarrow> string \<Rightarrow> terminal_token \<Rightarrow> nat \<Rightarrow> input_outcome \<Rightarrow> nat \<Rightarrow> input_router \<Rightarrow> input_event list" where
  "direct_events v sid token seq outcome now r =
     (let (_, out, answered) = handle_direct_input_result v sid token seq outcome now r
      in (if answered then [WasAnswered seq] else []) @ carried out)"

lemma direct_tells:
  "tells r (direct_events v sid token seq outcome now r) (fst (handle_direct_input_result v sid token seq outcome now r))"
proof -
  obtain r1 b where r1: "settle_from sid token seq outcome r = (r1, b)" by (cases "settle_from sid token seq outcome r")
  have one: "tells r (if b then [WasAnswered seq] else []) r1" using settle_from_tells [of r sid token seq outcome] by (simp add: r1)
  show ?thesis
    using one tells_trans [OF one send_queued_tells [of r1 v sid now]]
    by (cases b) (simp_all add: direct_events_def handle_direct_input_result_def r1 case_prod_beta)
qed

definition sweep_events :: "input_view \<Rightarrow> nat \<Rightarrow> input_router \<Rightarrow> input_event list" where
  "sweep_events v now r = (let (_, out, settled) = sweep_input v now r in told settled @ carried out)"

lemma sweep_tells: "tells r (sweep_events v now r) (fst (sweep_input v now r))"
proof -
  define step where "step = (\<lambda>(r, out) sid. let (r, out') = send_queued_input v sid now r in (r, out @ out'))"
  have "\<exists>out'. snd (foldl step (r, out) sids) = out @ out' \<and> tells r (carried out') (fst (foldl step (r, out) sids))" for r out sids
  proof (induction sids arbitrary: r out)
    case Nil
    show ?case by (auto simp: keeps_tells intro!: exI [where x = "[]"])
  next
    case (Cons sid sids)
    obtain r1 out1 where x: "send_queued_input v sid now r = (r1, out1)" by (cases "send_queued_input v sid now r")
    have one: "tells r (carried out1) r1" using send_queued_tells [of r v sid now] by (simp add: x)
    obtain out2 where "snd (foldl step (r1, out @ out1) sids) = (out @ out1) @ out2" "tells r1 (carried out2) (fst (foldl step (r1, out @ out1) sids))"
      using Cons.IH by blast
    moreover have "foldl step (r, out) (sid # sids) = foldl step (r1, out @ out1) sids" by (simp add: step_def x)
    ultimately show ?case using tells_trans [OF one] by (intro exI [where x = "out1 @ out2"]) simp
  qed
  note fold = this
  obtain r1 refused where r1: "sweep_held now r = (r1, refused)" by (cases "sweep_held now r")
  obtain r2 lost where r2: "sweep_unanswered now r1 = (r2, lost)" by (cases "sweep_unanswered now r1")
  have two: "tells r (told refused @ told lost) r2"
    using tells_trans [OF sweep_held_tells [of r now], of "told lost" r2] sweep_unanswered_tells [of r1 now] by (simp add: r1 r2)
  have "sweep_input v now r = (let (r, out) = foldl step (r2, []) (queued_sessions r2) in (r, out, refused @ lost))"
    by (simp add: sweep_input_def r1 r2 step_def)
  with tells_trans [OF two] fold [of r2 "[]" "queued_sessions r2"] show ?thesis
    by (auto simp: sweep_events_def case_prod_beta)
qed

section \<open>Every run\<close>

text \<open>
  The calls the client's handlers make on the router. A keystroke, a result, the sweep, the end of a
  Sync socket and of a carrier are the handlers themselves; the claim and promotion handlers are
  sequences of the operations listed after them, so the runs below include theirs.
\<close>

datatype input_op =
    Keystroke input_view string "string option" "8 word list" nat
  | AnswerOnSync input_view string nat input_outcome nat
  | AnswerOnDirect input_view string terminal_token nat input_outcome nat
  | SweepInput input_view nat
  | SyncClosed nat
  | CarrierRetired terminal_token string
  | FallbacksClaimed input_view nat
  | HeldReleased input_view string terminal_token nat
  | QueueSent input_view string nat
  | PhaseSet string input_phase
  | RouteBlocked string
  | PromotionHeld string nat terminal_token nat
  | FallbackBegun string string string nat
  | RouteClaimed string terminal_token string "nat option" nat
  | ClaimAnswered terminal_token input_route_result nat
  | ClaimsExpired nat
  | ClaimsRejected nat
  | FallbackDeferred string nat
  | EpochInstalled string terminal_token string nat

text \<open>The end of a Sync socket (\<open>release_sync_generation\<close>, the input part).\<close>

definition close_sync_input :: "nat \<Rightarrow> input_router \<Rightarrow> input_router \<times> input_event list" where
  "close_sync_input generation r =
     (let (r, lost) = retire_sync_generation generation ''Sync closed'' r;
          (r', blocked) = block_routes_on_sync_socket generation r
      in (r', told lost @ forgets blocked r))"

fun exec_input :: "input_op \<Rightarrow> input_router \<Rightarrow> input_router \<times> input_event list" where
  "exec_input (Keystroke v sid view bytes now) r =
     (fst (handle_terminal_input v sid view bytes now r), keystroke_events v sid view bytes now r)"
| "exec_input (AnswerOnSync v sid seq outcome now) r =
     (fst (handle_input_result v sid seq outcome now r), result_events v sid seq outcome now r)"
| "exec_input (AnswerOnDirect v sid token seq outcome now) r =
     (fst (handle_direct_input_result v sid token seq outcome now r), direct_events v sid token seq outcome now r)"
| "exec_input (SweepInput v now) r = (fst (sweep_input v now r), sweep_events v now r)"
| "exec_input (SyncClosed generation) r = close_sync_input generation r"
| "exec_input (CarrierRetired token reason) r = (let (r, lost) = retire_token token reason r in (r, told lost))"
| "exec_input (FallbacksClaimed v now) r = (let (r, _, refused) = claim_due_fallbacks v now r in (r, told refused))"
| "exec_input (HeldReleased v sid token now) r =
     (let (r, out) = send_startable v sid token now (fst (release_held sid r)) in (r, carried out))"
| "exec_input (QueueSent v sid now) r = (let (r, out) = send_queued_input v sid now r in (r, carried out))"
| "exec_input (PhaseSet sid phase) r = (let (r, refused) = set_phase sid phase r in (r, told refused))"
| "exec_input (RouteBlocked sid) r = (let (r, refused) = block_route sid r in (r, told refused))"
| "exec_input (PromotionHeld sid attempt token now) r = (hold_for_promotion sid attempt token now r, [])"
| "exec_input (FallbackBegun sid fp epoch now) r = (begin_fallback sid fp epoch now r, [])"
| "exec_input (RouteClaimed sid token epoch attempt now) r = (fst (begin_route_claim sid token epoch attempt now r), [])"
| "exec_input (ClaimAnswered token res now) r = (fst (settle_route_claim token res now r), [])"
| "exec_input (ClaimsExpired now) r = (fst (expire_route_claims now r), [])"
| "exec_input (ClaimsRejected generation) r = (fst (reject_sync_claims generation r), [])"
| "exec_input (FallbackDeferred sid now) r = (fst (defer_fallback sid now r), [])"
| "exec_input (EpochInstalled sid token epoch revision) r = (fst (install_route_epoch sid token epoch revision r), [])"

fun run_input :: "input_op list \<Rightarrow> input_router \<Rightarrow> input_router \<times> input_event list" where
  "run_input [] r = (r, [])"
| "run_input (x # xs) r = (let (r, es) = exec_input x r; (r, es') = run_input xs r in (r, es @ es'))"

lemma close_sync_tells: "tells r (snd (close_sync_input g r)) (fst (close_sync_input g r))"
proof -
  obtain r1 lost where r1: "retire_sync_generation g ''Sync closed'' r = (r1, lost)" by (metis surj_pair)
  have "tells r (told (snd (retire_sync_generation g ''Sync closed'' r))) (fst (retire_sync_generation g ''Sync closed'' r))"
    unfolding retire_sync_generation_def by (rule retire_fenced_tells)
  then have "tells r (told lost) r1" by (simp add: r1)
  from tells_trans [OF this forgets_tell] show ?thesis
    by (simp add: close_sync_input_def r1 block_routes_on_sync_socket_def Let_def)
qed

lemma exec_tells: "tells r (snd (exec_input x r)) (fst (exec_input x r))"
proof (cases x)
  case (HeldReleased v sid token now)
  then show ?thesis using keeps_then_tells [OF release_held_keeps send_startable_tells] by (simp add: case_prod_beta)
next
  case (CarrierRetired token reason)
  then show ?thesis using retire_fenced_tells by (simp add: case_prod_beta retire_token_def)
qed (simp_all add: keystroke_tells result_tells direct_tells sweep_tells close_sync_tells claim_due_fallbacks_tells send_queued_tells
    set_phase_tells block_route_tells hold_for_promotion_keeps begin_fallback_keeps begin_route_claim_keeps settle_route_claim_keeps
    take_claims_keeps expire_route_claims_def reject_sync_claims_def defer_fallback_keeps install_route_epoch_keeps keeps_tells case_prod_beta)

lemma run_tells: "tells r (snd (run_input xs r)) (fst (run_input xs r))"
proof (induction xs arbitrary: r)
  case Nil
  show ?case by (simp add: keeps_tells)
next
  case (Cons x xs)
  show ?case using tells_trans [OF exec_tells [of r x] Cons.IH] by (simp add: case_prod_beta)
qed

lemma router_new_ok: "router_ok router_new" "status router_new = Map.empty"
  by (simp_all add: router_ok_def router_new_def lane_def status_def fun_eq_iff)

text \<open>
  C3: The input router implements the life of a keystroke. Take any sequence of keystrokes, results,
  sweeps, socket and carrier losses, claims and phase changes from a fresh router, in any order: what
  the client admitted, sent, put back, refused, gave up and was answered is a run of the specification.
  A batch is sent only while it waits and only when nothing typed before it in its session still waits;
  it is sent again only after the refusal that proves it was not written; it is refused only while
  unsent, given up only while sent, and settled once; and the batches the router still holds are
  exactly the unsettled ones, at the stage the specification gives them.
\<close>

theorem input_refines_life:
  "\<exists>\<sigma>. life_run (snd (run_input ops router_new)) Map.empty = Some \<sigma> \<and> agrees (fst (run_input ops router_new)) \<sigma>"
proof -
  have "agrees router_new Map.empty" using agrees_self [OF router_new_ok(1)] by (simp add: router_new_ok(2))
  then show ?thesis using run_tells [of router_new ops] router_new_ok(1) by (auto simp: tells_def)
qed

section \<open>What the specification gives\<close>

fun settles :: "nat \<Rightarrow> input_event \<Rightarrow> bool" where
  "settles n (WasRefused m) = (m = n)"
| "settles n (WasLost m) = (m = n)"
| "settles n (WasAnswered m) = (m = n)"
| "settles n _ = False"

fun concerns :: "nat \<Rightarrow> input_event \<Rightarrow> bool" where
  "concerns n (WasAdmitted _ m) = (m = n)"
| "concerns n (WasSent _ m) = (m = n)"
| "concerns n (WasRequeued m) = (m = n)"
| "concerns n (WasRefused m) = (m = n)"
| "concerns n (WasLost m) = (m = n)"
| "concerns n (WasAnswered m) = (m = n)"

lemma life_other: "life_step e \<sigma> = Some \<sigma>' \<Longrightarrow> \<not> concerns n e \<Longrightarrow> \<sigma>' n = \<sigma> n"
  by (cases e) (auto split: if_splits option.splits prod.splits stage.splits)

lemma life_settles: "life_step e \<sigma> = Some \<sigma>' \<Longrightarrow> settles n e \<Longrightarrow> \<exists>sid. \<sigma>' n = Some (sid, Settled)"
  by (cases e) (auto split: if_splits option.splits prod.splits stage.splits)

lemma life_settled_silent: "\<sigma> n = Some (sid, Settled) \<Longrightarrow> life_step e \<sigma> = Some \<sigma>' \<Longrightarrow> \<not> concerns n e \<and> \<sigma>' n = Some (sid, Settled)"
  by (cases e) (auto split: if_splits option.splits prod.splits stage.splits)

lemma life_settled_stays:
  assumes "life_run es \<sigma> = Some \<sigma>'" "\<sigma> n = Some (sid, Settled)"
  shows "\<forall>e \<in> set es. \<not> concerns n e"
  using assms
proof (induction es arbitrary: \<sigma>)
  case (Cons e es)
  then obtain \<sigma>1 where "life_step e \<sigma> = Some \<sigma>1" "life_run es \<sigma>1 = Some \<sigma>'" by (auto split: bind_splits)
  moreover from this(1) have "\<not> concerns n e \<and> \<sigma>1 n = Some (sid, Settled)"
    using life_settled_silent [of \<sigma> n sid e \<sigma>1] Cons.prems(2) by blast
  ultimately show ?case using Cons.IH by auto
qed simp

text \<open>Sends of a batch, against the times it was put back and whether it still waits.\<close>

lemma life_send_balance:
  assumes "life_run es \<sigma> = Some \<sigma>'"
  shows "length (filter (\<lambda>e. \<exists>sid. e = WasSent sid n) es) + (if \<exists>sid st. \<sigma> n = Some (sid, st) \<and> st \<noteq> Waiting then 1 else 0)
    \<le> length (filter (\<lambda>e. e = WasRequeued n) es) + 1"
  using assms
proof (induction es arbitrary: \<sigma>)
  case (Cons e es)
  then obtain \<sigma>1 where e: "life_step e \<sigma> = Some \<sigma>1" and es: "life_run es \<sigma>1 = Some \<sigma>'" by (auto split: bind_splits)
  note IH = Cons.IH [OF es]
  show ?case
  proof (cases "concerns n e")
    case False
    then have "\<sigma>1 n = \<sigma> n" using life_other [OF e] by blast
    then show ?thesis using IH False by (cases e) auto
  next
    case True
    then show ?thesis using IH e by (cases e) (auto split: if_splits option.splits prod.splits stage.splits)
  qed
qed simp

text \<open>
  C8: No keystroke is delivered twice by accident or reported twice. In any run of the client, once a
  batch has been refused, given up or answered nothing further happens to it: it is not sent, requeued
  or settled again; and it has been handed to a transport at most once more than the number of times a
  worker's refusal put it back.
\<close>

theorem input_settles_once:
  assumes "snd (run_input ops router_new) = before @ e # after" "settles n e"
  shows "(\<forall>e' \<in> set after. \<not> concerns n e')
    \<and> length (filter (\<lambda>e. \<exists>sid. e = WasSent sid n) (before @ e # after))
        \<le> length (filter (\<lambda>e. e = WasRequeued n) (before @ e # after)) + 1"
proof -
  obtain \<sigma> where run: "life_run (before @ e # after) Map.empty = Some \<sigma>"
    using run_tells [of router_new ops] router_new_ok agrees_self [OF router_new_ok(1)] assms(1) by (auto simp: tells_def)
  then obtain \<sigma>1 \<sigma>2 where "life_step e \<sigma>1 = Some \<sigma>2" "life_run after \<sigma>2 = Some \<sigma>"
    by (auto simp: life_run_append split: bind_splits)
  then have "\<forall>e' \<in> set after. \<not> concerns n e'" using life_settles assms(2) life_settled_stays by blast
  then show ?thesis using life_send_balance [OF run, of n] by auto
qed

text \<open>A pane on a Sync socket types one letter; the worker accepts it.\<close>

definition typing_token :: terminal_token where
  "typing_token = token_sync 1 ''socket'' ''epoch'' 1"

definition typing_view :: input_view where
  "typing_view = \<lparr>iv_route = (\<lambda>_. None), iv_generation = (\<lambda>_. Some typing_token), iv_sync_token = Some typing_token,
     iv_terminal_ready = True, iv_worker_fp = (\<lambda>_. None), iv_grant_epoch = (\<lambda>_. None), iv_wire_view_id = (\<lambda>_ _. None)\<rparr>"

definition typing_ops :: "input_op list" where
  "typing_ops = [Keystroke typing_view ''s'' None [97] 10, AnswerOnSync typing_view ''s'' 1 (InputAccepted 1 1) 20]"

lemmas typing_defs = typing_view_def typing_token_def token_sync_def router_new_def lane_def lane_mut_def in_lane_def lane_new_def
  admit_input_def reclaim_lost_route_def is_blocked_def is_holding_def input_destination_def send_startable_def
  dispatch_startable_def startable_def dispatch_batch_def mark_started_def start_pending_def holds_batch_def
  note_admission_def feed_new_def MAX_INPUT_BYTES_def MAX_PENDING_INPUTS_PER_SESSION_def
  MAX_PENDING_INPUT_BYTES_PER_SESSION_def MAX_STARTED_INPUTS_PER_SESSION_def btree_update_def route_epoch_for_def

lemma typing_admitted:
  "handle_terminal_input typing_view ''s'' None [97] 10 router_new =
     (router_new\<lparr>ir_lanes := [(''s'', (lane_new ''s'')\<lparr>il_pending := [\<lparr>pi_session_id = ''s'', pi_view_id = None, pi_input_seq = 1,
        pi_bytes = [97], pi_fence = Some typing_token, pi_started = True, pi_admitted_at_ms = 10, pi_started_at_ms = 10\<rparr>],
        il_pending_bytes := 1\<rparr>)], ir_next_input_seq := 1\<rparr>,
      [SendInput \<lparr>sn_session_id = ''s'', sn_view_id = None, sn_input_seq = 1, sn_bytes = [97], sn_route_epoch = [], sn_token = typing_token\<rparr>], [])"
  by (simp add: handle_terminal_input_def typing_defs Let_def)

lemma typing_answered:
  "handle_input_result typing_view ''s'' 1 (InputAccepted 1 1) 20 (fst (handle_terminal_input typing_view ''s'' None [97] 10 router_new))
     = (router_new\<lparr>ir_lanes := [(''s'', lane_new ''s'')], ir_next_input_seq := 1\<rparr>, [], [], True)"
  unfolding typing_admitted by (simp add: handle_input_result_def route_moved_def settle_def settle_in_def observe_settled_def feed_outcome_def
    send_queued_input_def typing_defs Let_def)

lemma typing_run: "snd (run_input typing_ops router_new) = [WasAdmitted ''s'' 1, WasSent ''s'' 1, WasAnswered 1]"
proof -
  have "reclaim_lost_route typing_view ''s'' 10 router_new = (router_new, False)" by (simp add: reclaim_lost_route_def is_blocked_def lane_def router_new_def)
  moreover have "map_option pi_input_seq (case snd (admit_input ''s'' None [97] 10 router_new) of Ok p \<Rightarrow> Some p | Err _ \<Rightarrow> None) = Some 1"
    by (simp add: typing_defs Let_def)
  ultimately have "keystroke_events typing_view ''s'' None [97] 10 router_new = [WasAdmitted ''s'' 1, WasSent ''s'' 1]"
    by (simp add: keystroke_events_def typing_admitted admitted_def carried_def sends_def split: sum.splits)
  then show ?thesis using typing_answered by (simp add: typing_ops_def result_events_def route_moved_def Let_def case_prod_beta)
qed

theorem input_settles_once_witness:
  "snd (run_input typing_ops router_new) = [WasAdmitted ''s'' 1, WasSent ''s'' 1] @ WasAnswered 1 # []
   \<and> settles 1 (WasAnswered 1)
   \<and> length (filter (\<lambda>e. \<exists>sid. e = WasSent sid 1) ([WasAdmitted ''s'' 1, WasSent ''s'' 1] @ WasAnswered 1 # []))
       \<le> length (filter (\<lambda>e. e = WasRequeued 1) ([WasAdmitted ''s'' 1, WasSent ''s'' 1] @ WasAnswered 1 # [])) + 1"
  using typing_run input_settles_once [of typing_ops "[WasAdmitted ''s'' 1, WasSent ''s'' 1]" "WasAnswered 1" "[]" 1] by simp

end
