(* ===== verification/Client_Deadlines.thy ===== *)
theory Client_Deadlines
  imports Client_Trace
begin

text \<open>
  What the input lanes of every run satisfy: the caps on a lane, and the deadlines the sweep enforces on
  a batch that was sent and on one that is held.
\<close>

section \<open>What a lane keeps\<close>

text \<open>One lane after another: its phase, and every batch it holds is one the other held, some left out.\<close>

definition thinned :: "nat set \<Rightarrow> input_router \<Rightarrow> input_router \<Rightarrow> bool" where
  "thinned gone r r' \<longleftrightarrow> (\<forall>sid l'. lane sid r' = Some l' \<longrightarrow> (\<exists>l. lane sid r = Some l \<and> il_phase l' = il_phase l
     \<and> (\<forall>p \<in> set (il_pending l'). p \<in> set (il_pending l) \<and> pi_input_seq p \<notin> gone)))"

lemma thinned_trans: "thinned a r r' \<Longrightarrow> thinned b r' r'' \<Longrightarrow> thinned (a \<union> b) r r''"
  unfolding thinned_def by (metis Un_iff)

lemma settle_thins:
  assumes "router_ok r" "input_outcome_seq outcome = n"
  shows "thinned {n} r (fst (settle n outcome r))"
proof (cases "status r n")
  case None
  then have "pi_input_seq p \<noteq> n" if "lane sid r = Some l" "p \<in> set (il_pending l)" for sid l p
    using pending_status [OF assms(1) that] by auto
  with None settle_exact [OF assms] show ?thesis by (auto simp: thinned_def)
next
  case (Some x)
  obtain sid st where x: "x = (sid, st)" by (cases x)
  have "pi_input_seq p \<noteq> n" if "lane j r = Some l" "p \<in> set (il_pending l)" "j \<noteq> sid" for j l p
    using pending_status [OF assms(1) that(1,2)] Some x that(3) by auto
  with Some x settle_exact [OF assms] show ?thesis
    by (auto simp: thinned_def lane_in_lane split: if_splits)
qed

lemma settle_each_thins:
  assumes "router_ok r" "distinct ns" "\<forall>n \<in> set ns. status r n \<noteq> None" "\<forall>n. input_outcome_seq (f n) = n"
  shows "thinned (set ns) r (fst (settle_each f ns r))"
  using assms
proof (induction ns arbitrary: r)
  case Nil
  then show ?case by (simp add: settle_each_def thinned_def)
next
  case (Cons n ns)
  let ?r = "fst (settle n (f n) r)"
  obtain sid st where "status r n = Some (sid, st)" using Cons.prems(3) by fastforce
  then have one: "removed {n} r ?r" using settle_removes Cons.prems by blast
  have "thinned (set ns) ?r (fst (settle_each f ns ?r))"
    by (rule Cons.IH) (use one Cons.prems in \<open>auto simp: removed_def\<close>)
  with settle_thins [OF Cons.prems(1), of "f n" n] Cons.prems(4) thinned_trans show ?case
    by (fastforce simp: settle_each_def)
qed

lemma sweep_held_thins:
  assumes "router_ok r"
  shows "thinned {} r (fst (sweep_held now r))"
    "lane sid (fst (sweep_held now r)) = Some l \<Longrightarrow> p \<in> set (il_pending l) \<Longrightarrow> \<not> pi_started p \<Longrightarrow> il_phase l \<noteq> Sending
       \<Longrightarrow> now - pi_admitted_at_ms p < HELD_INPUT_ADMISSION_TIMEOUT_MS"
proof -
  let ?P = "\<lambda>l p. (il_phase l \<noteq> Sending \<or> \<not> list_ex pi_started (il_pending l))
        \<and> \<not> pi_started p \<and> HELD_INPUT_ADMISSION_TIMEOUT_MS \<le> now - pi_admitted_at_ms p"
  let ?ns = "map pi_input_seq (chosen ?P r)"
  have t: "thinned (set ?ns) r (fst (sweep_held now r))"
    unfolding sweep_held_chosen
    by (rule settle_each_thins [OF assms chosen_distinct [OF assms]]) (use chosen_status [OF assms] in fastforce)+
  then show "thinned {} r (fst (sweep_held now r))" unfolding thinned_def by blast
  assume l: "lane sid (fst (sweep_held now r)) = Some l" and p: "p \<in> set (il_pending l)" "\<not> pi_started p" "il_phase l \<noteq> Sending"
  obtain l0 where l0: "lane sid r = Some l0" "il_phase l = il_phase l0" "p \<in> set (il_pending l0)" "pi_input_seq p \<notin> set ?ns"
    using t l p(1) unfolding thinned_def by blast
  then have "p \<notin> set (chosen ?P r)" by auto
  then have "\<not> ?P l0 p" using chosen_in [OF assms, of p ?P] l0(1,3) by blast
  then show "now - pi_admitted_at_ms p < HELD_INPUT_ADMISSION_TIMEOUT_MS" using l0(2) p(2,3) by auto
qed

lemma sweep_unanswered_thins:
  assumes "router_ok r"
  shows "thinned {} r (fst (sweep_unanswered now r))"
    "lane sid (fst (sweep_unanswered now r)) = Some l \<Longrightarrow> p \<in> set (il_pending l) \<Longrightarrow> pi_started p
       \<Longrightarrow> now - pi_started_at_ms p < INPUT_RESULT_TIMEOUT_MS"
proof -
  let ?P = "\<lambda>l :: client_lane. \<lambda>p. pi_started p \<and> INPUT_RESULT_TIMEOUT_MS \<le> now - pi_started_at_ms p"
  let ?ns = "map pi_input_seq (chosen ?P r)"
  have t: "thinned (set ?ns) r (fst (sweep_unanswered now r))"
    unfolding sweep_unanswered_chosen
    by (rule settle_each_thins [OF assms chosen_distinct [OF assms]]) (use chosen_status [OF assms] in fastforce)+
  then show "thinned {} r (fst (sweep_unanswered now r))" unfolding thinned_def by blast
  assume l: "lane sid (fst (sweep_unanswered now r)) = Some l" and p: "p \<in> set (il_pending l)" "pi_started p"
  obtain l0 where l0: "lane sid r = Some l0" "p \<in> set (il_pending l0)" "pi_input_seq p \<notin> set ?ns"
    using t l p(1) unfolding thinned_def by blast
  then have "p \<notin> set (chosen ?P r)" by auto
  then show "now - pi_started_at_ms p < INPUT_RESULT_TIMEOUT_MS" using chosen_in [OF assms, of p ?P] l0(1,2) p(2) by force
qed

section \<open>Deadlines\<close>

text \<open>No batch on its way, and none held, is past its deadline.\<close>

definition in_time :: "nat \<Rightarrow> input_router \<Rightarrow> bool" where
  "in_time now r \<longleftrightarrow> (\<forall>sid l p. lane sid r = Some l \<longrightarrow> p \<in> set (il_pending l) \<longrightarrow>
     (pi_started p \<longrightarrow> now - pi_started_at_ms p < INPUT_RESULT_TIMEOUT_MS)
     \<and> (\<not> pi_started p \<longrightarrow> il_phase l \<noteq> Sending \<longrightarrow> now - pi_admitted_at_ms p < HELD_INPUT_ADMISSION_TIMEOUT_MS))"

lemma change_first_set: "p \<in> set (change_first n f ps) \<Longrightarrow> p \<in> set ps \<or> (\<exists>q \<in> set ps. p = f q)"
  by (induction ps) (auto split: if_splits)

lemma mark_started_lanes:
  assumes "lane sid (fst (mark_started n token now r)) = Some l'" "distinct (map fst (ir_lanes r))"
  shows "\<exists>l. lane sid r = Some l \<and> (l' = l \<or> l' = changed n (start_pending token now) l)"
  using assms start_in_lanes_exact [OF assms(2), of n "start_pending token now"]
  by (fastforce simp: mark_started_def lane_def btree_update_def case_prod_beta dest!: map_of_SomeD split: option.splits if_splits)

lemma mark_started_keys [simp]: "map fst (ir_lanes (fst (mark_started n token now r))) = map fst (ir_lanes r)"
proof -
  have "map fst (fst (start_in_lanes n f m)) = map fst m" for f m
    by (induction m) (auto split: prod.split)
  then show ?thesis by (simp add: mark_started_def case_prod_beta)
qed

definition on_time :: "nat \<Rightarrow> input_router \<Rightarrow> bool" where
  "on_time now r \<longleftrightarrow> in_time now r \<and> distinct (map fst (ir_lanes r))"

lemma mark_started_on_time:
  assumes "on_time now r"
  shows "on_time now (fst (mark_started n token now r))"
proof -
  have "in_time now (fst (mark_started n token now r))"
    unfolding in_time_def
  proof (intro allI impI)
    fix sid l' p assume l': "lane sid (fst (mark_started n token now r)) = Some l'" and p: "p \<in> set (il_pending l')"
    obtain l where l: "lane sid r = Some l" "l' = l \<or> l' = changed n (start_pending token now) l"
      using mark_started_lanes [OF l'] assms by (auto simp: on_time_def)
    then have "il_phase l' = il_phase l" by (auto simp: changed_def)
    moreover have "p \<in> set (il_pending l) \<or> (\<exists>q \<in> set (il_pending l). p = start_pending token now q)"
      using l(2) p change_first_set by (fastforce simp: changed_def)
    moreover have "0 < INPUT_RESULT_TIMEOUT_MS" by (simp add: INPUT_RESULT_TIMEOUT_MS_def)
    ultimately show "(pi_started p \<longrightarrow> now - pi_started_at_ms p < INPUT_RESULT_TIMEOUT_MS)
       \<and> (\<not> pi_started p \<longrightarrow> il_phase l' \<noteq> Sending \<longrightarrow> now - pi_admitted_at_ms p < HELD_INPUT_ADMISSION_TIMEOUT_MS)"
      using assms l(1) unfolding on_time_def in_time_def by (auto simp: start_pending_def)
  qed
  with assms show ?thesis by (simp add: on_time_def)
qed

lemma dispatch_on_time:
  assumes "on_time now r"
  shows "on_time now (fst (dispatch_startable w sid token now r))"
proof -
  have "on_time now (fst (foldl (\<lambda>(r, out) pending. let (r, sent) = dispatch_batch w pending token now r in (r, out @ [sent])) (r, out) ps))"
    if "on_time now r" for r out ps
    using that
  proof (induction ps arbitrary: r out)
    case (Cons p ps)
    then have "on_time now (fst (dispatch_batch w p token now r))" by (simp add: dispatch_batch_def mark_started_on_time)
    then show ?case using Cons.IH by (simp add: case_prod_beta Let_def)
  qed simp
  then show ?thesis using assms by (simp add: dispatch_startable_def)
qed

lemma send_queued_on_time: "on_time now r \<Longrightarrow> on_time now (fst (send_queued_input v sid now r))"
  using dispatch_on_time by (simp add: send_queued_input_def send_startable_def case_prod_beta split: option.split)

lemma sweep_input_on_time:
  assumes "router_ok r"
  shows "on_time now (fst (sweep_input v now r))"
proof -
  define step where "step = (\<lambda>(r, out) sid. let (r, out') = send_queued_input v sid now r in (r, out @ out'))"
  have fold: "on_time now (fst (foldl step (r, out) sids))" if "on_time now r" for r out sids
    using that
  proof (induction sids arbitrary: r out)
    case (Cons sid sids)
    then have "on_time now (fst (send_queued_input v sid now r))" by (simp add: send_queued_on_time)
    then show ?case using Cons.IH by (simp add: step_def case_prod_beta)
  qed simp
  obtain r1 refused where r1: "sweep_held now r = (r1, refused)" by (cases "sweep_held now r")
  obtain r2 lost where r2: "sweep_unanswered now r1 = (r2, lost)" by (cases "sweep_unanswered now r1")
  have ok1: "router_ok r1" using tells_okD [OF sweep_held_tells assms, of now] by (simp add: r1)
  have ok2: "router_ok r2" using tells_okD [OF sweep_unanswered_tells ok1, of now] by (simp add: r2)
  have "in_time now r2"
    unfolding in_time_def
  proof (intro allI impI conjI)
    fix sid l p assume l: "lane sid r2 = Some l" and p: "p \<in> set (il_pending l)"
    show "now - pi_started_at_ms p < INPUT_RESULT_TIMEOUT_MS" if "pi_started p"
      using sweep_unanswered_thins(2) [OF ok1, of sid now l p] l p that by (simp add: r2)
    show "now - pi_admitted_at_ms p < HELD_INPUT_ADMISSION_TIMEOUT_MS" if "\<not> pi_started p" "il_phase l \<noteq> Sending"
    proof -
      obtain l1 where "lane sid r1 = Some l1" "il_phase l = il_phase l1" "p \<in> set (il_pending l1)"
        using sweep_unanswered_thins(1) [OF ok1, of now] l p unfolding thinned_def r2 fst_conv by blast
      then show ?thesis using sweep_held_thins(2) [OF assms, of sid now l1 p] that by (simp add: r1)
    qed
  qed
  moreover have "distinct (map fst (ir_lanes r2))" using ok2 key_sorted_distinct unfolding router_ok_def by blast
  moreover have "sweep_input v now r = (let (r, out) = foldl step (r2, []) (queued_sessions r2) in (r, out, refused @ lost))"
    by (simp add: sweep_input_def r1 r2 step_def)
  ultimately show ?thesis using fold by (simp add: on_time_def case_prod_beta)
qed

lemma run_ok: "router_ok (fst (run_input ops router_new))"
  by (rule tells_okD [OF run_tells router_new_ok(1)])

text \<open>
  C25: No keystroke waits for ever. Whatever the client has been through, one sweep leaves no batch that
  was sent the result timeout ago or earlier, and none held back, on a lane that is not sending, the
  hold timeout ago or earlier; what it ended is told as a loss or a refusal, and the caps on a lane
  stand: its batches, their bytes, which are counted exactly, and those in flight.
\<close>

theorem sweep_ends_waits:
  assumes "r = fst (run_input ops router_new)" "lane sid (fst (sweep_input v now r)) = Some l"
  shows "(\<forall>p \<in> set (il_pending l). pi_started p \<longrightarrow> now - pi_started_at_ms p < INPUT_RESULT_TIMEOUT_MS)
    \<and> (il_phase l \<noteq> Sending \<longrightarrow> (\<forall>p \<in> set (il_pending l). \<not> pi_started p \<longrightarrow> now - pi_admitted_at_ms p < HELD_INPUT_ADMISSION_TIMEOUT_MS))
    \<and> length (il_pending l) \<le> MAX_PENDING_INPUTS_PER_SESSION
    \<and> il_pending_bytes l = sum_list (map (length \<circ> pi_bytes) (il_pending l))
    \<and> il_pending_bytes l \<le> MAX_PENDING_INPUT_BYTES_PER_SESSION
    \<and> length (filter pi_started (il_pending l)) \<le> MAX_STARTED_INPUTS_PER_SESSION"
proof -
  have ok: "router_ok r" using run_ok assms(1) by simp
  have "on_time now (fst (sweep_input v now r))" by (rule sweep_input_on_time [OF ok])
  moreover have "lane_ok sid l" using lane_okD(1) [OF tells_okD [OF sweep_tells ok] assms(2)] .
  ultimately show ?thesis using assms(2) unfolding on_time_def in_time_def lane_ok_def lane_bytes_def by auto
qed

lemma typing_swept:
  "map_option (map pi_input_seq \<circ> il_pending) (lane ''s'' (fst (sweep_input typing_view 100 (fst (run_input (take 1 typing_ops) router_new))))) = Some [1]"
proof -
  have "fst (run_input (take 1 typing_ops) router_new) = fst (handle_terminal_input typing_view ''s'' None [97] 10 router_new)"
    by (simp add: typing_ops_def)
  then show ?thesis unfolding typing_admitted
    by (simp add: sweep_input_def sweep_held_def sweep_unanswered_def held_too_long_def unanswered_def settle_each_def
      queued_sessions_def INPUT_RESULT_TIMEOUT_MS_def HELD_INPUT_ADMISSION_TIMEOUT_MS_def lane_def lane_new_def)
qed

theorem sweep_ends_waits_witness:
  "(case lane ''s'' (fst (sweep_input typing_view 100 (fst (run_input (take 1 typing_ops) router_new)))) of
      None \<Rightarrow> False
    | Some l \<Rightarrow> map pi_input_seq (il_pending l) = [1] \<and> length (filter pi_started (il_pending l)) \<le> MAX_STARTED_INPUTS_PER_SESSION
        \<and> il_pending_bytes l \<le> MAX_PENDING_INPUT_BYTES_PER_SESSION)"
proof -
  obtain l where l: "lane ''s'' (fst (sweep_input typing_view 100 (fst (run_input (take 1 typing_ops) router_new)))) = Some l"
    "map pi_input_seq (il_pending l) = [1]" using typing_swept by (auto simp del: take_Suc_Cons)
  from sweep_ends_waits [OF refl l(1)] l show ?thesis by simp
qed

end
