(* ===== verification/Worker_Barrier.thy ===== *)
theory Worker_Barrier
  imports Roost_Prelude "HOL-Library.Word"
begin

text \<open>
  The worker's coordinator link (\<open>roost-worker/src/link_barrier.rs\<close>): the states a link moves through
  before it carries live traffic, and the durable events it replays one at a time. Sequences are drawn
  one by one from a 64-bit counter that wraps (\<open>bump64\<close>) where the code adds plainly and saturates where
  the code says so. Which states the barrier passes through is proved for every run of calls; that
  sequences increase is proved for the runs whose reassigned sequences are fresh and whose counter stays
  below its last value, and \<open>stale_reassignment_repeats\<close> and \<open>exhausted_counter_restarts\<close> show why.
\<close>

section \<open>The pump\<close>

datatype barrier = LinkIdle | LinkOpen | LinkHello | LinkReplay | LinkSnapshot | LinkLive

definition allows_live_traffic :: "barrier \<Rightarrow> bool" where
  "allows_live_traffic b \<longleftrightarrow> b = LinkLive"

definition allows_durable_write :: "barrier \<Rightarrow> bool" where
  "allows_durable_write b \<longleftrightarrow> b = LinkLive"

datatype action = Wait | SendHello | WriteDurable nat | WriteSnapshot | IgnoredAck nat

record pending_event =
  pe_seq :: nat
  pe_bytes :: "8 word list"

record pump =
  pu_barrier :: barrier
  pu_durable :: "pending_event list"
  pu_in_flight :: "nat option"
  pu_replay_again :: bool
  pu_snapshot_seq :: "nat option"
  pu_snapshot_blocked :: bool
  pu_next_seq :: nat
  pu_acked :: nat

datatype durable_refusal = UnusableSequence nat | AlreadyPassed nat nat

definition pump_new :: pump where
  "pump_new = \<lparr>pu_barrier = LinkIdle, pu_durable = [], pu_in_flight = None, pu_replay_again = False,
     pu_snapshot_seq = None, pu_snapshot_blocked = False, pu_next_seq = 1, pu_acked = 0\<rparr>"

definition advance_pump :: "pump \<Rightarrow> pump \<times> action" where
  "advance_pump p =
     (case pu_barrier p of
        LinkLive \<Rightarrow>
          (if pu_in_flight p = None \<and> pu_durable p \<noteq> []
           then (p\<lparr>pu_in_flight := Some (pe_seq (hd (pu_durable p)))\<rparr>, WriteDurable (pe_seq (hd (pu_durable p))))
           else (p, Wait))
      | LinkReplay \<Rightarrow>
          (if pu_in_flight p = None \<and> pu_durable p \<noteq> []
           then (p\<lparr>pu_in_flight := Some (pe_seq (hd (pu_durable p)))\<rparr>, WriteDurable (pe_seq (hd (pu_durable p))))
           else if pu_durable p = [] \<and> \<not> pu_snapshot_blocked p
           then (p\<lparr>pu_barrier := LinkSnapshot, pu_snapshot_seq := Some (pu_next_seq p), pu_next_seq := bump64 (pu_next_seq p)\<rparr>, WriteSnapshot)
           else (p, Wait))
      | _ \<Rightarrow> (p, Wait))"

definition note_arrival :: "pump \<Rightarrow> pump" where
  "note_arrival p = (if pu_barrier p = LinkSnapshot then p\<lparr>pu_replay_again := True\<rparr> else p)"

definition enqueue_durable_at :: "nat \<Rightarrow> 8 word list \<Rightarrow> pump \<Rightarrow> pump \<times> (durable_refusal, action) result" where
  "enqueue_durable_at seq bytes p =
     (if seq = 0 then (p, Err (UnusableSequence seq))
      else if seq < pu_next_seq p then (p, Err (AlreadyPassed seq (pu_next_seq p)))
      else
        let p = note_arrival (p\<lparr>pu_next_seq := bump64 seq, pu_durable := pu_durable p @ [\<lparr>pe_seq = seq, pe_bytes = bytes\<rparr>]\<rparr>);
            (p, a) = advance_pump p
        in (p, Ok a))"

definition on_open :: "pump \<Rightarrow> pump \<times> action" where
  "on_open p = (p\<lparr>pu_barrier := LinkOpen, pu_in_flight := None, pu_snapshot_seq := None\<rparr>, SendHello)"

definition enqueue_durable :: "8 word list \<Rightarrow> pump \<Rightarrow> pump \<times> action" where
  "enqueue_durable bytes p =
     advance_pump (note_arrival (p\<lparr>pu_next_seq := bump64 (pu_next_seq p),
       pu_durable := pu_durable p @ [\<lparr>pe_seq = pu_next_seq p, pe_bytes = bytes\<rparr>]\<rparr>))"

definition note_durable_appeared :: "pump \<Rightarrow> pump \<times> action" where
  "note_durable_appeared p = advance_pump (note_arrival p)"

definition set_snapshot_blocked :: "bool \<Rightarrow> pump \<Rightarrow> pump \<times> action" where
  "set_snapshot_blocked blocked p =
     (let was = pu_snapshot_blocked p; p = p\<lparr>pu_snapshot_blocked := blocked\<rparr>
      in if \<not> was \<and> blocked then note_durable_appeared p
         else if was \<and> \<not> blocked then advance_pump p
         else (p, Wait))"

definition reassign_snapshot_sequence :: "nat \<Rightarrow> pump \<Rightarrow> pump" where
  "reassign_snapshot_sequence seq p =
     (if pu_barrier p = LinkSnapshot \<and> pu_snapshot_seq p \<noteq> None
      then p\<lparr>pu_snapshot_seq := Some seq, pu_next_seq := max (pu_next_seq p) (saturating_add64 seq 1)\<rparr>
      else p)"

definition abandon_snapshot :: "pump \<Rightarrow> pump" where
  "abandon_snapshot p =
     (if pu_barrier p = LinkSnapshot
      then
        let drawn = pu_snapshot_seq p;
            p = p\<lparr>pu_barrier := LinkReplay, pu_snapshot_seq := None\<rparr>;
            p = (case drawn of
                   Some d \<Rightarrow> if saturating_add64 d 1 = pu_next_seq p then p\<lparr>pu_next_seq := d\<rparr> else p
                 | None \<Rightarrow> p)
        in p\<lparr>pu_replay_again := False\<rparr>
      else p)"

definition on_hello_ack :: "pump \<Rightarrow> pump \<times> action" where
  "on_hello_ack p = advance_pump (p\<lparr>pu_barrier := LinkReplay\<rparr>)"

definition on_event_ack :: "nat \<Rightarrow> pump \<Rightarrow> pump \<times> action" where
  "on_event_ack seq p =
     (if pu_in_flight p = Some seq
      then advance_pump (p\<lparr>pu_in_flight := None, pu_durable := tl (pu_durable p), pu_acked := max (pu_acked p) seq\<rparr>)
      else (p, IgnoredAck seq))"

definition on_snapshot_ack :: "nat \<Rightarrow> pump \<Rightarrow> pump \<times> action" where
  "on_snapshot_ack seq p =
     (if pu_snapshot_seq p = Some seq
      then
        let p = p\<lparr>pu_snapshot_seq := None\<rparr>
        in advance_pump (if pu_replay_again p then p\<lparr>pu_replay_again := False, pu_barrier := LinkReplay\<rparr>
                         else p\<lparr>pu_barrier := LinkLive\<rparr>)
      else (p, IgnoredAck seq))"

definition on_disconnect :: "pump \<Rightarrow> pump \<times> barrier" where
  "on_disconnect p =
     (p\<lparr>pu_barrier := LinkIdle, pu_in_flight := None, pu_snapshot_seq := None, pu_replay_again := False\<rparr>, pu_barrier p)"

section \<open>The machine\<close>

text \<open>
  Every call the link's owner makes, in any order and with any argument.
\<close>

datatype pump_op =
    Opened
  | HelloAck
  | Enqueued "8 word list"
  | EnqueuedAt nat "8 word list"
  | Appeared
  | Blocked_Set bool
  | Reassigned nat
  | Abandoned
  | EventAck nat
  | SnapshotAck nat
  | Disconnected

fun exec_pump :: "pump_op \<Rightarrow> pump \<Rightarrow> pump \<times> action" where
  "exec_pump Opened p = on_open p"
| "exec_pump HelloAck p = on_hello_ack p"
| "exec_pump (Enqueued bytes) p = enqueue_durable bytes p"
| "exec_pump (EnqueuedAt seq bytes) p =
     (case enqueue_durable_at seq bytes p of (p, Ok a) \<Rightarrow> (p, a) | (p, Err _) \<Rightarrow> (p, Wait))"
| "exec_pump Appeared p = note_durable_appeared p"
| "exec_pump (Blocked_Set blocked) p = set_snapshot_blocked blocked p"
| "exec_pump (Reassigned seq) p =
     (reassign_snapshot_sequence seq p, Wait)"
| "exec_pump Abandoned p = (abandon_snapshot p, Wait)"
| "exec_pump (EventAck seq) p = on_event_ack seq p"
| "exec_pump (SnapshotAck seq) p = on_snapshot_ack seq p"
| "exec_pump Disconnected p = (fst (on_disconnect p), Wait)"

definition run_pump :: "pump_op list \<Rightarrow> pump \<Rightarrow> pump" where
  "run_pump ops p = fold (\<lambda>x p. fst (exec_pump x p)) ops p"

text \<open>What one call admitted and what one call took off the queue as confirmed.\<close>

definition admitted_by :: "pump_op \<Rightarrow> pump \<Rightarrow> pending_event list" where
  "admitted_by x p =
     (case x of
        Enqueued bytes \<Rightarrow> [\<lparr>pe_seq = pu_next_seq p, pe_bytes = bytes\<rparr>]
      | EnqueuedAt seq bytes \<Rightarrow> if seq = 0 \<or> seq < pu_next_seq p then [] else [\<lparr>pe_seq = seq, pe_bytes = bytes\<rparr>]
      | _ \<Rightarrow> [])"

definition confirmed_by :: "pump_op \<Rightarrow> pump \<Rightarrow> pending_event list" where
  "confirmed_by x p =
     (case x of EventAck seq \<Rightarrow> if pu_in_flight p = Some seq then [hd (pu_durable p)] else [] | _ \<Rightarrow> [])"

section \<open>The invariant\<close>

text \<open>Where the barrier stands and what is in flight: kept by every call.\<close>

definition pump_shape :: "pump \<Rightarrow> bool" where
  "pump_shape p \<longleftrightarrow>
     (\<forall>s. pu_in_flight p = Some s \<longrightarrow> pu_durable p \<noteq> [] \<and> pe_seq (hd (pu_durable p)) = s \<and> pu_barrier p \<in> {LinkReplay, LinkLive})
     \<and> (pu_barrier p = LinkSnapshot \<longrightarrow> pu_snapshot_seq p \<noteq> None \<and> pu_in_flight p = None
          \<and> (\<not> pu_replay_again p \<longrightarrow> pu_durable p = [] \<and> \<not> pu_snapshot_blocked p))
     \<and> (pu_snapshot_seq p \<noteq> None \<longrightarrow> pu_barrier p = LinkSnapshot \<or> pu_barrier p = LinkReplay \<and> pu_replay_again p)"

text \<open>The numbers: kept by the calls that meet the guard below.\<close>

definition pump_ok :: "pump \<Rightarrow> bool" where
  "pump_ok p \<longleftrightarrow> pump_shape p
     \<and> sorted_wrt (<) (map pe_seq (pu_durable p)) \<and> (\<forall>e \<in> set (pu_durable p). 0 < pe_seq e \<and> pe_seq e < pu_next_seq p)
     \<and> 0 < pu_next_seq p \<and> (pu_barrier p = LinkSnapshot \<longrightarrow> 1 < pu_next_seq p)
     \<and> (\<forall>d. pu_snapshot_seq p = Some d \<longrightarrow> d \<notin> pe_seq ` set (pu_durable p) \<and> d < pu_next_seq p)"

text \<open>
  What the owner of the link promises of a call. A sequence it reassigns to the snapshot is one the durable
  outbox drew for it, so no waiting row carries it (\<open>durable_sync.rs\<close>, \<open>authorise_snapshot\<close>); and the
  64-bit counter has a value left to draw.
\<close>

definition pump_admissible :: "pump_op \<Rightarrow> pump \<Rightarrow> bool" where
  "pump_admissible x p \<longleftrightarrow> pu_next_seq p < u64_max
     \<and> (case x of
          Reassigned seq \<Rightarrow> seq < u64_max \<and> seq \<notin> pe_seq ` set (pu_durable p)
        | EnqueuedAt seq bytes \<Rightarrow> seq < u64_max
        | _ \<Rightarrow> True)"

definition fresh_run :: "pump_op list \<Rightarrow> pump \<Rightarrow> bool" where
  "fresh_run = guarded_run pump_admissible (\<lambda>x p. fst (exec_pump x p))"

lemma pump_new_ok: "pump_ok pump_new"
  by (simp add: pump_ok_def pump_shape_def pump_new_def)

lemma pump_ok_shape [dest]: "pump_ok p \<Longrightarrow> pump_shape p"
  by (simp add: pump_ok_def)

lemma advance_shape: "pump_shape p \<Longrightarrow> pump_shape (fst (advance_pump p))"
  by (cases "pu_durable p") (auto simp: pump_shape_def advance_pump_def split: barrier.splits)

lemma hello_shape: "pump_shape p \<Longrightarrow> pump_shape (fst (on_hello_ack p))"
  by (cases "pu_durable p"; cases "pu_barrier p") (auto simp: pump_shape_def on_hello_ack_def advance_pump_def)

lemma appended_shape:
  "pump_shape p \<Longrightarrow> pump_shape (note_arrival (p\<lparr>pu_next_seq := n, pu_durable := pu_durable p @ [e]\<rparr>))"
  by (auto simp: pump_shape_def note_arrival_def hd_append)

lemma blocked_shape: "pump_shape p \<Longrightarrow> pump_shape (fst (set_snapshot_blocked b p))"
proof -
  assume ok: "pump_shape p"
  have raised: "pump_shape (note_arrival (p\<lparr>pu_snapshot_blocked := True\<rparr>))" using ok by (auto simp: pump_shape_def note_arrival_def)
  have cleared: "pump_shape (p\<lparr>pu_snapshot_blocked := False\<rparr>)" using ok by (auto simp: pump_shape_def)
  have same: "pu_snapshot_blocked p \<Longrightarrow> pump_shape (p\<lparr>pu_snapshot_blocked := True\<rparr>)" using ok by (auto simp: pump_shape_def)
  show ?thesis using advance_shape [OF raised] advance_shape [OF cleared] cleared same
    by (cases b; cases "pu_snapshot_blocked p") (simp_all add: set_snapshot_blocked_def note_durable_appeared_def Let_def)
qed

lemma event_ack_shape: "pump_shape p \<Longrightarrow> pump_shape (fst (on_event_ack seq p))"
proof (cases "pu_in_flight p = Some seq")
  case True
  assume "pump_shape p"
  then have "pump_shape (p\<lparr>pu_in_flight := None, pu_durable := tl (pu_durable p), pu_acked := max (pu_acked p) seq\<rparr>)"
    using True by (auto simp: pump_shape_def)
  then show ?thesis using True advance_shape by (simp add: on_event_ack_def)
qed (simp add: on_event_ack_def)

lemma snapshot_ack_shape: "pump_shape p \<Longrightarrow> pump_shape (fst (on_snapshot_ack seq p))"
proof (cases "pu_snapshot_seq p = Some seq")
  case True
  assume "pump_shape p"
  then have "pump_shape (if pu_replay_again p then p\<lparr>pu_snapshot_seq := None, pu_replay_again := False, pu_barrier := LinkReplay\<rparr>
      else p\<lparr>pu_snapshot_seq := None, pu_barrier := LinkLive\<rparr>)"
    using True by (auto simp: pump_shape_def)
  then show ?thesis using True advance_shape by (auto simp: on_snapshot_ack_def Let_def split: if_splits)
qed (simp add: on_snapshot_ack_def)

lemma exec_pump_shape:
  assumes "pump_shape p"
  shows "pump_shape (fst (exec_pump x p))"
proof (cases x)
  case (EnqueuedAt seq bytes)
  then show ?thesis using assms by (simp add: enqueue_durable_at_def Let_def case_prod_beta advance_shape appended_shape)
next
  case Appeared
  have "pump_shape (note_arrival p)" using assms by (auto simp: pump_shape_def note_arrival_def)
  with Appeared show ?thesis by (simp add: note_durable_appeared_def advance_shape)
next
  case Abandoned
  then show ?thesis using assms by (auto simp: pump_shape_def abandon_snapshot_def Let_def split: option.splits)
next
  case (Reassigned seq)
  then show ?thesis using assms by (auto simp: pump_shape_def reassign_snapshot_sequence_def)
next
  case Opened
  then show ?thesis using assms by (auto simp: pump_shape_def on_open_def)
next
  case Disconnected
  then show ?thesis by (auto simp: pump_shape_def on_disconnect_def)
qed (use assms in \<open>simp_all add: hello_shape enqueue_durable_def advance_shape appended_shape blocked_shape event_ack_shape snapshot_ack_shape\<close>)

interpretation link_shape: invariant_machine pump_shape "\<lambda>_. True" "\<lambda>x p. fst (exec_pump x p)"
  by unfold_locales (rule exec_pump_shape)

lemma reachable_shape: "pump_shape (run_pump ops pump_new)"
  unfolding run_pump_def by (intro link_shape.run_invar) (simp_all add: list_all_iff pump_shape_def pump_new_def)

text \<open>One call draws at most one number, and none once something waits.\<close>

lemma advance_ok: "pump_ok p \<Longrightarrow> pu_durable p \<noteq> [] \<or> pu_next_seq p < u64_max \<Longrightarrow> pump_ok (fst (advance_pump p))"
  by (cases "pu_durable p") (auto simp: pump_ok_def pump_shape_def advance_pump_def split: barrier.splits)

lemma advance_keeps [simp]: "pu_durable (fst (advance_pump p)) = pu_durable p"
  by (simp add: advance_pump_def split: barrier.split)

lemma arrival_durable [simp]: "pu_durable (note_arrival p) = pu_durable p"
  by (simp add: note_arrival_def)

lemma appended_ok:
  assumes "pump_ok p" "pu_next_seq p \<le> seq" "seq < u64_max"
  shows "pump_ok (note_arrival (p\<lparr>pu_next_seq := bump64 seq, pu_durable := pu_durable p @ [\<lparr>pe_seq = seq, pe_bytes = bytes\<rparr>]\<rparr>))"
  using assms appended_shape [of p "\<lparr>pe_seq = seq, pe_bytes = bytes\<rparr>" "seq + 1"] by (auto simp: pump_ok_def note_arrival_def sorted_wrt_append split: if_splits)

lemma hello_ok: "pump_ok p \<Longrightarrow> pu_next_seq p < u64_max \<Longrightarrow> pump_ok (fst (on_hello_ack p))"
  using hello_shape [of p] by (auto simp: pump_ok_def on_hello_ack_def advance_pump_def)

lemma blocked_ok: "pump_ok p \<Longrightarrow> pu_next_seq p < u64_max \<Longrightarrow> pump_ok (fst (set_snapshot_blocked b p))"
  using blocked_shape [of p b]
  by (auto simp: pump_ok_def set_snapshot_blocked_def note_durable_appeared_def note_arrival_def advance_pump_def Let_def split: barrier.splits if_splits)

lemma appeared_ok: "pump_ok p \<Longrightarrow> pu_next_seq p < u64_max \<Longrightarrow> pump_ok (fst (note_durable_appeared p))"
  using exec_pump_shape [of p Appeared] by (auto simp: pump_ok_def note_durable_appeared_def note_arrival_def advance_pump_def split: barrier.splits if_splits)

lemma confirmed_ok:
  assumes "pump_ok p" "pu_in_flight p = Some seq"
  shows "pump_ok (p\<lparr>pu_in_flight := None, pu_durable := tl (pu_durable p), pu_acked := max (pu_acked p) seq\<rparr>)"
  using assms by (cases "pu_durable p") (auto simp: pump_ok_def pump_shape_def)

lemma event_ack_ok: "pump_ok p \<Longrightarrow> pu_next_seq p < u64_max \<Longrightarrow> pump_ok (fst (on_event_ack seq p))"
  using advance_ok [OF confirmed_ok, of p seq] by (simp add: on_event_ack_def)

lemma snapshot_ack_ok: "pump_ok p \<Longrightarrow> pu_next_seq p < u64_max \<Longrightarrow> pump_ok (fst (on_snapshot_ack seq p))"
  using snapshot_ack_shape [of p seq] by (auto simp: pump_ok_def on_snapshot_ack_def advance_pump_def Let_def)

lemma reassign_ok:
  assumes "pump_ok p" "seq < u64_max" "seq \<notin> pe_seq ` set (pu_durable p)"
  shows "pump_ok (reassign_snapshot_sequence seq p)"
proof -
  have "saturating_add64 seq 1 = seq + 1" using assms(2) by (intro saturating_add64_exact) simp
  then show ?thesis using assms exec_pump_shape [of p "Reassigned seq"]
    by (auto simp: reassign_snapshot_sequence_def pump_ok_def less_max_iff_disj)
qed

lemma abandon_ok:
  assumes "pump_ok p"
  shows "pump_ok (abandon_snapshot p)"
proof (cases "pu_barrier p = LinkSnapshot")
  case True
  then obtain d where d: "pu_snapshot_seq p = Some d" using assms by (auto simp: pump_ok_def pump_shape_def)
  have "pe_seq e < d" if "saturating_add64 d 1 = pu_next_seq p" "e \<in> set (pu_durable p)" for e
  proof -
    have "pe_seq e < pu_next_seq p" "pe_seq e \<noteq> d" using assms d that(2) by (auto simp: pump_ok_def)
    moreover have "pu_next_seq p \<le> d + 1" using that(1) saturating_add64_le [of d 1] by simp
    ultimately show ?thesis by simp
  qed
  moreover have "0 < d" if "saturating_add64 d 1 = pu_next_seq p"
    using that saturating_add64_le [of d 1] assms True by (auto simp: pump_ok_def)
  moreover have "pump_shape (abandon_snapshot p)" using exec_pump_shape [of p Abandoned] assms by auto
  ultimately show ?thesis using assms True d by (auto simp: abandon_snapshot_def Let_def pump_ok_def)
qed (use assms in \<open>simp add: abandon_snapshot_def\<close>)

lemma hung_up_ok:
  assumes "pump_ok p"
  shows "pump_ok (fst (on_open p))" and "pump_ok (fst (on_disconnect p))"
  using assms by (auto simp: pump_ok_def pump_shape_def on_open_def on_disconnect_def)

lemma exec_pump_ok:
  assumes "pump_ok p" "pump_admissible x p"
  shows "pump_ok (fst (exec_pump x p))"
proof (cases x)
  case (EnqueuedAt seq bytes)
  then show ?thesis using assms advance_ok [OF appended_ok [of p seq bytes]]
    by (auto simp: enqueue_durable_at_def Let_def case_prod_beta pump_admissible_def)
next
  case (Enqueued bytes)
  then show ?thesis using assms advance_ok [OF appended_ok [of p "pu_next_seq p" bytes]]
    by (simp add: enqueue_durable_def pump_admissible_def)
next
  case (Reassigned seq)
  then show ?thesis using assms reassign_ok by (simp add: pump_admissible_def)
qed (use assms in \<open>simp_all add: hung_up_ok hello_ok blocked_ok abandon_ok event_ack_ok snapshot_ack_ok appeared_ok pump_admissible_def\<close>)

interpretation link_pump: guarded_machine pump_ok pump_admissible "\<lambda>x p. fst (exec_pump x p)"
  by unfold_locales (rule exec_pump_ok)

lemma reachable_ok: "fresh_run ops pump_new \<Longrightarrow> pump_ok (run_pump ops pump_new)"
  unfolding run_pump_def fresh_run_def by (intro link_pump.guarded_invar pump_new_ok)

section \<open>Going live\<close>

lemma advance_live_iff: "pu_barrier (fst (advance_pump p)) = LinkLive \<longleftrightarrow> pu_barrier p = LinkLive"
  by (simp add: advance_pump_def split: barrier.split)

lemma arrival_barrier [simp]: "pu_barrier (note_arrival p) = pu_barrier p"
  by (simp add: note_arrival_def)

lemma live_step:
  assumes "pu_barrier p \<noteq> LinkLive" "pu_barrier (fst (exec_pump x p)) = LinkLive"
  shows "\<exists>seq. x = SnapshotAck seq \<and> pu_snapshot_seq p = Some seq \<and> \<not> pu_replay_again p"
proof (cases x)
  case (EnqueuedAt seq bytes)
  then show ?thesis using assms by (auto simp: enqueue_durable_at_def Let_def case_prod_beta advance_live_iff split: if_splits)
next
  case (SnapshotAck seq)
  then show ?thesis using assms by (auto simp: on_snapshot_ack_def Let_def advance_live_iff split: if_splits)
qed (use assms in \<open>auto simp: on_open_def on_disconnect_def on_hello_ack_def enqueue_durable_def note_durable_appeared_def
  set_snapshot_blocked_def on_event_ack_def reassign_snapshot_sequence_def abandon_snapshot_def Let_def advance_live_iff split: if_splits option.splits\<close>)

text \<open>
  C16: Live traffic is earned. Along any run whatever of the link's calls from a fresh pump, the one call that takes
  a link which is not live to live is the acknowledgement of the snapshot in flight, by its exact
  sequence, at a moment when no durable event waits for replay and no row blocks the snapshot; a stale or
  repeated acknowledgement, a reconnection or an arriving event never opens the barrier.
\<close>

theorem live_is_earned:
  assumes "p = run_pump ops pump_new" "pu_barrier p \<noteq> LinkLive"
    and "pu_barrier (fst (exec_pump x p)) = LinkLive"
  shows "\<exists>seq. x = SnapshotAck seq \<and> pu_barrier p = LinkSnapshot \<and> pu_snapshot_seq p = Some seq
           \<and> pu_durable p = [] \<and> \<not> pu_snapshot_blocked p"
proof -
  have "pump_shape p" unfolding assms(1) by (rule reachable_shape)
  moreover obtain seq where "x = SnapshotAck seq" "pu_snapshot_seq p = Some seq" "\<not> pu_replay_again p"
    using live_step [OF assms(2,3)] by blast
  ultimately show ?thesis by (auto simp: pump_shape_def)
qed

lemmas pump_run_simps = run_pump_def pump_new_def on_open_def on_hello_ack_def on_event_ack_def on_snapshot_ack_def on_disconnect_def
  advance_pump_def note_arrival_def note_durable_appeared_def enqueue_durable_def reassign_snapshot_sequence_def
  abandon_snapshot_def saturating_add64_def bump64_def u64_max_def

text \<open>The barrier opens after an empty replay: a fresh link, its hello acknowledged, then its snapshot.\<close>

theorem live_is_earned_witness:
  "pu_barrier (run_pump [Opened, HelloAck] pump_new) = LinkSnapshot
   \<and> pu_barrier (fst (exec_pump (SnapshotAck 1) (run_pump [Opened, HelloAck] pump_new))) = LinkLive"
proof -
  let ?p = "run_pump [Opened, HelloAck] pump_new"
  have live: "pu_barrier (fst (exec_pump (SnapshotAck 1) ?p)) = LinkLive" by (simp add: pump_run_simps)
  have "pu_barrier ?p \<noteq> LinkLive" by (simp add: pump_run_simps)
  then show ?thesis using live live_is_earned [of ?p "[Opened, HelloAck]" "SnapshotAck 1"] by blast
qed

section \<open>What was enqueued, what was confirmed, what waits\<close>

type_synonym pump_history = "pump \<times> pending_event list \<times> pending_event list"

definition step_pump :: "pump_op \<Rightarrow> pump_history \<Rightarrow> pump_history" where
  "step_pump x h = (case h of (p, enqueued, confirmed) \<Rightarrow>
     (fst (exec_pump x p), enqueued @ admitted_by x p, confirmed @ confirmed_by x p))"

definition replay_history_ok :: "pump_history \<Rightarrow> bool" where
  "replay_history_ok h \<longleftrightarrow> (case h of (p, enqueued, confirmed) \<Rightarrow>
     pump_ok p \<and> enqueued = confirmed @ pu_durable p \<and> sorted_wrt (<) (map pe_seq enqueued)
     \<and> (\<forall>e \<in> set enqueued. pe_seq e < pu_next_seq p)
     \<and> (pu_barrier p = LinkSnapshot \<longrightarrow> (\<forall>e \<in> set confirmed. pe_seq e + 1 < pu_next_seq p))
     \<and> pu_acked p = (if confirmed = [] then 0 else pe_seq (last confirmed)))"

lemma history_facts:
  assumes "replay_history_ok (p, enqueued, confirmed)"
  shows "pump_ok p" "enqueued = confirmed @ pu_durable p" "sorted_wrt (<) (map pe_seq enqueued)"
    and "\<And>e. e \<in> set enqueued \<Longrightarrow> pe_seq e < pu_next_seq p"
    and "\<And>e. pu_barrier p = LinkSnapshot \<Longrightarrow> e \<in> set confirmed \<Longrightarrow> pe_seq e + 1 < pu_next_seq p"
    and "pu_acked p = (if confirmed = [] then 0 else pe_seq (last confirmed))"
  using assms unfolding replay_history_ok_def prod.case by blast+

lemma advance_acked: "pu_acked (fst (advance_pump p)) = pu_acked p"
  by (simp add: advance_pump_def split: barrier.split)

lemma advance_next:
  assumes "pu_durable p \<noteq> [] \<or> pu_next_seq p < u64_max"
  shows "pu_next_seq p \<le> pu_next_seq (fst (advance_pump p))"
    and "pu_barrier (fst (advance_pump p)) = LinkSnapshot \<Longrightarrow>
      pu_barrier p = LinkSnapshot \<or> pu_next_seq (fst (advance_pump p)) = pu_next_seq p + 1"
  using assms by (auto simp: advance_pump_def split: barrier.splits if_splits)

text \<open>A call that neither admits nor confirms an event, and does not give a sequence back, keeps the history.\<close>

lemma quiet_history:
  assumes "replay_history_ok (p, enqueued, confirmed)" "pump_ok q" "pu_durable q = pu_durable p" "pu_acked q = pu_acked p"
    and "pu_next_seq p \<le> pu_next_seq q"
    and "pu_barrier q = LinkSnapshot \<Longrightarrow> pu_barrier p = LinkSnapshot \<or> pu_next_seq q = pu_next_seq p + 1"
  shows "replay_history_ok (q, enqueued, confirmed)"
proof -
  note below = history_facts(4) [OF assms(1)]
  have "pe_seq e + 1 < pu_next_seq q" if "pu_barrier q = LinkSnapshot" "e \<in> set confirmed" for e
    using assms(6) [OF that(1)]
  proof
    assume "pu_barrier p = LinkSnapshot"
    then show ?thesis using history_facts(5) [OF assms(1) _ that(2)] assms(5) by simp
  next
    assume "pu_next_seq q = pu_next_seq p + 1"
    moreover have "e \<in> set enqueued" using history_facts(2) [OF assms(1)] that(2) by simp
    ultimately show ?thesis using below by simp
  qed
  moreover have "pe_seq e < pu_next_seq q" if "e \<in> set enqueued" for e using below [OF that] assms(5) by simp
  ultimately show ?thesis unfolding replay_history_ok_def prod.case
    using assms(2-4) history_facts(2,3,6) [OF assms(1)] by metis
qed

lemma advance_history:
  assumes "replay_history_ok (p, enqueued, confirmed)" "pu_durable p \<noteq> [] \<or> pu_next_seq p < u64_max"
  shows "replay_history_ok (fst (advance_pump p), enqueued, confirmed)"
proof -
  have "pump_ok (fst (advance_pump p))" using history_facts(1) [OF assms(1)] assms(2) by (rule advance_ok)
  from quiet_history [OF assms(1) this advance_keeps advance_acked advance_next [OF assms(2)]] show ?thesis .
qed

lemma appended_history:
  assumes "replay_history_ok (p, enqueued, confirmed)" "pu_next_seq p \<le> seq" "seq < u64_max"
  shows "replay_history_ok (note_arrival (p\<lparr>pu_next_seq := bump64 seq, pu_durable := pu_durable p @ [\<lparr>pe_seq = seq, pe_bytes = bytes\<rparr>]\<rparr>),
           enqueued @ [\<lparr>pe_seq = seq, pe_bytes = bytes\<rparr>], confirmed)"
proof -
  note h = history_facts [OF assms(1)]
  have below: "pe_seq e < seq" if "e \<in> set enqueued" for e using h(4) [OF that] assms(2) by simp
  moreover have "Suc (pe_seq e) < Suc seq" if "e \<in> set confirmed" for e using below h(2) that by simp
  ultimately show ?thesis using h(2,3,6) appended_ok [OF h(1) assms(2,3), of bytes] assms(3)
    by (auto simp: replay_history_ok_def note_arrival_def sorted_wrt_append less_SucI)
qed

lemma confirmed_history:
  assumes "replay_history_ok (p, enqueued, confirmed)" "pu_in_flight p = Some seq"
  shows "replay_history_ok (p\<lparr>pu_in_flight := None, pu_durable := tl (pu_durable p), pu_acked := max (pu_acked p) seq\<rparr>,
           enqueued, confirmed @ [hd (pu_durable p)])"
proof -
  have ok: "pump_ok p" and split: "enqueued = confirmed @ pu_durable p" and sorted: "sorted_wrt (<) (map pe_seq enqueued)"
    and acked: "pu_acked p = (if confirmed = [] then 0 else pe_seq (last confirmed))"
    using history_facts [OF assms(1)] by simp_all
  obtain e es where e: "pu_durable p = e # es" "pe_seq e = seq" using ok assms(2) by (cases "pu_durable p") (auto simp: pump_ok_def pump_shape_def)
  have "pe_seq (last confirmed) < seq" if "confirmed \<noteq> []"
    using sorted that by (simp add: split e sorted_wrt_append)
  then have "max (pu_acked p) seq = seq" using acked by (auto split: if_splits)
  moreover note confirmed_ok [OF ok assms(2)]
  moreover have "pu_barrier p \<noteq> LinkSnapshot" using ok assms(2) by (auto simp: pump_ok_def pump_shape_def)
  ultimately show ?thesis using history_facts [OF assms(1)] e by (auto simp: replay_history_ok_def)
qed

lemma abandoned_history:
  assumes "replay_history_ok (p, enqueued, confirmed)"
  shows "replay_history_ok (abandon_snapshot p, enqueued, confirmed)"
proof (cases "pu_barrier p = LinkSnapshot")
  case True
  have ok: "pump_ok p" and split: "enqueued = confirmed @ pu_durable p" using history_facts [OF assms] by simp_all
  obtain d where d: "pu_snapshot_seq p = Some d" using ok True by (auto simp: pump_ok_def pump_shape_def)
  have "pe_seq e < d" if "saturating_add64 d 1 = pu_next_seq p" "e \<in> set enqueued" for e
  proof (cases "e \<in> set confirmed")
    case True
    then have "pe_seq e + 1 < pu_next_seq p" using history_facts(5) [OF assms \<open>pu_barrier p = LinkSnapshot\<close>] by simp
    then show ?thesis using that(1) saturating_add64_le [of d 1] by simp
  next
    case False
    then have "e \<in> set (pu_durable p)" using that(2) split by simp
    then have "pe_seq e < pu_next_seq p" "pe_seq e \<noteq> d" using ok d by (auto simp: pump_ok_def)
    then show ?thesis using that(1) saturating_add64_le [of d 1] by simp
  qed
  then show ?thesis using assms True d abandon_ok [OF ok] by (auto simp: replay_history_ok_def abandon_snapshot_def Let_def)
qed (use assms in \<open>simp add: abandon_snapshot_def\<close>)

lemmas quiet_calls = on_open_def on_disconnect_def on_hello_ack_def note_durable_appeared_def note_arrival_def
  set_snapshot_blocked_def reassign_snapshot_sequence_def on_snapshot_ack_def advance_pump_def Let_def

lemma quiet_step:
  assumes "x \<in> {Opened, HelloAck, Appeared, Disconnected} \<union> range Blocked_Set \<union> range Reassigned \<union> range SnapshotAck"
    and "pu_next_seq p < u64_max"
  shows "pu_durable (fst (exec_pump x p)) = pu_durable p" and "pu_acked (fst (exec_pump x p)) = pu_acked p"
    and "pu_next_seq p \<le> pu_next_seq (fst (exec_pump x p))"
    and "pu_barrier (fst (exec_pump x p)) = LinkSnapshot \<Longrightarrow>
      pu_barrier p = LinkSnapshot \<or> pu_next_seq (fst (exec_pump x p)) = pu_next_seq p + 1"
  using assms by (auto simp: quiet_calls split: barrier.splits if_splits)

lemma step_pump_ok:
  assumes "replay_history_ok h" "pump_admissible x (fst h)"
  shows "replay_history_ok (step_pump x h)"
proof -
  obtain p enqueued confirmed where h: "h = (p, enqueued, confirmed)" by (metis prod.collapse)
  have ok: "replay_history_ok (p, enqueued, confirmed)" "pump_ok p" using assms(1) history_facts(1) by (auto simp: h)
  have guard: "pump_admissible x p" "pu_next_seq p < u64_max" using assms(2) by (simp_all add: h pump_admissible_def)
  note quiet = quiet_history [OF ok(1) exec_pump_ok [OF ok(2) guard(1)] quiet_step [OF _ guard(2)]]
  show ?thesis
  proof (cases x)
    case (Enqueued bytes)
    then show ?thesis using guard advance_history [OF appended_history [OF ok(1), of "pu_next_seq p" bytes]]
      by (simp add: h step_pump_def admitted_by_def confirmed_by_def enqueue_durable_def)
  next
    case (EnqueuedAt seq bytes)
    then show ?thesis using ok guard advance_history [OF appended_history [OF ok(1), of seq bytes]]
      by (auto simp: h pump_admissible_def step_pump_def admitted_by_def confirmed_by_def enqueue_durable_at_def Let_def case_prod_beta)
  next
    case (EventAck seq)
    then show ?thesis using ok guard(2) advance_history [OF confirmed_history [OF ok(1), of seq]]
      by (auto simp: h step_pump_def admitted_by_def confirmed_by_def on_event_ack_def)
  next
    case Abandoned
    then show ?thesis using abandoned_history [OF ok(1)] by (simp add: h step_pump_def admitted_by_def confirmed_by_def)
  qed (use quiet in \<open>simp_all add: h step_pump_def admitted_by_def confirmed_by_def\<close>)
qed

interpretation pump_history: guarded_machine replay_history_ok "\<lambda>x h. pump_admissible x (fst h)" step_pump
  by unfold_locales (rule step_pump_ok)

lemma step_pump_fst: "fst (step_pump x h) = fst (exec_pump x (fst h))"
  by (simp add: step_pump_def case_prod_beta)

lemmas history_project = guarded_project [of fst step_pump "\<lambda>x p. fst (exec_pump x p)", OF step_pump_fst]

lemma advance_writes:
  assumes "snd (advance_pump p) = WriteDurable seq"
  shows "pu_in_flight p = None \<and> pu_durable p \<noteq> [] \<and> pe_seq (hd (pu_durable p)) = seq
         \<and> pu_in_flight (fst (advance_pump p)) = Some seq"
  using assms by (auto simp: advance_pump_def split: barrier.splits if_splits)

lemma arrival_in_flight [simp]: "pu_in_flight (note_arrival p) = pu_in_flight p"
  by (simp add: note_arrival_def)

text \<open>A write is asked for when nothing is in flight, or by the acknowledgement of what was.\<close>

lemma writes_one:
  assumes "snd (exec_pump x p) = WriteDurable seq"
  shows "(pu_in_flight p = None \<or> x = EventAck (the (pu_in_flight p))) \<and> pu_in_flight (fst (exec_pump x p)) = Some seq"
proof (cases x)
  case (EnqueuedAt s bytes)
  then show ?thesis using assms by (auto simp: enqueue_durable_at_def Let_def case_prod_beta dest: advance_writes split: if_splits)
qed (use assms in \<open>auto simp: on_open_def on_hello_ack_def enqueue_durable_def note_durable_appeared_def set_snapshot_blocked_def
  on_event_ack_def on_snapshot_ack_def Let_def dest: advance_writes split: if_splits\<close>)

text \<open>
  C15: Durable events are neither lost, reordered nor renumbered. Take any run of the link's calls from a
  fresh pump, over any number of reconnections and abandoned snapshots, in which no sequence the owner
  reassigns to a snapshot is that of a waiting event and the 64-bit counter stays below its last value
  (\<open>fresh_run\<close>: the durable outbox draws both, so it promises both). Then everything admitted is exactly
  what the coordinator confirmed followed by what still waits, in the order of admission and under
  strictly increasing sequences; the acknowledged mark is the last confirmed sequence; and whenever any
  further call asks for a durable write, nothing else is in flight and the event named is the oldest that
  waits. The pump itself checks neither promise: \<open>stale_reassignment_repeats\<close> and
  \<open>exhausted_counter_restarts\<close> below are what happens without them.
\<close>

theorem durable_in_order:
  assumes "fresh_run ops pump_new"
  shows "case fold step_pump ops (pump_new, [], []) of (p, enqueued, confirmed) \<Rightarrow>
    p = run_pump ops pump_new
    \<and> enqueued = confirmed @ pu_durable p \<and> sorted_wrt (<) (map pe_seq enqueued)
    \<and> pu_acked p = (if confirmed = [] then 0 else pe_seq (last confirmed))
    \<and> (\<forall>x seq. snd (exec_pump x p) = WriteDurable seq \<longrightarrow>
         (pu_in_flight p = None \<or> x = EventAck (the (pu_in_flight p)))
         \<and> pu_durable (fst (exec_pump x p)) \<noteq> [] \<and> pe_seq (hd (pu_durable (fst (exec_pump x p)))) = seq)"
proof -
  obtain p enqueued confirmed where run: "fold step_pump ops (pump_new, [], []) = (p, enqueued, confirmed)"
    by (metis prod.collapse)
  have "replay_history_ok (pump_new, [], [])" by (simp add: replay_history_ok_def pump_new_ok) (simp add: pump_new_def)
  then have ok: "replay_history_ok (p, enqueued, confirmed)"
    using pump_history.guarded_invar [of "(pump_new, [], [])" ops] assms run
    by (simp add: fresh_run_def history_project(1))
  have "p = run_pump ops pump_new" using history_project(2) [of ops "(pump_new, [], [])"] run by (simp add: run_pump_def)
  moreover have "(pu_in_flight p = None \<or> x = EventAck (the (pu_in_flight p)))
      \<and> pu_durable (fst (exec_pump x p)) \<noteq> [] \<and> pe_seq (hd (pu_durable (fst (exec_pump x p)))) = seq"
    if "snd (exec_pump x p) = WriteDurable seq" for x seq
    using writes_one [OF that] exec_pump_shape [OF pump_ok_shape [OF history_facts(1) [OF ok]], of x] by (simp add: pump_shape_def)
  ultimately show ?thesis unfolding run prod.case using history_facts(2,3,6) [OF ok] by blast
qed

text \<open>Two events wait behind a connection that opens; the acknowledged hello asks for the first.\<close>

theorem durable_in_order_witness:
  "case fold step_pump [Enqueued [], Enqueued [], Opened] (pump_new, [], []) of (p, enqueued, confirmed) \<Rightarrow>
     enqueued = confirmed @ pu_durable p \<and> snd (exec_pump HelloAck p) = WriteDurable 1
     \<and> pe_seq (hd (pu_durable (fst (exec_pump HelloAck p)))) = 1"
proof -
  let ?ops = "[Enqueued [], Enqueued [], Opened]"
  have fresh: "fresh_run ?ops pump_new" by (simp add: fresh_run_def pump_admissible_def pump_run_simps)
  obtain p enqueued confirmed where run: "fold step_pump ?ops (pump_new, [], []) = (p, enqueued, confirmed)"
    by (metis prod.collapse)
  have "snd (exec_pump HelloAck (fst (fold step_pump ?ops (pump_new, [], [])))) = WriteDurable 1"
    by (simp add: step_pump_def pump_run_simps)
  then show ?thesis using durable_in_order [OF fresh] unfolding run prod.case fst_conv by blast
qed

text \<open>
  Without the promises: a snapshot reassigned to the number of an event that arrived after it was drawn,
  then abandoned, hands that number out again; and past the counter's last value the sequence is zero.
\<close>

lemma stale_reassignment_repeats:
  "map pe_seq (pu_durable (run_pump [Opened, HelloAck, Enqueued [], Reassigned 2, Abandoned, Enqueued []] pump_new)) = [2, 2]"
  by (simp add: pump_run_simps)

lemma exhausted_counter_restarts:
  "map pe_seq (pu_durable (run_pump [EnqueuedAt u64_max [], Enqueued []] pump_new)) = [u64_max, 0]"
  by (simp add: pump_run_simps enqueue_durable_at_def Let_def)

section \<open>Every link that is answered goes live\<close>

lemma replay_drains:
  assumes "pu_barrier p = LinkReplay" "pu_in_flight p = None" "\<not> pu_snapshot_blocked p" "pu_durable p = es"
  shows "fold (\<lambda>e p. fst (on_event_ack (pe_seq e) p)) es (fst (advance_pump p))
    = p\<lparr>pu_barrier := LinkSnapshot, pu_durable := [], pu_snapshot_seq := Some (pu_next_seq p),
        pu_next_seq := bump64 (pu_next_seq p), pu_acked := fold (\<lambda>e a. max a (pe_seq e)) es (pu_acked p)\<rparr>"
  using assms
proof (induction es arbitrary: p)
  case Nil
  then show ?case by (simp add: advance_pump_def)
next
  case (Cons e es)
  let ?q = "p\<lparr>pu_in_flight := None, pu_durable := es, pu_acked := max (pu_acked p) (pe_seq e)\<rparr>"
  have "fst (on_event_ack (pe_seq e) (fst (advance_pump p))) = fst (advance_pump ?q)"
    using Cons.prems by (simp add: advance_pump_def [of p] on_event_ack_def)
  then show ?case using Cons.IH [of ?q] Cons.prems by (cases p) simp
qed

text \<open>
  C17: A link that is answered goes live. From every pump any run of calls reaches whose snapshot is not
  blocked, whatever the previous connection left half done, a reconnection whose hello is acknowledged,
  then each waiting event by its own sequence in order, then the snapshot under the counter's next value,
  ends live with nothing waiting; where the run's reassigned sequences are fresh and its counter is not
  exhausted (\<open>fresh_run\<close>), that value is above every waiting event's.
\<close>

theorem link_goes_live:
  assumes "p = run_pump ops pump_new" "\<not> pu_snapshot_blocked p"
    and "q = run_pump ([Disconnected, Opened, HelloAck] @ map (EventAck \<circ> pe_seq) (pu_durable p) @ [SnapshotAck (pu_next_seq p)]) p"
  shows "pu_barrier q = LinkLive \<and> pu_durable q = []
    \<and> (fresh_run ops pump_new \<longrightarrow> (\<forall>e \<in> set (pu_durable p). pe_seq e < pu_next_seq p))"
proof -
  have ok: "fresh_run ops pump_new \<Longrightarrow> pump_ok p" unfolding assms(1) by (rule reachable_ok)
  let ?q = "p\<lparr>pu_replay_again := False, pu_in_flight := None, pu_snapshot_seq := None, pu_barrier := LinkReplay\<rparr>"
  have "q = fst (on_snapshot_ack (pu_next_seq p)
        (fold (\<lambda>e p. fst (on_event_ack (pe_seq e) p)) (pu_durable p) (fst (advance_pump ?q))))"
    by (simp add: assms(3) run_pump_def fold_map comp_def on_disconnect_def on_open_def on_hello_ack_def)
  also have "\<dots> = fst (on_snapshot_ack (pu_next_seq p)
      (?q\<lparr>pu_barrier := LinkSnapshot, pu_durable := [], pu_snapshot_seq := Some (pu_next_seq p),
        pu_next_seq := bump64 (pu_next_seq p), pu_acked := fold (\<lambda>e a. max a (pe_seq e)) (pu_durable p) (pu_acked p)\<rparr>))"
    using replay_drains [of ?q "pu_durable p"] assms(2) by simp
  finally have "pu_barrier q = LinkLive" "pu_durable q = []" by (simp_all add: on_snapshot_ack_def advance_pump_def)
  then show ?thesis using ok by (simp add: pump_ok_def)
qed

text \<open>A connection lost with one event in flight and one behind it; the next one replays both and goes live.\<close>

theorem link_goes_live_witness:
  "\<exists>p q. p = run_pump [Opened, HelloAck, SnapshotAck 1, Enqueued [], Enqueued []] pump_new \<and> pu_next_seq p = 4
     \<and> q = run_pump [Disconnected, Opened, HelloAck, EventAck 2, EventAck 3, SnapshotAck 4] p \<and> pu_barrier q = LinkLive"
proof -
  let ?ops = "[Opened, HelloAck, SnapshotAck 1, Enqueued [], Enqueued []]"
  let ?p = "run_pump ?ops pump_new"
  have unblocked: "\<not> pu_snapshot_blocked ?p" by (simp add: pump_run_simps)
  have p: "map (EventAck \<circ> pe_seq) (pu_durable ?p) = [EventAck 2, EventAck 3]" "pu_next_seq ?p = 4" by (simp_all add: pump_run_simps)
  have "pu_barrier (run_pump ([Disconnected, Opened, HelloAck] @ map (EventAck \<circ> pe_seq) (pu_durable ?p)
      @ [SnapshotAck (pu_next_seq ?p)]) ?p) = LinkLive"
    using link_goes_live [OF refl unblocked refl] by blast
  then have "pu_barrier (run_pump [Disconnected, Opened, HelloAck, EventAck 2, EventAck 3, SnapshotAck 4] ?p) = LinkLive"
    by (simp only: p append.simps)
  then show ?thesis using p by blast
qed

end
