(* ===== verification/Worker_Outbox.thy ===== *)
theory Worker_Outbox
  imports Roost_Prelude "HOL-Library.Word" "HOL-Library.Multiset"
begin

text \<open>
  The worker's outbox (\<open>roost-worker/src/outbox.rs\<close>): five lanes under one frame cap and one byte cap,
  drained in a fixed order with aged raw metadata promoted. The code keeps the lanes in an array of five
  queues that \<open>Outbox::slot\<close> indexes one to one, so they are a function of the lane here. An \<open>Instant\<close> is a natural number of
  milliseconds since the process started, so a saturating difference of two is the subtraction of
  naturals.
\<close>

section \<open>Lanes and frames\<close>

definition PENDING_CAP :: nat where "PENDING_CAP = 1024"

definition PENDING_BYTES_CAP :: nat where "PENDING_BYTES_CAP = 8 * 1024 * 1024"

definition RAW_METADATA_MAX_AGE :: nat where "RAW_METADATA_MAX_AGE = 100"

datatype outbox_lane = Liveness | Durable | Control | Terminal | RawMetadata

definition DRAIN_ORDER :: "outbox_lane list" where
  "DRAIN_ORDER = [Liveness, Durable, Control, Terminal, RawMetadata]"

definition is_droppable :: "outbox_lane \<Rightarrow> bool" where
  "is_droppable l \<longleftrightarrow> l = RawMetadata"

record pending =
  pn_lane :: outbox_lane
  pn_bytes :: "8 word list"
  pn_queued_at :: nat
  pn_label :: string
  pn_coalesce_key :: "string option"

definition pending_age :: "nat \<Rightarrow> pending \<Rightarrow> nat" where
  "pending_age now f = now - pn_queued_at f"

datatype admit_error =
    Full nat nat
  | OverBytes nat nat
  | FrameTooLarge nat nat
  | CoalesceOverBytes nat nat nat

datatype admit_outcome = Queued | Coalesced | DroppedVolatile

record outbox =
  ob_lanes :: "outbox_lane \<Rightarrow> pending list"
  ob_frame_count :: nat
  ob_byte_count :: nat
  ob_cap :: nat
  ob_byte_cap :: nat

definition outbox_new :: "nat \<Rightarrow> nat \<Rightarrow> outbox" where
  "outbox_new cap byte_cap = \<lparr>ob_lanes = (\<lambda>_. []), ob_frame_count = 0, ob_byte_count = 0,
     ob_cap = cap, ob_byte_cap = byte_cap\<rparr>"

definition outbox_default :: outbox where
  "outbox_default = outbox_new PENDING_CAP PENDING_BYTES_CAP"

abbreviation lane_of :: "outbox \<Rightarrow> outbox_lane \<Rightarrow> pending list" where
  "lane_of b l \<equiv> ob_lanes b l"

definition lane_len :: "outbox \<Rightarrow> outbox_lane \<Rightarrow> nat" where
  "lane_len b l = length (lane_of b l)"

definition outbox_is_empty :: "outbox \<Rightarrow> bool" where
  "outbox_is_empty b \<longleftrightarrow> ob_frame_count b = 0"

section \<open>Taking and draining\<close>

definition take_from :: "outbox_lane \<Rightarrow> outbox \<Rightarrow> outbox \<times> pending option" where
  "take_from l b =
     (case lane_of b l of
        [] \<Rightarrow> (b, None)
      | frame # rest \<Rightarrow>
          (b\<lparr>ob_lanes := (ob_lanes b)(l := rest), ob_frame_count := ob_frame_count b - 1,
             ob_byte_count := ob_byte_count b - length (pn_bytes frame)\<rparr>, Some frame))"

fun drain_lanes :: "outbox_lane list \<Rightarrow> outbox \<Rightarrow> outbox \<times> pending option" where
  "drain_lanes [] b = (b, None)"
| "drain_lanes (l # ls) b = (case take_from l b of (b', Some frame) \<Rightarrow> (b', Some frame) | (b', None) \<Rightarrow> drain_lanes ls b')"

definition aged :: "nat \<Rightarrow> pending \<Rightarrow> bool" where
  "aged now f \<longleftrightarrow> RAW_METADATA_MAX_AGE \<le> pending_age now f"

definition drain_one :: "nat \<Rightarrow> outbox \<Rightarrow> outbox \<times> pending option" where
  "drain_one now b =
     (case lane_of b RawMetadata of
        front # _ \<Rightarrow> if aged now front then take_from RawMetadata b else drain_lanes DRAIN_ORDER b
      | [] \<Rightarrow> drain_lanes DRAIN_ORDER b)"

definition waiting :: "outbox \<Rightarrow> nat" where
  "waiting b = sum_list (map (\<lambda>l. length (lane_of b l)) DRAIN_ORDER)"

definition waiting_bytes :: "outbox \<Rightarrow> nat" where
  "waiting_bytes b = sum_list (map (\<lambda>l. sum_list (map (length \<circ> pn_bytes) (lane_of b l))) DRAIN_ORDER)"

lemma take_from_shrinks: "take_from l b = (b', Some f) \<Longrightarrow> waiting b' < waiting b"
  by (cases l) (auto simp: take_from_def waiting_def DRAIN_ORDER_def split: list.splits)

lemma take_from_None: "take_from l b = (b', None) \<longleftrightarrow> b' = b \<and> lane_of b l = []"
  by (auto simp: take_from_def split: list.splits)

lemma drain_lanes_shrinks: "drain_lanes ls b = (b', Some f) \<Longrightarrow> waiting b' < waiting b"
proof (induction ls arbitrary: b)
  case (Cons l ls)
  then show ?case by (auto simp: take_from_None dest: take_from_shrinks split: prod.splits option.splits)
qed simp

lemma drain_one_shrinks: "drain_one now b = (b', Some f) \<Longrightarrow> waiting b' < waiting b"
  by (auto simp: drain_one_def split: list.splits if_splits dest: take_from_shrinks drain_lanes_shrinks)

function drain_all :: "nat \<Rightarrow> outbox \<Rightarrow> outbox \<times> pending list" where
  "drain_all now b =
     (case drain_one now b of
        (b', Some frame) \<Rightarrow> let (b'', rest) = drain_all now b' in (b'', frame # rest)
      | (b', None) \<Rightarrow> (b', []))"
  by pat_completeness auto
termination by (relation "measure (waiting \<circ> snd)") (auto dest: sym [THEN drain_one_shrinks])

declare drain_all.simps [simp del]

function discard_lane :: "outbox_lane \<Rightarrow> outbox \<Rightarrow> outbox" where
  "discard_lane l b = (case take_from l b of (b', Some _) \<Rightarrow> discard_lane l b' | (b', None) \<Rightarrow> b')"
  by pat_completeness auto
termination by (relation "measure (waiting \<circ> snd)") (auto dest: sym [THEN take_from_shrinks])

declare discard_lane.simps [simp del]

definition discard :: "outbox_lane \<Rightarrow> outbox \<Rightarrow> outbox \<times> nat" where
  "discard l b = (discard_lane l b, lane_len b l)"

section \<open>Admission\<close>

definition refuse_oversized :: "8 word list \<Rightarrow> outbox \<Rightarrow> (admit_error, unit) result" where
  "refuse_oversized bytes b =
     (if ob_byte_cap b < length bytes then Err (FrameTooLarge (length bytes) (ob_byte_cap b)) else Ok ())"

definition evict_front :: "outbox_lane \<Rightarrow> outbox \<Rightarrow> outbox" where
  "evict_front l b =
     (case lane_of b l of
        [] \<Rightarrow> b
      | evicted # rest \<Rightarrow>
          b\<lparr>ob_lanes := (ob_lanes b)(l := rest), ob_frame_count := ob_frame_count b - 1,
            ob_byte_count := ob_byte_count b - length (pn_bytes evicted)\<rparr>)"

definition push_frame :: "pending \<Rightarrow> outbox \<Rightarrow> outbox" where
  "push_frame f b = b\<lparr>ob_byte_count := ob_byte_count b + length (pn_bytes f), ob_frame_count := ob_frame_count b + 1,
     ob_lanes := (ob_lanes b)(pn_lane f := lane_of b (pn_lane f) @ [f])\<rparr>"

definition insert_frame :: "outbox_lane \<Rightarrow> 8 word list \<Rightarrow> string \<Rightarrow> nat \<Rightarrow> string option \<Rightarrow> outbox \<Rightarrow> outbox \<times> (admit_error, admit_outcome) result" where
  "insert_frame l bytes label now key b =
     (case refuse_oversized bytes b of
        Err e \<Rightarrow> (b, Err e)
      | Ok _ \<Rightarrow>
          let over = ob_cap b \<le> ob_frame_count b \<or> ob_byte_cap b < ob_byte_count b + length bytes;
              frame = \<lparr>pn_lane = l, pn_bytes = bytes, pn_queued_at = now, pn_label = label, pn_coalesce_key = key\<rparr>
          in if over \<and> \<not> is_droppable l
             then (b, Err (if ob_cap b \<le> ob_frame_count b then Full (ob_frame_count b) (ob_cap b)
                           else OverBytes (ob_byte_count b) (ob_byte_cap b)))
             else (push_frame frame (if over then evict_front l b else b), Ok Queued))"

definition outbox_admit :: "outbox_lane \<Rightarrow> 8 word list \<Rightarrow> string \<Rightarrow> nat \<Rightarrow> outbox \<Rightarrow> outbox \<times> (admit_error, admit_outcome) result" where
  "outbox_admit l bytes label now b = insert_frame l bytes label now None b"

fun key_position :: "string \<Rightarrow> pending list \<Rightarrow> nat option" where
  "key_position key [] = None"
| "key_position key (f # fs) = (if pn_coalesce_key f = Some key then Some 0 else map_option Suc (key_position key fs))"

definition admit_coalescing :: "string \<Rightarrow> outbox_lane \<Rightarrow> 8 word list \<Rightarrow> string \<Rightarrow> nat \<Rightarrow> outbox \<Rightarrow> outbox \<times> (admit_error, admit_outcome) result" where
  "admit_coalescing key l bytes label now b =
     (case refuse_oversized bytes b of
        Err e \<Rightarrow> (b, Err e)
      | Ok _ \<Rightarrow>
          (case key_position key (lane_of b l) of
             Some position \<Rightarrow>
               let old = lane_of b l ! position; superseded = length (pn_bytes old);
                   count = ob_byte_count b - superseded + length bytes
               in if ob_byte_cap b < count then (b, Err (CoalesceOverBytes (length bytes) superseded (ob_byte_cap b)))
                  else (b\<lparr>ob_byte_count := count,
                          ob_lanes := (ob_lanes b)(l := (lane_of b l)[position := old\<lparr>pn_bytes := bytes, pn_queued_at := now, pn_label := label\<rparr>])\<rparr>,
                        Ok Coalesced)
           | None \<Rightarrow> insert_frame l bytes label now (Some key) b))"

definition coalesces :: "outbox_lane \<Rightarrow> string \<Rightarrow> outbox \<Rightarrow> bool" where
  "coalesces l key b \<longleftrightarrow> list_ex (\<lambda>f. pn_coalesce_key f = Some key) (lane_of b l)"

section \<open>The order of a drain\<close>

text \<open>The drain as one list: the aged head of the raw lane, the other lanes in order, the rest of the raw lane.\<close>

definition drained :: "nat \<Rightarrow> outbox \<Rightarrow> pending list" where
  "drained now b = takeWhile (aged now) (lane_of b RawMetadata)
     @ lane_of b Liveness @ lane_of b Durable @ lane_of b Control @ lane_of b Terminal
     @ dropWhile (aged now) (lane_of b RawMetadata)"

lemma drain_one_head:
  shows drain_one_next: "snd (drain_one now b) = (case drained now b of [] \<Rightarrow> None | f # _ \<Rightarrow> Some f)"
    and drain_one_rest: "drained now (fst (drain_one now b)) = tl (drained now b)"
  by (auto simp: drain_one_def drained_def take_from_def DRAIN_ORDER_def split: list.splits)

lemma drain_one_empty: "drained now b = [] \<Longrightarrow> fst (drain_one now b) = b"
  by (auto simp: drain_one_def drained_def take_from_def DRAIN_ORDER_def split: list.splits)

lemma drained_empty: "drained now b = [] \<longleftrightarrow> (\<forall>l. lane_of b l = [])"
proof
  assume "drained now b = []"
  then have "lane_of b Liveness = []" "lane_of b Durable = []" "lane_of b Control = []" "lane_of b Terminal = []"
    "lane_of b RawMetadata = []" by (cases "lane_of b RawMetadata"; simp add: drained_def split: if_splits)+
  then show "\<forall>l. lane_of b l = []" using outbox_lane.exhaust by metis
qed (simp add: drained_def)

lemma drain_all_drained: "snd (drain_all now b) = drained now b \<and> (\<forall>l. lane_of (fst (drain_all now b)) l = [])"
proof (induction "waiting b" arbitrary: b rule: less_induct)
  case less
  obtain b' r where step: "drain_one now b = (b', r)" by force
  show ?case
  proof (cases r)
    case None
    then have empty: "drained now b = []" using drain_one_next [of now b] step by (simp split: list.splits)
    have "b' = b" using drain_one_empty [OF empty] step by simp
    with step None have "drain_one now b = (b, None)" by simp
    then have "drain_all now b = (b, [])" by (subst drain_all.simps) simp
    then show ?thesis using empty drained_empty [of now b] by simp
  next
    case (Some f)
    then have "drained now b = f # tl (drained now b)" "drained now b' = tl (drained now b)"
      using drain_one_next [of now b] drain_one_rest [of now b] step by (auto split: list.splits)
    moreover have "drain_all now b = (fst (drain_all now b'), f # snd (drain_all now b'))"
      using step Some by (subst drain_all.simps) (simp add: case_prod_beta)
    ultimately show ?thesis using less [of b'] drain_one_shrinks [of now b b' f] step Some by simp
  qed
qed

section \<open>Exact counters, bounded lanes\<close>

abbreviation frames_bytes :: "pending list \<Rightarrow> nat" where
  "frames_bytes fs \<equiv> sum_list (map (length \<circ> pn_bytes) fs)"

definition coalesce_keys :: "pending list \<Rightarrow> string list" where
  "coalesce_keys fs = List.map_filter pn_coalesce_key fs"

definition UNDROPPABLE :: "outbox_lane list" where
  "UNDROPPABLE = [Liveness, Durable, Control, Terminal]"

definition undropped_frames :: "outbox \<Rightarrow> nat" where
  "undropped_frames b = sum_list (map (\<lambda>l. length (lane_of b l)) UNDROPPABLE)"

definition undropped_bytes :: "outbox \<Rightarrow> nat" where
  "undropped_bytes b = sum_list (map (\<lambda>l. frames_bytes (lane_of b l)) UNDROPPABLE)"

definition outbox_lane_ok :: "nat \<Rightarrow> outbox_lane \<Rightarrow> pending list \<Rightarrow> bool" where
  "outbox_lane_ok byte_cap l fs \<longleftrightarrow> (\<forall>f \<in> set fs. pn_lane f = l \<and> length (pn_bytes f) \<le> byte_cap) \<and> distinct (coalesce_keys fs)"

definition outbox_ok :: "outbox \<Rightarrow> bool" where
  "outbox_ok b \<longleftrightarrow> (\<forall>l. outbox_lane_ok (ob_byte_cap b) l (lane_of b l))
     \<and> ob_frame_count b = waiting b \<and> ob_byte_count b = waiting_bytes b
     \<and> waiting b \<le> ob_cap b + 1 \<and> undropped_frames b \<le> ob_cap b \<and> undropped_bytes b \<le> ob_byte_cap b"

lemmas lane_sums = waiting_def waiting_bytes_def undropped_frames_def undropped_bytes_def DRAIN_ORDER_def UNDROPPABLE_def

lemma outbox_new_ok: "outbox_ok (outbox_new cap byte_cap)"
  by (simp add: outbox_ok_def outbox_new_def lane_sums outbox_lane_ok_def coalesce_keys_def map_filter_simps)

lemma keys_Cons: "coalesce_keys (f # fs) = (case pn_coalesce_key f of None \<Rightarrow> coalesce_keys fs | Some k \<Rightarrow> k # coalesce_keys fs)"
  by (simp add: coalesce_keys_def map_filter_simps split: option.split)

lemma keys_Nil [simp]: "coalesce_keys [] = []"
  by (simp add: coalesce_keys_def map_filter_simps)

lemma keys_append: "coalesce_keys (fs @ gs) = coalesce_keys fs @ coalesce_keys gs"
  by (induction fs) (auto simp: keys_Cons split: option.split)

text \<open>How the sums move when one lane is replaced.\<close>

lemma lane_replaced:
  assumes "ob_lanes q = (ob_lanes b)(l := fs)"
  shows "waiting q + length (lane_of b l) = waiting b + length fs"
    and "waiting_bytes q + frames_bytes (lane_of b l) = waiting_bytes b + frames_bytes fs"
    and "undropped_frames q + (if is_droppable l then 0 else length (lane_of b l)) = undropped_frames b + (if is_droppable l then 0 else length fs)"
    and "undropped_bytes q + (if is_droppable l then 0 else frames_bytes (lane_of b l)) = undropped_bytes b + (if is_droppable l then 0 else frames_bytes fs)"
  using assms by (cases l; simp add: lane_sums is_droppable_def)+

lemma kept_le:
  shows "waiting b = undropped_frames b + length (lane_of b RawMetadata)"
    and "waiting_bytes b = undropped_bytes b + frames_bytes (lane_of b RawMetadata)"
  by (simp_all add: lane_sums)

lemma lanes_ok_replaced:
  assumes "outbox_ok b" "outbox_lane_ok (ob_byte_cap b) k fs"
  shows "outbox_lane_ok (ob_byte_cap b) l (((ob_lanes b)(k := fs)) l)"
  using assms by (simp add: outbox_ok_def)

lemma lane_ok_tl: "outbox_lane_ok c l (f # fs) \<Longrightarrow> outbox_lane_ok c l fs"
  by (auto simp: outbox_lane_ok_def keys_Cons split: option.splits)

lemma replaced_ok:
  assumes ok: "outbox_ok b" and q: "ob_lanes q = (ob_lanes b)(l := fs)" "ob_cap q = ob_cap b" "ob_byte_cap q = ob_byte_cap b"
    and lane: "outbox_lane_ok (ob_byte_cap b) l fs"
    and frames: "ob_frame_count q + length (lane_of b l) = ob_frame_count b + length fs" "ob_frame_count q \<le> ob_cap b + 1"
    and bytes: "ob_byte_count q + frames_bytes (lane_of b l) = ob_byte_count b + frames_bytes fs"
    and kept: "\<not> is_droppable l \<Longrightarrow> length fs \<le> length (lane_of b l) \<or> ob_frame_count q \<le> ob_cap b"
      "\<not> is_droppable l \<Longrightarrow> frames_bytes fs \<le> frames_bytes (lane_of b l) \<or> ob_byte_count q \<le> ob_byte_cap b"
  shows "outbox_ok q"
proof -
  note sums = lane_replaced [OF q(1)]
  have b: "ob_frame_count b = waiting b" "ob_byte_count b = waiting_bytes b" "undropped_frames b \<le> ob_cap b" "undropped_bytes b \<le> ob_byte_cap b"
    using ok by (simp_all add: outbox_ok_def)
  have counts: "ob_frame_count q = waiting q" "ob_byte_count q = waiting_bytes q" using sums(1,2) frames(1) bytes b(1,2) by linarith+
  have "undropped_frames q \<le> ob_cap b" using sums(3) kept(1) b(3) counts(1) kept_le(1) [of q] by (cases "is_droppable l") auto
  moreover have "undropped_bytes q \<le> ob_byte_cap b" using sums(4) kept(2) b(4) counts(2) kept_le(2) [of q] by (cases "is_droppable l") auto
  moreover have "outbox_lane_ok (ob_byte_cap b) k (lane_of q k)" for k using lanes_ok_replaced [OF ok lane] by (simp add: q(1))
  ultimately show ?thesis using counts frames(2) by (simp add: outbox_ok_def q(2,3))
qed

lemma lane_of_ok: "outbox_ok b \<Longrightarrow> outbox_lane_ok (ob_byte_cap b) l (lane_of b l)"
  by (simp add: outbox_ok_def)

lemma outbox_counts:
  assumes "outbox_ok b"
  shows "length (lane_of b l) \<le> ob_frame_count b" "frames_bytes (lane_of b l) \<le> ob_byte_count b"
  using assms lane_replaced(1,2) [of "b\<lparr>ob_lanes := (ob_lanes b)(l := [])\<rparr>" b l "[]"] by (simp_all add: outbox_ok_def)

lemma outbox_bound: "outbox_ok b \<Longrightarrow> ob_frame_count b \<le> ob_cap b + 1"
  by (simp add: outbox_ok_def)

lemma popped_ok:
  assumes "outbox_ok b" "lane_of b l = f # rest"
  shows "outbox_ok (b\<lparr>ob_lanes := (ob_lanes b)(l := rest), ob_frame_count := ob_frame_count b - 1,
             ob_byte_count := ob_byte_count b - length (pn_bytes f)\<rparr>)"
  using assms lane_of_ok [OF assms(1), of l] outbox_counts [OF assms(1), of l] outbox_bound [OF assms(1)]
  by (intro replaced_ok [OF assms(1), where l = l and fs = rest]) (auto dest: lane_ok_tl)

lemma take_from_ok: "outbox_ok b \<Longrightarrow> outbox_ok (fst (take_from l b))"
  by (auto simp: take_from_def popped_ok [unfolded One_nat_def] split: list.split)

lemma drain_lanes_ok: "outbox_ok b \<Longrightarrow> outbox_ok (fst (drain_lanes ls b))"
proof (induction ls arbitrary: b)
  case (Cons l ls)
  then show ?case using take_from_ok [of b l] by (auto split: prod.splits option.splits)
qed simp

lemma drain_one_ok: "outbox_ok b \<Longrightarrow> outbox_ok (fst (drain_one now b))"
  by (auto simp: drain_one_def take_from_ok drain_lanes_ok split: list.split)

lemma evict_front_ok:
  assumes "outbox_ok b"
  shows "outbox_ok (evict_front l b)"
  using assms by (auto simp: evict_front_def popped_ok [unfolded One_nat_def] split: list.split)

lemma key_position_None: "key_position key fs = None \<longleftrightarrow> key \<notin> set (coalesce_keys fs)"
  by (induction fs) (auto simp: keys_Cons split: option.splits)

lemma key_position_Some: "key_position key fs = Some i \<Longrightarrow> i < length fs \<and> pn_coalesce_key (fs ! i) = Some key"
  by (induction fs arbitrary: i) (auto split: if_splits)

lemma pushed_ok:
  assumes "outbox_ok b" "length (pn_bytes f) \<le> ob_byte_cap b" "ob_frame_count b \<le> ob_cap b"
    and "\<And>k. pn_coalesce_key f = Some k \<Longrightarrow> k \<notin> set (coalesce_keys (lane_of b (pn_lane f)))"
    and "\<not> is_droppable (pn_lane f) \<Longrightarrow> ob_frame_count b < ob_cap b \<and> ob_byte_count b + length (pn_bytes f) \<le> ob_byte_cap b"
  shows "outbox_ok (push_frame f b)"
proof -
  have "outbox_lane_ok (ob_byte_cap b) (pn_lane f) (lane_of b (pn_lane f) @ [f])"
    using lane_of_ok [OF assms(1), of "pn_lane f"] assms(2,4) by (auto simp: outbox_lane_ok_def keys_append keys_Cons split: option.split)
  then show ?thesis using assms(3,5)
    by (intro replaced_ok [OF assms(1), where l = "pn_lane f" and fs = "lane_of b (pn_lane f) @ [f]"]) (auto simp: push_frame_def)
qed

lemma evicted:
  assumes "outbox_ok b" "is_droppable l"
  shows "ob_frame_count (evict_front l b) \<le> ob_cap b" and "ob_byte_cap (evict_front l b) = ob_byte_cap b"
    and "ob_cap (evict_front l b) = ob_cap b" and "set (coalesce_keys (lane_of (evict_front l b) l)) \<subseteq> set (coalesce_keys (lane_of b l))"
proof -
  have "ob_frame_count b = undropped_frames b + length (lane_of b l)" "undropped_frames b \<le> ob_cap b" "ob_frame_count b \<le> ob_cap b + 1"
    using assms kept_le(1) [of b] by (simp_all add: outbox_ok_def is_droppable_def)
  then show "ob_frame_count (evict_front l b) \<le> ob_cap b" by (auto simp: evict_front_def split: list.split)
qed (auto simp: evict_front_def keys_Cons split: list.split option.split)

lemma insert_ok:
  assumes "outbox_ok b" "\<And>k. key = Some k \<Longrightarrow> k \<notin> set (coalesce_keys (lane_of b l))"
  shows "outbox_ok (fst (insert_frame l bytes label now key b))"
proof -
  let ?f = "\<lparr>pn_lane = l, pn_bytes = bytes, pn_queued_at = now, pn_label = label, pn_coalesce_key = key\<rparr>"
  have "outbox_ok (push_frame ?f b)" if "ob_frame_count b < ob_cap b" "ob_byte_count b + length bytes \<le> ob_byte_cap b"
    using that assms by (intro pushed_ok) auto
  moreover have "outbox_ok (push_frame ?f (evict_front l b))" if "is_droppable l" "length bytes \<le> ob_byte_cap b"
    using that assms evicted [OF assms(1) that(1)] by (intro pushed_ok evict_front_ok) (auto dest: subsetD)
  ultimately show ?thesis using assms(1) by (auto simp: insert_frame_def refuse_oversized_def Let_def)
qed

lemma admit_ok: "outbox_ok b \<Longrightarrow> outbox_ok (fst (outbox_admit l bytes label now b))"
  unfolding outbox_admit_def by (rule insert_ok) simp_all

lemma lane_bytes_update:
  "i < length fs \<Longrightarrow> frames_bytes (fs[i := g]) + length (pn_bytes (fs ! i)) = frames_bytes fs + length (pn_bytes g)"
proof (induction fs arbitrary: i)
  case (Cons f fs)
  then show ?case using Cons.IH [of "i - 1"] by (cases i) auto
qed simp

lemma keys_update: "i < length fs \<Longrightarrow> pn_coalesce_key g = pn_coalesce_key (fs ! i) \<Longrightarrow> coalesce_keys (fs[i := g]) = coalesce_keys fs"
  by (induction fs arbitrary: i) (auto simp: keys_Cons nth_Cons split: nat.splits option.splits)

lemma coalescing_ok:
  assumes ok: "outbox_ok b"
  shows "outbox_ok (fst (admit_coalescing key l bytes label now b))"
proof (cases "key_position key (lane_of b l)")
  case None
  then have "key \<notin> set (coalesce_keys (lane_of b l))" by (simp add: key_position_None)
  then show ?thesis using insert_ok [OF ok, of "Some key" l] ok None by (auto simp: admit_coalescing_def split: sum.split)
next
  case (Some i)
  let ?old = "lane_of b l ! i"
  let ?new = "?old\<lparr>pn_bytes := bytes, pn_queued_at := now, pn_label := label\<rparr>"
  let ?count = "ob_byte_count b - length (pn_bytes ?old) + length bytes"
  have i: "i < length (lane_of b l)" using key_position_Some [OF Some] by simp
  note moved = lane_bytes_update [OF i, of ?new] and held = outbox_counts(2) [OF ok, of l]
  have lane: "outbox_lane_ok (ob_byte_cap b) l ((lane_of b l)[i := ?new])" if "length bytes \<le> ob_byte_cap b"
    using lane_of_ok [OF ok, of l] keys_update [OF i, of ?new] i that
    by (auto simp: outbox_lane_ok_def dest!: set_update_subset_insert [THEN subsetD])
  have "length (pn_bytes ?old) \<le> frames_bytes (lane_of b l)" using i by (intro member_le_sum_list) (auto intro!: image_eqI [where x = ?old])
  then have counts: "?count + frames_bytes (lane_of b l) = ob_byte_count b + frames_bytes ((lane_of b l)[i := ?new])" using moved held by simp
  have "outbox_ok (b\<lparr>ob_byte_count := ?count, ob_lanes := (ob_lanes b)(l := (lane_of b l)[i := ?new])\<rparr>)"
    if "length bytes \<le> ob_byte_cap b" "?count \<le> ob_byte_cap b"
    using that counts outbox_bound [OF ok] lane by (intro replaced_ok [OF ok, where l = l and fs = "(lane_of b l)[i := ?new]"]) simp_all
  then show ?thesis using ok Some by (auto simp: admit_coalescing_def refuse_oversized_def Let_def)
qed

section \<open>The machine\<close>

datatype outbox_op =
    Offered outbox_lane "8 word list" string nat
  | OfferedKeyed string outbox_lane "8 word list" string nat
  | DrainedOne nat
  | DrainedAll nat
  | Taken outbox_lane
  | Discarded outbox_lane

fun exec_outbox :: "outbox_op \<Rightarrow> outbox \<Rightarrow> outbox" where
  "exec_outbox (Offered l bytes label now) b = fst (outbox_admit l bytes label now b)"
| "exec_outbox (OfferedKeyed key l bytes label now) b = fst (admit_coalescing key l bytes label now b)"
| "exec_outbox (DrainedOne now) b = fst (drain_one now b)"
| "exec_outbox (DrainedAll now) b = fst (drain_all now b)"
| "exec_outbox (Taken l) b = fst (take_from l b)"
| "exec_outbox (Discarded l) b = fst (discard l b)"

lemma drain_all_ok: "outbox_ok b \<Longrightarrow> outbox_ok (fst (drain_all now b))"
proof (induction "waiting b" arbitrary: b rule: less_induct)
  case less
  obtain b' r where step: "drain_one now b = (b', r)" by force
  then have ok: "outbox_ok b'" using drain_one_ok [OF less.prems, of now] by simp
  show ?case using less.hyps [OF _ ok] drain_one_shrinks [of now b b'] step ok
    by (subst drain_all.simps) (auto simp: case_prod_beta split: option.split)
qed

lemma discard_ok: "outbox_ok b \<Longrightarrow> outbox_ok (discard_lane l b)"
proof (induction "waiting b" arbitrary: b rule: less_induct)
  case less
  obtain b' r where step: "take_from l b = (b', r)" by force
  then have ok: "outbox_ok b'" using take_from_ok [OF less.prems, of l] by simp
  show ?case using less.hyps [OF _ ok] take_from_shrinks [of l b b'] step ok
    by (subst discard_lane.simps) (auto split: option.split)
qed

interpretation outbox_machine: invariant_machine outbox_ok "\<lambda>_. True" exec_outbox
proof
  fix b op assume "outbox_ok b"
  then show "outbox_ok (exec_outbox op b)"
    by (cases op) (simp_all add: admit_ok coalescing_ok drain_one_ok drain_all_ok take_from_ok discard_def discard_ok)
qed

lemma caps_taken: "ob_cap (fst (take_from l b)) = ob_cap b \<and> ob_byte_cap (fst (take_from l b)) = ob_byte_cap b"
  by (simp add: take_from_def split: list.split)

lemma caps_lanes: "ob_cap (fst (drain_lanes ls b)) = ob_cap b \<and> ob_byte_cap (fst (drain_lanes ls b)) = ob_byte_cap b"
proof (induction ls arbitrary: b)
  case (Cons l ls)
  then show ?case using caps_taken [of l b] by (auto split: prod.splits option.splits)
qed simp

lemma caps_one: "ob_cap (fst (drain_one now b)) = ob_cap b \<and> ob_byte_cap (fst (drain_one now b)) = ob_byte_cap b"
  by (simp add: drain_one_def caps_taken caps_lanes split: list.split)

lemma caps_all: "ob_cap (fst (drain_all now b)) = ob_cap b \<and> ob_byte_cap (fst (drain_all now b)) = ob_byte_cap b"
proof (induction "waiting b" arbitrary: b rule: less_induct)
  case less
  obtain b' r where step: "drain_one now b = (b', r)" by force
  show ?case using less [of b'] drain_one_shrinks [of now b b'] caps_one [of now b] step
    by (subst (1 2) drain_all.simps) (auto simp: case_prod_beta split: option.split)
qed

lemma caps_discarded: "ob_cap (discard_lane l b) = ob_cap b \<and> ob_byte_cap (discard_lane l b) = ob_byte_cap b"
proof (induction "waiting b" arbitrary: b rule: less_induct)
  case less
  obtain b' r where step: "take_from l b = (b', r)" by force
  show ?case using less [of b'] take_from_shrinks [of l b b'] caps_taken [of l b] step
    by (subst (1 2) discard_lane.simps) (auto split: option.split)
qed

lemma caps_inserted:
  "ob_cap (fst (insert_frame l bytes label now key b)) = ob_cap b \<and> ob_byte_cap (fst (insert_frame l bytes label now key b)) = ob_byte_cap b"
  by (simp add: insert_frame_def push_frame_def evict_front_def Let_def split: sum.split list.split)

lemma caps_kept: "ob_cap (exec_outbox op b) = ob_cap b \<and> ob_byte_cap (exec_outbox op b) = ob_byte_cap b"
proof (cases op)
  case (OfferedKeyed key l bytes label now)
  then show ?thesis by (auto simp: admit_coalescing_def Let_def caps_inserted split: sum.split option.split)
qed (simp_all add: outbox_admit_def caps_inserted caps_one caps_all caps_taken discard_def caps_discarded)

lemma caps_run: "ob_cap (fold exec_outbox ops b) = ob_cap b \<and> ob_byte_cap (fold exec_outbox ops b) = ob_byte_cap b"
  by (induction ops arbitrary: b) (simp_all add: caps_kept)

text \<open>
  C19: The outbox counts exactly, and what may not be dropped stays within both caps. After any calls in any
  order from an empty outbox, the frame and byte counters are those of the frames that wait; a lane holds
  at most one frame per key; the liveness, durable, control and terminal frames together are within the
  frame cap and the byte cap; and the whole outbox is at most one frame over the frame cap.
\<close>

theorem outbox_counts_exact:
  assumes "b = fold exec_outbox ops (outbox_new cap byte_cap)"
  shows "ob_frame_count b = waiting b \<and> ob_byte_count b = waiting_bytes b \<and> (\<forall>l. distinct (coalesce_keys (lane_of b l)))
    \<and> undropped_frames b \<le> cap \<and> undropped_bytes b \<le> byte_cap \<and> waiting b \<le> cap + 1"
proof -
  have "outbox_ok b" unfolding assms by (rule outbox_machine.run_invar) (simp_all add: outbox_new_ok list_all_iff)
  moreover have "ob_cap b = cap" "ob_byte_cap b = byte_cap" unfolding assms by (simp_all add: caps_run) (simp_all add: outbox_new_def)
  ultimately show ?thesis by (simp add: outbox_ok_def outbox_lane_ok_def)
qed

text \<open>A full outbox takes one raw frame more.\<close>

theorem outbox_counts_exact_witness:
  "\<exists>b. b = fold exec_outbox [Offered Durable [1] ''opened'' 0, Offered RawMetadata [2] ''raw'' 0] (outbox_new 1 8)
     \<and> ob_frame_count b = 2 \<and> waiting b = 1 + 1 \<and> undropped_frames b \<le> 1"
proof -
  let ?b = "fold exec_outbox [Offered Durable [1] ''opened'' 0, Offered RawMetadata [2] ''raw'' 0] (outbox_new 1 8)"
  have "ob_frame_count ?b = 2" by code_simp
  then show ?thesis using outbox_counts_exact [of ?b, OF refl] by auto
qed

text \<open>
  The byte cap itself is not one: a raw frame that does not fit is queued all the same, behind the eviction
  of at most one raw frame.
\<close>

lemma raw_frame_passes_byte_cap:
  "ob_byte_count (fold exec_outbox [Offered Terminal [1, 2, 3, 4] ''cells'' 0, Offered RawMetadata [5, 6, 7, 8] ''raw'' 0] (outbox_new 10 4)) = 8"
  by code_simp

text \<open>
  C18: A drain empties the outbox in exactly the order the code's lane table gives. It ends, it returns every
  waiting frame once, and it returns them as: the raw metadata at the head of its lane that has waited a
  hundred milliseconds, then liveness, durable, control and terminal frames, each lane oldest first, then
  the rest of the raw metadata. So a session's durable \<open>opened\<close> is always ahead of every terminal frame that
  waits. This is the behaviour of the array \<open>DRAIN_ORDER\<close>, and it is not what the comments around it say:
  they have terminal frames drained last, always, and the raw lane ahead of them, while raw metadata that has
  not aged follows every terminal frame.
\<close>

theorem drain_order_exact:
  "snd (drain_all now b) = takeWhile (aged now) (lane_of b RawMetadata)
     @ lane_of b Liveness @ lane_of b Durable @ lane_of b Control @ lane_of b Terminal
     @ dropWhile (aged now) (lane_of b RawMetadata)
   \<and> waiting (fst (drain_all now b)) = 0"
  using drain_all_drained [of now b] by (simp add: drained_def waiting_def DRAIN_ORDER_def)

end
