(* ===== verification/Coord_Window.thy ===== *)
theory Coord_Window
  imports Roost_Prelude
begin

text \<open>
  The coordinator's cumulative acknowledgement window (\<open>roost-coord/src/sync_ws/ack_window.rs\<close>): what one
  Sync socket has sent and its client has not yet confirmed. Sequences and byte counts are unsigned 64-bit
  numbers, with the code's saturating additions; a saturating subtraction is the one of naturals.
\<close>

section \<open>The window\<close>

definition MAX_UNACKED_FRAMES :: nat where "MAX_UNACKED_FRAMES = 512"

definition MAX_UNACKED_BYTES :: nat where "MAX_UNACKED_BYTES = 4 * 1024 * 1024"

definition ACK_TIMEOUT_MS :: nat where "ACK_TIMEOUT_MS = 10000"

definition BACKPRESSURE_CLOSE_CODE :: nat where "BACKPRESSURE_CLOSE_CODE = 1013"

definition SYNC_BACKPRESSURE_REASON :: string where "SYNC_BACKPRESSURE_REASON = ''sync backpressure''"

definition INVALID_ACK_CLOSE_CODE :: nat where "INVALID_ACK_CLOSE_CODE = 1008"

definition INVALID_ACK_REASON :: string where "INVALID_ACK_REASON = ''invalid sync ack''"

datatype backpressure_reason = HighWater | WriteTimeout | FrameLimit | ByteLimit | AgeLimit

record window_stats =
  ws_unacked_frames :: nat
  ws_unacked_bytes :: nat
  ws_oldest_age_ms :: nat

record delivery_record =
  dr_seq :: nat
  dr_encoded_bytes :: nat
  dr_sent_at_ms :: nat

datatype window_close = Backpressure backpressure_reason window_stats | InvalidAck

record ack_window =
  aw_records :: "delivery_record list"
  aw_unacked_bytes :: nat
  aw_last_sent_seq :: nat
  aw_highest_ack_seq :: nat
  aw_enabled :: bool

definition ack_window_new :: "bool \<Rightarrow> ack_window" where
  "ack_window_new enabled = \<lparr>aw_records = [], aw_unacked_bytes = 0, aw_last_sent_seq = 0, aw_highest_ack_seq = 0, aw_enabled = enabled\<rparr>"

definition next_sequence :: "ack_window \<Rightarrow> nat" where
  "next_sequence w = saturating_add64 (aw_last_sent_seq w) 1"

definition has_room :: "nat \<Rightarrow> ack_window \<Rightarrow> bool" where
  "has_room encoded_bytes w \<longleftrightarrow>
     (\<not> aw_enabled w \<or> length (aw_records w) < MAX_UNACKED_FRAMES \<and> saturating_add64 (aw_unacked_bytes w) encoded_bytes \<le> MAX_UNACKED_BYTES)"

definition oldest_age :: "nat \<Rightarrow> ack_window \<Rightarrow> nat" where
  "oldest_age now_ms w = (case aw_records w of [] \<Rightarrow> 0 | oldest # _ \<Rightarrow> now_ms - dr_sent_at_ms oldest)"

definition stats :: "nat \<Rightarrow> ack_window \<Rightarrow> window_stats" where
  "stats now_ms w = \<lparr>ws_unacked_frames = length (aw_records w), ws_unacked_bytes = aw_unacked_bytes w, ws_oldest_age_ms = oldest_age now_ms w\<rparr>"

definition window_close_for :: "backpressure_reason \<Rightarrow> nat \<Rightarrow> ack_window \<Rightarrow> window_close" where
  "window_close_for reason now_ms w = Backpressure reason (stats now_ms w)"

definition may_send :: "nat \<Rightarrow> nat \<Rightarrow> ack_window \<Rightarrow> (window_close, unit) result" where
  "may_send encoded_bytes now_ms w =
     (if \<not> aw_enabled w then Ok ()
      else if MAX_UNACKED_FRAMES < length (aw_records w) + 1 then Err (window_close_for FrameLimit now_ms w)
      else if MAX_UNACKED_BYTES < saturating_add64 (aw_unacked_bytes w) encoded_bytes then Err (window_close_for ByteLimit now_ms w)
      else if ACK_TIMEOUT_MS \<le> oldest_age now_ms w then Err (window_close_for AgeLimit now_ms w)
      else Ok ())"

definition window_record_sent :: "nat \<Rightarrow> nat \<Rightarrow> ack_window \<Rightarrow> ack_window \<times> nat" where
  "window_record_sent encoded_bytes now_ms w =
     (if \<not> aw_enabled w then (w, 0)
      else
        let sequence = next_sequence w
        in (w\<lparr>aw_last_sent_seq := sequence, aw_unacked_bytes := saturating_add64 (aw_unacked_bytes w) encoded_bytes,
              aw_records := aw_records w @ [\<lparr>dr_seq = sequence, dr_encoded_bytes = encoded_bytes, dr_sent_at_ms = now_ms\<rparr>]\<rparr>, sequence))"

definition apply_ack :: "nat \<Rightarrow> ack_window \<Rightarrow> ack_window \<times> (window_close, nat) result" where
  "apply_ack ack_seq w =
     (if \<not> aw_enabled w then (w, Ok 0)
      else if aw_last_sent_seq w < ack_seq then (w, Err InvalidAck)
      else if ack_seq \<le> aw_highest_ack_seq w then (w, Ok 0)
      else
        let released = takeWhile (\<lambda>r. dr_seq r \<le> ack_seq) (aw_records w); count = length released
        in (w\<lparr>aw_unacked_bytes := fold (\<lambda>r b. b - dr_encoded_bytes r) released (aw_unacked_bytes w),
              aw_records := drop count (aw_records w), aw_highest_ack_seq := ack_seq\<rparr>, Ok count))"

definition age_deadline_passed :: "nat \<Rightarrow> ack_window \<Rightarrow> bool" where
  "age_deadline_passed now_ms w \<longleftrightarrow> aw_enabled w \<and> ACK_TIMEOUT_MS \<le> oldest_age now_ms w"

definition clear_window :: "ack_window \<Rightarrow> ack_window" where
  "clear_window w = w\<lparr>aw_records := [], aw_unacked_bytes := 0, aw_last_sent_seq := 0, aw_highest_ack_seq := 0\<rparr>"

section \<open>What the window owes\<close>

abbreviation record_bytes :: "delivery_record list \<Rightarrow> nat" where
  "record_bytes rs \<equiv> sum_list (map dr_encoded_bytes rs)"

text \<open>The records are the sent sequences above the acknowledged one, each once, within both bounds.\<close>

definition window_ok :: "ack_window \<Rightarrow> bool" where
  "window_ok w \<longleftrightarrow> aw_highest_ack_seq w \<le> aw_last_sent_seq w
     \<and> map dr_seq (aw_records w) = [aw_highest_ack_seq w + 1..<aw_last_sent_seq w + 1]
     \<and> aw_unacked_bytes w = record_bytes (aw_records w)
     \<and> length (aw_records w) \<le> MAX_UNACKED_FRAMES \<and> aw_unacked_bytes w \<le> MAX_UNACKED_BYTES"

lemma window_new_ok: "window_ok (ack_window_new enabled)"
  by (simp add: window_ok_def ack_window_new_def)

lemma record_sent_ok:
  assumes "window_ok w" "aw_enabled w" "may_send encoded_bytes now_ms w = Ok ()" "aw_last_sent_seq w < u64_max"
  shows "window_ok (fst (window_record_sent encoded_bytes now_ms w))"
proof -
  have room: "length (aw_records w) + 1 \<le> MAX_UNACKED_FRAMES" "saturating_add64 (aw_unacked_bytes w) encoded_bytes \<le> MAX_UNACKED_BYTES"
    using assms(2,3) by (auto simp: may_send_def window_close_for_def split: if_splits)
  then have "saturating_add64 (aw_unacked_bytes w) encoded_bytes = aw_unacked_bytes w + encoded_bytes"
    by (simp add: saturating_add64_def MAX_UNACKED_BYTES_def u64_max_def)
  moreover have "next_sequence w = aw_last_sent_seq w + 1" using assms(4) by (simp add: next_sequence_def saturating_add64_exact)
  ultimately show ?thesis using assms(1,2) room by (auto simp: window_ok_def window_record_sent_def Let_def)
qed

lemma consecutive_split:
  assumes "map f xs = [a..<b]" "a \<le> k" "k \<le> b"
  shows "takeWhile (\<lambda>x. f x < k) xs = take (k - a) xs"
proof (rule takeWhile_eq_take_P_nth)
  have len: "length xs = b - a" using assms(1) by (metis length_map length_upt)
  have nth: "f (xs ! i) = a + i" if "i < length xs" for i
    using that assms(1) len by (metis nth_map nth_upt less_diff_conv add.commute)
  fix i assume "i < k - a" "i < length xs"
  then show "f (xs ! i) < k" using nth by simp
next
  have len: "length xs = b - a" using assms(1) by (metis length_map length_upt)
  assume "k - a < length xs"
  then have "f (xs ! (k - a)) = a + (k - a)" using assms(1) len by (metis nth_map nth_upt less_diff_conv add.commute)
  then show "\<not> f (xs ! (k - a)) < k" using assms(2) by simp
qed

lemma fold_minus: "fold (\<lambda>r b. b - g r) rs (x :: nat) = x - sum_list (map g rs)"
  by (induction rs arbitrary: x) auto

lemma apply_ack_ok:
  assumes "window_ok w"
  shows "window_ok (fst (apply_ack ack_seq w))"
proof (cases "aw_enabled w \<and> ack_seq \<le> aw_last_sent_seq w \<and> aw_highest_ack_seq w < ack_seq")
  case True
  let ?rs = "aw_records w" and ?n = "ack_seq - aw_highest_ack_seq w"
  have seqs: "map dr_seq ?rs = [aw_highest_ack_seq w + 1..<aw_last_sent_seq w + 1]"
    and bytes: "aw_unacked_bytes w = record_bytes ?rs" "length ?rs \<le> MAX_UNACKED_FRAMES" "aw_unacked_bytes w \<le> MAX_UNACKED_BYTES"
    using assms by (simp_all add: window_ok_def)
  have "takeWhile (\<lambda>r. dr_seq r < ack_seq + 1) ?rs = take (ack_seq + 1 - (aw_highest_ack_seq w + 1)) ?rs"
    using True by (intro consecutive_split [OF seqs]) auto
  then have taken: "takeWhile (\<lambda>r. dr_seq r \<le> ack_seq) ?rs = take ?n ?rs" by (simp add: less_Suc_eq_le)
  have "length ?rs = aw_last_sent_seq w - aw_highest_ack_seq w" using arg_cong [OF seqs, of length] by (simp del: upt_Suc)
  then have n: "length (take ?n ?rs) = ?n" using True by auto
  have "record_bytes ?rs = record_bytes (take ?n ?rs) + record_bytes (drop ?n ?rs)"
    by (metis append_take_drop_id map_append sum_list_append)
  then have "fold (\<lambda>r b. b - dr_encoded_bytes r) (take ?n ?rs) (aw_unacked_bytes w) = record_bytes (drop ?n ?rs)"
    and "record_bytes (drop ?n ?rs) \<le> MAX_UNACKED_BYTES" using bytes by (simp_all add: fold_minus)
  moreover have "map dr_seq (drop ?n ?rs) = [ack_seq + 1..<aw_last_sent_seq w + 1]"
    using True seqs by (simp add: drop_map [symmetric] del: upt_Suc)
  ultimately show ?thesis using True n bytes(2)
    by (auto simp: apply_ack_def Let_def taken window_ok_def simp del: upt_Suc)
qed (use assms in \<open>auto simp: apply_ack_def\<close>)

text \<open>An acknowledgement releases exactly what it newly covers, and never fewer than it says.\<close>

lemma apply_ack_counts:
  assumes "window_ok w" "aw_enabled w" "ack_seq \<le> aw_last_sent_seq w" "aw_highest_ack_seq w < ack_seq"
  shows "snd (apply_ack ack_seq w) = Ok (ack_seq - aw_highest_ack_seq w)"
proof -
  have seqs: "map dr_seq (aw_records w) = [aw_highest_ack_seq w + 1..<aw_last_sent_seq w + 1]" using assms(1) by (simp add: window_ok_def)
  have "takeWhile (\<lambda>r. dr_seq r < ack_seq + 1) (aw_records w) = take (ack_seq + 1 - (aw_highest_ack_seq w + 1)) (aw_records w)"
    using assms(3,4) by (intro consecutive_split [OF seqs]) auto
  moreover have "length (aw_records w) = aw_last_sent_seq w - aw_highest_ack_seq w" using arg_cong [OF seqs, of length] by (simp del: upt_Suc)
  ultimately show ?thesis using assms(2-4) by (simp add: apply_ack_def Let_def less_Suc_eq_le)
qed

end
