(* ===== verification/Coord_Delivery.thy ===== *)
theory Coord_Delivery
  imports Coord_Window "HOL-Library.Word" "HOL-Library.Sublist"
begin

text \<open>
  A Sync v1 socket of the coordinator (\<open>roost-coord/src/sync_ws/v1_seed.rs\<close>, \<open>v1_delivery.rs\<close>, and the v1
  arms of \<open>driver.rs\<close>, \<open>ingress.rs\<close> and \<open>socket.rs\<close>): the retained seed paced by the client's
  acknowledgements, the live frames held behind it, the guarded send, and the one close a socket decides.
  A frame is a generated protobuf message: its type and its encoder are parameters.
\<close>

section \<open>Frames and the socket buffer\<close>

text \<open>
  The encoder: \<open>fc_encode (Some n) f\<close> is the encoding of the frame with its delivery sequence set to \<open>n\<close>,
  \<open>fc_encode None f\<close> as it stands; \<open>None\<close> is an encoding error. \<open>fc_len\<close> is the length the library
  computes for the unstamped frame.
\<close>

record 'f frame_codec =
  fc_encode :: "nat option \<Rightarrow> 'f \<Rightarrow> 8 word list option"
  fc_len :: "'f \<Rightarrow> nat option"
  fc_kind :: "'f \<Rightarrow> string"

definition SOCKET_HIGH_WATER_BYTES :: nat where "SOCKET_HIGH_WATER_BYTES = 8 * 1024 * 1024"

record sync_outbox =
  so_frames :: "8 word list list"
  so_bytes :: nat

definition sync_outbox_push :: "8 word list \<Rightarrow> sync_outbox \<Rightarrow> sync_outbox \<times> bool" where
  "sync_outbox_push encoded ob =
     (let bytes = saturating_add64 (so_bytes ob) (length encoded)
      in (\<lparr>so_frames = so_frames ob @ [encoded], so_bytes = bytes\<rparr>, bytes \<le> SOCKET_HIGH_WATER_BYTES))"

definition sync_outbox_take :: "sync_outbox \<Rightarrow> sync_outbox \<times> 8 word list list" where
  "sync_outbox_take ob = (\<lparr>so_frames = [], so_bytes = 0\<rparr>, so_frames ob)"

section \<open>The paced seed\<close>

type_synonym v1_send_refusal = "backpressure_reason \<times> string"

datatype seed_halt = SeedRefused v1_send_refusal | SeedUnsent string

datatype 'f seed_step = SeedWait | SeedSend 'f "nat option" | SeedDone

record 'f v1_paced_seed =
  sd_retained :: "'f list"
  sd_live :: "('f \<times> nat) list"
  sd_live_bytes :: nat
  sd_in_flight :: "(nat \<times> nat option) option"

definition v1_paced_seed_new :: "'f list \<Rightarrow> 'f v1_paced_seed" where
  "v1_paced_seed_new retained = \<lparr>sd_retained = retained, sd_live = [], sd_live_bytes = 0, sd_in_flight = None\<rparr>"

definition in_flight_live :: "'f v1_paced_seed \<Rightarrow> nat" where
  "in_flight_live s = (case sd_in_flight s of Some (_, Some _) \<Rightarrow> 1 | _ \<Rightarrow> 0)"

definition queue_live :: "'f frame_codec \<Rightarrow> 'f \<Rightarrow> 'f v1_paced_seed \<Rightarrow> 'f v1_paced_seed \<times> (v1_send_refusal, unit) result" where
  "queue_live c frame s =
     (if MAX_UNACKED_FRAMES \<le> length (sd_live s) + in_flight_live s then (s, Err (FrameLimit, fc_kind c frame))
      else
        let bytes = (case fc_len c frame of Some n \<Rightarrow> n | None \<Rightarrow> u64_max)
        in if MAX_UNACKED_BYTES - sd_live_bytes s < bytes then (s, Err (ByteLimit, fc_kind c frame))
           else (s\<lparr>sd_live_bytes := sd_live_bytes s + bytes, sd_live := sd_live s @ [(frame, bytes)]\<rparr>, Ok ()))"

definition settle_in_flight :: "nat \<Rightarrow> 'f v1_paced_seed \<Rightarrow> 'f v1_paced_seed option" where
  "settle_in_flight acknowledged s =
     (case sd_in_flight s of
        Some (sequence, live_bytes) \<Rightarrow>
          if acknowledged < sequence then None
          else Some (s\<lparr>sd_in_flight := None,
                 sd_live_bytes := sd_live_bytes s - (case live_bytes of Some n \<Rightarrow> n | None \<Rightarrow> 0)\<rparr>)
      | None \<Rightarrow> Some s)"

definition next_step :: "nat \<Rightarrow> nat \<Rightarrow> 'f v1_paced_seed \<Rightarrow> 'f v1_paced_seed \<times> 'f seed_step" where
  "next_step acknowledged unacked_frames s =
     (case settle_in_flight acknowledged s of
        None \<Rightarrow> (s, SeedWait)
      | Some s \<Rightarrow>
          if sd_retained s = [] \<and> sd_live s = [] then (s, SeedDone)
          else if 0 < unacked_frames then (s, SeedWait)
          else
            (case sd_retained s of
               frame # rest \<Rightarrow> (s\<lparr>sd_retained := rest\<rparr>, SeedSend frame None)
             | [] \<Rightarrow>
                 (case sd_live s of
                    (frame, bytes) # rest \<Rightarrow> (s\<lparr>sd_live := rest\<rparr>, SeedSend frame (Some bytes))
                  | [] \<Rightarrow> (s, SeedDone))))"

definition mark_sent :: "nat \<Rightarrow> nat option \<Rightarrow> 'f v1_paced_seed \<Rightarrow> 'f v1_paced_seed" where
  "mark_sent sequence live_bytes s = s\<lparr>sd_in_flight := Some (sequence, live_bytes)\<rparr>"

section \<open>Delivery\<close>

text \<open>\<open>vd_seeded\<close> is whether the signal the backfill waits on has been sent.\<close>

record 'f v1_delivery =
  vd_window :: ack_window
  vd_seed :: "'f v1_paced_seed option"
  vd_seeded :: bool

definition v1_delivery_new :: "bool \<Rightarrow> 'f v1_delivery" where
  "v1_delivery_new flow_control = \<lparr>vd_window = ack_window_new flow_control, vd_seed = None, vd_seeded = False\<rparr>"

definition with_paced_seed :: "'f list \<Rightarrow> 'f v1_delivery" where
  "with_paced_seed retained = \<lparr>vd_window = ack_window_new True, vd_seed = Some (v1_paced_seed_new retained), vd_seeded = False\<rparr>"

definition send_guarded :: "'f frame_codec \<Rightarrow> 'f \<Rightarrow> nat \<Rightarrow> 'f v1_delivery \<times> sync_outbox \<Rightarrow> ('f v1_delivery \<times> sync_outbox) \<times> (v1_send_refusal, bool) result" where
  "send_guarded c frame now_ms = (\<lambda>(d, ob).
     let w = vd_window d; kind = fc_kind c frame
     in (case fc_encode c (if aw_enabled w then Some (next_sequence w) else None) frame of
           None \<Rightarrow> ((d, ob), Ok False)
         | Some encoded \<Rightarrow>
             (case may_send (length encoded) now_ms w of
                Err (Backpressure reason _) \<Rightarrow> ((d, ob), Err (reason, kind))
              | _ \<Rightarrow>
                  let d = d\<lparr>vd_window := fst (window_record_sent (length encoded) now_ms w)\<rparr>;
                      (ob, accepted) = sync_outbox_push encoded ob
                  in if accepted then ((d, ob), Ok True) else ((d, ob), Err (HighWater, kind)))))"

definition push_live :: "'f frame_codec \<Rightarrow> 'f \<Rightarrow> nat \<Rightarrow> 'f v1_delivery \<times> sync_outbox \<Rightarrow> ('f v1_delivery \<times> sync_outbox) \<times> (v1_send_refusal, unit) result" where
  "push_live c frame now_ms = (\<lambda>(d, ob).
     case vd_seed d of
       Some s \<Rightarrow> (let (s, r) = queue_live c frame s in ((d\<lparr>vd_seed := Some s\<rparr>, ob), r))
     | None \<Rightarrow> (let (x, r) = send_guarded c frame now_ms (d, ob) in (x, map_sum id (\<lambda>_. ()) r)))"

definition seed_left :: "'f v1_delivery \<Rightarrow> nat" where
  "seed_left d = (case vd_seed d of None \<Rightarrow> 0 | Some s \<Rightarrow> length (sd_retained s) + length (sd_live s))"

lemma next_step_shrinks:
  "next_step a u s = (s', SeedSend f b) \<Longrightarrow> length (sd_retained s') + length (sd_live s') < length (sd_retained s) + length (sd_live s)"
  by (auto simp: next_step_def settle_in_flight_def split: option.splits list.splits if_splits)

lemma send_guarded_seed: "vd_seed (fst (fst (send_guarded c f now x))) = vd_seed (fst x)"
  by (auto simp: send_guarded_def Let_def split: prod.splits option.splits sum.splits window_close.splits)

lemma pump_step_shrinks:
  assumes "next_step a u s = (s', SeedSend f b)" "send_guarded c f now (d\<lparr>vd_seed := Some s'\<rparr>, ob) = ((d', ob'), r)" "vd_seed d = Some s"
  shows "seed_left (d'\<lparr>vd_seed := map_option (mark_sent q b) (vd_seed d')\<rparr>) < seed_left d"
proof -
  have "vd_seed d' = Some s'" using send_guarded_seed [of c f now "(d\<lparr>vd_seed := Some s'\<rparr>, ob)"] assms(2) by simp
  then show ?thesis using next_step_shrinks [OF assms(1)] assms(3) by (simp add: seed_left_def mark_sent_def)
qed

function pump_seed :: "'f frame_codec \<Rightarrow> nat \<Rightarrow> 'f v1_delivery \<times> sync_outbox \<Rightarrow> ('f v1_delivery \<times> sync_outbox) \<times> (seed_halt, unit) result" where
  "pump_seed c now_ms (d, ob) =
     (case vd_seed d of
        None \<Rightarrow> ((d, ob), Ok ())
      | Some s \<Rightarrow>
          (case next_step (aw_highest_ack_seq (vd_window d)) (ws_unacked_frames (stats now_ms (vd_window d))) s of
             (s, SeedWait) \<Rightarrow> ((d\<lparr>vd_seed := Some s\<rparr>, ob), Ok ())
           | (s, SeedDone) \<Rightarrow> ((d\<lparr>vd_seed := None, vd_seeded := True\<rparr>, ob), Ok ())
           | (s, SeedSend frame live_bytes) \<Rightarrow>
               (let sequence = next_sequence (vd_window d)
                in (case send_guarded c frame now_ms (d\<lparr>vd_seed := Some s\<rparr>, ob) of
                      (x, Err refusal) \<Rightarrow> (x, Err (SeedRefused refusal))
                    | (x, Ok False) \<Rightarrow> (x, Err (SeedUnsent (fc_kind c frame)))
                    | ((d, ob), Ok True) \<Rightarrow>
                        pump_seed c now_ms (d\<lparr>vd_seed := map_option (mark_sent sequence live_bytes) (vd_seed d)\<rparr>, ob)))))"
  by pat_completeness auto
termination
  by (relation "measure (\<lambda>(c, now, d, ob). seed_left d)") (auto intro!: pump_step_shrinks dest: sym)

declare pump_seed.simps [simp del]

section \<open>The link\<close>

record client_frame =
  cf_ack_delivery_seq :: "nat option"
  cf_command :: bool
  cf_socket_id :: string

definition accept_ack :: "client_frame \<Rightarrow> 'f v1_delivery \<Rightarrow> 'f v1_delivery \<times> (unit, nat) result" where
  "accept_ack frame d =
     (let ack = (case cf_ack_delivery_seq frame of Some n \<Rightarrow> n | None \<Rightarrow> 0)
      in if ack = 0 \<or> cf_command frame \<or> cf_socket_id frame \<noteq> [] then (d, Err ())
         else let (w, r) = apply_ack ack (vd_window d) in (d\<lparr>vd_window := w\<rparr>, map_sum (\<lambda>_. ()) id r))"

record link_close =
  lc_code :: nat
  lc_reason :: string

definition CLOSE_BACKPRESSURE :: link_close where
  "CLOSE_BACKPRESSURE = \<lparr>lc_code = BACKPRESSURE_CLOSE_CODE, lc_reason = SYNC_BACKPRESSURE_REASON\<rparr>"

definition CLOSE_INVALID_ACK :: link_close where
  "CLOSE_INVALID_ACK = \<lparr>lc_code = INVALID_ACK_CLOSE_CODE, lc_reason = INVALID_ACK_REASON\<rparr>"

record 'f v1_link =
  vl_delivery :: "'f v1_delivery"
  vl_outbox :: sync_outbox
  vl_close :: "link_close option"

definition decide_close :: "link_close \<Rightarrow> 'f v1_link \<Rightarrow> 'f v1_link" where
  "decide_close close l = (if vl_close l \<noteq> None then l else l\<lparr>vl_close := Some close\<rparr>)"

definition put_link :: "('f v1_delivery \<times> sync_outbox) \<Rightarrow> 'f v1_link \<Rightarrow> 'f v1_link" where
  "put_link x l = l\<lparr>vl_delivery := fst x, vl_outbox := snd x\<rparr>"

definition deliver :: "'f frame_codec \<Rightarrow> 'f \<Rightarrow> nat \<Rightarrow> 'f v1_link \<Rightarrow> 'f v1_link" where
  "deliver c frame now_ms l =
     (if vl_close l \<noteq> None then l
      else (case push_live c frame now_ms (vl_delivery l, vl_outbox l) of
              (x, Err _) \<Rightarrow> decide_close CLOSE_BACKPRESSURE (put_link x l)
            | (x, Ok _) \<Rightarrow> put_link x l))"

definition send_control :: "'f frame_codec \<Rightarrow> 'f \<Rightarrow> nat \<Rightarrow> 'f v1_link \<Rightarrow> 'f v1_link" where
  "send_control c frame now_ms l =
     (if vl_close l \<noteq> None then l
      else (case send_guarded c frame now_ms (vl_delivery l, vl_outbox l) of
              (x, Err _) \<Rightarrow> decide_close CLOSE_BACKPRESSURE (put_link x l)
            | (x, Ok _) \<Rightarrow> put_link x l))"

definition pump_v1_seed :: "'f frame_codec \<Rightarrow> nat \<Rightarrow> 'f v1_link \<Rightarrow> 'f v1_link" where
  "pump_v1_seed c now_ms l =
     (if vl_close l \<noteq> None then l
      else (case pump_seed c now_ms (vl_delivery l, vl_outbox l) of
              (x, Err _) \<Rightarrow> decide_close CLOSE_BACKPRESSURE (put_link x l)
            | (x, Ok _) \<Rightarrow> put_link x l))"

text \<open>\<open>None\<close> is a client frame that does not decode or is not in its canonical form.\<close>

definition accept_client_frame :: "client_frame option \<Rightarrow> 'f v1_link \<Rightarrow> 'f v1_link" where
  "accept_client_frame decoded l =
     (if vl_close l \<noteq> None \<or> \<not> aw_enabled (vd_window (vl_delivery l)) then l
      else (case decoded of
              None \<Rightarrow> decide_close CLOSE_INVALID_ACK l
            | Some frame \<Rightarrow>
                (case accept_ack frame (vl_delivery l) of
                   (d, Err _) \<Rightarrow> decide_close CLOSE_INVALID_ACK (l\<lparr>vl_delivery := d\<rparr>)
                 | (d, Ok _) \<Rightarrow> l\<lparr>vl_delivery := d\<rparr>)))"

definition refuse_text_frame :: "'f v1_link \<Rightarrow> 'f v1_link" where
  "refuse_text_frame l = (if aw_enabled (vd_window (vl_delivery l)) then decide_close CLOSE_INVALID_ACK l else l)"

definition ack_deadline_in_ms :: "nat \<Rightarrow> 'f v1_link \<Rightarrow> nat option" where
  "ack_deadline_in_ms now_ms l =
     (let st = stats now_ms (vd_window (vl_delivery l))
      in if vl_close l = None \<and> 0 < ws_unacked_frames st then Some (ACK_TIMEOUT_MS - ws_oldest_age_ms st) else None)"

definition enforce_ack_deadline :: "nat \<Rightarrow> 'f v1_link \<Rightarrow> 'f v1_link" where
  "enforce_ack_deadline now_ms l = (if ack_deadline_in_ms now_ms l = Some 0 then decide_close CLOSE_BACKPRESSURE l else l)"

text \<open>
  How a v1 socket opens: with \<open>flow=1\<close> its retained frames are paced by acknowledgements; without, they are
  handed back and delivered in one burst, and nothing is numbered or awaited.
\<close>

definition open_v1_delivery :: "bool \<Rightarrow> 'f list \<Rightarrow> 'f v1_delivery \<times> 'f list" where
  "open_v1_delivery flow_control retained =
     (if \<not> flow_control then (v1_delivery_new False, retained) else (with_paced_seed retained, []))"

definition link_over :: "'f v1_delivery \<Rightarrow> 'f v1_link" where
  "link_over d = \<lparr>vl_delivery = d, vl_outbox = \<lparr>so_frames = [], so_bytes = 0\<rparr>, vl_close = None\<rparr>"

definition open_v1_link :: "'f list \<Rightarrow> 'f v1_link" where
  "open_v1_link retained = link_over (fst (open_v1_delivery True retained))"

section \<open>The machine\<close>

text \<open>
  Everything the socket task and the feed do to a v1 link: deliver a feed frame, send a control or the
  keepalive, run a flush turn, hand the buffer to the socket, read a client frame, a text frame, the
  acknowledgement deadline, a failed write.
\<close>

datatype 'f v1_op =
    V1Delivered 'f nat
  | V1Controlled 'f nat
  | V1Flushed nat
  | V1Taken
  | V1Received "client_frame option"
  | V1Text
  | V1Deadline nat
  | V1WriteFailed

fun exec_v1 :: "'f frame_codec \<Rightarrow> 'f v1_op \<Rightarrow> 'f v1_link \<Rightarrow> 'f v1_link" where
  "exec_v1 c (V1Delivered frame now) l = deliver c frame now l"
| "exec_v1 c (V1Controlled frame now) l = send_control c frame now l"
| "exec_v1 c (V1Flushed now) l = pump_v1_seed c now l"
| "exec_v1 c V1Taken l = l\<lparr>vl_outbox := fst (sync_outbox_take (vl_outbox l))\<rparr>"
| "exec_v1 c (V1Received decoded) l = accept_client_frame decoded l"
| "exec_v1 c V1Text l = refuse_text_frame l"
| "exec_v1 c (V1Deadline now) l = enforce_ack_deadline now l"
| "exec_v1 c V1WriteFailed l = decide_close CLOSE_BACKPRESSURE l"


text \<open>
  The feed a link owes its client: every frame offered to it before it decided to close, whatever became of
  the frame, save one that would be sent at once and that the encoder refuses, which the code logs and
  drops (\<open>send_guarded\<close>, \<open>Ok(false)\<close>).
\<close>

definition stamp :: "ack_window \<Rightarrow> nat option" where
  "stamp w = (if aw_enabled w then Some (next_sequence w) else None)"

definition feed_offered :: "'f frame_codec \<Rightarrow> 'f v1_op \<Rightarrow> 'f v1_link \<Rightarrow> 'f list" where
  "feed_offered c op l =
     (case op of
        V1Delivered frame now \<Rightarrow>
          if vl_close l \<noteq> None then []
          else if vd_seed (vl_delivery l) = None \<and> fc_encode c (stamp (vd_window (vl_delivery l))) frame = None then []
          else [frame]
      | _ \<Rightarrow> [])"

text \<open>The link with what was handed to the socket so far and the feed it was owed so far.\<close>

definition step_v1 :: "'f frame_codec \<Rightarrow> 'f v1_op \<Rightarrow> 'f v1_link \<times> 8 word list list \<times> 'f list \<Rightarrow> 'f v1_link \<times> 8 word list list \<times> 'f list" where
  "step_v1 c op x = (case x of (l, written, feed) \<Rightarrow>
     let l' = exec_v1 c op l
     in (l', written @ (case op of V1Taken \<Rightarrow> so_frames (vl_outbox l) | _ \<Rightarrow> []), feed @ feed_offered c op l))"

section \<open>The stream a client sees\<close>

text \<open>Frames encoded under consecutive delivery sequences from one on.\<close>

definition wire_of :: "'f frame_codec \<Rightarrow> 'f list \<Rightarrow> 8 word list list" where
  "wire_of c fs = map (\<lambda>(n, f). the (fc_encode c (Some n) f)) (List.enumerate 1 fs)"








lemma record_sent_last: "aw_enabled w \<Longrightarrow> aw_last_sent_seq (fst (window_record_sent n now w)) = saturating_add64 (aw_last_sent_seq w) 1"
  by (simp add: window_record_sent_def next_sequence_def Let_def)

lemma record_sent_enabled [simp]: "aw_enabled (fst (window_record_sent n now w)) = aw_enabled w"
  by (simp add: window_record_sent_def Let_def)









section \<open>Every call keeps the stream\<close>




lemma apply_ack_keeps [simp]:
  "aw_enabled (fst (apply_ack n w)) = aw_enabled w" "aw_last_sent_seq (fst (apply_ack n w)) = aw_last_sent_seq w"
  by (simp_all add: apply_ack_def Let_def)















lemma plain_delivery [simp]:
  "vd_seed (v1_delivery_new False) = None" "vd_window (v1_delivery_new False) = ack_window_new False"
  "aw_enabled (ack_window_new False) = False" "aw_records (ack_window_new False) = []"
  by (simp_all add: v1_delivery_new_def ack_window_new_def)












text \<open>A control is stamped with the next delivery sequence and charged to the window, like a feed frame.\<close>

lemma controls_take_sequences:
  assumes "vl_close l = None" "aw_enabled (vd_window (vl_delivery l))" "aw_last_sent_seq (vd_window (vl_delivery l)) < u64_max"
    and "fc_encode c (Some (aw_last_sent_seq (vd_window (vl_delivery l)) + 1)) f = Some encoded"
    and "may_send (length encoded) now (vd_window (vl_delivery l)) = Ok ()"
  shows "so_frames (vl_outbox (send_control c f now l)) = so_frames (vl_outbox l) @ [encoded]
    \<and> aw_last_sent_seq (vd_window (vl_delivery (send_control c f now l))) = aw_last_sent_seq (vd_window (vl_delivery l)) + 1
    \<and> length (aw_records (vd_window (vl_delivery (send_control c f now l)))) = length (aw_records (vd_window (vl_delivery l))) + 1"
proof -
  have "next_sequence (vd_window (vl_delivery l)) = aw_last_sent_seq (vd_window (vl_delivery l)) + 1"
    using assms(3) by (simp add: next_sequence_def saturating_add64_exact)
  then show ?thesis using assms
    by (simp add: send_control_def send_guarded_def sync_outbox_push_def window_record_sent_def put_link_def decide_close_def Let_def)
qed

section \<open>An acknowledging client gets the whole seed\<close>

definition bare_ack :: "nat \<Rightarrow> 'f v1_op" where
  "bare_ack n = V1Received (Some \<lparr>cf_ack_delivery_seq = Some n, cf_command = False, cf_socket_id = []\<rparr>)"

text \<open>Between two turns of the pacing: everything sent is acknowledged and the buffer is empty.\<close>

definition paced :: "'f list \<Rightarrow> nat \<Rightarrow> 'f v1_link \<Rightarrow> bool" where
  "paced fs n l \<longleftrightarrow> vl_close l = None \<and> vl_outbox l = \<lparr>so_frames = [], so_bytes = 0\<rparr>
     \<and> window_ok (vd_window (vl_delivery l)) \<and> aw_enabled (vd_window (vl_delivery l))
     \<and> aw_last_sent_seq (vd_window (vl_delivery l)) = n \<and> aw_highest_ack_seq (vd_window (vl_delivery l)) = n
     \<and> (\<exists>s. vd_seed (vl_delivery l) = Some s \<and> sd_retained s @ map fst (sd_live s) = fs
          \<and> (\<forall>k b. sd_in_flight s = Some (k, b) \<longrightarrow> k \<le> n))"

lemma paced_settles:
  assumes "\<forall>k b. sd_in_flight s = Some (k, b) \<longrightarrow> k \<le> n"
  obtains s' where "settle_in_flight n s = Some s'" "sd_retained s' = sd_retained s" "sd_live s' = sd_live s" "sd_in_flight s' = None"
  using assms by (cases "sd_in_flight s") (auto simp: settle_in_flight_def)

lemma paced_next:
  assumes queue: "sd_retained s @ map fst (sd_live s) = f # fs" and "\<forall>k b. sd_in_flight s = Some (k, b) \<longrightarrow> k \<le> n"
  obtains s' b where "next_step n 0 s = (s', SeedSend f b)" "sd_retained s' @ map fst (sd_live s') = fs"
proof -
  obtain s1 where s1: "settle_in_flight n s = Some s1" "sd_retained s1 = sd_retained s" "sd_live s1 = sd_live s"
    using paced_settles [OF assms(2)] by metis
  show ?thesis
  proof (cases "sd_retained s")
    case Nil
    then obtain b rest where live: "sd_live s = (f, b) # rest" "map fst rest = fs" using queue by auto
    have "next_step n 0 s = (s1\<lparr>sd_live := rest\<rparr>, SeedSend f (Some b))" using s1 Nil live by (simp add: next_step_def)
    then show ?thesis using that [of "s1\<lparr>sd_live := rest\<rparr>"] s1 Nil live by simp
  next
    case (Cons g rest)
    have "next_step n 0 s = (s1\<lparr>sd_retained := rest\<rparr>, SeedSend f None)" using s1 Cons queue by (simp add: next_step_def)
    then show ?thesis using that [of "s1\<lparr>sd_retained := rest\<rparr>"] s1 Cons queue by simp
  qed
qed

lemma next_step_waits: "n < k \<Longrightarrow> sd_in_flight s = Some (k, b) \<Longrightarrow> next_step n u s = (s, SeedWait)"
  by (simp add: next_step_def settle_in_flight_def)

lemma idle_window:
  assumes "window_ok w" "aw_last_sent_seq w = n" "aw_highest_ack_seq w = n"
  shows "aw_records w = []" and "aw_unacked_bytes w = 0"
  using assms by (auto simp: window_ok_def)

text \<open>One flush turn of a paced link puts the next frame into the buffer and waits for its acknowledgement.\<close>

lemma paced_pump:
  assumes paced: "paced (f # fs) n l" and enc: "fc_encode c (Some (n + 1)) f = Some encoded" "length encoded \<le> MAX_UNACKED_BYTES"
    and n: "n < u64_max"
  obtains s' b where "pump_v1_seed c now l = l\<lparr>vl_delivery := (vl_delivery l)\<lparr>vd_window := fst (window_record_sent (length encoded) now (vd_window (vl_delivery l))),
        vd_seed := Some s'\<rparr>, vl_outbox := \<lparr>so_frames = [encoded], so_bytes = length encoded\<rparr>\<rparr>"
    "sd_retained s' @ map fst (sd_live s') = fs" "sd_in_flight s' = Some (n + 1, b)"
    "window_ok (fst (window_record_sent (length encoded) now (vd_window (vl_delivery l))))"
proof -
  let ?d = "vl_delivery l" and ?ob = "\<lparr>so_frames = [], so_bytes = 0\<rparr>"
  let ?w = "vd_window ?d"
  let ?w' = "fst (window_record_sent (length encoded) now ?w)"
  have w: "window_ok ?w" "aw_enabled ?w" "aw_last_sent_seq ?w = n" "aw_highest_ack_seq ?w = n" and l: "vl_close l = None" "vl_outbox l = ?ob"
    using paced by (simp_all add: paced_def)
  obtain s where s: "vd_seed ?d = Some s" "sd_retained s @ map fst (sd_live s) = f # fs" "\<forall>k b. sd_in_flight s = Some (k, b) \<longrightarrow> k \<le> n"
    using paced by (auto simp: paced_def)
  obtain s1 b where s1: "next_step n 0 s = (s1, SeedSend f b)" "sd_retained s1 @ map fst (sd_live s1) = fs" using paced_next [OF s(2,3)] by metis
  note idle = idle_window [OF w(1,3,4)]
  have seq: "next_sequence ?w = n + 1" using n w(3) by (simp add: next_sequence_def saturating_add64_exact)
  have small: "saturating_add64 0 (length encoded) = length encoded" using enc(2) by (simp add: saturating_add64_def MAX_UNACKED_BYTES_def u64_max_def)
  have may: "may_send (length encoded) now ?w = Ok ()" using w idle enc(2) small
    by (simp add: may_send_def oldest_age_def MAX_UNACKED_FRAMES_def ACK_TIMEOUT_MS_def)
  have push: "sync_outbox_push encoded ?ob = (\<lparr>so_frames = [encoded], so_bytes = length encoded\<rparr>, True)"
    using enc(2) small by (simp add: sync_outbox_push_def SOCKET_HIGH_WATER_BYTES_def MAX_UNACKED_BYTES_def Let_def)
  let ?d1 = "?d\<lparr>vd_window := ?w', vd_seed := Some (mark_sent (n + 1) b s1)\<rparr>"
  have sg: "send_guarded c f now (?d\<lparr>vd_seed := Some s1\<rparr>, ?ob)
      = ((?d\<lparr>vd_window := ?w', vd_seed := Some s1\<rparr>, \<lparr>so_frames = [encoded], so_bytes = length encoded\<rparr>), Ok True)"
    using w(2) seq enc(1) may push by (simp add: send_guarded_def Let_def)
  have high: "aw_highest_ack_seq ?w' = n" using w by (simp add: window_record_sent_def Let_def)
  have wait: "next_step n u (mark_sent (n + 1) b s1) = (mark_sent (n + 1) b s1, SeedWait)" for u
    by (rule next_step_waits) (simp_all add: mark_sent_def)
  have waits: "pump_seed c now (?d1, ob) = ((?d1, ob), Ok ())" for ob
    using wait high by (simp add: pump_seed.simps)
  have "pump_seed c now (?d, ?ob) = pump_seed c now (?d1, \<lparr>so_frames = [encoded], so_bytes = length encoded\<rparr>)"
    using s(1) s1(1) w(4) idle(1) sg seq by (simp add: pump_seed.simps [of c now ?d] stats_def Let_def)
  then have "pump_v1_seed c now l = l\<lparr>vl_delivery := ?d1, vl_outbox := \<lparr>so_frames = [encoded], so_bytes = length encoded\<rparr>\<rparr>"
    using l waits by (simp add: pump_v1_seed_def put_link_def)
  moreover have "window_ok ?w'" using record_sent_ok [OF w(1,2) may] n w(3) by simp
  ultimately show ?thesis using that [of "mark_sent (n + 1) b s1" b] s1(2) by (simp add: mark_sent_def)
qed

lemma paced_step:
  assumes paced: "paced (f # fs) n l" and enc: "fc_encode c (Some (n + 1)) f = Some encoded" "length encoded \<le> MAX_UNACKED_BYTES"
    and n: "n < u64_max" and run: "fold (step_v1 c) [V1Flushed now, V1Taken, bare_ack (n + 1)] (l, written, feed) = (l', written', feed')"
  shows "paced fs (n + 1) l' \<and> written' = written @ [encoded]"
proof -
  let ?d = "vl_delivery l"
  let ?w = "fst (window_record_sent (length encoded) now (vd_window ?d))"
  have w: "aw_enabled (vd_window ?d)" "aw_last_sent_seq (vd_window ?d) = n" "aw_highest_ack_seq (vd_window ?d) = n" "vl_close l = None"
    using paced by (simp_all add: paced_def)
  obtain s' b where s': "pump_v1_seed c now l = l\<lparr>vl_delivery := ?d\<lparr>vd_window := ?w, vd_seed := Some s'\<rparr>, vl_outbox := \<lparr>so_frames = [encoded], so_bytes = length encoded\<rparr>\<rparr>"
    "sd_retained s' @ map fst (sd_live s') = fs" "sd_in_flight s' = Some (n + 1, b)" "window_ok ?w" using paced_pump [OF paced enc n] by metis
  have last: "aw_last_sent_seq ?w = n + 1" using w n by (simp add: record_sent_last saturating_add64_exact)
  have high: "aw_highest_ack_seq ?w = n" using w by (simp add: window_record_sent_def Let_def)
  let ?a = "fst (apply_ack (n + 1) ?w)"
  have ack: "aw_highest_ack_seq ?a = n + 1" "snd (apply_ack (n + 1) ?w) = Ok 1"
    using last high w(1) apply_ack_counts [OF s'(4), of "n + 1"] by (simp_all add: apply_ack_def Let_def)
  have "l' = l\<lparr>vl_delivery := ?d\<lparr>vd_window := ?a, vd_seed := Some s'\<rparr>, vl_outbox := \<lparr>so_frames = [], so_bytes = 0\<rparr>\<rparr> \<and> written' = written @ [encoded]"
    using run w s'(1) ack(2) by (auto simp: step_v1_def bare_ack_def sync_outbox_take_def accept_client_frame_def accept_ack_def Let_def case_prod_beta)
  then show ?thesis using w s'(2,3) last ack(1) apply_ack_ok [OF s'(4), of "n + 1"] by (simp add: paced_def)
qed

lemma paced_open: "paced retained 0 (open_v1_link retained)"
  using window_new_ok [of True] by (simp add: paced_def open_v1_link_def link_over_def open_v1_delivery_def with_paced_seed_def v1_paced_seed_new_def) (simp add: ack_window_new_def)

text \<open>A codec of two bytes, the sequence and the frame.\<close>

definition pair_codec :: "nat frame_codec" where
  "pair_codec = \<lparr>fc_encode = (\<lambda>n f. Some [of_nat (case n of Some n \<Rightarrow> n | None \<Rightarrow> 0), of_nat f]), fc_len = (\<lambda>f. Some 2), fc_kind = (\<lambda>f. ''pair'')\<rparr>"

lemma pair_encode [simp]: "fc_encode pair_codec (Some n) f = Some [of_nat n, of_nat f]" "fc_len pair_codec f = Some 2"
  by (simp_all add: pair_codec_def)


lemma paced_done:
  assumes "paced [] n l" "step_v1 c (V1Flushed now) (l, written, feed) = (l', written', feed')"
  shows "vl_close l' = None \<and> vd_seed (vl_delivery l') = None \<and> vd_seeded (vl_delivery l') \<and> written' = written"
proof -
  let ?d = "vl_delivery l"
  obtain s where s: "vd_seed ?d = Some s" "sd_retained s = []" "sd_live s = []" "\<forall>k b. sd_in_flight s = Some (k, b) \<longrightarrow> k \<le> n"
    and w: "aw_highest_ack_seq (vd_window ?d) = n" "vl_close l = None" using assms(1) by (auto simp: paced_def)
  obtain s1 where "settle_in_flight n s = Some s1" "sd_retained s1 = []" "sd_live s1 = []" using paced_settles [OF s(4)] s(2,3) by metis
  then have "next_step n u s = (s1, SeedDone)" for u by (simp add: next_step_def)
  then have "pump_seed c now (?d, ob) = ((?d\<lparr>vd_seed := None, vd_seeded := True\<rparr>, ob), Ok ())" for ob
    using s(1) w(1) by (simp add: pump_seed.simps)
  then show ?thesis using assms(2) w(2) by (auto simp: step_v1_def pump_v1_seed_def put_link_def Let_def)
qed

definition acknowledging :: "nat \<Rightarrow> nat list \<Rightarrow> 'f v1_op list" where
  "acknowledging now ns = concat (map (\<lambda>n. [V1Flushed now, V1Taken, bare_ack n]) ns)"

lemma paced_run:
  assumes "paced fs n l" "\<forall>(k, f) \<in> set (List.enumerate (n + 1) fs). \<exists>e. fc_encode c (Some k) f = Some e \<and> length e \<le> MAX_UNACKED_BYTES"
    and "n + length fs \<le> u64_max"
    and "fold (step_v1 c) (acknowledging now [n + 1..<n + 1 + length fs]) (l, written, feed) = (l', written', feed')"
  shows "paced [] (n + length fs) l'
    \<and> written' = written @ map (\<lambda>(k, f). the (fc_encode c (Some k) f)) (List.enumerate (n + 1) fs)"
  using assms
proof (induction fs arbitrary: n l written feed)
  case Nil
  then show ?case by (simp add: acknowledging_def)
next
  case (Cons f fs)
  obtain encoded where enc: "fc_encode c (Some (n + 1)) f = Some encoded" "length encoded \<le> MAX_UNACKED_BYTES" using Cons.prems(2) by auto
  obtain l1 w1 feed1 where one: "fold (step_v1 c) [V1Flushed now, V1Taken, bare_ack (n + 1)] (l, written, feed) = (l1, w1, feed1)"
    by (metis prod.collapse)
  have first: "paced fs (n + 1) l1" "w1 = written @ [encoded]" using paced_step [OF Cons.prems(1) enc _ one] Cons.prems(3) by auto
  have steps: "[n + 1..<n + 1 + length (f # fs)] = (n + 1) # [n + 1 + 1..<n + 1 + 1 + length fs]" by (simp add: upt_rec)
  have "fold (step_v1 c) (acknowledging now ((n + 1) # [n + 1 + 1..<n + 1 + 1 + length fs])) (l, written, feed)
      = fold (step_v1 c) (acknowledging now [n + 1 + 1..<n + 1 + 1 + length fs]) (l1, w1, feed1)"
    using one by (simp add: acknowledging_def)
  then have "fold (step_v1 c) (acknowledging now [n + 1 + 1..<n + 1 + 1 + length fs]) (l1, w1, feed1) = (l', written', feed')"
    using Cons.prems(4) unfolding steps by (rule trans [OF sym])
  from Cons.IH [OF first(1) _ _ this] show ?case using Cons.prems(2,3) first(2) enc(1) by simp
qed

text \<open>Feed frames that arrive before the first turn wait behind the seed, within its bounds.\<close>

lemma waiting_feed:
  assumes "paced fs 0 l" "vd_seed (vl_delivery l) = Some s" "sd_in_flight s = None"
    and "length (sd_live s) + length lives \<le> MAX_UNACKED_FRAMES" "\<forall>f \<in> set lives. fc_len c f \<noteq> None"
    and "sd_live_bytes s + sum_list (map (the \<circ> fc_len c) lives) \<le> MAX_UNACKED_BYTES"
    and "fold (step_v1 c) (map (\<lambda>f. V1Delivered f now) lives) (l, [], feed) = (l', written', feed')"
  shows "paced (fs @ lives) 0 l' \<and> written' = []"
  using assms
proof (induction lives arbitrary: fs l s feed)
  case (Cons f lives)
  obtain len where len: "fc_len c f = Some len" using Cons.prems(5) by auto
  let ?s = "s\<lparr>sd_live_bytes := sd_live_bytes s + len, sd_live := sd_live s @ [(f, len)]\<rparr>"
  let ?l = "l\<lparr>vl_delivery := (vl_delivery l)\<lparr>vd_seed := Some ?s\<rparr>\<rparr>"
  have "queue_live c f s = (?s, Ok ())" using Cons.prems(3,4,6) len by (simp add: queue_live_def in_flight_live_def)
  moreover have "vl_close l = None" using Cons.prems(1) by (simp add: paced_def)
  ultimately have "deliver c f now l = ?l" using Cons.prems(2) by (simp add: deliver_def push_live_def put_link_def)
  then obtain feed1 where "step_v1 c (V1Delivered f now) (l, [], feed) = (?l, [], feed1)" by (simp add: step_v1_def Let_def)
  then have run: "fold (step_v1 c) (map (\<lambda>f. V1Delivered f now) lives) (?l, [], feed1) = (l', written', feed')" using Cons.prems(7) by simp
  have "paced (fs @ [f]) 0 ?l" using Cons.prems(1,2,3) by (auto simp: paced_def)
  from Cons.IH [OF this, of ?s, OF _ _ _ _ _ run] show ?case using Cons.prems len by simp
qed simp

text \<open>
  C14: A client that acknowledges gets everything. On a socket opened with any retained seed, with feed frames
  arriving before the first turn within the queue's bounds, a client that acknowledges each frame as it is
  written receives every retained frame and then every feed frame, each under its own sequence; the seed
  then ends, the backfill waiting on it is released, and the socket stays open.
\<close>

theorem paced_seed_completes:
  assumes "\<forall>(n, f) \<in> set (List.enumerate 1 (retained @ lives)). \<exists>e. fc_encode c (Some n) f = Some e \<and> length e \<le> MAX_UNACKED_BYTES"
    and "length lives \<le> MAX_UNACKED_FRAMES" "\<forall>f \<in> set lives. fc_len c f \<noteq> None" "sum_list (map (the \<circ> fc_len c) lives) \<le> MAX_UNACKED_BYTES"
    and "length (retained @ lives) \<le> u64_max"
    and "fold (step_v1 c) (map (\<lambda>f. V1Delivered f now) lives @ acknowledging now [1..<1 + length (retained @ lives)] @ [V1Flushed now])
           (open_v1_link retained, [], retained) = (l, written, feed)"
  shows "written = wire_of c (retained @ lives) \<and> vl_close l = None \<and> vd_seed (vl_delivery l) = None \<and> vd_seeded (vl_delivery l)"
proof -
  obtain l1 w1 f1 where live: "fold (step_v1 c) (map (\<lambda>f. V1Delivered f now) lives) (open_v1_link retained, [], retained) = (l1, w1, f1)"
    by (metis prod.collapse)
  have seed: "vd_seed (vl_delivery (open_v1_link retained)) = Some (v1_paced_seed_new retained)" by (simp add: open_v1_link_def link_over_def open_v1_delivery_def with_paced_seed_def)
  have waiting: "paced (retained @ lives) 0 l1" "w1 = []"
    using waiting_feed [OF paced_open seed _ _ _ _ live] assms(2-4) by (simp_all add: v1_paced_seed_new_def)
  obtain l2 w2 f2 where acks: "fold (step_v1 c) (acknowledging now [0 + 1..<0 + 1 + length (retained @ lives)]) (l1, w1, f1) = (l2, w2, f2)"
    by (metis prod.collapse)
  have finished: "paced [] (length (retained @ lives)) l2" "w2 = wire_of c (retained @ lives)"
    using paced_run [OF waiting(1) _ _ acks] assms(1,5) waiting(2) by (simp_all add: wire_of_def)
  have "step_v1 c (V1Flushed now) (l2, w2, f2) = (l, written, feed)" using assms(6) live acks by (simp del: upt_Suc)
  from paced_done [OF finished(1) this] finished(2) show ?thesis by simp
qed

theorem paced_seed_completes_witness:
  "\<exists>l feed. fold (step_v1 pair_codec) (map (\<lambda>f. V1Delivered f 0) [7] @ acknowledging 0 [1..<1 + length ([5 :: nat] @ [7])] @ [V1Flushed 0])
       (open_v1_link [5], [], [5]) = (l, wire_of pair_codec ([5] @ [7]), feed) \<and> vd_seeded (vl_delivery l)"
proof -
  obtain l written feed where run: "fold (step_v1 pair_codec) (map (\<lambda>f. V1Delivered f 0) [7] @ acknowledging 0 [1..<1 + length ([5 :: nat] @ [7])] @ [V1Flushed 0])
       (open_v1_link [5], [], [5]) = (l, written, feed)" by (metis prod.collapse)
  have "written = wire_of pair_codec ([5] @ [7]) \<and> vl_close l = None \<and> vd_seed (vl_delivery l) = None \<and> vd_seeded (vl_delivery l)"
    by (rule paced_seed_completes [OF _ _ _ _ _ run]) (simp_all add: MAX_UNACKED_FRAMES_def MAX_UNACKED_BYTES_def u64_max_def)
  then show ?thesis using run by blast
qed

end
