(* ===== verification/Peer_Packets.thy ===== *)
theory Peer_Packets
  imports Keeper_Codec "HOL-Library.Sublist"
begin

text \<open>
  The direct terminal carrier's framing (\<^verbatim>\<open>roost-protocol/src/terminal_peer/packets.rs\<close>, \<^verbatim>\<open>packet_queue.rs\<close>, the
  limits of \<^verbatim>\<open>peer.rs\<close>, and the browser's lane budget of \<^verbatim>\<open>roost-web/src/platform/carriers/peer_carrier\<close>):
  the 16-byte fragment header, the assembler of one ordered lane, and the bounded queue in front of it. A
  32-bit field is a natural number; the two places where an identifier could leave its width are written
  out. What the allocator grants is part of the quota's operations.
\<close>

section \<open>Limits and packets\<close>

definition TERMINAL_PEER_PACKET_STALL_MS :: nat where "TERMINAL_PEER_PACKET_STALL_MS = 10000"
definition TERMINAL_PEER_PACKET_MAGIC :: nat where "TERMINAL_PEER_PACKET_MAGIC = 0x31505452"
definition TERMINAL_PEER_PACKET_HEADER_BYTES :: nat where "TERMINAL_PEER_PACKET_HEADER_BYTES = 16"
definition TERMINAL_PEER_PACKET_MAX_BYTES :: nat where "TERMINAL_PEER_PACKET_MAX_BYTES = 16 * 1024"
definition TERMINAL_PEER_PACKET_MAX_PAYLOAD_BYTES :: nat where
  "TERMINAL_PEER_PACKET_MAX_PAYLOAD_BYTES = TERMINAL_PEER_PACKET_MAX_BYTES - TERMINAL_PEER_PACKET_HEADER_BYTES"

lemmas peer_limits = TERMINAL_PEER_PACKET_HEADER_BYTES_def TERMINAL_PEER_PACKET_MAX_BYTES_def
  TERMINAL_PEER_PACKET_MAX_PAYLOAD_BYTES_def

datatype peer_lane = PeerControl | PeerTerminal | PeerHistory

fun peer_lane_cap :: "peer_lane \<Rightarrow> nat" where
  "peer_lane_cap PeerControl = 128 * 1024"
| "peer_lane_cap PeerTerminal = 2 * 1024 * 1024"
| "peer_lane_cap PeerHistory = 64 * 1024 * 1024"

datatype peer_packet_error =
    PeerClosed
  | PeerFragmentStalled
  | PeerMessageIdWrap
  | PeerMessageId
  | PeerMessageSize
  | PeerPacketSize
  | PeerPacketMagic
  | PeerPacketHeader
  | PeerFragmentOrder
  | PeerQuota
  | PeerAllocation

record peer_header =
  ph_message_id :: nat
  ph_total_bytes :: nat
  ph_offset_bytes :: nat

record peer_packet =
  pk_header :: peer_header
  pk_payload :: "byte list"

text \<open>The retention quota an assembler or a queue is built with, and the allocator.\<close>

record 'q quota_ops =
  qo_reserve :: "nat \<Rightarrow> 'q \<Rightarrow> 'q \<times> bool"
  qo_release :: "nat \<Rightarrow> 'q \<Rightarrow> 'q"
  qo_alloc :: "nat \<Rightarrow> bool"

definition le_u32 :: "nat \<Rightarrow> byte list" where
  "le_u32 v = rev (be_bytes 4 v)"

definition read_le_u32 :: "byte list \<Rightarrow> nat \<Rightarrow> nat" where
  "read_le_u32 packet offset = from_be (rev (take 4 (drop offset packet)))"

definition peer_packet_fields :: "peer_lane \<Rightarrow> peer_header \<Rightarrow> nat \<Rightarrow> (peer_packet_error, unit) result" where
  "peer_packet_fields lane h payload_bytes =
     (if ph_message_id h < 1 then Err PeerMessageId
      else if ph_total_bytes h < 1 \<or> peer_lane_cap lane < ph_total_bytes h then Err PeerMessageSize
      else if ph_total_bytes h \<le> ph_offset_bytes h
              \<or> \<not> (1 \<le> payload_bytes \<and> payload_bytes \<le> TERMINAL_PEER_PACKET_MAX_PAYLOAD_BYTES)
              \<or> ph_total_bytes h < ph_offset_bytes h + payload_bytes then Err PeerPacketHeader
      else Ok ())"

definition encode_terminal_peer_packet :: "peer_lane \<Rightarrow> peer_header \<Rightarrow> byte list \<Rightarrow> (peer_packet_error, byte list) result" where
  "encode_terminal_peer_packet lane h payload =
     (case peer_packet_fields lane h (length payload) of
        Err e \<Rightarrow> Err e
      | Ok _ \<Rightarrow> Ok (le_u32 TERMINAL_PEER_PACKET_MAGIC @ le_u32 (ph_message_id h) @ le_u32 (ph_total_bytes h)
                   @ le_u32 (ph_offset_bytes h) @ payload))"

definition parse_terminal_peer_packet :: "peer_lane \<Rightarrow> byte list \<Rightarrow> (peer_packet_error, peer_packet) result" where
  "parse_terminal_peer_packet lane packet =
     (if \<not> (TERMINAL_PEER_PACKET_HEADER_BYTES + 1 \<le> length packet \<and> length packet \<le> TERMINAL_PEER_PACKET_MAX_BYTES) then Err PeerPacketSize
      else if read_le_u32 packet 0 \<noteq> TERMINAL_PEER_PACKET_MAGIC then Err PeerPacketMagic
      else
        let h = \<lparr>ph_message_id = read_le_u32 packet 4, ph_total_bytes = read_le_u32 packet 8, ph_offset_bytes = read_le_u32 packet 12\<rparr>;
            payload = drop TERMINAL_PEER_PACKET_HEADER_BYTES packet
        in (case peer_packet_fields lane h (length payload) of
              Err e \<Rightarrow> Err e
            | Ok _ \<Rightarrow> Ok \<lparr>pk_header = h, pk_payload = payload\<rparr>))"

section \<open>The codec is exact\<close>

lemma length_le_u32 [simp]: "length (le_u32 v) = 4"
  by (simp add: le_u32_def)

lemma read_le_u32_here: "length pre = k \<Longrightarrow> v < 2 ^ 32 \<Longrightarrow> read_le_u32 (pre @ le_u32 v @ rest) k = v"
  by (simp add: read_le_u32_def le_u32_def)

lemma le_u32_read: "k + 4 \<le> length packet \<Longrightarrow> le_u32 (read_le_u32 packet k) = take 4 (drop k packet)"
  by (simp add: read_le_u32_def le_u32_def be_bytes_from_be)

lemma read_le_u32_less: "read_le_u32 packet k < 2 ^ 32"
proof -
  have "from_be (rev (take 4 (drop k packet))) < 256 ^ length (rev (take 4 (drop k packet)))" by (rule from_be_less)
  also have "\<dots> \<le> 256 ^ 4" by (rule power_increasing) auto
  finally show ?thesis by (simp add: read_le_u32_def)
qed

lemma packet_take_drop:
  assumes "16 \<le> length packet"
  shows "take 4 packet @ take 4 (drop 4 packet) @ take 4 (drop 8 packet) @ take 4 (drop 12 packet) @ drop 16 packet = packet"
proof -
  have "take 4 (drop 12 packet) @ drop 16 packet = drop 12 packet" using append_take_drop_id [of 4 "drop 12 packet"] by simp
  moreover have "take 4 (drop 8 packet) @ drop 12 packet = drop 8 packet" using append_take_drop_id [of 4 "drop 8 packet"] by simp
  moreover have "take 4 (drop 4 packet) @ drop 8 packet = drop 4 packet" using append_take_drop_id [of 4 "drop 4 packet"] by simp
  ultimately show ?thesis by simp
qed

text \<open>
  A packet parses to a header and a payload exactly when it is their encoding, for headers whose fields
  fit 32 bits, which every parsed header does.
\<close>

lemma peer_codec_exact:
  assumes "ph_message_id h < 2 ^ 32"
  shows "parse_terminal_peer_packet lane packet = Ok \<lparr>pk_header = h, pk_payload = payload\<rparr>
    \<longleftrightarrow> encode_terminal_peer_packet lane h payload = Ok packet"
proof
  assume parse: "parse_terminal_peer_packet lane packet = Ok \<lparr>pk_header = h, pk_payload = payload\<rparr>"
  then have len: "17 \<le> length packet" and magic: "read_le_u32 packet 0 = TERMINAL_PEER_PACKET_MAGIC"
    and h: "h = \<lparr>ph_message_id = read_le_u32 packet 4, ph_total_bytes = read_le_u32 packet 8, ph_offset_bytes = read_le_u32 packet 12\<rparr>"
    and p: "payload = drop 16 packet" and ok: "peer_packet_fields lane h (length payload) = Ok ()"
    by (auto simp: parse_terminal_peer_packet_def peer_limits Let_def split: if_splits sum.splits)
  have "le_u32 TERMINAL_PEER_PACKET_MAGIC = take 4 packet" using le_u32_read [of 0 packet] len magic by simp
  then show "encode_terminal_peer_packet lane h payload = Ok packet"
    using ok len p h packet_take_drop [of packet] by (simp add: encode_terminal_peer_packet_def le_u32_read)
next
  assume enc: "encode_terminal_peer_packet lane h payload = Ok packet"
  then have ok: "peer_packet_fields lane h (length payload) = Ok ()"
    and packet: "packet = le_u32 TERMINAL_PEER_PACKET_MAGIC @ le_u32 (ph_message_id h) @ le_u32 (ph_total_bytes h) @ le_u32 (ph_offset_bytes h) @ payload"
    by (auto simp: encode_terminal_peer_packet_def split: sum.splits)
  have fields: "ph_total_bytes h \<le> peer_lane_cap lane" "ph_offset_bytes h < ph_total_bytes h" "1 \<le> length payload"
    "length payload \<le> TERMINAL_PEER_PACKET_MAX_PAYLOAD_BYTES" using ok by (auto simp: peer_packet_fields_def split: if_splits)
  have "peer_lane_cap lane < 2 ^ 32" by (cases lane) auto
  then have small: "ph_total_bytes h < 2 ^ 32" "ph_offset_bytes h < 2 ^ 32" using fields by simp_all
  have r: "read_le_u32 packet 0 = TERMINAL_PEER_PACKET_MAGIC" "read_le_u32 packet 4 = ph_message_id h"
    "read_le_u32 packet 8 = ph_total_bytes h" "read_le_u32 packet 12 = ph_offset_bytes h"
    using read_le_u32_here [of "[]" 0 TERMINAL_PEER_PACKET_MAGIC]
      read_le_u32_here [of "le_u32 TERMINAL_PEER_PACKET_MAGIC" 4 "ph_message_id h"]
      read_le_u32_here [of "le_u32 TERMINAL_PEER_PACKET_MAGIC @ le_u32 (ph_message_id h)" 8 "ph_total_bytes h"]
      read_le_u32_here [of "le_u32 TERMINAL_PEER_PACKET_MAGIC @ le_u32 (ph_message_id h) @ le_u32 (ph_total_bytes h)" 12 "ph_offset_bytes h"]
      assms small by (simp_all add: packet TERMINAL_PEER_PACKET_MAGIC_def)
  moreover have "drop 16 packet = payload" "length packet = 16 + length payload" by (simp_all add: packet)
  ultimately show "parse_terminal_peer_packet lane packet = Ok \<lparr>pk_header = h, pk_payload = payload\<rparr>"
    using ok fields(3,4) by (cases h) (simp add: parse_terminal_peer_packet_def peer_limits)
qed

section \<open>The assembler\<close>

record peer_partial =
  pp_message_id :: nat
  pp_total_bytes :: nat
  pp_bytes :: "byte list"
  pp_next_offset :: nat
  pp_last_fragment_at_ms :: nat

record 'q peer_assembler =
  pa_lane :: peer_lane
  pa_quota :: 'q
  pa_partial :: "peer_partial option"
  pa_last_completed :: nat
  pa_closed :: bool

type_synonym 'q peer_assembled = "'q peer_assembler \<times> (peer_packet_error, byte list option) result"

definition peer_assembler_new :: "peer_lane \<Rightarrow> 'q \<Rightarrow> 'q peer_assembler" where
  "peer_assembler_new lane quota = \<lparr>pa_lane = lane, pa_quota = quota, pa_partial = None, pa_last_completed = 0, pa_closed = False\<rparr>"

definition peer_release_partial :: "'q quota_ops \<Rightarrow> 'q peer_assembler \<Rightarrow> 'q peer_assembler" where
  "peer_release_partial ops a =
     (case pa_partial a of
        None \<Rightarrow> a
      | Some p \<Rightarrow> a\<lparr>pa_partial := None, pa_quota := qo_release ops (pp_total_bytes p) (pa_quota a)\<rparr>)"

definition peer_close :: "'q quota_ops \<Rightarrow> 'q peer_assembler \<Rightarrow> 'q peer_assembler" where
  "peer_close ops a = peer_release_partial ops (a\<lparr>pa_closed := True\<rparr>)"

definition allocate_logical :: "'q quota_ops \<Rightarrow> nat \<Rightarrow> byte list \<Rightarrow> (peer_packet_error, byte list) result" where
  "allocate_logical ops total_bytes first_fragment =
     (if \<not> qo_alloc ops total_bytes then Err PeerAllocation
      else Ok (first_fragment @ replicate (total_bytes - length first_fragment) 0))"

definition peer_copy_single :: "'q quota_ops \<Rightarrow> peer_packet \<Rightarrow> 'q peer_assembler \<Rightarrow> 'q peer_assembled" where
  "peer_copy_single ops packet a =
     (let total_bytes = ph_total_bytes (pk_header packet); (q, granted) = qo_reserve ops total_bytes (pa_quota a)
      in if \<not> granted then (a\<lparr>pa_quota := q\<rparr>, Err PeerQuota)
         else
           let a = a\<lparr>pa_quota := qo_release ops total_bytes q\<rparr>
           in if \<not> qo_alloc ops total_bytes then (a, Err PeerAllocation)
              else (a\<lparr>pa_last_completed := ph_message_id (pk_header packet)\<rparr>, Ok (Some (pk_payload packet))))"

definition peer_begin :: "'q quota_ops \<Rightarrow> peer_packet \<Rightarrow> nat \<Rightarrow> 'q peer_assembler \<Rightarrow> 'q peer_assembled" where
  "peer_begin ops packet now_ms a =
     (let h = pk_header packet; total_bytes = ph_total_bytes h
      in if pa_last_completed a = u32_max then (a, Err PeerMessageIdWrap)
         else if ph_message_id h \<noteq> pa_last_completed a + 1 then (a, Err PeerMessageId)
         else if ph_offset_bytes h \<noteq> 0 then (a, Err PeerFragmentOrder)
         else if length (pk_payload packet) = total_bytes then peer_copy_single ops packet a
         else
           let (q, granted) = qo_reserve ops total_bytes (pa_quota a)
           in if \<not> granted then (a\<lparr>pa_quota := q\<rparr>, Err PeerQuota)
              else (case allocate_logical ops total_bytes (pk_payload packet) of
                      Err e \<Rightarrow> (a\<lparr>pa_quota := qo_release ops total_bytes q\<rparr>, Err e)
                    | Ok bytes \<Rightarrow>
                        (a\<lparr>pa_quota := q, pa_partial := Some \<lparr>pp_message_id = ph_message_id h, pp_total_bytes = total_bytes, pp_bytes = bytes,
                             pp_next_offset = length (pk_payload packet), pp_last_fragment_at_ms = now_ms\<rparr>\<rparr>, Ok None)))"

definition peer_complete :: "'q quota_ops \<Rightarrow> peer_partial \<Rightarrow> 'q peer_assembler \<Rightarrow> 'q peer_assembled" where
  "peer_complete ops p a =
     (a\<lparr>pa_partial := None, pa_last_completed := pp_message_id p, pa_quota := qo_release ops (pp_total_bytes p) (pa_quota a)\<rparr>, Ok (Some (pp_bytes p)))"

definition fragment_stalled :: "nat \<Rightarrow> peer_partial \<Rightarrow> bool" where
  "fragment_stalled now_ms p \<longleftrightarrow> TERMINAL_PEER_PACKET_STALL_MS \<le> now_ms - pp_last_fragment_at_ms p"

definition peer_continue :: "'q quota_ops \<Rightarrow> peer_packet \<Rightarrow> nat \<Rightarrow> peer_partial \<Rightarrow> 'q peer_assembler \<Rightarrow> 'q peer_assembled" where
  "peer_continue ops packet now_ms p a =
     (let h = pk_header packet
      in if ph_message_id h \<noteq> pp_message_id p \<or> ph_total_bytes h \<noteq> pp_total_bytes p \<or> ph_offset_bytes h \<noteq> pp_next_offset p
         then (a, Err PeerFragmentOrder)
         else
           let stop = pp_next_offset p + length (pk_payload packet);
               p = p\<lparr>pp_bytes := take (pp_next_offset p) (pp_bytes p) @ pk_payload packet @ drop stop (pp_bytes p),
                     pp_next_offset := stop, pp_last_fragment_at_ms := now_ms\<rparr>
           in if stop \<noteq> pp_total_bytes p then (a\<lparr>pa_partial := Some p\<rparr>, Ok None)
              else peer_complete ops p a)"

definition peer_accept :: "'q quota_ops \<Rightarrow> byte list \<Rightarrow> nat \<Rightarrow> 'q peer_assembler \<Rightarrow> 'q peer_assembled" where
  "peer_accept ops packet now_ms a =
     (if (case pa_partial a of Some p \<Rightarrow> fragment_stalled now_ms p | None \<Rightarrow> False) then (a, Err PeerFragmentStalled)
      else (case parse_terminal_peer_packet (pa_lane a) packet of
              Err e \<Rightarrow> (a, Err e)
            | Ok parsed \<Rightarrow>
                (case pa_partial a of
                   None \<Rightarrow> peer_begin ops parsed now_ms a
                 | Some p \<Rightarrow> peer_continue ops parsed now_ms p a)))"

definition peer_push :: "'q quota_ops \<Rightarrow> byte list \<Rightarrow> nat \<Rightarrow> 'q peer_assembler \<Rightarrow> 'q peer_assembled" where
  "peer_push ops packet now_ms a =
     (if pa_closed a then (a, Err PeerClosed)
      else (case peer_accept ops packet now_ms a of
              (a, Ok message) \<Rightarrow> (a, Ok message)
            | (a, Err e) \<Rightarrow> (peer_close ops a, Err e)))"

definition peer_expire :: "'q quota_ops \<Rightarrow> nat \<Rightarrow> 'q peer_assembler \<Rightarrow> 'q peer_assembler \<times> bool" where
  "peer_expire ops now_ms a =
     (case pa_partial a of
        None \<Rightarrow> (a, False)
      | Some p \<Rightarrow> if \<not> fragment_stalled now_ms p then (a, False) else (peer_close ops a, True))"

definition peer_assembler_reset :: "'q quota_ops \<Rightarrow> 'q peer_assembler \<Rightarrow> 'q peer_assembler" where
  "peer_assembler_reset ops a = (peer_release_partial ops a)\<lparr>pa_last_completed := 0, pa_closed := False\<rparr>"

section \<open>The queue\<close>

record queued_message =
  qm_message_id :: nat
  qm_bytes :: "byte list"
  qm_offset_bytes :: nat

record pending_fragment =
  pf_message_id :: nat
  pf_payload_bytes :: nat
  pf_final :: bool

record 'q peer_queue =
  pq_lane :: peer_lane
  pq_quota :: 'q
  pq_messages :: "queued_message list"
  pq_pending :: "pending_fragment option"
  pq_pending_bytes :: "byte list"
  pq_next_message_id :: nat
  pq_retained_bytes :: nat
  pq_closed :: bool

definition peer_queue_new :: "peer_lane \<Rightarrow> 'q \<Rightarrow> 'q peer_queue" where
  "peer_queue_new lane quota = \<lparr>pq_lane = lane, pq_quota = quota, pq_messages = [], pq_pending = None, pq_pending_bytes = [],
     pq_next_message_id = 1, pq_retained_bytes = 0, pq_closed = False\<rparr>"

definition peer_enqueue :: "'q quota_ops \<Rightarrow> byte list \<Rightarrow> 'q peer_queue \<Rightarrow> 'q peer_queue \<times> (peer_packet_error, bool) result" where
  "peer_enqueue ops bytes q =
     (if pq_closed q then (q, Err PeerClosed)
      else if length bytes < 1 \<or> peer_lane_cap (pq_lane q) < length bytes then (q, Err PeerMessageSize)
      else if pq_next_message_id q = 0 then (q, Err PeerMessageIdWrap)
      else
        let (quota, granted) = qo_reserve ops (length bytes) (pq_quota q)
        in if \<not> granted then (q\<lparr>pq_quota := quota\<rparr>, Ok False)
           else if \<not> qo_alloc ops 1 then (q\<lparr>pq_quota := qo_release ops (length bytes) quota\<rparr>, Err PeerAllocation)
           else
             let message_id = pq_next_message_id q
             in (q\<lparr>pq_quota := quota, pq_messages := pq_messages q @ [\<lparr>qm_message_id = message_id, qm_bytes = bytes, qm_offset_bytes = 0\<rparr>],
                   pq_retained_bytes := pq_retained_bytes q + length bytes,
                   pq_next_message_id := (if message_id = u32_max then 0 else message_id + 1)\<rparr>, Ok True))"

definition encode_next_fragment :: "'q peer_queue \<Rightarrow> (peer_packet_error, (pending_fragment \<times> byte list) option) result" where
  "encode_next_fragment q =
     (case pq_messages q of
        [] \<Rightarrow> Ok None
      | m # _ \<Rightarrow>
          let start = qm_offset_bytes m; total_bytes = length (qm_bytes m);
              payload_bytes = min TERMINAL_PEER_PACKET_MAX_PAYLOAD_BYTES (total_bytes - start);
              h = \<lparr>ph_message_id = qm_message_id m, ph_total_bytes = total_bytes, ph_offset_bytes = start\<rparr>
          in (case encode_terminal_peer_packet (pq_lane q) h (take payload_bytes (drop start (qm_bytes m))) of
                Err e \<Rightarrow> Err e
              | Ok bytes \<Rightarrow>
                  Ok (Some (\<lparr>pf_message_id = qm_message_id m, pf_payload_bytes = payload_bytes,
                             pf_final = (start + payload_bytes = total_bytes)\<rparr>, bytes))))"

definition peer_queue_clear :: "'q quota_ops \<Rightarrow> 'q peer_queue \<Rightarrow> 'q peer_queue" where
  "peer_queue_clear ops q = q\<lparr>pq_messages := [], pq_closed := True, pq_pending := None, pq_pending_bytes := [], pq_retained_bytes := 0,
     pq_quota := fold (\<lambda>m. qo_release ops (length (qm_bytes m))) (pq_messages q) (pq_quota q)\<rparr>"

definition peer_queue_reset :: "'q quota_ops \<Rightarrow> 'q peer_queue \<Rightarrow> 'q peer_queue" where
  "peer_queue_reset ops q = (peer_queue_clear ops q)\<lparr>pq_next_message_id := 1, pq_closed := False\<rparr>"

text \<open>The fragment handed out: its message, whether it is the last one of it, and the packet.\<close>

definition peer_next_fragment :: "'q quota_ops \<Rightarrow> 'q peer_queue \<Rightarrow> 'q peer_queue \<times> (peer_packet_error, (nat \<times> bool \<times> byte list) option) result" where
  "peer_next_fragment ops q =
     (case (case pq_pending q of
              Some _ \<Rightarrow> Ok q
            | None \<Rightarrow>
                (case encode_next_fragment q of
                   Ok (Some (pending, bytes)) \<Rightarrow> Ok (q\<lparr>pq_pending := Some pending, pq_pending_bytes := bytes\<rparr>)
                 | Ok None \<Rightarrow> Ok q
                 | Err e \<Rightarrow> Err e)) of
        Err e \<Rightarrow> (peer_queue_clear ops q, Err e)
      | Ok q \<Rightarrow> (q, Ok (map_option (\<lambda>p. (pf_message_id p, pf_final p, pq_pending_bytes q)) (pq_pending q))))"

definition peer_commit :: "'q quota_ops \<Rightarrow> 'q peer_queue \<Rightarrow> 'q peer_queue" where
  "peer_commit ops q =
     (case pq_pending q of
        None \<Rightarrow> q
      | Some pending \<Rightarrow>
          let q = q\<lparr>pq_pending := None\<rparr>
          in (case pq_messages q of
                [] \<Rightarrow> q
              | m # rest \<Rightarrow>
                  let m = m\<lparr>qm_offset_bytes := qm_offset_bytes m + pf_payload_bytes pending\<rparr>
                  in if qm_offset_bytes m \<noteq> length (qm_bytes m) then q\<lparr>pq_messages := m # rest\<rparr>
                     else q\<lparr>pq_messages := rest, pq_retained_bytes := pq_retained_bytes q - length (qm_bytes m),
                            pq_quota := qo_release ops (length (qm_bytes m)) (pq_quota q)\<rparr>))"

section \<open>The browser's lane budget\<close>

record lane_budget =
  lb_cap_bytes :: nat
  lb_retained :: nat

definition lane_budget_new :: "peer_lane \<Rightarrow> lane_budget" where
  "lane_budget_new lane = \<lparr>lb_cap_bytes = peer_lane_cap lane, lb_retained = 0\<rparr>"

definition lane_budget_reserve :: "nat \<Rightarrow> lane_budget \<Rightarrow> lane_budget \<times> bool" where
  "lane_budget_reserve bytes b =
     (case checked_add64 (lb_retained b) bytes of
        None \<Rightarrow> (b, False)
      | Some after \<Rightarrow> if lb_cap_bytes b < after then (b, False) else (b\<lparr>lb_retained := after\<rparr>, True))"

definition lane_budget_release :: "nat \<Rightarrow> lane_budget \<Rightarrow> lane_budget" where
  "lane_budget_release bytes b = b\<lparr>lb_retained := lb_retained b - bytes\<rparr>"

text \<open>
  The budget as the quota of a queue or an assembler. It says nothing of memory: \<open>try_reserve\<close> on the
  message's buffer is taken to succeed here, as it does short of exhausted memory (the definitions above
  keep its failure as a branch). The worker's end of a lane runs the same queue and assembler under its own
  quotas, which are not modelled.
\<close>

definition lane_ops :: "lane_budget quota_ops" where
  "lane_ops = \<lparr>qo_reserve = lane_budget_reserve, qo_release = lane_budget_release, qo_alloc = (\<lambda>_. True)\<rparr>"

section \<open>A lane, both ends\<close>

text \<open>
  One ordered lane as a machine: the sender queues messages, looks at its next packet without committing it,
  or hands a packet to the transport, which delivers it in order to the other end at the time given; the
  receiver's clock may find a stalled message. Beside the two ends stand the messages accepted and the
  messages delivered so far.
\<close>

datatype peer_lane_op = LaneEnqueue "byte list" | LanePeek | LaneTransmit nat | LaneExpire nat

type_synonym 'q peer_lane_state = "'q peer_queue \<times> 'q peer_assembler \<times> byte list list \<times> byte list list"

fun exec_lane :: "'q quota_ops \<Rightarrow> peer_lane_op \<Rightarrow> 'q peer_lane_state \<Rightarrow> 'q peer_lane_state" where
  "exec_lane ops (LaneEnqueue bytes) (q, a, accepted, delivered) =
     (let (q', r) = peer_enqueue ops bytes q in (q', a, accepted @ (if r = Ok True then [bytes] else []), delivered))"
| "exec_lane ops LanePeek (q, a, accepted, delivered) = (fst (peer_next_fragment ops q), a, accepted, delivered)"
| "exec_lane ops (LaneTransmit now) (q, a, accepted, delivered) =
     (case peer_next_fragment ops q of
        (q', Ok (Some (_, _, packet))) \<Rightarrow>
          (let (a', r) = peer_push ops packet now a
           in (peer_commit ops q', a', accepted, delivered @ (case r of Ok (Some message) \<Rightarrow> [message] | _ \<Rightarrow> [])))
      | (q', _) \<Rightarrow> (q', a, accepted, delivered))"
| "exec_lane ops (LaneExpire now) (q, a, accepted, delivered) = (q, fst (peer_expire ops now a), accepted, delivered)"

definition next_id :: "'q peer_queue \<Rightarrow> nat" where
  "next_id q = (if pq_next_message_id q = 0 then u32_max + 1 else pq_next_message_id q)"

definition sender_ok :: "'q peer_queue \<Rightarrow> bool" where
  "sender_ok q \<longleftrightarrow> \<not> pq_closed q \<and> pq_next_message_id q \<le> u32_max \<and> length (pq_messages q) < next_id q
     \<and> map qm_message_id (pq_messages q) = [next_id q - length (pq_messages q)..<next_id q]
     \<and> pq_retained_bytes q = sum_list (map (length \<circ> qm_bytes) (pq_messages q))
     \<and> (\<forall>m \<in> set (pq_messages q). length (qm_bytes m) \<le> peer_lane_cap (pq_lane q) \<and> qm_offset_bytes m < length (qm_bytes m))
     \<and> (\<forall>m \<in> set (tl (pq_messages q)). qm_offset_bytes m = 0)
     \<and> (\<forall>p. pq_pending q = Some p \<longrightarrow> encode_next_fragment q = Ok (Some (p, pq_pending_bytes q)))"

text \<open>The receiver stands where the head of the queue says it does.\<close>

definition receiver_at :: "'q peer_queue \<Rightarrow> 'q peer_assembler \<Rightarrow> bool" where
  "receiver_at q a \<longleftrightarrow> pa_lane a = pq_lane q \<and> pa_last_completed a + 1 = next_id q - length (pq_messages q)
     \<and> (case pa_partial a of
          None \<Rightarrow> pq_messages q = [] \<or> qm_offset_bytes (hd (pq_messages q)) = 0
        | Some p \<Rightarrow> pq_messages q \<noteq> [] \<and> pp_message_id p = qm_message_id (hd (pq_messages q))
            \<and> pp_total_bytes p = length (qm_bytes (hd (pq_messages q))) \<and> pp_next_offset p = qm_offset_bytes (hd (pq_messages q))
            \<and> 0 < pp_next_offset p \<and> length (pp_bytes p) = pp_total_bytes p
            \<and> take (pp_next_offset p) (pp_bytes p) = take (pp_next_offset p) (qm_bytes (hd (pq_messages q))))"

text \<open>The packet that stands for the rest of the head message, cut at the packet's bound.\<close>

definition head_payload :: "queued_message \<Rightarrow> byte list" where
  "head_payload m = take TERMINAL_PEER_PACKET_MAX_PAYLOAD_BYTES (drop (qm_offset_bytes m) (qm_bytes m))"

definition head_header :: "queued_message \<Rightarrow> peer_header" where
  "head_header m = \<lparr>ph_message_id = qm_message_id m, ph_total_bytes = length (qm_bytes m), ph_offset_bytes = qm_offset_bytes m\<rparr>"

lemma sender_ids:
  assumes "sender_ok q" "pq_messages q = m # ms"
  shows "qm_message_id m = next_id q - length (pq_messages q)" "1 \<le> qm_message_id m" "qm_message_id m \<le> u32_max"
proof -
  have ids: "map qm_message_id (pq_messages q) = [next_id q - length (pq_messages q)..<next_id q]" and n: "length (pq_messages q) < next_id q"
    and "next_id q \<le> u32_max + 1" using assms(1) by (auto simp: sender_ok_def next_id_def)
  have "hd (map qm_message_id (pq_messages q)) = next_id q - length (pq_messages q)" unfolding ids using n assms(2) by (intro hd_upt) simp
  then show "qm_message_id m = next_id q - length (pq_messages q)" using assms(2) by simp
  then show "1 \<le> qm_message_id m" "qm_message_id m \<le> u32_max" using n assms(2) \<open>next_id q \<le> u32_max + 1\<close> by simp_all
qed

lemma head_encodes:
  assumes "sender_ok q" "pq_messages q = m # ms"
  obtains packet where "encode_next_fragment q = Ok (Some (\<lparr>pf_message_id = qm_message_id m, pf_payload_bytes = length (head_payload m),
        pf_final = (qm_offset_bytes m + length (head_payload m) = length (qm_bytes m))\<rparr>, packet))"
    "parse_terminal_peer_packet (pq_lane q) packet = Ok \<lparr>pk_header = head_header m, pk_payload = head_payload m\<rparr>"
proof -
  have m: "length (qm_bytes m) \<le> peer_lane_cap (pq_lane q)" "qm_offset_bytes m < length (qm_bytes m)" using assms by (auto simp: sender_ok_def)
  have len: "length (head_payload m) = min TERMINAL_PEER_PACKET_MAX_PAYLOAD_BYTES (length (qm_bytes m) - qm_offset_bytes m)"
    by (simp add: head_payload_def min.commute)
  have cut: "take (min TERMINAL_PEER_PACKET_MAX_PAYLOAD_BYTES (length (qm_bytes m) - qm_offset_bytes m)) (drop (qm_offset_bytes m) (qm_bytes m)) = head_payload m"
    by (simp add: head_payload_def take_all_iff min_def)
  have "peer_packet_fields (pq_lane q) (head_header m) (length (head_payload m)) = Ok ()"
    using m sender_ids(2) [OF assms] by (auto simp: peer_packet_fields_def head_header_def len peer_limits)
  then obtain packet where enc: "encode_terminal_peer_packet (pq_lane q) (head_header m) (head_payload m) = Ok packet"
    by (simp add: encode_terminal_peer_packet_def)
  moreover have "parse_terminal_peer_packet (pq_lane q) packet = Ok \<lparr>pk_header = head_header m, pk_payload = head_payload m\<rparr>"
    using enc sender_ids(3) [OF assms] by (subst peer_codec_exact) (simp_all add: head_header_def u32_max_def)
  ultimately show ?thesis using that assms(2) len cut by (simp add: encode_next_fragment_def head_header_def Let_def)
qed

lemma commit_head:
  assumes ok: "sender_ok q" and q: "pq_messages q = m # ms" "pq_pending q = Some p" "pf_payload_bytes p = length (head_payload m)"
  shows "sender_ok (peer_commit ops q)" and "pq_lane (peer_commit ops q) = pq_lane q"
    and "qm_offset_bytes m + length (head_payload m) < length (qm_bytes m) \<Longrightarrow>
      pq_messages (peer_commit ops q) = m\<lparr>qm_offset_bytes := qm_offset_bytes m + length (head_payload m)\<rparr> # ms
      \<and> pq_quota (peer_commit ops q) = pq_quota q \<and> next_id (peer_commit ops q) = next_id q \<and> pq_retained_bytes (peer_commit ops q) = pq_retained_bytes q"
    and "qm_offset_bytes m + length (head_payload m) = length (qm_bytes m) \<Longrightarrow>
      pq_messages (peer_commit ops q) = ms \<and> pq_quota (peer_commit ops q) = qo_release ops (length (qm_bytes m)) (pq_quota q)
      \<and> next_id (peer_commit ops q) = next_id q \<and> pq_retained_bytes (peer_commit ops q) + length (qm_bytes m) = pq_retained_bytes q"
proof -
  let ?k = "length (head_payload m)"
  have m: "qm_offset_bytes m < length (qm_bytes m)" using ok q(1) by (auto simp: sender_ok_def)
  have k: "qm_offset_bytes m + ?k \<le> length (qm_bytes m)" by (simp add: head_payload_def) (use m in linarith)
  have ret: "pq_retained_bytes q = length (qm_bytes m) + sum_list (map (length \<circ> qm_bytes) ms)" using ok q(1) by (simp add: sender_ok_def)
  have ids: "map qm_message_id ms = [next_id q - length ms..<next_id q]" and n: "Suc (length ms) < next_id q"
  proof -
    show "Suc (length ms) < next_id q" using ok q(1) by (simp add: sender_ok_def)
    moreover have "map qm_message_id (m # ms) = [next_id q - Suc (length ms)..<next_id q]" using ok q(1) by (simp add: sender_ok_def)
    ultimately show "map qm_message_id ms = [next_id q - length ms..<next_id q]" by (subst (asm) upt_conv_Cons) (auto simp: Suc_diff_Suc)
  qed
  show "pq_lane (peer_commit ops q) = pq_lane q" by (simp add: peer_commit_def Let_def split: option.split list.split)
  have part: "peer_commit ops q = q\<lparr>pq_pending := None, pq_messages := m\<lparr>qm_offset_bytes := qm_offset_bytes m + ?k\<rparr> # ms\<rparr>"
    if "qm_offset_bytes m + ?k < length (qm_bytes m)" using q that by (simp add: peer_commit_def)
  have whole: "peer_commit ops q = q\<lparr>pq_pending := None, pq_messages := ms, pq_retained_bytes := pq_retained_bytes q - length (qm_bytes m),
      pq_quota := qo_release ops (length (qm_bytes m)) (pq_quota q)\<rparr>" if "qm_offset_bytes m + ?k = length (qm_bytes m)"
    using q that by (simp add: peer_commit_def)
  show "qm_offset_bytes m + ?k < length (qm_bytes m) \<Longrightarrow>
      pq_messages (peer_commit ops q) = m\<lparr>qm_offset_bytes := qm_offset_bytes m + ?k\<rparr> # ms
      \<and> pq_quota (peer_commit ops q) = pq_quota q \<and> next_id (peer_commit ops q) = next_id q \<and> pq_retained_bytes (peer_commit ops q) = pq_retained_bytes q"
    using part by (simp add: next_id_def)
  show "qm_offset_bytes m + ?k = length (qm_bytes m) \<Longrightarrow>
      pq_messages (peer_commit ops q) = ms \<and> pq_quota (peer_commit ops q) = qo_release ops (length (qm_bytes m)) (pq_quota q)
      \<and> next_id (peer_commit ops q) = next_id q \<and> pq_retained_bytes (peer_commit ops q) + length (qm_bytes m) = pq_retained_bytes q"
    using whole ret by (simp add: next_id_def)
  show "sender_ok (peer_commit ops q)"
  proof (cases "qm_offset_bytes m + ?k < length (qm_bytes m)")
    case True
    show ?thesis using ok q(1) True unfolding part [OF True] by (auto simp: sender_ok_def next_id_def)
  next
    case False
    then have eq: "qm_offset_bytes m + ?k = length (qm_bytes m)" using k by simp
    have "\<forall>m' \<in> set (tl ms). qm_offset_bytes m' = 0" using ok q(1) by (cases ms) (auto simp: sender_ok_def)
    then show ?thesis using ok q(1) ids n ret unfolding whole [OF eq] by (auto simp: sender_ok_def next_id_def)
  qed
qed

text \<open>Looking at the next packet caches it and changes nothing else.\<close>

lemma peek_empty: "sender_ok q \<Longrightarrow> pq_messages q = [] \<Longrightarrow> peer_next_fragment ops q = (q, Ok None)"
  by (auto simp: sender_ok_def peer_next_fragment_def encode_next_fragment_def split: option.splits)

lemma encode_pending [simp]: "encode_next_fragment (q\<lparr>pq_pending := p, pq_pending_bytes := bs\<rparr>) = encode_next_fragment q"
  by (cases "pq_messages q") (simp_all add: encode_next_fragment_def)

lemma next_id_pending [simp]: "next_id (q\<lparr>pq_pending := p, pq_pending_bytes := bs\<rparr>) = next_id q"
  by (simp add: next_id_def)

lemma receiver_at_pending [simp]: "receiver_at (q\<lparr>pq_pending := p, pq_pending_bytes := bs\<rparr>) a = receiver_at q a"
  by (cases "pa_partial a") (simp_all add: receiver_at_def)

lemma peek_head:
  assumes ok: "sender_ok q" and q: "pq_messages q = m # ms"
  obtains p packet where
    "peer_next_fragment ops q = (q\<lparr>pq_pending := Some p, pq_pending_bytes := packet\<rparr>, Ok (Some (qm_message_id m, pf_final p, packet)))"
    "parse_terminal_peer_packet (pq_lane q) packet = Ok \<lparr>pk_header = head_header m, pk_payload = head_payload m\<rparr>"
    "pf_payload_bytes p = length (head_payload m)" "sender_ok (q\<lparr>pq_pending := Some p, pq_pending_bytes := packet\<rparr>)"
proof -
  obtain packet where enc: "encode_next_fragment q = Ok (Some (\<lparr>pf_message_id = qm_message_id m, pf_payload_bytes = length (head_payload m),
        pf_final = (qm_offset_bytes m + length (head_payload m) = length (qm_bytes m))\<rparr>, packet))" (is "_ = Ok (Some (?p, _))")
    and parse: "parse_terminal_peer_packet (pq_lane q) packet = Ok \<lparr>pk_header = head_header m, pk_payload = head_payload m\<rparr>"
    using head_encodes [OF assms] by blast
  have cached: "p = ?p \<and> pq_pending_bytes q = packet" if "pq_pending q = Some p" for p using ok that enc by (auto simp: sender_ok_def)
  have nf: "peer_next_fragment ops q = (q\<lparr>pq_pending := Some ?p, pq_pending_bytes := packet\<rparr>, Ok (Some (qm_message_id m, pf_final ?p, packet)))"
    using enc cached by (cases "pq_pending q") (auto simp: peer_next_fragment_def)
  have so: "sender_ok (q\<lparr>pq_pending := Some ?p, pq_pending_bytes := packet\<rparr>)"
    using ok unfolding sender_ok_def by (simp add: enc)
  show ?thesis by (rule that [OF nf parse _ so]) simp
qed

lemma enqueue_sender:
  assumes ok: "sender_ok q" and id: "pq_next_message_id q \<noteq> 0" and size: "1 \<le> length bytes" "length bytes \<le> peer_lane_cap (pq_lane q)"
    and q': "q' = q\<lparr>pq_quota := b, pq_messages := pq_messages q @ [\<lparr>qm_message_id = pq_next_message_id q, qm_bytes = bytes, qm_offset_bytes = 0\<rparr>],
      pq_retained_bytes := pq_retained_bytes q + length bytes, pq_next_message_id := (if pq_next_message_id q = u32_max then 0 else pq_next_message_id q + 1)\<rparr>"
  shows "sender_ok q'" and "next_id q' = Suc (next_id q)"
proof -
  have n: "next_id q = pq_next_message_id q" "pq_next_message_id q \<le> u32_max" using ok id by (auto simp: next_id_def sender_ok_def)
  show nx: "next_id q' = Suc (next_id q)" using n by (simp add: q' next_id_def)
  have len: "length (pq_messages q) < next_id q" and ids: "map qm_message_id (pq_messages q) = [next_id q - length (pq_messages q)..<next_id q]"
    using ok by (simp_all add: sender_ok_def)
  have "map qm_message_id (pq_messages q') = [next_id q' - length (pq_messages q')..<next_id q']"
    unfolding nx using ids n(1) by (simp add: q')
  moreover have "encode_next_fragment q' = encode_next_fragment q" if "pq_messages q \<noteq> []"
    using that by (cases "pq_messages q") (simp_all add: encode_next_fragment_def q')
  moreover have "pq_pending q = None" if "pq_messages q = []"
    using ok that by (cases "pq_pending q") (auto simp: sender_ok_def encode_next_fragment_def)
  moreover have "\<forall>m \<in> set (tl (pq_messages q')). qm_offset_bytes m = 0" using ok by (cases "pq_messages q") (auto simp: sender_ok_def q')
  ultimately show "sender_ok q'" using ok size n(2) len nx
    by (cases "pq_messages q = []") (auto simp: sender_ok_def q')
qed

text \<open>How many packets the queue still has to send, and times no two of which are a stall window apart.\<close>

definition message_packets :: "queued_message \<Rightarrow> nat" where
  "message_packets m = (length (qm_bytes m) - qm_offset_bytes m + (TERMINAL_PEER_PACKET_MAX_PAYLOAD_BYTES - 1)) div TERMINAL_PEER_PACKET_MAX_PAYLOAD_BYTES"

definition packets_left :: "'q peer_queue \<Rightarrow> nat" where
  "packets_left q = sum_list (map message_packets (pq_messages q))"

fun peer_paced :: "nat \<Rightarrow> nat list \<Rightarrow> bool" where
  "peer_paced t [] \<longleftrightarrow> True"
| "peer_paced t (u # us) \<longleftrightarrow> u < t + TERMINAL_PEER_PACKET_STALL_MS \<and> peer_paced u us"

lemma message_packets_pos: "qm_offset_bytes m < length (qm_bytes m) \<Longrightarrow> 0 < message_packets m"
  by (simp add: message_packets_def peer_limits div_greater_zero_iff)

lemma packets_left_pos: "sender_ok q \<Longrightarrow> packets_left q = 0 \<Longrightarrow> pq_messages q = []"
  using message_packets_pos by (cases "pq_messages q") (fastforce simp: packets_left_def sender_ok_def)+

lemma message_packets_step:
  assumes "qm_offset_bytes m < length (qm_bytes m)"
  shows "message_packets m = Suc (if qm_offset_bytes m + length (head_payload m) = length (qm_bytes m) then 0
    else message_packets (m\<lparr>qm_offset_bytes := qm_offset_bytes m + length (head_payload m)\<rparr>))"
proof -
  obtain r where r: "length (qm_bytes m) = qm_offset_bytes m + Suc r" using assms less_iff_Suc_add by auto
  have k: "length (head_payload m) = min TERMINAL_PEER_PACKET_MAX_PAYLOAD_BYTES (Suc r)" by (simp add: head_payload_def r)
  show ?thesis
  proof (cases "Suc r \<le> TERMINAL_PEER_PACKET_MAX_PAYLOAD_BYTES")
    case True
    then show ?thesis using r k by (simp add: message_packets_def peer_limits div_eq_dividend_iff div_nat_eqI)
  next
    case False
    then obtain s where "r = TERMINAL_PEER_PACKET_MAX_PAYLOAD_BYTES + s" by (metis not_less_eq_eq le_iff_add)
    then show ?thesis using r k by (simp add: message_packets_def peer_limits)
  qed
qed

lemma packets_left_step:
  assumes "sender_ok q" "pq_messages q = m # ms"
    and "pq_messages q' = (if qm_offset_bytes m + length (head_payload m) = length (qm_bytes m) then ms
       else m\<lparr>qm_offset_bytes := qm_offset_bytes m + length (head_payload m)\<rparr> # ms)"
  shows "packets_left q = Suc (packets_left q')"
  using assms message_packets_step [of m] by (auto simp: packets_left_def sender_ok_def)

section \<open>The quota as an interface\<close>

locale packet_quota =
  fixes ops :: "'q quota_ops"
    and held :: "'q \<Rightarrow> nat"
    and room :: "'q \<Rightarrow> nat"
  assumes reserve_iff: "snd (qo_reserve ops n b) \<longleftrightarrow> held b + n \<le> room b"
    and reserve_held: "held b + n \<le> room b \<Longrightarrow> held (fst (qo_reserve ops n b)) = held b + n"
    and reserve_room: "room (fst (qo_reserve ops n b)) = room b"
    and reserve_refused: "room b < held b + n \<Longrightarrow> fst (qo_reserve ops n b) = b"
    and release_held: "held (qo_release ops n b) = held b - n"
    and release_room: "room (qo_release ops n b) = room b"
    and allocates: "qo_alloc ops n"
begin

definition lane_invar :: "peer_lane \<Rightarrow> 'q peer_lane_state \<Rightarrow> bool" where
  "lane_invar lane x \<longleftrightarrow> (case x of (q, a, accepted, delivered) \<Rightarrow>
     sender_ok q \<and> pq_lane q = lane \<and> held (pq_quota q) = pq_retained_bytes q \<and> pq_retained_bytes q \<le> peer_lane_cap lane
     \<and> room (pq_quota q) = peer_lane_cap lane \<and> prefix delivered accepted
     \<and> (if pa_closed a then held (pa_quota a) = 0
        else receiver_at q a \<and> accepted = delivered @ map qm_bytes (pq_messages q) \<and> peer_lane_cap (pa_lane a) \<le> room (pa_quota a)
          \<and> held (pa_quota a) = (case pa_partial a of None \<Rightarrow> 0 | Some p \<Rightarrow> pp_total_bytes p)))"

lemma reserve_pair:
  assumes "held b + n \<le> room b"
  obtains b' where "qo_reserve ops n b = (b', True)" "held b' = held b + n" "room b' = room b"
  using that [of "fst (qo_reserve ops n b)"] reserve_iff [of n b] reserve_held [OF assms] reserve_room [of n b] assms
  by (cases "qo_reserve ops n b") simp

text \<open>A receiver that stands at the head of the queue takes the head's packet.\<close>

lemma push_first:
  assumes "\<not> pa_closed a" "pa_partial a = None" "parse_terminal_peer_packet (pa_lane a) packet = Ok \<lparr>pk_header = head_header m, pk_payload = head_payload m\<rparr>"
    and "qm_message_id m = pa_last_completed a + 1" "qm_message_id m \<le> u32_max" "qm_offset_bytes m = 0"
    and "held (pa_quota a) = 0" "length (qm_bytes m) \<le> room (pa_quota a)"
  shows "if length (head_payload m) = length (qm_bytes m)
    then \<exists>b. peer_push ops packet now a = (a\<lparr>pa_quota := b, pa_last_completed := qm_message_id m\<rparr>, Ok (Some (qm_bytes m)))
           \<and> held b = 0 \<and> room b = room (pa_quota a)
    else \<exists>b. peer_push ops packet now a = (a\<lparr>pa_partial := Some \<lparr>pp_message_id = qm_message_id m, pp_total_bytes = length (qm_bytes m),
             pp_bytes = head_payload m @ replicate (length (qm_bytes m) - length (head_payload m)) 0, pp_next_offset = length (head_payload m),
             pp_last_fragment_at_ms = now\<rparr>, pa_quota := b\<rparr>, Ok None) \<and> held b = length (qm_bytes m) \<and> room b = room (pa_quota a)"
proof -
  obtain b where b: "qo_reserve ops (length (qm_bytes m)) (pa_quota a) = (b, True)" "held b = length (qm_bytes m)" "room b = room (pa_quota a)"
    using reserve_pair [of "pa_quota a" "length (qm_bytes m)"] assms(7,8) by (metis add_0)
  have last: "pa_last_completed a \<noteq> u32_max" using assms(4,5) by simp
  have acc: "peer_accept ops packet now a = peer_begin ops \<lparr>pk_header = head_header m, pk_payload = head_payload m\<rparr> now a"
    using assms(2,3) by (simp add: peer_accept_def)
  show ?thesis
  proof (cases "length (head_payload m) = length (qm_bytes m)")
    case True
    then have "head_payload m = qm_bytes m" using assms(6) by (simp add: head_payload_def)
    then have "peer_push ops packet now a = (a\<lparr>pa_quota := qo_release ops (length (qm_bytes m)) b, pa_last_completed := qm_message_id m\<rparr>, Ok (Some (qm_bytes m)))"
      using True b assms(1,4,6) last acc allocates by (simp add: peer_push_def peer_begin_def peer_copy_single_def head_header_def Let_def)
    then show ?thesis using True b(2,3) release_held [of "length (qm_bytes m)" b] release_room [of "length (qm_bytes m)" b]
      by (auto intro!: exI [of _ "qo_release ops (length (qm_bytes m)) b"])
  next
    case False
    then have "peer_push ops packet now a = (a\<lparr>pa_partial := Some \<lparr>pp_message_id = qm_message_id m, pp_total_bytes = length (qm_bytes m),
             pp_bytes = head_payload m @ replicate (length (qm_bytes m) - length (head_payload m)) 0, pp_next_offset = length (head_payload m),
             pp_last_fragment_at_ms = now\<rparr>, pa_quota := b\<rparr>, Ok None)"
      using b(1) assms(1,4,6) last acc allocates
      by (simp add: peer_push_def peer_begin_def allocate_logical_def head_header_def Let_def)
    then show ?thesis unfolding if_not_P [OF False] using b(2,3) by blast
  qed
qed

lemma push_next:
  assumes "\<not> pa_closed a" "pa_partial a = Some p" "\<not> fragment_stalled now p"
    and "parse_terminal_peer_packet (pa_lane a) packet = Ok \<lparr>pk_header = head_header m, pk_payload = head_payload m\<rparr>"
    and p: "pp_message_id p = qm_message_id m" "pp_total_bytes p = length (qm_bytes m)" "pp_next_offset p = qm_offset_bytes m"
      "length (pp_bytes p) = pp_total_bytes p" "take (pp_next_offset p) (pp_bytes p) = take (pp_next_offset p) (qm_bytes m)"
    and q: "held (pa_quota a) = length (qm_bytes m)" and off: "qm_offset_bytes m < length (qm_bytes m)"
  shows "if qm_offset_bytes m + length (head_payload m) = length (qm_bytes m)
    then \<exists>b. peer_push ops packet now a = (a\<lparr>pa_partial := None, pa_last_completed := qm_message_id m, pa_quota := b\<rparr>, Ok (Some (qm_bytes m)))
           \<and> held b = 0 \<and> room b = room (pa_quota a)
    else \<exists>p'. peer_push ops packet now a = (a\<lparr>pa_partial := Some p'\<rparr>, Ok None) \<and> pp_message_id p' = qm_message_id m
           \<and> pp_total_bytes p' = length (qm_bytes m) \<and> pp_next_offset p' = qm_offset_bytes m + length (head_payload m)
           \<and> length (pp_bytes p') = pp_total_bytes p' \<and> pp_last_fragment_at_ms p' = now
           \<and> take (pp_next_offset p') (pp_bytes p') = take (pp_next_offset p') (qm_bytes m)"
proof -
  let ?o = "qm_offset_bytes m" and ?k = "length (head_payload m)"
  let ?buffer = "take ?o (pp_bytes p) @ head_payload m @ drop (?o + ?k) (pp_bytes p)"
  have acc: "peer_accept ops packet now a = peer_continue ops \<lparr>pk_header = head_header m, pk_payload = head_payload m\<rparr> now p a"
    using assms(2-4) by (simp add: peer_accept_def)
  have fit: "?o + ?k \<le> length (qm_bytes m)" using off by (simp add: head_payload_def)
  have "take ?k (drop ?o (qm_bytes m)) = head_payload m"
    by (cases "length (qm_bytes m) - ?o \<le> TERMINAL_PEER_PACKET_MAX_PAYLOAD_BYTES") (simp_all add: head_payload_def)
  then have built: "take (?o + ?k) (qm_bytes m) = take ?o (pp_bytes p) @ head_payload m" using p(3,5) by (simp add: take_add)
  show ?thesis
  proof (cases "?o + ?k = length (qm_bytes m)")
    case True
    have "drop (?o + ?k) (pp_bytes p) = []" by (simp only: True p(2,4) drop_eq_Nil)
    moreover have "take ?o (pp_bytes p) @ head_payload m = qm_bytes m" unfolding built [symmetric] by (simp only: True take_all order_refl)
    ultimately have "?buffer = qm_bytes m" by simp
    then have "peer_push ops packet now a = (a\<lparr>pa_partial := None, pa_last_completed := qm_message_id m,
        pa_quota := qo_release ops (length (qm_bytes m)) (pa_quota a)\<rparr>, Ok (Some (qm_bytes m)))"
      using True assms(1) acc p by (simp add: peer_push_def peer_continue_def peer_complete_def head_header_def Let_def)
    then show ?thesis using True q release_held [of "length (qm_bytes m)" "pa_quota a"] release_room [of "length (qm_bytes m)" "pa_quota a"]
      by (auto intro!: exI [of _ "qo_release ops (length (qm_bytes m)) (pa_quota a)"])
  next
    case False
    have lens: "length (take ?o (pp_bytes p) @ head_payload m) = ?o + ?k" "length ?buffer = length (qm_bytes m)"
      using fit p(2,4) off by simp_all
    then have "take (?o + ?k) ?buffer = take (?o + ?k) (qm_bytes m)" unfolding built append_assoc [symmetric] by simp
    moreover have "peer_push ops packet now a =
        (a\<lparr>pa_partial := Some (p\<lparr>pp_bytes := ?buffer, pp_next_offset := ?o + ?k, pp_last_fragment_at_ms := now\<rparr>)\<rparr>, Ok None)"
      using False assms(1) acc p(1-3) by (simp add: peer_push_def peer_continue_def head_header_def Let_def)
    ultimately show ?thesis unfolding if_not_P [OF False] using lens(2) p(1,2)
      by (intro exI [of _ "p\<lparr>pp_bytes := ?buffer, pp_next_offset := ?o + ?k, pp_last_fragment_at_ms := now\<rparr>"]) simp
  qed
qed

lemma push_head:
  assumes "\<not> pa_closed a" "receiver_at q a" "sender_ok q" and q: "pq_messages q = m # ms"
    and parse: "parse_terminal_peer_packet (pa_lane a) packet = Ok \<lparr>pk_header = head_header m, pk_payload = head_payload m\<rparr>"
    and cap: "peer_lane_cap (pa_lane a) \<le> room (pa_quota a)"
    and ha: "held (pa_quota a) = (case pa_partial a of None \<Rightarrow> 0 | Some p \<Rightarrow> pp_total_bytes p)"
    and fresh: "\<And>p. pa_partial a = Some p \<Longrightarrow> \<not> fragment_stalled now p"
  obtains (last) b where "qm_offset_bytes m + length (head_payload m) = length (qm_bytes m)"
      "peer_push ops packet now a = (a\<lparr>pa_partial := None, pa_last_completed := qm_message_id m, pa_quota := b\<rparr>, Ok (Some (qm_bytes m)))"
      "held b = 0" "room b = room (pa_quota a)"
    | (more) b p where "qm_offset_bytes m + length (head_payload m) < length (qm_bytes m)"
      "peer_push ops packet now a = (a\<lparr>pa_partial := Some p, pa_quota := b\<rparr>, Ok None)"
      "held b = length (qm_bytes m)" "room b = room (pa_quota a)"
      "pp_message_id p = qm_message_id m" "pp_total_bytes p = length (qm_bytes m)" "pp_next_offset p = qm_offset_bytes m + length (head_payload m)"
      "length (pp_bytes p) = pp_total_bytes p" "pp_last_fragment_at_ms p = now"
      "take (pp_next_offset p) (pp_bytes p) = take (pp_next_offset p) (qm_bytes m)"
proof -
  let ?o = "qm_offset_bytes m" and ?k = "length (head_payload m)" and ?n = "length (qm_bytes m)"
  have m: "?o < ?n" "?n \<le> peer_lane_cap (pq_lane q)" using assms(3) q by (auto simp: sender_ok_def)
  have k: "?o + ?k \<le> ?n" using m(1) by (simp add: head_payload_def)
  have lane: "pa_lane a = pq_lane q" and ids: "qm_message_id m = pa_last_completed a + 1" "qm_message_id m \<le> u32_max"
    using assms(2) sender_ids(1,3) [OF assms(3) q] by (simp_all add: receiver_at_def)
  have room: "?n \<le> room (pa_quota a)" using cap m(2) lane by simp
  show thesis
  proof (cases "pa_partial a")
    case None
    have o: "?o = 0" using assms(2) None q by (simp add: receiver_at_def)
    have same: "a\<lparr>pa_partial := None\<rparr> = a" using None by (cases a) simp
    have ha': "held (pa_quota a) = 0" using ha None by simp
    note push = push_first [OF assms(1) None parse ids o ha' room, of now]
    show thesis
    proof (cases "?k = ?n")
      case True
      then obtain b where "peer_push ops packet now a = (a\<lparr>pa_partial := None\<rparr>\<lparr>pa_quota := b, pa_last_completed := qm_message_id m\<rparr>, Ok (Some (qm_bytes m)))"
        "held b = 0" "room b = room (pa_quota a)" using push unfolding same by auto
      then show thesis using last [of b] True o by simp
    next
      case False
      have "take ?k (head_payload m @ replicate (?n - ?k) 0) = take ?k (qm_bytes m)"
        using o by (cases "?n \<le> TERMINAL_PEER_PACKET_MAX_PAYLOAD_BYTES") (simp_all add: head_payload_def)
      moreover obtain b where b: "peer_push ops packet now a = (a\<lparr>pa_partial := Some \<lparr>pp_message_id = qm_message_id m, pp_total_bytes = ?n,
          pp_bytes = head_payload m @ replicate (?n - ?k) 0, pp_next_offset = ?k, pp_last_fragment_at_ms = now\<rparr>, pa_quota := b\<rparr>, Ok None)"
        "held b = ?n" "room b = room (pa_quota a)" using push False by auto
      ultimately show thesis using False k o by (intro more [OF _ b]) simp_all
    qed
  next
    case (Some p)
    have p: "pp_message_id p = qm_message_id m" "pp_total_bytes p = ?n" "pp_next_offset p = ?o"
      "length (pp_bytes p) = pp_total_bytes p" "take (pp_next_offset p) (pp_bytes p) = take (pp_next_offset p) (qm_bytes m)"
      using assms(2) Some q by (auto simp: receiver_at_def)
    have ha': "held (pa_quota a) = ?n" using ha Some p(2) by simp
    note push = push_next [OF assms(1) Some fresh [OF Some] parse p ha' m(1)]
    show thesis
    proof (cases "?o + ?k = ?n")
      case True
      then show thesis using push last by auto
    next
      case False
      then obtain p' where "peer_push ops packet now a = (a\<lparr>pa_partial := Some p', pa_quota := pa_quota a\<rparr>, Ok None)" "pp_message_id p' = qm_message_id m"
        "pp_total_bytes p' = ?n" "pp_next_offset p' = ?o + ?k" "length (pp_bytes p') = pp_total_bytes p'" "pp_last_fragment_at_ms p' = now"
        "take (pp_next_offset p') (pp_bytes p') = take (pp_next_offset p') (qm_bytes m)" using push by auto
      moreover have "?o + ?k < ?n" using False k by simp
      ultimately show thesis using more ha' by blast
    qed
  qed
qed

text \<open>One transmission to an open receiver that has not stalled.\<close>

lemma transmit_open:
  assumes inv: "lane_invar lane (q, a, accepted, delivered)" and "\<not> pa_closed a" and q: "pq_messages q = m # ms"
    and fresh: "\<And>p. pa_partial a = Some p \<Longrightarrow> \<not> fragment_stalled now p"
  obtains q' a' where
    "exec_lane ops (LaneTransmit now) (q, a, accepted, delivered) =
       (q', a', accepted, if qm_offset_bytes m + length (head_payload m) = length (qm_bytes m) then delivered @ [qm_bytes m] else delivered)"
    "lane_invar lane (q', a', accepted, if qm_offset_bytes m + length (head_payload m) = length (qm_bytes m) then delivered @ [qm_bytes m] else delivered)"
    "\<not> pa_closed a'" "\<And>p. pa_partial a' = Some p \<Longrightarrow> pp_last_fragment_at_ms p = now"
    "pq_messages q' = (if qm_offset_bytes m + length (head_payload m) = length (qm_bytes m) then ms
       else m\<lparr>qm_offset_bytes := qm_offset_bytes m + length (head_payload m)\<rparr> # ms)"
proof -
  let ?o = "qm_offset_bytes m" and ?k = "length (head_payload m)" and ?n = "length (qm_bytes m)"
  have ok: "sender_ok q" and hq: "held (pq_quota q) = pq_retained_bytes q" and at: "receiver_at q a"
    and caps: "pq_lane q = lane" "pq_retained_bytes q \<le> peer_lane_cap lane" "room (pq_quota q) = peer_lane_cap lane"
    and acc: "accepted = delivered @ map qm_bytes (pq_messages q)" and cap: "peer_lane_cap (pa_lane a) \<le> room (pa_quota a)"
    and ha: "held (pa_quota a) = (case pa_partial a of None \<Rightarrow> 0 | Some p \<Rightarrow> pp_total_bytes p)"
    using inv assms(2) by (simp_all add: lane_invar_def)
  have m: "?o < ?n" "?n \<le> peer_lane_cap (pq_lane q)" using ok q by (auto simp: sender_ok_def)
  have lane: "pa_lane a = pq_lane q" and last: "qm_message_id m = pa_last_completed a + 1"
    using at sender_ids(1) [OF ok q] by (simp_all add: receiver_at_def)
  have "length (pq_messages q) < next_id q" using ok by (simp add: sender_ok_def)
  then have n: "next_id q - length ms = qm_message_id m + 1" using sender_ids(1) [OF ok q] q by simp
  have k: "0 < ?k" using m(1) by (simp add: head_payload_def peer_limits)
  obtain p packet where peek: "peer_next_fragment ops q = (q\<lparr>pq_pending := Some p, pq_pending_bytes := packet\<rparr>, Ok (Some (qm_message_id m, pf_final p, packet)))"
    and parse: "parse_terminal_peer_packet (pa_lane a) packet = Ok \<lparr>pk_header = head_header m, pk_payload = head_payload m\<rparr>"
    and pay: "pf_payload_bytes p = ?k" and ok': "sender_ok (q\<lparr>pq_pending := Some p, pq_pending_bytes := packet\<rparr>)"
    using peek_head [OF ok q] unfolding lane by blast
  let ?q = "q\<lparr>pq_pending := Some p, pq_pending_bytes := packet\<rparr>"
  have q1: "pq_messages ?q = m # ms" "pq_pending ?q = Some p" using q by simp_all
  note commit = commit_head [OF ok' q1 pay, of ops]
  have step: "exec_lane ops (LaneTransmit now) (q, a, accepted, delivered) =
     (peer_commit ops ?q, a', accepted, delivered @ (case r of Ok (Some message) \<Rightarrow> [message] | _ \<Rightarrow> []))"
    if "peer_push ops packet now a = (a', r)" for a' r using peek that by simp
  show ?thesis
  proof (rule push_head [OF assms(2) at ok q parse cap ha fresh])
    fix b
    assume True: "?o + ?k = ?n" and push: "peer_push ops packet now a = (a\<lparr>pa_partial := None, pa_last_completed := qm_message_id m, pa_quota := b\<rparr>, Ok (Some (qm_bytes m)))"
      and b: "held b = 0" "room b = room (pa_quota a)"
    have retained: "pq_retained_bytes (peer_commit ops ?q) = pq_retained_bytes q - ?n" using commit(4) [OF True] by simp linarith
    have "receiver_at (peer_commit ops ?q) (a\<lparr>pa_partial := None, pa_last_completed := qm_message_id m, pa_quota := b\<rparr>)"
      using commit(2) commit(4) [OF True] lane n ok q by (cases ms) (auto simp: receiver_at_def sender_ok_def)
    then have "lane_invar lane (peer_commit ops ?q, a\<lparr>pa_partial := None, pa_last_completed := qm_message_id m, pa_quota := b\<rparr>, accepted, delivered @ [qm_bytes m])"
      using commit(1,2) commit(4) [OF True] retained caps b acc cap q hq assms(2) by (simp add: lane_invar_def release_held release_room)
    then show ?thesis using that [where q' = "peer_commit ops ?q" and a' = "a\<lparr>pa_partial := None, pa_last_completed := qm_message_id m, pa_quota := b\<rparr>"]
        step [OF push] True commit(4) [OF True] assms(2) by simp
  next
    fix b p'
    assume False: "?o + ?k < ?n" and push: "peer_push ops packet now a = (a\<lparr>pa_partial := Some p', pa_quota := b\<rparr>, Ok None)"
      and b: "held b = ?n" "room b = room (pa_quota a)"
      and p': "pp_message_id p' = qm_message_id m" "pp_total_bytes p' = ?n" "pp_next_offset p' = ?o + ?k" "length (pp_bytes p') = pp_total_bytes p'"
        "pp_last_fragment_at_ms p' = now" "take (pp_next_offset p') (pp_bytes p') = take (pp_next_offset p') (qm_bytes m)"
    have "receiver_at (peer_commit ops ?q) (a\<lparr>pa_partial := Some p', pa_quota := b\<rparr>)"
      using commit(2) commit(3) [OF False] at p' k q by (simp add: receiver_at_def)
    then have "lane_invar lane (peer_commit ops ?q, a\<lparr>pa_partial := Some p', pa_quota := b\<rparr>, accepted, delivered)"
      using commit(1,2) commit(3) [OF False] caps b acc cap q hq p'(2) assms(2) by (simp add: lane_invar_def)
    then show ?thesis using that [where q' = "peer_commit ops ?q" and a' = "a\<lparr>pa_partial := Some p', pa_quota := b\<rparr>"]
        step [OF push] False commit(3) [OF False] assms(2) p'(5) by simp
  qed
qed

lemma expire_invar: "lane_invar lane (q, a, accepted, delivered) \<Longrightarrow> lane_invar lane (exec_lane ops (LaneExpire now) (q, a, accepted, delivered))"
  by (auto simp: lane_invar_def peer_expire_def peer_close_def peer_release_partial_def release_held split: option.splits if_splits)

lemma enqueue_invar:
  assumes inv: "lane_invar lane (q, a, accepted, delivered)"
  shows "lane_invar lane (exec_lane ops (LaneEnqueue bytes) (q, a, accepted, delivered))"
proof (cases "pq_closed q \<or> length bytes < 1 \<or> peer_lane_cap (pq_lane q) < length bytes \<or> pq_next_message_id q = 0")
  case True
  then show ?thesis using inv by (auto simp: peer_enqueue_def)
next
  case False
  show ?thesis
  proof (cases "held (pq_quota q) + length bytes \<le> room (pq_quota q)")
    case full: False
    then have "qo_reserve ops (length bytes) (pq_quota q) = (pq_quota q, False)"
      using reserve_refused [of "pq_quota q" "length bytes"] reserve_iff [of "length bytes" "pq_quota q"]
      by (cases "qo_reserve ops (length bytes) (pq_quota q)") simp
    then show ?thesis using inv False by (simp add: peer_enqueue_def)
  next
    case True
    then obtain b where b: "qo_reserve ops (length bytes) (pq_quota q) = (b, True)" "held b = held (pq_quota q) + length bytes" "room b = room (pq_quota q)"
      using reserve_pair by blast
    define q' where "q' = q\<lparr>pq_quota := b, pq_messages := pq_messages q @ [\<lparr>qm_message_id = pq_next_message_id q, qm_bytes = bytes, qm_offset_bytes = 0\<rparr>],
      pq_retained_bytes := pq_retained_bytes q + length bytes, pq_next_message_id := (if pq_next_message_id q = u32_max then 0 else pq_next_message_id q + 1)\<rparr>"
    have ok: "sender_ok q" using inv by (simp add: lane_invar_def)
    have sent: "sender_ok q'" "next_id q' = Suc (next_id q)" using enqueue_sender [OF ok _ _ _ q'_def] False by (simp_all add: Suc_le_eq)
    have "exec_lane ops (LaneEnqueue bytes) (q, a, accepted, delivered) = (q', a, accepted @ [bytes], delivered)"
      using False b(1) allocates by (simp add: peer_enqueue_def q'_def Let_def)
    moreover have "receiver_at q' a" if "receiver_at q a"
      using that sent(2) by (cases "pq_messages q") (auto simp: receiver_at_def q'_def split: option.splits)
    ultimately show ?thesis using inv sent(1) b(2,3) True by (auto simp: lane_invar_def q'_def)
  qed
qed

lemma peek_invar:
  assumes "lane_invar lane (q, a, accepted, delivered)"
  shows "lane_invar lane (exec_lane ops LanePeek (q, a, accepted, delivered))"
proof (cases "pq_messages q")
  case Nil
  then show ?thesis using assms peek_empty [of q ops] by (simp add: lane_invar_def)
next
  case (Cons m ms)
  have ok: "sender_ok q" using assms by (simp add: lane_invar_def)
  show ?thesis using assms by (rule_tac peek_head [OF ok Cons, of ops]) (auto simp: lane_invar_def)
qed

lemma transmit_invar:
  assumes inv: "lane_invar lane (q, a, accepted, delivered)"
  shows "lane_invar lane (exec_lane ops (LaneTransmit now) (q, a, accepted, delivered))"
proof (cases "pq_messages q")
  case Nil
  then show ?thesis using inv peek_empty [of q ops] by (simp add: lane_invar_def)
next
  case (Cons m ms)
  have ok: "sender_ok q" using inv by (simp add: lane_invar_def)
  obtain p packet where peek: "peer_next_fragment ops q = (q\<lparr>pq_pending := Some p, pq_pending_bytes := packet\<rparr>, Ok (Some (qm_message_id m, pf_final p, packet)))"
    and pay: "pf_payload_bytes p = length (head_payload m)" and ok': "sender_ok (q\<lparr>pq_pending := Some p, pq_pending_bytes := packet\<rparr>)"
    using peek_head [OF ok Cons] by blast
  let ?q = "q\<lparr>pq_pending := Some p, pq_pending_bytes := packet\<rparr>"
  have q1: "pq_messages ?q = m # ms" "pq_pending ?q = Some p" using Cons by simp_all
  have held: "held (pq_quota (peer_commit ops ?q)) = pq_retained_bytes (peer_commit ops ?q)" if "held (pq_quota q) = pq_retained_bytes q"
    using that Cons pay by (simp add: peer_commit_def release_held Let_def)
  have kept: "pq_lane (peer_commit ops ?q) = pq_lane q" "pq_retained_bytes (peer_commit ops ?q) \<le> pq_retained_bytes q"
    "room (pq_quota (peer_commit ops ?q)) = room (pq_quota q)"
    using Cons pay by (simp_all add: peer_commit_def release_room Let_def)
  note sent = commit_head(1) [OF ok' q1 pay, of ops]
  consider (closed) "pa_closed a" | (stalled) p where "\<not> pa_closed a" "pa_partial a = Some p" "fragment_stalled now p"
    | (ready) "\<not> pa_closed a" "\<And>p. pa_partial a = Some p \<Longrightarrow> \<not> fragment_stalled now p" by blast
  then show ?thesis
  proof cases
    case closed
    then show ?thesis using inv peek sent held kept by (simp add: lane_invar_def peer_push_def)
  next
    case stalled
    then have "peer_push ops packet now a = (peer_close ops a, Err PeerFragmentStalled)" by (simp add: peer_push_def peer_accept_def)
    then show ?thesis using stalled inv peek sent held kept by (simp add: lane_invar_def peer_close_def peer_release_partial_def release_held)
  next
    case ready
    then show ?thesis using transmit_open [OF inv _ Cons, of now] by metis
  qed
qed

lemma exec_lane_invar: "lane_invar lane x \<Longrightarrow> lane_invar lane (exec_lane ops op x)"
  by (cases x; cases op) (simp_all only: expire_invar enqueue_invar peek_invar transmit_invar)

text \<open>A receiver turns the sender's packets away only when it is closed or has waited too long for one.\<close>

lemma rejects_only_stalls:
  assumes inv: "lane_invar lane (q, a, accepted, delivered)"
  shows "case snd (peer_next_fragment ops q) of
      Ok (Some (_, _, packet)) \<Rightarrow> (case snd (peer_push ops packet now a) of Err e \<Rightarrow> e = PeerClosed \<or> e = PeerFragmentStalled | Ok _ \<Rightarrow> True)
    | Ok None \<Rightarrow> pq_messages q = []
    | Err _ \<Rightarrow> False"
proof (cases "pq_messages q")
  case Nil
  then show ?thesis using inv peek_empty [of q ops] by (simp add: lane_invar_def)
next
  case (Cons m ms)
  have ok: "sender_ok q" using inv by (simp add: lane_invar_def)
  obtain p packet where peek: "peer_next_fragment ops q = (q\<lparr>pq_pending := Some p, pq_pending_bytes := packet\<rparr>, Ok (Some (qm_message_id m, pf_final p, packet)))"
    and parse: "parse_terminal_peer_packet (pq_lane q) packet = Ok \<lparr>pk_header = head_header m, pk_payload = head_payload m\<rparr>"
    using peek_head [OF ok Cons] by blast
  have "case snd (peer_push ops packet now a) of Err e \<Rightarrow> e = PeerClosed \<or> e = PeerFragmentStalled | Ok _ \<Rightarrow> True"
  proof (cases "pa_closed a \<or> (\<exists>p. pa_partial a = Some p \<and> fragment_stalled now p)")
    case True
    then show ?thesis by (auto simp: peer_push_def peer_accept_def)
  next
    case False
    then have "receiver_at q a" "pa_lane a = pq_lane q" "peer_lane_cap (pa_lane a) \<le> room (pa_quota a)"
      "held (pa_quota a) = (case pa_partial a of None \<Rightarrow> 0 | Some p \<Rightarrow> pp_total_bytes p)"
      using inv by (auto simp: lane_invar_def receiver_at_def)
    then show ?thesis using False parse by (rule_tac push_head [OF _ _ ok Cons, of a packet now]) auto
  qed
  then show ?thesis using peek by simp
qed

text \<open>Enough transmissions, none of them later than the stall window after the one before, empty the queue.\<close>

lemma paced_drains:
  assumes "lane_invar lane (q, a, accepted, delivered)" "\<not> pa_closed a" "length ts = packets_left q"
    and "\<And>p. pa_partial a = Some p \<Longrightarrow> pp_last_fragment_at_ms p = t" "peer_paced t ts"
  shows "\<exists>q' a'. fold (exec_lane ops) (map LaneTransmit ts) (q, a, accepted, delivered) = (q', a', accepted, accepted)
    \<and> pq_messages q' = [] \<and> \<not> pa_closed a'"
  using assms
proof (induction ts arbitrary: q a delivered t)
  case Nil
  have "pq_messages q = []" using Nil(1,3) packets_left_pos by (fastforce simp: lane_invar_def)
  then show ?case using Nil(1,2) by (simp add: lane_invar_def)
next
  case (Cons u us)
  have ok: "sender_ok q" using Cons.prems(1) by (simp add: lane_invar_def)
  obtain m ms where q: "pq_messages q = m # ms" using Cons.prems(3) by (cases "pq_messages q") (auto simp: packets_left_def)
  have fresh: "\<not> fragment_stalled u p" if "pa_partial a = Some p" for p
    using Cons.prems(4) [OF that] Cons.prems(5) by (auto simp: fragment_stalled_def TERMINAL_PEER_PACKET_STALL_MS_def)
  obtain q' a' where step: "exec_lane ops (LaneTransmit u) (q, a, accepted, delivered) =
       (q', a', accepted, if qm_offset_bytes m + length (head_payload m) = length (qm_bytes m) then delivered @ [qm_bytes m] else delivered)"
    and inv: "lane_invar lane (q', a', accepted, if qm_offset_bytes m + length (head_payload m) = length (qm_bytes m) then delivered @ [qm_bytes m] else delivered)"
    and a': "\<not> pa_closed a'" "\<And>p. pa_partial a' = Some p \<Longrightarrow> pp_last_fragment_at_ms p = u"
    and q': "pq_messages q' = (if qm_offset_bytes m + length (head_payload m) = length (qm_bytes m) then ms
       else m\<lparr>qm_offset_bytes := qm_offset_bytes m + length (head_payload m)\<rparr> # ms)"
    using transmit_open [OF Cons.prems(1,2) q fresh] by metis
  have "packets_left q' = length us" using Cons.prems(3) packets_left_step [OF ok q q'] by simp
  then show ?case using Cons.IH [OF inv a'(1) _ a'(2)] Cons.prems(5) step by simp
qed

end

interpretation browser_quota: packet_quota lane_ops lb_retained "\<lambda>b. min (lb_cap_bytes b) u64_max"
  by unfold_locales (auto simp: lane_ops_def lane_budget_reserve_def lane_budget_release_def checked_add64_def split: option.splits if_splits)

section \<open>The browser's lanes\<close>

definition peer_lane_start :: "peer_lane \<Rightarrow> lane_budget peer_lane_state" where
  "peer_lane_start lane = (peer_queue_new lane (lane_budget_new lane), peer_assembler_new lane (lane_budget_new lane), [], [])"

lemma peer_lane_start_invar: "browser_quota.lane_invar lane (peer_lane_start lane)"
  unfolding browser_quota.lane_invar_def
  by (cases lane) (auto simp: peer_lane_start_def peer_queue_new_def peer_assembler_new_def lane_budget_new_def
      sender_ok_def receiver_at_def next_id_def u64_max_def u32_max_def)

interpretation browser_lane: invariant_machine "browser_quota.lane_invar lane" "\<lambda>_. True" "exec_lane lane_ops" for lane
  by unfold_locales (rule browser_quota.exec_lane_invar)

lemma lane_reached: "browser_quota.lane_invar lane (fold (exec_lane lane_ops) ops (peer_lane_start lane))"
  by (rule browser_lane.run_invar [OF peer_lane_start_invar]) (simp add: list_all_iff)


text \<open>
  C21: a lane makes progress: from every state the two ends can reach with the receiver open, as many
  transmissions as the queue has packets left, the first within the stall window of the last fragment and
  each within it of the one before, empty the queue and deliver every message it ever accepted.
\<close>

theorem peer_lane_drains:
  assumes "fold (exec_lane lane_ops) ops (peer_lane_start lane) = (q, a, accepted, delivered)" "\<not> pa_closed a"
    and "length ts = packets_left q" "peer_paced (case pa_partial a of None \<Rightarrow> t | Some p \<Rightarrow> pp_last_fragment_at_ms p) ts"
  shows "\<exists>q' a'. fold (exec_lane lane_ops) (ops @ map LaneTransmit ts) (peer_lane_start lane) = (q', a', accepted, accepted)
    \<and> pq_messages q' = [] \<and> \<not> pa_closed a'"
proof -
  have "browser_quota.lane_invar lane (q, a, accepted, delivered)" using lane_reached [of lane ops] assms(1) by simp
  then show ?thesis using browser_quota.paced_drains [OF _ assms(2,3) _ assms(4)] assms(1) by simp
qed

text \<open>Two messages queued on the terminal lane, and two transmissions, each just inside the stall window.\<close>

theorem peer_lane_drains_witness:
  "\<exists>q' a'. fold (exec_lane lane_ops) ([LaneEnqueue [1, 2, 3], LaneEnqueue [4]] @ map LaneTransmit [9999, 19998]) (peer_lane_start PeerTerminal)
      = (q', a', [[1, 2, 3], [4]], [[1, 2, 3], [4]]) \<and> pq_messages q' = [] \<and> \<not> pa_closed a'"
proof -
  let ?x = "fold (exec_lane lane_ops) [LaneEnqueue [1, 2, 3], LaneEnqueue [4]] (peer_lane_start PeerTerminal)"
  have "fst (snd (snd ?x)) = [[1, 2, 3], [4]]" "\<not> pa_closed (fst (snd ?x))" "length [9999, 19998::nat] = packets_left (fst ?x)"
    "peer_paced (case pa_partial (fst (snd ?x)) of None \<Rightarrow> 0 | Some p \<Rightarrow> pp_last_fragment_at_ms p) [9999, 19998]"
    by (simp_all add: peer_lane_start_def peer_queue_new_def peer_assembler_new_def lane_budget_new_def peer_enqueue_def lane_ops_def
        lane_budget_reserve_def checked_add64_def u64_max_def u32_max_def packets_left_def message_packets_def peer_limits
        TERMINAL_PEER_PACKET_STALL_MS_def)
  then show ?thesis
    using peer_lane_drains [of "[LaneEnqueue [1, 2, 3], LaneEnqueue [4]]" PeerTerminal "fst ?x" "fst (snd ?x)" "fst (snd (snd ?x))" "snd (snd (snd ?x))" "[9999, 19998]" 0]
    unfolding prod.collapse by simp
qed

section \<open>Starting a lane over\<close>

text \<open>
  Clearing and resetting are not steps of the lane above: they drop what the queue accepted. What a reset
  of both ends leaves is the lane as it opened, so what was proved of a lane holds again from there.
\<close>

definition ends_kept :: "peer_lane \<Rightarrow> lane_budget peer_lane_state \<Rightarrow> bool" where
  "ends_kept lane x \<longleftrightarrow> (case x of (q, a, accepted, delivered) \<Rightarrow> pq_lane q = lane \<and> lb_cap_bytes (pq_quota q) = peer_lane_cap lane
     \<and> pa_lane a = lane \<and> lb_cap_bytes (pa_quota a) = peer_lane_cap lane \<and> (pa_closed a \<longrightarrow> pa_partial a = None))"

lemma budget_cap [simp]:
  "lb_cap_bytes (fst (lane_budget_reserve n b)) = lb_cap_bytes b" "lb_cap_bytes (lane_budget_release n b) = lb_cap_bytes b"
  by (auto simp: lane_budget_reserve_def lane_budget_release_def split: option.splits)

lemma reserved_cap: "lane_budget_reserve n b = (b', granted) \<Longrightarrow> lb_cap_bytes b' = lb_cap_bytes b"
  using budget_cap(1) [of n b] by simp

lemma lane_ops_sel [simp]:
  "qo_reserve lane_ops = lane_budget_reserve" "qo_release lane_ops = lane_budget_release" "qo_alloc lane_ops n"
  by (simp_all add: lane_ops_def)

lemma receiver_kept:
  assumes "pa_closed a \<longrightarrow> pa_partial a = None"
  shows "pa_lane (fst (peer_push lane_ops packet now a)) = pa_lane a"
    "lb_cap_bytes (pa_quota (fst (peer_push lane_ops packet now a))) = lb_cap_bytes (pa_quota a)"
    "pa_closed (fst (peer_push lane_ops packet now a)) \<longrightarrow> pa_partial (fst (peer_push lane_ops packet now a)) = None"
proof -
  have begun: "pa_lane (fst (peer_begin lane_ops h now a)) = pa_lane a \<and> pa_closed (fst (peer_begin lane_ops h now a)) = pa_closed a
    \<and> lb_cap_bytes (pa_quota (fst (peer_begin lane_ops h now a))) = lb_cap_bytes (pa_quota a)" for h
    by (auto dest: reserved_cap simp: peer_begin_def peer_copy_single_def allocate_logical_def Let_def split: prod.splits sum.splits if_splits)
  have continue: "pa_lane (fst (peer_continue lane_ops h now p a)) = pa_lane a \<and> pa_closed (fst (peer_continue lane_ops h now p a)) = pa_closed a
    \<and> lb_cap_bytes (pa_quota (fst (peer_continue lane_ops h now p a))) = lb_cap_bytes (pa_quota a)" for h p
    by (auto simp: peer_continue_def peer_complete_def Let_def split: prod.splits sum.splits if_splits)
  have accept: "pa_lane (fst (peer_accept lane_ops packet now a)) = pa_lane a \<and> pa_closed (fst (peer_accept lane_ops packet now a)) = pa_closed a
    \<and> lb_cap_bytes (pa_quota (fst (peer_accept lane_ops packet now a))) = lb_cap_bytes (pa_quota a)"
    using begun continue by (simp add: peer_accept_def split: sum.split option.split)
  have close: "pa_lane (peer_close lane_ops b) = pa_lane b \<and> pa_partial (peer_close lane_ops b) = None
    \<and> lb_cap_bytes (pa_quota (peer_close lane_ops b)) = lb_cap_bytes (pa_quota b)" for b
    by (simp add: peer_close_def peer_release_partial_def split: option.split)
  show "pa_lane (fst (peer_push lane_ops packet now a)) = pa_lane a"
    "lb_cap_bytes (pa_quota (fst (peer_push lane_ops packet now a))) = lb_cap_bytes (pa_quota a)"
    "pa_closed (fst (peer_push lane_ops packet now a)) \<longrightarrow> pa_partial (fst (peer_push lane_ops packet now a)) = None"
    using accept close assms by (auto simp: peer_push_def split: prod.splits sum.splits)
qed

lemma sender_kept:
  "pq_lane (fst (peer_enqueue lane_ops bytes q)) = pq_lane q" "lb_cap_bytes (pq_quota (fst (peer_enqueue lane_ops bytes q))) = lb_cap_bytes (pq_quota q)"
  "pq_lane (fst (peer_next_fragment lane_ops q)) = pq_lane q" "lb_cap_bytes (pq_quota (fst (peer_next_fragment lane_ops q))) = lb_cap_bytes (pq_quota q)"
  "pq_lane (peer_commit lane_ops q) = pq_lane q" "lb_cap_bytes (pq_quota (peer_commit lane_ops q)) = lb_cap_bytes (pq_quota q)"
proof -
  have released: "lb_cap_bytes (fold (\<lambda>m. lane_budget_release (length (qm_bytes m))) ms b) = lb_cap_bytes b" for ms :: "queued_message list" and b :: lane_budget
    by (induction ms arbitrary: b) simp_all
  show "pq_lane (fst (peer_enqueue lane_ops bytes q)) = pq_lane q" "lb_cap_bytes (pq_quota (fst (peer_enqueue lane_ops bytes q))) = lb_cap_bytes (pq_quota q)"
    by (auto dest: reserved_cap simp: peer_enqueue_def Let_def split: prod.splits)
  show "pq_lane (fst (peer_next_fragment lane_ops q)) = pq_lane q" "lb_cap_bytes (pq_quota (fst (peer_next_fragment lane_ops q))) = lb_cap_bytes (pq_quota q)"
    by (simp_all add: peer_next_fragment_def peer_queue_clear_def released split: option.splits sum.splits)
  show "pq_lane (peer_commit lane_ops q) = pq_lane q" "lb_cap_bytes (pq_quota (peer_commit lane_ops q)) = lb_cap_bytes (pq_quota q)"
    by (simp_all add: peer_commit_def Let_def split: option.splits list.splits)
qed

lemma exec_ends_kept: "ends_kept lane x \<Longrightarrow> ends_kept lane (exec_lane lane_ops op x)"
proof -
  assume k: "ends_kept lane x"
  obtain q a accepted delivered where x: "x = (q, a, accepted, delivered)" by (metis prod_cases4)
  show ?thesis
  proof (cases op)
    case (LaneExpire now)
    then show ?thesis using k
      by (auto simp: x ends_kept_def peer_expire_def peer_close_def peer_release_partial_def split: option.splits if_splits)
  next
    case (LaneTransmit now)
    obtain q' r where n: "peer_next_fragment lane_ops q = (q', r)" by force
    have q': "pq_lane q' = pq_lane q" "lb_cap_bytes (pq_quota q') = lb_cap_bytes (pq_quota q)" using sender_kept(3,4) [of q] n by simp_all
    have a: "ends_kept lane (peer_commit lane_ops q', fst (peer_push lane_ops packet now a), accepted, messages)" for packet messages
      using k receiver_kept [of a packet now] q' by (auto simp: x ends_kept_def sender_kept)
    show ?thesis using k q' a
      by (auto simp: LaneTransmit x n case_prod_beta split: sum.split option.split) (auto simp: ends_kept_def)
  qed (use k in \<open>simp_all add: x ends_kept_def sender_kept case_prod_beta\<close>)
qed

interpretation lane_ends: invariant_machine "ends_kept lane" "\<lambda>_. True" "exec_lane lane_ops" for lane
  by unfold_locales (rule exec_ends_kept)

lemma lane_restarts:
  assumes "fold (exec_lane lane_ops) ops (peer_lane_start lane) = (q, a, accepted, delivered)"
  shows "(peer_queue_reset lane_ops q, peer_assembler_reset lane_ops a, [], []) = peer_lane_start lane"
proof -
  have "ends_kept lane (peer_lane_start lane)"
    by (simp add: ends_kept_def peer_lane_start_def peer_queue_new_def peer_assembler_new_def lane_budget_new_def)
  then have k: "ends_kept lane (q, a, accepted, delivered)"
    using lane_ends.run_invar [of lane "peer_lane_start lane" ops] assms by (simp add: list_all_iff)
  have inv: "browser_quota.lane_invar lane (q, a, accepted, delivered)" using lane_reached [of lane ops] assms by simp
  have released: "lb_retained (fold (\<lambda>m. lane_budget_release (length (qm_bytes m))) ms b) = lb_retained b - sum_list (map (length \<circ> qm_bytes) ms)"
    "lb_cap_bytes (fold (\<lambda>m. lane_budget_release (length (qm_bytes m))) ms b) = lb_cap_bytes b" for ms :: "queued_message list" and b :: lane_budget
    by (induction ms arbitrary: b) (simp_all add: lane_budget_release_def)
  have "lb_retained (pq_quota q) = sum_list (map (length \<circ> qm_bytes) (pq_messages q))"
    using inv by (simp add: browser_quota.lane_invar_def sender_ok_def)
  then have "fold (\<lambda>m. lane_budget_release (length (qm_bytes m))) (pq_messages q) (pq_quota q) = lane_budget_new lane"
    using k released by (intro lane_budget.equality) (simp_all add: ends_kept_def lane_budget_new_def)
  then have "peer_queue_reset lane_ops q = peer_queue_new lane (lane_budget_new lane)"
    using k by (intro peer_queue.equality) (simp_all add: ends_kept_def peer_queue_reset_def peer_queue_clear_def peer_queue_new_def)
  moreover have "peer_assembler_reset lane_ops a = peer_assembler_new lane (lane_budget_new lane)"
    using k inv by (cases "pa_partial a"; intro peer_assembler.equality lane_budget.equality)
      (auto simp: ends_kept_def peer_assembler_reset_def peer_release_partial_def peer_assembler_new_def
        lane_budget_new_def lane_budget_release_def browser_quota.lane_invar_def split: if_splits)
  ultimately show ?thesis by (simp add: peer_lane_start_def)
qed

end
