(* ===== verification/Peer_Heartbeat.thy ===== *)
theory Peer_Heartbeat
  imports Ordered_Map
begin

text \<open>
  What keeps a direct peer honest: its outstanding transport probes
  (\<^verbatim>\<open>roost-client-core/src/client/carriers/probe_state.rs\<close>), the heartbeat that sends them and counts the
  misses, the attempt's own deadlines (\<^verbatim>\<open>roost-web/src/platform/carriers/peer_carrier/heartbeat.rs\<close>, \<^verbatim>\<open>life.rs\<close>),
  and the pump's turns over them (\<^verbatim>\<open>roost-web/src/pump/peer_lane/liveness.rs\<close>). The clock is the argument it
  is in the source; whether an id can be minted and whether the control lane takes the bytes are
  arguments too.
\<close>

section \<open>Outstanding probes\<close>

definition TERMINAL_PEER_HEARTBEAT_INTERVAL_MS :: nat where "TERMINAL_PEER_HEARTBEAT_INTERVAL_MS = 5000"
definition TERMINAL_PEER_PROBE_DEADLINE_MS :: nat where "TERMINAL_PEER_PROBE_DEADLINE_MS = 3000"
definition TERMINAL_PEER_PROBE_QUALIFICATION_MS :: nat where
  "TERMINAL_PEER_PROBE_QUALIFICATION_MS = TERMINAL_PEER_HEARTBEAT_INTERVAL_MS + TERMINAL_PEER_PROBE_DEADLINE_MS"

lemmas probe_limits = TERMINAL_PEER_HEARTBEAT_INTERVAL_MS_def TERMINAL_PEER_PROBE_DEADLINE_MS_def TERMINAL_PEER_PROBE_QUALIFICATION_MS_def

record transport_probe_result =
  pr_request_id :: string
  pr_worker_fp :: string
  pr_worker_epoch :: string

record probe_reading =
  rd_last_probe_at_ms :: "nat option"
  rd_rtt_ms :: "nat option"
  rd_liveness_qualified :: bool

record transport_probe_state =
  tp_worker_fp :: string
  tp_worker_epoch :: string
  tp_pending :: "(string \<times> nat) list"
  tp_last_probe_at_ms :: "nat option"
  tp_rtt_ms :: "nat option"
  tp_qualified :: bool

definition probe_state_new :: "string \<Rightarrow> string \<Rightarrow> transport_probe_state" where
  "probe_state_new worker_fp worker_epoch = \<lparr>tp_worker_fp = worker_fp, tp_worker_epoch = worker_epoch, tp_pending = [],
     tp_last_probe_at_ms = None, tp_rtt_ms = None, tp_qualified = False\<rparr>"

definition probe_start :: "string \<Rightarrow> nat \<Rightarrow> transport_probe_state \<Rightarrow> transport_probe_state \<times> bool" where
  "probe_start request_id now_ms s =
     (if request_id = [] \<or> map_of (tp_pending s) request_id \<noteq> None then (s, False)
      else (s\<lparr>tp_pending := btree_insert request_id now_ms (tp_pending s)\<rparr>, True))"

definition probe_refuse :: "string \<Rightarrow> transport_probe_state \<Rightarrow> transport_probe_state" where
  "probe_refuse request_id s =
     (case map_of (tp_pending s) request_id of
        None \<Rightarrow> s
      | Some _ \<Rightarrow> s\<lparr>tp_pending := btree_remove request_id (tp_pending s), tp_qualified := False\<rparr>)"

definition answers_this_worker :: "transport_probe_result \<Rightarrow> transport_probe_state \<Rightarrow> bool" where
  "answers_this_worker result s \<longleftrightarrow> pr_worker_fp result = tp_worker_fp s \<and> pr_worker_epoch result = tp_worker_epoch s"

definition probe_resolve :: "transport_probe_result \<Rightarrow> nat \<Rightarrow> transport_probe_state \<Rightarrow> transport_probe_state \<times> bool" where
  "probe_resolve result now_ms s =
     (if \<not> answers_this_worker result s then (s, False)
      else (case map_of (tp_pending s) (pr_request_id result) of
              None \<Rightarrow> (s, False)
            | Some started_ms \<Rightarrow>
                (s\<lparr>tp_pending := btree_remove (pr_request_id result) (tp_pending s), tp_last_probe_at_ms := Some now_ms,
                   tp_rtt_ms := Some (now_ms - started_ms), tp_qualified := True\<rparr>, True)))"

definition probe_expire :: "nat \<Rightarrow> transport_probe_state \<Rightarrow> transport_probe_state \<times> string list" where
  "probe_expire now_ms s =
     (let lapsed = map fst (filter (\<lambda>(_, started_ms). TERMINAL_PEER_PROBE_DEADLINE_MS \<le> now_ms - started_ms) (tp_pending s));
          s = s\<lparr>tp_pending := fold btree_remove lapsed (tp_pending s)\<rparr>
      in (if lapsed = [] then s else s\<lparr>tp_qualified := False\<rparr>, lapsed))"

definition require_fresh :: "transport_probe_state \<Rightarrow> transport_probe_state" where
  "require_fresh s = s\<lparr>tp_qualified := False, tp_pending := []\<rparr>"

definition probe_reading_at :: "nat \<Rightarrow> transport_probe_state \<Rightarrow> probe_reading" where
  "probe_reading_at now_ms s = \<lparr>rd_last_probe_at_ms = tp_last_probe_at_ms s, rd_rtt_ms = tp_rtt_ms s,
     rd_liveness_qualified = (tp_qualified s \<and> (case tp_last_probe_at_ms s of
         None \<Rightarrow> False
       | Some answered_ms \<Rightarrow> now_ms - answered_ms \<le> TERMINAL_PEER_PROBE_QUALIFICATION_MS))\<rparr>"

section \<open>The heartbeat\<close>

definition HEARTBEAT_MISS_LIMIT :: nat where "HEARTBEAT_MISS_LIMIT = 3"

datatype heartbeat_miss = MissTolerated | MissExhausted

datatype candidate_type = CandidateNone | CandidateHost | CandidateSrflx | CandidatePrflx

record peer_heartbeat =
  hb_probes :: transport_probe_state
  hb_running :: bool
  hb_next_due_ms :: "nat option"
  hb_in_flight :: "string option"
  hb_lapsed_unanswered :: "string list"
  hb_misses :: nat
  hb_candidate_type :: candidate_type
  hb_stats_started_ms :: "nat option"
  hb_stats_settled_ms :: "nat option"
  hb_published_qualified :: bool

definition heartbeat_new :: "string \<Rightarrow> string \<Rightarrow> peer_heartbeat" where
  "heartbeat_new worker_fp worker_epoch = \<lparr>hb_probes = probe_state_new worker_fp worker_epoch, hb_running = False,
     hb_next_due_ms = None, hb_in_flight = None, hb_lapsed_unanswered = [], hb_misses = 0, hb_candidate_type = CandidateNone,
     hb_stats_started_ms = None, hb_stats_settled_ms = None, hb_published_qualified = False\<rparr>"

definition hb_set_running :: "bool \<Rightarrow> nat \<Rightarrow> peer_heartbeat \<Rightarrow> peer_heartbeat" where
  "hb_set_running running now_ms h =
     (let h = (if running \<and> \<not> hb_running h
               then h\<lparr>hb_probes := require_fresh (hb_probes h), hb_in_flight := None, hb_lapsed_unanswered := [], hb_next_due_ms := Some now_ms\<rparr>
               else h);
          h = (if \<not> running then h\<lparr>hb_next_due_ms := None\<rparr> else h)
      in h\<lparr>hb_running := running\<rparr>)"

definition hb_is_due :: "nat \<Rightarrow> peer_heartbeat \<Rightarrow> bool" where
  "hb_is_due now_ms h \<longleftrightarrow> hb_running h \<and> hb_in_flight h = None
     \<and> (case hb_next_due_ms h of None \<Rightarrow> False | Some due_ms \<Rightarrow> due_ms \<le> now_ms)"

definition hb_probe_sent :: "string \<Rightarrow> nat \<Rightarrow> peer_heartbeat \<Rightarrow> peer_heartbeat \<times> bool" where
  "hb_probe_sent request_id now_ms h =
     (let (s, ok) = probe_start request_id now_ms (hb_probes h)
      in if \<not> ok then (h\<lparr>hb_probes := s\<rparr>, False)
         else (h\<lparr>hb_probes := s, hb_in_flight := Some request_id, hb_next_due_ms := None\<rparr>, True))"

definition hb_schedule_next :: "nat \<Rightarrow> peer_heartbeat \<Rightarrow> peer_heartbeat" where
  "hb_schedule_next now_ms h =
     (if hb_running h then h\<lparr>hb_next_due_ms := Some (saturating_add64 now_ms TERMINAL_PEER_HEARTBEAT_INTERVAL_MS)\<rparr> else h)"

definition hb_missed :: "nat \<Rightarrow> peer_heartbeat \<Rightarrow> peer_heartbeat \<times> heartbeat_miss" where
  "hb_missed now_ms h =
     (let h = hb_schedule_next now_ms (h\<lparr>hb_misses := saturating_add32 (hb_misses h) 1\<rparr>)
      in (h, if HEARTBEAT_MISS_LIMIT \<le> hb_misses h then MissExhausted else MissTolerated))"

definition hb_probe_refused :: "nat \<Rightarrow> peer_heartbeat \<Rightarrow> peer_heartbeat \<times> heartbeat_miss" where
  "hb_probe_refused now_ms h =
     hb_missed now_ms (case hb_in_flight h of
         None \<Rightarrow> h
       | Some request_id \<Rightarrow> h\<lparr>hb_in_flight := None, hb_probes := probe_refuse request_id (hb_probes h)\<rparr>)"

definition forgive_late_answer :: "transport_probe_result \<Rightarrow> peer_heartbeat \<Rightarrow> peer_heartbeat \<times> bool" where
  "forgive_late_answer result h =
     (if \<not> answers_this_worker result (hb_probes h) \<or> pr_request_id result \<notin> set (hb_lapsed_unanswered h) then (h, False)
      else (h\<lparr>hb_lapsed_unanswered := [], hb_misses := 0\<rparr>, True))"

definition hb_answered :: "transport_probe_result \<Rightarrow> nat \<Rightarrow> peer_heartbeat \<Rightarrow> peer_heartbeat \<times> bool" where
  "hb_answered result now_ms h =
     (let (s, ok) = probe_resolve result now_ms (hb_probes h); h = h\<lparr>hb_probes := s\<rparr>
      in if \<not> ok then forgive_late_answer result h
         else if hb_in_flight h = Some (pr_request_id result)
         then (hb_schedule_next now_ms (h\<lparr>hb_in_flight := None, hb_misses := 0, hb_lapsed_unanswered := []\<rparr>), True)
         else (h, True))"

definition hb_lapsed :: "nat \<Rightarrow> peer_heartbeat \<Rightarrow> peer_heartbeat \<times> heartbeat_miss option" where
  "hb_lapsed now_ms h =
     (let (s, lapsed) = probe_expire now_ms (hb_probes h); h = h\<lparr>hb_probes := s\<rparr>
      in (case hb_in_flight h of
            None \<Rightarrow> (h, None)
          | Some request_id \<Rightarrow>
              if request_id \<notin> set lapsed then (h, None)
              else
                let (h, miss) = hb_missed now_ms (h\<lparr>hb_in_flight := None, hb_lapsed_unanswered := hb_lapsed_unanswered h @ [request_id]\<rparr>)
                in (h, Some miss)))"

definition begin_stats_read :: "nat \<Rightarrow> peer_heartbeat \<Rightarrow> peer_heartbeat \<times> bool" where
  "begin_stats_read now_ms h =
     (let outstanding = (case hb_stats_started_ms h of None \<Rightarrow> False | Some t \<Rightarrow> now_ms - t < TERMINAL_PEER_PROBE_DEADLINE_MS);
          rested = (case hb_stats_settled_ms h of None \<Rightarrow> True | Some t \<Rightarrow> TERMINAL_PEER_HEARTBEAT_INTERVAL_MS \<le> now_ms - t)
      in if outstanding \<or> \<not> rested then (h, False) else (h\<lparr>hb_stats_started_ms := Some now_ms\<rparr>, True))"

definition stats_arrived :: "candidate_type \<Rightarrow> nat \<Rightarrow> peer_heartbeat \<Rightarrow> peer_heartbeat" where
  "stats_arrived candidate_type now_ms h =
     (let h = h\<lparr>hb_stats_started_ms := None, hb_stats_settled_ms := Some now_ms\<rparr>
      in if candidate_type \<noteq> CandidateNone then h\<lparr>hb_candidate_type := candidate_type\<rparr> else h)"

definition hb_reading :: "nat \<Rightarrow> peer_heartbeat \<Rightarrow> probe_reading" where
  "hb_reading now_ms h = probe_reading_at now_ms (hb_probes h)"

definition qualification_changed :: "nat \<Rightarrow> peer_heartbeat \<Rightarrow> bool" where
  "qualification_changed now_ms h \<longleftrightarrow> rd_liveness_qualified (hb_reading now_ms h) \<noteq> hb_published_qualified h"

definition hb_mark_published :: "bool \<Rightarrow> peer_heartbeat \<Rightarrow> peer_heartbeat" where
  "hb_mark_published qualified h = h\<lparr>hb_published_qualified := qualified\<rparr>"

section \<open>The pump's turns on one attempt\<close>

text \<open>Publishing and losing the peer are the two effects; the telemetry itself is the reading.\<close>

definition hb_publish :: "nat \<Rightarrow> peer_heartbeat \<Rightarrow> peer_heartbeat" where
  "hb_publish now_ms h = hb_mark_published (rd_liveness_qualified (hb_reading now_ms h)) h"

definition settle_miss :: "nat \<Rightarrow> peer_heartbeat \<times> heartbeat_miss option \<Rightarrow> peer_heartbeat \<times> bool" where
  "settle_miss now_ms x =
     (case x of
        (h, None) \<Rightarrow> (h, False)
      | (h, Some miss) \<Rightarrow> (hb_publish now_ms h, miss = MissExhausted))"

definition send_probe :: "string option \<Rightarrow> bool \<Rightarrow> nat \<Rightarrow> peer_heartbeat \<Rightarrow> peer_heartbeat \<times> bool" where
  "send_probe minted written now_ms h =
     (case minted of
        None \<Rightarrow> settle_miss now_ms (map_prod id Some (hb_probe_refused now_ms h))
      | Some request_id \<Rightarrow>
          (case hb_probe_sent request_id now_ms h of
             (h, False) \<Rightarrow> (h, False)
           | (h, True) \<Rightarrow> if written then (h, False) else settle_miss now_ms (map_prod id Some (hb_probe_refused now_ms h))))"

definition start_due_probe :: "bool \<Rightarrow> string option \<Rightarrow> bool \<Rightarrow> nat \<Rightarrow> peer_heartbeat \<Rightarrow> peer_heartbeat \<times> bool" where
  "start_due_probe serving minted written now_ms h =
     (let h = hb_set_running serving now_ms h; due = hb_is_due now_ms h; h = fst (begin_stats_read now_ms h)
      in if due then send_probe minted written now_ms h else (h, False))"

definition probe_answered :: "transport_probe_result \<Rightarrow> nat \<Rightarrow> peer_heartbeat \<Rightarrow> peer_heartbeat" where
  "probe_answered result now_ms h =
     (case hb_answered result now_ms h of (h, False) \<Rightarrow> h | (h, True) \<Rightarrow> hb_publish now_ms h)"

definition read_heartbeat_deadline :: "nat \<Rightarrow> peer_heartbeat \<Rightarrow> peer_heartbeat \<times> bool" where
  "read_heartbeat_deadline now_ms h =
     (let (h, lost) = settle_miss now_ms (hb_lapsed now_ms h)
      in (if qualification_changed now_ms h then hb_publish now_ms h else h, lost))"

definition measurement_arrived :: "candidate_type \<Rightarrow> nat \<Rightarrow> peer_heartbeat \<Rightarrow> peer_heartbeat" where
  "measurement_arrived candidate_type now_ms h = hb_publish now_ms (stats_arrived candidate_type now_ms h)"

section \<open>Runs\<close>

text \<open>
  What happens to one peer, each event some time after the one before. Beside the heartbeat stand the
  time, the last moment an answer was taken (the start, before any), whether that answer had come after
  its probe's deadline, and for each time the peer is given up those two as they stood.
\<close>

datatype heartbeat_event =
    HbTick bool "string option" bool
  | HbDemand "string option" bool
  | HbAnswer transport_probe_result
  | HbDeadlines
  | HbStats candidate_type

record heartbeat_run =
  hr_beat :: peer_heartbeat
  hr_clock :: nat
  hr_heard :: nat
  hr_late :: bool
  hr_losses :: "(nat \<times> nat \<times> bool) list"

definition note_loss :: "nat \<Rightarrow> peer_heartbeat \<times> bool \<Rightarrow> heartbeat_run \<Rightarrow> heartbeat_run" where
  "note_loss now x r = r\<lparr>hr_beat := fst x, hr_clock := now, hr_losses := hr_losses r @ (if snd x then [(now, hr_heard r, hr_late r)] else [])\<rparr>"

fun exec_heartbeat :: "nat \<times> heartbeat_event \<Rightarrow> heartbeat_run \<Rightarrow> heartbeat_run" where
  "exec_heartbeat (dt, HbTick serving minted written) r =
     (let now = hr_clock r + dt in note_loss now (start_due_probe serving minted written now (hr_beat r)) r)"
| "exec_heartbeat (dt, HbDemand minted written) r =
     (let now = hr_clock r + dt in note_loss now (send_probe minted written now (hr_beat r)) r)"
| "exec_heartbeat (dt, HbAnswer result) r =
     (let now = hr_clock r + dt; r' = note_loss now (probe_answered result now (hr_beat r), False) r
      in if snd (hb_answered result now (hr_beat r))
         then r'\<lparr>hr_heard := now, hr_late := \<not> snd (probe_resolve result now (hb_probes (hr_beat r)))\<rparr> else r')"
| "exec_heartbeat (dt, HbDeadlines) r =
     (let now = hr_clock r + dt in note_loss now (read_heartbeat_deadline now (hr_beat r)) r)"
| "exec_heartbeat (dt, HbStats candidate) r =
     (let now = hr_clock r + dt in note_loss now (measurement_arrived candidate now (hr_beat r), False) r)"

definition heartbeat_started :: "string \<Rightarrow> string \<Rightarrow> nat \<Rightarrow> heartbeat_run" where
  "heartbeat_started worker_fp worker_epoch t0 =
     \<lparr>hr_beat = hb_set_running True t0 (heartbeat_new worker_fp worker_epoch), hr_clock = t0, hr_heard = t0, hr_late = False, hr_losses = []\<rparr>"

text \<open>
  A steady run: the page keeps serving the peer, the control lane takes every probe, and no probe is sent on
  demand, since one replaces the probe in flight (\<open>replaced_probe_forgives_nothing\<close>).
\<close>

fun steady :: "nat \<times> heartbeat_event \<Rightarrow> bool" where
  "steady (_, HbTick serving minted written) \<longleftrightarrow> serving \<and> minted \<noteq> None \<and> written"
| "steady (_, HbDemand _ _) \<longleftrightarrow> False"
| "steady _ \<longleftrightarrow> True"

section \<open>How long a silent worker is waited for\<close>

definition miss_floor :: "heartbeat_run \<Rightarrow> nat" where
  "miss_floor r = hr_heard r + 8000 * hb_misses (hr_beat r) - (if hr_late r then 3000 else 0)"

definition patient :: "heartbeat_run \<Rightarrow> bool" where
  "patient r \<longleftrightarrow> (let h = hr_beat r in
     hb_running h \<and> hr_heard r \<le> hr_clock r
     \<and> (case hb_in_flight h of
          None \<Rightarrow> tp_pending (hb_probes h) = [] \<and> (\<exists>d. hb_next_due_ms h = Some d \<and> (hb_misses h = 0 \<or> miss_floor r \<le> d))
        | Some request_id \<Rightarrow> \<exists>s. tp_pending (hb_probes h) = [(request_id, s)] \<and> s \<le> hr_clock r
            \<and> (hb_misses h = 0 \<and> hr_late r \<or> hr_heard r \<le> s \<and> (hb_misses h = 0 \<or> miss_floor r \<le> s)))
     \<and> list_all (\<lambda>(t, heard, late). heard + (if late then 16000 else 19000) \<le> t) (hr_losses r))"

text \<open>Publishing and reading statistics leave what the patience depends on alone.\<close>

lemma bookkeeping [simp]:
  "hb_misses (hb_publish t h) = hb_misses h" "hb_running (hb_publish t h) = hb_running h" "hb_in_flight (hb_publish t h) = hb_in_flight h"
  "hb_probes (hb_publish t h) = hb_probes h" "hb_next_due_ms (hb_publish t h) = hb_next_due_ms h"
  "hb_misses (stats_arrived c t h) = hb_misses h" "hb_running (stats_arrived c t h) = hb_running h" "hb_in_flight (stats_arrived c t h) = hb_in_flight h"
  "hb_probes (stats_arrived c t h) = hb_probes h" "hb_next_due_ms (stats_arrived c t h) = hb_next_due_ms h"
  "hb_misses (fst (begin_stats_read t h)) = hb_misses h" "hb_running (fst (begin_stats_read t h)) = hb_running h"
  "hb_in_flight (fst (begin_stats_read t h)) = hb_in_flight h" "hb_probes (fst (begin_stats_read t h)) = hb_probes h"
  "hb_next_due_ms (fst (begin_stats_read t h)) = hb_next_due_ms h"
  by (simp_all add: hb_publish_def hb_mark_published_def stats_arrived_def begin_stats_read_def Let_def)

lemma start_patient: "patient (heartbeat_started worker_fp worker_epoch t0)"
  by (simp add: patient_def heartbeat_started_def hb_set_running_def heartbeat_new_def require_fresh_def probe_state_new_def)

lemma tick_patient:
  assumes "patient r"
  shows "patient (exec_heartbeat (dt, HbTick True (Some request_id) True) r)"
proof -
  let ?h = "fst (begin_stats_read (hr_clock r + dt) (hr_beat r))"
  have run: "hb_set_running True (hr_clock r + dt) (hr_beat r) = hr_beat r" using assms by (simp add: patient_def hb_set_running_def Let_def)
  have idle: "patient (note_loss (hr_clock r + dt) (?h, False) r)"
    using assms by (auto simp: patient_def note_loss_def miss_floor_def Let_def split: option.splits)
  show ?thesis
  proof (cases "hb_is_due (hr_clock r + dt) (hr_beat r) \<and> request_id \<noteq> []")
    case False
    have "start_due_probe True (Some request_id) True (hr_clock r + dt) (hr_beat r) = (?h, False)"
      using False run by (auto simp: start_due_probe_def send_probe_def hb_probe_sent_def probe_start_def Let_def)
    then show ?thesis using idle by (simp add: Let_def)
  next
    case True
    then obtain d where due: "hb_in_flight (hr_beat r) = None" "hb_next_due_ms (hr_beat r) = Some d" "d \<le> hr_clock r + dt"
      by (auto simp: hb_is_due_def split: option.splits)
    then have none: "tp_pending (hb_probes (hr_beat r)) = []" and fl: "hb_misses (hr_beat r) = 0 \<or> miss_floor r \<le> d" using assms by (auto simp: patient_def Let_def)
    have send: "start_due_probe True (Some request_id) True (hr_clock r + dt) (hr_beat r) =
        (?h\<lparr>hb_probes := (hb_probes ?h)\<lparr>tp_pending := [(request_id, hr_clock r + dt)]\<rparr>, hb_in_flight := Some request_id, hb_next_due_ms := None\<rparr>, False)"
      using True run none by (simp add: start_due_probe_def send_probe_def hb_probe_sent_def probe_start_def Let_def)
    show ?thesis using assms due fl none unfolding patient_def
      by (auto simp: send note_loss_def miss_floor_def Let_def)
  qed
qed

lemma stats_patient: "patient r \<Longrightarrow> patient (exec_heartbeat (dt, HbStats candidate) r)"
  by (auto simp: patient_def measurement_arrived_def note_loss_def miss_floor_def Let_def split: option.splits)

text \<open>The probe in flight, past its deadline.\<close>

lemma lapse_in_flight:
  assumes "hb_in_flight h = Some request_id" "tp_pending (hb_probes h) = [(request_id, s)]" "hb_running h" "s + 3000 \<le> now"
    and "now + TERMINAL_PEER_HEARTBEAT_INTERVAL_MS \<le> u64_max"
  obtains h' where "hb_lapsed now h = (h', Some (if HEARTBEAT_MISS_LIMIT \<le> hb_misses h' then MissExhausted else MissTolerated))"
    "hb_running h'" "hb_in_flight h' = None" "tp_pending (hb_probes h') = []" "hb_next_due_ms h' = Some (now + 5000)"
    "hb_misses h' = saturating_add32 (hb_misses h) 1"
proof -
  have due: "3000 \<le> now - s" using assms(4) by simp
  then have "probe_expire now (hb_probes h) = ((hb_probes h)\<lparr>tp_pending := [], tp_qualified := False\<rparr>, [request_id])"
    using assms(2) by (simp add: probe_expire_def probe_limits btree_remove_def)
  then show ?thesis using that [of "fst (hb_lapsed now h)"] assms(1,3,5)
    by (simp add: hb_lapsed_def hb_missed_def hb_schedule_next_def saturating_add64_exact probe_limits Let_def)
qed

lemma deadlines_patient:
  assumes "patient r" "hr_clock r + dt + TERMINAL_PEER_HEARTBEAT_INTERVAL_MS \<le> u64_max"
  shows "patient (exec_heartbeat (dt, HbDeadlines) r)"
proof (cases "\<exists>request_id s. hb_in_flight (hr_beat r) = Some request_id \<and> tp_pending (hb_probes (hr_beat r)) = [(request_id, s)]
    \<and> s + TERMINAL_PEER_PROBE_DEADLINE_MS \<le> hr_clock r + dt")
  case False
  let ?now = "hr_clock r + dt" and ?h = "hr_beat r"
  have "probe_expire ?now (hb_probes ?h) = (hb_probes ?h, [])"
  proof (cases "hb_in_flight ?h")
    case None
    then show ?thesis using assms(1) by (simp add: patient_def probe_expire_def Let_def)
  next
    case (Some request_id)
    then obtain s where "tp_pending (hb_probes ?h) = [(request_id, s)]" using assms(1) by (auto simp: patient_def Let_def)
    with False Some show ?thesis by (auto simp: probe_expire_def probe_limits Let_def)
  qed
  then have "hb_lapsed ?now ?h = (?h, None)" by (simp add: hb_lapsed_def Let_def split: option.split)
  then show ?thesis using assms(1)
    by (auto simp: patient_def read_heartbeat_deadline_def settle_miss_def note_loss_def miss_floor_def Let_def split: option.splits)
next
  case True
  let ?now = "hr_clock r + dt" and ?h = "hr_beat r"
  obtain request_id s where f: "hb_in_flight ?h = Some request_id" "tp_pending (hb_probes ?h) = [(request_id, s)]" "s + 3000 \<le> ?now"
    using True by (auto simp: probe_limits)
  have inv: "hb_running ?h" "hr_heard r \<le> hr_clock r"
    "hb_misses ?h = 0 \<and> hr_late r \<or> hr_heard r \<le> s \<and> (hb_misses ?h = 0 \<or> miss_floor r \<le> s)"
    "list_all (\<lambda>(t, heard, late). heard + (if late then 16000 else 19000) \<le> t) (hr_losses r)"
    using assms(1) f by (auto simp: patient_def Let_def)
  obtain h' where lapse: "hb_lapsed ?now ?h = (h', Some (if HEARTBEAT_MISS_LIMIT \<le> hb_misses h' then MissExhausted else MissTolerated))"
    and h': "hb_running h'" "hb_in_flight h' = None" "tp_pending (hb_probes h') = []" "hb_next_due_ms h' = Some (?now + 5000)"
      "hb_misses h' = saturating_add32 (hb_misses ?h) 1"
    using lapse_in_flight [OF f(1,2) inv(1) f(3)] assms(2) by auto
  have loss: "hr_heard r + (if hr_late r then 16000 else 19000) \<le> ?now" if "HEARTBEAT_MISS_LIMIT \<le> hb_misses h'"
    using that inv(3) f(3) h'(5) by (auto simp: HEARTBEAT_MISS_LIMIT_def saturating_add32_def miss_floor_def split: if_splits)
  have floor: "hr_heard r + 8000 * hb_misses h' - (if hr_late r then 3000 else 0) \<le> ?now + 5000"
  proof -
    have "hb_misses h' \<le> Suc (hb_misses ?h)" using h'(5) by (simp add: saturating_add32_def)
    then have "8000 * hb_misses h' \<le> 8000 + 8000 * hb_misses ?h" by linarith
    then show ?thesis using inv(2,3) f(3) by (auto simp: miss_floor_def split: if_splits)
  qed
  show ?thesis using lapse h' inv loss floor
    by (auto simp: patient_def read_heartbeat_deadline_def settle_miss_def note_loss_def miss_floor_def Let_def)
qed

lemma answer_patient:
  assumes "patient r" "hr_clock r + dt + TERMINAL_PEER_HEARTBEAT_INTERVAL_MS \<le> u64_max"
  shows "patient (exec_heartbeat (dt, HbAnswer result) r)"
proof (cases "snd (probe_resolve result (hr_clock r + dt) (hb_probes (hr_beat r)))")
  case True
  then obtain s where "map_of (tp_pending (hb_probes (hr_beat r))) (pr_request_id result) = Some s"
    and mine: "answers_this_worker result (hb_probes (hr_beat r))"
    by (auto simp: probe_resolve_def split: if_splits option.splits)
  then have f: "hb_in_flight (hr_beat r) = Some (pr_request_id result)" "tp_pending (hb_probes (hr_beat r)) = [(pr_request_id result, s)]"
    using assms(1) by (auto simp: patient_def Let_def split: option.splits if_splits)
  show ?thesis using assms f mine
    by (auto simp: patient_def probe_answered_def hb_answered_def probe_resolve_def hb_schedule_next_def note_loss_def miss_floor_def
        btree_remove_def saturating_add64_exact Let_def)
next
  case False
  then have keep: "probe_resolve result (hr_clock r + dt) (hb_probes (hr_beat r)) = (hb_probes (hr_beat r), False)"
    by (auto simp: probe_resolve_def split: if_splits option.splits)
  then have ans: "hb_answered result (hr_clock r + dt) (hr_beat r) = forgive_late_answer result (hr_beat r)" by (simp add: hb_answered_def)
  show ?thesis using assms(1) keep ans
    by (auto simp: patient_def probe_answered_def forgive_late_answer_def note_loss_def miss_floor_def Let_def split: option.splits)
qed

lemma exec_heartbeat_patient:
  assumes "patient r" "steady e" "hr_clock r + fst e + TERMINAL_PEER_HEARTBEAT_INTERVAL_MS \<le> u64_max"
  shows "patient (exec_heartbeat e r)"
proof -
  obtain dt ev where e: "e = (dt, ev)" by (cases e)
  show ?thesis
  proof (cases ev)
    case (HbTick serving minted written)
    then show ?thesis using assms tick_patient e by (auto simp del: exec_heartbeat.simps)
  qed (use assms e deadlines_patient answer_patient stats_patient in \<open>auto simp del: exec_heartbeat.simps\<close>)
qed

lemma exec_heartbeat_clock: "hr_clock (exec_heartbeat e r) = hr_clock r + fst e"
  by (cases e; cases "snd e") (auto simp: note_loss_def Let_def)

lemma run_patient:
  assumes "patient r" "list_all steady es" "hr_clock (fold exec_heartbeat es r) + TERMINAL_PEER_HEARTBEAT_INTERVAL_MS \<le> u64_max"
  shows "patient (fold exec_heartbeat es r)"
  using assms
proof (induction es arbitrary: r)
  case (Cons e es)
  have mono: "hr_clock r' \<le> hr_clock (fold exec_heartbeat es r')" for r'
  proof (induction es arbitrary: r')
    case (Cons e es)
    show ?case using Cons [of "exec_heartbeat e r'"] by (simp add: exec_heartbeat_clock)
  qed simp
  have "hr_clock r + fst e + TERMINAL_PEER_HEARTBEAT_INTERVAL_MS \<le> u64_max"
    using Cons.prems(3) mono [of "exec_heartbeat e r"] by (simp add: exec_heartbeat_clock)
  then show ?case using Cons exec_heartbeat_patient by simp
qed simp

text \<open>A worker that stays silent is not waited for longer than that: each probe it leaves unanswered is a miss at its deadline.\<close>

definition beating :: "heartbeat_run \<Rightarrow> nat \<Rightarrow> bool" where
  "beating r d \<longleftrightarrow> hb_running (hr_beat r) \<and> hb_in_flight (hr_beat r) = None \<and> tp_pending (hb_probes (hr_beat r)) = [] \<and> hb_next_due_ms (hr_beat r) = Some d"

definition silent_round :: "nat \<Rightarrow> string \<Rightarrow> (nat \<times> heartbeat_event) list" where
  "silent_round dt request_id = [(dt, HbTick True (Some request_id) True), (TERMINAL_PEER_PROBE_DEADLINE_MS, HbDeadlines)]"

lemma silent_round_misses:
  assumes "beating r d" "d \<le> hr_clock r + dt" "request_id \<noteq> []" "hb_misses (hr_beat r) < 3" "hr_clock r + dt + 8000 \<le> u64_max"
  defines "r' \<equiv> fold exec_heartbeat (silent_round dt request_id) r"
  shows "beating r' (hr_clock r + dt + 8000)" "hb_misses (hr_beat r') = Suc (hb_misses (hr_beat r))" "hr_clock r' = hr_clock r + dt + 3000"
    "hr_heard r' = hr_heard r" "hr_late r' = hr_late r"
    "hr_losses r' = hr_losses r @ (if hb_misses (hr_beat r) = 2 then [(hr_clock r + dt + 3000, hr_heard r, hr_late r)] else [])"
proof -
  let ?now = "hr_clock r + dt"
  let ?h = "fst (begin_stats_read ?now (hr_beat r))"
  have "hb_set_running True ?now (hr_beat r) = hr_beat r" using assms(1) by (simp add: beating_def hb_set_running_def Let_def)
  then have tick: "start_due_probe True (Some request_id) True ?now (hr_beat r) =
      (?h\<lparr>hb_probes := (hb_probes (hr_beat r))\<lparr>tp_pending := [(request_id, ?now)]\<rparr>, hb_in_flight := Some request_id, hb_next_due_ms := None\<rparr>, False)"
    using assms(1-3) by (simp add: beating_def start_due_probe_def hb_is_due_def send_probe_def hb_probe_sent_def probe_start_def Let_def)
  define h1 where "h1 = ?h\<lparr>hb_probes := (hb_probes (hr_beat r))\<lparr>tp_pending := [(request_id, ?now)]\<rparr>, hb_in_flight := Some request_id, hb_next_due_ms := None\<rparr>"
  have h1: "hb_in_flight h1 = Some request_id" "tp_pending (hb_probes h1) = [(request_id, ?now)]" "hb_running h1" "hb_misses h1 = hb_misses (hr_beat r)"
    using assms(1) by (simp_all add: h1_def beating_def)
  have tick: "start_due_probe True (Some request_id) True ?now (hr_beat r) = (h1, False)" unfolding h1_def by (rule tick)
  obtain h' where lapse: "hb_lapsed (?now + 3000) h1 = (h', Some (if HEARTBEAT_MISS_LIMIT \<le> hb_misses h' then MissExhausted else MissTolerated))"
    and h': "hb_running h'" "hb_in_flight h' = None" "tp_pending (hb_probes h') = []" "hb_next_due_ms h' = Some (?now + 3000 + 5000)"
      "hb_misses h' = saturating_add32 (hb_misses h1) 1"
    by (rule lapse_in_flight [OF h1(1,2,3), of "?now + 3000"]) (use assms(5) in \<open>simp_all add: probe_limits\<close>)
  define h2 where "h2 = fst (read_heartbeat_deadline (?now + 3000) h1)"
  have read: "read_heartbeat_deadline (?now + 3000) h1 = (h2, 3 \<le> hb_misses h')"
    using lapse by (simp add: h2_def read_heartbeat_deadline_def settle_miss_def HEARTBEAT_MISS_LIMIT_def Let_def)
  have h2: "hb_running h2" "hb_in_flight h2 = None" "tp_pending (hb_probes h2) = []" "hb_next_due_ms h2 = Some (?now + 8000)" "hb_misses h2 = hb_misses h'"
    using lapse h' by (simp_all add: h2_def read_heartbeat_deadline_def settle_miss_def Let_def)
  have m: "hb_misses h' = Suc (hb_misses (hr_beat r))" using h'(5) h1(4) assms(4) by (simp add: saturating_add32_def u32_max_def)
  have r': "r' = note_loss (?now + 3000) (h2, 3 \<le> hb_misses h') (note_loss ?now (h1, False) r)"
    by (simp add: r'_def silent_round_def probe_limits tick read note_loss_def Let_def)
  show "beating r' (?now + 8000)" "hb_misses (hr_beat r') = Suc (hb_misses (hr_beat r))" "hr_clock r' = ?now + 3000"
    "hr_heard r' = hr_heard r" "hr_late r' = hr_late r"
    "hr_losses r' = hr_losses r @ (if hb_misses (hr_beat r) = 2 then [(?now + 3000, hr_heard r, hr_late r)] else [])"
    using assms(4) h2 m by (auto simp: r' note_loss_def beating_def)
qed

lemma silent_worker_lost:
  assumes "a \<noteq> []" "b \<noteq> []" "c \<noteq> []" "t0 + 24000 \<le> u64_max"
  shows "hr_losses (fold exec_heartbeat (silent_round 0 a @ silent_round 5000 b @ silent_round 5000 c) (heartbeat_started worker_fp worker_epoch t0))
    = [(t0 + 19000, t0, False)]"
proof -
  define r0 where "r0 = heartbeat_started worker_fp worker_epoch t0"
  define r1 where "r1 = fold exec_heartbeat (silent_round 0 a) r0"
  define r2 where "r2 = fold exec_heartbeat (silent_round 5000 b) r1"
  have r0: "beating r0 t0" "hb_misses (hr_beat r0) = 0" "hr_clock r0 = t0" "hr_heard r0 = t0" "\<not> hr_late r0" "hr_losses r0 = []"
    by (simp_all add: r0_def beating_def heartbeat_started_def hb_set_running_def heartbeat_new_def require_fresh_def probe_state_new_def)
  note s1 = silent_round_misses [OF r0(1) _ assms(1), of 0, folded r1_def]
  have r1: "beating r1 (t0 + 8000)" "hb_misses (hr_beat r1) = 1" "hr_clock r1 = t0 + 3000" "hr_heard r1 = t0" "\<not> hr_late r1" "hr_losses r1 = []"
    using s1 r0 assms(4) by simp_all
  note s2 = silent_round_misses [OF r1(1) _ assms(2), of 5000, folded r2_def]
  have r2: "beating r2 (t0 + 16000)" "hb_misses (hr_beat r2) = 2" "hr_clock r2 = t0 + 11000" "hr_heard r2 = t0" "\<not> hr_late r2" "hr_losses r2 = []"
    using s2 r1 assms(4) by (simp_all add: add.commute)
  have "hr_losses (fold exec_heartbeat (silent_round 5000 c) r2) = [(t0 + 19000, t0, False)]"
    using silent_round_misses(6) [OF r2(1) _ assms(3), of 5000] r2 assms(4) by simp
  then show ?thesis by (simp add: r2_def r1_def r0_def)
qed

text \<open>
  C22: a served peer is not given up early by the heartbeat's own probes: along any run in which the page keeps
  serving it (so the heartbeat is never paused), the control lane takes every probe and nothing probes the
  peer on demand, whenever the heartbeat reports the peer lost, nothing was heard from the worker
  for nineteen seconds (three probe deadlines and two intervals); for sixteen at least when the last thing
  heard was an answer that came after its probe's deadline. The two exclusions are needed: a pause keeps the
  misses counted before it (\<open>pause_keeps_misses\<close>), and with a probe on demand an answer in time to the probe
  it replaced forgives nothing (\<open>replaced_probe_forgives_nothing\<close>), so the peer can be lost within seconds of
  being heard.
\<close>

theorem heartbeat_patience:
  assumes "list_all steady es" "hr_clock (fold exec_heartbeat es (heartbeat_started worker_fp worker_epoch t0)) + TERMINAL_PEER_HEARTBEAT_INTERVAL_MS \<le> u64_max"
  shows "list_all (\<lambda>(lost_at, heard, late). heard + (if late then 16000 else 19000) \<le> lost_at)
    (hr_losses (fold exec_heartbeat es (heartbeat_started worker_fp worker_epoch t0)))"
  using run_patient [OF start_patient assms] by (simp add: patient_def Let_def)

text \<open>Three probes that nobody answers, each read at its deadline: the peer is lost at the nineteenth second.\<close>

theorem heartbeat_patience_witness:
  "hr_losses (fold exec_heartbeat (silent_round 0 ''a'' @ silent_round 5000 ''b'' @ silent_round 5000 ''c'') (heartbeat_started ''fp'' ''e'' 100)) = [(19100, 100, False)]
   \<and> list_all (\<lambda>(lost_at, heard, late). heard + (if late then 16000 else 19000) \<le> lost_at)
       (hr_losses (fold exec_heartbeat (silent_round 0 ''a'' @ silent_round 5000 ''b'' @ silent_round 5000 ''c'') (heartbeat_started ''fp'' ''e'' 100)))"
proof
  let ?es = "silent_round 0 ''a'' @ silent_round 5000 ''b'' @ silent_round 5000 ''c''"
  show "hr_losses (fold exec_heartbeat ?es (heartbeat_started ''fp'' ''e'' 100)) = [(19100, 100, False)]"
    using silent_worker_lost [of "''a''" "''b''" "''c''" 100] by (simp add: u64_max_def)
  have "hr_clock (fold exec_heartbeat ?es (heartbeat_started ''fp'' ''e'' 100)) + TERMINAL_PEER_HEARTBEAT_INTERVAL_MS \<le> u64_max"
    by (simp del: exec_heartbeat.simps add: exec_heartbeat_clock silent_round_def heartbeat_started_def probe_limits u64_max_def)
  then show "list_all (\<lambda>(lost_at, heard, late). heard + (if late then 16000 else 19000) \<le> lost_at) (hr_losses (fold exec_heartbeat ?es (heartbeat_started ''fp'' ''e'' 100)))"
    by (rule heartbeat_patience [rotated]) (simp add: silent_round_def)
qed

section \<open>What a pause and a probe on demand do\<close>

text \<open>
  A pause keeps the misses counted before it and drops the probes a late answer could have named, so a
  peer that had missed two probes is lost by the first one it misses after the page serves it again.
\<close>

lemma pause_keeps_misses:
  assumes "hb_misses h = 2" "hb_running h" "request_id \<noteq> []" "t + TERMINAL_PEER_PROBE_DEADLINE_MS \<le> now"
  shows "snd (hb_lapsed now (fst (hb_probe_sent request_id t (hb_set_running True t (hb_set_running False t h))))) = Some MissExhausted"
proof -
  have "3000 \<le> now - t" using assms(4) by (simp add: probe_limits)
  then show ?thesis using assms(1-3)
    by (simp add: hb_lapsed_def hb_probe_sent_def hb_set_running_def probe_start_def require_fresh_def probe_expire_def hb_missed_def
        hb_schedule_next_def saturating_add32_def u32_max_def HEARTBEAT_MISS_LIMIT_def probe_limits Let_def)
qed

text \<open>
  A probe on demand takes the place of the one in flight: the worker's answer to the first, in time, is
  counted as liveness and forgives no miss, where a late one would have.
\<close>

lemma replaced_probe_forgives_nothing:
  assumes "hb_in_flight h = Some replaced" "map_of (tp_pending (hb_probes h)) replaced = Some s" "key_sorted (tp_pending (hb_probes h))"
    and "request_id \<noteq> []" "map_of (tp_pending (hb_probes h)) request_id = None"
    and "answers_this_worker result (hb_probes h)" "pr_request_id result = replaced"
  shows "let h' = hb_answered result now (fst (hb_probe_sent request_id t h)) in
    snd h' \<and> tp_qualified (hb_probes (fst h')) \<and> hb_misses (fst h') = hb_misses h \<and> hb_in_flight (fst h') = Some request_id"
proof -
  have "replaced \<noteq> request_id" using assms(2,5) by auto
  then show ?thesis using assms(1-7)
    by (simp add: hb_answered_def hb_probe_sent_def probe_start_def probe_resolve_def answers_this_worker_def btree_insert_lookup Let_def)
qed

section \<open>The attempt's deadlines\<close>

definition TERMINAL_PEER_ICE_GATHERING_DEADLINE_MS :: nat where "TERMINAL_PEER_ICE_GATHERING_DEADLINE_MS = 3000"
definition TERMINAL_PEER_HELLO_DEADLINE_MS :: nat where "TERMINAL_PEER_HELLO_DEADLINE_MS = 3000"

datatype peer_deadline = GatheringLapsed | HelloUnanswered

record peer_life =
  pl_worker_fp :: string
  pl_gathering_due_ms :: "nat option"
  pl_hello_due_ms :: "nat option"
  pl_authenticated :: bool

definition life_opened :: "string \<Rightarrow> nat \<Rightarrow> peer_life" where
  "life_opened worker_fp now_ms = \<lparr>pl_worker_fp = worker_fp,
     pl_gathering_due_ms = Some (saturating_add64 now_ms TERMINAL_PEER_ICE_GATHERING_DEADLINE_MS), pl_hello_due_ms = None, pl_authenticated = False\<rparr>"

definition gathering_settled :: "peer_life \<Rightarrow> peer_life" where
  "gathering_settled l = l\<lparr>pl_gathering_due_ms := None\<rparr>"

definition gathering_pending :: "peer_life \<Rightarrow> bool" where
  "gathering_pending l \<longleftrightarrow> pl_gathering_due_ms l \<noteq> None"

definition hello_sent :: "nat \<Rightarrow> peer_life \<Rightarrow> peer_life \<times> bool" where
  "hello_sent now_ms l =
     (if pl_hello_due_ms l \<noteq> None then (l, False)
      else (l\<lparr>pl_hello_due_ms := Some (saturating_add64 now_ms TERMINAL_PEER_HELLO_DEADLINE_MS)\<rparr>, True))"

definition life_authenticated :: "peer_life \<Rightarrow> peer_life" where
  "life_authenticated l = l\<lparr>pl_authenticated := True, pl_hello_due_ms := None\<rparr>"

definition life_lapsed :: "nat \<Rightarrow> peer_life \<Rightarrow> peer_deadline list" where
  "life_lapsed now_ms l =
     (case pl_gathering_due_ms l of None \<Rightarrow> [] | Some due_ms \<Rightarrow> if due_ms \<le> now_ms then [GatheringLapsed] else [])
     @ (case pl_hello_due_ms l of None \<Rightarrow> [] | Some due_ms \<Rightarrow> if due_ms \<le> now_ms then [HelloUnanswered] else [])"

text \<open>
  The handshake window of an authenticated attempt is open again: a control lane that reports open a
  second time is told to spend another greeting, and three seconds later the attempt it belongs to is
  reported as one that never answered.
\<close>

lemma hello_spent_again:
  assumes "t + TERMINAL_PEER_HELLO_DEADLINE_MS \<le> now"
  shows "snd (hello_sent t (life_authenticated l)) \<and> HelloUnanswered \<in> set (life_lapsed now (fst (hello_sent t (life_authenticated l))))"
proof -
  have "saturating_add64 t TERMINAL_PEER_HELLO_DEADLINE_MS \<le> now" using assms by (simp add: saturating_add64_def)
  then show ?thesis by (simp add: hello_sent_def life_authenticated_def life_lapsed_def)
qed

lemma hello_once_before_proof: "pl_hello_due_ms l = None \<Longrightarrow> \<not> snd (hello_sent u (fst (hello_sent t l)))"
  by (simp add: hello_sent_def)

end
