(* ===== verification/Peer_Carriers.thy ===== *)
theory Peer_Carriers
  imports Peer_Packets Peer_Heartbeat Client_Token "HOL-Library.Product_Lexorder"
begin

text \<open>
  The direct carriers one browser document holds: one attempt's three lanes
  (\<^verbatim>\<open>roost-web/src/platform/carriers/peer_carrier/mod.rs\<close>), the attempt with the identity its \<^verbatim>\<open>Ready\<close> earned and
  the document's two indexes over the attempts (\<^verbatim>\<open>attempt.rs\<close>), the tuple check they rest on
  (\<^verbatim>\<open>roost-client-core/src/client/carriers.rs\<close>) and the table of live connections (\<^verbatim>\<open>carriers/route.rs\<close>).
\<close>

section \<open>Lanes\<close>

datatype carrier_lane = LaneControl | LaneData | LaneHistory

definition ALL_LANES :: "carrier_lane list" where "ALL_LANES = [LaneControl, LaneData, LaneHistory]"

fun stream_id :: "carrier_lane \<Rightarrow> nat" where
  "stream_id LaneControl = 0"
| "stream_id LaneData = 1"
| "stream_id LaneHistory = 2"

fun packet_lane :: "carrier_lane \<Rightarrow> peer_lane" where
  "packet_lane LaneControl = PeerControl"
| "packet_lane LaneData = PeerTerminal"
| "packet_lane LaneHistory = PeerHistory"

fun of_packet_lane :: "peer_lane \<Rightarrow> carrier_lane" where
  "of_packet_lane PeerControl = LaneControl"
| "of_packet_lane PeerTerminal = LaneData"
| "of_packet_lane PeerHistory = LaneHistory"

definition TERMINAL_PEER_LANE_PRIORITY :: "peer_lane list" where "TERMINAL_PEER_LANE_PRIORITY = [PeerControl, PeerTerminal, PeerHistory]"

definition drain_order :: "carrier_lane list" where "drain_order = map of_packet_lane TERMINAL_PEER_LANE_PRIORITY"

fun channel_watermarks :: "peer_lane \<Rightarrow> nat \<times> nat" where
  "channel_watermarks PeerControl = (32 * 1024, 8 * 1024)"
| "channel_watermarks PeerTerminal = (64 * 1024, 16 * 1024)"
| "channel_watermarks PeerHistory = (128 * 1024, 32 * 1024)"

definition watermarks :: "carrier_lane \<Rightarrow> nat \<times> nat" where
  "watermarks lane = channel_watermarks (packet_lane lane)"

fun packet_error_as_str :: "peer_packet_error \<Rightarrow> string" where
  "packet_error_as_str PeerClosed = ''closed''"
| "packet_error_as_str PeerFragmentStalled = ''fragment-stalled''"
| "packet_error_as_str PeerMessageIdWrap = ''message-id-wrap''"
| "packet_error_as_str PeerMessageId = ''message-id''"
| "packet_error_as_str PeerMessageSize = ''message-size''"
| "packet_error_as_str PeerPacketSize = ''packet-size''"
| "packet_error_as_str PeerPacketMagic = ''packet-magic''"
| "packet_error_as_str PeerPacketHeader = ''packet-header''"
| "packet_error_as_str PeerFragmentOrder = ''fragment-order''"
| "packet_error_as_str PeerQuota = ''quota''"
| "packet_error_as_str PeerAllocation = ''allocation''"

datatype lane_fault =
    LaneBackpressured carrier_lane
  | LaneUnreadable carrier_lane string
  | LaneOutOfOrder carrier_lane
  | LaneStalled carrier_lane

definition classify_packet :: "carrier_lane \<Rightarrow> peer_packet_error \<Rightarrow> lane_fault" where
  "classify_packet lane code =
     (case code of
        PeerFragmentOrder \<Rightarrow> LaneOutOfOrder lane
      | PeerQuota \<Rightarrow> LaneBackpressured lane
      | PeerAllocation \<Rightarrow> LaneBackpressured lane
      | PeerFragmentStalled \<Rightarrow> LaneStalled lane
      | other \<Rightarrow> LaneUnreadable lane (packet_error_as_str other))"

definition missing_lane :: "carrier_lane \<Rightarrow> lane_fault" where
  "missing_lane lane = LaneUnreadable lane ''no-such-lane''"

definition TERMINAL_PEER_MAX_HISTORY_READS_PER_PEER :: nat where "TERMINAL_PEER_MAX_HISTORY_READS_PER_PEER = 1"

record peer_lanes =
  ls_attempt_id :: nat
  ls_outbound :: "(nat \<times> lane_budget peer_queue) list"
  ls_inbound :: "(nat \<times> lane_budget peer_assembler) list"
  ls_history_reads :: nat

definition peer_lanes_new :: "nat \<Rightarrow> peer_lanes" where
  "peer_lanes_new attempt_id = \<lparr>ls_attempt_id = attempt_id,
     ls_outbound = fold (\<lambda>lane. btree_insert (stream_id lane) (peer_queue_new (packet_lane lane) (lane_budget_new (packet_lane lane)))) ALL_LANES [],
     ls_inbound = fold (\<lambda>lane. btree_insert (stream_id lane) (peer_assembler_new (packet_lane lane) (lane_budget_new (packet_lane lane)))) ALL_LANES [],
     ls_history_reads = 0\<rparr>"

definition lanes_enqueue :: "carrier_lane \<Rightarrow> byte list \<Rightarrow> peer_lanes \<Rightarrow> peer_lanes \<times> (lane_fault, bool) result" where
  "lanes_enqueue lane message ls =
     (if lane = LaneHistory \<and> TERMINAL_PEER_MAX_HISTORY_READS_PER_PEER < ls_history_reads ls + 1 then (ls, Err (LaneBackpressured lane))
      else
        let ls = (if lane = LaneHistory then ls\<lparr>ls_history_reads := ls_history_reads ls + 1\<rparr> else ls)
        in (case map_of (ls_outbound ls) (stream_id lane) of
              None \<Rightarrow> (ls, Err (missing_lane lane))
            | Some q \<Rightarrow>
                let (q, r) = peer_enqueue lane_ops message q
                in (ls\<lparr>ls_outbound := btree_update (stream_id lane) (\<lambda>_. q) (ls_outbound ls)\<rparr>, map_sum (classify_packet lane) id r)))"

text \<open>The next packet of a lane, copied out and committed.\<close>

definition lanes_next_packet :: "carrier_lane \<Rightarrow> peer_lanes \<Rightarrow> peer_lanes \<times> (lane_fault, byte list option) result" where
  "lanes_next_packet lane ls =
     (case map_of (ls_outbound ls) (stream_id lane) of
        None \<Rightarrow> (ls, Err (missing_lane lane))
      | Some q \<Rightarrow>
          (case peer_next_fragment lane_ops q of
             (q, Err e) \<Rightarrow> (ls\<lparr>ls_outbound := btree_update (stream_id lane) (\<lambda>_. q) (ls_outbound ls)\<rparr>, Err (classify_packet lane e))
           | (q, Ok None) \<Rightarrow> (ls\<lparr>ls_outbound := btree_update (stream_id lane) (\<lambda>_. q) (ls_outbound ls)\<rparr>, Ok None)
           | (q, Ok (Some (_, _, bytes))) \<Rightarrow>
               (ls\<lparr>ls_outbound := btree_update (stream_id lane) (\<lambda>_. peer_commit lane_ops q) (ls_outbound ls)\<rparr>, Ok (Some bytes))))"

definition lanes_queued_bytes :: "carrier_lane \<Rightarrow> peer_lanes \<Rightarrow> nat" where
  "lanes_queued_bytes lane ls = (case map_of (ls_outbound ls) (stream_id lane) of None \<Rightarrow> 0 | Some q \<Rightarrow> pq_retained_bytes q)"

definition lanes_push :: "carrier_lane \<Rightarrow> nat \<Rightarrow> byte list \<Rightarrow> peer_lanes \<Rightarrow> peer_lanes \<times> (lane_fault, byte list option) result" where
  "lanes_push lane now_ms packet ls =
     (case map_of (ls_inbound ls) (stream_id lane) of
        None \<Rightarrow> (ls, Err (missing_lane lane))
      | Some a \<Rightarrow>
          let (a, r) = peer_push lane_ops packet now_ms a
          in (ls\<lparr>ls_inbound := btree_update (stream_id lane) (\<lambda>_. a) (ls_inbound ls)\<rparr>, map_sum (classify_packet lane) id r))"

definition expire_lane :: "nat \<Rightarrow> carrier_lane \<Rightarrow> peer_lanes \<times> carrier_lane list \<Rightarrow> peer_lanes \<times> carrier_lane list" where
  "expire_lane now_ms lane x =
     (case x of (ls, expired) \<Rightarrow>
       (case map_of (ls_inbound ls) (stream_id lane) of
          None \<Rightarrow> (ls, expired)
        | Some a \<Rightarrow>
            let (a, stalled) = peer_expire lane_ops now_ms a
            in (ls\<lparr>ls_inbound := btree_update (stream_id lane) (\<lambda>_. a) (ls_inbound ls)\<rparr>, if stalled then expired @ [lane] else expired)))"

definition expired_lanes :: "nat \<Rightarrow> peer_lanes \<Rightarrow> peer_lanes \<times> carrier_lane list" where
  "expired_lanes now_ms ls = fold (expire_lane now_ms) ALL_LANES (ls, [])"

section \<open>The tuple a worker proves\<close>

record peer_attempt =
  at_attempt_id :: nat
  at_worker_fp :: string
  at_worker_epoch :: string
  at_transport :: terminal_transport
  at_peer_id :: string
  at_grant_id :: string
  at_tab_id :: string
  at_device_fingerprint :: string
  at_stun_urls :: "string list"
  at_session_ids :: "string set"

record ready_tuple =
  rt_worker_fp :: string
  rt_worker_epoch :: string
  rt_peer_id :: string
  rt_socket_generation :: nat
  rt_socket_id :: string
  rt_session_ids :: "string set"

record direct_carrier =
  dc_connection_id :: string
  dc_worker_fp :: string
  dc_transport :: terminal_transport
  dc_token :: terminal_token
  dc_socket_id :: string
  dc_granted_sessions :: "string set"

definition ready_admits :: "ready_tuple \<Rightarrow> peer_attempt \<Rightarrow> bool" where
  "ready_admits ready attempt \<longleftrightarrow> rt_worker_fp ready = at_worker_fp attempt \<and> rt_worker_epoch ready = at_worker_epoch attempt
     \<and> rt_peer_id ready = at_peer_id attempt \<and> 0 < rt_socket_generation ready \<and> rt_socket_id ready \<noteq> []
     \<and> rt_session_ids ready \<subseteq> at_session_ids attempt"

definition ready_carrier :: "ready_tuple \<Rightarrow> peer_attempt \<Rightarrow> string \<Rightarrow> direct_carrier" where
  "ready_carrier ready attempt connection_id = \<lparr>dc_connection_id = connection_id, dc_worker_fp = rt_worker_fp ready, dc_transport = at_transport attempt,
     dc_token = token_direct (rt_socket_generation ready) (at_transport attempt) (rt_worker_fp ready) (rt_worker_epoch ready) (rt_socket_generation ready),
     dc_socket_id = rt_socket_id ready, dc_granted_sessions = rt_session_ids ready\<rparr>"

section \<open>One attempt\<close>

record peer_carrier =
  pc_attempt :: peer_attempt
  pc_lanes :: peer_lanes
  pc_life :: peer_life
  pc_carrier :: "direct_carrier option"
  pc_heartbeat :: "peer_heartbeat option"

definition carrier_opened :: "peer_attempt \<Rightarrow> nat \<Rightarrow> peer_carrier" where
  "carrier_opened attempt now_ms = \<lparr>pc_attempt = attempt, pc_lanes = peer_lanes_new (at_attempt_id attempt),
     pc_life = life_opened (at_worker_fp attempt) now_ms, pc_carrier = None, pc_heartbeat = None\<rparr>"

definition adopt_attempt :: "peer_attempt \<Rightarrow> peer_carrier \<Rightarrow> peer_carrier" where
  "adopt_attempt attempt c = c\<lparr>pc_attempt := attempt\<rparr>"

definition carrier_authenticate :: "ready_tuple \<Rightarrow> string \<Rightarrow> peer_carrier \<Rightarrow> peer_carrier \<times> direct_carrier option" where
  "carrier_authenticate ready connection_id c =
     (if pc_carrier c \<noteq> None \<or> \<not> ready_admits ready (pc_attempt c) then (c, None)
      else
        let carrier = ready_carrier ready (pc_attempt c) connection_id
        in (c\<lparr>pc_life := life_authenticated (pc_life c),
              pc_heartbeat := Some (heartbeat_new (at_worker_fp (pc_attempt c)) (at_worker_epoch (pc_attempt c))),
              pc_carrier := Some carrier\<rparr>, Some carrier))"

definition carrier_token :: "peer_carrier \<Rightarrow> terminal_token option" where
  "carrier_token c = map_option dc_token (pc_carrier c)"

definition carrier_enqueue :: "carrier_lane \<Rightarrow> byte list \<Rightarrow> peer_carrier \<Rightarrow> peer_carrier \<times> (lane_fault, bool) result" where
  "carrier_enqueue lane message c = (let (ls, r) = lanes_enqueue lane message (pc_lanes c) in (c\<lparr>pc_lanes := ls\<rparr>, r))"

definition carrier_push :: "carrier_lane \<Rightarrow> nat \<Rightarrow> byte list \<Rightarrow> peer_carrier \<Rightarrow> peer_carrier \<times> (lane_fault, byte list option) result" where
  "carrier_push lane now_ms packet c = (let (ls, r) = lanes_push lane now_ms packet (pc_lanes c) in (c\<lparr>pc_lanes := ls\<rparr>, r))"

definition next_packet :: "carrier_lane \<Rightarrow> peer_carrier \<Rightarrow> peer_carrier \<times> (lane_fault, byte list option) result" where
  "next_packet lane c = (let (ls, r) = lanes_next_packet lane (pc_lanes c) in (c\<lparr>pc_lanes := ls\<rparr>, r))"

definition stalled_lanes :: "nat \<Rightarrow> peer_carrier \<Rightarrow> peer_carrier \<times> carrier_lane list" where
  "stalled_lanes now_ms c = (let (ls, expired) = expired_lanes now_ms (pc_lanes c) in (c\<lparr>pc_lanes := ls\<rparr>, expired))"

section \<open>The document's carriers\<close>

fun transport_rank :: "terminal_transport \<Rightarrow> nat" where
  "transport_rank Sync = 0"
| "transport_rank Loopback = 1"
| "transport_rank Peer = 2"

instantiation terminal_transport :: linorder
begin

definition less_eq_terminal_transport :: "terminal_transport \<Rightarrow> terminal_transport \<Rightarrow> bool" where
  "less_eq_terminal_transport a b \<longleftrightarrow> transport_rank a \<le> transport_rank b"

definition less_terminal_transport :: "terminal_transport \<Rightarrow> terminal_transport \<Rightarrow> bool" where
  "less_terminal_transport a b \<longleftrightarrow> transport_rank a < transport_rank b"

instance
proof
  fix a b :: terminal_transport
  show "a \<le> b \<Longrightarrow> b \<le> a \<Longrightarrow> a = b" by (cases a; cases b) (auto simp: less_eq_terminal_transport_def)
qed (auto simp: less_eq_terminal_transport_def less_terminal_transport_def)

end

text \<open>A connection's key: the worker, the transport and the worker's process epoch, in that order.\<close>

type_synonym connection_key = "string \<times> terminal_transport \<times> string"

definition connection_key_of :: "terminal_token \<Rightarrow> connection_key option" where
  "connection_key_of t = (case tk_worker_fp t of None \<Rightarrow> None | Some fp \<Rightarrow> Some (fp, tk_transport t, tk_process_epoch t))"

record peer_carriers =
  cs_by_attempt :: "(nat \<times> peer_carrier) list"
  cs_by_key :: "(connection_key \<times> nat) list"

definition peer_carriers_new :: peer_carriers where
  "peer_carriers_new = \<lparr>cs_by_attempt = [], cs_by_key = []\<rparr>"

definition open_carrier :: "peer_carrier \<Rightarrow> peer_carriers \<Rightarrow> peer_carriers \<times> peer_carrier option" where
  "open_carrier c cs = (cs\<lparr>cs_by_attempt := btree_insert (at_attempt_id (pc_attempt c)) c (cs_by_attempt cs)\<rparr>,
     map_of (cs_by_attempt cs) (at_attempt_id (pc_attempt c)))"

definition retire_attempt :: "nat \<Rightarrow> peer_carriers \<Rightarrow> peer_carriers \<times> peer_carrier option" where
  "retire_attempt attempt_id cs =
     (case map_of (cs_by_attempt cs) attempt_id of
        None \<Rightarrow> (cs, None)
      | Some c \<Rightarrow> (cs\<lparr>cs_by_attempt := btree_remove attempt_id (cs_by_attempt cs), cs_by_key := btree_retain (\<lambda>_ held. held \<noteq> attempt_id) (cs_by_key cs)\<rparr>, Some c))"

definition carriers_authenticate :: "nat \<Rightarrow> ready_tuple \<Rightarrow> string \<Rightarrow> peer_carriers \<Rightarrow> peer_carriers \<times> (direct_carrier \<times> peer_carrier option) option" where
  "carriers_authenticate attempt_id ready connection_id cs =
     (case map_of (cs_by_attempt cs) attempt_id of
        None \<Rightarrow> (cs, None)
      | Some c \<Rightarrow>
          let (c, admitted) = carrier_authenticate ready connection_id c;
              cs = cs\<lparr>cs_by_attempt := btree_update attempt_id (\<lambda>_. c) (cs_by_attempt cs)\<rparr>
          in (case admitted of
                None \<Rightarrow> (cs, None)
              | Some carrier \<Rightarrow>
                  (case connection_key_of (dc_token carrier) of
                     None \<Rightarrow> (cs, None)
                   | Some key \<Rightarrow>
                       let previous = map_of (cs_by_key cs) key; cs = cs\<lparr>cs_by_key := btree_insert key attempt_id (cs_by_key cs)\<rparr>
                       in (case previous of
                             None \<Rightarrow> (cs, Some (carrier, None))
                           | Some p \<Rightarrow> if p = attempt_id then (cs, Some (carrier, None))
                               else let (cs, displaced) = retire_attempt p cs in (cs, Some (carrier, displaced))))))"

definition authenticate_after_open :: "peer_attempt \<Rightarrow> ready_tuple \<Rightarrow> string \<Rightarrow> peer_carriers \<Rightarrow> peer_carriers \<times> (direct_carrier \<times> peer_carrier option) option" where
  "authenticate_after_open attempt ready connection_id cs =
     carriers_authenticate (at_attempt_id attempt) ready connection_id (fst (open_carrier (carrier_opened attempt 0) cs))"

definition attempt_mut :: "nat \<Rightarrow> (peer_carrier \<Rightarrow> peer_carrier) \<Rightarrow> peer_carriers \<Rightarrow> peer_carriers" where
  "attempt_mut attempt_id f cs = cs\<lparr>cs_by_attempt := btree_update attempt_id f (cs_by_attempt cs)\<rparr>"

definition for_token :: "terminal_token \<Rightarrow> peer_carriers \<Rightarrow> peer_carrier option" where
  "for_token token cs =
     (case connection_key_of token of
        None \<Rightarrow> None
      | Some key \<Rightarrow>
          (case map_of (cs_by_key cs) key of
             None \<Rightarrow> None
           | Some attempt_id \<Rightarrow>
               (case map_of (cs_by_attempt cs) attempt_id of
                  None \<Rightarrow> None
                | Some c \<Rightarrow> if carrier_token c = Some token then Some c else None)))"

definition carriers_retire_worker :: "string \<Rightarrow> peer_carriers \<Rightarrow> peer_carriers \<times> peer_carrier list" where
  "carriers_retire_worker worker_fp cs =
     (let doomed = map (at_attempt_id \<circ> pc_attempt) (filter (\<lambda>c. at_worker_fp (pc_attempt c) = worker_fp) (map snd (cs_by_attempt cs)))
      in fold (\<lambda>attempt_id (cs, retired).
           (case retire_attempt attempt_id cs of (cs, Some c) \<Rightarrow> (cs, retired @ [c]) | (cs, None) \<Rightarrow> (cs, retired))) doomed (cs, []))"

definition attempt_ids :: "peer_carriers \<Rightarrow> nat list" where
  "attempt_ids cs = map fst (cs_by_attempt cs)"

section \<open>The table of live connections\<close>

type_synonym 't carrier_table = "(connection_key \<times> (string \<times> terminal_token \<times> 't)) list"

definition table_register :: "connection_key \<Rightarrow> string \<Rightarrow> terminal_token \<Rightarrow> 't \<Rightarrow> 't carrier_table \<Rightarrow> 't carrier_table \<times> string option" where
  "table_register key connection_id token connection t =
     (btree_insert key (connection_id, token, connection) t, map_option fst (map_of t key))"

definition table_get :: "terminal_token \<Rightarrow> 't carrier_table \<Rightarrow> 't option" where
  "table_get token t = (case connection_key_of token of None \<Rightarrow> None | Some key \<Rightarrow> map_option (snd \<circ> snd) (map_of t key))"

definition table_connection_id :: "terminal_token \<Rightarrow> 't carrier_table \<Rightarrow> string option" where
  "table_connection_id token t = (case connection_key_of token of None \<Rightarrow> None | Some key \<Rightarrow> map_option fst (map_of t key))"

definition table_retire :: "string \<Rightarrow> 't carrier_table \<Rightarrow> 't carrier_table \<times> 't option" where
  "table_retire connection_id t =
     (case List.find (\<lambda>(_, id, _). id = connection_id) t of
        None \<Rightarrow> (t, None)
      | Some (key, _) \<Rightarrow> (btree_remove key t, map_option (snd \<circ> snd) (map_of t key)))"

definition table_retire_worker :: "string \<Rightarrow> 't carrier_table \<Rightarrow> 't carrier_table \<times> (string \<times> terminal_token \<times> 't) list" where
  "table_retire_worker worker_fp t =
     (let doomed = filter (\<lambda>key. fst key = worker_fp) (map fst t)
      in fold (\<lambda>key (t, gone). (btree_remove key t, gone @ (case map_of t key of None \<Rightarrow> [] | Some x \<Rightarrow> [x]))) doomed (t, []))"

definition table_token_of :: "string \<Rightarrow> 't carrier_table \<Rightarrow> terminal_token option" where
  "table_token_of connection_id t = map_option (\<lambda>(_, _, token, _). token) (List.find (\<lambda>(_, id, _). id = connection_id) t)"

definition table_contains :: "string \<Rightarrow> 't carrier_table \<Rightarrow> bool" where
  "table_contains connection_id t \<longleftrightarrow> list_ex (\<lambda>(_, id, _). id = connection_id) t"

section \<open>Runs\<close>

text \<open>What a document does with its carriers, and the admissible case: an attempt adopts a grant under its own id.\<close>

datatype carriers_op =
    CsOpen peer_attempt nat
  | CsAuthenticate nat ready_tuple string
  | CsAuthenticateAfterOpen peer_attempt ready_tuple string
  | CsRetire nat
  | CsRetireWorker string
  | CsAdopt nat peer_attempt
  | CsEnqueue nat carrier_lane "byte list"
  | CsPush nat carrier_lane nat "byte list"
  | CsNextPacket nat carrier_lane
  | CsStalled nat nat
  | CsHello nat nat

fun exec_carriers :: "carriers_op \<Rightarrow> peer_carriers \<Rightarrow> peer_carriers" where
  "exec_carriers (CsOpen attempt now) cs = fst (open_carrier (carrier_opened attempt now) cs)"
| "exec_carriers (CsAuthenticate attempt_id ready connection_id) cs = fst (carriers_authenticate attempt_id ready connection_id cs)"
| "exec_carriers (CsAuthenticateAfterOpen attempt ready connection_id) cs = fst (authenticate_after_open attempt ready connection_id cs)"
| "exec_carriers (CsRetire attempt_id) cs = fst (retire_attempt attempt_id cs)"
| "exec_carriers (CsRetireWorker worker_fp) cs = fst (carriers_retire_worker worker_fp cs)"
| "exec_carriers (CsAdopt attempt_id attempt) cs = attempt_mut attempt_id (adopt_attempt attempt) cs"
| "exec_carriers (CsEnqueue attempt_id lane message) cs = attempt_mut attempt_id (fst \<circ> carrier_enqueue lane message) cs"
| "exec_carriers (CsPush attempt_id lane now packet) cs = attempt_mut attempt_id (fst \<circ> carrier_push lane now packet) cs"
| "exec_carriers (CsNextPacket attempt_id lane) cs = attempt_mut attempt_id (fst \<circ> next_packet lane) cs"
| "exec_carriers (CsStalled attempt_id now) cs = attempt_mut attempt_id (fst \<circ> stalled_lanes now) cs"
| "exec_carriers (CsHello attempt_id now) cs = attempt_mut attempt_id (\<lambda>c. c\<lparr>pc_life := fst (hello_sent now (pc_life c))\<rparr>) cs"

fun carriers_admissible :: "carriers_op \<Rightarrow> bool" where
  "carriers_admissible (CsAdopt attempt_id attempt) \<longleftrightarrow> at_attempt_id attempt = attempt_id"
| "carriers_admissible _ \<longleftrightarrow> True"

text \<open>
  Every attempt stands under its own id, the key of a proved one names it, and a key names an attempt that
  is held: stated over the two indexes as maps, for any way to read a key off a token.
\<close>

definition fenced :: "(terminal_token \<Rightarrow> 'k option) \<Rightarrow> (nat \<rightharpoonup> peer_carrier) \<Rightarrow> ('k \<rightharpoonup> nat) \<Rightarrow> bool" where
  "fenced key_of by_attempt by_key \<longleftrightarrow>
     (\<forall>i c. by_attempt i = Some c \<longrightarrow> at_attempt_id (pc_attempt c) = i
        \<and> (\<forall>dc. pc_carrier c = Some dc \<longrightarrow> (\<exists>key. key_of (dc_token dc) = Some key \<and> by_key key = Some i)))
     \<and> (\<forall>key i. by_key key = Some i \<longrightarrow> by_attempt i \<noteq> None)"

lemma fencedI:
  assumes "\<And>i c. A i = Some c \<Longrightarrow> at_attempt_id (pc_attempt c) = i"
    and "\<And>i c dc. A i = Some c \<Longrightarrow> pc_carrier c = Some dc \<Longrightarrow> \<exists>key. key_of (dc_token dc) = Some key \<and> K key = Some i"
    and "\<And>key i. K key = Some i \<Longrightarrow> A i \<noteq> None"
  shows "fenced key_of A K"
  unfolding fenced_def using assms by blast

lemma fencedD:
  assumes "fenced key_of A K"
  shows "A i = Some c \<Longrightarrow> at_attempt_id (pc_attempt c) = i"
    and "A i = Some c \<Longrightarrow> pc_carrier c = Some dc \<Longrightarrow> \<exists>key. key_of (dc_token dc) = Some key \<and> K key = Some i"
    and "K key = Some i \<Longrightarrow> A i \<noteq> None"
  using assms unfolding fenced_def by blast+

lemma fenced_put:
  assumes f: "fenced key_of A K" and c: "at_attempt_id (pc_attempt c) = i" "pc_carrier c = None \<or> (\<exists>c'. A i = Some c' \<and> pc_carrier c' = pc_carrier c)"
  shows "fenced key_of (A(i \<mapsto> c)) K"
proof (rule fencedI)
  fix j d assume "(A(i \<mapsto> c)) j = Some d"
  then show "at_attempt_id (pc_attempt d) = j" using fencedD(1) [OF f] c(1) by (cases "j = i") auto
next
  fix j d dc assume d: "(A(i \<mapsto> c)) j = Some d" "pc_carrier d = Some dc"
  then obtain d' where "A j = Some d'" "pc_carrier d' = Some dc" using c(2) by (cases "j = i") auto
  then show "\<exists>key. key_of (dc_token dc) = Some key \<and> K key = Some j" by (rule fencedD(2) [OF f])
next
  fix key j assume "K key = Some j"
  then show "(A(i \<mapsto> c)) j \<noteq> None" using fencedD(3) [OF f] by simp
qed

lemma fenced_drop:
  assumes f: "fenced key_of A K"
  shows "fenced key_of (A(i := None)) (\<lambda>key. if K key = Some i then None else K key)"
proof (rule fencedI)
  fix j d assume "(A(i := None)) j = Some d"
  then show "at_attempt_id (pc_attempt d) = j" using fencedD(1) [OF f] by (cases "j = i") auto
next
  fix j d dc assume d: "(A(i := None)) j = Some d" "pc_carrier d = Some dc"
  then have j: "j \<noteq> i" "A j = Some d" by (auto split: if_splits)
  then obtain key where "key_of (dc_token dc) = Some key" "K key = Some j" using fencedD(2) [OF f j(2) d(2)] by blast
  then show "\<exists>key. key_of (dc_token dc) = Some key \<and> (if K key = Some i then None else K key) = Some j" using j(1) by auto
next
  fix key j assume "(if K key = Some i then None else K key) = Some j"
  then show "(A(i := None)) j \<noteq> None" using fencedD(3) [OF f, of key j] by (auto split: if_splits)
qed

text \<open>A proved attempt that a key does not name stands under another one.\<close>

lemma fenced_other:
  assumes "fenced key_of A K" "A j = Some d" "pc_carrier d = Some dc" "K key \<noteq> Some j"
  shows "\<exists>k. key_of (dc_token dc) = Some k \<and> k \<noteq> key \<and> K k = Some j"
  using fencedD(2) [OF assms(1-3)] assms(4) by auto

lemma fenced_prove:
  assumes f: "fenced key_of A K" and c: "at_attempt_id (pc_attempt c) = i" "pc_carrier c = Some dc" "key_of (dc_token dc) = Some key"
  shows "K key \<in> {None, Some i} \<Longrightarrow> fenced key_of (A(i \<mapsto> c)) (K(key \<mapsto> i))"
    and "K key = Some p \<Longrightarrow> p \<noteq> i \<Longrightarrow> fenced key_of ((A(i \<mapsto> c))(p := None)) (\<lambda>k. if (K(key \<mapsto> i)) k = Some p then None else (K(key \<mapsto> i)) k)"
proof -
  assume free: "K key \<in> {None, Some i}"
  show "fenced key_of (A(i \<mapsto> c)) (K(key \<mapsto> i))"
  proof (rule fencedI)
    fix j d assume "(A(i \<mapsto> c)) j = Some d"
    then show "at_attempt_id (pc_attempt d) = j" using fencedD(1) [OF f] c(1) by (cases "j = i") auto
  next
    fix j d dc' assume d: "(A(i \<mapsto> c)) j = Some d" "pc_carrier d = Some dc'"
    show "\<exists>k. key_of (dc_token dc') = Some k \<and> (K(key \<mapsto> i)) k = Some j"
    proof (cases "j = i")
      case True
      then show ?thesis using d c by auto
    next
      case False
      then show ?thesis using fenced_other [OF f, of j d dc' key] d free by auto
    qed
  next
    fix k j assume "(K(key \<mapsto> i)) k = Some j"
    then show "(A(i \<mapsto> c)) j \<noteq> None" using fencedD(3) [OF f, of k j] by (cases "k = key") auto
  qed
next
  assume p: "K key = Some p" "p \<noteq> i"
  show "fenced key_of ((A(i \<mapsto> c))(p := None)) (\<lambda>k. if (K(key \<mapsto> i)) k = Some p then None else (K(key \<mapsto> i)) k)"
  proof (rule fencedI)
    fix j d assume "((A(i \<mapsto> c))(p := None)) j = Some d"
    then show "at_attempt_id (pc_attempt d) = j" using fencedD(1) [OF f, of j d] c(1) by (auto split: if_splits)
  next
    fix j d dc' assume d: "((A(i \<mapsto> c))(p := None)) j = Some d" "pc_carrier d = Some dc'"
    then have "j \<noteq> p" by auto
    show "\<exists>k. key_of (dc_token dc') = Some k \<and> (if (K(key \<mapsto> i)) k = Some p then None else (K(key \<mapsto> i)) k) = Some j"
    proof (cases "j = i")
      case True
      then show ?thesis using d c p(2) by auto
    next
      case False
      then have "A j = Some d" using d(1) \<open>j \<noteq> p\<close> by simp
      then show ?thesis using fenced_other [OF f, of j d dc' key] d(2) p \<open>j \<noteq> p\<close> by auto
    qed
  next
    fix k j assume "(if (K(key \<mapsto> i)) k = Some p then None else (K(key \<mapsto> i)) k) = Some j"
    then show "((A(i \<mapsto> c))(p := None)) j \<noteq> None" using fencedD(3) [OF f, of k j] by (auto split: if_splits)
  qed
qed

definition carriers_ok :: "peer_carriers \<Rightarrow> bool" where
  "carriers_ok cs \<longleftrightarrow> key_sorted (cs_by_attempt cs) \<and> key_sorted (cs_by_key cs)
     \<and> fenced connection_key_of (map_of (cs_by_attempt cs)) (map_of (cs_by_key cs))"

lemma retain_lookup: "distinct (map fst m) \<Longrightarrow> map_of (btree_retain (\<lambda>_ v. keep v) m) k = (case map_of m k of None \<Rightarrow> None | Some v \<Rightarrow> if keep v then Some v else None)"
  by (induction m) (auto simp: btree_retain_def map_of_eq_None_iff image_iff split: option.splits)

lemma lookup_maps:
  "key_sorted m \<Longrightarrow> map_of (btree_insert k v m) = (map_of m)(k \<mapsto> v)"
  "map_of (btree_remove k m) = (map_of m)(k := None)"
  "map_of m k = Some v \<Longrightarrow> map_of (btree_update k f m) = (map_of m)(k \<mapsto> f v)"
  "map_of m k = None \<Longrightarrow> map_of (btree_update k f m) = map_of m"
  by (auto simp: btree_insert_lookup btree_remove_lookup btree_update_lookup)

lemma retain_map: "key_sorted m \<Longrightarrow> map_of (btree_retain (\<lambda>_ v. v \<noteq> w) m) = (\<lambda>k. if map_of m k = Some w then None else map_of m k)"
  by (auto simp: retain_lookup key_sorted_distinct split: option.splits)

lemma open_ok: "carriers_ok cs \<Longrightarrow> carriers_ok (fst (open_carrier (carrier_opened attempt now) cs))"
  by (simp add: carriers_ok_def open_carrier_def carrier_opened_def btree_insert_sorted lookup_maps fenced_put)

lemma mut_ok:
  assumes "carriers_ok cs" "\<And>c. at_attempt_id (pc_attempt c) = i \<Longrightarrow> at_attempt_id (pc_attempt (f c)) = i \<and> pc_carrier (f c) = pc_carrier c"
  shows "carriers_ok (attempt_mut i f cs)"
proof (cases "map_of (cs_by_attempt cs) i")
  case None
  then show ?thesis using assms(1) by (simp add: carriers_ok_def attempt_mut_def btree_other_sorted lookup_maps)
next
  case (Some c)
  then have "at_attempt_id (pc_attempt c) = i" using assms(1) fencedD(1) by (auto simp: carriers_ok_def)
  then show ?thesis using assms(1) assms(2) [of c] Some
    by (auto simp: carriers_ok_def attempt_mut_def btree_other_sorted lookup_maps intro!: fenced_put)
qed

lemma retire_lookup: "map_of (cs_by_attempt (fst (retire_attempt i cs))) = (map_of (cs_by_attempt cs))(i := None)"
  by (auto simp: retire_attempt_def lookup_maps split: option.splits)

lemma retire_ok:
  assumes "carriers_ok cs"
  shows "carriers_ok (fst (retire_attempt i cs))"
proof (cases "map_of (cs_by_attempt cs) i")
  case None
  then show ?thesis using assms by (simp add: retire_attempt_def)
next
  case (Some c)
  then show ?thesis using assms by (simp add: retire_attempt_def carriers_ok_def btree_other_sorted lookup_maps retain_map fenced_drop)
qed

lemma authenticate_ok:
  assumes ok: "carriers_ok cs"
  shows "carriers_ok (fst (carriers_authenticate i ready connection_id cs))"
proof (cases "map_of (cs_by_attempt cs) i")
  case None
  then show ?thesis using ok by (simp add: carriers_authenticate_def)
next
  case (Some c)
  then have i: "at_attempt_id (pc_attempt c) = i" using ok fencedD(1) by (auto simp: carriers_ok_def)
  show ?thesis
  proof (cases "pc_carrier c \<noteq> None \<or> \<not> ready_admits ready (pc_attempt c)")
    case True
    then have "fst (carriers_authenticate i ready connection_id cs) = attempt_mut i (\<lambda>_. c) cs"
      using Some by (auto simp: carriers_authenticate_def carrier_authenticate_def attempt_mut_def)
    moreover have "carriers_ok (attempt_mut i (\<lambda>_. c) cs)"
      using ok Some by (auto simp: carriers_ok_def attempt_mut_def btree_other_sorted lookup_maps fun_upd_idem)
    ultimately show ?thesis by simp
  next
    case False
    define key where "key = (rt_worker_fp ready, at_transport (pc_attempt c), rt_worker_epoch ready)"
    define c' where "c' = fst (carrier_authenticate ready connection_id c)"
    define cs' where "cs' = cs\<lparr>cs_by_attempt := btree_update i (\<lambda>_. c') (cs_by_attempt cs), cs_by_key := btree_insert key i (cs_by_key cs)\<rparr>"
    have auth: "carrier_authenticate ready connection_id c = (c', Some (ready_carrier ready (pc_attempt c) connection_id))"
      and c': "at_attempt_id (pc_attempt c') = i" "pc_carrier c' = Some (ready_carrier ready (pc_attempt c) connection_id)"
      using False i by (simp_all add: c'_def carrier_authenticate_def Let_def)
    have key: "connection_key_of (dc_token (ready_carrier ready (pc_attempt c) connection_id)) = Some key"
      by (simp add: connection_key_of_def ready_carrier_def token_direct_def key_def)
    have step: "fst (carriers_authenticate i ready connection_id cs) =
        (case map_of (cs_by_key cs) key of None \<Rightarrow> cs' | Some p \<Rightarrow> if p = i then cs' else fst (retire_attempt p cs'))"
      using Some auth key by (auto simp: carriers_authenticate_def cs'_def case_prod_beta Let_def split: option.split)
    have maps: "map_of (cs_by_attempt cs') = (map_of (cs_by_attempt cs))(i \<mapsto> c')" "map_of (cs_by_key cs') = (map_of (cs_by_key cs))(key \<mapsto> i)"
      and sorted: "key_sorted (cs_by_attempt cs')" "key_sorted (cs_by_key cs')"
      using ok Some by (simp_all add: cs'_def carriers_ok_def lookup_maps btree_other_sorted btree_insert_sorted)
    have f: "fenced connection_key_of (map_of (cs_by_attempt cs)) (map_of (cs_by_key cs))" using ok by (simp add: carriers_ok_def)
    consider "map_of (cs_by_key cs) key \<in> {None, Some i}" | p where "map_of (cs_by_key cs) key = Some p" "p \<noteq> i" by fastforce
    then show ?thesis
    proof cases
      case 1
      then show ?thesis using step maps sorted fenced_prove(1) [OF f c' key] by (auto simp: carriers_ok_def)
    next
      case 2
      then have "map_of (cs_by_attempt cs) p \<noteq> None" using fencedD(3) [OF f] by blast
      then obtain d where d: "map_of (cs_by_attempt cs') p = Some d" using maps(1) 2 by auto
      have "fenced connection_key_of ((map_of (cs_by_attempt cs'))(p := None)) (\<lambda>k. if map_of (cs_by_key cs') k = Some p then None else map_of (cs_by_key cs') k)"
        unfolding maps by (rule fenced_prove(2) [OF f c' key 2])
      then have "carriers_ok (fst (retire_attempt p cs'))"
        using sorted d by (simp add: retire_attempt_def carriers_ok_def btree_other_sorted lookup_maps(2) retain_map)
      then show ?thesis using step 2 by simp
    qed
  qed
qed

lemma retire_worker_fold:
  assumes "carriers_ok cs"
  shows "carriers_ok (fst (fold (\<lambda>i (cs, retired). (case retire_attempt i cs of (cs, Some c) \<Rightarrow> (cs, retired @ [c]) | (cs, None) \<Rightarrow> (cs, retired))) doomed (cs, gone)))
    \<and> map_of (cs_by_attempt (fst (fold (\<lambda>i (cs, retired). (case retire_attempt i cs of (cs, Some c) \<Rightarrow> (cs, retired @ [c]) | (cs, None) \<Rightarrow> (cs, retired))) doomed (cs, gone))))
      = (\<lambda>j. if j \<in> set doomed then None else map_of (cs_by_attempt cs) j)"
  using assms
proof (induction doomed arbitrary: cs gone)
  case (Cons i doomed)
  obtain cs' r where step: "retire_attempt i cs = (cs', r)" by (cases "retire_attempt i cs")
  have "carriers_ok cs'" "map_of (cs_by_attempt cs') = (map_of (cs_by_attempt cs))(i := None)"
    using retire_ok [OF Cons.prems, of i] retire_lookup [of i cs] step by simp_all
  then show ?case using Cons.IH [of cs'] step by (auto split: option.split)
qed auto

lemma retire_worker_lookup:
  assumes ok: "carriers_ok cs"
  shows "map_of (cs_by_attempt (fst (carriers_retire_worker fp cs))) i =
    (case map_of (cs_by_attempt cs) i of None \<Rightarrow> None | Some c \<Rightarrow> if at_worker_fp (pc_attempt c) = fp then None else Some c)"
proof -
  let ?A = "cs_by_attempt cs"
  have sorted: "key_sorted ?A" and own: "map_of ?A j = Some c \<Longrightarrow> at_attempt_id (pc_attempt c) = j" for j c
    using ok fencedD(1) by (auto simp: carriers_ok_def)
  have "i \<in> set (map (at_attempt_id \<circ> pc_attempt) (filter (\<lambda>c. at_worker_fp (pc_attempt c) = fp) (map snd ?A)))
    \<longleftrightarrow> (\<exists>c. map_of ?A i = Some c \<and> at_worker_fp (pc_attempt c) = fp)"
  proof
    assume "i \<in> set (map (at_attempt_id \<circ> pc_attempt) (filter (\<lambda>c. at_worker_fp (pc_attempt c) = fp) (map snd ?A)))"
    then obtain j c where "(j, c) \<in> set ?A" "at_worker_fp (pc_attempt c) = fp" "i = at_attempt_id (pc_attempt c)" by auto
    then show "\<exists>c. map_of ?A i = Some c \<and> at_worker_fp (pc_attempt c) = fp" using own key_sorted_lookup [OF sorted] by auto
  next
    assume "\<exists>c. map_of ?A i = Some c \<and> at_worker_fp (pc_attempt c) = fp"
    then obtain c where "map_of ?A i = Some c" "at_worker_fp (pc_attempt c) = fp" by blast
    then show "i \<in> set (map (at_attempt_id \<circ> pc_attempt) (filter (\<lambda>c. at_worker_fp (pc_attempt c) = fp) (map snd ?A)))"
      using own [of i c] map_of_SomeD [of ?A i c] by force
  qed
  then show ?thesis using retire_worker_fold [OF ok] by (auto simp: carriers_retire_worker_def split: option.split)
qed

lemma carriers_new_ok: "carriers_ok peer_carriers_new"
  by (simp add: carriers_ok_def peer_carriers_new_def fenced_def)

interpretation carriers: invariant_machine carriers_ok carriers_admissible exec_carriers
proof
  fix cs p
  assume ok: "carriers_ok cs" and adm: "carriers_admissible p"
  show "carriers_ok (exec_carriers p cs)"
  proof (cases p)
    case (CsRetireWorker fp)
    then show ?thesis using retire_worker_fold [OF ok] by (simp add: carriers_retire_worker_def)
  next
    case (CsAuthenticateAfterOpen attempt ready connection_id)
    then show ?thesis using authenticate_ok [OF open_ok [OF ok]] by (simp add: authenticate_after_open_def)
  qed (use ok adm in \<open>auto intro!: open_ok authenticate_ok retire_ok mut_ok
      simp: adopt_attempt_def carrier_enqueue_def carrier_push_def next_packet_def stalled_lanes_def case_prod_beta\<close>)
qed

text \<open>
  C23: a document reaches exactly the carriers that proved themselves: after any calls, the carrier found
  for a token is the held attempt whose worker proved that very token, and every such attempt is found;
  no two held attempts present tokens of one connection key; and retiring a worker drops its attempts and
  no other.
\<close>

theorem carriers_fenced:
  assumes "list_all carriers_admissible ops"
  shows "let cs = fold exec_carriers ops peer_carriers_new in
    (for_token token cs = Some c \<longleftrightarrow> (\<exists>i. map_of (cs_by_attempt cs) i = Some c \<and> carrier_token c = Some token))
    \<and> (map_of (cs_by_attempt cs) i = Some d \<and> map_of (cs_by_attempt cs) j = Some e \<and> carrier_token d = Some t \<and> carrier_token e = Some u
         \<and> connection_key_of t = connection_key_of u \<longrightarrow> i = j)
    \<and> map_of (cs_by_attempt (fst (carriers_retire_worker fp cs))) k =
        (case map_of (cs_by_attempt cs) k of None \<Rightarrow> None | Some c \<Rightarrow> if at_worker_fp (pc_attempt c) = fp then None else Some c)"
proof -
  define cs where "cs = fold exec_carriers ops peer_carriers_new"
  have ok: "carriers_ok cs" unfolding cs_def by (rule carriers.run_invar [OF carriers_new_ok assms])
  have held: "\<exists>key. connection_key_of t = Some key \<and> map_of (cs_by_key cs) key = Some i"
    if "map_of (cs_by_attempt cs) i = Some c" "carrier_token c = Some t" for i c t
    using ok that fencedD(2) [of connection_key_of "map_of (cs_by_attempt cs)" "map_of (cs_by_key cs)"]
    unfolding carriers_ok_def carrier_token_def map_option_eq_Some by blast
  have "for_token token cs = Some c \<longleftrightarrow> (\<exists>i. map_of (cs_by_attempt cs) i = Some c \<and> carrier_token c = Some token)"
    using held [of _ c token] by (auto simp: for_token_def split: option.splits if_splits)
  moreover have "i = j" if "map_of (cs_by_attempt cs) i = Some d" "map_of (cs_by_attempt cs) j = Some e" "carrier_token d = Some t" "carrier_token e = Some u"
    "connection_key_of t = connection_key_of u" using held [OF that(1,3)] held [OF that(2,4)] that(5) by auto
  ultimately show ?thesis unfolding cs_def [symmetric] Let_def using retire_worker_lookup [OF ok] by blast
qed

text \<open>One attempt opened, proved and adopted under its own id.\<close>

definition sample_attempt :: peer_attempt where
  "sample_attempt = \<lparr>at_attempt_id = 4, at_worker_fp = ''w'', at_worker_epoch = ''e'', at_transport = Peer, at_peer_id = ''p'', at_grant_id = ''g'',
     at_tab_id = ''t'', at_device_fingerprint = ''d'', at_stun_urls = [], at_session_ids = {''s''}\<rparr>"

definition sample_ready :: ready_tuple where
  "sample_ready = \<lparr>rt_worker_fp = ''w'', rt_worker_epoch = ''e'', rt_peer_id = ''p'', rt_socket_generation = 7, rt_socket_id = ''k'', rt_session_ids = {''s''}\<rparr>"

theorem carriers_fenced_witness:
  "let cs = fold exec_carriers [CsOpen sample_attempt 10, CsAuthenticate 4 sample_ready ''c'', CsAdopt 4 sample_attempt] peer_carriers_new in
     (\<exists>c. for_token (token_direct 7 Peer ''w'' ''e'' 7) cs = Some c \<and> carrier_token c = Some (token_direct 7 Peer ''w'' ''e'' 7))
     \<and> map_of (cs_by_attempt (fst (carriers_retire_worker ''w'' cs))) 4 = None"
proof -
  let ?ops = "[CsOpen sample_attempt 10, CsAuthenticate 4 sample_ready ''c'', CsAdopt 4 sample_attempt]"
  let ?cs = "fold exec_carriers ?ops peer_carriers_new" and ?t = "token_direct 7 Peer ''w'' ''e'' 7"
  have adm: "list_all carriers_admissible ?ops" by (simp add: sample_attempt_def)
  have "\<exists>c. map_of (cs_by_attempt ?cs) 4 = Some c \<and> carrier_token c = Some ?t \<and> at_worker_fp (pc_attempt c) = ''w''"
    by (simp add: peer_carriers_new_def open_carrier_def carrier_opened_def carriers_authenticate_def carrier_authenticate_def ready_admits_def
        ready_carrier_def connection_key_of_def token_direct_def attempt_mut_def adopt_attempt_def carrier_token_def btree_update_def
        sample_attempt_def sample_ready_def Let_def)
  then obtain c where c: "map_of (cs_by_attempt ?cs) 4 = Some c" "carrier_token c = Some ?t" "at_worker_fp (pc_attempt c) = ''w''" by blast
  show ?thesis unfolding Let_def
    using carriers_fenced [OF adm, of ?t c 4 c 4 c ?t ?t "''w''" 4, unfolded Let_def] c by auto
qed

section \<open>What the lookups do not check\<close>

text \<open>The lower a lane's priority, the higher its marks.\<close>

lemma watermarks_ascend:
  "sorted_wrt (\<lambda>a b. fst (channel_watermarks a) < fst (channel_watermarks b) \<and> snd (channel_watermarks a) < snd (channel_watermarks b)) TERMINAL_PEER_LANE_PRIORITY"
  by (simp add: TERMINAL_PEER_LANE_PRIORITY_def)

text \<open>The table's lookup reads the key and not the generation: a token of an earlier generation finds the connection that replaced it.\<close>

lemma table_get_any_generation:
  assumes "key_sorted t"
  shows "table_get (token_direct g tr fp epoch h) (fst (table_register (fp, tr, epoch) connection_id (token_direct g' tr fp epoch h') connection t)) = Some connection"
  using assms by (simp add: table_get_def table_register_def connection_key_of_def token_direct_def btree_insert_lookup)

text \<open>A worker registered under a new epoch leaves the connection of the old one in the table.\<close>

lemma table_keeps_old_epoch:
  assumes "key_sorted t" "epoch \<noteq> epoch'" "map_of t (fp, tr, epoch) = Some (old_id, old_token, old)"
  shows "let t' = fst (table_register (fp, tr, epoch') connection_id token connection t)
    in map_of t' (fp, tr, epoch) = Some (old_id, old_token, old)
      \<and> (map_of t (fp, tr, epoch') = None \<longrightarrow> snd (table_register (fp, tr, epoch') connection_id token connection t) = None)"
  using assms by (simp add: table_register_def btree_insert_lookup Let_def)

end
