(* ===== verification/Spec2Isabelle.thy ===== *)
theory Spec2Isabelle
  imports Session_Events View_Behaviour Cell_Transfer Keeper_Client Client_Stall Client_Dialing Client_Deadlines
    Worker_Barrier Worker_Outbox Coord_Delivery Peer_Carriers
begin

text \<open>
  \<^bold>\<open>A verification development for Roost.\<close>

  Roost keeps terminal sessions alive on a fleet of workers and shows them in browsers and
  native clients. A worker owns the sessions of one machine; its keeper owns the PTYs; a
  coordinator relays between workers and clients. What every one of them shares is the
  \<^verbatim>\<open>roost-protocol\<close> crate (\<^verbatim>\<open>src/crates/roost-protocol/src\<close>): it reads no clock, touches no file and
  opens no socket, and it decides what a session list is, how large a terminal is, which rows a
  viewer sees and which messages are believed. This development models that crate's core, the keeper
  (\<^verbatim>\<open>src/crates/roost-keeper/src\<close>) with the client a worker drives it through, the clients' replica,
  link and input, the worker's link to the coordinator and the coordinator's v1 sockets.

  \<^bold>\<open>The parts and the theories that model them.\<close>

  \<^item> \<^verbatim>\<open>Roost_Prelude\<close>: the result type of fallible code, saturating and checked arithmetic on the
    widths the code uses, keyed updates, and interfaces as locales: \<^verbatim>\<open>event_log\<close> (a fold over
    a log, with what locality of single events gives for replays), \<^verbatim>\<open>invariant_machine\<close> (operations
    that keep an invariant), \<^verbatim>\<open>guarded_machine\<close> (the same where a call's guard depends on the state it
    meets), \<^verbatim>\<open>functional_refinement\<close> (a fast operation that tracks a reference one).
  \<^item> \<^verbatim>\<open>Branded_Ids\<close> (\<^verbatim>\<open>validate.rs\<close>, \<^verbatim>\<open>fingerprint.rs\<close>, \<^verbatim>\<open>wire/brand.rs\<close>, \<^verbatim>\<open>error.rs\<close>): the field checks
    and the identifier types every other part parses through. Text is a list of characters; an
    error keeps the field it names and not its prose. The locale \<^verbatim>\<open>brand\<close> is the contract of an
    identifier type, interpreted for each one.
  \<^item> \<^verbatim>\<open>Session_Events\<close> (\<^verbatim>\<open>wire/session.rs\<close>, \<^verbatim>\<open>wire/event.rs\<close>, \<^verbatim>\<open>wire/event/variants.rs\<close>): the session
    row, the event log and its reducer \<^verbatim>\<open>fold_event\<close>. The interpretation of \<^verbatim>\<open>event_log\<close> is in this
    theory; replay is shown local to each session, order-independent across sessions, to keep rows
    well formed, to keep creation facts, and to forget a row only on a close.
  \<^item> \<^verbatim>\<open>Viewport\<close> (\<^verbatim>\<open>viewport.rs\<close>): geometry limits, clamping of measured sizes (a float is a rational
    or a non-finite value), the per-axis minimum over all viewers.
  \<^item> \<^verbatim>\<open>View_Record\<close> (\<^verbatim>\<open>terminal_view/record.rs\<close>): one viewer's declaration of a terminal view: its
    composite key, its lease, when it binds, and the read projections.
  \<^item> \<^verbatim>\<open>View_Claims\<close> (\<^verbatim>\<open>terminal_view/tombstone.rs\<close>): the bounded store of released or lapsed claims,
    with its two evictions, and the invariant that ties its map, its order list and its counters; the
    locale \<^verbatim>\<open>claim_store\<close> is what the registry relies on.
  \<^item> \<^verbatim>\<open>View_Registry\<close> (\<^verbatim>\<open>machine.rs\<close>, \<^verbatim>\<open>admit.rs\<close>, \<^verbatim>\<open>commands.rs\<close>, \<^verbatim>\<open>registry.rs\<close>, \<^verbatim>\<open>registry/queries.rs\<close> and
    \<^verbatim>\<open>sink.rs\<close> of \<^verbatim>\<open>terminal_view/\<close>): the membership machine. The registry is one record of four
    fields; each host call is a function that returns the new registry and the outcome (replies and
    effects for the host), in the order the code makes them. \<^verbatim>\<open>View_Invariant\<close> states what the
    indexes, caps and claims owe each other and shows that every operation keeps it, as an
    interpretation of \<^verbatim>\<open>invariant_machine\<close> over the whole call language; \<^verbatim>\<open>View_Behaviour\<close> shows what
    a caller may rely on: one answer per command, answers that are true, refusals that change
    nothing, releases that stay released, complete revocation and sweeping, and that the effective
    terminal size is the minimum over exactly the views that bind.
  \<^item> \<^verbatim>\<open>Cell_Types\<close> (\<^verbatim>\<open>cell/types.rs\<close>, \<^verbatim>\<open>cell/types/*.rs\<close>, \<^verbatim>\<open>cell/row_mark.rs\<close>): spans, rows, frames and
    the conversion between text offsets and grid columns.
  \<^item> \<^verbatim>\<open>Cell_Delta\<close> (\<^verbatim>\<open>cell/diff_grid.rs\<close>, \<^verbatim>\<open>cell/delta_batch.rs\<close>): in-place application of a delta
    frame (row rotation included), the viewport-only checkpoint and the batch fold, each shown
    equal to a reference overlay; the checkpoint is an interpretation of \<^verbatim>\<open>functional_refinement\<close>.
  \<^item> \<^verbatim>\<open>Cell_Proto\<close> (\<^verbatim>\<open>cell/proto.rs\<close>, \<^verbatim>\<open>cell/proto_image.rs\<close>, \<^verbatim>\<open>cell/frame_structure.rs\<close>, \<^verbatim>\<open>cell.proto\<close>):
    the boundary between messages and the value model: encode and decode are inverse on what the
    contract admits, and whatever decodes is within the contract.
  \<^item> \<^verbatim>\<open>Cell_Chunks\<close> (\<^verbatim>\<open>cell/frame_chunk_validation.rs\<close>, \<^verbatim>\<open>row_accounting.rs\<close>, \<^verbatim>\<open>cell/frame_chunks.rs\<close>,
    \<^verbatim>\<open>frame_chunks/plan.rs\<close>): the limits and checks on a snapshot too large for one message, shown to accept
    exactly the well-formed ones, and the planner and cursor that split it into whole-row parts.
    \<^verbatim>\<open>Cell_Assembler\<close> (\<^verbatim>\<open>cell/frame_chunk_assembler.rs\<close>): the receiving state machine; what a partial stands
    for is a list of accepted parts, the interpretation of \<^verbatim>\<open>invariant_machine\<close> covers every sequence of
    calls, and a completed frame always passes the snapshot check. \<^verbatim>\<open>Cell_Transfer\<close>: sender and receiver
    together, a split frame arrives whole. Encoded lengths are the protobuf library's, a parameter of
    these definitions; \<^verbatim>\<open>wire_size_laws\<close> is the encoding specification the round trip relies on.
  \<^item> \<^verbatim>\<open>Keeper_Codec\<close> (\<^verbatim>\<open>codec.rs\<close>, \<^verbatim>\<open>payloads.rs\<close> of the keeper): the framed socket protocol at the byte
    level, the streaming decoder and the binary payloads. Any fragmentation of a stream of frames
    decodes to those frames, and no byte stream drives the decoder out of its types or its bound.
  \<^item> \<^verbatim>\<open>Keeper_History\<close> (\<^verbatim>\<open>history.rs\<close>): the history payload; a byte string decodes to a history exactly when it
    is its encoding. \<^verbatim>\<open>Keeper_Retention\<close> (\<^verbatim>\<open>channel_history.rs\<close>): the bounded ring with its resize markers;
    the abstract history is the whole stream of bytes and geometry changes (\<^verbatim>\<open>stream_item\<close>), and what is
    retained is a suffix of it under the right geometry, which always encodes.
  \<^item> \<^verbatim>\<open>Keeper_Lanes\<close> (\<^verbatim>\<open>output_ring.rs\<close>, \<^verbatim>\<open>input_queue.rs\<close>): the reader and writer threads of a channel as
    steps between lock acquisitions; two interpretations of \<^verbatim>\<open>invariant_machine\<close> range over every
    interleaving. Output is handed over whole and in order; input is a bounded queue whose result
    frames say truthfully how many bytes reached the PTY. What a descriptor answers is a list of
    results; a write that never returns is \<open>None\<close>, and enough answers make it return.
  \<^item> \<^verbatim>\<open>Keeper_Daemon\<close> (\<^verbatim>\<open>keeper.rs\<close>, \<^verbatim>\<open>keeper_ops.rs\<close>, \<^verbatim>\<open>pty_channel.rs\<close>, \<^verbatim>\<open>server/connection.rs\<close>,
    \<^verbatim>\<open>bin/roost-keeper.rs\<close>): the channel registry, every frame handler, draining, reaping, the
    authentication and serving loops over scripted turns, the exit decision. \<^verbatim>\<open>Keeper_Service\<close>: the
    keeper under any sequence of frames, drains, reaps and thread turns keeps each channel's history
    equal to what its worker was shown (an interpretation of \<^verbatim>\<open>invariant_machine\<close>), so questions within the
    wire format's numbers are answered and the resize sequence only moves forward. \<^verbatim>\<open>Keeper_Gate\<close>: nothing is served before
    the capability is proved, when the daemon stops, and three requests the code does not answer as
    its comments promise. \<^verbatim>\<open>Keeper_Client\<close> (\<^verbatim>\<open>client_frames.rs\<close>, \<^verbatim>\<open>client_history.rs\<close>, \<^verbatim>\<open>client_resize.rs\<close>): the
    waiting client, and both ends together: resuming a channel starts from an exact boundary within
    those numbers, and a resize reports what the PTY did.
  \<^item> The client core (\<^verbatim>\<open>roost-client-core\<close>). \<^verbatim>\<open>Ordered_Map\<close>: the ordered map of the standard library as an
    interpretation of \<^verbatim>\<open>keyed_store\<close>. \<^verbatim>\<open>Client_Token\<close>, \<^verbatim>\<open>Client_Fold\<close>, \<^verbatim>\<open>Client_Liveness\<close>, \<^verbatim>\<open>Client_Session\<close>
    (\<^verbatim>\<open>terminal/token.rs\<close>, \<^verbatim>\<open>repair.rs\<close>, \<^verbatim>\<open>view.rs\<close>, \<^verbatim>\<open>frame_fold.rs\<close>, \<^verbatim>\<open>renderer_deliveries.rs\<close>, \<^verbatim>\<open>liveness.rs\<close>,
    \<^verbatim>\<open>session*.rs\<close>): the terminal replica. \<^verbatim>\<open>Client_Replica\<close>: its invariant under every sequence of calls;
    \<^verbatim>\<open>Client_Baseline\<close>: a split baseline is installed exactly, and the delivery log repaints exactly.
    \<^verbatim>\<open>Client_Hydration\<close>, \<^verbatim>\<open>Client_Link\<close> (\<^verbatim>\<open>sync/*.rs\<close>, \<^verbatim>\<open>handle_sync/lifecycle.rs\<close>, \<^verbatim>\<open>hydration.rs\<close>): the socket,
    its domains, the redial clock and the snapshot calls. \<^verbatim>\<open>Client_Watchdog\<close> (\<^verbatim>\<open>handle_sweep/*.rs\<close>,
    \<^verbatim>\<open>handle_terminal/views.rs\<close>): the store's handlers for one session. \<^verbatim>\<open>Client_Promises\<close>: a watched pane
    keeps a deadline across a sweep; \<^verbatim>\<open>Client_Stall\<close>: the one way it loses both; \<^verbatim>\<open>Client_Dialing\<close>: until
    the 64-bit counter is exhausted socket generations are never reused and only the latest is admitted,
    and a silent link is replaced.
  \<^item> Client input. \<^verbatim>\<open>Client_Input\<close> (\<^verbatim>\<open>terminal/input.rs\<close>, \<^verbatim>\<open>outcome_feed.rs\<close>, \<^verbatim>\<open>smoke_observer.rs\<close>,
    \<^verbatim>\<open>router/*.rs\<close>): batches, lanes, settlement and route loss. \<^verbatim>\<open>Client_Claims\<close> (\<^verbatim>\<open>router/claim.rs\<close>): route
    claims, promotion holds and the fallback. \<^verbatim>\<open>Client_Handoff\<close> (\<^verbatim>\<open>handle_input.rs\<close>, the fallback of
    \<^verbatim>\<open>promotion.rs\<close> and \<^verbatim>\<open>deadlines.rs\<close>): the handlers of a keystroke, a result and the sweep.
    \<^verbatim>\<open>Client_Life\<close>: the specification, a batch's life as a small machine, the router's invariant, and the
    events each operation stands for; \<^verbatim>\<open>Client_Trace\<close>: every run of the client refines it;
    \<^verbatim>\<open>Client_Deadlines\<close>: the caps and the deadlines the sweep enforces.
  \<^item> The worker's coordinator link (\<^verbatim>\<open>roost-worker\<close>). \<^verbatim>\<open>Worker_Barrier\<close> (\<^verbatim>\<open>link_barrier.rs\<close>): the pump that
    replays durable events one at a time before a snapshot opens the link. A history of what was admitted
    and confirmed is kept beside it. An interpretation of \<^verbatim>\<open>invariant_machine\<close> gives, for every run of calls,
    that the link opens only when it may and that an answered link goes live; two interpretations of
    \<^verbatim>\<open>guarded_machine\<close> give that durable events keep their order over reconnections, in the runs whose
    reassigned sequences are fresh and whose counter is not exhausted. \<^verbatim>\<open>Worker_Outbox\<close> (\<^verbatim>\<open>outbox.rs\<close>): the
    five lanes under their caps; draining is shown equal to one list in the order of the code's lane table
    (which is not the order its comments give), and the counters exact.
  \<^item> The coordinator's v1 sockets (\<^verbatim>\<open>roost-coord/src/sync_ws\<close>). \<^verbatim>\<open>Coord_Window\<close> (\<^verbatim>\<open>ack_window.rs\<close>): the
    cumulative acknowledgement window and what it owes. \<^verbatim>\<open>Coord_Delivery\<close> (\<^verbatim>\<open>v1_seed.rs\<close>, \<^verbatim>\<open>v1_delivery.rs\<close>, the
    v1 arms of \<^verbatim>\<open>driver.rs\<close> and \<^verbatim>\<open>ingress.rs\<close>, and the open of \<^verbatim>\<open>seed.rs\<close> and \<^verbatim>\<open>socket_open.rs\<close>): the seed paced
    by acknowledgements or sent in one burst, the guarded send and the close. Encoding a frame is a
    parameter. With what was handed to the socket and every frame the feed offered kept beside the link,
    two interpretations of \<^verbatim>\<open>invariant_machine\<close>, for paced and unpaced sockets, give the exact stream a client
    sees, and an acknowledging client is shown to receive all of it.
  \<^item> Direct peers. \<^verbatim>\<open>Peer_Packets\<close> (\<^verbatim>\<open>roost-protocol/src/terminal_peer/packets.rs\<close>, \<^verbatim>\<open>packet_queue.rs\<close>): the fragment
    header, the assembler and the bounded queue of an ordered lane, over a quota that is a parameter. The
    locale \<^verbatim>\<open>packet_quota\<close> is what both ends rely on, and the browser's lane budget provides it: a lane
    delivers what it accepted, in order and within its cap, and drains, and a reset of both ends is the lane
    as it opened. Allocation is taken to succeed there, and the worker end's own quotas are not modelled.
    \<^verbatim>\<open>Peer_Heartbeat\<close> (\<^verbatim>\<open>probe_state.rs\<close> of the
    client core, \<^verbatim>\<open>peer_carrier/heartbeat.rs\<close>, \<^verbatim>\<open>life.rs\<close> and \<^verbatim>\<open>pump/peer_lane/liveness.rs\<close> of \<^verbatim>\<open>roost-web\<close>): the probes of a
    peer and how long a silent worker is waited for. \<^verbatim>\<open>Peer_Carriers\<close> (\<^verbatim>\<open>peer_carrier/mod.rs\<close>, \<^verbatim>\<open>attempt.rs\<close>,
    \<^verbatim>\<open>carriers/route.rs\<close>): an attempt's lanes and identity, and the indexes of a document over its attempts,
    whose agreement is an interpretation of \<^verbatim>\<open>invariant_machine\<close>.

  \<^bold>\<open>How state and effects are written.\<close> A struct is a record with prefixed fields, an enum a
  datatype with the source's constructors, a hash map a partial function, a vector a list. Unsigned
  integers are natural numbers with the code's saturating, checked or wrapping operation written
  out where it occurs: the sequences of the worker's link, the socket generations, the delivery
  sequences, the message and resize numbers. The client's other 64-bit counters, which grow by one plain
  addition per event and are only compared (the input sequence, claim ids, view and repaint revisions),
  are natural numbers without a bound: what is proved of them holds until one of them has counted \<open>2\<^sup>6\<^sup>4\<close>
  events. A method that mutates its receiver returns it; a method that can fail returns
  a result, and a method that mutates and then fails returns both. The iteration order of a hash map
  is not specified by the language, so an operation that walks one takes the visiting order as a
  list argument, and its theorems hold for every order that enumerates the map's keys. Concurrent
  code is a set of steps, one per critical section, and its theorems range over all sequences of them.

  \<^bold>\<open>Termination.\<close> Every function is total in the logic. Loops over data are structural; the two
  eviction loops of the claim store decrease the length of the order list, the frame decoder the
  length of its buffer. Loops that wait on a descriptor, a socket or a queue recurse over the list of
  what it answers and are \<open>None\<close> when that runs out; no other fuel is used.

  \<^bold>\<open>What is not modelled.\<close> Protobuf byte encoding and serde parsing are generated code: the
  messages are modelled as their decoded records and the parsers are parameters. Log lines, error
  prose and the sink objects that carry replies are left out. Opening and resizing a PTY, process
  signalling, sockets, files, clocks and SHA-256 are parameters or left out. The asynchronous services
  (the coordinator beyond its v1 sockets, the worker around its link), the renderer and the command line are outside this development, and of the
  client core the negotiation of direct carriers, staged candidates, and the agent, deck and preference
  planes; the manifest lists each with the reason.
\<close>

end
